(* ===== verification/Prelude.thy ===== *)
theory Prelude
  imports Main "HOL-Library.Word"
begin

text \<open>
  Shared vocabulary of the development: the errors the chain raises, the error monad in which
  every fallible operation of the code is written, the parameters that stand for libraries
  outside the repository, and generic lemmas on association lists and sums.

  A C++ exception is a value \<open>Inl e\<close>; \<open>FC_ASSERT\<close> and \<open>FC_VERIFY_AND_THROW\<close>
  are tests that return \<open>Inl\<close>. A C++ \<open>assert\<close> (compiled out of release builds) is
  not a test of the model: where one occurs in the code, a theorem says that it cannot fire.
\<close>

section \<open>Errors and the error monad\<close>

text \<open>
  The exception types the modelled code throws: \<open>fc::assert_exception\<close> (every
  \<open>FC_ASSERT\<close>), the exceptions of \<open>db/exceptions.hpp\<close> and
  \<open>chain/exceptions.hpp\<close>, and the arithmetic exceptions of \<open>fc::safe\<close>.
  \<open>Undefined_Behaviour\<close> marks a division by zero or an access beyond a container, which the
  code does not check.
\<close>

datatype err =
    Assert_Exception
  | Object_Not_Found
  | Invalid_Index
  | Overflow
  | Out_Of_Range
  | Key_Not_Found
  | Unlinkable_Block
  | Insufficient_Fee
  | Asset_Reserve_Invalid_On_Mia
  | Undo_Database_Exception
  | Pop_Empty_Chain
  | Tx_Irrelevant_Sig
  | Tx_Missing_Active_Auth
  | Tx_Missing_Owner_Auth
  | Tx_Missing_Other_Auth
  | Tx_Duplicate_Sig
  | Invalid_Committee_Approval
  | Trx_Must_Have_At_Least_One_Op
  | Operation_Validate_Exception
  | Max_Auth_Exceeded
  | Auth_Account_Not_Found
  | Review_Period_Required
  | Review_Period_Insufficient
  | Undefined_Behaviour

type_synonym 'a res = "err + 'a"

definition bindE :: "'a res \<Rightarrow> ('a \<Rightarrow> 'b res) \<Rightarrow> 'b res" where
  "bindE m f = (case m of Inl e \<Rightarrow> Inl e | Inr x \<Rightarrow> f x)"

definition require :: "bool \<Rightarrow> err \<Rightarrow> unit res" where
  "require c e = (if c then Inr () else Inl e)"

definition lift_opt :: "err \<Rightarrow> 'a option \<Rightarrow> 'a res" where
  "lift_opt e m = (case m of None \<Rightarrow> Inl e | Some x \<Rightarrow> Inr x)"

primrec foldE :: "('a \<Rightarrow> 's \<Rightarrow> 's res) \<Rightarrow> 'a list \<Rightarrow> 's \<Rightarrow> 's res" where
  "foldE f [] s = Inr s"
| "foldE f (x # xs) s = bindE (f x s) (foldE f xs)"

lemma bindE_simps [simp]:
  "bindE (Inl e) f = Inl e"
  "bindE (Inr x) f = f x"
  by (simp_all add: bindE_def)

lemma bindE_eq_Inr [simp]: "bindE m f = Inr y \<longleftrightarrow> (\<exists>x. m = Inr x \<and> f x = Inr y)"
  by (cases m) simp_all

lemma require_eq_Inr [simp]: "require c e = Inr u \<longleftrightarrow> c"
  by (simp add: require_def)

lemma require_simps [simp]:
  "require True e = Inr ()"
  "require False e = Inl e"
  by (simp_all add: require_def)

lemma lift_opt_eq_Inr [simp]: "lift_opt e m = Inr x \<longleftrightarrow> m = Some x"
  by (cases m) (simp_all add: lift_opt_def)

lemma lift_opt_simps [simp]:
  "lift_opt e (Some x) = Inr x"
  "lift_opt e None = Inl e"
  by (simp_all add: lift_opt_def)

text \<open>Whether a computation returns, in a form the kernel evaluates.\<close>

definition succeeds :: "'a res \<Rightarrow> bool" where
  "succeeds r = (case r of Inl _ \<Rightarrow> False | Inr _ \<Rightarrow> True)"

lemma succeedsE:
  assumes "succeeds r"
  obtains x where "r = Inr x"
  using assms by (auto simp: succeeds_def split: sum.splits)

lemma foldE_append: "foldE f (xs @ ys) s = bindE (foldE f xs s) (foldE f ys)"
proof (induction xs arbitrary: s)
  case Nil
  then show ?case by simp
next
  case (Cons x xs)
  then show ?case by (cases "f x s") simp_all
qed

text \<open>An invariant that every step keeps is kept by a loop over a list.\<close>

lemma foldE_invariant:
  assumes "foldE f xs s = Inr t" and "I s"
    and "\<And>x s s'. x \<in> set xs \<Longrightarrow> I s \<Longrightarrow> f x s = Inr s' \<Longrightarrow> I s'"
  shows "I t"
  using assms
proof (induction xs arbitrary: s)
  case Nil
  then show ?case by simp
next
  case (Cons x xs)
  from Cons.prems(1) obtain s' where s': "f x s = Inr s'" and rest: "foldE f xs s' = Inr t"
    by auto
  have "I s'" using Cons.prems(3) [OF _ Cons.prems(2) s'] by simp
  then show ?case using Cons.IH [OF rest] Cons.prems(3) by (meson list.set_intros(2))
qed

section \<open>Association lists\<close>

text \<open>
  The rows of an index are kept sorted by object id, as the \<open>ordered_unique\<close> key
  \<open>by_id\<close> of every multi-index container of the code keeps them.
\<close>

type_synonym 'a rows = "(nat \<times> 'a) list"

fun put_row :: "nat \<Rightarrow> 'a \<Rightarrow> 'a rows \<Rightarrow> 'a rows" where
  "put_row k v [] = [(k, v)]"
| "put_row k v ((a, b) # ps) =
     (if k < a then (k, v) # (a, b) # ps
      else if k = a then (k, v) # ps
      else (a, b) # put_row k v ps)"

definition del_row :: "nat \<Rightarrow> 'a rows \<Rightarrow> 'a rows" where
  "del_row k ps = filter (\<lambda>p. fst p \<noteq> k) ps"

definition sorted_rows :: "'a rows \<Rightarrow> bool" where
  "sorted_rows ps \<longleftrightarrow> sorted_wrt (<) (map fst ps)"

lemma sorted_rows_Nil [simp]: "sorted_rows []"
  by (simp add: sorted_rows_def)

lemma sorted_rows_Cons [simp]:
  "sorted_rows ((k, v) # ps) \<longleftrightarrow> (\<forall>p \<in> set ps. k < fst p) \<and> sorted_rows ps"
  by (auto simp: sorted_rows_def)

lemma map_of_put_row [simp]: "map_of (put_row k v ps) = (map_of ps)(k \<mapsto> v)"
  by (induction k v ps rule: put_row.induct) (auto simp: fun_eq_iff)

lemma map_of_del_row [simp]: "map_of (del_row k ps) = (map_of ps)(k := None)"
  by (induction ps) (auto simp: del_row_def fun_eq_iff)

lemma set_put_row_subset: "set (put_row k v ps) \<subseteq> insert (k, v) (set ps)"
  by (induction k v ps rule: put_row.induct) auto

lemma sorted_put_row [simp]: "sorted_rows ps \<Longrightarrow> sorted_rows (put_row k v ps)"
proof (induction k v ps rule: put_row.induct)
  case (1 k v)
  then show ?case by simp
next
  case (2 k v a b ps)
  have "\<forall>p \<in> set (put_row k v ps). a < fst p" if "a < k"
    using set_put_row_subset [of k v ps] that "2.prems" by force
  then show ?case
    using 2 by (cases k a rule: linorder_cases) force+
qed

lemma sorted_del_row [simp]: "sorted_rows ps \<Longrightarrow> sorted_rows (del_row k ps)"
  by (induction ps) (auto simp: del_row_def)

lemma sorted_rows_distinct: "sorted_rows ps \<Longrightarrow> distinct (map fst ps)"
  by (simp add: sorted_rows_def strict_sorted_iff)

lemma sorted_wrt_fst_unique:
  fixes ps qs :: "('a::linorder \<times> 'b) list"
  assumes "sorted_wrt (\<lambda>p q. fst p < fst q) ps" and "sorted_wrt (\<lambda>p q. fst p < fst q) qs"
    and "set ps = set qs"
  shows "ps = qs"
  using assms
proof (induction ps arbitrary: qs)
  case Nil
  then show ?case by simp
next
  case (Cons p ps)
  from Cons.prems(3) obtain q qs' where qs: "qs = q # qs'" by (cases qs) auto
  have "p = q"
  proof (rule ccontr)
    assume "p \<noteq> q"
    with Cons.prems(3) qs have "q \<in> set ps" and "p \<in> set qs'" by auto
    with Cons.prems(1,2) qs have "fst p < fst q" and "fst q < fst p" by auto
    then show False by simp
  qed
  moreover have "p \<notin> set ps" and "q \<notin> set qs'" using Cons.prems(1,2) qs by auto
  ultimately have "set ps = set qs'" using Cons.prems(3) qs by (metis insert_ident list.set(2))
  then show ?case using Cons.IH [of qs'] Cons.prems(1,2) qs \<open>p = q\<close> by simp
qed

text \<open>Sorted rows are determined by the map they represent.\<close>

lemma sorted_rows_ext:
  assumes "sorted_rows ps" and "sorted_rows qs" and "map_of ps = map_of qs"
  shows "ps = qs"
proof -
  have d: "distinct (map fst ps)" "distinct (map fst qs)"
    using assms(1,2) by (simp_all add: sorted_rows_distinct)
  have s: "set ps = set qs"
    using map_of_inject_set [OF d] assms(3) by simp
  have "sorted_wrt (\<lambda>p q. fst p < fst q) ps" "sorted_wrt (\<lambda>p q. fst p < fst q) qs"
    using assms(1,2) by (simp_all add: sorted_rows_def sorted_wrt_map)
  then show ?thesis
    using s by (intro sorted_wrt_fst_unique)
qed

end
