(* ===== verification/Object_Index.thy ===== *)
theory Object_Index
  imports Prelude
begin

text \<open>
  The object indexes of \<open>libraries/db\<close>: \<open>generic_index\<close> (a multi-index container
  keyed by object id, with further unique keys), \<open>simple_index\<close> (a vector indexed by the
  instance number), the virtual class \<open>index\<close> over them, and the contract both implement
  as the locale \<open>object_index\<close>.

  Object ids of one index share space and type, so an index is keyed by the instance number.
  The further unique keys of a container are declared per object type; \<open>clash x y\<close> says
  that two objects agree on one of them.
\<close>

section \<open>generic\_index\<close>

record 'o generic_index =
  g_next_id :: nat
  g_rows :: "'o rows"

definition generic_find :: "'o generic_index \<Rightarrow> nat \<Rightarrow> 'o option" where
  "generic_find i k = map_of (g_rows i) k"

text \<open>The container refuses an element whose id or another unique key is already taken.\<close>

definition violates_unique :: "('o \<Rightarrow> 'o \<Rightarrow> bool) \<Rightarrow> nat \<Rightarrow> 'o \<Rightarrow> 'o rows \<Rightarrow> bool" where
  "violates_unique clash k x ps \<longleftrightarrow> list_ex (\<lambda>p. fst p = k \<or> clash x (snd p)) ps"

definition generic_insert ::
  "('o \<Rightarrow> 'o \<Rightarrow> bool) \<Rightarrow> nat \<Rightarrow> 'o \<Rightarrow> 'o generic_index \<Rightarrow> 'o generic_index res" where
  "generic_insert clash k x i =
     (if violates_unique clash k x (g_rows i) then Inl Assert_Exception
      else Inr (i\<lparr>g_rows := put_row k x (g_rows i)\<rparr>))"

definition generic_create ::
  "('o \<Rightarrow> 'o \<Rightarrow> bool) \<Rightarrow> (nat \<Rightarrow> 'o) \<Rightarrow> 'o generic_index \<Rightarrow> 'o generic_index res" where
  "generic_create clash ctor i =
     (let k = g_next_id i; x = ctor k
      in if violates_unique clash k x (g_rows i) then Inl Assert_Exception
         else Inr (i\<lparr>g_rows := put_row k x (g_rows i), g_next_id := Suc k\<rparr>))"

text \<open>
  \<open>modify\<close> works on an element of the container; the other elements must not share a
  unique key with the new value.
\<close>

definition generic_modify ::
  "('o \<Rightarrow> 'o \<Rightarrow> bool) \<Rightarrow> nat \<Rightarrow> ('o \<Rightarrow> 'o) \<Rightarrow> 'o generic_index \<Rightarrow> 'o generic_index res" where
  "generic_modify clash k f i =
     (case map_of (g_rows i) k of
        None \<Rightarrow> Inl Object_Not_Found
      | Some x \<Rightarrow>
          if list_ex (\<lambda>p. clash (f x) (snd p)) (del_row k (g_rows i)) then Inl Assert_Exception
          else Inr (i\<lparr>g_rows := put_row k (f x) (g_rows i)\<rparr>))"

definition generic_remove :: "nat \<Rightarrow> 'o generic_index \<Rightarrow> 'o generic_index" where
  "generic_remove k i = i\<lparr>g_rows := del_row k (g_rows i)\<rparr>"

definition generic_invar :: "'o generic_index \<Rightarrow> bool" where
  "generic_invar i \<longleftrightarrow> sorted_rows (g_rows i) \<and> (\<forall>p \<in> set (g_rows i). fst p < g_next_id i)"

section \<open>simple\_index\<close>

record 'o simple_index =
  s_next_id :: nat
  s_objects :: "'o option list"

text \<open>\<open>vector::resize\<close> to at least \<open>n\<close> slots, new slots null.\<close>

definition resize_to :: "nat \<Rightarrow> 'o option list \<Rightarrow> 'o option list" where
  "resize_to n xs = (if length xs < n then xs @ replicate (n - length xs) None else xs)"

definition simple_find :: "'o simple_index \<Rightarrow> nat \<Rightarrow> 'o option" where
  "simple_find i k = (if length (s_objects i) \<le> k then None else s_objects i ! k)"

definition simple_create :: "(nat \<Rightarrow> 'o) \<Rightarrow> 'o simple_index \<Rightarrow> 'o simple_index" where
  "simple_create ctor i =
     (let k = s_next_id i
      in i\<lparr>s_objects := (resize_to (Suc k) (s_objects i))[k := Some (ctor k)], s_next_id := Suc k\<rparr>)"

definition simple_insert :: "nat \<Rightarrow> 'o \<Rightarrow> 'o simple_index \<Rightarrow> 'o simple_index" where
  "simple_insert k x i = i\<lparr>s_objects := (resize_to (Suc k) (s_objects i))[k := Some x]\<rparr>"

definition simple_modify :: "nat \<Rightarrow> ('o \<Rightarrow> 'o) \<Rightarrow> 'o simple_index \<Rightarrow> 'o simple_index res" where
  "simple_modify k f i =
     (case simple_find i k of
        None \<Rightarrow> Inl Object_Not_Found
      | Some x \<Rightarrow> Inr (i\<lparr>s_objects := (s_objects i)[k := Some (f x)]\<rparr>))"

text \<open>The loop \<open>while (size > 0 \<and> back = nullptr) pop\_back\<close>.\<close>

definition pop_null_back :: "'o option list \<Rightarrow> 'o option list" where
  "pop_null_back xs = rev (dropWhile (\<lambda>x. x = None) (rev xs))"

definition simple_remove :: "nat \<Rightarrow> 'o simple_index \<Rightarrow> 'o simple_index" where
  "simple_remove k i = i\<lparr>s_objects := pop_null_back ((s_objects i)[k := None])\<rparr>"

definition simple_invar :: "'o simple_index \<Rightarrow> bool" where
  "simple_invar i \<longleftrightarrow> length (s_objects i) \<le> s_next_id i \<and>
     (s_objects i = [] \<or> last (s_objects i) \<noteq> None)"

section \<open>The virtual class index\<close>

datatype 'o any_index = Generic "'o generic_index" | Simple "'o simple_index"

fun idx_find :: "'o any_index \<Rightarrow> nat \<Rightarrow> 'o option" where
  "idx_find (Generic i) k = generic_find i k"
| "idx_find (Simple i) k = simple_find i k"

definition idx_get :: "'o any_index \<Rightarrow> nat \<Rightarrow> 'o res" where
  "idx_get i k = lift_opt Object_Not_Found (idx_find i k)"

fun get_next_id :: "'o any_index \<Rightarrow> nat" where
  "get_next_id (Generic i) = g_next_id i"
| "get_next_id (Simple i) = s_next_id i"

fun set_next_id :: "nat \<Rightarrow> 'o any_index \<Rightarrow> 'o any_index" where
  "set_next_id n (Generic i) = Generic (i\<lparr>g_next_id := n\<rparr>)"
| "set_next_id n (Simple i) = Simple (i\<lparr>s_next_id := n\<rparr>)"

fun idx_create :: "('o \<Rightarrow> 'o \<Rightarrow> bool) \<Rightarrow> (nat \<Rightarrow> 'o) \<Rightarrow> 'o any_index \<Rightarrow> 'o any_index res" where
  "idx_create clash ctor (Generic i) = bindE (generic_create clash ctor i) (\<lambda>i'. Inr (Generic i'))"
| "idx_create clash ctor (Simple i) = Inr (Simple (simple_create ctor i))"

fun idx_insert :: "('o \<Rightarrow> 'o \<Rightarrow> bool) \<Rightarrow> nat \<Rightarrow> 'o \<Rightarrow> 'o any_index \<Rightarrow> 'o any_index res" where
  "idx_insert clash k x (Generic i) = bindE (generic_insert clash k x i) (\<lambda>i'. Inr (Generic i'))"
| "idx_insert clash k x (Simple i) = Inr (Simple (simple_insert k x i))"

fun idx_modify :: "('o \<Rightarrow> 'o \<Rightarrow> bool) \<Rightarrow> nat \<Rightarrow> ('o \<Rightarrow> 'o) \<Rightarrow> 'o any_index \<Rightarrow> 'o any_index res" where
  "idx_modify clash k f (Generic i) = bindE (generic_modify clash k f i) (\<lambda>i'. Inr (Generic i'))"
| "idx_modify clash k f (Simple i) = bindE (simple_modify k f i) (\<lambda>i'. Inr (Simple i'))"

fun idx_remove :: "nat \<Rightarrow> 'o any_index \<Rightarrow> 'o any_index" where
  "idx_remove k (Generic i) = Generic (generic_remove k i)"
| "idx_remove k (Simple i) = Simple (simple_remove k i)"

fun idx_invar :: "'o any_index \<Rightarrow> bool" where
  "idx_invar (Generic i) = generic_invar i"
| "idx_invar (Simple i) = simple_invar i"

section \<open>The contract of an index\<close>

text \<open>
  What the undo database and the chain rely on: a lookup function, an id counter above every
  id in use, and the effect of each operation on both. \<open>clashes x i k\<close> says that storing
  \<open>x\<close> under \<open>k\<close> would break a unique key of another row.
\<close>

locale object_index =
  fixes lookup :: "'i \<Rightarrow> nat \<Rightarrow> 'o option"
    and next_of :: "'i \<Rightarrow> nat"
    and set_next :: "nat \<Rightarrow> 'i \<Rightarrow> 'i"
    and create :: "(nat \<Rightarrow> 'o) \<Rightarrow> 'i \<Rightarrow> 'i res"
    and insert_obj :: "nat \<Rightarrow> 'o \<Rightarrow> 'i \<Rightarrow> 'i res"
    and modify :: "nat \<Rightarrow> ('o \<Rightarrow> 'o) \<Rightarrow> 'i \<Rightarrow> 'i res"
    and remove_obj :: "nat \<Rightarrow> 'i \<Rightarrow> 'i"
    and invar :: "'i \<Rightarrow> bool"
    and same_kind :: "'i \<Rightarrow> 'i \<Rightarrow> bool"
  assumes fresh: "invar i \<Longrightarrow> next_of i \<le> k \<Longrightarrow> lookup i k = None"
    and set_next_law: "invar i \<Longrightarrow> (\<And>k. n \<le> k \<Longrightarrow> lookup i k = None) \<Longrightarrow>
      invar (set_next n i) \<and> lookup (set_next n i) = lookup i \<and> next_of (set_next n i) = n"
    and create_law: "invar i \<Longrightarrow> create ctor i = Inr i' \<Longrightarrow>
      invar i' \<and> lookup i' = (lookup i)(next_of i \<mapsto> ctor (next_of i)) \<and>
      next_of i' = Suc (next_of i)"
    and insert_law: "invar i \<Longrightarrow> k < next_of i \<Longrightarrow> insert_obj k x i = Inr i' \<Longrightarrow>
      invar i' \<and> lookup i' = (lookup i)(k \<mapsto> x) \<and> next_of i' = next_of i"
    and modify_law: "invar i \<Longrightarrow> modify k f i = Inr i' \<Longrightarrow>
      \<exists>x. lookup i k = Some x \<and> invar i' \<and> lookup i' = (lookup i)(k \<mapsto> f x) \<and>
      next_of i' = next_of i"
    and remove_law: "invar i \<Longrightarrow> lookup i k = Some x \<Longrightarrow>
      invar (remove_obj k i) \<and> lookup (remove_obj k i) = (lookup i)(k := None) \<and>
      next_of (remove_obj k i) = next_of i"
    and lookup_ext: "invar i \<Longrightarrow> invar j \<Longrightarrow> lookup i = lookup j \<Longrightarrow>
      next_of i = next_of j \<Longrightarrow> same_kind i j \<Longrightarrow> i = j"
begin

lemma create_fresh: "invar i \<Longrightarrow> create ctor i = Inr i' \<Longrightarrow> lookup i (next_of i) = None"
  by (simp add: fresh)

text \<open>Removing what was created restores every lookup; the id stays used.\<close>

lemma create_remove:
  assumes "invar i" and "create ctor i = Inr i'"
  shows "lookup (remove_obj (next_of i) i') = lookup i"
    and "next_of (remove_obj (next_of i) i') = Suc (next_of i)"
proof -
  note c = create_law [OF assms]
  have found: "lookup i' (next_of i) = Some (ctor (next_of i))" using c by simp
  note r = remove_law [OF _ found]
  show "lookup (remove_obj (next_of i) i') = lookup i"
    using r c fresh [OF assms(1), of "next_of i"] by (auto simp: fun_eq_iff)
  show "next_of (remove_obj (next_of i) i') = Suc (next_of i)" using r c by simp
qed

text \<open>Putting a removed object back restores the index exactly.\<close>

lemma remove_insert:
  assumes "invar i" and "lookup i k = Some x" and "insert_obj k x (remove_obj k i) = Inr i'"
    and "same_kind i' i"
  shows "i' = i"
proof -
  have k: "k < next_of i" using fresh [OF assms(1), of k] assms(2) by fastforce
  note r = remove_law [OF assms(1,2)]
  have "invar i' \<and> lookup i' = (lookup (remove_obj k i))(k \<mapsto> x) \<and>
      next_of i' = next_of (remove_obj k i)"
    using insert_law [OF _ _ assms(3)] r k by simp
  then have "lookup i' = lookup i" and "next_of i' = next_of i" and "invar i'"
    using r assms(2) by (auto simp: fun_eq_iff)
  then show ?thesis using lookup_ext [OF _ assms(1) _ _ assms(4)] by blast
qed

end

section \<open>generic\_index keeps the contract\<close>

lemma violates_unique_iff:
  "violates_unique clash k x ps \<longleftrightarrow> (\<exists>p \<in> set ps. fst p = k \<or> clash x (snd p))"
  by (simp add: violates_unique_def list_ex_iff)

lemma generic_fresh: "generic_invar i \<Longrightarrow> g_next_id i \<le> k \<Longrightarrow> generic_find i k = None"
  by (fastforce simp: generic_invar_def generic_find_def map_of_eq_None_iff)

lemma generic_invar_put:
  "generic_invar i \<Longrightarrow> k < n \<Longrightarrow> g_next_id i \<le> n \<Longrightarrow>
   generic_invar (i\<lparr>g_rows := put_row k x (g_rows i), g_next_id := n\<rparr>)"
  using set_put_row_subset [of k x "g_rows i"] by (fastforce simp: generic_invar_def)

lemma generic_create_law:
  "generic_invar i \<Longrightarrow> generic_create clash ctor i = Inr i' \<Longrightarrow>
   generic_invar i' \<and> generic_find i' = (generic_find i)(g_next_id i \<mapsto> ctor (g_next_id i)) \<and>
   g_next_id i' = Suc (g_next_id i)"
  using generic_invar_put [of i "g_next_id i" "Suc (g_next_id i)" "ctor (g_next_id i)"]
  by (auto simp: generic_create_def Let_def generic_find_def fun_eq_iff split: if_splits)

lemma generic_insert_law:
  "generic_invar i \<Longrightarrow> k < g_next_id i \<Longrightarrow> generic_insert clash k x i = Inr i' \<Longrightarrow>
   generic_invar i' \<and> generic_find i' = (generic_find i)(k \<mapsto> x) \<and> g_next_id i' = g_next_id i"
  using generic_invar_put [of i k "g_next_id i" x]
  by (auto simp: generic_insert_def generic_find_def fun_eq_iff split: if_splits)

lemma generic_find_less: "generic_invar i \<Longrightarrow> generic_find i k = Some x \<Longrightarrow> k < g_next_id i"
  using generic_fresh [of i k] by fastforce

lemma generic_modify_law:
  "generic_invar i \<Longrightarrow> generic_modify clash k f i = Inr i' \<Longrightarrow>
   \<exists>x. generic_find i k = Some x \<and> generic_invar i' \<and>
     generic_find i' = (generic_find i)(k \<mapsto> f x) \<and> g_next_id i' = g_next_id i"
  using generic_find_less [of i k] generic_invar_put [of i k "g_next_id i"]
  by (auto simp: generic_modify_def generic_find_def fun_eq_iff split: option.splits if_splits)

lemma generic_remove_law:
  "generic_invar i \<Longrightarrow> generic_invar (generic_remove k i) \<and>
   generic_find (generic_remove k i) = (generic_find i)(k := None) \<and>
   g_next_id (generic_remove k i) = g_next_id i"
  by (auto simp: generic_remove_def generic_invar_def generic_find_def fun_eq_iff del_row_def
      sorted_del_row [unfolded del_row_def] map_of_del_row [unfolded del_row_def])

lemma generic_set_next_law:
  "generic_invar i \<Longrightarrow> (\<And>k. n \<le> k \<Longrightarrow> generic_find i k = None) \<Longrightarrow>
   generic_invar (i\<lparr>g_next_id := n\<rparr>)"
  by (auto simp: generic_invar_def generic_find_def map_of_eq_None_iff) (metis leI imageI fst_conv)

lemma generic_ext:
  assumes "generic_invar i" "generic_invar j" "generic_find i = generic_find j" "g_next_id i = g_next_id j"
  shows "i = j"
proof -
  have "g_rows i = g_rows j"
    using assms(1-3) by (intro sorted_rows_ext) (auto simp: generic_invar_def generic_find_def fun_eq_iff)
  then show ?thesis using assms(4) by (cases i, cases j) simp
qed

interpretation generic: object_index generic_find g_next_id "\<lambda>n i. i\<lparr>g_next_id := n\<rparr>"
  "generic_create clash" "generic_insert clash" "generic_modify clash" generic_remove generic_invar
  "\<lambda>_ _. True"
  for clash :: "'o \<Rightarrow> 'o \<Rightarrow> bool"
proof (unfold_locales, goal_cases)
  case (1 i k)
  then show ?case by (rule generic_fresh)
next
  case (2 i n)
  then show ?case using generic_set_next_law [OF 2] by (simp add: generic_find_def fun_eq_iff)
next
  case (3 i ctor i')
  then show ?case by (rule generic_create_law)
next
  case (4 i k x i')
  then show ?case by (rule generic_insert_law)
next
  case (5 i k f i')
  then show ?case by (rule generic_modify_law)
next
  case (6 i k x)
  then show ?case by (simp add: generic_remove_law)
next
  case (7 i j)
  then show ?case by (intro generic_ext)
qed

section \<open>simple\_index keeps the contract\<close>

lemma length_resize_to [simp]: "length (resize_to n xs) = max n (length xs)"
  by (simp add: resize_to_def)

lemma resize_to_same [simp]: "n \<le> length xs \<Longrightarrow> resize_to n xs = xs"
  by (simp add: resize_to_def)

lemma nth_resize_to: "k < max n (length xs) \<Longrightarrow>
    resize_to n xs ! k = (if k < length xs then xs ! k else None)"
  by (auto simp: resize_to_def nth_append)

lemma last_list_update_back: "length xs = Suc k \<Longrightarrow> last (xs[k := y]) = y"
  by (metis diff_Suc_1 last_list_update length_greater_0_conv list.size(3) nat.distinct(1))

text \<open>The effect on lookups of storing into a slot, shared by create, insert and modify.\<close>

lemma simple_find_store:
  "simple_find (i\<lparr>s_objects := (resize_to (Suc k) (s_objects i))[k := Some x]\<rparr>) =
   (simple_find i)(k \<mapsto> x)"
  by (auto simp: simple_find_def fun_eq_iff nth_list_update nth_resize_to)

lemma simple_find_next [simp]: "simple_find (i\<lparr>s_next_id := n\<rparr>) = simple_find i"
  by (simp add: simple_find_def fun_eq_iff)

lemma simple_last:
  assumes "simple_invar i" and "s_objects i \<noteq> []"
  shows "simple_find i (length (s_objects i) - 1) \<noteq> None"
proof -
  have "\<not> length (s_objects i) \<le> length (s_objects i) - 1" using assms(2) by (cases "s_objects i") auto
  then show ?thesis using assms by (auto simp: simple_invar_def simple_find_def last_conv_nth)
qed

lemma simple_invar_store:
  assumes "simple_invar i" and "k < n" and "s_next_id i \<le> n"
  shows "simple_invar (i\<lparr>s_objects := (resize_to (Suc k) (s_objects i))[k := Some x], s_next_id := n\<rparr>)"
proof (cases "length (s_objects i) \<le> k")
  case True
  then have "length (resize_to (Suc k) (s_objects i)) = Suc k" by simp
  from last_list_update_back [OF this] show ?thesis
    using assms True by (auto simp: simple_invar_def)
next
  case False
  then have r: "resize_to (Suc k) (s_objects i) = s_objects i" by simp
  have "s_objects i \<noteq> []" using False by auto
  then show ?thesis
    using assms False by (auto simp: simple_invar_def r last_list_update)
qed

lemma simple_fresh: "simple_invar i \<Longrightarrow> s_next_id i \<le> k \<Longrightarrow> simple_find i k = None"
  by (simp add: simple_invar_def simple_find_def)

lemma simple_create_law:
  "simple_invar i \<Longrightarrow> simple_invar (simple_create ctor i) \<and>
   simple_find (simple_create ctor i) = (simple_find i)(s_next_id i \<mapsto> ctor (s_next_id i)) \<and>
   s_next_id (simple_create ctor i) = Suc (s_next_id i)"
  using simple_invar_store [of i "s_next_id i" "Suc (s_next_id i)" "ctor (s_next_id i)"]
    simple_find_store [of "s_next_id i" i "ctor (s_next_id i)"]
  by (simp add: simple_create_def Let_def)

lemma simple_insert_law:
  "simple_invar i \<Longrightarrow> k < s_next_id i \<Longrightarrow> simple_invar (simple_insert k x i) \<and>
   simple_find (simple_insert k x i) = (simple_find i)(k \<mapsto> x) \<and>
   s_next_id (simple_insert k x i) = s_next_id i"
  using simple_invar_store [of i k "s_next_id i" x] simple_find_store [of k i x]
  by (simp add: simple_insert_def)

lemma simple_modify_law:
  assumes "simple_invar i" and "simple_modify k f i = Inr i'"
  shows "\<exists>x. simple_find i k = Some x \<and> simple_invar i' \<and>
     simple_find i' = (simple_find i)(k \<mapsto> f x) \<and> s_next_id i' = s_next_id i"
proof -
  from assms(2) obtain x where x: "simple_find i k = Some x"
    and i': "i' = i\<lparr>s_objects := (s_objects i)[k := Some (f x)]\<rparr>"
    by (auto simp: simple_modify_def split: option.splits)
  then have k: "k < length (s_objects i)" by (auto simp: simple_find_def split: if_splits)
  then have r: "resize_to (Suc k) (s_objects i) = s_objects i" by simp
  have "k < s_next_id i" using k assms(1) by (simp add: simple_invar_def)
  then show ?thesis
    using simple_invar_store [OF assms(1), of k "s_next_id i" "f x"] simple_find_store [of k i "f x"] x
    by (simp add: i' r)
qed

lemma last_dropWhile_rev: "pop_null_back xs = [] \<or> last (pop_null_back xs) \<noteq> None"
proof (cases "dropWhile (\<lambda>x. x = None) (rev xs)")
  case Nil
  then show ?thesis by (simp add: pop_null_back_def)
next
  case (Cons y ys)
  then have "y \<noteq> None" using hd_dropWhile [of "\<lambda>x. x = None" "rev xs"] by simp
  then show ?thesis using Cons by (simp add: pop_null_back_def)
qed

lemma pop_null_back_append: "\<exists>n. xs = pop_null_back xs @ replicate n None"
proof -
  have "takeWhile (\<lambda>x. x = None) (rev xs) @ dropWhile (\<lambda>x. x = None) (rev xs) = rev xs"
    by simp
  then have "xs = pop_null_back xs @ rev (takeWhile (\<lambda>x. x = None) (rev xs))"
    by (metis pop_null_back_def rev_append rev_rev_ident)
  moreover have "rev (takeWhile (\<lambda>x. x = None) (rev xs)) =
      replicate (length (takeWhile (\<lambda>x. x = None) (rev xs))) None"
    by (intro replicate_eqI) (auto dest: set_takeWhileD)
  ultimately show ?thesis by metis
qed

lemma simple_find_pop:
  "simple_find (i\<lparr>s_objects := pop_null_back xs\<rparr>) k = (if length xs \<le> k then None else xs ! k)"
proof -
  obtain n where "xs = pop_null_back xs @ replicate n None"
    using pop_null_back_append by metis
  then have "length xs = length (pop_null_back xs) + n"
    and "\<And>k. k < length xs \<Longrightarrow> xs ! k = (if k < length (pop_null_back xs) then pop_null_back xs ! k else None)"
    by (metis length_append length_replicate, metis (no_types, lifting) add_diff_inverse_nat length_append
        length_replicate nat_add_left_cancel_less nth_append nth_replicate)
  then show ?thesis by (auto simp: simple_find_def)
qed

lemma length_pop_null_back: "length (pop_null_back xs) \<le> length xs"
  by (metis length_append le_add1 pop_null_back_append)

lemma simple_remove_law:
  assumes "simple_invar i"
  shows "simple_invar (simple_remove k i) \<and>
    simple_find (simple_remove k i) = (simple_find i)(k := None) \<and>
    s_next_id (simple_remove k i) = s_next_id i"
proof (intro conjI)
  have "simple_find (simple_remove k i) j = ((simple_find i)(k := None)) j" for j
    unfolding simple_remove_def simple_find_pop by (simp add: simple_find_def nth_list_update)
  then show "simple_find (simple_remove k i) = (simple_find i)(k := None)" by (simp add: fun_eq_iff)
  show "simple_invar (simple_remove k i)"
    using last_dropWhile_rev [of "(s_objects i)[k := None]"]
      length_pop_null_back [of "(s_objects i)[k := None]"] assms
    by (auto simp: simple_remove_def simple_invar_def)
qed (simp add: simple_remove_def)

lemma simple_set_next_law:
  assumes "simple_invar i" and none: "\<And>k. n \<le> k \<Longrightarrow> simple_find i k = None"
  shows "simple_invar (i\<lparr>s_next_id := n\<rparr>)"
proof (cases "s_objects i = []")
  case True
  then show ?thesis by (simp add: simple_invar_def)
next
  case False
  then have "simple_find i (length (s_objects i) - 1) \<noteq> None"
    using assms(1) by (rule simple_last [rotated])
  then have "length (s_objects i) - 1 < n" using none by (meson leI)
  then show ?thesis using assms(1) False by (auto simp: simple_invar_def)
qed

lemma simple_length_le:
  assumes "simple_invar i" and "simple_find i = simple_find j"
  shows "length (s_objects i) \<le> length (s_objects j)"
proof (rule ccontr)
  assume less: "\<not> ?thesis"
  then have "s_objects i \<noteq> []" by auto
  then have "simple_find i (length (s_objects i) - 1) \<noteq> None"
    using assms(1) by (rule simple_last [rotated])
  moreover have "length (s_objects j) \<le> length (s_objects i) - 1" using less by simp
  then have "simple_find j (length (s_objects i) - 1) = None" by (simp add: simple_find_def)
  ultimately show False using assms(2) by simp
qed

lemma simple_ext:
  assumes "simple_invar i" "simple_invar j" "simple_find i = simple_find j" "s_next_id i = s_next_id j"
  shows "i = j"
proof -
  have len: "length (s_objects i) = length (s_objects j)"
    using simple_length_le [OF assms(1,3)] simple_length_le [OF assms(2) assms(3) [symmetric]] by simp
  have "s_objects i = s_objects j"
  proof (rule nth_equalityI [OF len])
    fix k assume "k < length (s_objects i)"
    then show "s_objects i ! k = s_objects j ! k"
      using fun_cong [OF assms(3), of k] len by (simp add: simple_find_def)
  qed
  then show ?thesis using assms(4) by (cases i, cases j) simp
qed

interpretation simple: object_index simple_find s_next_id "\<lambda>n i. i\<lparr>s_next_id := n\<rparr>"
  "\<lambda>ctor i. Inr (simple_create ctor i)" "\<lambda>k x i. Inr (simple_insert k x i)" simple_modify
  simple_remove simple_invar "\<lambda>_ _. True"
proof (unfold_locales, goal_cases)
  case (1 i k)
  then show ?case by (rule simple_fresh)
next
  case (2 i n)
  then show ?case using simple_set_next_law [OF 2] by (simp add: simple_find_def fun_eq_iff)
next
  case (3 i ctor i')
  then show ?case using simple_create_law [of i ctor] by auto
next
  case (4 i k x i')
  then show ?case using simple_insert_law [of i k x] by auto
next
  case (5 i k f i')
  then show ?case by (rule simple_modify_law)
next
  case (6 i k x)
  then show ?case by (simp add: simple_remove_law)
next
  case (7 i j)
  then show ?case by (intro simple_ext)
qed

section \<open>The virtual class keeps the contract\<close>

fun same_index_kind :: "'o any_index \<Rightarrow> 'o any_index \<Rightarrow> bool" where
  "same_index_kind (Generic i) (Generic j) = True"
| "same_index_kind (Simple i) (Simple j) = True"
| "same_index_kind _ _ = False"

lemma same_index_kind_refl [simp]: "same_index_kind i i"
  by (cases i) simp_all

lemma idx_find_Generic_fun [simp]: "idx_find (Generic i) = generic_find i"
  and idx_find_Simple_fun [simp]: "idx_find (Simple j) = simple_find j"
  by (simp_all add: fun_eq_iff)

interpretation any: object_index idx_find get_next_id set_next_id "idx_create clash" "idx_insert clash"
  "idx_modify clash" idx_remove idx_invar same_index_kind
  for clash :: "'o \<Rightarrow> 'o \<Rightarrow> bool"
proof (unfold_locales, goal_cases)
  case (1 i k)
  then show ?case by (cases i) (simp_all add: generic_fresh simple_fresh)
next
  case (2 i n)
  then show ?case
    by (cases i) (simp_all add: generic.set_next_law simple.set_next_law)
next
  case (3 i ctor i')
  then show ?case
  proof (cases i)
    case (Generic g)
    with 3(2) obtain g' where "generic_create clash ctor g = Inr g'" and "i' = Generic g'" by auto
    then show ?thesis using generic_create_law [of g clash ctor g'] 3(1) Generic by simp
  next
    case (Simple g)
    then show ?thesis using simple_create_law [of g ctor] 3 by auto
  qed
next
  case (4 i k x i')
  then show ?case
  proof (cases i)
    case (Generic g)
    with 4(3) obtain g' where "generic_insert clash k x g = Inr g'" and "i' = Generic g'" by auto
    then show ?thesis using generic_insert_law [of g k clash x g'] 4(1,2) Generic by simp
  next
    case (Simple g)
    then show ?thesis using simple_insert_law [of g k x] 4 by auto
  qed
next
  case (5 i k f i')
  then show ?case
  proof (cases i)
    case (Generic g)
    with 5(2) obtain g' where "generic_modify clash k f g = Inr g'" and "i' = Generic g'" by auto
    then show ?thesis using generic_modify_law [of g clash k f g'] 5(1) Generic by simp
  next
    case (Simple g)
    with 5(2) obtain g' where "simple_modify k f g = Inr g'" and "i' = Simple g'" by auto
    then show ?thesis using simple_modify_law [of g k f g'] 5(1) Simple by simp
  qed
next
  case (6 i k x)
  then show ?case by (cases i) (simp_all add: generic_remove_law simple_remove_law)
next
  case (7 i j)
  then show ?case by (cases i; cases j) (simp_all add: generic_ext simple_ext)
qed

text \<open>Which operations fail: only a missing object or a taken unique key.\<close>

lemma idx_modify_ok:
  assumes "idx_invar i" and "idx_find i k = Some x"
    and "\<And>j y. j \<noteq> k \<Longrightarrow> idx_find i j = Some y \<Longrightarrow> \<not> clash (f x) y"
  shows "\<exists>i'. idx_modify clash k f i = Inr i'"
proof (cases i)
  case (Generic g)
  have "distinct (map fst (g_rows g))"
    using assms(1) Generic by (simp add: generic_invar_def sorted_rows_distinct)
  then show ?thesis
    using assms(2,3) Generic
    by (auto simp: generic_modify_def generic_find_def list_ex_iff del_row_def)
next
  case (Simple g)
  then show ?thesis using assms(2) by (simp add: simple_modify_def)
qed

lemma idx_insert_ok:
  assumes "idx_invar i" and "idx_find i k = None"
    and "\<And>j y. j \<noteq> k \<Longrightarrow> idx_find i j = Some y \<Longrightarrow> \<not> clash x y"
  shows "\<exists>i'. idx_insert clash k x i = Inr i'"
proof (cases i)
  case (Generic g)
  have "distinct (map fst (g_rows g))"
    using assms(1) Generic by (simp add: generic_invar_def sorted_rows_distinct)
  then have "\<not> violates_unique clash k x (g_rows g)"
    using assms(2,3) Generic
    by (auto simp: generic_find_def violates_unique_iff map_of_eq_None_iff) (metis fst_conv image_eqI)
  then show ?thesis using Generic by (simp add: generic_insert_def)
next
  case (Simple g)
  then show ?thesis by simp
qed

lemma same_kind_ops [simp]:
  "same_index_kind (set_next_id n i) j = same_index_kind i j"
  "same_index_kind (idx_remove k i) j = same_index_kind i j"
  "idx_modify clash k f i = Inr i' \<Longrightarrow> same_index_kind i' j = same_index_kind i j"
  "idx_insert clash k x i = Inr i' \<Longrightarrow> same_index_kind i' j = same_index_kind i j"
  "idx_create clash ctor i = Inr i' \<Longrightarrow> same_index_kind i' j = same_index_kind i j"
  by (cases i; cases j; auto)+

end
