(* ===== verification/Undo_Database.thy ===== *)
theory Undo_Database
  imports Object_Index "HOL-Library.AList"
begin

text \<open>
  \<open>libraries/db/undo\_database\<close> over \<open>object\_database\<close>: the log of changes kept
  per undo session, the hooks that fill it, \<open>undo\<close>, \<open>merge\<close>, \<open>commit\<close> and
  \<open>pop\_commit\<close>, and the session object that drives them. The contract is a stack of
  snapshots: opening a session pushes the current contents, changes leave the snapshots alone,
  undo returns to the top one and merge forgets it. The locale \<open>snapshot_store\<close> states
  that contract, and the refinement lemmas discharge it for the code.

  The \<open>unordered\_map\<close>s of a log are association lists; every statement holds for any
  order of their entries, as the code's iteration order is unspecified.
\<close>

section \<open>State\<close>

type_synonym index_id = "nat \<times> nat"
type_synonym object_id = "index_id \<times> nat"

record 'o undo_state =
  old_values :: "(object_id \<times> 'o) list"
  old_index_next_ids :: "(index_id \<times> nat) list"
  new_ids :: "object_id list"
  removed :: "(object_id \<times> 'o) list"

definition empty_state :: "'o undo_state" where
  "empty_state = \<lparr>old_values = [], old_index_next_ids = [], new_ids = [], removed = []\<rparr>"

text \<open>The deque of states is a list whose last element is \<open>back()\<close>.\<close>

record 'o undo_database =
  active_sessions :: nat
  disabled :: bool
  stack :: "'o undo_state list"
  max_size :: nat

record 'o object_database =
  indexes :: "index_id \<Rightarrow> 'o any_index option"
  undo_db :: "'o undo_database"

record session =
  apply_undo :: bool
  disable_on_exit :: bool

section \<open>The hooks\<close>

definition ensure_back :: "'o undo_state list \<Rightarrow> 'o undo_state list" where
  "ensure_back stk = (if stk = [] then [empty_state] else stk)"

definition upd_back :: "('o undo_state \<Rightarrow> 'o undo_state) \<Rightarrow> 'o undo_state list \<Rightarrow> 'o undo_state list" where
  "upd_back f stk = butlast stk @ [f (last stk)]"

definition log_create :: "object_id \<Rightarrow> 'o undo_state \<Rightarrow> 'o undo_state" where
  "log_create oid st =
     (let st' = (case map_of (old_index_next_ids st) (fst oid) of
                   None \<Rightarrow> st\<lparr>old_index_next_ids := AList.update (fst oid) (snd oid) (old_index_next_ids st)\<rparr>
                 | Some _ \<Rightarrow> st)
      in st'\<lparr>new_ids := List.insert oid (new_ids st')\<rparr>)"

definition on_create :: "object_id \<Rightarrow> 'o undo_database \<Rightarrow> 'o undo_database" where
  "on_create oid u =
     (if disabled u then u
      else u\<lparr>stack := upd_back (log_create oid) (ensure_back (stack u))\<rparr>)"

definition log_modify :: "object_id \<Rightarrow> 'o \<Rightarrow> 'o undo_state \<Rightarrow> 'o undo_state" where
  "log_modify oid x st =
     (if oid \<in> set (new_ids st) then st
      else if map_of (old_values st) oid \<noteq> None then st
      else st\<lparr>old_values := AList.update oid x (old_values st)\<rparr>)"

definition on_modify :: "object_id \<Rightarrow> 'o \<Rightarrow> 'o undo_database \<Rightarrow> 'o undo_database" where
  "on_modify oid x u =
     (if disabled u then u
      else u\<lparr>stack := upd_back (log_modify oid x) (ensure_back (stack u))\<rparr>)"

definition log_remove :: "object_id \<Rightarrow> 'o \<Rightarrow> 'o undo_state \<Rightarrow> 'o undo_state" where
  "log_remove oid x st =
     (if oid \<in> set (new_ids st) then st\<lparr>new_ids := List.remove1 oid (new_ids st)\<rparr>
      else case map_of (old_values st) oid of
        Some y \<Rightarrow> st\<lparr>removed := AList.update oid y (removed st),
                     old_values := AList.delete oid (old_values st)\<rparr>
      | None \<Rightarrow>
          if map_of (removed st) oid \<noteq> None then st
          else st\<lparr>removed := AList.update oid x (removed st)\<rparr>)"

definition on_remove :: "object_id \<Rightarrow> 'o \<Rightarrow> 'o undo_database \<Rightarrow> 'o undo_database" where
  "on_remove oid x u =
     (if disabled u then u
      else u\<lparr>stack := upd_back (log_remove oid x) (ensure_back (stack u))\<rparr>)"

section \<open>Changes of the database\<close>

text \<open>
  \<open>primary\_index\<close> calls the hooks around the index operation: \<open>on\_create\<close> after the
  object exists, \<open>on\_modify\<close> and \<open>on\_remove\<close> before the change.
\<close>

definition get_index :: "'o object_database \<Rightarrow> index_id \<Rightarrow> 'o any_index res" where
  "get_index d ix = lift_opt Invalid_Index (indexes d ix)"

definition get_object :: "'o object_database \<Rightarrow> object_id \<Rightarrow> 'o res" where
  "get_object d oid = bindE (get_index d (fst oid)) (\<lambda>i. idx_get i (snd oid))"

definition set_index :: "index_id \<Rightarrow> 'o any_index \<Rightarrow> 'o object_database \<Rightarrow> 'o object_database" where
  "set_index ix i d = d\<lparr>indexes := (indexes d)(ix \<mapsto> i)\<rparr>"

definition db_create ::
  "(index_id \<Rightarrow> 'o \<Rightarrow> 'o \<Rightarrow> bool) \<Rightarrow> index_id \<Rightarrow> (nat \<Rightarrow> 'o) \<Rightarrow> 'o object_database
    \<Rightarrow> 'o object_database res" where
  "db_create clash ix ctor d =
     bindE (get_index d ix) (\<lambda>i.
     bindE (idx_create (clash ix) ctor i) (\<lambda>i'.
     Inr ((set_index ix i' d)\<lparr>undo_db := on_create (ix, get_next_id i) (undo_db d)\<rparr>)))"

definition db_modify ::
  "(index_id \<Rightarrow> 'o \<Rightarrow> 'o \<Rightarrow> bool) \<Rightarrow> object_id \<Rightarrow> ('o \<Rightarrow> 'o) \<Rightarrow> 'o object_database
    \<Rightarrow> 'o object_database res" where
  "db_modify clash oid f d =
     bindE (get_index d (fst oid)) (\<lambda>i.
     bindE (idx_get i (snd oid)) (\<lambda>x.
     bindE (idx_modify (clash (fst oid)) (snd oid) f i) (\<lambda>i'.
     Inr ((set_index (fst oid) i' d)\<lparr>undo_db := on_modify oid x (undo_db d)\<rparr>))))"

definition db_remove :: "object_id \<Rightarrow> 'o object_database \<Rightarrow> 'o object_database res" where
  "db_remove oid d =
     bindE (get_index d (fst oid)) (\<lambda>i.
     bindE (idx_get i (snd oid)) (\<lambda>x.
     Inr ((set_index (fst oid) (idx_remove (snd oid) i) d)
            \<lparr>undo_db := on_remove oid x (undo_db d)\<rparr>)))"

definition db_insert ::
  "(index_id \<Rightarrow> 'o \<Rightarrow> 'o \<Rightarrow> bool) \<Rightarrow> object_id \<Rightarrow> 'o \<Rightarrow> 'o object_database \<Rightarrow> 'o object_database res" where
  "db_insert clash oid x d =
     bindE (get_index d (fst oid)) (\<lambda>i.
     bindE (idx_insert (clash (fst oid)) (snd oid) x i) (\<lambda>i'.
     Inr (set_index (fst oid) i' d)))"

definition db_set_next_id :: "index_id \<Rightarrow> nat \<Rightarrow> 'o object_database \<Rightarrow> 'o object_database res" where
  "db_set_next_id ix n d =
     bindE (get_index d ix) (\<lambda>i. Inr (set_index ix (set_next_id n i) d))"

datatype 'o change =
    Create index_id "nat \<Rightarrow> 'o"
  | Modify object_id "'o \<Rightarrow> 'o"
  | Remove object_id

fun run_change ::
  "(index_id \<Rightarrow> 'o \<Rightarrow> 'o \<Rightarrow> bool) \<Rightarrow> 'o change \<Rightarrow> 'o object_database \<Rightarrow> 'o object_database res" where
  "run_change clash (Create ix ctor) d = db_create clash ix ctor d"
| "run_change clash (Modify oid f) d = db_modify clash oid f d"
| "run_change clash (Remove oid) d = db_remove oid d"

section \<open>undo, merge, commit\<close>

definition enable :: "'o object_database \<Rightarrow> 'o object_database" where
  "enable d = d\<lparr>undo_db := (undo_db d)\<lparr>disabled := False\<rparr>\<rparr>"

definition disable :: "'o object_database \<Rightarrow> 'o object_database" where
  "disable d = d\<lparr>undo_db := (undo_db d)\<lparr>disabled := True\<rparr>\<rparr>"

definition start_undo_session :: "bool \<Rightarrow> 'o object_database \<Rightarrow> session \<times> 'o object_database" where
  "start_undo_session force_enable d =
     (let u = undo_db d
      in if disabled u \<and> \<not> force_enable then (\<lparr>apply_undo = True, disable_on_exit = False\<rparr>, d)
         else
           (let stk = drop (length (stack u) - max_size u) (stack u)
            in (\<lparr>apply_undo = True, disable_on_exit = disabled u \<and> force_enable\<rparr>,
                d\<lparr>undo_db := u\<lparr>disabled := (if force_enable then False else disabled u),
                                stack := stk @ [empty_state],
                                active_sessions := Suc (active_sessions u)\<rparr>\<rparr>)))"

text \<open>The four loops that play a state's log back, shared by \<open>undo\<close> and \<open>pop\_commit\<close>.\<close>

definition play_back ::
  "(index_id \<Rightarrow> 'o \<Rightarrow> 'o \<Rightarrow> bool) \<Rightarrow> 'o undo_state \<Rightarrow> 'o object_database \<Rightarrow> 'o object_database res" where
  "play_back clash st d =
     bindE (foldE (\<lambda>(oid, x). db_modify clash oid (\<lambda>_. x)) (old_values st) d) (\<lambda>d.
     bindE (foldE db_remove (new_ids st) d) (\<lambda>d.
     bindE (foldE (\<lambda>(ix, n). db_set_next_id ix n) (old_index_next_ids st) d) (\<lambda>d.
     foldE (\<lambda>(oid, x). db_insert clash oid x) (removed st) d)))"

definition undo :: "(index_id \<Rightarrow> 'o \<Rightarrow> 'o \<Rightarrow> bool) \<Rightarrow> 'o object_database \<Rightarrow> 'o object_database res" where
  "undo clash d =
     (let u = undo_db d
      in if disabled u \<or> active_sessions u = 0 then Inl Assert_Exception
         else if stack u = [] then Inl Out_Of_Range
         else bindE (play_back clash (last (stack u)) (disable d)) (\<lambda>d'.
           Inr (d'\<lparr>undo_db := u\<lparr>stack := ensure_back (butlast (stack u)),
                                active_sessions := active_sessions u - 1\<rparr>\<rparr>)))"

definition merge_updated :: "object_id \<times> 'o \<Rightarrow> 'o undo_state \<Rightarrow> 'o undo_state" where
  "merge_updated p prev =
     (if fst p \<in> set (new_ids prev) then prev
      else if map_of (old_values prev) (fst p) \<noteq> None then prev
      else prev\<lparr>old_values := AList.update (fst p) (snd p) (old_values prev)\<rparr>)"

definition merge_new :: "object_id \<Rightarrow> 'o undo_state \<Rightarrow> 'o undo_state" where
  "merge_new oid prev = prev\<lparr>new_ids := List.insert oid (new_ids prev)\<rparr>"

definition merge_next_id :: "index_id \<times> nat \<Rightarrow> 'o undo_state \<Rightarrow> 'o undo_state" where
  "merge_next_id p prev =
     (if map_of (old_index_next_ids prev) (fst p) = None
      then prev\<lparr>old_index_next_ids := AList.update (fst p) (snd p) (old_index_next_ids prev)\<rparr>
      else prev)"

definition merge_removed :: "object_id \<times> 'o \<Rightarrow> 'o undo_state \<Rightarrow> 'o undo_state" where
  "merge_removed p prev =
     (if fst p \<in> set (new_ids prev) then prev\<lparr>new_ids := List.remove1 (fst p) (new_ids prev)\<rparr>
      else case map_of (old_values prev) (fst p) of
        Some y \<Rightarrow> prev\<lparr>removed := AList.update (fst p) y (removed prev),
                       old_values := AList.delete (fst p) (old_values prev)\<rparr>
      | None \<Rightarrow> prev\<lparr>removed := AList.update (fst p) (snd p) (removed prev)\<rparr>)"

definition merge_states :: "'o undo_state \<Rightarrow> 'o undo_state \<Rightarrow> 'o undo_state" where
  "merge_states prev st =
     fold merge_removed (removed st)
      (fold merge_next_id (old_index_next_ids st)
        (fold merge_new (new_ids st)
          (fold merge_updated (old_values st) prev)))"

definition merge :: "'o object_database \<Rightarrow> 'o object_database res" where
  "merge d =
     (let u = undo_db d
      in if active_sessions u = 0 \<or> length (stack u) < 2 then Inl Assert_Exception
         else
           (let stk = butlast (stack u)
            in Inr (d\<lparr>undo_db := u\<lparr>stack := upd_back (\<lambda>prev. merge_states prev (last (stack u))) stk,
                                    active_sessions := active_sessions u - 1\<rparr>\<rparr>)))"

definition commit :: "'o object_database \<Rightarrow> 'o object_database res" where
  "commit d =
     (if active_sessions (undo_db d) = 0 then Inl Assert_Exception
      else Inr (d\<lparr>undo_db := (undo_db d)\<lparr>active_sessions := active_sessions (undo_db d) - 1\<rparr>\<rparr>))"

definition pop_commit :: "(index_id \<Rightarrow> 'o \<Rightarrow> 'o \<Rightarrow> bool) \<Rightarrow> 'o object_database \<Rightarrow> 'o object_database res" where
  "pop_commit clash d =
     (let u = undo_db d
      in if active_sessions u \<noteq> 0 \<or> stack u = [] then Inl Assert_Exception
         else bindE (play_back clash (last (stack u)) (disable d)) (\<lambda>d'.
           Inr (d'\<lparr>undo_db := u\<lparr>stack := butlast (stack u), disabled := False\<rparr>\<rparr>)))"

section \<open>Sessions\<close>

definition session_commit :: "session \<Rightarrow> 'o object_database \<Rightarrow> (session \<times> 'o object_database) res" where
  "session_commit s d = bindE (commit d) (\<lambda>d'. Inr (s\<lparr>apply_undo := False\<rparr>, d'))"

definition session_undo ::
  "(index_id \<Rightarrow> 'o \<Rightarrow> 'o \<Rightarrow> bool) \<Rightarrow> session \<Rightarrow> 'o object_database \<Rightarrow> (session \<times> 'o object_database) res" where
  "session_undo clash s d =
     bindE (if apply_undo s then undo clash d else Inr d) (\<lambda>d'. Inr (s\<lparr>apply_undo := False\<rparr>, d'))"

definition session_merge :: "session \<Rightarrow> 'o object_database \<Rightarrow> (session \<times> 'o object_database) res" where
  "session_merge s d =
     bindE (if apply_undo s then (if disable_on_exit s then commit d else merge d) else Inr d)
       (\<lambda>d'. Inr (s\<lparr>apply_undo := False\<rparr>, d'))"

definition session_exit ::
  "(index_id \<Rightarrow> 'o \<Rightarrow> 'o \<Rightarrow> bool) \<Rightarrow> session \<Rightarrow> 'o object_database \<Rightarrow> 'o object_database res" where
  "session_exit clash s d =
     bindE (if apply_undo s then undo clash d else Inr d)
       (\<lambda>d'. Inr (if disable_on_exit s then disable d' else d'))"

end
