(* ===== verification/Undo_Correct.thy ===== *)
theory Undo_Correct
  imports Undo_Database
begin

text \<open>
  The undo database implements a stack of snapshots. \<open>view_of\<close> is what the rest of the
  program sees of the database (every object and every id counter); \<open>restore st\<close> is the
  view a log leads back to; \<open>snapshots\<close> unrolls a stack of logs into the views it stands
  for.
\<close>

declare split_paired_All [simp del] split_paired_Ex [simp del]
declare map_of_eq_Some_iff [simp del] Some_eq_map_of_iff [simp del]

section \<open>Views and snapshots\<close>

type_synonym 'o view = "(object_id \<Rightarrow> 'o option) \<times> (index_id \<Rightarrow> nat option)"

definition obj_at :: "'o object_database \<Rightarrow> object_id \<Rightarrow> 'o option" where
  "obj_at d oid = Option.bind (indexes d (fst oid)) (\<lambda>i. idx_find i (snd oid))"

definition next_at :: "'o object_database \<Rightarrow> index_id \<Rightarrow> nat option" where
  "next_at d ix = map_option get_next_id (indexes d ix)"

definition view_of :: "'o object_database \<Rightarrow> 'o view" where
  "view_of d = (obj_at d, next_at d)"

definition restore :: "'o undo_state \<Rightarrow> 'o view \<Rightarrow> 'o view" where
  "restore st V =
     ((\<lambda>oid. if oid \<in> set (new_ids st) then None
             else case map_of (old_values st) oid of Some x \<Rightarrow> Some x
             | None \<Rightarrow> (case map_of (removed st) oid of Some x \<Rightarrow> Some x | None \<Rightarrow> fst V oid)),
      (\<lambda>ix. case map_of (old_index_next_ids st) ix of Some n \<Rightarrow> Some n | None \<Rightarrow> snd V ix))"

fun snapshots :: "'o undo_state list \<Rightarrow> 'o view \<Rightarrow> 'o view list" where
  "snapshots [] V = []"
| "snapshots (st # sts) V = restore st V # snapshots sts (restore st V)"

definition snaps :: "'o object_database \<Rightarrow> 'o view list" where
  "snaps d = snapshots (rev (stack (undo_db d))) (view_of d)"

text \<open>Well-formed views, logs and stacks: the data invariant of the component.\<close>

definition wf_view :: "'o view \<Rightarrow> bool" where
  "wf_view V \<longleftrightarrow> (\<forall>oid x. fst V oid = Some x \<longrightarrow> (\<exists>n. snd V (fst oid) = Some n \<and> snd oid < n))"

definition wf_state :: "'o undo_state \<Rightarrow> 'o view \<Rightarrow> bool" where
  "wf_state st V \<longleftrightarrow>
     distinct (map fst (old_values st)) \<and> distinct (map fst (removed st)) \<and>
     distinct (new_ids st) \<and> distinct (map fst (old_index_next_ids st)) \<and>
     (\<forall>oid \<in> set (new_ids st). map_of (old_values st) oid = None \<and> map_of (removed st) oid = None \<and>
        fst V oid \<noteq> None \<and>
        (\<exists>n. map_of (old_index_next_ids st) (fst oid) = Some n \<and> n \<le> snd oid)) \<and>
     (\<forall>oid x. map_of (old_values st) oid = Some x \<longrightarrow> map_of (removed st) oid = None \<and> fst V oid \<noteq> None) \<and>
     (\<forall>oid x. map_of (removed st) oid = Some x \<longrightarrow> fst V oid = None) \<and>
     (\<forall>ix n. map_of (old_index_next_ids st) ix = Some n \<longrightarrow> (\<exists>m. snd V ix = Some m \<and> n \<le> m))"

fun wf_states :: "'o undo_state list \<Rightarrow> 'o view \<Rightarrow> bool" where
  "wf_states [] V = wf_view V"
| "wf_states (st # sts) V = (wf_view V \<and> wf_state st V \<and> wf_states sts (restore st V))"

definition db_ok :: "'o object_database \<Rightarrow> bool" where
  "db_ok d \<longleftrightarrow> (\<forall>ix i. indexes d ix = Some i \<longrightarrow> idx_invar i)"

definition undo_inv :: "'o object_database \<Rightarrow> bool" where
  "undo_inv d \<longleftrightarrow> db_ok d \<and> wf_states (rev (stack (undo_db d))) (view_of d)"

definition same_kinds :: "'o object_database \<Rightarrow> 'o object_database \<Rightarrow> bool" where
  "same_kinds d d' \<longleftrightarrow> (\<forall>ix. rel_option same_index_kind (indexes d ix) (indexes d' ix))"

lemma db_okD: "db_ok d \<Longrightarrow> indexes d ix = Some i \<Longrightarrow> idx_invar i"
  unfolding db_ok_def by blast

lemma view_find: "indexes d ix = Some i \<Longrightarrow> idx_find i k = fst (view_of d) (ix, k)"
  by (simp add: view_of_def obj_at_def)

lemma view_next: "indexes d ix = Some i \<Longrightarrow> snd (view_of d) ix = Some (get_next_id i)"
  by (simp add: view_of_def next_at_def)

lemma same_index_kind_trans:
  "same_index_kind i j \<Longrightarrow> same_index_kind j k \<Longrightarrow> same_index_kind i k"
  by (cases i; cases j; cases k) auto

lemma same_kinds_refl [simp]: "same_kinds d d"
  by (simp add: same_kinds_def option.rel_refl)

lemma same_kinds_trans:
  assumes "same_kinds d e" and "same_kinds e f"
  shows "same_kinds d f"
  unfolding same_kinds_def
proof
  fix ix
  have "rel_option same_index_kind (indexes d ix) (indexes e ix)"
    and "rel_option same_index_kind (indexes e ix) (indexes f ix)"
    using assms unfolding same_kinds_def by blast+
  then show "rel_option same_index_kind (indexes d ix) (indexes f ix)"
    by (cases "indexes d ix"; cases "indexes e ix"; cases "indexes f ix")
      (auto intro: same_index_kind_trans)
qed

lemma same_kinds_indexes: "indexes d = indexes e \<Longrightarrow> same_kinds d f = same_kinds e f"
  by (simp add: same_kinds_def)

text \<open>A database is determined by its view and the kinds of its indexes.\<close>

lemma indexes_ext:
  assumes "db_ok d" and "db_ok e" and "view_of d = view_of e" and "same_kinds d e"
  shows "indexes d = indexes e"
proof
  fix ix
  have "rel_option same_index_kind (indexes d ix) (indexes e ix)"
    using assms(4) unfolding same_kinds_def by blast
  then show "indexes d ix = indexes e ix"
  proof (cases rule: option.rel_cases)
    case None
    then show ?thesis by simp
  next
    case (Some i j)
    have "idx_find i k = idx_find j k" for k
      using assms(3) Some by (metis view_find)
    moreover have "get_next_id i = get_next_id j"
      using assms(3) Some by (metis view_next option.inject)
    moreover have "idx_invar i" "idx_invar j"
      using assms(1,2) Some by (auto intro: db_okD)
    ultimately show ?thesis
      using any.lookup_ext [of i j] Some by (simp add: fun_eq_iff)
  qed
qed

section \<open>Effect of a change on the view\<close>

lemma db_ok_wf_view: "db_ok d \<Longrightarrow> wf_view (view_of d)"
  unfolding db_ok_def wf_view_def view_of_def obj_at_def next_at_def
  by (auto simp: bind_eq_Some_conv) (metis any.fresh leI option.distinct(1))

lemma obj_at_set_index:
  "obj_at (set_index ix i d) oid = (if fst oid = ix then idx_find i (snd oid) else obj_at d oid)"
  by (simp add: obj_at_def set_index_def)

lemma next_at_set_index:
  "next_at (set_index ix i d) = (next_at d)(ix \<mapsto> get_next_id i)"
  by (auto simp: next_at_def set_index_def fun_eq_iff)

lemma obj_at_update:
  assumes "indexes d ix = Some i" and "idx_find i' = (idx_find i)(k := v)"
  shows "obj_at (set_index ix i' d) = (obj_at d)((ix, k) := v)"
proof
  fix oid :: object_id
  show "obj_at (set_index ix i' d) oid = ((obj_at d)((ix, k) := v)) oid"
    using assms by (cases oid) (simp add: obj_at_set_index obj_at_def [of d])
qed

lemma obj_at_same:
  assumes "indexes d ix = Some i" and "idx_find i' = idx_find i"
  shows "obj_at (set_index ix i' d) = obj_at d"
proof
  fix oid :: object_id
  show "obj_at (set_index ix i' d) oid = obj_at d oid"
    using assms by (cases oid) (simp add: obj_at_set_index obj_at_def [of d])
qed

lemma next_at_same:
  "indexes d ix = Some i \<Longrightarrow> get_next_id i' = get_next_id i \<Longrightarrow> next_at (set_index ix i' d) = next_at d"
  by (auto simp: next_at_set_index next_at_def fun_eq_iff)

lemma obj_at_undo_db [simp]: "obj_at (d\<lparr>undo_db := u\<rparr>) = obj_at d"
  and next_at_undo_db [simp]: "next_at (d\<lparr>undo_db := u\<rparr>) = next_at d"
  and view_of_undo_db [simp]: "view_of (d\<lparr>undo_db := u\<rparr>) = view_of d"
  and db_ok_undo_db [simp]: "db_ok (d\<lparr>undo_db := u\<rparr>) = db_ok d"
  and same_kinds_undo_db [simp]: "same_kinds e (d\<lparr>undo_db := u\<rparr>) = same_kinds e d"
    "same_kinds (d\<lparr>undo_db := u\<rparr>) e = same_kinds d e"
  by (simp_all add: obj_at_def next_at_def view_of_def db_ok_def same_kinds_def fun_eq_iff)

lemma db_ok_set_index: "db_ok d \<Longrightarrow> idx_invar i \<Longrightarrow> db_ok (set_index ix i d)"
  by (simp add: db_ok_def set_index_def)

lemma same_kinds_set_index:
  "indexes d ix = Some i \<Longrightarrow> same_index_kind i j \<Longrightarrow> same_kinds d (set_index ix j d)"
  by (simp add: same_kinds_def set_index_def option.rel_refl)

lemma same_index_kind_sym: "same_index_kind i j = same_index_kind j i"
  by (cases i; cases j) auto

text \<open>One lemma per change, in a common shape: view before, view after, invariant, kinds, log.\<close>

lemma db_create_view:
  assumes "db_ok d" and "db_create clash ix ctor d = Inr d'"
  obtains n where "next_at d ix = Some n" and "obj_at d (ix, n) = None"
    and "view_of d' = ((obj_at d)((ix, n) \<mapsto> ctor n), (next_at d)(ix \<mapsto> Suc n))"
    and "db_ok d'" and "same_kinds d d'" and "undo_db d' = on_create (ix, n) (undo_db d)"
proof -
  from assms(2) obtain i i' where i: "indexes d ix = Some i"
    and i': "idx_create (clash ix) ctor i = Inr i'"
    and d': "d' = (set_index ix i' d)\<lparr>undo_db := on_create (ix, get_next_id i) (undo_db d)\<rparr>"
    by (auto simp: db_create_def get_index_def)
  have inv: "idx_invar i" using assms(1) i by (rule db_okD)
  note law = any.create_law [OF inv i']
  have k: "same_index_kind i i'"
    using same_kind_ops(5) [OF i', of i] by (simp add: same_index_kind_sym)
  show thesis
  proof (rule that [of "get_next_id i"])
    show "next_at d ix = Some (get_next_id i)" using i by (simp add: next_at_def)
    show "obj_at d (ix, get_next_id i) = None"
      using i any.fresh [OF inv, of "get_next_id i"] by (simp add: obj_at_def)
    show "view_of d' = ((obj_at d)((ix, get_next_id i) \<mapsto> ctor (get_next_id i)),
        (next_at d)(ix \<mapsto> Suc (get_next_id i)))"
      using law obj_at_update [OF i] by (simp add: d' view_of_def next_at_set_index)
    show "db_ok d'" using law assms(1) by (simp add: d' db_ok_set_index)
    show "same_kinds d d'" using k i by (simp add: d' same_kinds_set_index)
    show "undo_db d' = on_create (ix, get_next_id i) (undo_db d)" by (simp add: d')
  qed
qed

lemma db_modify_view:
  assumes "db_ok d" and "db_modify clash oid f d = Inr d'"
  obtains x where "obj_at d oid = Some x"
    and "view_of d' = ((obj_at d)(oid \<mapsto> f x), next_at d)"
    and "db_ok d'" and "same_kinds d d'" and "undo_db d' = on_modify oid x (undo_db d)"
proof -
  from assms(2) obtain i x i' where i: "indexes d (fst oid) = Some i" and x: "idx_find i (snd oid) = Some x"
    and i': "idx_modify (clash (fst oid)) (snd oid) f i = Inr i'"
    and d': "d' = (set_index (fst oid) i' d)\<lparr>undo_db := on_modify oid x (undo_db d)\<rparr>"
    by (auto simp: db_modify_def get_index_def idx_get_def)
  have inv: "idx_invar i" using assms(1) i by (rule db_okD)
  note law = any.modify_law [OF inv i']
  have k: "same_index_kind i i'"
    using same_kind_ops(3) [OF i', of i] by (simp add: same_index_kind_sym)
  show thesis
  proof (rule that [of x])
    show "obj_at d oid = Some x" using i x by (simp add: obj_at_def)
    show "view_of d' = ((obj_at d)(oid \<mapsto> f x), next_at d)"
      using law x obj_at_update [OF i] next_at_same [OF i] by (auto simp: d' view_of_def)
    show "db_ok d'" using law assms(1) by (auto simp: d' db_ok_set_index)
    show "same_kinds d d'" using k i by (simp add: d' same_kinds_set_index)
    show "undo_db d' = on_modify oid x (undo_db d)" by (simp add: d')
  qed
qed

lemma db_remove_view:
  assumes "db_ok d" and "db_remove oid d = Inr d'"
  obtains x where "obj_at d oid = Some x"
    and "view_of d' = ((obj_at d)(oid := None), next_at d)"
    and "db_ok d'" and "same_kinds d d'" and "undo_db d' = on_remove oid x (undo_db d)"
proof -
  from assms(2) obtain i x where i: "indexes d (fst oid) = Some i" and x: "idx_find i (snd oid) = Some x"
    and d': "d' = (set_index (fst oid) (idx_remove (snd oid) i) d)\<lparr>undo_db := on_remove oid x (undo_db d)\<rparr>"
    by (auto simp: db_remove_def get_index_def idx_get_def)
  have inv: "idx_invar i" using assms(1) i by (rule db_okD)
  note law = any.remove_law [OF inv x]
  have k: "same_index_kind i (idx_remove (snd oid) i)"
    using same_kind_ops(2) [of "snd oid" i i] by (simp add: same_index_kind_sym)
  show thesis
  proof (rule that [of x])
    show "obj_at d oid = Some x" using i x by (simp add: obj_at_def)
    show "view_of d' = ((obj_at d)(oid := None), next_at d)"
      using law x obj_at_update [OF i] next_at_same [OF i] by (auto simp: d' view_of_def)
    show "db_ok d'" using law assms(1) by (auto simp: d' db_ok_set_index)
    show "same_kinds d d'" using k i by (simp add: d' same_kinds_set_index)
    show "undo_db d' = on_remove oid x (undo_db d)" by (simp add: d')
  qed
qed

lemma db_insert_view:
  assumes "db_ok d" and "db_insert clash oid x d = Inr d'"
    and "next_at d (fst oid) = Some n" and "snd oid < n"
  shows "view_of d' = ((obj_at d)(oid \<mapsto> x), next_at d)" and "db_ok d'"
    and "same_kinds d d'" and "undo_db d' = undo_db d"
proof -
  from assms(2) obtain i i' where i: "indexes d (fst oid) = Some i"
    and i': "idx_insert (clash (fst oid)) (snd oid) x i = Inr i'"
    and d': "d' = set_index (fst oid) i' d"
    by (auto simp: db_insert_def get_index_def)
  have inv: "idx_invar i" using assms(1) i by (rule db_okD)
  have "snd oid < get_next_id i" using assms(3,4) i by (simp add: next_at_def)
  note law = any.insert_law [OF inv this i']
  have k: "same_index_kind i i'"
    using same_kind_ops(4) [OF i', of i] by (simp add: same_index_kind_sym)
  show "view_of d' = ((obj_at d)(oid \<mapsto> x), next_at d)"
    using law obj_at_update [OF i] next_at_same [OF i] by (auto simp: d' view_of_def)
  show "db_ok d'" using law assms(1) by (simp add: d' db_ok_set_index)
  show "same_kinds d d'" using k i by (simp add: d' same_kinds_set_index)
  show "undo_db d' = undo_db d" by (simp add: d' set_index_def)
qed

lemma db_set_next_id_view:
  assumes "db_ok d" and "db_set_next_id ix n d = Inr d'"
    and none: "\<And>k. n \<le> k \<Longrightarrow> obj_at d (ix, k) = None"
  shows "view_of d' = (obj_at d, (next_at d)(ix \<mapsto> n))" and "db_ok d'"
    and "same_kinds d d'" and "undo_db d' = undo_db d"
proof -
  from assms(2) obtain i where i: "indexes d ix = Some i" and d': "d' = set_index ix (set_next_id n i) d"
    by (auto simp: db_set_next_id_def get_index_def)
  have inv: "idx_invar i" using assms(1) i by (rule db_okD)
  have "idx_find i k = None" if "n \<le> k" for k using none [OF that] i by (simp add: obj_at_def)
  note law = any.set_next_law [OF inv this]
  have k: "same_index_kind i (set_next_id n i)"
    using same_kind_ops(1) [of n i i] by (simp add: same_index_kind_sym)
  show "view_of d' = (obj_at d, (next_at d)(ix \<mapsto> n))"
    using law obj_at_same [OF i] by (simp add: d' view_of_def next_at_set_index)
  show "db_ok d'" using law assms(1) by (simp add: d' db_ok_set_index)
  show "same_kinds d d'" using k i by (simp add: d' same_kinds_set_index)
  show "undo_db d' = undo_db d" by (simp add: d' set_index_def)
qed

section \<open>The hooks keep what a log leads back to\<close>

lemma wf_viewD: "wf_view V \<Longrightarrow> fst V oid = Some x \<Longrightarrow> \<exists>n. snd V (fst oid) = Some n \<and> snd oid < n"
  by (simp add: wf_view_def)

lemma wf_state_next:
  assumes "wf_state st V" and "map_of (old_index_next_ids st) ix = Some m" and "snd V ix = Some n"
  shows "m \<le> n"
proof -
  have "\<exists>n. snd V ix = Some n \<and> m \<le> n" using assms(1,2) unfolding wf_state_def by blast
  then show ?thesis using assms(3) by simp
qed

lemma wf_state_bound:
  "wf_state st V \<Longrightarrow> map_of (old_index_next_ids st) ix = Some n \<Longrightarrow> \<exists>m. snd V ix = Some m \<and> n \<le> m"
  unfolding wf_state_def by blast

text \<open>An id at or above the counter is unknown to the log: it is neither updated nor removed.\<close>

lemma fresh_not_logged:
  assumes "wf_state st V" and "wf_view (restore st V)" and "snd V (fst oid) = Some n" and "n \<le> snd oid"
  shows "map_of (old_values st) oid = None" and "map_of (removed st) oid = None"
proof -
  have "fst (restore st V) oid = None"
  proof (rule ccontr)
    assume "\<not> ?thesis"
    then obtain x where "fst (restore st V) oid = Some x" by auto
    then obtain m where m: "snd (restore st V) (fst oid) = Some m" and "snd oid < m"
      using wf_viewD [OF assms(2)] by blast
    moreover have "m \<le> n"
      using m assms(3) wf_state_next [OF assms(1), of "fst oid"] by (auto simp: restore_def split: option.splits)
    ultimately show False using assms(4) by simp
  qed
  then show "map_of (old_values st) oid = None" and "map_of (removed st) oid = None"
    using assms(1) by (auto simp: restore_def wf_state_def split: if_splits option.splits)
qed

lemma log_create_restore:
  assumes "wf_state st (M, N)" and "wf_view (restore st (M, N))"
    and "N ix = Some n" and "M (ix, n) = None"
  shows "restore (log_create (ix, n) st) (M((ix, n) \<mapsto> x), N(ix \<mapsto> Suc n)) = restore st (M, N)"
    and "wf_state (log_create (ix, n) st) (M((ix, n) \<mapsto> x), N(ix \<mapsto> Suc n))"
proof -
  have fresh: "map_of (old_values st) (ix, n) = None" "map_of (removed st) (ix, n) = None"
    using fresh_not_logged [OF assms(1,2), of "(ix, n)" n] assms(3) by auto
  have new: "(ix, n) \<notin> set (new_ids st)"
    using assms(1,4) by (auto simp: wf_state_def)
  show "restore (log_create (ix, n) st) (M((ix, n) \<mapsto> x), N(ix \<mapsto> Suc n)) = restore st (M, N)"
    using assms(3,4) fresh new
    by (auto simp: restore_def log_create_def update_conv' fun_eq_iff split: option.splits)
  show "wf_state (log_create (ix, n) st) (M((ix, n) \<mapsto> x), N(ix \<mapsto> Suc n))"
  proof (cases "map_of (old_index_next_ids st) ix")
    case None
    then show ?thesis
      using assms(1,3) fresh new unfolding wf_state_def log_create_def
      by (auto simp: update_conv' distinct_update Let_def split: if_splits)
  next
    case (Some m)
    then have "m \<le> n" using wf_state_next [OF assms(1) Some, of n] assms(3) by simp
    then show ?thesis
      using assms(1,3) fresh new Some unfolding wf_state_def log_create_def
      by (auto simp: Let_def le_SucI split: if_splits)
  qed
qed

lemma log_modify_restore:
  assumes "wf_state st (M, N)" and "M oid = Some x"
  shows "restore (log_modify oid x st) (M(oid \<mapsto> y), N) = restore st (M, N)"
    and "wf_state (log_modify oid x st) (M(oid \<mapsto> y), N)"
proof -
  have rem: "map_of (removed st) oid = None"
    using assms by (cases "map_of (removed st) oid") (auto simp: wf_state_def)
  show "restore (log_modify oid x st) (M(oid \<mapsto> y), N) = restore st (M, N)"
    using assms(2) rem
    by (auto simp: restore_def log_modify_def update_conv' fun_eq_iff split: option.splits)
  show "wf_state (log_modify oid x st) (M(oid \<mapsto> y), N)"
    using assms rem unfolding wf_state_def log_modify_def
    by (auto simp: update_conv' distinct_update split: if_splits)
qed

lemma map_of_delete: "map_of (AList.delete k xs) = (map_of xs)(k := None)"
  by (simp add: delete_conv')

lemma log_remove_restore:
  assumes "wf_state st (M, N)" and "M oid = Some x"
  shows "restore (log_remove oid x st) (M(oid := None), N) = restore st (M, N)"
    and "wf_state (log_remove oid x st) (M(oid := None), N)"
proof -
  have rem: "map_of (removed st) oid = None"
    using assms by (cases "map_of (removed st) oid") (auto simp: wf_state_def)
  have dist: "distinct (new_ids st)" using assms(1) by (simp add: wf_state_def)
  show "restore (log_remove oid x st) (M(oid := None), N) = restore st (M, N)"
  proof (cases "oid \<in> set (new_ids st)")
    case True
    then have "map_of (old_values st) oid = None" using assms(1) by (auto simp: wf_state_def)
    then show ?thesis using True rem dist
      by (auto simp: restore_def log_remove_def fun_eq_iff split: option.splits)
  next
    case False
    then show ?thesis using assms(2) rem
      by (auto simp: restore_def log_remove_def update_conv' map_of_delete fun_eq_iff split: option.splits)
  qed
  show "wf_state (log_remove oid x st) (M(oid := None), N)"
  proof (cases "oid \<in> set (new_ids st)")
    case True
    then show ?thesis using assms rem dist unfolding wf_state_def log_remove_def by auto
  next
    case False
    then show ?thesis
      using assms rem unfolding wf_state_def log_remove_def
      by (cases "map_of (old_values st) oid")
        (auto simp: update_conv' map_of_delete distinct_update distinct_delete split: if_splits)
  qed
qed

section \<open>merge composes two logs\<close>

lemma fold_merge_updated:
  assumes "distinct (map fst xs)" and "distinct (map fst (old_values A))"
  shows "new_ids (fold merge_updated xs A) = new_ids A \<and>
    removed (fold merge_updated xs A) = removed A \<and>
    old_index_next_ids (fold merge_updated xs A) = old_index_next_ids A \<and>
    distinct (map fst (old_values (fold merge_updated xs A))) \<and>
    map_of (old_values (fold merge_updated xs A)) =
      (\<lambda>oid. case map_of (old_values A) oid of Some y \<Rightarrow> Some y
             | None \<Rightarrow> if oid \<in> set (new_ids A) then None else map_of xs oid)"
  using assms
proof (induction xs arbitrary: A)
  case Nil
  then show ?case by (auto simp: fun_eq_iff split: option.splits)
next
  case (Cons p xs)
  let ?A = "merge_updated p A"
  have A: "new_ids ?A = new_ids A" "removed ?A = removed A"
      "old_index_next_ids ?A = old_index_next_ids A" "distinct (map fst (old_values ?A))"
    using Cons.prems by (simp_all add: merge_updated_def distinct_update)
  have old: "map_of (old_values ?A) =
      (\<lambda>oid. case map_of (old_values A) oid of Some y \<Rightarrow> Some y
             | None \<Rightarrow> if oid \<in> set (new_ids A) then None else if oid = fst p then Some (snd p) else None)"
    by (auto simp: merge_updated_def update_conv' fun_eq_iff split: option.splits)
  have p: "map_of xs (fst p) = None" using Cons.prems by (simp add: map_of_eq_None_iff)
  have "distinct (map fst xs)" using Cons.prems by simp
  from Cons.IH [OF this A(4)] show ?case
    using A old p by (cases p) (auto simp: fun_eq_iff split: option.splits)
qed

lemma fold_merge_new:
  shows "old_values (fold merge_new xs A) = old_values A"
    and "removed (fold merge_new xs A) = removed A"
    and "old_index_next_ids (fold merge_new xs A) = old_index_next_ids A"
    and "distinct (new_ids A) \<Longrightarrow> distinct (new_ids (fold merge_new xs A))"
    and "set (new_ids (fold merge_new xs A)) = set (new_ids A) \<union> set xs"
  by (induction xs arbitrary: A) (auto simp: merge_new_def)

lemma fold_merge_next_id:
  assumes "distinct (map fst xs)" and "distinct (map fst (old_index_next_ids A))"
  shows "old_values (fold merge_next_id xs A) = old_values A \<and>
    removed (fold merge_next_id xs A) = removed A \<and>
    new_ids (fold merge_next_id xs A) = new_ids A \<and>
    distinct (map fst (old_index_next_ids (fold merge_next_id xs A))) \<and>
    map_of (old_index_next_ids (fold merge_next_id xs A)) =
      (\<lambda>ix. case map_of (old_index_next_ids A) ix of Some n \<Rightarrow> Some n | None \<Rightarrow> map_of xs ix)"
  using assms
proof (induction xs arbitrary: A)
  case Nil
  then show ?case by (auto simp: fun_eq_iff split: option.splits)
next
  case (Cons p xs)
  let ?A = "merge_next_id p A"
  have A: "new_ids ?A = new_ids A" "removed ?A = removed A" "old_values ?A = old_values A"
      "distinct (map fst (old_index_next_ids ?A))"
    using Cons.prems by (simp_all add: merge_next_id_def distinct_update)
  have old: "map_of (old_index_next_ids ?A) =
      (\<lambda>ix. case map_of (old_index_next_ids A) ix of Some y \<Rightarrow> Some y
             | None \<Rightarrow> if ix = fst p then Some (snd p) else None)"
    by (auto simp: merge_next_id_def update_conv' fun_eq_iff split: option.splits)
  have p: "map_of xs (fst p) = None" using Cons.prems by (simp add: map_of_eq_None_iff)
  have "distinct (map fst xs)" using Cons.prems by simp
  from Cons.IH [OF this A(4)] show ?case
    using A old p by (cases p) (auto simp: fun_eq_iff split: option.splits)
qed

definition log_ok :: "'o undo_state \<Rightarrow> bool" where
  "log_ok A \<longleftrightarrow> distinct (new_ids A) \<and> distinct (map fst (old_values A)) \<and>
     distinct (map fst (removed A)) \<and> (\<forall>oid \<in> set (new_ids A). map_of (old_values A) oid = None)"

lemma merge_removed_log_ok: "log_ok A \<Longrightarrow> log_ok (merge_removed p A)"
  by (auto simp: log_ok_def merge_removed_def distinct_update distinct_delete map_of_delete split: option.splits)

lemma fold_merge_removed:
  assumes "distinct (map fst xs)" and "log_ok A"
  shows "old_index_next_ids (fold merge_removed xs A) = old_index_next_ids A \<and>
    log_ok (fold merge_removed xs A) \<and>
    set (new_ids (fold merge_removed xs A)) = set (new_ids A) - fst ` set xs \<and>
    map_of (old_values (fold merge_removed xs A)) =
      (\<lambda>oid. if oid \<in> fst ` set xs then None else map_of (old_values A) oid) \<and>
    map_of (removed (fold merge_removed xs A)) =
      (\<lambda>oid. if oid \<in> fst ` set xs \<and> oid \<notin> set (new_ids A)
             then (case map_of (old_values A) oid of Some y \<Rightarrow> Some y | None \<Rightarrow> map_of xs oid)
             else map_of (removed A) oid)"
  using assms
proof (induction xs arbitrary: A)
  case Nil
  then show ?case by simp
next
  case (Cons p xs)
  let ?A = "merge_removed p A"
  have n: "old_index_next_ids ?A = old_index_next_ids A"
    by (simp add: merge_removed_def split: option.splits)
  have new: "set (new_ids ?A) = set (new_ids A) - {fst p}"
    using Cons.prems(2) by (auto simp: merge_removed_def log_ok_def split: option.splits)
  have old: "map_of (old_values ?A) = (\<lambda>oid. if oid = fst p then None else map_of (old_values A) oid)"
    using Cons.prems(2) by (auto simp: merge_removed_def log_ok_def map_of_delete fun_eq_iff split: option.splits)
  have rem: "map_of (removed ?A) = (\<lambda>oid. if oid = fst p \<and> oid \<notin> set (new_ids A)
      then (case map_of (old_values A) oid of Some y \<Rightarrow> Some y | None \<Rightarrow> Some (snd p))
      else map_of (removed A) oid)"
    by (auto simp: merge_removed_def update_conv' fun_eq_iff split: option.splits)
  have p: "fst p \<notin> fst ` set xs" "distinct (map fst xs)" using Cons.prems(1) by simp_all
  note ih = Cons.IH [OF p(2) merge_removed_log_ok [OF Cons.prems(2)]]
  have "set (new_ids (fold merge_removed (p # xs) A)) = set (new_ids A) - fst ` set (p # xs)"
    using ih new by auto
  moreover have "map_of (old_values (fold merge_removed (p # xs) A)) =
      (\<lambda>oid. if oid \<in> fst ` set (p # xs) then None else map_of (old_values A) oid)"
    using ih old by (auto simp: fun_eq_iff)
  moreover have "map_of (removed (fold merge_removed (p # xs) A)) =
      (\<lambda>oid. if oid \<in> fst ` set (p # xs) \<and> oid \<notin> set (new_ids A)
             then (case map_of (old_values A) oid of Some y \<Rightarrow> Some y | None \<Rightarrow> map_of (p # xs) oid)
             else map_of (removed A) oid)"
    using ih new old rem p(1) by (cases p) (auto simp: fun_eq_iff split: option.splits)
  ultimately show ?case using ih n by simp
qed

text \<open>The log that \<open>merge\<close> leaves leads back to where both logs together lead.\<close>

lemma merge_states_facts:
  assumes "wf_state A (restore B V)" and "wf_state B V"
  defines "M \<equiv> merge_states A B"
  shows "log_ok M" and "distinct (map fst (old_index_next_ids M))"
    and "map_of (old_index_next_ids M) = (\<lambda>ix. case map_of (old_index_next_ids A) ix of Some n \<Rightarrow> Some n
      | None \<Rightarrow> map_of (old_index_next_ids B) ix)"
    and "set (new_ids M) = (set (new_ids A) \<union> set (new_ids B)) - fst ` set (removed B)"
    and "map_of (old_values M) = (\<lambda>oid. if oid \<in> fst ` set (removed B) then None
      else case map_of (old_values A) oid of Some y \<Rightarrow> Some y
      | None \<Rightarrow> if oid \<in> set (new_ids A) then None else map_of (old_values B) oid)"
    and "map_of (removed M) = (\<lambda>oid. if oid \<in> fst ` set (removed B) \<and> oid \<notin> set (new_ids A) \<union> set (new_ids B)
      then (case map_of (old_values A) oid of Some y \<Rightarrow> Some y | None \<Rightarrow>
            if oid \<in> set (new_ids A) then None else if map_of (old_values B) oid = None then map_of (removed B) oid
            else map_of (old_values B) oid)
      else map_of (removed A) oid)"
proof -
  define A1 where "A1 = fold merge_updated (old_values B) A"
  define A2 where "A2 = fold merge_new (new_ids B) A1"
  define A3 where "A3 = fold merge_next_id (old_index_next_ids B) A2"
  have M: "M = fold merge_removed (removed B) A3"
    by (simp add: M_def merge_states_def A1_def A2_def A3_def)
  have distA: "distinct (map fst (old_values A))" "distinct (map fst (removed A))" "distinct (new_ids A)"
      "distinct (map fst (old_index_next_ids A))"
    using assms(1) by (simp_all add: wf_state_def)
  have distB: "distinct (map fst (old_values B))" "distinct (map fst (removed B))"
      "distinct (map fst (old_index_next_ids B))"
    using assms(2) by (simp_all add: wf_state_def)
  note f1 = fold_merge_updated [OF distB(1) distA(1), folded A1_def]
  note f2 = fold_merge_new [where xs = "new_ids B" and A = A1, folded A2_def]
  have "distinct (map fst (old_index_next_ids A2))" using f1 f2 distA(4) by simp
  note f3 = fold_merge_next_id [OF distB(3) this, folded A3_def]
  have "fst (restore B V) oid = None" if "oid \<in> set (new_ids B)" for oid
    using that by (simp add: restore_def)
  then have newB: "map_of (old_values A) oid = None" if "oid \<in> set (new_ids B)" for oid
    using that assms(1) unfolding wf_state_def by (metis not_Some_eq)
  have newBB: "map_of (old_values B) oid = None" if "oid \<in> set (new_ids B)" for oid
    using that assms(2) unfolding wf_state_def by blast
  have newA: "map_of (old_values A) oid = None" if "oid \<in> set (new_ids A)" for oid
    using that assms(1) unfolding wf_state_def by blast
  have "log_ok A3"
    using f1 f2 f3 distA newA newB newBB by (auto simp: log_ok_def split: option.splits)
  note f4 = fold_merge_removed [OF distB(2) this, folded M]
  show "log_ok M" and "distinct (map fst (old_index_next_ids M))"
    using f4 f3 by simp_all
  show "map_of (old_index_next_ids M) = (\<lambda>ix. case map_of (old_index_next_ids A) ix of Some n \<Rightarrow> Some n
      | None \<Rightarrow> map_of (old_index_next_ids B) ix)"
    by (simp add: f4 f3 f2 f1)
  show "set (new_ids M) = (set (new_ids A) \<union> set (new_ids B)) - fst ` set (removed B)"
    by (simp add: f4 f3 f2 f1)
  show "map_of (old_values M) = (\<lambda>oid. if oid \<in> fst ` set (removed B) then None
      else case map_of (old_values A) oid of Some y \<Rightarrow> Some y
      | None \<Rightarrow> if oid \<in> set (new_ids A) then None else map_of (old_values B) oid)"
    by (simp add: f4 f3 f2 f1 fun_eq_iff)
  show "map_of (removed M) = (\<lambda>oid. if oid \<in> fst ` set (removed B) \<and> oid \<notin> set (new_ids A) \<union> set (new_ids B)
      then (case map_of (old_values A) oid of Some y \<Rightarrow> Some y | None \<Rightarrow>
            if oid \<in> set (new_ids A) then None else if map_of (old_values B) oid = None then map_of (removed B) oid
            else map_of (old_values B) oid)
      else map_of (removed A) oid)"
    by (simp add: f4 f3 f2 f1 fun_eq_iff split: option.splits)
qed

text \<open>Where an object can be in the second of two logs, given where it is in the first.\<close>

lemma wf_state_cases:
  assumes "wf_state st V"
  obtains (new) "oid \<in> set (new_ids st)" "map_of (old_values st) oid = None" "map_of (removed st) oid = None"
      "fst V oid \<noteq> None" "fst (restore st V) oid = None"
  | (upd) x where "oid \<notin> set (new_ids st)" "map_of (old_values st) oid = Some x" "map_of (removed st) oid = None"
      "fst V oid \<noteq> None" "fst (restore st V) oid = Some x"
  | (del) x where "oid \<notin> set (new_ids st)" "map_of (old_values st) oid = None" "map_of (removed st) oid = Some x"
      "fst V oid = None" "fst (restore st V) oid = Some x"
  | (nop) "oid \<notin> set (new_ids st)" "map_of (old_values st) oid = None" "map_of (removed st) oid = None"
      "fst (restore st V) oid = fst V oid"
proof (cases "oid \<in> set (new_ids st)")
  case True
  then show thesis using assms new by (auto simp: wf_state_def restore_def)
next
  case no: False
  show thesis
  proof (cases "map_of (old_values st) oid")
    case (Some x)
    then show thesis using assms upd [of x] no by (auto simp: wf_state_def restore_def)
  next
    case None
    then show thesis using assms del nop no
      by (cases "map_of (removed st) oid") (auto simp: wf_state_def restore_def)
  qed
qed

lemma in_fst_map_of: "oid \<in> fst ` set xs \<longleftrightarrow> map_of xs oid \<noteq> None"
  by (simp add: map_of_eq_None_iff)

lemma wf_state_new_next:
  "wf_state st V \<Longrightarrow> oid \<in> set (new_ids st) \<Longrightarrow>
   \<exists>n. map_of (old_index_next_ids st) (fst oid) = Some n \<and> n \<le> snd oid"
  unfolding wf_state_def by blast

text \<open>An id created in the second log was not removed in the first: ids are never reused.\<close>

lemma new_not_removed_before:
  assumes "wf_state A (restore B V)" and "wf_state B V" and "wf_view (restore A (restore B V))"
    and "oid \<in> set (new_ids B)"
  shows "map_of (removed A) oid = None"
proof -
  obtain n where n: "map_of (old_index_next_ids B) (fst oid) = Some n" "n \<le> snd oid"
    using wf_state_new_next [OF assms(2,4)] by blast
  then have "snd (restore B V) (fst oid) = Some n" by (simp add: restore_def)
  then show ?thesis using fresh_not_logged(2) [OF assms(1,3)] n(2) by blast
qed

lemma merge_states_restore:
  assumes "wf_state A (restore B V)" and "wf_state B V" and "wf_view (restore A (restore B V))"
  shows "restore (merge_states A B) V = restore A (restore B V)"
proof -
  note f = merge_states_facts [OF assms(1,2)]
  have "fst (restore (merge_states A B) V) oid = fst (restore A (restore B V)) oid" for oid
    by (cases rule: wf_state_cases [OF assms(1), of oid]; cases rule: wf_state_cases [OF assms(2), of oid])
      (simp_all add: restore_def f in_fst_map_of new_not_removed_before [OF assms])
  moreover have "snd (restore (merge_states A B) V) ix = snd (restore A (restore B V)) ix" for ix
    by (simp add: restore_def f split: option.splits)
  ultimately show ?thesis by (simp add: prod_eq_iff fun_eq_iff)
qed

lemma merge_states_next:
  assumes "wf_state A (restore B V)" and "wf_state B V" and "oid \<in> set (new_ids A) \<union> set (new_ids B)"
  shows "\<exists>n. map_of (old_index_next_ids (merge_states A B)) (fst oid) = Some n \<and> n \<le> snd oid"
proof (cases "oid \<in> set (new_ids A)")
  case True
  then show ?thesis
    using wf_state_new_next [OF assms(1) True] by (auto simp: merge_states_facts(3) [OF assms(1,2)])
next
  case False
  then have b: "oid \<in> set (new_ids B)" using assms(3) by simp
  then obtain n where n: "map_of (old_index_next_ids B) (fst oid) = Some n" "n \<le> snd oid"
    using wf_state_new_next [OF assms(2)] by blast
  then have "snd (restore B V) (fst oid) = Some n" by (simp add: restore_def)
  then show ?thesis
    using n wf_state_next [OF assms(1), of "fst oid"]
    by (cases "map_of (old_index_next_ids A) (fst oid)") (force simp: merge_states_facts(3) [OF assms(1,2)])+
qed

lemma merge_states_wf:
  assumes "wf_state A (restore B V)" and "wf_state B V" and "wf_view (restore A (restore B V))"
  shows "wf_state (merge_states A B) V"
proof -
  note f = merge_states_facts [OF assms(1,2)]
  let ?M = "merge_states A B"
  have new: "map_of (old_values ?M) oid = None \<and> map_of (removed ?M) oid = None \<and> fst V oid \<noteq> None"
    if "oid \<in> set (new_ids ?M)" for oid
    using that
    by (cases rule: wf_state_cases [OF assms(1), of oid]; cases rule: wf_state_cases [OF assms(2), of oid])
      (simp_all add: f in_fst_map_of new_not_removed_before [OF assms])
  have old: "map_of (removed ?M) oid = None \<and> fst V oid \<noteq> None" if "map_of (old_values ?M) oid = Some x" for oid x
    using that
    by (cases rule: wf_state_cases [OF assms(1), of oid]; cases rule: wf_state_cases [OF assms(2), of oid])
      (simp_all add: f in_fst_map_of new_not_removed_before [OF assms])
  have rem: "fst V oid = None" if "map_of (removed ?M) oid = Some x" for oid x
    using that
    by (cases rule: wf_state_cases [OF assms(1), of oid]; cases rule: wf_state_cases [OF assms(2), of oid])
      (simp_all add: f in_fst_map_of new_not_removed_before [OF assms])
  have nxt: "\<exists>m. snd V ix = Some m \<and> n \<le> m" if "map_of (old_index_next_ids ?M) ix = Some n" for ix n
  proof (cases "map_of (old_index_next_ids A) ix")
    case None
    then have "map_of (old_index_next_ids B) ix = Some n" using that f(3) by simp
    then show ?thesis using wf_state_bound [OF assms(2)] by blast
  next
    case (Some k)
    then have "map_of (old_index_next_ids A) ix = Some n" using that f(3) by simp
    then obtain m where m: "snd (restore B V) ix = Some m" "n \<le> m"
      using wf_state_bound [OF assms(1)] by blast
    then show ?thesis using wf_state_bound [OF assms(2), of ix m]
      by (cases "map_of (old_index_next_ids B) ix") (auto simp: restore_def)
  qed
  have nn: "\<exists>n. map_of (old_index_next_ids ?M) (fst oid) = Some n \<and> n \<le> snd oid"
    if "oid \<in> set (new_ids ?M)" for oid
    using merge_states_next [OF assms(1,2)] that f(4) by blast
  have dist: "distinct (map fst (old_values ?M))" "distinct (map fst (removed ?M))" "distinct (new_ids ?M)"
    using f(1) by (simp_all add: log_ok_def)
  show ?thesis
    unfolding wf_state_def
    by (intro conjI ballI allI impI) (use dist f(2) new old rem nxt nn in blast)+
qed

section \<open>Playing a log back\<close>

lemma hooks_disabled [simp]:
  "disabled u \<Longrightarrow> on_create oid u = u"
  "disabled u \<Longrightarrow> on_modify oid x u = u"
  "disabled u \<Longrightarrow> on_remove oid x u = u"
  by (simp_all add: on_create_def on_modify_def on_remove_def)

text \<open>What each of the four loops leaves untouched.\<close>

definition same_frame :: "'o object_database \<Rightarrow> 'o object_database \<Rightarrow> bool" where
  "same_frame d d' \<longleftrightarrow> db_ok d' \<and> same_kinds d d' \<and> undo_db d' = undo_db d"

lemma same_frame_refl: "db_ok d \<Longrightarrow> same_frame d d"
  by (simp add: same_frame_def)

lemma same_frame_trans: "same_frame d e \<Longrightarrow> same_frame e f \<Longrightarrow> same_frame d f"
  by (auto simp: same_frame_def intro: same_kinds_trans)

lemma foldE_modify:
  assumes "foldE (\<lambda>(oid, x). db_modify clash oid (\<lambda>_. x)) ps d = Inr d'"
    and "db_ok d" and "disabled (undo_db d)" and "distinct (map fst ps)"
  shows "view_of d' = ((\<lambda>oid. case map_of ps oid of Some x \<Rightarrow> Some x | None \<Rightarrow> obj_at d oid), next_at d) \<and>
    same_frame d d'"
  using assms
proof (induction ps arbitrary: d)
  case Nil
  then show ?case by (simp add: view_of_def same_frame_refl)
next
  case (Cons p ps)
  obtain oid x where p: "p = (oid, x)" by (cases p)
  with Cons.prems(1) obtain e where e: "db_modify clash oid (\<lambda>_. x) d = Inr e"
    and rest: "foldE (\<lambda>(oid, x). db_modify clash oid (\<lambda>_. x)) ps e = Inr d'" by auto
  obtain y where v: "view_of e = ((obj_at d)(oid \<mapsto> x), next_at d)" and f: "same_frame d e"
    using db_modify_view [OF Cons.prems(2) e] Cons.prems(3) by (metis hooks_disabled(2) same_frame_def)
  have e': "db_ok e" "disabled (undo_db e)" "distinct (map fst ps)"
    using f Cons.prems(3,4) by (simp_all add: same_frame_def)
  have "map_of ps oid = None" using Cons.prems(4) p by (simp add: map_of_eq_None_iff)
  then show ?case
    using Cons.IH [OF rest e'] v f same_frame_trans [of d e d']
    by (auto simp: p view_of_def fun_eq_iff split: option.splits)
qed

lemma foldE_remove:
  assumes "foldE db_remove ids d = Inr d'" and "db_ok d" and "disabled (undo_db d)"
  shows "view_of d' = ((\<lambda>oid. if oid \<in> set ids then None else obj_at d oid), next_at d) \<and> same_frame d d'"
  using assms
proof (induction ids arbitrary: d)
  case Nil
  then show ?case by (simp add: view_of_def same_frame_refl)
next
  case (Cons oid ids)
  then obtain e where e: "db_remove oid d = Inr e" and rest: "foldE db_remove ids e = Inr d'" by auto
  have v: "view_of e = ((obj_at d)(oid := None), next_at d)" and f: "same_frame d e"
    using db_remove_view [OF Cons.prems(2) e] Cons.prems(3) by (metis hooks_disabled(3) same_frame_def)+
  have e': "db_ok e" "disabled (undo_db e)" using f Cons.prems(3) by (simp_all add: same_frame_def)
  show ?case
    using Cons.IH [OF rest e'] v f same_frame_trans [of d e d'] by (auto simp: view_of_def fun_eq_iff)
qed

lemma foldE_next_id:
  assumes "foldE (\<lambda>(ix, n). db_set_next_id ix n) ps d = Inr d'"
    and "db_ok d" and "distinct (map fst ps)"
    and "\<And>ix n k. map_of ps ix = Some n \<Longrightarrow> n \<le> k \<Longrightarrow> obj_at d (ix, k) = None"
  shows "view_of d' = (obj_at d, (\<lambda>ix. case map_of ps ix of Some n \<Rightarrow> Some n | None \<Rightarrow> next_at d ix)) \<and>
    same_frame d d'"
  using assms
proof (induction ps arbitrary: d)
  case Nil
  then show ?case by (simp add: view_of_def same_frame_refl)
next
  case (Cons p ps)
  obtain ix n where p: "p = (ix, n)" by (cases p)
  with Cons.prems(1) obtain e where e: "db_set_next_id ix n d = Inr e"
    and rest: "foldE (\<lambda>(ix, n). db_set_next_id ix n) ps e = Inr d'" by auto
  have none: "obj_at d (ix, k) = None" if "n \<le> k" for k using Cons.prems(4) [of ix n k] that p by simp
  note s = db_set_next_id_view [OF Cons.prems(2) e none]
  have f: "same_frame d e" using s by (simp add: same_frame_def)
  have ix: "map_of ps ix = None" using Cons.prems(3) p by (simp add: map_of_eq_None_iff)
  have e': "db_ok e" "distinct (map fst ps)" using s Cons.prems(3) by simp_all
  have "obj_at e (jx, k) = None" if "map_of ps jx = Some m" "m \<le> k" for jx m k
  proof -
    have "jx \<noteq> ix" using that ix by auto
    then show ?thesis using Cons.prems(4) [of jx m k] that s(1) by (simp add: p view_of_def)
  qed
  then show ?case
    using Cons.IH [OF rest e'] s(1) f ix same_frame_trans [of d e d']
    by (auto simp: p view_of_def fun_eq_iff split: option.splits)
qed

lemma foldE_insert:
  assumes "foldE (\<lambda>(oid, x). db_insert clash oid x) ps d = Inr d'"
    and "db_ok d" and "distinct (map fst ps)"
    and "\<And>oid x. map_of ps oid = Some x \<Longrightarrow> \<exists>n. next_at d (fst oid) = Some n \<and> snd oid < n"
  shows "view_of d' = ((\<lambda>oid. case map_of ps oid of Some x \<Rightarrow> Some x | None \<Rightarrow> obj_at d oid), next_at d) \<and>
    same_frame d d'"
  using assms
proof (induction ps arbitrary: d)
  case Nil
  then show ?case by (simp add: view_of_def same_frame_refl)
next
  case (Cons p ps)
  obtain oid x where p: "p = (oid, x)" by (cases p)
  with Cons.prems(1) obtain e where e: "db_insert clash oid x d = Inr e"
    and rest: "foldE (\<lambda>(oid, x). db_insert clash oid x) ps e = Inr d'" by auto
  obtain n where n: "next_at d (fst oid) = Some n" "snd oid < n" using Cons.prems(4) [of oid x] p by auto
  note s = db_insert_view [OF Cons.prems(2) e n]
  have f: "same_frame d e" using s by (simp add: same_frame_def)
  have oid: "map_of ps oid = None" using Cons.prems(3) p by (simp add: map_of_eq_None_iff)
  have e': "db_ok e" "distinct (map fst ps)" using s Cons.prems(3) by simp_all
  have "\<exists>n. next_at e (fst o') = Some n \<and> snd o' < n" if "map_of ps o' = Some y" for o' y
  proof -
    have "o' \<noteq> oid" using that oid by auto
    then show ?thesis using Cons.prems(4) [of o' y] that s(1) by (simp add: p view_of_def)
  qed
  then show ?case
    using Cons.IH [OF rest e'] s(1) f oid same_frame_trans [of d e d']
    by (auto simp: p view_of_def fun_eq_iff split: option.splits)
qed

lemma play_back_view:
  assumes "play_back clash st d = Inr d'" and "db_ok d" and "disabled (undo_db d)"
    and "wf_state st (view_of d)" and "wf_view (restore st (view_of d))"
  shows "view_of d' = restore st (view_of d) \<and> same_frame d d'"
proof -
  from assms(1) obtain d1 d2 d3 where
    1: "foldE (\<lambda>(oid, x). db_modify clash oid (\<lambda>_. x)) (old_values st) d = Inr d1" and
    2: "foldE db_remove (new_ids st) d1 = Inr d2" and
    3: "foldE (\<lambda>(ix, n). db_set_next_id ix n) (old_index_next_ids st) d2 = Inr d3" and
    4: "foldE (\<lambda>(oid, x). db_insert clash oid x) (removed st) d3 = Inr d'"
    by (auto simp: play_back_def)
  have dist: "distinct (map fst (old_values st))" "distinct (map fst (old_index_next_ids st))"
      "distinct (map fst (removed st))"
    using assms(4) by (simp_all add: wf_state_def)
  note s1 = foldE_modify [OF 1 assms(2,3) dist(1)]
  have "db_ok d1" "disabled (undo_db d1)" using s1 assms(3) by (simp_all add: same_frame_def)
  note s2 = foldE_remove [OF 2 this]
  have ok2: "db_ok d2" using s2 by (simp add: same_frame_def)
  have sub: "fst (restore st (view_of d)) oid = Some x" if "obj_at d2 oid = Some x" for oid x
    using that s1 s2 by (auto simp: view_of_def restore_def split: if_splits option.splits)
      (use assms(4) in \<open>auto simp: wf_state_def view_of_def\<close>)
  have "obj_at d2 (ix, k) = None" if "map_of (old_index_next_ids st) ix = Some n" "n \<le> k" for ix n k
  proof (rule ccontr)
    assume "obj_at d2 (ix, k) \<noteq> None"
    then obtain x where "fst (restore st (view_of d)) (ix, k) = Some x" using sub by blast
    then have "\<exists>m. snd (restore st (view_of d)) ix = Some m \<and> k < m" using wf_viewD [OF assms(5)] by fastforce
    then show False using that by (simp add: restore_def)
  qed
  then have s3: "view_of d3 = (obj_at d2, (\<lambda>ix. case map_of (old_index_next_ids st) ix of
      Some n \<Rightarrow> Some n | None \<Rightarrow> next_at d2 ix)) \<and> same_frame d2 d3"
    using foldE_next_id [OF 3 ok2 dist(2)] by blast
  have n3: "next_at d3 = snd (restore st (view_of d))"
    using s1 s2 s3 by (simp add: view_of_def restore_def fun_eq_iff split: option.split)
  have "\<exists>n. next_at d3 (fst oid) = Some n \<and> snd oid < n" if "map_of (removed st) oid = Some x" for oid x
  proof -
    have "fst (restore st (view_of d)) oid = Some x"
      using that by (cases rule: wf_state_cases [OF assms(4), of oid]) simp_all
    then show ?thesis using wf_viewD [OF assms(5)] n3 by simp
  qed
  then have s4: "view_of d' = ((\<lambda>oid. case map_of (removed st) oid of Some x \<Rightarrow> Some x | None \<Rightarrow> obj_at d3 oid),
      next_at d3) \<and> same_frame d3 d'"
    using foldE_insert [OF 4 _ dist(3)] s3 by (simp add: same_frame_def)
  have o3: "obj_at d3 oid = (if oid \<in> set (new_ids st) then None
      else case map_of (old_values st) oid of Some x \<Rightarrow> Some x | None \<Rightarrow> obj_at d oid)" for oid
    using s1 s2 s3 by (simp add: view_of_def split: option.split)
  have "fst (view_of d') oid = fst (restore st (view_of d)) oid" for oid
    by (cases rule: wf_state_cases [OF assms(4), of oid]) (use s4 o3 in \<open>simp_all add: view_of_def\<close>)
  then have "view_of d' = restore st (view_of d)"
    using s4 n3 by (simp add: prod_eq_iff fun_eq_iff)
  then show ?thesis using s1 s2 s3 s4 by (meson same_frame_trans)
qed

section \<open>When playing a log back succeeds\<close>

text \<open>
  Old values return one object at a time, so on the way every mixture of old and new values can
  occur. If no mixture breaks a unique key, \<open>play_back\<close> cannot fail.
\<close>

definition keys_apart :: "(index_id \<Rightarrow> 'o \<Rightarrow> 'o \<Rightarrow> bool) \<Rightarrow> 'o view \<Rightarrow> 'o view \<Rightarrow> bool" where
  "keys_apart clash V W \<longleftrightarrow>
     (\<forall>ix j k x y. j \<noteq> k \<longrightarrow> fst V (ix, j) = Some x \<or> fst W (ix, j) = Some x \<longrightarrow>
        fst V (ix, k) = Some y \<or> fst W (ix, k) = Some y \<longrightarrow> \<not> clash ix x y)"

definition mixed :: "'o view \<Rightarrow> 'o view \<Rightarrow> 'o object_database \<Rightarrow> bool" where
  "mixed V W d \<longleftrightarrow> (\<forall>oid x. obj_at d oid = Some x \<longrightarrow> fst V oid = Some x \<or> fst W oid = Some x)"

lemma mixed_apart:
  assumes "keys_apart clash V W" and "mixed V W d" and "indexes d ix = Some i"
    and "fst V (ix, k) = Some x \<or> fst W (ix, k) = Some x" and "j \<noteq> k" and "idx_find i j = Some y"
  shows "\<not> clash ix x y"
proof -
  have "fst V (ix, j) = Some y \<or> fst W (ix, j) = Some y"
    using assms(2,3,6) by (simp add: mixed_def obj_at_def)
  then show ?thesis using assms(1,4,5) unfolding keys_apart_def by metis
qed

lemma db_modify_ok:
  assumes "db_ok d" and "obj_at d oid \<noteq> None" and "fst W oid = Some x"
    and "keys_apart clash V W" and "mixed V W d"
  shows "\<exists>d'. db_modify clash oid (\<lambda>_. x) d = Inr d'"
proof -
  obtain i y where i: "indexes d (fst oid) = Some i" "idx_find i (snd oid) = Some y"
    using assms(2) by (auto simp: obj_at_def bind_eq_None_conv)
  have apart: "\<not> clash (fst oid) x z" if "j \<noteq> snd oid" "idx_find i j = Some z" for j z
    using mixed_apart [OF assms(4,5) i(1), of "snd oid" x j z] that assms(3) by simp
  have "\<exists>i'. idx_modify (clash (fst oid)) (snd oid) (\<lambda>_. x) i = Inr i'"
    using apart by (intro idx_modify_ok [OF db_okD [OF assms(1) i(1)] i(2)]) blast
  then show ?thesis using i by (auto simp: db_modify_def get_index_def idx_get_def)
qed

lemma db_insert_ok:
  assumes "db_ok d" and "next_at d (fst oid) \<noteq> None" and "obj_at d oid = None" and "fst W oid = Some x"
    and "keys_apart clash V W" and "mixed V W d"
  shows "\<exists>d'. db_insert clash oid x d = Inr d'"
proof -
  obtain i where i: "indexes d (fst oid) = Some i" "idx_find i (snd oid) = None"
    using assms(2,3) by (auto simp: next_at_def obj_at_def)
  have apart: "\<not> clash (fst oid) x z" if "j \<noteq> snd oid" "idx_find i j = Some z" for j z
    using mixed_apart [OF assms(5,6) i(1), of "snd oid" x j z] that assms(4) by simp
  have "\<exists>i'. idx_insert (clash (fst oid)) (snd oid) x i = Inr i'"
    using apart by (intro idx_insert_ok [OF db_okD [OF assms(1) i(1)] i(2)]) blast
  then show ?thesis using i by (auto simp: db_insert_def get_index_def)
qed

lemma map_of_Some_in: "map_of ps k = Some x \<Longrightarrow> k \<in> fst ` set ps"
  by (auto dest: map_of_SomeD intro: rev_image_eqI)

lemma foldE_modify_ok:
  assumes "db_ok d" and "disabled (undo_db d)" and "distinct (map fst ps)"
    and "\<And>oid x. map_of ps oid = Some x \<Longrightarrow> obj_at d oid \<noteq> None \<and> fst W oid = Some x"
    and "keys_apart clash V W" and "mixed V W d"
  shows "\<exists>d'. foldE (\<lambda>(oid, x). db_modify clash oid (\<lambda>_. x)) ps d = Inr d' \<and> mixed V W d'"
  using assms
proof (induction ps arbitrary: d)
  case Nil
  then show ?case by simp
next
  case (Cons p ps)
  obtain oid x where p: "p = (oid, x)" by (cases p)
  have x: "obj_at d oid \<noteq> None" "fst W oid = Some x" using Cons.prems(4) [of oid x] p by simp_all
  obtain e where e: "db_modify clash oid (\<lambda>_. x) d = Inr e"
    using db_modify_ok [OF Cons.prems(1) x Cons.prems(5,6)] by blast
  obtain y where v: "obj_at e = (obj_at d)(oid \<mapsto> x)" "db_ok e" "undo_db e = on_modify oid y (undo_db d)"
    using db_modify_view [OF Cons.prems(1) e] by (metis fst_conv view_of_def)
  have "obj_at e o' \<noteq> None \<and> fst W o' = Some z" if "map_of ps o' = Some z" for o' z
  proof -
    have "o' \<noteq> oid" using that Cons.prems(3) p by (auto dest: map_of_Some_in)
    then show ?thesis using Cons.prems(4) [of o' z] that p v(1) by simp
  qed
  moreover have "mixed V W e" using Cons.prems(6) v(1) x(2) by (simp add: mixed_def)
  moreover have "distinct (map fst ps)" "disabled (undo_db e)" using Cons.prems(2,3) v(3) by simp_all
  ultimately show ?case using Cons.IH [of e] v(2) Cons.prems(5) e p by simp
qed

lemma foldE_remove_ok:
  assumes "db_ok d" and "disabled (undo_db d)" and "distinct ids"
    and "\<And>oid. oid \<in> set ids \<Longrightarrow> obj_at d oid \<noteq> None"
  shows "\<exists>d'. foldE db_remove ids d = Inr d'"
  using assms
proof (induction ids arbitrary: d)
  case Nil
  then show ?case by simp
next
  case (Cons oid ids)
  have "obj_at d oid \<noteq> None" using Cons.prems(4) by simp
  then obtain e where e: "db_remove oid d = Inr e"
    by (auto simp: obj_at_def bind_eq_None_conv db_remove_def get_index_def idx_get_def)
  obtain y where v: "obj_at e = (obj_at d)(oid := None)" "db_ok e" "undo_db e = on_remove oid y (undo_db d)"
    using db_remove_view [OF Cons.prems(1) e] by (metis fst_conv view_of_def)
  have "obj_at e o' \<noteq> None" if "o' \<in> set ids" for o'
    using that Cons.prems(3,4) v(1) by auto
  then show ?case using Cons.IH [of e] v Cons.prems(2,3) e by simp
qed

lemma foldE_next_id_ok:
  assumes "\<And>ix n. map_of ps ix = Some n \<Longrightarrow> next_at d ix \<noteq> None" and "distinct (map fst ps)"
  shows "\<exists>d'. foldE (\<lambda>(ix, n). db_set_next_id ix n) ps d = Inr d'"
  using assms
proof (induction ps arbitrary: d)
  case Nil
  then show ?case by simp
next
  case (Cons p ps)
  obtain ix n where p: "p = (ix, n)" by (cases p)
  have "next_at d ix \<noteq> None" using Cons.prems(1) [of ix n] p by simp
  then obtain i where i: "indexes d ix = Some i" by (auto simp: next_at_def)
  let ?e = "set_index ix (set_next_id n i) d"
  have e: "db_set_next_id ix n d = Inr ?e" using i by (simp add: db_set_next_id_def get_index_def)
  have "next_at ?e jx \<noteq> None" if "map_of ps jx = Some m" for jx m
    using that Cons.prems(1) [of jx m] p by (auto simp: next_at_set_index split: if_splits)
  then show ?case using Cons.IH [of ?e] Cons.prems(2) e p by simp
qed

lemma foldE_insert_ok:
  assumes "db_ok d" and "distinct (map fst ps)"
    and "\<And>oid x. map_of ps oid = Some x \<Longrightarrow> obj_at d oid = None \<and> fst W oid = Some x \<and>
      (\<exists>n. next_at d (fst oid) = Some n \<and> snd oid < n)"
    and "keys_apart clash V W" and "mixed V W d"
  shows "\<exists>d'. foldE (\<lambda>(oid, x). db_insert clash oid x) ps d = Inr d'"
  using assms
proof (induction ps arbitrary: d)
  case Nil
  then show ?case by simp
next
  case (Cons p ps)
  obtain oid x where p: "p = (oid, x)" by (cases p)
  obtain n where x: "obj_at d oid = None" "fst W oid = Some x" "next_at d (fst oid) = Some n" "snd oid < n"
    using Cons.prems(3) [of oid x] p by auto
  then obtain e where e: "db_insert clash oid x d = Inr e"
    using db_insert_ok [OF Cons.prems(1) _ x(1,2) Cons.prems(4,5)] by auto
  note v = db_insert_view [OF Cons.prems(1) e x(3,4)]
  have ve: "obj_at e = (obj_at d)(oid \<mapsto> x)" "next_at e = next_at d" using v(1) by (simp_all add: view_of_def)
  have "obj_at e o' = None \<and> fst W o' = Some z \<and> (\<exists>n. next_at e (fst o') = Some n \<and> snd o' < n)"
    if "map_of ps o' = Some z" for o' z
  proof -
    have "o' \<noteq> oid" using that Cons.prems(2) p by (auto dest: map_of_Some_in)
    then show ?thesis using Cons.prems(3) [of o' z] that p ve by simp
  qed
  moreover have "mixed V W e" using Cons.prems(5) ve x(2) by (simp add: mixed_def)
  ultimately show ?case using Cons.IH [of e] v(2) Cons.prems(2,4) e p by simp
qed

lemma play_back_ok:
  assumes "db_ok d" and "disabled (undo_db d)" and "wf_state st (view_of d)"
    and "wf_view (restore st (view_of d))" and "keys_apart clash (view_of d) (restore st (view_of d))"
  shows "\<exists>d'. play_back clash st d = Inr d'"
proof -
  let ?V = "view_of d" and ?W = "restore st (view_of d)"
  have dist: "distinct (map fst (old_values st))" "distinct (map fst (old_index_next_ids st))"
      "distinct (map fst (removed st))" "distinct (new_ids st)"
    using assms(3) by (simp_all add: wf_state_def)
  have "obj_at d oid \<noteq> None \<and> fst ?W oid = Some x" if "map_of (old_values st) oid = Some x" for oid x
    using that by (cases rule: wf_state_cases [OF assms(3), of oid]) (simp_all add: view_of_def)
  then obtain d1 where 1: "foldE (\<lambda>(oid, x). db_modify clash oid (\<lambda>_. x)) (old_values st) d = Inr d1"
    and m1: "mixed ?V ?W d1"
    using foldE_modify_ok [OF assms(1,2) dist(1) _ assms(5)] by (auto simp: mixed_def view_of_def)
  note s1 = foldE_modify [OF 1 assms(1,2) dist(1)]
  have ok1: "db_ok d1" "disabled (undo_db d1)" using s1 assms(2) by (simp_all add: same_frame_def)
  have "obj_at d1 oid \<noteq> None" if "oid \<in> set (new_ids st)" for oid
    using that s1 by (cases rule: wf_state_cases [OF assms(3), of oid]) (simp_all add: view_of_def)
  then obtain d2 where 2: "foldE db_remove (new_ids st) d1 = Inr d2"
    using foldE_remove_ok [OF ok1 dist(4)] by blast
  note s2 = foldE_remove [OF 2 ok1]
  have next2: "next_at d2 = next_at d" using s1 s2 by (simp add: view_of_def)
  have "next_at d2 ix \<noteq> None" if "map_of (old_index_next_ids st) ix = Some n" for ix n
    using wf_state_bound [OF assms(3) that] next2 by (auto simp: view_of_def)
  then obtain d3 where 3: "foldE (\<lambda>(ix, n). db_set_next_id ix n) (old_index_next_ids st) d2 = Inr d3"
    using foldE_next_id_ok [OF _ dist(2)] by blast
  have ok2: "db_ok d2" using s2 by (simp add: same_frame_def)
  have o2: "obj_at d2 oid = (if oid \<in> set (new_ids st) \<or> map_of (removed st) oid \<noteq> None then None else fst ?W oid)"
    for oid
    by (cases rule: wf_state_cases [OF assms(3), of oid]) (use s1 s2 in \<open>simp_all add: view_of_def\<close>)
  have "obj_at d2 (ix, k) = None" if "map_of (old_index_next_ids st) ix = Some n" "n \<le> k" for ix n k
  proof (cases "fst ?W (ix, k)")
    case None
    then show ?thesis by (simp add: o2)
  next
    case (Some x)
    then have "\<exists>m. snd ?W ix = Some m \<and> k < m" using wf_viewD [OF assms(4)] by fastforce
    then show ?thesis using that by (simp add: restore_def)
  qed
  then have s3: "view_of d3 = (obj_at d2, (\<lambda>ix. case map_of (old_index_next_ids st) ix of
      Some n \<Rightarrow> Some n | None \<Rightarrow> next_at d2 ix)) \<and> same_frame d2 d3"
    using foldE_next_id [OF 3 ok2 dist(2)] by blast
  have n3: "next_at d3 = snd ?W"
    using s3 next2 by (simp add: view_of_def restore_def fun_eq_iff split: option.split)
  have "obj_at d3 oid = None \<and> fst ?W oid = Some x \<and> (\<exists>n. next_at d3 (fst oid) = Some n \<and> snd oid < n)"
    if "map_of (removed st) oid = Some x" for oid x
  proof -
    have "fst ?W oid = Some x"
      using that by (cases rule: wf_state_cases [OF assms(3), of oid]) simp_all
    then show ?thesis using wf_viewD [OF assms(4)] n3 s3 o2 [of oid] that by (simp add: view_of_def)
  qed
  moreover have "mixed ?V ?W d3" using s3 o2 by (simp add: mixed_def view_of_def)
  moreover have "db_ok d3" using s3 by (simp add: same_frame_def)
  ultimately have "\<exists>d'. foldE (\<lambda>(oid, x). db_insert clash oid x) (removed st) d3 = Inr d'"
    using foldE_insert_ok [OF _ dist(3) _ assms(5)] by blast
  then show ?thesis using 1 2 3 by (simp add: play_back_def)
qed

section \<open>Refinement: a stack of snapshots\<close>

lemma restore_empty [simp]: "restore empty_state V = V"
  by (simp add: restore_def empty_state_def)

lemma wf_state_empty [simp]: "wf_state empty_state V"
  by (simp add: wf_state_def empty_state_def)

lemma snapshots_take: "snapshots (take n sts) V = take n (snapshots sts V)"
  by (induction sts arbitrary: n V) (auto simp: take_Cons split: nat.splits)

lemma wf_states_take: "wf_states sts V \<Longrightarrow> wf_states (take n sts) V"
  by (induction sts arbitrary: n V) (auto simp: take_Cons split: nat.splits)

lemma wf_states_view: "wf_states sts V \<Longrightarrow> wf_view V"
  by (cases sts) auto

lemma rev_upd_back: "stk \<noteq> [] \<Longrightarrow> rev (upd_back f stk) = f (last stk) # rev (butlast stk)"
  by (simp add: upd_back_def)

lemma rev_stack: "stk \<noteq> [] \<Longrightarrow> rev stk = last stk # rev (butlast stk)"
  by (metis append_butlast_last_id rev_eq_Cons_iff rev_rev_ident)

lemma undo_inv_last:
  assumes "undo_inv d" and "stack (undo_db d) \<noteq> []"
  shows "wf_state (last (stack (undo_db d))) (view_of d)"
    and "wf_states (rev (butlast (stack (undo_db d)))) (restore (last (stack (undo_db d))) (view_of d))"
    and "wf_view (restore (last (stack (undo_db d))) (view_of d))"
proof -
  have "wf_states (last (stack (undo_db d)) # rev (butlast (stack (undo_db d)))) (view_of d)"
    using assms rev_stack [of "stack (undo_db d)"] by (simp add: undo_inv_def)
  then show "wf_state (last (stack (undo_db d))) (view_of d)"
    and "wf_states (rev (butlast (stack (undo_db d)))) (restore (last (stack (undo_db d))) (view_of d))"
    and "wf_view (restore (last (stack (undo_db d))) (view_of d))"
    by (auto intro: wf_states_view)
qed

lemma snaps_Cons:
  "stack (undo_db d) \<noteq> [] \<Longrightarrow> snaps d = restore (last (stack (undo_db d))) (view_of d) #
     snapshots (rev (butlast (stack (undo_db d)))) (restore (last (stack (undo_db d))) (view_of d))"
  unfolding snaps_def by (subst rev_stack) simp_all

lemma snaps_eq_Nil: "snaps d = [] \<longleftrightarrow> stack (undo_db d) = []"
  using snaps_Cons [of d] by (cases "stack (undo_db d) = []") (simp_all add: snaps_def)

text \<open>A hook that keeps what the top log leads back to keeps every snapshot.\<close>

lemma hook_snaps:
  assumes "undo_inv d" and "stack (undo_db d) \<noteq> []" and "db_ok d'"
    and "undo_db d' = (undo_db d)\<lparr>stack := upd_back f (stack (undo_db d))\<rparr>"
    and "restore (f (last (stack (undo_db d)))) (view_of d') = restore (last (stack (undo_db d))) (view_of d)"
    and "wf_state (f (last (stack (undo_db d)))) (view_of d')"
  shows "snaps d' = snaps d" and "undo_inv d'"
  using undo_inv_last [OF assms(1,2)] assms(3-6) snaps_Cons [OF assms(2)] db_ok_wf_view [OF assms(3)]
  by (simp_all add: snaps_def undo_inv_def rev_upd_back [OF assms(2)])

lemma run_change_snaps:
  assumes "undo_inv d" and "\<not> disabled (undo_db d)" and "stack (undo_db d) \<noteq> []"
    and "run_change clash c d = Inr d'"
  shows "snaps d' = snaps d \<and> undo_inv d' \<and> same_kinds d d' \<and>
    disabled (undo_db d') = disabled (undo_db d) \<and> max_size (undo_db d') = max_size (undo_db d) \<and>
    active_sessions (undo_db d') = active_sessions (undo_db d) \<and> stack (undo_db d') \<noteq> []"
proof -
  have ok: "db_ok d" using assms(1) by (simp add: undo_inv_def)
  have ens: "ensure_back (stack (undo_db d)) = stack (undo_db d)" using assms(3) by (simp add: ensure_back_def)
  have ne: "upd_back f (stack (undo_db d)) \<noteq> []" for f by (simp add: upd_back_def)
  note top = undo_inv_last [OF assms(1,3)]
  show ?thesis
  proof (cases c)
    case (Create ix ctor)
    then have "db_create clash ix ctor d = Inr d'" using assms(4) by simp
    then obtain n where n: "next_at d ix = Some n" "obj_at d (ix, n) = None"
      and v: "view_of d' = ((obj_at d)((ix, n) \<mapsto> ctor n), (next_at d)(ix \<mapsto> Suc n))"
      and ok': "db_ok d'" "same_kinds d d'" and u: "undo_db d' = on_create (ix, n) (undo_db d)"
      using db_create_view [OF ok] by metis
    have u': "undo_db d' = (undo_db d)\<lparr>stack := upd_back (log_create (ix, n)) (stack (undo_db d))\<rparr>"
      using u assms(2) ens by (simp add: on_create_def)
    note r = log_create_restore [OF top(1,3) [unfolded view_of_def] n, of "ctor n", folded v view_of_def]
    show ?thesis using hook_snaps [OF assms(1,3) ok'(1) u' r] ok'(2) u' ne by simp
  next
    case (Modify oid f)
    then have "db_modify clash oid f d = Inr d'" using assms(4) by simp
    then obtain x where x: "obj_at d oid = Some x"
      and v: "view_of d' = ((obj_at d)(oid \<mapsto> f x), next_at d)"
      and ok': "db_ok d'" "same_kinds d d'" and u: "undo_db d' = on_modify oid x (undo_db d)"
      using db_modify_view [OF ok] by metis
    have u': "undo_db d' = (undo_db d)\<lparr>stack := upd_back (log_modify oid x) (stack (undo_db d))\<rparr>"
      using u assms(2) ens by (simp add: on_modify_def)
    note r = log_modify_restore [OF top(1) [unfolded view_of_def] x, of "f x", folded v view_of_def]
    show ?thesis using hook_snaps [OF assms(1,3) ok'(1) u' r] ok'(2) u' ne by simp
  next
    case (Remove oid)
    then have "db_remove oid d = Inr d'" using assms(4) by simp
    then obtain x where x: "obj_at d oid = Some x"
      and v: "view_of d' = ((obj_at d)(oid := None), next_at d)"
      and ok': "db_ok d'" "same_kinds d d'" and u: "undo_db d' = on_remove oid x (undo_db d)"
      using db_remove_view [OF ok] by metis
    have u': "undo_db d' = (undo_db d)\<lparr>stack := upd_back (log_remove oid x) (stack (undo_db d))\<rparr>"
      using u assms(2) ens by (simp add: on_remove_def)
    note r = log_remove_restore [OF top(1) [unfolded view_of_def] x, folded v view_of_def]
    show ?thesis using hook_snaps [OF assms(1,3) ok'(1) u' r] ok'(2) u' ne by simp
  qed
qed

lemma start_snaps:
  assumes "undo_inv d" and "\<not> disabled (undo_db d) \<or> force"
  defines "d' \<equiv> snd (start_undo_session force d)"
  shows "snaps d' = view_of d # take (max_size (undo_db d)) (snaps d)" and "undo_inv d'"
    and "indexes d' = indexes d" and "\<not> disabled (undo_db d')"
    and "max_size (undo_db d') = max_size (undo_db d)"
    and "active_sessions (undo_db d') = Suc (active_sessions (undo_db d))"
    and "stack (undo_db d') \<noteq> []"
proof -
  let ?u = "undo_db d"
  define m where "m = max_size ?u"
  have d': "d' = d\<lparr>undo_db := ?u\<lparr>disabled := False, stack := drop (length (stack ?u) - m) (stack ?u) @ [empty_state],
      active_sessions := Suc (active_sessions ?u)\<rparr>\<rparr>"
    using assms(2) by (auto simp add: d'_def start_undo_session_def Let_def m_def)
  then have u': "undo_db d' = ?u\<lparr>disabled := False, stack := drop (length (stack ?u) - m) (stack ?u) @ [empty_state],
      active_sessions := Suc (active_sessions ?u)\<rparr>" and "indexes d' = indexes d"
    by simp_all
  then have v: "view_of d' = view_of d" "db_ok d' = db_ok d"
    by (simp_all add: view_of_def obj_at_def next_at_def db_ok_def fun_eq_iff)
  have r: "rev (drop (length (stack ?u) - m) (stack ?u)) = take m (rev (stack ?u))"
    by (simp add: take_rev)
  have w: "wf_states (rev (stack ?u)) (view_of d)" "db_ok d" using assms(1) by (simp_all add: undo_inv_def)
  show "snaps d' = view_of d # take (max_size ?u) (snaps d)"
    using v by (simp add: snaps_def u' r snapshots_take m_def [symmetric])
  show "undo_inv d'"
    using v w wf_states_take [OF w(1), of m] by (simp add: undo_inv_def u' r wf_states_view)
  show "indexes d' = indexes d" "\<not> disabled (undo_db d')" "max_size (undo_db d') = max_size ?u"
    "active_sessions (undo_db d') = Suc (active_sessions ?u)" "stack (undo_db d') \<noteq> []"
    by (simp_all add: u' \<open>indexes d' = indexes d\<close>)
qed

lemma undo_snaps:
  assumes "undo_inv d" and "undo clash d = Inr d'"
  obtains W rest where "snaps d = W # rest" and "view_of d' = W"
    and "snaps d' = (if rest = [] then [W] else rest)" and "undo_inv d'" and "same_kinds d d'"
    and "\<not> disabled (undo_db d')" and "max_size (undo_db d') = max_size (undo_db d)"
    and "Suc (active_sessions (undo_db d')) = active_sessions (undo_db d)" and "stack (undo_db d') \<noteq> []"
proof -
  let ?u = "undo_db d" and ?st = "last (stack (undo_db d))" and ?rest = "butlast (stack (undo_db d))"
  from assms(2) obtain e where en: "\<not> disabled ?u" "active_sessions ?u \<noteq> 0" and ne: "stack ?u \<noteq> []"
    and e: "play_back clash ?st (disable d) = Inr e"
    and d': "d' = e\<lparr>undo_db := ?u\<lparr>stack := ensure_back ?rest, active_sessions := active_sessions ?u - 1\<rparr>\<rparr>"
    by (auto simp: undo_def Let_def split: if_splits)
  note top = undo_inv_last [OF assms(1) ne]
  have dv: "view_of (disable d) = view_of d" "db_ok (disable d)" "disabled (undo_db (disable d))"
    using assms(1) by (simp_all add: disable_def undo_inv_def)
  note p = play_back_view [OF e dv(2,3), unfolded dv(1), OF top(1,3)]
  have v: "view_of d' = restore ?st (view_of d)" and ok: "db_ok d'" and k: "same_kinds d d'"
    using p by (simp_all add: d' same_frame_def disable_def)
  show thesis
  proof (rule that [OF snaps_Cons [OF ne] v])
    show "snaps d' = (if snapshots (rev ?rest) (restore ?st (view_of d)) = [] then [restore ?st (view_of d)]
        else snapshots (rev ?rest) (restore ?st (view_of d)))"
      by (cases "rev ?rest") (simp_all add: snaps_def v, simp_all add: d' ensure_back_def)
    show "undo_inv d'"
      using top(2,3) ok by (cases "?rest = []") (simp_all add: undo_inv_def v, simp_all add: d' ensure_back_def)
  qed (use en k in \<open>simp_all add: d' ensure_back_def\<close>)
qed

lemma two_last:
  assumes "2 \<le> length xs"
  obtains a b low where "xs = rev low @ [a, b]"
proof -
  have "2 \<le> length (rev xs)" using assms by simp
  then obtain b a low where "rev xs = b # a # low"
    by (cases "rev xs" rule: remdups_adj.cases) simp_all
  then have "rev (rev xs) = rev low @ [a, b]" by simp
  then have "xs = rev low @ [a, b]" by simp
  then show thesis by (rule that)
qed

lemma merge_snaps:
  assumes "undo_inv d" and "merge d = Inr d'"
  obtains W W' rest where "snaps d = W # W' # rest" and "snaps d' = W' # rest" and "undo_inv d'"
    and "indexes d' = indexes d" and "disabled (undo_db d') = disabled (undo_db d)"
    and "max_size (undo_db d') = max_size (undo_db d)"
    and "Suc (active_sessions (undo_db d')) = active_sessions (undo_db d)" and "stack (undo_db d') \<noteq> []"
proof -
  let ?u = "undo_db d" and ?V = "view_of d"
  from assms(2) have len: "2 \<le> length (stack ?u)" and act: "active_sessions ?u \<noteq> 0"
    and d': "d' = d\<lparr>undo_db := ?u\<lparr>stack := upd_back (\<lambda>prev. merge_states prev (last (stack ?u))) (butlast (stack ?u)),
      active_sessions := active_sessions ?u - 1\<rparr>\<rparr>"
    by (simp_all add: merge_def Let_def not_less split: if_splits)
  obtain A B low where stk: "stack ?u = rev low @ [A, B]" using two_last [OF len] .
  have wf: "wf_state B ?V" "wf_state A (restore B ?V)" "wf_states (low) (restore A (restore B ?V))"
    using assms(1) by (simp_all add: undo_inv_def stk)
  note m = merge_states_restore [OF wf(2,1) wf_states_view [OF wf(3)]]
    merge_states_wf [OF wf(2,1) wf_states_view [OF wf(3)]]
  have stk': "stack (undo_db d') = rev low @ [merge_states A B]"
    by (simp add: d' stk upd_back_def butlast_append)
  show thesis
  proof (rule that)
    show "snaps d = restore B ?V # restore A (restore B ?V) # snapshots (low) (restore A (restore B ?V))"
      by (simp add: snaps_def stk)
    show "snaps d' = restore A (restore B ?V) # snapshots (low) (restore A (restore B ?V))"
      using m(1) by (simp add: snaps_def stk') (simp add: d')
    show "undo_inv d'"
      using assms(1) wf m db_ok_wf_view [of d] by (simp add: undo_inv_def stk') (simp add: d')
  qed (use act in \<open>simp_all add: d' upd_back_def\<close>)
qed

lemma pop_commit_snaps:
  assumes "undo_inv d" and "pop_commit clash d = Inr d'"
  obtains W rest where "snaps d = W # rest" and "view_of d' = W" and "snaps d' = rest"
    and "undo_inv d'" and "same_kinds d d'" and "\<not> disabled (undo_db d')"
    and "max_size (undo_db d') = max_size (undo_db d)"
    and "active_sessions (undo_db d) = 0" and "active_sessions (undo_db d') = 0"
proof -
  let ?u = "undo_db d" and ?st = "last (stack (undo_db d))" and ?rest = "butlast (stack (undo_db d))"
  from assms(2) obtain e where ne: "stack ?u \<noteq> []" and act: "active_sessions ?u = 0"
    and e: "play_back clash ?st (disable d) = Inr e"
    and d': "d' = e\<lparr>undo_db := ?u\<lparr>stack := ?rest, disabled := False\<rparr>\<rparr>"
    by (auto simp: pop_commit_def Let_def split: if_splits)
  note top = undo_inv_last [OF assms(1) ne]
  have dv: "view_of (disable d) = view_of d" "db_ok (disable d)" "disabled (undo_db (disable d))"
    using assms(1) by (simp_all add: disable_def undo_inv_def)
  note p = play_back_view [OF e dv(2,3), unfolded dv(1), OF top(1,3)]
  have v: "view_of d' = restore ?st (view_of d)" and ok: "db_ok d'" and k: "same_kinds d d'"
    using p by (simp_all add: d' same_frame_def disable_def)
  show thesis
  proof (rule that [OF snaps_Cons [OF ne] v])
    show "snaps d' = snapshots (rev ?rest) (restore ?st (view_of d))"
      by (simp add: snaps_def v) (simp add: d')
    show "undo_inv d'"
      using top(2) ok by (simp add: undo_inv_def v) (simp add: d')
  qed (use act k in \<open>simp_all add: d'\<close>)
qed

end
