(* ===== verification/Undo_Sessions.thy ===== *)
theory Undo_Sessions
  imports Undo_Correct
begin

text \<open>
  The contract of nested undo sessions as the locale \<open>snapshot_store\<close>, what a client such as
  \<open>chain::database\<close> can conclude from it (a rejected block or transaction leaves no trace,
  however many sessions were opened and merged on the way), and its interpretation on the undo
  database. The step relation \<open>undo_step\<close> covers every public operation; its reachable
  states satisfy the data invariant.
\<close>

section \<open>The contract\<close>

locale snapshot_store =
  fixes view :: "'d \<Rightarrow> 'v"
    and hist :: "'d \<Rightarrow> 'v list"
    and cap :: "'d \<Rightarrow> nat"
    and ok :: "'d \<Rightarrow> bool"
    and like :: "'d \<Rightarrow> 'd \<Rightarrow> bool"
    and push :: "'d \<Rightarrow> 'd"
    and change :: "'c \<Rightarrow> 'd \<Rightarrow> 'd res"
    and back_out :: "'d \<Rightarrow> 'd res"
    and fuse :: "'d \<Rightarrow> 'd res"
  assumes like_refl: "like d d"
    and like_trans: "like d e \<Longrightarrow> like e f \<Longrightarrow> like d f"
    and push_law: "ok d \<Longrightarrow> ok (push d) \<and> like d (push d) \<and> cap (push d) = cap d \<and>
      view (push d) = view d \<and> hist (push d) = view d # take (cap d) (hist d)"
    and change_law: "ok d \<Longrightarrow> hist d \<noteq> [] \<Longrightarrow> change c d = Inr d' \<Longrightarrow>
      ok d' \<and> like d d' \<and> cap d' = cap d \<and> hist d' = hist d"
    and back_out_law: "ok d \<Longrightarrow> back_out d = Inr d' \<Longrightarrow>
      ok d' \<and> like d d' \<and> cap d' = cap d \<and> hist d \<noteq> [] \<and> view d' = hd (hist d) \<and>
      hist d' = (if tl (hist d) = [] then [hd (hist d)] else tl (hist d))"
    and fuse_law: "ok d \<Longrightarrow> fuse d = Inr d' \<Longrightarrow>
      ok d' \<and> like d d' \<and> cap d' = cap d \<and> view d' = view d \<and> 2 \<le> length (hist d) \<and>
      hist d' = tl (hist d)"
begin

lemma changes_law:
  assumes "ok d" and "hist d \<noteq> []" and "foldE change cs d = Inr d'"
  shows "ok d' \<and> like d d' \<and> cap d' = cap d \<and> hist d' = hist d"
proof (rule foldE_invariant [where I = "\<lambda>e. ok e \<and> like d e \<and> cap e = cap d \<and> hist e = hist d", OF assms(3)])
  show "ok d \<and> like d d \<and> cap d = cap d \<and> hist d = hist d" using assms(1) like_refl by simp
next
  fix c e e'
  assume "ok e \<and> like d e \<and> cap e = cap d \<and> hist e = hist d" and "change c e = Inr e'"
  then show "ok e' \<and> like d e' \<and> cap e' = cap d \<and> hist e' = hist d"
    using change_law [of e c e'] like_trans [of d e e'] assms(2) by simp
qed

text \<open>An aborted session leaves no trace.\<close>

lemma abort_law:
  assumes "ok d" and "foldE change cs (push d) = Inr e" and "back_out e = Inr f"
  shows "ok f \<and> like d f \<and> cap f = cap d \<and> view f = view d \<and>
    (0 < cap d \<longrightarrow> hist d \<noteq> [] \<longrightarrow> hist f = take (cap d) (hist d))"
proof -
  note p = push_law [OF assms(1)]
  have "hist (push d) \<noteq> []" using p by simp
  note c = changes_law [OF conjunct1 [OF p] this assms(2)]
  note b = back_out_law [OF conjunct1 [OF c] assms(3)]
  have "like d f" using p c b by (metis like_trans)
  then show ?thesis using p c b by simp
qed

text \<open>
  An inner session that is merged into an outer one is undone with it: how a transaction is
  applied inside a block.
\<close>

lemma merged_abort_law:
  assumes "ok d" and "0 < cap d"
    and "foldE change cs (push d) = Inr e1" and "foldE change cs' (push e1) = Inr e2"
    and "fuse e2 = Inr e3" and "foldE change cs'' e3 = Inr e4" and "back_out e4 = Inr f"
  shows "ok f \<and> like d f \<and> view f = view d"
proof -
  note p = push_law [OF assms(1)]
  have "hist (push d) \<noteq> []" using p by simp
  note c1 = changes_law [OF conjunct1 [OF p] this assms(3)]
  note p2 = push_law [OF conjunct1 [OF c1]]
  have "hist (push e1) \<noteq> []" using p2 by simp
  note c2 = changes_law [OF conjunct1 [OF p2] this assms(4)]
  note f = fuse_law [OF conjunct1 [OF c2] assms(5)]
  have h3: "hist e3 = take (cap d) (view d # take (cap d) (hist d))" using f c2 p2 c1 p by simp
  then have "hist e3 \<noteq> []" using assms(2) by simp
  note c3 = changes_law [OF conjunct1 [OF f] this assms(6)]
  note b = back_out_law [OF conjunct1 [OF c3] assms(7)]
  have "hd (hist e3) = view d" using h3 assms(2) by (cases "cap d") simp_all
  moreover have "like d f" using p c1 p2 c2 f c3 b by (metis like_trans)
  ultimately show ?thesis using b c3 by simp
qed

end

section \<open>The undo database implements it\<close>

definition undo_ok :: "'o object_database \<Rightarrow> bool" where
  "undo_ok d \<longleftrightarrow> undo_inv d \<and> \<not> disabled (undo_db d)"

definition open_session :: "'o object_database \<Rightarrow> 'o object_database" where
  "open_session d = snd (start_undo_session False d)"

lemma same_kinds_of_indexes: "indexes d' = indexes d \<Longrightarrow> same_kinds d d'"
  by (simp add: same_kinds_def option.rel_refl)

lemma view_of_indexes: "indexes d' = indexes d \<Longrightarrow> view_of d' = view_of d"
  by (simp add: view_of_def obj_at_def next_at_def fun_eq_iff)

interpretation undo_store: snapshot_store view_of snaps "\<lambda>d. max_size (undo_db d)" undo_ok same_kinds
  open_session "run_change clash" "undo clash" merge
  for clash :: "index_id \<Rightarrow> 'o \<Rightarrow> 'o \<Rightarrow> bool"
proof (unfold_locales, goal_cases)
  case (1 d)
  show ?case by simp
next
  case (2 d e f)
  then show ?case by (rule same_kinds_trans)
next
  case (3 d)
  then have "undo_inv d" and "\<not> disabled (undo_db d) \<or> False" by (simp_all add: undo_ok_def)
  note s = start_snaps [OF this]
  show ?case
    using s same_kinds_of_indexes [OF s(3)] view_of_indexes [OF s(3)]
    by (simp add: undo_ok_def open_session_def)
next
  case (4 d c d')
  then have "undo_inv d" "\<not> disabled (undo_db d)" "stack (undo_db d) \<noteq> []"
    by (simp_all add: undo_ok_def snaps_eq_Nil)
  from run_change_snaps [OF this 4(3)] 4(1) show ?case by (simp add: undo_ok_def)
next
  case (5 d d')
  then have inv: "undo_inv d" by (simp add: undo_ok_def)
  show ?case by (rule undo_snaps [OF inv 5(2)]) (simp add: undo_ok_def)
next
  case (6 d d')
  then have inv: "undo_inv d" by (simp add: undo_ok_def)
  show ?case
    by (rule merge_snaps [OF inv 6(2)])
      (use 6(1) same_kinds_of_indexes [of d' d] view_of_indexes [of d' d] in \<open>simp add: undo_ok_def\<close>)
qed

section \<open>Every public operation\<close>

text \<open>
  The steps of a database whose undo log is enabled, as \<open>chain::database\<close> runs it between
  \<open>init\_genesis\<close> or \<open>reindex\<close> and shutdown.
\<close>

inductive undo_step ::
  "(index_id \<Rightarrow> 'o \<Rightarrow> 'o \<Rightarrow> bool) \<Rightarrow> 'o object_database \<Rightarrow> 'o object_database \<Rightarrow> bool"
  for clash :: "index_id \<Rightarrow> 'o \<Rightarrow> 'o \<Rightarrow> bool" where
  change: "run_change clash c d = Inr d' \<Longrightarrow> undo_step clash d d'"
| start: "undo_step clash d (snd (start_undo_session force d))"
| undo: "undo clash d = Inr d' \<Longrightarrow> undo_step clash d d'"
| merge: "merge d = Inr d' \<Longrightarrow> undo_step clash d d'"
| commit: "commit d = Inr d' \<Longrightarrow> undo_step clash d d'"
| pop_commit: "pop_commit clash d = Inr d' \<Longrightarrow> undo_step clash d d'"
| set_max_size: "undo_step clash d (d\<lparr>undo_db := (undo_db d)\<lparr>max_size := n\<rparr>\<rparr>)"

inductive undo_reach ::
  "(index_id \<Rightarrow> 'o \<Rightarrow> 'o \<Rightarrow> bool) \<Rightarrow> 'o object_database \<Rightarrow> 'o object_database \<Rightarrow> bool"
  for clash :: "index_id \<Rightarrow> 'o \<Rightarrow> 'o \<Rightarrow> bool" where
  refl: "undo_reach clash d d"
| step: "undo_reach clash d d' \<Longrightarrow> undo_step clash d' d'' \<Longrightarrow> undo_reach clash d d''"

definition session_inv :: "'o object_database \<Rightarrow> bool" where
  "session_inv d \<longleftrightarrow> undo_ok d \<and> (0 < active_sessions (undo_db d) \<longrightarrow> stack (undo_db d) \<noteq> [])"

definition with_back :: "'o object_database \<Rightarrow> 'o object_database" where
  "with_back d = d\<lparr>undo_db := (undo_db d)\<lparr>stack := ensure_back (stack (undo_db d))\<rparr>\<rparr>"

lemma ensure_back_ne [simp]: "ensure_back stk \<noteq> []"
  and ensure_back_idem [simp]: "ensure_back (ensure_back stk) = ensure_back stk"
  by (simp_all add: ensure_back_def)

text \<open>Without an open session, the first change opens a state of its own.\<close>

lemma run_change_with_back:
  "\<not> disabled (undo_db d) \<Longrightarrow> run_change clash c (with_back d) = run_change clash c d"
  by (cases c) (simp_all add: with_back_def db_create_def db_modify_def db_remove_def get_index_def
      set_index_def on_create_def on_modify_def on_remove_def)

lemma with_back_inv: "undo_inv d \<Longrightarrow> undo_inv (with_back d)"
  by (auto simp: undo_inv_def with_back_def ensure_back_def db_ok_wf_view)

lemma undo_step_inv:
  assumes "undo_step clash d d'" and "session_inv d"
  shows "session_inv d'"
  using assms
proof (induction rule: undo_step.induct)
  case (change c d d')
  have inv: "undo_inv (with_back d)" and en: "\<not> disabled (undo_db (with_back d))" "\<not> disabled (undo_db d)"
    and ne: "stack (undo_db (with_back d)) \<noteq> []"
    using change.prems by (simp_all add: session_inv_def undo_ok_def with_back_inv) (simp_all add: with_back_def)
  have "run_change clash c (with_back d) = Inr d'" using run_change_with_back [OF en(2)] change by metis
  from run_change_snaps [OF inv en(1) ne this] show ?case
    using en by (simp add: session_inv_def undo_ok_def)
next
  case (start d force)
  then show ?case using start_snaps [of d force] by (simp add: session_inv_def undo_ok_def)
next
  case (undo d d')
  then have inv: "undo_inv d" by (simp add: session_inv_def undo_ok_def)
  show ?case by (rule undo_snaps [OF inv undo.hyps]) (simp add: session_inv_def undo_ok_def)
next
  case (merge d d')
  then have inv: "undo_inv d" "\<not> disabled (undo_db d)" by (simp_all add: session_inv_def undo_ok_def)
  show ?case by (rule merge_snaps [OF inv(1) merge.hyps]) (simp add: session_inv_def undo_ok_def inv(2))
next
  case (commit d d')
  then show ?case
    by (auto simp: session_inv_def undo_ok_def undo_inv_def commit_def split: if_splits)
next
  case (pop_commit d d')
  then have inv: "undo_inv d" by (simp add: session_inv_def undo_ok_def)
  show ?case by (rule pop_commit_snaps [OF inv pop_commit.hyps]) (simp add: session_inv_def undo_ok_def)
next
  case (set_max_size d n)
  then show ?case by (simp add: session_inv_def undo_ok_def undo_inv_def)
qed

lemma undo_reach_inv: "undo_reach clash d d' \<Longrightarrow> session_inv d \<Longrightarrow> session_inv d'"
  by (induction rule: undo_reach.induct) (blast intro: undo_step_inv)+

lemma fresh_session_inv:
  "db_ok d \<Longrightarrow> stack (undo_db d) = [] \<Longrightarrow> active_sessions (undo_db d) = 0 \<Longrightarrow> \<not> disabled (undo_db d) \<Longrightarrow>
   session_inv d"
  by (simp add: session_inv_def undo_ok_def undo_inv_def db_ok_wf_view)

section \<open>Properties\<close>

text \<open>A small database for the concrete instances: one container with two objects.\<close>

definition demo_db :: "nat object_database" where
  "demo_db = \<lparr>indexes = [(0, 0) \<mapsto> Generic \<lparr>g_next_id = 2, g_rows = [(0, 10), (1, 20)]\<rparr>],
     undo_db = \<lparr>active_sessions = 0, disabled = False, stack = [], max_size = 256\<rparr>\<rparr>"

definition no_clash :: "index_id \<Rightarrow> nat \<Rightarrow> nat \<Rightarrow> bool" where
  "no_clash ix x y = False"

definition demo_changes :: "nat change list" where
  "demo_changes = [Modify ((0, 0), 0) (\<lambda>x. x + 1), Create (0, 0) (\<lambda>k. 100 + k), Remove ((0, 0), 1),
     Modify ((0, 0), 2) (\<lambda>x. x + 1)]"

definition run_changes ::
  "(index_id \<Rightarrow> 'o \<Rightarrow> 'o \<Rightarrow> bool) \<Rightarrow> 'o change list \<Rightarrow> 'o object_database \<Rightarrow> 'o object_database res" where
  "run_changes clash cs d = foldE (run_change clash) cs d"

lemma demo_session_inv: "session_inv demo_db"
  by (rule fresh_session_inv) (auto simp: demo_db_def db_ok_def generic_invar_def split: if_splits)

lemma undo_ok_session: "session_inv d \<Longrightarrow> undo_ok d"
  by (simp add: session_inv_def)

text \<open>
  C32. A session that is undone leaves no trace: whatever objects are created, changed and removed
  while it is open, \<open>undo\<close> brings every index back to exactly what it was, id counters
  included.
\<close>

theorem undo_restores:
  assumes "session_inv d" and "run_changes clash cs (open_session d) = Inr e" and "undo clash e = Inr f"
  shows "indexes f = indexes d"
proof -
  note a = undo_store.abort_law [OF undo_ok_session [OF assms(1)] assms(2) [unfolded run_changes_def] assms(3)]
  show ?thesis
    using indexes_ext [of d f] a assms(1) by (simp add: undo_ok_def undo_inv_def session_inv_def)
qed

theorem undo_restores_witness:
  "\<exists>e f. run_changes no_clash demo_changes (open_session demo_db) = Inr e \<and> undo no_clash e = Inr f \<and>
     indexes e \<noteq> indexes demo_db \<and> indexes f = indexes demo_db"
proof -
  let ?run = "run_changes no_clash demo_changes (open_session demo_db)"
  have "case ?run of Inl _ \<Rightarrow> False | Inr e \<Rightarrow> indexes e (0, 0) \<noteq> indexes demo_db (0, 0) \<and>
      (case undo no_clash e of Inl _ \<Rightarrow> False | Inr _ \<Rightarrow> True)"
    by code_simp
  then obtain e f where e: "?run = Inr e" and f: "undo no_clash e = Inr f"
    and ne: "indexes e (0, 0) \<noteq> indexes demo_db (0, 0)"
    by (auto split: sum.splits)
  show ?thesis using undo_restores [OF demo_session_inv e f] e f ne by (metis (full_types))
qed

text \<open>
  A transaction applied inside a block: the inner session is merged into the outer one, and
  undoing the outer session undoes the merged changes with it, exactly.
\<close>

theorem merged_session_undone:
  assumes "session_inv d" and "0 < max_size (undo_db d)"
    and "run_changes clash cs (open_session d) = Inr e1" and "run_changes clash cs' (open_session e1) = Inr e2"
    and "merge e2 = Inr e3" and "run_changes clash cs'' e3 = Inr e4" and "undo clash e4 = Inr f"
  shows "indexes f = indexes d"
proof -
  note a = undo_store.merged_abort_law [OF undo_ok_session [OF assms(1)] assms(2) assms(3,4) [unfolded run_changes_def]
      assms(5) assms(6) [unfolded run_changes_def] assms(7)]
  show ?thesis
    using indexes_ext [of d f] a assms(1) by (simp add: undo_ok_def undo_inv_def session_inv_def)
qed

definition nested_run :: "nat change list \<Rightarrow> nat change list \<Rightarrow> nat change list \<Rightarrow> nat object_database
    \<Rightarrow> (nat object_database \<times> nat object_database \<times> nat object_database \<times> nat object_database) res" where
  "nested_run cs cs' cs'' d =
     bindE (run_changes no_clash cs (open_session d)) (\<lambda>e1.
     bindE (run_changes no_clash cs' (open_session e1)) (\<lambda>e2.
     bindE (merge e2) (\<lambda>e3.
     bindE (run_changes no_clash cs'' e3) (\<lambda>e4.
     bindE (undo no_clash e4) (\<lambda>f. Inr (e1, e2, e3, e4))))))"

theorem merged_session_undone_witness:
  "\<exists>e1 e2 e3 e4 f. run_changes no_clash demo_changes (open_session demo_db) = Inr e1 \<and>
     run_changes no_clash [Remove ((0, 0), 2), Remove ((0, 0), 0), Create (0, 0) (\<lambda>k. k)] (open_session e1) = Inr e2 \<and>
     merge e2 = Inr e3 \<and> run_changes no_clash [Modify ((0, 0), 3) Suc] e3 = Inr e4 \<and>
     undo no_clash e4 = Inr f \<and> indexes f = indexes demo_db"
proof -
  let ?cs = "[Remove ((0, 0), 2), Remove ((0, 0), 0), Create (0, 0) (\<lambda>k. k)] :: nat change list"
  have "case nested_run demo_changes ?cs [Modify ((0, 0), 3) Suc] demo_db of Inl _ \<Rightarrow> False | Inr _ \<Rightarrow> True"
    by code_simp
  then obtain e1 e2 e3 e4 f where e: "run_changes no_clash demo_changes (open_session demo_db) = Inr e1"
    "run_changes no_clash ?cs (open_session e1) = Inr e2" "merge e2 = Inr e3"
    "run_changes no_clash [Modify ((0, 0), 3) Suc] e3 = Inr e4" "undo no_clash e4 = Inr f"
    by (auto simp: nested_run_def split: sum.splits)
  have "0 < max_size (undo_db demo_db)" by (simp add: demo_db_def)
  from merged_session_undone [OF demo_session_inv this e] e show ?thesis by blast
qed

text \<open>
  Undo never fails for want of an object: in a database that satisfies the data invariant, with
  a session open, \<open>undo\<close> succeeds whenever no mixture of the old and the new values breaks a
  unique key.
\<close>

theorem undo_succeeds:
  assumes "session_inv d" and "0 < active_sessions (undo_db d)"
    and "keys_apart clash (view_of d) (hd (snaps d))"
  shows "\<exists>f. undo clash d = Inr f"
proof -
  have ne: "stack (undo_db d) \<noteq> []" and inv: "undo_inv d" and en: "\<not> disabled (undo_db d)"
    using assms(1,2) by (simp_all add: session_inv_def undo_ok_def)
  note top = undo_inv_last [OF inv ne]
  have dv: "view_of (disable d) = view_of d" "db_ok (disable d)" "disabled (undo_db (disable d))"
    using inv by (simp_all add: disable_def undo_inv_def)
  have "keys_apart clash (view_of d) (restore (last (stack (undo_db d))) (view_of d))"
    using assms(3) by (simp add: snaps_Cons [OF ne])
  from play_back_ok [OF dv(2,3), unfolded dv(1), OF top(1,3) this]
  show ?thesis using en assms(2) ne by (auto simp: undo_def Let_def)
qed

lemma open_session_inv: "session_inv d \<Longrightarrow> session_inv (open_session d)"
  unfolding open_session_def by (rule undo_step_inv [OF undo_step.start])

lemma open_session_active: "session_inv d \<Longrightarrow> active_sessions (undo_db (open_session d)) = Suc (active_sessions (undo_db d))"
  unfolding open_session_def session_inv_def undo_ok_def using start_snaps(6) [of d False] by simp

theorem undo_succeeds_witness: "\<exists>f. undo no_clash (open_session demo_db) = Inr f"
proof (rule undo_succeeds)
  show "session_inv (open_session demo_db)" using demo_session_inv by (rule open_session_inv)
  show "0 < active_sessions (undo_db (open_session demo_db))"
    using open_session_active [OF demo_session_inv] by simp
  show "keys_apart no_clash (view_of (open_session demo_db)) (hd (snaps (open_session demo_db)))"
    by (simp add: keys_apart_def no_clash_def)
qed

text \<open>
  The data invariant holds in every state that any sequence of changes, sessions, undo, merge,
  commit and pop\_commit can reach; in particular, while a session is open there is a state to
  undo, so \<open>undo\<close> never reads the back of an empty deque.
\<close>

theorem reachable_session_inv:
  assumes "undo_reach clash d d'" and "db_ok d" and "stack (undo_db d) = []"
    and "active_sessions (undo_db d) = 0" and "\<not> disabled (undo_db d)"
  shows "undo_inv d' \<and> (0 < active_sessions (undo_db d') \<longrightarrow> stack (undo_db d') \<noteq> [])"
  using undo_reach_inv [OF assms(1) fresh_session_inv [OF assms(2-5)]]
  by (simp add: session_inv_def undo_ok_def)

theorem reachable_session_inv_witness:
  "undo_inv (open_session demo_db) \<and> stack (undo_db (open_session demo_db)) \<noteq> []"
proof -
  have "undo_reach no_clash demo_db (open_session demo_db)"
    unfolding open_session_def by (blast intro: undo_reach.refl undo_reach.step undo_step.start)
  moreover have "db_ok demo_db" by (auto simp: demo_db_def db_ok_def generic_invar_def split: if_splits)
  ultimately show ?thesis
    using reachable_session_inv [of no_clash demo_db "open_session demo_db"]
      open_session_active [OF demo_session_inv] by (simp add: demo_db_def)
qed

text \<open>
  The cells marked N/A in the table of \<open>merge\<close> cannot occur: an object removed in the
  previous state is in no container of the top state, and an object new in the top state is in no
  container of the previous one. The two \<open>assert\<close>s of \<open>merge\<close> never fire.
\<close>

theorem merge_no_causal_violation:
  assumes "session_inv d" and "stack (undo_db d) = low @ [A, B]"
  shows "(map_of (removed A) oid \<noteq> None \<longrightarrow>
      oid \<notin> set (new_ids B) \<and> map_of (old_values B) oid = None \<and> map_of (removed B) oid = None) \<and>
    (oid \<in> set (new_ids B) \<longrightarrow>
      oid \<notin> set (new_ids A) \<and> map_of (old_values A) oid = None \<and> map_of (removed A) oid = None)"
proof -
  have "wf_states (rev (low @ [A, B])) (view_of d)"
    using assms by (simp add: session_inv_def undo_ok_def undo_inv_def)
  then have wf: "wf_state B (view_of d)" "wf_state A (restore B (view_of d))"
    "wf_view (restore A (restore B (view_of d)))" by (auto intro: wf_states_view)
  note new = new_not_removed_before [OF wf(2,1,3), of oid]
  show ?thesis
    by (cases rule: wf_state_cases [OF wf(1), of oid]; cases rule: wf_state_cases [OF wf(2), of oid])
      (use new in simp_all)
qed

lemma run_changes_inv:
  assumes "session_inv d" and "run_changes clash cs d = Inr d'"
  shows "session_inv d'"
  using foldE_invariant [where I = session_inv, OF assms(2) [unfolded run_changes_def] assms(1)]
  by (meson undo_step.change undo_step_inv)

definition demo_removed :: "nat undo_state" where
  "demo_removed = empty_state\<lparr>removed := [(((0, 0), 1), 20)]\<rparr>"

definition demo_created :: "nat undo_state" where
  "demo_created = empty_state\<lparr>old_index_next_ids := [((0, 0), 2)], new_ids := [((0, 0), 2)]\<rparr>"

theorem merge_no_causal_violation_witness:
  "\<exists>e. run_changes no_clash [Remove ((0, 0), 1)] (open_session demo_db) = Inr e \<and>
     (\<exists>d. run_changes no_clash [Create (0, 0) (\<lambda>k. k)] (open_session e) = Inr d \<and>
       stack (undo_db d) = [] @ [demo_removed, demo_created] \<and>
       ((0, 0), 1) \<notin> set (new_ids demo_created) \<and> map_of (removed demo_removed) ((0, 0), 2) = None)"
proof -
  have "case run_changes no_clash [Remove ((0, 0), 1)] (open_session demo_db) of Inl _ \<Rightarrow> False
    | Inr e \<Rightarrow> (case run_changes no_clash [Create (0, 0) (\<lambda>k. k)] (open_session e) of Inl _ \<Rightarrow> False
      | Inr d \<Rightarrow> stack (undo_db d) = [] @ [demo_removed, demo_created])"
    by code_simp
  then obtain e d where e: "run_changes no_clash [Remove ((0, 0), 1)] (open_session demo_db) = Inr e"
    and d: "run_changes no_clash [Create (0, 0) (\<lambda>k. k)] (open_session e) = Inr d"
    and stk: "stack (undo_db d) = [] @ [demo_removed, demo_created]"
    by (auto split: sum.splits)
  have inv: "session_inv d"
    using run_changes_inv [OF open_session_inv [OF demo_session_inv] e] d
    by (blast intro: run_changes_inv open_session_inv)
  have "map_of (removed demo_removed) ((0, 0), 1) \<noteq> None" and "((0, 0), 2) \<in> set (new_ids demo_created)"
    by (simp_all add: demo_removed_def demo_created_def)
  then show ?thesis
    using merge_no_causal_violation [OF inv stk, of "((0, 0), 1)"]
      merge_no_causal_violation [OF inv stk, of "((0, 0), 2)"] e d stk by blast
qed

text \<open>
  Popping a committed block: after a session was committed and no other session is open,
  \<open>pop\_commit\<close> brings every index back to what it was when the session started.
\<close>

theorem pop_commit_restores:
  assumes "session_inv d" and "run_changes clash cs (open_session d) = Inr e" and "commit e = Inr e'"
    and "pop_commit clash e' = Inr f"
  shows "indexes f = indexes d"
proof -
  note p = undo_store.push_law [OF undo_ok_session [OF assms(1)]]
  have ne: "snaps (open_session d) \<noteq> []" using p by simp
  note c = undo_store.changes_law [OF conjunct1 [OF p] ne assms(2) [unfolded run_changes_def]]
  have e': "e' = e\<lparr>undo_db := (undo_db e)\<lparr>active_sessions := active_sessions (undo_db e) - 1\<rparr>\<rparr>"
    using assms(3) by (simp add: commit_def split: if_splits)
  have s: "snaps e' = snaps e" "undo_inv e'" "same_kinds e e'"
    using c by (simp_all add: e' snaps_def undo_ok_def undo_inv_def)
  show ?thesis
  proof (rule pop_commit_snaps [OF s(2) assms(4)])
    fix W rest assume w: "snaps e' = W # rest" "view_of f = W" "undo_inv f" "same_kinds e' f"
    have "same_kinds d f" using p c s(3) w(4) by (blast intro: same_kinds_trans)
    moreover have "view_of f = view_of d" using w s(1) c p by simp
    ultimately show ?thesis
      using indexes_ext [of d f] w(3) assms(1) by (simp add: undo_inv_def session_inv_def undo_ok_def)
  qed
qed

theorem pop_commit_restores_witness:
  "\<exists>e e' f. run_changes no_clash demo_changes (open_session demo_db) = Inr e \<and> commit e = Inr e' \<and>
     pop_commit no_clash e' = Inr f \<and> indexes f = indexes demo_db"
proof -
  have "case run_changes no_clash demo_changes (open_session demo_db) of Inl _ \<Rightarrow> False
    | Inr e \<Rightarrow> (case commit e of Inl _ \<Rightarrow> False
      | Inr e' \<Rightarrow> (case pop_commit no_clash e' of Inl _ \<Rightarrow> False | Inr _ \<Rightarrow> True))"
    by code_simp
  then obtain e e' f where "run_changes no_clash demo_changes (open_session demo_db) = Inr e"
    and "commit e = Inr e'" and "pop_commit no_clash e' = Inr f"
    by (auto split: sum.splits)
  then show ?thesis using pop_commit_restores [OF demo_session_inv] by blast
qed

section \<open>Where the guarantee ends\<close>

definition same_name :: "index_id \<Rightarrow> nat \<Rightarrow> nat \<Rightarrow> bool" where
  "same_name ix x y \<longleftrightarrow> x = y"

definition swap_changes :: "nat change list" where
  "swap_changes = [Modify ((0, 0), 0) (\<lambda>_. 99), Modify ((0, 0), 1) (\<lambda>_. 10), Modify ((0, 0), 0) (\<lambda>_. 20)]"

text \<open>
  The side condition of C3 is needed: when two objects swapped a unique key inside a session,
  restoring them one at a time collides with the other one and \<open>undo\<close> raises instead of
  undoing.
\<close>

theorem undo_swapped_keys_fails:
  "case run_changes same_name swap_changes (open_session demo_db) of
     Inl _ \<Rightarrow> False
   | Inr e \<Rightarrow> (case undo same_name e of Inl err \<Rightarrow> err = Assert_Exception | Inr _ \<Rightarrow> False)"
  by code_simp

text \<open>
  The course of \<open>push\_proposal\<close> while the log is disabled (during \<open>reindex\<close>): a
  forced session whose \<open>merge\<close> is a \<open>commit\<close> and which disables the log on exit.
\<close>

definition forced_session_run ::
  "(index_id \<Rightarrow> 'o \<Rightarrow> 'o \<Rightarrow> bool) \<Rightarrow> 'o change list \<Rightarrow> 'o object_database \<Rightarrow> 'o object_database res" where
  "forced_session_run clash cs d =
     (let (s, d1) = start_undo_session True d
      in bindE (run_changes clash cs d1) (\<lambda>d2.
         bindE (session_merge s d2) (\<lambda>(s', d3).
         session_exit clash s' d3)))"

text \<open>
  After such a session the log keeps a state that later, unlogged changes do not update: once
  the log is enabled again, \<open>pop\_commit\<close> succeeds and leaves the database in a state it
  never was in (object 0 as before the session, object 1 as after it).
\<close>

theorem forced_session_stale_state:
  "case bindE (forced_session_run no_clash [Modify ((0, 0), 0) (\<lambda>_. 11)] (disable demo_db)) (\<lambda>d1.
        bindE (run_changes no_clash [Modify ((0, 0), 1) (\<lambda>_. 21)] d1) (\<lambda>d2.
        pop_commit no_clash (enable d2))) of
     Inl _ \<Rightarrow> False
   | Inr f \<Rightarrow> get_object f ((0, 0), 0) = Inr 10 \<and> get_object f ((0, 0), 1) = Inr 21"
  by code_simp

end
