(* ===== verification/Decimal.thy ===== *)
theory Decimal
  imports Prelude
begin

text \<open>
  Decimal text as the code reads and writes it: \<open>to_string\<close> of an integer, the
  \<open>std::stoll\<close> family (leading white space, an optional sign, digits, the number of characters
  read, a range check), and \<open>find\<close>, \<open>substr\<close> on strings.
\<close>

section \<open>Definitions\<close>

definition digit_char :: "nat \<Rightarrow> char" where
  "digit_char n = ''0123456789'' ! n"

fun nat_to_string :: "nat \<Rightarrow> string" where
  "nat_to_string n = (if n < 10 then [digit_char n] else nat_to_string (n div 10) @ [digit_char (n mod 10)])"

declare nat_to_string.simps [simp del]

definition int_to_string :: "int \<Rightarrow> string" where
  "int_to_string n = (if n < 0 then ''-'' @ nat_to_string (nat (- n)) else nat_to_string (nat n))"

definition is_digit :: "char \<Rightarrow> bool" where
  "is_digit c = (c \<in> set ''0123456789'')"

fun char_pos :: "char \<Rightarrow> string \<Rightarrow> nat option" where
  "char_pos c [] = None"
| "char_pos c (x # xs) = (if x = c then Some 0 else map_option Suc (char_pos c xs))"

definition digit_val :: "char \<Rightarrow> nat" where
  "digit_val c = (case char_pos c ''0123456789'' of Some n \<Rightarrow> n | None \<Rightarrow> 0)"

definition digits_val :: "string \<Rightarrow> nat" where
  "digits_val ds = foldl (\<lambda>n c. 10 * n + digit_val c) 0 ds"

definition is_space_char :: "char \<Rightarrow> bool" where
  "is_space_char c = (c \<in> set '' '' \<or> c = CHR 0x09 \<or> c = CHR 0x0A \<or> c = CHR 0x0B \<or> c = CHR 0x0C \<or> c = CHR 0x0D)"

text \<open>
  \<open>stoi\<close>, \<open>stoll\<close> for a signed type with the given bound: the value and how many characters were
  read; an exception when there is no digit or the value is out of range.
\<close>

definition std_sto :: "int \<Rightarrow> string \<Rightarrow> (int \<times> nat) res" where
  "std_sto bound s =
     (let ws = takeWhile is_space_char s;
          r = drop (length ws) s;
          signed = (r \<noteq> [] \<and> (hd r = CHR ''-'' \<or> hd r = CHR ''+''));
          neg = (r \<noteq> [] \<and> hd r = CHR ''-'');
          r' = (if signed then tl r else r);
          ds = takeWhile is_digit r';
          v = (if neg then - int (digits_val ds) else int (digits_val ds))
      in if ds = [] then Inl Assert_Exception
         else if v < - bound \<or> bound \<le> v then Inl Out_Of_Range
         else Inr (v, length ws + (if signed then 1 else 0) + length ds))"

text \<open>\<open>find(c, from)\<close>: the first position at or after \<open>from\<close>; \<open>None\<close> is \<open>npos\<close>.\<close>

definition find_from :: "char \<Rightarrow> nat \<Rightarrow> string \<Rightarrow> nat option" where
  "find_from c from s = map_option (\<lambda>i. from + i) (char_pos c (drop from s))"

definition substr :: "nat \<Rightarrow> nat \<Rightarrow> string \<Rightarrow> string" where
  "substr from len s = take len (drop from s)"

section \<open>Reading what was written\<close>

lemma digit_char_cases:
  assumes "n < 10"
  shows "is_digit (digit_char n)" and "digit_val (digit_char n) = n"
proof -
  have "n \<in> {0, 1, 2, 3, 4, 5, 6, 7, 8, 9}" using assms by (simp; arith)
  then show "is_digit (digit_char n)" and "digit_val (digit_char n) = n"
    by (auto simp: is_digit_def digit_char_def digit_val_def)
qed

lemma nat_to_string_digits: "list_all is_digit (nat_to_string n)"
proof (induction n rule: nat_to_string.induct)
  case (1 n)
  then show ?case by (subst nat_to_string.simps) (auto simp: digit_char_cases)
qed

lemma nat_to_string_ne [simp]: "nat_to_string n \<noteq> []"
  by (subst nat_to_string.simps) simp

lemma digits_val_snoc: "digits_val (ds @ [c]) = 10 * digits_val ds + digit_val c"
  by (simp add: digits_val_def)

lemma digits_val_to_string [simp]: "digits_val (nat_to_string n) = n"
proof (induction n rule: nat_to_string.induct)
  case (1 n)
  show ?case
  proof (cases "n < 10")
    case True
    then show ?thesis by (subst nat_to_string.simps) (simp add: digits_val_def digit_char_cases)
  next
    case False
    then have "nat_to_string n = nat_to_string (n div 10) @ [digit_char (n mod 10)]"
      by (subst nat_to_string.simps) simp
    then show ?thesis using 1 False by (simp add: digits_val_snoc digit_char_cases)
  qed
qed

lemma digit_not_space: "is_digit c \<Longrightarrow> \<not> is_space_char c"
  and digit_not_sign: "is_digit c \<Longrightarrow> c \<noteq> CHR ''-'' \<and> c \<noteq> CHR ''+'' \<and> c \<noteq> CHR ''.''"
  by (auto simp: is_digit_def is_space_char_def)

lemma takeWhile_all: "list_all P xs \<Longrightarrow> takeWhile P xs = xs"
  by (simp add: list_all_iff)

lemma std_sto_digits:
  assumes "list_all is_digit s" and "s \<noteq> []" and "int (digits_val s) < bound"
  shows "std_sto bound s = Inr (int (digits_val s), length s)"
proof -
  obtain c r where s: "s = c # r" using assms(2) by (cases s) auto
  have "is_digit c" using assms(1) s by simp
  then have ws: "takeWhile is_space_char s = []" and sg: "hd s \<noteq> CHR ''-''" "hd s \<noteq> CHR ''+''"
    using digit_not_space digit_not_sign s by auto
  show ?thesis
    using assms(2,3) ws sg by (simp add: std_sto_def Let_def takeWhile_all [OF assms(1)] del: takeWhile_eq_all_conv)
qed

lemma std_sto_to_string:
  "int n < bound \<Longrightarrow> std_sto bound (nat_to_string n) = Inr (int n, length (nat_to_string n))"
  using std_sto_digits [OF nat_to_string_digits nat_to_string_ne, of n bound] by simp

lemma char_pos_append: "c \<notin> set xs \<Longrightarrow> char_pos c (xs @ c # ys) = Some (length xs)"
  by (induction xs) auto

lemma char_pos_None: "char_pos c xs = None \<longleftrightarrow> c \<notin> set xs"
  by (induction xs) auto

lemma dot_not_in_digits: "list_all is_digit s \<Longrightarrow> CHR ''.'' \<notin> set s"
  using digit_not_sign by (auto simp: list_all_iff)

end
