(* ===== verification/Object_Id.thy ===== *)
theory Object_Id
  imports Decimal
begin

unbundle bit_operations_syntax

text \<open>
  \<open>db/object\_id.hpp\<close>: an object id packs space, type and instance into 64 bits; it is written as
  \<open>space.type.instance\<close> and parsed back.
\<close>

section \<open>Packing\<close>

definition mk_object_id :: "8 word \<Rightarrow> 8 word \<Rightarrow> 64 word \<Rightarrow> 64 word res" where
  "mk_object_id s t i =
     bindE (require (drop_bit 48 i = 0) Assert_Exception) (\<lambda>_.
     Inr (push_bit 56 (ucast s) OR push_bit 48 (ucast t) OR i))"

definition oid_space :: "64 word \<Rightarrow> 8 word" where
  "oid_space n = ucast (drop_bit 56 n)"

definition oid_type :: "64 word \<Rightarrow> 8 word" where
  "oid_type n = ucast (drop_bit 48 n AND 0xff)"

definition GRAPHENE_DB_MAX_INSTANCE_ID :: "64 word" where
  "GRAPHENE_DB_MAX_INSTANCE_ID = drop_bit 16 (- 1)"

definition oid_instance :: "64 word \<Rightarrow> 64 word" where
  "oid_instance n = n AND GRAPHENE_DB_MAX_INSTANCE_ID"

definition oid_is :: "8 word \<Rightarrow> 8 word \<Rightarrow> 64 word \<Rightarrow> bool" where
  "oid_is s t n = (drop_bit 48 n = (push_bit 8 (ucast s) OR ucast t))"

definition oid_add :: "64 word \<Rightarrow> 64 word \<Rightarrow> 64 word res" where
  "oid_add a delta = mk_object_id (oid_space a) (oid_type a) (oid_instance a + delta)"

section \<open>Text\<close>

definition oid_to_string :: "64 word \<Rightarrow> string" where
  "oid_to_string n = nat_to_string (unat (oid_space n)) @ ''.'' @ nat_to_string (unat (oid_type n)) @ ''.'' @
     nat_to_string (unat (oid_instance n))"

text \<open>
  The constructor from text: exactly two dots, each part read to its end. \<open>stoi\<close> reads a 32-bit
  integer that is then cut to 8 bits, \<open>stoll\<close> a 64-bit one.
\<close>

definition oid_from_string :: "string \<Rightarrow> 64 word res" where
  "oid_from_string str =
     (if str = [] then Inr 0
      else
        let i1 = find_from (CHR ''.'') 0 str;
            i2 = (case i1 of Some k \<Rightarrow> find_from (CHR ''.'') (k + 1) str | None \<Rightarrow> None);
            i3 = (case i2 of Some k \<Rightarrow> find_from (CHR ''.'') (k + 1) str | None \<Rightarrow> None)
        in bindE (lift_opt Assert_Exception i1) (\<lambda>index1.
           bindE (lift_opt Assert_Exception i2) (\<lambda>index2.
           bindE (require (i3 = None) Assert_Exception) (\<lambda>_.
           bindE (std_sto (2 ^ 31) (substr 0 index1 str)) (\<lambda>(s, n1).
           bindE (require (n1 = index1) Assert_Exception) (\<lambda>_.
           bindE (std_sto (2 ^ 31) (substr (index1 + 1) (index2 - index1 - 1) str)) (\<lambda>(t, n2).
           bindE (require (n2 = index2 - index1 - 1) Assert_Exception) (\<lambda>_.
           bindE (std_sto (2 ^ 63) (substr (index2 + 1) (length str - index2 - 1) str)) (\<lambda>(i, n3).
           bindE (require (n3 = length str - index2 - 1) Assert_Exception) (\<lambda>_.
           mk_object_id (word_of_int s) (word_of_int t) (word_of_int i)))))))))))"

section \<open>Properties\<close>

lemma drop_bit_48: "drop_bit 48 i = 0 \<longleftrightarrow> i < (2 ^ 48 :: 64 word)"
proof -
  have "unat (drop_bit 48 i) = unat i div 2 ^ 48"
    unfolding unat_drop_bit_eq by (rule drop_bit_eq_div)
  then have "drop_bit 48 i = 0 \<longleftrightarrow> unat i div 2 ^ 48 = 0"
    by (metis unat_eq_zero)
  also have "\<dots> \<longleftrightarrow> unat i < 2 ^ 48" by (simp add: div_eq_0_iff)
  also have "\<dots> \<longleftrightarrow> i < 2 ^ 48" by (simp add: word_less_nat_alt)
  finally show ?thesis .
qed

lemma bit_255: "bit (0xff :: 'a::len word) k \<longleftrightarrow> k < min LENGTH('a) 8"
proof -
  have m: "(0xff :: 'a word) = mask 8" by (simp add: mask_eq_exp_minus_1)
  show ?thesis unfolding m bit_mask_iff by (auto simp: impossible_bit)
qed

lemma bit_max_instance: "bit GRAPHENE_DB_MAX_INSTANCE_ID k \<longleftrightarrow> k < 48"
  by (auto simp: GRAPHENE_DB_MAX_INSTANCE_ID_def bit_simps)

text \<open>The fields of a packed id, bit by bit.\<close>

lemma packed_fields:
  fixes s t :: "8 word" and i :: "64 word"
  assumes "drop_bit 48 i = 0"
  defines "n \<equiv> push_bit 56 (ucast s) OR push_bit 48 (ucast t) OR i"
  shows "oid_space n = s" and "oid_type n = t" and "oid_instance n = i" and "oid_is s t n"
proof -
  have hi: "\<not> bit i k" if "48 \<le> k" for k
    using arg_cong [OF assms(1), of "\<lambda>w. bit w (k - 48)"] that by (simp add: bit_drop_bit_eq)
  have t8: "\<not> bit t k" if "8 \<le> k" for k using that by (simp add: bit_word.rep_eq impossible_bit)
  have s8: "\<not> bit s k" if "8 \<le> k" for k using that by (simp add: bit_word.rep_eq impossible_bit)
  show "oid_space n = s"
    by (rule bit_word_eqI) (auto simp: oid_space_def n_def bit_simps hi t8)
  show "oid_type n = t"
  proof (rule bit_word_eqI)
    fix k assume "k < LENGTH(8)"
    then show "bit (oid_type n) k = bit t k"
      using bit_255 [where 'a = 64, of k]
      by (auto simp: oid_type_def n_def bit_ucast_iff bit_and_iff bit_drop_bit_eq bit_or_iff bit_push_bit_iff hi)
  qed
  show "oid_instance n = i"
    by (rule bit_word_eqI) (auto simp: oid_instance_def n_def bit_simps bit_max_instance intro: ccontr dest: hi [OF leI])
  show "oid_is s t n"
    unfolding oid_is_def by (rule bit_word_eqI) (auto simp: n_def bit_simps hi t8 s8 intro: ccontr)
qed

text \<open>
  Packing is lossless: an id made of a space, a type and an instance below \<open>2 ^ 48\<close> gives the
  three back, and a larger instance is refused.
\<close>

theorem oid_pack_unpack:
  "case mk_object_id s t i of
     Inl _ \<Rightarrow> 2 ^ 48 \<le> i
   | Inr n \<Rightarrow> i < 2 ^ 48 \<and> oid_space n = s \<and> oid_type n = t \<and> oid_instance n = i \<and> oid_is s t n"
proof (cases "drop_bit 48 i = 0")
  case False
  then have "2 ^ 48 \<le> i" using drop_bit_48 [of i] by simp
  then show ?thesis using False by (simp add: mk_object_id_def)
next
  case True
  then have "i < 2 ^ 48" using drop_bit_48 [of i] by blast
  then show ?thesis using True packed_fields [OF True, of s t] by (simp add: mk_object_id_def)
qed

lemma oid_repack: "mk_object_id (oid_space n) (oid_type n) (oid_instance n) = Inr n"
proof -
  have "drop_bit 48 (oid_instance n) = 0"
    by (rule bit_word_eqI) (simp add: oid_instance_def bit_drop_bit_eq bit_and_iff bit_max_instance)
  moreover have "push_bit 56 (ucast (oid_space n)) OR push_bit 48 (ucast (oid_type n)) OR oid_instance n = n"
  proof (rule bit_word_eqI)
    fix k assume k: "k < LENGTH(64)"
    consider "k < 48" | "48 \<le> k" "k < 56" | "56 \<le> k" by linarith
    then show "bit (push_bit 56 (ucast (oid_space n)) OR push_bit 48 (ucast (oid_type n)) OR oid_instance n) k = bit n k"
      using k bit_255 [where 'a = 64, of "k - 48"]
      by cases (auto simp: oid_space_def oid_type_def oid_instance_def bit_or_iff bit_push_bit_iff bit_ucast_iff
          bit_drop_bit_eq bit_and_iff bit_max_instance)
  qed
  ultimately show ?thesis by (simp add: mk_object_id_def)
qed

lemma oid_instance_less: "unat (oid_instance n) < 2 ^ 48"
proof -
  have "drop_bit 48 (oid_instance n) = 0"
    by (rule bit_word_eqI) (simp add: oid_instance_def bit_drop_bit_eq bit_and_iff bit_max_instance)
  then show ?thesis using drop_bit_48 [of "oid_instance n"] by (simp add: word_less_nat_alt)
qed

text \<open>Finding the dots of \<open>a.b.c\<close>.\<close>

lemma find_dot: "CHR ''.'' \<notin> set xs \<Longrightarrow> find_from (CHR ''.'') (length ys) (ys @ xs @ CHR ''.'' # zs) = Some (length ys + length xs)"
  by (simp add: find_from_def char_pos_append)

lemma find_no_dot: "CHR ''.'' \<notin> set xs \<Longrightarrow> find_from (CHR ''.'') (length ys) (ys @ xs) = None"
  by (simp add: find_from_def char_pos_None)

lemma oid_from_string_dotted:
  assumes "list_all is_digit a" "list_all is_digit b" "list_all is_digit c" and "a \<noteq> []" "b \<noteq> []" "c \<noteq> []"
    and "int (digits_val a) < 2 ^ 31" "int (digits_val b) < 2 ^ 31" "int (digits_val c) < 2 ^ 63"
  shows "oid_from_string (a @ ''.'' @ b @ ''.'' @ c) =
    mk_object_id (word_of_nat (digits_val a)) (word_of_nat (digits_val b)) (word_of_nat (digits_val c))"
proof -
  let ?s = "a @ ''.'' @ b @ ''.'' @ c"
  note nd = assms(1-3) [THEN dot_not_in_digits]
  have 1: "find_from (CHR ''.'') 0 ?s = Some (length a)" using find_dot [OF nd(1), of "[]"] by simp
  have 2: "find_from (CHR ''.'') (length a + 1) ?s = Some (length a + 1 + length b)"
    using find_dot [OF nd(2), of "a @ ''.''" c] by simp
  have 3: "find_from (CHR ''.'') (length a + 1 + length b + 1) ?s = None"
    using find_no_dot [OF nd(3), of "a @ ''.'' @ b @ ''.''"] by simp
  note r = std_sto_digits [OF assms(1,4,7)] std_sto_digits [OF assms(2,5,8)] std_sto_digits [OF assms(3,6,9)]
  have p: "substr 0 (length a) ?s = a" "substr (length a + 1) (length a + 1 + length b - length a - 1) ?s = b"
    "substr (length a + 1 + length b + 1) (length ?s - (length a + 1 + length b) - 1) ?s = c"
    by (simp_all add: substr_def)
  have "?s \<noteq> []" by simp
  then show ?thesis unfolding oid_from_string_def Let_def 1 option.case 2 3 p by (simp only: p if_False lift_opt_simps bindE_simps r) (simp add: require_def)
qed

text \<open>
  Printing an object id and parsing the text gives the id back, for all of its 64 bits.
\<close>

theorem oid_text_roundtrip: "oid_from_string (oid_to_string n) = Inr n"
proof -
  have s: "unat (oid_space n) < 256" "unat (oid_type n) < 256"
    using unsigned_less [of "oid_space n"] unsigned_less [of "oid_type n"] by simp_all
  have d: "int (digits_val (nat_to_string (unat (oid_space n)))) < 2 ^ 31"
    "int (digits_val (nat_to_string (unat (oid_type n)))) < 2 ^ 31"
    "int (digits_val (nat_to_string (unat (oid_instance n)))) < 2 ^ 63"
    unfolding digits_val_to_string using s oid_instance_less [of n] by (simp_all del: of_nat_unat)
  show ?thesis
    unfolding oid_to_string_def
    by (subst oid_from_string_dotted [OF nat_to_string_digits nat_to_string_digits nat_to_string_digits _ _ _ d])
      (simp_all add: oid_repack)
qed

end
