(* ===== verification/Account_Name.thy ===== *)
theory Account_Name
  imports Prelude
begin

text \<open>
  Names of accounts: \<open>is\_valid\_name\<close> and \<open>is\_cheap\_name\<close> of \<open>protocol/account.cpp\<close>, and the grammar
  the comment there gives.
\<close>

section \<open>Names\<close>

definition GRAPHENE_MIN_ACCOUNT_NAME_LENGTH :: nat where "GRAPHENE_MIN_ACCOUNT_NAME_LENGTH = 5"
definition GRAPHENE_MAX_ACCOUNT_NAME_LENGTH :: nat where "GRAPHENE_MAX_ACCOUNT_NAME_LENGTH = 63"

definition is_letter :: "char \<Rightarrow> bool" where
  "is_letter c \<longleftrightarrow> c \<in> set ''abcdefghijklmnopqrstuvwxyz''"

definition is_let_dig :: "char \<Rightarrow> bool" where
  "is_let_dig c \<longleftrightarrow> is_letter c \<or> c \<in> set ''0123456789''"

definition is_let_dig_hyp :: "char \<Rightarrow> bool" where
  "is_let_dig_hyp c \<longleftrightarrow> is_let_dig c \<or> c = CHR ''-''"

definition find_first_of :: "char \<Rightarrow> string \<Rightarrow> nat \<Rightarrow> nat option" where
  "find_first_of c s start =
     (if c \<in> set (drop start s) then Some (start + length (takeWhile (\<lambda>x. x \<noteq> c) (drop start s))) else None)"

definition label_end :: "string \<Rightarrow> nat \<Rightarrow> nat" where
  "label_end name start = (case find_first_of CHR ''.'' name start of None \<Rightarrow> length name | Some e \<Rightarrow> e)"

lemma label_end_le: "start \<le> length name \<Longrightarrow> label_end name start \<le> length name"
proof (cases "CHR ''.'' \<in> set (drop start name)")
  case True
  assume "start \<le> length name"
  then show ?thesis using True length_takeWhile_le [of "\<lambda>x. x \<noteq> CHR ''.''" "drop start name"] by (simp add: label_end_def find_first_of_def)
qed (simp add: label_end_def find_first_of_def)

text \<open>The loop over the labels, from the position \<open>start\<close>.\<close>

function valid_labels :: "string \<Rightarrow> nat \<Rightarrow> bool" where
  "valid_labels name start =
     (let e = label_end name start
      in if e - start < 3 then False
         else if \<not> is_letter (name ! start) then False
         else if \<not> is_let_dig (name ! (e - 1)) then False
         else if \<not> list_all (\<lambda>i. is_let_dig_hyp (name ! i)) [start + 1..<e - 1] then False
         else if e = length name then True
         else valid_labels name (e + 1))"
  by pat_completeness auto

termination
proof (relation "measure (\<lambda>(name, start). Suc (length name) - start)")
  fix name :: string and start e
  assume e: "e = label_end name start" and n: "\<not> e - start < 3" "e \<noteq> length name"
  have "start < length name"
  proof (rule ccontr)
    assume "\<not> start < length name"
    then have "e = length name" by (simp add: e label_end_def find_first_of_def)
    then show False using n by simp
  qed
  then have "e \<le> length name" unfolding e by (intro label_end_le) simp
  then show "((name, e + 1), (name, start)) \<in> measure (\<lambda>(name, start). Suc (length name) - start)" using n by simp
qed simp

declare valid_labels.simps [simp del]

definition is_valid_name :: "string \<Rightarrow> bool" where
  "is_valid_name name =
     (if length name < GRAPHENE_MIN_ACCOUNT_NAME_LENGTH then False
      else if GRAPHENE_MAX_ACCOUNT_NAME_LENGTH < length name then False
      else valid_labels name 0)"

text \<open>Whether a name counts as cheap; the flag is whether a vowel has been seen.\<close>

fun cheap_from :: "string \<Rightarrow> bool \<Rightarrow> bool" where
  "cheap_from [] v = (\<not> v)"
| "cheap_from (c # cs) v =
     (if c \<in> set ''0123456789'' then True
      else if c \<in> {CHR ''.'', CHR ''-'', CHR ''/''} then True
      else cheap_from cs (v \<or> c \<in> set ''aeiouy''))"

definition is_cheap_name :: "string \<Rightarrow> bool" where
  "is_cheap_name n = cheap_from n False"

section \<open>The grammar of names\<close>

text \<open>
  RFC 1035 as the comment of the code quotes it, with labels of three characters or more:
  a subdomain is a label, or a subdomain, a dot and a label.
\<close>

definition name_label :: "string \<Rightarrow> bool" where
  "name_label l \<longleftrightarrow> (\<exists>a mid z. l = a # mid @ [z] \<and> is_letter a \<and> mid \<noteq> [] \<and> (\<forall>c \<in> set mid. is_let_dig_hyp c) \<and> is_let_dig z)"

inductive subdomain :: "string \<Rightarrow> bool" where
  subdomain_label: "name_label l \<Longrightarrow> subdomain l"
| subdomain_dot: "subdomain s \<Longrightarrow> name_label l \<Longrightarrow> subdomain (s @ CHR ''.'' # l)"

lemma subdomain_cons: "subdomain s \<Longrightarrow> name_label l \<Longrightarrow> subdomain (l @ CHR ''.'' # s)"
proof (induction rule: subdomain.induct)
  case (subdomain_label l')
  then show ?case by (auto intro: subdomain.intros)
next
  case (subdomain_dot s l')
  then show ?case using subdomain.subdomain_dot [of "l @ CHR ''.'' # s" l'] by simp
qed

lemma subdomain_first:
  assumes "subdomain s"
  shows "name_label s \<or> (\<exists>l r. s = l @ CHR ''.'' # r \<and> name_label l \<and> subdomain r)"
  using assms
proof (induction rule: subdomain.induct)
  case (subdomain_label l)
  then show ?case by simp
next
  case (subdomain_dot s l)
  from subdomain_dot.IH show ?case
  proof
    assume "name_label s"
    then show ?thesis using subdomain_dot.hyps subdomain_label by blast
  next
    assume "\<exists>l r. s = l @ CHR ''.'' # r \<and> name_label l \<and> subdomain r"
    then obtain l0 r where s: "s = l0 @ CHR ''.'' # r" "name_label l0" "subdomain r" by blast
    have "subdomain (r @ CHR ''.'' # l)" using s(3) subdomain_dot.hyps(2) by (rule subdomain.subdomain_dot)
    then show ?thesis using s by auto
  qed
qed

lemma dot_not_let_dig_hyp: "is_let_dig_hyp c \<Longrightarrow> c \<noteq> CHR ''.''"
proof -
  have "\<not> is_let_dig_hyp CHR ''.''" by code_simp
  then show "is_let_dig_hyp c \<Longrightarrow> c \<noteq> CHR ''.''" by blast
qed

lemma char_classes: "is_letter c \<Longrightarrow> is_let_dig c" "is_let_dig c \<Longrightarrow> is_let_dig_hyp c"
proof -
  show "is_letter c \<Longrightarrow> is_let_dig c" unfolding is_let_dig_def by (rule disjI1)
  show "is_let_dig c \<Longrightarrow> is_let_dig_hyp c" unfolding is_let_dig_hyp_def by (rule disjI1)
qed

lemma name_label_no_dot: "name_label l \<Longrightarrow> CHR ''.'' \<notin> set l"
  unfolding name_label_def using dot_not_let_dig_hyp char_classes by fastforce

lemma name_label_iff:
  "name_label l \<longleftrightarrow> 3 \<le> length l \<and> is_letter (l ! 0) \<and> is_let_dig (l ! (length l - 1)) \<and> (\<forall>i \<in> {1..<length l - 1}. is_let_dig_hyp (l ! i))"
proof
  assume "name_label l"
  then obtain a mid z where l: "l = a # mid @ [z]" "is_letter a" "mid \<noteq> []" "\<forall>c \<in> set mid. is_let_dig_hyp c" "is_let_dig z"
    by (auto simp: name_label_def)
  have "is_let_dig_hyp (l ! i)" if "i \<in> {1..<length l - 1}" for i
    using that l(4) by (cases i) (auto simp: l(1) nth_append)
  then show "3 \<le> length l \<and> is_letter (l ! 0) \<and> is_let_dig (l ! (length l - 1)) \<and> (\<forall>i \<in> {1..<length l - 1}. is_let_dig_hyp (l ! i))"
    using l by (cases mid) (simp_all add: nth_append)
next
  assume r: "3 \<le> length l \<and> is_letter (l ! 0) \<and> is_let_dig (l ! (length l - 1)) \<and> (\<forall>i \<in> {1..<length l - 1}. is_let_dig_hyp (l ! i))"
  then obtain a t where l: "l = a # t" by (cases l) auto
  then obtain mid z where t: "t = mid @ [z]" using r by (cases t rule: rev_cases) auto
  have m: "is_let_dig_hyp (mid ! i)" if "i < length mid" for i
    using that r by (auto simp: l t nth_append dest: bspec [of _ _ "Suc i"])
  have "is_letter a" "mid \<noteq> []" "is_let_dig z" using r by (auto simp: l t nth_append)
  then show "name_label l" using m unfolding name_label_def by (auto simp: l t in_set_conv_nth)
qed

lemma split_unique:
  assumes "d \<notin> set l" "d \<notin> set l'" and "l @ d # r = l' @ d # r'"
  shows "l = l' \<and> r = r'"
proof -
  have "takeWhile (\<lambda>x. x \<noteq> d) (l @ d # r) = l" "takeWhile (\<lambda>x. x \<noteq> d) (l' @ d # r') = l'"
    using assms(1,2) by (auto simp: takeWhile_append takeWhile_eq_all_conv)
  then show ?thesis using assms(3) by auto
qed

lemma subdomain_split:
  assumes "CHR ''.'' \<notin> set l"
  shows "subdomain (l @ CHR ''.'' # r) \<longleftrightarrow> name_label l \<and> subdomain r" and "subdomain l \<longleftrightarrow> name_label l"
proof -
  show "subdomain (l @ CHR ''.'' # r) \<longleftrightarrow> name_label l \<and> subdomain r"
  proof
    assume "subdomain (l @ CHR ''.'' # r)"
    from subdomain_first [OF this] show "name_label l \<and> subdomain r"
    proof
      assume "name_label (l @ CHR ''.'' # r)"
      then show ?thesis using name_label_no_dot [of "l @ CHR ''.'' # r"] by simp
    next
      assume "\<exists>l' r'. l @ CHR ''.'' # r = l' @ CHR ''.'' # r' \<and> name_label l' \<and> subdomain r'"
      then obtain l' r' where "l @ CHR ''.'' # r = l' @ CHR ''.'' # r'" "name_label l'" "subdomain r'" by blast
      then show ?thesis using split_unique [OF assms name_label_no_dot] by blast
    qed
  qed (auto intro: subdomain_cons)
  show "subdomain l \<longleftrightarrow> name_label l"
    using subdomain_first [of l] assms by (auto intro: subdomain_label)
qed

text \<open>The label that starts at a position, and the positions the loop looks at.\<close>

lemma label_at:
  assumes "start \<le> length name" and e: "e = label_end name start" and l: "l = take (e - start) (drop start name)"
  shows "start \<le> e" "e \<le> length name" "length l = e - start" "CHR ''.'' \<notin> set l"
    and "e \<noteq> length name \<Longrightarrow> drop start name = l @ CHR ''.'' # drop (e + 1) name" and "e = length name \<Longrightarrow> l = drop start name"
proof -
  let ?w = "takeWhile (\<lambda>x. x \<noteq> CHR ''.'') (drop start name)"
  show e1: "start \<le> e" using assms(1) by (simp add: e label_end_def find_first_of_def)
  show e2: "e \<le> length name" using label_end_le [OF assms(1)] by (simp add: e)
  show "length l = e - start" using e2 by (simp add: l)
  show "e = length name \<Longrightarrow> l = drop start name" by (simp add: l)
  have w: "l = ?w"
  proof (cases "CHR ''.'' \<in> set (drop start name)")
    case True
    then show ?thesis by (simp add: l e label_end_def find_first_of_def takeWhile_eq_take [symmetric])
  next
    case False
    then have "?w = drop start name" by (auto simp: takeWhile_eq_all_conv)
    moreover have "l = drop start name" using False by (simp add: l e label_end_def find_first_of_def)
    ultimately show ?thesis by (simp only:)
  qed
  show "CHR ''.'' \<notin> set l" unfolding w by (auto dest: set_takeWhileD)
  assume n: "e \<noteq> length name"
  then have d: "CHR ''.'' \<in> set (drop start name)" by (auto simp: e label_end_def find_first_of_def split: if_splits)
  then have e3: "e = start + length ?w" by (simp add: e label_end_def find_first_of_def)
  have "dropWhile (\<lambda>x. x \<noteq> CHR ''.'') (drop start name) = drop e name"
    by (simp add: dropWhile_eq_drop e3 add.commute)
  moreover have "dropWhile (\<lambda>x. x \<noteq> CHR ''.'') (drop start name) \<noteq> []" using d by (auto simp: dropWhile_eq_Nil_conv)
  then have "hd (dropWhile (\<lambda>x. x \<noteq> CHR ''.'') (drop start name)) = CHR ''.''"
    using hd_dropWhile [of "\<lambda>x. x \<noteq> CHR ''.''" "drop start name"] by blast
  moreover have "drop e name = name ! e # drop (e + 1) name" using e2 n by (simp add: Cons_nth_drop_Suc)
  ultimately have "dropWhile (\<lambda>x. x \<noteq> CHR ''.'') (drop start name) = CHR ''.'' # drop (e + 1) name" by simp
  then show "drop start name = l @ CHR ''.'' # drop (e + 1) name"
    using takeWhile_dropWhile_id [of "\<lambda>x. x \<noteq> CHR ''.''" "drop start name"] w by simp
qed

lemma label_checks:
  assumes "start \<le> e" "e \<le> length name"
  shows "name_label (take (e - start) (drop start name)) \<longleftrightarrow> \<not> e - start < 3 \<and> is_letter (name ! start) \<and> is_let_dig (name ! (e - 1)) \<and>
      list_all (\<lambda>i. is_let_dig_hyp (name ! i)) [start + 1..<e - 1]"
proof (cases "e - start < 3")
  case True
  then show ?thesis using assms by (simp add: name_label_iff)
next
  case False
  have mid: "(\<forall>i \<in> {1..<e - start - 1}. P (name ! (start + i))) \<longleftrightarrow> (\<forall>i \<in> {start + 1..<e - 1}. P (name ! i))" for P :: "char \<Rightarrow> bool"
  proof
    assume l: "\<forall>i \<in> {1..<e - start - 1}. P (name ! (start + i))"
    show "\<forall>i \<in> {start + 1..<e - 1}. P (name ! i)"
    proof
      fix i assume "i \<in> {start + 1..<e - 1}"
      then have "i - start \<in> {1..<e - start - 1}" "start + (i - start) = i" by auto
      then show "P (name ! i)" using l by metis
    qed
  qed auto
  let ?l = "take (e - start) (drop start name)"
  have nth: "?l ! i = name ! (start + i)" if "i < e - start" for i using that assms by simp
  have "(\<forall>i \<in> {1..<e - start - 1}. is_let_dig_hyp (?l ! i)) \<longleftrightarrow> (\<forall>i \<in> {1..<e - start - 1}. is_let_dig_hyp (name ! (start + i)))"
  proof (rule ball_cong [OF refl])
    fix i assume "i \<in> {1..<e - start - 1}"
    then have "i < e - start" by auto
    then show "is_let_dig_hyp (?l ! i) \<longleftrightarrow> is_let_dig_hyp (name ! (start + i))" by (simp only: nth)
  qed
  moreover have "?l ! 0 = name ! start" "?l ! (e - start - 1) = name ! (e - 1)" "length ?l = e - start"
    using False assms nth [of 0] nth [of "e - start - 1"] by simp_all
  ultimately show ?thesis using False mid [of is_let_dig_hyp] unfolding name_label_iff list_all_iff by auto
qed

lemma valid_labels_iff: "start \<le> length name \<Longrightarrow> valid_labels name start \<longleftrightarrow> subdomain (drop start name)"
proof (induction name start rule: valid_labels.induct)
  case (1 name start)
  let ?e = "label_end name start"
  let ?l = "take (?e - start) (drop start name)"
  note lb = label_at [OF "1.prems" refl refl]
  have lab: "name_label ?l \<longleftrightarrow> \<not> ?e - start < 3 \<and> is_letter (name ! start) \<and> is_let_dig (name ! (?e - 1)) \<and>
      list_all (\<lambda>i. is_let_dig_hyp (name ! i)) [start + 1..<?e - 1]"
    by (rule label_checks [OF lb(1,2)])
  show ?case
  proof (cases "?e = length name")
    case True
    then show ?thesis
      using lb(4,6) lab subdomain_split(2) [of ?l] by (subst valid_labels.simps) (auto simp: Let_def)
  next
    case False
    have r: "subdomain (drop start name) \<longleftrightarrow> name_label ?l \<and> subdomain (drop (?e + 1) name)"
      by (subst lb(5) [OF False]) (rule subdomain_split(1) [OF lb(4)])
    have "name_label ?l \<Longrightarrow> valid_labels name (?e + 1) \<longleftrightarrow> subdomain (drop (?e + 1) name)"
      by (rule "1.IH" [OF refl]) (use lab False lb(2) in auto)
    then show ?thesis using lab r False by (subst valid_labels.simps) (auto simp: Let_def)
  qed
qed

section \<open>Property\<close>

text \<open>
  The hand-written scanner accepts exactly the names of the grammar whose length is between five and
  sixty-three: dot-separated labels of at least three characters that begin with a lower-case letter,
  end with a letter or digit and hold letters, digits and hyphens in between.
\<close>

theorem valid_name_grammar: "is_valid_name name \<longleftrightarrow> subdomain name \<and> 5 \<le> length name \<and> length name \<le> 63"
  using valid_labels_iff [of 0 name]
  by (auto simp: is_valid_name_def GRAPHENE_MIN_ACCOUNT_NAME_LENGTH_def GRAPHENE_MAX_ACCOUNT_NAME_LENGTH_def)

end
