(* ===== verification/Asset.thy ===== *)
theory Asset
  imports Prelude Complex_Main
begin

text \<open>
  \<open>protocol/asset.hpp\<close>, \<open>protocol/asset.cpp\<close> and the asset options of
  \<open>protocol/asset\_ops.hpp\<close>: amounts, prices, conversion at a price, price feeds.

  \<open>share_type\<close> is \<open>fc::safe<int64\_t>\<close>, a class of a library outside the repository: its
  arithmetic is the parameter \<open>S\<close>, which takes the exact result and returns it or raises.
  \<open>safe_exact\<close> and \<open>safe_total\<close> state what the chain relies on.
  \<open>boost::multiprecision::uint128\_t\<close> is an unsigned integer of 128 bits that wraps.
\<close>

section \<open>share\_type\<close>

type_synonym safe = "int \<Rightarrow> int res"

definition in_int64 :: "int \<Rightarrow> bool" where
  "in_int64 n \<longleftrightarrow> - (2 ^ 63) \<le> n \<and> n < 2 ^ 63"

definition safe_exact :: "safe \<Rightarrow> bool" where
  "safe_exact S \<longleftrightarrow> (\<forall>n r. S n = Inr r \<longrightarrow> r = n)"

definition safe_total :: "safe \<Rightarrow> bool" where
  "safe_total S \<longleftrightarrow> (\<forall>n. in_int64 n \<longrightarrow> S n = Inr n)"

text \<open>The arithmetic with checked bounds, for concrete instances.\<close>

definition checked64 :: safe where
  "checked64 n = (if - (2 ^ 63) \<le> n \<and> n < 2 ^ 63 then Inr n else Inl Overflow)"

lemma checked64_exact: "safe_exact checked64"
  by (simp add: safe_exact_def checked64_def)

lemma checked64_total: "safe_total checked64"
  by (simp add: safe_total_def checked64_def in_int64_def)

lemma safe_exactD: "safe_exact S \<Longrightarrow> S n = Inr r \<Longrightarrow> r = n"
  by (simp add: safe_exact_def)

lemma safe_totalD: "safe_total S \<Longrightarrow> in_int64 n \<Longrightarrow> S n = Inr n"
  by (simp add: safe_total_def)

section \<open>asset and price\<close>

type_synonym asset_id_type = nat
type_synonym account_id_type = nat
type_synonym time_point_sec = nat

text \<open>
  Times are seconds since the epoch in 32 bits; so are products of 32-bit integers. Integer
  division truncates.
\<close>

definition u32 :: "int \<Rightarrow> nat" where
  "u32 n = nat (n mod 2 ^ 32)"

definition time_plus :: "time_point_sec \<Rightarrow> nat \<Rightarrow> time_point_sec" where
  "time_plus t n = u32 (int t + int n)"

definition c_div :: "int \<Rightarrow> int \<Rightarrow> int" where
  "c_div x y = sgn x * sgn y * (abs x div abs y)"

definition u64 :: "int \<Rightarrow> nat" where
  "u64 n = nat (n mod 2 ^ 64)"

lemma u64_small: "0 \<le> n \<Longrightarrow> n < 2 ^ 64 \<Longrightarrow> u64 n = nat n"
  by (simp add: u64_def)

lemma u32_small: "0 \<le> n \<Longrightarrow> n < 2 ^ 32 \<Longrightarrow> u32 n = nat n"
  by (simp add: u32_def)

lemma c_div_nonneg: "0 \<le> x \<Longrightarrow> 0 < y \<Longrightarrow> c_div x y = x div y"
  by (auto simp: c_div_def sgn_if)

record asset =
  amount :: int
  asset_id :: asset_id_type

definition mk_asset :: "int \<Rightarrow> asset_id_type \<Rightarrow> asset" where
  "mk_asset n a = \<lparr>amount = n, asset_id = a\<rparr>"

definition GRAPHENE_MAX_SHARE_SUPPLY :: int where
  "GRAPHENE_MAX_SHARE_SUPPLY = 7319777577456890"

definition asset_add :: "safe \<Rightarrow> asset \<Rightarrow> asset \<Rightarrow> asset res" where
  "asset_add S a b =
     bindE (require (asset_id a = asset_id b) Assert_Exception) (\<lambda>_.
     bindE (S (amount a + amount b)) (\<lambda>n. Inr (mk_asset n (asset_id a))))"

definition asset_sub :: "safe \<Rightarrow> asset \<Rightarrow> asset \<Rightarrow> asset res" where
  "asset_sub S a b =
     bindE (require (asset_id a = asset_id b) Assert_Exception) (\<lambda>_.
     bindE (S (amount a - amount b)) (\<lambda>n. Inr (mk_asset n (asset_id a))))"

definition asset_neg :: "safe \<Rightarrow> asset \<Rightarrow> asset res" where
  "asset_neg S a = bindE (S (- amount a)) (\<lambda>n. Inr (mk_asset n (asset_id a)))"

definition asset_scale :: "safe \<Rightarrow> nat \<Rightarrow> asset \<Rightarrow> asset res" where
  "asset_scale S k a = bindE (S (amount a * int k)) (\<lambda>n. Inr (mk_asset n (asset_id a)))"

definition asset_less :: "asset \<Rightarrow> asset \<Rightarrow> bool res" where
  "asset_less a b =
     bindE (require (asset_id a = asset_id b) Assert_Exception) (\<lambda>_. Inr (amount a < amount b))"

definition asset_le :: "asset \<Rightarrow> asset \<Rightarrow> bool res" where
  "asset_le a b = (if a = b then Inr True else asset_less a b)"

text \<open>\<open>scaled_precision\<close> reads the table of powers of ten; an index beyond it is refused.\<close>

fun p10 :: "nat \<Rightarrow> int" where
  "p10 0 = 1"
| "p10 (Suc n) = 10 * p10 n"

definition scaled_precision_lut :: "int list" where
  "scaled_precision_lut = map p10 [0..<19]"

definition scaled_precision :: "nat \<Rightarrow> int res" where
  "scaled_precision precision =
     bindE (require (precision < 19) Assert_Exception) (\<lambda>_. Inr (scaled_precision_lut ! precision))"

record price =
  base :: asset
  quote :: asset

definition null_price :: price where
  "null_price = \<lparr>base = mk_asset 0 0, quote = mk_asset 0 0\<rparr>"

definition price_swap :: "price \<Rightarrow> price" where
  "price_swap p = \<lparr>base = quote p, quote = base p\<rparr>"

text \<open>The cross product \<open>uint128\_t(x) * y\<close> of two amounts, modulo \<open>2 ^ 128\<close>.\<close>

definition umul128 :: "int \<Rightarrow> int \<Rightarrow> 128 word" where
  "umul128 x y = word_of_int x * word_of_int y"

definition price_eq :: "price \<Rightarrow> price \<Rightarrow> bool" where
  "price_eq a b =
     (if (asset_id (base a), asset_id (quote a)) \<noteq> (asset_id (base b), asset_id (quote b)) then False
      else umul128 (amount (quote b)) (amount (base a)) = umul128 (amount (quote a)) (amount (base b)))"

definition price_less :: "price \<Rightarrow> price \<Rightarrow> bool" where
  "price_less a b =
     (if asset_id (base a) < asset_id (base b) then True
      else if asset_id (base b) < asset_id (base a) then False
      else if asset_id (quote a) < asset_id (quote b) then True
      else if asset_id (quote b) < asset_id (quote a) then False
      else umul128 (amount (quote b)) (amount (base a)) < umul128 (amount (quote a)) (amount (base b)))"

definition price_le :: "price \<Rightarrow> price \<Rightarrow> bool" where
  "price_le a b = (price_eq a b \<or> price_less a b)"

definition price_neq :: "price \<Rightarrow> price \<Rightarrow> bool" where
  "price_neq a b = (\<not> price_eq a b)"

definition price_greater :: "price \<Rightarrow> price \<Rightarrow> bool" where
  "price_greater a b = (\<not> price_le a b)"

definition price_ge :: "price \<Rightarrow> price \<Rightarrow> bool" where
  "price_ge a b = (\<not> price_less a b)"

definition price_is_null :: "price \<Rightarrow> bool" where
  "price_is_null p = price_eq p null_price"

text \<open>
  \<open>asset * price\<close>: 128-bit product and quotient, a bound on the result, and the conversion
  back to a signed 64-bit amount.
\<close>

definition mul_div128 :: "int \<Rightarrow> int \<Rightarrow> int \<Rightarrow> 128 word" where
  "mul_div128 x n d = umul128 x n div word_of_int d"

definition asset_times_price :: "asset \<Rightarrow> price \<Rightarrow> asset res" where
  "asset_times_price a b =
     (if asset_id a = asset_id (base b) then
        bindE (require (0 < amount (base b)) Assert_Exception) (\<lambda>_.
        let result = mul_div128 (amount a) (amount (quote b)) (amount (base b))
        in bindE (require (result \<le> word_of_int GRAPHENE_MAX_SHARE_SUPPLY) Assert_Exception) (\<lambda>_.
           Inr (mk_asset (uint result) (asset_id (quote b)))))
      else if asset_id a = asset_id (quote b) then
        bindE (require (0 < amount (quote b)) Assert_Exception) (\<lambda>_.
        let result = mul_div128 (amount a) (amount (base b)) (amount (quote b))
        in bindE (require (result \<le> word_of_int GRAPHENE_MAX_SHARE_SUPPLY) Assert_Exception) (\<lambda>_.
           Inr (mk_asset (uint result) (asset_id (base b)))))
      else Inl Assert_Exception)"

definition mk_price :: "asset \<Rightarrow> asset \<Rightarrow> price res" where
  "mk_price b q =
     bindE (require (asset_id b \<noteq> asset_id q) Assert_Exception) (\<lambda>_. Inr \<lparr>base = b, quote = q\<rparr>)"

definition price_max :: "asset_id_type \<Rightarrow> asset_id_type \<Rightarrow> price res" where
  "price_max b q = mk_price (mk_asset GRAPHENE_MAX_SHARE_SUPPLY b) (mk_asset 1 q)"

definition price_min :: "asset_id_type \<Rightarrow> asset_id_type \<Rightarrow> price res" where
  "price_min b q = mk_price (mk_asset 1 b) (mk_asset GRAPHENE_MAX_SHARE_SUPPLY q)"

definition price_validate :: "price \<Rightarrow> unit res" where
  "price_validate p =
     bindE (require (0 < amount (base p)) Assert_Exception) (\<lambda>_.
     bindE (require (0 < amount (quote p)) Assert_Exception) (\<lambda>_.
     require (asset_id (base p) \<noteq> asset_id (quote p)) Assert_Exception))"

record price_feed =
  feed_rate :: price

definition null_feed :: price_feed where
  "null_feed = \<lparr>feed_rate = null_price\<rparr>"

definition feed_validate :: "price_feed \<Rightarrow> unit res" where
  "feed_validate f = require (asset_id (quote (feed_rate f)) = 0) Assert_Exception"

definition feed_is_for :: "price_feed \<Rightarrow> asset_id_type \<Rightarrow> bool" where
  "feed_is_for f a = (if \<not> price_is_null (feed_rate f) then asset_id (base (feed_rate f)) = a else True)"

section \<open>Asset options\<close>

text \<open>
  The extensions of \<open>asset\_options\<close> are a set of static variants; \<open>Fixed_Max_Supply b\<close> is
  \<open>fixed\_max\_supply\_struct\<close>.
\<close>

datatype options_extension = Void_Extension | Fixed_Max_Supply bool

record asset_options =
  max_supply :: int
  core_exchange_rate :: price
  is_exchangeable :: bool
  extensions :: "options_extension list"

record monitored_asset_options =
  feeds :: "(account_id_type \<times> time_point_sec \<times> price_feed) list"
  current_feed :: price_feed
  current_feed_publication_time :: time_point_sec
  feed_lifetime_sec :: nat
  minimum_feeds :: nat

definition feed_expiration_time :: "monitored_asset_options \<Rightarrow> time_point_sec" where
  "feed_expiration_time o' = time_plus (current_feed_publication_time o') (feed_lifetime_sec o')"

definition feed_is_expired :: "monitored_asset_options \<Rightarrow> time_point_sec \<Rightarrow> bool" where
  "feed_is_expired o' current_time \<longleftrightarrow> feed_expiration_time o' \<le> current_time"

definition feed_is_valid :: "monitored_asset_options \<Rightarrow> time_point_sec \<Rightarrow> bool" where
  "feed_is_valid o' current_time =
     (if feed_is_expired o' current_time then False
      else if price_is_null (feed_rate (current_feed o')) then False
      else True)"

text \<open>
  \<open>update_median_feeds\<close>. \<open>std::nth_element\<close> leaves the choice between equivalent prices
  to the implementation: \<open>nth_el\<close> returns the element it puts at a position, for a strict
  order.
\<close>

definition recent_feeds :: "time_point_sec \<Rightarrow> monitored_asset_options
    \<Rightarrow> (account_id_type \<times> time_point_sec \<times> price_feed) list" where
  "recent_feeds now o' =
     filter (\<lambda>(acc, t, f). int now - int t < int (feed_lifetime_sec o') \<and> t \<noteq> 0) (feeds o')"

definition update_median_feeds ::
  "((price_feed \<Rightarrow> price_feed \<Rightarrow> bool) \<Rightarrow> nat \<Rightarrow> price_feed list \<Rightarrow> price_feed)
    \<Rightarrow> time_point_sec \<Rightarrow> monitored_asset_options \<Rightarrow> monitored_asset_options" where
  "update_median_feeds nth_el now o' =
     (let recent = recent_feeds now o';
          fs = map (\<lambda>(acc, t, f). f) recent;
          published = fold (\<lambda>(acc, t, f) m. min m t) recent now
      in if length fs < minimum_feeds o' then
           o'\<lparr>current_feed_publication_time := now, current_feed := null_feed\<rparr>
         else if length fs = 1 then
           o'\<lparr>current_feed_publication_time := published, current_feed := hd fs\<rparr>
         else
           o'\<lparr>current_feed_publication_time := published,
              current_feed := \<lparr>feed_rate = feed_rate
                (nth_el (\<lambda>a b. price_less (feed_rate a) (feed_rate b)) (length fs div 2) fs)\<rparr>\<rparr>)"

section \<open>Exactness of the 128-bit arithmetic\<close>

definition amount_ok :: "int \<Rightarrow> bool" where
  "amount_ok n \<longleftrightarrow> 0 \<le> n \<and> n < 2 ^ 63"

definition price_ok :: "price \<Rightarrow> bool" where
  "price_ok p \<longleftrightarrow> 0 < amount (base p) \<and> amount (base p) < 2 ^ 63 \<and>
     0 < amount (quote p) \<and> amount (quote p) < 2 ^ 63"

lemma uint_of_int128: "0 \<le> n \<Longrightarrow> n < 2 ^ 128 \<Longrightarrow> uint (word_of_int n :: 128 word) = n"
  by (simp add: uint_word_of_int)

lemma prod_bound: "amount_ok x \<Longrightarrow> amount_ok y \<Longrightarrow> 0 \<le> x * y \<and> x * y < 2 ^ 126"
proof -
  assume x: "amount_ok x" and y: "amount_ok y"
  have "x * y \<le> (2 ^ 63 - 1) * (2 ^ 63 - 1)"
    using x y by (intro mult_mono) (auto simp: amount_ok_def)
  then show ?thesis using x y by (simp add: amount_ok_def)
qed

lemma uint_umul128:
  assumes "amount_ok x" and "amount_ok y"
  shows "uint (umul128 x y) = x * y"
proof -
  have "umul128 x y = word_of_int (x * y)"
    by (simp add: umul128_def)
  then show ?thesis using prod_bound [OF assms] uint_of_int128 [of "x * y"] by simp
qed

lemma price_amounts:
  "price_ok a \<Longrightarrow> price_ok b \<Longrightarrow> amount_ok (amount (base b))"
  "price_ok a \<Longrightarrow> price_ok b \<Longrightarrow> amount_ok (amount (quote a))"
  by (simp_all add: price_ok_def amount_ok_def)

lemma price_eq_iff:
  assumes "price_ok a" and "price_ok b"
  shows "price_eq a b \<longleftrightarrow> asset_id (base a) = asset_id (base b) \<and> asset_id (quote a) = asset_id (quote b) \<and>
    amount (quote b) * amount (base a) = amount (quote a) * amount (base b)"
  using uint_umul128 [OF price_amounts(2,1) [OF assms(2,1)]] uint_umul128 [OF price_amounts(2,1) [OF assms]]
  by (auto simp: price_eq_def word_uint_eq_iff)

lemma price_less_iff:
  assumes "price_ok a" and "price_ok b"
  shows "price_less a b \<longleftrightarrow> asset_id (base a) < asset_id (base b) \<or> asset_id (base a) = asset_id (base b) \<and>
    (asset_id (quote a) < asset_id (quote b) \<or> asset_id (quote a) = asset_id (quote b) \<and>
     amount (quote b) * amount (base a) < amount (quote a) * amount (base b))"
  using uint_umul128 [OF price_amounts(2,1) [OF assms(2,1)]] uint_umul128 [OF price_amounts(2,1) [OF assms]]
  by (auto simp: price_less_def word_less_def)

lemma uint_mul_div128:
  assumes "amount_ok x" and "amount_ok n" and "0 < d" and "d < 2 ^ 63"
  shows "uint (mul_div128 x n d) = x * n div d"
  using assms uint_umul128 [OF assms(1,2)] by (simp add: mul_div128_def uint_div uint_of_int128)

lemma max_supply_word: "uint (word_of_int GRAPHENE_MAX_SHARE_SUPPLY :: 128 word) = GRAPHENE_MAX_SHARE_SUPPLY"
  by (simp add: GRAPHENE_MAX_SHARE_SUPPLY_def)

text \<open>Conversion at a price in exact arithmetic, from base to quote and back.\<close>

lemma times_price_base:
  assumes "asset_id a = asset_id (base p)" and "amount_ok (amount a)" and "amount_ok (amount (quote p))"
    and "amount (base p) < 2 ^ 63"
  shows "asset_times_price a p = (if 0 < amount (base p) \<and>
      amount a * amount (quote p) div amount (base p) \<le> GRAPHENE_MAX_SHARE_SUPPLY
    then Inr (mk_asset (amount a * amount (quote p) div amount (base p)) (asset_id (quote p)))
    else Inl Assert_Exception)"
  using assms uint_mul_div128 [OF assms(2,3) _ assms(4)]
  by (auto simp: asset_times_price_def require_def word_le_def max_supply_word Let_def)

lemma times_price_quote:
  assumes "asset_id a = asset_id (quote p)" and "asset_id (base p) \<noteq> asset_id (quote p)"
    and "amount_ok (amount a)" and "amount_ok (amount (base p))" and "amount (quote p) < 2 ^ 63"
  shows "asset_times_price a p = (if 0 < amount (quote p) \<and>
      amount a * amount (base p) div amount (quote p) \<le> GRAPHENE_MAX_SHARE_SUPPLY
    then Inr (mk_asset (amount a * amount (base p) div amount (quote p)) (asset_id (base p)))
    else Inl Assert_Exception)"
  using assms uint_mul_div128 [OF assms(3,4) _ assms(5)]
  by (auto simp: asset_times_price_def require_def word_le_def max_supply_word Let_def)

lemma mk_asset_self [simp]: "mk_asset (amount a) (asset_id a) = a"
  by (cases a) (simp add: mk_asset_def)

lemma mk_asset_sel [simp]: "amount (mk_asset n a) = n" "asset_id (mk_asset n a) = a"
  by (simp_all add: mk_asset_def)

section \<open>Properties\<close>

text \<open>
  Prices are ordered as the fractions they stand for: on valid prices of one pair of assets the
  128-bit comparison never overflows and agrees with the comparison of base over quote as rational
  numbers.
\<close>

theorem price_order_is_rational:
  assumes "price_ok a" and "price_ok b"
    and "asset_id (base a) = asset_id (base b)" and "asset_id (quote a) = asset_id (quote b)"
  shows "(price_less a b \<longleftrightarrow> Fract (amount (base a)) (amount (quote a)) < Fract (amount (base b)) (amount (quote b))) \<and>
    (price_eq a b \<longleftrightarrow> Fract (amount (base a)) (amount (quote a)) = Fract (amount (base b)) (amount (quote b)))"
proof -
  have pos: "0 < amount (quote a)" "0 < amount (quote b)"
    using assms(1,2) by (simp_all add: price_ok_def)
  then have less: "Fract (amount (base a)) (amount (quote a)) < Fract (amount (base b)) (amount (quote b)) \<longleftrightarrow>
      amount (base a) * amount (quote b) < amount (base b) * amount (quote a)"
    and eq: "Fract (amount (base a)) (amount (quote a)) = Fract (amount (base b)) (amount (quote b)) \<longleftrightarrow>
      amount (base a) * amount (quote b) = amount (base b) * amount (quote a)"
    by (simp_all add: less_rat eq_rat)
  show ?thesis
    using less eq price_less_iff [OF assms(1,2)] price_eq_iff [OF assms(1,2)] assms(3,4)
    by (simp add: mult.commute)
qed

definition dct_per_usd :: price where
  "dct_per_usd = \<lparr>base = mk_asset 3 0, quote = mk_asset 7 5\<rparr>"

theorem price_order_is_rational_witness:
  "price_less dct_per_usd \<lparr>base = mk_asset 1 0, quote = mk_asset 2 5\<rparr> \<longleftrightarrow>
     Fract 3 7 < Fract 1 2"
  using price_order_is_rational [of dct_per_usd "\<lparr>base = mk_asset 1 0, quote = mk_asset 2 5\<rparr>"]
  by (simp add: dct_per_usd_def price_ok_def)

text \<open>
  Conversion at a price never creates value: converting an amount to the other asset of the price
  and the result back at the same price gives at most the amount started from.
\<close>

theorem convert_back_no_gain:
  assumes "price_ok p" and "asset_id (base p) \<noteq> asset_id (quote p)" and "amount_ok (amount a)"
    and "asset_times_price a p = Inr b" and "asset_times_price b p = Inr c"
  shows "asset_id c = asset_id a \<and> amount c \<le> amount a"
proof -
  have q: "amount_ok (amount (quote p))" "amount_ok (amount (base p))"
      "amount (quote p) < 2 ^ 63" "amount (base p) < 2 ^ 63" "0 < amount (quote p)" "0 < amount (base p)"
    using assms(1) by (simp_all add: price_ok_def amount_ok_def)
  have fwd: "n * k div d * d div k \<le> n" if "0 < k" "0 < d" for n k d :: int
  proof -
    have "n * k div d * d \<le> n * k"
      using pos_mod_sign [of d "n * k"] that div_mult_mod_eq [of "n * k" d] by linarith
    then have "n * k div d * d div k \<le> n * k div k" using that by (intro zdiv_mono1) simp_all
    then show ?thesis using that by simp
  qed
  have bound: "0 \<le> n * k div d \<and> amount_ok (n * k div d)"
    if "n * k div d \<le> GRAPHENE_MAX_SHARE_SUPPLY" "amount_ok n" "0 < k" "0 < d" for n k d :: int
    using that by (auto simp: amount_ok_def GRAPHENE_MAX_SHARE_SUPPLY_def pos_imp_zdiv_nonneg_iff)
  consider (b) "asset_id a = asset_id (base p)" | (q) "asset_id a = asset_id (quote p)" "asset_id a \<noteq> asset_id (base p)"
    using assms(4) by (auto simp: asset_times_price_def split: if_splits)
  then show ?thesis
  proof cases
    case b
    have ab: "b = mk_asset (amount a * amount (quote p) div amount (base p)) (asset_id (quote p))"
      and le: "amount a * amount (quote p) div amount (base p) \<le> GRAPHENE_MAX_SHARE_SUPPLY"
      using times_price_base [OF b assms(3) q(1,4)] assms(4) by (auto split: if_splits)
    have "amount_ok (amount b)" using bound [OF le assms(3) q(5,6)] ab by simp
    then have "c = mk_asset (amount b * amount (base p) div amount (quote p)) (asset_id (base p))"
      using times_price_quote [OF _ assms(2) _ q(2,3), of b] ab assms(5) by (auto split: if_splits)
    then show ?thesis using fwd [OF q(5,6)] ab b by simp
  next
    case q': q
    have ab: "b = mk_asset (amount a * amount (base p) div amount (quote p)) (asset_id (base p))"
      and le: "amount a * amount (base p) div amount (quote p) \<le> GRAPHENE_MAX_SHARE_SUPPLY"
      using times_price_quote [OF q'(1) assms(2,3) q(2,3)] assms(4) by (auto split: if_splits)
    have "amount_ok (amount b)" using bound [OF le assms(3) q(6,5)] ab by simp
    then have "c = mk_asset (amount b * amount (quote p) div amount (base p)) (asset_id (quote p))"
      using times_price_base [OF _ _ q(1,4), of b] ab assms(5) by (auto split: if_splits)
    then show ?thesis using fwd [OF q(6,5)] ab q' by simp
  qed
qed

theorem convert_back_no_gain_witness:
  "\<exists>b c. asset_times_price (mk_asset 100 0) dct_per_usd = Inr b \<and> asset_times_price b dct_per_usd = Inr c \<and>
     asset_id c = 0 \<and> amount c \<le> 100"
proof -
  have "asset_times_price (mk_asset 100 0) dct_per_usd = Inr (mk_asset 233 5)"
    and "asset_times_price (mk_asset 233 5) dct_per_usd = Inr (mk_asset 99 0)"
    using times_price_base [of "mk_asset 100 0" dct_per_usd] times_price_quote [of "mk_asset 233 5" dct_per_usd]
    by (simp_all add: dct_per_usd_def amount_ok_def GRAPHENE_MAX_SHARE_SUPPLY_def)
  moreover have "price_ok dct_per_usd" "asset_id (base dct_per_usd) \<noteq> asset_id (quote dct_per_usd)"
    "amount_ok (amount (mk_asset 100 0))"
    by (simp_all add: dct_per_usd_def price_ok_def amount_ok_def)
  ultimately show ?thesis
    using convert_back_no_gain [of dct_per_usd "mk_asset 100 0" "mk_asset 233 5" "mk_asset 99 0"] by auto
qed

end
