(* ===== verification/Vesting.thy ===== *)
theory Vesting
  imports Asset
begin

text \<open>
  \<open>vesting\_balance\_object.cpp\<close>: balances that are released over time, by a linear schedule or
  by accumulated coin-seconds (cdd). The locale \<open>vesting_contract\<close> states what the rest of the
  chain relies on: an allowed withdrawal never exceeds the balance, and the policy's invariant
  survives withdrawals and the passing of time. It is interpreted on both policies and on the
  variant that dispatches to them.

  \<open>fc::uint128\_t\<close> is an unsigned 128-bit integer: \<open>u128\<close> is the reduction modulo
  \<open>2 ^ 128\<close>; \<open>to\_uint64\<close> refuses a value that does not fit.
\<close>

section \<open>Data\<close>

record vesting_policy_context =
  ctx_balance :: asset
  ctx_now :: time_point_sec
  ctx_amount :: asset

record linear_vesting_policy =
  begin_timestamp :: time_point_sec
  vesting_cliff_seconds :: nat
  vesting_duration_seconds :: nat
  begin_balance :: int

record cdd_vesting_policy =
  vesting_seconds :: nat
  FFF_seconds_earned :: int
  start_claim :: time_point_sec
  FFF_seconds_earned_last_update :: time_point_sec

datatype vesting_policy = Linear linear_vesting_policy | Cdd cdd_vesting_policy

record vesting_balance_object =
  vb_owner :: account_id_type
  vb_balance :: asset
  vb_policy :: vesting_policy

definition u128 :: "int \<Rightarrow> int" where
  "u128 n = n mod 2 ^ 128"

definition to_uint64 :: "int \<Rightarrow> int res" where
  "to_uint64 n = (if n < 2 ^ 64 then Inr n else Inl Assert_Exception)"

definition sum_below_max_shares :: "safe \<Rightarrow> asset \<Rightarrow> asset \<Rightarrow> bool res" where
  "sum_below_max_shares S a b =
     (if amount a \<le> GRAPHENE_MAX_SHARE_SUPPLY \<and> amount b \<le> GRAPHENE_MAX_SHARE_SUPPLY
      then bindE (S (amount a + amount b)) (\<lambda>n. Inr (n \<le> GRAPHENE_MAX_SHARE_SUPPLY))
      else Inr False)"

section \<open>linear\_vesting\_policy\<close>

definition linear_get_allowed_withdraw ::
  "safe \<Rightarrow> linear_vesting_policy \<Rightarrow> vesting_policy_context \<Rightarrow> asset res" where
  "linear_get_allowed_withdraw S p ctx =
     (if begin_timestamp p < ctx_now ctx then
        let elapsed_seconds = ctx_now ctx - begin_timestamp p
        in if vesting_cliff_seconds p \<le> elapsed_seconds then
             bindE (if elapsed_seconds < vesting_duration_seconds p
                    then to_uint64 (u128 (u128 (begin_balance p) * int elapsed_seconds) div int (vesting_duration_seconds p))
                    else Inr (begin_balance p)) (\<lambda>total_vested.
             bindE (S (begin_balance p - amount (ctx_balance ctx))) (\<lambda>withdrawn_already.
             bindE (S (total_vested - withdrawn_already)) (\<lambda>allowed_withdraw.
             Inr (mk_asset allowed_withdraw (asset_id (ctx_amount ctx))))))
           else Inr (mk_asset 0 (asset_id (ctx_amount ctx)))
      else Inr (mk_asset 0 (asset_id (ctx_amount ctx))))"

definition linear_is_deposit_allowed ::
  "safe \<Rightarrow> linear_vesting_policy \<Rightarrow> vesting_policy_context \<Rightarrow> bool res" where
  "linear_is_deposit_allowed S p ctx =
     (if asset_id (ctx_amount ctx) = asset_id (ctx_balance ctx)
      then sum_below_max_shares S (ctx_amount ctx) (ctx_balance ctx) else Inr False)"

definition linear_is_withdraw_allowed ::
  "safe \<Rightarrow> linear_vesting_policy \<Rightarrow> vesting_policy_context \<Rightarrow> bool res" where
  "linear_is_withdraw_allowed S p ctx =
     (if asset_id (ctx_amount ctx) = asset_id (ctx_balance ctx)
      then bindE (linear_get_allowed_withdraw S p ctx) (\<lambda>w. asset_le (ctx_amount ctx) w)
      else Inr False)"

text \<open>\<open>on_deposit\<close> and \<open>on_withdraw\<close> of the linear policy do nothing.\<close>

definition linear_on_deposit :: "linear_vesting_policy \<Rightarrow> vesting_policy_context \<Rightarrow> linear_vesting_policy" where
  "linear_on_deposit p ctx = p"

definition linear_on_withdraw :: "linear_vesting_policy \<Rightarrow> vesting_policy_context \<Rightarrow> linear_vesting_policy" where
  "linear_on_withdraw p ctx = p"

section \<open>cdd\_vesting\_policy\<close>

definition compute_FFF_seconds_earned :: "cdd_vesting_policy \<Rightarrow> vesting_policy_context \<Rightarrow> int" where
  "compute_FFF_seconds_earned p ctx =
     (let delta_seconds = int (ctx_now ctx) - int (FFF_seconds_earned_last_update p);
          delta_FFF_seconds = u128 (u128 (amount (ctx_balance ctx)) * delta_seconds);
          cap = u128 (u128 (amount (ctx_balance ctx)) * int (max (vesting_seconds p) 1))
      in min (u128 (FFF_seconds_earned p + delta_FFF_seconds)) cap)"

definition update_FFF_seconds_earned :: "cdd_vesting_policy \<Rightarrow> vesting_policy_context \<Rightarrow> cdd_vesting_policy" where
  "update_FFF_seconds_earned p ctx =
     p\<lparr>FFF_seconds_earned := compute_FFF_seconds_earned p ctx,
       FFF_seconds_earned_last_update := ctx_now ctx\<rparr>"

definition cdd_get_allowed_withdraw :: "cdd_vesting_policy \<Rightarrow> vesting_policy_context \<Rightarrow> asset res" where
  "cdd_get_allowed_withdraw p ctx =
     (if ctx_now ctx \<le> start_claim p then Inr (mk_asset 0 (asset_id (ctx_balance ctx)))
      else
        let withdraw_available = compute_FFF_seconds_earned p ctx div int (max (vesting_seconds p) 1)
        in bindE (to_uint64 withdraw_available) (\<lambda>w. Inr (mk_asset w (asset_id (ctx_balance ctx)))))"

definition cdd_on_deposit :: "cdd_vesting_policy \<Rightarrow> vesting_policy_context \<Rightarrow> cdd_vesting_policy" where
  "cdd_on_deposit p ctx = update_FFF_seconds_earned p ctx"

text \<open>The product of amount and seconds is computed in 64 bits before it is added.\<close>

definition cdd_on_deposit_vested :: "cdd_vesting_policy \<Rightarrow> vesting_policy_context \<Rightarrow> cdd_vesting_policy" where
  "cdd_on_deposit_vested p ctx =
     (let q = cdd_on_deposit p ctx
      in q\<lparr>FFF_seconds_earned := u128 (FFF_seconds_earned q +
             sint (word_of_int (amount (ctx_amount ctx) * int (max (vesting_seconds p) 1)) :: 64 word))\<rparr>)"

definition cdd_on_withdraw :: "cdd_vesting_policy \<Rightarrow> vesting_policy_context \<Rightarrow> cdd_vesting_policy" where
  "cdd_on_withdraw p ctx =
     (let q = update_FFF_seconds_earned p ctx;
          needed = u128 (u128 (amount (ctx_amount ctx)) * int (max (vesting_seconds p) 1))
      in q\<lparr>FFF_seconds_earned := u128 (FFF_seconds_earned q - needed)\<rparr>)"

definition cdd_is_deposit_allowed ::
  "safe \<Rightarrow> cdd_vesting_policy \<Rightarrow> vesting_policy_context \<Rightarrow> bool res" where
  "cdd_is_deposit_allowed S p ctx =
     (if asset_id (ctx_amount ctx) = asset_id (ctx_balance ctx)
      then sum_below_max_shares S (ctx_amount ctx) (ctx_balance ctx) else Inr False)"

definition cdd_is_withdraw_allowed :: "cdd_vesting_policy \<Rightarrow> vesting_policy_context \<Rightarrow> bool res" where
  "cdd_is_withdraw_allowed p ctx =
     bindE (cdd_get_allowed_withdraw p ctx) (\<lambda>w. asset_le (ctx_amount ctx) w)"

section \<open>The variant and the vesting balance\<close>

fun policy_get_allowed_withdraw :: "safe \<Rightarrow> vesting_policy \<Rightarrow> vesting_policy_context \<Rightarrow> asset res" where
  "policy_get_allowed_withdraw S (Linear p) ctx = linear_get_allowed_withdraw S p ctx"
| "policy_get_allowed_withdraw S (Cdd p) ctx = cdd_get_allowed_withdraw p ctx"

fun policy_is_deposit_allowed :: "safe \<Rightarrow> vesting_policy \<Rightarrow> vesting_policy_context \<Rightarrow> bool res" where
  "policy_is_deposit_allowed S (Linear p) ctx = linear_is_deposit_allowed S p ctx"
| "policy_is_deposit_allowed S (Cdd p) ctx = cdd_is_deposit_allowed S p ctx"

fun policy_is_deposit_vested_allowed :: "safe \<Rightarrow> vesting_policy \<Rightarrow> vesting_policy_context \<Rightarrow> bool res" where
  "policy_is_deposit_vested_allowed S (Linear p) ctx = Inr False"
| "policy_is_deposit_vested_allowed S (Cdd p) ctx = cdd_is_deposit_allowed S p ctx"

fun policy_is_withdraw_allowed :: "safe \<Rightarrow> vesting_policy \<Rightarrow> vesting_policy_context \<Rightarrow> bool res" where
  "policy_is_withdraw_allowed S (Linear p) ctx = linear_is_withdraw_allowed S p ctx"
| "policy_is_withdraw_allowed S (Cdd p) ctx = cdd_is_withdraw_allowed p ctx"

fun policy_on_deposit :: "vesting_policy \<Rightarrow> vesting_policy_context \<Rightarrow> vesting_policy" where
  "policy_on_deposit (Linear p) ctx = Linear (linear_on_deposit p ctx)"
| "policy_on_deposit (Cdd p) ctx = Cdd (cdd_on_deposit p ctx)"

fun policy_on_deposit_vested :: "vesting_policy \<Rightarrow> vesting_policy_context \<Rightarrow> vesting_policy res" where
  "policy_on_deposit_vested (Linear p) ctx = Inl Assert_Exception"
| "policy_on_deposit_vested (Cdd p) ctx = Inr (Cdd (cdd_on_deposit_vested p ctx))"

fun policy_on_withdraw :: "vesting_policy \<Rightarrow> vesting_policy_context \<Rightarrow> vesting_policy" where
  "policy_on_withdraw (Linear p) ctx = Linear (linear_on_withdraw p ctx)"
| "policy_on_withdraw (Cdd p) ctx = Cdd (cdd_on_withdraw p ctx)"

definition vb_ctx :: "vesting_balance_object \<Rightarrow> time_point_sec \<Rightarrow> asset \<Rightarrow> vesting_policy_context" where
  "vb_ctx vb now a = \<lparr>ctx_balance = vb_balance vb, ctx_now = now, ctx_amount = a\<rparr>"

definition vb_is_deposit_allowed :: "safe \<Rightarrow> time_point_sec \<Rightarrow> asset \<Rightarrow> vesting_balance_object \<Rightarrow> bool res" where
  "vb_is_deposit_allowed S now a vb = policy_is_deposit_allowed S (vb_policy vb) (vb_ctx vb now a)"

definition vb_is_withdraw_allowed :: "safe \<Rightarrow> time_point_sec \<Rightarrow> asset \<Rightarrow> vesting_balance_object \<Rightarrow> bool res" where
  "vb_is_withdraw_allowed S now a vb = policy_is_withdraw_allowed S (vb_policy vb) (vb_ctx vb now a)"

definition vb_deposit :: "safe \<Rightarrow> time_point_sec \<Rightarrow> asset \<Rightarrow> vesting_balance_object \<Rightarrow> vesting_balance_object res" where
  "vb_deposit S now a vb =
     bindE (asset_add S (vb_balance vb) a) (\<lambda>b.
     Inr (vb\<lparr>vb_policy := policy_on_deposit (vb_policy vb) (vb_ctx vb now a), vb_balance := b\<rparr>))"

definition vb_deposit_vested :: "safe \<Rightarrow> time_point_sec \<Rightarrow> asset \<Rightarrow> vesting_balance_object \<Rightarrow> vesting_balance_object res" where
  "vb_deposit_vested S now a vb =
     bindE (policy_on_deposit_vested (vb_policy vb) (vb_ctx vb now a)) (\<lambda>p.
     bindE (asset_add S (vb_balance vb) a) (\<lambda>b. Inr (vb\<lparr>vb_policy := p, vb_balance := b\<rparr>)))"

definition vb_withdraw :: "safe \<Rightarrow> time_point_sec \<Rightarrow> asset \<Rightarrow> vesting_balance_object \<Rightarrow> vesting_balance_object res" where
  "vb_withdraw S now a vb =
     bindE (asset_sub S (vb_balance vb) a) (\<lambda>b.
     Inr (vb\<lparr>vb_policy := policy_on_withdraw (vb_policy vb) (vb_ctx vb now a), vb_balance := b\<rparr>))"

definition vb_get_allowed_withdraw :: "safe \<Rightarrow> time_point_sec \<Rightarrow> vesting_balance_object \<Rightarrow> asset res" where
  "vb_get_allowed_withdraw S now vb =
     policy_get_allowed_withdraw S (vb_policy vb) (vb_ctx vb now (mk_asset 0 0))"

section \<open>The contract of a vesting policy\<close>

definition mk_ctx :: "asset \<Rightarrow> time_point_sec \<Rightarrow> asset \<Rightarrow> vesting_policy_context" where
  "mk_ctx b now a = \<lparr>ctx_balance = b, ctx_now = now, ctx_amount = a\<rparr>"

locale vesting_contract =
  fixes withdraw_ok :: "'p \<Rightarrow> vesting_policy_context \<Rightarrow> bool res"
    and on_wd :: "'p \<Rightarrow> vesting_policy_context \<Rightarrow> 'p"
    and inv :: "'p \<Rightarrow> asset \<Rightarrow> time_point_sec \<Rightarrow> bool"
  assumes wait_law: "inv p b t \<Longrightarrow> t \<le> t' \<Longrightarrow> t' < 2 ^ 32 \<Longrightarrow> inv p b t'"
    and nonneg_law: "inv p b t \<Longrightarrow> 0 \<le> amount b"
    and bound_law: "inv p b t \<Longrightarrow> withdraw_ok p (mk_ctx b t a) = Inr True \<Longrightarrow>
      asset_id a = asset_id b \<and> amount a \<le> amount b"
    and withdraw_law: "inv p b t \<Longrightarrow> withdraw_ok p (mk_ctx b t a) = Inr True \<Longrightarrow> 0 \<le> amount a \<Longrightarrow>
      inv (on_wd p (mk_ctx b t a)) (mk_asset (amount b - amount a) (asset_id b)) t"
begin

lemma claim_step:
  assumes "inv p b t" and "t \<le> t'" and "t' < 2 ^ 32"
    and "withdraw_ok p (mk_ctx b t' a) = Inr True" and "0 \<le> amount a"
  shows "inv (on_wd p (mk_ctx b t' a)) (mk_asset (amount b - amount a) (asset_id b)) t' \<and>
    asset_id a = asset_id b \<and> amount a \<le> amount b"
proof -
  have "inv p b t'" using assms(1-3) by (rule wait_law)
  then show ?thesis using withdraw_law bound_law assms(4,5) by blast
qed

end

section \<open>The linear policy keeps it\<close>

definition linear_vested :: "linear_vesting_policy \<Rightarrow> time_point_sec \<Rightarrow> int" where
  "linear_vested p now =
     (if now \<le> begin_timestamp p \<or> now - begin_timestamp p < vesting_cliff_seconds p then 0
      else if now - begin_timestamp p < vesting_duration_seconds p
      then begin_balance p * int (now - begin_timestamp p) div int (vesting_duration_seconds p)
      else begin_balance p)"

definition linear_inv :: "linear_vesting_policy \<Rightarrow> asset \<Rightarrow> time_point_sec \<Rightarrow> bool" where
  "linear_inv p b t \<longleftrightarrow> 0 \<le> amount b \<and> amount b \<le> begin_balance p \<and> begin_balance p < 2 ^ 63 \<and>
     vesting_duration_seconds p < 2 ^ 32 \<and> begin_balance p - amount b \<le> linear_vested p t"

lemma u128_small: "0 \<le> n \<Longrightarrow> n < 2 ^ 128 \<Longrightarrow> u128 n = n"
  by (simp add: u128_def)

lemma mult_less_power:
  fixes x y :: int
  assumes "0 \<le> x" and "x < 2 ^ 63" and "0 \<le> y" and "y < 2 ^ 32"
  shows "0 \<le> x * y" and "x * y < 2 ^ 95"
proof -
  show "0 \<le> x * y" using assms by simp
  have "x * y \<le> (2 ^ 63 - 1) * (2 ^ 32 - 1)" using assms by (intro mult_mono) simp_all
  then show "x * y < 2 ^ 95" by simp
qed

lemma linear_part_le:
  fixes n e d :: int
  assumes "0 \<le> n" and "0 \<le> e" and "e < d"
  shows "n * e div d \<le> n" and "0 \<le> n * e div d"
proof -
  have "n * e \<le> n * d" using assms by (intro mult_left_mono) simp_all
  then have "n * e div d \<le> n * d div d" using assms by (intro zdiv_mono1) simp_all
  then show "n * e div d \<le> n" using assms by simp
  show "0 \<le> n * e div d" using assms by (simp add: pos_imp_zdiv_nonneg_iff)
qed

lemma linear_vested_bounds:
  assumes "0 \<le> begin_balance p"
  shows "0 \<le> linear_vested p t" and "linear_vested p t \<le> begin_balance p"
  using assms linear_part_le [of "begin_balance p" "int (t - begin_timestamp p)" "int (vesting_duration_seconds p)"]
  by (auto simp: linear_vested_def)

lemma linear_vested_mono:
  assumes "0 \<le> begin_balance p" and "t \<le> t'"
  shows "linear_vested p t \<le> linear_vested p t'"
proof -
  let ?e = "t - begin_timestamp p" and ?e' = "t' - begin_timestamp p" and ?d = "vesting_duration_seconds p"
  have e: "?e \<le> ?e'" using assms(2) by simp
  have "begin_balance p * int ?e div int ?d \<le> begin_balance p * int ?e' div int ?d" if "0 < ?d"
    using that e assms(1) by (intro zdiv_mono1 mult_left_mono) simp_all
  moreover have "begin_balance p * int ?e div int ?d \<le> begin_balance p" if "?e < ?d"
    using linear_part_le(1) [of "begin_balance p" "int ?e" "int ?d"] that assms(1) by simp
  moreover have "0 \<le> linear_vested p t'" using linear_vested_bounds(1) [OF assms(1)] .
  ultimately show ?thesis using e assms by (auto simp: linear_vested_def)
qed

text \<open>The exact value of the withdrawable amount, in the range where the invariant keeps it.\<close>

lemma linear_allowed:
  assumes "linear_inv p b t" and "linear_get_allowed_withdraw S p (mk_ctx b t a) = Inr w" and "safe_exact S"
  shows "asset_id w = asset_id a" and "amount w = linear_vested p t - (begin_balance p - amount b)"
proof -
  let ?e = "t - begin_timestamp p" and ?d = "vesting_duration_seconds p"
  have i: "0 \<le> begin_balance p" "begin_balance p < 2 ^ 63" "?d < 2 ^ 32" "amount b \<le> begin_balance p"
      "begin_balance p - amount b \<le> linear_vested p t"
    using assms(1) by (simp_all add: linear_inv_def)
  have prod: "u128 (u128 (begin_balance p) * int ?e) = begin_balance p * int ?e" if "?e < ?d"
    using mult_less_power [of "begin_balance p" "int ?e"] i that
    by (simp add: u128_small)
  show "asset_id w = asset_id a"
    using assms(2) by (auto simp: linear_get_allowed_withdraw_def mk_ctx_def Let_def split: if_splits)
  show "amount w = linear_vested p t - (begin_balance p - amount b)"
  proof (cases "t \<le> begin_timestamp p \<or> ?e < vesting_cliff_seconds p")
    case True
    then have "linear_vested p t = 0" by (auto simp: linear_vested_def)
    then show ?thesis
      using True assms(2) i by (auto simp: linear_get_allowed_withdraw_def mk_ctx_def Let_def split: if_splits)
  next
    case False
    then show ?thesis
      using assms(2) prod
      by (auto simp: linear_get_allowed_withdraw_def mk_ctx_def Let_def linear_vested_def to_uint64_def
          dest!: safe_exactD [OF assms(3)] split: if_splits)
  qed
qed

lemma asset_le_True: "asset_le a b = Inr True \<Longrightarrow> asset_id a = asset_id b \<and> amount a \<le> amount b"
  by (auto simp: asset_le_def asset_less_def split: if_splits)

lemma linear_withdraw:
  assumes "linear_inv p b t" and "linear_is_withdraw_allowed S p (mk_ctx b t a) = Inr True" and "safe_exact S"
  shows "asset_id a = asset_id b" and "amount a \<le> linear_vested p t - (begin_balance p - amount b)"
proof -
  from assms(2) obtain w where w: "linear_get_allowed_withdraw S p (mk_ctx b t a) = Inr w"
    and le: "asset_le a w = Inr True" and id: "asset_id a = asset_id b"
    by (auto simp: linear_is_withdraw_allowed_def mk_ctx_def split: if_splits)
  show "asset_id a = asset_id b" by (rule id)
  show "amount a \<le> linear_vested p t - (begin_balance p - amount b)"
    using linear_allowed [OF assms(1) w assms(3)] asset_le_True [OF le] by simp
qed

lemma linear_contract:
  assumes "safe_exact S"
  shows "vesting_contract (linear_is_withdraw_allowed S) linear_on_withdraw linear_inv"
proof (unfold_locales, goal_cases)
  case (1 p b t t')
  then show ?case using linear_vested_mono [of p t t'] by (auto simp: linear_inv_def)
next
  case (2 p b t)
  then show ?case by (simp add: linear_inv_def)
next
  case (3 p b t a)
  then show ?case
    using linear_withdraw [OF 3 assms] linear_vested_bounds(2) [of p t] by (auto simp: linear_inv_def)
next
  case (4 p b t a)
  then show ?case
    using linear_withdraw [OF 4(1,2) assms] linear_vested_bounds(2) [of p t]
    by (auto simp: linear_inv_def linear_on_withdraw_def)
qed

section \<open>The cdd policy keeps it\<close>

definition cdd_period :: "cdd_vesting_policy \<Rightarrow> int" where
  "cdd_period p = int (max (vesting_seconds p) 1)"

definition cdd_inv :: "cdd_vesting_policy \<Rightarrow> asset \<Rightarrow> time_point_sec \<Rightarrow> bool" where
  "cdd_inv p b t \<longleftrightarrow> 0 \<le> amount b \<and> amount b < 2 ^ 63 \<and> vesting_seconds p < 2 ^ 32 \<and> t < 2 ^ 32 \<and>
     FFF_seconds_earned_last_update p \<le> t \<and>
     0 \<le> FFF_seconds_earned p \<and> FFF_seconds_earned p \<le> amount b * cdd_period p"

lemma cdd_period_bounds: "vesting_seconds p < 2 ^ 32 \<Longrightarrow> 0 < cdd_period p \<and> cdd_period p < 2 ^ 32"
  by (simp add: cdd_period_def)

lemma compute_earned:
  assumes "cdd_inv p b t"
  shows "compute_FFF_seconds_earned p (mk_ctx b t a) =
      min (FFF_seconds_earned p + amount b * int (t - FFF_seconds_earned_last_update p)) (amount b * cdd_period p)"
    and "0 \<le> compute_FFF_seconds_earned p (mk_ctx b t a)"
proof -
  let ?d = "t - FFF_seconds_earned_last_update p"
  have i: "0 \<le> amount b" "amount b < 2 ^ 63" "FFF_seconds_earned_last_update p \<le> t" "?d < 2 ^ 32"
      "0 \<le> FFF_seconds_earned p" "FFF_seconds_earned p \<le> amount b * cdd_period p"
    and per: "0 < cdd_period p" "cdd_period p < 2 ^ 32"
    using assms cdd_period_bounds [of p] by (auto simp: cdd_inv_def)
  have d: "int t - int (FFF_seconds_earned_last_update p) = int ?d" using i(3) by simp
  have 1: "0 \<le> amount b * int ?d" "amount b * int ?d < 2 ^ 95"
    using mult_less_power [of "amount b" "int ?d"] i by simp_all
  have 2: "0 \<le> amount b * cdd_period p" "amount b * cdd_period p < 2 ^ 95"
    using mult_less_power [of "amount b" "cdd_period p"] i per by simp_all
  have u: "u128 (amount b) = amount b" "u128 (amount b * int ?d) = amount b * int ?d"
      "u128 (amount b * cdd_period p) = amount b * cdd_period p"
      "u128 (FFF_seconds_earned p + amount b * int ?d) = FFF_seconds_earned p + amount b * int ?d"
    using i 1 2 by (intro u128_small; simp)+
  show eq: "compute_FFF_seconds_earned p (mk_ctx b t a) =
      min (FFF_seconds_earned p + amount b * int ?d) (amount b * cdd_period p)"
    unfolding compute_FFF_seconds_earned_def mk_ctx_def Let_def cdd_period_def [symmetric]
    by (simp only: vesting_policy_context.select_convs u d)
  show "0 \<le> compute_FFF_seconds_earned p (mk_ctx b t a)" using eq i(5) 1(1) 2(1) by simp
qed

lemma cdd_withdraw:
  assumes "cdd_inv p b t" and "cdd_is_withdraw_allowed p (mk_ctx b t a) = Inr True" and "0 \<le> amount a"
  shows "asset_id a = asset_id b" and "amount a * cdd_period p \<le> compute_FFF_seconds_earned p (mk_ctx b t a)"
proof -
  from assms(2) obtain w where w: "cdd_get_allowed_withdraw p (mk_ctx b t a) = Inr w" and le: "asset_le a w = Inr True"
    by (auto simp: cdd_is_withdraw_allowed_def mk_ctx_def)
  have per: "0 < cdd_period p" using assms(1) cdd_period_bounds [of p] by (simp add: cdd_inv_def)
  note c0 = compute_earned(2) [OF assms(1), of a]
  have "asset_id w = asset_id b"
    using w by (auto simp: cdd_get_allowed_withdraw_def mk_ctx_def to_uint64_def Let_def split: if_splits)
  then show "asset_id a = asset_id b" using asset_le_True [OF le] by simp
  have "amount w \<le> compute_FFF_seconds_earned p (mk_ctx b t a) div cdd_period p"
    using w per c0
    by (auto simp: cdd_get_allowed_withdraw_def to_uint64_def Let_def cdd_period_def pos_imp_zdiv_nonneg_iff
        split: if_splits)
  then have "amount a \<le> compute_FFF_seconds_earned p (mk_ctx b t a) div cdd_period p"
    using asset_le_True [OF le] by simp
  then have "amount a * cdd_period p \<le> compute_FFF_seconds_earned p (mk_ctx b t a) div cdd_period p * cdd_period p"
    using per by simp
  also have "\<dots> \<le> compute_FFF_seconds_earned p (mk_ctx b t a)"
    using per pos_mod_sign [of "cdd_period p"] by (simp add: minus_mod_eq_div_mult [symmetric])
  finally show "amount a * cdd_period p \<le> compute_FFF_seconds_earned p (mk_ctx b t a)" .
qed

text \<open>What an allowed withdrawal needs was earned: the subtraction does not wrap.\<close>

lemma cdd_on_withdraw_earned:
  assumes "cdd_inv p b t" and "cdd_is_withdraw_allowed p (mk_ctx b t a) = Inr True" and "0 \<le> amount a"
  shows "FFF_seconds_earned (cdd_on_withdraw p (mk_ctx b t a)) =
    compute_FFF_seconds_earned p (mk_ctx b t a) - amount a * cdd_period p" and "amount a \<le> amount b"
proof -
  have i: "0 \<le> amount b" "amount b < 2 ^ 63" and per: "0 < cdd_period p" "cdd_period p < 2 ^ 32"
    using assms(1) cdd_period_bounds [of p] by (auto simp: cdd_inv_def)
  note w = cdd_withdraw(2) [OF assms]
  have le: "amount a * cdd_period p \<le> amount b * cdd_period p" using w compute_earned(1) [OF assms(1), of a] by simp
  then show ab: "amount a \<le> amount b" using per by simp
  have bnd: "0 \<le> amount a * cdd_period p" "amount a * cdd_period p < 2 ^ 95"
    using mult_less_power [of "amount a" "cdd_period p"] i per assms(3) ab by simp_all
  have "compute_FFF_seconds_earned p (mk_ctx b t a) \<le> amount b * cdd_period p"
    using compute_earned(1) [OF assms(1), of a] by simp
  also have "\<dots> < 2 ^ 95" using mult_less_power [of "amount b" "cdd_period p"] i per by simp
  finally have top: "compute_FFF_seconds_earned p (mk_ctx b t a) < 2 ^ 95" .
  have u: "u128 (u128 (amount a) * cdd_period p) = amount a * cdd_period p"
    using bnd assms(3) ab i by (simp add: u128_small)
  have "u128 (compute_FFF_seconds_earned p (mk_ctx b t a) - amount a * cdd_period p) =
      compute_FFF_seconds_earned p (mk_ctx b t a) - amount a * cdd_period p"
    using w bnd top by (intro u128_small) simp_all
  then show "FFF_seconds_earned (cdd_on_withdraw p (mk_ctx b t a)) =
      compute_FFF_seconds_earned p (mk_ctx b t a) - amount a * cdd_period p"
    using u by (simp add: cdd_on_withdraw_def update_FFF_seconds_earned_def Let_def cdd_period_def mk_ctx_def)
qed

lemma cdd_bound:
  assumes "cdd_inv p b t" and "cdd_is_withdraw_allowed p (mk_ctx b t a) = Inr True"
  shows "asset_id a = asset_id b \<and> amount a \<le> amount b"
proof (cases "0 \<le> amount a")
  case True
  then show ?thesis using cdd_withdraw(1) [OF assms] cdd_on_withdraw_earned(2) [OF assms] by simp
next
  case False
  from assms(2) obtain w where w: "cdd_get_allowed_withdraw p (mk_ctx b t a) = Inr w" and le: "asset_le a w = Inr True"
    by (auto simp: cdd_is_withdraw_allowed_def mk_ctx_def)
  have "asset_id w = asset_id b"
    using w by (auto simp: cdd_get_allowed_withdraw_def mk_ctx_def to_uint64_def Let_def split: if_splits)
  then show ?thesis using False asset_le_True [OF le] assms(1) by (simp add: cdd_inv_def)
qed

interpretation cdd: vesting_contract cdd_is_withdraw_allowed cdd_on_withdraw cdd_inv
proof (unfold_locales, goal_cases)
  case (1 p b t t')
  then show ?case by (auto simp: cdd_inv_def)
next
  case (2 p b t)
  then show ?case by (simp add: cdd_inv_def)
next
  case (3 p b t a)
  then show ?case by (rule cdd_bound)
next
  case (4 p b t a)
  have i: "amount b < 2 ^ 63" "vesting_seconds p < 2 ^ 32" "t < 2 ^ 32" using 4(1) by (simp_all add: cdd_inv_def)
  note w = cdd_withdraw(2) [OF 4] and e = cdd_on_withdraw_earned [OF 4]
  have "cdd_period (cdd_on_withdraw p (mk_ctx b t a)) = cdd_period p"
    by (simp add: cdd_on_withdraw_def update_FFF_seconds_earned_def cdd_period_def Let_def)
  moreover have "FFF_seconds_earned (cdd_on_withdraw p (mk_ctx b t a)) \<le> (amount b - amount a) * cdd_period p"
    using e(1) compute_earned(1) [OF 4(1), of a] by (simp add: left_diff_distrib)
  ultimately show ?case
    using e w i 4(3) unfolding cdd_inv_def
    by (simp add: cdd_on_withdraw_def update_FFF_seconds_earned_def Let_def mk_ctx_def)
qed

section \<open>The variant keeps it\<close>

fun policy_inv :: "vesting_policy \<Rightarrow> asset \<Rightarrow> time_point_sec \<Rightarrow> bool" where
  "policy_inv (Linear p) b t = linear_inv p b t"
| "policy_inv (Cdd p) b t = cdd_inv p b t"

definition vb_inv :: "vesting_balance_object \<Rightarrow> time_point_sec \<Rightarrow> bool" where
  "vb_inv vb t = policy_inv (vb_policy vb) (vb_balance vb) t"

locale safe_arith =
  fixes S :: safe
  assumes exact: "safe_exact S"
begin

lemma arith_exact: "S n = Inr r \<Longrightarrow> r = n"
  using exact by (rule safe_exactD)

end

sublocale safe_arith \<subseteq> linear: vesting_contract "linear_is_withdraw_allowed S" linear_on_withdraw linear_inv
  using exact by (rule linear_contract)

lemma policy_contract:
  assumes "safe_exact S"
  shows "vesting_contract (policy_is_withdraw_allowed S) policy_on_withdraw policy_inv"
proof -
  note l = linear_contract [OF assms]
  show ?thesis
  proof (unfold_locales, goal_cases)
    case (1 p b t t')
    then show ?case using vesting_contract.wait_law [OF l] cdd.wait_law by (cases p) auto
  next
    case (2 p b t)
    then show ?case using vesting_contract.nonneg_law [OF l] cdd.nonneg_law by (cases p) auto
  next
    case (3 p b t a)
    then show ?case
      using vesting_contract.bound_law [OF l] cdd.bound_law by (cases p) (simp_all only: policy_inv.simps policy_is_withdraw_allowed.simps)
  next
    case (4 p b t a)
    then show ?case
      using vesting_contract.withdraw_law [OF l] cdd.withdraw_law
      by (cases p) (simp_all only: policy_inv.simps policy_is_withdraw_allowed.simps policy_on_withdraw.simps)
  qed
qed

sublocale safe_arith \<subseteq> policy: vesting_contract "policy_is_withdraw_allowed S" policy_on_withdraw policy_inv
  using exact by (rule policy_contract)

interpretation checked: safe_arith checked64
  by unfold_locales (rule checked64_exact)

section \<open>Properties\<close>

lemma vb_ctx_mk: "vb_ctx vb now a = mk_ctx (vb_balance vb) now a"
  by (simp add: vb_ctx_def mk_ctx_def)

text \<open>
  \<open>is_withdraw_allowed\<close> never grants more than the balance, whatever the policy: the
  \<open>assert\<close>s of \<open>is\_withdraw\_allowed\<close>, of \<open>withdraw\<close> and of the withdraw evaluator cannot
  fire.
\<close>

theorem withdraw_within_balance:
  assumes "safe_exact S" and "vb_inv vb now" and "vb_is_withdraw_allowed S now a vb = Inr True"
  shows "asset_id a = asset_id (vb_balance vb) \<and> amount a \<le> amount (vb_balance vb)"
  using vesting_contract.bound_law [OF policy_contract [OF assms(1)], of "vb_policy vb" "vb_balance vb" now a]
    assms(2,3)
  by (simp add: vb_inv_def vb_is_withdraw_allowed_def vb_ctx_mk)

definition demo_vb :: vesting_balance_object where
  "demo_vb = \<lparr>vb_owner = 7, vb_balance = mk_asset 1000 0,
     vb_policy = Cdd \<lparr>vesting_seconds = 100, FFF_seconds_earned = 0, start_claim = 0,
       FFF_seconds_earned_last_update = 500\<rparr>\<rparr>"

lemma demo_vb_inv: "500 \<le> t \<Longrightarrow> t < 2 ^ 32 \<Longrightarrow> vb_inv demo_vb t"
  by (simp add: demo_vb_def vb_inv_def cdd_inv_def cdd_period_def)

theorem withdraw_within_balance_witness:
  "vb_is_withdraw_allowed checked64 550 (mk_asset 500 0) demo_vb = Inr True \<and>
   asset_id (mk_asset 500 0) = asset_id (vb_balance demo_vb) \<and> amount (mk_asset 500 0) \<le> amount (vb_balance demo_vb)"
proof -
  have ok: "vb_is_withdraw_allowed checked64 550 (mk_asset 500 0) demo_vb = Inr True" by code_simp
  have "vb_inv demo_vb 550" by (rule demo_vb_inv) simp_all
  from withdraw_within_balance [OF checked64_exact this ok] ok show ?thesis by blast
qed

text \<open>A claim as the withdraw evaluator makes it: the check, then the withdrawal.\<close>

definition vb_claim :: "safe \<Rightarrow> time_point_sec \<times> asset \<Rightarrow> vesting_balance_object \<Rightarrow> vesting_balance_object res" where
  "vb_claim S c vb =
     bindE (vb_is_withdraw_allowed S (fst c) (snd c) vb) (\<lambda>ok.
     bindE (require ok Assert_Exception) (\<lambda>_. vb_withdraw S (fst c) (snd c) vb))"

lemma vb_claim_step:
  assumes "safe_exact S" and "vb_inv vb t" and "t \<le> fst c" and "fst c < 2 ^ 32" and "0 \<le> amount (snd c)"
    and "vb_claim S c vb = Inr vb'"
  shows "vb_inv vb' (fst c) \<and> amount (vb_balance vb') = amount (vb_balance vb) - amount (snd c) \<and>
    asset_id (snd c) = asset_id (vb_balance vb) \<and> asset_id (vb_balance vb') = asset_id (vb_balance vb)"
proof -
  from assms(6) obtain b where ok: "vb_is_withdraw_allowed S (fst c) (snd c) vb = Inr True"
    and b: "asset_sub S (vb_balance vb) (snd c) = Inr b"
    and vb': "vb' = vb\<lparr>vb_policy := policy_on_withdraw (vb_policy vb) (mk_ctx (vb_balance vb) (fst c) (snd c)), vb_balance := b\<rparr>"
    by (auto simp: vb_claim_def vb_withdraw_def vb_ctx_mk)
  have b': "b = mk_asset (amount (vb_balance vb) - amount (snd c)) (asset_id (vb_balance vb))"
    using b by (auto simp: asset_sub_def dest!: safe_exactD [OF assms(1)])
  note st = vesting_contract.claim_step [OF policy_contract [OF assms(1)], of "vb_policy vb" "vb_balance vb" t "fst c" "snd c"]
  show ?thesis
    using st assms(2-5) ok unfolding vb_inv_def vb_is_withdraw_allowed_def vb_ctx_mk
    by (simp add: vb' b')
qed

text \<open>
  C21. Claims at any times, in any number: what is paid out is exactly what leaves the balance, the
  balance never becomes negative, so the total never exceeds the balance at the start; and the
  invariant of the policy holds afterwards (for a linear policy: the part already withdrawn never
  exceeds the part vested so far).
\<close>

theorem claims_bounded_by_balance:
  assumes "safe_exact S" and "vb_inv vb t" and "sorted_wrt (\<lambda>x y. fst x \<le> fst y) ((t, mk_asset 0 0) # cs)"
    and "list_all (\<lambda>c. fst c < 2 ^ 32 \<and> 0 \<le> amount (snd c)) cs"
    and "foldE (vb_claim S) cs vb = Inr vb'"
  shows "sum_list (map (\<lambda>c. amount (snd c)) cs) = amount (vb_balance vb) - amount (vb_balance vb') \<and>
    sum_list (map (\<lambda>c. amount (snd c)) cs) \<le> amount (vb_balance vb) \<and>
    vb_inv vb' (fst (last ((t, mk_asset 0 0) # cs)))"
  using assms(2-5)
proof (induction cs arbitrary: vb t)
  case Nil
  then show ?case
    using vesting_contract.nonneg_law [OF policy_contract [OF assms(1)], of "vb_policy vb" "vb_balance vb" t]
    by (simp add: vb_inv_def)
next
  case (Cons c cs)
  then obtain vb1 where c: "vb_claim S c vb = Inr vb1" and rest: "foldE (vb_claim S) cs vb1 = Inr vb'" by auto
  have st: "vb_inv vb1 (fst c)" "amount (vb_balance vb1) = amount (vb_balance vb) - amount (snd c)"
    using vb_claim_step [OF assms(1) Cons.prems(1) _ _ _ c] Cons.prems(2,3) by simp_all
  have "sorted_wrt (\<lambda>x y. fst x \<le> fst y) ((fst c, mk_asset 0 0) # cs)" "list_all (\<lambda>c. fst c < 2 ^ 32 \<and> 0 \<le> amount (snd c)) cs"
    using Cons.prems(2,3) by simp_all
  from Cons.IH [OF st(1) this rest] st(2) show ?case by (auto split: if_splits)
qed

theorem claims_bounded_by_balance_witness:
  "\<exists>vb'. foldE (vb_claim checked64) [(550, mk_asset 500 0), (560, mk_asset 50 0)] demo_vb = Inr vb' \<and>
     (500::int) + 50 = 1000 - amount (vb_balance vb') \<and> vb_inv vb' 560"
proof -
  let ?cs = "[(550, mk_asset 500 0), (560, mk_asset 50 0)]"
  have "case foldE (vb_claim checked64) ?cs demo_vb of Inl _ \<Rightarrow> False | Inr _ \<Rightarrow> True" by code_simp
  then obtain vb' where v: "foldE (vb_claim checked64) ?cs demo_vb = Inr vb'" by (auto split: sum.splits)
  have "amount (vb_balance demo_vb) = 1000" by (simp add: demo_vb_def)
  then show ?thesis
    using claims_bounded_by_balance [OF checked64_exact demo_vb_inv [of 500] _ _ v] v
    by (intro exI [of _ vb'] conjI) simp_all
qed

text \<open>
  C22. Nothing is locked for ever: once the vesting period is over, the whole balance can be
  withdrawn in one claim, under either policy.
\<close>

fun fully_vested :: "vesting_policy \<Rightarrow> time_point_sec \<Rightarrow> bool" where
  "fully_vested (Linear p) now \<longleftrightarrow> begin_timestamp p < now \<and>
     vesting_cliff_seconds p \<le> now - begin_timestamp p \<and> vesting_duration_seconds p \<le> now - begin_timestamp p"
| "fully_vested (Cdd p) now \<longleftrightarrow> start_claim p < now \<and>
     max (vesting_seconds p) 1 \<le> now - FFF_seconds_earned_last_update p"

theorem fully_vested_released:
  assumes "safe_exact S" and "safe_total S" and "vb_inv vb now" and "fully_vested (vb_policy vb) now"
  shows "vb_is_withdraw_allowed S now (vb_balance vb) vb = Inr True"
proof (cases "vb_policy vb")
  case (Linear p)
  then have i: "0 \<le> amount (vb_balance vb)" "amount (vb_balance vb) \<le> begin_balance p" "begin_balance p < 2 ^ 63"
    using assms(3) by (simp_all add: vb_inv_def linear_inv_def)
  have "S (begin_balance p - amount (vb_balance vb)) = Inr (begin_balance p - amount (vb_balance vb))"
    and "S (amount (vb_balance vb)) = Inr (amount (vb_balance vb))"
    using i by (auto intro!: safe_totalD [OF assms(2)] simp: in_int64_def)
  then show ?thesis
    using Linear assms(4)
    by (simp add: vb_is_withdraw_allowed_def vb_ctx_def linear_is_withdraw_allowed_def linear_get_allowed_withdraw_def
        Let_def not_less asset_le_def asset_less_def)
next
  case (Cdd p)
  then have inv: "cdd_inv p (vb_balance vb) now" using assms(3) by (simp add: vb_inv_def)
  then have i: "0 \<le> amount (vb_balance vb)" "amount (vb_balance vb) < 2 ^ 63" "0 \<le> FFF_seconds_earned p"
      and per: "0 < cdd_period p"
    using cdd_period_bounds [of p] by (auto simp: cdd_inv_def)
  have "cdd_period p \<le> int (now - FFF_seconds_earned_last_update p)"
    using assms(4) Cdd by (simp add: cdd_period_def)
  then have "amount (vb_balance vb) * cdd_period p \<le> amount (vb_balance vb) * int (now - FFF_seconds_earned_last_update p)"
    using i(1) by (rule mult_left_mono)
  then have "compute_FFF_seconds_earned p (mk_ctx (vb_balance vb) now (vb_balance vb)) = amount (vb_balance vb) * cdd_period p"
    using compute_earned(1) [OF inv] i(3) by simp
  then have "compute_FFF_seconds_earned p (mk_ctx (vb_balance vb) now (vb_balance vb)) div int (max (vesting_seconds p) 1)
      = amount (vb_balance vb)"
    using per by (simp add: cdd_period_def)
  then show ?thesis
    using Cdd assms(4) i(2)
    by (simp add: vb_is_withdraw_allowed_def vb_ctx_mk cdd_is_withdraw_allowed_def cdd_get_allowed_withdraw_def
        to_uint64_def asset_le_def asset_less_def) (simp add: mk_ctx_def)
qed

theorem fully_vested_released_witness:
  "vb_is_withdraw_allowed checked64 600 (vb_balance demo_vb) demo_vb = Inr True"
  by (rule fully_vested_released [OF checked64_exact checked64_total]) (simp_all add: demo_vb_inv, simp add: demo_vb_def)

end
