(* ===== verification/Tables.thy ===== *)
theory Tables
  imports Object_Index
begin

text \<open>
  Typed access to the object indexes, as \<open>chain::database\<close> uses them: \<open>get\<close>, lookup by a
  secondary key, \<open>create\<close>, \<open>modify\<close> with a body that may raise, \<open>remove\<close>; and the sum
  of a field over an index, with the effect of each operation on it.
\<close>

type_synonym 'o table = "'o generic_index"

definition t_get :: "'o table \<Rightarrow> nat \<Rightarrow> 'o res" where
  "t_get t k = lift_opt Object_Not_Found (generic_find t k)"

text \<open>The first object, in id order, that satisfies a predicate; its row id comes with it.\<close>

definition t_find_by :: "('o \<Rightarrow> bool) \<Rightarrow> 'o table \<Rightarrow> (nat \<times> 'o) option" where
  "t_find_by P t = find (\<lambda>p. P (snd p)) (g_rows t)"

definition t_create :: "('o \<Rightarrow> 'o \<Rightarrow> bool) \<Rightarrow> 'o \<Rightarrow> 'o table \<Rightarrow> 'o table res" where
  "t_create clash x t = generic_create clash (\<lambda>_. x) t"

definition t_modify :: "('o \<Rightarrow> 'o \<Rightarrow> bool) \<Rightarrow> nat \<Rightarrow> ('o \<Rightarrow> 'o res) \<Rightarrow> 'o table \<Rightarrow> 'o table res" where
  "t_modify clash k f t =
     bindE (t_get t k) (\<lambda>x. bindE (f x) (\<lambda>y. generic_modify clash k (\<lambda>_. y) t))"

definition t_remove :: "nat \<Rightarrow> 'o table \<Rightarrow> 'o table" where
  "t_remove k t = generic_remove k t"

definition t_values :: "'o table \<Rightarrow> 'o list" where
  "t_values t = map snd (g_rows t)"

definition t_empty :: "'o table" where
  "t_empty = \<lparr>g_next_id = 0, g_rows = []\<rparr>"

definition no_unique :: "'o \<Rightarrow> 'o \<Rightarrow> bool" where
  "no_unique x y = False"

abbreviation t_ok :: "'o table \<Rightarrow> bool" where
  "t_ok \<equiv> generic_invar"

section \<open>Effect of the operations\<close>

lemma t_get_eq_Inr [simp]: "t_get t k = Inr x \<longleftrightarrow> generic_find t k = Some x"
  by (simp add: t_get_def)

lemma t_empty_ok [simp]: "t_ok t_empty"
  by (simp add: t_empty_def generic_invar_def)

lemma t_create_law:
  assumes "t_ok t" and "t_create clash x t = Inr t'"
  shows "t_ok t'" and "generic_find t' = (generic_find t)(g_next_id t \<mapsto> x)"
    and "g_next_id t' = Suc (g_next_id t)"
  using generic_create_law [OF assms(1)] assms(2) by (auto simp: t_create_def)

lemma t_modify_law:
  assumes "t_ok t" and "t_modify clash k f t = Inr t'"
  obtains x y where "generic_find t k = Some x" and "f x = Inr y" and "t_ok t'"
    and "generic_find t' = (generic_find t)(k \<mapsto> y)" and "g_next_id t' = g_next_id t"
proof -
  from assms(2) obtain x y where x: "generic_find t k = Some x" and y: "f x = Inr y"
    and t': "generic_modify clash k (\<lambda>_. y) t = Inr t'"
    by (auto simp: t_modify_def)
  show thesis using generic_modify_law [OF assms(1) t'] x y that by auto
qed

lemma t_remove_law:
  assumes "t_ok t"
  shows "t_ok (t_remove k t)" and "generic_find (t_remove k t) = (generic_find t)(k := None)"
  using generic_remove_law [OF assms] by (simp_all add: t_remove_def)

lemma t_find_by_SomeD:
  assumes "t_ok t" and "t_find_by P t = Some (k, x)"
  shows "generic_find t k = Some x" and "P x"
proof -
  have mem: "(k, x) \<in> set (g_rows t)" and P: "P x"
    using assms(2) find_Some_iff [of "\<lambda>p. P (snd p)" "g_rows t" "(k, x)"]
    by (auto simp: t_find_by_def) (metis snd_conv)
  show "P x" by (rule P)
  show "generic_find t k = Some x"
    using mem assms(1) sorted_rows_distinct [of "g_rows t"]
    by (simp add: generic_find_def generic_invar_def)
qed

lemma t_find_by_NoneD:
  assumes "t_find_by P t = None" and "generic_find t k = Some x"
  shows "\<not> P x"
  using assms by (auto simp: t_find_by_def find_None_iff generic_find_def dest: map_of_SomeD)

section \<open>Sums over an index\<close>

definition t_sum :: "('o \<Rightarrow> int) \<Rightarrow> 'o table \<Rightarrow> int" where
  "t_sum f t = sum_list (map f (t_values t))"

abbreviation rows_sum :: "('o \<Rightarrow> int) \<Rightarrow> 'o rows \<Rightarrow> int" where
  "rows_sum f ps \<equiv> sum_list (map f (map snd ps))"

lemma rows_sum_put:
  "sorted_rows ps \<Longrightarrow> rows_sum f (put_row k v ps) =
     rows_sum f ps + f v - (case map_of ps k of Some x \<Rightarrow> f x | None \<Rightarrow> 0)"
proof (induction k v ps rule: put_row.induct)
  case (1 k v)
  then show ?case by simp
next
  case (2 k v a b ps)
  then have no: "map_of ps k = None" if "k \<le> a"
    using that by (force simp: map_of_eq_None_iff)
  show ?case
  proof (cases k a rule: linorder_cases)
    case less
    then show ?thesis using no by simp
  next
    case equal
    then show ?thesis by simp
  next
    case greater
    then show ?thesis using 2 by (simp split: option.splits)
  qed
qed

lemma rows_sum_del:
  "sorted_rows ps \<Longrightarrow> rows_sum f (del_row k ps) =
     rows_sum f ps - (case map_of ps k of Some x \<Rightarrow> f x | None \<Rightarrow> 0)"
proof (induction ps)
  case Nil
  then show ?case by (simp add: del_row_def)
next
  case (Cons p ps)
  obtain a b where p: "p = (a, b)" by (cases p)
  have a: "map_of ps a = None" using Cons.prems p by (auto simp: map_of_eq_None_iff)
  have IH: "rows_sum f (del_row k ps) = rows_sum f ps - (case map_of ps k of Some x \<Rightarrow> f x | None \<Rightarrow> 0)"
    using Cons by (simp add: p)
  show ?case
  proof (cases "a = k")
    case True
    then show ?thesis using a IH by (simp add: p del_row_def)
  next
    case False
    then show ?thesis using IH by (simp add: p del_row_def)
  qed
qed

lemma t_sum_create:
  assumes "t_ok t" and "t_create clash x t = Inr t'"
  shows "t_sum f t' = t_sum f t + f x"
proof -
  have "t' = t\<lparr>g_rows := put_row (g_next_id t) x (g_rows t), g_next_id := Suc (g_next_id t)\<rparr>"
    using assms(2) by (auto simp: t_create_def generic_create_def Let_def split: if_splits)
  then show ?thesis
    using rows_sum_put [of "g_rows t" f "g_next_id t" x] assms(1) generic_fresh [OF assms(1), of "g_next_id t"]
    by (simp add: t_sum_def t_values_def generic_invar_def generic_find_def)
qed

lemma t_sum_modify:
  assumes "t_ok t" and "t_modify clash k g t = Inr t'"
  obtains x y where "generic_find t k = Some x" and "g x = Inr y" and "t_sum f t' = t_sum f t + f y - f x"
proof -
  from assms(2) obtain x y where x: "generic_find t k = Some x" and y: "g x = Inr y"
    and t': "t' = t\<lparr>g_rows := put_row k y (g_rows t)\<rparr>"
    by (auto simp: t_modify_def generic_modify_def generic_find_def split: if_splits)
  then have "t_sum f t' = t_sum f t + f y - f x"
    using rows_sum_put [of "g_rows t" f k y] assms(1)
    by (simp add: t_sum_def t_values_def generic_invar_def generic_find_def)
  then show thesis using x y that by blast
qed

lemma t_sum_remove:
  assumes "t_ok t" and "generic_find t k = Some x"
  shows "t_sum f (t_remove k t) = t_sum f t - f x"
  using rows_sum_del [of "g_rows t" f k] assms
  by (simp add: t_sum_def t_values_def t_remove_def generic_remove_def generic_invar_def generic_find_def)

lemma t_sum_nonneg: "(\<And>k x. generic_find t k = Some x \<Longrightarrow> 0 \<le> f x) \<Longrightarrow> t_ok t \<Longrightarrow> 0 \<le> t_sum f t"
  unfolding t_sum_def t_values_def generic_find_def generic_invar_def
  by (intro sum_list_nonneg) (auto dest: sorted_rows_distinct map_of_is_SomeI)

section \<open>Unique keys\<close>

definition keys_unique :: "('o \<Rightarrow> 'o \<Rightarrow> bool) \<Rightarrow> 'o table \<Rightarrow> bool" where
  "keys_unique clash t \<longleftrightarrow>
     (\<forall>j k x y. generic_find t j = Some x \<longrightarrow> generic_find t k = Some y \<longrightarrow> clash x y \<longrightarrow> j = k)"

lemma keys_uniqueD:
  "keys_unique clash t \<Longrightarrow> generic_find t j = Some x \<Longrightarrow> generic_find t k = Some y \<Longrightarrow> clash x y \<Longrightarrow> j = k"
  unfolding keys_unique_def by blast

lemma generic_find_row: "generic_find t k = Some x \<Longrightarrow> (k, x) \<in> set (g_rows t)"
  by (simp add: generic_find_def map_of_SomeD)

lemma t_create_unique:
  assumes "t_ok t" and "t_create clash x t = Inr t'" and "keys_unique clash t" and "\<And>u v. clash u v \<Longrightarrow> clash v u"
  shows "keys_unique clash t'"
proof -
  have "\<not> violates_unique clash (g_next_id t) x (g_rows t)"
    using assms(2) by (auto simp: t_create_def generic_create_def Let_def split: if_splits)
  then have new: "\<not> clash x y" if "generic_find t k = Some y" for k y
    using generic_find_row [OF that] by (auto simp: violates_unique_iff)
  show ?thesis
    using new assms(3,4) unfolding keys_unique_def t_create_law(2) [OF assms(1,2)] by (metis fun_upd_apply option.inject)
qed

lemma t_modify_unique:
  assumes "t_ok t" and "t_modify clash k f t = Inr t'" and "keys_unique clash t" and "\<And>u v. clash u v \<Longrightarrow> clash v u"
  shows "keys_unique clash t'"
proof -
  from assms(2) obtain x y where y: "generic_modify clash k (\<lambda>_. y) t = Inr t'"
    by (auto simp: t_modify_def)
  then have new: "\<not> clash y z" if "generic_find t j = Some z" "j \<noteq> k" for j z
    using generic_find_row [OF that(1)] that(2)
    by (auto simp: generic_modify_def list_ex_iff del_row_def split: option.splits if_splits)
  have t': "generic_find t' = (generic_find t)(k \<mapsto> y)" using generic_modify_law [OF assms(1) y] by auto
  show ?thesis
    using new assms(3,4) unfolding keys_unique_def t' by (metis fun_upd_apply option.inject)
qed

lemma t_find_by_unique:
  assumes "t_ok t" and "keys_unique clash t" and "\<And>x y. P x \<Longrightarrow> P y \<Longrightarrow> clash x y"
  shows "t_find_by P t = Some (k, x) \<longleftrightarrow> generic_find t k = Some x \<and> P x"
proof
  assume "t_find_by P t = Some (k, x)"
  then show "generic_find t k = Some x \<and> P x" using t_find_by_SomeD [OF assms(1)] by blast
next
  assume r: "generic_find t k = Some x \<and> P x"
  then obtain j y where j: "t_find_by P t = Some (j, y)" using t_find_by_NoneD [of P t] by fastforce
  then have "generic_find t j = Some y" "P y" using t_find_by_SomeD [OF assms(1)] by blast+
  then have "j = k" "y = x" using keys_uniqueD [OF assms(2)] assms(3) r by (metis option.inject)+
  then show "t_find_by P t = Some (k, x)" using j by simp
qed

lemma t_create_ok:
  assumes "t_ok t" and "\<And>k y. generic_find t k = Some y \<Longrightarrow> \<not> clash x y"
  shows "\<exists>t'. t_create clash x t = Inr t'"
proof -
  have d: "distinct (map fst (g_rows t))" using assms(1) by (simp add: generic_invar_def sorted_rows_distinct)
  have "\<not> violates_unique clash (g_next_id t) x (g_rows t)"
  proof
    assume "violates_unique clash (g_next_id t) x (g_rows t)"
    then obtain k y where m: "(k, y) \<in> set (g_rows t)" and c: "k = g_next_id t \<or> clash x y"
      by (auto simp: violates_unique_iff)
    then have "generic_find t k = Some y" using d by (simp add: generic_find_def)
    then show False using c assms generic_fresh [OF assms(1), of k] by auto
  qed
  then show ?thesis by (simp add: t_create_def generic_create_def Let_def)
qed

lemma t_modify_ok:
  assumes "t_ok t" and "keys_unique clash t" and "generic_find t k = Some x" and "f x = Inr y"
    and "\<And>z. clash y z \<Longrightarrow> clash x z"
  shows "\<exists>t'. t_modify clash k f t = Inr t'"
proof -
  have d: "distinct (map fst (g_rows t))" using assms(1) by (simp add: generic_invar_def sorted_rows_distinct)
  have "\<not> list_ex (\<lambda>p. clash y (snd p)) (del_row k (g_rows t))"
  proof
    assume "list_ex (\<lambda>p. clash y (snd p)) (del_row k (g_rows t))"
    then obtain j z where m: "(j, z) \<in> set (g_rows t)" and j: "j \<noteq> k" and c: "clash y z"
      by (auto simp: list_ex_iff del_row_def)
    then have "generic_find t j = Some z" using d by (simp add: generic_find_def)
    then show False using keys_uniqueD [OF assms(2,3) _ assms(5) [OF c]] j by blast
  qed
  then show ?thesis using assms(3,4) by (simp add: t_modify_def generic_modify_def generic_find_def)
qed

end
