(* ===== verification/Chain_State.thy ===== *)
theory Chain_State
  imports Vesting Tables
begin

text \<open>
  The objects \<open>chain::database\<close> keeps and its state: one table per object type, with the unique
  keys its multi-index container declares, and the two singleton property objects. Keys, hashes
  and ciphertexts are opaque values.
\<close>

type_synonym opaque = nat

section \<open>Accounts\<close>

record publishing_rights =
  is_publishing_manager :: bool
  publishing_rights_received :: "account_id_type list"
  publishing_rights_forwarded :: "account_id_type list"

record authority =
  weight_threshold :: nat
  account_auths :: "(account_id_type \<times> nat) list"
  key_auths :: "(opaque \<times> nat) list"

record account_options =
  memo_key :: opaque
  voting_account :: account_id_type
  num_miner :: nat
  votes :: "nat list"
  allow_subscription :: bool
  price_per_subscribe :: asset
  subscription_period :: nat

record account_object =
  registrar :: account_id_type
  acc_name :: string
  acc_owner :: authority
  acc_active :: authority
  acc_options :: account_options
  rights_to_publish :: publishing_rights
  statistics :: nat
  top_n_control_flags :: nat

record account_statistics_object =
  stat_owner :: account_id_type
  total_core_in_orders :: int
  voting_stake :: int
  stat_votes :: "nat list"

record account_balance_object =
  bal_owner :: account_id_type
  bal_asset :: asset_id_type
  bal_balance :: int

section \<open>Assets\<close>

record asset_dynamic_data_object =
  current_supply :: int
  asset_pool :: int
  core_pool :: int

record asset_object =
  symbol :: string
  precision :: nat
  issuer :: account_id_type
  description :: string
  monitored_asset_opts :: "monitored_asset_options option"
  options :: asset_options
  dynamic_asset_data_id :: nat

definition is_monitored_asset :: "asset_object \<Rightarrow> bool" where
  "is_monitored_asset a = (monitored_asset_opts a \<noteq> None)"

section \<open>Miners, permissions, subscriptions, logs\<close>

record miner_object =
  miner_account :: account_id_type
  last_aslot :: nat
  signing_key :: opaque
  pay_vb :: "nat option"
  vote_id :: nat
  total_votes :: int
  total_missed :: int
  last_confirmed_block_num :: nat
  vote_ranking :: nat
  votes_gained :: "(account_id_type \<times> int) list"
  miner_url :: string

record withdraw_permission_object =
  withdraw_from_account :: account_id_type
  authorized_account :: account_id_type
  withdrawal_limit :: asset
  withdrawal_period_sec :: nat
  period_start_time :: time_point_sec
  wp_expiration :: time_point_sec
  claimed_this_period :: int

record subscription_object =
  sub_from :: account_id_type
  sub_to :: account_id_type
  sub_expiration :: time_point_sec
  automatic_renewal :: bool

datatype detail_type = Transfer | Content_Submit | Content_Buy | Content_Rate | Subscription_Detail | Account_Create | Nft_Detail

record transaction_detail_object =
  m_from_account :: account_id_type
  m_to_account :: account_id_type
  m_operation_type :: detail_type
  m_transaction_amount :: asset
  m_transaction_fee :: asset
  m_str_description :: string
  m_memo :: "opaque option"
  m_timestamp :: time_point_sec
  m_nft_data_id :: "nat option"

section \<open>Content and its buyers\<close>

text \<open>\<open>PriceRegions\<close>: prices by region code, in the order of the codes.\<close>

type_synonym price_regions = "(nat \<times> asset) list"

record content_object =
  co_author_of :: account_id_type
  co_authors :: "(account_id_type \<times> nat) list"
  co_expiration :: time_point_sec
  co_created :: time_point_sec
  co_price :: price_regions
  co_synopsis :: string
  co_size :: nat
  co_quorum :: nat
  co_URI :: string
  co_key_parts :: "(account_id_type \<times> opaque) list"
  co_last_proof :: "(account_id_type \<times> time_point_sec) list"
  co_seeder_price :: "(account_id_type \<times> int) list"
  co_is_blocked :: bool
  co_hash :: opaque
  co_AVG_rating :: nat
  co_num_of_ratings :: nat
  co_times_bought :: nat
  co_publishing_fee_escrow :: asset
  co_cd :: "opaque option"

record buying_object =
  bo_consumer :: account_id_type
  bo_URI :: string
  bo_size :: nat
  bo_rating :: nat
  bo_comment :: string
  bo_price :: asset
  bo_paid_price_before_exchange :: asset
  bo_paid_price_after_exchange :: asset
  bo_synopsis :: string
  bo_seeders_answered :: "account_id_type list"
  bo_key_particles :: "opaque list"
  bo_pubKey :: opaque
  bo_expiration_time :: time_point_sec
  bo_expired :: bool
  bo_delivered :: bool
  bo_expiration_or_delivery_time :: time_point_sec
  bo_rated_or_commented :: bool
  bo_created :: time_point_sec
  bo_region_code_from :: nat

definition bo_is_open :: "buying_object \<Rightarrow> bool" where
  "bo_is_open b = (\<not> (bo_expired b \<or> bo_delivered b))"

record seeder_object =
  se_seeder :: account_id_type
  se_free_space :: nat
  se_price :: asset
  se_expiration :: time_point_sec
  se_pubKey :: opaque
  se_ipfs_ID :: string
  se_stats :: nat
  se_rating :: nat
  se_region_code :: string

record seeding_statistics_object =
  ss_seeder :: account_id_type
  ss_total_upload :: nat
  ss_missed_delivered_keys :: nat
  ss_total_delivered_keys :: nat
  ss_total_content_seeded :: nat
  ss_num_of_content_seeded :: nat
  ss_total_content_requested_to_seed :: nat
  ss_num_of_pors :: nat
  ss_uploaded_till_last_maint :: nat
  ss_avg_buying_ratio :: nat
  ss_seeding_rel_ratio :: nat
  ss_seeding_abs_ratio :: nat
  ss_missed_ratio :: nat

section \<open>Non-fungible tokens\<close>

text \<open>
  The two enumerations are kept as their codes: what is read from the wire may be out of their
  range, which \<open>validate\<close> refuses. Values are \<open>fc::variant\<close>s, opaque here.
\<close>

definition nft_nobody :: nat where "nft_nobody = 0"
definition nft_issuer :: nat where "nft_issuer = 1"
definition nft_owner :: nat where "nft_owner = 2"
definition nft_both :: nat where "nft_both = 3"

definition nft_string :: nat where "nft_string = 0"
definition nft_integer :: nat where "nft_integer = 1"
definition nft_boolean :: nat where "nft_boolean = 2"

record non_fungible_token_data_type =
  nd_unique :: bool
  nd_modifiable :: nat
  nd_type :: nat
  nd_name :: "string option"

record non_fungible_token_options =
  no_issuer :: account_id_type
  no_max_supply :: nat
  no_fixed_max_supply :: bool
  no_description :: string

record non_fungible_token_object =
  nft_symbol :: string
  nft_options :: non_fungible_token_options
  nft_definitions :: "non_fungible_token_data_type list"
  nft_transferable :: bool
  nft_current_supply :: nat

record non_fungible_token_data_object =
  nfd_nft_id :: nat
  nfd_owner :: account_id_type
  nfd_data :: "opaque list"

section \<open>Global properties\<close>

record chain_parameters =
  block_interval :: nat
  maintenance_interval :: nat
  maintenance_skip_slots :: nat
  miner_proposal_review_period :: nat
  maximum_miner_count :: nat
  miner_pay_vesting_seconds :: nat
  maximum_transaction_size :: nat
  maximum_block_size :: nat
  maximum_time_until_expiration :: nat
  maximum_proposal_lifetime :: nat
  maximum_asset_feed_publishers :: nat
  maximum_authority_membership :: nat
  max_predicate_opcode :: nat
  max_authority_depth :: nat

record global_property_object =
  parameters :: chain_parameters
  pending_parameters :: "chain_parameters option"
  next_available_vote_id :: nat
  active_miners :: "nat list"

text \<open>
  A block id is the number in its first 32 bits and the rest of the hash; the null id is zero.
\<close>

datatype block_id_type = Block_Id (bid_num: nat) (bid_hash: opaque)

definition null_block_id :: block_id_type where
  "null_block_id = Block_Id 0 0"

record dynamic_global_property_object =
  head_block_number :: nat
  head_block_id :: block_id_type
  dg_time :: time_point_sec
  current_miner :: nat
  next_maintenance_time :: time_point_sec
  last_budget_time :: time_point_sec
  miner_budget_from_fees :: int
  unspent_fee_budget :: int
  mined_rewards :: int
  miner_budget_from_rewards :: int
  accounts_registered_this_interval :: nat
  recently_missed_count :: nat
  current_aslot :: nat
  recent_slots_filled :: "128 word"
  dynamic_flags :: nat
  last_irreversible_block_num :: nat

record miner_schedule_object =
  current_shuffled_miners :: "nat list"

record chain_property_object =
  min_miner_count :: nat

record real_supply =
  rs_account_balances :: int
  rs_vesting_balances :: int
  rs_escrows :: int
  rs_pools :: int

record budget_record =
  br_time_since_last_budget :: nat
  br_from_initial_reserve :: int
  br_from_accumulated_fees :: int
  br_planned_for_mining :: int
  br_generated_in_last_interval :: int
  br_supply_delta :: int
  br_real_supply :: real_supply
  br_next_maintenance_time :: time_point_sec
  br_block_interval :: nat

record budget_record_object =
  bro_time :: time_point_sec
  bro_record :: budget_record

section \<open>The state of the chain\<close>

record chain =
  accounts :: "account_object table"
  account_stats :: "account_statistics_object table"
  balances :: "account_balance_object table"
  assets :: "asset_object table"
  asset_dyn :: "asset_dynamic_data_object table"
  vestings :: "vesting_balance_object table"
  miners :: "miner_object table"
  withdraw_permissions :: "withdraw_permission_object table"
  subscriptions :: "subscription_object table"
  details :: "transaction_detail_object table"
  contents :: "content_object table"
  buyings :: "buying_object table"
  seeders :: "seeder_object table"
  seeding_stats :: "seeding_statistics_object table"
  budget_records :: "budget_record_object table"
  nfts :: "non_fungible_token_object table"
  nft_data :: "non_fungible_token_data_object table"
  gpo :: global_property_object
  dgpo :: dynamic_global_property_object
  schedule :: miner_schedule_object
  cpo :: chain_property_object

text \<open>The unique keys of the containers.\<close>

definition balance_key :: "account_balance_object \<Rightarrow> account_balance_object \<Rightarrow> bool" where
  "balance_key x y \<longleftrightarrow> bal_owner x = bal_owner y \<and> bal_asset x = bal_asset y"

definition asset_key :: "asset_object \<Rightarrow> asset_object \<Rightarrow> bool" where
  "asset_key x y \<longleftrightarrow> symbol x = symbol y"

definition account_key :: "account_object \<Rightarrow> account_object \<Rightarrow> bool" where
  "account_key x y \<longleftrightarrow> acc_name x = acc_name y"

definition miner_key :: "miner_object \<Rightarrow> miner_object \<Rightarrow> bool" where
  "miner_key x y \<longleftrightarrow> miner_account x = miner_account y \<or> vote_id x = vote_id y"

definition subscription_key :: "subscription_object \<Rightarrow> subscription_object \<Rightarrow> bool" where
  "subscription_key x y \<longleftrightarrow> sub_from x = sub_from y \<and> sub_to x = sub_to y"

definition content_key :: "content_object \<Rightarrow> content_object \<Rightarrow> bool" where
  "content_key x y \<longleftrightarrow> co_URI x = co_URI y"

definition buying_key :: "buying_object \<Rightarrow> buying_object \<Rightarrow> bool" where
  "buying_key x y \<longleftrightarrow> bo_URI x = bo_URI y \<and> bo_consumer x = bo_consumer y"

definition seeder_key :: "seeder_object \<Rightarrow> seeder_object \<Rightarrow> bool" where
  "seeder_key x y \<longleftrightarrow> se_seeder x = se_seeder y"

definition stats_key :: "seeding_statistics_object \<Rightarrow> seeding_statistics_object \<Rightarrow> bool" where
  "stats_key x y \<longleftrightarrow> ss_seeder x = ss_seeder y"

definition budget_key :: "budget_record_object \<Rightarrow> budget_record_object \<Rightarrow> bool" where
  "budget_key x y \<longleftrightarrow> bro_time x = bro_time y"

definition nft_key :: "non_fungible_token_object \<Rightarrow> non_fungible_token_object \<Rightarrow> bool" where
  "nft_key x y \<longleftrightarrow> nft_symbol x = nft_symbol y"

definition head_block_time :: "chain \<Rightarrow> time_point_sec" where
  "head_block_time c = dg_time (dgpo c)"

text \<open>
  The hardfork times of \<open>hardfork.cpp\<close>, a global array the code reads; the operations that
  depend on it take it as an argument.
\<close>

record fork_times_t =
  hf1 :: time_point_sec
  hf2 :: time_point_sec
  hf3 :: time_point_sec
  hf4 :: time_point_sec

definition fork_times :: fork_times_t where
  "fork_times = \<lparr>hf1 = 1510142400, hf2 = 1524470400, hf3 = 1536825600, hf4 = 1562832000\<rparr>"

definition get_account :: "chain \<Rightarrow> account_id_type \<Rightarrow> account_object res" where
  "get_account c k = t_get (accounts c) k"

definition get_asset :: "chain \<Rightarrow> asset_id_type \<Rightarrow> asset_object res" where
  "get_asset c k = t_get (assets c) k"

definition get_dyn :: "chain \<Rightarrow> asset_object \<Rightarrow> asset_dynamic_data_object res" where
  "get_dyn c a = t_get (asset_dyn c) (dynamic_asset_data_id a)"

definition modify_dyn ::
  "asset_object \<Rightarrow> (asset_dynamic_data_object \<Rightarrow> asset_dynamic_data_object res) \<Rightarrow> chain \<Rightarrow> chain res" where
  "modify_dyn a f c =
     bindE (t_modify no_unique (dynamic_asset_data_id a) f (asset_dyn c)) (\<lambda>t. Inr (c\<lparr>asset_dyn := t\<rparr>))"

definition add_detail :: "transaction_detail_object \<Rightarrow> chain \<Rightarrow> chain res" where
  "add_detail d c = bindE (t_create no_unique d (details c)) (\<lambda>t. Inr (c\<lparr>details := t\<rparr>))"

text \<open>Every table satisfies the invariant of its index.\<close>

definition tables_ok :: "chain \<Rightarrow> bool" where
  "tables_ok c \<longleftrightarrow> t_ok (accounts c) \<and> t_ok (account_stats c) \<and> t_ok (balances c) \<and> t_ok (assets c) \<and>
     t_ok (asset_dyn c) \<and> t_ok (vestings c) \<and> t_ok (miners c) \<and> t_ok (withdraw_permissions c) \<and>
     t_ok (subscriptions c) \<and> t_ok (details c) \<and> t_ok (contents c) \<and> t_ok (buyings c) \<and>
     t_ok (seeders c) \<and> t_ok (seeding_stats c) \<and> t_ok (budget_records c) \<and> t_ok (nfts c) \<and> t_ok (nft_data c)"

end
