(* ===== verification/Secondary_Index.thy ===== *)
theory Secondary_Index
  imports Chain_State
begin

text \<open>
  Secondary indexes (\<open>db/index.hpp\<close>): \<open>primary\_index\<close> tells every secondary index about the objects it
  creates, modifies and removes. The locale \<open>secondary\_index\<close> is the contract of a secondary index; the
  index of \<open>account\_object.cpp\<close> from keys and accounts to the accounts whose authorities name them keeps
  it, and the consequences for the primary index are proved once.
\<close>

section \<open>primary\_index\<close>

text \<open>The virtual functions of a secondary index over objects \<open>'o\<close>, with its state \<open>'i\<close>.\<close>

record ('o, 'i) secondary =
  object_inserted :: "nat \<Rightarrow> 'o \<Rightarrow> 'i \<Rightarrow> 'i"
  object_removed :: "nat \<Rightarrow> 'o \<Rightarrow> 'i \<Rightarrow> 'i"
  about_to_modify :: "nat \<Rightarrow> 'o \<Rightarrow> 'i \<Rightarrow> 'i"
  object_modified :: "nat \<Rightarrow> 'o \<Rightarrow> 'i \<Rightarrow> 'i"

definition primary_create ::
  "('o, 'i) secondary \<Rightarrow> ('o \<Rightarrow> 'o \<Rightarrow> bool) \<Rightarrow> 'o \<Rightarrow> 'o table \<times> 'i \<Rightarrow> ('o table \<times> 'i) res" where
  "primary_create X clash x p =
     bindE (t_create clash x (fst p)) (\<lambda>t. Inr (t, object_inserted X (g_next_id (fst p)) x (snd p)))"

definition primary_remove :: "('o, 'i) secondary \<Rightarrow> nat \<Rightarrow> 'o table \<times> 'i \<Rightarrow> ('o table \<times> 'i) res" where
  "primary_remove X k p =
     bindE (t_get (fst p) k) (\<lambda>x. Inr (t_remove k (fst p), object_removed X k x (snd p)))"

definition primary_modify ::
  "('o, 'i) secondary \<Rightarrow> ('o \<Rightarrow> 'o \<Rightarrow> bool) \<Rightarrow> nat \<Rightarrow> ('o \<Rightarrow> 'o res) \<Rightarrow> 'o table \<times> 'i \<Rightarrow> ('o table \<times> 'i) res" where
  "primary_modify X clash k f p =
     bindE (t_get (fst p) k) (\<lambda>x.
     bindE (t_modify clash k f (fst p)) (\<lambda>t.
     bindE (t_get t k) (\<lambda>y.
     Inr (t, object_modified X k y (about_to_modify X k x (snd p))))))"

text \<open>
  \<open>load\<close> tells the secondary indexes; \<open>insert\<close>, by which the undo database puts a removed object
  back, is that of the container and does not.
\<close>

definition primary_load ::
  "('o, 'i) secondary \<Rightarrow> ('o \<Rightarrow> 'o \<Rightarrow> bool) \<Rightarrow> nat \<Rightarrow> 'o \<Rightarrow> 'o table \<times> 'i \<Rightarrow> ('o table \<times> 'i) res" where
  "primary_load X clash k x p =
     bindE (generic_insert clash k x (fst p)) (\<lambda>t. Inr (t, object_inserted X k x (snd p)))"

definition primary_insert :: "('o \<Rightarrow> 'o \<Rightarrow> bool) \<Rightarrow> nat \<Rightarrow> 'o \<Rightarrow> 'o table \<times> 'i \<Rightarrow> ('o table \<times> 'i) res" where
  "primary_insert clash k x p = bindE (generic_insert clash k x (fst p)) (\<lambda>t. Inr (t, snd p))"

section \<open>The contract of a secondary index\<close>

text \<open>
  \<open>tracks m i\<close>: the state \<open>i\<close> of the index is right for the objects \<open>m\<close>. \<open>fresh\<close> and \<open>keeps\<close> are what
  the index relies on for the objects created and the modifications made.
\<close>

locale secondary_index =
  fixes X :: "('o, 'i) secondary"
    and tracks :: "(nat \<Rightarrow> 'o option) \<Rightarrow> 'i \<Rightarrow> bool"
    and fresh :: "'o \<Rightarrow> bool"
    and keeps :: "'o \<Rightarrow> 'o \<Rightarrow> bool"
  assumes inserted_law: "tracks m i \<Longrightarrow> m k = None \<Longrightarrow> fresh x \<Longrightarrow> tracks (m(k \<mapsto> x)) (object_inserted X k x i)"
    and removed_law: "tracks m i \<Longrightarrow> m k = Some x \<Longrightarrow> tracks (m(k := None)) (object_removed X k x i)"
    and modified_law: "tracks m i \<Longrightarrow> m k = Some x \<Longrightarrow> keeps x y \<Longrightarrow>
      tracks (m(k \<mapsto> y)) (object_modified X k y (about_to_modify X k x i))"
begin

definition in_sync :: "'o table \<times> 'i \<Rightarrow> bool" where
  "in_sync p \<longleftrightarrow> t_ok (fst p) \<and> tracks (generic_find (fst p)) (snd p)"

lemma create_in_sync:
  assumes "in_sync p" and "fresh x" and "primary_create X clash x p = Inr q"
  shows "in_sync q"
proof -
  from assms(3) obtain t where t: "t_create clash x (fst p) = Inr t" and q: "q = (t, object_inserted X (g_next_id (fst p)) x (snd p))"
    by (auto simp: primary_create_def)
  have ok: "t_ok (fst p)" using assms(1) by (simp add: in_sync_def)
  have "generic_find (fst p) (g_next_id (fst p)) = None" by (rule generic_fresh [OF ok]) simp
  then show ?thesis
    using t_create_law [OF ok t] inserted_law [OF _ _ assms(2)] assms(1) by (simp add: in_sync_def q)
qed

lemma remove_in_sync:
  assumes "in_sync p" and "primary_remove X k p = Inr q"
  shows "in_sync q"
  using assms t_remove_law [of "fst p" k] removed_law by (auto simp: primary_remove_def in_sync_def)

lemma modify_in_sync:
  assumes "in_sync p" and "primary_modify X clash k f p = Inr q"
    and "\<And>x y. generic_find (fst p) k = Some x \<Longrightarrow> f x = Inr y \<Longrightarrow> keeps x y"
  shows "in_sync q"
proof -
  from assms(2) obtain x t y where x: "generic_find (fst p) k = Some x" and t: "t_modify clash k f (fst p) = Inr t"
    and y: "generic_find t k = Some y" and q: "q = (t, object_modified X k y (about_to_modify X k x (snd p)))"
    by (auto simp: primary_modify_def)
  have ok: "t_ok (fst p)" using assms(1) by (simp add: in_sync_def)
  show ?thesis
    by (rule t_modify_law [OF ok t])
      (use modified_law [of _ _ k x y] assms(1,3) x y q in \<open>auto simp: in_sync_def\<close>)
qed

end

text \<open>What a run of the primary index keeps.\<close>

inductive primary_run ::
  "('o, 'i) secondary \<Rightarrow> ('o \<Rightarrow> 'o \<Rightarrow> bool) \<Rightarrow> ('o \<Rightarrow> bool) \<Rightarrow> ('o \<Rightarrow> 'o \<Rightarrow> bool) \<Rightarrow> 'o table \<times> 'i \<Rightarrow> 'o table \<times> 'i \<Rightarrow> bool"
  for X clash fresh keeps p where
  primary_start: "primary_run X clash fresh keeps p p"
| primary_step_create: "primary_run X clash fresh keeps p q \<Longrightarrow> fresh x \<Longrightarrow> primary_create X clash x q = Inr q' \<Longrightarrow>
    primary_run X clash fresh keeps p q'"
| primary_step_modify: "primary_run X clash fresh keeps p q \<Longrightarrow> primary_modify X clash k f q = Inr q' \<Longrightarrow>
    (\<forall>x y. generic_find (fst q) k = Some x \<longrightarrow> f x = Inr y \<longrightarrow> keeps x y) \<Longrightarrow> primary_run X clash fresh keeps p q'"
| primary_step_remove: "primary_run X clash fresh keeps p q \<Longrightarrow> primary_remove X k q = Inr q' \<Longrightarrow> primary_run X clash fresh keeps p q'"

context secondary_index
begin

lemma run_in_sync: "primary_run X clash fresh keeps p q \<Longrightarrow> in_sync p \<Longrightarrow> in_sync q"
  by (induction rule: primary_run.induct) (blast intro: create_in_sync modify_in_sync remove_in_sync)+

end

section \<open>account\_member\_index\<close>

text \<open>The maps default to the empty set, as \<open>operator[]\<close> of \<open>std::map\<close> does; sets are lists without repetition.\<close>

record account_member_index =
  account_to_account_memberships :: "account_id_type \<Rightarrow> account_id_type set"
  account_to_key_memberships :: "opaque \<Rightarrow> account_id_type set"
  before_account_members :: "account_id_type list"
  before_key_members :: "opaque list"

definition null_key :: opaque where "null_key = 0"

definition get_account_members :: "account_object \<Rightarrow> account_id_type list" where
  "get_account_members a = remdups (map fst (account_auths (acc_owner a)) @ map fst (account_auths (acc_active a)))"

definition get_key_members :: "account_object \<Rightarrow> opaque list" where
  "get_key_members a = remdups (map fst (key_auths (acc_owner a)) @ map fst (key_auths (acc_active a)) @
     (if memo_key (acc_options a) \<noteq> null_key then [memo_key (acc_options a)] else []))"

definition insert_members :: "nat \<Rightarrow> 'k list \<Rightarrow> ('k \<Rightarrow> nat set) \<Rightarrow> 'k \<Rightarrow> nat set" where
  "insert_members k xs m = fold (\<lambda>x m. m(x := insert k (m x))) xs m"

definition erase_members :: "nat \<Rightarrow> 'k list \<Rightarrow> ('k \<Rightarrow> nat set) \<Rightarrow> 'k \<Rightarrow> nat set" where
  "erase_members k xs m = fold (\<lambda>x m. m(x := m x - {k})) xs m"

definition set_difference :: "'k list \<Rightarrow> 'k list \<Rightarrow> 'k list" where
  "set_difference xs ys = filter (\<lambda>x. x \<notin> set ys) xs"

definition member_object_inserted :: "nat \<Rightarrow> account_object \<Rightarrow> account_member_index \<Rightarrow> account_member_index" where
  "member_object_inserted k a i =
     i\<lparr>account_to_account_memberships := insert_members k (get_account_members a) (account_to_account_memberships i),
       account_to_key_memberships := insert_members k (get_key_members a) (account_to_key_memberships i)\<rparr>"

definition member_object_removed :: "nat \<Rightarrow> account_object \<Rightarrow> account_member_index \<Rightarrow> account_member_index" where
  "member_object_removed k a i =
     i\<lparr>account_to_key_memberships := erase_members k (get_key_members a) (account_to_key_memberships i),
       account_to_account_memberships := erase_members k (get_account_members a) (account_to_account_memberships i)\<rparr>"

definition member_about_to_modify :: "nat \<Rightarrow> account_object \<Rightarrow> account_member_index \<Rightarrow> account_member_index" where
  "member_about_to_modify k a i = i\<lparr>before_key_members := get_key_members a, before_account_members := get_account_members a\<rparr>"

definition member_object_modified :: "nat \<Rightarrow> account_object \<Rightarrow> account_member_index \<Rightarrow> account_member_index" where
  "member_object_modified k a i =
     (let after_account_members = get_account_members a; after_key_members = get_key_members a;
          accs = insert_members k (set_difference after_account_members (before_account_members i))
            (erase_members k (set_difference (before_account_members i) after_account_members) (account_to_account_memberships i));
          keys = insert_members k (set_difference after_key_members (before_key_members i))
            (erase_members k (set_difference (before_key_members i) after_key_members) (account_to_key_memberships i))
      in i\<lparr>account_to_account_memberships := accs, account_to_key_memberships := keys\<rparr>)"

definition member_secondary :: "(account_object, account_member_index) secondary" where
  "member_secondary = \<lparr>object_inserted = member_object_inserted, object_removed = member_object_removed,
     about_to_modify = member_about_to_modify, object_modified = member_object_modified\<rparr>"

lemma insert_members_law: "insert_members k xs m x = (if x \<in> set xs then insert k (m x) else m x)"
  unfolding insert_members_def by (induction xs arbitrary: m) auto

lemma erase_members_law: "erase_members k xs m x = (if x \<in> set xs then m x - {k} else m x)"
  unfolding erase_members_def by (induction xs arbitrary: m) auto

text \<open>A map of memberships is right when it lists exactly the objects that have the member.\<close>

definition lists_members :: "('o \<Rightarrow> 'k list) \<Rightarrow> (nat \<Rightarrow> 'o option) \<Rightarrow> ('k \<Rightarrow> nat set) \<Rightarrow> bool" where
  "lists_members mem m idx \<longleftrightarrow> (\<forall>x k. k \<in> idx x \<longleftrightarrow> (\<exists>a. m k = Some a \<and> x \<in> set (mem a)))"

lemma lists_members_insert:
  "lists_members mem m idx \<Longrightarrow> m k = None \<Longrightarrow> lists_members mem (m(k \<mapsto> a)) (insert_members k (mem a) idx)"
  by (auto simp: lists_members_def insert_members_law)

lemma lists_members_erase:
  "lists_members mem m idx \<Longrightarrow> m k = Some a \<Longrightarrow> lists_members mem (m(k := None)) (erase_members k (mem a) idx)"
  by (auto simp: lists_members_def erase_members_law)

lemma lists_members_modify:
  "lists_members mem m idx \<Longrightarrow> m k = Some a \<Longrightarrow> lists_members mem (m(k \<mapsto> b))
     (insert_members k (set_difference (mem b) (mem a)) (erase_members k (set_difference (mem a) (mem b)) idx))"
  by (auto simp: lists_members_def insert_members_law erase_members_law set_difference_def)

definition members_tracked :: "(nat \<Rightarrow> account_object option) \<Rightarrow> account_member_index \<Rightarrow> bool" where
  "members_tracked m i \<longleftrightarrow> lists_members get_account_members m (account_to_account_memberships i) \<and>
     lists_members get_key_members m (account_to_key_memberships i)"

definition any_account :: "account_object \<Rightarrow> bool" where "any_account a = True"
definition any_change :: "account_object \<Rightarrow> account_object \<Rightarrow> bool" where "any_change a b = True"

interpretation member: secondary_index member_secondary members_tracked any_account any_change
proof
  show "members_tracked m i \<Longrightarrow> m k = None \<Longrightarrow> members_tracked (m(k \<mapsto> x)) (object_inserted member_secondary k x i)" for m i k x
    by (simp add: members_tracked_def member_secondary_def member_object_inserted_def lists_members_insert)
  show "members_tracked m i \<Longrightarrow> m k = Some x \<Longrightarrow> members_tracked (m(k := None)) (object_removed member_secondary k x i)" for m i k x
    by (simp add: members_tracked_def member_secondary_def member_object_removed_def lists_members_erase)
  show "members_tracked m i \<Longrightarrow> m k = Some x \<Longrightarrow>
      members_tracked (m(k \<mapsto> y)) (object_modified member_secondary k y (about_to_modify member_secondary k x i))" for m i k x y
    by (simp add: members_tracked_def member_secondary_def member_object_modified_def member_about_to_modify_def lists_members_modify Let_def)
qed

definition empty_member_index :: account_member_index where
  "empty_member_index = \<lparr>account_to_account_memberships = (\<lambda>x. {}), account_to_key_memberships = (\<lambda>x. {}),
     before_account_members = [], before_key_members = []\<rparr>"

section \<open>Properties\<close>

text \<open>
  C34. Reverse lookup of authorities: whatever objects are created, modified and removed, the index finds
  for every account exactly the accounts whose owner or active authority names it, and for every key
  exactly the accounts that list it in an authority or as their memo key.
\<close>

theorem member_index_exact:
  assumes "primary_run member_secondary account_key any_account any_change (t_empty, empty_member_index) (t, i)"
  shows "(k \<in> account_to_account_memberships i x \<longleftrightarrow>
      (\<exists>a. generic_find t k = Some a \<and> x \<in> fst ` set (account_auths (acc_owner a)) \<union> fst ` set (account_auths (acc_active a)))) \<and>
    (k \<in> account_to_key_memberships i y \<longleftrightarrow>
      (\<exists>a. generic_find t k = Some a \<and> (y \<in> fst ` set (key_auths (acc_owner a)) \<union> fst ` set (key_auths (acc_active a)) \<or>
         y = memo_key (acc_options a) \<and> y \<noteq> null_key)))"
proof -
  have "member.in_sync (t_empty, empty_member_index)"
    by (simp add: member.in_sync_def members_tracked_def lists_members_def empty_member_index_def t_empty_def generic_find_def
        generic_invar_def)
  from member.run_in_sync [OF assms this] have "members_tracked (generic_find t) i" by (simp add: member.in_sync_def)
  then show ?thesis by (auto simp: members_tracked_def lists_members_def get_account_members_def get_key_members_def)
qed

definition demo_member :: account_object where
  "demo_member = \<lparr>registrar = 0, acc_name = ''alice'', acc_owner = \<lparr>weight_threshold = 1, account_auths = [], key_auths = [(7, 1)]\<rparr>,
     acc_active = \<lparr>weight_threshold = 1, account_auths = [(4, 1)], key_auths = []\<rparr>,
     acc_options = \<lparr>memo_key = 0, voting_account = 3, num_miner = 0, votes = [], allow_subscription = False,
       price_per_subscribe = mk_asset 0 0, subscription_period = 0\<rparr>,
     rights_to_publish = \<lparr>is_publishing_manager = False, publishing_rights_received = [], publishing_rights_forwarded = []\<rparr>,
     statistics = 0, top_n_control_flags = 0\<rparr>"

theorem member_index_exact_witness:
  "\<exists>t i. primary_create member_secondary account_key demo_member (t_empty, empty_member_index) = Inr (t, i) \<and>
     0 \<in> account_to_key_memberships i 7 \<and> 0 \<notin> account_to_key_memberships i 8"
proof -
  obtain t i where r: "primary_create member_secondary account_key demo_member (t_empty, empty_member_index) = Inr (t, i)"
    and g: "generic_find t 0 = Some demo_member"
    by (simp add: primary_create_def t_create_def generic_create_def t_empty_def violates_unique_def generic_find_def Let_def)
  have "primary_run member_secondary account_key any_account any_change (t_empty, empty_member_index) (t, i)"
    by (rule primary_step_create [OF primary_start _ r]) (simp add: any_account_def)
  from member_index_exact [OF this, of 0 0 7] member_index_exact [OF this, of 0 0 8] r g
  show ?thesis by (auto simp: demo_member_def null_key_def)
qed

text \<open>
  Putting a removed object back, as the undo of its removal does, does not reach the secondary
  indexes: the account is there again, and the index no longer finds it.
\<close>

theorem reinserted_object_not_indexed:
  "\<exists>t i t1 i1 i2. primary_create member_secondary account_key demo_member (t_empty, empty_member_index) = Inr (t, i) \<and>
     primary_remove member_secondary 0 (t, i) = Inr (t1, i1) \<and> primary_insert account_key 0 demo_member (t1, i1) = Inr (t, i2) \<and>
     0 \<in> account_to_key_memberships i 7 \<and> generic_find t 0 = Some demo_member \<and> 0 \<notin> account_to_key_memberships i2 7"
  by (simp add: primary_create_def primary_remove_def primary_insert_def t_create_def generic_create_def t_empty_def t_get_def t_remove_def
      generic_remove_def generic_insert_def violates_unique_def generic_find_def del_row_def Let_def member_secondary_def
      member_object_inserted_def member_object_removed_def insert_members_law erase_members_law get_key_members_def demo_member_def
      empty_member_index_def)

end
