(* ===== verification/Balance.thy ===== *)
theory Balance
  imports Chain_State
begin

text \<open>
  \<open>db\_balance.cpp\<close>: reading and adjusting account balances, miner pay into vesting balances,
  prices in core asset, and which assets can be exchanged. The locale \<open>ledger\<close> is the contract
  the evaluators rely on: an adjustment changes one balance by exactly its amount, never below
  zero, and the total of the asset with it.
\<close>

section \<open>Operations\<close>

definition balance_of_row :: "account_balance_object \<Rightarrow> asset" where
  "balance_of_row b = mk_asset (bal_balance b) (bal_asset b)"

definition is_balance_of :: "account_id_type \<Rightarrow> asset_id_type \<Rightarrow> account_balance_object \<Rightarrow> bool" where
  "is_balance_of owner a b \<longleftrightarrow> bal_owner b = owner \<and> bal_asset b = a"

definition get_balance :: "chain \<Rightarrow> account_id_type \<Rightarrow> asset_id_type \<Rightarrow> asset" where
  "get_balance c owner a =
     (case t_find_by (is_balance_of owner a) (balances c) of
        None \<Rightarrow> mk_asset 0 a
      | Some (k, b) \<Rightarrow> balance_of_row b)"

definition row_adjust_balance :: "safe \<Rightarrow> asset \<Rightarrow> account_balance_object \<Rightarrow> account_balance_object res" where
  "row_adjust_balance S delta b =
     bindE (S (bal_balance b + amount delta)) (\<lambda>n. Inr (b\<lparr>bal_balance := n\<rparr>))"

definition adjust_balance :: "safe \<Rightarrow> account_id_type \<Rightarrow> asset \<Rightarrow> chain \<Rightarrow> chain res" where
  "adjust_balance S account delta c =
     (if amount delta = 0 then Inr c
      else case t_find_by (is_balance_of account (asset_id delta)) (balances c) of
        None \<Rightarrow>
          bindE (require (0 < amount delta) Assert_Exception) (\<lambda>_.
          bindE (t_create balance_key
                   \<lparr>bal_owner = account, bal_asset = asset_id delta, bal_balance = amount delta\<rparr> (balances c)) (\<lambda>t.
          Inr (c\<lparr>balances := t\<rparr>)))
      | Some (k, b) \<Rightarrow>
          bindE (if amount delta < 0
                 then bindE (asset_neg S delta) (\<lambda>needed.
                      bindE (asset_less (balance_of_row b) needed) (\<lambda>less.
                      require (\<not> less) Assert_Exception))
                 else Inr ()) (\<lambda>_.
          bindE (t_modify balance_key k (row_adjust_balance S delta) (balances c)) (\<lambda>t.
          Inr (c\<lparr>balances := t\<rparr>))))"

text \<open>
  \<open>deposit_lazy_vesting\<close>: the amount goes into the vesting balance given, if it is a cdd balance
  of the right owner and period, otherwise into a new one, whose id is returned. Without
  \<open>require\_vesting\<close> the coin-seconds are earned at once; that product is computed in 64 bits.
\<close>

definition new_lazy_vesting :: "int \<Rightarrow> nat \<Rightarrow> account_id_type \<Rightarrow> bool \<Rightarrow> time_point_sec \<Rightarrow> vesting_balance_object" where
  "new_lazy_vesting amt req_vesting_seconds req_owner require_vesting now =
     \<lparr>vb_owner = req_owner, vb_balance = mk_asset amt 0,
      vb_policy = Cdd \<lparr>vesting_seconds = req_vesting_seconds,
        FFF_seconds_earned = (if require_vesting then 0
          else u128 (sint (word_of_int (amt * int req_vesting_seconds) :: 64 word))),
        start_claim = 0, FFF_seconds_earned_last_update = now\<rparr>\<rparr>"

definition lazy_target :: "vesting_balance_object table \<Rightarrow> nat option \<Rightarrow> account_id_type \<Rightarrow> nat \<Rightarrow> nat option res" where
  "lazy_target vbs ovbid req_owner req_vesting_seconds =
     (case ovbid of
        None \<Rightarrow> Inr None
      | Some k \<Rightarrow>
          bindE (t_get vbs k) (\<lambda>vbo.
          Inr (if vb_owner vbo \<noteq> req_owner then None
               else case vb_policy vbo of
                 Linear p \<Rightarrow> None
               | Cdd p \<Rightarrow> if vesting_seconds p \<noteq> req_vesting_seconds then None else Some k)))"

definition deposit_lazy_vesting ::
  "safe \<Rightarrow> nat option \<Rightarrow> int \<Rightarrow> nat \<Rightarrow> account_id_type \<Rightarrow> bool \<Rightarrow> chain \<Rightarrow> (nat option \<times> chain) res" where
  "deposit_lazy_vesting S ovbid amt req_vesting_seconds req_owner require_vesting c =
     (if amt = 0 then Inr (None, c)
      else
        let now = head_block_time c
        in bindE (lazy_target (vestings c) ovbid req_owner req_vesting_seconds) (\<lambda>target.
           case target of
             Some k \<Rightarrow>
               bindE (t_modify no_unique k
                        (\<lambda>vb. if require_vesting then vb_deposit S now (mk_asset amt 0) vb
                              else vb_deposit_vested S now (mk_asset amt 0) vb) (vestings c)) (\<lambda>t.
               Inr (None, c\<lparr>vestings := t\<rparr>))
           | None \<Rightarrow>
               bindE (t_create no_unique
                        (new_lazy_vesting amt req_vesting_seconds req_owner require_vesting now) (vestings c)) (\<lambda>t.
               Inr (Some (g_next_id (vestings c)), c\<lparr>vestings := t\<rparr>))))"

definition deposit_miner_pay :: "safe \<Rightarrow> nat \<Rightarrow> int \<Rightarrow> chain \<Rightarrow> chain res" where
  "deposit_miner_pay S miner amt c =
     (if amt = 0 then Inr c
      else
        bindE (t_get (miners c) miner) (\<lambda>wit.
        bindE (deposit_lazy_vesting S (pay_vb wit) amt (miner_pay_vesting_seconds (parameters (gpo c)))
                 (miner_account wit) True c) (\<lambda>(new_vbid, c').
        case new_vbid of
          None \<Rightarrow> Inr c'
        | Some v \<Rightarrow>
            bindE (t_modify miner_key miner (\<lambda>m. Inr (m\<lparr>pay_vb := Some v\<rparr>)) (miners c')) (\<lambda>t.
            Inr (c'\<lparr>miners := t\<rparr>)))))"

definition price_to_dct :: "chain \<Rightarrow> asset \<Rightarrow> asset res" where
  "price_to_dct c p =
     (if asset_id p = 0 then Inr p
      else
        bindE (get_asset c (asset_id p)) (\<lambda>ao.
        bindE (case monitored_asset_opts ao of
                 Some mo \<Rightarrow>
                   bindE (require (\<not> price_is_null (feed_rate (current_feed mo))) Assert_Exception) (\<lambda>_.
                   Inr (feed_rate (current_feed mo)))
               | None \<Rightarrow> Inr (core_exchange_rate (options ao))) (\<lambda>exchange_rate.
        bindE (asset_times_price p exchange_rate) (\<lambda>price_in_dct.
        bindE (require (asset_id price_in_dct = 0) Assert_Exception) (\<lambda>_.
        Inr price_in_dct)))))"

definition are_assets_exchangeable :: "asset_id_type \<Rightarrow> asset_object \<Rightarrow> asset_id_type \<Rightarrow> asset_object \<Rightarrow> bool" where
  "are_assets_exchangeable payment_id payment price_id price' =
     (if is_monitored_asset payment then False
      else if payment_id = price_id then True
      else if \<not> is_monitored_asset price' \<and> payment_id \<noteq> 0 \<and> price_id \<noteq> 0 then False
      else if is_exchangeable (options payment) \<and> is_exchangeable (options price') then True
      else False)"

section \<open>The ledger contract\<close>

locale ledger =
  fixes bal :: "'s \<Rightarrow> account_id_type \<Rightarrow> asset_id_type \<Rightarrow> int"
    and total :: "'s \<Rightarrow> asset_id_type \<Rightarrow> int"
    and adj :: "account_id_type \<Rightarrow> asset \<Rightarrow> 's \<Rightarrow> 's res"
    and ok :: "'s \<Rightarrow> bool"
  assumes nonneg_law: "ok s \<Longrightarrow> 0 \<le> bal s x a"
    and adj_ok: "ok s \<Longrightarrow> adj x d s = Inr s' \<Longrightarrow> ok s'"
    and adj_bal: "ok s \<Longrightarrow> adj x d s = Inr s' \<Longrightarrow>
      bal s' y a = bal s y a + (if y = x \<and> a = asset_id d then amount d else 0)"
    and adj_total: "ok s \<Longrightarrow> adj x d s = Inr s' \<Longrightarrow>
      total s' a = total s a + (if a = asset_id d then amount d else 0)"
begin

text \<open>What is taken from one account and given to another leaves every total unchanged.\<close>

lemma move_law:
  assumes "ok s" and "adj x (mk_asset (- n) a) s = Inr s1" and "adj y (mk_asset n a) s1 = Inr s2"
  shows "ok s2" and "total s2 b = total s b"
    and "bal s2 z b = bal s z b + (if b = a then (if z = y then n else 0) - (if z = x then n else 0) else 0)"
proof -
  have s1: "ok s1" using assms(1,2) by (rule adj_ok)
  show "ok s2" using s1 assms(3) by (rule adj_ok)
  show "total s2 b = total s b"
    using adj_total [OF assms(1,2)] adj_total [OF s1 assms(3)] by simp
  show "bal s2 z b = bal s z b + (if b = a then (if z = y then n else 0) - (if z = x then n else 0) else 0)"
    using adj_bal [OF assms(1,2)] adj_bal [OF s1 assms(3)] by auto
qed

text \<open>Nobody pays what he does not have.\<close>

lemma taken_le: "ok s \<Longrightarrow> adj x (mk_asset (- n) a) s = Inr s' \<Longrightarrow> n \<le> bal s x a"
  using adj_bal [of s x "mk_asset (- n) a" s' x a] nonneg_law [OF adj_ok, of s x "mk_asset (- n) a" s' x a]
  by simp

end

section \<open>adjust\_balance keeps it\<close>

definition balance_of :: "chain \<Rightarrow> account_id_type \<Rightarrow> asset_id_type \<Rightarrow> int" where
  "balance_of c x a = amount (get_balance c x a)"

definition in_asset :: "asset_id_type \<Rightarrow> account_balance_object \<Rightarrow> int" where
  "in_asset a b = (if bal_asset b = a then bal_balance b else 0)"

definition total_balance :: "chain \<Rightarrow> asset_id_type \<Rightarrow> int" where
  "total_balance c a = t_sum (in_asset a) (balances c)"

definition balances_ok :: "account_balance_object table \<Rightarrow> bool" where
  "balances_ok t \<longleftrightarrow> t_ok t \<and> keys_unique balance_key t \<and>
     (\<forall>k b. generic_find t k = Some b \<longrightarrow> 0 \<le> bal_balance b)"

lemma balance_key_sym: "balance_key u v \<Longrightarrow> balance_key v u"
  by (simp add: balance_key_def)

lemma balance_row_iff:
  assumes "balances_ok t"
  shows "t_find_by (is_balance_of x a) t = Some (k, b) \<longleftrightarrow> generic_find t k = Some b \<and> is_balance_of x a b"
  using assms by (intro t_find_by_unique [where clash = balance_key])
    (auto simp: balances_ok_def is_balance_of_def balance_key_def)

lemma balance_of_row_amount:
  assumes "balances_ok (balances c)" and "generic_find (balances c) k = Some b"
  shows "balance_of c (bal_owner b) (bal_asset b) = bal_balance b"
  using balance_row_iff [OF assms(1), of "bal_owner b" "bal_asset b" k b] assms(2)
  by (simp add: balance_of_def get_balance_def balance_of_row_def is_balance_of_def)

lemma balance_of_none:
  "t_find_by (is_balance_of x a) (balances c) = None \<Longrightarrow> balance_of c x a = 0"
  by (simp add: balance_of_def get_balance_def)

lemma balance_of_nonneg:
  assumes "balances_ok (balances c)"
  shows "0 \<le> balance_of c x a"
proof (cases "t_find_by (is_balance_of x a) (balances c)")
  case None
  then show ?thesis by (simp add: balance_of_none)
next
  case (Some p)
  then obtain k b where f: "t_find_by (is_balance_of x a) (balances c) = Some (k, b)" by (cases p) auto
  then have "generic_find (balances c) k = Some b" using balance_row_iff [OF assms] by blast
  then have "0 \<le> bal_balance b" using assms by (auto simp: balances_ok_def)
  then show ?thesis using f by (simp add: balance_of_def get_balance_def balance_of_row_def)
qed

text \<open>The balances after a row was stored: only that owner's balance of that asset changes.\<close>

lemma balance_of_store:
  assumes "balances_ok t" and "balances_ok t'" and "generic_find t' = (generic_find t)(k \<mapsto> b)"
    and "\<And>x. generic_find t k = Some x \<Longrightarrow> bal_owner x = bal_owner b \<and> bal_asset x = bal_asset b"
  shows "balance_of (c\<lparr>balances := t'\<rparr>) y a =
    (if is_balance_of y a b then bal_balance b else balance_of (c\<lparr>balances := t\<rparr>) y a)"
proof -
  have upd: "generic_find t' j = Some x \<longleftrightarrow> (if j = k then x = b else generic_find t j = Some x)" for j x
    using assms(3) by auto
  show ?thesis
  proof (cases "is_balance_of y a b")
    case True
    then have "t_find_by (is_balance_of y a) t' = Some (k, b)"
      using balance_row_iff [OF assms(2)] upd by simp
    then show ?thesis using True by (simp add: balance_of_def get_balance_def balance_of_row_def)
  next
    case False
    have "t_find_by (is_balance_of y a) t' = Some (j, x) \<longleftrightarrow> t_find_by (is_balance_of y a) t = Some (j, x)" for j x
      using balance_row_iff [OF assms(2), of y a j x] balance_row_iff [OF assms(1), of y a j x] upd False
        assms(4) by (cases "j = k") (auto simp: is_balance_of_def)
    then have "t_find_by (is_balance_of y a) t' = t_find_by (is_balance_of y a) t"
      by (metis option.exhaust surj_pair)
    then show ?thesis using False by (simp add: balance_of_def get_balance_def)
  qed
qed

lemma adjust_balance_cases [consumes 1, case_names zero new row]:
  assumes "adjust_balance S x d c = Inr c'"
  obtains (zero) "amount d = 0" and "c' = c"
  | (new) t where "t_find_by (is_balance_of x (asset_id d)) (balances c) = None" and "0 < amount d"
      and "t_create balance_key \<lparr>bal_owner = x, bal_asset = asset_id d, bal_balance = amount d\<rparr> (balances c) = Inr t"
      and "c' = c\<lparr>balances := t\<rparr>"
  | (row) k b t where "t_find_by (is_balance_of x (asset_id d)) (balances c) = Some (k, b)"
      and "amount d < 0 \<longrightarrow> (\<exists>n. S (- amount d) = Inr n \<and> n \<le> bal_balance b)"
      and "t_modify balance_key k (row_adjust_balance S d) (balances c) = Inr t"
      and "c' = c\<lparr>balances := t\<rparr>"
proof (cases "amount d = 0")
  case True
  then show thesis using assms zero by (simp add: adjust_balance_def)
next
  case nz: False
  show thesis
  proof (cases "t_find_by (is_balance_of x (asset_id d)) (balances c)")
    case None
    then show thesis using assms nz new by (auto simp: adjust_balance_def)
  next
    case (Some p)
    obtain k b where kb: "p = (k, b)" by (cases p)
    have "amount d < 0 \<longrightarrow> (\<exists>n. S (- amount d) = Inr n \<and> n \<le> bal_balance b)"
      using assms nz Some kb
      by (auto simp: adjust_balance_def asset_neg_def asset_less_def balance_of_row_def not_less split: if_splits)
    moreover obtain t where "t_modify balance_key k (row_adjust_balance S d) (balances c) = Inr t" "c' = c\<lparr>balances := t\<rparr>"
      using assms nz Some kb by (auto simp: adjust_balance_def split: if_splits)
    ultimately show thesis using row [of k b t] Some kb by simp
  qed
qed

lemma balances_ok_create:
  assumes "balances_ok t" and "t_create balance_key b t = Inr t'" and "0 \<le> bal_balance b"
  shows "balances_ok t'"
proof -
  have ok: "t_ok t" "keys_unique balance_key t" using assms(1) by (simp_all add: balances_ok_def)
  note l = t_create_law [OF ok(1) assms(2)]
  have "keys_unique balance_key t'"
    using ok(1) assms(2) ok(2) balance_key_sym by (rule t_create_unique)
  then show ?thesis using l assms(1,3) by (auto simp: balances_ok_def)
qed

lemma adjust_balance_law:
  assumes "safe_exact S" and "balances_ok (balances c)" and "adjust_balance S x d c = Inr c'"
  shows "balances_ok (balances c')"
    and "balance_of c' y a = balance_of c y a + (if y = x \<and> a = asset_id d then amount d else 0)"
    and "total_balance c' a = total_balance c a + (if a = asset_id d then amount d else 0)"
    and "c' = c\<lparr>balances := balances c'\<rparr>"
proof -
  have "balances_ok (balances c') \<and>
    balance_of c' y a = balance_of c y a + (if y = x \<and> a = asset_id d then amount d else 0) \<and>
    total_balance c' a = total_balance c a + (if a = asset_id d then amount d else 0) \<and>
    c' = c\<lparr>balances := balances c'\<rparr>"
    using assms(3)
  proof (cases rule: adjust_balance_cases)
    case zero
    then show ?thesis using assms(2) by simp
  next
    case (new t)
    let ?b = "\<lparr>bal_owner = x, bal_asset = asset_id d, bal_balance = amount d\<rparr>"
    have ok: "t_ok (balances c)" using assms(2) by (simp add: balances_ok_def)
    note l = t_create_law [OF ok new(3)]
    have ok': "balances_ok t" using balances_ok_create [OF assms(2) new(3)] new(2) by simp
    have fr: "generic_find (balances c) (g_next_id (balances c)) = None" using generic_fresh [OF ok] by simp
    have "balance_of (c\<lparr>balances := t\<rparr>) y a = (if is_balance_of y a ?b then amount d else balance_of c y a)"
      using balance_of_store [OF assms(2) ok' l(2), of c y a] fr by simp
    moreover have "balance_of c x (asset_id d) = 0" using new(1) by (rule balance_of_none)
    moreover have "t_sum (in_asset a) t = t_sum (in_asset a) (balances c) + in_asset a ?b"
      using t_sum_create [OF ok new(3)] .
    ultimately show ?thesis
      using ok' new(4) by (auto simp: is_balance_of_def total_balance_def in_asset_def)
  next
    case (row k b t)
    have b: "generic_find (balances c) k = Some b" "is_balance_of x (asset_id d) b"
      using row(1) balance_row_iff [OF assms(2)] by blast+
    have ok: "t_ok (balances c)" "keys_unique balance_key (balances c)" "0 \<le> bal_balance b"
      using assms(2) b(1) by (auto simp: balances_ok_def)
    have ge: "0 \<le> bal_balance b + amount d"
      using row(2) ok(3) safe_exactD [OF assms(1), of "- amount d"] by fastforce
    let ?b = "b\<lparr>bal_balance := bal_balance b + amount d\<rparr>"
    have f: "row_adjust_balance S d b = Inr y \<Longrightarrow> y = ?b" for y
      by (auto simp: row_adjust_balance_def dest!: safe_exactD [OF assms(1)])
    have upd: "t_ok t" "generic_find t = (generic_find (balances c))(k \<mapsto> ?b)"
      using t_modify_law [OF ok(1) row(3)] b(1) f by (metis option.inject)+
    have "keys_unique balance_key t" using ok(1) row(3) ok(2) balance_key_sym by (rule t_modify_unique)
    then have ok': "balances_ok t" using upd assms(2) ge by (auto simp: balances_ok_def)
    have "balance_of (c\<lparr>balances := t\<rparr>) y a = (if is_balance_of y a ?b then bal_balance ?b else balance_of c y a)"
      using balance_of_store [OF assms(2) ok' upd(2), of c y a] b(1) by simp
    moreover have "balance_of c x (asset_id d) = bal_balance b"
      using balance_of_row_amount [OF assms(2) b(1)] b(2) by (simp add: is_balance_of_def)
    moreover have "t_sum (in_asset a) t = t_sum (in_asset a) (balances c) + in_asset a ?b - in_asset a b"
      using t_sum_modify [OF ok(1) row(3), of "in_asset a"] b(1) f by (metis option.inject)
    ultimately show ?thesis
      using ok' row(4) b(2) by (auto simp: is_balance_of_def total_balance_def in_asset_def)
  qed
  then show "balances_ok (balances c')"
    and "balance_of c' y a = balance_of c y a + (if y = x \<and> a = asset_id d then amount d else 0)"
    and "total_balance c' a = total_balance c a + (if a = asset_id d then amount d else 0)"
    and "c' = c\<lparr>balances := balances c'\<rparr>"
    by blast+
qed

sublocale safe_arith \<subseteq> ledger balance_of total_balance "adjust_balance S" "\<lambda>c. balances_ok (balances c)"
  by unfold_locales (simp_all add: balance_of_nonneg adjust_balance_law [OF exact])

section \<open>Properties\<close>

text \<open>
  \<open>adjust_balance\<close> is exact and total on the range of amounts: it succeeds if and only if the
  new balance is not negative, and then changes that balance by the amount and nothing else.
\<close>

theorem adjust_balance_correct:
  assumes "safe_exact S" and "safe_total S" and "balances_ok (balances c)"
    and "in_int64 (balance_of c x (asset_id d) + amount d)" and "in_int64 (- amount d)"
  shows "(case adjust_balance S x d c of
      Inl _ \<Rightarrow> balance_of c x (asset_id d) + amount d < 0
    | Inr c' \<Rightarrow> 0 \<le> balance_of c x (asset_id d) + amount d \<and> c' = c\<lparr>balances := balances c'\<rparr> \<and>
        (\<forall>y a. balance_of c' y a = balance_of c y a + (if y = x \<and> a = asset_id d then amount d else 0)))"
proof (cases "adjust_balance S x d c")
  case (Inr c')
  note l = adjust_balance_law [OF assms(1,3) Inr]
  have "balance_of c x (asset_id d) + amount d = balance_of c' x (asset_id d)" using l(2) by simp
  moreover have "0 \<le> balance_of c' x (asset_id d)" using l(1) by (rule balance_of_nonneg)
  ultimately show ?thesis using l(2,4) Inr by simp
next
  case (Inl e)
  have "balance_of c x (asset_id d) + amount d < 0"
  proof (rule ccontr)
    assume "\<not> ?thesis"
    then have ge: "0 \<le> balance_of c x (asset_id d) + amount d" by simp
    have nz: "amount d \<noteq> 0" using Inl by (auto simp: adjust_balance_def)
    have ok: "t_ok (balances c)" "keys_unique balance_key (balances c)" using assms(3) by (simp_all add: balances_ok_def)
    show False
    proof (cases "t_find_by (is_balance_of x (asset_id d)) (balances c)")
      case None
      then have pos: "0 < amount d" using ge nz balance_of_none [OF None] by simp
      let ?b = "\<lparr>bal_owner = x, bal_asset = asset_id d, bal_balance = amount d\<rparr>"
      have "\<not> balance_key ?b y" if "generic_find (balances c) k = Some y" for k y
        using t_find_by_NoneD [OF None that] by (auto simp: balance_key_def is_balance_of_def)
      then obtain t where "t_create balance_key ?b (balances c) = Inr t" using t_create_ok [OF ok(1)] by blast
      then show False using Inl None pos nz by (simp add: adjust_balance_def)
    next
      case (Some p)
      then obtain k b where f: "t_find_by (is_balance_of x (asset_id d)) (balances c) = Some (k, b)" by (cases p) auto
      have b: "generic_find (balances c) k = Some b" "is_balance_of x (asset_id d) b"
        using f balance_row_iff [OF assms(3)] by blast+
      have bal: "balance_of c x (asset_id d) = bal_balance b"
        using balance_of_row_amount [OF assms(3) b(1)] b(2) by (simp add: is_balance_of_def)
      have "row_adjust_balance S d b = Inr (b\<lparr>bal_balance := bal_balance b + amount d\<rparr>)"
        using safe_totalD [OF assms(2) assms(4)] bal by (simp add: row_adjust_balance_def)
      then obtain t where t: "t_modify balance_key k (row_adjust_balance S d) (balances c) = Inr t"
        using t_modify_ok [OF ok b(1)] by (fastforce simp: balance_key_def)
      have "S (- amount d) = Inr (- amount d)" using safe_totalD [OF assms(2,5)] .
      then show False
        using Inl f t nz b(2) ge bal
        by (auto simp: adjust_balance_def asset_neg_def asset_less_def balance_of_row_def is_balance_of_def split: if_splits)
    qed
  qed
  then show ?thesis using Inl by simp
qed

end
