(* ===== verification/Demo_Chain.thy ===== *)
theory Demo_Chain
  imports Balance
begin

text \<open>
  A small state of the chain for concrete instances of the theorems (with small times, so that it
  evaluates in the kernel): six accounts, the core asset
  (id 0), an exchangeable user-issued asset (id 1) with funded pools, three balances.
\<close>

definition demo_authority :: authority where
  "demo_authority = \<lparr>weight_threshold = 1, account_auths = [(4, 1)], key_auths = [(1, 1)]\<rparr>"

definition demo_options :: account_options where
  "demo_options = \<lparr>memo_key = 0, voting_account = 3, num_miner = 0, votes = [], allow_subscription = True,
     price_per_subscribe = mk_asset 50 0, subscription_period = 1\<rparr>"

definition demo_account :: "string \<Rightarrow> account_object" where
  "demo_account n = \<lparr>registrar = 0, acc_name = n, acc_owner = demo_authority, acc_active = demo_authority,
     acc_options = demo_options, rights_to_publish = \<lparr>is_publishing_manager = False,
       publishing_rights_received = [], publishing_rights_forwarded = []\<rparr>, statistics = 0, top_n_control_flags = 0\<rparr>"

definition demo_accounts :: "account_object table" where
  "demo_accounts = \<lparr>g_next_id = 6, g_rows =
     [(0, demo_account ''miner''), (1, demo_account ''null''), (2, demo_account ''temp''),
      (3, demo_account ''self''), (4, demo_account ''alice''), (5, demo_account ''bob'')]\<rparr>"

definition demo_stats :: "account_statistics_object table" where
  "demo_stats = \<lparr>g_next_id = 1, g_rows = [(0, \<lparr>stat_owner = 0, total_core_in_orders = 0, voting_stake = 0, stat_votes = []\<rparr>)]\<rparr>"

definition demo_uia_rate :: price where
  "demo_uia_rate = \<lparr>base = mk_asset 2 0, quote = mk_asset 1 1\<rparr>"

definition demo_assets :: "asset_object table" where
  "demo_assets = \<lparr>g_next_id = 2, g_rows =
     [(0, \<lparr>symbol = ''DCT'', precision = 8, issuer = 1, description = [], monitored_asset_opts = None,
           options = \<lparr>max_supply = GRAPHENE_MAX_SHARE_SUPPLY, core_exchange_rate = null_price,
             is_exchangeable = True, extensions = []\<rparr>, dynamic_asset_data_id = 0\<rparr>),
      (1, \<lparr>symbol = ''UIA'', precision = 4, issuer = 4, description = [], monitored_asset_opts = None,
           options = \<lparr>max_supply = 100000, core_exchange_rate = demo_uia_rate, is_exchangeable = True,
             extensions = [Fixed_Max_Supply False]\<rparr>, dynamic_asset_data_id = 1\<rparr>)]\<rparr>"

definition demo_dyn :: "asset_dynamic_data_object table" where
  "demo_dyn = \<lparr>g_next_id = 2, g_rows =
     [(0, \<lparr>current_supply = 1500, asset_pool = 0, core_pool = 0\<rparr>),
      (1, \<lparr>current_supply = 700, asset_pool = 100, core_pool = 200\<rparr>)]\<rparr>"

definition demo_balances :: "account_balance_object table" where
  "demo_balances = \<lparr>g_next_id = 3, g_rows =
     [(0, \<lparr>bal_owner = 4, bal_asset = 0, bal_balance = 1000\<rparr>),
      (1, \<lparr>bal_owner = 5, bal_asset = 0, bal_balance = 300\<rparr>),
      (2, \<lparr>bal_owner = 4, bal_asset = 1, bal_balance = 600\<rparr>)]\<rparr>"

definition demo_params :: chain_parameters where
  "demo_params = \<lparr>block_interval = 5, maintenance_interval = 100, maintenance_skip_slots = 3,
     miner_proposal_review_period = 50, maximum_miner_count = 11, miner_pay_vesting_seconds = 20,
     maximum_transaction_size = 300, maximum_block_size = 400, maximum_time_until_expiration = 60,
     maximum_proposal_lifetime = 200, maximum_asset_feed_publishers = 10, maximum_authority_membership = 10,
     max_predicate_opcode = 1, max_authority_depth = 2\<rparr>"

definition demo_chain :: chain where
  "demo_chain = \<lparr>accounts = demo_accounts, account_stats = demo_stats, balances = demo_balances,
     assets = demo_assets, asset_dyn = demo_dyn, vestings = t_empty, miners = t_empty,
     withdraw_permissions = t_empty, subscriptions = t_empty, details = t_empty, contents = t_empty,
     buyings = t_empty, seeders = t_empty, seeding_stats = t_empty, budget_records = t_empty, nfts = t_empty, nft_data = t_empty,
     gpo = \<lparr>parameters = demo_params, pending_parameters = None, next_available_vote_id = 0, active_miners = []\<rparr>,
     dgpo = \<lparr>head_block_number = 80, head_block_id = Block_Id 80 0, dg_time = 400, current_miner = 0,
       next_maintenance_time = 450, last_budget_time = 350, miner_budget_from_fees = 0,
       unspent_fee_budget = 0, mined_rewards = 0, miner_budget_from_rewards = 0,
       accounts_registered_this_interval = 0, recently_missed_count = 0, current_aslot = 80,
       recent_slots_filled = -1, dynamic_flags = 0, last_irreversible_block_num = 70\<rparr>,
     schedule = \<lparr>current_shuffled_miners = []\<rparr>, cpo = \<lparr>min_miner_count = 1\<rparr>\<rparr>"

lemma pairwise_in_set:
  "sorted_wrt P xs \<Longrightarrow> x \<in> set xs \<Longrightarrow> y \<in> set xs \<Longrightarrow> x \<noteq> y \<Longrightarrow> P x y \<or> P y x"
  by (induction xs) auto

text \<open>An executable form of the invariants of a table, for concrete tables.\<close>

lemma keys_unique_rows:
  assumes "sorted_wrt (\<lambda>p q. \<not> clash (snd p) (snd q) \<and> \<not> clash (snd q) (snd p)) (g_rows t)"
  shows "keys_unique clash t"
  unfolding keys_unique_def
proof (intro allI impI)
  fix j k x y
  assume "generic_find t j = Some x" and "generic_find t k = Some y" and c: "clash x y"
  then have m: "(j, x) \<in> set (g_rows t)" "(k, y) \<in> set (g_rows t)" by (auto dest: generic_find_row)
  show "j = k" using pairwise_in_set [OF assms m] c by auto
qed

definition rows_nonneg :: "account_balance_object table \<Rightarrow> bool" where
  "rows_nonneg t = list_all (\<lambda>p. 0 \<le> bal_balance (snd p)) (g_rows t)"

lemma balances_ok_rows:
  assumes "t_ok t" and "sorted_wrt (\<lambda>p q. \<not> balance_key (snd p) (snd q) \<and> \<not> balance_key (snd q) (snd p)) (g_rows t)"
    and "rows_nonneg t"
  shows "balances_ok t"
  unfolding balances_ok_def
proof (intro conjI allI impI)
  show "keys_unique balance_key t" using assms(2) by (rule keys_unique_rows)
  fix k b assume "generic_find t k = Some b"
  then have "(k, b) \<in> set (g_rows t)" by (rule generic_find_row)
  then show "0 \<le> bal_balance b" using assms(3) by (auto simp: rows_nonneg_def list_all_iff)
qed (rule assms(1))

lemma demo_balances_ok: "balances_ok (balances demo_chain)"
proof -
  have "balances_ok demo_balances"
    by (rule balances_ok_rows) (simp_all add: demo_balances_def generic_invar_def balance_key_def rows_nonneg_def)
  then show ?thesis by (simp add: demo_chain_def)
qed

theorem adjust_balance_correct_witness:
  "\<exists>c'. adjust_balance checked64 4 (mk_asset (-400) 0) demo_chain = Inr c' \<and>
     balance_of c' 4 0 = balance_of demo_chain 4 0 - 400 \<and> balance_of c' 5 0 = balance_of demo_chain 5 0"
proof -
  have "case adjust_balance checked64 4 (mk_asset (-400) 0) demo_chain of Inl _ \<Rightarrow> False | Inr _ \<Rightarrow> True"
    and bal: "balance_of demo_chain 4 0 = 1000"
    by code_simp+
  then obtain c' where c': "adjust_balance checked64 4 (mk_asset (-400) 0) demo_chain = Inr c'"
    by (auto split: sum.splits)
  show ?thesis
    using adjust_balance_correct [OF checked64_exact checked64_total demo_balances_ok, of 4 "mk_asset (-400) 0"]
    by (simp add: c' bal in_int64_def)
qed

end
