(* ===== verification/Evaluator.thy ===== *)
theory Evaluator
  imports Demo_Chain
begin

text \<open>
  \<open>evaluator.cpp\<close> and the template of \<open>evaluator.hpp\<close>: how every operation is evaluated and
  applied, and how its fee moves from the payer through the asset's pools to the core asset. The
  locale \<open>evaluator_contract\<close> is the interface between the template and the evaluators: an
  evaluator says by how much its \<open>do\_apply\<close> changes what is held of each asset, and the template
  adds nothing to that.
\<close>

section \<open>Fees\<close>

record trx_state =
  skip_fee :: bool
  skip_fee_schedule_check :: bool
  is_proposed_trx :: bool

record fee_state =
  fee_from_account :: asset
  core_fee_paid :: int
  fee_asset :: asset_object

definition prepare_fee :: "chain \<Rightarrow> account_id_type \<Rightarrow> asset \<Rightarrow> fee_state res" where
  "prepare_fee c account_id fee =
     bindE (require (0 \<le> amount fee) Assert_Exception) (\<lambda>_.
     bindE (get_account c account_id) (\<lambda>fee_paying_account.
     bindE (t_get (account_stats c) (statistics fee_paying_account)) (\<lambda>_.
     bindE (get_asset c (asset_id fee)) (\<lambda>fa.
     bindE (require (asset_id fee = 0 \<or> is_exchangeable (options fa)) Assert_Exception) (\<lambda>_.
     bindE (get_dyn c fa) (\<lambda>dd.
     if asset_id fee = 0 then Inr \<lparr>fee_from_account = fee, core_fee_paid = amount fee, fee_asset = fa\<rparr>
     else
       bindE (asset_times_price fee (core_exchange_rate (options fa))) (\<lambda>fee_from_pool.
       bindE (require (asset_id fee_from_pool = 0) Assert_Exception) (\<lambda>_.
       bindE (require (amount fee_from_pool \<le> core_pool dd) Assert_Exception) (\<lambda>_.
       Inr \<lparr>fee_from_account = fee, core_fee_paid = amount fee_from_pool, fee_asset = fa\<rparr>)))))))))"

definition convert_fee :: "safe \<Rightarrow> trx_state \<Rightarrow> fee_state \<Rightarrow> chain \<Rightarrow> chain res" where
  "convert_fee S st f c =
     (if \<not> skip_fee st then
        if asset_id (fee_from_account f) \<noteq> 0 then
          modify_dyn (fee_asset f) (\<lambda>d.
            bindE (S (asset_pool d + amount (fee_from_account f))) (\<lambda>ap.
            bindE (S (core_pool d - core_fee_paid f)) (\<lambda>cp.
            Inr (d\<lparr>asset_pool := ap, core_pool := cp\<rparr>)))) c
        else Inr c
      else Inr c)"

definition pay_fee :: "safe \<Rightarrow> trx_state \<Rightarrow> fee_state \<Rightarrow> chain \<Rightarrow> chain res" where
  "pay_fee S st f c =
     (if \<not> skip_fee st then
        bindE (get_asset c 0) (\<lambda>core.
        modify_dyn core (\<lambda>d.
          bindE (S (asset_pool d + core_fee_paid f)) (\<lambda>ap. Inr (d\<lparr>asset_pool := ap\<rparr>))) c)
      else Inr c)"

section \<open>The evaluator template\<close>

text \<open>
  \<open>evaluate\<close> and \<open>apply\<close>. \<open>required_fee\<close> is what the fee schedule demands for the
  operation. \<open>do_evaluate\<close> returns the members of the evaluator that \<open>do_apply\<close> reads: the fee
  state, which it may change, and its own.
\<close>

definition evaluate ::
  "trx_state \<Rightarrow> int res \<Rightarrow> account_id_type \<Rightarrow> asset \<Rightarrow> (fee_state \<Rightarrow> chain \<Rightarrow> (fee_state \<times> 'x) res) \<Rightarrow> chain
    \<Rightarrow> (fee_state \<times> 'x) res" where
  "evaluate st required_fee fee_payer fee do_evaluate c =
     bindE (prepare_fee c fee_payer fee) (\<lambda>f.
     bindE (if \<not> skip_fee_schedule_check st
            then bindE required_fee (\<lambda>r. require (r \<le> core_fee_paid f) Insufficient_Fee)
            else Inr ()) (\<lambda>_.
     do_evaluate f c))"

definition apply_op ::
  "safe \<Rightarrow> trx_state \<Rightarrow> account_id_type \<Rightarrow> fee_state \<Rightarrow> (chain \<Rightarrow> chain res) \<Rightarrow> chain \<Rightarrow> chain res" where
  "apply_op S st fee_payer f do_apply c =
     bindE (convert_fee S st f c) (\<lambda>c1.
     bindE (pay_fee S st f c1) (\<lambda>c2.
     bindE (do_apply c2) (\<lambda>c3.
     bindE (asset_neg S (fee_from_account f)) (\<lambda>delta.
     adjust_balance S fee_payer delta c3))))"

definition start_evaluate ::
  "safe \<Rightarrow> trx_state \<Rightarrow> int res \<Rightarrow> account_id_type \<Rightarrow> asset
    \<Rightarrow> (fee_state \<Rightarrow> chain \<Rightarrow> (fee_state \<times> 'x) res) \<Rightarrow> (fee_state \<Rightarrow> 'x \<Rightarrow> chain \<Rightarrow> chain res) \<Rightarrow> chain \<Rightarrow> chain res" where
  "start_evaluate S st required_fee fee_payer fee do_evaluate do_apply c =
     bindE (evaluate st required_fee fee_payer fee do_evaluate c) (\<lambda>(f, x).
     apply_op S st fee_payer f (do_apply f x) c)"

section \<open>What is held of an asset\<close>

definition vested_in :: "asset_id_type \<Rightarrow> vesting_balance_object \<Rightarrow> int" where
  "vested_in a v = (if asset_id (vb_balance v) = a then amount (vb_balance v) else 0)"

definition escrowed_in :: "asset_id_type \<Rightarrow> content_object \<Rightarrow> int" where
  "escrowed_in a x = (if asset_id (co_publishing_fee_escrow x) = a then amount (co_publishing_fee_escrow x) else 0)"

definition bought_in :: "asset_id_type \<Rightarrow> buying_object \<Rightarrow> int" where
  "bought_in a b = (if asset_id (bo_price b) = a then amount (bo_price b) else 0)"

definition asset_pool_of :: "chain \<Rightarrow> asset_id_type \<Rightarrow> int" where
  "asset_pool_of c a =
     (case generic_find (assets c) a of None \<Rightarrow> 0
      | Some ao \<Rightarrow> (case generic_find (asset_dyn c) (dynamic_asset_data_id ao) of None \<Rightarrow> 0 | Some d \<Rightarrow> asset_pool d))"

definition core_pools :: "chain \<Rightarrow> int" where
  "core_pools c = t_sum core_pool (asset_dyn c)"

definition holdings :: "chain \<Rightarrow> asset_id_type \<Rightarrow> int" where
  "holdings c a = total_balance c a + t_sum (vested_in a) (vestings c) + t_sum (escrowed_in a) (contents c) +
     t_sum (bought_in a) (buyings c) + asset_pool_of c a + (if a = 0 then core_pools c else 0)"

definition supply_of :: "chain \<Rightarrow> asset_id_type \<Rightarrow> int" where
  "supply_of c a =
     (case generic_find (assets c) a of None \<Rightarrow> 0
      | Some ao \<Rightarrow> (case generic_find (asset_dyn c) (dynamic_asset_data_id ao) of None \<Rightarrow> 0 | Some d \<Rightarrow> current_supply d))"

text \<open>Every asset has dynamic data of its own.\<close>

definition assets_ok :: "chain \<Rightarrow> bool" where
  "assets_ok c \<longleftrightarrow> t_ok (assets c) \<and> t_ok (asset_dyn c) \<and>
     (\<forall>a ao. generic_find (assets c) a = Some ao \<longrightarrow> generic_find (asset_dyn c) (dynamic_asset_data_id ao) \<noteq> None) \<and>
     (\<forall>a b ao bo. generic_find (assets c) a = Some ao \<longrightarrow> generic_find (assets c) b = Some bo \<longrightarrow>
        dynamic_asset_data_id ao = dynamic_asset_data_id bo \<longrightarrow> a = b)"

definition chain_ok :: "chain \<Rightarrow> bool" where
  "chain_ok c \<longleftrightarrow> tables_ok c \<and> balances_ok (balances c) \<and> assets_ok c"

lemma assets_ok_inj:
  "assets_ok c \<Longrightarrow> generic_find (assets c) a = Some ao \<Longrightarrow> generic_find (assets c) b = Some bo \<Longrightarrow>
   dynamic_asset_data_id ao = dynamic_asset_data_id bo \<Longrightarrow> a = b"
  unfolding assets_ok_def by blast

lemma chain_okD:
  "chain_ok c \<Longrightarrow> balances_ok (balances c)" "chain_ok c \<Longrightarrow> assets_ok c" "chain_ok c \<Longrightarrow> tables_ok c"
  by (simp_all add: chain_ok_def)

lemma pools_cong:
  assumes "assets c' = assets c" and "asset_dyn c' = asset_dyn c"
  shows "asset_pool_of c' a = asset_pool_of c a" and "supply_of c' a = supply_of c a" and "core_pools c' = core_pools c"
  using assms by (simp_all add: asset_pool_of_def supply_of_def core_pools_def cong: option.case_cong)

section \<open>Frame\<close>

text \<open>
  Which tables a change of one table leaves alone: the collection \<open>frame\<close> carries the evaluator
  proofs.
\<close>

named_theorems frame

lemma pools_frame [frame]:
  "asset_pool_of (c\<lparr>accounts := t_accounts\<rparr>) a = asset_pool_of c a"
  "supply_of (c\<lparr>accounts := t_accounts\<rparr>) a = supply_of c a"
  "core_pools (c\<lparr>accounts := t_accounts\<rparr>) = core_pools c"
  "asset_pool_of (c\<lparr>account_stats := t_account_stats\<rparr>) a = asset_pool_of c a"
  "supply_of (c\<lparr>account_stats := t_account_stats\<rparr>) a = supply_of c a"
  "core_pools (c\<lparr>account_stats := t_account_stats\<rparr>) = core_pools c"
  "asset_pool_of (c\<lparr>miners := t_miners\<rparr>) a = asset_pool_of c a"
  "supply_of (c\<lparr>miners := t_miners\<rparr>) a = supply_of c a"
  "core_pools (c\<lparr>miners := t_miners\<rparr>) = core_pools c"
  "asset_pool_of (c\<lparr>withdraw_permissions := t_withdraw_permissions\<rparr>) a = asset_pool_of c a"
  "supply_of (c\<lparr>withdraw_permissions := t_withdraw_permissions\<rparr>) a = supply_of c a"
  "core_pools (c\<lparr>withdraw_permissions := t_withdraw_permissions\<rparr>) = core_pools c"
  "asset_pool_of (c\<lparr>subscriptions := t_subscriptions\<rparr>) a = asset_pool_of c a"
  "supply_of (c\<lparr>subscriptions := t_subscriptions\<rparr>) a = supply_of c a"
  "core_pools (c\<lparr>subscriptions := t_subscriptions\<rparr>) = core_pools c"
  "asset_pool_of (c\<lparr>details := t_details\<rparr>) a = asset_pool_of c a"
  "supply_of (c\<lparr>details := t_details\<rparr>) a = supply_of c a"
  "core_pools (c\<lparr>details := t_details\<rparr>) = core_pools c"
  "asset_pool_of (c\<lparr>seeders := t_seeders\<rparr>) a = asset_pool_of c a"
  "supply_of (c\<lparr>seeders := t_seeders\<rparr>) a = supply_of c a"
  "core_pools (c\<lparr>seeders := t_seeders\<rparr>) = core_pools c"
  "asset_pool_of (c\<lparr>seeding_stats := t_seeding_stats\<rparr>) a = asset_pool_of c a"
  "supply_of (c\<lparr>seeding_stats := t_seeding_stats\<rparr>) a = supply_of c a"
  "core_pools (c\<lparr>seeding_stats := t_seeding_stats\<rparr>) = core_pools c"
  "asset_pool_of (c\<lparr>budget_records := t_budget_records\<rparr>) a = asset_pool_of c a"
  "supply_of (c\<lparr>budget_records := t_budget_records\<rparr>) a = supply_of c a"
  "core_pools (c\<lparr>budget_records := t_budget_records\<rparr>) = core_pools c"
  "asset_pool_of (c\<lparr>nfts := t_nfts\<rparr>) a = asset_pool_of c a"
  "supply_of (c\<lparr>nfts := t_nfts\<rparr>) a = supply_of c a"
  "core_pools (c\<lparr>nfts := t_nfts\<rparr>) = core_pools c"
  "asset_pool_of (c\<lparr>nft_data := t_nft_data\<rparr>) a = asset_pool_of c a"
  "supply_of (c\<lparr>nft_data := t_nft_data\<rparr>) a = supply_of c a"
  "core_pools (c\<lparr>nft_data := t_nft_data\<rparr>) = core_pools c"
  "asset_pool_of (c\<lparr>gpo := t_gpo\<rparr>) a = asset_pool_of c a"
  "supply_of (c\<lparr>gpo := t_gpo\<rparr>) a = supply_of c a"
  "core_pools (c\<lparr>gpo := t_gpo\<rparr>) = core_pools c"
  "asset_pool_of (c\<lparr>dgpo := t_dgpo\<rparr>) a = asset_pool_of c a"
  "supply_of (c\<lparr>dgpo := t_dgpo\<rparr>) a = supply_of c a"
  "core_pools (c\<lparr>dgpo := t_dgpo\<rparr>) = core_pools c"
  "asset_pool_of (c\<lparr>schedule := t_schedule\<rparr>) a = asset_pool_of c a"
  "supply_of (c\<lparr>schedule := t_schedule\<rparr>) a = supply_of c a"
  "core_pools (c\<lparr>schedule := t_schedule\<rparr>) = core_pools c"
  "asset_pool_of (c\<lparr>balances := t_balances\<rparr>) a = asset_pool_of c a"
  "supply_of (c\<lparr>balances := t_balances\<rparr>) a = supply_of c a"
  "core_pools (c\<lparr>balances := t_balances\<rparr>) = core_pools c"
  "asset_pool_of (c\<lparr>vestings := t_vestings\<rparr>) a = asset_pool_of c a"
  "supply_of (c\<lparr>vestings := t_vestings\<rparr>) a = supply_of c a"
  "core_pools (c\<lparr>vestings := t_vestings\<rparr>) = core_pools c"
  "asset_pool_of (c\<lparr>contents := t_contents\<rparr>) a = asset_pool_of c a"
  "supply_of (c\<lparr>contents := t_contents\<rparr>) a = supply_of c a"
  "core_pools (c\<lparr>contents := t_contents\<rparr>) = core_pools c"
  "asset_pool_of (c\<lparr>buyings := t_buyings\<rparr>) a = asset_pool_of c a"
  "supply_of (c\<lparr>buyings := t_buyings\<rparr>) a = supply_of c a"
  "core_pools (c\<lparr>buyings := t_buyings\<rparr>) = core_pools c"
  by (rule pools_cong; simp)+

lemma holdings_frame [frame]:
  "holdings (c\<lparr>accounts := t_accounts\<rparr>) a = holdings c a"
  "holdings (c\<lparr>account_stats := t_account_stats\<rparr>) a = holdings c a"
  "holdings (c\<lparr>miners := t_miners\<rparr>) a = holdings c a"
  "holdings (c\<lparr>withdraw_permissions := t_withdraw_permissions\<rparr>) a = holdings c a"
  "holdings (c\<lparr>subscriptions := t_subscriptions\<rparr>) a = holdings c a"
  "holdings (c\<lparr>details := t_details\<rparr>) a = holdings c a"
  "holdings (c\<lparr>seeders := t_seeders\<rparr>) a = holdings c a"
  "holdings (c\<lparr>seeding_stats := t_seeding_stats\<rparr>) a = holdings c a"
  "holdings (c\<lparr>budget_records := t_budget_records\<rparr>) a = holdings c a"
  "holdings (c\<lparr>nfts := t_nfts\<rparr>) a = holdings c a"
  "holdings (c\<lparr>nft_data := t_nft_data\<rparr>) a = holdings c a"
  "holdings (c\<lparr>gpo := t_gpo\<rparr>) a = holdings c a"
  "holdings (c\<lparr>dgpo := t_dgpo\<rparr>) a = holdings c a"
  "holdings (c\<lparr>schedule := t_schedule\<rparr>) a = holdings c a"
  "holdings (c\<lparr>vestings := t_vestings\<rparr>) a = holdings c a - t_sum (vested_in a) (vestings c) + t_sum (vested_in a) t_vestings"
  "holdings (c\<lparr>contents := t_contents\<rparr>) a = holdings c a - t_sum (escrowed_in a) (contents c) + t_sum (escrowed_in a) t_contents"
  "holdings (c\<lparr>buyings := t_buyings\<rparr>) a = holdings c a - t_sum (bought_in a) (buyings c) + t_sum (bought_in a) t_buyings"
  by (simp_all add: holdings_def total_balance_def pools_frame)

lemma chain_ok_frame [frame]:
  "chain_ok c \<Longrightarrow> t_ok t_accounts \<Longrightarrow> chain_ok (c\<lparr>accounts := t_accounts\<rparr>)"
  "chain_ok c \<Longrightarrow> t_ok t_account_stats \<Longrightarrow> chain_ok (c\<lparr>account_stats := t_account_stats\<rparr>)"
  "chain_ok c \<Longrightarrow> t_ok t_miners \<Longrightarrow> chain_ok (c\<lparr>miners := t_miners\<rparr>)"
  "chain_ok c \<Longrightarrow> t_ok t_withdraw_permissions \<Longrightarrow> chain_ok (c\<lparr>withdraw_permissions := t_withdraw_permissions\<rparr>)"
  "chain_ok c \<Longrightarrow> t_ok t_subscriptions \<Longrightarrow> chain_ok (c\<lparr>subscriptions := t_subscriptions\<rparr>)"
  "chain_ok c \<Longrightarrow> t_ok t_details \<Longrightarrow> chain_ok (c\<lparr>details := t_details\<rparr>)"
  "chain_ok c \<Longrightarrow> t_ok t_seeders \<Longrightarrow> chain_ok (c\<lparr>seeders := t_seeders\<rparr>)"
  "chain_ok c \<Longrightarrow> t_ok t_seeding_stats \<Longrightarrow> chain_ok (c\<lparr>seeding_stats := t_seeding_stats\<rparr>)"
  "chain_ok c \<Longrightarrow> t_ok t_budget_records \<Longrightarrow> chain_ok (c\<lparr>budget_records := t_budget_records\<rparr>)"
  "chain_ok c \<Longrightarrow> t_ok t_nfts \<Longrightarrow> chain_ok (c\<lparr>nfts := t_nfts\<rparr>)"
  "chain_ok c \<Longrightarrow> t_ok t_nft_data \<Longrightarrow> chain_ok (c\<lparr>nft_data := t_nft_data\<rparr>)"
  "chain_ok c \<Longrightarrow> t_ok t_vestings \<Longrightarrow> chain_ok (c\<lparr>vestings := t_vestings\<rparr>)"
  "chain_ok c \<Longrightarrow> t_ok t_contents \<Longrightarrow> chain_ok (c\<lparr>contents := t_contents\<rparr>)"
  "chain_ok c \<Longrightarrow> t_ok t_buyings \<Longrightarrow> chain_ok (c\<lparr>buyings := t_buyings\<rparr>)"
  "chain_ok c \<Longrightarrow> chain_ok (c\<lparr>gpo := g\<rparr>)"
  "chain_ok c \<Longrightarrow> chain_ok (c\<lparr>dgpo := dg\<rparr>)"
  "chain_ok c \<Longrightarrow> chain_ok (c\<lparr>schedule := ms\<rparr>)"
  by (simp_all add: chain_ok_def tables_ok_def assets_ok_def)

lemma chain_ok_tables [frame]:
  "chain_ok c \<Longrightarrow> t_ok (accounts c)"
  "chain_ok c \<Longrightarrow> t_ok (account_stats c)"
  "chain_ok c \<Longrightarrow> t_ok (balances c)"
  "chain_ok c \<Longrightarrow> t_ok (assets c)"
  "chain_ok c \<Longrightarrow> t_ok (asset_dyn c)"
  "chain_ok c \<Longrightarrow> t_ok (vestings c)"
  "chain_ok c \<Longrightarrow> t_ok (miners c)"
  "chain_ok c \<Longrightarrow> t_ok (withdraw_permissions c)"
  "chain_ok c \<Longrightarrow> t_ok (subscriptions c)"
  "chain_ok c \<Longrightarrow> t_ok (details c)"
  "chain_ok c \<Longrightarrow> t_ok (contents c)"
  "chain_ok c \<Longrightarrow> t_ok (buyings c)"
  "chain_ok c \<Longrightarrow> t_ok (seeders c)"
  "chain_ok c \<Longrightarrow> t_ok (seeding_stats c)"
  "chain_ok c \<Longrightarrow> t_ok (nfts c)"
  "chain_ok c \<Longrightarrow> t_ok (nft_data c)"
  "chain_ok c \<Longrightarrow> t_ok (budget_records c)"
  by (simp_all add: chain_ok_def tables_ok_def)

lemma holdings_upd_dyn:
  "holdings (c\<lparr>asset_dyn := t\<rparr>) a = holdings c a - asset_pool_of c a - (if a = 0 then core_pools c else 0) +
     asset_pool_of (c\<lparr>asset_dyn := t\<rparr>) a + (if a = 0 then core_pools (c\<lparr>asset_dyn := t\<rparr>) else 0)"
  by (simp add: holdings_def total_balance_def)

text \<open>Effect of a change of an asset's dynamic data.\<close>

lemma modify_dyn_law:
  assumes "chain_ok c" and "generic_find (assets c) b = Some bo" and "modify_dyn bo f c = Inr c'"
  obtains d d' where "generic_find (asset_dyn c) (dynamic_asset_data_id bo) = Some d" and "f d = Inr d'"
    and "chain_ok c'" and "c' = c\<lparr>asset_dyn := asset_dyn c'\<rparr>"
    and "\<And>a. holdings c' a = holdings c a + (if a = b then asset_pool d' - asset_pool d else 0) +
          (if a = 0 then core_pool d' - core_pool d else 0)"
    and "\<And>a. supply_of c' a = supply_of c a + (if a = b then current_supply d' - current_supply d else 0)"
proof -
  have ok: "assets_ok c" "t_ok (asset_dyn c)" using assms(1) by (simp_all add: chain_ok_def assets_ok_def)
  from assms(3) obtain t where t: "t_modify no_unique (dynamic_asset_data_id bo) f (asset_dyn c) = Inr t"
    and c': "c' = c\<lparr>asset_dyn := t\<rparr>"
    by (auto simp: modify_dyn_def)
  obtain d d' where d: "generic_find (asset_dyn c) (dynamic_asset_data_id bo) = Some d" "f d = Inr d'"
    and t': "t_ok t" "generic_find t = (generic_find (asset_dyn c))(dynamic_asset_data_id bo \<mapsto> d')"
    by (rule t_modify_law [OF ok(2) t]) blast
  have sum: "core_pools c' = core_pools c + core_pool d' - core_pool d"
    by (rule t_sum_modify [OF ok(2) t, of core_pool]) (use d c' in \<open>simp add: core_pools_def\<close>)
  have at: "generic_find t (dynamic_asset_data_id ao) = (if a = b then Some d' else generic_find (asset_dyn c) (dynamic_asset_data_id ao))"
    if "generic_find (assets c) a = Some ao" for a ao
    using that assms(2) assets_ok_inj [OF ok(1) that assms(2)] t'(2) by auto
  have pool: "asset_pool_of c' a = asset_pool_of c a + (if a = b then asset_pool d' - asset_pool d else 0)" for a
  proof (cases "generic_find (assets c) a")
    case None
    then show ?thesis using assms(2) by (auto simp: asset_pool_of_def c')
  next
    case (Some ao)
    then show ?thesis using at [OF Some] assms(2) d(1) by (auto simp: asset_pool_of_def c')
  qed
  have sup: "supply_of c' a = supply_of c a + (if a = b then current_supply d' - current_supply d else 0)" for a
  proof (cases "generic_find (assets c) a")
    case None
    then show ?thesis using assms(2) by (auto simp: supply_of_def c')
  next
    case (Some ao)
    then show ?thesis using at [OF Some] assms(2) d(1) by (auto simp: supply_of_def c')
  qed
  have "assets_ok c'"
    using ok(1) t' unfolding assets_ok_def c' by simp
  moreover have "tables_ok c'" using chain_okD(3) [OF assms(1)] t'(1) by (simp add: tables_ok_def c')
  ultimately have okc': "chain_ok c'" using chain_okD(1) [OF assms(1)] by (simp add: chain_ok_def c')
  have hold: "holdings c' a = holdings c a + (if a = b then asset_pool d' - asset_pool d else 0) +
      (if a = 0 then core_pool d' - core_pool d else 0)" for a
    using pool [of a] sum holdings_upd_dyn [where c = c and t = t and a = a, folded c'] by simp
  show thesis by (rule that [OF d okc' _ hold sup]) (simp add: c')
qed

text \<open>Effect of an adjustment of a balance.\<close>

lemma adjust_balance_holdings:
  assumes "safe_exact S" and "chain_ok c" and "adjust_balance S x d c = Inr c'"
  shows "chain_ok c'" and "holdings c' a = holdings c a + (if a = asset_id d then amount d else 0)"
    and "supply_of c' a = supply_of c a" and "c' = c\<lparr>balances := balances c'\<rparr>"
proof -
  have ok: "balances_ok (balances c)" using assms(2) by (rule chain_okD)
  note l = adjust_balance_law [OF assms(1) ok assms(3)]
  show eq: "c' = c\<lparr>balances := balances c'\<rparr>" by (rule l(4))
  have other: "vestings c' = vestings c" "contents c' = contents c" "buyings c' = buyings c" "assets c' = assets c"
      "asset_dyn c' = asset_dyn c"
    by (subst eq, simp)+
  show "holdings c' a = holdings c a + (if a = asset_id d then amount d else 0)"
    using l(3) [of a] other pools_cong [OF other(4,5)] by (simp add: holdings_def)
  show "supply_of c' a = supply_of c a" using pools_cong [OF other(4,5)] by simp
  obtain t where t: "c' = c\<lparr>balances := t\<rparr>" using eq by blast
  have "tables_ok c'" using chain_okD(3) [OF assms(2)] l(1) by (simp add: t tables_ok_def balances_ok_def)
  then show "chain_ok c'" using l(1) chain_okD(2) [OF assms(2)] other by (simp add: chain_ok_def assets_ok_def)
qed

lemma add_detail_law:
  assumes "chain_ok c" and "add_detail d c = Inr c'"
  shows "chain_ok c'" and "holdings c' a = holdings c a" and "supply_of c' a = supply_of c a"
    and "c' = c\<lparr>details := details c'\<rparr>"
proof -
  from assms(2) obtain t where t: "t_create no_unique d (details c) = Inr t" and c': "c' = c\<lparr>details := t\<rparr>"
    by (auto simp: add_detail_def)
  have "t_ok t" using t_create_law(1) [OF _ t] assms(1) by (simp add: frame)
  then show "chain_ok c'" using assms(1) by (simp add: c' frame)
  show "holdings c' a = holdings c a" "supply_of c' a = supply_of c a" "c' = c\<lparr>details := details c'\<rparr>"
    by (simp_all add: c' frame)
qed

lemma asset_neg_exact: "safe_exact S \<Longrightarrow> asset_neg S d = Inr n \<Longrightarrow> n = mk_asset (- amount d) (asset_id d)"
  by (auto simp: asset_neg_def dest!: safe_exactD)

text \<open>An evaluator that changes no total and relies on nothing.\<close>

definition nothing :: "'x \<Rightarrow> asset_id_type \<Rightarrow> int" where
  "nothing x a = 0"

definition no_pre :: "'x \<Rightarrow> chain \<Rightarrow> bool" where
  "no_pre x c = True"

section \<open>The template conserves\<close>

lemma fee_moves_paid:
  assumes "safe_exact S" and "chain_ok c" and "\<not> skip_fee st" and "prepare_fee c payer fee = Inr f0"
    and "f = f0\<lparr>core_fee_paid := p\<rparr>"
    and "convert_fee S st f c = Inr c1" and "pay_fee S st f c1 = Inr c2"
  shows "chain_ok c2" and "holdings c2 a = holdings c a +
      (if a = asset_id fee then (if a = 0 then p else amount fee) else 0)"
    and "supply_of c2 a = supply_of c a" and "c2 = c\<lparr>asset_dyn := asset_dyn c2\<rparr>"
proof -
  have f: "fee_from_account f = fee" "generic_find (assets c) (asset_id fee) = Some (fee_asset f)"
      "core_fee_paid f = p"
    using assms(4-5) by (auto simp: prepare_fee_def get_asset_def get_account_def get_dyn_def split: if_splits)
  have 1: "chain_ok c1 \<and> c1 = c\<lparr>asset_dyn := asset_dyn c1\<rparr> \<and> supply_of c1 a = supply_of c a \<and>
      holdings c1 a = holdings c a + (if asset_id fee = 0 then 0
        else (if a = asset_id fee then amount fee else 0) - (if a = 0 then core_fee_paid f else 0))" for a
  proof (cases "asset_id fee = 0")
    case True
    then have "c1 = c" using assms(3,6) f(1) by (simp add: convert_fee_def)
    then show ?thesis using True assms(2) by simp
  next
    case False
    then have m: "modify_dyn (fee_asset f) (\<lambda>d.
            bindE (S (asset_pool d + amount fee)) (\<lambda>ap.
            bindE (S (core_pool d - core_fee_paid f)) (\<lambda>cp.
            Inr (d\<lparr>asset_pool := ap, core_pool := cp\<rparr>)))) c = Inr c1"
      using assms(3,6) f(1) by (simp add: convert_fee_def)
    show ?thesis
      by (rule modify_dyn_law [OF assms(2) f(2) m])
        (use False in \<open>auto dest!: safe_exactD [OF assms(1)]\<close>)
  qed
  have ok1: "chain_ok c1" using 1 by blast
  from assms(3,7) obtain core where core: "generic_find (assets c1) 0 = Some core"
    and m: "modify_dyn core (\<lambda>d. bindE (S (asset_pool d + core_fee_paid f)) (\<lambda>ap. Inr (d\<lparr>asset_pool := ap\<rparr>))) c1 = Inr c2"
    by (auto simp: pay_fee_def get_asset_def)
  have 2: "chain_ok c2 \<and> c2 = c1\<lparr>asset_dyn := asset_dyn c2\<rparr> \<and> supply_of c2 a = supply_of c1 a \<and>
      holdings c2 a = holdings c1 a + (if a = 0 then core_fee_paid f else 0)" for a
    by (rule modify_dyn_law [OF ok1 core m]) (auto dest!: safe_exactD [OF assms(1)])
  show "chain_ok c2" using 2 by blast
  show "supply_of c2 a = supply_of c a" using 1 2 by simp
  show "holdings c2 a = holdings c a + (if a = asset_id fee then (if a = 0 then p else amount fee) else 0)"
    using 1 [of a] 2 [of a] f(3) by auto
  obtain t where "c1 = c\<lparr>asset_dyn := t\<rparr>" using 1 by blast
  moreover obtain u where "c2 = c1\<lparr>asset_dyn := u\<rparr>" using 2 by blast
  ultimately show "c2 = c\<lparr>asset_dyn := asset_dyn c2\<rparr>" by simp
qed

lemma fee_moves:
  assumes "safe_exact S" and "chain_ok c" and "\<not> skip_fee st" and "prepare_fee c payer fee = Inr f"
    and "convert_fee S st f c = Inr c1" and "pay_fee S st f c1 = Inr c2"
  shows "chain_ok c2" and "holdings c2 a = holdings c a + (if a = asset_id fee then amount fee else 0)"
    and "supply_of c2 a = supply_of c a" and "c2 = c\<lparr>asset_dyn := asset_dyn c2\<rparr>"
proof -
  have "f = f\<lparr>core_fee_paid := core_fee_paid f\<rparr>" by simp
  note m = fee_moves_paid [OF assms(1-4) this assms(5,6)]
  have "asset_id fee = 0 \<longrightarrow> core_fee_paid f = amount fee"
    using assms(4) by (auto simp: prepare_fee_def split: if_splits)
  then show "holdings c2 a = holdings c a + (if a = asset_id fee then amount fee else 0)" using m(2) [of a] by auto
qed (use fee_moves_paid(1,3,4) [OF assms(1-4) _ assms(5,6), of "core_fee_paid f"] in simp_all)

text \<open>
  The contract of an evaluator. \<open>delta x a\<close> is by how much \<open>do_apply\<close> changes what is held of
  \<open>a\<close>, \<open>issued x a\<close> by how much it changes the recorded supply; both are known after
  \<open>do_evaluate\<close>. \<open>pre\<close> is what \<open>do_evaluate\<close> has established for \<open>do_apply\<close> and the fee
  leaves untouched.
\<close>

locale evaluator_contract = safe_arith S for S :: safe +
  fixes do_evaluate :: "fee_state \<Rightarrow> chain \<Rightarrow> (fee_state \<times> 'x) res"
    and do_apply :: "fee_state \<Rightarrow> 'x \<Rightarrow> chain \<Rightarrow> chain res"
    and pre :: "'x \<Rightarrow> chain \<Rightarrow> bool"
    and delta :: "'x \<Rightarrow> asset_id_type \<Rightarrow> int"
    and issued :: "'x \<Rightarrow> asset_id_type \<Rightarrow> int"
  assumes evaluate_law: "chain_ok c \<Longrightarrow> do_evaluate f c = Inr (f', x) \<Longrightarrow> f' = f \<and> pre x c"
    and pre_law: "pre x c \<Longrightarrow> pre x (c\<lparr>asset_dyn := t\<rparr>)"
    and apply_law: "chain_ok c \<Longrightarrow> pre x c \<Longrightarrow> do_apply f x c = Inr c' \<Longrightarrow>
      chain_ok c' \<and> holdings c' a = holdings c a + delta x a \<and> supply_of c' a = supply_of c a + issued x a"
begin

lemma run_steps:
  assumes "chain_ok c" and "\<not> skip_fee st"
    and "start_evaluate S st r payer fee do_evaluate do_apply c = Inr c'"
  obtains f x c2 c3 where "evaluate st r payer fee do_evaluate c = Inr (f, x)" and "do_evaluate f c = Inr (f, x)"
    and "prepare_fee c payer fee = Inr f"
    and "pre x c2" and "chain_ok c2" and "c2 = c\<lparr>asset_dyn := asset_dyn c2\<rparr>"
    and "\<And>a. holdings c2 a = holdings c a + (if a = asset_id fee then amount fee else 0)"
    and "\<And>a. supply_of c2 a = supply_of c a" and "do_apply f x c2 = Inr c3"
    and "adjust_balance S payer (mk_asset (- amount fee) (asset_id fee)) c3 = Inr c'"
proof -
  from assms(3) obtain f x where ev: "evaluate st r payer fee do_evaluate c = Inr (f, x)"
    and ap: "apply_op S st payer f (do_apply f x) c = Inr c'"
    by (auto simp: start_evaluate_def)
  from ev obtain f0 where f0: "prepare_fee c payer fee = Inr f0" and de: "do_evaluate f0 c = Inr (f, x)"
    by (auto simp: evaluate_def split: if_splits)
  have ff: "f = f0" and pre: "pre x c" using evaluate_law [OF assms(1) de] by simp_all
  have fee: "fee_from_account f = fee"
    using f0 ff by (auto simp: prepare_fee_def split: if_splits)
  from ap obtain c1 c2 c3 d where 1: "convert_fee S st f c = Inr c1" and 2: "pay_fee S st f c1 = Inr c2"
    and 3: "do_apply f x c2 = Inr c3" and d: "asset_neg S fee = Inr d" and 4: "adjust_balance S payer d c3 = Inr c'"
    by (auto simp: apply_op_def fee)
  note m = fee_moves [OF exact assms(1,2) f0 [folded ff] 1 2]
  have pre2: "pre x c2" using pre_law [OF pre, of "asset_dyn c2"] m(4) by simp
  show thesis
    using that [OF ev de [folded ff] f0 [folded ff] pre2 m(1,4,2,3) 3] 4 asset_neg_exact [OF exact d] by simp
qed

lemma run_law:
  assumes "chain_ok c" and "\<not> skip_fee st"
    and "start_evaluate S st r payer fee do_evaluate do_apply c = Inr c'"
  shows "\<exists>f x. evaluate st r payer fee do_evaluate c = Inr (f, x) \<and> chain_ok c' \<and>
    (\<forall>a. holdings c' a = holdings c a + delta x a \<and> supply_of c' a = supply_of c a + issued x a)"
  using assms
proof (rule run_steps)
  fix f x c2 c3
  assume ev: "evaluate st r payer fee do_evaluate c = Inr (f, x)" and pre: "pre x c2" and ok: "chain_ok c2"
    and h: "\<And>a. holdings c2 a = holdings c a + (if a = asset_id fee then amount fee else 0)"
    and s: "\<And>a. supply_of c2 a = supply_of c a" and 3: "do_apply f x c2 = Inr c3"
    and 4: "adjust_balance S payer (mk_asset (- amount fee) (asset_id fee)) c3 = Inr c'"
  note a3 = apply_law [OF ok pre 3]
  note a4 = adjust_balance_holdings [OF exact conjunct1 [OF a3] 4]
  have "holdings c' a = holdings c a + delta x a \<and> supply_of c' a = supply_of c a + issued x a" for a
    using h [of a] s [of a] a3 [of a] a4(2,3) [of a] by simp
  then show ?thesis using ev a4(1) by blast
qed

end

text \<open>An evaluator that reads what it needs again when it is applied, and moves nothing.\<close>

lemma keeps_contract:
  assumes "safe_exact S"
    and "\<And>c f f' x. chain_ok c \<Longrightarrow> de f c = Inr (f', x) \<Longrightarrow> f' = f"
    and "\<And>c x f c' a. chain_ok c \<Longrightarrow> da f x c = Inr c' \<Longrightarrow>
      chain_ok c' \<and> holdings c' a = holdings c a \<and> supply_of c' a = supply_of c a"
  shows "evaluator_contract S de da no_pre nothing nothing"
  by unfold_locales (use assms in \<open>auto simp: no_pre_def nothing_def\<close>)

lemma get_balance_asset: "balances_ok (balances c) \<Longrightarrow> asset_id (get_balance c x a) = a"
  by (auto simp: get_balance_def balance_of_row_def balances_ok_def is_balance_of_def split: option.splits dest: t_find_by_SomeD)

text \<open>The inside of an operation: what its evaluator saw, and its effect between the payment of the fee and its booking.\<close>

lemma run_inner:
  assumes con: "evaluator_contract S de da pre d i" and ok: "chain_ok c" "\<not> skip_fee st"
    and run: "start_evaluate S st r payer fee de da c = Inr c'"
  obtains f x t c3 b where "de f c = Inr (f, x)" and "chain_ok (c\<lparr>asset_dyn := t\<rparr>)" and "da f x (c\<lparr>asset_dyn := t\<rparr>) = Inr c3"
    and "chain_ok c3" and "c' = c3\<lparr>balances := b\<rparr>"
  using ok run
proof (rule evaluator_contract.run_steps [OF con])
  fix f x c2 c3
  assume de: "de f c = Inr (f, x)" and pre: "pre x c2" and ok2: "chain_ok c2" and c2: "c2 = c\<lparr>asset_dyn := asset_dyn c2\<rparr>"
    and da: "da f x c2 = Inr c3" and ad: "adjust_balance S payer (mk_asset (- amount fee) (asset_id fee)) c3 = Inr c'"
  have S: "safe_exact S" using con by (simp add: evaluator_contract_def safe_arith_def)
  have ok3: "chain_ok c3" using evaluator_contract.apply_law [OF con ok2 pre da] by blast
  show thesis
    using that [of f x "asset_dyn c2" c3 "balances c'"] de da ok2 ok3 c2 adjust_balance_holdings(4) [OF S ok3 ad] by metis
qed

lemma adjust_balance_of:
  assumes "safe_exact S" and "chain_ok c" and "adjust_balance S x d c = Inr c'"
  shows "balance_of c' y a = balance_of c y a + (if y = x \<and> a = asset_id d then amount d else 0)"
  using adjust_balance_law(2) [OF assms(1) chain_okD(1) [OF assms(2)] assms(3)] by simp

lemma balance_of_cong: "balances c' = balances c \<Longrightarrow> balance_of c' y a = balance_of c y a"
  by (simp add: balance_of_def get_balance_def)

lemma asset_times_price_nonneg: "asset_times_price a p = Inr b \<Longrightarrow> 0 \<le> amount b"
  by (auto simp: asset_times_price_def Let_def split: if_splits)

text \<open>A table whose objects hold money changes the holdings by what its rows change.\<close>

lemma modify_vesting_law:
  assumes "chain_ok c" and "t_modify no_unique k f (vestings c) = Inr t"
  obtains u v where "generic_find (vestings c) k = Some u" and "f u = Inr v" and "chain_ok (c\<lparr>vestings := t\<rparr>)"
    and "\<And>a. holdings (c\<lparr>vestings := t\<rparr>) a = holdings c a + vested_in a v - vested_in a u"
    and "\<And>a. supply_of (c\<lparr>vestings := t\<rparr>) a = supply_of c a"
    and "generic_find t = (generic_find (vestings c))(k \<mapsto> v)"
proof -
  have ok: "t_ok (vestings c)" using assms(1) by (simp add: frame)
  obtain u v where uv: "generic_find (vestings c) k = Some u" "f u = Inr v" "t_ok t"
      "generic_find t = (generic_find (vestings c))(k \<mapsto> v)"
    by (rule t_modify_law [OF ok assms(2)]) blast
  have "t_sum (vested_in a) t = t_sum (vested_in a) (vestings c) + vested_in a v - vested_in a u" for a
    by (rule t_sum_modify [OF ok assms(2), of "vested_in a"]) (use uv in simp)
  then show thesis using that [OF uv(1,2) _ _ _ uv(4)] assms(1) uv(3) by (simp add: frame)
qed

section \<open>Concrete instances\<close>

text \<open>An executable form of the invariant, for concrete states.\<close>

definition assets_rows_ok :: "chain \<Rightarrow> bool" where
  "assets_rows_ok c \<longleftrightarrow>
     list_all (\<lambda>p. list_ex (\<lambda>q. fst q = dynamic_asset_data_id (snd p)) (g_rows (asset_dyn c))) (g_rows (assets c)) \<and>
     distinct (map (\<lambda>p. dynamic_asset_data_id (snd p)) (g_rows (assets c)))"

lemma assets_ok_rows:
  assumes "t_ok (assets c)" and "t_ok (asset_dyn c)" and "assets_rows_ok c"
  shows "assets_ok c"
  unfolding assets_ok_def
proof (intro conjI allI impI)
  fix a ao assume "generic_find (assets c) a = Some ao"
  then have "(a, ao) \<in> set (g_rows (assets c))" by (rule generic_find_row)
  then obtain q where "q \<in> set (g_rows (asset_dyn c))" "fst q = dynamic_asset_data_id ao"
    using assms(3) by (force simp: assets_rows_ok_def list_all_iff list_ex_iff)
  then show "generic_find (asset_dyn c) (dynamic_asset_data_id ao) \<noteq> None"
    unfolding generic_find_def map_of_eq_None_iff by force
next
  fix a b ao bo
  assume "generic_find (assets c) a = Some ao" and "generic_find (assets c) b = Some bo"
    and e: "dynamic_asset_data_id ao = dynamic_asset_data_id bo"
  then have m: "(a, ao) \<in> set (g_rows (assets c))" "(b, bo) \<in> set (g_rows (assets c))"
    by (auto intro: generic_find_row)
  have "inj_on (\<lambda>p. dynamic_asset_data_id (snd p)) (set (g_rows (assets c)))"
    using assms(3) by (simp add: assets_rows_ok_def distinct_map)
  from inj_onD [OF this _ m] have "(a, ao) = (b, bo)" by (simp add: e)
  then show "a = b" by simp
qed (rule assms)+

definition chain_rows_ok :: "chain \<Rightarrow> bool" where
  "chain_rows_ok c \<longleftrightarrow> tables_ok c \<and> rows_nonneg (balances c) \<and> assets_rows_ok c \<and>
     sorted_wrt (\<lambda>p q. \<not> balance_key (snd p) (snd q) \<and> \<not> balance_key (snd q) (snd p)) (g_rows (balances c))"

lemma chain_ok_rows: "chain_rows_ok c \<Longrightarrow> chain_ok c"
  by (auto simp: chain_rows_ok_def chain_ok_def tables_ok_def intro: balances_ok_rows assets_ok_rows)

definition demo_trx :: trx_state where
  "demo_trx = \<lparr>skip_fee = False, skip_fee_schedule_check = False, is_proposed_trx = False\<rparr>"

definition demo_forks :: fork_times_t where
  "demo_forks = \<lparr>hf1 = 100, hf2 = 200, hf3 = 300, hf4 = 350\<rparr>"

definition demo_content :: content_object where
  "demo_content = \<lparr>co_author_of = 5, co_authors = [(0, 2500), (1, 1000)], co_expiration = 500, co_created = 300,
     co_price = [(1, mk_asset 40 0)], co_synopsis = ''film'', co_size = 3, co_quorum = 2, co_URI = ''ipfs:a'',
     co_key_parts = [(2, 7)], co_last_proof = [], co_seeder_price = [(2, 1)], co_is_blocked = False, co_hash = 9,
     co_AVG_rating = 0, co_num_of_ratings = 0, co_times_bought = 0, co_publishing_fee_escrow = mk_asset 60 0,
     co_cd = None\<rparr>"

definition demo_content_chain :: chain where
  "demo_content_chain = demo_chain\<lparr>contents := \<lparr>g_next_id = 1, g_rows = [(0, demo_content)]\<rparr>\<rparr>"

lemma demo_chain_ok: "chain_ok demo_chain"
  by (rule chain_ok_rows) code_simp

lemma demo_content_chain_ok: "chain_ok demo_content_chain"
  by (rule chain_ok_rows) code_simp

lemma demo_trx_fee: "\<not> skip_fee demo_trx"
  by (simp add: demo_trx_def)

end
