(* ===== verification/Transfer_Evaluator.thy ===== *)
theory Transfer_Evaluator
  imports Evaluator Decimal
begin

text \<open>
  \<open>transfer\_evaluator.cpp\<close> and \<open>protocol/transfer.cpp\<close>: transfers to accounts and to content,
  where the amount is split between the author and the co-authors. Both evaluators keep the
  contract of the template: nothing is created or lost.
\<close>

section \<open>Operations\<close>

record transfer_obsolete_operation =
  tro_fee :: asset
  tro_from :: account_id_type
  tro_to :: account_id_type
  tro_amount :: asset
  tro_memo :: "opaque option"

definition transfer_obsolete_validate :: "transfer_obsolete_operation \<Rightarrow> unit res" where
  "transfer_obsolete_validate op =
     bindE (require (0 \<le> amount (tro_fee op)) Assert_Exception) (\<lambda>_.
     bindE (require (tro_from op \<noteq> tro_to op) Assert_Exception) (\<lambda>_.
     require (0 < amount (tro_amount op)) Assert_Exception))"

text \<open>The payee is an object id; \<open>validate\<close> admits accounts and content only.\<close>

datatype payee = To_Account account_id_type | To_Content nat | To_Other

record transfer_operation =
  tr_fee :: asset
  tr_from :: account_id_type
  tr_to :: payee
  tr_amount :: asset
  tr_memo :: "opaque option"

definition transfer_validate :: "transfer_operation \<Rightarrow> unit res" where
  "transfer_validate op =
     bindE (require (0 \<le> amount (tr_fee op)) Assert_Exception) (\<lambda>_.
     bindE (require (tr_to op \<noteq> To_Other) Assert_Exception) (\<lambda>_.
     bindE (require (tr_to op \<noteq> To_Account (tr_from op)) Assert_Exception) (\<lambda>_.
     require (0 < amount (tr_amount op)) Assert_Exception)))"

definition is_partner_account_id :: "transfer_operation \<Rightarrow> account_id_type \<Rightarrow> bool" where
  "is_partner_account_id op acc =
     (if tr_from op = acc then True else if tr_to op = To_Account acc then True else False)"

section \<open>The obsolete transfer\<close>

definition transfer_obsolete_do_evaluate ::
  "transfer_obsolete_operation \<Rightarrow> fee_state \<Rightarrow> chain \<Rightarrow> (fee_state \<times> unit) res" where
  "transfer_obsolete_do_evaluate op f c =
     bindE (get_account c (tro_from op)) (\<lambda>from_account.
     bindE (get_account c (tro_to op)) (\<lambda>to_account.
     bindE (get_asset c (asset_id (tro_amount op))) (\<lambda>asset_type.
     bindE (require (amount (tro_amount op) \<le> amount (get_balance c (tro_from op) (asset_id (tro_amount op))))
              Assert_Exception) (\<lambda>_.
     Inr (f, ())))))"

definition transfer_obsolete_do_apply ::
  "safe \<Rightarrow> transfer_obsolete_operation \<Rightarrow> fee_state \<Rightarrow> unit \<Rightarrow> chain \<Rightarrow> chain res" where
  "transfer_obsolete_do_apply S op f u c =
     bindE (asset_neg S (tro_amount op)) (\<lambda>neg.
     bindE (adjust_balance S (tro_from op) neg c) (\<lambda>c1.
     bindE (adjust_balance S (tro_to op) (tro_amount op) c1) (\<lambda>c2.
     add_detail \<lparr>m_from_account = tro_from op, m_to_account = tro_to op, m_operation_type = Transfer,
       m_transaction_amount = tro_amount op, m_transaction_fee = tro_fee op, m_str_description = ''transfer'',
       m_memo = tro_memo op, m_timestamp = head_block_time c2, m_nft_data_id = None\<rparr> c2)))"

section \<open>The transfer\<close>

text \<open>Transfers to unknown accounts were accepted up to this time.\<close>

definition transfer_check_time :: int where
  "transfer_check_time = 1561543200"

definition transfer_do_evaluate ::
  "fork_times_t \<Rightarrow> transfer_operation \<Rightarrow> fee_state \<Rightarrow> chain \<Rightarrow> (fee_state \<times> unit) res" where
  "transfer_do_evaluate ft op f c =
     bindE (require (hf2 ft < head_block_time c) Assert_Exception) (\<lambda>_.
     bindE (get_account c (tr_from op)) (\<lambda>from_account.
     bindE (get_asset c (asset_id (tr_amount op))) (\<lambda>asset_type.
     bindE (case tr_to op of
              To_Content k \<Rightarrow>
                bindE (lift_opt Assert_Exception (generic_find (contents c) k)) (\<lambda>content.
                bindE (get_account c (co_author_of content)) (\<lambda>_. Inr ()))
            | To_Account acc \<Rightarrow>
                if transfer_check_time < int (head_block_time c)
                then bindE (get_account c acc) (\<lambda>_. Inr ()) else Inr ()
            | To_Other \<Rightarrow>
                if transfer_check_time < int (head_block_time c) then Inl Assert_Exception else Inr ()) (\<lambda>_.
     bindE (require (amount (tr_amount op) \<le> amount (get_balance c (tr_from op) (asset_id (tr_amount op))))
              Assert_Exception) (\<lambda>_.
     Inr (f, ()))))))"

text \<open>
  The share of a co-author: a product of two machine integers, computed in 64 bits although the
  variable that takes it has 128, divided by 10000 with truncation.
\<close>

definition co_author_share :: "int \<Rightarrow> nat \<Rightarrow> int" where
  "co_author_share amt weight = c_div (sint (word_of_int (amt * int weight) :: 64 word)) 10000"

definition pay_co_author ::
  "safe \<Rightarrow> asset \<Rightarrow> account_id_type \<times> nat \<Rightarrow> chain \<times> int \<Rightarrow> (chain \<times> int) res" where
  "pay_co_author S whole element s =
     (let share = co_author_share (amount whole) (snd element)
      in bindE (adjust_balance S (fst element) (mk_asset share (asset_id whole)) (fst s)) (\<lambda>c.
         bindE (S (snd s - share)) (\<lambda>rest. Inr (c, rest))))"

text \<open>The split between co-authors and author; the author gets what the co-authors leave.\<close>

definition pay_authors :: "safe \<Rightarrow> content_object \<Rightarrow> asset \<Rightarrow> chain \<Rightarrow> chain res" where
  "pay_authors S content whole c =
     bindE (foldE (pay_co_author S whole) (co_authors content) (c, amount whole)) (\<lambda>(c1, rest).
     if rest \<noteq> 0 then
       bindE (require (0 < rest) Assert_Exception) (\<lambda>_.
       adjust_balance S (co_author_of content) (mk_asset rest (asset_id whole)) c1)
     else Inr c1)"

text \<open>
  \<open>do_evaluate\<close> has found the content; the code dereferences the iterator of a second lookup
  without a test, and an id that is neither account nor content has no meaning there.
\<close>

definition transfer_do_apply ::
  "safe \<Rightarrow> transfer_operation \<Rightarrow> fee_state \<Rightarrow> unit \<Rightarrow> chain \<Rightarrow> chain res" where
  "transfer_do_apply S op f u c =
     bindE (asset_neg S (tr_amount op)) (\<lambda>neg.
     bindE (adjust_balance S (tr_from op) neg c) (\<lambda>c1.
     bindE (case tr_to op of
              To_Account acc \<Rightarrow>
                bindE (adjust_balance S acc (tr_amount op) c1) (\<lambda>c2. Inr (c2, acc, ''transfer''))
            | To_Content k \<Rightarrow>
                bindE (lift_opt Assert_Exception (generic_find (contents c1) k)) (\<lambda>content.
                bindE (pay_authors S content (tr_amount op) c1) (\<lambda>c2.
                Inr (c2, co_author_of content, ''transfer to content 2.13.'' @ nat_to_string k)))
            | To_Other \<Rightarrow> Inl Assert_Exception) (\<lambda>(c2, to_acc, descr).
     add_detail \<lparr>m_from_account = tr_from op, m_to_account = to_acc, m_operation_type = Transfer,
       m_transaction_amount = tr_amount op, m_transaction_fee = tr_fee op, m_str_description = descr,
       m_memo = tr_memo op, m_timestamp = head_block_time c2, m_nft_data_id = None\<rparr> c2)))"

section \<open>Both keep the contract\<close>

lemma transfer_obsolete_contract:
  assumes "safe_exact S"
  shows "evaluator_contract S (transfer_obsolete_do_evaluate op) (transfer_obsolete_do_apply S op) no_pre nothing nothing"
proof (unfold_locales, goal_cases)
  case 1
  show ?case by (rule assms)
next
  case (2 c f f' x)
  then show ?case by (auto simp: transfer_obsolete_do_evaluate_def no_pre_def)
next
  case (3 x c t)
  show ?case by (simp add: no_pre_def)
next
  case (4 c x f c' a)
  from 4(3) obtain c1 c2 d neg where n: "asset_neg S (tro_amount op) = Inr neg"
    and 1: "adjust_balance S (tro_from op) neg c = Inr c1"
    and 2: "adjust_balance S (tro_to op) (tro_amount op) c1 = Inr c2" and 3: "add_detail d c2 = Inr c'"
    by (auto simp: transfer_obsolete_do_apply_def)
  note a1 = adjust_balance_holdings [OF assms 4(1) 1]
  note a2 = adjust_balance_holdings [OF assms a1(1) 2]
  note a3 = add_detail_law [OF a2(1) 3]
  show ?case using a1(2,3) [of a] a2(2,3) [of a] a3 asset_neg_exact [OF assms n] by (simp add: nothing_def)
qed

lemma pay_authors_law:
  assumes S: "safe_exact S" and ok: "chain_ok c" and p: "pay_authors S content whole c = Inr c'"
  shows "chain_ok c' \<and> holdings c' a = holdings c a + (if a = asset_id whole then amount whole else 0) \<and>
    supply_of c' a = supply_of c a \<and> contents c' = contents c"
proof -
  from p obtain c1 rest where f: "foldE (pay_co_author S whole) (co_authors content) (c, amount whole) = Inr (c1, rest)"
    and e: "(if rest \<noteq> 0 then bindE (require (0 < rest) Assert_Exception) (\<lambda>_.
       adjust_balance S (co_author_of content) (mk_asset rest (asset_id whole)) c1) else Inr c1) = Inr c'"
    by (auto simp: pay_authors_def)
  let ?I = "\<lambda>(d, r). chain_ok d \<and> (\<forall>a. holdings d a + (if a = asset_id whole then r else 0) =
      holdings c a + (if a = asset_id whole then amount whole else 0)) \<and> (\<forall>a. supply_of d a = supply_of c a) \<and>
      contents d = contents c"
  have "?I (c1, rest)"
  proof (rule foldE_invariant [OF f])
    show "?I (c, amount whole)" using ok by simp
  next
    fix x s s' assume I: "?I s" and st: "pay_co_author S whole x s = Inr s'"
    obtain d r d' r' where s: "s = (d, r)" "s' = (d', r')" by (cases s, cases s')
    from st have ab: "adjust_balance S (fst x) (mk_asset (co_author_share (amount whole) (snd x)) (asset_id whole)) d = Inr d'"
      and r: "r' = r - co_author_share (amount whole) (snd x)"
      by (auto simp: pay_co_author_def Let_def s dest!: safe_exactD [OF S])
    have "chain_ok d" using I s by simp
    note l = adjust_balance_holdings [OF S this ab]
    have "contents d' = contents d" by (subst l(4)) simp
    moreover have "holdings d' b + (if b = asset_id whole then r' else 0) =
        holdings d b + (if b = asset_id whole then r else 0)" for b
      using l(2) [of b] r by simp
    ultimately show "?I s'" using I l(1,3) s by simp
  qed
  then have ok1: "chain_ok c1" and h1: "holdings c1 a + (if a = asset_id whole then rest else 0) =
      holdings c a + (if a = asset_id whole then amount whole else 0)" and s1: "supply_of c1 a = supply_of c a"
    and k1: "contents c1 = contents c" by auto
  show ?thesis
  proof (cases "rest = 0")
    case True
    then show ?thesis using e ok1 h1 s1 k1 by (simp split: if_splits)
  next
    case False
    then have ab: "adjust_balance S (co_author_of content) (mk_asset rest (asset_id whole)) c1 = Inr c'" using e by simp
    note l = adjust_balance_holdings [OF S ok1 ab]
    have "contents c' = contents c1" by (subst l(4)) simp
    then show ?thesis using l(1) l(2,3) [of a] h1 s1 k1 by (simp split: if_splits)
  qed
qed

lemma transfer_contract:
  assumes "safe_exact S"
  shows "evaluator_contract S (transfer_do_evaluate ft op) (transfer_do_apply S op) no_pre nothing nothing"
proof (unfold_locales, goal_cases)
  case 1
  show ?case by (rule assms)
next
  case (2 c f f' x)
  then show ?case by (auto simp: transfer_do_evaluate_def no_pre_def)
next
  case (3 x c t)
  show ?case by (simp add: no_pre_def)
next
  case (4 c x f c' a)
  from 4(3) obtain c1 neg c2 u v d where n: "asset_neg S (tr_amount op) = Inr neg"
    and 1: "adjust_balance S (tr_from op) neg c = Inr c1"
    and 2: "(case tr_to op of
              To_Account acc \<Rightarrow>
                bindE (adjust_balance S acc (tr_amount op) c1) (\<lambda>c2. Inr (c2, acc, ''transfer''))
            | To_Content k \<Rightarrow>
                bindE (lift_opt Assert_Exception (generic_find (contents c1) k)) (\<lambda>content.
                bindE (pay_authors S content (tr_amount op) c1) (\<lambda>c2.
                Inr (c2, co_author_of content, ''transfer to content 2.13.'' @ nat_to_string k)))
            | To_Other \<Rightarrow> Inl Assert_Exception) = Inr (c2, u, v)"
    and 3: "add_detail d c2 = Inr c'"
    unfolding transfer_do_apply_def by (simp only: bindE_eq_Inr) fast
  note a1 = adjust_balance_holdings [OF assms 4(1) 1]
  have a2: "chain_ok c2 \<and> holdings c2 a = holdings c1 a + (if a = asset_id (tr_amount op) then amount (tr_amount op) else 0) \<and>
      supply_of c2 a = supply_of c1 a"
    using 2 adjust_balance_holdings(1-3) [OF assms a1(1)] pay_authors_law [OF assms a1(1)]
    by (auto split: payee.splits)
  note a3 = add_detail_law [OF conjunct1 [OF a2] 3]
  show ?case using a1(2,3) [of a] a2 a3 asset_neg_exact [OF assms n] by (simp add: nothing_def)
qed

sublocale safe_arith \<subseteq> transfer_obsolete: evaluator_contract S "transfer_obsolete_do_evaluate op"
    "transfer_obsolete_do_apply S op" no_pre nothing nothing for op
  by (rule transfer_obsolete_contract [OF exact])

sublocale safe_arith \<subseteq> transfer: evaluator_contract S "transfer_do_evaluate ft op" "transfer_do_apply S op"
    no_pre nothing nothing for ft op
  by (rule transfer_contract [OF exact])

section \<open>Properties\<close>

text \<open>
  C1. A transfer to an account that the chain accepts moves exactly the amount and takes exactly the
  fee: the balance of every account in every asset is what it was, less amount and fee for the
  sender, plus the amount for the payee.
\<close>

theorem transfer_moves:
  assumes "safe_exact S" and "chain_ok c" and "\<not> skip_fee st" and "tr_to op = To_Account acc"
    and "start_evaluate S st r (tr_from op) (tr_fee op) (transfer_do_evaluate ft op) (transfer_do_apply S op) c = Inr c'"
  shows "balance_of c' y a = balance_of c y a
    - (if y = tr_from op \<and> a = asset_id (tr_amount op) then amount (tr_amount op) else 0)
    + (if y = acc \<and> a = asset_id (tr_amount op) then amount (tr_amount op) else 0)
    - (if y = tr_from op \<and> a = asset_id (tr_fee op) then amount (tr_fee op) else 0)"
  using assms(2,3,5)
proof (rule evaluator_contract.run_steps [OF transfer_contract [OF assms(1)]])
  fix f x c2 c3
  assume ok: "chain_ok c2" and c2: "c2 = c\<lparr>asset_dyn := asset_dyn c2\<rparr>"
    and 3: "transfer_do_apply S op f x c2 = Inr c3"
    and 4: "adjust_balance S (tr_from op) (mk_asset (- amount (tr_fee op)) (asset_id (tr_fee op))) c3 = Inr c'"
  from 3 assms(4) obtain neg d1 d2 d where n: "asset_neg S (tr_amount op) = Inr neg"
    and 5: "adjust_balance S (tr_from op) neg c2 = Inr d1" and 6: "adjust_balance S acc (tr_amount op) d1 = Inr d2"
    and 7: "add_detail d d2 = Inr c3"
    by (auto simp: transfer_do_apply_def)
  have ok1: "chain_ok d1" and ok2: "chain_ok d2" and ok3: "chain_ok c3"
    using adjust_balance_holdings(1) [OF assms(1)] add_detail_law(1) ok 5 6 7 by blast+
  have "balances c2 = balances c" by (subst c2) simp
  moreover have "balances c3 = balances d2" by (subst add_detail_law(4) [OF ok2 7]) simp
  ultimately show ?thesis
    using adjust_balance_of [OF assms(1) ok 5] adjust_balance_of [OF assms(1) ok1 6] adjust_balance_of [OF assms(1) ok3 4]
      asset_neg_exact [OF assms(1) n] balance_of_cong [of c2 c] balance_of_cong [of c3 d2] by simp
qed

definition demo_transfer :: transfer_operation where
  "demo_transfer = \<lparr>tr_fee = mk_asset 5 1, tr_from = 4, tr_to = To_Account 5, tr_amount = mk_asset 200 0, tr_memo = None\<rparr>"

theorem transfer_moves_witness:
  "\<exists>c'. start_evaluate checked64 demo_trx (Inr 10) 4 (mk_asset 5 1) (transfer_do_evaluate demo_forks demo_transfer)
      (transfer_do_apply checked64 demo_transfer) demo_chain = Inr c' \<and>
    balance_of c' 4 0 = balance_of demo_chain 4 0 - 200 \<and> balance_of c' 5 0 = balance_of demo_chain 5 0 + 200 \<and>
    balance_of c' 4 1 = balance_of demo_chain 4 1 - 5"
proof -
  let ?r = "start_evaluate checked64 demo_trx (Inr 10) (tr_from demo_transfer) (tr_fee demo_transfer)
    (transfer_do_evaluate demo_forks demo_transfer) (transfer_do_apply checked64 demo_transfer) demo_chain"
  have "succeeds ?r" by code_simp
  then obtain c' where r: "?r = Inr c'" by (rule succeedsE)
  have "tr_to demo_transfer = To_Account 5" by (simp add: demo_transfer_def)
  note t = transfer_moves [OF checked64_exact demo_chain_ok demo_trx_fee this r]
  show ?thesis
    using r t [of 4 0] t [of 5 0] t [of 4 1] by (simp add: demo_transfer_def)
qed

text \<open>
  A transfer, to an account or split between the authors of a content, creates and destroys
  nothing: balances, vesting balances, escrows and pools together hold the same amount of every
  asset before and after, and no recorded supply changes.
\<close>

theorem transfer_conserves:
  assumes "safe_exact S" and "chain_ok c" and "\<not> skip_fee st"
    and "start_evaluate S st r (tr_from op) (tr_fee op) (transfer_do_evaluate ft op) (transfer_do_apply S op) c = Inr c'"
  shows "chain_ok c' \<and> holdings c' a = holdings c a \<and> supply_of c' a = supply_of c a"
  using evaluator_contract.run_law [OF transfer_contract [OF assms(1)] assms(2-4)] by (auto simp: nothing_def)

definition demo_content_transfer :: transfer_operation where
  "demo_content_transfer = \<lparr>tr_fee = mk_asset 10 0, tr_from = 4, tr_to = To_Content 0, tr_amount = mk_asset 200 0,
     tr_memo = None\<rparr>"

theorem transfer_conserves_witness:
  "\<exists>c'. start_evaluate checked64 demo_trx (Inr 10) 4 (mk_asset 10 0)
      (transfer_do_evaluate demo_forks demo_content_transfer)
      (transfer_do_apply checked64 demo_content_transfer) demo_content_chain = Inr c' \<and>
    holdings c' 0 = holdings demo_content_chain 0"
proof -
  let ?r = "start_evaluate checked64 demo_trx (Inr 10) (tr_from demo_content_transfer) (tr_fee demo_content_transfer)
    (transfer_do_evaluate demo_forks demo_content_transfer) (transfer_do_apply checked64 demo_content_transfer)
    demo_content_chain"
  have "succeeds ?r" by code_simp
  then obtain c' where r: "?r = Inr c'" by (rule succeedsE)
  show ?thesis
    using r transfer_conserves [OF checked64_exact demo_content_chain_ok demo_trx_fee r, of 0]
    by (simp add: demo_content_transfer_def)
qed

text \<open>
  The co-author's share is computed in 64 bits: it is the weighted part of the amount as long as
  the product of amount and weight stays below \<open>2 ^ 63\<close>, and past that, within the supply of the
  core asset, it is negative.
\<close>

theorem co_author_share_range:
  "(\<forall>amt weight. 0 \<le> amt \<and> amt * int weight < 2 ^ 63 \<longrightarrow> co_author_share amt weight = amt * int weight div 10000) \<and>
   co_author_share 2000000000000000 7000 < 0 \<and> 2000000000000000 < GRAPHENE_MAX_SHARE_SUPPLY"
proof (intro conjI allI impI)
  fix amt weight assume a: "0 \<le> amt \<and> amt * int weight < 2 ^ 63"
  then have "sint (word_of_int (amt * int weight) :: 64 word) = amt * int weight"
    unfolding int_word_sint using mult_nonneg_nonneg [of amt "int weight"] by simp
  then show "co_author_share amt weight = amt * int weight div 10000"
    using a by (auto simp: co_author_share_def c_div_def sgn_if)
next
  show "co_author_share 2000000000000000 7000 < 0" by code_simp
  show "2000000000000000 < GRAPHENE_MAX_SHARE_SUPPLY" by code_simp
qed

theorem co_author_share_range_witness: "co_author_share 1000000 2500 = 250000"
  using co_author_share_range by (auto dest!: spec [of _ 1000000] spec [of _ 2500])

end
