(* ===== verification/Exchange.thy ===== *)
theory Exchange
  imports Evaluator
begin

text \<open>
  The conversions of \<open>asset\_object.hpp\<close>: between the core asset and a user-issued asset, out of
  the pools of the asset, and at the feed of a monitored asset, which has no pools.
\<close>

section \<open>Conversion\<close>

text \<open>What a conversion adds to the asset pool and to the core pool.\<close>

definition uia_conversion :: "safe \<Rightarrow> asset_id_type \<Rightarrow> asset_object \<Rightarrow> asset \<Rightarrow> (asset \<times> int \<times> int) res" where
  "uia_conversion S k ao from =
     (if asset_id from = k then
        bindE (asset_times_price from (core_exchange_rate (options ao))) (\<lambda>to.
        bindE (asset_neg S to) (\<lambda>d. Inr (to, amount from, amount d)))
      else
        bindE (require (asset_id from = 0) Assert_Exception) (\<lambda>_.
        bindE (asset_times_price from (core_exchange_rate (options ao))) (\<lambda>to.
        bindE (asset_neg S to) (\<lambda>d. Inr (to, amount d, amount from)))))"

definition convert_uia :: "safe \<Rightarrow> asset_id_type \<Rightarrow> asset_object \<Rightarrow> asset \<Rightarrow> chain \<Rightarrow> (asset \<times> chain) res" where
  "convert_uia S k ao from c =
     bindE (get_dyn c ao) (\<lambda>add.
     bindE (require (is_exchangeable (options ao) \<and> \<not> price_is_null (core_exchange_rate (options ao))) Assert_Exception) (\<lambda>_.
     bindE (uia_conversion S k ao from) (\<lambda>(to, asset_diff, core_diff).
     bindE (S (asset_pool add + asset_diff)) (\<lambda>ap.
     bindE (require (0 \<le> ap) Assert_Exception) (\<lambda>_.
     bindE (S (core_pool add + core_diff)) (\<lambda>cp.
     bindE (require (0 \<le> cp) Assert_Exception) (\<lambda>_.
     bindE (modify_dyn ao (\<lambda>d.
              bindE (S (asset_pool d + asset_diff)) (\<lambda>x.
              bindE (S (core_pool d + core_diff)) (\<lambda>y. Inr (d\<lparr>asset_pool := x, core_pool := y\<rparr>)))) c) (\<lambda>c'.
     Inr (to, c')))))))))"

definition convert_mia :: "asset_id_type \<Rightarrow> asset_object \<Rightarrow> asset \<Rightarrow> chain \<Rightarrow> asset res" where
  "convert_mia k ao from c =
     (case monitored_asset_opts ao of
        None \<Rightarrow> Inl Assert_Exception
      | Some mo \<Rightarrow>
          bindE (require (feed_is_valid mo (head_block_time c)) Assert_Exception) (\<lambda>_.
          bindE (require (asset_id from = 0 \<or> asset_id from = k) Assert_Exception) (\<lambda>_.
          asset_times_price from (feed_rate (current_feed mo)))))"

definition convert :: "safe \<Rightarrow> asset_id_type \<Rightarrow> asset \<Rightarrow> chain \<Rightarrow> (asset \<times> chain) res" where
  "convert S k from c =
     bindE (get_asset c k) (\<lambda>ao.
     if k = 0 then bindE (require (asset_id from = 0) Assert_Exception) (\<lambda>_. Inr (from, c))
     else if is_monitored_asset ao then bindE (convert_mia k ao from c) (\<lambda>to. Inr (to, c))
     else convert_uia S k ao from c)"

text \<open>\<open>None\<close> when the conversion is not possible, otherwise the result.\<close>

definition can_convert :: "safe \<Rightarrow> asset_id_type \<Rightarrow> asset \<Rightarrow> chain \<Rightarrow> asset option res" where
  "can_convert S k from c =
     bindE (get_asset c k) (\<lambda>ao.
     bindE (get_dyn c ao) (\<lambda>add.
     if k = 0 then Inr (if asset_id from = 0 then Some from else None)
     else if \<not> is_exchangeable (options ao) \<or> price_is_null (core_exchange_rate (options ao)) then Inr None
     else case monitored_asset_opts ao of
       Some mo \<Rightarrow>
         if feed_is_valid mo (head_block_time c) \<and> (asset_id from = 0 \<or> asset_id from = k)
         then bindE (asset_times_price from (feed_rate (current_feed mo))) (\<lambda>to. Inr (Some to))
         else Inr None
     | None \<Rightarrow>
         if asset_id from \<noteq> k \<and> asset_id from \<noteq> 0 then Inr None
         else
           bindE (uia_conversion S k ao from) (\<lambda>(to, asset_diff, core_diff).
           bindE (S (asset_pool add + asset_diff)) (\<lambda>ap.
           if ap < 0 then Inr None
           else bindE (S (core_pool add + core_diff)) (\<lambda>cp. Inr (if cp < 0 then None else Some to))))))"

section \<open>Conversions keep what is held\<close>

text \<open>
  What goes into the pools is what the payer gives, what comes out is what he gets, provided the
  result is of the asset on the other side of the conversion.
\<close>

definition conversion_sides :: "asset_id_type \<Rightarrow> asset \<Rightarrow> asset \<Rightarrow> bool" where
  "conversion_sides k from to \<longleftrightarrow> asset_id from = k \<and> asset_id to = 0 \<or> asset_id from = 0 \<and> asset_id to = k \<or>
     amount from = 0 \<and> amount to = 0"

definition swapped :: "asset \<Rightarrow> asset \<Rightarrow> asset_id_type \<Rightarrow> int" where
  "swapped from to a = (if a = asset_id from then amount from else 0) - (if a = asset_id to then amount to else 0)"

lemma uia_conversion_diffs:
  assumes "safe_exact S" and "k \<noteq> 0" and "conversion_sides k from to" and "uia_conversion S k ao from = Inr (to, x, y)"
  shows "(if a = k then x else 0) + (if a = 0 then y else 0) = swapped from to a"
proof (cases "asset_id from = k")
  case True
  with assms(4) have "x = amount from" "y = - amount to"
    by (auto simp: uia_conversion_def mk_asset_def dest!: asset_neg_exact [OF assms(1)])
  then show ?thesis using True assms(2,3) by (auto simp: conversion_sides_def swapped_def)
next
  case False
  with assms(4) have "x = - amount to" "y = amount from" "asset_id from = 0"
    by (auto simp: uia_conversion_def mk_asset_def dest!: asset_neg_exact [OF assms(1)])
  then show ?thesis using False assms(2,3) by (auto simp: conversion_sides_def swapped_def)
qed

lemma convert_uia_law:
  assumes "safe_exact S" and "chain_ok c" and "generic_find (assets c) k = Some ao" and "k \<noteq> 0"
    and "conversion_sides k from to" and run: "convert_uia S k ao from c = Inr (to, c')"
  shows "chain_ok c' \<and> supply_of c' a = supply_of c a \<and> c' = c\<lparr>asset_dyn := asset_dyn c'\<rparr> \<and>
    holdings c' a = holdings c a + swapped from to a"
proof -
  from run obtain x y where conv: "uia_conversion S k ao from = Inr (to, x, y)"
    and m: "modify_dyn ao (\<lambda>d. bindE (S (asset_pool d + x)) (\<lambda>u. bindE (S (core_pool d + y)) (\<lambda>v.
        Inr (d\<lparr>asset_pool := u, core_pool := v\<rparr>)))) c = Inr c'"
    by (auto simp: convert_uia_def)
  show ?thesis
  proof (rule modify_dyn_law [OF assms(2,3) m])
    fix d d' assume d': "bindE (S (asset_pool d + x)) (\<lambda>u. bindE (S (core_pool d + y)) (\<lambda>v. Inr (d\<lparr>asset_pool := u, core_pool := v\<rparr>))) = Inr d'"
      and ok: "chain_ok c'" "c' = c\<lparr>asset_dyn := asset_dyn c'\<rparr>"
      and h: "\<And>a. holdings c' a = holdings c a + (if a = k then asset_pool d' - asset_pool d else 0) + (if a = 0 then core_pool d' - core_pool d else 0)"
      and s: "\<And>a. supply_of c' a = supply_of c a + (if a = k then current_supply d' - current_supply d else 0)"
    from d' obtain u v where u: "S (asset_pool d + x) = Inr u" "S (core_pool d + y) = Inr v" "d' = d\<lparr>asset_pool := u, core_pool := v\<rparr>" by auto
    have "asset_pool d' = asset_pool d + x" "core_pool d' = core_pool d + y" "current_supply d' = current_supply d"
      using safe_exactD [OF assms(1) u(1)] safe_exactD [OF assms(1) u(2)] u(3) by simp_all
    then have "holdings c' a = holdings c a + ((if a = k then x else 0) + (if a = 0 then y else 0))" "supply_of c' a = supply_of c a"
      using h [of a] s [of a] by simp_all
    then show ?thesis using ok uia_conversion_diffs [OF assms(1,4,5) conv, of a] by simp
  qed
qed

text \<open>
  A conversion of the core asset or of a user-issued asset. Monitored assets have no pools: there the
  amount given is not held by anything and the amount got comes from nothing.
\<close>

definition has_pools :: "chain \<Rightarrow> asset_id_type \<Rightarrow> bool" where
  "has_pools c k = (case generic_find (assets c) k of None \<Rightarrow> False | Some ao \<Rightarrow> k = 0 \<or> \<not> is_monitored_asset ao)"

lemma convert_law:
  assumes "safe_exact S" and "chain_ok c" and "has_pools c k" and "k = 0 \<or> conversion_sides k from to"
    and run: "convert S k from c = Inr (to, c')"
  shows "chain_ok c' \<and> supply_of c' a = supply_of c a \<and> c' = c\<lparr>asset_dyn := asset_dyn c'\<rparr> \<and>
    holdings c' a = holdings c a + swapped from to a"
proof -
  obtain ao where ao: "generic_find (assets c) k = Some ao" "k = 0 \<or> \<not> is_monitored_asset ao"
    using assms(3) by (auto simp: has_pools_def split: option.splits)
  show ?thesis
  proof (cases "k = 0")
    case True
    then have "to = from" "c' = c" using run by (auto simp: convert_def)
    then show ?thesis using assms(2) by (simp add: swapped_def)
  next
    case False
    then have "convert_uia S k ao from c = Inr (to, c')" "conversion_sides k from to"
      using run ao assms(4) by (auto simp: convert_def get_asset_def)
    then show ?thesis using convert_uia_law [OF assms(1,2) ao(1) False] by blast
  qed
qed

end
