(* ===== verification/Subscription.thy ===== *)
theory Subscription
  imports Evaluator Decimal
begin

text \<open>
  \<open>subscription\_evaluator.cpp\<close> and \<open>protocol/subscription.cpp\<close>: subscriptions to authors, paid by
  the subscriber or granted by the author, and the mark for automatic renewal.
\<close>

section \<open>Operations\<close>

record subscribe_operation =
  su_fee :: asset
  su_from :: account_id_type
  su_to :: account_id_type
  su_price :: asset

definition subscribe_validate :: "subscribe_operation \<Rightarrow> unit res" where
  "subscribe_validate op =
     bindE (require (0 \<le> amount (su_fee op)) Assert_Exception) (\<lambda>_.
     require (0 \<le> amount (su_price op)) Assert_Exception)"

record subscribe_by_author_operation =
  sba_fee :: asset
  sba_from :: account_id_type
  sba_to :: account_id_type

definition subscribe_by_author_validate :: "subscribe_by_author_operation \<Rightarrow> unit res" where
  "subscribe_by_author_validate op = require (0 \<le> amount (sba_fee op)) Assert_Exception"

record automatic_renewal_of_subscription_operation =
  ars_fee :: asset
  ars_consumer :: account_id_type
  ars_subscription :: nat
  ars_automatic_renewal :: bool

section \<open>Evaluators\<close>

definition subscription_price :: "chain \<Rightarrow> asset \<Rightarrow> asset res" where
  "subscription_price c p =
     bindE (get_asset c (asset_id p)) (\<lambda>ao.
     bindE (require (asset_id p = 0 \<or> is_monitored_asset ao) Assert_Exception) (\<lambda>_.
     case monitored_asset_opts ao of
       Some mo \<Rightarrow>
         bindE (require (\<not> price_is_null (feed_rate (current_feed mo))) Assert_Exception) (\<lambda>_.
         asset_times_price p (feed_rate (current_feed mo)))
     | None \<Rightarrow> Inr p))"

definition subscribe_do_evaluate ::
  "subscribe_operation \<Rightarrow> fee_state \<Rightarrow> chain \<Rightarrow> (fee_state \<times> unit) res" where
  "subscribe_do_evaluate op f c =
     bindE (lift_opt Assert_Exception (generic_find (accounts c) (su_from op))) (\<lambda>from_account.
     bindE (lift_opt Assert_Exception (generic_find (accounts c) (su_to op))) (\<lambda>to_account.
     bindE (asset_le (su_price op) (get_balance c (su_from op) (asset_id (su_price op)))) (\<lambda>b.
     bindE (require b Assert_Exception) (\<lambda>_.
     bindE (require (allow_subscription (acc_options to_account)) Assert_Exception) (\<lambda>_.
     bindE (subscription_price c (price_per_subscribe (acc_options to_account))) (\<lambda>dct_price.
     bindE (asset_less (su_price op) dct_price) (\<lambda>less.
     bindE (require (\<not> less) Assert_Exception) (\<lambda>_.
     Inr (f, ())))))))))"

definition is_subscription :: "account_id_type \<Rightarrow> account_id_type \<Rightarrow> subscription_object \<Rightarrow> bool" where
  "is_subscription from to so \<longleftrightarrow> sub_from so = from \<and> sub_to so = to"

text \<open>The period in seconds is a product of 32-bit integers.\<close>

definition subscription_period_in_secs :: "account_object \<Rightarrow> nat" where
  "subscription_period_in_secs a = u32 (int (subscription_period (acc_options a)) * 24 * 3600)"

definition extend_subscription :: "time_point_sec \<Rightarrow> nat \<Rightarrow> subscription_object \<Rightarrow> subscription_object" where
  "extend_subscription now secs so =
     (if sub_expiration so < now then so\<lparr>sub_expiration := time_plus now secs\<rparr>
      else so\<lparr>sub_expiration := time_plus (sub_expiration so) secs\<rparr>)"

definition add_subscription :: "account_id_type \<Rightarrow> account_id_type \<Rightarrow> account_object \<Rightarrow> chain \<Rightarrow> chain res" where
  "add_subscription from to to_account c =
     (let secs = subscription_period_in_secs to_account; now = head_block_time c
      in case t_find_by (is_subscription from to) (subscriptions c) of
           Some (k, so) \<Rightarrow>
             bindE (t_modify subscription_key k (\<lambda>so. Inr (extend_subscription now secs so)) (subscriptions c)) (\<lambda>t.
             Inr (c\<lparr>subscriptions := t\<rparr>))
         | None \<Rightarrow>
             bindE (t_create subscription_key \<lparr>sub_from = from, sub_to = to, sub_expiration = time_plus now secs,
                      automatic_renewal = False\<rparr> (subscriptions c)) (\<lambda>t.
             Inr (c\<lparr>subscriptions := t\<rparr>)))"

definition subscription_description :: "account_object \<Rightarrow> string" where
  "subscription_description a =
     nat_to_string (subscription_period (acc_options a)) @ '' day'' @
       (if 1 < subscription_period (acc_options a) then ''s'' else [])"

definition subscription_detail :: "account_id_type \<Rightarrow> account_id_type \<Rightarrow> asset \<Rightarrow> asset \<Rightarrow> account_object \<Rightarrow> chain \<Rightarrow> chain res" where
  "subscription_detail from to paid fee to_account c =
     add_detail \<lparr>m_from_account = from, m_to_account = to, m_operation_type = Subscription_Detail,
       m_transaction_amount = paid, m_transaction_fee = fee, m_str_description = subscription_description to_account,
       m_memo = None, m_timestamp = head_block_time c, m_nft_data_id = None\<rparr> c"

definition subscribe_do_apply ::
  "safe \<Rightarrow> subscribe_operation \<Rightarrow> fee_state \<Rightarrow> unit \<Rightarrow> chain \<Rightarrow> chain res" where
  "subscribe_do_apply S op f u c =
     bindE (lift_opt Assert_Exception (generic_find (accounts c) (su_to op))) (\<lambda>to_account.
     bindE (add_subscription (su_from op) (su_to op) to_account c) (\<lambda>c1.
     bindE (asset_neg S (su_price op)) (\<lambda>neg.
     bindE (adjust_balance S (su_from op) neg c1) (\<lambda>c2.
     bindE (adjust_balance S (su_to op) (su_price op) c2) (\<lambda>c3.
     subscription_detail (su_from op) (su_to op) (su_price op) (su_fee op) to_account c3)))))"

definition subscribe_by_author_do_evaluate ::
  "subscribe_by_author_operation \<Rightarrow> fee_state \<Rightarrow> chain \<Rightarrow> (fee_state \<times> unit) res" where
  "subscribe_by_author_do_evaluate op f c =
     bindE (lift_opt Assert_Exception (generic_find (accounts c) (sba_from op))) (\<lambda>from_account.
     bindE (lift_opt Assert_Exception (generic_find (accounts c) (sba_to op))) (\<lambda>to_account.
     bindE (require (allow_subscription (acc_options to_account)) Assert_Exception) (\<lambda>_.
     Inr (f, ()))))"

definition subscribe_by_author_do_apply ::
  "subscribe_by_author_operation \<Rightarrow> fee_state \<Rightarrow> unit \<Rightarrow> chain \<Rightarrow> chain res" where
  "subscribe_by_author_do_apply op f u c =
     bindE (lift_opt Assert_Exception (generic_find (accounts c) (sba_to op))) (\<lambda>to_account.
     bindE (add_subscription (sba_from op) (sba_to op) to_account c) (\<lambda>c1.
     subscription_detail (sba_from op) (sba_to op) (mk_asset 0 0) (sba_fee op) to_account c1))"

definition automatic_renewal_do_evaluate ::
  "automatic_renewal_of_subscription_operation \<Rightarrow> fee_state \<Rightarrow> chain \<Rightarrow> (fee_state \<times> unit) res" where
  "automatic_renewal_do_evaluate op f c =
     bindE (lift_opt Assert_Exception (generic_find (accounts c) (ars_consumer op))) (\<lambda>from_account.
     bindE (lift_opt Assert_Exception (generic_find (subscriptions c) (ars_subscription op))) (\<lambda>subscription.
     bindE (require (sub_from subscription = ars_consumer op) Assert_Exception) (\<lambda>_.
     bindE (require (automatic_renewal subscription \<noteq> ars_automatic_renewal op) Assert_Exception) (\<lambda>_.
     bindE (lift_opt Assert_Exception (generic_find (accounts c) (sub_to subscription))) (\<lambda>to_account.
     Inr (f, ()))))))"

definition automatic_renewal_do_apply ::
  "automatic_renewal_of_subscription_operation \<Rightarrow> fee_state \<Rightarrow> unit \<Rightarrow> chain \<Rightarrow> chain res" where
  "automatic_renewal_do_apply op f u c =
     bindE (t_modify subscription_key (ars_subscription op)
              (\<lambda>so. Inr (so\<lparr>automatic_renewal := ars_automatic_renewal op\<rparr>)) (subscriptions c)) (\<lambda>t.
     Inr (c\<lparr>subscriptions := t\<rparr>))"

section \<open>Contracts\<close>

text \<open>The end of a subscription after one more period.\<close>

definition extended_to ::
  "subscription_object table \<Rightarrow> time_point_sec \<Rightarrow> account_id_type \<Rightarrow> account_id_type \<Rightarrow> account_object \<Rightarrow> time_point_sec" where
  "extended_to subs now from to acc =
     (case t_find_by (is_subscription from to) subs of
        None \<Rightarrow> time_plus now (subscription_period_in_secs acc)
      | Some (k, old) \<Rightarrow> time_plus (max now (sub_expiration old)) (subscription_period_in_secs acc))"

lemma add_subscription_law:
  assumes ok: "chain_ok c" and ad: "add_subscription from to acc c = Inr c'"
  shows "chain_ok c'" and "holdings c' a = holdings c a" and "supply_of c' a = supply_of c a"
    and "c' = c\<lparr>subscriptions := subscriptions c'\<rparr>"
    and "\<exists>k so. generic_find (subscriptions c') k = Some so \<and> is_subscription from to so \<and>
      sub_expiration so = extended_to (subscriptions c) (head_block_time c) from to acc"
proof -
  have tok: "t_ok (subscriptions c)" using ok by (simp add: frame)
  have "\<exists>t. c' = c\<lparr>subscriptions := t\<rparr> \<and> t_ok t \<and> (\<exists>k so. generic_find t k = Some so \<and> is_subscription from to so \<and>
      sub_expiration so = extended_to (subscriptions c) (head_block_time c) from to acc)"
  proof (cases "t_find_by (is_subscription from to) (subscriptions c)")
    case None
    with ad obtain t where t: "t_create subscription_key \<lparr>sub_from = from, sub_to = to,
          sub_expiration = time_plus (head_block_time c) (subscription_period_in_secs acc),
          automatic_renewal = False\<rparr> (subscriptions c) = Inr t" and c': "c' = c\<lparr>subscriptions := t\<rparr>"
      by (auto simp: add_subscription_def Let_def)
    show ?thesis
      using t_create_law [OF tok t] None by (intro exI [of _ t]) (auto simp: c' is_subscription_def extended_to_def)
  next
    case (Some p)
    obtain k so where p: "p = (k, so)" by (cases p)
    have so: "generic_find (subscriptions c) k = Some so" "is_subscription from to so"
      using t_find_by_SomeD [OF tok Some [unfolded p]] by blast+
    from ad Some p obtain t where t: "t_modify subscription_key k (\<lambda>so. Inr (extend_subscription (head_block_time c)
        (subscription_period_in_secs acc) so)) (subscriptions c) = Inr t" and c': "c' = c\<lparr>subscriptions := t\<rparr>"
      by (auto simp: add_subscription_def Let_def)
    show ?thesis
    proof (rule t_modify_law [OF tok t])
      fix x y
      assume "generic_find (subscriptions c) k = Some x"
        and "Inr (extend_subscription (head_block_time c) (subscription_period_in_secs acc) x) = (Inr y :: subscription_object res)"
        and "t_ok t" and ft: "generic_find t = (generic_find (subscriptions c))(k \<mapsto> y)"
      then show ?thesis
        using so Some p by (intro exI [of _ t]) (auto simp: c' extend_subscription_def is_subscription_def max_def extended_to_def)
    qed
  qed
  then obtain t where t: "c' = c\<lparr>subscriptions := t\<rparr>" "t_ok t" and e: "\<exists>k so. generic_find t k = Some so \<and> is_subscription from to so \<and>
      sub_expiration so = extended_to (subscriptions c) (head_block_time c) from to acc"
    by blast
  show "chain_ok c'" "holdings c' a = holdings c a" "supply_of c' a = supply_of c a" "c' = c\<lparr>subscriptions := subscriptions c'\<rparr>"
    using t ok by (simp_all add: frame)
  show "\<exists>k so. generic_find (subscriptions c') k = Some so \<and> is_subscription from to so \<and>
      sub_expiration so = extended_to (subscriptions c) (head_block_time c) from to acc"
    using e t(1) by simp
qed

lemma subscribe_contract:
  assumes S: "safe_exact S"
  shows "evaluator_contract S (subscribe_do_evaluate op) (subscribe_do_apply S op) no_pre nothing nothing"
proof (rule keeps_contract [OF S])
  fix c f f' and x :: unit
  assume "subscribe_do_evaluate op f c = Inr (f', x)"
  then show "f' = f" by (auto simp: subscribe_do_evaluate_def)
next
  fix c and x :: unit and f c' a
  assume ok: "chain_ok c" and ap: "subscribe_do_apply S op f x c = Inr c'"
  from ap obtain acc c1 neg c2 c3 d where 1: "add_subscription (su_from op) (su_to op) acc c = Inr c1"
    and n: "asset_neg S (su_price op) = Inr neg" and 2: "adjust_balance S (su_from op) neg c1 = Inr c2"
    and 3: "adjust_balance S (su_to op) (su_price op) c2 = Inr c3" and 4: "add_detail d c3 = Inr c'"
    by (auto simp: subscribe_do_apply_def subscription_detail_def)
  note l1 = add_subscription_law [OF ok 1]
  note l2 = adjust_balance_holdings [OF S l1(1) 2]
  note l3 = adjust_balance_holdings [OF S l2(1) 3]
  note l4 = add_detail_law [OF l3(1) 4]
  show "chain_ok c' \<and> holdings c' a = holdings c a \<and> supply_of c' a = supply_of c a"
    using l1(2,3) [of a] l2(2,3) [of a] l3(2,3) [of a] l4(1) l4(2,3) [of a] asset_neg_exact [OF S n] by simp
qed

lemma subscribe_by_author_contract:
  assumes S: "safe_exact S"
  shows "evaluator_contract S (subscribe_by_author_do_evaluate op) (subscribe_by_author_do_apply op) no_pre nothing nothing"
proof (rule keeps_contract [OF S])
  fix c f f' and x :: unit
  assume "subscribe_by_author_do_evaluate op f c = Inr (f', x)"
  then show "f' = f" by (auto simp: subscribe_by_author_do_evaluate_def)
next
  fix c and x :: unit and f c' a
  assume ok: "chain_ok c" and ap: "subscribe_by_author_do_apply op f x c = Inr c'"
  from ap obtain acc c1 d where 1: "add_subscription (sba_from op) (sba_to op) acc c = Inr c1" and 4: "add_detail d c1 = Inr c'"
    by (auto simp: subscribe_by_author_do_apply_def subscription_detail_def)
  note l1 = add_subscription_law [OF ok 1]
  note l4 = add_detail_law [OF l1(1) 4]
  show "chain_ok c' \<and> holdings c' a = holdings c a \<and> supply_of c' a = supply_of c a"
    using l1(2,3) [of a] l4(1) l4(2,3) [of a] by simp
qed

lemma automatic_renewal_contract:
  assumes S: "safe_exact S"
  shows "evaluator_contract S (automatic_renewal_do_evaluate op) (automatic_renewal_do_apply op) no_pre nothing nothing"
proof (rule keeps_contract [OF S])
  fix c f f' and x :: unit
  assume "automatic_renewal_do_evaluate op f c = Inr (f', x)"
  then show "f' = f" by (auto simp: automatic_renewal_do_evaluate_def)
next
  fix c and x :: unit and f c' a
  assume ok: "chain_ok c" and "automatic_renewal_do_apply op f x c = Inr c'"
  then obtain t g where t: "t_modify subscription_key (ars_subscription op) g (subscriptions c) = Inr t"
    and c': "c' = c\<lparr>subscriptions := t\<rparr>"
    by (auto simp: automatic_renewal_do_apply_def)
  have "t_ok (subscriptions c)" using ok by (simp add: frame)
  then have "t_ok t" using t by (rule t_modify_law)
  then show "chain_ok c' \<and> holdings c' a = holdings c a \<and> supply_of c' a = supply_of c a"
    using ok by (simp add: c' frame)
qed

sublocale safe_arith \<subseteq> subscribe: evaluator_contract S "subscribe_do_evaluate op" "subscribe_do_apply S op"
    no_pre nothing nothing for op
  by (rule subscribe_contract [OF exact])

section \<open>Properties\<close>

text \<open>
  A subscription the chain accepts is paid for and lasts: the price goes from the subscriber to
  the author, and afterwards the subscription of the two exists and runs for one more period,
  counted from now or from its old end, whichever is later.
\<close>

theorem subscription_paid_and_extended:
  assumes S: "safe_exact S" and ok: "chain_ok c" and nf: "\<not> skip_fee st"
    and run: "start_evaluate S st r (su_from op) (su_fee op) (subscribe_do_evaluate op) (subscribe_do_apply S op) c = Inr c'"
    and acc: "generic_find (accounts c) (su_to op) = Some acc"
  shows "(\<exists>k so. generic_find (subscriptions c') k = Some so \<and> is_subscription (su_from op) (su_to op) so \<and>
      sub_expiration so = extended_to (subscriptions c) (head_block_time c) (su_from op) (su_to op) acc) \<and>
    balance_of c' y a = balance_of c y a
      - (if y = su_from op \<and> a = asset_id (su_price op) then amount (su_price op) else 0)
      + (if y = su_to op \<and> a = asset_id (su_price op) then amount (su_price op) else 0)
      - (if y = su_from op \<and> a = asset_id (su_fee op) then amount (su_fee op) else 0)"
  using ok nf run
proof (rule evaluator_contract.run_steps [OF subscribe_contract [OF S]])
  fix f x c2 c3
  assume ok2: "chain_ok c2" and c2: "c2 = c\<lparr>asset_dyn := asset_dyn c2\<rparr>"
    and 3: "subscribe_do_apply S op f x c2 = Inr c3"
    and 9: "adjust_balance S (su_from op) (mk_asset (- amount (su_fee op)) (asset_id (su_fee op))) c3 = Inr c'"
  have same: "accounts c2 = accounts c" "subscriptions c2 = subscriptions c" "balances c2 = balances c"
      "head_block_time c2 = head_block_time c"
    by (subst c2, simp add: head_block_time_def)+
  from 3 acc same(1) obtain d1 neg d2 d3 d where 1: "add_subscription (su_from op) (su_to op) acc c2 = Inr d1"
    and n: "asset_neg S (su_price op) = Inr neg" and 2: "adjust_balance S (su_from op) neg d1 = Inr d2"
    and 3: "adjust_balance S (su_to op) (su_price op) d2 = Inr d3" and 4: "add_detail d d3 = Inr c3"
    by (auto simp: subscribe_do_apply_def subscription_detail_def)
  note l1 = add_subscription_law [OF ok2 1]
  note l2 = adjust_balance_holdings [OF S l1(1) 2]
  note l3 = adjust_balance_holdings [OF S l2(1) 3]
  note l4 = add_detail_law [OF l3(1) 4]
  have "subscriptions c' = subscriptions c3" by (subst adjust_balance_holdings(4) [OF S l4(1) 9]) simp
  also have "\<dots> = subscriptions d3" by (subst l4(4)) simp
  also have "\<dots> = subscriptions d2" by (subst l3(4)) simp
  also have "\<dots> = subscriptions d1" by (subst l2(4)) simp
  finally have sub: "subscriptions c' = subscriptions d1" .
  have b1: "balances d1 = balances c" using same(3) by (subst l1(4)) simp
  have b3: "balances c3 = balances d3" by (subst l4(4)) simp
  have "balance_of c' y a = balance_of c y a
      - (if y = su_from op \<and> a = asset_id (su_price op) then amount (su_price op) else 0)
      + (if y = su_to op \<and> a = asset_id (su_price op) then amount (su_price op) else 0)
      - (if y = su_from op \<and> a = asset_id (su_fee op) then amount (su_fee op) else 0)"
    using adjust_balance_of [OF S l1(1) 2, of y a] adjust_balance_of [OF S l2(1) 3, of y a] adjust_balance_of [OF S l4(1) 9, of y a]
      asset_neg_exact [OF S n] balance_of_cong [OF b1] balance_of_cong [OF b3] by simp
  then show ?thesis using l1(5) by (simp add: sub same)
qed

definition demo_subscribe :: subscribe_operation where
  "demo_subscribe = \<lparr>su_fee = mk_asset 10 0, su_from = 4, su_to = 5, su_price = mk_asset 50 0\<rparr>"

definition demo_sub_chain :: chain where
  "demo_sub_chain = demo_chain\<lparr>subscriptions := \<lparr>g_next_id = 1, g_rows = [(0, \<lparr>sub_from = 4, sub_to = 5,
     sub_expiration = 300, automatic_renewal = False\<rparr>)]\<rparr>,
     accounts := demo_accounts\<lparr>g_rows := map (\<lambda>(k, a). (k, a\<lparr>acc_options := demo_options\<lparr>subscription_period := 0\<rparr>\<rparr>)) (g_rows demo_accounts)\<rparr>\<rparr>"

theorem subscription_paid_and_extended_witness:
  "\<exists>c'. start_evaluate checked64 demo_trx (Inr 10) 4 (mk_asset 10 0) (subscribe_do_evaluate demo_subscribe)
      (subscribe_do_apply checked64 demo_subscribe) demo_sub_chain = Inr c' \<and>
    balance_of c' 5 0 = balance_of demo_sub_chain 5 0 + 50 \<and> balance_of c' 4 0 = balance_of demo_sub_chain 4 0 - 60"
proof -
  let ?r = "start_evaluate checked64 demo_trx (Inr 10) (su_from demo_subscribe) (su_fee demo_subscribe)
    (subscribe_do_evaluate demo_subscribe) (subscribe_do_apply checked64 demo_subscribe) demo_sub_chain"
  have "succeeds ?r" by code_simp
  then obtain c' where r: "?r = Inr c'" by (rule succeedsE)
  have ok: "chain_ok demo_sub_chain" by (rule chain_ok_rows) code_simp
  obtain acc where acc: "generic_find (accounts demo_sub_chain) (su_to demo_subscribe) = Some acc"
    by (simp add: demo_sub_chain_def demo_accounts_def demo_subscribe_def generic_find_def)
  note t = subscription_paid_and_extended [OF checked64_exact ok demo_trx_fee r acc]
  show ?thesis using r t [of 4 0] t [of 5 0] by (simp add: demo_subscribe_def)
qed

end
