(* ===== verification/Block.thy ===== *)
theory Block
  imports Chain_State
begin

text \<open>
  \<open>protocol/block.hpp\<close> and \<open>protocol/block.cpp\<close>: block headers, block ids, which carry the block
  number, and the Merkle root of the transactions, computed in place over an array of digests.
  The hash functions are parameters.
\<close>

section \<open>Headers and ids\<close>

record 'tx signed_block =
  b_previous :: block_id_type
  b_timestamp :: time_point_sec
  b_miner :: nat
  b_transaction_merkle_root :: opaque
  b_miner_signature :: opaque
  b_transactions :: "'tx list"

definition num_from_id :: "block_id_type \<Rightarrow> nat" where
  "num_from_id i = bid_num i"

definition block_num :: "'tx signed_block \<Rightarrow> nat" where
  "block_num b = u32 (int (num_from_id (b_previous b)) + 1)"

text \<open>\<open>H\<close> is the hash of the header, of which the id keeps all but the first word.\<close>

definition block_id :: "('tx signed_block \<Rightarrow> opaque) \<Rightarrow> 'tx signed_block \<Rightarrow> block_id_type" where
  "block_id H b = Block_Id (block_num b) (H b)"

definition validate_signee :: "('tx signed_block \<Rightarrow> opaque) \<Rightarrow> opaque \<Rightarrow> 'tx signed_block \<Rightarrow> bool" where
  "validate_signee signee expected_signee b = (signee b = expected_signee)"

section \<open>The Merkle root\<close>

text \<open>One pass over the array: \<open>ids[k++] = hash(ids[i], ids[i+1])\<close>.\<close>

function merkle_pass :: "('d \<Rightarrow> 'd \<Rightarrow> 'd) \<Rightarrow> nat \<Rightarrow> nat \<Rightarrow> nat \<Rightarrow> 'd list \<Rightarrow> nat \<times> 'd list" where
  "merkle_pass h i i_max k ids =
     (if i < i_max then merkle_pass h (i + 2) i_max (k + 1) (ids[k := h (ids ! i) (ids ! (i + 1))])
      else (k, ids))"
  by pat_completeness auto
termination
  by (relation "measure (\<lambda>(h, i, i_max, k, ids). i_max - i)") auto

declare merkle_pass.simps [simp del]

lemma merkle_pass_count: "fst (merkle_pass h i i_max k ids) = k + (i_max - i + 1) div 2"
proof (induction h i i_max k ids rule: merkle_pass.induct)
  case (1 h i i_max k ids)
  show ?case
  proof (cases "i < i_max")
    case True
    then have "i_max - i + 1 = (i_max - (i + 2) + 1) + 2 \<or> i_max = i + 1" by linarith
    then show ?thesis using 1 True by (subst merkle_pass.simps) auto
  next
    case False
    then show ?thesis by (subst merkle_pass.simps) simp
  qed
qed

definition merkle_level :: "('d \<Rightarrow> 'd \<Rightarrow> 'd) \<Rightarrow> nat \<Rightarrow> 'd list \<Rightarrow> nat \<times> 'd list" where
  "merkle_level h n ids =
     (let i_max = n - n mod 2;
          p = merkle_pass h 0 i_max 0 ids
      in if n mod 2 = 1 then (fst p + 1, (snd p)[fst p := snd p ! i_max]) else p)"

lemma merkle_level_count: "fst (merkle_level h n ids) = (n + 1) div 2"
  unfolding merkle_level_def Let_def by (auto simp: merkle_pass_count) presburger+

function merkle_loop :: "('d \<Rightarrow> 'd \<Rightarrow> 'd) \<Rightarrow> nat \<Rightarrow> 'd list \<Rightarrow> 'd list" where
  "merkle_loop h current_number_of_hashes ids =
     (if 1 < current_number_of_hashes
      then merkle_loop h (fst (merkle_level h current_number_of_hashes ids)) (snd (merkle_level h current_number_of_hashes ids))
      else ids)"
  by pat_completeness auto
termination
  by (relation "measure (\<lambda>(h, n, ids). n)") (auto simp: merkle_level_count)

declare merkle_loop.simps [simp del]

definition calculate_merkle_root ::
  "('d \<Rightarrow> 'd \<Rightarrow> 'd) \<Rightarrow> ('d \<Rightarrow> 'c) \<Rightarrow> 'c \<Rightarrow> ('tx \<Rightarrow> 'd) \<Rightarrow> 'tx signed_block \<Rightarrow> 'c" where
  "calculate_merkle_root hash_pair hash_root null_checksum merkle_digest b =
     (if length (b_transactions b) = 0 then null_checksum
      else let ids = map merkle_digest (b_transactions b)
           in hash_root (merkle_loop hash_pair (length ids) ids ! 0))"

section \<open>The tree it computes\<close>

fun pair_up :: "('d \<Rightarrow> 'd \<Rightarrow> 'd) \<Rightarrow> 'd list \<Rightarrow> 'd list" where
  "pair_up h [] = []"
| "pair_up h [x] = [x]"
| "pair_up h (x # y # xs) = h x y # pair_up h xs"

lemma length_pair_up [simp]: "length (pair_up h xs) = (length xs + 1) div 2"
  by (induction h xs rule: pair_up.induct) auto

function merkle_tree :: "('d \<Rightarrow> 'd \<Rightarrow> 'd) \<Rightarrow> 'd list \<Rightarrow> 'd" where
  "merkle_tree h xs = (if 1 < length xs then merkle_tree h (pair_up h xs) else xs ! 0)"
  by pat_completeness auto
termination
  by (relation "measure (\<lambda>(h, xs). length xs)") auto

declare merkle_tree.simps [simp del]

lemma merkle_pass_prefix:
  assumes "k \<le> i" and "even (i_max - i)" and "i \<le> i_max" and "i_max \<le> length ids" and "merkle_pass h i i_max k ids = (k', ids')"
  shows "take k' ids' = take k ids @ pair_up h (take (i_max - i) (drop i ids)) \<and> drop i_max ids' = drop i_max ids \<and>
    length ids' = length ids \<and> k' \<le> i_max"
  using assms
proof (induction h i i_max k ids rule: merkle_pass.induct)
  case (1 h i i_max k ids)
  show ?case
  proof (cases "i < i_max")
    case True
    then have i2: "i + 2 \<le> i_max" using "1.prems"(2,3) by (metis One_nat_def Suc_1 Suc_leI add_2_eq_Suc' add_diff_cancel_left' less_eqE odd_one le_neq_implies_less Suc_eq_plus1 add.commute plus_1_eq_Suc)
    let ?ids = "ids[k := h (ids ! i) (ids ! (i + 1))]"
    have r: "merkle_pass h (i + 2) i_max (k + 1) ?ids = (k', ids')"
      using "1.prems"(5) True by (subst (asm) merkle_pass.simps) simp
    have ev: "even (i_max - (i + 2))" using "1.prems"(2) i2 by simp
    have IH: "take k' ids' = take (k + 1) ?ids @ pair_up h (take (i_max - (i + 2)) (drop (i + 2) ?ids)) \<and>
        drop i_max ids' = drop i_max ?ids \<and> length ids' = length ?ids \<and> k' \<le> i_max"
      by (rule "1.IH" [OF True _ ev i2 _ r]) (use "1.prems"(1,4) in simp_all)
    have k: "k < length ids" "k < i_max" using "1.prems"(1,4) True by linarith+
    have t: "take (k + 1) ?ids = take k ids @ [h (ids ! i) (ids ! (i + 1))]"
      using k by (simp add: take_Suc_conv_app_nth)
    have d: "drop (i + 2) ?ids = drop (i + 2) ids" "drop i_max ?ids = drop i_max ids"
      using "1.prems"(1) k by simp_all
    have "drop i ids = ids ! i # ids ! (i + 1) # drop (i + 2) ids"
      using i2 "1.prems"(4) by (metis Cons_nth_drop_Suc Suc_eq_plus1 add_2_eq_Suc' add_lessD1 less_le_trans Suc_1 add_Suc_right lessI)
    moreover have "i_max - i = Suc (Suc (i_max - (i + 2)))" using i2 by simp
    ultimately have "pair_up h (take (i_max - i) (drop i ids)) =
        h (ids ! i) (ids ! (i + 1)) # pair_up h (take (i_max - (i + 2)) (drop (i + 2) ids))" by simp
    then show ?thesis using IH t d by simp
  next
    case False
    then show ?thesis using "1.prems" by (subst (asm) merkle_pass.simps) auto
  qed
qed

lemma pair_up_append: "even (length xs) \<Longrightarrow> pair_up h (xs @ [y]) = pair_up h xs @ [y]"
  by (induction h xs rule: pair_up.induct) auto

lemma merkle_level_prefix:
  assumes "n \<le> length ids" and "merkle_level h n ids = (k, ids')"
  shows "take k ids' = pair_up h (take n ids)" and "length ids' = length ids" and "k \<le> length ids"
proof -
  let ?m = "n - n mod 2"
  obtain k1 ids1 where p: "merkle_pass h 0 ?m 0 ids = (k1, ids1)" by (cases "merkle_pass h 0 ?m 0 ids")
  have ev: "even (?m - 0)" by presburger
  have pre: "take k1 ids1 = pair_up h (take ?m ids)" "drop ?m ids1 = drop ?m ids" "length ids1 = length ids" "k1 \<le> ?m"
    using merkle_pass_prefix [OF _ ev _ _ p] assms(1) by simp_all
  have "take k ids' = pair_up h (take n ids) \<and> length ids' = length ids \<and> k \<le> length ids"
  proof (cases "n mod 2 = 1")
    case True
    then have n: "n = Suc ?m" by linarith
    have "?m < length ids" using n assms(1) by linarith
    then have "ids1 ! ?m = ids ! ?m" using pre(2,3) by (metis hd_drop_conv_nth)
    moreover have "k1 < length ids1" using pre(3,4) \<open>?m < length ids\<close> by linarith
    ultimately have "take k ids' = take k1 ids1 @ [ids ! ?m]" "length ids' = length ids" "k \<le> length ids"
      using assms(2) p True pre(3) by (auto simp: merkle_level_def Let_def take_Suc_conv_app_nth)
    moreover have "take n ids = take ?m ids @ [ids ! ?m]"
      using n \<open>?m < length ids\<close> by (metis take_Suc_conv_app_nth)
    moreover have "even (length (take ?m ids))" using \<open>?m < length ids\<close> ev by simp
    ultimately show ?thesis using pre(1) by (simp add: pair_up_append)
  next
    case False
    then have "?m = n" by simp
    then show ?thesis using assms p False pre by (simp add: merkle_level_def Let_def)
  qed
  then show "take k ids' = pair_up h (take n ids)" "length ids' = length ids" "k \<le> length ids" by simp_all
qed

lemma merkle_loop_tree:
  "0 < n \<Longrightarrow> n \<le> length ids \<Longrightarrow> merkle_loop h n ids ! 0 = merkle_tree h (take n ids)"
proof (induction h n ids rule: merkle_loop.induct)
  case (1 h n ids)
  show ?case
  proof (cases "1 < n")
    case True
    obtain k ids' where l: "merkle_level h n ids = (k, ids')" by (cases "merkle_level h n ids")
    note pre = merkle_level_prefix [OF "1.prems"(2) l]
    have "0 < k" using merkle_level_count [of h n ids] l True by simp
    then have "merkle_loop h k ids' ! 0 = merkle_tree h (take k ids')"
      using "1.IH" [OF True] l pre(2,3) by simp
    moreover have "merkle_tree h (take n ids) = merkle_tree h (pair_up h (take n ids))"
      using True "1.prems"(2) by (subst merkle_tree.simps) simp
    ultimately show ?thesis using True l pre(1) by (subst merkle_loop.simps) simp
  next
    case False
    then have "n = 1" using "1.prems"(1) by simp
    then show ?thesis using "1.prems"(2) by (subst merkle_loop.simps, subst merkle_tree.simps) simp
  qed
qed

lemma merkle_root_is_tree_eq:
  "calculate_merkle_root h hr z md b =
     (if b_transactions b = [] then z else hr (merkle_tree h (map md (b_transactions b))))"
  by (simp add: calculate_merkle_root_def Let_def merkle_loop_tree)

text \<open>
  The loop that hashes digests pairwise in place, with its running write index and its carried
  odd element, computes the root of the tree defined by recursion over the levels.
\<close>

theorem merkle_root_is_tree:
  "calculate_merkle_root h hr z md b =
     (if b_transactions b = [] then z else hr (merkle_tree h (map md (b_transactions b))))"
  by (rule merkle_root_is_tree_eq)

lemma pair_up_inj:
  assumes "\<forall>u v x y. h u v = h x y \<longrightarrow> u = x \<and> v = y"
  shows "length xs = length ys \<Longrightarrow> pair_up h xs = pair_up h ys \<Longrightarrow> xs = ys"
proof (induction xs arbitrary: ys rule: induct_list012)
  case (2 x)
  then show ?case by (cases ys) auto
next
  case (3 x y xs)
  obtain a ys' where a: "ys = a # ys'" using "3.prems"(1) by (cases ys) simp_all
  obtain b zs where b: "ys' = b # zs" using "3.prems"(1) a by (cases ys') simp_all
  have e: "h x y = h a b" "pair_up h xs = pair_up h zs" "length xs = length zs" using "3.prems" a b by simp_all
  have "xs = zs" by (rule "3.IH"(1) [OF e(3,2)])
  moreover have "x = a \<and> y = b" using assms e(1) by blast
  ultimately show ?case using a b by simp
qed simp

lemma merkle_tree_step: "1 < length xs \<Longrightarrow> merkle_tree h xs = merkle_tree h (pair_up h xs)"
  by (subst merkle_tree.simps) simp

lemma merkle_tree_single: "merkle_tree h [x] = x"
  by (subst merkle_tree.simps) simp

lemma merkle_tree_inj:
  assumes "\<forall>u v x y. h u v = h x y \<longrightarrow> u = x \<and> v = y"
  shows "length xs = length ys \<Longrightarrow> xs \<noteq> [] \<Longrightarrow> merkle_tree h xs = merkle_tree h ys \<Longrightarrow> xs = ys"
proof (induction "length xs" arbitrary: xs ys rule: less_induct)
  case less
  show ?case
  proof (cases "1 < length xs")
    case True
    have ly: "1 < length ys" using True less.prems(1) by simp
    have "merkle_tree h (pair_up h xs) = merkle_tree h (pair_up h ys)"
      using less.prems(3) unfolding merkle_tree_step [OF True] merkle_tree_step [OF ly] .
    moreover have ln: "length (pair_up h xs) < length xs" "0 < length (pair_up h xs)"
      unfolding length_pair_up using True by linarith+
    moreover have "length (pair_up h xs) = length (pair_up h ys)" unfolding length_pair_up less.prems(1) ..
    ultimately have "pair_up h xs = pair_up h ys" using less.hyps [of "pair_up h xs" "pair_up h ys"] by blast
    then show ?thesis using pair_up_inj [OF assms less.prems(1)] by blast
  next
    case False
    then have "length xs = Suc 0" using less.prems(2) by (cases xs) simp_all
    then obtain x where xs: "xs = [x]" by (auto simp: length_Suc_conv)
    then obtain y where ys: "ys = [y]" using less.prems(1) by (cases ys) auto
    show ?thesis using less.prems(3) by (simp add: xs ys merkle_tree_single)
  qed
qed

text \<open>
  With hashes that do not collide the root commits to the transactions: two blocks with equally
  many transactions and the same root have the same transaction digests in the same order.
\<close>

theorem merkle_root_binding:
  assumes "\<forall>u v x y. h u v = h x y \<longrightarrow> u = x \<and> v = y" and "inj hr"
    and "length (b_transactions b1) = length (b_transactions b2)"
    and "calculate_merkle_root h hr z md b1 = calculate_merkle_root h hr z md b2"
  shows "map md (b_transactions b1) = map md (b_transactions b2)"
proof (cases "b_transactions b1 = []")
  case True
  then show ?thesis using assms(3) by simp
next
  case False
  then have ne: "b_transactions b2 \<noteq> []" using assms(3) by auto
  have "merkle_tree h (map md (b_transactions b1)) = merkle_tree h (map md (b_transactions b2))"
    using assms(2,4) False ne by (simp add: merkle_root_is_tree_eq inj_eq)
  then show ?thesis using merkle_tree_inj [OF assms(1)] assms(3) False by simp
qed

text \<open>Terms as digests: the free hash, without collisions.\<close>

datatype free_digest = Leaf nat | Node free_digest free_digest

definition demo_block :: "nat signed_block" where
  "demo_block = \<lparr>b_previous = null_block_id, b_timestamp = 5, b_miner = 0, b_transaction_merkle_root = 0,
     b_miner_signature = 0, b_transactions = [1, 2, 3]\<rparr>"

theorem merkle_root_binding_witness:
  "calculate_merkle_root Node (\<lambda>d. d) (Leaf 0) Leaf demo_block =
     calculate_merkle_root Node (\<lambda>d. d) (Leaf 0) Leaf (demo_block\<lparr>b_miner := 1\<rparr>) \<and>
   map Leaf (b_transactions demo_block) = map Leaf (b_transactions (demo_block\<lparr>b_miner := 1\<rparr>))"
proof -
  have e: "calculate_merkle_root Node (\<lambda>d. d) (Leaf 0) Leaf demo_block =
     calculate_merkle_root Node (\<lambda>d. d) (Leaf 0) Leaf (demo_block\<lparr>b_miner := 1\<rparr>)"
    by (simp add: calculate_merkle_root_def)
  show ?thesis
    using e merkle_root_binding [of Node "\<lambda>d. d" demo_block "demo_block\<lparr>b_miner := 1\<rparr>" "Leaf 0" Leaf] by (simp add: inj_def)
qed

end
