(* ===== verification/Miner_Schedule.thy ===== *)
theory Miner_Schedule
  imports Block Evaluator "HOL-Library.Multiset"
begin

unbundle bit_operations_syntax

text \<open>
  \<open>db\_miner\_schedule.cpp\<close>: the time of a slot and the slot of a time, and the pseudo-random order
  in which the active miners produce blocks.
\<close>

section \<open>Slots\<close>

definition head_block_num :: "chain \<Rightarrow> nat" where
  "head_block_num c = head_block_number (dgpo c)"

definition maintenance_flag :: nat where
  "maintenance_flag = 1"

definition get_scheduled_miner :: "nat \<Rightarrow> chain \<Rightarrow> nat res" where
  "get_scheduled_miner slot_num c =
     (let ms = current_shuffled_miners (schedule c);
          aslot = u64 (int (current_aslot (dgpo c)) + int slot_num)
      in if ms = [] then Inl Undefined_Behaviour else Inr (ms ! (aslot mod length ms)))"

definition get_slot_time :: "nat \<Rightarrow> chain \<Rightarrow> time_point_sec res" where
  "get_slot_time slot_num c =
     (let interval = block_interval (parameters (gpo c)) in
      if slot_num = 0 then Inr 0
      else if head_block_num c = 0 then
        Inr (time_plus (dg_time (dgpo c)) (u32 (int slot_num * int interval)))
      else if interval = 0 then Inl Undefined_Behaviour
      else
        let head_block_abs_slot = head_block_time c div interval;
            head_slot_time = u32 (int head_block_abs_slot * int interval);
            slot = (if odd (dynamic_flags (dgpo c))
                    then u32 (int slot_num + int (maintenance_skip_slots (parameters (gpo c)))) else slot_num)
        in Inr (time_plus head_slot_time (u32 (int slot * int interval))))"

definition get_slot_at_time :: "time_point_sec \<Rightarrow> chain \<Rightarrow> nat res" where
  "get_slot_at_time when c =
     bindE (get_slot_time 1 c) (\<lambda>first_slot_time.
     if when < first_slot_time then Inr 0
     else if block_interval (parameters (gpo c)) = 0 then Inl Undefined_Behaviour
     else Inr (u32 ((int when - int first_slot_time) div int (block_interval (parameters (gpo c))) + 1)))"

text \<open>The population count of the 128 bits is that of \<open>fc::uint128\<close>.\<close>

definition miner_participation_rate :: "(128 word \<Rightarrow> nat) \<Rightarrow> chain \<Rightarrow> nat" where
  "miner_participation_rate popcount c = u32 (int (10000 * popcount (recent_slots_filled (dgpo c)) div 128))"

section \<open>The shuffle\<close>

definition shuffle_key :: "64 word \<Rightarrow> nat \<Rightarrow> 64 word" where
  "shuffle_key now_hi i =
     (let k0 = now_hi + of_nat i * 2685821657736338717;
          k1 = k0 XOR drop_bit 12 k0;
          k2 = k1 XOR push_bit 25 k1;
          k3 = k2 XOR drop_bit 27 k2
      in k3 * 2685821657736338717)"

definition swap_at :: "nat \<Rightarrow> nat \<Rightarrow> 'a list \<Rightarrow> 'a list" where
  "swap_at i j xs = xs[i := xs ! j, j := xs ! i]"

definition shuffle_step :: "64 word \<Rightarrow> nat \<Rightarrow> nat list \<Rightarrow> nat list" where
  "shuffle_step now_hi i ms =
     (let jmax = u32 (int (length ms) - int i);
          j = u32 (int i + int (unat (shuffle_key now_hi i) mod jmax))
      in swap_at i j ms)"

definition shuffled :: "64 word \<Rightarrow> nat list \<Rightarrow> nat list" where
  "shuffled now_hi ms = fold (shuffle_step now_hi) [0..<length ms] ms"

definition update_miner_schedule :: "chain \<Rightarrow> chain res" where
  "update_miner_schedule c =
     (let active = active_miners (gpo c) in
      if active = [] then Inl Undefined_Behaviour
      else if head_block_num c mod length active = 0 then
        Inr (c\<lparr>schedule := \<lparr>current_shuffled_miners = shuffled (push_bit 32 (of_nat (head_block_time c))) active\<rparr>\<rparr>)
      else Inr c)"

section \<open>Every slot has a time and every time a slot\<close>

text \<open>What slot numbers count from, and that no time of the slots up to \<open>n\<close> overflows 32 bits.\<close>

definition slot_base :: "chain \<Rightarrow> nat" where
  "slot_base c =
     (if head_block_num c = 0 then dg_time (dgpo c)
      else head_block_time c div block_interval (parameters (gpo c)) * block_interval (parameters (gpo c)) +
        (if odd (dynamic_flags (dgpo c)) then maintenance_skip_slots (parameters (gpo c)) * block_interval (parameters (gpo c)) else 0))"

definition slots_fit :: "nat \<Rightarrow> chain \<Rightarrow> bool" where
  "slots_fit n c \<longleftrightarrow> 0 < block_interval (parameters (gpo c)) \<and>
     slot_base c + n * block_interval (parameters (gpo c)) < 2 ^ 32"

lemma u32_nat: "n < 2 ^ 32 \<Longrightarrow> u32 (int n) = n"
  by (simp add: u32_small)

lemma slot_time_linear:
  assumes "slots_fit n c" and "1 \<le> n"
  shows "get_slot_time n c = Inr (slot_base c + n * block_interval (parameters (gpo c)))"
proof -
  let ?i = "block_interval (parameters (gpo c))" and ?k = "maintenance_skip_slots (parameters (gpo c))"
  have i: "0 < ?i" and fit: "slot_base c + n * ?i < 2 ^ 32" using assms(1) by (simp_all add: slots_fit_def)
  show ?thesis
  proof (cases "head_block_num c = 0")
    case True
    have "u32 (int n * int ?i) = n * ?i" using fit u32_nat [of "n * ?i"] by simp
    moreover have "u32 (int (dg_time (dgpo c)) + int (n * ?i)) = dg_time (dgpo c) + n * ?i"
      using fit True u32_nat [of "dg_time (dgpo c) + n * ?i"] by (simp add: slot_base_def)
    ultimately show ?thesis using True assms(2) by (simp add: get_slot_time_def slot_base_def time_plus_def Let_def)
  next
    case False
    let ?h = "head_block_time c div ?i * ?i" and ?f = "odd (dynamic_flags (dgpo c))"
    let ?s = "if ?f then n + ?k else n"
    have b: "slot_base c + n * ?i = ?h + ?s * ?i" using False by (simp add: slot_base_def algebra_simps)
    have s: "?s \<le> ?s * ?i" using i by (cases ?i) simp_all
    have 1: "u32 (int (head_block_time c div ?i) * int ?i) = ?h" using fit b u32_nat [of ?h] by simp
    have 2: "(if ?f then u32 (int n + int ?k) else n) = ?s"
    proof -
      have "?s < 2 ^ 32" using fit b s by linarith
      then show ?thesis using u32_nat [of "n + ?k"] by (simp split: if_splits)
    qed
    have 3: "u32 (int ?s * int ?i) = ?s * ?i" using fit b u32_nat [of "?s * ?i"] by simp
    have 4: "u32 (int ?h + int (?s * ?i)) = ?h + ?s * ?i" using fit b u32_nat [of "?h + ?s * ?i"] by simp
    show ?thesis
      unfolding get_slot_time_def Let_def time_plus_def 1 2 3 4 b using False i assms(2) by simp
  qed
qed

lemma slots_fit_mono: "slots_fit n c \<Longrightarrow> m \<le> n \<Longrightarrow> slots_fit m c"
  using mult_le_mono1 [of m n "block_interval (parameters (gpo c))"] unfolding slots_fit_def by linarith

lemma slot_at_time_linear:
  assumes fit: "slots_fit 1 c" and w: "w < 2 ^ 32"
  shows "get_slot_at_time w c =
    Inr (if w < slot_base c + block_interval (parameters (gpo c)) then 0
         else (w - slot_base c) div block_interval (parameters (gpo c)))"
proof -
  let ?i = "block_interval (parameters (gpo c))" and ?b = "slot_base c"
  have i: "0 < ?i" using fit by (simp add: slots_fit_def)
  have first: "get_slot_time 1 c = Inr (?b + ?i)" using slot_time_linear [OF fit] by simp
  show ?thesis
  proof (cases "w < ?b + ?i")
    case True
    then show ?thesis using first by (simp add: get_slot_at_time_def)
  next
    case False
    have d: "(int w - int (?b + ?i)) div int ?i + 1 = int ((w - ?b) div ?i)"
    proof -
      have "int w - int (?b + ?i) = int (w - ?b - ?i)" using False by simp
      moreover have "(w - ?b) div ?i = (w - ?b - ?i) div ?i + 1" 
      proof -
        have "?i \<le> w - ?b" using False by simp
        from le_div_geq [OF i this] show ?thesis by linarith
      qed
      ultimately show ?thesis by (simp only: zdiv_int of_nat_add of_nat_1)
    qed
    have "(w - ?b) div ?i < 2 ^ 32" using w by (meson div_le_dividend diff_le_self le_less_trans)
    then have "u32 ((int w - int (?b + ?i)) div int ?i + 1) = (w - ?b) div ?i" unfolding d by (rule u32_nat)
    with False first i show ?thesis unfolding get_slot_at_time_def by (simp only: bindE_simps if_False) simp
  qed
qed

lemma slot_interval:
  fixes i :: nat
  assumes "0 < i" and "1 \<le> n"
  shows "(if w < b + i then 0 else (w - b) div i) = n \<longleftrightarrow> b + n * i \<le> w \<and> w < b + (n + 1) * i"
proof -
  have "i \<le> n * i" using assms by (cases n) simp_all
  moreover have "(w - b) div i = n \<longleftrightarrow> n * i \<le> w - b \<and> w - b < (n + 1) * i"
    using assms(1) div_nat_eqI [of i n "w - b"] div_times_less_eq_dividend [of "w - b" i] dividend_less_div_times [of i "w - b"]
    by (auto simp: algebra_simps)
  ultimately show ?thesis using assms(2) by (cases "w < b + i") (auto simp: le_diff_conv2 less_diff_conv2)
qed

text \<open>
  C35. Slot times and slots agree: the slot of the time of slot \<open>n\<close> is \<open>n\<close> (from 1 on), and
  the slot found for a time is the one whose interval contains it, slot 0 being everything before
  the first slot, as long as times fit into 32 bits.
\<close>

theorem slot_time_roundtrip:
  assumes fit: "slots_fit (n + 1) c" and n: "1 \<le> n" and t: "when < 2 ^ 32"
  shows "\<exists>t0 t1. get_slot_time n c = Inr t0 \<and> get_slot_time (n + 1) c = Inr t1 \<and> t0 < t1 \<and>
    get_slot_at_time t0 c = Inr n \<and> (get_slot_at_time when c = Inr n \<longleftrightarrow> t0 \<le> when \<and> when < t1)"
proof -
  let ?i = "block_interval (parameters (gpo c))" and ?b = "slot_base c"
  have i: "0 < ?i" using fit by (simp add: slots_fit_def)
  have lt: "?b + (n + 1) * ?i < 2 ^ 32" using fit by (simp add: slots_fit_def)
  have t0: "get_slot_time n c = Inr (?b + n * ?i)"
    using slot_time_linear [OF slots_fit_mono [OF fit]] n by simp
  have t1: "get_slot_time (n + 1) c = Inr (?b + (n + 1) * ?i)"
    using slot_time_linear [OF fit] by simp
  have at: "get_slot_at_time w c = Inr (if w < ?b + ?i then 0 else (w - ?b) div ?i)" if "w < 2 ^ 32" for w
    using slot_at_time_linear [OF slots_fit_mono [OF fit]] that n by simp
  have iff: "(if w < ?b + ?i then 0 else (w - ?b) div ?i) = n \<longleftrightarrow> ?b + n * ?i \<le> w \<and> w < ?b + (n + 1) * ?i" for w
    using slot_interval [OF i n] by simp
  have "get_slot_at_time (?b + n * ?i) c = Inr n" using at [of "?b + n * ?i"] iff [of "?b + n * ?i"] lt i by simp
  moreover have "get_slot_at_time when c = Inr n \<longleftrightarrow> ?b + n * ?i \<le> when \<and> when < ?b + (n + 1) * ?i"
    using at [OF t] iff [of "when"] by simp
  ultimately show ?thesis using t0 t1 i by auto
qed

section \<open>The schedule is fair\<close>

lemma mset_swap_at: "i < length xs \<Longrightarrow> j < length xs \<Longrightarrow> mset (swap_at i j xs) = mset xs"
  by (simp add: swap_at_def mset_swap)

lemma length_shuffle_step [simp]: "length (shuffle_step h i ms) = length ms"
  by (simp add: shuffle_step_def swap_at_def Let_def)

lemma mset_shuffle_step:
  assumes "i < length ms" and "length ms < 2 ^ 32"
  shows "mset (shuffle_step h i ms) = mset ms"
proof -
  let ?m = "length ms - i"
  define q where "q = unat (shuffle_key h i) mod ?m"
  have m: "int (length ms) - int i = int ?m" and lt: "?m < 2 ^ 32" using assms by simp_all
  have jmax: "u32 (int (length ms) - int i) = ?m" unfolding m by (rule u32_nat [OF lt])
  have "0 < ?m" using assms(1) by simp
  then have q: "q < ?m" unfolding q_def by (rule mod_less_divisor)
  then have iq: "i + q < length ms" and b: "i + q < 2 ^ 32" using assms by linarith+
  have "u32 (int i + int q) = i + q" using u32_nat [OF b] by simp
  then have "shuffle_step h i ms = swap_at i (i + q) ms"
    by (simp only: shuffle_step_def jmax Let_def q_def)
  then show ?thesis using mset_swap_at [OF assms(1) iq] by simp
qed

lemma mset_fold_shuffle:
  "list_all (\<lambda>i. i < length ms) is \<Longrightarrow> length ms < 2 ^ 32 \<Longrightarrow> mset (fold (shuffle_step h) is ms) = mset ms"
proof (induction "is" arbitrary: ms)
  case (Cons i "is")
  then show ?case using mset_shuffle_step [of i ms h] by simp
qed simp

lemma mset_shuffled: "length ms < 2 ^ 32 \<Longrightarrow> mset (shuffled h ms) = mset ms"
  unfolding shuffled_def by (rule mset_fold_shuffle) (auto simp: list_all_iff)

text \<open>Any round of consecutive slots is a rotation of the schedule.\<close>

lemma round_is_rotation:
  assumes "xs \<noteq> []"
  shows "map (\<lambda>i. xs ! ((a + i) mod length xs)) [0..<length xs] = rotate a xs"
  using assms by (intro nth_equalityI) (simp_all add: nth_rotate add.commute)

lemma mset_rotate_eq: "mset (rotate n xs) = mset xs"
proof (induction n)
  case (Suc n)
  have "mset (rotate1 ys) = mset ys" for ys :: "'a list" by (cases ys) simp_all
  then show ?case using Suc by (simp add: rotate_Suc)
qed simp

text \<open>
  C28. A new schedule is a permutation of the active miners, and in any round of as many consecutive
  slots as there are active miners every active miner is scheduled exactly once.
\<close>

theorem schedule_fair:
  assumes upd: "update_miner_schedule c = Inr c'" and due: "head_block_num c mod length (active_miners (gpo c)) = 0"
    and size: "length (active_miners (gpo c)) < 2 ^ 32"
    and fit: "current_aslot (dgpo c) + s + length (active_miners (gpo c)) \<le> 2 ^ 64"
  shows "mset (current_shuffled_miners (schedule c')) = mset (active_miners (gpo c)) \<and>
    mset (map (\<lambda>i. get_scheduled_miner (s + i) c') [0..<length (active_miners (gpo c))]) =
      image_mset Inr (mset (active_miners (gpo c)))"
proof -
  let ?act = "active_miners (gpo c)" and ?h = "push_bit 32 (of_nat (head_block_time c)) :: 64 word"
  let ?ms = "shuffled ?h ?act" and ?a = "current_aslot (dgpo c) + s"
  from upd due have ne: "?act \<noteq> []" and c': "c' = c\<lparr>schedule := \<lparr>current_shuffled_miners = ?ms\<rparr>\<rparr>"
    by (auto simp: update_miner_schedule_def Let_def split: if_splits)
  have m: "mset ?ms = mset ?act" by (rule mset_shuffled [OF size])
  then have len: "length ?ms = length ?act" by (metis size_mset)
  then have ne': "?ms \<noteq> []" using ne by auto
  have "get_scheduled_miner (s + i) c' = Inr (?ms ! ((?a + i) mod length ?ms))" if "i < length ?act" for i
  proof -
    have "u64 (int (current_aslot (dgpo c)) + int (s + i)) = ?a + i"
      using u64_small [of "int (?a + i)"] fit that by (simp add: add.assoc)
    then show ?thesis using ne' by (simp add: get_scheduled_miner_def c' Let_def)
  qed
  then have "map (\<lambda>i. get_scheduled_miner (s + i) c') [0..<length ?act] =
      map Inr (map (\<lambda>i. ?ms ! ((?a + i) mod length ?ms)) [0..<length ?ms])"
    by (simp add: len)
  also have "\<dots> = map Inr (rotate ?a ?ms)" by (simp only: round_is_rotation [OF ne'])
  finally have e: "map (\<lambda>i. get_scheduled_miner (s + i) c') [0..<length ?act] = map Inr (rotate ?a ?ms)" .
  have "mset (map (\<lambda>i. get_scheduled_miner (s + i) c') [0..<length ?act]) = image_mset Inr (mset ?act)"
    unfolding e mset_map mset_rotate_eq m ..
  then show ?thesis using m by (simp add: c')
qed

section \<open>Concrete instances\<close>

definition demo_schedule_chain :: chain where
  "demo_schedule_chain = demo_chain\<lparr>gpo := (gpo demo_chain)\<lparr>active_miners := [3, 1, 4, 2]\<rparr>\<rparr>"

theorem slot_time_roundtrip_witness:
  "get_slot_time 3 demo_chain = Inr 415 \<and> get_slot_at_time 415 demo_chain = Inr 3 \<and> get_slot_at_time 419 demo_chain = Inr 3"
proof -
  have fit: "slots_fit (3 + 1) demo_chain"
    by (simp add: slots_fit_def slot_base_def head_block_num_def head_block_time_def demo_chain_def demo_params_def)
  have t: "get_slot_time 3 demo_chain = Inr 415" "get_slot_time (3 + 1) demo_chain = Inr 420"
    by (simp_all add: get_slot_time_def Let_def head_block_num_def head_block_time_def demo_chain_def demo_params_def
        time_plus_def u32_def)
  show ?thesis using slot_time_roundtrip [OF fit, of 419] t by auto
qed

theorem schedule_fair_witness:
  "\<exists>c'. update_miner_schedule demo_schedule_chain = Inr c' \<and>
     mset (map (\<lambda>i. get_scheduled_miner (7 + i) c') [0..<4]) = {#Inr 3, Inr 1, Inr 4, Inr 2#}"
proof -
  have a: "active_miners (gpo demo_schedule_chain) = [3, 1, 4, 2]" by (simp add: demo_schedule_chain_def)
  have h: "head_block_num demo_schedule_chain = 80" "current_aslot (dgpo demo_schedule_chain) = 80"
    by (simp_all add: head_block_num_def demo_schedule_chain_def demo_chain_def)
  obtain c' where c': "update_miner_schedule demo_schedule_chain = Inr c'"
    using a h by (simp add: update_miner_schedule_def Let_def)
  have "[0..<4] = [0, 1, 2, 3 :: nat]" by code_simp
  then show ?thesis using schedule_fair [OF c', of 7] c' by (simp add: a h)
qed

end
