(* ===== verification/Housekeeping.thy ===== *)
theory Housekeeping
  imports Subscription Miner_Schedule
begin

text \<open>
  \<open>db\_decent.cpp\<close>: what maintenance does for content, purchases, seeders and subscriptions, the
  block reward, and the count of the real supply. Rows with equal keys of an ordered index are
  visited in the order of their ids. The virtual operations pushed for the plugins are not part of
  the state.
\<close>

section \<open>Expired purchases and content\<close>

definition buying_expire :: "safe \<Rightarrow> nat \<Rightarrow> chain \<Rightarrow> chain res" where
  "buying_expire S k c =
     bindE (t_get (buyings c) k) (\<lambda>buying.
     bindE (adjust_balance S (bo_consumer buying) (bo_price buying) c) (\<lambda>c1.
     bindE (t_modify buying_key k (\<lambda>bo. Inr (bo\<lparr>bo_price := (bo_price bo)\<lparr>amount := 0\<rparr>, bo_expired := True,
              bo_expiration_or_delivery_time := head_block_time c1\<rparr>)) (buyings c1)) (\<lambda>t.
     Inr (c1\<lparr>buyings := t\<rparr>))))"

definition is_stats_of :: "account_id_type \<Rightarrow> seeding_statistics_object \<Rightarrow> bool" where
  "is_stats_of x so \<longleftrightarrow> ss_seeder so = x"

definition modify_seeding_stats ::
  "account_id_type \<Rightarrow> (seeding_statistics_object \<Rightarrow> seeding_statistics_object) \<Rightarrow> chain \<Rightarrow> chain res" where
  "modify_seeding_stats x f c =
     bindE (lift_opt Undefined_Behaviour (t_find_by (is_stats_of x) (seeding_stats c))) (\<lambda>(k, so).
     bindE (t_modify stats_key k (\<lambda>so. Inr (f so)) (seeding_stats c)) (\<lambda>t.
     Inr (c\<lparr>seeding_stats := t\<rparr>)))"

definition forget_seeded :: "content_object \<Rightarrow> seeding_statistics_object \<Rightarrow> seeding_statistics_object" where
  "forget_seeded co so =
     so\<lparr>ss_total_content_seeded := u64 (int (ss_total_content_seeded so) -
          int (u64 (int (co_size co) * 1000 * 1000) div length (co_key_parts co))),
        ss_num_of_content_seeded := u32 (int (ss_num_of_content_seeded so) - 1)\<rparr>"

definition forget_requested :: "seeding_statistics_object \<Rightarrow> seeding_statistics_object" where
  "forget_requested so =
     (if 0 < ss_total_content_requested_to_seed so
      then so\<lparr>ss_total_content_requested_to_seed := ss_total_content_requested_to_seed so - 1\<rparr> else so)"

definition release_seeder :: "content_object \<Rightarrow> account_id_type \<times> opaque \<Rightarrow> chain \<Rightarrow> chain res" where
  "release_seeder co element c =
     modify_seeding_stats (fst element)
       (if map_of (co_last_proof co) (fst element) \<noteq> None then forget_seeded co else forget_requested) c"

definition content_expire :: "safe \<Rightarrow> nat \<Rightarrow> chain \<Rightarrow> chain res" where
  "content_expire S k c =
     bindE (t_get (contents c) k) (\<lambda>content.
     let payee = (if 0 \<le> amount (co_publishing_fee_escrow content) then co_author_of content else 20)
     in bindE (adjust_balance S payee (co_publishing_fee_escrow content) c) (\<lambda>c1.
        bindE (t_modify content_key k (\<lambda>co. Inr (co\<lparr>co_publishing_fee_escrow := (co_publishing_fee_escrow co)\<lparr>amount := 0\<rparr>\<rparr>))
                 (contents c1)) (\<lambda>t.
        foldE (release_seeder content) (co_key_parts content) (c1\<lparr>contents := t\<rparr>))))"

section \<open>Subscriptions\<close>

text \<open>
  A renewal that raises leaves what it has done so far, because the caller catches the exception:
  the error carries the state.
\<close>

definition renew_subscription :: "safe \<Rightarrow> nat \<Rightarrow> nat \<Rightarrow> asset \<Rightarrow> chain \<Rightarrow> (err \<times> chain) + chain" where
  "renew_subscription S k period price' c =
     (case bindE (t_get (subscriptions c) k) (\<lambda>so.
           bindE (t_modify subscription_key k (\<lambda>so. Inr (so\<lparr>sub_expiration :=
                    time_plus (sub_expiration so) (u32 (int period * 24 * 3600))\<rparr>)) (subscriptions c)) (\<lambda>t.
           Inr (so, c\<lparr>subscriptions := t\<rparr>))) of
        Inl e \<Rightarrow> Inl (e, c)
      | Inr (so, c1) \<Rightarrow>
     (case add_detail \<lparr>m_from_account = sub_from so, m_to_account = sub_to so, m_operation_type = Subscription_Detail,
             m_transaction_amount = price', m_transaction_fee = mk_asset 0 0,
             m_str_description = nat_to_string period @ '' day'' @ (if 1 < period then ''s'' else []),
             m_memo = None, m_timestamp = head_block_time c1, m_nft_data_id = None\<rparr> c1 of
        Inl e \<Rightarrow> Inl (e, c1)
      | Inr c2 \<Rightarrow>
     (case bindE (asset_neg S price') (\<lambda>d. adjust_balance S (sub_from so) d c2) of
        Inl e \<Rightarrow> Inl (e, c2)
      | Inr c3 \<Rightarrow>
     (case adjust_balance S (sub_to so) price' c3 of
        Inl e \<Rightarrow> Inl (e, c3)
      | Inr c4 \<Rightarrow> Inr c4))))"

definition disallow_automatic_renewal :: "nat \<Rightarrow> chain \<Rightarrow> chain res" where
  "disallow_automatic_renewal k c =
     bindE (t_modify subscription_key k (\<lambda>so. Inr (so\<lparr>automatic_renewal := False\<rparr>)) (subscriptions c)) (\<lambda>t.
     Inr (c\<lparr>subscriptions := t\<rparr>))"

definition renewal_price :: "chain \<Rightarrow> asset \<Rightarrow> asset res" where
  "renewal_price c p =
     bindE (get_asset c (asset_id p)) (\<lambda>ao.
     case monitored_asset_opts ao of
       Some mo \<Rightarrow>
         bindE (require (\<not> price_is_null (feed_rate (current_feed mo))) Assert_Exception) (\<lambda>_.
         asset_times_price p (feed_rate (current_feed mo)))
     | None \<Rightarrow> Inr p)"

text \<open>
  One subscription of the loop; the flag tells whether it is still marked for renewal. An assertion
  that fails inside is caught.
\<close>

definition try_renewal :: "safe \<Rightarrow> nat \<Rightarrow> subscription_object \<Rightarrow> chain \<Rightarrow> (bool \<times> chain) res" where
  "try_renewal S k so c =
     bindE (lift_opt Undefined_Behaviour (generic_find (accounts c) (sub_to so))) (\<lambda>author.
     case bindE (renewal_price c (price_per_subscribe (acc_options author))) (\<lambda>dct_price.
          bindE (asset_le dct_price (get_balance c (sub_from so) (asset_id dct_price))) (\<lambda>enough.
          Inr (dct_price, enough))) of
       Inl e \<Rightarrow> if e = Assert_Exception then bindE (disallow_automatic_renewal k c) (\<lambda>c'. Inr (False, c')) else Inl e
     | Inr (dct_price, enough) \<Rightarrow>
         if enough then
           (case renew_subscription S k (subscription_period (acc_options author)) dct_price c of
              Inr c' \<Rightarrow> Inr (True, c')
            | Inl (e, c') \<Rightarrow>
                if e = Assert_Exception then bindE (disallow_automatic_renewal k c') (\<lambda>c''. Inr (False, c'')) else Inl e)
         else bindE (disallow_automatic_renewal k c) (\<lambda>c'. Inr (False, c')))"

text \<open>
  The loop over the index ordered by the mark, marked subscriptions first. Clearing the mark of the
  current row moves it behind all marked ones, the iterator with it: the loop ends there.
\<close>

fun renewal_loop :: "safe \<Rightarrow> time_point_sec \<Rightarrow> (nat \<times> subscription_object) list \<Rightarrow> chain \<Rightarrow> chain res" where
  "renewal_loop S next_maint [] c = Inr c"
| "renewal_loop S next_maint ((k, so) # rest) c =
     (if sub_expiration so \<le> next_maint then
        bindE (try_renewal S k so c) (\<lambda>(marked, c'). if marked then renewal_loop S next_maint rest c' else Inr c')
      else renewal_loop S next_maint rest c)"

section \<open>Statistics of the seeders\<close>

record seeding_ratios =
  sr_key_delivery :: nat
  sr_avg_buying :: nat
  sr_seeding_rel :: nat
  sr_seeding_abs :: nat
  sr_missed :: nat

definition seeding_ratios_of :: "seeding_statistics_object \<Rightarrow> seeding_ratios" where
  "seeding_ratios_of stats =
     (let requests = u32 (int (ss_total_delivered_keys stats) + int (ss_missed_delivered_keys stats));
          key_delivery = (if 0 < requests then u32 (int (ss_total_delivered_keys stats) * 10000) div requests else 0);
          upload_recent = (if 0 < ss_total_content_seeded stats
            then u64 ((int (ss_total_upload stats) - int (ss_uploaded_till_last_maint stats)) * 10000) div ss_total_content_seeded stats
            else 0);
          old_avg = u32 (int (ss_avg_buying_ratio stats) * 7) div 10;
          avg_buying = (if 0 < ss_num_of_content_seeded stats
            then u32 (int (u32 (int requests * 10000 * 3) div ss_num_of_content_seeded stats div 10) + int old_avg)
            else old_avg);
          rel = (if 0 < avg_buying \<and> 0 < upload_recent
            then u32 (int (u64 (3 * 10000 * int upload_recent) div avg_buying div 10) + int (u32 (int (ss_seeding_rel_ratio stats) * 7) div 10))
            else ss_seeding_rel_ratio stats);
          abs_ratio = (if 0 < upload_recent
            then u32 (int (u64 (3 * int upload_recent) div 10) + int (u32 (int (ss_seeding_abs_ratio stats) * 7) div 10))
            else ss_seeding_abs_ratio stats);
          num_of_content = u32 (int (ss_total_content_requested_to_seed stats) + int (ss_num_of_content_seeded stats));
          old_missed = u32 (int (ss_missed_ratio stats) * 7) div 10;
          missed = (if 0 < num_of_content
            then u32 (int (u32 (3 * int (ss_num_of_content_seeded stats) * 10000) div num_of_content div 10) + int old_missed)
            else old_missed)
      in \<lparr>sr_key_delivery = key_delivery, sr_avg_buying = avg_buying, sr_seeding_rel = min 20000 rel,
          sr_seeding_abs = min 40000 abs_ratio, sr_missed = missed\<rparr>)"

definition rating_of :: "seeding_ratios \<Rightarrow> nat" where
  "rating_of r = min (u32 (int (sr_seeding_rel r) + int (sr_seeding_abs r)) div 6)
     (u32 (int (sr_missed r) + int (sr_key_delivery r)) div 2)"

definition reset_stats :: "seeding_ratios \<Rightarrow> seeding_statistics_object \<Rightarrow> seeding_statistics_object" where
  "reset_stats r so =
     so\<lparr>ss_uploaded_till_last_maint := ss_total_upload so, ss_missed_delivered_keys := 0, ss_total_delivered_keys := 0,
        ss_total_content_requested_to_seed := 0, ss_num_of_pors := 0, ss_avg_buying_ratio := sr_avg_buying r,
        ss_seeding_rel_ratio := sr_seeding_rel r, ss_seeding_abs_ratio := sr_seeding_abs r, ss_missed_ratio := sr_missed r\<rparr>"

definition rate_seeder :: "nat \<times> seeder_object \<Rightarrow> chain \<Rightarrow> chain res" where
  "rate_seeder row c =
     bindE (t_get (seeding_stats c) (se_stats (snd row))) (\<lambda>stats.
     let r = seeding_ratios_of stats
     in bindE (t_modify seeder_key (fst row) (\<lambda>so. Inr (so\<lparr>se_rating := rating_of r\<rparr>)) (seeders c)) (\<lambda>t.
        bindE (t_modify stats_key (se_stats (snd row)) (\<lambda>so. Inr (reset_stats r so)) (seeding_stats c)) (\<lambda>u.
        Inr (c\<lparr>seeders := t, seeding_stats := u\<rparr>))))"

definition set_and_reset_seeding_stats :: "chain \<Rightarrow> chain res" where
  "set_and_reset_seeding_stats c = foldE rate_seeder (g_rows (seeders c)) c"

section \<open>decent\_housekeeping\<close>

text \<open>The rows of an ordered index with keys from \<open>lo\<close> to \<open>hi\<close>.\<close>

definition due_rows :: "('o \<Rightarrow> time_point_sec) \<Rightarrow> time_point_sec \<Rightarrow> time_point_sec \<Rightarrow> 'o table \<Rightarrow> 'o rows" where
  "due_rows key lo hi t = sort_key (\<lambda>r. key (snd r)) (filter (\<lambda>r. lo \<le> key (snd r) \<and> key (snd r) \<le> hi) (g_rows t))"

definition housekeeping_start :: "chain \<Rightarrow> time_point_sec" where
  "housekeeping_start c = time_plus (last_budget_time (dgpo c)) (block_interval (parameters (gpo c)))"

definition expire_contents :: "safe \<Rightarrow> chain \<Rightarrow> chain res" where
  "expire_contents S c =
     foldE (\<lambda>r. content_expire S (fst r)) (due_rows co_expiration (housekeeping_start c) (head_block_time c) (contents c)) c"

definition expire_buyings :: "safe \<Rightarrow> chain \<Rightarrow> chain res" where
  "expire_buyings S c =
     foldE (\<lambda>r c. if \<not> bo_delivered (snd r) then buying_expire S (fst r) c else Inr c)
       (due_rows bo_expiration_time (housekeeping_start c) (head_block_time c) (buyings c)) c"

text \<open>The next maintenance time after the head block; \<open>first\<close> tells whether the block is the first one.\<close>

definition maintenance_after :: "bool \<Rightarrow> time_point_sec \<Rightarrow> time_point_sec \<Rightarrow> time_point_sec \<Rightarrow> nat \<Rightarrow> time_point_sec res" where
  "maintenance_after first block_time head_time next_time interval =
     (if interval = 0 then Inl Undefined_Behaviour
      else if first then Inr (u32 (int (u32 (int (block_time div interval) + 1)) * int interval))
      else Inr (time_plus next_time (u32 ((c_div (int head_time - int next_time) (int interval) + 1) * int interval))))"

definition housekeeping_next_maintenance :: "chain \<Rightarrow> time_point_sec res" where
  "housekeeping_next_maintenance c =
     maintenance_after (head_block_num c = 1) (head_block_time c) (head_block_time c) (next_maintenance_time (dgpo c))
       (maintenance_interval (case pending_parameters (gpo c) of Some p \<Rightarrow> p | None \<Rightarrow> parameters (gpo c)))"

definition renew_subscriptions :: "safe \<Rightarrow> chain \<Rightarrow> chain res" where
  "renew_subscriptions S c =
     bindE (housekeeping_next_maintenance c) (\<lambda>next_maint.
     renewal_loop S next_maint (filter (\<lambda>r. automatic_renewal (snd r)) (g_rows (subscriptions c))) c)"

definition decent_housekeeping :: "safe \<Rightarrow> chain \<Rightarrow> chain res" where
  "decent_housekeeping S c =
     bindE (set_and_reset_seeding_stats c) (\<lambda>c1.
     bindE (expire_contents S c1) (\<lambda>c2.
     bindE (expire_buyings S c2) (\<lambda>c3.
     renew_subscriptions S c3)))"

section \<open>Housekeeping moves money, it makes none\<close>

definition money_kept :: "chain \<Rightarrow> chain \<Rightarrow> bool" where
  "money_kept c c' \<longleftrightarrow> chain_ok c' \<and> accounts c' = accounts c \<and> gpo c' = gpo c \<and> dgpo c' = dgpo c \<and> assets c' = assets c \<and> asset_dyn c' = asset_dyn c \<and>
     (\<forall>a. holdings c' a = holdings c a \<and> supply_of c' a = supply_of c a)"

lemma money_kept_refl: "chain_ok c \<Longrightarrow> money_kept c c"
  by (simp add: money_kept_def)

lemma money_kept_trans: "money_kept c c' \<Longrightarrow> money_kept c' c'' \<Longrightarrow> money_kept c c''"
  by (auto simp: money_kept_def)

lemma money_keptD: "money_kept c c' \<Longrightarrow> chain_ok c'"
  by (simp add: money_kept_def)

lemma foldE_money_kept:
  assumes "foldE f xs c = Inr c'" and "chain_ok c"
    and "\<And>x c c'. x \<in> set xs \<Longrightarrow> chain_ok c \<Longrightarrow> f x c = Inr c' \<Longrightarrow> money_kept c c'"
  shows "money_kept c c'"
proof -
  have "chain_ok c' \<and> money_kept c c'"
    by (rule foldE_invariant [OF assms(1), where I = "\<lambda>d. chain_ok d \<and> money_kept c d"])
      (use assms(2,3) money_kept_refl money_kept_trans money_keptD in blast)+
  then show ?thesis by simp
qed

lemma seeding_money_kept: "chain_ok c \<Longrightarrow> t_ok t \<Longrightarrow> money_kept c (c\<lparr>seeding_stats := t\<rparr>)"
  by (simp add: money_kept_def frame)

lemma seeders_money_kept: "chain_ok c \<Longrightarrow> t_ok t \<Longrightarrow> money_kept c (c\<lparr>seeders := t\<rparr>)"
  by (simp add: money_kept_def frame)

lemma subscriptions_money_kept: "chain_ok c \<Longrightarrow> t_ok t \<Longrightarrow> money_kept c (c\<lparr>subscriptions := t\<rparr>)"
  by (simp add: money_kept_def frame)

lemma t_modify_keeps_ok: "t_ok t \<Longrightarrow> t_modify clash k f t = Inr t' \<Longrightarrow> t_ok t'"
  by (rule t_modify_law)

lemma release_seeder_kept:
  assumes "chain_ok c" and "release_seeder co e c = Inr c'"
  shows "money_kept c c'"
proof -
  from assms(2) obtain k f t where t: "t_modify stats_key k f (seeding_stats c) = Inr t" and c': "c' = c\<lparr>seeding_stats := t\<rparr>"
    by (auto simp: release_seeder_def modify_seeding_stats_def)
  show ?thesis unfolding c' using assms(1) t_modify_keeps_ok [OF _ t] by (intro seeding_money_kept) (simp_all add: frame)
qed

lemma rate_seeder_kept:
  assumes "chain_ok c" and "rate_seeder row c = Inr c'"
  shows "money_kept c c'"
proof -
  from assms(2) obtain f g t u where t: "t_modify seeder_key (fst row) f (seeders c) = Inr t"
    and u: "t_modify stats_key (se_stats (snd row)) g (seeding_stats c) = Inr u" and c': "c' = c\<lparr>seeders := t, seeding_stats := u\<rparr>"
    by (auto simp: rate_seeder_def Let_def)
  have ok: "t_ok t" "t_ok u" using assms(1) t_modify_keeps_ok [OF _ t] t_modify_keeps_ok [OF _ u] by (simp_all add: frame)
  show ?thesis unfolding c'
    by (rule money_kept_trans [OF seeders_money_kept seeding_money_kept]) (use assms(1) ok in \<open>simp_all add: frame\<close>)
qed

text \<open>An escrow paid out and set to zero.\<close>

lemma buying_expire_kept:
  assumes "safe_exact S" and "chain_ok c" and "buying_expire S k c = Inr c'"
  shows "money_kept c c'"
proof -
  from assms(3) obtain b c1 t where b: "generic_find (buyings c) k = Some b"
    and c1: "adjust_balance S (bo_consumer b) (bo_price b) c = Inr c1"
    and t: "t_modify buying_key k (\<lambda>bo. Inr (bo\<lparr>bo_price := (bo_price bo)\<lparr>amount := 0\<rparr>, bo_expired := True,
              bo_expiration_or_delivery_time := head_block_time c1\<rparr>)) (buyings c1) = Inr t"
    and c': "c' = c1\<lparr>buyings := t\<rparr>"
    by (auto simp: buying_expire_def)
  note a = adjust_balance_holdings [OF assms(1,2) c1]
  have same: "buyings c1 = buyings c" "accounts c1 = accounts c" "gpo c1 = gpo c" "dgpo c1 = dgpo c" "assets c1 = assets c"
      "asset_dyn c1 = asset_dyn c"
    by (subst a(4), simp)+
  have ok: "t_ok (buyings c1)" using a(1) by (simp add: frame)
  have "t_sum (bought_in x) t = t_sum (bought_in x) (buyings c1) - bought_in x b" for x
    by (rule t_sum_modify [OF ok t, of "bought_in x"]) (use b same(1) in \<open>auto simp: bought_in_def\<close>)
  moreover have "t_ok t" by (rule t_modify_keeps_ok [OF ok t])
  ultimately show ?thesis
    unfolding c' money_kept_def using a(1,2,3) same by (auto simp: frame bought_in_def)
qed

lemma content_expire_kept:
  assumes "safe_exact S" and "chain_ok c" and "content_expire S k c = Inr c'"
  shows "money_kept c c'"
proof -
  from assms(3) obtain x p c1 t where x: "generic_find (contents c) k = Some x"
    and c1: "adjust_balance S p (co_publishing_fee_escrow x) c = Inr c1"
    and t: "t_modify content_key k (\<lambda>co. Inr (co\<lparr>co_publishing_fee_escrow := (co_publishing_fee_escrow co)\<lparr>amount := 0\<rparr>\<rparr>))
              (contents c1) = Inr t"
    and c': "foldE (release_seeder x) (co_key_parts x) (c1\<lparr>contents := t\<rparr>) = Inr c'"
    by (auto simp: content_expire_def Let_def)
  note a = adjust_balance_holdings [OF assms(1,2) c1]
  have same: "contents c1 = contents c" "accounts c1 = accounts c" "gpo c1 = gpo c" "dgpo c1 = dgpo c" "assets c1 = assets c"
      "asset_dyn c1 = asset_dyn c"
    by (subst a(4), simp)+
  have ok: "t_ok (contents c1)" using a(1) by (simp add: frame)
  have "t_sum (escrowed_in y) t = t_sum (escrowed_in y) (contents c1) - escrowed_in y x" for y
    by (rule t_sum_modify [OF ok t, of "escrowed_in y"]) (use x same(1) in \<open>auto simp: escrowed_in_def\<close>)
  moreover have "t_ok t" by (rule t_modify_keeps_ok [OF ok t])
  ultimately have 1: "money_kept c (c1\<lparr>contents := t\<rparr>)"
    unfolding money_kept_def using a(1,2,3) same by (auto simp: frame escrowed_in_def)
  have "money_kept (c1\<lparr>contents := t\<rparr>) c'"
    by (rule foldE_money_kept [OF c' money_keptD [OF 1] release_seeder_kept])
  with 1 show ?thesis by (rule money_kept_trans)
qed

lemma disallow_kept:
  assumes "chain_ok c" and "disallow_automatic_renewal k c = Inr c'"
  shows "money_kept c c'"
proof -
  from assms(2) obtain f t where t: "t_modify subscription_key k f (subscriptions c) = Inr t" and c': "c' = c\<lparr>subscriptions := t\<rparr>"
    by (auto simp: disallow_automatic_renewal_def)
  show ?thesis unfolding c' using assms(1) t_modify_keeps_ok [OF _ t] by (intro subscriptions_money_kept) (simp_all add: frame)
qed

text \<open>
  A renewal is all or nothing unless the arithmetic overflows: the transfer cannot be refused
  between its two halves when the price is not negative.
\<close>

definition safe_no_assert :: "safe \<Rightarrow> bool" where
  "safe_no_assert S \<longleftrightarrow> (\<forall>n. S n \<noteq> Inl Assert_Exception)"

lemma deposit_not_refused:
  assumes "safe_no_assert S" and "balances_ok (balances c)" and "0 \<le> amount d"
  shows "adjust_balance S x d c \<noteq> Inl Assert_Exception"
proof (cases "amount d = 0")
  case True
  then show ?thesis by (simp add: adjust_balance_def)
next
  case nz: False
  show ?thesis
  proof (cases "t_find_by (is_balance_of x (asset_id d)) (balances c)")
    case None
    have "\<exists>t. t_create balance_key \<lparr>bal_owner = x, bal_asset = asset_id d, bal_balance = amount d\<rparr> (balances c) = Inr t"
    proof (rule t_create_ok)
      show "t_ok (balances c)" using assms(2) by (simp add: balances_ok_def)
      show "\<not> balance_key \<lparr>bal_owner = x, bal_asset = asset_id d, bal_balance = amount d\<rparr> y" if "generic_find (balances c) k = Some y" for k y
        using t_find_by_NoneD [OF None that] by (auto simp: balance_key_def is_balance_of_def)
    qed
    then show ?thesis using None nz assms(3) by (auto simp: adjust_balance_def)
  next
    case (Some p)
    obtain k b where kb: "p = (k, b)" by (cases p)
    have find: "generic_find (balances c) k = Some b" using Some kb balance_row_iff [OF assms(2)] by blast
    show ?thesis
    proof (cases "row_adjust_balance S d b")
      case (Inl e)
      then have "e \<noteq> Assert_Exception" using assms(1)
        by (cases "S (bal_balance b + amount d)") (auto simp: row_adjust_balance_def safe_no_assert_def)
      then show ?thesis using Some kb Inl find nz assms(3)
        by (simp add: adjust_balance_def t_modify_def t_get_def)
    next
      case (Inr y)
      have "balance_key y z \<Longrightarrow> balance_key b z" for z
        using Inr by (auto simp: row_adjust_balance_def balance_key_def)
      then obtain t where "t_modify balance_key k (row_adjust_balance S d) (balances c) = Inr t"
        using t_modify_ok [of "balances c" balance_key k b "row_adjust_balance S d" y] Inr find assms(2)
        by (auto simp: balances_ok_def)
      then show ?thesis using Some kb nz assms(3) by (simp add: adjust_balance_def)
    qed
  qed
qed

lemma adjust_balance_same:
  assumes "safe_exact S" and "chain_ok c" and "adjust_balance S x d c = Inr c'"
  shows "accounts c' = accounts c" and "gpo c' = gpo c" and "dgpo c' = dgpo c" and "assets c' = assets c"
    and "asset_dyn c' = asset_dyn c"
  by (subst adjust_balance_holdings(4) [OF assms], simp)+

lemma detail_kept:
  assumes "chain_ok c" and "add_detail d c = Inr c'"
  shows "money_kept c c'"
proof -
  note l = add_detail_law [OF assms]
  have "accounts c' = accounts c" "gpo c' = gpo c" "dgpo c' = dgpo c" "assets c' = assets c" "asset_dyn c' = asset_dyn c"
    by (subst l(4), simp)+
  then show ?thesis using l(1-3) by (simp add: money_kept_def)
qed

lemma moved_kept:
  assumes "safe_exact S" and "chain_ok c" and "adjust_balance S x (mk_asset (- n) a) c = Inr c1"
    and "adjust_balance S y (mk_asset n a) c1 = Inr c2"
  shows "money_kept c c2"
proof -
  note 1 = adjust_balance_holdings [OF assms(1-3)] and s1 = adjust_balance_same [OF assms(1-3)]
  note 2 = adjust_balance_holdings [OF assms(1) 1(1) assms(4)] and s2 = adjust_balance_same [OF assms(1) 1(1) assms(4)]
  show ?thesis using 1(2,3) 2(1-3) s1 s2 by (auto simp: money_kept_def mk_asset_def)
qed

lemma asset_parts: "mk_asset (amount d) (asset_id d) = d"
  by (simp add: mk_asset_def)

lemma renew_kept:
  assumes "safe_exact S" and "safe_no_assert S" and "chain_ok c" and "0 \<le> amount p"
  shows "renew_subscription S k period p c = Inr c' \<Longrightarrow> money_kept c c'"
    and "renew_subscription S k period p c = Inl (Assert_Exception, c') \<Longrightarrow> money_kept c c'"
proof -
  have k1: "money_kept c (c\<lparr>subscriptions := t\<rparr>)" if "t_modify subscription_key k f (subscriptions c) = Inr t" for t f
    using assms(3) t_modify_keeps_ok [OF _ that] by (intro subscriptions_money_kept) (simp_all add: frame)
  have k2: "money_kept c c2" if "t_modify subscription_key k f (subscriptions c) = Inr t" "add_detail d (c\<lparr>subscriptions := t\<rparr>) = Inr c2"
    for f t d c2
    by (rule money_kept_trans [OF k1 detail_kept [OF money_keptD [OF k1] that(2)]]) (rule that(1))+
  have k4: "money_kept c c4"
    if "money_kept c c2" "asset_neg S p = Inr d" "adjust_balance S x d c2 = Inr c3" "adjust_balance S y p c3 = Inr c4"
    for c2 d x c3 y c4
    using moved_kept [OF assms(1) money_keptD [OF that(1)], of x "amount p" "asset_id p" c3 y c4] that
      asset_neg_exact [OF assms(1) that(2)] money_kept_trans by (simp add: asset_parts)
  have no: "adjust_balance S y p c3 \<noteq> Inl Assert_Exception"
    if "money_kept c c2" "adjust_balance S x d c2 = Inr c3" for c2 d x c3 y
    using adjust_balance_holdings(1) [OF assms(1) money_keptD [OF that(1)] that(2)]
    by (intro deposit_not_refused [OF assms(2) _ assms(4)]) (rule chain_okD)
  show "renew_subscription S k period p c = Inr c' \<Longrightarrow> money_kept c c'"
    by (auto simp: renew_subscription_def split: sum.splits prod.splits dest: k2 intro: k4)
  show "renew_subscription S k period p c = Inl (Assert_Exception, c') \<Longrightarrow> money_kept c c'"
    using money_kept_refl [OF assms(3)]
    by (auto simp: renew_subscription_def split: sum.splits prod.splits dest: k1 k2 no [OF k2])
qed

definition subscription_prices_ok :: "chain \<Rightarrow> bool" where
  "subscription_prices_ok c \<longleftrightarrow>
     (\<forall>k a. generic_find (accounts c) k = Some a \<longrightarrow> 0 \<le> amount (price_per_subscribe (acc_options a)))"

lemma renewal_price_nonneg: "0 \<le> amount p \<Longrightarrow> renewal_price c p = Inr q \<Longrightarrow> 0 \<le> amount q"
  by (auto simp: renewal_price_def asset_times_price_nonneg split: option.splits)

lemma try_renewal_kept:
  assumes "safe_exact S" and "safe_no_assert S" and "chain_ok c" and "subscription_prices_ok c"
    and run: "try_renewal S k so c = Inr (b, c')"
  shows "money_kept c c'"
proof -
  from run obtain author where au: "generic_find (accounts c) (sub_to so) = Some author"
    by (auto simp: try_renewal_def)
  have p: "0 \<le> amount (price_per_subscribe (acc_options author))"
    using assms(4) au unfolding subscription_prices_ok_def by blast
  have dis: "money_kept c d'" if "money_kept c d" "disallow_automatic_renewal k d = Inr d'" for d d'
    by (rule money_kept_trans [OF that(1) disallow_kept [OF money_keptD [OF that(1)] that(2)]])
  note refl = money_kept_refl [OF assms(3)]
  show ?thesis
  proof (cases "bindE (renewal_price c (price_per_subscribe (acc_options author))) (\<lambda>dct_price.
          bindE (asset_le dct_price (get_balance c (sub_from so) (asset_id dct_price))) (\<lambda>enough. Inr (dct_price, enough)))")
    case (Inl e)
    then show ?thesis using run au by (auto simp: try_renewal_def split: if_splits intro: dis [OF refl])
  next
    case (Inr r)
    obtain q enough where r: "r = (q, enough)" by (cases r)
    have q: "0 \<le> amount q" using Inr r renewal_price_nonneg [OF p] by auto
    note rk = renew_kept [OF assms(1-3) q]
    show ?thesis using run au Inr r
      by (auto simp: try_renewal_def split: if_splits sum.splits intro: dis [OF refl] dis [OF rk(2)] rk(1))
  qed
qed

lemma renewal_loop_kept:
  "renewal_loop S n rows c = Inr c' \<Longrightarrow> safe_exact S \<Longrightarrow> safe_no_assert S \<Longrightarrow> chain_ok c \<Longrightarrow> subscription_prices_ok c \<Longrightarrow>
   money_kept c c'"
proof (induction S n rows c rule: renewal_loop.induct)
  case (1 S n c)
  then show ?case by (simp add: money_kept_refl)
next
  case (2 S n k so rest c)
  show ?case
  proof (cases "sub_expiration so \<le> n")
    case True
    from "2.prems"(1) True obtain b c1 where t: "try_renewal S k so c = Inr (b, c1)"
      and rest: "if b then renewal_loop S n rest c1 = Inr c' else c' = c1" by (auto split: if_splits)
    have m: "money_kept c c1" by (rule try_renewal_kept [OF "2.prems"(2-5) t])
    then have "subscription_prices_ok c1" using "2.prems"(5) by (simp add: money_kept_def subscription_prices_ok_def)
    then show ?thesis
      using "2.IH"(1) [OF True TrueI] rest "2.prems"(2,3) money_keptD [OF m] money_kept_trans [OF m] m
      by (auto split: if_splits)
  next
    case False
    then show ?thesis using "2.IH"(2) "2.prems" by simp
  qed
qed

lemma housekeeping_kept:
  assumes "safe_exact S" and "safe_no_assert S" and "chain_ok c" and "subscription_prices_ok c"
    and run: "decent_housekeeping S c = Inr c'"
  shows "money_kept c c'"
proof -
  from run obtain c1 c2 c3 where 1: "set_and_reset_seeding_stats c = Inr c1" and 2: "expire_contents S c1 = Inr c2"
    and 3: "expire_buyings S c2 = Inr c3" and 4: "renew_subscriptions S c3 = Inr c'"
    by (auto simp: decent_housekeeping_def)
  have k1: "money_kept c c1"
    using 1 rate_seeder_kept unfolding set_and_reset_seeding_stats_def by (rule foldE_money_kept [OF _ assms(3)])
  have k2: "money_kept c1 c2"
    using 2 content_expire_kept [OF assms(1)] unfolding expire_contents_def by (rule foldE_money_kept [OF _ money_keptD [OF k1]])
  have k3: "money_kept c2 c3"
    using 3 unfolding expire_buyings_def
    by (rule foldE_money_kept [OF _ money_keptD [OF k2]]) (auto split: if_splits intro: money_kept_refl buying_expire_kept [OF assms(1)])
  note k = money_kept_trans [OF money_kept_trans [OF k1 k2] k3]
  have "subscription_prices_ok c3" using k assms(4) by (simp add: money_kept_def subscription_prices_ok_def)
  then have "money_kept c3 c'"
    using 4 renewal_loop_kept [OF _ assms(1,2) money_keptD [OF k]] by (auto simp: renew_subscriptions_def)
  with k show ?thesis by (rule money_kept_trans)
qed

section \<open>The block reward\<close>

definition DECENT_SPLITS :: "nat list" where
  "DECENT_SPLITS = [100000, 31653280, 63206560, 94777120, 126330400]"

definition DECENT_BLOCK_REWARDS :: "int list" where
  "DECENT_BLOCK_REWARDS = [0, 37000000, 18500000, 9250000, 4625000, 0]"

definition get_next_reward_switch_block :: "nat \<Rightarrow> nat" where
  "get_next_reward_switch_block start =
     (if start \<le> DECENT_SPLITS ! 0 then DECENT_SPLITS ! 0
      else if start \<le> DECENT_SPLITS ! 1 then DECENT_SPLITS ! 1
      else if start \<le> DECENT_SPLITS ! 2 then DECENT_SPLITS ! 2
      else if start \<le> DECENT_SPLITS ! 3 then DECENT_SPLITS ! 3
      else if start \<le> DECENT_SPLITS ! 4 then DECENT_SPLITS ! 4
      else 0)"

definition get_asset_per_block_by_block_num :: "nat \<Rightarrow> int" where
  "get_asset_per_block_by_block_num n =
     (if n < DECENT_SPLITS ! 0 then DECENT_BLOCK_REWARDS ! 0
      else if n < DECENT_SPLITS ! 1 then DECENT_BLOCK_REWARDS ! 1
      else if n < DECENT_SPLITS ! 2 then DECENT_BLOCK_REWARDS ! 2
      else if n < DECENT_SPLITS ! 3 then DECENT_BLOCK_REWARDS ! 3
      else if n < DECENT_SPLITS ! 4 then DECENT_BLOCK_REWARDS ! 4
      else DECENT_BLOCK_REWARDS ! 5)"

definition get_new_asset_per_block :: "chain \<Rightarrow> int" where
  "get_new_asset_per_block c = get_asset_per_block_by_block_num (head_block_num c)"

text \<open>
  \<open>K\<close> converts an unsigned 64-bit integer to \<open>share_type\<close>, a constructor of \<open>fc::safe\<close>.
\<close>

definition next_reward :: "nat \<Rightarrow> int" where
  "next_reward next_switch =
     (if next_switch = DECENT_SPLITS ! 0 then DECENT_BLOCK_REWARDS ! 1
      else if next_switch = DECENT_SPLITS ! 1 then DECENT_BLOCK_REWARDS ! 2
      else if next_switch = DECENT_SPLITS ! 2 then DECENT_BLOCK_REWARDS ! 3
      else if next_switch = DECENT_SPLITS ! 3 then DECENT_BLOCK_REWARDS ! 4
      else DECENT_BLOCK_REWARDS ! 5)"

definition get_miner_budget :: "safe \<Rightarrow> (nat \<Rightarrow> int res) \<Rightarrow> nat \<Rightarrow> chain \<Rightarrow> int res" where
  "get_miner_budget S K blocks_to_maint c =
     (let next_switch = get_next_reward_switch_block (head_block_num c);
          reward = get_new_asset_per_block c
      in if next_switch \<le> u32 (int (head_block_num c) + 1 + int blocks_to_maint) then
           let to_switch = u64 (int next_switch - int (head_block_num c) - 1);
               beyond = u64 (int blocks_to_maint - int to_switch)
           in bindE (K to_switch) (\<lambda>t.
              bindE (S (reward * t)) (\<lambda>old.
              bindE (if next_switch \<in> set DECENT_SPLITS then K (u64 (next_reward next_switch * int beyond))
                     else bindE (S (c_div reward 2)) (\<lambda>half. bindE (K beyond) (\<lambda>b. S (half * b)))) (\<lambda>new.
              S (old + new))))
         else bindE (K blocks_to_maint) (\<lambda>b. S (b * reward)))"

section \<open>The real supply\<close>

definition sumE :: "safe \<Rightarrow> int list \<Rightarrow> int \<Rightarrow> int res" where
  "sumE S xs n = foldE (\<lambda>x m. S (m + x)) xs n"

definition get_real_supply :: "safe \<Rightarrow> chain \<Rightarrow> real_supply res" where
  "get_real_supply S c =
     bindE (sumE S (map bal_balance (filter (\<lambda>b. bal_asset b = 0) (t_values (balances c)))) 0) (\<lambda>ab.
     bindE (sumE S (map (\<lambda>v. amount (vb_balance v)) (t_values (vestings c))) 0) (\<lambda>vb.
     bindE (sumE S (map (\<lambda>x. amount (co_publishing_fee_escrow x)) (t_values (contents c))) 0) (\<lambda>e1.
     bindE (sumE S (map (\<lambda>b. amount (bo_price b)) (t_values (buyings c))) e1) (\<lambda>e2.
     bindE (foldE (\<lambda>a n. bindE (get_dyn c a) (\<lambda>d. S (n + core_pool d))) (t_values (assets c)) 0) (\<lambda>p.
     Inr \<lparr>rs_account_balances = ab, rs_vesting_balances = vb, rs_escrows = e2, rs_pools = p\<rparr>)))))"

definition real_supply_total :: "safe \<Rightarrow> real_supply \<Rightarrow> int res" where
  "real_supply_total S r =
     bindE (S (rs_account_balances r + rs_vesting_balances r)) (\<lambda>x.
     bindE (S (x + rs_escrows r)) (\<lambda>y. S (y + rs_pools r)))"

section \<open>The budget is the sum of the block rewards\<close>

definition share_of_u64 :: "(nat \<Rightarrow> int res) \<Rightarrow> bool" where
  "share_of_u64 K \<longleftrightarrow> (\<forall>n < 2 ^ 63. K n = Inr (int n))"

lemma sum_two_rates:
  fixes f :: "nat \<Rightarrow> int"
  assumes "\<And>n. h < n \<Longrightarrow> n < s \<Longrightarrow> f n = a" and "\<And>n. s \<le> n \<Longrightarrow> n \<le> h + m \<Longrightarrow> f n = b"
    and "h < s" and "s \<le> h + 1 + m"
  shows "(\<Sum>n \<in> {h<..h + m}. f n) = a * int (s - h - 1) + b * int (m - (s - h - 1))"
proof -
  have "{h<..h + m} = {h<..<s} \<union> {s..h + m}" using assms(3,4) by auto
  then have "(\<Sum>n \<in> {h<..h + m}. f n) = (\<Sum>n \<in> {h<..<s}. f n) + (\<Sum>n \<in> {s..h + m}. f n)"
    by (simp add: sum.union_disjoint disjoint_iff)
  also have "(\<Sum>n \<in> {h<..<s}. f n) = a * int (s - h - 1)" using assms(1) by simp
  also have "(\<Sum>n \<in> {s..h + m}. f n) = b * int (m - (s - h - 1))"
  proof -
    have "h + m + 1 - s = m - (s - h - 1)" using assms(3,4) by simp
    then show ?thesis using assms(2) by simp
  qed
  finally show ?thesis .
qed

lemmas reward_tables = get_asset_per_block_by_block_num_def get_next_reward_switch_block_def next_reward_def
  DECENT_SPLITS_def DECENT_BLOCK_REWARDS_def

lemma reward_until_switch:
  "h < get_next_reward_switch_block h \<Longrightarrow> h < n \<Longrightarrow> n < get_next_reward_switch_block h \<Longrightarrow>
   get_asset_per_block_by_block_num n = get_asset_per_block_by_block_num h"
  by (auto simp: reward_tables split: if_splits)

lemma reward_after_switch:
  "h < get_next_reward_switch_block h \<Longrightarrow> get_next_reward_switch_block h \<le> n \<Longrightarrow> n < get_next_reward_switch_block h + 31553280 \<Longrightarrow>
   get_asset_per_block_by_block_num n = next_reward (get_next_reward_switch_block h)"
  by (auto simp: reward_tables split: if_splits)

lemma reward_bounds: "0 \<le> get_asset_per_block_by_block_num n \<and> get_asset_per_block_by_block_num n \<le> 37000000"
  "0 \<le> next_reward n \<and> next_reward n \<le> 37000000"
  by (auto simp: reward_tables)

lemma next_switch_in: "h < get_next_reward_switch_block h \<Longrightarrow> get_next_reward_switch_block h \<in> set DECENT_SPLITS"
  by (auto simp: reward_tables split: if_splits)

lemma budget_before_switch:
  assumes S: "safe_total S" and K: "share_of_u64 K" and sw: "head_block_num c < get_next_reward_switch_block (head_block_num c)"
    and few: "m \<le> 31553280"
  shows "get_miner_budget S K m c = Inr (\<Sum>n \<in> {head_block_num c<..head_block_num c + m}. get_asset_per_block_by_block_num n)"
proof -
  let ?h = "head_block_num c" and ?f = get_asset_per_block_by_block_num
  let ?s = "get_next_reward_switch_block ?h"
  have s: "?s \<le> 126330400" by (auto simp: reward_tables)
  have in64: "S n = Inr n" if "0 \<le> n" "n \<le> 2 * (37000000 * 200000000)" for n
    using that by (intro safe_totalD [OF S]) (simp add: in_int64_def)
  have prod: "0 \<le> r * int k \<and> r * int k \<le> 37000000 * 200000000" if "0 \<le> r \<and> r \<le> 37000000" "k \<le> 200000000" for r k
    using that mult_mono [of r 37000000 "int k" 200000000] by simp
  have u: "u32 (int ?h + 1 + int m) = ?h + 1 + m" using u32_nat [of "?h + 1 + m"] s sw few by (simp add: ac_simps)
  show ?thesis
  proof (cases "?s \<le> ?h + 1 + m")
    case True
    let ?t = "?s - ?h - 1" and ?b = "m - (?s - ?h - 1)"
    have u64_nat: "x = int n \<Longrightarrow> n < 2 ^ 64 \<Longrightarrow> u64 x = n" for x n using u64_small [of x] by simp
    have t: "u64 (int ?s - int ?h - 1) = ?t" using s sw by (intro u64_nat) simp_all
    have b: "u64 (int m - int ?t) = ?b" using few True by (intro u64_nat) simp_all
    have small: "?t \<le> 200000000" "?b \<le> 200000000" using s few by simp_all
    note p1 = prod [OF reward_bounds(1) small(1), of ?h] and p2 = prod [OF reward_bounds(2) small(2), of ?s]
    have v: "u64 (next_reward ?s * int ?b) = nat (next_reward ?s * int ?b)" using p2 by (intro u64_small) simp_all
    have K0: "K (nat x) = Inr x" if "0 \<le> x" "x \<le> 37000000 * 200000000" for x
    proof -
      have "nat x < 2 ^ 63" using that by simp
      then show ?thesis using K that(1) by (simp add: share_of_u64_def)
    qed
    have K1: "K ?t = Inr (int ?t)" "K (nat (next_reward ?s * int ?b)) = Inr (next_reward ?s * int ?b)"
      using K0 [of "int ?t"] K0 [of "next_reward ?s * int ?b"] small(1) p2 by simp_all
    have "S (?f ?h * int ?t) = Inr (?f ?h * int ?t)"
      "S (?f ?h * int ?t + next_reward ?s * int ?b) = Inr (?f ?h * int ?t + next_reward ?s * int ?b)"
      using p1 p2 by (intro in64; linarith)+
    then have "get_miner_budget S K m c = Inr (?f ?h * int ?t + next_reward ?s * int ?b)"
      by (simp only: get_miner_budget_def get_new_asset_per_block_def Let_def u t b v K1 next_switch_in [OF sw] True
          bindE_simps if_True)
    also have "?f ?h * int ?t + next_reward ?s * int ?b = (\<Sum>n \<in> {?h<..?h + m}. ?f n)"
      using True sw few by (intro sum_two_rates [symmetric] reward_until_switch reward_after_switch) auto
    finally show ?thesis .
  next
    case False
    have "K m = Inr (int m)" using K few by (simp add: share_of_u64_def)
    moreover have "(\<Sum>n \<in> {?h<..?h + m}. ?f n) = int m * ?f ?h"
      using False reward_until_switch [OF sw] by (simp add: sum.cong)
    ultimately show ?thesis
      using False in64 prod [OF reward_bounds(1), of m ?h] few
      by (simp add: get_miner_budget_def get_new_asset_per_block_def Let_def u mult.commute)
  qed
qed

text \<open>
  At and after a switch the number of blocks up to it underflows. The conversion to \<open>share_type\<close>
  takes such a number to a negative one where it is the plain cast.
\<close>

definition share_cast :: "(nat \<Rightarrow> int res) \<Rightarrow> bool" where
  "share_cast K \<longleftrightarrow> (\<forall>n < 2 ^ 64. K n = Inr (if n < 2 ^ 63 then int n else int n - 2 ^ 64))"

lemma share_castD: "share_cast K \<Longrightarrow> share_of_u64 K"
  by (simp add: share_cast_def share_of_u64_def)

lemma u64_neg: "0 < k \<Longrightarrow> k \<le> 2 ^ 64 \<Longrightarrow> u64 (- int k) = 2 ^ 64 - k"
proof -
  assume "0 < k" "k \<le> 2 ^ 64"
  have "- int k mod 2 ^ 64 = (2 ^ 64 - int k) mod 2 ^ 64" by (rule minus_mod_self1 [symmetric])
  also have "\<dots> = int (2 ^ 64 - k)" using \<open>0 < k\<close> \<open>k \<le> 2 ^ 64\<close> by (subst mod_pos_pos_trivial) (simp_all add: of_nat_diff)
  finally show ?thesis by (simp add: u64_def)
qed

lemma reward_at_switch:
  assumes "get_next_reward_switch_block h = h" and "h \<le> n" and "n < h + 31553280"
  shows "get_asset_per_block_by_block_num n = next_reward h"
  using assms by (auto simp: reward_tables split: if_splits)

lemma budget_at_switch:
  assumes S: "safe_total S" and K: "share_cast K" and sw: "get_next_reward_switch_block (head_block_num c) = head_block_num c"
    and few: "m < 31553280"
  shows "get_miner_budget S K m c = Inr (\<Sum>n \<in> {head_block_num c<..head_block_num c + m}. get_asset_per_block_by_block_num n)"
proof -
  let ?h = "head_block_num c" and ?r = "next_reward (head_block_num c)"
  have h: "?h \<in> set DECENT_SPLITS" "?h \<le> 126330400" using sw by (auto simp: reward_tables split: if_splits)
  have u: "u32 (int ?h + 1 + int m) = ?h + 1 + m" using u32_nat [of "?h + 1 + m"] h(2) few by (simp add: ac_simps)
  have rm: "0 \<le> ?r * int k \<and> ?r * int k \<le> 37000000 * 200000000" if "k \<le> 200000000" for k
    using that reward_bounds(2) [of ?h] mult_mono [of ?r 37000000 "int k" 200000000] by simp
  have in64: "S n = Inr n" if "- 37000000 \<le> n" "n \<le> 2 * (37000000 * 200000000)" for n
    using that by (intro safe_totalD [OF S]) (simp add: in_int64_def)
  have t: "u64 (int ?h - int ?h - 1) = 2 ^ 64 - 1" using u64_neg [of 1] by simp
  have b: "u64 (int m - int (2 ^ 64 - 1 :: nat)) = m + 1"
  proof -
    have "int m - int (2 ^ 64 - 1 :: nat) = int (m + 1) - 2 ^ 64" by simp
    then show ?thesis using few by (simp only: u64_def minus_mod_self2) simp
  qed
  have K1: "K (2 ^ 64 - 1) = Inr (- 1)" using K by (simp add: share_cast_def)
  have v: "u64 (?r * int (m + 1)) = nat (?r * int (m + 1))" using rm [of "m + 1"] few by (intro u64_small) simp_all
  have K2: "K (nat (?r * int (m + 1))) = Inr (?r * int (m + 1))"
  proof -
    have "0 \<le> ?r * int (m + 1)" "?r * int (m + 1) \<le> 37000000 * 200000000" using rm [of "m + 1"] few by simp_all
    then have "?r * int (m + 1) < 2 ^ 63" by (elim le_less_trans) simp
    then have "nat (?r * int (m + 1)) < 2 ^ 63" using \<open>0 \<le> ?r * int (m + 1)\<close> by (simp only: nat_less_iff) simp
    then show ?thesis using share_castD [OF K] rm [of "m + 1"] few by (simp add: share_of_u64_def)
  qed
  have f: "get_asset_per_block_by_block_num ?h = ?r" by (rule reward_at_switch [OF sw]) simp_all
  have "S (?r * - 1) = Inr (?r * - 1)" "S (?r * - 1 + ?r * int (m + 1)) = Inr (?r * - 1 + ?r * int (m + 1))"
    using reward_bounds(2) [of ?h] rm [of "m + 1"] few by (intro in64; linarith)+
  moreover have "?h \<le> ?h + 1 + m" by simp
  ultimately have "get_miner_budget S K m c = Inr (?r * - 1 + ?r * int (m + 1))"
    by (simp only: get_miner_budget_def get_new_asset_per_block_def Let_def u sw t b v K1 K2 f h(1) bindE_simps if_True)
  also have "?r * - 1 + ?r * int (m + 1) = (\<Sum>n \<in> {?h<..?h + m}. get_asset_per_block_by_block_num n)"
    using few reward_at_switch [OF sw] by (simp add: algebra_simps)
  finally show ?thesis .
qed

lemma budget_after_switches:
  assumes S: "safe_total S" and K: "share_cast K" and sw: "get_next_reward_switch_block (head_block_num c) < head_block_num c"
    and fit: "head_block_num c + 1 + m < 2 ^ 32"
  shows "get_miner_budget S K m c = Inr (\<Sum>n \<in> {head_block_num c<..head_block_num c + m}. get_asset_per_block_by_block_num n)"
proof -
  let ?h = "head_block_num c"
  have h: "get_next_reward_switch_block ?h = 0" "126330400 < ?h" using sw by (auto simp: reward_tables split: if_splits)
  have f: "get_asset_per_block_by_block_num n = 0" if "?h \<le> n" for n using that h(2) by (simp add: reward_tables)
  have t: "u64 (int 0 - int ?h - 1) = 2 ^ 64 - (?h + 1)"
  proof -
    have "int 0 - int ?h - 1 = - int (?h + 1)" by simp
    then show ?thesis using u64_neg [of "?h + 1"] fit by (simp only:) simp
  qed
  have b: "u64 (int m - int (2 ^ 64 - (?h + 1))) = m + ?h + 1"
  proof -
    have "int m - int (2 ^ 64 - (?h + 1)) = int (m + ?h + 1) - 2 ^ 64" using fit by (simp add: of_nat_diff)
    then show ?thesis using fit by (simp only: u64_def minus_mod_self2) simp
  qed
  have K1: "K (2 ^ 64 - (?h + 1)) = Inr (- int (?h + 1))" "K (m + ?h + 1) = Inr (int (m + ?h + 1))"
    using K fit by (simp_all add: share_cast_def of_nat_diff)
  have "0 \<notin> set DECENT_SPLITS" by (simp add: DECENT_SPLITS_def)
  moreover have "S 0 = Inr 0" by (rule safe_totalD [OF S]) (simp add: in_int64_def)
  moreover have "c_div 0 2 = 0" by (simp add: c_div_def)
  ultimately have "get_miner_budget S K m c = Inr 0"
    by (simp only: get_miner_budget_def get_new_asset_per_block_def Let_def h(1) t b K1 f [OF order_refl] mult_zero_left add_0
        bindE_simps if_False if_True le0)
  then show ?thesis using f by simp
qed

text \<open>
  C36. The budget planned for mining until the next maintenance is the sum of the rewards of the
  blocks that will be produced until then, for a span that crosses at most one change of the reward:
  before a switch, with the head exactly at one and after the last. Where the head is not before the
  next switch the number of blocks up to it underflows, and the sum comes out right because the
  conversion to \<open>share_type\<close> is a cast; one that refuses numbers of \<open>2 ^ 63\<close> and more makes
  the budget, and with it the block, fail.
\<close>

theorem miner_budget_is_sum:
  assumes S: "safe_total S" and K: "share_of_u64 K" and few: "m < 31553280" and fit: "head_block_num c + 1 + m < 2 ^ 32"
  shows "let h = head_block_num c; sum = Inr (\<Sum>n \<in> {h<..h + m}. get_asset_per_block_by_block_num n)
    in (h < get_next_reward_switch_block h \<or> share_cast K \<longrightarrow> get_miner_budget S K m c = sum) \<and>
       (get_next_reward_switch_block h \<le> h \<and> (\<forall>n \<ge> 2 ^ 63. K n = Inl Overflow) \<longrightarrow> get_miner_budget S K m c = Inl Overflow)"
proof -
  let ?h = "head_block_num c" and ?s = "get_next_reward_switch_block (head_block_num c)"
  have "get_miner_budget S K m c = Inr (\<Sum>n \<in> {?h<..?h + m}. get_asset_per_block_by_block_num n)" if "?h < ?s \<or> share_cast K"
  proof (cases ?h ?s rule: linorder_cases)
    case less
    then show ?thesis using budget_before_switch [OF S K] few by simp
  next
    case equal
    then show ?thesis using budget_at_switch [OF S _ _ few] that by simp
  next
    case greater
    then show ?thesis using budget_after_switches [OF S _ _ fit] that by simp
  qed
  moreover have "get_miner_budget S K m c = Inl Overflow" if le: "?s \<le> ?h" and "\<forall>n \<ge> 2 ^ 63. K n = Inl Overflow"
  proof -
    have "u32 (int ?h + 1 + int m) = ?h + 1 + m" using u32_nat [of "?h + 1 + m"] fit by (simp add: ac_simps)
    moreover have "int ?s - int ?h - 1 = - int (?h + 1 - ?s)" using le by (simp add: of_nat_diff)
    then have "u64 (int ?s - int ?h - 1) = 2 ^ 64 - (?h + 1 - ?s)"
      using u64_neg [of "?h + 1 - ?s"] le fit by (simp only:) simp
    ultimately show ?thesis using that fit by (simp add: get_miner_budget_def Let_def)
  qed
  ultimately show ?thesis by (simp add: Let_def)
qed

section \<open>Concrete instances\<close>

definition demo_share :: "nat \<Rightarrow> int res" where
  "demo_share n = (if int n < 2 ^ 63 then Inr (int n) else Inl Overflow)"

definition demo_switch_chain :: chain where
  "demo_switch_chain = demo_chain\<lparr>dgpo := (dgpo demo_chain)\<lparr>head_block_number := 99998\<rparr>\<rparr>"

definition demo_cast :: "nat \<Rightarrow> int res" where
  "demo_cast n = Inr (if n < 2 ^ 63 then int n else int n - 2 ^ 64)"

definition demo_at_switch :: chain where
  "demo_at_switch = demo_chain\<lparr>dgpo := (dgpo demo_chain)\<lparr>head_block_number := 100000\<rparr>\<rparr>"

theorem miner_budget_is_sum_witness:
  "get_miner_budget checked64 demo_share 3 demo_switch_chain = Inr 74000000 \<and>
   get_miner_budget checked64 demo_cast 3 demo_at_switch = Inr 111000000"
proof -
  have h: "head_block_num demo_switch_chain = 99998" "head_block_num demo_at_switch = 100000"
    by (simp_all add: head_block_num_def demo_switch_chain_def demo_at_switch_def)
  have K: "share_of_u64 demo_share" "share_cast demo_cast" by (simp_all add: share_of_u64_def demo_share_def share_cast_def demo_cast_def)
  have sets: "{99998<..100001} = {99999, 100000, 100001 :: nat}" "{100000<..100003} = {100001, 100002, 100003 :: nat}" by auto
  have "99998 < get_next_reward_switch_block 99998" by (simp add: reward_tables)
  then have "get_miner_budget checked64 demo_share 3 demo_switch_chain = Inr 74000000"
    using miner_budget_is_sum [OF checked64_total K(1), of 3 demo_switch_chain] by (simp add: h sets Let_def reward_tables)
  moreover have "get_miner_budget checked64 demo_cast 3 demo_at_switch = Inr 111000000"
    using miner_budget_is_sum [OF checked64_total share_castD [OF K(2)], of 3 demo_at_switch] K(2) by (simp add: h sets Let_def reward_tables)
  ultimately show ?thesis by blast
qed

end
