(* ===== verification/Content.thy ===== *)
theory Content
  imports Transfer_Evaluator Exchange Housekeeping
begin

text \<open>
  \<open>decent\_evaluator.cpp\<close>, \<open>protocol/decent.cpp\<close> and \<open>content\_object.cpp\<close>: publishing rights,
  content, purchases, seeders and their proofs. Parameters stand for the JSON parser that reads the
  title out of a synopsis, the URL parser, and the checks of proofs in \<open>libraries/encrypt\<close>. A lookup
  by a key that is not unique takes the first object by id.
\<close>

section \<open>Regional prices\<close>

definition OO_none :: nat where
  "OO_none = 1"

definition OO_all :: nat where
  "OO_all = 2"

text \<open>The two special codes and the 249 two-letter codes.\<close>

definition region_known :: "nat \<Rightarrow> bool" where
  "region_known r \<longleftrightarrow> 1 \<le> r \<and> r \<le> 251"

definition emplace_row :: "nat \<Rightarrow> 'a \<Rightarrow> 'a rows \<Rightarrow> 'a rows" where
  "emplace_row k v ps = (if map_of ps k = None then put_row k v ps else ps)"

definition GetPrice :: "price_regions \<Rightarrow> nat \<Rightarrow> asset option" where
  "GetPrice ps region_code =
     (case map_of ps OO_none of
        Some p \<Rightarrow> Some p
      | None \<Rightarrow> (case map_of ps region_code of Some p \<Rightarrow> Some p | None \<Rightarrow> map_of ps OO_all))"

definition SetSimplePrice :: "asset \<Rightarrow> price_regions" where
  "SetSimplePrice p = [(OO_none, p)]"

definition SetRegionPrice :: "nat \<Rightarrow> asset \<Rightarrow> price_regions \<Rightarrow> price_regions" where
  "SetRegionPrice region_code p ps = emplace_row region_code p ps"

text \<open>The prices of an operation, the last one of a region counting; one price without region replaces all.\<close>

definition operation_prices :: "(nat \<times> asset) list \<Rightarrow> price_regions" where
  "operation_prices items =
     (let prices = fold (\<lambda>i. put_row (fst i) (snd i)) items []
      in case map_of prices OO_none of
           Some p \<Rightarrow> SetSimplePrice p
         | None \<Rightarrow> fold (\<lambda>i. SetRegionPrice (fst i) (snd i)) prices [])"

section \<open>Publishing rights\<close>

record set_publishing_manager_operation =
  spm_fee :: asset
  spm_from :: account_id_type
  spm_to :: "account_id_type list"
  spm_can_create_publishers :: bool

record set_publishing_right_operation =
  spr_fee :: asset
  spr_from :: account_id_type
  spr_to :: "account_id_type list"
  spr_is_publisher :: bool

definition set_publishing_manager_validate :: "set_publishing_manager_operation \<Rightarrow> unit res" where
  "set_publishing_manager_validate op =
     bindE (require (0 \<le> amount (spm_fee op)) Assert_Exception) (\<lambda>_.
     bindE (require (spm_to op \<noteq> []) Assert_Exception) (\<lambda>_.
     require (spm_from op = 15) Assert_Exception))"

definition set_publishing_right_validate :: "set_publishing_right_operation \<Rightarrow> unit res" where
  "set_publishing_right_validate op =
     bindE (require (0 \<le> amount (spr_fee op)) Assert_Exception) (\<lambda>_.
     require (spr_to op \<noteq> []) Assert_Exception)"

definition accounts_exist :: "account_id_type list \<Rightarrow> chain \<Rightarrow> bool" where
  "accounts_exist ids c = list_all (\<lambda>i. generic_find (accounts c) i \<noteq> None) ids"

definition modify_rights :: "account_id_type \<Rightarrow> (publishing_rights \<Rightarrow> publishing_rights) \<Rightarrow> chain \<Rightarrow> chain res" where
  "modify_rights k f c =
     bindE (t_modify account_key k (\<lambda>a. Inr (a\<lparr>rights_to_publish := f (rights_to_publish a)\<rparr>)) (accounts c)) (\<lambda>t.
     Inr (c\<lparr>accounts := t\<rparr>))"

definition set_publishing_manager_do_evaluate ::
  "set_publishing_manager_operation \<Rightarrow> fee_state \<Rightarrow> chain \<Rightarrow> (fee_state \<times> unit) res" where
  "set_publishing_manager_do_evaluate op f c =
     bindE (require (accounts_exist (spm_to op) c) Assert_Exception) (\<lambda>_.
     bindE (require (spm_from op = 15) Assert_Exception) (\<lambda>_.
     Inr (f, ())))"

text \<open>With \<open>can_create_publishers\<close> the loop returns after the first account.\<close>

fun set_managers :: "bool \<Rightarrow> account_id_type list \<Rightarrow> chain \<Rightarrow> chain res" where
  "set_managers can_create [] c = Inr c"
| "set_managers can_create (k # ks) c =
     bindE (get_account c k) (\<lambda>to_acc.
     if can_create then modify_rights k (\<lambda>r. r\<lparr>is_publishing_manager := True\<rparr>) c
     else
       bindE (foldE (\<lambda>publisher. modify_rights publisher (\<lambda>r. r\<lparr>publishing_rights_received :=
                filter (\<lambda>x. x \<noteq> publisher) (publishing_rights_received r)\<rparr>))
              (publishing_rights_forwarded (rights_to_publish to_acc)) c) (\<lambda>c1.
       bindE (modify_rights k (\<lambda>r. r\<lparr>is_publishing_manager := False, publishing_rights_forwarded := []\<rparr>) c1) (\<lambda>c2.
       set_managers can_create ks c2)))"

definition set_publishing_manager_do_apply ::
  "set_publishing_manager_operation \<Rightarrow> fee_state \<Rightarrow> unit \<Rightarrow> chain \<Rightarrow> chain res" where
  "set_publishing_manager_do_apply op f u c = set_managers (spm_can_create_publishers op) (spm_to op) c"

definition set_publishing_right_do_evaluate ::
  "set_publishing_right_operation \<Rightarrow> fee_state \<Rightarrow> chain \<Rightarrow> (fee_state \<times> unit) res" where
  "set_publishing_right_do_evaluate op f c =
     bindE (get_account c (spr_from op)) (\<lambda>from_acc.
     bindE (require (accounts_exist (spr_to op) c) Assert_Exception) (\<lambda>_.
     bindE (require (is_publishing_manager (rights_to_publish from_acc)) Assert_Exception) (\<lambda>_.
     Inr (f, ()))))"

definition set_right :: "account_id_type \<Rightarrow> bool \<Rightarrow> account_id_type \<Rightarrow> chain \<Rightarrow> chain res" where
  "set_right from publisher to c =
     (let upd = (\<lambda>x xs. if publisher then insort_insert x xs else filter (\<lambda>y. y \<noteq> x) xs)
      in bindE (modify_rights from (\<lambda>r. r\<lparr>publishing_rights_forwarded := upd to (publishing_rights_forwarded r)\<rparr>) c) (\<lambda>c1.
         modify_rights to (\<lambda>r. r\<lparr>publishing_rights_received := upd from (publishing_rights_received r)\<rparr>) c1))"

definition set_publishing_right_do_apply ::
  "set_publishing_right_operation \<Rightarrow> fee_state \<Rightarrow> unit \<Rightarrow> chain \<Rightarrow> chain res" where
  "set_publishing_right_do_apply op f u c = foldE (set_right (spr_from op) (spr_is_publisher op)) (spr_to op) c"

section \<open>Submission\<close>

record content_submit_operation =
  cs_fee :: asset
  cs_author :: account_id_type
  cs_co_authors :: "(account_id_type \<times> nat) list"
  cs_URI :: string
  cs_price :: "(nat \<times> asset) list"
  cs_size :: nat
  cs_hash :: opaque
  cs_seeders :: "account_id_type list"
  cs_key_parts :: "opaque list"
  cs_quorum :: nat
  cs_expiration :: time_point_sec
  cs_publishing_fee :: asset
  cs_synopsis :: string
  cs_cd :: "opaque option"

definition sum_of_splits :: "(account_id_type \<times> nat) list \<Rightarrow> nat" where
  "sum_of_splits xs = u32 (sum_list (map (\<lambda>x. int (snd x)) xs))"

text \<open>\<open>proto\<close> is the protocol of a parsed URL, \<open>title\<close> the title in a synopsis.\<close>

definition content_submit_validate ::
  "(string \<Rightarrow> string res) \<Rightarrow> (string \<Rightarrow> string res) \<Rightarrow> content_submit_operation \<Rightarrow> unit res" where
  "content_submit_validate proto title op =
     bindE (require (0 \<le> amount (cs_fee op)) Assert_Exception) (\<lambda>_.
     bindE (require (if map_of (cs_co_authors op) (cs_author op) \<noteq> None
                     then int (sum_of_splits (cs_co_authors op)) = 10000
                     else int (sum_of_splits (cs_co_authors op)) < 10000) Assert_Exception) (\<lambda>_.
     bindE (require (cs_price op \<noteq> []) Assert_Exception) (\<lambda>_.
     bindE (require (list_all (\<lambda>i. 0 \<le> amount (snd i)) (cs_price op)) Assert_Exception) (\<lambda>_.
     bindE (require (0 < cs_size op \<and> int (cs_size op) \<le> 10000) Assert_Exception) (\<lambda>_.
     bindE (require (length (cs_seeders op) = length (cs_key_parts op)) Assert_Exception) (\<lambda>_.
     bindE (if cs_seeders op = [] then require (cs_quorum op = 0) Assert_Exception
            else bindE (require (2 \<le> cs_quorum op) Assert_Exception) (\<lambda>_.
                 require (cs_quorum op \<le> length (cs_seeders op)) Assert_Exception)) (\<lambda>_.
     bindE (require (0 \<le> amount (cs_publishing_fee op)) Assert_Exception) (\<lambda>_.
     bindE (proto (cs_URI op)) (\<lambda>p.
     bindE (require (p \<in> {''ipfs'', ''magnet'', ''http'', ''https''}) Assert_Exception) (\<lambda>_.
     bindE (title (cs_synopsis op)) (\<lambda>_. Inr ())))))))))))"

definition is_content :: "string \<Rightarrow> content_object \<Rightarrow> bool" where
  "is_content uri co \<longleftrightarrow> co_URI co = uri"

definition find_content :: "string \<Rightarrow> chain \<Rightarrow> (nat \<times> content_object) option" where
  "find_content uri c = t_find_by (is_content uri) (contents c)"

definition is_seeder :: "account_id_type \<Rightarrow> seeder_object \<Rightarrow> bool" where
  "is_seeder x so \<longleftrightarrow> se_seeder so = x"

definition find_seeder :: "account_id_type \<Rightarrow> chain \<Rightarrow> (nat \<times> seeder_object) option" where
  "find_seeder x c = t_find_by (is_seeder x) (seeders c)"

definition check_co_authors :: "content_submit_operation \<Rightarrow> chain \<Rightarrow> unit res" where
  "check_co_authors op c =
     (if cs_co_authors op = [] then Inr ()
      else
        bindE (require (accounts_exist (map fst (cs_co_authors op)) c) Assert_Exception) (\<lambda>_.
        if map_of (cs_co_authors op) (cs_author op) = None
        then require (int (sum_of_splits (cs_co_authors op)) < 10000) Assert_Exception
        else require (int (sum_of_splits (cs_co_authors op)) = 10000) Assert_Exception))"

definition check_resubmit :: "fork_times_t \<Rightarrow> content_submit_operation \<Rightarrow> content_object \<Rightarrow> chain \<Rightarrow> unit res" where
  "check_resubmit ft op co c =
     bindE (require (co_author_of co = cs_author op) Assert_Exception) (\<lambda>_.
     bindE (require (co_size co = cs_size op) Assert_Exception) (\<lambda>_.
     bindE (require (co_hash co = cs_hash op) Assert_Exception) (\<lambda>_.
     bindE (require (co_quorum co = cs_quorum op) Assert_Exception) (\<lambda>_.
     bindE (require (length (co_key_parts co) = length (cs_seeders op)) Assert_Exception) (\<lambda>_.
     bindE (require (list_all (\<lambda>e. fst e \<in> set (cs_seeders op)) (co_key_parts co)) Assert_Exception) (\<lambda>_.
     case co_cd co of
       Some cd \<Rightarrow>
         bindE (lift_opt Undefined_Behaviour (cs_cd op)) (\<lambda>cd'.
         bindE (require (cd = cd') Assert_Exception) (\<lambda>_.
         require (co_expiration co = cs_expiration op) Assert_Exception))
     | None \<Rightarrow> require (hf4 ft < head_block_time c \<or> co_expiration co = cs_expiration op) Assert_Exception))))))"

definition add_seeder_price :: "safe \<Rightarrow> content_submit_operation \<Rightarrow> chain \<Rightarrow> account_id_type \<Rightarrow> asset \<Rightarrow> asset res" where
  "add_seeder_price S op c p acc =
     bindE (lift_opt Assert_Exception (find_seeder p c)) (\<lambda>(k, so).
     bindE (require (cs_size op < se_free_space so) Assert_Exception) (\<lambda>_.
     bindE (S (amount (se_price so) * int (cs_size op))) (\<lambda>n.
     asset_add S acc (mk_asset n 0))))"

definition submission_days :: "content_submit_operation \<Rightarrow> chain \<Rightarrow> nat" where
  "submission_days op c = u32 ((int (cs_expiration op) - int (head_block_time c)) div 3600 div 24)"

definition content_submit_do_evaluate ::
  "safe \<Rightarrow> fork_times_t \<Rightarrow> content_submit_operation \<Rightarrow> fee_state \<Rightarrow> chain \<Rightarrow> (fee_state \<times> bool) res" where
  "content_submit_do_evaluate S ft op f c =
     bindE (require (hf4 ft < head_block_time c \<or> length (cs_co_authors op) \<le> 10) Assert_Exception) (\<lambda>_.
     bindE (require (cs_key_parts op \<noteq> [] \<or> hf2 ft < head_block_time c) Assert_Exception) (\<lambda>_.
     bindE (get_account c (cs_author op)) (\<lambda>_.
     bindE (check_co_authors op c) (\<lambda>_.
     bindE (require (list_all (\<lambda>i. generic_find (assets c) (asset_id (snd i)) \<noteq> None \<and> region_known (fst i)) (cs_price op))
              Assert_Exception) (\<lambda>_.
     bindE (require (head_block_time c \<le> cs_expiration op) Assert_Exception) (\<lambda>_.
     bindE (require (submission_days op c \<noteq> 0) Assert_Exception) (\<lambda>_.
     case find_content (cs_URI op) c of
       Some (k, co) \<Rightarrow> bindE (check_resubmit ft op co c) (\<lambda>_. Inr (f, True))
     | None \<Rightarrow>
         bindE (foldE (add_seeder_price S op c) (cs_seeders op) (mk_asset 0 0)) (\<lambda>total_price_per_day.
         bindE (asset_scale S (submission_days op c) total_price_per_day) (\<lambda>needed.
         bindE (asset_le needed (cs_publishing_fee op)) (\<lambda>le.
         bindE (require le Assert_Exception) (\<lambda>_.
         Inr (f, False))))))))))))"

definition modify_content :: "nat \<Rightarrow> (content_object \<Rightarrow> content_object) \<Rightarrow> chain \<Rightarrow> chain res" where
  "modify_content k f c =
     bindE (t_modify content_key k (\<lambda>co. Inr (f co)) (contents c)) (\<lambda>t. Inr (c\<lparr>contents := t\<rparr>))"

definition is_described :: "string \<Rightarrow> transaction_detail_object \<Rightarrow> bool" where
  "is_described s d \<longleftrightarrow> m_str_description d = s"

definition resubmit_content :: "(string \<Rightarrow> string res) \<Rightarrow> content_submit_operation \<Rightarrow> string \<Rightarrow> chain \<Rightarrow> chain res" where
  "resubmit_content title op new_title c =
     bindE (lift_opt Undefined_Behaviour (find_content (cs_URI op) c)) (\<lambda>(k, co).
     bindE (title (co_synopsis co)) (\<lambda>old_title.
     bindE (lift_opt Undefined_Behaviour (t_find_by (is_described old_title) (details c))) (\<lambda>(j, d).
     bindE (t_modify no_unique j (\<lambda>d. Inr (d\<lparr>m_str_description := new_title, m_timestamp := head_block_time c\<rparr>)) (details c)) (\<lambda>t.
     modify_content k (\<lambda>co. co\<lparr>co_price := operation_prices (cs_price op), co_synopsis := cs_synopsis op,
       co_authors := cs_co_authors op,
       co_expiration := (if co_cd co = None then cs_expiration op else co_expiration co)\<rparr>) (c\<lparr>details := t\<rparr>)))))"

definition new_content :: "content_submit_operation \<Rightarrow> chain \<Rightarrow> content_object" where
  "new_content op c =
     \<lparr>co_author_of = cs_author op, co_authors = cs_co_authors op, co_expiration = cs_expiration op,
      co_created = head_block_time c, co_price = operation_prices (cs_price op), co_synopsis = cs_synopsis op,
      co_size = cs_size op, co_quorum = cs_quorum op, co_URI = cs_URI op,
      co_key_parts = fold (\<lambda>x. emplace_row (fst x) (snd x)) (zip (cs_seeders op) (cs_key_parts op)) [],
      co_last_proof = [], co_seeder_price = [], co_is_blocked = False, co_hash = cs_hash op, co_AVG_rating = 0,
      co_num_of_ratings = 0, co_times_bought = 0, co_publishing_fee_escrow = cs_publishing_fee op, co_cd = cs_cd op\<rparr>"

definition reserve_space :: "content_submit_operation \<Rightarrow> nat \<Rightarrow> account_id_type \<Rightarrow> chain \<Rightarrow> chain res" where
  "reserve_space op content p c =
     bindE (lift_opt Undefined_Behaviour (find_seeder p c)) (\<lambda>(k, so).
     bindE (t_modify seeder_key k (\<lambda>so. Inr (so\<lparr>se_free_space := u64 (int (se_free_space so) - int (cs_size op))\<rparr>)) (seeders c)) (\<lambda>t.
     modify_content content (\<lambda>co. co\<lparr>co_seeder_price := emplace_row p (amount (se_price so)) (co_seeder_price co)\<rparr>)
       (c\<lparr>seeders := t\<rparr>)))"

definition request_seeding :: "account_id_type \<Rightarrow> chain \<Rightarrow> chain res" where
  "request_seeding p c =
     modify_seeding_stats p (\<lambda>so. so\<lparr>ss_total_content_requested_to_seed := u32 (int (ss_total_content_requested_to_seed so) + 1)\<rparr>) c"

definition submit_content :: "safe \<Rightarrow> content_submit_operation \<Rightarrow> string \<Rightarrow> chain \<Rightarrow> chain res" where
  "submit_content S op title c =
     bindE (t_create content_key (new_content op c) (contents c)) (\<lambda>t.
     let content = g_next_id (contents c)
     in bindE (asset_neg S (cs_publishing_fee op)) (\<lambda>neg.
        bindE (adjust_balance S (cs_author op) neg (c\<lparr>contents := t\<rparr>)) (\<lambda>c1.
        bindE (foldE (reserve_space op content) (cs_seeders op) c1) (\<lambda>c2.
        bindE (foldE request_seeding (cs_seeders op) c2) (\<lambda>c3.
        add_detail \<lparr>m_from_account = cs_author op, m_to_account = 0, m_operation_type = Content_Submit,
          m_transaction_amount = cs_publishing_fee op, m_transaction_fee = cs_fee op, m_str_description = title,
          m_memo = None, m_timestamp = head_block_time c3, m_nft_data_id = None\<rparr> c3)))))"

definition content_submit_do_apply ::
  "safe \<Rightarrow> (string \<Rightarrow> string res) \<Rightarrow> content_submit_operation \<Rightarrow> fee_state \<Rightarrow> bool \<Rightarrow> chain \<Rightarrow> chain res" where
  "content_submit_do_apply S title op f is_resubmit c =
     bindE (title (cs_synopsis op)) (\<lambda>t.
     if is_resubmit then resubmit_content title op t c else submit_content S op t c)"

section \<open>Cancellation\<close>

record content_cancellation_operation =
  cc_fee :: asset
  cc_author :: account_id_type
  cc_URI :: string

definition content_cancellation_validate :: "content_cancellation_operation \<Rightarrow> unit res" where
  "content_cancellation_validate op = require (cc_URI op \<noteq> []) Assert_Exception"

definition content_cancellation_do_evaluate ::
  "content_cancellation_operation \<Rightarrow> fee_state \<Rightarrow> chain \<Rightarrow> (fee_state \<times> unit) res" where
  "content_cancellation_do_evaluate op f c =
     bindE (lift_opt Assert_Exception (find_content (cc_URI op) c)) (\<lambda>(k, co).
     bindE (require (cc_author op = co_author_of co) Assert_Exception) (\<lambda>_.
     bindE (require (head_block_time c < co_expiration co) Assert_Exception) (\<lambda>_.
     bindE (require (\<not> co_is_blocked co) Assert_Exception) (\<lambda>_.
     Inr (f, ())))))"

definition content_cancellation_do_apply ::
  "content_cancellation_operation \<Rightarrow> fee_state \<Rightarrow> unit \<Rightarrow> chain \<Rightarrow> chain res" where
  "content_cancellation_do_apply op f u c =
     bindE (lift_opt Undefined_Behaviour (find_content (cc_URI op) c)) (\<lambda>(k, co).
     modify_content k (\<lambda>co. co\<lparr>co_is_blocked := True,
       co_expiration := (if time_plus (head_block_time c) (24 * 60 * 60) < co_expiration co
                         then time_plus (head_block_time c) (24 * 60 * 60) else co_expiration co)\<rparr>) c)"

section \<open>Buying\<close>

record request_to_buy_operation =
  rb_fee :: asset
  rb_URI :: string
  rb_consumer :: account_id_type
  rb_price :: asset
  rb_region_code_from :: nat
  rb_pubKey :: opaque

record purchase =
  pu_is_subscriber :: bool
  pu_paid_price :: asset
  pu_paid_price_after_conversion :: asset
  pu_content_price :: asset

definition request_to_buy_validate :: "request_to_buy_operation \<Rightarrow> unit res" where
  "request_to_buy_validate op =
     bindE (require (0 \<le> amount (rb_fee op)) Assert_Exception) (\<lambda>_.
     require (0 \<le> amount (rb_price op)) Assert_Exception)"

definition content_payout :: "safe \<Rightarrow> asset \<Rightarrow> content_object \<Rightarrow> chain \<Rightarrow> chain res" where
  "content_payout S paid content c =
     (if co_authors content = [] then adjust_balance S (co_author_of content) paid c else pay_authors S content paid c)"

definition covers_price :: "asset \<Rightarrow> asset \<Rightarrow> unit res" where
  "covers_price paid wanted = bindE (asset_less paid wanted) (\<lambda>less. require (\<not> less) Assert_Exception)"

text \<open>Conversion to the core asset and from there to the asset of the content's price.\<close>

definition check_conversion :: "safe \<Rightarrow> asset \<Rightarrow> asset \<Rightarrow> chain \<Rightarrow> asset res" where
  "check_conversion S paid content_price c =
     bindE (can_convert S (asset_id paid) paid c) (\<lambda>r.
     bindE (lift_opt Assert_Exception r) (\<lambda>in_dct.
     bindE (require (asset_id in_dct = 0) Assert_Exception) (\<lambda>_.
     bindE (can_convert S (asset_id content_price) in_dct c) (\<lambda>r2.
     bindE (lift_opt Assert_Exception r2) (\<lambda>after.
     bindE (require (asset_id after = asset_id content_price) Assert_Exception) (\<lambda>_.
     bindE (covers_price after content_price) (\<lambda>_. Inr after)))))))"

definition request_to_buy_do_evaluate ::
  "safe \<Rightarrow> request_to_buy_operation \<Rightarrow> fee_state \<Rightarrow> chain \<Rightarrow> (fee_state \<times> purchase) res" where
  "request_to_buy_do_evaluate S op f c =
     bindE (lift_opt Assert_Exception (find_content (rb_URI op) c)) (\<lambda>(k, content).
     bindE (asset_le (rb_price op) (get_balance c (rb_consumer op) (asset_id (rb_price op)))) (\<lambda>enough.
     bindE (require enough Assert_Exception) (\<lambda>_.
     bindE (require (head_block_time c < co_expiration content) Assert_Exception) (\<lambda>_.
     bindE (lift_opt Assert_Exception (GetPrice (co_price content) (rb_region_code_from op))) (\<lambda>content_price.
     bindE (require (\<not> co_is_blocked content) Assert_Exception) (\<lambda>_.
     if (case t_find_by (is_subscription (rb_consumer op) (co_author_of content)) (subscriptions c) of
           None \<Rightarrow> False | Some (j, so) \<Rightarrow> head_block_time c < sub_expiration so)
     then Inr (f, \<lparr>pu_is_subscriber = True, pu_paid_price = mk_asset 0 0, pu_paid_price_after_conversion = mk_asset 0 0,
                  pu_content_price = content_price\<rparr>)
     else
       bindE (get_asset c (asset_id (rb_price op))) (\<lambda>payment.
       bindE (get_asset c (asset_id content_price)) (\<lambda>priced.
       bindE (require (are_assets_exchangeable (asset_id (rb_price op)) payment (asset_id content_price) priced) Assert_Exception) (\<lambda>_.
       bindE (if asset_id content_price = asset_id (rb_price op)
              then bindE (covers_price (rb_price op) content_price) (\<lambda>_. Inr (rb_price op))
              else check_conversion S (rb_price op) content_price c) (\<lambda>after.
       Inr (f, \<lparr>pu_is_subscriber = False, pu_paid_price = rb_price op, pu_paid_price_after_conversion = after,
               pu_content_price = content_price\<rparr>)))))))))))"

definition paid_amounts :: "safe \<Rightarrow> request_to_buy_operation \<Rightarrow> purchase \<Rightarrow> chain \<Rightarrow> (asset \<times> asset \<times> chain) res" where
  "paid_amounts S op x c =
     (let paid = (if pu_is_subscriber x then mk_asset 0 0 else pu_paid_price x)
      in if asset_id (pu_content_price x) = asset_id (rb_price op) then Inr (paid, paid, c)
         else
           bindE (convert S (asset_id paid) paid c) (\<lambda>(in_dct, c1).
           bindE (convert S (asset_id (pu_content_price x)) in_dct c1) (\<lambda>(after, c2).
           Inr (paid, after, c2))))"

definition new_buying :: "request_to_buy_operation \<Rightarrow> content_object \<Rightarrow> asset \<Rightarrow> asset \<Rightarrow> chain \<Rightarrow> buying_object" where
  "new_buying op content paid after c =
     (let delivered = (co_key_parts content = [])
      in \<lparr>bo_consumer = rb_consumer op, bo_URI = rb_URI op, bo_size = co_size content, bo_rating = 0, bo_comment = [],
          bo_price = (if delivered then mk_asset 0 0 else after), bo_paid_price_before_exchange = paid,
          bo_paid_price_after_exchange = after, bo_synopsis = co_synopsis content, bo_seeders_answered = [],
          bo_key_particles = [], bo_pubKey = rb_pubKey op,
          bo_expiration_time = time_plus (head_block_time c) (24 * 3600), bo_expired = False, bo_delivered = delivered,
          bo_expiration_or_delivery_time = head_block_time c, bo_rated_or_commented = False, bo_created = co_created content,
          bo_region_code_from = rb_region_code_from op\<rparr>)"

definition count_bought :: "nat \<Rightarrow> chain \<Rightarrow> chain res" where
  "count_bought k c = modify_content k (\<lambda>co. co\<lparr>co_times_bought := u32 (int (co_times_bought co) + 1)\<rparr>) c"

definition expect_key :: "account_id_type \<times> opaque \<Rightarrow> chain \<Rightarrow> chain res" where
  "expect_key element c =
     modify_seeding_stats (fst element) (\<lambda>so. so\<lparr>ss_missed_delivered_keys := u32 (int (ss_missed_delivered_keys so) + 1)\<rparr>) c"

definition request_to_buy_do_apply ::
  "safe \<Rightarrow> (string \<Rightarrow> string res) \<Rightarrow> request_to_buy_operation \<Rightarrow> fee_state \<Rightarrow> purchase \<Rightarrow> chain \<Rightarrow> chain res" where
  "request_to_buy_do_apply S title op f x c =
     bindE (lift_opt Undefined_Behaviour (find_content (rb_URI op) c)) (\<lambda>(k, content).
     bindE (paid_amounts S op x c) (\<lambda>(paid, after, c1).
     bindE (t_create buying_key (new_buying op content paid after c1) (buyings c1)) (\<lambda>t.
     bindE (asset_neg S paid) (\<lambda>neg.
     bindE (adjust_balance S (rb_consumer op) neg (c1\<lparr>buyings := t\<rparr>)) (\<lambda>c2.
     bindE (if co_key_parts content = []
            then bindE (content_payout S after content c2) (count_bought k) else Inr c2) (\<lambda>c3.
     bindE (foldE expect_key (co_key_parts content) c3) (\<lambda>c4.
     bindE (title (co_synopsis content)) (\<lambda>descr.
     add_detail \<lparr>m_from_account = co_author_of content, m_to_account = rb_consumer op, m_operation_type = Content_Buy,
       m_transaction_amount = paid, m_transaction_fee = rb_fee op, m_str_description = descr, m_memo = None,
       m_timestamp = head_block_time c4, m_nft_data_id = None\<rparr> c4))))))))"

section \<open>Delivery of keys\<close>

record deliver_keys_operation =
  dk_fee :: asset
  dk_seeder :: account_id_type
  dk_buying :: nat
  dk_proof :: opaque
  dk_key :: opaque

definition deliver_keys_validate :: "deliver_keys_operation \<Rightarrow> unit res" where
  "deliver_keys_validate op = require (0 \<le> amount (dk_fee op)) Assert_Exception"

text \<open>\<open>proved\<close> is \<open>verify\_delivery\_proof\<close>; it is skipped on request.\<close>

definition deliver_keys_do_evaluate ::
  "(opaque \<Rightarrow> opaque \<Rightarrow> opaque \<Rightarrow> opaque \<Rightarrow> opaque \<Rightarrow> bool) \<Rightarrow> bool \<Rightarrow> deliver_keys_operation \<Rightarrow> fee_state \<Rightarrow> chain
    \<Rightarrow> (fee_state \<times> unit) res" where
  "deliver_keys_do_evaluate proved skip op f c =
     bindE (t_get (buyings c) (dk_buying op)) (\<lambda>buying.
     bindE (lift_opt Assert_Exception (find_content (bo_URI buying) c)) (\<lambda>(k, content).
     bindE (lift_opt Undefined_Behaviour (find_seeder (dk_seeder op) c)) (\<lambda>(j, seeder).
     bindE (lift_opt Out_Of_Range (map_of (co_key_parts content) (dk_seeder op))) (\<lambda>firstK.
     bindE (require (skip \<or> proved (dk_proof op) firstK (dk_key op) (se_pubKey seeder) (bo_pubKey buying)) Assert_Exception) (\<lambda>_.
     Inr (f, ()))))))"

definition modify_buying :: "nat \<Rightarrow> (buying_object \<Rightarrow> buying_object) \<Rightarrow> chain \<Rightarrow> chain res" where
  "modify_buying k f c =
     bindE (t_modify buying_key k (\<lambda>bo. Inr (f bo)) (buyings c)) (\<lambda>t. Inr (c\<lparr>buyings := t\<rparr>))"

definition note_key :: "deliver_keys_operation \<Rightarrow> buying_object \<Rightarrow> chain \<Rightarrow> chain res" where
  "note_key op buying c =
     (if dk_seeder op \<in> set (bo_seeders_answered buying) then Inr c
      else
        bindE (modify_buying (dk_buying op) (\<lambda>bo. bo\<lparr>bo_seeders_answered := bo_seeders_answered bo @ [dk_seeder op],
                 bo_key_particles := bo_key_particles bo @ [dk_key op]\<rparr>) c) (\<lambda>c1.
        modify_seeding_stats (dk_seeder op) (\<lambda>so. so\<lparr>ss_missed_delivered_keys := u32 (int (ss_missed_delivered_keys so) - 1),
                 ss_total_delivered_keys := u32 (int (ss_total_delivered_keys so) + 1)\<rparr>) c1))"

definition deliver_keys_do_apply ::
  "safe \<Rightarrow> deliver_keys_operation \<Rightarrow> fee_state \<Rightarrow> unit \<Rightarrow> chain \<Rightarrow> chain res" where
  "deliver_keys_do_apply S op f u c =
     bindE (t_get (buyings c) (dk_buying op)) (\<lambda>old.
     bindE (lift_opt Undefined_Behaviour (find_content (bo_URI old) c)) (\<lambda>(k, content).
     bindE (note_key op old c) (\<lambda>c1.
     bindE (t_get (buyings c1) (dk_buying op)) (\<lambda>buying.
     if bo_delivered buying \<or> bo_expired buying then Inr c1
     else if co_quorum content \<le> length (bo_seeders_answered buying) then
       bindE (count_bought k c1) (\<lambda>c2.
       bindE (content_payout S (bo_paid_price_after_exchange buying) content c2) (\<lambda>c3.
       modify_buying (dk_buying op) (\<lambda>bo. bo\<lparr>bo_price := (bo_price bo)\<lparr>amount := 0\<rparr>, bo_delivered := True,
         bo_expiration_or_delivery_time := head_block_time c3\<rparr>) c3))
     else if bo_expiration_time old < head_block_time c then buying_expire S (dk_buying op) c1
     else Inr c1))))"

section \<open>Ratings\<close>

record leave_rating_and_comment_operation =
  lr_fee :: asset
  lr_URI :: string
  lr_consumer :: account_id_type
  lr_rating :: nat
  lr_comment :: string

definition leave_rating_validate :: "leave_rating_and_comment_operation \<Rightarrow> unit res" where
  "leave_rating_validate op =
     bindE (require (0 \<le> amount (lr_fee op)) Assert_Exception) (\<lambda>_.
     bindE (require (0 < lr_rating op \<and> lr_rating op \<le> 5) Assert_Exception) (\<lambda>_.
     require (lr_comment op = [] \<or> length (lr_comment op) \<le> 100) Assert_Exception))"

definition is_buying :: "account_id_type \<Rightarrow> string \<Rightarrow> buying_object \<Rightarrow> bool" where
  "is_buying consumer uri bo \<longleftrightarrow> bo_consumer bo = consumer \<and> bo_URI bo = uri"

definition find_buying :: "account_id_type \<Rightarrow> string \<Rightarrow> chain \<Rightarrow> (nat \<times> buying_object) option" where
  "find_buying consumer uri c = t_find_by (is_buying consumer uri) (buyings c)"

definition leave_rating_do_evaluate ::
  "leave_rating_and_comment_operation \<Rightarrow> fee_state \<Rightarrow> chain \<Rightarrow> (fee_state \<times> unit) res" where
  "leave_rating_do_evaluate op f c =
     bindE (lift_opt Assert_Exception (find_content (lr_URI op) c)) (\<lambda>_.
     bindE (lift_opt Assert_Exception (find_buying (lr_consumer op) (lr_URI op) c)) (\<lambda>(k, bo).
     bindE (require (bo_delivered bo) Assert_Exception) (\<lambda>_.
     bindE (require (\<not> bo_rated_or_commented bo) Assert_Exception) (\<lambda>_.
     Inr (f, ())))))"

text \<open>Ratings are averaged in thousandths, in 32 bits.\<close>

definition average_rating :: "nat \<Rightarrow> nat \<Rightarrow> nat \<Rightarrow> nat res" where
  "average_rating avg n rating =
     (let m = u32 (int n + 1)
      in if m = 0 then Inl Undefined_Behaviour
         else Inr (u32 (int avg * int n + int (u32 (int rating)) * 1000) div m))"

definition leave_rating_do_apply ::
  "(string \<Rightarrow> string res) \<Rightarrow> leave_rating_and_comment_operation \<Rightarrow> fee_state \<Rightarrow> unit \<Rightarrow> chain \<Rightarrow> chain res" where
  "leave_rating_do_apply title op f u c =
     bindE (lift_opt Undefined_Behaviour (find_buying (lr_consumer op) (lr_URI op) c)) (\<lambda>(j, bo).
     bindE (lift_opt Undefined_Behaviour (find_content (lr_URI op) c)) (\<lambda>(k, co).
     bindE (modify_buying j (\<lambda>b. b\<lparr>bo_rated_or_commented := True, bo_rating := u32 (int (lr_rating op)),
              bo_comment := lr_comment op\<rparr>) c) (\<lambda>c1.
     bindE (average_rating (co_AVG_rating co) (co_num_of_ratings co) (lr_rating op)) (\<lambda>avg.
     bindE (modify_content k (\<lambda>co. co\<lparr>co_AVG_rating := avg, co_num_of_ratings := u32 (int (co_num_of_ratings co) + 1)\<rparr>) c1) (\<lambda>c2.
     bindE (title (co_synopsis co)) (\<lambda>t.
     add_detail \<lparr>m_from_account = lr_consumer op, m_to_account = co_author_of co, m_operation_type = Content_Rate,
       m_transaction_amount = mk_asset 0 0, m_transaction_fee = lr_fee op,
       m_str_description = nat_to_string (lr_rating op) @ '' ('' @ t @ '')'', m_memo = None,
       m_timestamp = head_block_time c2, m_nft_data_id = None\<rparr> c2))))))"

section \<open>Seeders\<close>

record ready_to_publish_operation =
  rp_fee :: asset
  rp_seeder :: account_id_type
  rp_pubKey :: opaque
  rp_space :: nat
  rp_price_per_MByte :: nat
  rp_ipfs_ID :: string
  rp_region_code :: "string option"

definition ready_to_publish_validate :: "ready_to_publish_operation \<Rightarrow> unit res" where
  "ready_to_publish_validate op =
     bindE (require (0 \<le> amount (rp_fee op)) Assert_Exception) (\<lambda>_.
     bindE (require (0 < rp_space op) Assert_Exception) (\<lambda>_.
     require (rp_ipfs_ID op \<noteq> []) Assert_Exception))"

definition new_stats :: "account_id_type \<Rightarrow> seeding_statistics_object" where
  "new_stats x = \<lparr>ss_seeder = x, ss_total_upload = 0, ss_missed_delivered_keys = 0, ss_total_delivered_keys = 0,
     ss_total_content_seeded = 0, ss_num_of_content_seeded = 0, ss_total_content_requested_to_seed = 0, ss_num_of_pors = 0,
     ss_uploaded_till_last_maint = 0, ss_avg_buying_ratio = 0, ss_seeding_rel_ratio = 0, ss_seeding_abs_ratio = 0,
     ss_missed_ratio = 0\<rparr>"

definition new_seeder :: "ready_to_publish_operation \<Rightarrow> string \<Rightarrow> nat \<Rightarrow> chain \<Rightarrow> seeder_object" where
  "new_seeder op region stats c =
     \<lparr>se_seeder = rp_seeder op, se_free_space = rp_space op, se_price = mk_asset (int (rp_price_per_MByte op)) 0,
      se_expiration = time_plus (head_block_time c) 7200, se_pubKey = rp_pubKey op, se_ipfs_ID = rp_ipfs_ID op,
      se_stats = stats, se_rating = 0, se_region_code = region\<rparr>"

text \<open>\<open>region\<close> is what the current operation sets; the obsolete one leaves the region alone.\<close>

definition publish_seeder :: "string option \<Rightarrow> ready_to_publish_operation \<Rightarrow> chain \<Rightarrow> chain res" where
  "publish_seeder region op c =
     (case find_seeder (rp_seeder op) c of
        None \<Rightarrow>
          bindE (t_create stats_key (new_stats (rp_seeder op)) (seeding_stats c)) (\<lambda>u.
          bindE (t_create seeder_key
                   (new_seeder op (case region of None \<Rightarrow> [] | Some r \<Rightarrow> r) (g_next_id (seeding_stats c)) c) (seeders c)) (\<lambda>t.
          Inr (c\<lparr>seeding_stats := u, seeders := t\<rparr>)))
      | Some (k, so) \<Rightarrow>
          bindE (t_modify seeder_key k (\<lambda>so. Inr (so\<lparr>se_free_space := rp_space op,
                   se_price := mk_asset (int (rp_price_per_MByte op)) 0, se_pubKey := rp_pubKey op,
                   se_expiration := time_plus (head_block_time c) (24 * 3600), se_ipfs_ID := rp_ipfs_ID op,
                   se_region_code := (case region of None \<Rightarrow> se_region_code so | Some r \<Rightarrow> r)\<rparr>)) (seeders c)) (\<lambda>t.
          Inr (c\<lparr>seeders := t\<rparr>)))"

definition ready_to_publish_obsolete_do_evaluate ::
  "ready_to_publish_operation \<Rightarrow> fee_state \<Rightarrow> chain \<Rightarrow> (fee_state \<times> unit) res" where
  "ready_to_publish_obsolete_do_evaluate op f c = Inr (f, ())"

definition ready_to_publish_obsolete_do_apply ::
  "ready_to_publish_operation \<Rightarrow> fee_state \<Rightarrow> unit \<Rightarrow> chain \<Rightarrow> chain res" where
  "ready_to_publish_obsolete_do_apply op f u c = publish_seeder None op c"

definition ready_to_publish_do_evaluate ::
  "fork_times_t \<Rightarrow> ready_to_publish_operation \<Rightarrow> fee_state \<Rightarrow> chain \<Rightarrow> (fee_state \<times> unit) res" where
  "ready_to_publish_do_evaluate ft op f c =
     bindE (require (hf1 ft \<le> head_block_time c) Assert_Exception) (\<lambda>_. Inr (f, ()))"

definition ready_to_publish_do_apply ::
  "ready_to_publish_operation \<Rightarrow> fee_state \<Rightarrow> unit \<Rightarrow> chain \<Rightarrow> chain res" where
  "ready_to_publish_do_apply op f u c =
     publish_seeder (Some (case rp_region_code op of Some r \<Rightarrow> r | None \<Rightarrow> [])) op c"

record custody_proof =
  cp_reference_block :: nat
  cp_seed :: opaque
  cp_mus :: "string list"
  cp_sigma :: opaque

record proof_of_custody_operation =
  pc_fee :: asset
  pc_seeder :: account_id_type
  pc_URI :: string
  pc_proof :: "custody_proof option"

definition proof_of_custody_validate :: "proof_of_custody_operation \<Rightarrow> unit res" where
  "proof_of_custody_validate op = require (0 \<le> amount (pc_fee op)) Assert_Exception"

text \<open>
  \<open>block_id_for\<close> is \<open>get\_block\_id\_for\_num\<close> of the block database, \<open>verify\<close> is
  \<open>CustodyUtils::verify\_by\_miner\<close>, skipped on request.
\<close>

definition proof_of_custody_do_evaluate ::
  "(nat \<Rightarrow> opaque res) \<Rightarrow> (opaque \<Rightarrow> custody_proof \<Rightarrow> bool) \<Rightarrow> bool \<Rightarrow> proof_of_custody_operation \<Rightarrow> fee_state \<Rightarrow> chain
    \<Rightarrow> (fee_state \<times> unit) res" where
  "proof_of_custody_do_evaluate block_id_for verify skip op f c =
     bindE (lift_opt Assert_Exception (find_content (pc_URI op) c)) (\<lambda>(k, content).
     bindE (require (head_block_time c < co_expiration content) Assert_Exception) (\<lambda>_.
     bindE (case pc_proof op of
              None \<Rightarrow> Inr ()
            | Some proof \<Rightarrow>
                bindE (block_id_for (cp_reference_block proof)) (\<lambda>bid.
                bindE (require (bid = cp_seed proof) Assert_Exception) (\<lambda>_.
                require (head_block_num c \<le> u32 (int (cp_reference_block proof) + 6)) Assert_Exception))) (\<lambda>_.
     bindE (require ((co_cd content \<noteq> None) = (pc_proof op \<noteq> None)) Assert_Exception) (\<lambda>_.
     bindE (case (co_cd content, pc_proof op) of
              (Some cd, Some proof) \<Rightarrow> require (skip \<or> verify cd proof) Assert_Exception
            | _ \<Rightarrow> Inr ()) (\<lambda>_.
     Inr (f, ()))))))"

text \<open>The reward of a recurrent proof: proportional to the time since the last one, at most a day, less a loss for haste.\<close>

definition reward_ratio :: "time_point_sec \<Rightarrow> time_point_sec \<Rightarrow> nat" where
  "reward_ratio now last_time =
     (let diff = min (int now - int last_time) 86400;
          ratio = u64 (c_div (10000 * diff) 86400);
          loss = u64 (10000 - int ratio) div 4
      in u64 (int (u64 (int ratio * (10000 - int loss))) div 10000))"

definition custody_reward :: "safe \<Rightarrow> content_object \<Rightarrow> seeder_object \<Rightarrow> time_point_sec \<Rightarrow> chain \<Rightarrow> int res" where
  "custody_reward S content seeder last_time c =
     (let ratio = reward_ratio (head_block_time c) last_time
      in bindE (if 404727 < int (head_block_num c)
                then lift_opt Assert_Exception (map_of (co_seeder_price content) (se_seeder seeder))
                else Inr (amount (se_price seeder))) (\<lambda>p.
         bindE (S (p * int ratio)) (\<lambda>x.
         bindE (S (x * int (co_size content))) (\<lambda>y.
         bindE (S (c_div y 10000)) (\<lambda>reward.
         Inr (if 404727 < int (head_block_num c) \<and> amount (co_publishing_fee_escrow content) < reward
              then max 0 (amount (co_publishing_fee_escrow content)) else reward))))))"

definition first_custody :: "proof_of_custody_operation \<Rightarrow> nat \<Rightarrow> content_object \<Rightarrow> chain \<Rightarrow> chain res" where
  "first_custody op k content c =
     bindE (modify_content k (\<lambda>co. co\<lparr>co_last_proof := emplace_row (pc_seeder op) (head_block_time c) (co_last_proof co)\<rparr>) c) (\<lambda>c1.
     bindE (require (co_key_parts content \<noteq> []) Undefined_Behaviour) (\<lambda>_.
     modify_seeding_stats (pc_seeder op) (\<lambda>so. so\<lparr>
       ss_total_content_seeded := u64 (int (ss_total_content_seeded so) +
          int (u64 (int (co_size content) * 1000 * 1000) div length (co_key_parts content))),
       ss_num_of_content_seeded := u32 (int (ss_num_of_content_seeded so) + 1),
       ss_total_content_requested_to_seed := ss_total_content_requested_to_seed so - 1\<rparr>) c1))"

definition next_custody :: "safe \<Rightarrow> proof_of_custody_operation \<Rightarrow> nat \<Rightarrow> content_object \<Rightarrow> seeder_object \<Rightarrow> time_point_sec \<Rightarrow> chain \<Rightarrow> chain res" where
  "next_custody S op k content seeder last_time c =
     bindE (modify_seeding_stats (pc_seeder op) (\<lambda>so. so\<lparr>ss_num_of_pors := u32 (int (ss_num_of_pors so) + 1)\<rparr>) c) (\<lambda>c1.
     bindE (custody_reward S content seeder last_time c1) (\<lambda>reward.
     bindE (t_modify content_key k (\<lambda>co. bindE (asset_sub S (co_publishing_fee_escrow co) (mk_asset reward 0)) (\<lambda>escrow.
              Inr (co\<lparr>co_last_proof := put_row (pc_seeder op) (head_block_time c1) (co_last_proof co),
                      co_publishing_fee_escrow := escrow\<rparr>))) (contents c1)) (\<lambda>t.
     adjust_balance S (se_seeder seeder) (mk_asset reward 0) (c1\<lparr>contents := t\<rparr>))))"

definition proof_of_custody_do_apply ::
  "safe \<Rightarrow> proof_of_custody_operation \<Rightarrow> fee_state \<Rightarrow> unit \<Rightarrow> chain \<Rightarrow> chain res" where
  "proof_of_custody_do_apply S op f u c =
     bindE (lift_opt Undefined_Behaviour (find_content (pc_URI op) c)) (\<lambda>(k, content).
     bindE (lift_opt Assert_Exception (find_seeder (pc_seeder op) c)) (\<lambda>(j, seeder).
     case map_of (co_last_proof content) (pc_seeder op) of
       None \<Rightarrow> first_custody op k content c
     | Some last_time \<Rightarrow> next_custody S op k content seeder last_time c))"

record report_stats_operation =
  rs_fee :: asset
  rs_stats :: "(account_id_type \<times> nat) list"
  rs_consumer :: account_id_type

definition report_stats_validate :: "report_stats_operation \<Rightarrow> unit res" where
  "report_stats_validate op =
     bindE (require (0 \<le> amount (rs_fee op)) Assert_Exception) (\<lambda>_.
     require (rs_stats op \<noteq> []) Assert_Exception)"

definition report_stats_do_evaluate :: "report_stats_operation \<Rightarrow> fee_state \<Rightarrow> chain \<Rightarrow> (fee_state \<times> unit) res" where
  "report_stats_do_evaluate op f c =
     bindE (require (accounts_exist (map fst (rs_stats op)) c) Assert_Exception) (\<lambda>_. Inr (f, ()))"

definition report_stats_do_apply :: "report_stats_operation \<Rightarrow> fee_state \<Rightarrow> unit \<Rightarrow> chain \<Rightarrow> chain res" where
  "report_stats_do_apply op f u c =
     foldE (\<lambda>item. modify_seeding_stats (fst item) (\<lambda>so. so\<lparr>ss_total_upload := u64 (int (ss_total_upload so) + int (snd item))\<rparr>))
       (rs_stats op) c"

end
