(* ===== verification/Content_Correct.thy ===== *)
theory Content_Correct
  imports Content
begin

text \<open>
  What the operations on content do to money: every one of them conserves every asset, the escrow of a
  purchase is what its authors get, and a proof of custody never takes more than the escrow holds. The
  locale \<open>content_contract\<close> is the interface of an evaluator that relies on an invariant of the chain.
\<close>

section \<open>Shifts of holdings\<close>

text \<open>\<open>shifts d c c'\<close>: from \<open>c\<close> to \<open>c'\<close> what is held of \<open>a\<close> changes by \<open>d a\<close> and no supply does.\<close>

definition shifts :: "(asset_id_type \<Rightarrow> int) \<Rightarrow> chain \<Rightarrow> chain \<Rightarrow> bool" where
  "shifts d c c' \<longleftrightarrow> chain_ok c' \<and> (\<forall>a. holdings c' a = holdings c a + d a \<and> supply_of c' a = supply_of c a)"

definition units :: "asset \<Rightarrow> asset_id_type \<Rightarrow> int" where
  "units x a = (if a = asset_id x then amount x else 0)"

text \<open>A purchase that is still open holds in escrow what the authors will be paid.\<close>

definition escrow_covers :: "buying_object \<Rightarrow> bool" where
  "escrow_covers bo \<longleftrightarrow> bo_delivered bo \<or> bo_expired bo \<or> bo_price bo = bo_paid_price_after_exchange bo"

definition open_buyings_ok :: "chain \<Rightarrow> bool" where
  "open_buyings_ok c \<longleftrightarrow> list_all (\<lambda>p. escrow_covers (snd p)) (g_rows (buyings c))"

definition steps :: "(asset_id_type \<Rightarrow> int) \<Rightarrow> chain \<Rightarrow> chain \<Rightarrow> bool" where
  "steps d c c' \<longleftrightarrow> shifts d c c' \<and> open_buyings_ok c'"

lemma shifts_ok: "shifts d c c' \<Longrightarrow> chain_ok c'"
  by (simp add: shifts_def)

lemma shifts_refl: "chain_ok c \<Longrightarrow> shifts (nothing ()) c c"
  by (simp add: shifts_def nothing_def)

lemma shifts_trans: "shifts d c c1 \<Longrightarrow> shifts e c1 c2 \<Longrightarrow> (\<And>a. g a = d a + e a) \<Longrightarrow> shifts g c c2"
  by (simp add: shifts_def)

lemma shifts_keep: "shifts d c c1 \<Longrightarrow> shifts (nothing ()) c1 c2 \<Longrightarrow> shifts d c c2"
  by (simp add: shifts_def nothing_def)

lemma money_kept_shifts: "money_kept c c' \<Longrightarrow> shifts (nothing ()) c c'"
  by (simp add: money_kept_def shifts_def nothing_def)

lemma adjust_shifts:
  "safe_exact S \<Longrightarrow> chain_ok c \<Longrightarrow> adjust_balance S x d c = Inr c' \<Longrightarrow> shifts (units d) c c'"
  by (simp add: shifts_def units_def adjust_balance_holdings)

lemma open_buyings_find: "open_buyings_ok c \<Longrightarrow> generic_find (buyings c) k = Some bo \<Longrightarrow> escrow_covers bo"
  by (auto simp: open_buyings_ok_def list_all_iff dest!: generic_find_row)

lemma open_buyings_cong: "buyings c' = buyings c \<Longrightarrow> open_buyings_ok c' = open_buyings_ok c"
  by (simp add: open_buyings_ok_def)

lemma put_row_all: "list_all (\<lambda>p. P (snd p)) ps \<Longrightarrow> P v \<Longrightarrow> list_all (\<lambda>p. P (snd p)) (put_row k v ps)"
  by (induction k v ps rule: put_row.induct) auto

lemma t_create_all:
  "t_create clash x t = Inr t' \<Longrightarrow> list_all (\<lambda>p. P (snd p)) (g_rows t) \<Longrightarrow> P x \<Longrightarrow> list_all (\<lambda>p. P (snd p)) (g_rows t')"
  by (auto simp: t_create_def generic_create_def Let_def intro: put_row_all split: if_splits)

lemma t_modify_all:
  assumes "t_modify clash k f t = Inr t'" and "list_all (\<lambda>p. P (snd p)) (g_rows t)"
    and "\<And>x y. generic_find t k = Some x \<Longrightarrow> f x = Inr y \<Longrightarrow> P x \<Longrightarrow> P y"
  shows "list_all (\<lambda>p. P (snd p)) (g_rows t')"
proof -
  from assms(1) obtain x y where x: "generic_find t k = Some x" and y: "f x = Inr y"
    and t': "t' = t\<lparr>g_rows := put_row k y (g_rows t)\<rparr>"
    by (auto simp: t_modify_def generic_modify_def generic_find_def split: if_splits)
  have "P x" using generic_find_row [OF x] assms(2) by (auto simp: list_all_iff)
  then show ?thesis using assms(2,3) x y by (simp add: t' put_row_all)
qed

section \<open>Changes of one table\<close>

text \<open>A change that moves nothing and leaves the purchases alone.\<close>

definition idle :: "chain \<Rightarrow> chain \<Rightarrow> bool" where
  "idle c c' \<longleftrightarrow> shifts (nothing ()) c c' \<and> buyings c' = buyings c"

lemma idle_refl: "chain_ok c \<Longrightarrow> idle c c"
  by (simp add: idle_def shifts_refl)

lemma idle_trans: "idle c c1 \<Longrightarrow> idle c1 c2 \<Longrightarrow> idle c c2"
  by (auto simp: idle_def intro: shifts_keep)

lemma idle_ok: "idle c c' \<Longrightarrow> chain_ok c'"
  by (auto simp: idle_def dest: shifts_ok)

lemma foldE_idle:
  assumes "foldE f xs c = Inr c'" and "chain_ok c" and "\<And>x c c'. chain_ok c \<Longrightarrow> f x c = Inr c' \<Longrightarrow> idle c c'"
  shows "idle c c'"
  by (rule foldE_invariant [OF assms(1), where I = "idle c"])
    (use assms(2,3) idle_refl idle_trans idle_ok in blast)+

lemma modify_content_idle:
  assumes "chain_ok c" and "modify_content k f c = Inr c'"
    and "\<And>x. co_publishing_fee_escrow (f x) = co_publishing_fee_escrow x"
  shows "idle c c'"
proof -
  from assms(2) obtain t where t: "t_modify content_key k (\<lambda>co. Inr (f co)) (contents c) = Inr t" and c': "c' = c\<lparr>contents := t\<rparr>"
    by (auto simp: modify_content_def)
  have ok: "t_ok (contents c)" using assms(1) by (simp add: frame)
  have "escrowed_in a (f x) = escrowed_in a x" for a x by (simp add: escrowed_in_def assms(3))
  then have "t_sum (escrowed_in a) t = t_sum (escrowed_in a) (contents c)" for a
    by (rule_tac t_sum_modify [OF ok t, of "escrowed_in a"]) auto
  moreover have "t_ok t" by (rule t_modify_keeps_ok [OF ok t])
  ultimately show ?thesis using assms(1) by (simp add: c' idle_def shifts_def nothing_def frame)
qed

lemma modify_buying_law:
  assumes "chain_ok c" and "modify_buying k f c = Inr c'"
  obtains x where "generic_find (buyings c) k = Some x" and "generic_find (buyings c') k = Some (f x)"
    and "shifts (\<lambda>a. bought_in a (f x) - bought_in a x) c c'"
    and "open_buyings_ok c \<Longrightarrow> (escrow_covers x \<Longrightarrow> escrow_covers (f x)) \<Longrightarrow> open_buyings_ok c'"
proof -
  from assms(2) obtain t where t: "t_modify buying_key k (\<lambda>bo. Inr (f bo)) (buyings c) = Inr t" and c': "c' = c\<lparr>buyings := t\<rparr>"
    by (auto simp: modify_buying_def)
  have ok: "t_ok (buyings c)" using assms(1) by (simp add: frame)
  obtain x where x: "generic_find (buyings c) k = Some x" "t_ok t" "generic_find t = (generic_find (buyings c))(k \<mapsto> f x)"
    by (rule t_modify_law [OF ok t]) auto
  have "t_sum (bought_in a) t = t_sum (bought_in a) (buyings c) + bought_in a (f x) - bought_in a x" for a
    by (rule t_sum_modify [OF ok t, of "bought_in a"]) (use x in auto)
  then have "shifts (\<lambda>a. bought_in a (f x) - bought_in a x) c c'"
    using assms(1) x(2) by (simp add: c' shifts_def frame)
  moreover have "open_buyings_ok c'" if "open_buyings_ok c" "escrow_covers x \<Longrightarrow> escrow_covers (f x)"
    using t_modify_all [OF t, of escrow_covers] that x(1) by (auto simp: open_buyings_ok_def c')
  ultimately show thesis using that [OF x(1)] x(3) by (simp add: c')
qed

lemma modify_seeding_idle:
  assumes "chain_ok c" and "modify_seeding_stats x f c = Inr c'"
  shows "idle c c'"
proof -
  from assms(2) obtain k t where t: "t_modify stats_key k (\<lambda>so. Inr (f so)) (seeding_stats c) = Inr t" and c': "c' = c\<lparr>seeding_stats := t\<rparr>"
    by (auto simp: modify_seeding_stats_def)
  show ?thesis using assms(1) t_modify_keeps_ok [OF _ t] by (simp add: c' idle_def shifts_def nothing_def frame)
qed

lemma modify_rights_idle:
  assumes "chain_ok c" and "modify_rights k f c = Inr c'"
  shows "idle c c'"
proof -
  from assms(2) obtain g t where t: "t_modify account_key k g (accounts c) = Inr t" and c': "c' = c\<lparr>accounts := t\<rparr>"
    by (auto simp: modify_rights_def)
  show ?thesis using assms(1) t_modify_keeps_ok [OF _ t] by (simp add: c' idle_def shifts_def nothing_def frame)
qed

lemma add_detail_idle:
  assumes "chain_ok c" and "add_detail d c = Inr c'"
  shows "idle c c'"
proof -
  have "buyings c' = buyings c" by (subst add_detail_law(4) [OF assms], simp)
  then show ?thesis using add_detail_law [OF assms] by (simp add: idle_def shifts_def nothing_def)
qed

lemma seeders_idle: "chain_ok c \<Longrightarrow> t_ok t \<Longrightarrow> idle c (c\<lparr>seeders := t\<rparr>)"
  by (simp add: idle_def shifts_def nothing_def frame)

lemma adjust_moves:
  assumes "safe_exact S" and "chain_ok c" and "adjust_balance S x d c = Inr c'"
  shows "shifts (units d) c c'" and "buyings c' = buyings c" and "contents c' = contents c"
  using adjust_shifts [OF assms] by (blast, (subst adjust_balance_holdings(4) [OF assms], simp)+)

section \<open>Operations that move nothing\<close>

lemma set_managers_idle: "set_managers b ks c = Inr c' \<Longrightarrow> chain_ok c \<Longrightarrow> idle c c'"
proof (induction b ks c rule: set_managers.induct)
  case (2 b k ks c)
  show ?case
  proof (cases b)
    case True
    then show ?thesis using 2(2,3) by (auto intro: modify_rights_idle)
  next
    case False
    from 2(2) obtain to_acc c1 c2 where a: "get_account c k = Inr to_acc"
      and 1: "foldE (\<lambda>publisher. modify_rights publisher (\<lambda>r. r\<lparr>publishing_rights_received :=
                filter (\<lambda>x. x \<noteq> publisher) (publishing_rights_received r)\<rparr>))
              (publishing_rights_forwarded (rights_to_publish to_acc)) c = Inr c1"
      and 3: "modify_rights k (\<lambda>r. r\<lparr>is_publishing_manager := False, publishing_rights_forwarded := []\<rparr>) c1 = Inr c2"
      and 4: "set_managers b ks c2 = Inr c'"
      using False by auto
    have i1: "idle c c1" by (rule foldE_idle [OF 1 2(3) modify_rights_idle])
    have i2: "idle c1 c2" by (rule modify_rights_idle [OF idle_ok [OF i1] 3])
    show ?thesis using 2(1) [OF False 4 idle_ok [OF i2]] i1 i2 by (blast intro: idle_trans)
  qed
qed (simp add: idle_refl)

lemma set_right_idle: "chain_ok c \<Longrightarrow> set_right x b y c = Inr c' \<Longrightarrow> idle c c'"
  unfolding set_right_def Let_def bindE_eq_Inr by (blast intro: idle_trans modify_rights_idle idle_ok)

lemma publish_seeder_idle:
  assumes "chain_ok c" and "publish_seeder r op c = Inr c'"
  shows "idle c c'"
proof (cases "find_seeder (rp_seeder op) c")
  case None
  with assms(2) obtain x y u t where u: "t_create stats_key x (seeding_stats c) = Inr u"
    and t: "t_create seeder_key y (seeders c) = Inr t" and c': "c' = c\<lparr>seeding_stats := u, seeders := t\<rparr>"
    by (auto simp: publish_seeder_def)
  have "t_ok u" "t_ok t" using t_create_law(1) [OF _ u] t_create_law(1) [OF _ t] assms(1) by (simp_all add: frame)
  then show ?thesis using assms(1) by (simp add: c' idle_def shifts_def nothing_def frame)
next
  case (Some p)
  with assms(2) obtain k f t where t: "t_modify seeder_key k f (seeders c) = Inr t" and c': "c' = c\<lparr>seeders := t\<rparr>"
    by (cases p) (auto simp: publish_seeder_def)
  show ?thesis using assms(1) t_modify_keeps_ok [OF _ t] by (simp add: c' seeders_idle frame)
qed

lemma report_stats_idle: "chain_ok c \<Longrightarrow> report_stats_do_apply op f u c = Inr c' \<Longrightarrow> idle c c'"
  unfolding report_stats_do_apply_def by (erule (1) foldE_idle) (rule modify_seeding_idle)

lemma cancellation_idle: "chain_ok c \<Longrightarrow> content_cancellation_do_apply op f u c = Inr c' \<Longrightarrow> idle c c'"
  by (auto simp: content_cancellation_do_apply_def intro!: modify_content_idle)

section \<open>Submission\<close>

lemma reserve_space_idle:
  assumes "chain_ok c" and "reserve_space op k p c = Inr c'"
  shows "idle c c'"
proof -
  from assms(2) obtain j f g t where t: "t_modify seeder_key j f (seeders c) = Inr t"
    and m: "modify_content k (\<lambda>co. co\<lparr>co_seeder_price := g co\<rparr>) (c\<lparr>seeders := t\<rparr>) = Inr c'"
    by (auto simp: reserve_space_def)
  have i: "idle c (c\<lparr>seeders := t\<rparr>)" using assms(1) t_modify_keeps_ok [OF _ t] by (simp add: seeders_idle frame)
  then show ?thesis using modify_content_idle [OF idle_ok [OF i] m] by (auto intro: idle_trans)
qed

lemma resubmit_idle:
  assumes "chain_ok c" and "resubmit_content title op s c = Inr c'"
  shows "idle c c'"
proof -
  from assms(2) obtain j f k g t where t: "t_modify no_unique j f (details c) = Inr t"
    and m: "modify_content k g (c\<lparr>details := t\<rparr>) = Inr c'" and g: "\<And>x. co_publishing_fee_escrow (g x) = co_publishing_fee_escrow x"
    by (auto simp: resubmit_content_def)
  have i: "idle c (c\<lparr>details := t\<rparr>)"
    using assms(1) t_modify_keeps_ok [OF _ t] by (simp add: idle_def shifts_def nothing_def frame)
  then show ?thesis using modify_content_idle [OF idle_ok [OF i] m g] by (auto intro: idle_trans)
qed

text \<open>The publishing fee goes from the author to the escrow of the content.\<close>

lemma submit_idle:
  assumes "safe_exact S" and "chain_ok c" and "submit_content S op s c = Inr c'"
  shows "idle c c'"
proof -
  from assms(3) obtain t neg c1 c2 c3 d where t: "t_create content_key (new_content op c) (contents c) = Inr t"
    and n: "asset_neg S (cs_publishing_fee op) = Inr neg"
    and 1: "adjust_balance S (cs_author op) neg (c\<lparr>contents := t\<rparr>) = Inr c1"
    and 2: "foldE (reserve_space op (g_next_id (contents c))) (cs_seeders op) c1 = Inr c2"
    and 3: "foldE request_seeding (cs_seeders op) c2 = Inr c3" and 4: "add_detail d c3 = Inr c'"
    by (auto simp: submit_content_def Let_def)
  have ok: "t_ok (contents c)" using assms(2) by (simp add: frame)
  have s0: "shifts (units (cs_publishing_fee op)) c (c\<lparr>contents := t\<rparr>)"
    using assms(2) t_create_law(1) [OF ok t] t_sum_create [OF ok t]
    by (simp add: shifts_def units_def frame escrowed_in_def new_content_def)
  note s1 = adjust_moves [OF assms(1) shifts_ok [OF s0] 1]
  have i1: "idle c c1"
    using shifts_trans [OF s0 s1(1), of "nothing ()"] s1(2) asset_neg_exact [OF assms(1) n]
    by (simp add: idle_def units_def nothing_def)
  have i2: "idle c1 c2" by (rule foldE_idle [OF 2 idle_ok [OF i1] reserve_space_idle])
  have i3: "idle c2 c3"
    by (rule foldE_idle [OF 3 idle_ok [OF i2]]) (auto simp: request_seeding_def intro: modify_seeding_idle)
  show ?thesis using i1 i2 i3 add_detail_idle [OF idle_ok [OF i3] 4] by (blast intro: idle_trans)
qed

lemma content_submit_idle:
  "safe_exact S \<Longrightarrow> chain_ok c \<Longrightarrow> content_submit_do_apply S title op f r c = Inr c' \<Longrightarrow> idle c c'"
  by (auto simp: content_submit_do_apply_def intro: submit_idle resubmit_idle split: if_splits)

section \<open>Proofs of custody\<close>

lemma first_custody_idle:
  assumes "chain_ok c" and "first_custody op k content c = Inr c'"
  shows "idle c c'"
proof -
  from assms(2) obtain f c1 g where 1: "modify_content k (\<lambda>co. co\<lparr>co_last_proof := f co\<rparr>) c = Inr c1"
    and 2: "modify_seeding_stats (pc_seeder op) g c1 = Inr c'"
    by (auto simp: first_custody_def)
  have i: "idle c c1" using modify_content_idle [OF assms(1) 1] by simp
  show ?thesis by (rule idle_trans [OF i modify_seeding_idle [OF idle_ok [OF i] 2]])
qed

text \<open>What a recurrent proof takes out of the escrow is what the seeder gets.\<close>

lemma pay_from_escrow:
  assumes "safe_exact S" and "chain_ok c"
    and t: "t_modify content_key k (\<lambda>co. bindE (asset_sub S (co_publishing_fee_escrow co) (mk_asset reward 0)) (\<lambda>escrow.
              Inr (co\<lparr>co_last_proof := g co, co_publishing_fee_escrow := escrow\<rparr>))) (contents c) = Inr t"
  obtains co where "generic_find (contents c) k = Some co" and "asset_id (co_publishing_fee_escrow co) = 0"
    and "generic_find t k = Some (co\<lparr>co_last_proof := g co,
      co_publishing_fee_escrow := mk_asset (amount (co_publishing_fee_escrow co) - reward) 0\<rparr>)"
    and "shifts (\<lambda>a. - units (mk_asset reward 0) a) c (c\<lparr>contents := t\<rparr>)"
proof -
  have ok: "t_ok (contents c)" using assms(2) by (simp add: frame)
  obtain co y where co: "generic_find (contents c) k = Some co"
    and y: "bindE (asset_sub S (co_publishing_fee_escrow co) (mk_asset reward 0)) (\<lambda>escrow.
              Inr (co\<lparr>co_last_proof := g co, co_publishing_fee_escrow := escrow\<rparr>)) = Inr y"
    and t': "t_ok t" "generic_find t = (generic_find (contents c))(k \<mapsto> y)"
    by (rule t_modify_law [OF ok t]) blast
  from y obtain n where y': "asset_id (co_publishing_fee_escrow co) = 0" "S (amount (co_publishing_fee_escrow co) - reward) = Inr n"
      "y = co\<lparr>co_last_proof := g co, co_publishing_fee_escrow := mk_asset n 0\<rparr>"
    by (auto simp: asset_sub_def)
  have n: "n = amount (co_publishing_fee_escrow co) - reward" by (rule safe_exactD [OF assms(1) y'(2)])
  have "escrowed_in b y = escrowed_in b co - units (mk_asset reward 0) b" for b
    using y'(1) by (simp add: y'(3) n escrowed_in_def units_def)
  moreover have "t_sum (escrowed_in b) t = t_sum (escrowed_in b) (contents c) + escrowed_in b y - escrowed_in b co" for b
  proof (rule t_sum_modify [OF ok t, of "escrowed_in b"])
    fix u v assume "generic_find (contents c) k = Some u"
      and "bindE (asset_sub S (co_publishing_fee_escrow u) (mk_asset reward 0)) (\<lambda>escrow.
              Inr (u\<lparr>co_last_proof := g u, co_publishing_fee_escrow := escrow\<rparr>)) = Inr v"
      and "t_sum (escrowed_in b) t = t_sum (escrowed_in b) (contents c) + escrowed_in b v - escrowed_in b u"
    moreover from this co y have "u = co" "v = y" by (simp_all del: bindE_eq_Inr)
    ultimately show ?thesis by simp
  qed
  ultimately have "shifts (\<lambda>b. - units (mk_asset reward 0) b) c (c\<lparr>contents := t\<rparr>)"
    using assms(2) t'(1) by (simp add: shifts_def frame)
  then show thesis using that [OF co y'(1)] t'(2) y'(3) n by simp
qed

lemma next_custody_steps:
  assumes "safe_exact S" and "chain_ok c" and "next_custody S op k content seeder since c = Inr c'"
  obtains u reward co t where "idle c (c\<lparr>seeding_stats := u\<rparr>)"
    and "custody_reward S content seeder since (c\<lparr>seeding_stats := u\<rparr>) = Inr reward"
    and "generic_find (contents c) k = Some co" and "asset_id (co_publishing_fee_escrow co) = 0"
    and "generic_find t k = Some (co\<lparr>co_last_proof := put_row (pc_seeder op) (head_block_time c) (co_last_proof co),
         co_publishing_fee_escrow := mk_asset (amount (co_publishing_fee_escrow co) - reward) 0\<rparr>)"
    and "shifts (\<lambda>a. - units (mk_asset reward 0) a) (c\<lparr>seeding_stats := u\<rparr>) (c\<lparr>seeding_stats := u, contents := t\<rparr>)"
    and "adjust_balance S (se_seeder seeder) (mk_asset reward 0) (c\<lparr>seeding_stats := u, contents := t\<rparr>) = Inr c'"
proof -
  from assms(3) obtain c1 reward t
    where 1: "modify_seeding_stats (pc_seeder op) (\<lambda>so. so\<lparr>ss_num_of_pors := u32 (int (ss_num_of_pors so) + 1)\<rparr>) c = Inr c1"
    and r: "custody_reward S content seeder since c1 = Inr reward"
    and t: "t_modify content_key k (\<lambda>co. bindE (asset_sub S (co_publishing_fee_escrow co) (mk_asset reward 0)) (\<lambda>escrow.
              Inr (co\<lparr>co_last_proof := put_row (pc_seeder op) (head_block_time c1) (co_last_proof co),
                      co_publishing_fee_escrow := escrow\<rparr>))) (contents c1) = Inr t"
    and a: "adjust_balance S (se_seeder seeder) (mk_asset reward 0) (c1\<lparr>contents := t\<rparr>) = Inr c'"
    unfolding next_custody_def bindE_eq_Inr by blast
  obtain u where c1: "c1 = c\<lparr>seeding_stats := u\<rparr>" using 1 by (auto simp: modify_seeding_stats_def)
  have i: "idle c c1" by (rule modify_seeding_idle [OF assms(2) 1])
  have "head_block_time c1 = head_block_time c" by (simp add: c1 head_block_time_def)
  then show thesis
    by (rule_tac pay_from_escrow [OF assms(1) idle_ok [OF i] t]) (use that [OF i [unfolded c1] r [unfolded c1]] a in \<open>simp add: c1\<close>)
qed

lemma next_custody_idle:
  assumes "safe_exact S" and "chain_ok c" and "next_custody S op k content seeder since c = Inr c'"
  shows "idle c c'"
proof (rule next_custody_steps [OF assms])
  fix u reward co t
  assume i: "idle c (c\<lparr>seeding_stats := u\<rparr>)"
    and s: "shifts (\<lambda>a. - units (mk_asset reward 0) a) (c\<lparr>seeding_stats := u\<rparr>) (c\<lparr>seeding_stats := u, contents := t\<rparr>)"
    and a: "adjust_balance S (se_seeder seeder) (mk_asset reward 0) (c\<lparr>seeding_stats := u, contents := t\<rparr>) = Inr c'"
  note m = adjust_moves [OF assms(1) shifts_ok [OF s] a]
  have "shifts (nothing ()) (c\<lparr>seeding_stats := u\<rparr>) c'" by (rule shifts_trans [OF s m(1)]) (simp add: nothing_def)
  then have "idle (c\<lparr>seeding_stats := u\<rparr>) c'" using m(2) by (simp add: idle_def)
  with i show ?thesis by (rule idle_trans)
qed

lemma custody_idle:
  "safe_exact S \<Longrightarrow> chain_ok c \<Longrightarrow> proof_of_custody_do_apply S op f u c = Inr c' \<Longrightarrow> idle c c'"
  by (auto simp: proof_of_custody_do_apply_def intro: first_custody_idle next_custody_idle split: option.splits)

section \<open>Payout\<close>

lemma pay_authors_frame:
  assumes "safe_exact S" and "chain_ok c" and "pay_authors S content whole c = Inr c'"
  shows "buyings c' = buyings c"
proof -
  from assms(3) obtain c1 rest where f: "foldE (pay_co_author S whole) (co_authors content) (c, amount whole) = Inr (c1, rest)"
    and e: "(if rest \<noteq> 0 then bindE (require (0 < rest) Assert_Exception) (\<lambda>_.
       adjust_balance S (co_author_of content) (mk_asset rest (asset_id whole)) c1) else Inr c1) = Inr c'"
    by (auto simp: pay_authors_def)
  have "chain_ok (fst (c1, rest)) \<and> buyings (fst (c1, rest)) = buyings c"
  proof (rule foldE_invariant [OF f, where I = "\<lambda>s. chain_ok (fst s) \<and> buyings (fst s) = buyings c"])
    show "chain_ok (fst (c, amount whole)) \<and> buyings (fst (c, amount whole)) = buyings c" using assms(2) by simp
  next
    fix x s s' assume I: "chain_ok (fst s) \<and> buyings (fst s) = buyings c" and st: "pay_co_author S whole x s = Inr s'"
    then obtain d where "adjust_balance S (fst x) d (fst s) = Inr (fst s')"
      by (cases s) (auto simp: pay_co_author_def Let_def)
    from adjust_moves [OF assms(1) _ this] I show "chain_ok (fst s') \<and> buyings (fst s') = buyings c" by (auto dest: shifts_ok)
  qed
  then show ?thesis using e adjust_moves(2) [OF assms(1)] by (auto split: if_splits)
qed

lemma content_payout_law:
  assumes "safe_exact S" and "chain_ok c" and "content_payout S paid content c = Inr c'"
  shows "shifts (units paid) c c' \<and> buyings c' = buyings c"
proof (cases "co_authors content = []")
  case True
  then show ?thesis using assms(3) adjust_moves(1,2) [OF assms(1,2)] by (simp add: content_payout_def)
next
  case False
  then have "pay_authors S content paid c = Inr c'" using assms(3) by (simp add: content_payout_def)
  then show ?thesis using pay_authors_law [OF assms(1,2)] pay_authors_frame [OF assms(1,2)] by (simp add: shifts_def units_def)
qed

lemma count_bought_idle: "chain_ok c \<Longrightarrow> count_bought k c = Inr c' \<Longrightarrow> idle c c'"
  by (auto simp: count_bought_def intro: modify_content_idle)

section \<open>Conversion of the price\<close>

text \<open>What a conversion out of pools yields; it does not depend on what the pools hold.\<close>

definition conversion_of :: "safe \<Rightarrow> chain \<Rightarrow> asset_id_type \<Rightarrow> asset \<Rightarrow> asset res" where
  "conversion_of S c k from =
     bindE (get_asset c k) (\<lambda>ao.
     if k = 0 then Inr from else bindE (uia_conversion S k ao from) (\<lambda>(to, x, y). Inr to))"

lemma convert_conversion:
  "has_pools c k \<Longrightarrow> convert S k from c = Inr (to, c') \<Longrightarrow> conversion_of S c k from = Inr to"
  by (auto simp: convert_def conversion_of_def has_pools_def convert_uia_def get_asset_def split: if_splits)

lemma can_convert_conversion:
  "has_pools c k \<Longrightarrow> can_convert S k from c = Inr (Some to) \<Longrightarrow> conversion_of S c k from = Inr to"
  by (auto simp: can_convert_def conversion_of_def has_pools_def get_asset_def is_monitored_asset_def
      split: if_splits option.splits)

lemma asset_times_price_zero: "asset_times_price a p = Inr b \<Longrightarrow> amount a = 0 \<Longrightarrow> amount b = 0"
  by (auto simp: asset_times_price_def mul_div128_def umul128_def Let_def split: if_splits)

lemma conversion_of_zero: "conversion_of S c k from = Inr to \<Longrightarrow> amount from = 0 \<Longrightarrow> amount to = 0"
  by (auto simp: conversion_of_def uia_conversion_def dest: asset_times_price_zero split: if_splits)

lemma conversion_of_dyn [simp]: "conversion_of S (c\<lparr>asset_dyn := t\<rparr>) = conversion_of S c"
  by (simp add: conversion_of_def get_asset_def fun_eq_iff)

lemma has_pools_dyn [simp]: "has_pools (c\<lparr>asset_dyn := t\<rparr>) = has_pools c"
  by (simp add: has_pools_def fun_eq_iff)

lemma swapped_units: "swapped from to a = units from a - units to a"
  by (simp add: swapped_def units_def)

text \<open>
  What the evaluation of a purchase has established: either nothing has to be converted, or the
  conversion goes through pools and over the core asset to the asset of the price.
\<close>

definition purchase_ok :: "safe \<Rightarrow> request_to_buy_operation \<Rightarrow> purchase \<Rightarrow> chain \<Rightarrow> bool" where
  "purchase_ok S op x c \<longleftrightarrow> asset_id (pu_content_price x) = asset_id (rb_price op) \<or>
     has_pools c (asset_id (pu_content_price x)) \<and>
     (pu_is_subscriber x \<or> has_pools c (asset_id (pu_paid_price x)) \<and>
       (\<exists>d e. conversion_of S c (asset_id (pu_paid_price x)) (pu_paid_price x) = Inr d \<and> asset_id d = 0 \<and>
          conversion_of S c (asset_id (pu_content_price x)) d = Inr e \<and> asset_id e = asset_id (pu_content_price x)))"

text \<open>The price of the content in the buyer's region is in an asset with pools, or in the asset he pays with.\<close>

definition priced_in_pools :: "request_to_buy_operation \<Rightarrow> chain \<Rightarrow> bool" where
  "priced_in_pools op c =
     (case find_content (rb_URI op) c of None \<Rightarrow> True
      | Some (k, content) \<Rightarrow> (case GetPrice (co_price content) (rb_region_code_from op) of None \<Rightarrow> True
         | Some p \<Rightarrow> asset_id p = asset_id (rb_price op) \<or> has_pools c (asset_id p)))"

lemma request_to_buy_evaluated:
  assumes "priced_in_pools op c" and "request_to_buy_do_evaluate S op f c = Inr (f', x)"
  shows "f' = f \<and> purchase_ok S op x c"
proof -
  from assms(2) obtain k content p where k: "find_content (rb_URI op) c = Some (k, content)"
    and p: "GetPrice (co_price content) (rb_region_code_from op) = Some p" and f: "f' = f" "pu_content_price x = p"
    and x: "pu_is_subscriber x \<or> (\<exists>payment priced e. pu_paid_price x = rb_price op \<and>
      generic_find (assets c) (asset_id (rb_price op)) = Some payment \<and> generic_find (assets c) (asset_id p) = Some priced \<and>
      are_assets_exchangeable (asset_id (rb_price op)) payment (asset_id p) priced \<and>
      (asset_id p = asset_id (rb_price op) \<or> check_conversion S (rb_price op) p c = Inr e))"
    by (auto simp: request_to_buy_do_evaluate_def get_asset_def split: if_splits)
  show ?thesis
  proof (cases "asset_id p = asset_id (rb_price op) \<or> pu_is_subscriber x")
    case True
    then show ?thesis using assms(1) k p f by (auto simp: purchase_ok_def priced_in_pools_def)
  next
    case False
    with x obtain payment priced e where m: "pu_paid_price x = rb_price op"
      "generic_find (assets c) (asset_id (rb_price op)) = Some payment"
      "are_assets_exchangeable (asset_id (rb_price op)) payment (asset_id p) priced"
      and e: "check_conversion S (rb_price op) p c = Inr e"
      by blast
    have pools: "has_pools c (asset_id p)" using False assms(1) k p by (simp add: priced_in_pools_def)
    have pools': "has_pools c (asset_id (rb_price op))" using m(2,3) by (auto simp: has_pools_def are_assets_exchangeable_def split: if_splits)
    from e show ?thesis
      using f m(1) pools pools' can_convert_conversion [OF pools] can_convert_conversion [OF pools']
      by (auto simp: purchase_ok_def check_conversion_def)
  qed
qed

lemma conversion_shifts:
  assumes "safe_exact S" and "chain_ok c" and "has_pools c k" and "k = 0 \<or> conversion_sides k from to"
    and run: "convert S k from c = Inr (to, c')"
  shows "shifts (\<lambda>a. units from a - units to a) c c'" and "\<exists>t. c' = c\<lparr>asset_dyn := t\<rparr>"
  using convert_law [OF assms] by (auto simp: shifts_def swapped_units)

lemma paid_amounts_law:
  assumes "safe_exact S" and "chain_ok c" and "purchase_ok S op x c" and "paid_amounts S op x c = Inr (paid, after, c1)"
  shows "shifts (\<lambda>a. units paid a - units after a) c c1 \<and> buyings c1 = buyings c"
proof (cases "asset_id (pu_content_price x) = asset_id (rb_price op)")
  case True
  then show ?thesis using assms(2,4) by (auto simp: paid_amounts_def Let_def shifts_def)
next
  case False
  let ?k = "asset_id (pu_content_price x)"
  from assms(4) False obtain d ca where paid: "paid = (if pu_is_subscriber x then mk_asset 0 0 else pu_paid_price x)"
    and 1: "convert S (asset_id paid) paid c = Inr (d, ca)" and 2: "convert S ?k d ca = Inr (after, c1)"
    by (auto simp: paid_amounts_def Let_def)
  have pools: "has_pools c ?k" "has_pools c (asset_id paid)"
    using assms(3) False 1 by (auto simp: purchase_ok_def paid convert_def has_pools_def get_asset_def split: if_splits option.splits)
  have sides: "(asset_id paid = 0 \<or> conversion_sides (asset_id paid) paid d) \<and> (?k = 0 \<or> conversion_sides ?k d e)"
    if "conversion_of S c ?k d = Inr e" for e
    using assms(3) False convert_conversion [OF pools(2) 1] that conversion_of_zero [OF that]
    by (auto simp: purchase_ok_def paid conversion_of_def conversion_sides_def split: if_splits)
  have "\<exists>t. ca = c\<lparr>asset_dyn := t\<rparr>"
    using 1 by (auto simp: convert_def convert_uia_def modify_dyn_def split: if_splits) (metis chain.surjective chain.update_convs(5))+
  then obtain t where t: "ca = c\<lparr>asset_dyn := t\<rparr>" ..
  have e: "conversion_of S c ?k d = Inr after" using convert_conversion [OF _ 2] pools(1) by (simp add: t)
  note s1 = conversion_shifts [OF assms(1,2) pools(2) conjunct1 [OF sides [OF e]] 1]
  note s2 = conversion_shifts [OF assms(1) shifts_ok [OF s1(1)] _ conjunct2 [OF sides [OF e]] 2]
  have "has_pools ca ?k" using pools(1) by (simp add: t)
  then show ?thesis using shifts_trans [OF s1(1) s2(1)] s2(2) by (auto simp: t)
qed

section \<open>Purchases\<close>

lemma create_buying:
  assumes "chain_ok c" and "t_create buying_key b (buyings c) = Inr t"
  shows "shifts (\<lambda>a. bought_in a b) c (c\<lparr>buyings := t\<rparr>)"
    and "open_buyings_ok c \<Longrightarrow> escrow_covers b \<Longrightarrow> open_buyings_ok (c\<lparr>buyings := t\<rparr>)"
proof -
  have ok: "t_ok (buyings c)" using assms(1) by (simp add: frame)
  show "shifts (\<lambda>a. bought_in a b) c (c\<lparr>buyings := t\<rparr>)"
    using assms(1) t_create_law(1) [OF ok assms(2)] t_sum_create [OF ok assms(2)] by (simp add: shifts_def frame)
  show "open_buyings_ok (c\<lparr>buyings := t\<rparr>)" if "open_buyings_ok c" "escrow_covers b"
    using t_create_all [OF assms(2), of escrow_covers] that by (simp add: open_buyings_ok_def)
qed

lemma request_to_buy_step:
  assumes S: "safe_exact S" and ok: "chain_ok c" "open_buyings_ok c" "purchase_ok S op x c"
    and run: "request_to_buy_do_apply S title op f x c = Inr c'"
  shows "steps (nothing ()) c c'"
proof -
  from run obtain k content paid after c1 t neg c2 c3 c4 d
    where p: "paid_amounts S op x c = Inr (paid, after, c1)"
    and t: "t_create buying_key (new_buying op content paid after c1) (buyings c1) = Inr t"
    and n: "asset_neg S paid = Inr neg" and 2: "adjust_balance S (rb_consumer op) neg (c1\<lparr>buyings := t\<rparr>) = Inr c2"
    and 3: "(if co_key_parts content = [] then bindE (content_payout S after content c2) (count_bought k) else Inr c2) = Inr c3"
    and 4: "foldE expect_key (co_key_parts content) c3 = Inr c4" and 5: "add_detail d c4 = Inr c'"
    unfolding request_to_buy_do_apply_def by (simp only: bindE_eq_Inr split_paired_Ex prod.case) fast
  let ?b = "new_buying op content paid after c1"
  let ?open = "\<lambda>a. if co_key_parts content = [] then 0 else units after a"
  have b: "escrow_covers ?b" "\<And>a. bought_in a ?b = ?open a"
    by (auto simp: new_buying_def Let_def escrow_covers_def bought_in_def units_def)
  note s1 = paid_amounts_law [OF S ok(1,3) p]
  note s2 = create_buying [OF shifts_ok [OF conjunct1 [OF s1]] t]
  note s3 = adjust_moves [OF S shifts_ok [OF s2(1)] 2]
  have o2: "open_buyings_ok c2" using s2(2) b(1) ok(2) s1 s3(2) by (simp add: open_buyings_ok_def)
  have "shifts (\<lambda>a. ?open a - units after a) c c2"
    by (rule shifts_trans [OF conjunct1 [OF s1] shifts_trans [OF s2(1) s3(1)]])
      (use b(2) asset_neg_exact [OF S n] in \<open>auto simp: units_def\<close>)
  moreover have "shifts (\<lambda>a. units after a - ?open a) c2 c3 \<and> buyings c3 = buyings c2"
  proof (cases "co_key_parts content = []")
    case True
    then obtain ca where a: "content_payout S after content c2 = Inr ca" and c: "count_bought k ca = Inr c3" using 3 by auto
    note l = content_payout_law [OF S shifts_ok [OF s3(1)] a]
    note i = count_bought_idle [OF shifts_ok [OF conjunct1 [OF l]] c]
    show ?thesis using True l i by (auto simp: idle_def intro: shifts_keep)
  next
    case False
    then show ?thesis using 3 shifts_ok [OF s3(1)] by (simp add: shifts_def)
  qed
  ultimately have s: "shifts (nothing ()) c c3" "buyings c3 = buyings c2"
    using shifts_trans [of "\<lambda>a. ?open a - units after a" c c2 "\<lambda>a. units after a - ?open a" c3] by (simp_all add: nothing_def)
  have i: "idle c3 c4"
    by (rule foldE_idle [OF 4 shifts_ok [OF s(1)]]) (auto simp: expect_key_def intro: modify_seeding_idle)
  have j: "idle c3 c'" by (rule idle_trans [OF i add_detail_idle [OF idle_ok [OF i] 5]])
  then show ?thesis using s o2 by (auto simp: steps_def idle_def open_buyings_ok_def intro: shifts_keep)
qed

lemma steps_trans: "steps (nothing ()) c c1 \<Longrightarrow> steps (nothing ()) c1 c2 \<Longrightarrow> steps (nothing ()) c c2"
  by (auto simp: steps_def intro: shifts_keep)

lemma idle_steps: "idle c c' \<Longrightarrow> open_buyings_ok c \<Longrightarrow> steps (nothing ()) c c'"
  by (simp add: idle_def steps_def open_buyings_ok_def)

lemma steps_ok: "steps d c c' \<Longrightarrow> chain_ok c' \<and> open_buyings_ok c'"
  by (auto simp: steps_def dest: shifts_ok)

text \<open>A change of a purchase that touches neither its money nor its state.\<close>

lemma modify_buying_step:
  assumes "chain_ok c" and "open_buyings_ok c" and "modify_buying k f c = Inr c'"
    and "\<And>b. bo_price (f b) = bo_price b \<and> bo_paid_price_after_exchange (f b) = bo_paid_price_after_exchange b \<and>
      bo_delivered (f b) = bo_delivered b \<and> bo_expired (f b) = bo_expired b"
  shows "steps (nothing ()) c c'"
proof (rule modify_buying_law [OF assms(1,3)])
  fix x assume s: "shifts (\<lambda>a. bought_in a (f x) - bought_in a x) c c'"
    and o: "open_buyings_ok c \<Longrightarrow> (escrow_covers x \<Longrightarrow> escrow_covers (f x)) \<Longrightarrow> open_buyings_ok c'"
  have "(\<lambda>a. bought_in a (f x) - bought_in a x) = nothing ()" by (simp add: fun_eq_iff nothing_def bought_in_def assms(4))
  then show ?thesis using s o assms(2,4) by (simp add: steps_def escrow_covers_def)
qed

lemma buying_expire_step:
  assumes "safe_exact S" and "chain_ok c" and "open_buyings_ok c" and "buying_expire S k c = Inr c'"
  shows "steps (nothing ()) c c'"
proof -
  from assms(4) obtain b :: buying_object and c1 t where c1: "adjust_balance S (bo_consumer b) (bo_price b) c = Inr c1"
    and t: "t_modify buying_key k (\<lambda>bo. Inr (bo\<lparr>bo_price := (bo_price bo)\<lparr>amount := 0\<rparr>, bo_expired := True,
              bo_expiration_or_delivery_time := head_block_time c1\<rparr>)) (buyings c1) = Inr t"
    and c': "c' = c1\<lparr>buyings := t\<rparr>"
    by (auto simp: buying_expire_def)
  have "list_all (\<lambda>p. escrow_covers (snd p)) (g_rows t)"
    by (rule t_modify_all [OF t]) (use assms(3) adjust_moves(2) [OF assms(1,2) c1] in \<open>auto simp: open_buyings_ok_def escrow_covers_def\<close>)
  then show ?thesis using money_kept_shifts [OF buying_expire_kept [OF assms(1,2,4)]] by (simp add: steps_def open_buyings_ok_def c')
qed

section \<open>Deliveries and ratings\<close>

lemma note_key_step:
  assumes "chain_ok c" and "open_buyings_ok c" and "note_key op buying c = Inr c'"
  shows "steps (nothing ()) c c'"
proof (cases "dk_seeder op \<in> set (bo_seeders_answered buying)")
  case True
  then show ?thesis using assms by (simp add: note_key_def idle_steps idle_refl)
next
  case False
  with assms(3) obtain f c1 g where 1: "modify_buying (dk_buying op) f c = Inr c1"
    and f: "\<And>b. bo_price (f b) = bo_price b \<and> bo_paid_price_after_exchange (f b) = bo_paid_price_after_exchange b \<and>
      bo_delivered (f b) = bo_delivered b \<and> bo_expired (f b) = bo_expired b"
    and 2: "modify_seeding_stats (dk_seeder op) g c1 = Inr c'"
    by (auto simp: note_key_def)
  note s = modify_buying_step [OF assms(1,2) 1 f]
  note i = modify_seeding_idle [OF conjunct1 [OF steps_ok [OF s]] 2]
  show ?thesis using steps_trans [OF s idle_steps [OF i]] steps_ok [OF s] by blast
qed

text \<open>The last key: the authors are paid and the escrow is emptied.\<close>

lemma delivery_step:
  assumes S: "safe_exact S" and ok: "chain_ok c" "open_buyings_ok c" and b: "generic_find (buyings c) j = Some b"
    and open': "\<not> bo_delivered b" "\<not> bo_expired b" and 1: "count_bought k c = Inr c1"
    and 2: "content_payout S (bo_paid_price_after_exchange b) content c1 = Inr c2"
    and 3: "modify_buying j (\<lambda>bo. bo\<lparr>bo_price := (bo_price bo)\<lparr>amount := 0\<rparr>, bo_delivered := True,
         bo_expiration_or_delivery_time := now\<rparr>) c2 = Inr c'"
  shows "steps (nothing ()) c c'"
proof -
  have price: "bo_price b = bo_paid_price_after_exchange b"
    using open_buyings_find [OF ok(2) b] open' by (simp add: escrow_covers_def)
  note i = count_bought_idle [OF ok(1) 1]
  note l = content_payout_law [OF S idle_ok [OF i] 2]
  have same: "buyings c2 = buyings c" using i l by (simp add: idle_def)
  have s: "shifts (units (bo_price b)) c c2"
    using i l price by (auto simp: idle_def nothing_def intro: shifts_trans)
  show ?thesis
  proof (rule modify_buying_law [OF shifts_ok [OF s] 3])
    fix x
    let ?f = "\<lambda>bo. bo\<lparr>bo_price := (bo_price bo)\<lparr>amount := 0\<rparr>, bo_delivered := True, bo_expiration_or_delivery_time := now\<rparr>"
    assume x: "generic_find (buyings c2) j = Some x" and d: "shifts (\<lambda>a. bought_in a (?f x) - bought_in a x) c2 c'"
      and o: "open_buyings_ok c2 \<Longrightarrow> (escrow_covers x \<Longrightarrow> escrow_covers (?f x)) \<Longrightarrow> open_buyings_ok c'"
    have "x = b" using x b same by simp
    then have "shifts (nothing ()) c c'"
      by (intro shifts_trans [OF s d]) (simp add: nothing_def units_def bought_in_def)
    then show ?thesis using o ok(2) same by (simp add: steps_def escrow_covers_def open_buyings_ok_def)
  qed
qed

lemma deliver_keys_step:
  assumes S: "safe_exact S" and ok: "chain_ok c" "open_buyings_ok c" and run: "deliver_keys_do_apply S op f u c = Inr c'"
  shows "steps (nothing ()) c c'"
proof -
  from run obtain old k content c1 b where 1: "note_key op old c = Inr c1" and b: "generic_find (buyings c1) (dk_buying op) = Some b"
    and 2: "(if bo_delivered b \<or> bo_expired b then Inr c1
     else if co_quorum content \<le> length (bo_seeders_answered b) then
       bindE (count_bought k c1) (\<lambda>c2.
       bindE (content_payout S (bo_paid_price_after_exchange b) content c2) (\<lambda>c3.
       modify_buying (dk_buying op) (\<lambda>bo. bo\<lparr>bo_price := (bo_price bo)\<lparr>amount := 0\<rparr>, bo_delivered := True,
         bo_expiration_or_delivery_time := head_block_time c3\<rparr>) c3))
     else if bo_expiration_time old < head_block_time c then buying_expire S (dk_buying op) c1
     else Inr c1) = Inr c'"
    unfolding deliver_keys_do_apply_def by (simp only: bindE_eq_Inr split_paired_Ex prod.case t_get_eq_Inr) fast
  note s = note_key_step [OF ok 1]
  have ok1: "chain_ok c1" "open_buyings_ok c1" using steps_ok [OF s] by simp_all
  have "steps (nothing ()) c1 c'"
    using 2 delivery_step [OF S ok1 b] buying_expire_step [OF S ok1] idle_steps [OF idle_refl [OF ok1(1)] ok1(2)]
    by (auto split: if_splits)
  with s show ?thesis by (rule steps_trans)
qed

lemma leave_rating_step:
  assumes ok: "chain_ok c" "open_buyings_ok c" and run: "leave_rating_do_apply title op f u c = Inr c'"
  shows "steps (nothing ()) c c'"
proof -
  from run obtain j g c1 k h c2 d where 1: "modify_buying j g c = Inr c1"
    and g: "\<And>b. bo_price (g b) = bo_price b \<and> bo_paid_price_after_exchange (g b) = bo_paid_price_after_exchange b \<and>
      bo_delivered (g b) = bo_delivered b \<and> bo_expired (g b) = bo_expired b"
    and 2: "modify_content k h c1 = Inr c2" and h: "\<And>x. co_publishing_fee_escrow (h x) = co_publishing_fee_escrow x"
    and 3: "add_detail d c2 = Inr c'"
    by (auto simp: leave_rating_do_apply_def)
  note s = modify_buying_step [OF ok 1 g]
  note i = modify_content_idle [OF conjunct1 [OF steps_ok [OF s]] 2 h]
  note i' = idle_trans [OF i add_detail_idle [OF idle_ok [OF i] 3]]
  show ?thesis using steps_trans [OF s idle_steps [OF i']] steps_ok [OF s] by blast
qed

section \<open>The contract of the content evaluators\<close>

text \<open>
  An evaluator that relies on the invariant of the purchases and keeps it. \<open>hyp\<close> is what the
  operation needs of the chain, \<open>pre\<close> what its evaluation has established.
\<close>

locale content_contract = safe_arith S for S :: safe +
  fixes do_evaluate :: "fee_state \<Rightarrow> chain \<Rightarrow> (fee_state \<times> 'x) res"
    and do_apply :: "fee_state \<Rightarrow> 'x \<Rightarrow> chain \<Rightarrow> chain res"
    and hyp :: "chain \<Rightarrow> bool"
    and pre :: "'x \<Rightarrow> chain \<Rightarrow> bool"
  assumes evaluated: "hyp c \<Longrightarrow> do_evaluate f c = Inr (f', x) \<Longrightarrow> f' = f \<and> pre x c"
    and pre_dyn: "pre x c \<Longrightarrow> pre x (c\<lparr>asset_dyn := t\<rparr>)"
    and applied: "chain_ok c \<Longrightarrow> open_buyings_ok c \<Longrightarrow> pre x c \<Longrightarrow> do_apply f x c = Inr c' \<Longrightarrow> steps (nothing ()) c c'"
begin

lemma run_content:
  assumes "chain_ok c" and "open_buyings_ok c" and "hyp c" and "\<not> skip_fee st"
    and "start_evaluate S st r payer fee do_evaluate do_apply c = Inr c'"
  shows "steps (nothing ()) c c'"
proof -
  from assms(5) obtain f x where ev: "evaluate st r payer fee do_evaluate c = Inr (f, x)"
    and ap: "apply_op S st payer f (do_apply f x) c = Inr c'"
    by (auto simp: start_evaluate_def)
  from ev obtain f0 where f0: "prepare_fee c payer fee = Inr f0" and de: "do_evaluate f0 c = Inr (f, x)"
    by (auto simp: evaluate_def split: if_splits)
  have ff: "f = f0" and p: "pre x c" using evaluated [OF assms(3) de] by simp_all
  have fee: "fee_from_account f = fee"
    using f0 ff by (auto simp: prepare_fee_def split: if_splits)
  from ap obtain c1 c2 c3 d where 1: "convert_fee S st f c = Inr c1" and 2: "pay_fee S st f c1 = Inr c2"
    and 3: "do_apply f x c2 = Inr c3" and d: "asset_neg S fee = Inr d" and 4: "adjust_balance S payer d c3 = Inr c'"
    by (auto simp: apply_op_def fee)
  note m = fee_moves [OF exact assms(1,4) f0 [folded ff] 1 2]
  obtain t where c2: "c2 = c\<lparr>asset_dyn := t\<rparr>" using m(4) by blast
  have s2: "shifts (units fee) c c2" using m(1-3) by (simp add: shifts_def units_def)
  have "open_buyings_ok c2" "pre x c2" using assms(2) pre_dyn [OF p] by (simp_all add: c2 open_buyings_ok_def)
  from applied [OF m(1) this 3] have s3: "shifts (nothing ()) c2 c3" "open_buyings_ok c3" by (simp_all add: steps_def)
  note a = adjust_moves [OF exact shifts_ok [OF s3(1)] 4]
  have "shifts (nothing ()) c c'"
    by (rule shifts_trans [OF shifts_keep [OF s2 s3(1)] a(1)]) (use asset_neg_exact [OF exact d] in \<open>auto simp: units_def nothing_def\<close>)
  then show ?thesis using s3(2) a(2) by (simp add: steps_def open_buyings_ok_def)
qed

end

lemma idle_contract:
  assumes "safe_exact S" and "\<And>c f f' x. de f c = Inr (f', x) \<Longrightarrow> f' = f"
    and "\<And>c x f c'. chain_ok c \<Longrightarrow> da f x c = Inr c' \<Longrightarrow> idle c c'"
  shows "content_contract S de da (no_pre ()) no_pre"
  by unfold_locales (use assms in \<open>auto simp: no_pre_def intro: idle_steps\<close>)

lemma step_contract:
  assumes "safe_exact S" and "\<And>c f f' x. de f c = Inr (f', x) \<Longrightarrow> f' = f"
    and "\<And>c x f c'. chain_ok c \<Longrightarrow> open_buyings_ok c \<Longrightarrow> da f x c = Inr c' \<Longrightarrow> steps (nothing ()) c c'"
  shows "content_contract S de da (no_pre ()) no_pre"
  by unfold_locales (use assms in \<open>auto simp: no_pre_def\<close>)

sublocale safe_arith \<subseteq> set_manager: content_contract S "set_publishing_manager_do_evaluate op" "set_publishing_manager_do_apply op"
    "no_pre ()" no_pre for op
  by (rule idle_contract [OF exact])
    (auto simp: set_publishing_manager_do_evaluate_def set_publishing_manager_do_apply_def intro: set_managers_idle)

sublocale safe_arith \<subseteq> set_right: content_contract S "set_publishing_right_do_evaluate op" "set_publishing_right_do_apply op"
    "no_pre ()" no_pre for op
  by (rule idle_contract [OF exact])
    (auto simp: set_publishing_right_do_evaluate_def set_publishing_right_do_apply_def intro: foldE_idle set_right_idle)

sublocale safe_arith \<subseteq> submit: content_contract S "content_submit_do_evaluate S ft op" "content_submit_do_apply S title op"
    "no_pre ()" no_pre for ft title op
  by (rule idle_contract [OF exact])
    (auto simp: content_submit_do_evaluate_def intro: content_submit_idle [OF exact] split: option.splits)

sublocale safe_arith \<subseteq> cancel: content_contract S "content_cancellation_do_evaluate op" "content_cancellation_do_apply op"
    "no_pre ()" no_pre for op
  by (rule idle_contract [OF exact]) (auto simp: content_cancellation_do_evaluate_def intro: cancellation_idle)

sublocale safe_arith \<subseteq> buy: content_contract S "request_to_buy_do_evaluate S op" "request_to_buy_do_apply S title op"
    "priced_in_pools op" "purchase_ok S op" for title op
  by unfold_locales (use request_to_buy_evaluated request_to_buy_step [OF exact] in \<open>auto simp: purchase_ok_def\<close>)

sublocale safe_arith \<subseteq> deliver: content_contract S "deliver_keys_do_evaluate proved skip op" "deliver_keys_do_apply S op"
    "no_pre ()" no_pre for proved skip op
  by (rule step_contract [OF exact]) (auto simp: deliver_keys_do_evaluate_def intro: deliver_keys_step [OF exact])

sublocale safe_arith \<subseteq> rate: content_contract S "leave_rating_do_evaluate op" "leave_rating_do_apply title op"
    "no_pre ()" no_pre for title op
  by (rule step_contract [OF exact]) (auto simp: leave_rating_do_evaluate_def intro: leave_rating_step)

sublocale safe_arith \<subseteq> publish_obsolete: content_contract S "ready_to_publish_obsolete_do_evaluate op"
    "ready_to_publish_obsolete_do_apply op" "no_pre ()" no_pre for op
  by (rule idle_contract [OF exact])
    (auto simp: ready_to_publish_obsolete_do_evaluate_def ready_to_publish_obsolete_do_apply_def intro: publish_seeder_idle)

sublocale safe_arith \<subseteq> publish: content_contract S "ready_to_publish_do_evaluate ft op" "ready_to_publish_do_apply op"
    "no_pre ()" no_pre for ft op
  by (rule idle_contract [OF exact])
    (auto simp: ready_to_publish_do_evaluate_def ready_to_publish_do_apply_def intro: publish_seeder_idle)

sublocale safe_arith \<subseteq> custody: content_contract S "proof_of_custody_do_evaluate block_id_for verify skip op"
    "proof_of_custody_do_apply S op" "no_pre ()" no_pre for block_id_for verify skip op
  by (rule idle_contract [OF exact]) (auto simp: proof_of_custody_do_evaluate_def intro: custody_idle [OF exact])

sublocale safe_arith \<subseteq> report: content_contract S "report_stats_do_evaluate op" "report_stats_do_apply op"
    "no_pre ()" no_pre for op
  by (rule idle_contract [OF exact]) (auto simp: report_stats_do_evaluate_def intro: report_stats_idle)

section \<open>Content operations\<close>

text \<open>Which evaluator an operation goes to, and who pays its fee.\<close>

datatype content_operation =
    Set_Manager set_publishing_manager_operation
  | Set_Right set_publishing_right_operation
  | Submit content_submit_operation
  | Cancel content_cancellation_operation
  | Buy request_to_buy_operation
  | Deliver deliver_keys_operation
  | Rate leave_rating_and_comment_operation
  | Publish_Obsolete ready_to_publish_operation
  | Publish ready_to_publish_operation
  | Custody proof_of_custody_operation
  | Report report_stats_operation

text \<open>The code outside the repository, the skip flags, the forks and the fee schedule.\<close>

record content_env =
  e_forks :: fork_times_t
  e_title :: "string \<Rightarrow> string res"
  e_proved :: "opaque \<Rightarrow> opaque \<Rightarrow> opaque \<Rightarrow> opaque \<Rightarrow> opaque \<Rightarrow> bool"
  e_verify :: "opaque \<Rightarrow> custody_proof \<Rightarrow> bool"
  e_block_id_for :: "nat \<Rightarrow> opaque res"
  e_skip_undo_history_check :: bool
  e_skip_validate :: bool
  e_fee :: "content_operation \<Rightarrow> int res"

definition apply_content_operation ::
  "safe \<Rightarrow> trx_state \<Rightarrow> content_env \<Rightarrow> content_operation \<Rightarrow> chain \<Rightarrow> chain res" where
  "apply_content_operation S st e op' c =
     (case op' of
        Set_Manager op \<Rightarrow> start_evaluate S st (e_fee e op') (spm_from op) (spm_fee op)
          (set_publishing_manager_do_evaluate op) (set_publishing_manager_do_apply op) c
      | Set_Right op \<Rightarrow> start_evaluate S st (e_fee e op') (spr_from op) (spr_fee op)
          (set_publishing_right_do_evaluate op) (set_publishing_right_do_apply op) c
      | Submit op \<Rightarrow> start_evaluate S st (e_fee e op') (cs_author op) (cs_fee op)
          (content_submit_do_evaluate S (e_forks e) op) (content_submit_do_apply S (e_title e) op) c
      | Cancel op \<Rightarrow> start_evaluate S st (e_fee e op') (cc_author op) (cc_fee op)
          (content_cancellation_do_evaluate op) (content_cancellation_do_apply op) c
      | Buy op \<Rightarrow> start_evaluate S st (e_fee e op') (rb_consumer op) (rb_fee op)
          (request_to_buy_do_evaluate S op) (request_to_buy_do_apply S (e_title e) op) c
      | Deliver op \<Rightarrow> start_evaluate S st (e_fee e op') (dk_seeder op) (dk_fee op)
          (deliver_keys_do_evaluate (e_proved e) (e_skip_undo_history_check e) op) (deliver_keys_do_apply S op) c
      | Rate op \<Rightarrow> start_evaluate S st (e_fee e op') (lr_consumer op) (lr_fee op)
          (leave_rating_do_evaluate op) (leave_rating_do_apply (e_title e) op) c
      | Publish_Obsolete op \<Rightarrow> start_evaluate S st (e_fee e op') (rp_seeder op) (rp_fee op)
          (ready_to_publish_obsolete_do_evaluate op) (ready_to_publish_obsolete_do_apply op) c
      | Publish op \<Rightarrow> start_evaluate S st (e_fee e op') (rp_seeder op) (rp_fee op)
          (ready_to_publish_do_evaluate (e_forks e) op) (ready_to_publish_do_apply op) c
      | Custody op \<Rightarrow> start_evaluate S st (e_fee e op') (pc_seeder op) (pc_fee op)
          (proof_of_custody_do_evaluate (e_block_id_for e) (e_verify e) (e_skip_validate e) op) (proof_of_custody_do_apply S op) c
      | Report op \<Rightarrow> start_evaluate S st (e_fee e op') (rs_consumer op) (rs_fee op)
          (report_stats_do_evaluate op) (report_stats_do_apply op) c)"

definition uses_pools :: "content_operation \<Rightarrow> chain \<Rightarrow> bool" where
  "uses_pools op' c = (case op' of Buy op \<Rightarrow> priced_in_pools op c | _ \<Rightarrow> True)"

context safe_arith
begin

lemma content_operation_step:
  assumes "chain_ok c" and "open_buyings_ok c" and "uses_pools op' c" and "\<not> skip_fee st"
    and "apply_content_operation S st e op' c = Inr c'"
  shows "steps (nothing ()) c c'"
proof -
  have no: "no_pre () c" by (simp add: no_pre_def)
  note runs = set_manager.run_content [OF assms(1,2) no assms(4)] set_right.run_content [OF assms(1,2) no assms(4)]
    submit.run_content [OF assms(1,2) no assms(4)] cancel.run_content [OF assms(1,2) no assms(4)]
    buy.run_content [OF assms(1,2) _ assms(4)]
    deliver.run_content [OF assms(1,2) no assms(4)] rate.run_content [OF assms(1,2) no assms(4)]
    publish_obsolete.run_content [OF assms(1,2) no assms(4)] publish.run_content [OF assms(1,2) no assms(4)]
    custody.run_content [OF assms(1,2) no assms(4)] report.run_content [OF assms(1,2) no assms(4)]
  show ?thesis
    using assms(3,5) by (cases op') (auto simp: apply_content_operation_def uses_pools_def intro: runs)
qed

end

section \<open>Housekeeping leaves open purchases covered\<close>

lemma adjust_balance_buyings: "adjust_balance S x d c = Inr c' \<Longrightarrow> buyings c' = buyings c"
  by (auto simp: adjust_balance_def split: if_splits option.splits)

lemma add_detail_buyings: "add_detail d c = Inr c' \<Longrightarrow> buyings c' = buyings c"
  by (auto simp: add_detail_def)

lemma renew_subscription_buyings:
  "renew_subscription S k period p c = Inr c' \<Longrightarrow> buyings c' = buyings c"
  "renew_subscription S k period p c = Inl (e, c') \<Longrightarrow> buyings c' = buyings c"
  by (auto simp: renew_subscription_def dest!: adjust_balance_buyings add_detail_buyings
      split: sum.split_asm prod.split_asm)

lemma disallow_buyings: "disallow_automatic_renewal k c = Inr c' \<Longrightarrow> buyings c' = buyings c"
  by (auto simp: disallow_automatic_renewal_def)

lemma try_renewal_buyings:
  assumes run: "try_renewal S k so c = Inr (b, c')"
  shows "buyings c' = buyings c"
proof -
  from run obtain author where au: "generic_find (accounts c) (sub_to so) = Some author"
    by (auto simp: try_renewal_def)
  show ?thesis
  proof (cases "bindE (renewal_price c (price_per_subscribe (acc_options author))) (\<lambda>dct_price.
          bindE (asset_le dct_price (get_balance c (sub_from so) (asset_id dct_price))) (\<lambda>enough. Inr (dct_price, enough)))")
    case (Inl e)
    then show ?thesis using run au by (auto simp: try_renewal_def dest: disallow_buyings split: if_splits)
  next
    case (Inr r)
    then show ?thesis using run au
      by (cases r) (auto simp: try_renewal_def dest!: disallow_buyings renew_subscription_buyings split: if_splits sum.splits)
  qed
qed

lemma renewal_loop_buyings: "renewal_loop S n rows c = Inr c' \<Longrightarrow> buyings c' = buyings c"
proof (induction rows arbitrary: c)
  case (Cons row rows)
  obtain k so where row: "row = (k, so)" by (cases row)
  show ?case
  proof (cases "sub_expiration so \<le> n")
    case True
    with Cons.prems obtain b c1 where t: "try_renewal S k so c = Inr (b, c1)"
      and rest: "(if b then renewal_loop S n rows c1 else Inr c1) = Inr c'" by (auto simp: row)
    show ?thesis using rest Cons.IH [of c1] try_renewal_buyings [OF t] by (cases b) simp_all
  next
    case False
    then show ?thesis using Cons by (simp add: row)
  qed
qed simp

lemma foldE_open:
  assumes "foldE f xs c = Inr c'" and "open_buyings_ok c" and "chain_ok c"
    and "\<And>x c c'. chain_ok c \<Longrightarrow> open_buyings_ok c \<Longrightarrow> f x c = Inr c' \<Longrightarrow> open_buyings_ok c' \<and> chain_ok c'"
  shows "open_buyings_ok c' \<and> chain_ok c'"
  by (rule foldE_invariant [OF assms(1), where I = "\<lambda>c. open_buyings_ok c \<and> chain_ok c"]) (use assms(2-4) in blast)+

lemma modify_seeding_buyings: "modify_seeding_stats x f c = Inr c' \<Longrightarrow> buyings c' = buyings c"
  by (auto simp: modify_seeding_stats_def)

lemma content_expire_buyings:
  assumes "content_expire S k c = Inr c'"
  shows "buyings c' = buyings c"
proof -
  from assms obtain x :: content_object and p d c1 t where 1: "adjust_balance S p d c = Inr c1"
    and 2: "foldE (release_seeder x) (co_key_parts x) (c1\<lparr>contents := t\<rparr>) = Inr c'"
    by (auto simp: content_expire_def Let_def)
  show ?thesis
    by (rule foldE_invariant [OF 2, where I = "\<lambda>d. buyings d = buyings c"])
      (use adjust_balance_buyings [OF 1] in \<open>auto simp: release_seeder_def simp del: not_None_eq dest: modify_seeding_buyings\<close>)
qed

lemma housekeeping_step:
  assumes "safe_exact S" and "safe_no_assert S" and "chain_ok c" and "subscription_prices_ok c" and "open_buyings_ok c"
    and run: "decent_housekeeping S c = Inr c'"
  shows "steps (nothing ()) c c'"
proof -
  from run obtain c1 c2 c3 where 1: "set_and_reset_seeding_stats c = Inr c1" and 2: "expire_contents S c1 = Inr c2"
    and 3: "expire_buyings S c2 = Inr c3" and 4: "renew_subscriptions S c3 = Inr c'"
    by (auto simp: decent_housekeeping_def)
  have "buyings c1 = buyings c"
    by (rule foldE_invariant [OF 1 [unfolded set_and_reset_seeding_stats_def], where I = "\<lambda>d. buyings d = buyings c"])
      (auto simp: rate_seeder_def Let_def)
  moreover have "buyings c2 = buyings c1"
    by (rule foldE_invariant [OF 2 [unfolded expire_contents_def], where I = "\<lambda>d. buyings d = buyings c1"])
      (auto dest: content_expire_buyings)
  ultimately have o2: "open_buyings_ok c2" using assms(5) by (simp add: open_buyings_ok_def)
  have k1: "money_kept c c1"
    using 1 rate_seeder_kept unfolding set_and_reset_seeding_stats_def by (rule foldE_money_kept [OF _ assms(3)])
  have k2: "money_kept c1 c2"
    using 2 content_expire_kept [OF assms(1)] unfolding expire_contents_def by (rule foldE_money_kept [OF _ money_keptD [OF k1]])
  have o3: "open_buyings_ok c3 \<and> chain_ok c3"
    by (rule foldE_open [OF 3 [unfolded expire_buyings_def] o2 money_keptD [OF k2]])
      (auto dest: steps_ok buying_expire_step [OF assms(1)] split: if_splits)
  have "buyings c' = buyings c3" using 4 by (auto simp: renew_subscriptions_def dest: renewal_loop_buyings)
  with o3 have "open_buyings_ok c'" by (simp add: open_buyings_ok_def)
  then show ?thesis using money_kept_shifts [OF housekeeping_kept [OF assms(1-4) run]] by (simp add: steps_def)
qed

end
