(* ===== verification/Content_Run.thy ===== *)
theory Content_Run
  imports Content_Correct
begin

text \<open>
  The life of content on the chain as a step relation, from submission over purchases and proofs to
  expiry, and the two properties of it: no asset is made or lost, and seeders are paid within the
  escrow.
\<close>

section \<open>Runs\<close>

text \<open>
  What happens to a chain: operations on content are applied, the maintenance does its housekeeping,
  blocks advance the dynamic properties. The second guard is what the validation of accounts ensures.
\<close>

inductive content_run :: "safe \<Rightarrow> trx_state \<Rightarrow> content_env \<Rightarrow> chain \<Rightarrow> chain \<Rightarrow> bool" for S st e c where
  run_start: "content_run S st e c c"
| run_operation: "content_run S st e c d \<Longrightarrow> uses_pools op' d \<Longrightarrow> apply_content_operation S st e op' d = Inr d' \<Longrightarrow>
    content_run S st e c d'"
| run_housekeeping: "content_run S st e c d \<Longrightarrow> subscription_prices_ok d \<Longrightarrow> decent_housekeeping S d = Inr d' \<Longrightarrow>
    content_run S st e c d'"
| run_block: "content_run S st e c d \<Longrightarrow> content_run S st e c (d\<lparr>dgpo := g\<rparr>)"

lemma block_step: "chain_ok c \<Longrightarrow> open_buyings_ok c \<Longrightarrow> steps (nothing ()) c (c\<lparr>dgpo := g\<rparr>)"
  by (simp add: steps_def shifts_def nothing_def open_buyings_ok_def frame)

lemma content_run_steps:
  assumes "safe_exact S" and "safe_no_assert S" and "\<not> skip_fee st" and "chain_ok c" and "open_buyings_ok c"
    and "content_run S st e c c'"
  shows "steps (nothing ()) c c'"
  using assms(6)
proof induction
  case run_start
  then show ?case using assms(4,5) by (simp add: idle_steps idle_refl)
next
  case (run_operation d op' d')
  have "safe_arith S" using assms(1) by unfold_locales
  then show ?case
    using run_operation steps_ok [OF run_operation.IH] safe_arith.content_operation_step [of S d op' st e d'] assms(3)
    by (blast intro: steps_trans)
next
  case (run_housekeeping d d')
  then show ?case using steps_ok [OF run_housekeeping.IH] housekeeping_step [OF assms(1,2)] by (blast intro: steps_trans)
next
  case (run_block d g)
  then show ?case using steps_ok [OF run_block.IH] block_step by (blast intro: steps_trans)
qed

section \<open>The reward of a proof\<close>

lemma reward_ratio_le:
  assumes "since \<le> now"
  shows "reward_ratio now since \<le> 10000"
proof -
  define diff where "diff = min (int now - int since) 86400"
  define ratio where "ratio = 10000 * diff div 86400"
  have d: "0 \<le> diff" "diff \<le> 86400" using assms by (auto simp: diff_def)
  have "c_div (10000 * diff) 86400 = ratio" using d by (auto simp: c_div_def ratio_def sgn_if)
  moreover have r: "0 \<le> ratio" "ratio \<le> 10000" using d by (auto simp: ratio_def pos_imp_zdiv_nonneg_iff)
  ultimately have u: "int (u64 (c_div (10000 * diff) 86400)) = ratio" by (simp add: u64_def)
  define loss where "loss = u64 (10000 - ratio) div 4"
  have "int (u64 (10000 - ratio)) = 10000 - ratio" using r by (simp add: u64_def)
  then have l: "int loss = (10000 - ratio) div 4" by (simp add: loss_def zdiv_int)
  have l': "0 \<le> 10000 - int loss" "10000 - int loss \<le> 10000" using r by (auto simp: l)
  have m: "0 \<le> ratio * (10000 - int loss)" "ratio * (10000 - int loss) \<le> 10000 * 10000"
    using mult_mono [OF r(2) l'(2)] r(1) l'(1) by simp_all
  then have "int (u64 (ratio * (10000 - int loss))) = ratio * (10000 - int loss)" by (simp add: u64_def)
  then have "reward_ratio now since = u64 (ratio * (10000 - int loss) div 10000)"
    by (simp add: reward_ratio_def Let_def diff_def [symmetric] u loss_def)
  moreover have "ratio * (10000 - int loss) div 10000 \<le> 10000" "0 \<le> ratio * (10000 - int loss) div 10000" using m by auto
  ultimately show ?thesis by (simp add: u64_def)
qed

lemma custody_reward_bounds:
  assumes "safe_exact S" and "404727 < int (head_block_num c)" and "since \<le> head_block_time c"
    and "map_of (co_seeder_price content) (se_seeder seeder) = Some p" and "0 \<le> p"
    and "0 \<le> amount (co_publishing_fee_escrow content)" and "custody_reward S content seeder since c = Inr n"
  shows "0 \<le> n \<and> n \<le> p * int (co_size content) \<and> n \<le> amount (co_publishing_fee_escrow content)"
proof -
  let ?r = "int (reward_ratio (head_block_time c) since)"
  let ?y = "p * ?r * int (co_size content)"
  from assms(2,4,7) obtain x y reward where x: "S (p * ?r) = Inr x" and y: "S (x * int (co_size content)) = Inr y"
    and r: "S (c_div y 10000) = Inr reward"
    and n: "n = (if amount (co_publishing_fee_escrow content) < reward
              then max 0 (amount (co_publishing_fee_escrow content)) else reward)"
    by (auto simp: custody_reward_def Let_def)
  have y': "y = ?y" using safe_exactD [OF assms(1) x] safe_exactD [OF assms(1) y] by simp
  have "0 \<le> ?y" using assms(5) by simp
  then have rew: "reward = ?y div 10000" using safe_exactD [OF assms(1) r] y' by (simp add: c_div_def sgn_if)
  have "?y \<le> p * 10000 * int (co_size content)"
    using reward_ratio_le [OF assms(3)] assms(5) by (intro mult_right_mono mult_left_mono) auto
  then have "?y div 10000 \<le> p * int (co_size content) * 10000 div 10000" by (intro zdiv_mono1) (simp_all add: ac_simps)
  then have "reward \<le> p * int (co_size content)" "0 \<le> reward" using rew \<open>0 \<le> ?y\<close> by simp_all
  then show ?thesis using n assms(6) by auto
qed

section \<open>Properties\<close>


text \<open>
  C25. A recurrent proof of custody after block 404727, with a price of the seeder recorded in the
  content that is not negative, pays the seeder at most the price of a day for
  the size of the content and at most what the escrow of the content holds; exactly that much leaves
  the escrow, which stays non-negative.
\<close>

theorem custody_within_escrow:
  assumes "safe_exact S" and "chain_ok c" and "404727 < int (head_block_num c)"
    and "find_content (pc_URI op) c = Some (k, content)" and "find_seeder (pc_seeder op) c = Some (j, seeder)"
    and "map_of (co_last_proof content) (pc_seeder op) = Some since" and "since \<le> head_block_time c"
    and "map_of (co_seeder_price content) (pc_seeder op) = Some p" and "0 \<le> p"
    and "0 \<le> amount (co_publishing_fee_escrow content)" and "proof_of_custody_do_apply S op f u c = Inr c'"
  shows "\<exists>n content'. 0 \<le> n \<and> n \<le> p * int (co_size content) \<and>
    generic_find (contents c') k = Some content' \<and>
    amount (co_publishing_fee_escrow content') = amount (co_publishing_fee_escrow content) - n \<and>
    0 \<le> amount (co_publishing_fee_escrow content') \<and>
    balance_of c' (pc_seeder op) 0 = balance_of c (pc_seeder op) 0 + n"
proof -
  have ok: "t_ok (contents c)" "t_ok (seeders c)" using assms(2) by (simp_all add: frame)
  have at: "generic_find (contents c) k = Some content" "se_seeder seeder = pc_seeder op"
    using t_find_by_SomeD [OF ok(1) assms(4) [unfolded find_content_def]] t_find_by_SomeD [OF ok(2) assms(5) [unfolded find_seeder_def]]
    by (simp_all add: is_seeder_def)
  have "next_custody S op k content seeder since c = Inr c'"
    using assms(4-6,11) by (simp add: proof_of_custody_do_apply_def)
  then show ?thesis
  proof (rule next_custody_steps [OF assms(1,2)])
    fix v n co t
    assume r: "custody_reward S content seeder since (c\<lparr>seeding_stats := v\<rparr>) = Inr n" and co: "generic_find (contents c) k = Some co"
      and t: "generic_find t k = Some (co\<lparr>co_last_proof := put_row (pc_seeder op) (head_block_time c) (co_last_proof co),
         co_publishing_fee_escrow := mk_asset (amount (co_publishing_fee_escrow co) - n) 0\<rparr>)"
      and s: "shifts (\<lambda>a. - units (mk_asset n 0) a) (c\<lparr>seeding_stats := v\<rparr>) (c\<lparr>seeding_stats := v, contents := t\<rparr>)"
      and a: "adjust_balance S (se_seeder seeder) (mk_asset n 0) (c\<lparr>seeding_stats := v, contents := t\<rparr>) = Inr c'"
    have b: "0 \<le> n \<and> n \<le> p * int (co_size content) \<and> n \<le> amount (co_publishing_fee_escrow content)"
      by (rule custody_reward_bounds [OF assms(1) _ _ _ assms(9,10) r])
        (use assms(3,7,8) at(2) in \<open>simp_all add: head_block_num_def head_block_time_def\<close>)
    have "contents c' = t" using adjust_moves(3) [OF assms(1) shifts_ok [OF s] a] by simp
    moreover have "balance_of c' (pc_seeder op) 0 = balance_of c (pc_seeder op) 0 + n"
      using adjust_balance_of [OF assms(1) shifts_ok [OF s] a, of "pc_seeder op" 0] at(2)
        balance_of_cong [of "c\<lparr>seeding_stats := v, contents := t\<rparr>" c "pc_seeder op" 0] by simp
    ultimately show ?thesis using b t co at(1) by auto
  qed
qed

section \<open>Concrete instances\<close>

definition demo_seeder :: seeder_object where
  "demo_seeder = \<lparr>se_seeder = 2, se_free_space = 9, se_price = mk_asset 1 0, se_expiration = 500, se_pubKey = 3,
     se_ipfs_ID = ''i'', se_stats = 0, se_rating = 0, se_region_code = []\<rparr>"

definition demo_seeded_chain :: chain where
  "demo_seeded_chain = demo_content_chain\<lparr>seeders := \<lparr>g_next_id = 1, g_rows = [(0, demo_seeder)]\<rparr>,
     seeding_stats := \<lparr>g_next_id = 1, g_rows = [(0, new_stats 2)]\<rparr>\<rparr>"

definition demo_env :: content_env where
  "demo_env = \<lparr>e_forks = demo_forks, e_title = Inr, e_proved = (\<lambda>a b c d e. True), e_verify = (\<lambda>a b. True),
     e_block_id_for = (\<lambda>n. Inr 0), e_skip_undo_history_check = False, e_skip_validate = False, e_fee = (\<lambda>op. Inr 10)\<rparr>"

text \<open>A purchase that waits for the second of two keys, and the operation that delivers it.\<close>

definition demo_buying :: buying_object where
  "demo_buying = \<lparr>bo_consumer = 4, bo_URI = ''ipfs:a'', bo_size = 3, bo_rating = 0, bo_comment = [], bo_price = mk_asset 50 0,
     bo_paid_price_before_exchange = mk_asset 25 1, bo_paid_price_after_exchange = mk_asset 50 0, bo_synopsis = ''film'',
     bo_seeders_answered = [0], bo_key_particles = [5], bo_pubKey = 8, bo_expiration_time = 450, bo_expired = False,
     bo_delivered = False, bo_expiration_or_delivery_time = 350, bo_rated_or_commented = False, bo_created = 300,
     bo_region_code_from = 1\<rparr>"

definition demo_bought_chain :: chain where
  "demo_bought_chain = demo_seeded_chain\<lparr>buyings := \<lparr>g_next_id = 1, g_rows = [(0, demo_buying)]\<rparr>,
     seeding_stats := \<lparr>g_next_id = 1, g_rows = [(0, (new_stats 2)\<lparr>ss_missed_delivered_keys := 1\<rparr>)]\<rparr>,
     balances := demo_balances\<lparr>g_next_id := 4, g_rows := g_rows demo_balances @ [(3, \<lparr>bal_owner = 2, bal_asset = 0, bal_balance = 30\<rparr>)]\<rparr>\<rparr>"

definition demo_delivery :: deliver_keys_operation where
  "demo_delivery = \<lparr>dk_fee = mk_asset 10 0, dk_seeder = 2, dk_buying = 0, dk_proof = 1, dk_key = 6\<rparr>"

lemma demo_bought_chain_ok: "chain_ok demo_bought_chain"
  by (rule chain_ok_rows) code_simp

lemma demo_delivery_accepted: "succeeds (apply_content_operation checked64 demo_trx demo_env (Deliver demo_delivery) demo_bought_chain)"
  by code_simp

lemma checked64_no_assert: "safe_no_assert checked64"
  by (simp add: safe_no_assert_def checked64_def)


text \<open>A proof a day after the last one, of a content whose escrow is nearly used up.\<close>

definition demo_custody_content :: content_object where
  "demo_custody_content = demo_content\<lparr>co_last_proof := [(2, 13600)], co_seeder_price := [(2, 30)], co_expiration := 200000\<rparr>"

definition demo_custody_chain :: chain where
  "demo_custody_chain = demo_seeded_chain\<lparr>contents := \<lparr>g_next_id = 1, g_rows = [(0, demo_custody_content)]\<rparr>,
     dgpo := (dgpo demo_chain)\<lparr>head_block_number := 500000, dg_time := 100000\<rparr>\<rparr>"

definition demo_custody :: proof_of_custody_operation where
  "demo_custody = \<lparr>pc_fee = mk_asset 10 0, pc_seeder = 2, pc_URI = ''ipfs:a'', pc_proof = None\<rparr>"

lemma demo_custody_chain_ok: "chain_ok demo_custody_chain"
proof -
  have t: "t_ok \<lparr>g_next_id = 1, g_rows = [(0, x)]\<rparr>" for x by (simp add: generic_invar_def)
  show ?thesis unfolding demo_custody_chain_def demo_seeded_chain_def by (intro chain_ok_frame demo_content_chain_ok t)
qed

lemma demo_custody_tables:
  "contents demo_custody_chain = \<lparr>g_next_id = 1, g_rows = [(0, demo_custody_content)]\<rparr>"
  "seeders demo_custody_chain = \<lparr>g_next_id = 1, g_rows = [(0, demo_seeder)]\<rparr>"
  "seeding_stats demo_custody_chain = \<lparr>g_next_id = 1, g_rows = [(0, new_stats 2)]\<rparr>"
  "balances demo_custody_chain = demo_balances"
  "head_block_num demo_custody_chain = 500000" "head_block_time demo_custody_chain = 100000"
  by (simp_all add: demo_custody_chain_def demo_seeded_chain_def demo_content_chain_def demo_chain_def head_block_time_def head_block_num_def)

lemma demo_custody_found:
  "find_content (pc_URI demo_custody) demo_custody_chain = Some (0, demo_custody_content)"
  "find_seeder (pc_seeder demo_custody) demo_custody_chain = Some (0, demo_seeder)"
  "map_of (co_last_proof demo_custody_content) (pc_seeder demo_custody) = Some 13600"
  "map_of (co_seeder_price demo_custody_content) (pc_seeder demo_custody) = Some 30"
  "map_of (co_seeder_price demo_custody_content) (se_seeder demo_seeder) = Some 30"
  "amount (co_publishing_fee_escrow demo_custody_content) = 60" "co_size demo_custody_content = 3"
  by (simp_all add: find_content_def find_seeder_def t_find_by_def demo_custody_tables is_content_def is_seeder_def
      demo_custody_content_def demo_content_def demo_seeder_def demo_custody_def)

lemma demo_reward_ratio: "reward_ratio 100000 13600 = 10000"
proof -
  have "c_div 864000000 86400 = 10000" "u64 10000 = 10000" "u64 0 = 0" "u64 100000000 = 100000000"
    by (simp_all add: c_div_def u64_def)
  then show ?thesis by (simp add: reward_ratio_def Let_def)
qed

lemma demo_custody_accepted: "succeeds (proof_of_custody_do_apply checked64 demo_custody f u demo_custody_chain)"
proof -
  obtain v where 1: "modify_seeding_stats (pc_seeder demo_custody) (\<lambda>so. so\<lparr>ss_num_of_pors := u32 (int (ss_num_of_pors so) + 1)\<rparr>)
      demo_custody_chain = Inr (demo_custody_chain\<lparr>seeding_stats := v\<rparr>)"
    by (simp add: modify_seeding_stats_def t_find_by_def demo_custody_tables is_stats_of_def demo_custody_def new_stats_def
        t_modify_def t_get_def generic_find_def generic_modify_def del_row_def)
  let ?c = "demo_custody_chain\<lparr>seeding_stats := v\<rparr>"
  have same: "head_block_num ?c = 500000" "head_block_time ?c = 100000"
    using demo_custody_tables(5,6) by (simp_all add: head_block_num_def head_block_time_def)
  have 2: "custody_reward checked64 demo_custody_content demo_seeder 13600 ?c = Inr 60"
    by (simp add: custody_reward_def same demo_reward_ratio demo_custody_found checked64_def in_int64_def c_div_def)
  have esc: "asset_sub checked64 (co_publishing_fee_escrow demo_custody_content) (mk_asset 60 0) = Inr (mk_asset 0 0)"
    by (simp add: asset_sub_def demo_custody_content_def demo_content_def checked64_def in_int64_def)
  obtain t where 3: "t_modify content_key 0 (\<lambda>co. bindE (asset_sub checked64 (co_publishing_fee_escrow co) (mk_asset 60 0)) (\<lambda>escrow.
      Inr (co\<lparr>co_last_proof := put_row (pc_seeder demo_custody) 100000 (co_last_proof co), co_publishing_fee_escrow := escrow\<rparr>)))
      (contents demo_custody_chain) = Inr t"
    by (simp add: demo_custody_tables esc t_modify_def t_get_def generic_find_def generic_modify_def del_row_def)
  have "succeeds (adjust_balance checked64 2 (mk_asset 60 0) (?c\<lparr>contents := t\<rparr>))"
    by (simp add: succeeds_def adjust_balance_def demo_custody_tables demo_balances_def t_find_by_def is_balance_of_def
        t_create_def generic_create_def balance_key_def violates_unique_def)
  moreover have "se_seeder demo_seeder = 2" by (simp add: demo_seeder_def)
  ultimately show ?thesis
    by (simp add: proof_of_custody_do_apply_def demo_custody_found next_custody_def 1 2 3 same)
qed

definition demo_custody_fee :: fee_state where
  "demo_custody_fee = \<lparr>fee_from_account = mk_asset 10 0, core_fee_paid = 10, fee_asset = snd (hd (g_rows demo_assets))\<rparr>"

theorem custody_within_escrow_witness:
  "\<exists>c' content'. proof_of_custody_do_apply checked64 demo_custody demo_custody_fee () demo_custody_chain = Inr c' \<and>
     generic_find (contents c') 0 = Some content' \<and> 0 \<le> amount (co_publishing_fee_escrow content')"
proof -
  obtain c' where r: "proof_of_custody_do_apply checked64 demo_custody demo_custody_fee () demo_custody_chain = Inr c'"
    by (rule succeedsE [OF demo_custody_accepted])
  show ?thesis
    using custody_within_escrow [OF checked64_exact demo_custody_chain_ok _ demo_custody_found(1-3) _ demo_custody_found(4) _ _ r]
      r by (auto simp: demo_custody_tables demo_custody_found)
qed

end
