(* ===== verification/Asset_Evaluator.thy ===== *)
theory Asset_Evaluator
  imports Transfer_Evaluator
begin

text \<open>
  \<open>asset\_evaluator.cpp\<close> and \<open>protocol/asset\_ops.cpp\<close>: creating, issuing, reserving, funding,
  claiming and updating assets, and publishing price feeds. Issuing and reserving change what is
  held and the recorded supply by the same amount; every other evaluator keeps the contract with
  no change, but for the creation of an asset, whose effect on the core asset is stated exactly.
\<close>

section \<open>Operations and their validation\<close>

definition is_upper :: "char \<Rightarrow> bool" where
  "is_upper ch = (65 \<le> (of_char ch :: nat) \<and> of_char ch \<le> (90 :: nat))"

definition is_alpha :: "char \<Rightarrow> bool" where
  "is_alpha ch = (is_upper ch \<or> (97 \<le> (of_char ch :: nat) \<and> of_char ch \<le> (122 :: nat)))"

fun symbol_chars_ok :: "bool \<Rightarrow> string \<Rightarrow> bool" where
  "symbol_chars_ok dot_already_present [] = True"
| "symbol_chars_ok dot_already_present (ch # cs) =
     (if (is_alpha ch \<and> is_upper ch) \<or> is_digit ch then symbol_chars_ok dot_already_present cs
      else if ch = CHR ''.'' then (if dot_already_present then False else symbol_chars_ok True cs)
      else False)"

definition is_valid_symbol :: "string \<Rightarrow> bool" where
  "is_valid_symbol s =
     (if length s < 3 then False
      else if 16 < length s then False
      else if \<not> is_alpha (hd s) then False
      else if \<not> is_alpha (last s) then False
      else symbol_chars_ok False s)"

definition asset_options_validate :: "asset_options \<Rightarrow> unit res" where
  "asset_options_validate ops =
     bindE (require (0 < max_supply ops) Assert_Exception) (\<lambda>_.
     bindE (require (max_supply ops \<le> GRAPHENE_MAX_SHARE_SUPPLY) Assert_Exception) (\<lambda>_.
     bindE (price_validate (core_exchange_rate ops)) (\<lambda>_.
     require (asset_id (base (core_exchange_rate ops)) = 0 \<or> asset_id (quote (core_exchange_rate ops)) = 0)
       Assert_Exception)))"

definition monitored_asset_options_validate :: "monitored_asset_options \<Rightarrow> unit res" where
  "monitored_asset_options_validate mo =
     bindE (feed_validate (current_feed mo)) (\<lambda>_.
     bindE (require (0 < feed_lifetime_sec mo) Assert_Exception) (\<lambda>_.
     require (0 < minimum_feeds mo) Assert_Exception))"

record asset_create_operation =
  ac_fee :: asset
  ac_issuer :: account_id_type
  ac_symbol :: string
  ac_precision :: nat
  ac_description :: string
  ac_options :: asset_options
  ac_monitored_asset_opts :: "monitored_asset_options option"

definition asset_create_fee_payer :: "asset_create_operation \<Rightarrow> account_id_type" where
  "asset_create_fee_payer op = (if ac_monitored_asset_opts op \<noteq> None then 0 else ac_issuer op)"

definition asset_create_calculate_fee :: "64 word \<Rightarrow> asset_create_operation \<Rightarrow> 64 word" where
  "asset_create_calculate_fee basic_fee op =
     (if ac_monitored_asset_opts op \<noteq> None then basic_fee
      else if length (ac_symbol op) = 3 then basic_fee * 5000
      else if length (ac_symbol op) = 4 then basic_fee * 200
      else 5 * basic_fee)"

definition asset_create_validate :: "asset_create_operation \<Rightarrow> unit res" where
  "asset_create_validate op =
     bindE (require (0 \<le> amount (ac_fee op)) Assert_Exception) (\<lambda>_.
     bindE (require (is_valid_symbol (ac_symbol op)) Assert_Exception) (\<lambda>_.
     bindE (require (ac_precision op \<le> 12) Assert_Exception) (\<lambda>_.
     bindE (require (length (ac_description op) \<le> 1000) Assert_Exception) (\<lambda>_.
     case ac_monitored_asset_opts op of
       Some mo \<Rightarrow>
         bindE (monitored_asset_options_validate mo) (\<lambda>_.
         require (max_supply (ac_options op) = 0) Assert_Exception)
     | None \<Rightarrow> asset_options_validate (ac_options op)))))"

record asset_issue_operation =
  ai_fee :: asset
  ai_issuer :: account_id_type
  ai_asset_to_issue :: asset
  ai_issue_to_account :: account_id_type

definition asset_issue_validate :: "asset_issue_operation \<Rightarrow> unit res" where
  "asset_issue_validate op =
     bindE (require (0 \<le> amount (ai_fee op)) Assert_Exception) (\<lambda>_.
     bindE (require (amount (ai_asset_to_issue op) \<le> GRAPHENE_MAX_SHARE_SUPPLY) Assert_Exception) (\<lambda>_.
     bindE (require (0 < amount (ai_asset_to_issue op)) Assert_Exception) (\<lambda>_.
     require (asset_id (ai_asset_to_issue op) \<noteq> 0) Assert_Exception)))"

record update_monitored_asset_operation =
  um_fee :: asset
  um_issuer :: account_id_type
  um_asset_to_update :: asset_id_type
  um_new_description :: string
  um_new_feed_lifetime_sec :: nat
  um_new_minimum_feeds :: nat

definition update_monitored_asset_validate :: "update_monitored_asset_operation \<Rightarrow> unit res" where
  "update_monitored_asset_validate op = require (0 \<le> amount (um_fee op)) Assert_Exception"

text \<open>The new maximal supply is an unsigned field, read as a signed amount.\<close>

record update_user_issued_asset_operation =
  uu_fee :: asset
  uu_issuer :: account_id_type
  uu_asset_to_update :: asset_id_type
  uu_new_description :: string
  uu_new_issuer :: "account_id_type option"
  uu_max_supply :: "64 word"
  uu_core_exchange_rate :: price
  uu_is_exchangeable :: bool

definition update_user_issued_asset_validate :: "update_user_issued_asset_operation \<Rightarrow> unit res" where
  "update_user_issued_asset_validate op =
     bindE (require (0 \<le> amount (uu_fee op)) Assert_Exception) (\<lambda>_.
     bindE (price_validate (uu_core_exchange_rate op)) (\<lambda>_.
     bindE (case uu_new_issuer op of
              Some i \<Rightarrow> require (uu_issuer op \<noteq> i) Assert_Exception
            | None \<Rightarrow> Inr ()) (\<lambda>_.
     bindE (asset_times_price (mk_asset 1 (uu_asset_to_update op)) (uu_core_exchange_rate op)) (\<lambda>dummy.
     require (asset_id dummy = 0) Assert_Exception))))"

record asset_reserve_operation =
  ar_fee :: asset
  ar_payer :: account_id_type
  ar_amount_to_reserve :: asset

definition asset_reserve_validate :: "asset_reserve_operation \<Rightarrow> unit res" where
  "asset_reserve_validate op =
     bindE (require (0 \<le> amount (ar_fee op)) Assert_Exception) (\<lambda>_.
     bindE (require (amount (ar_amount_to_reserve op) \<le> GRAPHENE_MAX_SHARE_SUPPLY) Assert_Exception) (\<lambda>_.
     require (0 < amount (ar_amount_to_reserve op)) Assert_Exception))"

record asset_fund_pools_operation =
  fp_fee :: asset
  fp_from_account :: account_id_type
  fp_uia_asset :: asset
  fp_dct_asset :: asset

definition asset_fund_pools_validate :: "asset_fund_pools_operation \<Rightarrow> unit res" where
  "asset_fund_pools_validate op =
     bindE (require (0 \<le> amount (fp_fee op)) Assert_Exception) (\<lambda>_.
     bindE (require (asset_id (fp_fee op) = 0) Assert_Exception) (\<lambda>_.
     bindE (require (asset_id (fp_dct_asset op) = 0) Assert_Exception) (\<lambda>_.
     bindE (require (0 \<le> amount (fp_uia_asset op) \<and> 0 \<le> amount (fp_dct_asset op)) Assert_Exception) (\<lambda>_.
     require (0 < amount (fp_uia_asset op) \<or> 0 < amount (fp_dct_asset op)) Assert_Exception))))"

record asset_claim_fees_operation =
  cf_fee :: asset
  cf_issuer :: account_id_type
  cf_uia_asset :: asset
  cf_dct_asset :: asset

definition asset_claim_fees_validate :: "asset_claim_fees_operation \<Rightarrow> unit res" where
  "asset_claim_fees_validate op =
     bindE (require (0 \<le> amount (cf_fee op)) Assert_Exception) (\<lambda>_.
     bindE (require (asset_id (cf_dct_asset op) = 0) Assert_Exception) (\<lambda>_.
     bindE (require (0 \<le> amount (cf_uia_asset op) \<and> 0 \<le> amount (cf_dct_asset op)) Assert_Exception) (\<lambda>_.
     require (0 < amount (cf_uia_asset op) \<or> 0 < amount (cf_dct_asset op)) Assert_Exception)))"

record asset_publish_feed_operation =
  pf_fee :: asset
  pf_publisher :: account_id_type
  pf_asset_id :: asset_id_type
  pf_feed :: price_feed

definition asset_publish_feed_validate :: "asset_publish_feed_operation \<Rightarrow> unit res" where
  "asset_publish_feed_validate op =
     bindE (require (0 \<le> amount (pf_fee op)) Assert_Exception) (\<lambda>_.
     bindE (feed_validate (pf_feed op)) (\<lambda>_.
     bindE (if \<not> price_is_null (feed_rate (pf_feed op)) then price_validate (feed_rate (pf_feed op)) else Inr ()) (\<lambda>_.
     bindE (require (\<not> price_is_null (feed_rate (pf_feed op))) Assert_Exception) (\<lambda>_.
     require (feed_is_for (pf_feed op) (pf_asset_id op)) Assert_Exception))))"

record update_user_issued_asset_advanced_operation =
  ua_fee :: asset
  ua_issuer :: account_id_type
  ua_asset_to_update :: asset_id_type
  ua_new_precision :: nat
  ua_set_fixed_max_supply :: bool

definition update_user_issued_asset_advanced_validate :: "update_user_issued_asset_advanced_operation \<Rightarrow> unit res" where
  "update_user_issued_asset_advanced_validate op =
     bindE (require (0 \<le> amount (ua_fee op)) Assert_Exception) (\<lambda>_.
     require (ua_new_precision op \<le> 12) Assert_Exception)"

section \<open>Helpers\<close>

text \<open>\<open>rfind\<close> of a character.\<close>

definition rfind_char :: "char \<Rightarrow> string \<Rightarrow> nat option" where
  "rfind_char ch s = map_option (\<lambda>i. length s - 1 - i) (char_pos ch (rev s))"

text \<open>\<open>extensions.find(fixed\_max\_supply\_struct())\<close>: the entry of that type and its flag.\<close>

fun find_fixed_max_supply :: "options_extension list \<Rightarrow> bool option" where
  "find_fixed_max_supply [] = None"
| "find_fixed_max_supply (Fixed_Max_Supply b # es) = Some b"
| "find_fixed_max_supply (Void_Extension # es) = find_fixed_max_supply es"

fun set_fixed_max_supply :: "options_extension list \<Rightarrow> options_extension list" where
  "set_fixed_max_supply [] = []"
| "set_fixed_max_supply (Fixed_Max_Supply b # es) = Fixed_Max_Supply True # es"
| "set_fixed_max_supply (Void_Extension # es) = Void_Extension # set_fixed_max_supply es"

definition asset_by_symbol :: "chain \<Rightarrow> string \<Rightarrow> (nat \<times> asset_object) option" where
  "asset_by_symbol c s = t_find_by (\<lambda>a. symbol a = s) (assets c)"

definition modify_asset ::
  "asset_id_type \<Rightarrow> (asset_object \<Rightarrow> asset_object res) \<Rightarrow> chain \<Rightarrow> chain res" where
  "modify_asset k f c = bindE (t_modify asset_key k f (assets c)) (\<lambda>t. Inr (c\<lparr>assets := t\<rparr>))"

section \<open>Creation\<close>

definition asset_create_do_evaluate ::
  "safe \<Rightarrow> fork_times_t \<Rightarrow> asset_create_operation \<Rightarrow> fee_state \<Rightarrow> chain \<Rightarrow> (fee_state \<times> unit) res" where
  "asset_create_do_evaluate S ft op f c =
     bindE (require (asset_by_symbol c (ac_symbol op) = None) Assert_Exception) (\<lambda>_.
     bindE (case rfind_char (CHR ''.'') (ac_symbol op) of
              None \<Rightarrow> Inr ()
            | Some dotpos \<Rightarrow>
                (case asset_by_symbol c (take dotpos (ac_symbol op)) of
                   None \<Rightarrow> Inl Assert_Exception
                 | Some (k, a) \<Rightarrow> require (issuer a = ac_issuer op) Assert_Exception)) (\<lambda>_.
     bindE (S (core_fee_paid f - c_div (core_fee_paid f) 2)) (\<lambda>paid.
     let count_fixed_max_supply_ext = (find_fixed_max_supply (extensions (ac_options op)) \<noteq> None)
     in bindE (case ac_monitored_asset_opts op of
                 Some mo \<Rightarrow>
                   bindE (require (block_interval (parameters (gpo c)) < feed_lifetime_sec mo) Assert_Exception) (\<lambda>_.
                   bindE (require (max_supply (ac_options op) = 0) Assert_Exception) (\<lambda>_.
                   require (\<not> count_fixed_max_supply_ext) Assert_Exception))
               | None \<Rightarrow>
                   if hf2 ft < head_block_time c then require count_fixed_max_supply_ext Assert_Exception
                   else require (\<not> count_fixed_max_supply_ext) Assert_Exception) (\<lambda>_.
        Inr (f\<lparr>core_fee_paid := paid\<rparr>, ())))))"

text \<open>The side of the exchange rate that is not core names the new asset.\<close>

definition rate_for_new_asset :: "asset_id_type \<Rightarrow> price \<Rightarrow> price" where
  "rate_for_new_asset k p =
     (if asset_id (base p) = 0 then p\<lparr>quote := (quote p)\<lparr>asset_id := k\<rparr>\<rparr>
      else p\<lparr>base := (base p)\<lparr>asset_id := k\<rparr>\<rparr>)"

definition asset_create_do_apply ::
  "asset_create_operation \<Rightarrow> fee_state \<Rightarrow> unit \<Rightarrow> chain \<Rightarrow> chain res" where
  "asset_create_do_apply op f u c =
     (let dyn_asset = g_next_id (asset_dyn c)
      in bindE (t_create no_unique \<lparr>current_supply = 0, asset_pool = 0, core_pool = core_fee_paid f\<rparr> (asset_dyn c)) (\<lambda>td.
         let next_asset_id = g_next_id (assets c)
         in bindE (t_create asset_key
                     \<lparr>symbol = ac_symbol op, precision = ac_precision op, issuer = ac_issuer op,
                      description = ac_description op, monitored_asset_opts = ac_monitored_asset_opts op,
                      options = (ac_options op)\<lparr>core_exchange_rate :=
                        rate_for_new_asset next_asset_id (core_exchange_rate (ac_options op))\<rparr>,
                      dynamic_asset_data_id = dyn_asset\<rparr> (assets c)) (\<lambda>ta.
            Inr (c\<lparr>asset_dyn := td, assets := ta\<rparr>))))"

section \<open>Issuing and reserving\<close>

definition asset_issue_do_evaluate ::
  "safe \<Rightarrow> asset_issue_operation \<Rightarrow> fee_state \<Rightarrow> chain \<Rightarrow> (fee_state \<times> asset_object) res" where
  "asset_issue_do_evaluate S op f c =
     bindE (get_asset c (asset_id (ai_asset_to_issue op))) (\<lambda>a.
     bindE (require (ai_issuer op = issuer a) Assert_Exception) (\<lambda>_.
     bindE (require (\<not> is_monitored_asset a) Assert_Exception) (\<lambda>_.
     bindE (get_dyn c a) (\<lambda>d.
     bindE (S (current_supply d + amount (ai_asset_to_issue op))) (\<lambda>s.
     bindE (require (s \<le> max_supply (options a)) Assert_Exception) (\<lambda>_.
     bindE (require (generic_find (accounts c) (ai_issue_to_account op) \<noteq> None) Assert_Exception) (\<lambda>_.
     Inr (f, a))))))))"

definition asset_issue_do_apply ::
  "safe \<Rightarrow> asset_issue_operation \<Rightarrow> fee_state \<Rightarrow> asset_object \<Rightarrow> chain \<Rightarrow> chain res" where
  "asset_issue_do_apply S op f asset_dyn_data c =
     bindE (adjust_balance S (ai_issue_to_account op) (ai_asset_to_issue op) c) (\<lambda>c1.
     modify_dyn asset_dyn_data (\<lambda>data.
       bindE (S (current_supply data + amount (ai_asset_to_issue op))) (\<lambda>s.
       Inr (data\<lparr>current_supply := s\<rparr>))) c1)"

definition asset_reserve_do_evaluate ::
  "safe \<Rightarrow> asset_reserve_operation \<Rightarrow> fee_state \<Rightarrow> chain \<Rightarrow> (fee_state \<times> asset_object) res" where
  "asset_reserve_do_evaluate S op f c =
     bindE (get_asset c (asset_id (ar_amount_to_reserve op))) (\<lambda>a.
     bindE (require (\<not> is_monitored_asset a) Asset_Reserve_Invalid_On_Mia) (\<lambda>_.
     bindE (get_dyn c a) (\<lambda>d.
     bindE (S (current_supply d - amount (ar_amount_to_reserve op))) (\<lambda>s.
     bindE (require (0 \<le> s) Assert_Exception) (\<lambda>_.
     Inr (f, a))))))"

definition asset_reserve_do_apply ::
  "safe \<Rightarrow> asset_reserve_operation \<Rightarrow> fee_state \<Rightarrow> asset_object \<Rightarrow> chain \<Rightarrow> chain res" where
  "asset_reserve_do_apply S op f asset_dyn_data c =
     bindE (asset_neg S (ar_amount_to_reserve op)) (\<lambda>neg.
     bindE (adjust_balance S (ar_payer op) neg c) (\<lambda>c1.
     modify_dyn asset_dyn_data (\<lambda>data.
       bindE (S (current_supply data - amount (ar_amount_to_reserve op))) (\<lambda>s.
       Inr (data\<lparr>current_supply := s\<rparr>))) c1))"

section \<open>Pools\<close>

definition asset_fund_pools_do_evaluate ::
  "asset_fund_pools_operation \<Rightarrow> fee_state \<Rightarrow> chain \<Rightarrow> (fee_state \<times> asset_object) res" where
  "asset_fund_pools_do_evaluate op f c =
     bindE (get_asset c (asset_id (fp_uia_asset op))) (\<lambda>uia_o.
     bindE (require (\<not> is_monitored_asset uia_o \<and> asset_id (fp_uia_asset op) \<noteq> 0) Assert_Exception) (\<lambda>_.
     bindE (get_dyn c uia_o) (\<lambda>d.
     bindE (asset_le (fp_uia_asset op) (get_balance c (fp_from_account op) (asset_id (fp_uia_asset op)))) (\<lambda>b1.
     bindE (require b1 Assert_Exception) (\<lambda>_.
     bindE (asset_le (fp_dct_asset op) (get_balance c (fp_from_account op) 0)) (\<lambda>b2.
     bindE (require b2 Assert_Exception) (\<lambda>_.
     Inr (f, uia_o))))))))"

definition asset_fund_pools_do_apply ::
  "safe \<Rightarrow> asset_fund_pools_operation \<Rightarrow> fee_state \<Rightarrow> asset_object \<Rightarrow> chain \<Rightarrow> chain res" where
  "asset_fund_pools_do_apply S op f asset_dyn_data c =
     bindE (if 0 < amount (fp_uia_asset op) then
              bindE (asset_neg S (fp_uia_asset op)) (\<lambda>neg.
              bindE (adjust_balance S (fp_from_account op) neg c) (\<lambda>c1.
              modify_dyn asset_dyn_data (\<lambda>data.
                bindE (S (asset_pool data + amount (fp_uia_asset op))) (\<lambda>p. Inr (data\<lparr>asset_pool := p\<rparr>))) c1))
            else Inr c) (\<lambda>c2.
     if 0 < amount (fp_dct_asset op) then
       bindE (asset_neg S (fp_dct_asset op)) (\<lambda>neg.
       bindE (adjust_balance S (fp_from_account op) neg c2) (\<lambda>c3.
       modify_dyn asset_dyn_data (\<lambda>data.
         bindE (S (core_pool data + amount (fp_dct_asset op))) (\<lambda>p. Inr (data\<lparr>core_pool := p\<rparr>))) c3))
     else Inr c2)"

definition asset_claim_fees_do_evaluate ::
  "asset_claim_fees_operation \<Rightarrow> fee_state \<Rightarrow> chain \<Rightarrow> (fee_state \<times> asset_object) res" where
  "asset_claim_fees_do_evaluate op f c =
     bindE (get_asset c (asset_id (cf_uia_asset op))) (\<lambda>uia_ao.
     bindE (require (issuer uia_ao = cf_issuer op) Assert_Exception) (\<lambda>_.
     bindE (require (\<not> is_monitored_asset uia_ao) Assert_Exception) (\<lambda>_.
     bindE (get_dyn c uia_ao) (\<lambda>d.
     bindE (require (amount (cf_uia_asset op) \<le> asset_pool d) Assert_Exception) (\<lambda>_.
     bindE (require (amount (cf_dct_asset op) \<le> core_pool d) Assert_Exception) (\<lambda>_.
     Inr (f, uia_ao)))))))"

definition asset_claim_fees_do_apply ::
  "safe \<Rightarrow> asset_claim_fees_operation \<Rightarrow> fee_state \<Rightarrow> asset_object \<Rightarrow> chain \<Rightarrow> chain res" where
  "asset_claim_fees_do_apply S op f asset_dyn_data c =
     bindE (if 0 < amount (cf_uia_asset op) then
              bindE (adjust_balance S (cf_issuer op) (cf_uia_asset op) c) (\<lambda>c1.
              modify_dyn asset_dyn_data (\<lambda>data.
                bindE (S (asset_pool data - amount (cf_uia_asset op))) (\<lambda>p. Inr (data\<lparr>asset_pool := p\<rparr>))) c1)
            else Inr c) (\<lambda>c2.
     if 0 < amount (cf_dct_asset op) then
       bindE (adjust_balance S (cf_issuer op) (cf_dct_asset op) c2) (\<lambda>c3.
       modify_dyn asset_dyn_data (\<lambda>data.
         bindE (S (core_pool data - amount (cf_dct_asset op))) (\<lambda>p. Inr (data\<lparr>core_pool := p\<rparr>))) c3)
     else Inr c2)"

section \<open>Updates\<close>

definition monitored_asset_update_do_evaluate ::
  "update_monitored_asset_operation \<Rightarrow> fee_state \<Rightarrow> chain \<Rightarrow> (fee_state \<times> unit) res" where
  "monitored_asset_update_do_evaluate op f c =
     bindE (get_asset c (um_asset_to_update op)) (\<lambda>a.
     bindE (require (is_monitored_asset a) Assert_Exception) (\<lambda>_.
     bindE (require (um_issuer op = issuer a) Assert_Exception) (\<lambda>_.
     Inr (f, ()))))"

definition monitored_asset_update_do_apply ::
  "update_monitored_asset_operation \<Rightarrow> fee_state \<Rightarrow> unit \<Rightarrow> chain \<Rightarrow> chain res" where
  "monitored_asset_update_do_apply op f u c =
     modify_asset (um_asset_to_update op) (\<lambda>a.
       Inr (a\<lparr>description := (if um_new_description op \<noteq> [] then um_new_description op else description a),
              monitored_asset_opts := map_option (\<lambda>mo.
                mo\<lparr>feed_lifetime_sec := (if um_new_feed_lifetime_sec op \<noteq> 0 then um_new_feed_lifetime_sec op
                     else feed_lifetime_sec mo),
                   minimum_feeds := (if um_new_minimum_feeds op \<noteq> 0 then um_new_minimum_feeds op
                     else minimum_feeds mo)\<rparr>) (monitored_asset_opts a)\<rparr>)) c"

definition user_issued_asset_update_do_evaluate ::
  "update_user_issued_asset_operation \<Rightarrow> fee_state \<Rightarrow> chain \<Rightarrow> (fee_state \<times> unit) res" where
  "user_issued_asset_update_do_evaluate op f c =
     bindE (get_asset c (uu_asset_to_update op)) (\<lambda>a.
     bindE (require (\<not> is_monitored_asset a \<and> uu_asset_to_update op \<noteq> 0) Assert_Exception) (\<lambda>_.
     bindE (get_dyn c a) (\<lambda>d.
     bindE (require (current_supply d \<le> sint (uu_max_supply op)) Assert_Exception) (\<lambda>_.
     bindE (case uu_new_issuer op of
              Some i \<Rightarrow> require (generic_find (accounts c) i \<noteq> None) Assert_Exception
            | None \<Rightarrow> Inr ()) (\<lambda>_.
     let is_fixed_max_supply = (case find_fixed_max_supply (extensions (options a)) of Some b \<Rightarrow> b | None \<Rightarrow> False)
     in bindE (if is_fixed_max_supply then require (sint (uu_max_supply op) = max_supply (options a)) Assert_Exception
               else Inr ()) (\<lambda>_.
        bindE (require (uu_issuer op = issuer a) Assert_Exception) (\<lambda>_.
        Inr (f, ()))))))))"

definition user_issued_asset_update_do_apply ::
  "update_user_issued_asset_operation \<Rightarrow> fee_state \<Rightarrow> unit \<Rightarrow> chain \<Rightarrow> chain res" where
  "user_issued_asset_update_do_apply op f u c =
     modify_asset (uu_asset_to_update op) (\<lambda>a.
       Inr (a\<lparr>issuer := (case uu_new_issuer op of Some i \<Rightarrow> i | None \<Rightarrow> issuer a),
              description := (if uu_new_description op \<noteq> [] then uu_new_description op else description a),
              options := (options a)\<lparr>max_supply := sint (uu_max_supply op),
                core_exchange_rate := uu_core_exchange_rate op, is_exchangeable := uu_is_exchangeable op\<rparr>\<rparr>)) c"

definition asset_publish_feeds_do_evaluate ::
  "asset_publish_feed_operation \<Rightarrow> fee_state \<Rightarrow> chain \<Rightarrow> (fee_state \<times> unit) res" where
  "asset_publish_feeds_do_evaluate op f c =
     bindE (get_asset c (pf_asset_id op)) (\<lambda>a.
     bindE (require (is_monitored_asset a) Assert_Exception) (\<lambda>_.
     bindE (get_account c 0) (\<lambda>miner.
     bindE (require (pf_publisher op \<in> set (map fst (account_auths (acc_active miner)))) Assert_Exception) (\<lambda>_.
     bindE (require (asset_id (base (feed_rate (pf_feed op))) = 0 \<or> asset_id (quote (feed_rate (pf_feed op))) = 0)
              Assert_Exception) (\<lambda>_.
     bindE (require (asset_id (base (feed_rate (pf_feed op))) = pf_asset_id op \<or>
                     asset_id (quote (feed_rate (pf_feed op))) = pf_asset_id op) Assert_Exception) (\<lambda>_.
     Inr (f, ())))))))"

definition asset_publish_feeds_do_apply ::
  "((price_feed \<Rightarrow> price_feed \<Rightarrow> bool) \<Rightarrow> nat \<Rightarrow> price_feed list \<Rightarrow> price_feed) \<Rightarrow>
    asset_publish_feed_operation \<Rightarrow> fee_state \<Rightarrow> unit \<Rightarrow> chain \<Rightarrow> chain res" where
  "asset_publish_feeds_do_apply nth_el op f u c =
     modify_asset (pf_asset_id op) (\<lambda>a.
       Inr (a\<lparr>monitored_asset_opts := map_option (\<lambda>mo.
                update_median_feeds nth_el (head_block_time c)
                  (mo\<lparr>feeds := put_row (pf_publisher op) (head_block_time c, pf_feed op) (feeds mo)\<rparr>))
              (monitored_asset_opts a)\<rparr>)) c"

text \<open>The evaluator's members: whether the precision changes and whether the extension is present.\<close>

definition uia_advanced_do_evaluate ::
  "fork_times_t \<Rightarrow> update_user_issued_asset_advanced_operation \<Rightarrow> fee_state \<Rightarrow> chain
    \<Rightarrow> (fee_state \<times> bool \<times> bool) res" where
  "uia_advanced_do_evaluate ft op f c =
     bindE (get_asset c (ua_asset_to_update op)) (\<lambda>a.
     bindE (require (hf3 ft < head_block_time c) Assert_Exception) (\<lambda>_.
     bindE (require (ua_issuer op = issuer a) Assert_Exception) (\<lambda>_.
     bindE (require (\<not> is_monitored_asset a \<and> ua_asset_to_update op \<noteq> 0) Assert_Exception) (\<lambda>_.
     let set_precision = (ua_new_precision op \<noteq> precision a)
     in bindE (if set_precision
               then require (t_find_by (\<lambda>b. bal_asset b = ua_asset_to_update op) (balances c) = None) Assert_Exception
               else Inr ()) (\<lambda>_.
        let ext = find_fixed_max_supply (extensions (options a));
            count_fixed_max_supply_ext = (ext \<noteq> None);
            is_fixed_max_supply = (case ext of Some b \<Rightarrow> b | None \<Rightarrow> False)
        in bindE (require (\<not> is_fixed_max_supply \<or> \<not> ua_set_fixed_max_supply op) Assert_Exception) (\<lambda>_.
           bindE (require (set_precision \<or> ua_set_fixed_max_supply op) Assert_Exception) (\<lambda>_.
           Inr (f, set_precision, count_fixed_max_supply_ext))))))))"

definition uia_advanced_do_apply ::
  "update_user_issued_asset_advanced_operation \<Rightarrow> fee_state \<Rightarrow> bool \<times> bool \<Rightarrow> chain \<Rightarrow> chain res" where
  "uia_advanced_do_apply op f members c =
     (case members of (set_precision, count_fixed_max_supply_ext) \<Rightarrow>
        modify_asset (ua_asset_to_update op) (\<lambda>a.
          Inr (a\<lparr>precision := (if set_precision then ua_new_precision op else precision a),
                 options := (options a)\<lparr>extensions :=
                   (if \<not> count_fixed_max_supply_ext
                    then extensions (options a) @ [Fixed_Max_Supply (ua_set_fixed_max_supply op)]
                    else if ua_set_fixed_max_supply op then set_fixed_max_supply (extensions (options a))
                    else extensions (options a))\<rparr>\<rparr>)) c)"

section \<open>Contracts\<close>

lemma modify_asset_law:
  assumes ok: "chain_ok c" and m: "modify_asset k f c = Inr c'"
    and f: "\<And>a b. f a = Inr b \<Longrightarrow> dynamic_asset_data_id b = dynamic_asset_data_id a"
  obtains a b where "generic_find (assets c) k = Some a" and "f a = Inr b"
    and "generic_find (assets c') = (generic_find (assets c))(k \<mapsto> b)" and "c' = c\<lparr>assets := assets c'\<rparr>"
    and "chain_ok c'" and "\<And>x. holdings c' x = holdings c x" and "\<And>x. supply_of c' x = supply_of c x"
proof -
  from m obtain t where t: "t_modify asset_key k f (assets c) = Inr t" and c': "c' = c\<lparr>assets := t\<rparr>"
    by (auto simp: modify_asset_def)
  have "t_ok (assets c)" using ok by (simp add: frame)
  then obtain a b where ab: "generic_find (assets c) k = Some a" "f a = Inr b" "t_ok t"
    "generic_find t = (generic_find (assets c))(k \<mapsto> b)"
    using t by (rule t_modify_law)
  have d: "dynamic_asset_data_id b = dynamic_asset_data_id a" using f ab(2) by blast
  have same: "map_option dynamic_asset_data_id (generic_find t x) = map_option dynamic_asset_data_id (generic_find (assets c) x)" for x
    using ab(1,4) d by simp
  have aok: "assets_ok c" using ok by (rule chain_okD)
  have dyn_inj: "x = y" if "map_option dynamic_asset_data_id (generic_find (assets c) x) = Some n"
      "map_option dynamic_asset_data_id (generic_find (assets c) y) = Some n" for x y n
    using that assets_ok_inj [OF aok] by (cases "generic_find (assets c) x"; cases "generic_find (assets c) y") auto
  have dyn_ex: "generic_find (asset_dyn c) n \<noteq> None" if "map_option dynamic_asset_data_id (generic_find (assets c) x) = Some n" for x n
    using that aok by (auto simp: assets_ok_def)
  have "assets_ok c'"
    unfolding assets_ok_def c'
  proof (intro conjI allI impI, goal_cases)
    case (3 x xo)
    then have "map_option dynamic_asset_data_id (generic_find (assets c) x) = Some (dynamic_asset_data_id xo)"
      using same [of x] by simp
    then show ?case using dyn_ex by simp
  next
    case (4 x y xo yo)
    then have "map_option dynamic_asset_data_id (generic_find (assets c) x) = Some (dynamic_asset_data_id xo)"
      "map_option dynamic_asset_data_id (generic_find (assets c) y) = Some (dynamic_asset_data_id xo)"
      using same [of x] same [of y] by simp_all
    then show ?case by (rule dyn_inj)
  qed (use ab(3) ok in \<open>simp_all add: frame\<close>)
  then have ok': "chain_ok c'" using ok ab(3) by (simp add: chain_ok_def tables_ok_def c')
  have pool: "asset_pool_of c' x = asset_pool_of c x" "supply_of c' x = supply_of c x" for x
    using same [of x] by (cases "generic_find t x"; cases "generic_find (assets c) x"; simp add: asset_pool_of_def supply_of_def c')+
  have "core_pools c' = core_pools c" by (simp add: core_pools_def c')
  then have hold: "holdings c' x = holdings c x" for x
    using pool(1) [of x] by (simp add: holdings_def total_balance_def c')
  show thesis by (rule that [OF ab(1,2) _ _ ok' hold pool(2)]) (simp_all add: c' ab(4))
qed

lemma monitored_asset_update_contract:
  "safe_exact S \<Longrightarrow> evaluator_contract S (monitored_asset_update_do_evaluate op) (monitored_asset_update_do_apply op)
     no_pre nothing nothing"
  by (rule keeps_contract)
    (auto simp: monitored_asset_update_do_evaluate_def monitored_asset_update_do_apply_def elim: modify_asset_law)

lemma user_issued_asset_update_contract:
  "safe_exact S \<Longrightarrow> evaluator_contract S (user_issued_asset_update_do_evaluate op) (user_issued_asset_update_do_apply op)
     no_pre nothing nothing"
  by (rule keeps_contract)
    (auto simp: user_issued_asset_update_do_evaluate_def user_issued_asset_update_do_apply_def Let_def
      elim: modify_asset_law)

lemma asset_publish_feeds_contract:
  "safe_exact S \<Longrightarrow> evaluator_contract S (asset_publish_feeds_do_evaluate op) (asset_publish_feeds_do_apply nth_el op)
     no_pre nothing nothing"
  by (rule keeps_contract)
    (auto simp: asset_publish_feeds_do_evaluate_def asset_publish_feeds_do_apply_def elim: modify_asset_law)

lemma uia_advanced_contract:
  "safe_exact S \<Longrightarrow> evaluator_contract S (uia_advanced_do_evaluate ft op) (uia_advanced_do_apply op)
     no_pre nothing nothing"
  by (rule keeps_contract)
    (auto simp: uia_advanced_do_evaluate_def uia_advanced_do_apply_def Let_def elim: modify_asset_law)

text \<open>An evaluator that keeps the asset it looked up, to change its dynamic data.\<close>

definition is_asset :: "asset_id_type \<Rightarrow> asset_object \<Rightarrow> chain \<Rightarrow> bool" where
  "is_asset k a c \<longleftrightarrow> generic_find (assets c) k = Some a"

definition amount_in :: "int \<Rightarrow> asset \<Rightarrow> 'x \<Rightarrow> asset_id_type \<Rightarrow> int" where
  "amount_in sign d x a = (if a = asset_id d then sign * amount d else 0)"

lemma dyn_step:
  assumes S: "safe_exact S" and ok: "chain_ok c" and k: "is_asset k a c"
    and 1: "adjust_balance S x d c = Inr c1" and 2: "modify_dyn a f c1 = Inr c'"
  obtains u v where "f u = Inr v" and "chain_ok c'" and "is_asset k a c'"
    and "\<And>b. holdings c' b = holdings c b + (if b = asset_id d then amount d else 0) +
      (if b = k then asset_pool v - asset_pool u else 0) + (if b = 0 then core_pool v - core_pool u else 0)"
    and "\<And>b. supply_of c' b = supply_of c b + (if b = k then current_supply v - current_supply u else 0)"
proof -
  note l = adjust_balance_holdings [OF S ok 1]
  have k1: "generic_find (assets c1) k = Some a" using k by (subst l(4)) (simp add: is_asset_def)
  show thesis
  proof (rule modify_dyn_law [OF l(1) k1 2])
    fix u v
    assume uv: "f u = Inr v" "chain_ok c'" and c': "c' = c1\<lparr>asset_dyn := asset_dyn c'\<rparr>"
      and h: "\<And>b. holdings c' b = holdings c1 b + (if b = k then asset_pool v - asset_pool u else 0) +
          (if b = 0 then core_pool v - core_pool u else 0)"
      and s: "\<And>b. supply_of c' b = supply_of c1 b + (if b = k then current_supply v - current_supply u else 0)"
    have "is_asset k a c'" using k1 by (subst c') (simp add: is_asset_def)
    then show thesis using that [OF uv] h s l(2,3) by simp
  qed
qed

lemma asset_issue_contract:
  assumes "safe_exact S"
  shows "evaluator_contract S (asset_issue_do_evaluate S op) (asset_issue_do_apply S op)
    (is_asset (asset_id (ai_asset_to_issue op))) (amount_in 1 (ai_asset_to_issue op)) (amount_in 1 (ai_asset_to_issue op))"
proof (unfold_locales, goal_cases)
  case 1
  show ?case by (rule assms)
next
  case (2 c f f' x)
  then show ?case by (auto simp: asset_issue_do_evaluate_def is_asset_def get_asset_def)
next
  case (3 x c t)
  then show ?case by (simp add: is_asset_def)
next
  case (4 c x f c' a)
  from 4(3) obtain c1 where 1: "adjust_balance S (ai_issue_to_account op) (ai_asset_to_issue op) c = Inr c1"
    and 2: "modify_dyn x (\<lambda>data. bindE (S (current_supply data + amount (ai_asset_to_issue op))) (\<lambda>s.
       Inr (data\<lparr>current_supply := s\<rparr>))) c1 = Inr c'"
    by (auto simp: asset_issue_do_apply_def)
  show ?case
    by (rule dyn_step [OF assms 4(1,2) 1 2]) (auto simp: amount_in_def dest!: safe_exactD [OF assms])
qed

lemma asset_reserve_contract:
  assumes "safe_exact S"
  shows "evaluator_contract S (asset_reserve_do_evaluate S op) (asset_reserve_do_apply S op)
    (is_asset (asset_id (ar_amount_to_reserve op))) (amount_in (- 1) (ar_amount_to_reserve op))
    (amount_in (- 1) (ar_amount_to_reserve op))"
proof (unfold_locales, goal_cases)
  case 1
  show ?case by (rule assms)
next
  case (2 c f f' x)
  then show ?case by (auto simp: asset_reserve_do_evaluate_def is_asset_def get_asset_def)
next
  case (3 x c t)
  then show ?case by (simp add: is_asset_def)
next
  case (4 c x f c' a)
  from 4(3) obtain c1 neg where n: "asset_neg S (ar_amount_to_reserve op) = Inr neg"
    and 1: "adjust_balance S (ar_payer op) neg c = Inr c1"
    and 2: "modify_dyn x (\<lambda>data. bindE (S (current_supply data - amount (ar_amount_to_reserve op))) (\<lambda>s.
       Inr (data\<lparr>current_supply := s\<rparr>))) c1 = Inr c'"
    by (auto simp: asset_reserve_do_apply_def)
  show ?case
    by (rule dyn_step [OF assms 4(1,2) 1 2])
      (auto simp: amount_in_def asset_neg_exact [OF assms n] dest!: safe_exactD [OF assms])
qed

text \<open>The optional transfers between an account and the pools.\<close>

lemma pool_step:
  assumes S: "safe_exact S" and ok: "chain_ok c" and k: "is_asset k a c"
    and st: "(if P then bindE m (\<lambda>d. bindE (adjust_balance S x d c) (modify_dyn a f)) else Inr c) = Inr c'"
    and f: "\<And>d u v. P \<Longrightarrow> m = Inr d \<Longrightarrow> f u = Inr v \<Longrightarrow> current_supply v = current_supply u \<and>
      (\<forall>b. (if b = asset_id d then amount d else 0) + (if b = k then asset_pool v - asset_pool u else 0) +
        (if b = 0 then core_pool v - core_pool u else 0) = 0)"
  shows "chain_ok c' \<and> is_asset k a c' \<and> holdings c' b = holdings c b \<and> supply_of c' b = supply_of c b"
proof (cases P)
  case False
  then show ?thesis using st ok k by simp
next
  case True
  then obtain d c1 where d: "m = Inr d" and 1: "adjust_balance S x d c = Inr c1" and 2: "modify_dyn a f c1 = Inr c'"
    using st by auto
  show ?thesis
  proof (rule dyn_step [OF S ok k 1 2])
    fix u v assume uv: "f u = Inr v" and r: "chain_ok c'" "is_asset k a c'"
      "\<And>b. holdings c' b = holdings c b + (if b = asset_id d then amount d else 0) +
        (if b = k then asset_pool v - asset_pool u else 0) + (if b = 0 then core_pool v - core_pool u else 0)"
      "\<And>b. supply_of c' b = supply_of c b + (if b = k then current_supply v - current_supply u else 0)"
    show ?thesis using r spec [OF conjunct2 [OF f [OF True d uv]], of b] conjunct1 [OF f [OF True d uv]] by simp
  qed
qed

definition is_asset_core :: "asset_id_type \<Rightarrow> asset \<Rightarrow> asset_object \<Rightarrow> chain \<Rightarrow> bool" where
  "is_asset_core k core a c \<longleftrightarrow> is_asset k a c \<and> asset_id core = 0"

lemma assets_ok_dyn: "assets_ok c \<Longrightarrow> generic_find (assets c) x = Some ao \<Longrightarrow>
    generic_find (asset_dyn c) (dynamic_asset_data_id ao) \<noteq> None"
  unfolding assets_ok_def by blast

lemma asset_fund_pools_contract:
  assumes "safe_exact S"
  shows "evaluator_contract S (asset_fund_pools_do_evaluate op) (asset_fund_pools_do_apply S op)
    (is_asset_core (asset_id (fp_uia_asset op)) (fp_dct_asset op)) nothing nothing"
proof (unfold_locales, goal_cases)
  case 1
  show ?case by (rule assms)
next
  case (2 c f f' x)
  from 2(2) have "asset_le (fp_dct_asset op) (get_balance c (fp_from_account op) 0) = Inr True"
    by (auto simp: asset_fund_pools_do_evaluate_def)
  then have "asset_id (fp_dct_asset op) = 0"
    using get_balance_asset [of c "fp_from_account op" 0] chain_okD(1) [OF 2(1)] by (auto dest!: asset_le_True)
  then show ?case using 2 by (auto simp: asset_fund_pools_do_evaluate_def is_asset_core_def is_asset_def get_asset_def)
next
  case (3 x c t)
  then show ?case by (simp add: is_asset_core_def is_asset_def)
next
  case (4 c x f c' a)
  have p: "is_asset (asset_id (fp_uia_asset op)) x c" "asset_id (fp_dct_asset op) = 0"
    using 4(2) by (simp_all add: is_asset_core_def)
  from 4(3) obtain c2 where 1: "(if 0 < amount (fp_uia_asset op) then bindE (asset_neg S (fp_uia_asset op)) (\<lambda>d.
      bindE (adjust_balance S (fp_from_account op) d c) (modify_dyn x (\<lambda>data.
        bindE (S (asset_pool data + amount (fp_uia_asset op))) (\<lambda>p. Inr (data\<lparr>asset_pool := p\<rparr>))))) else Inr c) = Inr c2"
    and 2: "(if 0 < amount (fp_dct_asset op) then bindE (asset_neg S (fp_dct_asset op)) (\<lambda>d.
      bindE (adjust_balance S (fp_from_account op) d c2) (modify_dyn x (\<lambda>data.
        bindE (S (core_pool data + amount (fp_dct_asset op))) (\<lambda>p. Inr (data\<lparr>core_pool := p\<rparr>))))) else Inr c2) = Inr c'"
    unfolding asset_fund_pools_do_apply_def by (simp only: bindE_eq_Inr) blast
  have s1: "chain_ok c2 \<and> is_asset (asset_id (fp_uia_asset op)) x c2 \<and> holdings c2 a = holdings c a \<and>
      supply_of c2 a = supply_of c a"
    by (rule pool_step [OF assms 4(1) p(1) 1]) (auto dest!: safe_exactD [OF assms] asset_neg_exact [OF assms])
  have "chain_ok c' \<and> is_asset (asset_id (fp_uia_asset op)) x c' \<and> holdings c' a = holdings c2 a \<and>
      supply_of c' a = supply_of c2 a"
    by (rule pool_step [OF assms conjunct1 [OF s1] conjunct1 [OF conjunct2 [OF s1]] 2])
      (auto simp: p(2) dest!: safe_exactD [OF assms] asset_neg_exact [OF assms])
  then show ?case using s1 by (simp add: nothing_def)
qed

lemma asset_claim_fees_contract:
  assumes "safe_exact S" and v: "asset_claim_fees_validate op = Inr ()"
  shows "evaluator_contract S (asset_claim_fees_do_evaluate op) (asset_claim_fees_do_apply S op)
    (is_asset (asset_id (cf_uia_asset op))) nothing nothing"
proof (unfold_locales, goal_cases)
  case 1
  show ?case by (rule assms)
next
  case (2 c f f' x)
  then show ?case by (auto simp: asset_claim_fees_do_evaluate_def is_asset_def get_asset_def)
next
  case (3 x c t)
  then show ?case by (simp add: is_asset_def)
next
  case (4 c x f c' a)
  have z: "asset_id (cf_dct_asset op) = 0" using v by (simp add: asset_claim_fees_validate_def)
  from 4(3) obtain c2 where 1: "(if 0 < amount (cf_uia_asset op) then bindE (Inr (cf_uia_asset op)) (\<lambda>d.
      bindE (adjust_balance S (cf_issuer op) d c) (modify_dyn x (\<lambda>data.
        bindE (S (asset_pool data - amount (cf_uia_asset op))) (\<lambda>p. Inr (data\<lparr>asset_pool := p\<rparr>))))) else Inr c) = Inr c2"
    and 2: "(if 0 < amount (cf_dct_asset op) then bindE (Inr (cf_dct_asset op)) (\<lambda>d.
      bindE (adjust_balance S (cf_issuer op) d c2) (modify_dyn x (\<lambda>data.
        bindE (S (core_pool data - amount (cf_dct_asset op))) (\<lambda>p. Inr (data\<lparr>core_pool := p\<rparr>))))) else Inr c2) = Inr c'"
    unfolding asset_claim_fees_do_apply_def by (simp only: bindE_eq_Inr bindE_simps) blast
  have s1: "chain_ok c2 \<and> is_asset (asset_id (cf_uia_asset op)) x c2 \<and> holdings c2 a = holdings c a \<and>
      supply_of c2 a = supply_of c a"
    by (rule pool_step [OF assms(1) 4(1,2) 1]) (auto dest!: safe_exactD [OF assms(1)])
  have "chain_ok c' \<and> is_asset (asset_id (cf_uia_asset op)) x c' \<and> holdings c' a = holdings c2 a \<and>
      supply_of c' a = supply_of c2 a"
    by (rule pool_step [OF assms(1) conjunct1 [OF s1] conjunct1 [OF conjunct2 [OF s1]] 2])
      (auto simp: z dest!: safe_exactD [OF assms(1)])
  then show ?case using s1 by (simp add: nothing_def)
qed

sublocale safe_arith \<subseteq> asset_issue: evaluator_contract S "asset_issue_do_evaluate S op" "asset_issue_do_apply S op"
    "is_asset (asset_id (ai_asset_to_issue op))" "amount_in 1 (ai_asset_to_issue op)" "amount_in 1 (ai_asset_to_issue op)" for op
  by (rule asset_issue_contract [OF exact])

sublocale safe_arith \<subseteq> asset_reserve: evaluator_contract S "asset_reserve_do_evaluate S op" "asset_reserve_do_apply S op"
    "is_asset (asset_id (ar_amount_to_reserve op))" "amount_in (- 1) (ar_amount_to_reserve op)"
    "amount_in (- 1) (ar_amount_to_reserve op)" for op
  by (rule asset_reserve_contract [OF exact])

sublocale safe_arith \<subseteq> asset_fund_pools: evaluator_contract S "asset_fund_pools_do_evaluate op"
    "asset_fund_pools_do_apply S op" "is_asset_core (asset_id (fp_uia_asset op)) (fp_dct_asset op)" nothing nothing for op
  by (rule asset_fund_pools_contract [OF exact])

section \<open>Creation changes the core asset\<close>

text \<open>A new asset with dynamic data of its own.\<close>

lemma new_asset_law:
  assumes ok: "chain_ok c" and td: "t_create no_unique d (asset_dyn c) = Inr td" and ta: "t_create asset_key new (assets c) = Inr ta"
    and new: "dynamic_asset_data_id new = g_next_id (asset_dyn c)"
  defines "c' \<equiv> c\<lparr>asset_dyn := td, assets := ta\<rparr>"
  shows "chain_ok c'"
    and "holdings c' a = holdings c a + (if a = g_next_id (assets c) then asset_pool d else 0) + (if a = 0 then core_pool d else 0)"
    and "supply_of c' a = (if a = g_next_id (assets c) then current_supply d else supply_of c a)"
proof -
  have tok: "t_ok (asset_dyn c)" "t_ok (assets c)" using ok by (simp_all add: frame)
  note ld = t_create_law [OF tok(1) td] and la = t_create_law [OF tok(2) ta]
  have aok: "assets_ok c" using ok by (rule chain_okD)
  have fd: "generic_find (asset_dyn c) (g_next_id (asset_dyn c)) = None" by (rule generic_fresh [OF tok(1)]) simp
  have fa: "generic_find (assets c) (g_next_id (assets c)) = None" by (rule generic_fresh [OF tok(2)]) simp
  have old: "dynamic_asset_data_id ao \<noteq> g_next_id (asset_dyn c)" if "generic_find (assets c) x = Some ao" for x ao
    using assets_ok_dyn [OF aok that] fd by auto
  have "assets_ok c'"
    unfolding assets_ok_def c'_def
  proof (intro conjI allI impI, goal_cases)
    case (3 x xo)
    then show ?case using aok new by (auto simp: assets_ok_def ld(2) la(2) split: if_splits)
  next
    case (4 x y xo yo)
    then show ?case using assets_ok_inj [OF aok] old [of x xo] old [of y yo] new by (auto simp: la(2) split: if_splits)
  qed (simp_all add: ld la)
  then show "chain_ok c'" using ok ld(1) la(1) by (simp add: chain_ok_def tables_ok_def c'_def)
  have "core_pools c' = core_pools c + core_pool d"
    using t_sum_create [OF tok(1) td, of core_pool] by (simp add: core_pools_def c'_def)
  moreover have p: "asset_pool_of c' x = asset_pool_of c x + (if x = g_next_id (assets c) then asset_pool d else 0)"
    "supply_of c' x = (if x = g_next_id (assets c) then current_supply d else supply_of c x)" for x
    using fa old [of x] new
    by (cases "x = g_next_id (assets c)"; cases "generic_find (assets c) x";
        simp add: asset_pool_of_def supply_of_def c'_def ld(2) la(2))+
  ultimately show "holdings c' a = holdings c a + (if a = g_next_id (assets c) then asset_pool d else 0) + (if a = 0 then core_pool d else 0)"
    by (simp add: holdings_def total_balance_def c'_def)
  show "supply_of c' a = (if a = g_next_id (assets c) then current_supply d else supply_of c a)" by (rule p)
qed

lemma asset_create_effect:
  assumes ok: "chain_ok c" and ap: "asset_create_do_apply op f u c = Inr c'"
  shows "chain_ok c'" and "holdings c' a = holdings c a + (if a = 0 then core_fee_paid f else 0)"
    and "supply_of c' a = supply_of c a" and "balances c' = balances c"
proof -
  let ?d = "\<lparr>current_supply = 0, asset_pool = 0, core_pool = core_fee_paid f\<rparr>"
  from ap obtain td ta new where td: "t_create no_unique ?d (asset_dyn c) = Inr td"
    and ta: "t_create asset_key new (assets c) = Inr ta" and new: "dynamic_asset_data_id new = g_next_id (asset_dyn c)"
    and c': "c' = c\<lparr>asset_dyn := td, assets := ta\<rparr>"
    by (auto simp: asset_create_do_apply_def Let_def)
  note law = new_asset_law [OF ok td ta new, folded c']
  have "generic_find (assets c) (g_next_id (assets c)) = None"
    by (rule generic_fresh) (use ok in \<open>simp_all add: frame\<close>)
  then have "supply_of c (g_next_id (assets c)) = 0" by (simp add: supply_of_def)
  then show "supply_of c' a = supply_of c a" using law(3) [of a] by simp
  show "chain_ok c'" and "holdings c' a = holdings c a + (if a = 0 then core_fee_paid f else 0)"
    using law(1) law(2) [of a] by simp_all
  show "balances c' = balances c" by (simp add: c')
qed

lemma asset_create_fee_effect:
  assumes S: "safe_exact S" and ok: "chain_ok c" and nf: "\<not> skip_fee st" and pf: "prepare_fee c payer (ac_fee op) = Inr f"
    and run: "start_evaluate S st r payer (ac_fee op) (asset_create_do_evaluate S ft op) (asset_create_do_apply op) c = Inr c'"
  shows "chain_ok c' \<and> supply_of c' a = supply_of c a \<and>
    holdings c' a = holdings c a +
      (if a = 0 then (if asset_id (ac_fee op) = 0 then amount (ac_fee op) mod 2
                      else core_fee_paid f - core_fee_paid f div 2) else 0)"
proof -
  let ?p = "core_fee_paid f - core_fee_paid f div 2"
  let ?f = "f\<lparr>core_fee_paid := ?p\<rparr>"
  have pos: "0 \<le> core_fee_paid f" and fee: "fee_from_account f = ac_fee op"
    and core: "asset_id (ac_fee op) = 0 \<longrightarrow> core_fee_paid f = amount (ac_fee op)"
    using pf asset_times_price_nonneg by (auto simp: prepare_fee_def split: if_splits)
  have "c_div (core_fee_paid f) 2 = core_fee_paid f div 2"
    using pos by (auto simp: c_div_def sgn_if)
  with run pf obtain c1 c2 c3 d where 1: "convert_fee S st ?f c = Inr c1" and 2: "pay_fee S st ?f c1 = Inr c2"
    and 3: "asset_create_do_apply op ?f () c2 = Inr c3" and d: "asset_neg S (ac_fee op) = Inr d"
    and 4: "adjust_balance S payer d c3 = Inr c'"
    by (auto simp: start_evaluate_def evaluate_def asset_create_do_evaluate_def apply_op_def Let_def fee
        split: if_splits dest!: safe_exactD [OF S])
  note m = fee_moves_paid [OF S ok nf pf refl 1 2]
  note a3 = asset_create_effect [OF m(1) 3]
  note a4 = adjust_balance_holdings [OF S a3(1) 4]
  have "d = mk_asset (- amount (ac_fee op)) (asset_id (ac_fee op))" using asset_neg_exact [OF S d] .
  moreover have "2 * ?p - core_fee_paid f = core_fee_paid f mod 2" by presburger
  ultimately show ?thesis
    using m(2,3) [of a] a3(2,3) [of a] a4(1) a4(2,3) [of a] core by auto
qed

text \<open>
  C20. Creating an asset changes what is held of the core asset: half of the fee, rounded up, goes to
  the core asset's pool and the same half into the new asset's pool. With a fee in core asset one
  unit is minted when the fee is odd; with a fee in another asset the pool that pays it is debited
  only once, so that half of the fee is minted.
\<close>

theorem asset_create_core_effect:
  assumes S: "safe_exact S" and ok: "chain_ok c" and nf: "\<not> skip_fee st" and pf: "prepare_fee c payer (ac_fee op) = Inr f"
    and run: "start_evaluate S st r payer (ac_fee op) (asset_create_do_evaluate S ft op) (asset_create_do_apply op) c = Inr c'"
  shows "chain_ok c' \<and> supply_of c' a = supply_of c a \<and>
    holdings c' a = holdings c a +
      (if a = 0 then (if asset_id (ac_fee op) = 0 then amount (ac_fee op) mod 2
                      else core_fee_paid f - core_fee_paid f div 2) else 0)"
  by (rule asset_create_fee_effect [OF assms])

definition demo_create :: asset_create_operation where
  "demo_create = \<lparr>ac_fee = mk_asset 5 1, ac_issuer = 4, ac_symbol = ''GOLD'', ac_precision = 4, ac_description = [],
     ac_options = \<lparr>max_supply = 1000, core_exchange_rate = demo_uia_rate, is_exchangeable = True,
       extensions = [Fixed_Max_Supply True]\<rparr>, ac_monitored_asset_opts = None\<rparr>"

theorem asset_create_core_effect_witness:
  "\<exists>c'. start_evaluate checked64 demo_trx (Inr 10) 4 (mk_asset 5 1) (asset_create_do_evaluate checked64 demo_forks demo_create)
      (asset_create_do_apply demo_create) demo_chain = Inr c' \<and>
    supply_of c' 0 = supply_of demo_chain 0 \<and> holdings c' 0 = holdings demo_chain 0 + 5"
proof -
  let ?r = "start_evaluate checked64 demo_trx (Inr 10) 4 (ac_fee demo_create)
    (asset_create_do_evaluate checked64 demo_forks demo_create) (asset_create_do_apply demo_create) demo_chain"
  have "succeeds ?r" by code_simp
  then obtain c' where r: "?r = Inr c'" by (rule succeedsE)
  let ?f = "prepare_fee demo_chain 4 (ac_fee demo_create)"
  have p: "(case ?f of Inl _ \<Rightarrow> False | Inr f \<Rightarrow> core_fee_paid f = 10)" by code_simp
  then obtain f where f: "?f = Inr f" "core_fee_paid f = 10" by (auto split: sum.splits)
  have "asset_id (ac_fee demo_create) \<noteq> 0" "ac_fee demo_create = mk_asset 5 1" by (simp_all add: demo_create_def)
  then show ?thesis
    using r asset_create_core_effect [OF checked64_exact demo_chain_ok demo_trx_fee f(1) r, of 0] f(2) by auto
qed

section \<open>Properties of the updates\<close>

lemma supply_of_asset:
  "generic_find (assets c) k = Some a \<Longrightarrow> get_dyn c a = Inr d \<Longrightarrow> supply_of c k = current_supply d"
  by (simp add: supply_of_def get_dyn_def)

text \<open>
  C14. Issuing an asset never lifts its recorded supply above the maximum its options allow, adds the
  issued amount to the supply of that asset and of no other, and what is held of every asset changes
  exactly with its recorded supply.
\<close>

theorem issue_within_max_supply:
  assumes "safe_exact S" and "chain_ok c" and "\<not> skip_fee st"
    and "start_evaluate S st r (ai_issuer op) (ai_fee op) (asset_issue_do_evaluate S op) (asset_issue_do_apply S op) c = Inr c'"
    and "generic_find (assets c) (asset_id (ai_asset_to_issue op)) = Some ao"
  shows "chain_ok c' \<and> ai_issuer op = issuer ao \<and>
    supply_of c' (asset_id (ai_asset_to_issue op)) \<le> max_supply (options ao) \<and>
    supply_of c' a = supply_of c a + (if a = asset_id (ai_asset_to_issue op) then amount (ai_asset_to_issue op) else 0) \<and>
    holdings c' a - supply_of c' a = holdings c a - supply_of c a"
proof -
  note contract = asset_issue_contract [OF assms(1), of op]
  obtain f x where ev: "evaluate st r (ai_issuer op) (ai_fee op) (asset_issue_do_evaluate S op) c = Inr (f, x)"
    and ok: "chain_ok c'" and eff: "\<And>a. holdings c' a = holdings c a + amount_in 1 (ai_asset_to_issue op) x a \<and>
      supply_of c' a = supply_of c a + amount_in 1 (ai_asset_to_issue op) x a"
    using evaluator_contract.run_law [OF contract assms(2-4)] by blast
  from ev obtain d where "get_dyn c ao = Inr d" and "current_supply d + amount (ai_asset_to_issue op) \<le> max_supply (options ao)"
    and i: "ai_issuer op = issuer ao"
    using assms(5) by (auto simp: evaluate_def asset_issue_do_evaluate_def get_asset_def dest!: safe_exactD [OF assms(1)])
  then have "supply_of c (asset_id (ai_asset_to_issue op)) + amount (ai_asset_to_issue op) \<le> max_supply (options ao)"
    using supply_of_asset [OF assms(5)] by simp
  then show ?thesis
    using eff [of a] eff [of "asset_id (ai_asset_to_issue op)"] ok i by (simp add: amount_in_def)
qed

definition demo_issue :: asset_issue_operation where
  "demo_issue = \<lparr>ai_fee = mk_asset 10 0, ai_issuer = 4, ai_asset_to_issue = mk_asset 90 1, ai_issue_to_account = 5\<rparr>"

definition demo_uia :: asset_object where
  "demo_uia = snd (g_rows demo_assets ! 1)"

theorem issue_within_max_supply_witness:
  "\<exists>c'. start_evaluate checked64 demo_trx (Inr 10) 4 (mk_asset 10 0) (asset_issue_do_evaluate checked64 demo_issue)
      (asset_issue_do_apply checked64 demo_issue) demo_chain = Inr c' \<and>
    supply_of c' 1 = supply_of demo_chain 1 + 90 \<and> supply_of c' 1 \<le> max_supply (options demo_uia)"
proof -
  let ?r = "start_evaluate checked64 demo_trx (Inr 10) (ai_issuer demo_issue) (ai_fee demo_issue)
    (asset_issue_do_evaluate checked64 demo_issue) (asset_issue_do_apply checked64 demo_issue) demo_chain"
  have "succeeds ?r" by code_simp
  then obtain c' where r: "?r = Inr c'" by (rule succeedsE)
  have "generic_find (assets demo_chain) (asset_id (ai_asset_to_issue demo_issue)) = Some demo_uia"
    by (simp add: demo_chain_def demo_assets_def demo_issue_def demo_uia_def generic_find_def mk_asset_def)
  from issue_within_max_supply [OF checked64_exact demo_chain_ok demo_trx_fee r this, of 1] show ?thesis
    using r by (simp add: demo_issue_def)
qed

text \<open>An asset whose maximal supply is fixed.\<close>

definition supply_fixed :: "chain \<Rightarrow> asset_id_type \<Rightarrow> int \<Rightarrow> bool" where
  "supply_fixed c k n \<longleftrightarrow> (\<exists>a. generic_find (assets c) k = Some a \<and>
     find_fixed_max_supply (extensions (options a)) = Some True \<and> max_supply (options a) = n)"

lemma find_fixed_append: "find_fixed_max_supply es = Some b \<Longrightarrow> find_fixed_max_supply (es @ xs) = Some b"
  by (induction es rule: find_fixed_max_supply.induct) auto

lemma find_fixed_set: "find_fixed_max_supply es = Some b \<Longrightarrow> find_fixed_max_supply (set_fixed_max_supply es) = Some True"
  by (induction es rule: find_fixed_max_supply.induct) auto

lemma supply_fixed_cong: "assets c' = assets c \<Longrightarrow> supply_fixed c' k n = supply_fixed c k n"
  by (simp add: supply_fixed_def)

lemma modify_asset_fixed:
  assumes "chain_ok c" and "supply_fixed c k n" and "modify_asset j g c = Inr c'"
    and "\<And>a b. g a = Inr b \<Longrightarrow> dynamic_asset_data_id b = dynamic_asset_data_id a"
    and "\<And>a b. j = k \<Longrightarrow> g a = Inr b \<Longrightarrow> generic_find (assets c) k = Some a \<Longrightarrow>
      find_fixed_max_supply (extensions (options a)) = Some True \<Longrightarrow>
      find_fixed_max_supply (extensions (options b)) = Some True \<and> max_supply (options b) = max_supply (options a)"
  shows "supply_fixed c' k n"
  by (rule modify_asset_law [OF assms(1,3,4)]) (use assms(2,5) in \<open>auto simp: supply_fixed_def\<close>)

text \<open>
  Once the maximal supply of an asset is fixed it stays what it is: neither update of a
  user-issued asset changes the maximum or removes the mark.
\<close>

theorem fixed_max_supply_is_final:
  assumes S: "safe_exact S" and ok: "chain_ok c" and nf: "\<not> skip_fee st" and fixed: "supply_fixed c k n"
    and run: "start_evaluate S st r payer fee (user_issued_asset_update_do_evaluate uop) (user_issued_asset_update_do_apply uop) c = Inr c' \<or>
      start_evaluate S st r payer fee (uia_advanced_do_evaluate ft aop) (uia_advanced_do_apply aop) c = Inr c'"
  shows "supply_fixed c' k n"
  using run
proof
  assume "start_evaluate S st r payer fee (user_issued_asset_update_do_evaluate uop) (user_issued_asset_update_do_apply uop) c = Inr c'"
  with ok nf show ?thesis
  proof (rule evaluator_contract.run_steps [OF user_issued_asset_update_contract [OF S]])
    fix f x c2 c3
    assume ok2: "chain_ok c2" and ev: "user_issued_asset_update_do_evaluate uop f c = Inr (f, x)"
      and c2: "c2 = c\<lparr>asset_dyn := asset_dyn c2\<rparr>"
      and 3: "user_issued_asset_update_do_apply uop f x c2 = Inr c3"
      and 4: "adjust_balance S payer (mk_asset (- amount fee) (asset_id fee)) c3 = Inr c'"
    have eq: "assets c2 = assets c" by (subst c2) simp
    have fx: "supply_fixed c2 k n" using fixed supply_fixed_cong [OF eq] by simp
    have "supply_fixed c3 k n"
      by (rule modify_asset_fixed [OF ok2 fx 3 [unfolded user_issued_asset_update_do_apply_def]])
        (use ev eq in \<open>auto simp: user_issued_asset_update_do_evaluate_def get_asset_def Let_def\<close>)
    moreover have "chain_ok c3" using 3 ok2 by (auto simp: user_issued_asset_update_do_apply_def elim: modify_asset_law)
    then have "assets c' = assets c3" by (subst adjust_balance_holdings(4) [OF S _ 4]) simp_all
    ultimately show ?thesis using supply_fixed_cong [of c' c3] by blast
  qed
next
  assume "start_evaluate S st r payer fee (uia_advanced_do_evaluate ft aop) (uia_advanced_do_apply aop) c = Inr c'"
  with ok nf show ?thesis
  proof (rule evaluator_contract.run_steps [OF uia_advanced_contract [OF S]])
    fix f x c2 c3
    assume ok2: "chain_ok c2" and ev: "uia_advanced_do_evaluate ft aop f c = Inr (f, x)"
      and c2: "c2 = c\<lparr>asset_dyn := asset_dyn c2\<rparr>"
      and 3: "uia_advanced_do_apply aop f x c2 = Inr c3"
      and 4: "adjust_balance S payer (mk_asset (- amount fee) (asset_id fee)) c3 = Inr c'"
    have eq: "assets c2 = assets c" by (subst c2) simp
    have fx: "supply_fixed c2 k n" using fixed supply_fixed_cong [OF eq] by simp
    have "supply_fixed c3 k n"
      by (rule modify_asset_fixed [OF ok2 fx 3 [unfolded uia_advanced_do_apply_def case_prod_unfold]])
        (auto simp: find_fixed_append find_fixed_set)
    moreover have "chain_ok c3" using 3 ok2 by (auto simp: uia_advanced_do_apply_def split: prod.splits elim: modify_asset_law)
    then have "assets c' = assets c3" by (subst adjust_balance_holdings(4) [OF S _ 4]) simp_all
    ultimately show ?thesis using supply_fixed_cong [of c' c3] by blast
  qed
qed

definition demo_fixed_chain :: chain where
  "demo_fixed_chain = demo_chain\<lparr>assets := \<lparr>g_next_id = 2, g_rows = [g_rows demo_assets ! 0,
     (1, demo_uia\<lparr>options := (options demo_uia)\<lparr>extensions := [Fixed_Max_Supply True]\<rparr>\<rparr>)]\<rparr>\<rparr>"

definition demo_uia_update :: update_user_issued_asset_operation where
  "demo_uia_update = \<lparr>uu_fee = mk_asset 10 0, uu_issuer = 4, uu_asset_to_update = 1, uu_new_description = ''new'',
     uu_new_issuer = Some 5, uu_max_supply = 100000, uu_core_exchange_rate = demo_uia_rate, uu_is_exchangeable = False\<rparr>"

theorem fixed_max_supply_is_final_witness:
  "\<exists>c'. start_evaluate checked64 demo_trx (Inr 10) 4 (mk_asset 10 0) (user_issued_asset_update_do_evaluate demo_uia_update)
      (user_issued_asset_update_do_apply demo_uia_update) demo_fixed_chain = Inr c' \<and> supply_fixed c' 1 100000"
proof -
  let ?r = "start_evaluate checked64 demo_trx (Inr 10) 4 (mk_asset 10 0)
    (user_issued_asset_update_do_evaluate demo_uia_update) (user_issued_asset_update_do_apply demo_uia_update) demo_fixed_chain"
  have "succeeds ?r" by code_simp
  then obtain c' where r: "?r = Inr c'" by (rule succeedsE)
  have ok: "chain_ok demo_fixed_chain" by (rule chain_ok_rows) code_simp
  have "supply_fixed demo_fixed_chain 1 100000"
    by (simp add: supply_fixed_def demo_fixed_chain_def demo_assets_def demo_uia_def generic_find_def)
  from fixed_max_supply_is_final [OF checked64_exact ok demo_trx_fee this disjI1, OF r] r show ?thesis by blast
qed

end
