(* ===== verification/Chain_Update.thy ===== *)
theory Chain_Update
  imports Housekeeping Asset_Evaluator
begin

text \<open>
  \<open>db\_update.cpp\<close>: what the database updates with every block: the dynamic properties, the pay of
  the miner who signed the block, the last irreversible block, expired feeds and permissions. The
  shift of \<open>fc::uint128\<close> is a parameter, as is the hash of a block header.
\<close>

section \<open>Operations\<close>

definition GRAPHENE_MAX_UNDO_HISTORY :: nat where
  "GRAPHENE_MAX_UNDO_HISTORY = 10000"

definition count_missed :: "'tx signed_block \<Rightarrow> nat \<Rightarrow> chain \<Rightarrow> chain res" where
  "count_missed b i c =
     bindE (get_scheduled_miner (u32 (int i + 1)) c) (\<lambda>m.
     bindE (t_get (miners c) m) (\<lambda>_.
     if m \<noteq> b_miner b then
       bindE (t_modify miner_key m (\<lambda>w. Inr (w\<lparr>total_missed := total_missed w + 1\<rparr>)) (miners c)) (\<lambda>t.
       Inr (c\<lparr>miners := t\<rparr>))
     else Inr c))"

definition missed_count_after :: "nat list \<Rightarrow> nat \<Rightarrow> nat \<Rightarrow> nat \<Rightarrow> nat" where
  "missed_count_after checkpoints num missed n =
     (if num = 1 then 0
      else if checkpoints \<noteq> [] \<and> num \<le> last checkpoints then 0
      else if missed \<noteq> 0 then u32 (int n + int (u32 (4 * int missed)))
      else if 4 < n then n - 3
      else if 0 < n then n - 1
      else n)"

definition advance_properties ::
  "('tx signed_block \<Rightarrow> opaque) \<Rightarrow> (128 word \<Rightarrow> nat \<Rightarrow> 128 word) \<Rightarrow> nat list \<Rightarrow> 'tx signed_block \<Rightarrow> nat
    \<Rightarrow> dynamic_global_property_object \<Rightarrow> dynamic_global_property_object" where
  "advance_properties H shl checkpoints b missed d =
     d\<lparr>recently_missed_count := missed_count_after checkpoints (block_num b) missed (recently_missed_count d),
       head_block_number := block_num b, head_block_id := block_id H b, dg_time := b_timestamp b,
       current_miner := b_miner b,
       recent_slots_filled := shl (shl (recent_slots_filled d) 1 + 1) missed,
       current_aslot := u64 (int (current_aslot d) + int (u32 (int missed + 1)))\<rparr>"

text \<open>It returns the new maximal size of the undo and of the fork database with the state.\<close>

definition update_global_dynamic_data ::
  "('tx signed_block \<Rightarrow> opaque) \<Rightarrow> (128 word \<Rightarrow> nat \<Rightarrow> 128 word) \<Rightarrow> nat list \<Rightarrow> bool \<Rightarrow> 'tx signed_block \<Rightarrow> chain
    \<Rightarrow> (nat \<times> chain) res" where
  "update_global_dynamic_data H shl checkpoints skip_undo_history_check b c =
     bindE (get_slot_at_time (b_timestamp b) c) (\<lambda>slot.
     let missed = u32 (int slot - 1)
     in bindE (foldE (count_missed b) [0..<missed] c) (\<lambda>c1.
        let c2 = c1\<lparr>dgpo := advance_properties H shl checkpoints b missed (dgpo c1)\<rparr>;
            ahead = int (head_block_number (dgpo c2)) - int (last_irreversible_block_num (dgpo c2))
        in bindE (if \<not> skip_undo_history_check
                  then require (u32 ahead < GRAPHENE_MAX_UNDO_HISTORY) Undo_Database_Exception else Inr ()) (\<lambda>_.
           Inr (u32 (ahead + 1), c2))))"

definition miner_pay_from_fees :: "safe \<Rightarrow> chain \<Rightarrow> int res" where
  "miner_pay_from_fees S c =
     (let interval = block_interval (parameters (gpo c));
          time_to_maint = int (next_maintenance_time (dgpo c)) - int (last_budget_time (dgpo c))
      in if interval = 0 then Inl Undefined_Behaviour
         else
           let blocks_in_interval = u32 (int (u64 (int (u64 time_to_maint) + int interval - 1) div interval))
           in bindE (if 0 < blocks_in_interval then S (c_div (miner_budget_from_fees (dgpo c)) (int blocks_in_interval)) else Inr 0) (\<lambda>p.
              Inr (if p < 0 then 0 else p)))"

definition update_signing_miner :: "safe \<Rightarrow> nat \<Rightarrow> 'tx signed_block \<Rightarrow> chain \<Rightarrow> chain res" where
  "update_signing_miner S signing_miner b c =
     bindE (get_slot_at_time (b_timestamp b) c) (\<lambda>slot.
     let new_block_aslot = u64 (int (current_aslot (dgpo c)) + int slot)
     in bindE (miner_pay_from_fees S c) (\<lambda>from_fees.
        let from_reward = get_new_asset_per_block c
        in bindE (S (mined_rewards (dgpo c) + from_reward)) (\<lambda>mined.
           bindE (S (unspent_fee_budget (dgpo c) - from_fees)) (\<lambda>unspent.
           let c1 = c\<lparr>dgpo := (dgpo c)\<lparr>mined_rewards := mined, unspent_fee_budget := unspent\<rparr>\<rparr>
           in bindE (S (from_fees + from_reward)) (\<lambda>pay.
              bindE (deposit_miner_pay S signing_miner pay c1) (\<lambda>c2.
              bindE (t_modify miner_key signing_miner
                       (\<lambda>w. Inr (w\<lparr>last_aslot := new_block_aslot, last_confirmed_block_num := block_num b\<rparr>)) (miners c2)) (\<lambda>t.
              Inr (c2\<lparr>miners := t\<rparr>))))))))"

text \<open>
  \<open>std::nth\_element\<close> puts at a position the element a sorted range has there; only its number is read.
\<close>

definition irreversible_offset :: "nat \<Rightarrow> nat" where
  "irreversible_offset n = (10000 - 7000) * n div 10000"

definition confirmed_numbers :: "chain \<Rightarrow> nat list res" where
  "confirmed_numbers c =
     foldE (\<lambda>w ns. bindE (t_get (miners c) w) (\<lambda>m. Inr (ns @ [last_confirmed_block_num m]))) (active_miners (gpo c)) []"

definition update_last_irreversible_block :: "bool \<Rightarrow> chain \<Rightarrow> chain res" where
  "update_last_irreversible_block skip_undo_history_check c =
     (if skip_undo_history_check then
        Inr (c\<lparr>dgpo := (dgpo c)\<lparr>last_irreversible_block_num := head_block_num c\<rparr>\<rparr>)
      else
        bindE (confirmed_numbers c) (\<lambda>ns.
        if length ns \<le> irreversible_offset (length ns) then Inl Undefined_Behaviour
        else
          let new = sort ns ! irreversible_offset (length ns)
          in Inr (if last_irreversible_block_num (dgpo c) < new
                  then c\<lparr>dgpo := (dgpo c)\<lparr>last_irreversible_block_num := new\<rparr>\<rparr> else c)))"

definition update_expired_feeds ::
  "((price_feed \<Rightarrow> price_feed \<Rightarrow> bool) \<Rightarrow> nat \<Rightarrow> price_feed list \<Rightarrow> price_feed) \<Rightarrow> chain \<Rightarrow> chain res" where
  "update_expired_feeds nth_el c =
     foldE (\<lambda>r c. case monitored_asset_opts (snd r) of
         None \<Rightarrow> Inr c
       | Some mo \<Rightarrow>
           if feed_is_expired mo (head_block_time c) then
             modify_asset (fst r) (\<lambda>ao. Inr (ao\<lparr>monitored_asset_opts :=
               map_option (update_median_feeds nth_el (head_block_time c)) (monitored_asset_opts ao)\<rparr>)) c
           else Inr c) (g_rows (assets c)) c"

definition update_maintenance_flag :: "bool \<Rightarrow> chain \<Rightarrow> chain" where
  "update_maintenance_flag new_flag c =
     c\<lparr>dgpo := (dgpo c)\<lparr>dynamic_flags := dynamic_flags (dgpo c) - dynamic_flags (dgpo c) mod 2 +
        (if new_flag then maintenance_flag else 0)\<rparr>\<rparr>"

definition update_withdraw_permissions :: "chain \<Rightarrow> chain" where
  "update_withdraw_permissions c =
     c\<lparr>withdraw_permissions := fold (\<lambda>r. t_remove (fst r))
        (due_rows wp_expiration 0 (head_block_time c) (withdraw_permissions c)) (withdraw_permissions c)\<rparr>"

section \<open>Irreversible blocks have a supermajority\<close>

definition confirmed_by :: "nat \<Rightarrow> chain \<Rightarrow> nat" where
  "confirmed_by n c = length (filter (\<lambda>w. case generic_find (miners c) w of
     None \<Rightarrow> False | Some m \<Rightarrow> n \<le> last_confirmed_block_num m) (active_miners (gpo c)))"

lemma confirmed_numbers_law:
  assumes "confirmed_numbers c = Inr ns"
  shows "length ns = length (active_miners (gpo c))" and "length (filter (\<lambda>x. n \<le> x) ns) = confirmed_by n c"
proof -
  let ?f = "\<lambda>w ns. bindE (t_get (miners c) w) (\<lambda>m. Inr (ns @ [last_confirmed_block_num m]))"
  have "length ns = length pre + length ws \<and> length (filter (\<lambda>x. n \<le> x) ns) = length (filter (\<lambda>x. n \<le> x) pre) +
      length (filter (\<lambda>w. case generic_find (miners c) w of None \<Rightarrow> False | Some m \<Rightarrow> n \<le> last_confirmed_block_num m) ws)"
    if "foldE ?f ws pre = Inr ns" for ws pre
    using that
  proof (induction ws arbitrary: pre)
    case (Cons w ws)
    from Cons.prems obtain m where m: "generic_find (miners c) w = Some m"
      and rest: "foldE ?f ws (pre @ [last_confirmed_block_num m]) = Inr ns" by auto
    show ?case using Cons.IH [OF rest] m by simp
  qed simp
  from this [OF assms [unfolded confirmed_numbers_def]]
  show "length ns = length (active_miners (gpo c))" "length (filter (\<lambda>x. n \<le> x) ns) = confirmed_by n c"
    by (simp_all add: confirmed_by_def)
qed

text \<open>In a sorted list the elements from position \<open>k\<close> on are at least the element there, no others can exceed it.\<close>

lemma sorted_count_ge:
  fixes ns :: "nat list"
  assumes "k < length ns"
  shows "length ns - k \<le> length (filter (\<lambda>x. sort ns ! k \<le> x) ns)"
    and "sort ns ! k < n \<Longrightarrow> length (filter (\<lambda>x. n \<le> x) ns) \<le> length ns - k - 1"
proof -
  have cnt: "length (filter P ns) = length (filter P (take j (sort ns))) + length (filter P (drop j (sort ns)))" for P j
  proof -
    have "length (filter P ns) = length (filter P (sort ns))" by (metis length_sort filter_sort)
    then show ?thesis by (metis append_take_drop_id filter_append length_append)
  qed
  have ge: "\<forall>x \<in> set (drop k (sort ns)). sort ns ! k \<le> x"
    using assms by (auto simp: in_set_conv_nth intro!: sorted_nth_mono)
  show "length ns - k \<le> length (filter (\<lambda>x. sort ns ! k \<le> x) ns)"
    using cnt [of "\<lambda>x. sort ns ! k \<le> x" k] ge by (simp add: filter_id_conv)
  have le: "\<forall>x \<in> set (take (Suc k) (sort ns)). x \<le> sort ns ! k"
    using assms by (auto simp: in_set_conv_nth intro!: sorted_nth_mono)
  show "length (filter (\<lambda>x. n \<le> x) ns) \<le> length ns - k - 1" if "sort ns ! k < n"
  proof -
    have "filter (\<lambda>x. n \<le> x) (take (Suc k) (sort ns)) = []" using le that by (auto simp: filter_empty_conv)
    moreover have "length (filter (\<lambda>x. n \<le> x) (drop (Suc k) (sort ns))) \<le> length ns - k - 1"
      using length_filter_le [of "\<lambda>x. n \<le> x" "drop (Suc k) (sort ns)"] by simp
    ultimately show ?thesis using cnt [of "\<lambda>x. n \<le> x" "Suc k"] by simp
  qed
qed

text \<open>
  C29. The last irreversible block never moves back, and it moves to the highest block number that
  at least 70 percent of the active miners have built upon: the new number has that majority, no
  higher number has it.
\<close>

theorem irreversible_supermajority:
  assumes run: "update_last_irreversible_block False c = Inr c'"
  shows "last_irreversible_block_num (dgpo c) \<le> last_irreversible_block_num (dgpo c') \<and>
    (last_irreversible_block_num (dgpo c) < last_irreversible_block_num (dgpo c') \<longrightarrow>
       7000 * length (active_miners (gpo c)) \<le> 10000 * confirmed_by (last_irreversible_block_num (dgpo c')) c) \<and>
    (\<forall>n > last_irreversible_block_num (dgpo c'). 10000 * confirmed_by n c < 7000 * length (active_miners (gpo c)))"
proof -
  from run obtain ns where ns: "confirmed_numbers c = Inr ns" by (auto simp: update_last_irreversible_block_def)
  let ?k = "irreversible_offset (length ns)"
  have k: "?k < length ns"
    and lib: "last_irreversible_block_num (dgpo c') = max (last_irreversible_block_num (dgpo c)) (sort ns ! ?k)"
    using run ns by (auto simp: update_last_irreversible_block_def Let_def max_def split: if_splits)
  note law = confirmed_numbers_law [OF ns]
  have b: "10000 * ?k \<le> 3000 * length ns" "3000 * length ns < 10000 * ?k + 10000"
    using mult_div_mod_eq [of 10000 "3000 * length ns"] mod_less_divisor [of 10000 "3000 * length ns"]
    by (simp_all add: irreversible_offset_def)
  have "7000 * length ns \<le> 10000 * confirmed_by (sort ns ! ?k) c"
    using sorted_count_ge(1) [OF k] b(1) unfolding law(2) by linarith
  moreover have "10000 * confirmed_by n c < 7000 * length ns" if "sort ns ! ?k < n" for n
    using sorted_count_ge(2) [OF k that] b(2) k unfolding law(2) by linarith
  ultimately show ?thesis using lib law(1) by (auto simp: max_def split: if_splits)
qed

section \<open>Paying the miner keeps the books\<close>

text \<open>
  What is held of the core asset, against the recorded supply, the rewards mined since the last
  budget and the fees collected before it and not yet paid out.
\<close>

definition core_books :: "chain \<Rightarrow> int" where
  "core_books c = holdings c 0 - supply_of c 0 - mined_rewards (dgpo c) -
     (miner_budget_from_fees (dgpo c) - unspent_fee_budget (dgpo c))"

lemma vb_deposit_in:
  assumes "safe_exact S" and "vb_deposit S now (mk_asset n 0) u = Inr v \<or> vb_deposit_vested S now (mk_asset n 0) u = Inr v"
  shows "vested_in a v = vested_in a u + (if a = 0 then n else 0)"
proof -
  have "asset_add S (vb_balance u) (mk_asset n 0) = Inr (vb_balance v)"
    using assms(2) by (auto simp: vb_deposit_def vb_deposit_vested_def)
  then obtain x where "asset_id (vb_balance u) = 0" "S (amount (vb_balance u) + n) = Inr x" "vb_balance v = mk_asset x 0"
    by (auto simp: asset_add_def mk_asset_def)
  then show ?thesis using safe_exactD [OF assms(1)] by (auto simp: vested_in_def mk_asset_def)
qed

lemma deposit_lazy_vesting_law:
  assumes "safe_exact S" and "chain_ok c" and run: "deposit_lazy_vesting S v n secs owner rv c = Inr (k, c')"
  shows "chain_ok c'" and "holdings c' a = holdings c a + (if a = 0 then n else 0)" and "supply_of c' a = supply_of c a"
    and "c' = c\<lparr>vestings := vestings c'\<rparr>"
proof -
  have "chain_ok c' \<and> holdings c' a = holdings c a + (if a = 0 then n else 0) \<and> supply_of c' a = supply_of c a \<and>
      c' = c\<lparr>vestings := vestings c'\<rparr>"
  proof (cases "n = 0")
    case True
    then show ?thesis using run assms(2) by (simp add: deposit_lazy_vesting_def)
  next
    case False
    from run False obtain tgt where tgt: "lazy_target (vestings c) v owner secs = Inr tgt"
      by (auto simp: deposit_lazy_vesting_def Let_def)
    show ?thesis
    proof (cases tgt)
      case None
      then obtain t where t: "t_create no_unique (new_lazy_vesting n secs owner rv (head_block_time c)) (vestings c) = Inr t"
        and c': "c' = c\<lparr>vestings := t\<rparr>" using run False tgt by (auto simp: deposit_lazy_vesting_def Let_def)
      have ok: "t_ok (vestings c)" using assms(2) by (simp add: frame)
      have "t_sum (vested_in a) t = t_sum (vested_in a) (vestings c) + (if a = 0 then n else 0)"
        using t_sum_create [OF ok t, of "vested_in a"] by (simp add: new_lazy_vesting_def vested_in_def mk_asset_def)
      then show ?thesis using t_create_law(1) [OF ok t] assms(2) by (simp add: c' frame)
    next
      case (Some j)
      then obtain t where t: "t_modify no_unique j (\<lambda>vb. if rv then vb_deposit S (head_block_time c) (mk_asset n 0) vb
              else vb_deposit_vested S (head_block_time c) (mk_asset n 0) vb) (vestings c) = Inr t"
        and c': "c' = c\<lparr>vestings := t\<rparr>" using run False tgt by (auto simp: deposit_lazy_vesting_def Let_def)
      show ?thesis
      proof (rule modify_vesting_law [OF assms(2) t])
        fix x y assume "(if rv then vb_deposit S (head_block_time c) (mk_asset n 0) x
              else vb_deposit_vested S (head_block_time c) (mk_asset n 0) x) = Inr y"
          and r: "chain_ok (c\<lparr>vestings := t\<rparr>)" "\<And>a. holdings (c\<lparr>vestings := t\<rparr>) a = holdings c a + vested_in a y - vested_in a x"
            "\<And>a. supply_of (c\<lparr>vestings := t\<rparr>) a = supply_of c a"
        then have "vested_in a y = vested_in a x + (if a = 0 then n else 0)"
          by (intro vb_deposit_in [OF assms(1)]) (auto split: if_splits)
        then show ?thesis using r by (simp add: c')
      qed
    qed
  qed
  then show "chain_ok c'" "holdings c' a = holdings c a + (if a = 0 then n else 0)" "supply_of c' a = supply_of c a"
    "c' = c\<lparr>vestings := vestings c'\<rparr>" by blast+
qed

lemma deposit_miner_pay_law:
  assumes "safe_exact S" and "chain_ok c" and run: "deposit_miner_pay S m n c = Inr c'"
  shows "chain_ok c' \<and> holdings c' a = holdings c a + (if a = 0 then n else 0) \<and> supply_of c' a = supply_of c a \<and> dgpo c' = dgpo c"
proof (cases "n = 0")
  case True
  then show ?thesis using run assms(2) by (simp add: deposit_miner_pay_def)
next
  case False
  from run False obtain wit :: miner_object and k c1
    where d: "deposit_lazy_vesting S (pay_vb wit) n (miner_pay_vesting_seconds (parameters (gpo c))) (miner_account wit) True c = Inr (k, c1)"
    and rest: "(case k of None \<Rightarrow> Inr c1 | Some v \<Rightarrow>
      bindE (t_modify miner_key m (\<lambda>m. Inr (m\<lparr>pay_vb := Some v\<rparr>)) (miners c1)) (\<lambda>t. Inr (c1\<lparr>miners := t\<rparr>))) = Inr c'"
    by (auto simp: deposit_miner_pay_def)
  note l = deposit_lazy_vesting_law [OF assms(1,2) d]
  have "dgpo c1 = dgpo c" by (subst l(4), simp)
  moreover have "chain_ok (c1\<lparr>miners := t\<rparr>)" if "t_modify miner_key m f (miners c1) = Inr t" for f t
    using l(1) t_modify_keeps_ok [OF _ that] by (simp add: frame)
  ultimately show ?thesis using rest l(1,2,3) by (cases k) (auto simp: frame)
qed

lemma signing_miner_books:
  assumes "safe_exact S" and "chain_ok c" and run: "update_signing_miner S m b c = Inr c'"
  shows "chain_ok c' \<and> core_books c' = core_books c"
proof -
  from run obtain slot fees mined unspent pay c2 t f where
    mined: "S (mined_rewards (dgpo c) + get_new_asset_per_block c) = Inr mined"
    and unspent: "S (unspent_fee_budget (dgpo c) - fees) = Inr unspent"
    and pay: "S (fees + get_new_asset_per_block c) = Inr pay"
    and c2: "deposit_miner_pay S m pay (c\<lparr>dgpo := (dgpo c)\<lparr>mined_rewards := mined, unspent_fee_budget := unspent\<rparr>\<rparr>) = Inr c2"
    and t: "t_modify miner_key m f (miners c2) = Inr t" and c': "c' = c2\<lparr>miners := t\<rparr>"
    by (auto simp: update_signing_miner_def Let_def)
  have ok: "chain_ok (c\<lparr>dgpo := (dgpo c)\<lparr>mined_rewards := mined, unspent_fee_budget := unspent\<rparr>\<rparr>)"
    using assms(2) by (simp add: frame)
  note l = deposit_miner_pay_law [OF assms(1) ok c2]
  have "t_ok t" using t_modify_keeps_ok [OF _ t] l by (simp add: frame)
  then show ?thesis
    using l [of 0] safe_exactD [OF assms(1) mined] safe_exactD [OF assms(1) unspent] safe_exactD [OF assms(1) pay]
    by (simp add: c' core_books_def frame)
qed

end
