(* ===== verification/Maintenance.thy ===== *)
theory Maintenance
  imports Chain_Update "HOL-Library.List_Lexorder" "HOL-Library.Char_ord"
begin

text \<open>
  \<open>db\_maint.cpp\<close> and \<open>vote\_count.hpp\<close>: at maintenance the votes are counted, the active miners
  elected and their account's authority set, housekeeping is done and the budget is planned.
  A vote id is its instance number, all ids having the type of a miner.
\<close>

section \<open>Counting votes\<close>

record vote_tally =
  vt_buffer :: "nat list"
  vt_histogram :: "nat list"
  vt_gained :: "(account_id_type \<times> nat) list rows"
  vt_total :: nat

definition get_voting_stake :: "account_id_type \<Rightarrow> account_object \<Rightarrow> chain \<Rightarrow> nat res" where
  "get_voting_stake k a c =
     bindE (t_get (account_stats c) (statistics a)) (\<lambda>stats.
     Inr (u64 (total_core_in_orders stats + amount (get_balance c k 0))))"

definition GRAPHENE_PROXY_TO_SELF_ACCOUNT :: account_id_type where
  "GRAPHENE_PROXY_TO_SELF_ACCOUNT = 3"

definition opinion_account :: "account_object \<Rightarrow> chain \<Rightarrow> account_object res" where
  "opinion_account a c =
     (if voting_account (acc_options a) = GRAPHENE_PROXY_TO_SELF_ACCOUNT then Inr a
      else t_get (accounts c) (voting_account (acc_options a)))"

definition tally_vote :: "account_id_type \<Rightarrow> nat \<Rightarrow> nat \<Rightarrow> vote_tally \<Rightarrow> vote_tally" where
  "tally_vote k stake v t =
     (if v < length (vt_buffer t) then
        t\<lparr>vt_buffer := (vt_buffer t)[v := u64 (int (vt_buffer t ! v) + int stake)],
          vt_gained := put_row v ((case map_of (vt_gained t) v of None \<Rightarrow> [] | Some xs \<Rightarrow> xs) @ [(k, stake)]) (vt_gained t)\<rparr>
      else t)"

definition tally_size :: "nat \<Rightarrow> nat \<Rightarrow> nat \<Rightarrow> vote_tally \<Rightarrow> vote_tally" where
  "tally_size max_count wanted stake t =
     (if wanted \<le> max_count then
        let offset = min (wanted div 2) (length (vt_histogram t) - 1)
        in t\<lparr>vt_histogram := (vt_histogram t)[offset := u64 (int (vt_histogram t ! offset) + int stake)]\<rparr>
      else t)"

definition tally_account :: "nat \<times> account_object \<Rightarrow> vote_tally \<times> chain \<Rightarrow> (vote_tally \<times> chain) res" where
  "tally_account row = (\<lambda>(t, c).
     let k = fst row; a = snd row
     in bindE (opinion_account a c) (\<lambda>opinion.
        bindE (get_voting_stake k a c) (\<lambda>stake.
        let t1 = fold (tally_vote k stake) (votes (acc_options opinion)) t;
            t2 = tally_size (maximum_miner_count (parameters (gpo c))) (num_miner (acc_options opinion)) stake t1;
            t3 = t2\<lparr>vt_total := u64 (int (vt_total t2) + int stake)\<rparr>
        in bindE (t_modify no_unique (statistics a)
                    (\<lambda>s. Inr (s\<lparr>voting_stake := int stake, stat_votes := votes (acc_options opinion)\<rparr>)) (account_stats c)) (\<lambda>u.
           Inr (t3, c\<lparr>account_stats := u\<rparr>)))))"

definition tally_votes :: "chain \<Rightarrow> (vote_tally \<times> chain) res" where
  "tally_votes c =
     foldE tally_account (sort_key (\<lambda>r. acc_name (snd r)) (g_rows (accounts c)))
       (\<lparr>vt_buffer = replicate (next_available_vote_id (gpo c)) 0,
         vt_histogram = replicate (maximum_miner_count (parameters (gpo c)) div 2 + 1) 0, vt_gained = [], vt_total = 0\<rparr>, c)"

text \<open>How many miners the stake wants: \<open>K\<close> converts to \<open>share_type\<close>.\<close>

function count_miners :: "safe \<Rightarrow> (nat \<Rightarrow> int res) \<Rightarrow> nat list \<Rightarrow> int \<Rightarrow> nat \<Rightarrow> int \<Rightarrow> nat res" where
  "count_miners S K histogram target n tally =
     (if n < length histogram - 1 \<and> tally \<le> target then
        (case bindE (K (histogram ! (n + 1))) (\<lambda>x. S (tally + x)) of
           Inl e \<Rightarrow> Inl e
         | Inr tally' \<Rightarrow> count_miners S K histogram target (n + 1) tally')
      else Inr n)"
  by pat_completeness auto
termination
  by (relation "measure (\<lambda>(S, K, h, target, n, tally). length h - n)") auto

declare count_miners.simps [simp del]

definition wanted_miners :: "safe \<Rightarrow> (nat \<Rightarrow> int res) \<Rightarrow> vote_tally \<Rightarrow> nat res" where
  "wanted_miners S K t =
     bindE (require (vt_histogram t \<noteq> []) Assert_Exception) (\<lambda>_.
     bindE (K (u64 (int (vt_total t) - int (hd (vt_histogram t))) div 2)) (\<lambda>target.
     if 0 < target then count_miners S K (vt_histogram t) target 0 0 else Inr 0))"

section \<open>The election\<close>

text \<open>The miners by descending votes, the lower vote id first among equals.\<close>

definition miner_votes :: "(nat \<Rightarrow> int res) \<Rightarrow> nat list \<Rightarrow> nat \<times> miner_object \<Rightarrow> (int \<times> nat \<times> miner_object) res" where
  "miner_votes K buffer r =
     bindE (lift_opt Undefined_Behaviour (if vote_id (snd r) < length buffer then Some (buffer ! vote_id (snd r)) else None)) (\<lambda>v.
     bindE (K v) (\<lambda>share. Inr (share, r)))"

definition sort_votable_miners :: "(nat \<Rightarrow> int res) \<Rightarrow> nat list \<Rightarrow> chain \<Rightarrow> (nat \<times> miner_object) list res" where
  "sort_votable_miners K buffer c =
     bindE (foldE (\<lambda>r rs. bindE (miner_votes K buffer r) (\<lambda>x. Inr (rs @ [x]))) (g_rows (miners c)) []) (\<lambda>rs.
     Inr (map snd (sort_key (\<lambda>x. - fst x) (sort_key (\<lambda>x. vote_id (snd (snd x))) rs))))"

definition elected_count :: "nat \<Rightarrow> nat \<Rightarrow> nat \<Rightarrow> nat" where
  "elected_count miner_count min_count candidates = min (max (miner_count * 2 + 1) min_count) candidates"

definition rank_miner :: "vote_tally \<Rightarrow> nat \<times> nat \<times> miner_object \<Rightarrow> chain \<Rightarrow> chain res" where
  "rank_miner t x c =
     bindE (t_modify miner_key (fst (snd x)) (\<lambda>m. Inr (m\<lparr>total_votes := int (vt_buffer t ! vote_id (snd (snd x))),
              vote_ranking := fst x,
              votes_gained := map (\<lambda>(a, n). (a, int n)) (case map_of (vt_gained t) (vote_id m) of None \<Rightarrow> [] | Some xs \<Rightarrow> xs)\<rparr>))
            (miners c)) (\<lambda>u.
     Inr (c\<lparr>miners := u\<rparr>))"

definition rank_miners :: "vote_tally \<Rightarrow> (nat \<times> miner_object) list \<Rightarrow> chain \<Rightarrow> chain res" where
  "rank_miners t wits c = foldE (rank_miner t) (zip [0..<length wits] wits) c"

text \<open>\<open>vote\_counter\<close>; \<open>find\_msb\<close> is the position of the highest bit.\<close>

record vote_counter =
  vc_total_votes :: nat
  vc_bitshift :: int
  vc_auths :: "nat rows"

definition empty_counter :: vote_counter where
  "empty_counter = \<lparr>vc_total_votes = 0, vc_bitshift = -1, vc_auths = []\<rparr>"

fun find_msb :: "nat \<Rightarrow> nat" where
  "find_msb n = (if n \<le> 1 then 0 else Suc (find_msb (n div 2)))"

declare find_msb.simps [simp del]

definition vc_add :: "account_id_type \<Rightarrow> nat \<Rightarrow> vote_counter \<Rightarrow> vote_counter" where
  "vc_add who votes' vc =
     (if votes' = 0 then vc
      else
        let shift = (if vc_bitshift vc = -1 then max (int (find_msb votes') - 15) 0 else vc_bitshift vc);
            scaled = max (votes' div 2 ^ nat shift) 1
        in vc\<lparr>vc_bitshift := shift, vc_total_votes := u64 (int (vc_total_votes vc) + int scaled),
              vc_auths := put_row who (nat (int scaled mod 2 ^ 16)) (vc_auths vc)\<rparr>)"

definition vc_finish :: "vote_counter \<Rightarrow> authority \<Rightarrow> authority" where
  "vc_finish vc out_auth =
     (if vc_total_votes vc = 0 then out_auth
      else \<lparr>weight_threshold = u32 (int (vc_total_votes vc)) div 2 + 1, account_auths = vc_auths vc, key_auths = []\<rparr>)"

definition update_miner_authority :: "vote_tally \<Rightarrow> (nat \<times> miner_object) list \<Rightarrow> chain \<Rightarrow> chain res" where
  "update_miner_authority t elected c =
     (let vc = fold (\<lambda>r. vc_add (miner_account (snd r)) (vt_buffer t ! vote_id (snd r))) elected empty_counter
      in bindE (t_modify account_key 0 (\<lambda>a. Inr (a\<lparr>acc_active := vc_finish vc (acc_active a)\<rparr>)) (accounts c)) (\<lambda>u.
         Inr (c\<lparr>accounts := u\<rparr>)))"

definition elect_miners :: "safe \<Rightarrow> (nat \<Rightarrow> int res) \<Rightarrow> chain \<Rightarrow> chain res" where
  "elect_miners S K c =
     bindE (tally_votes c) (\<lambda>(t, c1).
     bindE (wanted_miners S K t) (\<lambda>miner_count.
     bindE (sort_votable_miners K (vt_buffer t) c1) (\<lambda>wits.
     let count = elected_count miner_count (min_miner_count (cpo c1)) (length wits)
     in bindE (rank_miners t wits c1) (\<lambda>c2.
        bindE (update_miner_authority t (take count wits) c2) (\<lambda>c3.
        Inr (c3\<lparr>gpo := (gpo c3)\<lparr>active_miners := map fst (take count wits)\<rparr>\<rparr>))))))"

section \<open>The budget\<close>

definition blocks_to_maintenance :: "chain \<Rightarrow> nat res" where
  "blocks_to_maintenance c =
     (let interval = block_interval (parameters (gpo c));
          time_to_maint = int (next_maintenance_time (dgpo c)) - int (head_block_time c)
      in if interval = 0 then Inl Undefined_Behaviour
         else Inr (u32 (int (u64 (int (u64 time_to_maint) + int interval - 1) div interval) -
                        int (maintenance_skip_slots (parameters (gpo c))))))"

definition process_budget :: "safe \<Rightarrow> (nat \<Rightarrow> int res) \<Rightarrow> chain \<Rightarrow> chain res" where
  "process_budget S K c =
     bindE (get_asset c 0) (\<lambda>core_asset.
     bindE (get_dyn c core_asset) (\<lambda>core.
     let now = head_block_time c; dpo = dgpo c
     in bindE (blocks_to_maintenance c) (\<lambda>blocks.
        bindE (S (max_supply (options core_asset) - current_supply core)) (\<lambda>reserve.
        bindE (S (asset_pool core + unspent_fee_budget dpo)) (\<lambda>fees.
        bindE (get_real_supply S c) (\<lambda>real.
        bindE (get_miner_budget S K blocks c) (\<lambda>planned.
        bindE (S (planned + fees)) (\<lambda>planned_total.
        bindE (S (mined_rewards dpo + miner_budget_from_fees dpo)) (\<lambda>g.
        bindE (S (g - unspent_fee_budget dpo)) (\<lambda>generated.
        bindE (S (generated - asset_pool core)) (\<lambda>delta.
        let rec = \<lparr>br_time_since_last_budget =
                     (if last_budget_time dpo = 0 \<or> now \<le> last_budget_time dpo then 0 else now - last_budget_time dpo),
                   br_from_initial_reserve = reserve, br_from_accumulated_fees = fees, br_planned_for_mining = planned_total,
                   br_generated_in_last_interval = generated, br_supply_delta = delta, br_real_supply = real,
                   br_next_maintenance_time = next_maintenance_time dpo, br_block_interval = block_interval (parameters (gpo c))\<rparr>
        in bindE (modify_dyn core_asset (\<lambda>d. bindE (S (current_supply d + delta)) (\<lambda>n.
                    Inr (d\<lparr>current_supply := n, asset_pool := 0\<rparr>))) c) (\<lambda>c1.
           let c2 = c1\<lparr>dgpo := (dgpo c1)\<lparr>miner_budget_from_fees := fees, miner_budget_from_rewards := planned,
                      unspent_fee_budget := fees, mined_rewards := 0, last_budget_time := now\<rparr>\<rparr>
           in bindE (t_create budget_key \<lparr>bro_time = head_block_time c2, bro_record = rec\<rparr> (budget_records c2)) (\<lambda>t.
              Inr (c2\<lparr>budget_records := t\<rparr>))))))))))))))"

section \<open>perform\_chain\_maintenance\<close>

definition apply_pending_parameters :: "chain \<Rightarrow> chain" where
  "apply_pending_parameters c =
     (case pending_parameters (gpo c) of
        None \<Rightarrow> c
      | Some p \<Rightarrow> c\<lparr>gpo := (gpo c)\<lparr>parameters := p, pending_parameters := None\<rparr>\<rparr>)"

definition schedule_maintenance :: "'tx signed_block \<Rightarrow> chain \<Rightarrow> chain res" where
  "schedule_maintenance b c =
     bindE (if next_maintenance_time (dgpo c) \<le> b_timestamp b
            then maintenance_after (block_num b = 1) (b_timestamp b) (head_block_time c) (next_maintenance_time (dgpo c))
                   (maintenance_interval (parameters (gpo c)))
            else Inr (next_maintenance_time (dgpo c))) (\<lambda>next.
     Inr (c\<lparr>dgpo := (dgpo c)\<lparr>next_maintenance_time := next, accounts_registered_this_interval := 0\<rparr>\<rparr>))"

definition perform_chain_maintenance :: "safe \<Rightarrow> (nat \<Rightarrow> int res) \<Rightarrow> 'tx signed_block \<Rightarrow> chain \<Rightarrow> chain res" where
  "perform_chain_maintenance S K b c =
     bindE (elect_miners S K c) (\<lambda>c1.
     bindE (decent_housekeeping S c1) (\<lambda>c2.
     bindE (schedule_maintenance b (apply_pending_parameters c2)) (\<lambda>c3.
     process_budget S K c3)))"

section \<open>Reward queries\<close>

definition first_record_after :: "time_point_sec \<Rightarrow> budget_record_object list \<Rightarrow> nat option" where
  "first_record_after t rs =
     (case filter (\<lambda>i. t < br_next_maintenance_time (bro_record (rs ! i))) [0..<length rs] of [] \<Rightarrow> None | i # _ \<Rightarrow> Some i)"

definition records_by_time :: "chain \<Rightarrow> budget_record_object list" where
  "records_by_time c = sort_key bro_time (t_values (budget_records c))"

definition last_record_covers :: "time_point_sec \<Rightarrow> budget_record_object list \<Rightarrow> unit res" where
  "last_record_covers t rs =
     (if rs = [] then Inl Undefined_Behaviour
      else require (t < br_next_maintenance_time (bro_record (last rs))) Assert_Exception)"

text \<open>\<open>first_block_time\<close> is the time of block 1, which the code reads from the block database.\<close>

definition get_miner_pay_from_fees_by_block_time :: "safe \<Rightarrow> time_point_sec \<Rightarrow> time_point_sec \<Rightarrow> chain \<Rightarrow> int res" where
  "get_miner_pay_from_fees_by_block_time S first_block_time t c =
     (let rs = records_by_time c
      in bindE (last_record_covers t rs) (\<lambda>_.
         bindE (lift_opt Assert_Exception (first_record_after t rs)) (\<lambda>i.
         let r = bro_record (rs ! i);
             prev = (if i = 0 then first_block_time else br_next_maintenance_time (bro_record (rs ! (i - 1))));
             time_to_maint = int (br_next_maintenance_time r) - int prev
         in if br_block_interval r = 0 then Inl Undefined_Behaviour
            else
              let blocks = c_div (time_to_maint + int (br_block_interval r) - 1) (int (br_block_interval r))
              in if 0 < blocks then S (c_div (br_from_accumulated_fees r) blocks) else Inr 0)))"

definition get_time_to_maint_by_block_time :: "time_point_sec \<Rightarrow> chain \<Rightarrow> (int \<times> int \<times> nat) res" where
  "get_time_to_maint_by_block_time t c =
     (let rs = records_by_time c
      in bindE (last_record_covers t rs) (\<lambda>_.
         bindE (lift_opt Assert_Exception (first_record_after t rs)) (\<lambda>i.
         let r = bro_record (rs ! i)
         in Inr (int (br_next_maintenance_time r) - int t, br_from_accumulated_fees r, br_block_interval r))))"

section \<open>The election leaves the money alone\<close>

definition books_kept :: "chain \<Rightarrow> chain \<Rightarrow> bool" where
  "books_kept c c' \<longleftrightarrow> chain_ok c' \<and> dgpo c' = dgpo c \<and> (subscription_prices_ok c \<longrightarrow> subscription_prices_ok c') \<and>
     (\<forall>a. holdings c' a = holdings c a \<and> supply_of c' a = supply_of c a)"

lemma books_kept_refl: "chain_ok c \<Longrightarrow> books_kept c c"
  by (simp add: books_kept_def)

lemma books_kept_trans: "books_kept c c' \<Longrightarrow> books_kept c' c'' \<Longrightarrow> books_kept c c''"
  by (auto simp: books_kept_def)

lemma books_keptD: "books_kept c c' \<Longrightarrow> chain_ok c'"
  by (simp add: books_kept_def)

lemma money_books: "money_kept c c' \<Longrightarrow> books_kept c c'"
  by (simp add: money_kept_def books_kept_def subscription_prices_ok_def)

lemma foldE_books_kept:
  assumes "foldE f xs s = Inr s'" and "chain_ok (g s)"
    and "\<And>x s s'. x \<in> set xs \<Longrightarrow> chain_ok (g s) \<Longrightarrow> f x s = Inr s' \<Longrightarrow> books_kept (g s) (g s')"
  shows "books_kept (g s) (g s')"
proof -
  have "chain_ok (g s') \<and> books_kept (g s) (g s')"
    by (rule foldE_invariant [OF assms(1), where I = "\<lambda>d. chain_ok (g d) \<and> books_kept (g s) (g d)"])
      (use assms(2,3) books_kept_refl books_kept_trans books_keptD in blast)+
  then show ?thesis by simp
qed

lemma tally_account_kept:
  assumes "chain_ok (snd s)" and "tally_account r s = Inr s'"
  shows "books_kept (snd s) (snd s')"
proof -
  obtain t c where s: "s = (t, c)" by (cases s)
  from assms(2) obtain k f u where u: "t_modify no_unique k f (account_stats c) = Inr u" and c': "snd s' = c\<lparr>account_stats := u\<rparr>"
    by (auto simp: tally_account_def s Let_def)
  have "t_ok u" using t_modify_keeps_ok [OF _ u] assms(1) by (simp add: s frame)
  then show ?thesis using assms(1) unfolding c' by (simp add: s books_kept_def frame subscription_prices_ok_def)
qed

lemma rank_miner_kept:
  assumes "chain_ok c" and "rank_miner t x c = Inr c'"
  shows "books_kept c c'"
proof -
  from assms(2) obtain k f u where u: "t_modify miner_key k f (miners c) = Inr u" and c': "c' = c\<lparr>miners := u\<rparr>"
    by (auto simp: rank_miner_def)
  have "t_ok u" using t_modify_keeps_ok [OF _ u] assms(1) by (simp add: frame)
  then show ?thesis using assms(1) unfolding c' by (simp add: books_kept_def frame subscription_prices_ok_def)
qed

lemma update_miner_authority_kept:
  assumes "chain_ok c" and "update_miner_authority t ws c = Inr c'"
  shows "books_kept c c'"
proof -
  from assms(2) obtain vc u where u: "t_modify account_key 0 (\<lambda>a. Inr (a\<lparr>acc_active := vc_finish vc (acc_active a)\<rparr>)) (accounts c) = Inr u"
    and c': "c' = c\<lparr>accounts := u\<rparr>"
    by (auto simp: update_miner_authority_def Let_def)
  have ok: "t_ok (accounts c)" using assms(1) by (simp add: frame)
  obtain x where x: "generic_find (accounts c) 0 = Some x" "t_ok u"
    "generic_find u = (generic_find (accounts c))(0 \<mapsto> x\<lparr>acc_active := vc_finish vc (acc_active x)\<rparr>)"
    by (rule t_modify_law [OF ok u]) auto
  have "subscription_prices_ok c'" if "subscription_prices_ok c"
    using that x(1,3) unfolding subscription_prices_ok_def c' by simp
  then show ?thesis using assms(1) x(2) unfolding books_kept_def by (simp add: c' frame)
qed

lemma elect_miners_kept:
  assumes "chain_ok c" and "elect_miners S K c = Inr c'"
  shows "books_kept c c'"
proof -
  from assms(2) obtain t c1 wits n c2 c3 ms where 1: "tally_votes c = Inr (t, c1)" and 2: "rank_miners t wits c1 = Inr c2"
    and 3: "update_miner_authority t (take n wits) c2 = Inr c3" and c': "c' = c3\<lparr>gpo := (gpo c3)\<lparr>active_miners := ms\<rparr>\<rparr>"
    by (auto simp: elect_miners_def Let_def)
  have k1: "books_kept c c1"
    using foldE_books_kept [OF 1 [unfolded tally_votes_def], where g = snd] assms(1) tally_account_kept by fastforce
  have k2: "books_kept c1 c2"
    using foldE_books_kept [OF 2 [unfolded rank_miners_def], where g = "\<lambda>c. c"] books_keptD [OF k1] rank_miner_kept by blast
  have k3: "books_kept c2 c3" by (rule update_miner_authority_kept [OF books_keptD [OF k2] 3])
  have "books_kept c3 c'" using books_keptD [OF k3] by (simp add: c' books_kept_def frame subscription_prices_ok_def)
  then show ?thesis by (rule books_kept_trans [OF books_kept_trans [OF books_kept_trans [OF k1 k2] k3]])
qed

section \<open>The real supply\<close>

lemma sumE_exact: "safe_exact S \<Longrightarrow> sumE S xs n = Inr m \<Longrightarrow> m = n + sum_list xs"
  unfolding sumE_def
proof (induction xs arbitrary: n)
  case (Cons x xs)
  from Cons.prems(2) obtain k where k: "S (n + x) = Inr k" and rest: "foldE (\<lambda>x m. S (m + x)) xs k = Inr m" by auto
  show ?case using Cons.IH [OF Cons.prems(1) rest] safe_exactD [OF Cons.prems(1) k] by simp
qed simp

lemma t_values_find: "t_ok t \<Longrightarrow> x \<in> set (t_values t) \<longleftrightarrow> (\<exists>k. generic_find t k = Some x)"
proof -
  assume "t_ok t"
  then have d: "distinct (map fst (g_rows t))" by (simp add: generic_invar_def sorted_rows_distinct)
  have "x \<in> set (t_values t) \<longleftrightarrow> (\<exists>k. (k, x) \<in> set (g_rows t))" by (force simp: t_values_def)
  also have "\<dots> \<longleftrightarrow> (\<exists>k. generic_find t k = Some x)" using d by (simp add: generic_find_def)
  finally show ?thesis .
qed

lemma t_sum_cong: "t_ok t \<Longrightarrow> (\<And>k x. generic_find t k = Some x \<Longrightarrow> f x = g x) \<Longrightarrow> t_sum f t = t_sum g t"
  unfolding t_sum_def by (intro arg_cong [where f = sum_list] map_cong) (auto simp: t_values_find)

lemma t_sum_dom: "t_ok t \<Longrightarrow> t_sum f t = (\<Sum>k \<in> dom (generic_find t). f (the (generic_find t k)))"
proof -
  assume "t_ok t"
  then have d: "distinct (map fst (g_rows t))" by (simp add: generic_invar_def sorted_rows_distinct)
  have "t_sum f t = sum_list (map (\<lambda>k. f (the (generic_find t k))) (map fst (g_rows t)))"
    unfolding t_sum_def t_values_def generic_find_def map_map
    by (rule arg_cong [where f = sum_list], rule map_cong) (use d in \<open>auto\<close>)
  also have "\<dots> = (\<Sum>k \<in> set (map fst (g_rows t)). f (the (generic_find t k)))"
    by (rule sum_list_distinct_conv_sum_set [OF d])
  also have "set (map fst (g_rows t)) = dom (generic_find t)"
    by (auto simp: generic_find_def [abs_def] dom_map_of_conv_image_fst)
  finally show ?thesis .
qed

text \<open>The index of dynamic data holds those of the assets and no others.\<close>

definition dyn_owned :: "chain \<Rightarrow> bool" where
  "dyn_owned c \<longleftrightarrow> (\<forall>k d. generic_find (asset_dyn c) k = Some d \<longrightarrow>
     (\<exists>a ao. generic_find (assets c) a = Some ao \<and> dynamic_asset_data_id ao = k))"

text \<open>
  What vesting balances, escrows and purchases hold of assets other than the core asset:
  \<open>get_real_supply\<close> counts these amounts too, without looking at their asset.
\<close>

definition foreign :: "asset \<Rightarrow> int" where
  "foreign a = (if asset_id a = 0 then 0 else amount a)"

definition foreign_locked :: "chain \<Rightarrow> int" where
  "foreign_locked c = t_sum (\<lambda>v. foreign (vb_balance v)) (vestings c) +
     t_sum (\<lambda>x. foreign (co_publishing_fee_escrow x)) (contents c) + t_sum (\<lambda>b. foreign (bo_price b)) (buyings c)"

lemma t_sum_add: "t_sum (\<lambda>x. f x + g x) t = t_sum f t + t_sum g t"
  by (simp add: t_sum_def sum_list_addf)

lemma locked_amounts:
  "amount (vb_balance v) = vested_in 0 v + foreign (vb_balance v)"
  "amount (co_publishing_fee_escrow x) = escrowed_in 0 x + foreign (co_publishing_fee_escrow x)"
  "amount (bo_price b) = bought_in 0 b + foreign (bo_price b)"
  by (simp_all add: vested_in_def escrowed_in_def bought_in_def foreign_def)

lemma pools_of_assets:
  assumes "assets_ok c" and "dyn_owned c"
  shows "core_pools c = t_sum (\<lambda>ao. case generic_find (asset_dyn c) (dynamic_asset_data_id ao) of None \<Rightarrow> 0 | Some d \<Rightarrow> core_pool d) (assets c)"
proof -
  let ?A = "generic_find (assets c)" and ?D = "generic_find (asset_dyn c)"
  let ?h = "\<lambda>a. dynamic_asset_data_id (the (?A a))"
  have ok: "t_ok (assets c)" "t_ok (asset_dyn c)" using assms(1) by (simp_all add: assets_ok_def)
  have inj: "inj_on ?h (dom ?A)"
    by (rule inj_onI) (auto intro: assets_ok_inj [OF assms(1)])
  have img: "?h ` dom ?A = dom ?D"
  proof (intro set_eqI iffI)
    fix k assume "k \<in> ?h ` dom ?A"
    then show "k \<in> dom ?D" using assms(1) by (auto simp: assets_ok_def)
  next
    fix k assume "k \<in> dom ?D"
    then obtain a ao where "?A a = Some ao" "dynamic_asset_data_id ao = k" using assms(2) unfolding dyn_owned_def by blast
    then show "k \<in> ?h ` dom ?A" by force
  qed
  have "core_pools c = (\<Sum>k \<in> ?h ` dom ?A. core_pool (the (?D k)))" unfolding core_pools_def t_sum_dom [OF ok(2)] img ..
  also have "\<dots> = (\<Sum>a \<in> dom ?A. core_pool (the (?D (?h a))))" by (simp add: sum.reindex [OF inj])
  also have "\<dots> = (\<Sum>a \<in> dom ?A. case ?D (?h a) of None \<Rightarrow> 0 | Some d \<Rightarrow> core_pool d)"
  proof (rule sum.cong [OF refl])
    fix a assume "a \<in> dom ?A"
    then have "?h a \<in> dom ?D" using img by blast
    then show "core_pool (the (?D (?h a))) = (case ?D (?h a) of None \<Rightarrow> 0 | Some d \<Rightarrow> core_pool d)" by auto
  qed
  finally show ?thesis by (simp add: t_sum_dom [OF ok(1)])
qed

lemma pools_fold:
  assumes "safe_exact S" and "foldE (\<lambda>a n. bindE (get_dyn c a) (\<lambda>d. S (n + core_pool d))) as n = Inr m"
  shows "m = n + sum_list (map (\<lambda>ao. case generic_find (asset_dyn c) (dynamic_asset_data_id ao) of None \<Rightarrow> 0 | Some d \<Rightarrow> core_pool d) as)"
  using assms(2)
proof (induction as arbitrary: n)
  case (Cons a as)
  from Cons.prems obtain d k where d: "generic_find (asset_dyn c) (dynamic_asset_data_id a) = Some d" and k: "S (n + core_pool d) = Inr k"
    and rest: "foldE (\<lambda>a n. bindE (get_dyn c a) (\<lambda>d. S (n + core_pool d))) as k = Inr m" by (auto simp: get_dyn_def)
  show ?case using Cons.IH [OF rest] safe_exactD [OF assms(1) k] d by simp
qed simp

lemma filtered_sum: "sum_list (map f (filter P xs)) = sum_list (map (\<lambda>x. if P x then f x else 0) xs)"
  for f :: "'a \<Rightarrow> int"
  by (induction xs) simp_all

lemma real_supply_is_held:
  assumes "safe_exact S" and "chain_ok c" and "dyn_owned c"
    and "get_real_supply S c = Inr r" and "real_supply_total S r = Inr n"
  shows "n = holdings c 0 - asset_pool_of c 0 + foreign_locked c"
proof -
  from assms(4) obtain ab vb e1 e2 p where
    ab: "sumE S (map bal_balance (filter (\<lambda>b. bal_asset b = 0) (t_values (balances c)))) 0 = Inr ab"
    and vb: "sumE S (map (\<lambda>v. amount (vb_balance v)) (t_values (vestings c))) 0 = Inr vb"
    and e1: "sumE S (map (\<lambda>x. amount (co_publishing_fee_escrow x)) (t_values (contents c))) 0 = Inr e1"
    and e2: "sumE S (map (\<lambda>b. amount (bo_price b)) (t_values (buyings c))) e1 = Inr e2"
    and p: "foldE (\<lambda>a n. bindE (get_dyn c a) (\<lambda>d. S (n + core_pool d))) (t_values (assets c)) 0 = Inr p"
    and r: "r = \<lparr>rs_account_balances = ab, rs_vesting_balances = vb, rs_escrows = e2, rs_pools = p\<rparr>"
    by (auto simp: get_real_supply_def)
  have n: "n = ab + vb + e2 + p"
    using assms(5) r by (auto simp: real_supply_total_def dest!: safe_exactD [OF assms(1)])
  have "ab = total_balance c 0"
    using sumE_exact [OF assms(1) ab] by (simp add: total_balance_def t_sum_def filtered_sum in_asset_def [abs_def])
  moreover have "vb + e2 = t_sum (vested_in 0) (vestings c) + t_sum (escrowed_in 0) (contents c) + t_sum (bought_in 0) (buyings c)
      + foreign_locked c"
  proof -
    have "vb = t_sum (\<lambda>v. amount (vb_balance v)) (vestings c)"
      "e2 = t_sum (\<lambda>x. amount (co_publishing_fee_escrow x)) (contents c) + t_sum (\<lambda>b. amount (bo_price b)) (buyings c)"
      using sumE_exact [OF assms(1) vb] sumE_exact [OF assms(1) e1] sumE_exact [OF assms(1) e2] by (simp_all add: t_sum_def)
    then show ?thesis unfolding locked_amounts t_sum_add foreign_locked_def by simp
  qed
  moreover have "p = core_pools c"
    using pools_fold [OF assms(1) p] pools_of_assets [OF chain_okD(2) [OF assms(2)] assms(3)] by (simp add: t_sum_def)
  ultimately show ?thesis using n by (simp add: holdings_def)
qed

section \<open>The budget balances the books\<close>

lemma process_budget_law:
  assumes "safe_exact S" and "chain_ok c" and run: "process_budget S K c = Inr c'"
  shows "chain_ok c'" and "core_books c' = core_books c" and "asset_pool_of c' 0 = 0"
    and "supply_of c' 0 = holdings c 0 - asset_pool_of c 0 - core_books c"
proof -
  from run obtain ao d n1 n2 n3 n4 n5 c1 t r where ao: "generic_find (assets c) 0 = Some ao"
    and d: "generic_find (asset_dyn c) (dynamic_asset_data_id ao) = Some d"
    and n1: "S (asset_pool d + unspent_fee_budget (dgpo c)) = Inr n1"
    and n2: "S (mined_rewards (dgpo c) + miner_budget_from_fees (dgpo c)) = Inr n2"
    and n3: "S (n2 - unspent_fee_budget (dgpo c)) = Inr n3" and n4: "S (n3 - asset_pool d) = Inr n4"
    and c1: "modify_dyn ao (\<lambda>d. bindE (S (current_supply d + n4)) (\<lambda>n. Inr (d\<lparr>current_supply := n, asset_pool := 0\<rparr>))) c = Inr c1"
    and t: "t_create budget_key r (budget_records c1) = Inr t"
    and c': "c' = (c1\<lparr>dgpo := (dgpo c1)\<lparr>miner_budget_from_fees := n1, miner_budget_from_rewards := n5,
                      unspent_fee_budget := n1, mined_rewards := 0, last_budget_time := head_block_time c\<rparr>\<rparr>)\<lparr>budget_records := t\<rparr>"
    by (auto simp: process_budget_def Let_def get_asset_def get_dyn_def)
  have law: "chain_ok c1 \<and> c1 = c\<lparr>asset_dyn := asset_dyn c1\<rparr> \<and> holdings c1 0 = holdings c 0 - asset_pool d \<and>
      supply_of c1 0 = supply_of c 0 + n4"
    by (rule modify_dyn_law [OF assms(2) ao c1]) (use d in \<open>auto dest!: safe_exactD [OF assms(1)]\<close>)
  then have ok: "chain_ok c1" and h: "holdings c1 0 = holdings c 0 - asset_pool d" "supply_of c1 0 = supply_of c 0 + n4" by auto
  have pool: "asset_pool_of c 0 = asset_pool d" using ao d by (simp add: asset_pool_of_def)
  have n: "n1 = asset_pool d + unspent_fee_budget (dgpo c)"
    "n4 = mined_rewards (dgpo c) + miner_budget_from_fees (dgpo c) - unspent_fee_budget (dgpo c) - asset_pool d"
    using safe_exactD [OF assms(1) n1] safe_exactD [OF assms(1) n2] safe_exactD [OF assms(1) n3] safe_exactD [OF assms(1) n4]
    by simp_all
  have tok: "t_ok t" using t_create_law(1) [OF _ t] ok by (simp add: frame)
  show "chain_ok c'" using ok tok by (simp add: c' frame)
  show "core_books c' = core_books c" using h n by (simp add: c' core_books_def frame)
  show "supply_of c' 0 = holdings c 0 - asset_pool_of c 0 - core_books c" using h n pool by (simp add: c' core_books_def frame)
  have "asset_pool_of c1 0 = 0"
  proof -
    obtain u where u: "t_modify no_unique (dynamic_asset_data_id ao)
        (\<lambda>d. bindE (S (current_supply d + n4)) (\<lambda>n. Inr (d\<lparr>current_supply := n, asset_pool := 0\<rparr>))) (asset_dyn c) = Inr u"
      and c1': "c1 = c\<lparr>asset_dyn := u\<rparr>" using c1 by (auto simp: modify_dyn_def)
    have "t_ok (asset_dyn c)" using assms(2) by (simp add: frame)
    from this u show ?thesis by (rule t_modify_law) (use ao in \<open>auto simp: c1' asset_pool_of_def\<close>)
  qed
  then show "asset_pool_of c' 0 = 0" by (simp add: c' frame)
qed

text \<open>
  C13. The budget and the real supply: when the books are balanced (what is held of the core asset is
  the recorded supply plus the rewards mined and the fees paid out since the last budget), the supply
  recorded by \<open>process_budget\<close> is the real supply counted over all balances, vesting balances,
  escrows and pools, less what vesting balances, escrows and purchases hold of other assets, which the
  count includes; so the assertion of the code that the two are equal holds exactly when nothing
  of another asset is locked. The fee pool is then empty and the books are balanced again.
\<close>

theorem budget_records_real_supply:
  assumes "safe_exact S" and "chain_ok c" and "dyn_owned c" and "core_books c = 0"
    and "process_budget S K c = Inr c'" and "get_real_supply S c = Inr r" and "real_supply_total S r = Inr n"
  shows "supply_of c' 0 = n - foreign_locked c \<and> asset_pool_of c' 0 = 0 \<and> chain_ok c' \<and> core_books c' = 0"
  using process_budget_law [OF assms(1,2,5)] real_supply_is_held [OF assms(1-3,6,7)] assms(4) by simp

section \<open>The next maintenance\<close>

text \<open>
  The next maintenance time lies after the head block and at most one interval after it, on the
  grid of intervals that starts at the old maintenance time (or, with the first block, at the epoch):
  it is the earliest such time, as long as it fits into 32 bits.
\<close>

theorem next_maintenance_earliest:
  assumes "0 < i" and "n \<le> h" and "h + i < 2 ^ 32"
  shows "\<exists>n' m'. maintenance_after False h h n i = Inr n' \<and> h < n' \<and> n' \<le> h + i \<and> n' mod i = n mod i \<and>
    maintenance_after True h h n i = Inr m' \<and> h < m' \<and> m' \<le> h + i \<and> m' mod i = 0"
proof -
  let ?k = "(h - n) div i + 1" and ?m = "h div i + 1"
  have lo: "h - n < ?k * i" "?k * i \<le> h - n + i" "h < ?m * i" "?m * i \<le> h + i"
    using assms(1) dividend_less_div_times [of i "h - n"] div_times_less_eq_dividend [of "h - n" i]
      dividend_less_div_times [of i h] div_times_less_eq_dividend [of h i] by (simp_all add: algebra_simps)
  have b: "?k * i < 2 ^ 32" "n + ?k * i < 2 ^ 32" "?m * i < 2 ^ 32" "?m < 2 ^ 32"
  proof -
    show "?k * i < 2 ^ 32" "n + ?k * i < 2 ^ 32" "?m * i < 2 ^ 32" using lo assms(2,3) by linarith+
    have "?m \<le> ?m * i" using assms(1) by (cases i) simp_all
    then show "?m < 2 ^ 32" using lo assms(3) by linarith
  qed
  have dk: "c_div (int h - int n) (int i) = int ((h - n) div i)"
    using assms(1,2) by (simp add: c_div_nonneg zdiv_int of_nat_diff)
  have 1: "maintenance_after False h h n i = Inr (n + ?k * i)"
  proof -
    have e: "(c_div (int h - int n) (int i) + 1) * int i = int (?k * i)" by (simp add: dk algebra_simps)
    have "int n + int (?k * i) = int (n + ?k * i)" by simp
    then show ?thesis using assms(1)
      by (simp only: maintenance_after_def time_plus_def e u32_nat [OF b(1)] u32_nat [OF b(2)]) simp
  qed
  have 2: "maintenance_after True h h n i = Inr (?m * i)"
  proof -
    have "int (h div i) + 1 = int ?m" "int ?m * int i = int (?m * i)" by (simp_all add: algebra_simps)
    then show ?thesis using assms(1)
      by (simp only: maintenance_after_def u32_nat [OF b(3)] u32_nat [OF b(4)]) simp
  qed
  show ?thesis
  proof (rule exI [of _ "n + ?k * i"], rule exI [of _ "?m * i"], intro conjI)
    show "(n + ?k * i) mod i = n mod i" "(?m * i) mod i = 0" by (rule mod_mult_self1, rule mod_mult_self2_is_0)
    show "h < n + ?k * i" "n + ?k * i \<le> h + i" "h < ?m * i" "?m * i \<le> h + i" using lo assms(2) by linarith+
  qed (rule 1 2)+
qed

section \<open>The elected miners have the most votes\<close>

definition votes_for :: "vote_tally \<Rightarrow> miner_object \<Rightarrow> nat" where
  "votes_for t m = vt_buffer t ! vote_id m"

lemma foldE_collect:
  assumes "foldE (\<lambda>r rs. bindE (g r) (\<lambda>x. Inr (rs @ [x]))) rows pre = Inr rs"
  shows "\<exists>xs. rs = pre @ xs \<and> list_all2 (\<lambda>r x. g r = Inr x) rows xs"
  using assms
proof (induction rows arbitrary: pre)
  case (Cons r rows)
  from Cons.prems obtain x where x: "g r = Inr x" and rest: "foldE (\<lambda>r rs. bindE (g r) (\<lambda>x. Inr (rs @ [x]))) rows (pre @ [x]) = Inr rs"
    by auto
  from Cons.IH [OF rest] obtain xs where "rs = (pre @ [x]) @ xs" "list_all2 (\<lambda>r x. g r = Inr x) rows xs" by blast
  then show ?case using x by (intro exI [of _ "x # xs"]) simp
qed simp

lemma sort_votable_law:
  assumes K: "share_of_u64 K" and fit: "\<forall>n \<in> set (vt_buffer t). n < 2 ^ 63"
    and run: "sort_votable_miners K (vt_buffer t) c = Inr wits"
  shows "mset wits = mset (g_rows (miners c))" and "sorted_wrt (\<lambda>r s. votes_for t (snd s) \<le> votes_for t (snd r)) wits"
proof -
  from run obtain rs where rs: "foldE (\<lambda>r rs. bindE (miner_votes K (vt_buffer t) r) (\<lambda>x. Inr (rs @ [x]))) (g_rows (miners c)) [] = Inr rs"
    and wits: "wits = map snd (sort_key (\<lambda>x. - fst x) (sort_key (\<lambda>x. vote_id (snd (snd x))) rs))"
    by (auto simp: sort_votable_miners_def)
  have all: "list_all2 (\<lambda>r x. miner_votes K (vt_buffer t) r = Inr x) (g_rows (miners c)) rs"
    using foldE_collect [OF rs] by simp
  have one: "x = (int (votes_for t (snd r)), r)" if "miner_votes K (vt_buffer t) r = Inr x" for r x
  proof -
    from that obtain n where lt: "vote_id (snd r) < length (vt_buffer t)" and n: "K (vt_buffer t ! vote_id (snd r)) = Inr n" and x: "x = (n, r)"
      by (auto simp: miner_votes_def split: if_splits)
    have "vt_buffer t ! vote_id (snd r) < 2 ^ 63" using fit lt by simp
    then show ?thesis using K n x by (simp add: share_of_u64_def votes_for_def)
  qed
  have e: "rs = map (\<lambda>r. (int (votes_for t (snd r)), r)) (g_rows (miners c))"
    using all one by (induction rule: list_all2_induct) simp_all
  have "mset wits = image_mset snd (mset rs)" by (simp add: wits)
  then show "mset wits = mset (g_rows (miners c))" by (simp add: e multiset.map_comp comp_def)
  let ?ys = "sort_key (\<lambda>x. - fst x) (sort_key (\<lambda>x. vote_id (snd (snd x))) rs)"
  have votes: "\<forall>x \<in> set ?ys. fst x = int (votes_for t (snd (snd x)))" by (auto simp: e)
  have "sorted_wrt (\<lambda>x y. - fst x \<le> - fst y) ?ys" using sorted_sort_key [of "\<lambda>x. - fst x"] unfolding sorted_wrt_map by blast
  then have "sorted_wrt (\<lambda>x y. votes_for t (snd (snd y)) \<le> votes_for t (snd (snd x))) ?ys"
    by (rule sorted_wrt_mono_rel [rotated]) (use votes in auto)
  then show "sorted_wrt (\<lambda>r s. votes_for t (snd s) \<le> votes_for t (snd r)) wits" by (simp add: wits sorted_wrt_map)
qed

lemma tally_keeps_miners: "tally_votes c = Inr (t, c1) \<Longrightarrow> miners c1 = miners c \<and> cpo c1 = cpo c"
  unfolding tally_votes_def
  by (drule foldE_invariant [where I = "\<lambda>s. miners (snd s) = miners c \<and> cpo (snd s) = cpo c"])
    (auto simp: tally_account_def Let_def)

text \<open>
  The size of the miner set the voters ask for: half the stake of those who have an opinion is the
  target \<open>T\<close>, and \<open>n\<close> is the least number for which the stake of those who want at
  most \<open>2 n + 1\<close> miners exceeds it, or the largest number the histogram has.
\<close>

definition wanted_size :: "nat list \<Rightarrow> nat \<Rightarrow> nat \<Rightarrow> bool" where
  "wanted_size h T n \<longleftrightarrow> (if T = 0 then n = 0
     else n < length h \<and> (Suc n = length h \<or> T < sum_list (take n (tl h))) \<and> (\<forall>m < n. sum_list (take m (tl h)) \<le> T))"

lemma count_miners_law:
  assumes S: "safe_exact S" and K: "share_of_u64 K" and fit: "\<forall>x \<in> set h. x < 2 ^ 63" and h: "h \<noteq> []"
  shows "count_miners S K h (int T) n tally = Inr r \<Longrightarrow> tally = int (sum_list (take n (tl h))) \<Longrightarrow> n < length h \<Longrightarrow>
    \<forall>m < n. sum_list (take m (tl h)) \<le> T \<Longrightarrow>
    r < length h \<and> (Suc r = length h \<or> T < sum_list (take r (tl h))) \<and> (\<forall>m < r. sum_list (take m (tl h)) \<le> T)"
proof (induction "length h - n" arbitrary: n tally rule: less_induct)
  case less
  show ?case
  proof (cases "n < length h - 1 \<and> tally \<le> int T")
    case True
    have nth: "tl h ! n = h ! (n + 1)" and len: "n < length (tl h)" using True by (simp_all add: nth_tl)
    have "h ! (n + 1) \<in> set h" using True by (intro nth_mem) linarith
    then have "h ! (n + 1) < 2 ^ 63" using fit by blast
    then have "K (h ! (n + 1)) = Inr (int (h ! (n + 1)))" using K by (simp add: share_of_u64_def)
    then obtain y where y: "S (tally + int (h ! (n + 1))) = Inr y" and c: "count_miners S K h (int T) (n + 1) y = Inr r"
      using less.prems(1) True by (auto simp: count_miners.simps [of S K h "int T" n] split: sum.splits)
    have sum: "y = int (sum_list (take (n + 1) (tl h)))"
      using safe_exactD [OF S y] less.prems(2) nth len by (simp add: take_Suc_conv_app_nth)
    have "\<forall>m < n + 1. sum_list (take m (tl h)) \<le> T" using less.prems(2,4) True by (auto simp: less_Suc_eq)
    moreover have "n + 1 < length h" using True by linarith
    ultimately show ?thesis using less.hyps [OF _ c sum] by simp
  next
    case False
    then have "r = n" using less.prems(1) by (auto simp: count_miners.simps [of S K h "int T" n] split: if_splits)
    then show ?thesis using False less.prems by auto
  qed
qed

lemma wanted_miners_law:
  assumes S: "safe_exact S" and K: "share_of_u64 K" and fit: "\<forall>x \<in> set (vt_histogram t). x < 2 ^ 63"
    and run: "wanted_miners S K t = Inr n"
  shows "wanted_size (vt_histogram t) (u64 (int (vt_total t) - int (hd (vt_histogram t))) div 2) n"
proof -
  let ?T = "u64 (int (vt_total t) - int (hd (vt_histogram t))) div 2"
  have "?T < 2 ^ 63" by (simp add: u64_def)
  then have "K ?T = Inr (int ?T)" using K by (simp add: share_of_u64_def)
  with run have h: "vt_histogram t \<noteq> []" and "(if 0 < ?T then count_miners S K (vt_histogram t) (int ?T) 0 0 else Inr 0) = Inr n"
    by (auto simp: wanted_miners_def)
  then show ?thesis
    using count_miners_law [OF S K fit h, of ?T 0 0 n] by (auto simp: wanted_size_def split: if_splits)
qed

text \<open>
  C31. The election seats \<open>2 n + 1\<close> miners, where \<open>n\<close> is the least number such that the
  stake that wants at most that many is more than half of the stake that has an opinion, but at least
  the chain's minimal number of miners, and all miners if there are fewer; and no miner that is left
  out has more votes than one that is elected.
\<close>

theorem elected_most_voted:
  assumes S: "safe_exact S" and K: "share_of_u64 K" and ok: "t_ok (miners c)" and run: "elect_miners S K c = Inr c'"
    and tally: "tally_votes c = Inr (t, c1)" and fit: "\<forall>n \<in> set (vt_buffer t @ vt_histogram t). n < 2 ^ 63"
  shows "\<exists>n. wanted_size (vt_histogram t) (u64 (int (vt_total t) - int (hd (vt_histogram t))) div 2) n \<and>
    length (active_miners (gpo c')) = min (max (2 * n + 1) (min_miner_count (cpo c))) (length (g_rows (miners c))) \<and>
    distinct (active_miners (gpo c')) \<and>
    (\<forall>i j x y. i \<in> set (active_miners (gpo c')) \<and> generic_find (miners c) i = Some x \<and>
       j \<notin> set (active_miners (gpo c')) \<and> generic_find (miners c) j = Some y \<longrightarrow> votes_for t y \<le> votes_for t x)"
proof -
  from run tally obtain n wits where n: "wanted_miners S K t = Inr n" and w: "sort_votable_miners K (vt_buffer t) c1 = Inr wits"
    and act: "active_miners (gpo c') = map fst (take (elected_count n (min_miner_count (cpo c1)) (length wits)) wits)"
    by (auto simp: elect_miners_def Let_def)
  let ?k = "elected_count n (min_miner_count (cpo c1)) (length wits)"
  have same: "miners c1 = miners c" "cpo c1 = cpo c" using tally_keeps_miners [OF tally] by simp_all
  have buf: "\<forall>n \<in> set (vt_buffer t). n < 2 ^ 63" using fit by simp
  note law = sort_votable_law [OF K buf w, unfolded same]
  have len: "length wits = length (g_rows (miners c))" using law(1) by (metis size_mset)
  have d: "distinct (map fst wits)"
  proof -
    have "mset (map fst wits) = mset (map fst (g_rows (miners c)))" by (simp add: law(1))
    moreover have "distinct (map fst (g_rows (miners c)))" using ok by (simp add: generic_invar_def sorted_rows_distinct)
    ultimately show ?thesis by (metis mset_eq_imp_distinct_iff)
  qed
  have mem: "(k, x) \<in> set wits" if "generic_find (miners c) k = Some x" for k x
    using generic_find_row [OF that] law(1) by (metis set_mset_mset)
  have split: "sorted_wrt (\<lambda>r s. votes_for t (snd s) \<le> votes_for t (snd r)) (take ?k wits @ drop ?k wits)"
    using law(2) by simp
  have "votes_for t y \<le> votes_for t x"
    if el: "i \<in> set (active_miners (gpo c'))" and "generic_find (miners c) i = Some x"
      and "j \<notin> set (active_miners (gpo c'))" "generic_find (miners c) j = Some y" for i j x y
  proof -
    obtain x' where "(i, x') \<in> set (take ?k wits)" using el unfolding act by force
    moreover have "x' = x" using mem [OF that(2)] in_set_takeD [OF calculation] d by (metis eq_key_imp_eq_value)
    ultimately have "(i, x) \<in> set (take ?k wits)" by simp
    moreover have "(j, y) \<notin> set (take ?k wits)" using that(3) by (force simp: act)
    then have "(j, y) \<in> set (drop ?k wits)" using mem [OF that(4)] by (metis Un_iff append_take_drop_id set_append)
    ultimately show ?thesis using split unfolding sorted_wrt_append by force
  qed
  moreover have "length (active_miners (gpo c')) = ?k" by (simp add: act elected_count_def)
  moreover have "distinct (active_miners (gpo c'))" unfolding act take_map [symmetric] by (rule distinct_take [OF d])
  moreover have "wanted_size (vt_histogram t) (u64 (int (vt_total t) - int (hd (vt_histogram t))) div 2) n"
    by (rule wanted_miners_law [OF S K _ n]) (use fit in simp)
  ultimately show ?thesis using len same by (intro exI [of _ n]) (auto simp: elected_count_def mult.commute)
qed

section \<open>Maintenance keeps the books\<close>

lemma maintenance_books:
  assumes "safe_exact S" and "safe_no_assert S" and "chain_ok c" and "subscription_prices_ok c"
    and run: "perform_chain_maintenance S K b c = Inr c'"
  shows "chain_ok c' \<and> core_books c' = core_books c"
proof -
  from run obtain c1 c2 c3 where 1: "elect_miners S K c = Inr c1" and 2: "decent_housekeeping S c1 = Inr c2"
    and 3: "schedule_maintenance b (apply_pending_parameters c2) = Inr c3" and 4: "process_budget S K c3 = Inr c'"
    by (auto simp: perform_chain_maintenance_def)
  have k1: "books_kept c c1" by (rule elect_miners_kept [OF assms(3) 1])
  have "subscription_prices_ok c1" using k1 assms(4) by (simp add: books_kept_def)
  then have k2: "books_kept c1 c2" by (rule money_books [OF housekeeping_kept [OF assms(1,2) books_keptD [OF k1] _ 2]])
  have pend: "chain_ok (apply_pending_parameters c2)" "core_books (apply_pending_parameters c2) = core_books c2"
    using books_keptD [OF k2] by (auto simp: apply_pending_parameters_def core_books_def frame split: option.splits)
  from 3 obtain n where c3: "c3 = (apply_pending_parameters c2)\<lparr>dgpo := (dgpo (apply_pending_parameters c2))\<lparr>next_maintenance_time := n,
      accounts_registered_this_interval := 0\<rparr>\<rparr>" by (auto simp: schedule_maintenance_def)
  have "chain_ok c3" "core_books c3 = core_books c2" using pend by (simp_all add: c3 core_books_def frame)
  moreover have "core_books c2 = core_books c" using k1 k2 by (simp add: books_kept_def core_books_def)
  ultimately show ?thesis using process_budget_law(1,2) [OF assms(1) _ 4] by simp
qed

section \<open>Concrete instances\<close>

lemma demo_core_books: "core_books demo_chain = 0"
  by code_simp

lemma demo_dyn_owned: "dyn_owned demo_chain"
  unfolding dyn_owned_def
proof (intro allI impI)
  fix k d assume "generic_find (asset_dyn demo_chain) k = Some d"
  then have "k = 0 \<or> k = 1" by (auto simp: demo_chain_def demo_dyn_def generic_find_def split: if_splits)
  then show "\<exists>a ao. generic_find (assets demo_chain) a = Some ao \<and> dynamic_asset_data_id ao = k"
    by (auto simp: demo_chain_def demo_assets_def generic_find_def intro!: exI [of _ k])
qed

theorem next_maintenance_earliest_witness:
  "\<exists>n' m'. maintenance_after False 425 425 400 10 = Inr n' \<and> 425 < n' \<and> n' \<le> 435 \<and> n' mod 10 = 0 \<and>
     maintenance_after True 425 425 400 10 = Inr m' \<and> 425 < m'"
  using next_maintenance_earliest [of 10 400 425] by auto

text \<open>A vesting balance of the core asset and one of another asset.\<close>

definition demo_locked_chain :: chain where
  "demo_locked_chain = demo_chain\<lparr>
     balances := \<lparr>g_next_id = 3, g_rows =
       [(0, \<lparr>bal_owner = 4, bal_asset = 0, bal_balance = 1000\<rparr>),
        (1, \<lparr>bal_owner = 5, bal_asset = 0, bal_balance = 260\<rparr>),
        (2, \<lparr>bal_owner = 4, bal_asset = 1, bal_balance = 575\<rparr>)]\<rparr>,
     vestings := \<lparr>g_next_id = 2, g_rows =
       [(0, demo_vb\<lparr>vb_balance := mk_asset 40 0\<rparr>), (1, demo_vb\<lparr>vb_balance := mk_asset 25 1\<rparr>)]\<rparr>\<rparr>"

lemma demo_locked_supply: "get_real_supply checked64 demo_locked_chain =
    Inr \<lparr>rs_account_balances = 1260, rs_vesting_balances = 65, rs_escrows = 0, rs_pools = 200\<rparr>"
  by code_simp

theorem budget_records_real_supply_witness:
  "\<exists>c'. process_budget checked64 demo_share demo_locked_chain = Inr c' \<and> supply_of c' 0 = 1500 \<and> core_books c' = 0"
proof -
  let ?c = demo_locked_chain
  have ok: "chain_ok ?c" by (rule chain_ok_rows) code_simp
  have d: "dyn_owned ?c" using demo_dyn_owned by (simp add: dyn_owned_def demo_locked_chain_def)
  have n: "core_books ?c = 0" "foreign_locked ?c = 25"
    "real_supply_total checked64 \<lparr>rs_account_balances = 1260, rs_vesting_balances = 65, rs_escrows = 0, rs_pools = 200\<rparr> = Inr 1525"
    by code_simp+
  have "succeeds (process_budget checked64 demo_share ?c)"
    unfolding process_budget_def demo_locked_supply
    by (simp add: succeeds_def demo_locked_chain_def demo_chain_def get_asset_def get_dyn_def t_get_def generic_find_def demo_assets_def demo_dyn_def
        blocks_to_maintenance_def demo_params_def head_block_time_def Let_def checked64_def get_miner_budget_def
        get_new_asset_per_block_def head_block_num_def reward_tables u32_def u64_def demo_share_def GRAPHENE_MAX_SHARE_SUPPLY_def
        modify_dyn_def t_modify_def generic_modify_def no_unique_def t_create_def generic_create_def violates_unique_def t_empty_def del_row_def)
  then obtain c' where c': "process_budget checked64 demo_share ?c = Inr c'" by (rule succeedsE)
  then show ?thesis
    using budget_records_real_supply [OF checked64_exact ok d n(1) c' demo_locked_supply n(3)] n(2) by auto
qed

definition demo_miner :: "account_id_type \<Rightarrow> nat \<Rightarrow> nat \<Rightarrow> miner_object" where
  "demo_miner a v confirmed = \<lparr>miner_account = a, last_aslot = 0, signing_key = 0, pay_vb = None, vote_id = v, total_votes = 0,
     total_missed = 0, last_confirmed_block_num = confirmed, vote_ranking = 0, votes_gained = [], miner_url = []\<rparr>"

definition demo_voter :: "string \<Rightarrow> nat list \<Rightarrow> account_object" where
  "demo_voter n vs = (demo_account n)\<lparr>acc_options := demo_options\<lparr>votes := vs, num_miner := length vs\<rparr>\<rparr>"

definition demo_vote_chain :: chain where
  "demo_vote_chain = demo_chain\<lparr>
     accounts := \<lparr>g_next_id = 3, g_rows = [(0, demo_voter ''miner'' []), (1, demo_voter ''cecil'' [2]), (2, demo_voter ''alice'' [1, 2])]\<rparr>,
     balances := \<lparr>g_next_id = 2, g_rows = [(0, \<lparr>bal_owner = 1, bal_asset = 0, bal_balance = 3\<rparr>),
                                          (1, \<lparr>bal_owner = 2, bal_asset = 0, bal_balance = 7\<rparr>)]\<rparr>,
     miners := \<lparr>g_next_id = 3, g_rows = [(0, demo_miner 0 0 75), (1, demo_miner 1 1 78), (2, demo_miner 2 2 79)]\<rparr>,
     gpo := (gpo demo_chain)\<lparr>next_available_vote_id := 3, active_miners := [0, 1, 2]\<rparr>\<rparr>"

theorem elected_most_voted_witness:
  "\<exists>c'. elect_miners checked64 demo_share demo_vote_chain = Inr c' \<and> length (active_miners (gpo c')) = 3"
proof -
  have "succeeds (elect_miners checked64 demo_share demo_vote_chain)" by code_simp
  then obtain c' where c': "elect_miners checked64 demo_share demo_vote_chain = Inr c'" by (rule succeedsE)
  then obtain t c1 where t: "tally_votes demo_vote_chain = Inr (t, c1)" by (auto simp: elect_miners_def)
  have "case tally_votes demo_vote_chain of Inl _ \<Rightarrow> False
     | Inr (t, c) \<Rightarrow> vt_buffer t = [0, 7, 10] \<and> vt_histogram t = [3, 7, 0, 0, 0, 0] \<and> vt_total t = 10" by code_simp
  then have b: "vt_buffer t = [0, 7, 10]" "vt_histogram t = [3, 7, 0, 0, 0, 0]" "vt_total t = 10" using t by simp_all
  have K: "share_of_u64 demo_share" by (simp add: share_of_u64_def demo_share_def)
  have m: "t_ok (miners demo_vote_chain)" "length (g_rows (miners demo_vote_chain)) = 3" "min_miner_count (cpo demo_vote_chain) = 1"
    by (simp_all add: demo_vote_chain_def demo_chain_def generic_invar_def)
  have u: "u64 7 div 2 = 3" by (simp add: u64_def)
  have "min (2 * n) 2 = 2" if "wanted_size [3, 7, 0, 0, 0, 0] 3 n" for n using that by (cases n) (simp_all add: wanted_size_def)
  then show ?thesis
    using elected_most_voted [OF checked64_exact K m(1) c' t] c' by (auto simp: b m u)
qed

theorem irreversible_supermajority_witness:
  "\<exists>c'. update_last_irreversible_block False demo_vote_chain = Inr c' \<and> last_irreversible_block_num (dgpo c') = 75 \<and>
     21000 \<le> 10000 * confirmed_by 75 demo_vote_chain"
proof -
  have "succeeds (update_last_irreversible_block False demo_vote_chain)"
    and l: "last_irreversible_block_num (dgpo demo_vote_chain) = 70" "length (active_miners (gpo demo_vote_chain)) = 3"
    by (simp_all add: succeeds_def update_last_irreversible_block_def confirmed_numbers_def demo_vote_chain_def demo_chain_def
        generic_find_def t_get_def demo_miner_def irreversible_offset_def Let_def)
  then obtain c' where c': "update_last_irreversible_block False demo_vote_chain = Inr c'" by (blast elim: succeedsE)
  then have "last_irreversible_block_num (dgpo c') = 75"
    by (auto simp: update_last_irreversible_block_def confirmed_numbers_def demo_vote_chain_def demo_chain_def
        generic_find_def t_get_def demo_miner_def irreversible_offset_def Let_def)
  then show ?thesis using irreversible_supermajority [OF c'] c' l by simp
qed

end
