(* ===== verification/Vesting_Evaluator.thy ===== *)
theory Vesting_Evaluator
  imports Evaluator
begin

text \<open>
  \<open>vesting\_balance\_evaluator.cpp\<close> and the operations of \<open>protocol/vesting.hpp\<close>: creating a
  vesting balance from an account balance and withdrawing what has vested.
\<close>

section \<open>Operations\<close>

datatype vesting_policy_initializer =
    Linear_Initializer (init_begin_timestamp: time_point_sec) (init_cliff: nat) (init_duration: nat)
  | Cdd_Initializer (init_start_claim: time_point_sec) (init_vesting_seconds: nat)

record vesting_balance_create_operation =
  vc_fee :: asset
  vc_creator :: account_id_type
  vc_owner :: account_id_type
  vc_amount :: asset
  vc_policy :: vesting_policy_initializer

definition vesting_balance_create_validate :: "vesting_balance_create_operation \<Rightarrow> unit res" where
  "vesting_balance_create_validate op =
     bindE (require (0 \<le> amount (vc_fee op)) Assert_Exception) (\<lambda>_.
     require (0 < amount (vc_amount op)) Assert_Exception)"

record vesting_balance_withdraw_operation =
  vw_fee :: asset
  vw_vesting_balance :: nat
  vw_owner :: account_id_type
  vw_amount :: asset

definition vesting_balance_withdraw_validate :: "vesting_balance_withdraw_operation \<Rightarrow> unit res" where
  "vesting_balance_withdraw_validate op =
     bindE (require (0 \<le> amount (vw_fee op)) Assert_Exception) (\<lambda>_.
     require (0 < amount (vw_amount op)) Assert_Exception)"

section \<open>Evaluators\<close>

definition vesting_balance_create_do_evaluate ::
  "vesting_balance_create_operation \<Rightarrow> fee_state \<Rightarrow> chain \<Rightarrow> (fee_state \<times> unit) res" where
  "vesting_balance_create_do_evaluate op f c =
     bindE (get_account c (vc_creator op)) (\<lambda>creator_account.
     bindE (get_account c (vc_owner op)) (\<lambda>_.
     bindE (require (0 < amount (vc_amount op)) Assert_Exception) (\<lambda>_.
     bindE (asset_less (get_balance c (vc_creator op) (asset_id (vc_amount op))) (vc_amount op)) (\<lambda>less.
     bindE (require (\<not> less) Assert_Exception) (\<lambda>_.
     Inr (f, ()))))))"

fun init_policy :: "int \<Rightarrow> time_point_sec \<Rightarrow> vesting_policy_initializer \<Rightarrow> vesting_policy" where
  "init_policy init_balance now (Linear_Initializer bt cliff duration) =
     Linear \<lparr>begin_timestamp = bt, vesting_cliff_seconds = cliff, vesting_duration_seconds = duration,
       begin_balance = init_balance\<rparr>"
| "init_policy init_balance now (Cdd_Initializer sc secs) =
     Cdd \<lparr>vesting_seconds = secs, FFF_seconds_earned = 0, start_claim = sc, FFF_seconds_earned_last_update = now\<rparr>"

definition vesting_balance_create_do_apply ::
  "safe \<Rightarrow> vesting_balance_create_operation \<Rightarrow> fee_state \<Rightarrow> unit \<Rightarrow> chain \<Rightarrow> chain res" where
  "vesting_balance_create_do_apply S op f u c =
     (let now = head_block_time c
      in bindE (asset_less (get_balance c (vc_creator op) (asset_id (vc_amount op))) (vc_amount op)) (\<lambda>less.
         bindE (require (\<not> less) Assert_Exception) (\<lambda>_.
         bindE (asset_neg S (vc_amount op)) (\<lambda>neg.
         bindE (adjust_balance S (vc_creator op) neg c) (\<lambda>c1.
         bindE (t_create no_unique \<lparr>vb_owner = vc_owner op, vb_balance = vc_amount op,
                  vb_policy = init_policy (amount (vc_amount op)) now (vc_policy op)\<rparr> (vestings c1)) (\<lambda>t.
         Inr (c1\<lparr>vestings := t\<rparr>)))))))"

definition vesting_balance_withdraw_do_evaluate ::
  "safe \<Rightarrow> vesting_balance_withdraw_operation \<Rightarrow> fee_state \<Rightarrow> chain \<Rightarrow> (fee_state \<times> unit) res" where
  "vesting_balance_withdraw_do_evaluate S op f c =
     (let now = head_block_time c
      in bindE (t_get (vestings c) (vw_vesting_balance op)) (\<lambda>vbo.
         bindE (require (vw_owner op = vb_owner vbo) Assert_Exception) (\<lambda>_.
         bindE (vb_is_withdraw_allowed S now (vw_amount op) vbo) (\<lambda>allowed.
         bindE (require allowed Assert_Exception) (\<lambda>_.
         bindE (get_account c (vw_owner op)) (\<lambda>_.
         Inr (f, ())))))))"

definition vesting_balance_withdraw_do_apply ::
  "safe \<Rightarrow> vesting_balance_withdraw_operation \<Rightarrow> fee_state \<Rightarrow> unit \<Rightarrow> chain \<Rightarrow> chain res" where
  "vesting_balance_withdraw_do_apply S op f u c =
     (let now = head_block_time c
      in bindE (t_modify no_unique (vw_vesting_balance op) (vb_withdraw S now (vw_amount op)) (vestings c)) (\<lambda>t.
         adjust_balance S (vw_owner op) (vw_amount op) (c\<lparr>vestings := t\<rparr>)))"

section \<open>Contracts\<close>

lemma vb_withdraw_exact:
  assumes "safe_exact S" and "vb_withdraw S now d vb = Inr vb'"
  shows "vb_balance vb' = mk_asset (amount (vb_balance vb) - amount d) (asset_id d)" and "asset_id (vb_balance vb) = asset_id d"
    and "vb_owner vb' = vb_owner vb" and "vb_policy vb' = policy_on_withdraw (vb_policy vb) (vb_ctx vb now d)"
  using assms(2) by (auto simp: vb_withdraw_def asset_sub_def dest!: safe_exactD [OF assms(1)])

lemma vesting_balance_withdraw_apply:
  assumes S: "safe_exact S" and ok: "chain_ok c" and ap: "vesting_balance_withdraw_do_apply S op f u c = Inr c'"
  obtains vb vb' c1 where "generic_find (vestings c) (vw_vesting_balance op) = Some vb"
    and "vb_withdraw S (head_block_time c) (vw_amount op) vb = Inr vb'"
    and "chain_ok c'" and "\<And>a. holdings c' a = holdings c a" and "\<And>a. supply_of c' a = supply_of c a"
    and "generic_find (vestings c') = (generic_find (vestings c))(vw_vesting_balance op \<mapsto> vb')"
    and "\<And>x a. balance_of c' x a = balance_of c x a + (if x = vw_owner op \<and> a = asset_id (vw_amount op) then amount (vw_amount op) else 0)"
proof -
  from ap obtain t where t: "t_modify no_unique (vw_vesting_balance op) (vb_withdraw S (head_block_time c) (vw_amount op)) (vestings c) = Inr t"
    and 2: "adjust_balance S (vw_owner op) (vw_amount op) (c\<lparr>vestings := t\<rparr>) = Inr c'"
    by (auto simp: vesting_balance_withdraw_do_apply_def Let_def)
  show thesis
  proof (rule modify_vesting_law [OF ok t])
    fix u v
    assume u: "generic_find (vestings c) (vw_vesting_balance op) = Some u"
      and v: "vb_withdraw S (head_block_time c) (vw_amount op) u = Inr v"
      and ok1: "chain_ok (c\<lparr>vestings := t\<rparr>)"
      and h: "\<And>a. holdings (c\<lparr>vestings := t\<rparr>) a = holdings c a + vested_in a v - vested_in a u"
      and s: "\<And>a. supply_of (c\<lparr>vestings := t\<rparr>) a = supply_of c a"
      and ft: "generic_find t = (generic_find (vestings c))(vw_vesting_balance op \<mapsto> v)"
    note l = adjust_balance_holdings [OF S ok1 2]
    have d: "vested_in a v - vested_in a u = - (if a = asset_id (vw_amount op) then amount (vw_amount op) else 0)" for a
      using vb_withdraw_exact(1,2) [OF S v] by (auto simp: vested_in_def)
    have "vestings c' = t" by (subst l(4)) simp
    moreover have "balance_of c' x a = balance_of c x a +
        (if x = vw_owner op \<and> a = asset_id (vw_amount op) then amount (vw_amount op) else 0)" for x a
      using adjust_balance_of [OF S ok1 2, of x a] balance_of_cong [of "c\<lparr>vestings := t\<rparr>" c x a] by simp
    moreover have "holdings c' a = holdings c a" for a
      using l(2) [of a] h [of a] d [of a] by (simp split: if_splits)
    ultimately show thesis using that [OF u v l(1)] l(3) s ft by simp
  qed
qed

lemma vesting_balance_withdraw_contract:
  assumes "safe_exact S"
  shows "evaluator_contract S (vesting_balance_withdraw_do_evaluate S op) (vesting_balance_withdraw_do_apply S op)
    no_pre nothing nothing"
proof (rule keeps_contract [OF assms])
  fix c f f' and x :: unit
  assume "vesting_balance_withdraw_do_evaluate S op f c = Inr (f', x)"
  then show "f' = f" by (auto simp: vesting_balance_withdraw_do_evaluate_def Let_def)
next
  fix c and x :: unit and f c' a
  assume "chain_ok c" and "vesting_balance_withdraw_do_apply S op f x c = Inr c'"
  with assms show "chain_ok c' \<and> holdings c' a = holdings c a \<and> supply_of c' a = supply_of c a"
    by (rule vesting_balance_withdraw_apply) simp
qed

lemma vesting_balance_create_contract:
  assumes S: "safe_exact S"
  shows "evaluator_contract S (vesting_balance_create_do_evaluate op) (vesting_balance_create_do_apply S op)
    no_pre nothing nothing"
proof (rule keeps_contract [OF S])
  fix c f f' and x :: unit
  assume "vesting_balance_create_do_evaluate op f c = Inr (f', x)"
  then show "f' = f" by (auto simp: vesting_balance_create_do_evaluate_def)
next
  fix c and x :: unit and f c' a
  assume ok: "chain_ok c" and ap: "vesting_balance_create_do_apply S op f x c = Inr c'"
  from ap obtain neg c1 t p where n: "asset_neg S (vc_amount op) = Inr neg"
    and 1: "adjust_balance S (vc_creator op) neg c = Inr c1"
    and t: "t_create no_unique \<lparr>vb_owner = vc_owner op, vb_balance = vc_amount op, vb_policy = p\<rparr> (vestings c1) = Inr t"
    and c': "c' = c1\<lparr>vestings := t\<rparr>"
    by (auto simp: vesting_balance_create_do_apply_def Let_def)
  note l = adjust_balance_holdings [OF S ok 1]
  have v: "t_ok (vestings c1)" using l(1) by (simp add: frame)
  note tl = t_create_law(1) [OF v t] and ts = t_sum_create [OF v t, of "vested_in a"]
  show "chain_ok c' \<and> holdings c' a = holdings c a \<and> supply_of c' a = supply_of c a"
    using l(1) l(2,3) [of a] tl ts asset_neg_exact [OF S n] by (simp add: c' frame vested_in_def)
qed

sublocale safe_arith \<subseteq> vesting_balance_create: evaluator_contract S "vesting_balance_create_do_evaluate op"
    "vesting_balance_create_do_apply S op" no_pre nothing nothing for op
  by (rule vesting_balance_create_contract [OF exact])

sublocale safe_arith \<subseteq> vesting_balance_withdraw: evaluator_contract S "vesting_balance_withdraw_do_evaluate S op"
    "vesting_balance_withdraw_do_apply S op" no_pre nothing nothing for op
  by (rule vesting_balance_withdraw_contract [OF exact])

section \<open>Properties\<close>

lemma vb_withdraw_keeps:
  assumes "safe_exact S" and "vb_inv vb now" and "vb_is_withdraw_allowed S now a vb = Inr True" and "0 \<le> amount a"
    and "vb_withdraw S now a vb = Inr vb'"
  shows "amount a \<le> amount (vb_balance vb) \<and> vb_inv vb' now"
proof -
  note p = policy_contract [OF assms(1)]
  have i: "policy_inv (vb_policy vb) (vb_balance vb) now" using assms(2) by (simp add: vb_inv_def)
  have w: "policy_is_withdraw_allowed S (vb_policy vb) (mk_ctx (vb_balance vb) now a) = Inr True"
    using assms(3) by (simp add: vb_is_withdraw_allowed_def vb_ctx_mk)
  note b = vesting_contract.bound_law [OF p i w] and k = vesting_contract.withdraw_law [OF p i w assms(4)]
  show ?thesis using b k vb_withdraw_exact(1,4) [OF assms(1,5)] by (simp add: vb_inv_def vb_ctx_mk)
qed

text \<open>
  A withdrawal from a vesting balance that the chain accepts moves the amount from the vesting
  balance to its owner, who pays the fee; the vesting balance belongs to the owner, is not
  overdrawn, keeps its policy's invariant, and no other vesting balance changes.
\<close>

theorem vesting_withdraw_moves:
  assumes S: "safe_exact S" and ok: "chain_ok c" and nf: "\<not> skip_fee st"
    and run: "start_evaluate S st r (vw_owner op) (vw_fee op) (vesting_balance_withdraw_do_evaluate S op)
      (vesting_balance_withdraw_do_apply S op) c = Inr c'"
    and vb: "generic_find (vestings c) (vw_vesting_balance op) = Some vb" and inv: "vb_inv vb (head_block_time c)"
    and pos: "0 \<le> amount (vw_amount op)"
  shows "\<exists>vb'. generic_find (vestings c') = (generic_find (vestings c))(vw_vesting_balance op \<mapsto> vb') \<and>
    vb_owner vb = vw_owner op \<and> vb_balance vb' = mk_asset (amount (vb_balance vb) - amount (vw_amount op)) (asset_id (vb_balance vb)) \<and>
    amount (vw_amount op) \<le> amount (vb_balance vb) \<and> vb_inv vb' (head_block_time c) \<and>
    balance_of c' (vw_owner op) (asset_id (vb_balance vb)) =
      balance_of c (vw_owner op) (asset_id (vb_balance vb)) + amount (vw_amount op)
      - (if asset_id (vw_fee op) = asset_id (vb_balance vb) then amount (vw_fee op) else 0)"
  using ok nf run
proof (rule evaluator_contract.run_steps [OF vesting_balance_withdraw_contract [OF S]])
  fix f x c2 c3
  assume ev: "vesting_balance_withdraw_do_evaluate S op f c = Inr (f, x)"
    and ok2: "chain_ok c2" and c2: "c2 = c\<lparr>asset_dyn := asset_dyn c2\<rparr>"
    and 3: "vesting_balance_withdraw_do_apply S op f x c2 = Inr c3"
    and 4: "adjust_balance S (vw_owner op) (mk_asset (- amount (vw_fee op)) (asset_id (vw_fee op))) c3 = Inr c'"
  have same: "vestings c2 = vestings c" "head_block_time c2 = head_block_time c" "balances c2 = balances c"
    by (subst c2, simp add: head_block_time_def)+
  from ev vb have own: "vb_owner vb = vw_owner op"
    and al: "vb_is_withdraw_allowed S (head_block_time c) (vw_amount op) vb = Inr True"
    by (auto simp: vesting_balance_withdraw_do_evaluate_def Let_def)
  show ?thesis
  proof (rule vesting_balance_withdraw_apply [OF S ok2 3])
    fix u v
    assume u: "generic_find (vestings c2) (vw_vesting_balance op) = Some u"
      and v: "vb_withdraw S (head_block_time c2) (vw_amount op) u = Inr v" and ok3: "chain_ok c3"
      and f3: "generic_find (vestings c3) = (generic_find (vestings c2))(vw_vesting_balance op \<mapsto> v)"
      and b3: "\<And>x a. balance_of c3 x a = balance_of c2 x a +
        (if x = vw_owner op \<and> a = asset_id (vw_amount op) then amount (vw_amount op) else 0)"
    have uv: "u = vb" using u vb same by simp
    have "vestings c' = vestings c3" by (subst adjust_balance_holdings(4) [OF S ok3 4]) simp
    then have fv: "generic_find (vestings c') = (generic_find (vestings c))(vw_vesting_balance op \<mapsto> v)"
      using f3 same by simp
    note x = vb_withdraw_exact [OF S v [unfolded uv same(2)]]
    have le: "amount (vw_amount op) \<le> amount (vb_balance vb)" and iv: "vb_inv v (head_block_time c)"
      using vb_withdraw_keeps [OF S inv al pos v [unfolded uv same(2)]] by simp_all
    show ?thesis
      using fv own x(1,2) le iv b3 [of "vw_owner op" "asset_id (vb_balance vb)"]
        adjust_balance_of [OF S ok3 4, of "vw_owner op" "asset_id (vb_balance vb)"] balance_of_cong [OF same(3)]
      by auto
  qed
qed

definition demo_vested_chain :: chain where
  "demo_vested_chain = demo_chain\<lparr>vestings := \<lparr>g_next_id = 1, g_rows = [(0, \<lparr>vb_owner = 4, vb_balance = mk_asset 100 0,
     vb_policy = Cdd \<lparr>vesting_seconds = 100, FFF_seconds_earned = 0, start_claim = 0,
       FFF_seconds_earned_last_update = 350\<rparr>\<rparr>)]\<rparr>\<rparr>"

definition demo_withdraw :: vesting_balance_withdraw_operation where
  "demo_withdraw = \<lparr>vw_fee = mk_asset 10 0, vw_vesting_balance = 0, vw_owner = 4, vw_amount = mk_asset 40 0\<rparr>"

theorem vesting_withdraw_moves_witness:
  "\<exists>c' vb'. start_evaluate checked64 demo_trx (Inr 10) 4 (mk_asset 10 0) (vesting_balance_withdraw_do_evaluate checked64 demo_withdraw)
      (vesting_balance_withdraw_do_apply checked64 demo_withdraw) demo_vested_chain = Inr c' \<and>
    generic_find (vestings c') 0 = Some vb' \<and> amount (vb_balance vb') = 60 \<and>
    balance_of c' 4 0 = balance_of demo_vested_chain 4 0 + 30"
proof -
  let ?r = "start_evaluate checked64 demo_trx (Inr 10) (vw_owner demo_withdraw) (vw_fee demo_withdraw)
    (vesting_balance_withdraw_do_evaluate checked64 demo_withdraw) (vesting_balance_withdraw_do_apply checked64 demo_withdraw)
    demo_vested_chain"
  have "succeeds ?r" by code_simp
  then obtain c' where r: "?r = Inr c'" by (rule succeedsE)
  have ok: "chain_ok demo_vested_chain" by (rule chain_ok_rows) code_simp
  let ?vb = "\<lparr>vb_owner = 4, vb_balance = mk_asset 100 0, vb_policy = Cdd \<lparr>vesting_seconds = 100,
     FFF_seconds_earned = 0, start_claim = 0, FFF_seconds_earned_last_update = 350\<rparr>\<rparr>"
  have vb: "generic_find (vestings demo_vested_chain) (vw_vesting_balance demo_withdraw) = Some ?vb"
    by (simp add: demo_vested_chain_def demo_withdraw_def generic_find_def)
  have iv: "vb_inv ?vb (head_block_time demo_vested_chain)"
    by (simp add: vb_inv_def cdd_inv_def cdd_period_def head_block_time_def demo_vested_chain_def demo_chain_def)
  have pos: "0 \<le> amount (vw_amount demo_withdraw)" by (simp add: demo_withdraw_def)
  show ?thesis
    using vesting_withdraw_moves [OF checked64_exact ok demo_trx_fee r vb iv pos] r by (auto simp: demo_withdraw_def)
qed

end
