(* ===== verification/Withdraw_Permission.thy ===== *)
theory Withdraw_Permission
  imports Evaluator
begin

text \<open>
  \<open>withdraw\_permission\_evaluator.cpp\<close>, \<open>withdraw\_permission\_object.hpp\<close> and the validation of
  the operations: permissions to withdraw up to a limit in every period.
\<close>

section \<open>Operations\<close>

record withdraw_permission_create_operation =
  wpc_fee :: asset
  wpc_withdraw_from_account :: account_id_type
  wpc_authorized_account :: account_id_type
  wpc_withdrawal_limit :: asset
  wpc_withdrawal_period_sec :: nat
  wpc_periods_until_expiration :: nat
  wpc_period_start_time :: time_point_sec

record withdraw_permission_update_operation =
  wpu_fee :: asset
  wpu_withdraw_from_account :: account_id_type
  wpu_authorized_account :: account_id_type
  wpu_permission_to_update :: nat
  wpu_withdrawal_limit :: asset
  wpu_withdrawal_period_sec :: nat
  wpu_period_start_time :: time_point_sec
  wpu_periods_until_expiration :: nat

record withdraw_permission_claim_operation =
  wpl_fee :: asset
  wpl_withdraw_permission :: nat
  wpl_withdraw_from_account :: account_id_type
  wpl_withdraw_to_account :: account_id_type
  wpl_amount_to_withdraw :: asset

record withdraw_permission_delete_operation =
  wpd_fee :: asset
  wpd_withdraw_from_account :: account_id_type
  wpd_authorized_account :: account_id_type
  wpd_withdrawal_permission :: nat

definition withdraw_permission_create_validate :: "withdraw_permission_create_operation \<Rightarrow> unit res" where
  "withdraw_permission_create_validate op =
     bindE (require (0 \<le> amount (wpc_fee op)) Assert_Exception) (\<lambda>_.
     bindE (require (wpc_withdraw_from_account op \<noteq> wpc_authorized_account op) Assert_Exception) (\<lambda>_.
     bindE (require (0 < amount (wpc_withdrawal_limit op)) Assert_Exception) (\<lambda>_.
     bindE (require (0 < wpc_withdrawal_period_sec op) Assert_Exception) (\<lambda>_.
     require (0 < wpc_periods_until_expiration op) Assert_Exception))))"

definition withdraw_permission_update_validate :: "withdraw_permission_update_operation \<Rightarrow> unit res" where
  "withdraw_permission_update_validate op =
     bindE (require (0 < amount (wpu_withdrawal_limit op)) Assert_Exception) (\<lambda>_.
     bindE (require (0 \<le> amount (wpu_fee op)) Assert_Exception) (\<lambda>_.
     bindE (require (0 < wpu_withdrawal_period_sec op) Assert_Exception) (\<lambda>_.
     bindE (require (wpu_withdraw_from_account op \<noteq> wpu_authorized_account op) Assert_Exception) (\<lambda>_.
     require (0 < wpu_periods_until_expiration op) Assert_Exception))))"

definition withdraw_permission_claim_validate :: "withdraw_permission_claim_operation \<Rightarrow> unit res" where
  "withdraw_permission_claim_validate op =
     bindE (require (wpl_withdraw_to_account op \<noteq> wpl_withdraw_from_account op) Assert_Exception) (\<lambda>_.
     bindE (require (0 < amount (wpl_amount_to_withdraw op)) Assert_Exception) (\<lambda>_.
     require (0 \<le> amount (wpl_fee op)) Assert_Exception))"

definition withdraw_permission_delete_validate :: "withdraw_permission_delete_operation \<Rightarrow> unit res" where
  "withdraw_permission_delete_validate op =
     bindE (require (0 \<le> amount (wpd_fee op)) Assert_Exception) (\<lambda>_.
     require (wpd_withdraw_from_account op \<noteq> wpd_authorized_account op) Assert_Exception)"

section \<open>The permission\<close>

definition available_this_period :: "safe \<Rightarrow> time_point_sec \<Rightarrow> withdraw_permission_object \<Rightarrow> asset res" where
  "available_this_period S current_time p =
     (if time_plus (period_start_time p) (withdrawal_period_sec p) \<le> current_time then Inr (withdrawal_limit p)
      else
        bindE (if claimed_this_period p < amount (withdrawal_limit p)
               then S (amount (withdrawal_limit p) - claimed_this_period p) else Inr 0) (\<lambda>n.
        Inr (mk_asset n (asset_id (withdrawal_limit p)))))"

text \<open>
  The change a claim makes to the permission. The number of periods passed is a signed quotient;
  its product with the period is cut to 32 bits and added to the start.
\<close>

definition permit_claim ::
  "safe \<Rightarrow> time_point_sec \<Rightarrow> int \<Rightarrow> withdraw_permission_object \<Rightarrow> withdraw_permission_object res" where
  "permit_claim S now amt p =
     (let periods = c_div (int now - int (period_start_time p)) (int (withdrawal_period_sec p));
          start = time_plus (period_start_time p) (u32 (periods * int (withdrawal_period_sec p)))
      in bindE (if periods = 0 then S (claimed_this_period p + amt) else Inr amt) (\<lambda>n.
         Inr (p\<lparr>period_start_time := start, claimed_this_period := n\<rparr>)))"

section \<open>Evaluators\<close>

definition permission_expiration :: "time_point_sec \<Rightarrow> nat \<Rightarrow> nat \<Rightarrow> time_point_sec" where
  "permission_expiration start periods period = time_plus start (u32 (int periods * int period))"

definition withdraw_permission_create_do_evaluate ::
  "withdraw_permission_create_operation \<Rightarrow> fee_state \<Rightarrow> chain \<Rightarrow> (fee_state \<times> unit) res" where
  "withdraw_permission_create_do_evaluate op f c =
     bindE (require (generic_find (accounts c) (wpc_withdraw_from_account op) \<noteq> None) Assert_Exception) (\<lambda>_.
     bindE (require (generic_find (accounts c) (wpc_authorized_account op) \<noteq> None) Assert_Exception) (\<lambda>_.
     bindE (require (generic_find (assets c) (asset_id (wpc_withdrawal_limit op)) \<noteq> None) Assert_Exception) (\<lambda>_.
     bindE (require (head_block_time c < wpc_period_start_time op) Assert_Exception) (\<lambda>_.
     bindE (require (head_block_time c < permission_expiration (wpc_period_start_time op)
              (wpc_periods_until_expiration op) (wpc_withdrawal_period_sec op)) Assert_Exception) (\<lambda>_.
     bindE (require (block_interval (parameters (gpo c)) \<le> wpc_withdrawal_period_sec op) Assert_Exception) (\<lambda>_.
     Inr (f, ())))))))"

definition withdraw_permission_create_do_apply ::
  "withdraw_permission_create_operation \<Rightarrow> fee_state \<Rightarrow> unit \<Rightarrow> chain \<Rightarrow> chain res" where
  "withdraw_permission_create_do_apply op f u c =
     bindE (t_create no_unique
              \<lparr>withdraw_from_account = wpc_withdraw_from_account op, authorized_account = wpc_authorized_account op,
               withdrawal_limit = wpc_withdrawal_limit op, withdrawal_period_sec = wpc_withdrawal_period_sec op,
               period_start_time = wpc_period_start_time op,
               wp_expiration = permission_expiration (wpc_period_start_time op) (wpc_periods_until_expiration op)
                 (wpc_withdrawal_period_sec op),
               claimed_this_period = 0\<rparr> (withdraw_permissions c)) (\<lambda>t.
     Inr (c\<lparr>withdraw_permissions := t\<rparr>))"

definition withdraw_permission_claim_do_evaluate ::
  "safe \<Rightarrow> withdraw_permission_claim_operation \<Rightarrow> fee_state \<Rightarrow> chain \<Rightarrow> (fee_state \<times> unit) res" where
  "withdraw_permission_claim_do_evaluate S op f c =
     bindE (t_get (withdraw_permissions c) (wpl_withdraw_permission op)) (\<lambda>permit.
     bindE (require (head_block_time c < wp_expiration permit) Assert_Exception) (\<lambda>_.
     bindE (require (authorized_account permit = wpl_withdraw_to_account op) Assert_Exception) (\<lambda>_.
     bindE (require (withdraw_from_account permit = wpl_withdraw_from_account op) Assert_Exception) (\<lambda>_.
     bindE (available_this_period S (head_block_time c) permit) (\<lambda>available.
     bindE (asset_le (wpl_amount_to_withdraw op) available) (\<lambda>b1.
     bindE (require b1 Assert_Exception) (\<lambda>_.
     bindE (asset_less (get_balance c (wpl_withdraw_from_account op) (asset_id (wpl_amount_to_withdraw op)))
              (wpl_amount_to_withdraw op)) (\<lambda>b2.
     bindE (require (\<not> b2) Assert_Exception) (\<lambda>_.
     bindE (get_asset c (asset_id (wpl_amount_to_withdraw op))) (\<lambda>_.
     bindE (get_account c (wpl_withdraw_to_account op)) (\<lambda>_.
     bindE (get_account c (authorized_account permit)) (\<lambda>_.
     Inr (f, ())))))))))))))"

definition withdraw_permission_claim_do_apply ::
  "safe \<Rightarrow> withdraw_permission_claim_operation \<Rightarrow> fee_state \<Rightarrow> unit \<Rightarrow> chain \<Rightarrow> chain res" where
  "withdraw_permission_claim_do_apply S op f u c =
     bindE (t_modify no_unique (wpl_withdraw_permission op)
              (permit_claim S (head_block_time c) (amount (wpl_amount_to_withdraw op))) (withdraw_permissions c)) (\<lambda>t.
     bindE (asset_neg S (wpl_amount_to_withdraw op)) (\<lambda>neg.
     bindE (adjust_balance S (wpl_withdraw_from_account op) neg (c\<lparr>withdraw_permissions := t\<rparr>)) (\<lambda>c1.
     adjust_balance S (wpl_withdraw_to_account op) (wpl_amount_to_withdraw op) c1)))"

definition withdraw_permission_update_do_evaluate ::
  "withdraw_permission_update_operation \<Rightarrow> fee_state \<Rightarrow> chain \<Rightarrow> (fee_state \<times> unit) res" where
  "withdraw_permission_update_do_evaluate op f c =
     bindE (t_get (withdraw_permissions c) (wpu_permission_to_update op)) (\<lambda>permit.
     bindE (require (authorized_account permit = wpu_authorized_account op) Assert_Exception) (\<lambda>_.
     bindE (require (withdraw_from_account permit = wpu_withdraw_from_account op) Assert_Exception) (\<lambda>_.
     bindE (require (generic_find (assets c) (asset_id (wpu_withdrawal_limit op)) \<noteq> None) Assert_Exception) (\<lambda>_.
     bindE (require (head_block_time c \<le> wpu_period_start_time op) Assert_Exception) (\<lambda>_.
     bindE (require (head_block_time c < permission_expiration (wpu_period_start_time op)
              (wpu_periods_until_expiration op) (wpu_withdrawal_period_sec op)) Assert_Exception) (\<lambda>_.
     bindE (require (block_interval (parameters (gpo c)) \<le> wpu_withdrawal_period_sec op) Assert_Exception) (\<lambda>_.
     Inr (f, ()))))))))"

definition withdraw_permission_update_do_apply ::
  "withdraw_permission_update_operation \<Rightarrow> fee_state \<Rightarrow> unit \<Rightarrow> chain \<Rightarrow> chain res" where
  "withdraw_permission_update_do_apply op f u c =
     bindE (t_modify no_unique (wpu_permission_to_update op) (\<lambda>p.
              Inr (p\<lparr>period_start_time := wpu_period_start_time op,
                     wp_expiration := permission_expiration (wpu_period_start_time op) (wpu_periods_until_expiration op)
                       (wpu_withdrawal_period_sec op),
                     withdrawal_limit := wpu_withdrawal_limit op,
                     withdrawal_period_sec := wpu_withdrawal_period_sec op\<rparr>)) (withdraw_permissions c)) (\<lambda>t.
     Inr (c\<lparr>withdraw_permissions := t\<rparr>))"

definition withdraw_permission_delete_do_evaluate ::
  "withdraw_permission_delete_operation \<Rightarrow> fee_state \<Rightarrow> chain \<Rightarrow> (fee_state \<times> unit) res" where
  "withdraw_permission_delete_do_evaluate op f c =
     bindE (t_get (withdraw_permissions c) (wpd_withdrawal_permission op)) (\<lambda>permit.
     bindE (require (authorized_account permit = wpd_authorized_account op) Assert_Exception) (\<lambda>_.
     bindE (require (withdraw_from_account permit = wpd_withdraw_from_account op) Assert_Exception) (\<lambda>_.
     Inr (f, ()))))"

definition withdraw_permission_delete_do_apply ::
  "withdraw_permission_delete_operation \<Rightarrow> fee_state \<Rightarrow> unit \<Rightarrow> chain \<Rightarrow> chain res" where
  "withdraw_permission_delete_do_apply op f u c =
     bindE (t_get (withdraw_permissions c) (wpd_withdrawal_permission op)) (\<lambda>_.
     Inr (c\<lparr>withdraw_permissions := t_remove (wpd_withdrawal_permission op) (withdraw_permissions c)\<rparr>))"

section \<open>Contracts\<close>

lemma permissions_table_ok:
  assumes "chain_ok c"
  shows "t_create no_unique x (withdraw_permissions c) = Inr t \<Longrightarrow> t_ok t"
    and "t_modify no_unique k f (withdraw_permissions c) = Inr t \<Longrightarrow> t_ok t"
    and "t_ok (t_remove k (withdraw_permissions c))"
proof -
  have ok: "t_ok (withdraw_permissions c)" using assms by (simp add: frame)
  show "t_create no_unique x (withdraw_permissions c) = Inr t \<Longrightarrow> t_ok t" using t_create_law(1) [OF ok] .
  show "t_modify no_unique k f (withdraw_permissions c) = Inr t \<Longrightarrow> t_ok t" using t_modify_law [OF ok] by blast
  show "t_ok (t_remove k (withdraw_permissions c))" using t_remove_law(1) [OF ok] .
qed

lemma withdraw_permission_create_contract:
  "safe_exact S \<Longrightarrow> evaluator_contract S (withdraw_permission_create_do_evaluate op) (withdraw_permission_create_do_apply op)
     no_pre nothing nothing"
  by (rule keeps_contract)
    (auto simp: withdraw_permission_create_do_evaluate_def withdraw_permission_create_do_apply_def frame
      intro: chain_ok_frame permissions_table_ok(1))

lemma withdraw_permission_update_contract:
  "safe_exact S \<Longrightarrow> evaluator_contract S (withdraw_permission_update_do_evaluate op) (withdraw_permission_update_do_apply op)
     no_pre nothing nothing"
  by (rule keeps_contract)
    (auto simp: withdraw_permission_update_do_evaluate_def withdraw_permission_update_do_apply_def frame
      intro: chain_ok_frame permissions_table_ok(2))

lemma withdraw_permission_delete_contract:
  "safe_exact S \<Longrightarrow> evaluator_contract S (withdraw_permission_delete_do_evaluate op) (withdraw_permission_delete_do_apply op)
     no_pre nothing nothing"
  by (rule keeps_contract)
    (auto simp: withdraw_permission_delete_do_evaluate_def withdraw_permission_delete_do_apply_def frame permissions_table_ok(3))

lemma withdraw_permission_claim_contract:
  assumes S: "safe_exact S"
  shows "evaluator_contract S (withdraw_permission_claim_do_evaluate S op) (withdraw_permission_claim_do_apply S op)
     no_pre nothing nothing"
proof (rule keeps_contract [OF S])
  fix c f f' and x :: unit
  assume "withdraw_permission_claim_do_evaluate S op f c = Inr (f', x)"
  then show "f' = f" by (auto simp: withdraw_permission_claim_do_evaluate_def)
next
  fix c and x :: unit and f c' a
  assume ok: "chain_ok c" and ap: "withdraw_permission_claim_do_apply S op f x c = Inr c'"
  from ap obtain t neg c1 g where t: "t_modify no_unique (wpl_withdraw_permission op) g (withdraw_permissions c) = Inr t"
    and n: "asset_neg S (wpl_amount_to_withdraw op) = Inr neg"
    and 1: "adjust_balance S (wpl_withdraw_from_account op) neg (c\<lparr>withdraw_permissions := t\<rparr>) = Inr c1"
    and 2: "adjust_balance S (wpl_withdraw_to_account op) (wpl_amount_to_withdraw op) c1 = Inr c'"
    by (auto simp: withdraw_permission_claim_do_apply_def)
  have ok0: "chain_ok (c\<lparr>withdraw_permissions := t\<rparr>)" using ok permissions_table_ok(2) [OF ok t] by (simp add: frame)
  note l1 = adjust_balance_holdings [OF S ok0 1]
  note l2 = adjust_balance_holdings [OF S l1(1) 2]
  show "chain_ok c' \<and> holdings c' a = holdings c a \<and> supply_of c' a = supply_of c a"
    using l1(2,3) [of a] l2(1) l2(2,3) [of a] asset_neg_exact [OF S n] by (simp add: frame)
qed

sublocale safe_arith \<subseteq> withdraw_permission_claim: evaluator_contract S "withdraw_permission_claim_do_evaluate S op"
    "withdraw_permission_claim_do_apply S op" no_pre nothing nothing for op
  by (rule withdraw_permission_claim_contract [OF exact])

section \<open>The limit per period\<close>

text \<open>
  A history of a permission: claims on it that the evaluator accepts, each with the head time at which
  it is accepted and its amount; in between, anything else that happens to the ledger (other operations,
  blocks, maintenance), which the history does not constrain except that time does not go back and
  that the permission itself is not updated or deleted.
\<close>

inductive permit_history :: "safe \<Rightarrow> nat \<Rightarrow> chain \<Rightarrow> (time_point_sec \<times> int) list \<Rightarrow> bool" for S pid where
  no_claim: "permit_history S pid c []"
| claim: "permit_history S pid c ((head_block_time c, amount (wpl_amount_to_withdraw op)) # cs)"
    if "withdraw_permission_claim_validate op = Inr ()" "wpl_withdraw_permission op = pid" "\<not> skip_fee st"
      "start_evaluate S st r (wpl_withdraw_to_account op) (wpl_fee op) (withdraw_permission_claim_do_evaluate S op)
         (withdraw_permission_claim_do_apply S op) c = Inr c'" "permit_history S pid c' cs"
| other: "permit_history S pid c cs"
    if "head_block_time c \<le> head_block_time c'" "chain_ok c'"
      "generic_find (withdraw_permissions c') pid = generic_find (withdraw_permissions c) pid" "permit_history S pid c' cs"

inductive_cases permit_historyE: "permit_history S pid c cs"

definition in_period :: "nat \<Rightarrow> nat \<Rightarrow> time_point_sec \<times> int \<Rightarrow> bool" where
  "in_period s period cl \<longleftrightarrow> s \<le> fst cl \<and> fst cl < s + period"

definition claimed_in :: "nat \<Rightarrow> nat \<Rightarrow> (time_point_sec \<times> int) list \<Rightarrow> int" where
  "claimed_in s period cs = sum_list (map snd (filter (in_period s period) cs))"

text \<open>What the evaluator of a claim lets through and what it does to the permission.\<close>

lemma claim_runs:
  assumes S: "safe_exact S" and ok: "chain_ok c" "\<not> skip_fee st"
    and run: "start_evaluate S st r (wpl_withdraw_to_account op) (wpl_fee op) (withdraw_permission_claim_do_evaluate S op)
      (withdraw_permission_claim_do_apply S op) c = Inr c'"
    and p: "generic_find (withdraw_permissions c) (wpl_withdraw_permission op) = Some p"
  obtains p' av where "available_this_period S (head_block_time c) p = Inr av" and "amount (wpl_amount_to_withdraw op) \<le> amount av"
    and "permit_claim S (head_block_time c) (amount (wpl_amount_to_withdraw op)) p = Inr p'"
    and "generic_find (withdraw_permissions c') (wpl_withdraw_permission op) = Some p'"
    and "head_block_time c' = head_block_time c" and "chain_ok c'"
proof (rule run_inner [OF withdraw_permission_claim_contract [OF S] ok run])
  fix f x t c3 b
  let ?c = "c\<lparr>asset_dyn := t\<rparr>" and ?k = "wpl_withdraw_permission op"
  assume de: "withdraw_permission_claim_do_evaluate S op f c = Inr (f, x)" and ok2: "chain_ok ?c"
    and da: "withdraw_permission_claim_do_apply S op f x ?c = Inr c3" and c': "c' = c3\<lparr>balances := b\<rparr>"
  from de p obtain av where av: "available_this_period S (head_block_time c) p = Inr av"
    and le: "asset_le (wpl_amount_to_withdraw op) av = Inr True"
    by (auto simp: withdraw_permission_claim_do_evaluate_def t_get_def)
  from da obtain w neg c1 where w: "t_modify no_unique ?k (permit_claim S (head_block_time c) (amount (wpl_amount_to_withdraw op)))
      (withdraw_permissions c) = Inr w"
    and 1: "adjust_balance S (wpl_withdraw_from_account op) neg (?c\<lparr>withdraw_permissions := w\<rparr>) = Inr c1"
    and 2: "adjust_balance S (wpl_withdraw_to_account op) (wpl_amount_to_withdraw op) c1 = Inr c3"
    by (auto simp: withdraw_permission_claim_do_apply_def head_block_time_def)
  have wok: "chain_ok (?c\<lparr>withdraw_permissions := w\<rparr>)" using ok2 permissions_table_ok(2) [OF ok(1) w] by (simp add: frame)
  note l1 = adjust_balance_holdings [OF S wok 1]
  note l2 = adjust_balance_holdings [OF S l1(1) 2]
  have c3: "withdraw_permissions c3 = w" "dgpo c3 = dgpo c" by (subst l2(4), subst l1(4), simp (no_asm))+
  have tok: "t_ok (withdraw_permissions c)" using ok(1) by (simp add: frame)
  obtain p0 p' where "generic_find (withdraw_permissions c) ?k = Some p0"
    and p0: "permit_claim S (head_block_time c) (amount (wpl_amount_to_withdraw op)) p0 = Inr p'"
    and g: "generic_find w = (generic_find (withdraw_permissions c))(?k \<mapsto> p')"
    by (rule t_modify_law [OF tok w])
  then have p': "permit_claim S (head_block_time c) (amount (wpl_amount_to_withdraw op)) p = Inr p'" using p by simp
  have ok': "chain_ok c'" using evaluator_contract.run_law [OF withdraw_permission_claim_contract [OF S] ok run] by blast
  have "generic_find (withdraw_permissions c') ?k = Some p'" "head_block_time c' = head_block_time c"
    by (simp_all add: c' c3 g head_block_time_def)
  with that [OF av conjunct2 [OF asset_le_True [OF le]] p'] ok' show thesis by blast
qed

lemma permit_claim_effect:
  assumes S: "safe_exact S" and av: "available_this_period S t p = Inr av" and al: "a \<le> amount av"
    and pc: "permit_claim S t a p = Inr p'" and per: "0 < withdrawal_period_sec p"
    and t: "period_start_time p \<le> t" "t + withdrawal_period_sec p < 2 ^ 32" and cl: "claimed_this_period p \<le> amount (withdrawal_limit p)"
  defines "q \<equiv> (t - period_start_time p) div withdrawal_period_sec p"
  shows "period_start_time p' = period_start_time p + q * withdrawal_period_sec p"
    and "claimed_this_period p' = (if q = 0 then claimed_this_period p + a else a)"
    and "claimed_this_period p' \<le> amount (withdrawal_limit p)"
    and "withdrawal_limit p' = withdrawal_limit p" and "withdrawal_period_sec p' = withdrawal_period_sec p"
    and "in_period (period_start_time p') (withdrawal_period_sec p) (t, a)"
proof -
  let ?s = "period_start_time p" and ?w = "withdrawal_period_sec p"
  have qi: "c_div (int t - int ?s) (int ?w) = int q"
    using t per by (subst c_div_nonneg) (simp_all add: q_def of_nat_diff zdiv_int)
  have qw: "q * ?w \<le> t - ?s" by (simp add: q_def)
  then have le: "?s + q * ?w \<le> t" using t(1) by linarith
  then have b: "q * ?w < 2 ^ 32" "?s + q * ?w < 2 ^ 32" using t(2) by linarith+
  then have u: "u32 (int q * int ?w) = q * ?w" "time_plus ?s (q * ?w) = ?s + q * ?w"
    by (simp_all add: u32_def time_plus_def of_nat_mult [symmetric] of_nat_add [symmetric] del: of_nat_mult of_nat_add)
  from pc obtain n where p': "p' = p\<lparr>period_start_time := ?s + q * ?w, claimed_this_period := n\<rparr>"
    and n: "(if q = 0 then S (claimed_this_period p + a) else Inr a) = Inr n"
    by (auto simp: permit_claim_def qi u Let_def)
  have n': "n = (if q = 0 then claimed_this_period p + a else a)"
    using n by (auto split: if_splits dest!: safe_exactD [OF S])
  show "period_start_time p' = ?s + q * ?w" and "claimed_this_period p' = (if q = 0 then claimed_this_period p + a else a)"
    and "withdrawal_limit p' = withdrawal_limit p" "withdrawal_period_sec p' = ?w"
    by (simp_all add: p' n')
  have "t - ?s < q * ?w + ?w" unfolding q_def using dividend_less_div_times [OF per] by (simp add: add.commute)
  then show "in_period (period_start_time p') ?w (t, a)" using t(1) qw unfolding in_period_def p' fst_conv by (simp, linarith)
  have w: "time_plus ?s ?w = ?s + ?w"
    using t by (simp add: time_plus_def u32_def of_nat_add [symmetric] del: of_nat_add)
  show "claimed_this_period p' \<le> amount (withdrawal_limit p)"
  proof (cases "q = 0")
    case True
    then have "t < ?s + ?w" using \<open>t - ?s < q * ?w + ?w\<close> t(1) by simp
    then show ?thesis
      using True av al cl n' p' w by (auto simp: available_this_period_def split: if_splits dest!: safe_exactD [OF S])
  next
    case False
    then have "?w \<le> q * ?w" by (cases q) simp_all
    then have "?s + ?w \<le> t" using qw t(1) by linarith
    then have "time_plus ?s ?w \<le> t" by (simp add: w)
    then show ?thesis using False av al n' p' by (simp add: available_this_period_def)
  qed
qed

lemma history_times:
  assumes "safe_exact S" and "permit_history S pid c cs" and "chain_ok c" and "generic_find (withdraw_permissions c) pid \<noteq> None"
  shows "x \<in> set cs \<Longrightarrow> head_block_time c \<le> fst x"
  using assms(2-)
proof (induction rule: permit_history.induct)
  case (claim op st r c c' cs)
  from claim.prems(3) claim.hyps(2) obtain p where p: "generic_find (withdraw_permissions c) (wpl_withdraw_permission op) = Some p" by auto
  show ?case
    by (rule claim_runs [OF assms(1) claim.prems(2) claim.hyps(3,4) p]) (use claim in auto)
next
  case (other c c' cs)
  then show ?case by fastforce
qed simp

text \<open>One claim prepended to a history within the limit stays within it.\<close>

lemma period_step:
  assumes per: "0 < w" and s': "s' = s + q * w" and now: "in_period s' w (t, a)"
    and later: "\<And>x. x \<in> set cs \<Longrightarrow> t \<le> fst x"
    and old: "0 \<le> m" "m \<le> most" and m': "m' = (if q = 0 then m + a else a)"
    and IH: "\<And>j. claimed_in (s' + j * w) w cs + (if j = 0 then m' else 0) \<le> most"
  shows "claimed_in (s + k * w) w ((t, a) # cs) + (if k = 0 then m else 0) \<le> (most :: int)"
proof (cases k q rule: linorder_cases)
  case greater
  then have "\<not> in_period (s + k * w) w (t, a)"
    using now mult_le_mono1 [of "Suc q" k w] by (auto simp: in_period_def s')
  moreover have "s + k * w = s' + (k - q) * w"
    using greater mult_le_mono1 [of q k w] by (simp add: s' diff_mult_distrib)
  ultimately show ?thesis using IH [of "k - q"] greater by (simp add: claimed_in_def)
next
  case equal
  then show ?thesis using IH [of 0] now by (auto simp: claimed_in_def s' m' split: if_splits)
next
  case less
  have "\<not> in_period (s + k * w) w x" if "x \<in> set ((t, a) # cs)" for x
  proof -
    have "t \<le> fst x" using that by (auto intro: later)
    moreover have "s + k * w + w \<le> t" using less now mult_le_mono1 [of "Suc k" q w] by (simp add: in_period_def s')
    ultimately show ?thesis by (simp add: in_period_def)
  qed
  then have "claimed_in (s + k * w) w ((t, a) # cs) = 0"
    by (simp add: claimed_in_def filter_empty_conv [THEN iffD2])
  then show ?thesis using old by simp
qed

text \<open>
  C24. Whatever claims on a permission the evaluator accepts, in any number and at any times after its
  start, and whatever else happens to the ledger in between as long as the permission is not updated or
  deleted, the claims of one period never sum up to more than its limit (less what was already claimed
  of the current period). The period must be short enough that the head time plus one period stays
  within 32 bits at every claim.
\<close>

theorem permission_limit_per_period:
  assumes S: "safe_exact S" and hist: "permit_history S pid c cs" and "chain_ok c"
    and "generic_find (withdraw_permissions c) pid = Some p" and "period_start_time p \<le> head_block_time c"
    and "0 < withdrawal_period_sec p" and "0 \<le> claimed_this_period p" and "claimed_this_period p \<le> amount (withdrawal_limit p)"
    and "list_all (\<lambda>cl. fst cl + withdrawal_period_sec p < 2 ^ 32) cs"
  shows "claimed_in (period_start_time p + k * withdrawal_period_sec p) (withdrawal_period_sec p) cs
    + (if k = 0 then claimed_this_period p else 0) \<le> amount (withdrawal_limit p)"
  using hist assms(3-)
proof (induction arbitrary: p k rule: permit_history.induct)
  case (no_claim c)
  then show ?case by (simp add: claimed_in_def)
next
  case (claim op st r c c' cs)
  let ?t = "head_block_time c" and ?a = "amount (wpl_amount_to_withdraw op)"
  have p: "generic_find (withdraw_permissions c) (wpl_withdraw_permission op) = Some p" using claim.prems(2) claim.hyps(2) by simp
  show ?case
  proof (rule claim_runs [OF S claim.prems(1) claim.hyps(3,4) p])
    fix p' av
    assume a: "available_this_period S ?t p = Inr av" "?a \<le> amount av" "permit_claim S ?t ?a p = Inr p'"
      and f': "generic_find (withdraw_permissions c') (wpl_withdraw_permission op) = Some p'"
      and t': "head_block_time c' = ?t" and ok': "chain_ok c'"
    have tb: "?t + withdrawal_period_sec p < 2 ^ 32" using claim.prems(7) by simp
    note e = permit_claim_effect [OF S a claim.prems(4,3) tb claim.prems(6)]
    have pos: "0 \<le> ?a" using claim.hyps(1) by (auto simp: withdraw_permission_claim_validate_def)
    have IH: "claimed_in (period_start_time p' + j * withdrawal_period_sec p) (withdrawal_period_sec p) cs
        + (if j = 0 then claimed_this_period p' else 0) \<le> amount (withdrawal_limit p)" for j
      using claim.IH [OF ok', of p' j] f' e pos claim.prems claim.hyps(2) t' by (auto simp: in_period_def)
    have later: "?t \<le> fst x" if "x \<in> set cs" for x
      using history_times [OF S claim.hyps(5) ok' _ that] f' t' claim.hyps(2) by simp
    show ?thesis by (rule period_step [OF claim.prems(4) e(1) e(6) later claim.prems(5,6) e(2) IH])
  qed
next
  case (other c c' cs)
  then show ?case by simp
qed

text \<open>
  The sum of the start and the period is cut to 32 bits. A permission whose first period reaches beyond
  that has no limit per period: as long as its start has passed, the whole limit is available for every
  claim, however much was claimed before.
\<close>

theorem wrapped_period_unlimited:
  assumes "period_start_time p \<le> now" and "withdrawal_period_sec p < 2 ^ 32" and "now < 2 ^ 32"
    and "2 ^ 32 \<le> period_start_time p + withdrawal_period_sec p"
  shows "available_this_period S now p = Inr (withdrawal_limit p)"
proof -
  have "time_plus (period_start_time p) (withdrawal_period_sec p) = period_start_time p + withdrawal_period_sec p - 2 ^ 32"
  proof -
    have "(period_start_time p + withdrawal_period_sec p) mod 2 ^ 32 = period_start_time p + withdrawal_period_sec p - 2 ^ 32"
      using assms by (simp add: mod_if)
    moreover have "nat (int n mod 2 ^ 32) = n mod 2 ^ 32" for n by (simp add: nat_mod_distrib)
    ultimately show ?thesis by (simp add: time_plus_def u32_def of_nat_add [symmetric] del: of_nat_add)
  qed
  then have "time_plus (period_start_time p) (withdrawal_period_sec p) \<le> now" using assms by linarith
  then show ?thesis by (simp add: available_this_period_def)
qed

definition demo_permit :: withdraw_permission_object where
  "demo_permit = \<lparr>withdraw_from_account = 4, authorized_account = 5, withdrawal_limit = mk_asset 100 0,
     withdrawal_period_sec = 60, period_start_time = 450, wp_expiration = 500, claimed_this_period = 0\<rparr>"

definition demo_permit_chain :: chain where
  "demo_permit_chain = demo_chain\<lparr>withdraw_permissions := \<lparr>g_next_id = 1, g_rows = [(0, demo_permit)]\<rparr>\<rparr>"

definition demo_claim :: withdraw_permission_claim_operation where
  "demo_claim = \<lparr>wpl_fee = mk_asset 10 0, wpl_withdraw_permission = 0, wpl_withdraw_from_account = 4,
     wpl_withdraw_to_account = 5, wpl_amount_to_withdraw = mk_asset 80 0\<rparr>"

text \<open>A permission whose first period runs, two claims in that period and one in the next.\<close>

definition demo_started_chain :: chain where
  "demo_started_chain = demo_chain\<lparr>withdraw_permissions :=
     \<lparr>g_next_id = 1, g_rows = [(0, demo_permit\<lparr>period_start_time := 380\<rparr>)]\<rparr>\<rparr>"

definition demo_run_claim :: "int \<Rightarrow> chain \<Rightarrow> chain res" where
  "demo_run_claim n = (let op = demo_claim\<lparr>wpl_amount_to_withdraw := mk_asset n 0\<rparr>
     in start_evaluate checked64 demo_trx (Inr 10) (wpl_withdraw_to_account op) (wpl_fee op)
          (withdraw_permission_claim_do_evaluate checked64 op) (withdraw_permission_claim_do_apply checked64 op))"

definition demo_later :: "chain \<Rightarrow> chain" where
  "demo_later c = c\<lparr>dgpo := (dgpo c)\<lparr>dg_time := 445\<rparr>\<rparr>"

lemma demo_claim_history:
  assumes "demo_run_claim n c = Inr c'" and "0 < n" and "permit_history checked64 0 c' cs"
  shows "permit_history checked64 0 c ((head_block_time c, n) # cs)"
  using permit_history.claim [of "demo_claim\<lparr>wpl_amount_to_withdraw := mk_asset n 0\<rparr>" 0 demo_trx checked64 "Inr 10" c c' cs] assms demo_trx_fee
  by (simp add: demo_run_claim_def Let_def withdraw_permission_claim_validate_def demo_claim_def)

lemma demo_claim_keeps:
  assumes "demo_run_claim n c = Inr c'" and "chain_ok c" and "generic_find (withdraw_permissions c) 0 = Some p"
  shows "head_block_time c' = head_block_time c" and "chain_ok c'" and "\<exists>p'. generic_find (withdraw_permissions c') 0 = Some p'"
  using claim_runs [OF checked64_exact assms(2) demo_trx_fee assms(1) [unfolded demo_run_claim_def Let_def], of p] assms(3)
  by (auto simp: demo_claim_def)

lemma demo_started_ok: "chain_ok demo_started_chain"
  by (rule chain_ok_rows) code_simp

theorem permission_limit_per_period_witness:
  "\<exists>c1 c2 c3. demo_run_claim 60 demo_started_chain = Inr c1 \<and> demo_run_claim 40 c1 = Inr c2 \<and> demo_run_claim 90 (demo_later c2) = Inr c3 \<and>
     claimed_in 440 60 [(400, 60), (400, 40), (445, 90)] \<le> 100"
proof -
  let ?c = demo_started_chain
  have "succeeds (bindE (demo_run_claim 60 ?c) (\<lambda>c1. bindE (demo_run_claim 40 c1) (\<lambda>c2. demo_run_claim 90 (demo_later c2))))" by code_simp
  then obtain c1 c2 c3 where r1: "demo_run_claim 60 ?c = Inr c1" and r2: "demo_run_claim 40 c1 = Inr c2" and r3: "demo_run_claim 90 (demo_later c2) = Inr c3"
    by (auto simp: succeeds_def bindE_def split: sum.splits)
  have p: "generic_find (withdraw_permissions ?c) 0 = Some (demo_permit\<lparr>period_start_time := 380\<rparr>)"
    by (simp add: demo_started_chain_def generic_find_def)
  note k1 = demo_claim_keeps [OF r1 demo_started_ok p]
  from k1(3) obtain p1 where p1: "generic_find (withdraw_permissions c1) 0 = Some p1" by blast
  note k2 = demo_claim_keeps [OF r2 k1(2) p1]
  have t: "head_block_time ?c = 400" by (simp add: demo_started_chain_def demo_chain_def head_block_time_def)
  have "permit_history checked64 0 (demo_later c2) [(445, 90)]"
    using demo_claim_history [OF r3 _ permit_history.no_claim] by (simp add: demo_later_def head_block_time_def)
  then have "permit_history checked64 0 c2 [(445, 90)]"
    using permit_history.other [of c2 "demo_later c2"] k1(1) k2(1,2) t by (simp add: demo_later_def frame head_block_time_def)
  from demo_claim_history [OF r1 _ demo_claim_history [OF r2 _ this]]
  have h: "permit_history checked64 0 ?c [(400, 60), (400, 40), (445, 90)]" using k1(1) t by simp
  have "claimed_in 440 60 [(400, 60), (400, 40), (445, 90)] \<le> 100"
    using permission_limit_per_period [OF checked64_exact h demo_started_ok p, of 1] t by (simp add: demo_permit_def)
  then show ?thesis using r1 r2 r3 by blast
qed

text \<open>
  The evaluator does not test that the first period has begun: a claim before the start time of
  a permission is accepted and paid.
\<close>

theorem claim_before_start_accepted:
  "head_block_time demo_permit_chain < period_start_time demo_permit \<and>
   (case start_evaluate checked64 demo_trx (Inr 10) 5 (mk_asset 10 0) (withdraw_permission_claim_do_evaluate checked64 demo_claim)
      (withdraw_permission_claim_do_apply checked64 demo_claim) demo_permit_chain of
      Inl _ \<Rightarrow> False
    | Inr c' \<Rightarrow> balance_of c' 4 0 = balance_of demo_permit_chain 4 0 - 80 \<and>
        balance_of c' 5 0 = balance_of demo_permit_chain 5 0 + 70)"
  by code_simp

end
