(* ===== verification/Authority.thy ===== *)
theory Authority
  imports Chain_State
begin

text \<open>
  Authorities and signatures: \<open>protocol/authority.hpp\<close> and the signature checks of
  \<open>protocol/transaction.cpp\<close>. An authority lists keys and accounts with weights and a threshold;
  the check descends through the active authorities of the accounts it names, down to a bounded
  depth, and records which accounts it has found to approve and which signatures it has used.

  An account is looked up through a function that may fail, as the lambdas \<open>get\_active\<close> and
  \<open>get\_owner\<close> of the callers do for an account that does not exist; \<open>None\<close> is the null pointer.
\<close>

section \<open>Authorities\<close>

definition GRAPHENE_MINER_ACCOUNT :: account_id_type where "GRAPHENE_MINER_ACCOUNT = 0"
definition GRAPHENE_NULL_ACCOUNT :: account_id_type where "GRAPHENE_NULL_ACCOUNT = 1"
definition GRAPHENE_TEMP_ACCOUNT :: account_id_type where "GRAPHENE_TEMP_ACCOUNT = 2"

text \<open>The flat maps of an authority are lists sorted by key, weights are 16 bit numbers.\<close>

definition add_key_authority :: "opaque \<Rightarrow> nat \<Rightarrow> authority \<Rightarrow> authority" where
  "add_key_authority k w a = a\<lparr>key_auths := put_row k w (key_auths a)\<rparr>"

definition add_account_authority :: "account_id_type \<Rightarrow> nat \<Rightarrow> authority \<Rightarrow> authority" where
  "add_account_authority k w a = a\<lparr>account_auths := put_row k w (account_auths a)\<rparr>"

text \<open>The sum of the weights is computed in 64 bits.\<close>

definition is_impossible :: "authority \<Rightarrow> bool" where
  "is_impossible a \<longleftrightarrow>
     (sum_list (map snd (account_auths a)) + sum_list (map snd (key_auths a))) mod 2 ^ 64 < weight_threshold a"

definition num_auths :: "authority \<Rightarrow> nat" where
  "num_auths a = length (account_auths a) + length (key_auths a)"

definition get_keys :: "authority \<Rightarrow> opaque list" where
  "get_keys a = map fst (key_auths a)"

definition null_authority :: authority where
  "null_authority = add_account_authority GRAPHENE_NULL_ACCOUNT 1 \<lparr>weight_threshold = 1, account_auths = [], key_auths = []\<rparr>"

section \<open>The check of an authority\<close>

type_synonym auth_source = "account_id_type \<Rightarrow> authority option res"

record sign_state =
  available_keys :: "opaque list"
  provided_signatures :: "bool rows"
  approved_by :: "account_id_type list"

definition sign_state_of :: "opaque list \<Rightarrow> sign_state" where
  "sign_state_of sigs = \<lparr>available_keys = [], provided_signatures = fold (\<lambda>k. put_row k False) sigs [],
     approved_by = [GRAPHENE_TEMP_ACCOUNT]\<rparr>"

definition approve :: "account_id_type \<Rightarrow> sign_state \<Rightarrow> sign_state" where
  "approve a s = s\<lparr>approved_by := List.insert a (approved_by s)\<rparr>"

definition signed_by :: "opaque \<Rightarrow> sign_state \<Rightarrow> bool \<times> sign_state" where
  "signed_by k s =
     (case map_of (provided_signatures s) k of
        None \<Rightarrow> if k \<in> set (available_keys s)
                then (True, s\<lparr>provided_signatures := put_row k True (provided_signatures s)\<rparr>)
                else (False, s)
      | Some _ \<Rightarrow> (True, s\<lparr>provided_signatures := put_row k True (provided_signatures s)\<rparr>))"

text \<open>
  The loop over the keys of an authority: whether it returned, the weight reached, the state.
  \<open>total\_weight\<close> is a \<open>uint32\_t\<close>.
\<close>

fun check_keys :: "nat \<Rightarrow> (opaque \<times> nat) list \<Rightarrow> 32 word \<Rightarrow> sign_state \<Rightarrow> bool \<times> 32 word \<times> sign_state" where
  "check_keys t [] tw s = (False, tw, s)"
| "check_keys t ((k, w) # ks) tw s =
     (case signed_by k s of (b, s1) \<Rightarrow>
        if b then
          (if t \<le> unat (tw + of_nat w) then (True, tw + of_nat w, s1)
           else check_keys t ks (tw + of_nat w) s1)
        else check_keys t ks tw s1)"

lemma bindE_cong [fundef_cong]: "m = m' \<Longrightarrow> (\<And>x. m' = Inr x \<Longrightarrow> f x = f' x) \<Longrightarrow> bindE m f = bindE m' f'"
  by (cases m') auto

lemma levels_drop: "depth \<noteq> m \<Longrightarrow> unat (m - (depth + 1)) < unat (m - depth)" for m :: "32 word"
proof -
  assume "depth \<noteq> m"
  then have "m - depth \<noteq> 0" by simp
  then show ?thesis using unat_gt_0 [of "m - depth"] by (simp add: diff_diff_add [symmetric] unat_minus_one)
qed

text \<open>
  \<open>check\_authority\<close> and its loop over the accounts. The depth is a \<open>uint32\_t\<close> that is compared
  with the maximal depth for equality: the recursion ends for every maximal depth.
\<close>

function check_authority ::
    "auth_source \<Rightarrow> 32 word \<Rightarrow> authority option \<Rightarrow> 32 word \<Rightarrow> sign_state \<Rightarrow> (bool \<times> sign_state) res"
  and check_accounts ::
    "auth_source \<Rightarrow> 32 word \<Rightarrow> nat \<Rightarrow> (account_id_type \<times> nat) list \<Rightarrow> 32 word \<Rightarrow> 32 word \<Rightarrow> sign_state
      \<Rightarrow> (bool \<times> sign_state) res" where
  "check_authority ga m au depth s =
     (case au of None \<Rightarrow> Inr (False, s)
      | Some auth \<Rightarrow>
          (case check_keys (weight_threshold auth) (key_auths auth) 0 s of (b, tw, s1) \<Rightarrow>
             if b then Inr (True, s1)
             else check_accounts ga m (weight_threshold auth) (account_auths auth) tw depth s1))"
| "check_accounts ga m t [] tw depth s = Inr (t \<le> unat tw, s)"
| "check_accounts ga m t ((a, w) # as) tw depth s =
     (if a \<notin> set (approved_by s) then
        (if depth = m then Inr (False, s)
         else
           bindE (ga a) (\<lambda>au.
           bindE (check_authority ga m au (depth + 1) s) (\<lambda>(b, s1).
           if b then
             (if t \<le> unat (tw + of_nat w) then Inr (True, approve a s1)
              else check_accounts ga m t as (tw + of_nat w) depth (approve a s1))
           else check_accounts ga m t as tw depth s1)))
      else
        (if t \<le> unat (tw + of_nat w) then Inr (True, s)
         else check_accounts ga m t as (tw + of_nat w) depth s))"
  by pat_completeness auto

termination
  by (relation "inv_image (less_than <*lex*> less_than)
      (\<lambda>p. case p of Inl (ga, m, au, d, s) \<Rightarrow> (unat (m - d), case au of None \<Rightarrow> 0 | Some a \<Rightarrow> Suc (length (account_auths a)))
          | Inr (ga, m, t, as, tw, d, s) \<Rightarrow> (unat (m - d), length as))")
    (auto simp: levels_drop)

declare check_authority.simps [simp del]

definition check_account :: "auth_source \<Rightarrow> 32 word \<Rightarrow> account_id_type \<Rightarrow> sign_state \<Rightarrow> (bool \<times> sign_state) res" where
  "check_account ga m a s =
     (if a \<in> set (approved_by s) then Inr (True, s)
      else bindE (ga a) (\<lambda>au. check_authority ga m au 0 s))"

definition unused_signatures :: "sign_state \<Rightarrow> opaque list" where
  "unused_signatures s = map fst (filter (\<lambda>p. \<not> snd p) (provided_signatures s))"

definition remove_unused_signatures :: "sign_state \<Rightarrow> bool \<times> sign_state" where
  "remove_unused_signatures s =
     (unused_signatures s \<noteq> [],
      s\<lparr>provided_signatures := fold del_row (unused_signatures s) (provided_signatures s)\<rparr>)"

text \<open>\<open>sign\_state1\<close>: the same check written again for transactions with a single signature.\<close>

record sign_state1 =
  provided_signature_key :: opaque
  approved_by1 :: "account_id_type list"

definition sign_state1_of :: "opaque \<Rightarrow> sign_state1" where
  "sign_state1_of k = \<lparr>provided_signature_key = k, approved_by1 = [GRAPHENE_TEMP_ACCOUNT]\<rparr>"

definition approve1 :: "account_id_type \<Rightarrow> sign_state1 \<Rightarrow> sign_state1" where
  "approve1 a s = s\<lparr>approved_by1 := List.insert a (approved_by1 s)\<rparr>"

definition signed_by1 :: "opaque \<Rightarrow> sign_state1 \<Rightarrow> bool" where
  "signed_by1 k s \<longleftrightarrow> k = provided_signature_key s"

fun check_keys1 :: "nat \<Rightarrow> (opaque \<times> nat) list \<Rightarrow> 32 word \<Rightarrow> sign_state1 \<Rightarrow> bool \<times> 32 word" where
  "check_keys1 t [] tw s = (False, tw)"
| "check_keys1 t ((k, w) # ks) tw s =
     (if signed_by1 k s then
        (if t \<le> unat (tw + of_nat w) then (True, tw + of_nat w)
         else check_keys1 t ks (tw + of_nat w) s)
      else check_keys1 t ks tw s)"

function check_authority1 ::
    "auth_source \<Rightarrow> 32 word \<Rightarrow> authority option \<Rightarrow> 32 word \<Rightarrow> sign_state1 \<Rightarrow> (bool \<times> sign_state1) res"
  and check_accounts1 ::
    "auth_source \<Rightarrow> 32 word \<Rightarrow> nat \<Rightarrow> (account_id_type \<times> nat) list \<Rightarrow> 32 word \<Rightarrow> 32 word \<Rightarrow> sign_state1
      \<Rightarrow> (bool \<times> sign_state1) res" where
  "check_authority1 ga m au depth s =
     (case au of None \<Rightarrow> Inr (False, s)
      | Some auth \<Rightarrow>
          (case check_keys1 (weight_threshold auth) (key_auths auth) 0 s of (b, tw) \<Rightarrow>
             if b then Inr (True, s)
             else check_accounts1 ga m (weight_threshold auth) (account_auths auth) tw depth s))"
| "check_accounts1 ga m t [] tw depth s = Inr (t \<le> unat tw, s)"
| "check_accounts1 ga m t ((a, w) # as) tw depth s =
     (if a \<notin> set (approved_by1 s) then
        (if depth = m then Inr (False, s)
         else
           bindE (ga a) (\<lambda>au.
           bindE (check_authority1 ga m au (depth + 1) s) (\<lambda>(b, s1).
           if b then
             (if t \<le> unat (tw + of_nat w) then Inr (True, approve1 a s1)
              else check_accounts1 ga m t as (tw + of_nat w) depth (approve1 a s1))
           else check_accounts1 ga m t as tw depth s1)))
      else
        (if t \<le> unat (tw + of_nat w) then Inr (True, s)
         else check_accounts1 ga m t as (tw + of_nat w) depth s))"
  by pat_completeness auto

termination
  by (relation "inv_image (less_than <*lex*> less_than)
      (\<lambda>p. case p of Inl (ga, m, au, d, s) \<Rightarrow> (unat (m - d), case au of None \<Rightarrow> 0 | Some a \<Rightarrow> Suc (length (account_auths a)))
          | Inr (ga, m, t, as, tw, d, s) \<Rightarrow> (unat (m - d), length as))")
    (auto simp: levels_drop)

declare check_authority1.simps [simp del]

definition check_account1 :: "auth_source \<Rightarrow> 32 word \<Rightarrow> account_id_type \<Rightarrow> sign_state1 \<Rightarrow> (bool \<times> sign_state1) res" where
  "check_account1 ga m a s =
     (if a \<in> set (approved_by1 s) then Inr (True, s)
      else bindE (ga a) (\<lambda>au. check_authority1 ga m au 0 s))"

section \<open>The checks of a transaction\<close>

text \<open>
  What the operations of a transaction require: two flat sets of accounts, in the order of their
  ids, and authorities of other kinds. \<open>operation\_get\_required\_authorities\<close> adds the requirements of
  one operation; it is the argument \<open>req\<close> here and is defined where the operations are.
\<close>

record required_auths =
  required_active :: "account_id_type list"
  required_owner :: "account_id_type list"
  required_other :: "authority list"

definition no_auths :: required_auths where
  "no_auths = \<lparr>required_active = [], required_owner = [], required_other = []\<rparr>"

definition get_required_authorities :: "('op \<Rightarrow> required_auths \<Rightarrow> required_auths) \<Rightarrow> 'op list \<Rightarrow> required_auths" where
  "get_required_authorities req ops = fold req ops no_auths"

definition check_other :: "auth_source \<Rightarrow> 32 word \<Rightarrow> authority \<Rightarrow> sign_state \<Rightarrow> sign_state res" where
  "check_other ga m au s =
     bindE (check_authority ga m (Some au) 0 s) (\<lambda>(b, s1).
     bindE (require b Tx_Missing_Other_Auth) (\<lambda>_. Inr s1))"

definition check_active :: "auth_source \<Rightarrow> auth_source \<Rightarrow> 32 word \<Rightarrow> account_id_type \<Rightarrow> sign_state \<Rightarrow> sign_state res" where
  "check_active ga go m a s =
     bindE (check_account ga m a s) (\<lambda>(b, s1).
     if b then Inr s1
     else
       bindE (go a) (\<lambda>au.
       bindE (check_authority ga m au 0 s1) (\<lambda>(b2, s2).
       bindE (require b2 Tx_Missing_Active_Auth) (\<lambda>_. Inr s2))))"

definition check_owner ::
  "auth_source \<Rightarrow> auth_source \<Rightarrow> 32 word \<Rightarrow> account_id_type list \<Rightarrow> account_id_type \<Rightarrow> sign_state \<Rightarrow> sign_state res" where
  "check_owner ga go m owner_approvals a s =
     (if a \<in> set owner_approvals then Inr s
      else
        bindE (go a) (\<lambda>au.
        bindE (check_authority ga m au 0 s) (\<lambda>(b, s1).
        bindE (require b Tx_Missing_Owner_Auth) (\<lambda>_. Inr s1))))"

definition check_required ::
  "auth_source \<Rightarrow> auth_source \<Rightarrow> 32 word \<Rightarrow> account_id_type list \<Rightarrow> required_auths \<Rightarrow> sign_state \<Rightarrow> sign_state res" where
  "check_required ga go m owner_approvals r s =
     bindE (foldE (check_other ga m) (required_other r) s) (\<lambda>s1.
     bindE (foldE (check_active ga go m) (required_active r) s1) (\<lambda>s2.
     foldE (check_owner ga go m owner_approvals) (required_owner r) s2))"

definition verify_authority ::
  "('op \<Rightarrow> required_auths \<Rightarrow> required_auths) \<Rightarrow> 'op list \<Rightarrow> opaque list \<Rightarrow> auth_source \<Rightarrow> auth_source \<Rightarrow> 32 word
    \<Rightarrow> bool \<Rightarrow> account_id_type list \<Rightarrow> account_id_type list \<Rightarrow> unit res" where
  "verify_authority req ops sigs ga go m allow_committee active_approvals owner_approvals =
     (let r = get_required_authorities req ops
      in bindE (if \<not> allow_committee
                then require (GRAPHENE_MINER_ACCOUNT \<notin> set (required_active r)) Invalid_Committee_Approval
                else Inr ()) (\<lambda>_.
         bindE (check_required ga go m owner_approvals r
                  (fold approve (active_approvals @ owner_approvals) (sign_state_of sigs))) (\<lambda>s.
         require (\<not> fst (remove_unused_signatures s)) Tx_Irrelevant_Sig)))"

definition check_other1 :: "auth_source \<Rightarrow> 32 word \<Rightarrow> authority \<Rightarrow> sign_state1 \<Rightarrow> sign_state1 res" where
  "check_other1 ga m au s =
     bindE (check_authority1 ga m (Some au) 0 s) (\<lambda>(b, s1).
     bindE (require b Tx_Missing_Other_Auth) (\<lambda>_. Inr s1))"

definition check_active1 :: "auth_source \<Rightarrow> auth_source \<Rightarrow> 32 word \<Rightarrow> account_id_type \<Rightarrow> sign_state1 \<Rightarrow> sign_state1 res" where
  "check_active1 ga go m a s =
     bindE (check_account1 ga m a s) (\<lambda>(b, s1).
     if b then Inr s1
     else
       bindE (go a) (\<lambda>au.
       bindE (check_authority1 ga m au 0 s1) (\<lambda>(b2, s2).
       bindE (require b2 Tx_Missing_Active_Auth) (\<lambda>_. Inr s2))))"

definition check_owner1 :: "auth_source \<Rightarrow> auth_source \<Rightarrow> 32 word \<Rightarrow> account_id_type \<Rightarrow> sign_state1 \<Rightarrow> sign_state1 res" where
  "check_owner1 ga go m a s =
     bindE (go a) (\<lambda>au.
     bindE (check_authority1 ga m au 0 s) (\<lambda>(b, s1).
     bindE (require b Tx_Missing_Owner_Auth) (\<lambda>_. Inr s1)))"

definition verify_authority1 ::
  "('op \<Rightarrow> required_auths \<Rightarrow> required_auths) \<Rightarrow> 'op list \<Rightarrow> opaque \<Rightarrow> auth_source \<Rightarrow> auth_source \<Rightarrow> 32 word \<Rightarrow> unit res" where
  "verify_authority1 req ops sig ga go m =
     (let r = get_required_authorities req ops
      in bindE (foldE (check_other1 ga m) (required_other r) (sign_state1_of sig)) (\<lambda>s1.
         bindE (foldE (check_active1 ga go m) (required_active r) s1) (\<lambda>s2.
         bindE (foldE (check_owner1 ga go m) (required_owner r) s2) (\<lambda>_.
         Inr ()))))"

text \<open>\<open>signed\_transaction::verify\_authority\<close>: the optimised check for exactly one signature.\<close>

definition trx_verify_authority ::
  "('op \<Rightarrow> required_auths \<Rightarrow> required_auths) \<Rightarrow> 'op list \<Rightarrow> opaque list \<Rightarrow> auth_source \<Rightarrow> auth_source \<Rightarrow> 32 word \<Rightarrow> unit res" where
  "trx_verify_authority req ops sig_keys ga go m =
     (case sig_keys of [k] \<Rightarrow> verify_authority1 req ops k ga go m
      | _ \<Rightarrow> verify_authority req ops sig_keys ga go m False [] [])"

text \<open>
  The keys that signed a transaction, as a flat set; \<open>recover\<close> is the recovery of the public key from
  a signature and a digest in \<open>fc::ecc\<close>.
\<close>

definition insert_key :: "opaque \<Rightarrow> opaque list \<Rightarrow> opaque list res" where
  "insert_key k ks = bindE (require (k \<notin> set ks) Tx_Duplicate_Sig) (\<lambda>_. Inr (insort k ks))"

definition get_signature_keys :: "(opaque \<Rightarrow> opaque res) \<Rightarrow> opaque list \<Rightarrow> opaque list res" where
  "get_signature_keys recover sigs = foldE (\<lambda>sig ks. bindE (recover sig) (\<lambda>k. insert_key k ks)) sigs []"

text \<open>Which of the available keys have to sign; what the checks answer is not looked at.\<close>

definition get_required_signatures ::
  "('op \<Rightarrow> required_auths \<Rightarrow> required_auths) \<Rightarrow> 'op list \<Rightarrow> opaque list \<Rightarrow> opaque list \<Rightarrow> auth_source \<Rightarrow> auth_source
    \<Rightarrow> 32 word \<Rightarrow> opaque list res" where
  "get_required_signatures req ops sig_keys avail ga go m =
     (let r = get_required_authorities req ops
      in bindE (foldE (\<lambda>au s. bindE (check_authority ga m (Some au) 0 s) (\<lambda>p. Inr (snd p)))
                  (required_other r) ((sign_state_of sig_keys)\<lparr>available_keys := avail\<rparr>)) (\<lambda>s1.
         bindE (foldE (\<lambda>a s. bindE (go a) (\<lambda>au. bindE (check_authority ga m au 0 s) (\<lambda>p. Inr (snd p))))
                  (required_owner r) s1) (\<lambda>s2.
         bindE (foldE (\<lambda>a s. bindE (check_account ga m a s) (\<lambda>p. Inr (snd p))) (required_active r) s2) (\<lambda>s3.
         Inr (filter (\<lambda>k. k \<in> set avail) (map fst (provided_signatures (snd (remove_unused_signatures s3)))))))))"

text \<open>
  A key is dropped again if the rest still verifies; the three exceptions for a missing authority put
  it back, every other exception is passed on.
\<close>

definition drop_key ::
  "('op \<Rightarrow> required_auths \<Rightarrow> required_auths) \<Rightarrow> 'op list \<Rightarrow> auth_source \<Rightarrow> auth_source \<Rightarrow> 32 word
    \<Rightarrow> opaque \<Rightarrow> opaque list \<Rightarrow> opaque list res" where
  "drop_key req ops ga go m k result =
     (case verify_authority req ops (remove1 k result) ga go m False [] [] of
        Inr _ \<Rightarrow> Inr (remove1 k result)
      | Inl e \<Rightarrow> if e \<in> {Tx_Missing_Owner_Auth, Tx_Missing_Active_Auth, Tx_Missing_Other_Auth} then Inr result else Inl e)"

definition minimize_required_signatures ::
  "('op \<Rightarrow> required_auths \<Rightarrow> required_auths) \<Rightarrow> 'op list \<Rightarrow> opaque list \<Rightarrow> opaque list \<Rightarrow> auth_source \<Rightarrow> auth_source
    \<Rightarrow> 32 word \<Rightarrow> opaque list res" where
  "minimize_required_signatures req ops sig_keys avail ga go m =
     bindE (get_required_signatures req ops sig_keys avail ga go m) (\<lambda>ks.
     foldE (drop_key req ops ga go m) ks ks)"

end
