(* ===== verification/Account.thy ===== *)
theory Account
  imports Authority Account_Name Evaluator Subscription
begin

text \<open>
  The operations that create and update accounts: \<open>protocol/account.cpp\<close> and
  \<open>account\_evaluator.cpp\<close>. A vote id is represented by its instance: the type \<open>miner\<close> is the only one.
\<close>

section \<open>Validation\<close>

definition DECENT_MAX_SUBSCRIPTION_PERIOD :: nat where "DECENT_MAX_SUBSCRIPTION_PERIOD = 365"

definition account_options_validate :: "account_options \<Rightarrow> unit res" where
  "account_options_validate o' =
     (let needed_miners = fold (\<lambda>v n. if n \<noteq> 0 then n - 1 else n) (votes o') (num_miner o')
      in bindE (require (needed_miners = 0) Assert_Exception) (\<lambda>_.
         if allow_subscription o' then
           bindE (require (0 < subscription_period o' \<and> subscription_period o' \<le> DECENT_MAX_SUBSCRIPTION_PERIOD) Assert_Exception) (\<lambda>_.
           require (0 < amount (price_per_subscribe o')) Assert_Exception)
         else Inr ()))"

record account_create_operation =
  acr_fee :: asset
  acr_registrar :: account_id_type
  acr_name :: string
  acr_owner :: authority
  acr_active :: authority
  acr_options :: account_options

record account_update_operation =
  au_fee :: asset
  au_account :: account_id_type
  au_owner :: "authority option"
  au_active :: "authority option"
  au_new_options :: "account_options option"

definition account_create_validate :: "account_create_operation \<Rightarrow> unit res" where
  "account_create_validate op =
     bindE (require (0 \<le> amount (acr_fee op)) Assert_Exception) (\<lambda>_.
     bindE (require (is_valid_name (acr_name op)) Assert_Exception) (\<lambda>_.
     bindE (require (num_auths (acr_owner op) \<noteq> 0) Assert_Exception) (\<lambda>_.
     bindE (require (num_auths (acr_active op) \<noteq> 0) Assert_Exception) (\<lambda>_.
     bindE (require (\<not> is_impossible (acr_owner op)) Assert_Exception) (\<lambda>_.
     bindE (require (\<not> is_impossible (acr_active op)) Assert_Exception) (\<lambda>_.
     account_options_validate (acr_options op)))))))"

definition new_authority_validate :: "authority option \<Rightarrow> unit res" where
  "new_authority_validate au =
     (case au of None \<Rightarrow> Inr ()
      | Some a \<Rightarrow>
          bindE (require (num_auths a \<noteq> 0) Assert_Exception) (\<lambda>_.
          require (\<not> is_impossible a) Assert_Exception))"

definition account_update_validate :: "account_update_operation \<Rightarrow> unit res" where
  "account_update_validate op =
     bindE (require (au_account op \<noteq> GRAPHENE_TEMP_ACCOUNT) Assert_Exception) (\<lambda>_.
     bindE (require (0 \<le> amount (au_fee op)) Assert_Exception) (\<lambda>_.
     bindE (require (au_account op \<noteq> 0) Assert_Exception) (\<lambda>_.
     bindE (require (au_owner op \<noteq> None \<or> au_active op \<noteq> None \<or> au_new_options op \<noteq> None) Assert_Exception) (\<lambda>_.
     bindE (new_authority_validate (au_owner op)) (\<lambda>_.
     bindE (new_authority_validate (au_active op)) (\<lambda>_.
     case au_new_options op of None \<Rightarrow> Inr () | Some o' \<Rightarrow> account_options_validate o'))))))"

section \<open>Evaluation\<close>

definition verify_authority_accounts :: "chain \<Rightarrow> authority \<Rightarrow> unit res" where
  "verify_authority_accounts c a =
     bindE (require (num_auths a \<le> maximum_authority_membership (parameters (gpo c))) Max_Auth_Exceeded) (\<lambda>_.
     foldE (\<lambda>acnt u. require (generic_find (accounts c) (fst acnt) \<noteq> None) Auth_Account_Not_Found) (account_auths a) ())"

definition verify_account_votes :: "chain \<Rightarrow> account_options \<Rightarrow> unit res" where
  "verify_account_votes c o' =
     bindE (require (num_miner o' \<le> maximum_miner_count (parameters (gpo c))) Assert_Exception) (\<lambda>_.
     foldE (\<lambda>v u. require (v < next_available_vote_id (gpo c)) Assert_Exception) (votes o') ())"

definition has_name :: "string \<Rightarrow> account_object \<Rightarrow> bool" where
  "has_name n a \<longleftrightarrow> acc_name a = n"

definition account_create_do_evaluate :: "account_create_operation \<Rightarrow> fee_state \<Rightarrow> chain \<Rightarrow> (fee_state \<times> unit) res" where
  "account_create_do_evaluate op f c =
     bindE (require (generic_find (accounts c) (voting_account (acr_options op)) \<noteq> None) Assert_Exception) (\<lambda>_.
     bindE (verify_authority_accounts c (acr_owner op)) (\<lambda>_.
     bindE (verify_authority_accounts c (acr_active op)) (\<lambda>_.
     bindE (if acr_name op \<noteq> [] then require (t_find_by (has_name (acr_name op)) (accounts c) = None) Assert_Exception
            else Inr ()) (\<lambda>_.
     Inr (f, ())))))"

definition no_publishing_rights :: publishing_rights where
  "no_publishing_rights = \<lparr>is_publishing_manager = False, publishing_rights_received = [], publishing_rights_forwarded = []\<rparr>"

definition account_create_do_apply :: "account_create_operation \<Rightarrow> fee_state \<Rightarrow> unit \<Rightarrow> chain \<Rightarrow> chain res" where
  "account_create_do_apply op f u c =
     (let new_id = g_next_id (accounts c)
      in bindE (t_create no_unique \<lparr>stat_owner = new_id, total_core_in_orders = 0, voting_stake = 0, stat_votes = []\<rparr>
                  (account_stats c)) (\<lambda>stats.
         bindE (t_create account_key \<lparr>registrar = acr_registrar op, acc_name = acr_name op, acc_owner = acr_owner op,
                   acc_active = acr_active op, acc_options = acr_options op, rights_to_publish = no_publishing_rights,
                   statistics = g_next_id (account_stats c), top_n_control_flags = 0\<rparr> (accounts c)) (\<lambda>accs.
         add_detail \<lparr>m_from_account = acr_registrar op, m_to_account = new_id, m_operation_type = Account_Create,
             m_transaction_amount = mk_asset 0 0, m_transaction_fee = acr_fee op, m_str_description = [], m_memo = None,
             m_timestamp = head_block_time c, m_nft_data_id = None\<rparr>
           (c\<lparr>accounts := accs, account_stats := stats,
              dgpo := (dgpo c)\<lparr>accounts_registered_this_interval :=
                u32 (int (accounts_registered_this_interval (dgpo c)) + 1)\<rparr>\<rparr>))))"

definition account_update_do_evaluate ::
  "account_update_operation \<Rightarrow> fee_state \<Rightarrow> chain \<Rightarrow> (fee_state \<times> account_object) res" where
  "account_update_do_evaluate op f c =
     bindE (case au_owner op of None \<Rightarrow> Inr () | Some a \<Rightarrow> verify_authority_accounts c a) (\<lambda>_.
     bindE (case au_active op of None \<Rightarrow> Inr () | Some a \<Rightarrow> verify_authority_accounts c a) (\<lambda>_.
     bindE (get_account c (au_account op)) (\<lambda>acnt.
     bindE (case au_new_options op of None \<Rightarrow> Inr ()
            | Some o' \<Rightarrow>
                bindE (require (generic_find (accounts c) (voting_account o') \<noteq> None) Assert_Exception) (\<lambda>_.
                bindE (verify_account_votes c o') (\<lambda>_.
                bindE (get_asset c (asset_id (price_per_subscribe o'))) (\<lambda>ao.
                require (asset_id (price_per_subscribe o') = 0 \<or> is_monitored_asset ao) Assert_Exception)))) (\<lambda>_.
     Inr (f, acnt)))))"

text \<open>
  Whether new options end the automatic renewals of subscriptions to the account, and their end: the
  range \<open>by\_to\_renewal\<close> holds the subscriptions to the account that are renewed automatically.
\<close>

definition terms_changed :: "account_options \<Rightarrow> account_options \<Rightarrow> bool" where
  "terms_changed old new \<longleftrightarrow> \<not> allow_subscription new \<or> price_per_subscribe old \<noteq> price_per_subscribe new \<or>
     subscription_period old \<noteq> subscription_period new"

definition renewed_to :: "account_id_type \<Rightarrow> subscription_object table \<Rightarrow> nat list" where
  "renewed_to a t = map fst (filter (\<lambda>p. sub_to (snd p) = a \<and> automatic_renewal (snd p)) (g_rows t))"

definition stop_renewals :: "account_id_type \<Rightarrow> subscription_object table \<Rightarrow> subscription_object table res" where
  "stop_renewals a t =
     foldE (\<lambda>k. t_modify subscription_key k (\<lambda>so. Inr (so\<lparr>automatic_renewal := False\<rparr>))) (renewed_to a t) t"

definition updated_account :: "account_update_operation \<Rightarrow> account_object \<Rightarrow> account_object" where
  "updated_account op a =
     (let a1 = (case au_owner op of None \<Rightarrow> a | Some w \<Rightarrow> a\<lparr>acc_owner := w, top_n_control_flags := 0\<rparr>);
          a2 = (case au_active op of None \<Rightarrow> a1 | Some w \<Rightarrow> a1\<lparr>acc_active := w, top_n_control_flags := 0\<rparr>)
      in case au_new_options op of None \<Rightarrow> a2 | Some o' \<Rightarrow> a2\<lparr>acc_options := o'\<rparr>)"

definition account_update_do_apply :: "account_update_operation \<Rightarrow> fee_state \<Rightarrow> account_object \<Rightarrow> chain \<Rightarrow> chain res" where
  "account_update_do_apply op f acnt c =
     bindE (get_account c (au_account op)) (\<lambda>a.
     bindE (case au_new_options op of None \<Rightarrow> Inr (subscriptions c)
            | Some o' \<Rightarrow> if terms_changed (acc_options a) o' then stop_renewals (au_account op) (subscriptions c)
                        else Inr (subscriptions c)) (\<lambda>subs.
     bindE (t_modify account_key (au_account op) (\<lambda>a. Inr (updated_account op a)) (accounts c)) (\<lambda>accs.
     Inr (c\<lparr>accounts := accs, subscriptions := subs\<rparr>))))"

section \<open>Contracts\<close>

lemma account_create_contract:
  assumes S: "safe_exact S"
  shows "evaluator_contract S (account_create_do_evaluate op) (account_create_do_apply op) no_pre nothing nothing"
proof (rule keeps_contract [OF S])
  fix c f f' and x :: unit
  assume "account_create_do_evaluate op f c = Inr (f', x)"
  then show "f' = f" by (auto simp: account_create_do_evaluate_def)
next
  fix c and x :: unit and f c' a
  assume ok: "chain_ok c" and ap: "account_create_do_apply op f x c = Inr c'"
  from ap obtain xs ys stats accs d dt where 1: "t_create no_unique xs (account_stats c) = Inr stats"
    and 2: "t_create account_key ys (accounts c) = Inr accs"
    and 3: "add_detail dt (c\<lparr>accounts := accs, account_stats := stats, dgpo := d\<rparr>) = Inr c'"
    by (auto simp: account_create_do_apply_def Let_def)
  have "t_ok stats" "t_ok accs" using t_create_law(1) [OF _ 1] t_create_law(1) [OF _ 2] ok by (simp_all add: frame)
  then have "chain_ok (c\<lparr>accounts := accs, account_stats := stats, dgpo := d\<rparr>)" using ok by (simp add: frame)
  from add_detail_law [OF this 3] show "chain_ok c' \<and> holdings c' a = holdings c a \<and> supply_of c' a = supply_of c a"
    by (simp add: frame)
qed

lemma stop_renewals_law:
  assumes ok: "t_ok t" and run: "stop_renewals a t = Inr t'"
  shows "t_ok t'" and "generic_find t' = (\<lambda>k. map_option (\<lambda>so. if sub_to so = a then so\<lparr>automatic_renewal := False\<rparr> else so) (generic_find t k))"
proof -
  define stopped where "stopped so = so\<lparr>automatic_renewal := False\<rparr>" for so :: subscription_object
  have loop: "t_ok t' \<and> generic_find t' = (\<lambda>k. if k \<in> set ks then map_option stopped (generic_find t k) else generic_find t k)"
    if "foldE (\<lambda>k. t_modify subscription_key k (\<lambda>so. Inr (stopped so))) ks t = Inr t'" "t_ok t" for ks t t'
    using that
  proof (induction ks arbitrary: t)
    case Nil
    then show ?case by simp
  next
    case (Cons k ks)
    then obtain t1 where 1: "t_modify subscription_key k (\<lambda>so. Inr (stopped so)) t = Inr t1"
      and 2: "foldE (\<lambda>k. t_modify subscription_key k (\<lambda>so. Inr (stopped so))) ks t1 = Inr t'" by auto
    obtain x where x: "generic_find t k = Some x" "t_ok t1" "generic_find t1 = (generic_find t)(k \<mapsto> stopped x)"
      by (rule t_modify_law [OF Cons.prems(2) 1]) auto
    show ?case using Cons.IH [OF 2 x(2)] x by (auto simp: fun_eq_iff stopped_def)
  qed
  from loop [OF run [unfolded stop_renewals_def stopped_def [symmetric]] ok]
  have l: "t_ok t'" and g: "generic_find t' = (\<lambda>k. if k \<in> set (renewed_to a t) then map_option stopped (generic_find t k) else generic_find t k)"
    by blast+
  show "t_ok t'" by (rule l)
  have d: "distinct (map fst (g_rows t))" using ok by (simp add: generic_invar_def sorted_rows_distinct)
  have mem: "k \<in> set (renewed_to a t) \<longleftrightarrow> sub_to so = a \<and> automatic_renewal so" if "generic_find t k = Some so" for k so
  proof -
    have "(k, z) \<in> set (g_rows t) \<longleftrightarrow> z = so" for z using generic_find_row [OF that] eq_key_imp_eq_value [OF d] by blast
    then show ?thesis by (force simp: renewed_to_def)
  qed
  show "generic_find t' = (\<lambda>k. map_option (\<lambda>so. if sub_to so = a then so\<lparr>automatic_renewal := False\<rparr> else so) (generic_find t k))"
  proof
    fix k
    show "generic_find t' k = map_option (\<lambda>so. if sub_to so = a then so\<lparr>automatic_renewal := False\<rparr> else so) (generic_find t k)"
      by (cases "generic_find t k") (auto simp: g stopped_def mem)
  qed
qed

text \<open>The effect of an update on accounts and subscriptions.\<close>

lemma account_update_law:
  assumes ok: "chain_ok c" and ap: "account_update_do_apply op f acnt c = Inr c'"
  obtains a accs subs where "generic_find (accounts c) (au_account op) = Some a" and "c' = c\<lparr>accounts := accs, subscriptions := subs\<rparr>"
    and "t_modify account_key (au_account op) (\<lambda>a. Inr (updated_account op a)) (accounts c) = Inr accs"
    and "t_ok accs" "t_ok subs" and "generic_find accs = (generic_find (accounts c))(au_account op \<mapsto> updated_account op a)"
    and "generic_find subs = (\<lambda>k. map_option (\<lambda>so. if sub_to so = au_account op \<and>
        (\<exists>o'. au_new_options op = Some o' \<and> terms_changed (acc_options a) o') then so\<lparr>automatic_renewal := False\<rparr> else so)
        (generic_find (subscriptions c) k))"
proof -
  have tok: "t_ok (subscriptions c)" "t_ok (accounts c)" using ok by (simp_all add: frame)
  let ?ch = "\<lambda>a. \<exists>o'. au_new_options op = Some o' \<and> terms_changed (acc_options a) o'"
  from ap obtain a subs accs where a: "generic_find (accounts c) (au_account op) = Some a"
    and s0: "(case au_new_options op of None \<Rightarrow> Inr (subscriptions c)
            | Some o' \<Rightarrow> if terms_changed (acc_options a) o' then stop_renewals (au_account op) (subscriptions c)
                        else Inr (subscriptions c)) = Inr subs"
    and t: "t_modify account_key (au_account op) (\<lambda>a. Inr (updated_account op a)) (accounts c) = Inr accs"
    and c': "c' = c\<lparr>accounts := accs, subscriptions := subs\<rparr>"
    unfolding account_update_do_apply_def get_account_def by (auto simp only: bindE_eq_Inr t_get_eq_Inr sum.inject)
  have s: "(if ?ch a then stop_renewals (au_account op) (subscriptions c) else Inr (subscriptions c)) = Inr subs"
    using s0 by (cases "au_new_options op") auto
  have acc: "t_ok accs \<and> generic_find accs = (generic_find (accounts c))(au_account op \<mapsto> updated_account op a)"
    by (rule t_modify_law [OF tok(2) t]) (use a in auto)
  have "t_ok subs \<and> generic_find subs = (\<lambda>k. map_option (\<lambda>so. if sub_to so = au_account op \<and> ?ch a
      then so\<lparr>automatic_renewal := False\<rparr> else so) (generic_find (subscriptions c) k))"
  proof (cases "?ch a")
    case True
    then show ?thesis using s stop_renewals_law [OF tok(1), of "au_account op" subs] by simp
  next
    case False
    then have "subs = subscriptions c" using s by (simp only: if_False sum.inject)
    then show ?thesis unfolding simp_thms(22) if_False using tok(1) False by (simp only: simp_thms if_False option.map_ident)
  qed
  then show thesis using that [OF a c' t] acc by blast
qed

lemma account_update_contract:
  assumes S: "safe_exact S"
  shows "evaluator_contract S (account_update_do_evaluate op) (account_update_do_apply op) no_pre nothing nothing"
proof (rule keeps_contract [OF S])
  fix c f f' x
  assume "account_update_do_evaluate op f c = Inr (f', x)"
  then show "f' = f" by (auto simp: account_update_do_evaluate_def)
next
  fix c x f c' a
  assume ok: "chain_ok c" and ap: "account_update_do_apply op f x c = Inr c'"
  show "chain_ok c' \<and> holdings c' a = holdings c a \<and> supply_of c' a = supply_of c a"
    by (rule account_update_law [OF ok ap]) (use ok in \<open>simp add: frame\<close>)
qed

sublocale safe_arith \<subseteq> account_create: evaluator_contract S "account_create_do_evaluate op" "account_create_do_apply op"
    no_pre nothing nothing for op
  by (rule account_create_contract [OF exact])

sublocale safe_arith \<subseteq> account_update: evaluator_contract S "account_update_do_evaluate op" "account_update_do_apply op"
    no_pre nothing nothing for op
  by (rule account_update_contract [OF exact])

section \<open>Well-formed accounts\<close>

text \<open>
  Names are unique, and of every account: both authorities can be satisfied, the accounts they name
  exist, and so does the statistics object.
\<close>

definition authority_wf :: "nat \<Rightarrow> account_object table \<Rightarrow> authority \<Rightarrow> bool" where
  "authority_wf limit t a \<longleftrightarrow> num_auths a \<noteq> 0 \<and> num_auths a \<le> limit \<and> \<not> is_impossible a \<and>
     list_all (\<lambda>p. generic_find t (fst p) \<noteq> None) (account_auths a)"

definition account_wf :: "nat \<Rightarrow> account_object table \<Rightarrow> account_statistics_object table \<Rightarrow> account_object \<Rightarrow> bool" where
  "account_wf limit t st x \<longleftrightarrow> authority_wf limit t (acc_owner x) \<and> authority_wf limit t (acc_active x) \<and>
     generic_find st (statistics x) \<noteq> None"

text \<open>
  The four accounts the genesis state reserves (ids below 4) have authorities that nobody is meant to
  satisfy; every account registered since is well-formed with the limit on the size of an authority
  that the chain parameters hold.
\<close>

definition auth_limit :: "chain \<Rightarrow> nat" where
  "auth_limit c = maximum_authority_membership (parameters (gpo c))"

definition accounts_wf :: "chain \<Rightarrow> bool" where
  "accounts_wf c \<longleftrightarrow> keys_unique account_key (accounts c) \<and>
     (\<forall>k x. generic_find (accounts c) k = Some x \<longrightarrow> 4 \<le> k \<longrightarrow> account_wf (auth_limit c) (accounts c) (account_stats c) x)"

lemma verify_authority_accounts_wf:
  "verify_authority_accounts c a = Inr u \<Longrightarrow> num_auths a \<noteq> 0 \<Longrightarrow> \<not> is_impossible a \<Longrightarrow>
   authority_wf (auth_limit c) (accounts c) a"
proof -
  have "foldE (\<lambda>p u. require (P p) e) xs () = Inr v \<Longrightarrow> list_all P xs" for P :: "'a \<Rightarrow> bool" and e xs v
    by (induction xs) auto
  then show "verify_authority_accounts c a = Inr u \<Longrightarrow> num_auths a \<noteq> 0 \<Longrightarrow> \<not> is_impossible a \<Longrightarrow>
    authority_wf (auth_limit c) (accounts c) a"
    by (auto simp: verify_authority_accounts_def authority_wf_def auth_limit_def)
qed

lemma authority_wf_mono:
  "authority_wf l t a \<Longrightarrow> (\<And>k. generic_find t k \<noteq> None \<Longrightarrow> generic_find t' k \<noteq> None) \<Longrightarrow> authority_wf l t' a"
  by (auto simp: authority_wf_def list_all_iff)

lemma account_wf_mono:
  "account_wf l t st x \<Longrightarrow> (\<And>k. generic_find t k \<noteq> None \<Longrightarrow> generic_find t' k \<noteq> None) \<Longrightarrow>
   (\<And>k. generic_find st k \<noteq> None \<Longrightarrow> generic_find st' k \<noteq> None) \<Longrightarrow> account_wf l t' st' x"
  using authority_wf_mono [of l t _ t'] by (auto simp: account_wf_def)

lemma account_key_sym: "account_key u v \<Longrightarrow> account_key v u"
  by (simp add: account_key_def)

lemma create_wf:
  assumes ok: "chain_ok c" and wf: "accounts_wf c" and ap: "account_create_do_apply op f u c = Inr c'"
    and o: "authority_wf (auth_limit c) (accounts c) (acr_owner op)" and a: "authority_wf (auth_limit c) (accounts c) (acr_active op)"
  shows "accounts_wf c'"
proof -
  from ap obtain xs stats ys accs dt d where 1: "t_create no_unique xs (account_stats c) = Inr stats"
    and 2: "t_create account_key ys (accounts c) = Inr accs"
    and 3: "add_detail dt (c\<lparr>accounts := accs, account_stats := stats, dgpo := d\<rparr>) = Inr c'"
    and ys: "acc_owner ys = acr_owner op" "acc_active ys = acr_active op" "statistics ys = g_next_id (account_stats c)"
    by (auto simp: account_create_do_apply_def Let_def)
  have tok: "t_ok (accounts c)" "t_ok (account_stats c)" using ok by (simp_all add: frame)
  note l1 = t_create_law [OF tok(2) 1] and l2 = t_create_law [OF tok(1) 2]
  have c': "accounts c' = accs" "account_stats c' = stats" "auth_limit c' = auth_limit c"
    using 3 by (auto simp: add_detail_def auth_limit_def)
  have m: "generic_find accs k \<noteq> None" if "generic_find (accounts c) k \<noteq> None" for k using that l2(2) by simp
  have n: "generic_find stats k \<noteq> None" if "generic_find (account_stats c) k \<noteq> None" for k using that l1(2) by simp
  have "account_wf (auth_limit c) accs stats ys"
    using authority_wf_mono [OF o m] authority_wf_mono [OF a m] l1(2) ys by (simp add: account_wf_def)
  moreover have "account_wf (auth_limit c) accs stats x" if "generic_find (accounts c) k = Some x" "4 \<le> k" for k x
    by (rule account_wf_mono [OF _ m n]) (use wf that in \<open>auto simp: accounts_wf_def\<close>)
  moreover have "keys_unique account_key accs"
    by (rule t_create_unique [OF tok(1) 2]) (use wf in \<open>auto simp: accounts_wf_def account_key_sym\<close>)
  ultimately show ?thesis by (auto simp: accounts_wf_def c' l2(2))
qed

lemma update_wf:
  assumes ok: "chain_ok c" and wf: "accounts_wf c" and ap: "account_update_do_apply op f u c = Inr c'"
    and o: "\<And>w. au_owner op = Some w \<Longrightarrow> authority_wf (auth_limit c) (accounts c) w" and a: "\<And>w. au_active op = Some w \<Longrightarrow> authority_wf (auth_limit c) (accounts c) w"
  shows "accounts_wf c'"
  using ok ap
proof (rule account_update_law)
  fix x accs subs
  assume x: "generic_find (accounts c) (au_account op) = Some x" and c': "c' = c\<lparr>accounts := accs, subscriptions := subs\<rparr>"
    and t: "t_modify account_key (au_account op) (\<lambda>a. Inr (updated_account op a)) (accounts c) = Inr accs"
    and g: "generic_find accs = (generic_find (accounts c))(au_account op \<mapsto> updated_account op x)"
  have m: "generic_find accs k \<noteq> None" if "generic_find (accounts c) k \<noteq> None" for k using that g by simp
  let ?wf = "account_wf (auth_limit c)"
  have "?wf accs (account_stats c) (updated_account op x)" if "4 \<le> au_account op"
  proof (rule account_wf_mono [OF _ m])
    have "?wf (accounts c) (account_stats c) x" using wf x that by (simp add: accounts_wf_def)
    then show "?wf (accounts c) (account_stats c) (updated_account op x)"
      using o a by (auto simp: account_wf_def updated_account_def Let_def split: option.splits)
  qed
  moreover have "?wf accs (account_stats c) y" if "generic_find (accounts c) k = Some y" "4 \<le> k" for k y
    by (rule account_wf_mono [OF _ m]) (use wf that in \<open>auto simp: accounts_wf_def\<close>)
  moreover have "t_ok (accounts c)" using ok by (simp add: frame)
  then have "keys_unique account_key accs" using t_modify_unique [OF _ t] wf account_key_sym by (simp add: accounts_wf_def)
  ultimately show "accounts_wf c'" by (auto simp: accounts_wf_def auth_limit_def c' g)
qed

section \<open>Properties\<close>

text \<open>
  C23. Accounts stay well-formed: creating and updating accounts with operations that pass validation
  keeps ids and names unique and leaves every registered account (every account but the four reserved
  ones) with a statistics object and with owner and active authorities that are not empty, hold at most
  the number of entries the chain parameters allow, can be satisfied, and name only existing accounts.
\<close>

theorem accounts_stay_wellformed:
  assumes S: "safe_exact S" and ok: "chain_ok c" "\<not> skip_fee st" and wf: "accounts_wf c"
    and run: "account_create_validate op = Inr () \<and> start_evaluate S st r (acr_registrar op) (acr_fee op)
        (account_create_do_evaluate op) (account_create_do_apply op) c = Inr c' \<or>
      account_update_validate uop = Inr () \<and> start_evaluate S st r (au_account uop) (au_fee uop)
        (account_update_do_evaluate uop) (account_update_do_apply uop) c = Inr c'"
  shows "accounts_wf c'"
  using run
proof
  assume "account_create_validate op = Inr () \<and> start_evaluate S st r (acr_registrar op) (acr_fee op)
        (account_create_do_evaluate op) (account_create_do_apply op) c = Inr c'"
  then have v: "account_create_validate op = Inr ()" and r: "start_evaluate S st r (acr_registrar op) (acr_fee op)
        (account_create_do_evaluate op) (account_create_do_apply op) c = Inr c'" by blast+
  show ?thesis
  proof (rule run_inner [OF account_create_contract [OF S] ok r])
    fix f x t c3 b
    assume de: "account_create_do_evaluate op f c = Inr (f, x)" and ok2: "chain_ok (c\<lparr>asset_dyn := t\<rparr>)"
      and da: "account_create_do_apply op f x (c\<lparr>asset_dyn := t\<rparr>) = Inr c3" and c': "c' = c3\<lparr>balances := b\<rparr>"
    have "authority_wf (auth_limit c) (accounts c) (acr_owner op)" "authority_wf (auth_limit c) (accounts c) (acr_active op)"
      using de v by (auto simp: account_create_do_evaluate_def account_create_validate_def intro: verify_authority_accounts_wf)
    then have "accounts_wf c3" using create_wf [OF ok2 _ da] wf by (simp add: accounts_wf_def auth_limit_def)
    then show ?thesis by (simp add: c' accounts_wf_def auth_limit_def)
  qed
next
  assume "account_update_validate uop = Inr () \<and> start_evaluate S st r (au_account uop) (au_fee uop)
        (account_update_do_evaluate uop) (account_update_do_apply uop) c = Inr c'"
  then have v: "account_update_validate uop = Inr ()" and r: "start_evaluate S st r (au_account uop) (au_fee uop)
        (account_update_do_evaluate uop) (account_update_do_apply uop) c = Inr c'" by blast+
  show ?thesis
  proof (rule run_inner [OF account_update_contract [OF S] ok r])
    fix f x t c3 b
    assume de: "account_update_do_evaluate uop f c = Inr (f, x)" and ok2: "chain_ok (c\<lparr>asset_dyn := t\<rparr>)"
      and da: "account_update_do_apply uop f x (c\<lparr>asset_dyn := t\<rparr>) = Inr c3" and c': "c' = c3\<lparr>balances := b\<rparr>"
    have "authority_wf (auth_limit c) (accounts c) w" if "au_owner uop = Some w \<or> au_active uop = Some w" for w
      using de v that by (auto simp: account_update_do_evaluate_def account_update_validate_def new_authority_validate_def
          intro: verify_authority_accounts_wf split: option.splits)
    then have "accounts_wf c3" using update_wf [OF ok2 _ da] wf by (simp add: accounts_wf_def auth_limit_def)
    then show ?thesis by (simp add: c' accounts_wf_def auth_limit_def)
  qed
qed

text \<open>
  An update changes exactly what it names: the authorities and options given of the account it
  names, nothing of any other account; and the automatic renewals of subscriptions to that account end
  exactly when the new options withdraw the subscription or change its price or period.
\<close>

theorem account_update_effect:
  assumes S: "safe_exact S" and ok: "chain_ok c" "\<not> skip_fee st"
    and run: "start_evaluate S st r (au_account op) (au_fee op) (account_update_do_evaluate op) (account_update_do_apply op) c = Inr c'"
  shows "\<exists>a. generic_find (accounts c) (au_account op) = Some a \<and>
    generic_find (accounts c') = (generic_find (accounts c))(au_account op \<mapsto> updated_account op a) \<and>
    (\<forall>k so. generic_find (subscriptions c) k = Some so \<longrightarrow> generic_find (subscriptions c') k = Some
      (if sub_to so = au_account op \<and> (\<exists>o'. au_new_options op = Some o' \<and> terms_changed (acc_options a) o')
       then so\<lparr>automatic_renewal := False\<rparr> else so))"
proof (rule run_inner [OF account_update_contract [OF S] ok run])
  fix f x t c3 b
  assume ok2: "chain_ok (c\<lparr>asset_dyn := t\<rparr>)" and da: "account_update_do_apply op f x (c\<lparr>asset_dyn := t\<rparr>) = Inr c3"
    and c': "c' = c3\<lparr>balances := b\<rparr>"
  show ?thesis
    by (rule account_update_law [OF ok2 da]) (auto simp: c')
qed

section \<open>Concrete instances\<close>

definition demo_account_create :: account_create_operation where
  "demo_account_create = \<lparr>acr_fee = mk_asset 10 0, acr_registrar = 4, acr_name = ''carol'', acr_owner = demo_authority,
     acr_active = demo_authority, acr_options = demo_options\<rparr>"

definition demo_account_update :: account_update_operation where
  "demo_account_update = \<lparr>au_fee = mk_asset 10 0, au_account = 4, au_owner = None, au_active = Some demo_authority,
     au_new_options = Some (demo_options\<lparr>price_per_subscribe := mk_asset 60 0\<rparr>)\<rparr>"

lemma demo_authority_possible: "\<not> is_impossible demo_authority"
  by (simp add: is_impossible_def demo_authority_def)

lemma demo_accounts_wf: "accounts_wf demo_chain"
proof -
  have "keys_unique account_key demo_accounts"
    by (rule keys_unique_rows) (simp add: demo_accounts_def demo_account_def account_key_def)
  moreover have "account_wf 10 demo_accounts demo_stats x" if "generic_find demo_accounts k = Some x" for k x
  proof -
    from generic_find_row [OF that] have "acc_owner x = demo_authority" "acc_active x = demo_authority" "statistics x = 0"
      by (auto simp: demo_accounts_def demo_account_def)
    then show ?thesis
      using demo_authority_possible by (simp add: account_wf_def authority_wf_def num_auths_def demo_authority_def demo_accounts_def demo_stats_def
          generic_find_def)
  qed
  ultimately show ?thesis by (simp add: accounts_wf_def auth_limit_def demo_chain_def demo_params_def)
qed

theorem accounts_stay_wellformed_witness:
  "\<exists>c'. start_evaluate checked64 demo_trx (Inr 10) 4 (mk_asset 10 0)
        (account_create_do_evaluate demo_account_create) (account_create_do_apply demo_account_create) demo_chain = Inr c' \<and>
     accounts_wf c'"
proof -
  let ?r = "start_evaluate checked64 demo_trx (Inr 10) (acr_registrar demo_account_create) (acr_fee demo_account_create)
        (account_create_do_evaluate demo_account_create) (account_create_do_apply demo_account_create) demo_chain"
  have "succeeds ?r" by code_simp
  then obtain c' where r: "?r = Inr c'" by (rule succeedsE)
  have n: "is_valid_name ''carol''" by code_simp
  have v: "account_create_validate demo_account_create = Inr ()"
    using n demo_authority_possible
    by (simp add: account_create_validate_def demo_account_create_def account_options_validate_def demo_options_def num_auths_def
        demo_authority_def DECENT_MAX_SUBSCRIPTION_PERIOD_def)
  from accounts_stay_wellformed [OF checked64_exact demo_chain_ok demo_trx_fee demo_accounts_wf disjI1 [OF conjI [OF v r]]] r
  show ?thesis by (auto simp: demo_account_create_def)
qed

theorem account_update_effect_witness:
  "\<exists>c'. start_evaluate checked64 demo_trx (Inr 10) 4 (mk_asset 10 0)
        (account_update_do_evaluate demo_account_update) (account_update_do_apply demo_account_update) demo_chain = Inr c' \<and>
     generic_find (accounts c') 5 = generic_find (accounts demo_chain) 5"
proof -
  let ?r = "start_evaluate checked64 demo_trx (Inr 10) (au_account demo_account_update) (au_fee demo_account_update)
        (account_update_do_evaluate demo_account_update) (account_update_do_apply demo_account_update) demo_chain"
  have "succeeds ?r" by code_simp
  then obtain c' where r: "?r = Inr c'" by (rule succeedsE)
  from account_update_effect [OF checked64_exact demo_chain_ok demo_trx_fee r] r
  show ?thesis by (auto simp: demo_account_update_def)
qed

end
