(* ===== verification/Miner_Evaluator.thy ===== *)
theory Miner_Evaluator
  imports Account Maintenance
begin

text \<open>
  The operations of miners: \<open>miner\_evaluator.cpp\<close>, \<open>protocol/miner.cpp\<close>, the vote ids of
  \<open>protocol/vote.cpp\<close> and the validation of the chain parameters in \<open>protocol/fee\_schedule.cpp\<close> (the
  validation of the fee schedule itself does nothing).
\<close>

section \<open>Chain parameters\<close>

definition GRAPHENE_MIN_BLOCK_INTERVAL :: nat where "GRAPHENE_MIN_BLOCK_INTERVAL = 1"
definition GRAPHENE_MAX_BLOCK_INTERVAL :: nat where "GRAPHENE_MAX_BLOCK_INTERVAL = 30"
definition GRAPHENE_MIN_TRANSACTION_SIZE_LIMIT :: nat where "GRAPHENE_MIN_TRANSACTION_SIZE_LIMIT = 1024"
definition GRAPHENE_MIN_BLOCK_SIZE_LIMIT :: nat where "GRAPHENE_MIN_BLOCK_SIZE_LIMIT = GRAPHENE_MIN_TRANSACTION_SIZE_LIMIT * 5"
definition GRAPHENE_MAX_URL_LENGTH :: nat where "GRAPHENE_MAX_URL_LENGTH = 127"

text \<open>The last comparison subtracts two unsigned numbers of 32 bits.\<close>

definition chain_parameters_validate :: "chain_parameters \<Rightarrow> unit res" where
  "chain_parameters_validate p =
     bindE (require (GRAPHENE_MIN_BLOCK_INTERVAL \<le> block_interval p) Assert_Exception) (\<lambda>_.
     bindE (require (block_interval p \<le> GRAPHENE_MAX_BLOCK_INTERVAL) Assert_Exception) (\<lambda>_.
     bindE (require (0 < block_interval p) Assert_Exception) (\<lambda>_.
     bindE (require (block_interval p < maintenance_interval p) Assert_Exception) (\<lambda>_.
     bindE (require (maintenance_interval p mod block_interval p = 0) Assert_Exception) (\<lambda>_.
     bindE (require (GRAPHENE_MIN_TRANSACTION_SIZE_LIMIT \<le> maximum_transaction_size p) Assert_Exception) (\<lambda>_.
     bindE (require (GRAPHENE_MIN_BLOCK_SIZE_LIMIT \<le> maximum_block_size p) Assert_Exception) (\<lambda>_.
     bindE (require (block_interval p < maximum_time_until_expiration p) Assert_Exception) (\<lambda>_.
     require (block_interval p < u32 (int (maximum_proposal_lifetime p) - int (miner_proposal_review_period p)))
       Assert_Exception))))))))"

section \<open>Operations\<close>

record miner_create_operation =
  mc_fee :: asset
  mc_miner_account :: account_id_type
  mc_url :: string
  mc_block_signing_key :: opaque

record miner_update_operation =
  mu_fee :: asset
  mu_miner :: nat
  mu_miner_account :: account_id_type
  mu_new_url :: "string option"
  mu_new_signing_key :: "opaque option"

record miner_update_global_parameters_operation =
  mg_fee :: asset
  mg_new_parameters :: chain_parameters

definition miner_create_validate :: "miner_create_operation \<Rightarrow> unit res" where
  "miner_create_validate op =
     bindE (require (0 \<le> amount (mc_fee op)) Assert_Exception) (\<lambda>_.
     require (length (mc_url op) < GRAPHENE_MAX_URL_LENGTH) Assert_Exception)"

definition miner_update_validate :: "miner_update_operation \<Rightarrow> unit res" where
  "miner_update_validate op =
     bindE (require (0 \<le> amount (mu_fee op)) Assert_Exception) (\<lambda>_.
     case mu_new_url op of None \<Rightarrow> Inr () | Some url \<Rightarrow> require (length url < GRAPHENE_MAX_URL_LENGTH) Assert_Exception)"

definition miner_update_global_parameters_validate :: "miner_update_global_parameters_operation \<Rightarrow> unit res" where
  "miner_update_global_parameters_validate op =
     bindE (require (0 \<le> amount (mg_fee op)) Assert_Exception) (\<lambda>_. chain_parameters_validate (mg_new_parameters op))"

text \<open>
  A vote id is a word of 32 bits, the type in the lower 8 and the instance in the upper 24: the
  instance handed out is the next number modulo $2^{24}$.
\<close>

definition get_next_vote_id :: "global_property_object \<Rightarrow> nat \<times> global_property_object" where
  "get_next_vote_id g = (nat (int (next_available_vote_id g) mod 2 ^ 24),
     g\<lparr>next_available_vote_id := u32 (int (next_available_vote_id g) + 1)\<rparr>)"

definition miner_create_do_evaluate :: "miner_create_operation \<Rightarrow> fee_state \<Rightarrow> chain \<Rightarrow> (fee_state \<times> unit) res" where
  "miner_create_do_evaluate op f c = Inr (f, ())"

definition new_miner :: "miner_create_operation \<Rightarrow> nat \<Rightarrow> miner_object" where
  "new_miner op v = \<lparr>miner_account = mc_miner_account op, last_aslot = 0, signing_key = mc_block_signing_key op, pay_vb = None,
     vote_id = v, total_votes = 0, total_missed = 0, last_confirmed_block_num = 0, vote_ranking = 2 ^ 32 - 1, votes_gained = [],
     miner_url = mc_url op\<rparr>"

definition miner_create_do_apply :: "miner_create_operation \<Rightarrow> fee_state \<Rightarrow> unit \<Rightarrow> chain \<Rightarrow> chain res" where
  "miner_create_do_apply op f u c =
     (let (v, g) = get_next_vote_id (gpo c)
      in bindE (t_create miner_key (new_miner op v) (miners c)) (\<lambda>t. Inr (c\<lparr>gpo := g, miners := t\<rparr>)))"

definition miner_update_do_evaluate :: "miner_update_operation \<Rightarrow> fee_state \<Rightarrow> chain \<Rightarrow> (fee_state \<times> unit) res" where
  "miner_update_do_evaluate op f c =
     bindE (t_get (miners c) (mu_miner op)) (\<lambda>m.
     bindE (require (miner_account m = mu_miner_account op) Assert_Exception) (\<lambda>_.
     Inr (f, ())))"

definition updated_miner :: "miner_update_operation \<Rightarrow> miner_object \<Rightarrow> miner_object" where
  "updated_miner op m =
     (let m1 = (case mu_new_url op of None \<Rightarrow> m | Some url \<Rightarrow> m\<lparr>miner_url := url\<rparr>)
      in case mu_new_signing_key op of None \<Rightarrow> m1 | Some k \<Rightarrow> m1\<lparr>signing_key := k\<rparr>)"

definition miner_update_do_apply :: "miner_update_operation \<Rightarrow> fee_state \<Rightarrow> unit \<Rightarrow> chain \<Rightarrow> chain res" where
  "miner_update_do_apply op f u c =
     bindE (t_modify miner_key (mu_miner op) (\<lambda>m. Inr (updated_miner op m)) (miners c)) (\<lambda>t. Inr (c\<lparr>miners := t\<rparr>))"

definition miner_update_global_parameters_do_evaluate ::
  "trx_state \<Rightarrow> miner_update_global_parameters_operation \<Rightarrow> fee_state \<Rightarrow> chain \<Rightarrow> (fee_state \<times> unit) res" where
  "miner_update_global_parameters_do_evaluate st op f c =
     bindE (require (is_proposed_trx st) Assert_Exception) (\<lambda>_. Inr (f, ()))"

definition miner_update_global_parameters_do_apply ::
  "miner_update_global_parameters_operation \<Rightarrow> fee_state \<Rightarrow> unit \<Rightarrow> chain \<Rightarrow> chain res" where
  "miner_update_global_parameters_do_apply op f u c =
     Inr (c\<lparr>gpo := (gpo c)\<lparr>pending_parameters := Some (mg_new_parameters op)\<rparr>\<rparr>)"

section \<open>Contracts\<close>

lemma miner_create_contract:
  assumes S: "safe_exact S"
  shows "evaluator_contract S (miner_create_do_evaluate op) (miner_create_do_apply op) no_pre nothing nothing"
proof (rule keeps_contract [OF S])
  fix c and x :: unit and f c' a
  assume ok: "chain_ok c" and "miner_create_do_apply op f x c = Inr c'"
  then obtain m t g where t: "t_create miner_key m (miners c) = Inr t" and c': "c' = c\<lparr>gpo := g, miners := t\<rparr>"
    by (auto simp: miner_create_do_apply_def get_next_vote_id_def)
  have "t_ok t" using t_create_law(1) [OF _ t] ok by (simp add: frame)
  then show "chain_ok c' \<and> holdings c' a = holdings c a \<and> supply_of c' a = supply_of c a" using ok by (simp add: c' frame)
qed (simp add: miner_create_do_evaluate_def)

lemma miner_update_contract:
  assumes S: "safe_exact S"
  shows "evaluator_contract S (miner_update_do_evaluate op) (miner_update_do_apply op) no_pre nothing nothing"
proof (rule keeps_contract [OF S])
  fix c and x :: unit and f c' a
  assume ok: "chain_ok c" and "miner_update_do_apply op f x c = Inr c'"
  then obtain t where t: "t_modify miner_key (mu_miner op) (\<lambda>m. Inr (updated_miner op m)) (miners c) = Inr t" and c': "c' = c\<lparr>miners := t\<rparr>"
    by (auto simp: miner_update_do_apply_def)
  have "t_ok t" using t_modify_keeps_ok [OF _ t] ok by (simp add: frame)
  then show "chain_ok c' \<and> holdings c' a = holdings c a \<and> supply_of c' a = supply_of c a" using ok by (simp add: c' frame)
qed (auto simp: miner_update_do_evaluate_def)

lemma miner_update_global_parameters_contract:
  assumes S: "safe_exact S"
  shows "evaluator_contract S (miner_update_global_parameters_do_evaluate st op) (miner_update_global_parameters_do_apply op)
    no_pre nothing nothing"
  by (rule keeps_contract [OF S])
    (auto simp: miner_update_global_parameters_do_evaluate_def miner_update_global_parameters_do_apply_def frame)

sublocale safe_arith \<subseteq> miner_create: evaluator_contract S "miner_create_do_evaluate op" "miner_create_do_apply op"
    no_pre nothing nothing for op
  by (rule miner_create_contract [OF exact])

sublocale safe_arith \<subseteq> miner_update: evaluator_contract S "miner_update_do_evaluate op" "miner_update_do_apply op"
    no_pre nothing nothing for op
  by (rule miner_update_contract [OF exact])

section \<open>Vote ids\<close>

definition vote_ids_ok :: "chain \<Rightarrow> bool" where
  "vote_ids_ok c \<longleftrightarrow> keys_unique miner_key (miners c) \<and>
     (\<forall>k m. generic_find (miners c) k = Some m \<longrightarrow> vote_id m < next_available_vote_id (gpo c))"

lemma miner_key_sym: "miner_key u v \<Longrightarrow> miner_key v u"
  by (auto simp: miner_key_def)

lemma create_vote_ids:
  assumes ok: "chain_ok c" and v: "vote_ids_ok c" and n: "next_available_vote_id (gpo c) < 2 ^ 32 - 1"
    and ap: "miner_create_do_apply op f u c = Inr c'"
  shows "vote_ids_ok c'" and "generic_find (miners c') (g_next_id (miners c)) =
    Some (new_miner op (fst (get_next_vote_id (gpo c))))"
proof -
  let ?v = "fst (get_next_vote_id (gpo c))"
  from ap obtain t where t: "t_create miner_key (new_miner op ?v) (miners c) = Inr t"
    and c': "c' = c\<lparr>gpo := snd (get_next_vote_id (gpo c)), miners := t\<rparr>"
    by (auto simp: miner_create_do_apply_def split: prod.splits)
  have tok: "t_ok (miners c)" using ok by (simp add: frame)
  note l = t_create_law [OF tok t]
  have next': "next_available_vote_id (gpo c') = Suc (next_available_vote_id (gpo c))"
    using n by (simp add: c' get_next_vote_id_def u32_def nat_add_distrib)
  have "int (next_available_vote_id (gpo c)) mod 2 ^ 24 \<le> int (next_available_vote_id (gpo c))"
    by (rule zmod_le_nonneg_dividend) simp
  then have "?v \<le> next_available_vote_id (gpo c)" by (simp add: get_next_vote_id_def nat_le_iff)
  moreover have "keys_unique miner_key t"
    by (rule t_create_unique [OF tok t]) (use v in \<open>auto simp: vote_ids_ok_def miner_key_sym\<close>)
  ultimately show "vote_ids_ok c'"
    using v next' l(2) by (auto simp: vote_ids_ok_def c' new_miner_def less_Suc_eq_le intro: less_imp_le)
  show "generic_find (miners c') (g_next_id (miners c)) = Some (new_miner op ?v)" using l(2) by (simp add: c')
qed

end
