(* ===== verification/Nft.thy ===== *)
theory Nft
  imports Account Asset_Evaluator
begin

text \<open>
  Non-fungible tokens: \<open>protocol/non\_fungible\_token.cpp\<close> and \<open>non\_fungible\_token\_evaluator.cpp\<close>.

  The values of a token instance are \<open>fc::variant\<close>s of the library \<open>fc\<close>: what the code asks of them
  is the argument \<open>V\<close>. A conversion may raise. The supply of a token is a \<open>uint32\_t\<close>.
\<close>

record variant_ops =
  v_is_string :: "opaque \<Rightarrow> bool"
  v_is_int64 :: "opaque \<Rightarrow> bool"
  v_is_uint64 :: "opaque \<Rightarrow> bool"
  v_is_bool :: "opaque \<Rightarrow> bool"
  v_as_string :: "opaque \<Rightarrow> string res"
  v_as_int64 :: "opaque \<Rightarrow> int res"
  v_as_uint64 :: "opaque \<Rightarrow> nat res"
  v_as_bool :: "opaque \<Rightarrow> bool res"

section \<open>Validation\<close>

definition nft_data_type_validate :: "non_fungible_token_data_type \<Rightarrow> unit res" where
  "nft_data_type_validate dt =
     bindE (require (nft_nobody \<le> nd_modifiable dt \<and> nd_modifiable dt \<le> nft_both) Assert_Exception) (\<lambda>_.
     bindE (require (nft_string \<le> nd_type dt \<and> nd_type dt \<le> nft_boolean) Assert_Exception) (\<lambda>_.
     bindE (case nd_name dt of None \<Rightarrow> Inr () | Some n \<Rightarrow> require (length n \<le> 32) Assert_Exception) (\<lambda>_.
     if nd_modifiable dt \<noteq> nft_nobody
     then require (nd_name dt \<noteq> None \<and> nd_name dt \<noteq> Some []) Assert_Exception else Inr ())))"

definition nft_options_validate :: "non_fungible_token_options \<Rightarrow> unit res" where
  "nft_options_validate o' = require (length (no_description o') \<le> 1000) Assert_Exception"

record nft_create_definition_operation =
  nc_fee :: asset
  nc_symbol :: string
  nc_options :: non_fungible_token_options
  nc_definitions :: "non_fungible_token_data_type list"
  nc_transferable :: bool

record nft_update_definition_operation =
  nu_fee :: asset
  nu_current_issuer :: account_id_type
  nu_nft_id :: nat
  nu_options :: non_fungible_token_options

record nft_issue_operation =
  ni_fee :: asset
  ni_issuer :: account_id_type
  ni_to :: account_id_type
  ni_nft_id :: nat
  ni_data :: "opaque list"
  ni_memo :: "opaque option"

record nft_transfer_operation =
  nt_fee :: asset
  nt_from :: account_id_type
  nt_to :: account_id_type
  nt_nft_data_id :: nat
  nt_memo :: "opaque option"

record nft_update_data_operation =
  nx_fee :: asset
  nx_modifier :: account_id_type
  nx_nft_data_id :: nat
  nx_data :: "(string \<times> opaque) list"

definition nft_create_definition_validate :: "nft_create_definition_operation \<Rightarrow> unit res" where
  "nft_create_definition_validate op =
     bindE (require (0 \<le> amount (nc_fee op)) Assert_Exception) (\<lambda>_.
     bindE (require (is_valid_symbol (nc_symbol op)) Assert_Exception) (\<lambda>_.
     bindE (nft_options_validate (nc_options op)) (\<lambda>_.
     foldE (\<lambda>dt u.
       bindE (nft_data_type_validate dt) (\<lambda>_.
       if nd_name dt \<noteq> None \<and> nd_name dt \<noteq> Some []
       then require (length (filter (\<lambda>other. nd_name dt = nd_name other) (nc_definitions op)) = 1) Assert_Exception
       else Inr ())) (nc_definitions op) ())))"

definition nft_update_definition_validate :: "nft_update_definition_operation \<Rightarrow> unit res" where
  "nft_update_definition_validate op =
     bindE (require (0 \<le> amount (nu_fee op)) Assert_Exception) (\<lambda>_. nft_options_validate (nu_options op))"

definition nft_issue_validate :: "nft_issue_operation \<Rightarrow> unit res" where
  "nft_issue_validate op = require (0 \<le> amount (ni_fee op)) Assert_Exception"

definition nft_transfer_validate :: "nft_transfer_operation \<Rightarrow> unit res" where
  "nft_transfer_validate op =
     bindE (require (0 \<le> amount (nt_fee op)) Assert_Exception) (\<lambda>_. require (nt_from op \<noteq> nt_to op) Assert_Exception)"

definition nft_update_data_validate :: "nft_update_data_operation \<Rightarrow> unit res" where
  "nft_update_data_validate op =
     bindE (require (0 \<le> amount (nx_fee op)) Assert_Exception) (\<lambda>_.
     bindE (require (nx_data op \<noteq> []) Assert_Exception) (\<lambda>_.
     bindE (foldE (\<lambda>v names.
       bindE (require (fst v \<noteq> []) Assert_Exception) (\<lambda>_.
       bindE (require (fst v \<notin> set names) Assert_Exception) (\<lambda>_.
       Inr (fst v # names)))) (nx_data op) []) (\<lambda>_.
     Inr ())))"

section \<open>Evaluation\<close>

definition has_nft_symbol :: "string \<Rightarrow> non_fungible_token_object \<Rightarrow> bool" where
  "has_nft_symbol s n \<longleftrightarrow> nft_symbol n = s"

text \<open>The part of a symbol before its last dot.\<close>

definition symbol_prefix :: "string \<Rightarrow> string option" where
  "symbol_prefix s = (if CHR ''.'' \<in> set s then Some (rev (tl (dropWhile (\<lambda>x. x \<noteq> CHR ''.'') (rev s)))) else None)"

definition nft_create_definition_do_evaluate ::
  "fork_times_t \<Rightarrow> nft_create_definition_operation \<Rightarrow> fee_state \<Rightarrow> chain \<Rightarrow> (fee_state \<times> unit) res" where
  "nft_create_definition_do_evaluate ft op f c =
     bindE (require (hf4 ft < head_block_time c) Assert_Exception) (\<lambda>_.
     bindE (require (t_find_by (has_nft_symbol (nc_symbol op)) (nfts c) = None) Assert_Exception) (\<lambda>_.
     bindE (case symbol_prefix (nc_symbol op) of None \<Rightarrow> Inr ()
            | Some p \<Rightarrow>
                (case t_find_by (has_nft_symbol p) (nfts c) of
                   None \<Rightarrow> Inl Assert_Exception
                 | Some (k, n) \<Rightarrow> require (no_issuer (nft_options n) = no_issuer (nc_options op)) Assert_Exception)) (\<lambda>_.
     Inr (f, ()))))"

definition nft_create_definition_do_apply ::
  "nft_create_definition_operation \<Rightarrow> fee_state \<Rightarrow> unit \<Rightarrow> chain \<Rightarrow> chain res" where
  "nft_create_definition_do_apply op f u c =
     bindE (t_create nft_key \<lparr>nft_symbol = nc_symbol op, nft_options = nc_options op, nft_definitions = nc_definitions op,
              nft_transferable = nc_transferable op, nft_current_supply = 0\<rparr> (nfts c)) (\<lambda>t.
     Inr (c\<lparr>nfts := t\<rparr>))"

definition nft_update_definition_do_evaluate ::
  "fork_times_t \<Rightarrow> nft_update_definition_operation \<Rightarrow> fee_state \<Rightarrow> chain \<Rightarrow> (fee_state \<times> unit) res" where
  "nft_update_definition_do_evaluate ft op f c =
     bindE (require (hf4 ft < head_block_time c) Assert_Exception) (\<lambda>_.
     bindE (t_get (nfts c) (nu_nft_id op)) (\<lambda>n.
     bindE (require (nu_current_issuer op = no_issuer (nft_options n)) Assert_Exception) (\<lambda>_.
     bindE (require (nft_current_supply n \<le> no_max_supply (nu_options op)) Assert_Exception) (\<lambda>_.
     bindE (require (no_fixed_max_supply (nu_options op) = no_fixed_max_supply (nft_options n) \<or>
              \<not> no_fixed_max_supply (nft_options n)) Assert_Exception) (\<lambda>_.
     bindE (require (no_max_supply (nu_options op) = no_max_supply (nft_options n) \<or>
              \<not> no_fixed_max_supply (nft_options n)) Assert_Exception) (\<lambda>_.
     bindE (require (no_issuer (nu_options op) \<noteq> no_issuer (nft_options n) \<or>
              no_max_supply (nu_options op) \<noteq> no_max_supply (nft_options n) \<or>
              no_fixed_max_supply (nu_options op) \<noteq> no_fixed_max_supply (nft_options n) \<or>
              no_description (nu_options op) \<noteq> no_description (nft_options n)) Assert_Exception) (\<lambda>_.
     Inr (f, ()))))))))"

definition nft_update_definition_do_apply ::
  "nft_update_definition_operation \<Rightarrow> fee_state \<Rightarrow> unit \<Rightarrow> chain \<Rightarrow> chain res" where
  "nft_update_definition_do_apply op f u c =
     bindE (t_modify nft_key (nu_nft_id op) (\<lambda>n. Inr (n\<lparr>nft_options := nu_options op\<rparr>)) (nfts c)) (\<lambda>t. Inr (c\<lparr>nfts := t\<rparr>))"

text \<open>
  Whether an instance of the token has the value at position \<open>idx\<close>; \<open>as\<close> converts the stored values, in
  the order of the ids, and the first match ends the search.
\<close>

fun any_data :: "(opaque \<Rightarrow> 'v res) \<Rightarrow> 'v \<Rightarrow> nat \<Rightarrow> non_fungible_token_data_object list \<Rightarrow> bool res" where
  "any_data as v idx [] = Inr False"
| "any_data as v idx (d # ds) =
     bindE (lift_opt Undefined_Behaviour (if idx < length (nfd_data d) then Some (nfd_data d ! idx) else None)) (\<lambda>x.
     bindE (as x) (\<lambda>y. if v = y then Inr True else any_data as v idx ds))"

definition nft_instances :: "chain \<Rightarrow> nat \<Rightarrow> non_fungible_token_data_object list" where
  "nft_instances c nft_id = filter (\<lambda>d. nfd_nft_id d = nft_id) (t_values (nft_data c))"

definition nft_find_data :: "(opaque \<Rightarrow> 'v res) \<Rightarrow> chain \<Rightarrow> nat \<Rightarrow> opaque \<Rightarrow> nat \<Rightarrow> bool res" where
  "nft_find_data as c nft_id v idx = bindE (as v) (\<lambda>x. any_data as x idx (nft_instances c nft_id))"

definition check_unique :: "bool \<Rightarrow> bool res \<Rightarrow> unit res" where
  "check_unique unique found =
     (if unique then bindE found (\<lambda>b. require (\<not> b) Assert_Exception) else Inr ())"

definition nft_check_data ::
  "variant_ops \<Rightarrow> chain \<Rightarrow> non_fungible_token_data_type \<Rightarrow> nat \<Rightarrow> opaque \<Rightarrow> nat \<Rightarrow> unit res" where
  "nft_check_data V c dt nft_id v idx =
     (if nd_type dt = nft_string then
        bindE (require (v_is_string V v) Assert_Exception) (\<lambda>_.
        check_unique (nd_unique dt) (nft_find_data (v_as_string V) c nft_id v idx))
      else if nd_type dt = nft_integer then
        bindE (require (v_is_int64 V v \<or> v_is_uint64 V v) Assert_Exception) (\<lambda>_.
        check_unique (nd_unique dt)
          (if v_is_int64 V v then nft_find_data (v_as_int64 V) c nft_id v idx
           else nft_find_data (v_as_uint64 V) c nft_id v idx))
      else if nd_type dt = nft_boolean then
        bindE (require (v_is_bool V v) Assert_Exception) (\<lambda>_.
        check_unique (nd_unique dt) (nft_find_data (v_as_bool V) c nft_id v idx))
      else Inr ())"

definition nft_issue_do_evaluate ::
  "variant_ops \<Rightarrow> fork_times_t \<Rightarrow> nft_issue_operation \<Rightarrow> fee_state \<Rightarrow> chain \<Rightarrow> (fee_state \<times> unit) res" where
  "nft_issue_do_evaluate V ft op f c =
     bindE (require (hf4 ft < head_block_time c) Assert_Exception) (\<lambda>_.
     bindE (t_get (nfts c) (ni_nft_id op)) (\<lambda>n.
     bindE (require (ni_issuer op = no_issuer (nft_options n)) Assert_Exception) (\<lambda>_.
     bindE (require (generic_find (accounts c) (ni_to op) \<noteq> None) Assert_Exception) (\<lambda>_.
     bindE (require (u32 (int (nft_current_supply n) + 1) \<le> no_max_supply (nft_options n)) Assert_Exception) (\<lambda>_.
     bindE (require (length (nft_definitions n) = length (ni_data op)) Assert_Exception) (\<lambda>_.
     bindE (foldE (\<lambda>(i, dt, v) u. nft_check_data V c dt (ni_nft_id op) v i)
              (zip [0..<length (nft_definitions n)] (zip (nft_definitions n) (ni_data op))) ()) (\<lambda>_.
     Inr (f, ()))))))))"

definition nft_issue_do_apply :: "nft_issue_operation \<Rightarrow> fee_state \<Rightarrow> unit \<Rightarrow> chain \<Rightarrow> chain res" where
  "nft_issue_do_apply op f u c =
     bindE (t_create no_unique \<lparr>nfd_nft_id = ni_nft_id op, nfd_owner = ni_to op, nfd_data = ni_data op\<rparr> (nft_data c)) (\<lambda>ds.
     bindE (t_get (nfts c) (ni_nft_id op)) (\<lambda>n.
     bindE (t_modify nft_key (ni_nft_id op)
              (\<lambda>n. Inr (n\<lparr>nft_current_supply := u32 (int (nft_current_supply n) + 1)\<rparr>)) (nfts c)) (\<lambda>ns.
     add_detail \<lparr>m_from_account = no_issuer (nft_options n), m_to_account = ni_to op, m_operation_type = Nft_Detail,
         m_transaction_amount = mk_asset 0 0, m_transaction_fee = ni_fee op, m_str_description = ''issue token'',
         m_memo = ni_memo op, m_timestamp = head_block_time c, m_nft_data_id = Some (g_next_id (nft_data c))\<rparr>
       (c\<lparr>nfts := ns, nft_data := ds\<rparr>))))"

definition nft_transfer_do_evaluate ::
  "fork_times_t \<Rightarrow> nft_transfer_operation \<Rightarrow> fee_state \<Rightarrow> chain \<Rightarrow> (fee_state \<times> unit) res" where
  "nft_transfer_do_evaluate ft op f c =
     bindE (require (hf4 ft < head_block_time c) Assert_Exception) (\<lambda>_.
     bindE (t_get (nft_data c) (nt_nft_data_id op)) (\<lambda>d.
     bindE (require (nt_from op = nfd_owner d) Assert_Exception) (\<lambda>_.
     bindE (t_get (nfts c) (nfd_nft_id d)) (\<lambda>n.
     bindE (require (nft_transferable n \<or> nt_to op = GRAPHENE_NULL_ACCOUNT) Assert_Exception) (\<lambda>_.
     bindE (require (generic_find (accounts c) (nt_to op) \<noteq> None) Assert_Exception) (\<lambda>_.
     Inr (f, ())))))))"

definition nft_transfer_do_apply :: "nft_transfer_operation \<Rightarrow> fee_state \<Rightarrow> unit \<Rightarrow> chain \<Rightarrow> chain res" where
  "nft_transfer_do_apply op f u c =
     bindE (t_get (nft_data c) (nt_nft_data_id op)) (\<lambda>d.
     bindE (t_modify no_unique (nt_nft_data_id op) (\<lambda>d. Inr (d\<lparr>nfd_owner := nt_to op\<rparr>)) (nft_data c)) (\<lambda>ds.
     bindE (if nt_to op = GRAPHENE_NULL_ACCOUNT
            then t_modify nft_key (nfd_nft_id d)
                   (\<lambda>n. Inr (n\<lparr>nft_current_supply := u32 (int (nft_current_supply n) - 1)\<rparr>)) (nfts c)
            else Inr (nfts c)) (\<lambda>ns.
     add_detail \<lparr>m_from_account = nfd_owner d, m_to_account = nt_to op, m_operation_type = Nft_Detail,
         m_transaction_amount = mk_asset 0 0, m_transaction_fee = nt_fee op, m_str_description = ''transfer token'',
         m_memo = nt_memo op, m_timestamp = head_block_time c, m_nft_data_id = Some (nt_nft_data_id op)\<rparr>
       (c\<lparr>nfts := ns, nft_data := ds\<rparr>))))"

definition find_definition :: "string \<Rightarrow> non_fungible_token_data_type list \<Rightarrow> (nat \<times> non_fungible_token_data_type) option" where
  "find_definition name defs = find (\<lambda>p. nd_name (snd p) = Some name) (zip [0..<length defs] defs)"

definition check_modifier ::
  "account_id_type \<Rightarrow> non_fungible_token_object \<Rightarrow> non_fungible_token_data_object \<Rightarrow> non_fungible_token_data_type \<Rightarrow> unit res" where
  "check_modifier modifier n d dt =
     (if nd_modifiable dt = nft_issuer then require (modifier = no_issuer (nft_options n)) Assert_Exception
      else if nd_modifiable dt = nft_owner then require (modifier = nfd_owner d) Assert_Exception
      else if nd_modifiable dt = nft_both
      then require (modifier = nfd_owner d \<or> modifier = no_issuer (nft_options n)) Assert_Exception
      else Inl Assert_Exception)"

definition nft_update_data_do_evaluate ::
  "variant_ops \<Rightarrow> fork_times_t \<Rightarrow> nft_update_data_operation \<Rightarrow> fee_state \<Rightarrow> chain \<Rightarrow> (fee_state \<times> unit) res" where
  "nft_update_data_do_evaluate V ft op f c =
     bindE (require (hf4 ft < head_block_time c) Assert_Exception) (\<lambda>_.
     bindE (t_get (nft_data c) (nx_nft_data_id op)) (\<lambda>d.
     bindE (t_get (nfts c) (nfd_nft_id d)) (\<lambda>n.
     bindE (foldE (\<lambda>v u.
       bindE (lift_opt Assert_Exception (find_definition (fst v) (nft_definitions n))) (\<lambda>(idx, dt).
       bindE (check_modifier (nx_modifier op) n d dt) (\<lambda>_.
       nft_check_data V c dt (nfd_nft_id d) (snd v) idx))) (nx_data op) ()) (\<lambda>_.
     Inr (f, ())))))"

definition write_data ::
  "non_fungible_token_data_type list \<Rightarrow> string \<times> opaque \<Rightarrow> opaque list \<Rightarrow> opaque list res" where
  "write_data defs v xs =
     (case find_definition (fst v) defs of None \<Rightarrow> Inl Undefined_Behaviour
      | Some (idx, dt) \<Rightarrow> if idx < length xs then Inr (xs[idx := snd v]) else Inl Undefined_Behaviour)"

definition nft_update_data_do_apply :: "nft_update_data_operation \<Rightarrow> fee_state \<Rightarrow> unit \<Rightarrow> chain \<Rightarrow> chain res" where
  "nft_update_data_do_apply op f u c =
     bindE (t_modify no_unique (nx_nft_data_id op) (\<lambda>d.
              bindE (t_get (nfts c) (nfd_nft_id d)) (\<lambda>n.
              bindE (foldE (write_data (nft_definitions n)) (nx_data op) (nfd_data d)) (\<lambda>xs.
              Inr (d\<lparr>nfd_data := xs\<rparr>)))) (nft_data c)) (\<lambda>t.
     Inr (c\<lparr>nft_data := t\<rparr>))"

datatype nft_operation =
    Nft_Create_Definition nft_create_definition_operation
  | Nft_Update_Definition nft_update_definition_operation
  | Nft_Issue nft_issue_operation
  | Nft_Transfer nft_transfer_operation
  | Nft_Update_Data nft_update_data_operation

definition nft_operation_validate :: "nft_operation \<Rightarrow> unit res" where
  "nft_operation_validate op' =
     (case op' of Nft_Create_Definition op \<Rightarrow> nft_create_definition_validate op
      | Nft_Update_Definition op \<Rightarrow> nft_update_definition_validate op
      | Nft_Issue op \<Rightarrow> nft_issue_validate op
      | Nft_Transfer op \<Rightarrow> nft_transfer_validate op
      | Nft_Update_Data op \<Rightarrow> nft_update_data_validate op)"

definition apply_nft_operation ::
  "safe \<Rightarrow> trx_state \<Rightarrow> variant_ops \<Rightarrow> fork_times_t \<Rightarrow> int res \<Rightarrow> nft_operation \<Rightarrow> chain \<Rightarrow> chain res" where
  "apply_nft_operation S st V ft required_fee op' c =
     (case op' of
        Nft_Create_Definition op \<Rightarrow> start_evaluate S st required_fee (no_issuer (nc_options op)) (nc_fee op)
          (nft_create_definition_do_evaluate ft op) (nft_create_definition_do_apply op) c
      | Nft_Update_Definition op \<Rightarrow> start_evaluate S st required_fee (nu_current_issuer op) (nu_fee op)
          (nft_update_definition_do_evaluate ft op) (nft_update_definition_do_apply op) c
      | Nft_Issue op \<Rightarrow> start_evaluate S st required_fee (ni_issuer op) (ni_fee op)
          (nft_issue_do_evaluate V ft op) (nft_issue_do_apply op) c
      | Nft_Transfer op \<Rightarrow> start_evaluate S st required_fee (nt_from op) (nt_fee op)
          (nft_transfer_do_evaluate ft op) (nft_transfer_do_apply op) c
      | Nft_Update_Data op \<Rightarrow> start_evaluate S st required_fee (nx_modifier op) (nx_fee op)
          (nft_update_data_do_evaluate V ft op) (nft_update_data_do_apply op) c)"

section \<open>Contracts\<close>

text \<open>The operations write tokens, instances and details only.\<close>

definition nft_frame :: "chain \<Rightarrow> chain \<Rightarrow> bool" where
  "nft_frame c c' \<longleftrightarrow> (\<exists>ns ds dt. c' = c\<lparr>nfts := ns, nft_data := ds, details := dt\<rparr> \<and> t_ok ns \<and> t_ok ds \<and> t_ok dt)"

lemma nft_frame_kept:
  "chain_ok c \<Longrightarrow> nft_frame c c' \<Longrightarrow> chain_ok c' \<and> holdings c' a = holdings c a \<and> supply_of c' a = supply_of c a"
  by (auto simp: nft_frame_def frame)

lemma nft_frame_detail:
  assumes "chain_ok c" and "t_ok ns" "t_ok ds" and "add_detail d (c\<lparr>nfts := ns, nft_data := ds\<rparr>) = Inr c'"
  shows "nft_frame c c'" and "nfts c' = ns" and "nft_data c' = ds"
proof -
  from assms(4) obtain dt where dt: "t_create no_unique d (details c) = Inr dt" and c': "c' = c\<lparr>nfts := ns, nft_data := ds, details := dt\<rparr>"
    by (auto simp: add_detail_def)
  have "t_ok (details c)" using assms(1) by (simp add: frame)
  then have "t_ok dt" using t_create_law(1) [OF _ dt] by blast
  then show "nft_frame c c'" "nfts c' = ns" "nft_data c' = ds" using c' assms(2,3) by (auto simp: nft_frame_def)
qed

lemma nft_frame_tables:
  assumes "chain_ok c"
  shows "t_ok t1 \<Longrightarrow> nft_frame c (c\<lparr>nfts := t1\<rparr>)" and "t_ok t2 \<Longrightarrow> nft_frame c (c\<lparr>nft_data := t2\<rparr>)"
proof -
  show "nft_frame c (c\<lparr>nfts := t1\<rparr>)" if "t_ok t1"
    unfolding nft_frame_def by (intro exI [of _ t1] exI [of _ "nft_data c"] exI [of _ "details c"]) (use assms that in \<open>simp add: frame\<close>)
  show "nft_frame c (c\<lparr>nft_data := t2\<rparr>)" if "t_ok t2"
    unfolding nft_frame_def by (intro exI [of _ "nfts c"] exI [of _ t2] exI [of _ "details c"]) (use assms that in \<open>simp add: frame\<close>)
qed

lemma create_definition_law:
  assumes "chain_ok c" and "nft_create_definition_do_apply op f u c = Inr c'"
  shows "nft_frame c c'" and "nft_data c' = nft_data c"
    and "generic_find (nfts c') = (generic_find (nfts c))(g_next_id (nfts c) \<mapsto> \<lparr>nft_symbol = nc_symbol op, nft_options = nc_options op,
        nft_definitions = nc_definitions op, nft_transferable = nc_transferable op, nft_current_supply = 0\<rparr>)"
proof -
  have tok: "t_ok (nfts c)" using assms(1) by (simp add: frame)
  from assms(2) obtain x t where t: "t_create nft_key x (nfts c) = Inr t" and c': "c' = c\<lparr>nfts := t\<rparr>"
    and x: "x = \<lparr>nft_symbol = nc_symbol op, nft_options = nc_options op,
        nft_definitions = nc_definitions op, nft_transferable = nc_transferable op, nft_current_supply = 0\<rparr>"
    by (auto simp: nft_create_definition_do_apply_def)
  show "nft_frame c c'" using nft_frame_tables(1) [OF assms(1)] t_create_law(1) [OF tok t] by (simp add: c')
  show "nft_data c' = nft_data c" by (simp add: c')
  show "generic_find (nfts c') = (generic_find (nfts c))(g_next_id (nfts c) \<mapsto> \<lparr>nft_symbol = nc_symbol op, nft_options = nc_options op,
        nft_definitions = nc_definitions op, nft_transferable = nc_transferable op, nft_current_supply = 0\<rparr>)"
    using t_create_law(2) [OF tok t] by (simp add: c' x)
qed

lemma update_definition_law:
  assumes "chain_ok c" and "nft_update_definition_do_apply op f u c = Inr c'"
  obtains n where "generic_find (nfts c) (nu_nft_id op) = Some n" and "nft_frame c c'" and "nft_data c' = nft_data c"
    and "generic_find (nfts c') = (generic_find (nfts c))(nu_nft_id op \<mapsto> n\<lparr>nft_options := nu_options op\<rparr>)"
proof -
  have tok: "t_ok (nfts c)" using assms(1) by (simp add: frame)
  from assms(2) obtain t where t: "t_modify nft_key (nu_nft_id op) (\<lambda>n. Inr (n\<lparr>nft_options := nu_options op\<rparr>)) (nfts c) = Inr t"
    and c': "c' = c\<lparr>nfts := t\<rparr>" by (auto simp: nft_update_definition_do_apply_def)
  show thesis
    by (rule t_modify_law [OF tok t], rule that) (use nft_frame_tables(1) [OF assms(1)] in \<open>auto simp: c'\<close>)
qed

lemma issue_law:
  assumes "chain_ok c" and "nft_issue_do_apply op f u c = Inr c'"
  obtains n where "generic_find (nfts c) (ni_nft_id op) = Some n" and "nft_frame c c'"
    and "generic_find (nfts c') = (generic_find (nfts c))(ni_nft_id op \<mapsto> n\<lparr>nft_current_supply := u32 (int (nft_current_supply n) + 1)\<rparr>)"
    and "t_create no_unique \<lparr>nfd_nft_id = ni_nft_id op, nfd_owner = ni_to op, nfd_data = ni_data op\<rparr> (nft_data c) = Inr (nft_data c')"
proof -
  have tok: "t_ok (nfts c)" "t_ok (nft_data c)" using assms(1) by (simp_all add: frame)
  from assms(2) obtain ds n ns dt
    where ds: "t_create no_unique \<lparr>nfd_nft_id = ni_nft_id op, nfd_owner = ni_to op, nfd_data = ni_data op\<rparr> (nft_data c) = Inr ds"
    and n: "generic_find (nfts c) (ni_nft_id op) = Some n"
    and ns: "t_modify nft_key (ni_nft_id op) (\<lambda>n. Inr (n\<lparr>nft_current_supply := u32 (int (nft_current_supply n) + 1)\<rparr>)) (nfts c) = Inr ns"
    and d: "add_detail dt (c\<lparr>nfts := ns, nft_data := ds\<rparr>) = Inr c'"
    by (auto simp: nft_issue_do_apply_def)
  have n': "t_ok ns \<and> generic_find ns = (generic_find (nfts c))(ni_nft_id op \<mapsto> n\<lparr>nft_current_supply := u32 (int (nft_current_supply n) + 1)\<rparr>)"
    by (rule t_modify_law [OF tok(1) ns]) (use n in auto)
  note fr = nft_frame_detail [OF assms(1) conjunct1 [OF n'] t_create_law(1) [OF tok(2) ds] d]
  show thesis using that [OF n fr(1)] n' ds fr by simp
qed

lemma transfer_law:
  assumes "chain_ok c" and "nft_transfer_do_apply op f u c = Inr c'"
  obtains d where "generic_find (nft_data c) (nt_nft_data_id op) = Some d" and "nft_frame c c'"
    and "t_modify no_unique (nt_nft_data_id op) (\<lambda>d. Inr (d\<lparr>nfd_owner := nt_to op\<rparr>)) (nft_data c) = Inr (nft_data c')"
    and "nt_to op \<noteq> GRAPHENE_NULL_ACCOUNT \<and> nfts c' = nfts c \<or> nt_to op = GRAPHENE_NULL_ACCOUNT \<and>
      (\<exists>n. generic_find (nfts c) (nfd_nft_id d) = Some n \<and>
        generic_find (nfts c') = (generic_find (nfts c))(nfd_nft_id d \<mapsto> n\<lparr>nft_current_supply := u32 (int (nft_current_supply n) - 1)\<rparr>))"
proof -
  have tok: "t_ok (nfts c)" "t_ok (nft_data c)" using assms(1) by (simp_all add: frame)
  from assms(2) obtain d ds ns dt where d: "generic_find (nft_data c) (nt_nft_data_id op) = Some d"
    and ds: "t_modify no_unique (nt_nft_data_id op) (\<lambda>d. Inr (d\<lparr>nfd_owner := nt_to op\<rparr>)) (nft_data c) = Inr ds"
    and ns: "(if nt_to op = GRAPHENE_NULL_ACCOUNT then t_modify nft_key (nfd_nft_id d)
                   (\<lambda>n. Inr (n\<lparr>nft_current_supply := u32 (int (nft_current_supply n) - 1)\<rparr>)) (nfts c) else Inr (nfts c)) = Inr ns"
    and a: "add_detail dt (c\<lparr>nfts := ns, nft_data := ds\<rparr>) = Inr c'"
    by (auto simp: nft_transfer_do_apply_def)
  have n': "t_ok ns \<and> (nt_to op \<noteq> GRAPHENE_NULL_ACCOUNT \<and> ns = nfts c \<or> nt_to op = GRAPHENE_NULL_ACCOUNT \<and>
      (\<exists>n. generic_find (nfts c) (nfd_nft_id d) = Some n \<and>
        generic_find ns = (generic_find (nfts c))(nfd_nft_id d \<mapsto> n\<lparr>nft_current_supply := u32 (int (nft_current_supply n) - 1)\<rparr>)))"
  proof (cases "nt_to op = GRAPHENE_NULL_ACCOUNT")
    case True
    then have t: "t_modify nft_key (nfd_nft_id d) (\<lambda>n. Inr (n\<lparr>nft_current_supply := u32 (int (nft_current_supply n) - 1)\<rparr>)) (nfts c) = Inr ns"
      using ns by simp
    show ?thesis by (rule t_modify_law [OF tok(1) t]) (use True in auto)
  next
    case False
    then show ?thesis using ns tok(1) by simp
  qed
  have "t_ok ds" by (rule t_modify_law [OF tok(2) ds])
  note fr = nft_frame_detail [OF assms(1) conjunct1 [OF n'] this a]
  show thesis using that [OF d fr(1)] n' ds fr by simp
qed

lemma update_data_law:
  assumes "chain_ok c" and "nft_update_data_do_apply op f u c = Inr c'"
  obtains d n xs where "generic_find (nft_data c) (nx_nft_data_id op) = Some d" and "generic_find (nfts c) (nfd_nft_id d) = Some n"
    and "foldE (write_data (nft_definitions n)) (nx_data op) (nfd_data d) = Inr xs" and "nft_frame c c'" and "nfts c' = nfts c"
    and "generic_find (nft_data c') = (generic_find (nft_data c))(nx_nft_data_id op \<mapsto> d\<lparr>nfd_data := xs\<rparr>)"
    and "\<And>g. g (d\<lparr>nfd_data := xs\<rparr>) = g d \<Longrightarrow> t_sum g (nft_data c') = t_sum g (nft_data c)"
proof -
  have tok: "t_ok (nft_data c)" using assms(1) by (simp add: frame)
  from assms(2) obtain t where t: "t_modify no_unique (nx_nft_data_id op) (\<lambda>d.
              bindE (t_get (nfts c) (nfd_nft_id d)) (\<lambda>n.
              bindE (foldE (write_data (nft_definitions n)) (nx_data op) (nfd_data d)) (\<lambda>xs.
              Inr (d\<lparr>nfd_data := xs\<rparr>)))) (nft_data c) = Inr t" and c': "c' = c\<lparr>nft_data := t\<rparr>"
    by (auto simp: nft_update_data_do_apply_def)
  show thesis
  proof (rule t_modify_law [OF tok t])
    fix d y
    assume d: "generic_find (nft_data c) (nx_nft_data_id op) = Some d"
      and "bindE (t_get (nfts c) (nfd_nft_id d)) (\<lambda>n. bindE (foldE (write_data (nft_definitions n)) (nx_data op) (nfd_data d)) (\<lambda>xs.
              Inr (d\<lparr>nfd_data := xs\<rparr>))) = Inr y"
      and tk: "t_ok t" and g: "generic_find t = (generic_find (nft_data c))(nx_nft_data_id op \<mapsto> y)"
    then obtain n xs where n: "generic_find (nfts c) (nfd_nft_id d) = Some n"
      and xs: "foldE (write_data (nft_definitions n)) (nx_data op) (nfd_data d) = Inr xs" and y: "y = d\<lparr>nfd_data := xs\<rparr>" by auto
    have "t_sum h t = t_sum h (nft_data c)" if "h y = h d" for h :: "non_fungible_token_data_object \<Rightarrow> int"
      by (rule t_sum_modify [OF tok t, of h]) (use that d n xs y in auto)
    then show thesis using that [OF d n xs] nft_frame_tables(2) [OF assms(1) tk] g y by (simp add: c')
  qed
qed

lemma nft_apply_frame:
  assumes "chain_ok c"
  shows "nft_create_definition_do_apply o1 f u c = Inr c' \<Longrightarrow> nft_frame c c'"
    and "nft_update_definition_do_apply o2 f u c = Inr c' \<Longrightarrow> nft_frame c c'"
    and "nft_issue_do_apply o3 f u c = Inr c' \<Longrightarrow> nft_frame c c'"
    and "nft_transfer_do_apply o4 f u c = Inr c' \<Longrightarrow> nft_frame c c'"
    and "nft_update_data_do_apply o5 f u c = Inr c' \<Longrightarrow> nft_frame c c'"
  by (erule create_definition_law(1) [OF assms], erule update_definition_law [OF assms], assumption,
      erule issue_law [OF assms], assumption, erule transfer_law [OF assms], assumption, erule update_data_law [OF assms], assumption)

lemma nft_contracts:
  assumes S: "safe_exact S"
  shows "evaluator_contract S (nft_create_definition_do_evaluate ft o1) (nft_create_definition_do_apply o1) no_pre nothing nothing"
    and "evaluator_contract S (nft_update_definition_do_evaluate ft o2) (nft_update_definition_do_apply o2) no_pre nothing nothing"
    and "evaluator_contract S (nft_issue_do_evaluate V ft o3) (nft_issue_do_apply o3) no_pre nothing nothing"
    and "evaluator_contract S (nft_transfer_do_evaluate ft o4) (nft_transfer_do_apply o4) no_pre nothing nothing"
    and "evaluator_contract S (nft_update_data_do_evaluate V ft o5) (nft_update_data_do_apply o5) no_pre nothing nothing"
  by (rule keeps_contract [OF S]; auto simp: nft_create_definition_do_evaluate_def nft_update_definition_do_evaluate_def
      nft_issue_do_evaluate_def nft_transfer_do_evaluate_def nft_update_data_do_evaluate_def
      dest: nft_frame_kept [OF _ nft_apply_frame(1)] nft_frame_kept [OF _ nft_apply_frame(2)] nft_frame_kept [OF _ nft_apply_frame(3)]
        nft_frame_kept [OF _ nft_apply_frame(4)] nft_frame_kept [OF _ nft_apply_frame(5)])+

section \<open>Supplies\<close>

text \<open>The instances of a token that are not burned; a burned instance is owned by the null account.\<close>

definition live_instance :: "nat \<Rightarrow> non_fungible_token_data_object \<Rightarrow> int" where
  "live_instance k d = (if nfd_nft_id d = k \<and> nfd_owner d \<noteq> GRAPHENE_NULL_ACCOUNT then 1 else 0)"

definition nft_token_ok :: "chain \<Rightarrow> nat \<Rightarrow> non_fungible_token_object \<Rightarrow> bool" where
  "nft_token_ok c k n \<longleftrightarrow>
     t_sum (live_instance k) (nft_data c) \<le> int (nft_current_supply n) \<and> nft_current_supply n \<le> no_max_supply (nft_options n)"

definition nft_data_ok :: "chain \<Rightarrow> bool" where
  "nft_data_ok c \<longleftrightarrow> (\<forall>j d. generic_find (nft_data c) j = Some d \<longrightarrow>
     map_option (\<lambda>n. length (nft_definitions n)) (generic_find (nfts c) (nfd_nft_id d)) = Some (length (nfd_data d)))"

definition nft_ok :: "chain \<Rightarrow> bool" where
  "nft_ok c \<longleftrightarrow> nft_data_ok c \<and> (\<forall>k n. generic_find (nfts c) k = Some n \<longrightarrow> nft_token_ok c k n)"

lemma nft_data_okD:
  assumes "nft_data_ok c" and "generic_find (nft_data c) j = Some d"
  obtains n where "generic_find (nfts c) (nfd_nft_id d) = Some n" and "length (nfd_data d) = length (nft_definitions n)"
  using assms by (fastforce simp: nft_data_ok_def)

lemma nft_okD: "nft_ok c \<Longrightarrow> nft_data_ok c" "nft_ok c \<Longrightarrow> generic_find (nfts c) k = Some n \<Longrightarrow> nft_token_ok c k n"
  by (simp_all add: nft_ok_def)

text \<open>A change of tokens that keeps their definitions, and of instances that keeps tokens and lengths, keeps the data in order.\<close>

lemma nft_data_ok_step:
  assumes "nft_data_ok c"
    and "\<And>k. generic_find (nfts c) k \<noteq> None \<Longrightarrow>
      map_option nft_definitions (generic_find (nfts c') k) = map_option nft_definitions (generic_find (nfts c) k)"
    and "\<And>j d. generic_find (nft_data c') j = Some d \<Longrightarrow> generic_find (nft_data c) j = Some d \<or>
      (\<exists>n. generic_find (nfts c) (nfd_nft_id d) = Some n \<and> length (nfd_data d) = length (nft_definitions n))"
  shows "nft_data_ok c'"
  unfolding nft_data_ok_def
proof (intro allI impI)
  fix j d assume "generic_find (nft_data c') j = Some d"
  then obtain n where n: "generic_find (nfts c) (nfd_nft_id d) = Some n" "length (nfd_data d) = length (nft_definitions n)"
    using assms(1,3) by (metis nft_data_okD)
  then obtain m where "generic_find (nfts c') (nfd_nft_id d) = Some m" "nft_definitions m = nft_definitions n"
    using assms(2) [of "nfd_nft_id d"] by auto
  then show "map_option (\<lambda>n. length (nft_definitions n)) (generic_find (nfts c') (nfd_nft_id d)) = Some (length (nfd_data d))"
    using n by simp
qed

lemma nft_ok_cong [simp]: "nft_ok (c\<lparr>balances := b\<rparr>) = nft_ok c" "nft_ok (c\<lparr>asset_dyn := t\<rparr>) = nft_ok c"
  by (simp_all add: nft_ok_def nft_data_ok_def nft_token_ok_def)

lemma t_sum_zero:
  assumes "t_ok t" and "\<And>j d. generic_find t j = Some d \<Longrightarrow> g d = 0"
  shows "t_sum g t = 0"
  using t_sum_nonneg [of t g] t_sum_nonneg [of t "\<lambda>d. - g d"] assms
  by (simp add: t_sum_def uminus_sum_list_map [unfolded comp_def, symmetric])

lemma live_nonneg: "t_ok t \<Longrightarrow> 0 \<le> t_sum (live_instance k) t"
  by (rule t_sum_nonneg) (auto simp: live_instance_def)

lemma live_pos: "t_ok t \<Longrightarrow> generic_find t j = Some d \<Longrightarrow> live_instance k d \<le> t_sum (live_instance k) t"
  using t_sum_remove [of t j d "live_instance k"] live_nonneg [of "t_remove j t" k] by (simp add: t_remove_law)

lemma no_live: "t_ok (nft_data c) \<Longrightarrow> nft_data_ok c \<Longrightarrow> generic_find (nfts c) k = None \<Longrightarrow> t_sum (live_instance k) (nft_data c) = 0"
  by (rule t_sum_zero) (auto simp: live_instance_def elim: nft_data_okD)

lemma create_definition_ok:
  assumes ok: "chain_ok c" and inv: "nft_ok c" and ap: "nft_create_definition_do_apply op f u c = Inr c'"
  shows "nft_ok c'"
proof -
  note law = create_definition_law [OF ok ap]
  have tok: "t_ok (nfts c)" "t_ok (nft_data c)" using ok by (simp_all add: frame)
  have fresh: "generic_find (nfts c) (g_next_id (nfts c)) = None" using generic_fresh [OF tok(1)] by simp
  have "nft_data_ok c'" by (rule nft_data_ok_step [OF nft_okD(1) [OF inv]]) (auto simp: law(2,3) fresh)
  then show ?thesis
    using inv no_live [OF tok(2) _ fresh] by (auto simp: nft_ok_def nft_token_ok_def law(2,3))
qed

lemma update_definition_ok:
  assumes ok: "chain_ok c" and inv: "nft_ok c" and ev: "nft_update_definition_do_evaluate ft op f d = Inr (f', x)" "nfts d = nfts c"
    and ap: "nft_update_definition_do_apply op f u c = Inr c'"
  shows "nft_ok c'"
proof (rule update_definition_law [OF ok ap])
  fix n
  assume n: "generic_find (nfts c) (nu_nft_id op) = Some n" and ds: "nft_data c' = nft_data c"
    and ns: "generic_find (nfts c') = (generic_find (nfts c))(nu_nft_id op \<mapsto> n\<lparr>nft_options := nu_options op\<rparr>)"
  have "nft_current_supply n \<le> no_max_supply (nu_options op)" using ev n by (auto simp: nft_update_definition_do_evaluate_def)
  moreover have "nft_data_ok c'" by (rule nft_data_ok_step [OF nft_okD(1) [OF inv]]) (auto simp: ds ns n)
  ultimately show ?thesis using inv n by (auto simp: nft_ok_def nft_token_ok_def ds ns)
qed

lemma issue_ok:
  assumes ok: "chain_ok c" and inv: "nft_ok c" and ev: "nft_issue_do_evaluate V ft op f d = Inr (f', x)" "nfts d = nfts c"
    and room: "\<And>k n. generic_find (nfts c) k = Some n \<Longrightarrow> nft_current_supply n < 2 ^ 32 - 1"
    and ap: "nft_issue_do_apply op f u c = Inr c'"
  shows "nft_ok c'"
proof (rule issue_law [OF ok ap])
  fix n
  assume n: "generic_find (nfts c) (ni_nft_id op) = Some n"
    and ns: "generic_find (nfts c') = (generic_find (nfts c))(ni_nft_id op \<mapsto> n\<lparr>nft_current_supply := u32 (int (nft_current_supply n) + 1)\<rparr>)"
    and t: "t_create no_unique \<lparr>nfd_nft_id = ni_nft_id op, nfd_owner = ni_to op, nfd_data = ni_data op\<rparr> (nft_data c) = Inr (nft_data c')"
  have tok: "t_ok (nft_data c)" using ok by (simp add: frame)
  have u: "u32 (int (nft_current_supply n) + 1) = nft_current_supply n + 1" using room [OF n] by (simp add: u32_def)
  have e: "nft_current_supply n + 1 \<le> no_max_supply (nft_options n)" "length (nft_definitions n) = length (ni_data op)"
    using ev n by (auto simp: nft_issue_do_evaluate_def u)
  have "nft_data_ok c'"
    by (rule nft_data_ok_step [OF nft_okD(1) [OF inv]]) (auto simp: t_create_law(2) [OF tok t] ns n e(2) split: if_splits)
  moreover have "nft_token_ok c' k m" if m: "generic_find (nfts c') k = Some m" for k m
  proof (cases "k = ni_nft_id op")
    case True
    moreover have "nft_token_ok c k n" using inv n True by (simp add: nft_ok_def)
    ultimately show ?thesis using m e
      by (auto simp: nft_token_ok_def ns t_sum_create [OF tok t] live_instance_def u)
  next
    case False
    then have "nft_token_ok c k m" using inv m by (simp add: nft_ok_def ns)
    then show ?thesis using False by (simp add: nft_token_ok_def t_sum_create [OF tok t] live_instance_def)
  qed
  ultimately show ?thesis by (simp add: nft_ok_def)
qed

lemma u32_pred: "1 \<le> int n \<Longrightarrow> n < 2 ^ 32 - 1 \<Longrightarrow> u32 (int n - 1) = n - 1"
  by (simp add: u32_def mod_pos_pos_trivial nat_diff_distrib)

lemma transfer_ok:
  assumes ok: "chain_ok c" and inv: "nft_ok c"
    and ev: "nft_transfer_do_evaluate ft op f d = Inr (f', x)" "nfts d = nfts c" "nft_data d = nft_data c"
    and nul: "nt_from op \<noteq> GRAPHENE_NULL_ACCOUNT" and room: "\<And>k n. generic_find (nfts c) k = Some n \<Longrightarrow> nft_current_supply n < 2 ^ 32 - 1"
    and ap: "nft_transfer_do_apply op f u c = Inr c'"
  shows "nft_ok c'"
proof (rule transfer_law [OF ok ap])
  fix r
  assume r: "generic_find (nft_data c) (nt_nft_data_id op) = Some r"
    and t: "t_modify no_unique (nt_nft_data_id op) (\<lambda>d. Inr (d\<lparr>nfd_owner := nt_to op\<rparr>)) (nft_data c) = Inr (nft_data c')"
    and ns: "nt_to op \<noteq> GRAPHENE_NULL_ACCOUNT \<and> nfts c' = nfts c \<or> nt_to op = GRAPHENE_NULL_ACCOUNT \<and>
      (\<exists>n. generic_find (nfts c) (nfd_nft_id r) = Some n \<and>
        generic_find (nfts c') = (generic_find (nfts c))(nfd_nft_id r \<mapsto> n\<lparr>nft_current_supply := u32 (int (nft_current_supply n) - 1)\<rparr>))"
  have tok: "t_ok (nft_data c)" using ok by (simp add: frame)
  have ow: "nfd_owner r = nt_from op" using ev r by (auto simp: nft_transfer_do_evaluate_def)
  have ds: "generic_find (nft_data c') = (generic_find (nft_data c))(nt_nft_data_id op \<mapsto> r\<lparr>nfd_owner := nt_to op\<rparr>)"
    by (rule t_modify_law [OF tok t]) (use r in auto)
  have live: "t_sum (live_instance k) (nft_data c') = t_sum (live_instance k) (nft_data c) -
      (if k = nfd_nft_id r \<and> nt_to op = GRAPHENE_NULL_ACCOUNT then 1 else 0)" for k
  proof (rule t_sum_modify [OF tok t, of "live_instance k"])
    fix y z assume "generic_find (nft_data c) (nt_nft_data_id op) = Some y" "Inr (y\<lparr>nfd_owner := nt_to op\<rparr>) = (Inr z :: _ res)"
      "t_sum (live_instance k) (nft_data c') = t_sum (live_instance k) (nft_data c) + live_instance k z - live_instance k y"
    moreover from this have "y = r" "z = r\<lparr>nfd_owner := nt_to op\<rparr>" using r by simp_all
    ultimately show ?thesis using ow nul by (simp add: live_instance_def)
  qed
  obtain n where n: "generic_find (nfts c) (nfd_nft_id r) = Some n" "length (nfd_data r) = length (nft_definitions n)"
    by (rule nft_data_okD [OF nft_okD(1) [OF inv] r])
  have "1 \<le> int (nft_current_supply n)"
    using live_pos [OF tok r, of "nfd_nft_id r"] nft_okD(2) [OF inv n(1)] ow nul by (simp add: nft_token_ok_def live_instance_def)
  then have u: "u32 (int (nft_current_supply n) - 1) = nft_current_supply n - 1" "nft_current_supply n \<noteq> 0"
    using u32_pred room [OF n(1)] by simp_all
  have "nft_data_ok c'"
  proof (rule nft_data_ok_step [OF nft_okD(1) [OF inv]])
    show "map_option nft_definitions (generic_find (nfts c') k) = map_option nft_definitions (generic_find (nfts c) k)" for k
      using ns by auto
  qed (use n in \<open>auto simp: ds split: if_splits\<close>)
  moreover have "nft_token_ok c' k m" if m: "generic_find (nfts c') k = Some m" for k m
  proof (cases "nt_to op = GRAPHENE_NULL_ACCOUNT \<and> k = nfd_nft_id r")
    case True
    moreover have "nft_token_ok c k n" using inv n True by (simp add: nft_ok_def)
    moreover have "m = n\<lparr>nft_current_supply := nft_current_supply n - 1\<rparr>" using m ns n True u(1) by auto
    ultimately show ?thesis using u(2) by (auto simp: nft_token_ok_def live)
  next
    case False
    then have "generic_find (nfts c) k = Some m" using m ns by auto
    then show ?thesis using nft_okD(2) [OF inv] False by (auto simp: nft_token_ok_def live)
  qed
  ultimately show ?thesis by (simp add: nft_ok_def)
qed

text \<open>What an update of the values writes: at each position the old value, or one the operation has for that definition.\<close>

lemma write_data_fold:
  assumes "foldE (write_data defs) vs xs = Inr ys"
  shows "length ys = length xs \<and> (\<forall>i < length xs. ys ! i = xs ! i \<or>
    (\<exists>v \<in> set vs. \<exists>dt. find_definition (fst v) defs = Some (i, dt) \<and> ys ! i = snd v))"
  using assms
proof (induction vs arbitrary: xs)
  case (Cons v vs)
  then obtain i dt where f: "find_definition (fst v) defs = Some (i, dt)" and i: "i < length xs"
    and r: "foldE (write_data defs) vs (xs[i := snd v]) = Inr ys"
    by (auto simp: write_data_def [of defs v] split: option.splits if_splits)
  show ?case using Cons.IH [OF r] f i by (auto simp: nth_list_update split: if_splits)
qed simp

lemma update_data_ok:
  assumes ok: "chain_ok c" and inv: "nft_ok c" and ap: "nft_update_data_do_apply op f u c = Inr c'"
  shows "nft_ok c'"
proof (rule update_data_law [OF ok ap])
  fix r n xs
  assume r: "generic_find (nft_data c) (nx_nft_data_id op) = Some r" and n: "generic_find (nfts c) (nfd_nft_id r) = Some n"
    and xs: "foldE (write_data (nft_definitions n)) (nx_data op) (nfd_data r) = Inr xs" and ns: "nfts c' = nfts c"
    and ds: "generic_find (nft_data c') = (generic_find (nft_data c))(nx_nft_data_id op \<mapsto> r\<lparr>nfd_data := xs\<rparr>)"
    and sm: "\<And>g. g (r\<lparr>nfd_data := xs\<rparr>) = g r \<Longrightarrow> t_sum g (nft_data c') = t_sum g (nft_data c)"
  have "length (nfd_data r) = length (nft_definitions n)"
    using nft_okD(1) [OF inv] r n by (auto elim!: nft_data_okD)
  then have "nft_data_ok c'"
    using n write_data_fold [OF xs] by (intro nft_data_ok_step [OF nft_okD(1) [OF inv]]) (auto simp: ds ns split: if_splits)
  moreover have "t_sum (live_instance k) (nft_data c') = t_sum (live_instance k) (nft_data c)" for k
    by (rule sm) (simp add: live_instance_def)
  ultimately show ?thesis using inv by (simp add: nft_ok_def nft_token_ok_def ns)
qed

definition nft_operation_fee_payer :: "nft_operation \<Rightarrow> account_id_type" where
  "nft_operation_fee_payer op' =
     (case op' of Nft_Create_Definition op \<Rightarrow> no_issuer (nc_options op) | Nft_Update_Definition op \<Rightarrow> nu_current_issuer op
      | Nft_Issue op \<Rightarrow> ni_issuer op | Nft_Transfer op \<Rightarrow> nt_from op | Nft_Update_Data op \<Rightarrow> nx_modifier op)"

text \<open>The inside of an operation on tokens: what its evaluator accepts, and what it then does.\<close>

definition nft_inside :: "variant_ops \<Rightarrow> fork_times_t \<Rightarrow> nft_operation \<Rightarrow> fee_state \<Rightarrow> chain \<Rightarrow> chain \<Rightarrow> chain res \<times> bool" where
  "nft_inside V ft op' f c d =
     (case op' of
        Nft_Create_Definition op \<Rightarrow> (nft_create_definition_do_apply op f () d, nft_create_definition_do_evaluate ft op f c = Inr (f, ()))
      | Nft_Update_Definition op \<Rightarrow> (nft_update_definition_do_apply op f () d, nft_update_definition_do_evaluate ft op f c = Inr (f, ()))
      | Nft_Issue op \<Rightarrow> (nft_issue_do_apply op f () d, nft_issue_do_evaluate V ft op f c = Inr (f, ()))
      | Nft_Transfer op \<Rightarrow> (nft_transfer_do_apply op f () d, nft_transfer_do_evaluate ft op f c = Inr (f, ()))
      | Nft_Update_Data op \<Rightarrow> (nft_update_data_do_apply op f () d, nft_update_data_do_evaluate V ft op f c = Inr (f, ())))"

lemma nft_operation_inner:
  assumes S: "safe_exact S" and ok: "chain_ok c" "\<not> skip_fee st" and run: "apply_nft_operation S st V ft r op' c = Inr c'"
  obtains f t d' b where "chain_ok (c\<lparr>asset_dyn := t\<rparr>)" and "nft_inside V ft op' f c (c\<lparr>asset_dyn := t\<rparr>) = (Inr d', True)"
    and "c' = d'\<lparr>balances := b\<rparr>"
proof (cases op')
  case (Nft_Create_Definition op)
  with run show thesis
    by (auto simp: apply_nft_operation_def nft_inside_def elim!: run_inner [OF nft_contracts(1) [OF S] ok] intro!: that)
next
  case (Nft_Update_Definition op)
  with run show thesis
    by (auto simp: apply_nft_operation_def nft_inside_def elim!: run_inner [OF nft_contracts(2) [OF S] ok] intro!: that)
next
  case (Nft_Issue op)
  with run show thesis
    by (auto simp: apply_nft_operation_def nft_inside_def elim!: run_inner [OF nft_contracts(3) [OF S] ok] intro!: that)
next
  case (Nft_Transfer op)
  with run show thesis
    by (auto simp: apply_nft_operation_def nft_inside_def elim!: run_inner [OF nft_contracts(4) [OF S] ok] intro!: that)
next
  case (Nft_Update_Data op)
  with run show thesis
    by (auto simp: apply_nft_operation_def nft_inside_def elim!: run_inner [OF nft_contracts(5) [OF S] ok] intro!: that)
qed

text \<open>
  C26. The supply of every token bounds its instances: as long as no token has all the $2^{32}-1$ units
  its counter can count, and the null account does not act, every operation on tokens leaves the supply
  of each token at most its maximum and at least the number of its instances that are not burned, and
  every instance belongs to a token and has one value for each of its definitions.
\<close>

theorem nft_supply_sound:
  assumes "safe_exact S" and "chain_ok c" "\<not> skip_fee st" and "nft_ok c"
    and "\<forall>k n. generic_find (nfts c) k = Some n \<longrightarrow> nft_current_supply n < 2 ^ 32 - 1"
    and "nft_operation_fee_payer op' \<noteq> GRAPHENE_NULL_ACCOUNT"
    and "apply_nft_operation S st V ft r op' c = Inr c'"
  shows "nft_ok c'"
proof (rule nft_operation_inner [OF assms(1-3,7)])
  fix f t d' b
  let ?d = "c\<lparr>asset_dyn := t\<rparr>"
  assume ok: "chain_ok ?d" and step: "nft_inside V ft op' f c ?d = (Inr d', True)" and c': "c' = d'\<lparr>balances := b\<rparr>"
  have inv: "nft_ok ?d" and room: "\<And>k n. generic_find (nfts ?d) k = Some n \<Longrightarrow> nft_current_supply n < 2 ^ 32 - 1"
    using assms(4,5) by simp_all
  have "nft_ok d'"
    using step assms(6)
    by (cases op')
      (auto simp: nft_inside_def nft_operation_fee_payer_def intro: create_definition_ok [OF ok inv] update_definition_ok [OF ok inv]
        issue_ok [OF ok inv _ _ room] transfer_ok [OF ok inv _ _ _ _ room] update_data_ok [OF ok inv])
  then show ?thesis by (simp add: c')
qed

section \<open>Unique values\<close>

text \<open>When two values of a definition count as the same.\<close>

definition same_value :: "variant_ops \<Rightarrow> non_fungible_token_data_type \<Rightarrow> opaque \<Rightarrow> opaque \<Rightarrow> bool" where
  "same_value V dt x y \<longleftrightarrow>
     (if nd_type dt = nft_string then v_as_string V x = v_as_string V y
      else if nd_type dt = nft_integer then
        v_is_int64 V x = v_is_int64 V y \<and> (if v_is_int64 V x then v_as_int64 V x = v_as_int64 V y else v_as_uint64 V x = v_as_uint64 V y)
      else nd_type dt = nft_boolean \<and> v_as_bool V x = v_as_bool V y)"

definition nft_unique :: "variant_ops \<Rightarrow> chain \<Rightarrow> bool" where
  "nft_unique V c \<longleftrightarrow> (\<forall>i j d e n. generic_find (nft_data c) i = Some d \<and> generic_find (nft_data c) j = Some e \<and> i \<noteq> j \<and>
     nfd_nft_id d = nfd_nft_id e \<and> generic_find (nfts c) (nfd_nft_id d) = Some n \<longrightarrow>
     (\<forall>x < length (nft_definitions n). nd_unique (nft_definitions n ! x) \<longrightarrow>
        \<not> same_value V (nft_definitions n ! x) (nfd_data d ! x) (nfd_data e ! x)))"

lemma same_value_sym: "same_value V dt x y = same_value V dt y x"
  by (auto simp: same_value_def)

lemma any_data_False: "any_data as v idx ds = Inr False \<Longrightarrow> d \<in> set ds \<Longrightarrow> as (nfd_data d ! idx) \<noteq> Inr v"
  by (induction ds) (auto split: if_splits)

lemma find_in_values: "generic_find t j = Some d \<Longrightarrow> d \<in> set (t_values t)"
  by (force simp: t_values_def generic_find_def dest: map_of_SomeD)

lemma find_data_False:
  "nft_find_data as c k v idx = Inr False \<Longrightarrow> generic_find (nft_data c) j = Some d \<Longrightarrow> nfd_nft_id d = k \<Longrightarrow>
   as (nfd_data d ! idx) \<noteq> as v"
  by (auto simp: nft_find_data_def nft_instances_def find_in_values dest!: any_data_False)

lemma check_data_fresh:
  assumes "nft_check_data V c dt k v idx = Inr ()" and "nd_unique dt"
    and d: "generic_find (nft_data c) j = Some d" "nfd_nft_id d = k"
  shows "\<not> same_value V dt v (nfd_data d ! idx)"
  using assms(1,2)
  by (auto simp: nft_check_data_def check_unique_def same_value_def dest!: find_data_False [OF _ d] split: if_splits)

lemma foldE_unit: "foldE (\<lambda>x u. h x) xs () = Inr () \<Longrightarrow> x \<in> set xs \<Longrightarrow> h x = Inr ()"
  by (induction xs) auto

lemma find_definition_Some:
  "find_definition name defs = Some (i, dt) \<Longrightarrow> i < length defs \<and> dt = defs ! i"
  by (auto simp: find_definition_def find_Some_iff set_zip)

definition keeps_definitions :: "chain \<Rightarrow> chain \<Rightarrow> bool" where
  "keeps_definitions c c' \<longleftrightarrow> (\<forall>k n. generic_find (nfts c) k = Some n \<longrightarrow>
     (\<exists>m. generic_find (nfts c') k = Some m \<and> nft_definitions m = nft_definitions n))"

lemma keeps_definitionsI:
  "nfts c' = nfts c \<Longrightarrow> keeps_definitions c c'"
  "generic_find (nfts c') = (generic_find (nfts c))(k \<mapsto> m) \<Longrightarrow> generic_find (nfts c) k = None \<Longrightarrow> keeps_definitions c c'"
  "generic_find (nfts c') = (generic_find (nfts c))(k \<mapsto> m) \<Longrightarrow> generic_find (nfts c) k = Some n \<Longrightarrow> nft_definitions m = nft_definitions n \<Longrightarrow>
   keeps_definitions c c'"
  by (auto simp: keeps_definitions_def)

text \<open>Values stay unique when at most one row changes, and its new values differ from those of the other instances.\<close>

lemma nft_unique_step:
  assumes inv: "nft_data_ok c" "nft_unique V c" and kd: "keeps_definitions c c'" and n: "generic_find (nfts c) (nfd_nft_id x) = Some n"
    and ds: "generic_find (nft_data c') = (generic_find (nft_data c))(j \<mapsto> x)"
    and new: "\<And>i e y. generic_find (nft_data c) i = Some e \<Longrightarrow> i \<noteq> j \<Longrightarrow> nfd_nft_id e = nfd_nft_id x \<Longrightarrow> y < length (nft_definitions n) \<Longrightarrow>
      nd_unique (nft_definitions n ! y) \<Longrightarrow> \<not> same_value V (nft_definitions n ! y) (nfd_data x ! y) (nfd_data e ! y)"
  shows "nft_unique V c'"
  unfolding nft_unique_def
proof (intro allI impI, elim conjE)
  fix i k d e m y
  assume d: "generic_find (nft_data c') i = Some d" and e: "generic_find (nft_data c') k = Some e" and ik: "i \<noteq> k"
    and same: "nfd_nft_id d = nfd_nft_id e" and m: "generic_find (nfts c') (nfd_nft_id d) = Some m"
    and y: "y < length (nft_definitions m)" and u: "nd_unique (nft_definitions m ! y)"
  have "generic_find (nfts c) (nfd_nft_id d) \<noteq> None"
    using d n inv(1) by (auto simp: ds split: if_splits elim: nft_data_okD)
  then obtain n' where n': "generic_find (nfts c) (nfd_nft_id d) = Some n'" and dm: "nft_definitions m = nft_definitions n'"
    using kd m by (fastforce simp: keeps_definitions_def)
  consider "i = j" "k \<noteq> j" | "k = j" "i \<noteq> j" | "i \<noteq> j" "k \<noteq> j" using ik by blast
  then show "\<not> same_value V (nft_definitions m ! y) (nfd_data d ! y) (nfd_data e ! y)"
  proof cases
    case 1
    then show ?thesis using d e same n n' y u new [of k e y] by (simp add: ds dm)
  next
    case 2
    then show ?thesis using d e same n n' y u new [of i d y] by (simp add: ds dm same_value_sym)
  next
    case 3
    then show ?thesis using inv(2) d e same n' y u ik unfolding nft_unique_def dm ds by (metis fun_upd_other)
  qed
qed

lemma nft_unique_tokens:
  assumes "nft_data_ok c" "nft_unique V c" and "keeps_definitions c c'" and "nft_data c' = nft_data c"
  shows "nft_unique V c'"
  unfolding nft_unique_def
proof (intro allI impI, elim conjE)
  fix i k d e m y
  assume *: "generic_find (nft_data c') i = Some d" "generic_find (nft_data c') k = Some e" "i \<noteq> k" "nfd_nft_id d = nfd_nft_id e"
    and m: "generic_find (nfts c') (nfd_nft_id d) = Some m" and y: "y < length (nft_definitions m)" "nd_unique (nft_definitions m ! y)"
  obtain n where n: "generic_find (nfts c) (nfd_nft_id d) = Some n"
    using * assms(1,4) by (auto elim: nft_data_okD)
  then have "nft_definitions m = nft_definitions n" using assms(3) m by (fastforce simp: keeps_definitions_def)
  then show "\<not> same_value V (nft_definitions m ! y) (nfd_data d ! y) (nfd_data e ! y)"
    using assms(2) * n y unfolding nft_unique_def assms(4) by metis
qed

lemma issue_unique:
  assumes ok: "chain_ok c" and inv: "nft_data_ok c" "nft_unique V c"
    and ev: "nft_issue_do_evaluate V ft op f d = Inr (f', x)" "nfts d = nfts c" "nft_data d = nft_data c"
    and ap: "nft_issue_do_apply op f u c = Inr c'"
  shows "nft_unique V c'"
proof (rule issue_law [OF ok ap])
  fix n
  let ?x = "\<lparr>nfd_nft_id = ni_nft_id op, nfd_owner = ni_to op, nfd_data = ni_data op\<rparr>"
  assume n: "generic_find (nfts c) (ni_nft_id op) = Some n"
    and ns: "generic_find (nfts c') = (generic_find (nfts c))(ni_nft_id op \<mapsto> n\<lparr>nft_current_supply := u32 (int (nft_current_supply n) + 1)\<rparr>)"
    and t: "t_create no_unique ?x (nft_data c) = Inr (nft_data c')"
  have tok: "t_ok (nft_data c)" using ok by (simp add: frame)
  have len: "length (nft_definitions n) = length (ni_data op)"
    and f: "foldE (\<lambda>p u. nft_check_data V d (fst (snd p)) (ni_nft_id op) (snd (snd p)) (fst p))
              (zip [0..<length (nft_definitions n)] (zip (nft_definitions n) (ni_data op))) () = Inr ()"
    using ev n by (auto simp: nft_issue_do_evaluate_def case_prod_unfold)
  have chk: "nft_check_data V d (nft_definitions n ! i) (ni_nft_id op) (ni_data op ! i) i = Inr ()" if "i < length (nft_definitions n)" for i
  proof -
    have "(i, nft_definitions n ! i, ni_data op ! i) \<in> set (zip [0..<length (nft_definitions n)] (zip (nft_definitions n) (ni_data op)))"
      using that len by (auto simp: set_zip intro!: exI [of _ i])
    from foldE_unit [OF f this] show ?thesis by simp
  qed
  show ?thesis
    by (rule nft_unique_step [OF inv keeps_definitionsI(3) [OF ns n], of ?x n "g_next_id (nft_data c)"])
      (use n check_data_fresh [OF chk] ev(3) in \<open>auto simp: t_create_law(2) [OF tok t]\<close>)
qed

lemma transfer_unique:
  assumes ok: "chain_ok c" and inv: "nft_data_ok c" "nft_unique V c" and ap: "nft_transfer_do_apply op f u c = Inr c'"
  shows "nft_unique V c'"
proof (rule transfer_law [OF ok ap])
  fix r
  assume r: "generic_find (nft_data c) (nt_nft_data_id op) = Some r"
    and t: "t_modify no_unique (nt_nft_data_id op) (\<lambda>d. Inr (d\<lparr>nfd_owner := nt_to op\<rparr>)) (nft_data c) = Inr (nft_data c')"
    and ns: "nt_to op \<noteq> GRAPHENE_NULL_ACCOUNT \<and> nfts c' = nfts c \<or> nt_to op = GRAPHENE_NULL_ACCOUNT \<and>
      (\<exists>n. generic_find (nfts c) (nfd_nft_id r) = Some n \<and>
        generic_find (nfts c') = (generic_find (nfts c))(nfd_nft_id r \<mapsto> n\<lparr>nft_current_supply := u32 (int (nft_current_supply n) - 1)\<rparr>))"
  have tok: "t_ok (nft_data c)" using ok by (simp add: frame)
  have ds: "generic_find (nft_data c') = (generic_find (nft_data c))(nt_nft_data_id op \<mapsto> r\<lparr>nfd_owner := nt_to op\<rparr>)"
    by (rule t_modify_law [OF tok t]) (use r in auto)
  have kd: "keeps_definitions c c'" using ns by (auto intro: keeps_definitionsI(1,3))
  obtain n where n: "generic_find (nfts c) (nfd_nft_id r) = Some n" by (rule nft_data_okD [OF inv(1) r])
  show ?thesis
  proof (rule nft_unique_step [OF inv kd _ ds])
    show "generic_find (nfts c) (nfd_nft_id (r\<lparr>nfd_owner := nt_to op\<rparr>)) = Some n" using n by simp
  qed (use inv(2) r n in \<open>unfold nft_unique_def; simp; metis\<close>)
qed

lemma update_data_unique:
  assumes ok: "chain_ok c" and inv: "nft_data_ok c" "nft_unique V c"
    and ev: "nft_update_data_do_evaluate V ft op f b = Inr (f', x)" "nfts b = nfts c" "nft_data b = nft_data c"
    and ap: "nft_update_data_do_apply op f u c = Inr c'"
  shows "nft_unique V c'"
proof (rule update_data_law [OF ok ap])
  fix r n xs
  assume r: "generic_find (nft_data c) (nx_nft_data_id op) = Some r" and n: "generic_find (nfts c) (nfd_nft_id r) = Some n"
    and xs: "foldE (write_data (nft_definitions n)) (nx_data op) (nfd_data r) = Inr xs" and ns: "nfts c' = nfts c"
    and ds: "generic_find (nft_data c') = (generic_find (nft_data c))(nx_nft_data_id op \<mapsto> r\<lparr>nfd_data := xs\<rparr>)"
  have f: "foldE (\<lambda>v u. bindE (lift_opt Assert_Exception (find_definition (fst v) (nft_definitions n))) (\<lambda>p.
       bindE (check_modifier (nx_modifier op) n r (snd p)) (\<lambda>_. nft_check_data V b (snd p) (nfd_nft_id r) (snd v) (fst p))))
       (nx_data op) () = Inr ()"
    using ev r n by (auto simp: nft_update_data_do_evaluate_def case_prod_unfold)
  have chk: "nft_check_data V b dt (nfd_nft_id r) (snd v) i = Inr ()"
    if "v \<in> set (nx_data op)" "find_definition (fst v) (nft_definitions n) = Some (i, dt)" for v i dt
    using foldE_unit [OF f that(1)] that(2) by auto
  show ?thesis
  proof (rule nft_unique_step [OF inv keeps_definitionsI(1) [OF ns] _ ds])
    show "generic_find (nfts c) (nfd_nft_id (r\<lparr>nfd_data := xs\<rparr>)) = Some n" using n by simp
    fix i e y
    assume e: "generic_find (nft_data c) i = Some e" "i \<noteq> nx_nft_data_id op" "nfd_nft_id e = nfd_nft_id (r\<lparr>nfd_data := xs\<rparr>)"
      and y: "y < length (nft_definitions n)" and uq: "nd_unique (nft_definitions n ! y)"
    have "y < length (nfd_data r)" by (rule nft_data_okD [OF inv(1) r]) (use n y in simp)
    with write_data_fold [OF xs] consider "xs ! y = nfd_data r ! y"
      | v dt where "v \<in> set (nx_data op)" "find_definition (fst v) (nft_definitions n) = Some (y, dt)" "xs ! y = snd v" by blast
    then show "\<not> same_value V (nft_definitions n ! y) (nfd_data (r\<lparr>nfd_data := xs\<rparr>) ! y) (nfd_data e ! y)"
    proof cases
      case 1
      then show ?thesis using inv(2) r e n y uq unfolding nft_unique_def by simp metis
    next
      case 2
      then show ?thesis
        using check_data_fresh [OF chk [OF 2(1,2)], of i e] find_definition_Some [OF 2(2)] uq e ev(3) by simp
    qed
  qed
qed

text \<open>
  A value declared unique is unique: no operation on tokens ever leaves two instances of a token
  with the same value of such a definition, burned instances included.
\<close>

theorem nft_values_stay_unique:
  assumes "safe_exact S" and "chain_ok c" "\<not> skip_fee st" and "nft_data_ok c" and "nft_unique V c"
    and "apply_nft_operation S st V ft r op' c = Inr c'"
  shows "nft_unique V c'"
proof (rule nft_operation_inner [OF assms(1-3,6)])
  fix f t d' b
  let ?d = "c\<lparr>asset_dyn := t\<rparr>"
  assume ok: "chain_ok ?d" and step: "nft_inside V ft op' f c ?d = (Inr d', True)" and c': "c' = d'\<lparr>balances := b\<rparr>"
  have inv: "nft_data_ok ?d" "nft_unique V ?d" using assms(4,5) by (simp_all add: nft_data_ok_def nft_unique_def)
  have "nft_unique V d'"
  proof (cases op')
    case (Nft_Create_Definition op)
    then have ap: "nft_create_definition_do_apply op f () ?d = Inr d'" using step by (simp add: nft_inside_def)
    have "t_ok (nfts c)" using assms(2) by (simp add: frame)
    then have "generic_find (nfts ?d) (g_next_id (nfts ?d)) = None" by (simp add: generic_fresh)
    then show ?thesis
      using nft_unique_tokens [OF inv keeps_definitionsI(2) [OF create_definition_law(3) [OF ok ap]]] create_definition_law(2) [OF ok ap] by simp
  next
    case (Nft_Update_Definition op)
    then have ap: "nft_update_definition_do_apply op f () ?d = Inr d'" using step by (simp add: nft_inside_def)
    show ?thesis
      by (rule update_definition_law [OF ok ap], rule nft_unique_tokens [OF inv])
        (auto intro: keeps_definitionsI(3))
  qed (use step in \<open>auto simp: nft_inside_def intro: issue_unique [OF ok inv] transfer_unique [OF ok inv] update_data_unique [OF ok inv]\<close>)
  then show ?thesis by (simp add: c' nft_unique_def)
qed

section \<open>Concrete instances\<close>

definition demo_variants :: variant_ops where
  "demo_variants = \<lparr>v_is_string = (\<lambda>_. True), v_is_int64 = (\<lambda>_. False), v_is_uint64 = (\<lambda>_. False), v_is_bool = (\<lambda>_. False),
     v_as_string = (\<lambda>x. Inr (replicate x (CHR ''a''))), v_as_int64 = (\<lambda>x. Inr (int x)), v_as_uint64 = Inr, v_as_bool = (\<lambda>x. Inr (x = 0))\<rparr>"

definition demo_nft :: non_fungible_token_object where
  "demo_nft = \<lparr>nft_symbol = ''TOKEN'', nft_options = \<lparr>no_issuer = 4, no_max_supply = 2, no_fixed_max_supply = True, no_description = []\<rparr>,
     nft_definitions = [\<lparr>nd_unique = True, nd_modifiable = nft_nobody, nd_type = nft_string, nd_name = None\<rparr>],
     nft_transferable = True, nft_current_supply = 1\<rparr>"

definition demo_nft_chain :: chain where
  "demo_nft_chain = demo_chain\<lparr>nfts := \<lparr>g_next_id = 1, g_rows = [(0, demo_nft)]\<rparr>,
     nft_data := \<lparr>g_next_id = 1, g_rows = [(0, \<lparr>nfd_nft_id = 0, nfd_owner = 5, nfd_data = [2]\<rparr>)]\<rparr>\<rparr>"

definition demo_nft_issue :: nft_issue_operation where
  "demo_nft_issue = \<lparr>ni_fee = mk_asset 10 0, ni_issuer = 4, ni_to = 5, ni_nft_id = 0, ni_data = [3], ni_memo = None\<rparr>"

lemma demo_nft_chain_ok: "chain_ok demo_nft_chain"
  using demo_chain_ok by (simp add: demo_nft_chain_def frame generic_invar_def)

lemma demo_nft_ok: "nft_ok demo_nft_chain"
  by (auto simp: nft_ok_def nft_data_ok_def nft_token_ok_def demo_nft_chain_def demo_nft_def generic_find_def t_sum_def t_values_def
      live_instance_def split: if_splits)

lemma demo_nft_unique: "nft_unique demo_variants demo_nft_chain"
  by (auto simp: nft_unique_def demo_nft_chain_def generic_find_def split: if_splits)

lemma demo_nft_issued: "succeeds (apply_nft_operation checked64 demo_trx demo_variants demo_forks (Inr 10) (Nft_Issue demo_nft_issue) demo_nft_chain)"
  by code_simp

theorem nft_supply_sound_witness:
  "\<exists>c'. apply_nft_operation checked64 demo_trx demo_variants demo_forks (Inr 10) (Nft_Issue demo_nft_issue) demo_nft_chain = Inr c' \<and> nft_ok c'"
proof -
  obtain c' where r: "apply_nft_operation checked64 demo_trx demo_variants demo_forks (Inr 10) (Nft_Issue demo_nft_issue) demo_nft_chain = Inr c'"
    by (rule succeedsE [OF demo_nft_issued])
  have room: "\<forall>k n. generic_find (nfts demo_nft_chain) k = Some n \<longrightarrow> nft_current_supply n < 2 ^ 32 - 1"
    by (auto simp: demo_nft_chain_def demo_nft_def generic_find_def split: if_splits)
  have "nft_operation_fee_payer (Nft_Issue demo_nft_issue) \<noteq> GRAPHENE_NULL_ACCOUNT" by code_simp
  from nft_supply_sound [OF checked64_exact demo_nft_chain_ok demo_trx_fee demo_nft_ok room this r] r show ?thesis by blast
qed

theorem nft_values_stay_unique_witness:
  "\<exists>c'. apply_nft_operation checked64 demo_trx demo_variants demo_forks (Inr 10) (Nft_Issue demo_nft_issue) demo_nft_chain = Inr c' \<and>
     nft_unique demo_variants c'"
proof -
  obtain c' where r: "apply_nft_operation checked64 demo_trx demo_variants demo_forks (Inr 10) (Nft_Issue demo_nft_issue) demo_nft_chain = Inr c'"
    by (rule succeedsE [OF demo_nft_issued])
  from nft_values_stay_unique [OF checked64_exact demo_nft_chain_ok demo_trx_fee nft_okD(1) [OF demo_nft_ok] demo_nft_unique r] r
  show ?thesis by blast
qed

end
