(* ===== verification/Chain_Run.thy ===== *)
theory Chain_Run
  imports Content_Run Maintenance Vesting_Evaluator Withdraw_Permission Subscription Miner_Evaluator Nft
begin

text \<open>
  The components together: operations of all kinds, what every block does and maintenance, in any
  order, and the books of the core asset over a run of the chain. The dispatch is
  \<open>database::apply\_operation\<close> in \<open>db\_block.cpp\<close>.
\<close>

section \<open>What an operation leaves alone\<close>

text \<open>
  Only the creation of an account writes the dynamic properties, and only the operations on content
  write purchases. The books rest on three numbers of the former.
\<close>

definition settled :: "chain \<Rightarrow> dynamic_global_property_object \<times> buying_object table" where
  "settled c = (dgpo c, buyings c)"

definition booked :: "chain \<Rightarrow> int \<times> int \<times> int \<times> buying_object table" where
  "booked c = (mined_rewards (dgpo c), miner_budget_from_fees (dgpo c), unspent_fee_budget (dgpo c), buyings c)"

lemma settled_booked: "settled c' = settled c \<Longrightarrow> booked c' = booked c"
  by (simp add: settled_def booked_def)

lemma modify_dyn_frame: "modify_dyn ao f c = Inr c' \<Longrightarrow> (\<And>c t. g (c\<lparr>asset_dyn := t\<rparr>) = g c) \<Longrightarrow> g c' = g c"
  by (auto simp: modify_dyn_def)

lemma adjust_balance_frame: "adjust_balance S x d c = Inr c' \<Longrightarrow> (\<And>c t. g (c\<lparr>balances := t\<rparr>) = g c) \<Longrightarrow> g c' = g c"
  by (auto simp: adjust_balance_def split: if_splits option.splits)

lemma start_evaluate_frame:
  assumes "start_evaluate S st r payer fee de da c = Inr c'" and "\<And>f x c c'. da f x c = Inr c' \<Longrightarrow> g c' = g c"
    and d: "\<And>c t. g (c\<lparr>asset_dyn := t\<rparr>) = g c" and b: "\<And>c t. g (c\<lparr>balances := t\<rparr>) = g c"
  shows "g c' = g c"
proof -
  from assms(1) obtain f x c1 c2 c3 n where 1: "convert_fee S st f c = Inr c1" and 2: "pay_fee S st f c1 = Inr c2"
    and 3: "da f x c2 = Inr c3" and 4: "adjust_balance S payer n c3 = Inr c'"
    by (auto simp: start_evaluate_def apply_op_def)
  have "g c1 = g c" using 1 d by (auto simp: convert_fee_def split: if_splits dest: modify_dyn_frame [where g = g])
  moreover have "g c2 = g c1" using 2 d by (auto simp: pay_fee_def split: if_splits dest: modify_dyn_frame [where g = g])
  moreover have "g c3 = g c2" by (rule assms(2) [OF 3])
  moreover have "g c' = g c3" by (rule adjust_balance_frame [OF 4 b])
  ultimately show ?thesis by simp
qed

lemma settled_frame:
  "adjust_balance S x d c = Inr c' \<Longrightarrow> settled c' = settled c"
  "modify_dyn ao h c = Inr c' \<Longrightarrow> settled c' = settled c"
  "modify_asset k i c = Inr c' \<Longrightarrow> settled c' = settled c"
  "add_detail e c = Inr c' \<Longrightarrow> settled c' = settled c"
  by (auto simp: settled_def modify_asset_def add_detail_def intro: modify_dyn_frame adjust_balance_frame)

lemma settled_upd [simp]:
  "settled (c\<lparr>balances := t1\<rparr>) = settled c" "settled (c\<lparr>vestings := t2\<rparr>) = settled c"
  "settled (c\<lparr>withdraw_permissions := t3\<rparr>) = settled c" "settled (c\<lparr>subscriptions := t4\<rparr>) = settled c"
  "settled (c\<lparr>details := t5\<rparr>) = settled c" "settled (c\<lparr>asset_dyn := t6\<rparr>) = settled c" "settled (c\<lparr>assets := t7\<rparr>) = settled c"
  by (simp_all add: settled_def)

lemma pay_authors_settled:
  assumes "pay_authors S content whole c = Inr c'"
  shows "settled c' = settled c"
proof -
  from assms obtain c1 rest where f: "foldE (pay_co_author S whole) (co_authors content) (c, amount whole) = Inr (c1, rest)"
    and e: "(if rest \<noteq> 0 then bindE (require (0 < rest) Assert_Exception) (\<lambda>_.
       adjust_balance S (co_author_of content) (mk_asset rest (asset_id whole)) c1) else Inr c1) = Inr c'"
    by (auto simp: pay_authors_def)
  have "settled (fst (c1, rest)) = settled c"
  proof (rule foldE_invariant [OF f, where I = "\<lambda>s. settled (fst s) = settled c"])
    fix x s s' assume I: "settled (fst s) = settled c" and st: "pay_co_author S whole x s = Inr s'"
    then obtain d where "adjust_balance S (fst x) d (fst s) = Inr (fst s')"
      by (cases s) (auto simp: pay_co_author_def Let_def)
    then show "settled (fst s') = settled c" using I settled_frame(1) by metis
  qed simp
  then show ?thesis using e settled_frame(1) by (auto split: if_splits)
qed

lemma settled_step:
  assumes "bindE m k = Inr c'" and "\<And>d. m = Inr d \<Longrightarrow> settled d = settled c"
    and "\<And>d. m = Inr d \<Longrightarrow> k d = Inr c' \<Longrightarrow> settled c' = settled d"
  shows "settled c' = settled c"
  using assms by auto

lemma transfer_settled:
  "transfer_obsolete_do_apply S oop f u c = Inr c' \<Longrightarrow> settled c' = settled c"
  "transfer_do_apply S op f u c = Inr c' \<Longrightarrow> settled c' = settled c"
  by (auto simp: transfer_obsolete_do_apply_def dest!: settled_frame)
    (cases "tr_to op"; auto simp: transfer_do_apply_def dest!: settled_frame pay_authors_settled)

lemma asset_settled:
  "asset_issue_do_apply S o1 f x c = Inr c' \<Longrightarrow> settled c' = settled c"
  "asset_reserve_do_apply S o2 f x c = Inr c' \<Longrightarrow> settled c' = settled c"
  "monitored_asset_update_do_apply o5 f u c = Inr c' \<Longrightarrow> settled c' = settled c"
  "user_issued_asset_update_do_apply o6 f u c = Inr c' \<Longrightarrow> settled c' = settled c"
  "asset_publish_feeds_do_apply nth_el o7 f u c = Inr c' \<Longrightarrow> settled c' = settled c"
  "uia_advanced_do_apply o8 f y c = Inr c' \<Longrightarrow> settled c' = settled c"
  unfolding asset_issue_do_apply_def asset_reserve_do_apply_def monitored_asset_update_do_apply_def
    user_issued_asset_update_do_apply_def asset_publish_feeds_do_apply_def uia_advanced_do_apply_def
  by (auto dest!: settled_frame split: prod.splits)

lemma pools_settled:
  "asset_fund_pools_do_apply S o3 f x c = Inr c' \<Longrightarrow> settled c' = settled c"
  "asset_claim_fees_do_apply S o4 f x c = Inr c' \<Longrightarrow> settled c' = settled c"
  unfolding asset_fund_pools_do_apply_def asset_claim_fees_do_apply_def
  by (erule settled_step; auto dest!: settled_frame split: if_splits)+

lemma service_settled:
  "vesting_balance_create_do_apply S o1 f u c = Inr c' \<Longrightarrow> settled c' = settled c"
  "vesting_balance_withdraw_do_apply S o2 f u c = Inr c' \<Longrightarrow> settled c' = settled c"
  "withdraw_permission_create_do_apply o3 f u c = Inr c' \<Longrightarrow> settled c' = settled c"
  "withdraw_permission_update_do_apply o4 f u c = Inr c' \<Longrightarrow> settled c' = settled c"
  "withdraw_permission_claim_do_apply S o5 f u c = Inr c' \<Longrightarrow> settled c' = settled c"
  "withdraw_permission_delete_do_apply o6 f u c = Inr c' \<Longrightarrow> settled c' = settled c"
  by (auto simp: vesting_balance_create_do_apply_def vesting_balance_withdraw_do_apply_def withdraw_permission_create_do_apply_def
      withdraw_permission_update_do_apply_def withdraw_permission_claim_do_apply_def withdraw_permission_delete_do_apply_def Let_def
      dest!: settled_frame)

lemma subscription_settled:
  "subscribe_do_apply S o1 f u c = Inr c' \<Longrightarrow> settled c' = settled c"
  "subscribe_by_author_do_apply o2 f u c = Inr c' \<Longrightarrow> settled c' = settled c"
  "automatic_renewal_do_apply o3 f u c = Inr c' \<Longrightarrow> settled c' = settled c"
  by (auto simp: subscribe_do_apply_def subscribe_by_author_do_apply_def automatic_renewal_do_apply_def add_subscription_def
      subscription_detail_def Let_def dest!: settled_frame split: option.splits)

definition quiet :: "(fee_state \<Rightarrow> 'x \<Rightarrow> chain \<Rightarrow> chain res) \<Rightarrow> bool" where
  "quiet da \<longleftrightarrow> (\<forall>f x c c'. da f x c = Inr c' \<longrightarrow> booked c' = booked c)"

lemma quiet_evaluators:
  "quiet (transfer_obsolete_do_apply S p1)" "quiet (transfer_do_apply S p2)" "quiet (asset_issue_do_apply S p3)"
  "quiet (asset_reserve_do_apply S p4)" "quiet (asset_fund_pools_do_apply S p5)" "quiet (asset_claim_fees_do_apply S p6)"
  "quiet (monitored_asset_update_do_apply p7)" "quiet (user_issued_asset_update_do_apply p8)"
  "quiet (asset_publish_feeds_do_apply nth_el p9)" "quiet (uia_advanced_do_apply p20)" "quiet (vesting_balance_create_do_apply S p11)"
  "quiet (vesting_balance_withdraw_do_apply S p12)" "quiet (withdraw_permission_create_do_apply p13)"
  "quiet (withdraw_permission_update_do_apply p14)" "quiet (withdraw_permission_claim_do_apply S p15)"
  "quiet (withdraw_permission_delete_do_apply p16)" "quiet (subscribe_do_apply S p17)" "quiet (subscribe_by_author_do_apply p18)"
  "quiet (automatic_renewal_do_apply p19)"
  unfolding quiet_def
  by (blast intro: settled_booked dest: transfer_settled asset_settled pools_settled service_settled subscription_settled)+

lemma detail_booked: "add_detail d c = Inr c' \<Longrightarrow> booked c' = booked c"
  by (auto simp: add_detail_def booked_def)

lemma account_booked:
  "account_create_do_apply o1 f u c = Inr c' \<Longrightarrow> booked c' = booked c"
  "account_update_do_apply o2 f x c = Inr c' \<Longrightarrow> booked c' = booked c"
  by (auto simp: account_create_do_apply_def account_update_do_apply_def Let_def dest!: detail_booked simp: booked_def)

lemma miner_booked:
  "miner_create_do_apply o1 f u c = Inr c' \<Longrightarrow> booked c' = booked c"
  "miner_update_do_apply o2 f u c = Inr c' \<Longrightarrow> booked c' = booked c"
  "miner_update_global_parameters_do_apply o3 f u c = Inr c' \<Longrightarrow> booked c' = booked c"
  by (auto simp: miner_create_do_apply_def miner_update_do_apply_def miner_update_global_parameters_do_apply_def booked_def
      split: prod.splits)

lemma nft_booked:
  "nft_create_definition_do_apply o1 f u c = Inr c' \<Longrightarrow> booked c' = booked c"
  "nft_update_definition_do_apply o2 f u c = Inr c' \<Longrightarrow> booked c' = booked c"
  "nft_issue_do_apply o3 f u c = Inr c' \<Longrightarrow> booked c' = booked c"
  "nft_transfer_do_apply o4 f u c = Inr c' \<Longrightarrow> booked c' = booked c"
  "nft_update_data_do_apply o5 f u c = Inr c' \<Longrightarrow> booked c' = booked c"
  by (auto simp: nft_create_definition_do_apply_def nft_update_definition_do_apply_def nft_issue_do_apply_def nft_transfer_do_apply_def
      nft_update_data_do_apply_def dest!: detail_booked simp: booked_def)

lemma asset_create_booked: "asset_create_do_apply op f u c = Inr c' \<Longrightarrow> booked c' = booked c"
  by (auto simp: asset_create_do_apply_def Let_def booked_def)

lemma quiet_registry:
  "quiet (account_create_do_apply q1)" "quiet (account_update_do_apply q2)" "quiet (miner_create_do_apply q3)"
  "quiet (miner_update_do_apply q4)" "quiet (miner_update_global_parameters_do_apply q5)"
  "quiet (nft_create_definition_do_apply q6)" "quiet (nft_update_definition_do_apply q7)" "quiet (nft_issue_do_apply q8)"
  "quiet (nft_transfer_do_apply q9)" "quiet (nft_update_data_do_apply q10)" "quiet (asset_create_do_apply q11)"
  unfolding quiet_def by (blast dest: account_booked miner_booked nft_booked asset_create_booked)+

section \<open>Content leaves the dynamic properties alone\<close>

lemma foldE_frame: "foldE f xs c = Inr c' \<Longrightarrow> (\<And>x c c'. f x c = Inr c' \<Longrightarrow> g c' = g c) \<Longrightarrow> g c' = g c"
  by (erule foldE_invariant [where I = "\<lambda>d. g d = g c"]) auto

lemma dgpo_frame:
  "adjust_balance S x d c = Inr c' \<Longrightarrow> dgpo c' = dgpo c"
  "add_detail e c = Inr c' \<Longrightarrow> dgpo c' = dgpo c"
  "modify_content k f1 c = Inr c' \<Longrightarrow> dgpo c' = dgpo c"
  "modify_buying k f2 c = Inr c' \<Longrightarrow> dgpo c' = dgpo c"
  "modify_seeding_stats y f3 c = Inr c' \<Longrightarrow> dgpo c' = dgpo c"
  "modify_rights k f4 c = Inr c' \<Longrightarrow> dgpo c' = dgpo c"
  "pay_authors S content whole c = Inr c' \<Longrightarrow> dgpo c' = dgpo c"
  by (auto simp: modify_content_def modify_buying_def modify_seeding_stats_def modify_rights_def add_detail_def settled_def
      intro: adjust_balance_frame dest: pay_authors_settled)

lemma convert_dgpo: "convert S k from c = Inr (to, c') \<Longrightarrow> dgpo c' = dgpo c"
  by (auto simp: convert_def convert_uia_def modify_dyn_def split: if_splits)

lemma managers_dgpo: "set_managers b ks c = Inr c' \<Longrightarrow> dgpo c' = dgpo c"
  by (induction b ks c rule: set_managers.induct)
    (auto dest!: dgpo_frame(6) foldE_frame [where g = dgpo] split: if_splits)

lemma rights_dgpo:
  "set_publishing_right_do_apply op f u c = Inr c' \<Longrightarrow> dgpo c' = dgpo c"
  unfolding set_publishing_right_do_apply_def
  by (erule foldE_frame) (auto simp: set_right_def Let_def dest!: dgpo_frame(6))

lemma submit_dgpo:
  assumes "content_submit_do_apply S title op f r c = Inr c'"
  shows "dgpo c' = dgpo c"
proof (cases r)
  case True
  then show ?thesis using assms by (auto simp: content_submit_do_apply_def resubmit_content_def dest!: dgpo_frame(3))
next
  case False
  then obtain t neg c1 c2 c3 d where 1: "adjust_balance S (cs_author op) neg (c\<lparr>contents := t\<rparr>) = Inr c1"
    and 2: "foldE (reserve_space op (g_next_id (contents c))) (cs_seeders op) c1 = Inr c2"
    and 3: "foldE request_seeding (cs_seeders op) c2 = Inr c3" and 4: "add_detail d c3 = Inr c'"
    using assms by (auto simp: content_submit_do_apply_def submit_content_def Let_def)
  have "dgpo c2 = dgpo c1" using 2 by (rule foldE_frame) (auto simp: reserve_space_def dest!: dgpo_frame(3))
  moreover have "dgpo c3 = dgpo c2" using 3 by (rule foldE_frame) (auto simp: request_seeding_def dest!: dgpo_frame(5))
  ultimately show ?thesis using dgpo_frame(1) [OF 1] dgpo_frame(2) [OF 4] by simp
qed

lemma payout_dgpo: "content_payout S paid content c = Inr c' \<Longrightarrow> dgpo c' = dgpo c"
  by (auto simp: content_payout_def dest: dgpo_frame(1,7) split: if_splits)

lemma buy_dgpo:
  assumes "request_to_buy_do_apply S title op f x c = Inr c'"
  shows "dgpo c' = dgpo c"
proof -
  from assms obtain k content paid after c1 t neg c2 c3 c4 d
    where p: "paid_amounts S op x c = Inr (paid, after, c1)"
    and 2: "adjust_balance S (rb_consumer op) neg (c1\<lparr>buyings := t\<rparr>) = Inr c2"
    and 3: "(if co_key_parts content = [] then bindE (content_payout S after content c2) (count_bought k) else Inr c2) = Inr c3"
    and 4: "foldE expect_key (co_key_parts content) c3 = Inr c4" and 5: "add_detail d c4 = Inr c'"
    unfolding request_to_buy_do_apply_def by (simp only: bindE_eq_Inr split_paired_Ex prod.case) fast
  have "dgpo c1 = dgpo c" using p by (auto simp: paid_amounts_def Let_def dest!: convert_dgpo split: if_splits)
  moreover have "dgpo c3 = dgpo c2" using 3 by (auto simp: count_bought_def dest!: payout_dgpo dgpo_frame(3) split: if_splits)
  moreover have "dgpo c4 = dgpo c3" using 4 by (rule foldE_frame) (auto simp: expect_key_def dest!: dgpo_frame(5))
  ultimately show ?thesis using dgpo_frame(1) [OF 2] dgpo_frame(2) [OF 5] by simp
qed

lemma deliver_dgpo:
  assumes "deliver_keys_do_apply S op f u c = Inr c'"
  shows "dgpo c' = dgpo c"
proof -
  from assms obtain old k content c1 b where 1: "note_key op old c = Inr c1" and b: "generic_find (buyings c1) (dk_buying op) = Some b"
    and 2: "(if bo_delivered b \<or> bo_expired b then Inr c1
     else if co_quorum content \<le> length (bo_seeders_answered b) then
       bindE (count_bought k c1) (\<lambda>c2.
       bindE (content_payout S (bo_paid_price_after_exchange b) content c2) (\<lambda>c3.
       modify_buying (dk_buying op) (\<lambda>bo. bo\<lparr>bo_price := (bo_price bo)\<lparr>amount := 0\<rparr>, bo_delivered := True,
         bo_expiration_or_delivery_time := head_block_time c3\<rparr>) c3))
     else if bo_expiration_time old < head_block_time c then buying_expire S (dk_buying op) c1
     else Inr c1) = Inr c'"
    unfolding deliver_keys_do_apply_def by (simp only: bindE_eq_Inr split_paired_Ex prod.case t_get_eq_Inr) fast
  have "dgpo c1 = dgpo c" using 1 by (auto simp: note_key_def dest!: dgpo_frame(4,5) split: if_splits)
  moreover have "dgpo c' = dgpo c1"
    using 2 by (auto simp: count_bought_def buying_expire_def dest!: payout_dgpo dgpo_frame(1,3,4) split: if_splits)
  ultimately show ?thesis by simp
qed

lemma custody_dgpo: "proof_of_custody_do_apply S op f u c = Inr c' \<Longrightarrow> dgpo c' = dgpo c"
  by (auto simp: proof_of_custody_do_apply_def first_custody_def next_custody_def dest!: dgpo_frame(1,3,5) split: option.splits)

lemma other_content_dgpo:
  "set_publishing_manager_do_apply o1 f u c = Inr c' \<Longrightarrow> dgpo c' = dgpo c"
  "content_cancellation_do_apply o2 f u c = Inr c' \<Longrightarrow> dgpo c' = dgpo c"
  "leave_rating_do_apply title o3 f u c = Inr c' \<Longrightarrow> dgpo c' = dgpo c"
  "ready_to_publish_obsolete_do_apply o4 f u c = Inr c' \<Longrightarrow> dgpo c' = dgpo c"
  "ready_to_publish_do_apply o5 f u c = Inr c' \<Longrightarrow> dgpo c' = dgpo c"
  "report_stats_do_apply o6 f u c = Inr c' \<Longrightarrow> dgpo c' = dgpo c"
  by (auto simp: set_publishing_manager_do_apply_def content_cancellation_do_apply_def leave_rating_do_apply_def
      ready_to_publish_obsolete_do_apply_def ready_to_publish_do_apply_def publish_seeder_def report_stats_do_apply_def
      dest!: managers_dgpo dgpo_frame(2-5) foldE_frame [where g = dgpo] split: option.splits)

lemmas content_dgpo = rights_dgpo submit_dgpo buy_dgpo deliver_dgpo custody_dgpo other_content_dgpo

lemma content_operation_dgpo: "apply_content_operation S st e op' c = Inr c' \<Longrightarrow> dgpo c' = dgpo c"
  by (cases op') (auto simp: apply_content_operation_def elim!: start_evaluate_frame intro: content_dgpo)

section \<open>Operations\<close>

datatype chain_operation =
    Transfer_Obsolete transfer_obsolete_operation
  | Transfer_To transfer_operation
  | Asset_Issue asset_issue_operation
  | Asset_Reserve asset_reserve_operation
  | Asset_Fund_Pools asset_fund_pools_operation
  | Asset_Claim_Fees asset_claim_fees_operation
  | Update_Monitored update_monitored_asset_operation
  | Update_User_Issued update_user_issued_asset_operation
  | Update_Advanced update_user_issued_asset_advanced_operation
  | Publish_Feed asset_publish_feed_operation
  | Vesting_Create vesting_balance_create_operation
  | Vesting_Withdraw vesting_balance_withdraw_operation
  | Permission_Create withdraw_permission_create_operation
  | Permission_Update withdraw_permission_update_operation
  | Permission_Claim withdraw_permission_claim_operation
  | Permission_Delete withdraw_permission_delete_operation
  | Subscribe subscribe_operation
  | Subscribe_By_Author subscribe_by_author_operation
  | Automatic_Renewal automatic_renewal_of_subscription_operation
  | On_Content content_operation
  | Asset_Creation asset_create_operation
  | Account_Creation account_create_operation
  | Account_Change account_update_operation
  | Miner_Creation miner_create_operation
  | Miner_Change miner_update_operation
  | Miner_Parameters miner_update_global_parameters_operation
  | On_Nft nft_operation

text \<open>
  The environment of a run: that of content, the fee schedule, what \<open>fc\<close> says of variants, and
  \<open>std::nth\_element\<close> for feeds. An asset with a feed is created at the expense of the miners account.
\<close>

definition asset_create_fee_payer :: "asset_create_operation \<Rightarrow> account_id_type" where
  "asset_create_fee_payer op = (if ac_monitored_asset_opts op \<noteq> None then 0 else ac_issuer op)"


record chain_env =
  ce_content :: content_env
  ce_fee :: "chain_operation \<Rightarrow> int res"
  ce_variants :: variant_ops
  ce_nth :: "(price_feed \<Rightarrow> price_feed \<Rightarrow> bool) \<Rightarrow> nat \<Rightarrow> price_feed list \<Rightarrow> price_feed"

definition apply_operation :: "safe \<Rightarrow> trx_state \<Rightarrow> chain_env \<Rightarrow> chain_operation \<Rightarrow> chain \<Rightarrow> chain res" where
  "apply_operation S st e op' c =
     (case op' of
        Transfer_Obsolete op \<Rightarrow> start_evaluate S st (ce_fee e op') (tro_from op) (tro_fee op)
          (transfer_obsolete_do_evaluate op) (transfer_obsolete_do_apply S op) c
      | Transfer_To op \<Rightarrow> start_evaluate S st (ce_fee e op') (tr_from op) (tr_fee op)
          (transfer_do_evaluate (e_forks (ce_content e)) op) (transfer_do_apply S op) c
      | Asset_Issue op \<Rightarrow> start_evaluate S st (ce_fee e op') (ai_issuer op) (ai_fee op)
          (asset_issue_do_evaluate S op) (asset_issue_do_apply S op) c
      | Asset_Reserve op \<Rightarrow> start_evaluate S st (ce_fee e op') (ar_payer op) (ar_fee op)
          (asset_reserve_do_evaluate S op) (asset_reserve_do_apply S op) c
      | Asset_Fund_Pools op \<Rightarrow> start_evaluate S st (ce_fee e op') (fp_from_account op) (fp_fee op)
          (asset_fund_pools_do_evaluate op) (asset_fund_pools_do_apply S op) c
      | Asset_Claim_Fees op \<Rightarrow> start_evaluate S st (ce_fee e op') (cf_issuer op) (cf_fee op)
          (asset_claim_fees_do_evaluate op) (asset_claim_fees_do_apply S op) c
      | Update_Monitored op \<Rightarrow> start_evaluate S st (ce_fee e op') (um_issuer op) (um_fee op)
          (monitored_asset_update_do_evaluate op) (monitored_asset_update_do_apply op) c
      | Update_User_Issued op \<Rightarrow> start_evaluate S st (ce_fee e op') (uu_issuer op) (uu_fee op)
          (user_issued_asset_update_do_evaluate op) (user_issued_asset_update_do_apply op) c
      | Update_Advanced op \<Rightarrow> start_evaluate S st (ce_fee e op') (ua_issuer op) (ua_fee op)
          (uia_advanced_do_evaluate (e_forks (ce_content e)) op) (uia_advanced_do_apply op) c
      | Publish_Feed op \<Rightarrow> start_evaluate S st (ce_fee e op') (pf_publisher op) (pf_fee op)
          (asset_publish_feeds_do_evaluate op) (asset_publish_feeds_do_apply (ce_nth e) op) c
      | Vesting_Create op \<Rightarrow> start_evaluate S st (ce_fee e op') (vc_creator op) (vc_fee op)
          (vesting_balance_create_do_evaluate op) (vesting_balance_create_do_apply S op) c
      | Vesting_Withdraw op \<Rightarrow> start_evaluate S st (ce_fee e op') (vw_owner op) (vw_fee op)
          (vesting_balance_withdraw_do_evaluate S op) (vesting_balance_withdraw_do_apply S op) c
      | Permission_Create op \<Rightarrow> start_evaluate S st (ce_fee e op') (wpc_withdraw_from_account op) (wpc_fee op)
          (withdraw_permission_create_do_evaluate op) (withdraw_permission_create_do_apply op) c
      | Permission_Update op \<Rightarrow> start_evaluate S st (ce_fee e op') (wpu_withdraw_from_account op) (wpu_fee op)
          (withdraw_permission_update_do_evaluate op) (withdraw_permission_update_do_apply op) c
      | Permission_Claim op \<Rightarrow> start_evaluate S st (ce_fee e op') (wpl_withdraw_to_account op) (wpl_fee op)
          (withdraw_permission_claim_do_evaluate S op) (withdraw_permission_claim_do_apply S op) c
      | Permission_Delete op \<Rightarrow> start_evaluate S st (ce_fee e op') (wpd_withdraw_from_account op) (wpd_fee op)
          (withdraw_permission_delete_do_evaluate op) (withdraw_permission_delete_do_apply op) c
      | Subscribe op \<Rightarrow> start_evaluate S st (ce_fee e op') (su_from op) (su_fee op)
          (subscribe_do_evaluate op) (subscribe_do_apply S op) c
      | Subscribe_By_Author op \<Rightarrow> start_evaluate S st (ce_fee e op') (sba_from op) (sba_fee op)
          (subscribe_by_author_do_evaluate op) (subscribe_by_author_do_apply op) c
      | Automatic_Renewal op \<Rightarrow> start_evaluate S st (ce_fee e op') (ars_consumer op) (ars_fee op)
          (automatic_renewal_do_evaluate op) (automatic_renewal_do_apply op) c
      | On_Content op \<Rightarrow> apply_content_operation S st (ce_content e) op c
      | Asset_Creation op \<Rightarrow> start_evaluate S st (ce_fee e op') (asset_create_fee_payer op) (ac_fee op)
          (asset_create_do_evaluate S (e_forks (ce_content e)) op) (asset_create_do_apply op) c
      | Account_Creation op \<Rightarrow> start_evaluate S st (ce_fee e op') (acr_registrar op) (acr_fee op)
          (account_create_do_evaluate op) (account_create_do_apply op) c
      | Account_Change op \<Rightarrow> start_evaluate S st (ce_fee e op') (au_account op) (au_fee op)
          (account_update_do_evaluate op) (account_update_do_apply op) c
      | Miner_Creation op \<Rightarrow> start_evaluate S st (ce_fee e op') (mc_miner_account op) (mc_fee op)
          (miner_create_do_evaluate op) (miner_create_do_apply op) c
      | Miner_Change op \<Rightarrow> start_evaluate S st (ce_fee e op') (mu_miner_account op) (mu_fee op)
          (miner_update_do_evaluate op) (miner_update_do_apply op) c
      | Miner_Parameters op \<Rightarrow> start_evaluate S st (ce_fee e op') GRAPHENE_MINER_ACCOUNT (mg_fee op)
          (miner_update_global_parameters_do_evaluate st op) (miner_update_global_parameters_do_apply op) c
      | On_Nft op \<Rightarrow> apply_nft_operation S st (ce_variants e) (e_forks (ce_content e)) (ce_fee e op') op c)"

text \<open>
  What a run asks of an operation: its validation, where the proof needs it, pools for purchases, and
  for the creation of an asset an even fee in core asset (other fees mint core asset).
\<close>

definition operation_ok :: "chain_operation \<Rightarrow> chain \<Rightarrow> bool" where
  "operation_ok op' c = (case op' of Asset_Claim_Fees op \<Rightarrow> asset_claim_fees_validate op = Inr () | On_Content op \<Rightarrow> uses_pools op c
     | Asset_Creation op \<Rightarrow> asset_id (ac_fee op) = 0 \<and> even (amount (ac_fee op)) | _ \<Rightarrow> True)"

section \<open>Books\<close>

definition books_step :: "chain \<Rightarrow> chain \<Rightarrow> bool" where
  "books_step c c' \<longleftrightarrow> chain_ok c' \<and> open_buyings_ok c' \<and> core_books c' = core_books c"

lemma books_step_trans: "books_step c c1 \<Longrightarrow> books_step c1 c2 \<Longrightarrow> books_step c c2"
  by (simp add: books_step_def)

lemma books_booked:
  assumes "open_buyings_ok c" and "booked c' = booked c" and "chain_ok c'"
    and "holdings c' 0 = holdings c 0 + n" and "supply_of c' 0 = supply_of c 0 + n"
  shows "books_step c c'"
  using assms by (simp add: booked_def books_step_def core_books_def open_buyings_ok_def)

lemma ledger_step:
  assumes con: "evaluator_contract S de da pre d d" and f: "quiet da"
    and ok: "chain_ok c" "open_buyings_ok c" "\<not> skip_fee st" and run: "start_evaluate S st r payer fee de da c = Inr c'"
  shows "books_step c c'"
proof -
  have b: "booked c' = booked c" by (rule start_evaluate_frame [OF run]) (use f in \<open>auto simp: quiet_def booked_def\<close>)
  from evaluator_contract.run_law [OF con ok(1,3) run] obtain x where "chain_ok c'"
    "holdings c' 0 = holdings c 0 + d x 0" "supply_of c' 0 = supply_of c 0 + d x 0" by blast
  then show ?thesis by (rule books_booked [OF ok(2) b])
qed

lemma asset_create_step:
  assumes S: "safe_exact S" and ok: "chain_ok c" "open_buyings_ok c" "\<not> skip_fee st" and fee: "asset_id (ac_fee op) = 0" "even (amount (ac_fee op))"
    and run: "start_evaluate S st r payer (ac_fee op) (asset_create_do_evaluate S ft op) (asset_create_do_apply op) c = Inr c'"
  shows "books_step c c'"
proof -
  have b: "booked c' = booked c"
    by (rule start_evaluate_frame [OF run]) (use quiet_registry(11) in \<open>auto simp: quiet_def booked_def\<close>)
  obtain f where "prepare_fee c payer (ac_fee op) = Inr f" using run by (auto simp: start_evaluate_def evaluate_def)
  from asset_create_fee_effect [OF S ok(1,3) this run, of 0] fee show ?thesis
    by (auto simp: even_iff_mod_2_eq_zero intro: books_booked [OF ok(2) b, of 0])
qed

lemma steps_books: "steps (nothing ()) c c' \<Longrightarrow> dgpo c' = dgpo c \<Longrightarrow> books_step c c'"
  by (auto simp: steps_def shifts_def books_step_def core_books_def nothing_def)

lemma content_books:
  assumes "safe_exact S" and "chain_ok c" "open_buyings_ok c" "\<not> skip_fee st" and "uses_pools op c"
    and run: "apply_content_operation S st e op c = Inr c'"
  shows "books_step c c'"
proof -
  have "safe_arith S" using assms(1) by unfold_locales
  from safe_arith.content_operation_step [OF this assms(2,3,5,4) run] content_operation_dgpo [OF run]
  show ?thesis by (rule steps_books)
qed

lemma nft_step:
  assumes S: "safe_exact S" and ok: "chain_ok c" "open_buyings_ok c" "\<not> skip_fee st" and run: "apply_nft_operation S st V ft r op' c = Inr c'"
  shows "books_step c c'"
  using run unfolding apply_nft_operation_def
  by (cases op')
    (auto intro: ledger_step [OF nft_contracts(1) [OF S] quiet_registry(6) ok] ledger_step [OF nft_contracts(2) [OF S] quiet_registry(7) ok]
      ledger_step [OF nft_contracts(3) [OF S] quiet_registry(8) ok] ledger_step [OF nft_contracts(4) [OF S] quiet_registry(9) ok]
      ledger_step [OF nft_contracts(5) [OF S] quiet_registry(10) ok])

lemma operation_step:
  assumes S: "safe_exact S" and ok: "chain_ok c" "open_buyings_ok c" "\<not> skip_fee st" and "operation_ok op' c"
    and run: "apply_operation S st e op' c = Inr c'"
  shows "books_step c c'"
proof -
  note ledger = ledger_step [OF transfer_obsolete_contract [OF S] quiet_evaluators(1) ok]
    ledger_step [OF transfer_contract [OF S] quiet_evaluators(2) ok] ledger_step [OF asset_issue_contract [OF S] quiet_evaluators(3) ok]
    ledger_step [OF asset_reserve_contract [OF S] quiet_evaluators(4) ok] ledger_step [OF asset_fund_pools_contract [OF S] quiet_evaluators(5) ok]
    ledger_step [OF monitored_asset_update_contract [OF S] quiet_evaluators(7) ok]
    ledger_step [OF user_issued_asset_update_contract [OF S] quiet_evaluators(8) ok]
    ledger_step [OF asset_publish_feeds_contract [OF S] quiet_evaluators(9) ok] ledger_step [OF uia_advanced_contract [OF S] quiet_evaluators(10) ok]
    ledger_step [OF vesting_balance_create_contract [OF S] quiet_evaluators(11) ok]
    ledger_step [OF vesting_balance_withdraw_contract [OF S] quiet_evaluators(12) ok]
    ledger_step [OF withdraw_permission_create_contract [OF S] quiet_evaluators(13) ok]
    ledger_step [OF withdraw_permission_update_contract [OF S] quiet_evaluators(14) ok]
    ledger_step [OF withdraw_permission_claim_contract [OF S] quiet_evaluators(15) ok]
    ledger_step [OF withdraw_permission_delete_contract [OF S] quiet_evaluators(16) ok]
    ledger_step [OF subscribe_contract [OF S] quiet_evaluators(17) ok]
    ledger_step [OF subscribe_by_author_contract [OF S] quiet_evaluators(18) ok]
    ledger_step [OF automatic_renewal_contract [OF S] quiet_evaluators(19) ok]
    ledger_step [OF account_create_contract [OF S] quiet_registry(1) ok] ledger_step [OF account_update_contract [OF S] quiet_registry(2) ok]
    ledger_step [OF miner_create_contract [OF S] quiet_registry(3) ok] ledger_step [OF miner_update_contract [OF S] quiet_registry(4) ok]
    ledger_step [OF miner_update_global_parameters_contract [OF S] quiet_registry(5) ok]
  show ?thesis
  proof (cases op')
    case (Asset_Claim_Fees op)
    then have "asset_claim_fees_validate op = Inr ()" using assms(5) by (simp add: operation_ok_def)
    from ledger_step [OF asset_claim_fees_contract [OF S this] quiet_evaluators(6) ok] show ?thesis
      using run Asset_Claim_Fees by (simp add: apply_operation_def)
  next
    case (On_Content op)
    then show ?thesis using run assms(5) content_books [OF S ok] by (simp add: apply_operation_def operation_ok_def)
  next
    case (Asset_Creation op)
    then show ?thesis using run assms(5) by (auto simp: apply_operation_def operation_ok_def intro: asset_create_step [OF S ok])
  next
    case (On_Nft op)
    then show ?thesis using run by (auto simp: apply_operation_def intro: nft_step [OF S ok])
  qed (insert run, (simp only: apply_operation_def chain_operation.case, erule ledger)+)
qed

section \<open>Blocks and maintenance\<close>

lemma books_dgpo:
  assumes "chain_ok c" "open_buyings_ok c" and "mined_rewards d = mined_rewards (dgpo c)"
    and "miner_budget_from_fees d = miner_budget_from_fees (dgpo c)" and "unspent_fee_budget d = unspent_fee_budget (dgpo c)"
  shows "books_step c (c\<lparr>dgpo := d\<rparr>)"
  using assms by (simp add: books_step_def core_books_def open_buyings_ok_def frame)

lemma books_miners: "chain_ok c \<Longrightarrow> open_buyings_ok c \<Longrightarrow> t_ok t \<Longrightarrow> books_step c (c\<lparr>miners := t\<rparr>)"
  by (simp add: books_step_def core_books_def open_buyings_ok_def frame)

lemma foldE_books:
  assumes "foldE f xs c = Inr c'" and "chain_ok c" "open_buyings_ok c"
    and "\<And>x c c'. chain_ok c \<Longrightarrow> open_buyings_ok c \<Longrightarrow> f x c = Inr c' \<Longrightarrow> books_step c c'"
  shows "books_step c c'"
proof (rule foldE_invariant [OF assms(1), where I = "books_step c"])
  show "books_step c c" using assms(2,3) by (simp add: books_step_def)
next
  fix x s s' assume "books_step c s" "f x s = Inr s'"
  then show "books_step c s'" using assms(4) [of s x s'] by (auto simp: books_step_def)
qed

lemma count_missed_step:
  assumes "chain_ok c" "open_buyings_ok c" and "count_missed b i c = Inr c'"
  shows "books_step c c'"
proof -
  consider "c' = c" | m f t where "t_modify miner_key m f (miners c) = Inr t" "c' = c\<lparr>miners := t\<rparr>"
    using assms(3) by (auto simp: count_missed_def split: if_splits)
  then show ?thesis
  proof cases
    case 1
    then show ?thesis using assms(1,2) by (simp add: books_step_def)
  next
    case 2
    then show ?thesis using assms(1,2) t_modify_keeps_ok [OF _ 2(1)] by (auto intro: books_miners simp: frame)
  qed
qed

lemma global_data_step:
  assumes "chain_ok c" "open_buyings_ok c" and "update_global_dynamic_data H shl cps skip b c = Inr (n, c')"
  shows "books_step c c'"
proof -
  from assms(3) obtain missed c1 where 1: "foldE (count_missed b) [0..<missed] c = Inr c1"
    and c': "c' = c1\<lparr>dgpo := advance_properties H shl cps b missed (dgpo c1)\<rparr>"
    by (auto simp: update_global_dynamic_data_def Let_def)
  have s: "books_step c c1" by (rule foldE_books [OF 1 assms(1,2) count_missed_step])
  have "books_step c1 c'"
    unfolding c' by (rule books_dgpo) (use s in \<open>simp_all add: books_step_def advance_properties_def\<close>)
  with s show ?thesis by (rule books_step_trans)
qed

lemma deposit_lazy_buyings: "deposit_lazy_vesting S v n secs owner rv c = Inr (k, c') \<Longrightarrow> buyings c' = buyings c"
  by (auto simp: deposit_lazy_vesting_def Let_def split: if_splits option.splits)

lemma deposit_miner_pay_buyings: "deposit_miner_pay S m n c = Inr c' \<Longrightarrow> buyings c' = buyings c"
  by (auto simp: deposit_miner_pay_def dest!: deposit_lazy_buyings split: if_splits option.splits)

lemma signing_miner_step:
  assumes "safe_exact S" and "chain_ok c" "open_buyings_ok c" and "update_signing_miner S m b c = Inr c'"
  shows "books_step c c'"
proof -
  from assms(4) obtain pay d c2 t where c2: "deposit_miner_pay S m pay (c\<lparr>dgpo := d\<rparr>) = Inr c2" and c': "c' = c2\<lparr>miners := t\<rparr>"
    by (auto simp: update_signing_miner_def Let_def)
  have "buyings c' = buyings c" using deposit_miner_pay_buyings [OF c2] by (simp add: c')
  then show ?thesis using signing_miner_books [OF assms(1,2,4)] assms(3) by (simp add: books_step_def open_buyings_ok_def)
qed

lemma irreversible_step:
  assumes "chain_ok c" "open_buyings_ok c" and "update_last_irreversible_block skip c = Inr c'"
  shows "books_step c c'"
proof -
  consider "c' = c" | n where "c' = c\<lparr>dgpo := (dgpo c)\<lparr>last_irreversible_block_num := n\<rparr>\<rparr>"
    using assms(3) by (auto simp: update_last_irreversible_block_def Let_def split: if_splits)
  then show ?thesis using assms(1,2) by cases (simp_all add: books_step_def core_books_def open_buyings_ok_def frame)
qed

lemma expired_feeds_step:
  assumes "chain_ok c" "open_buyings_ok c" and "update_expired_feeds nth_el c = Inr c'"
  shows "books_step c c'"
proof (rule foldE_books [OF assms(3) [unfolded update_expired_feeds_def] assms(1,2)])
  fix r c c'
  assume ok: "chain_ok c" "open_buyings_ok c" and st: "(case monitored_asset_opts (snd r) of None \<Rightarrow> Inr c
       | Some mo \<Rightarrow> if feed_is_expired mo (head_block_time c) then
             modify_asset (fst r) (\<lambda>ao. Inr (ao\<lparr>monitored_asset_opts :=
               map_option (update_median_feeds nth_el (head_block_time c)) (monitored_asset_opts ao)\<rparr>)) c
           else Inr c) = Inr c'"
  have "books_step c d" if "modify_asset k (\<lambda>ao. Inr (ao\<lparr>monitored_asset_opts := h ao\<rparr>)) c = Inr d" for k h d
    using settled_frame(3) [OF that] ok(2)
    by (auto intro: modify_asset_law [OF ok(1) that] simp: settled_def books_step_def core_books_def open_buyings_ok_def)
  then show "books_step c c'" using st ok by (auto simp: books_step_def split: option.splits if_splits)
qed

lemma quiet_update_step:
  assumes "chain_ok c" "open_buyings_ok c"
  shows "books_step c (update_maintenance_flag b c)" "books_step c (update_withdraw_permissions c)"
    and "update_miner_schedule c = Inr c' \<Longrightarrow> books_step c c'"
proof -
  show "books_step c (update_maintenance_flag b c)" unfolding update_maintenance_flag_def using assms by (intro books_dgpo) simp_all
  have "t_ok (fold (\<lambda>r. t_remove (fst r)) rows t)" if "t_ok t" for rows :: "(nat \<times> withdraw_permission_object) list" and t :: "withdraw_permission_object table"
    using that by (induction rows arbitrary: t) (auto simp: t_remove_law)
  then show "books_step c (update_withdraw_permissions c)"
    unfolding update_withdraw_permissions_def using assms by (simp add: books_step_def core_books_def open_buyings_ok_def frame)
  show "update_miner_schedule c = Inr c' \<Longrightarrow> books_step c c'"
    using assms by (auto simp: update_miner_schedule_def Let_def books_step_def core_books_def open_buyings_ok_def frame split: if_splits)
qed

lemma elect_miners_buyings:
  assumes "elect_miners S K c = Inr c'"
  shows "buyings c' = buyings c"
proof -
  from assms obtain t c1 wits n c2 c3 ms where 1: "tally_votes c = Inr (t, c1)" and 2: "rank_miners t wits c1 = Inr c2"
    and 3: "update_miner_authority t (take n wits) c2 = Inr c3" and c': "c' = c3\<lparr>gpo := (gpo c3)\<lparr>active_miners := ms\<rparr>\<rparr>"
    by (auto simp: elect_miners_def Let_def)
  have "buyings (snd (t, c1)) = buyings c"
    by (rule foldE_invariant [OF 1 [unfolded tally_votes_def], where I = "\<lambda>s. buyings (snd s) = buyings c"])
      (auto simp: tally_account_def Let_def split: if_splits)
  moreover have "buyings c2 = buyings c1"
    using 2 unfolding rank_miners_def by (rule foldE_frame) (auto simp: rank_miner_def)
  moreover have "buyings c3 = buyings c2" using 3 by (auto simp: update_miner_authority_def Let_def)
  ultimately show ?thesis by (simp add: c')
qed

lemma process_budget_buyings: "process_budget S K c = Inr c' \<Longrightarrow> buyings c' = buyings c"
  by (auto simp: process_budget_def modify_dyn_def Let_def)

lemma maintenance_step:
  assumes "safe_exact S" and "safe_no_assert S" and "chain_ok c" "open_buyings_ok c" and "subscription_prices_ok c"
    and run: "perform_chain_maintenance S K b c = Inr c'"
  shows "books_step c c'"
proof -
  from run obtain c1 c2 c3 where 1: "elect_miners S K c = Inr c1" and 2: "decent_housekeeping S c1 = Inr c2"
    and 3: "schedule_maintenance b (apply_pending_parameters c2) = Inr c3" and 4: "process_budget S K c3 = Inr c'"
    by (auto simp: perform_chain_maintenance_def)
  have k: "books_kept c c1" by (rule elect_miners_kept [OF assms(3) 1])
  have o1: "open_buyings_ok c1" using elect_miners_buyings [OF 1] assms(4) by (simp add: open_buyings_ok_def)
  have "subscription_prices_ok c1" using k assms(5) by (simp add: books_kept_def)
  from housekeeping_step [OF assms(1,2) books_keptD [OF k] this o1 2] have o2: "open_buyings_ok c2" by (simp add: steps_def)
  have "buyings c3 = buyings c2"
    using 3 by (auto simp: schedule_maintenance_def apply_pending_parameters_def split: option.splits if_splits)
  then have "open_buyings_ok c'" using o2 process_budget_buyings [OF 4] by (simp add: open_buyings_ok_def)
  then show ?thesis using maintenance_books [OF assms(1,2,3,5) run] by (simp add: books_step_def)
qed

section \<open>Runs of the chain\<close>

text \<open>
  \<open>H\<close> hashes block headers, \<open>K\<close> converts unsigned numbers. Which operations a block holds, in which
  order the updates run and when maintenance falls is left open: the code's order is one of the runs.
\<close>

inductive chain_run ::
  "safe \<Rightarrow> trx_state \<Rightarrow> chain_env \<Rightarrow> (nat \<Rightarrow> int res) \<Rightarrow> ('tx signed_block \<Rightarrow> opaque) \<Rightarrow> chain \<Rightarrow> chain \<Rightarrow> bool"
  for S st e K H c where
  chain_start: "chain_run S st e K H c c"
| chain_operation: "chain_run S st e K H c d \<Longrightarrow> operation_ok op' d \<Longrightarrow> apply_operation S st e op' d = Inr d' \<Longrightarrow>
    chain_run S st e K H c d'"
| chain_global: "chain_run S st e K H c d \<Longrightarrow> update_global_dynamic_data H shl cps skip b d = Inr (n, d') \<Longrightarrow> chain_run S st e K H c d'"
| chain_signing: "chain_run S st e K H c d \<Longrightarrow> update_signing_miner S m (b :: 'tx signed_block) d = Inr d' \<Longrightarrow> chain_run S st e K H c d'"
| chain_irreversible: "chain_run S st e K H c d \<Longrightarrow> update_last_irreversible_block skip d = Inr d' \<Longrightarrow> chain_run S st e K H c d'"
| chain_maintenance: "chain_run S st e K H c d \<Longrightarrow> subscription_prices_ok d \<Longrightarrow>
    perform_chain_maintenance S K (b :: 'tx signed_block) d = Inr d' \<Longrightarrow> chain_run S st e K H c d'"
| chain_flag: "chain_run S st e K H c d \<Longrightarrow> chain_run S st e K H c (update_maintenance_flag flag d)"
| chain_feeds: "chain_run S st e K H c d \<Longrightarrow> update_expired_feeds (ce_nth e) d = Inr d' \<Longrightarrow> chain_run S st e K H c d'"
| chain_permissions: "chain_run S st e K H c d \<Longrightarrow> chain_run S st e K H c (update_withdraw_permissions d)"
| chain_schedule: "chain_run S st e K H c d \<Longrightarrow> update_miner_schedule d = Inr d' \<Longrightarrow> chain_run S st e K H c d'"

lemma books_step_ok: "books_step c c' \<Longrightarrow> chain_ok c' \<and> open_buyings_ok c'"
  by (simp add: books_step_def)

lemma chain_run_step:
  assumes "safe_exact S" and "safe_no_assert S" and "\<not> skip_fee st" and "chain_ok c" and "open_buyings_ok c"
    and "chain_run S st e K H c c'"
  shows "books_step c c'"
  using assms(6)
proof induction
  case chain_start
  then show ?case using assms(4,5) by (simp add: books_step_def)
next
  case (chain_operation d op' d')
  with books_step_ok [OF chain_operation.IH] operation_step [OF assms(1) _ _ assms(3)] show ?case by (blast intro: books_step_trans)
next
  case (chain_global d shl cps skip b n d')
  with books_step_ok [OF chain_global.IH] global_data_step show ?case by (blast intro: books_step_trans)
next
  case (chain_signing d m b d')
  with books_step_ok [OF chain_signing.IH] signing_miner_step [OF assms(1)] show ?case by (blast intro: books_step_trans)
next
  case (chain_irreversible d skip d')
  with books_step_ok [OF chain_irreversible.IH] irreversible_step show ?case by (blast intro: books_step_trans)
next
  case (chain_maintenance d b d')
  with books_step_ok [OF chain_maintenance.IH] maintenance_step [OF assms(1,2)] show ?case by (blast intro: books_step_trans)
next
  case (chain_feeds d d')
  with books_step_ok [OF chain_feeds.IH] expired_feeds_step show ?case by (blast intro: books_step_trans)
qed (blast intro: books_step_trans quiet_update_step dest: books_step_ok)+

end
