(* ===== verification/Authority_Correct.thy ===== *)
theory Authority_Correct
  imports Authority
begin

text \<open>
  What the check of an authority decides. The specification has no state, no order and no bound on
  the depth: an account is authorized when it is approved from the start, or when the keys at hand and
  the accounts authorized in turn reach the threshold of its active authority.
\<close>

section \<open>Specification\<close>

definition key_weight :: "opaque set \<Rightarrow> (opaque \<times> nat) list \<Rightarrow> nat" where
  "key_weight K ks = sum_list (map (\<lambda>p. if fst p \<in> K then snd p else 0) ks)"

definition satisfied :: "opaque set \<Rightarrow> account_id_type set \<Rightarrow> authority \<Rightarrow> bool" where
  "satisfied K B au \<longleftrightarrow> weight_threshold au \<le> key_weight K (key_auths au) + key_weight B (account_auths au)"

inductive authorized :: "auth_source \<Rightarrow> opaque set \<Rightarrow> account_id_type set \<Rightarrow> account_id_type \<Rightarrow> bool"
  for ga K A where
  authorized_approved: "a \<in> A \<Longrightarrow> authorized ga K A a"
| authorized_active: "ga a = Inr (Some au) \<Longrightarrow> satisfied K B au \<Longrightarrow> (\<forall>b \<in> B. authorized ga K A b) \<Longrightarrow> authorized ga K A a"

abbreviation authority_satisfied :: "auth_source \<Rightarrow> opaque set \<Rightarrow> account_id_type set \<Rightarrow> authority \<Rightarrow> bool" where
  "authority_satisfied ga K A au \<equiv> satisfied K {b. authorized ga K A b} au"

lemma authorized_satisfied: "ga a = Inr (Some au) \<Longrightarrow> authority_satisfied ga K A au \<Longrightarrow> authorized ga K A a"
  by (rule authorized_active [where B = "{b. authorized ga K A b}"]) auto

text \<open>
  The specification with a bound on the depth; on the last level only keys count, and an authority
  with threshold zero has to be met one level higher up.
\<close>

primrec satisfied_within :: "auth_source \<Rightarrow> opaque set \<Rightarrow> account_id_type set \<Rightarrow> nat \<Rightarrow> authority \<Rightarrow> bool" where
  "satisfied_within ga K A 0 au \<longleftrightarrow> 0 < weight_threshold au \<and> satisfied K {} au"
| "satisfied_within ga K A (Suc n) au \<longleftrightarrow>
     satisfied K {b. b \<in> A \<or> (\<exists>bu. ga b = Inr (Some bu) \<and> satisfied_within ga K A n bu)} au"

lemma key_weight_simps [simp]:
  "key_weight K [] = 0"
  "key_weight K ((k, w) # ks) = (if k \<in> K then w else 0) + key_weight K ks"
  "key_weight {} ks = 0"
  by (simp_all add: key_weight_def)

lemma key_weight_mono: "K \<subseteq> L \<Longrightarrow> key_weight K ks \<le> key_weight L ks"
  by (induction ks) auto

lemma key_weight_le: "key_weight K ks \<le> sum_list (map snd ks)"
  by (induction ks) auto

lemma satisfied_mono: "satisfied K B au \<Longrightarrow> B \<subseteq> C \<Longrightarrow> satisfied K C au"
  using key_weight_mono [of B C "account_auths au"] by (simp add: satisfied_def)

section \<open>Keys\<close>

definition keys_of :: "sign_state \<Rightarrow> opaque set" where
  "keys_of s = dom (map_of (provided_signatures s)) \<union> set (available_keys s)"

definition used_of :: "sign_state \<Rightarrow> opaque set" where
  "used_of s = {k. map_of (provided_signatures s) k = Some True}"

definition given_of :: "sign_state \<Rightarrow> opaque set" where
  "given_of s = dom (map_of (provided_signatures s))"

lemma signed_by_law:
  assumes "signed_by k s = (b, s')"
  shows "b \<longleftrightarrow> k \<in> keys_of s" and "keys_of s' = keys_of s" and "approved_by s' = approved_by s"
    and "used_of s \<subseteq> used_of s'" and "used_of s' \<subseteq> insert k (used_of s)"
    and "given_of s \<subseteq> given_of s'"
  using assms by (auto simp: signed_by_def given_of_def keys_of_def used_of_def split: option.splits if_splits)

lemma weight_plus: "unat (tw + of_nat w :: 32 word) \<le> unat tw + w"
proof -
  have "unat (tw + of_nat w :: 32 word) = (unat tw + unat (of_nat w :: 32 word)) mod 2 ^ 32"
    by (simp add: unat_word_ariths)
  also have "\<dots> \<le> unat tw + unat (of_nat w :: 32 word)" by (rule mod_less_eq_dividend)
  also have "unat (of_nat w :: 32 word) \<le> w" by (simp add: unat_of_nat)
  finally show ?thesis by simp
qed

lemma weight_plus_exact: "unat tw + w < 2 ^ 32 \<Longrightarrow> unat (tw + of_nat w :: 32 word) = unat tw + w"
  by (simp add: unat_word_ariths unat_of_nat)

lemma check_keys_law:
  assumes "check_keys t ks tw s = (b, tw', s')"
  shows "keys_of s' = keys_of s \<and> approved_by s' = approved_by s \<and>
    unat tw' \<le> unat tw + key_weight (keys_of s) ks \<and> (b \<longrightarrow> t \<le> unat tw') \<and>
    used_of s \<subseteq> used_of s' \<and> used_of s' \<subseteq> fst ` set ks \<union> used_of s \<and> given_of s \<subseteq> given_of s'"
  using assms
proof (induction t ks tw s rule: check_keys.induct)
  case (1 t tw s)
  then show ?case by auto
next
  case (2 t k w ks tw s)
  obtain c s1 where c: "signed_by k s = (c, s1)" by (cases "signed_by k s")
  note l = signed_by_law [OF c]
  consider (no) "\<not> c" | (reached) "c" "t \<le> unat (tw + of_nat w)" | (more) "c" "\<not> t \<le> unat (tw + of_nat w)" by blast
  then show ?case
  proof cases
    case no
    then have r: "check_keys t ks tw s1 = (b, tw', s')" using "2.prems" c by simp
    show ?thesis using "2.IH"(2) [OF c [symmetric] no r] l no by auto
  next
    case reached
    then have "b" "tw' = tw + of_nat w" "s' = s1" using "2.prems" c by simp_all
    then show ?thesis using reached l weight_plus [of tw w] by auto
  next
    case more
    then have r: "check_keys t ks (tw + of_nat w) s1 = (b, tw', s')" using "2.prems" c by simp
    show ?thesis using "2.IH"(1) [OF c [symmetric] more r] l more weight_plus [of tw w] by auto
  qed
qed

lemma check_keys_exact:
  assumes "check_keys t ks tw s = (False, tw', s')" and "unat tw + sum_list (map snd ks) < 2 ^ 32"
  shows "unat tw' = unat tw + key_weight (keys_of s) ks"
  using assms
proof (induction t ks tw s rule: check_keys.induct)
  case (1 t tw s)
  then show ?case by simp
next
  case (2 t k w ks tw s)
  obtain c s1 where c: "signed_by k s = (c, s1)" by (cases "signed_by k s")
  note l = signed_by_law [OF c]
  have e: "unat (tw + of_nat w :: 32 word) = unat tw + w" using "2.prems"(2) by (intro weight_plus_exact) simp
  show ?case
  proof (cases c)
    case True
    then show ?thesis using "2.IH"(1) [OF c [symmetric]] "2.prems" c l e by (simp split: if_splits)
  next
    case False
    then show ?thesis using "2.IH"(2) [OF c [symmetric]] "2.prems" c l by simp
  qed
qed

section \<open>Soundness\<close>

definition sound_state :: "auth_source \<Rightarrow> opaque set \<Rightarrow> account_id_type set \<Rightarrow> sign_state \<Rightarrow> bool" where
  "sound_state ga K A s \<longleftrightarrow> keys_of s = K \<and> (\<forall>a \<in> set (approved_by s). authorized ga K A a)"

definition listed_keys :: "auth_source \<Rightarrow> opaque set" where
  "listed_keys ga = {k. \<exists>a au. ga a = Inr (Some au) \<and> k \<in> fst ` set (key_auths au)}"

definition keys_in :: "authority option \<Rightarrow> opaque set" where
  "keys_in au = (case au of None \<Rightarrow> {} | Some a \<Rightarrow> fst ` set (key_auths a))"

lemma keys_in_listed: "ga a = Inr au \<Longrightarrow> keys_in au \<subseteq> listed_keys ga"
  by (cases au) (auto simp: keys_in_def listed_keys_def)

definition sound_step :: "auth_source \<Rightarrow> opaque set \<Rightarrow> account_id_type set \<Rightarrow> opaque set \<Rightarrow> sign_state \<Rightarrow> sign_state \<Rightarrow> bool" where
  "sound_step ga K A R s s' \<longleftrightarrow> sound_state ga K A s' \<and> set (approved_by s) \<subseteq> set (approved_by s') \<and>
     used_of s \<subseteq> used_of s' \<and> used_of s' \<subseteq> R \<union> used_of s \<and> given_of s \<subseteq> given_of s'"

lemma sound_step_refl: "sound_state ga K A s \<Longrightarrow> sound_step ga K A R s s"
  by (simp add: sound_step_def)

lemma sound_step_trans: "sound_step ga K A R s s1 \<Longrightarrow> sound_step ga K A R s1 s2 \<Longrightarrow> sound_step ga K A R s s2"
  by (auto simp: sound_step_def)

lemma sound_step_mono: "sound_step ga K A R s s' \<Longrightarrow> R \<subseteq> R' \<Longrightarrow> sound_step ga K A R' s s'"
  by (auto simp: sound_step_def)

lemma approve_sel [simp]:
  "approved_by (approve a s) = List.insert a (approved_by s)" "keys_of (approve a s) = keys_of s" "used_of (approve a s) = used_of s"
  "given_of (approve a s) = given_of s"
  by (simp_all add: approve_def keys_of_def used_of_def given_of_def)

lemma sound_step_approve: "sound_state ga K A s \<Longrightarrow> authorized ga K A a \<Longrightarrow> sound_step ga K A R s (approve a s)"
  by (auto simp: sound_step_def sound_state_def)

lemma sound_step_state: "sound_step ga K A R s s' \<Longrightarrow> sound_state ga K A s'"
  by (simp add: sound_step_def)

lemma check_keys_sound:
  assumes "sound_state ga K A s" and "check_keys t ks tw s = (b, tw', s')"
  shows "sound_step ga K A (fst ` set ks) s s'" and "unat tw' \<le> unat tw + key_weight K ks" and "b \<Longrightarrow> t \<le> unat tw'"
  using check_keys_law [OF assms(2)] assms(1) by (auto simp: sound_step_def sound_state_def)

lemma check_sound:
  "check_authority ga m au d s = Inr (b, s') \<Longrightarrow> sound_state ga K A s \<Longrightarrow>
     sound_step ga K A (keys_in au \<union> listed_keys ga) s s' \<and> (b \<longrightarrow> (\<exists>a. au = Some a \<and> authority_satisfied ga K A a))"
  "check_accounts ga m t as tw d s = Inr (b, s') \<Longrightarrow> sound_state ga K A s \<Longrightarrow>
     sound_step ga K A (listed_keys ga) s s' \<and> (b \<longrightarrow> t \<le> unat tw + key_weight {a. authorized ga K A a} as)"
proof (induction ga m au d s and ga m t as tw d s arbitrary: b s' and b s' rule: check_authority_check_accounts.induct)
  case (1 ga m au d s)
  show ?case
  proof (cases au)
    case None
    then show ?thesis using "1.prems" by (auto simp: check_authority.simps intro: sound_step_refl)
  next
    case (Some a)
    obtain c tw s1 where c: "check_keys (weight_threshold a) (key_auths a) 0 s = (c, tw, s1)"
      by (cases "check_keys (weight_threshold a) (key_auths a) 0 s")
    note k = check_keys_sound [OF "1.prems"(2) c]
    have k1: "sound_step ga K A (keys_in au \<union> listed_keys ga) s s1"
      by (rule sound_step_mono [OF k(1)]) (simp add: keys_in_def Some)
    show ?thesis
    proof (cases c)
      case True
      then have "b" "s' = s1" using "1.prems"(1) c Some by (simp_all add: check_authority.simps)
      then show ?thesis using k k1 True Some by (simp add: satisfied_def)
    next
      case False
      then have r: "check_accounts ga m (weight_threshold a) (account_auths a) tw d s1 = Inr (b, s')"
        using "1.prems"(1) c Some by (simp add: check_authority.simps)
      from "1.IH" [OF Some c [symmetric] refl False r sound_step_state [OF k1]]
      have i: "sound_step ga K A (listed_keys ga) s1 s'"
        and w: "b \<longrightarrow> weight_threshold a \<le> unat tw + key_weight {a. authorized ga K A a} (account_auths a)" by blast+
      have "sound_step ga K A (keys_in au \<union> listed_keys ga) s s'"
        by (rule sound_step_trans [OF k1 sound_step_mono [OF i]]) simp
      then show ?thesis using w k(2) Some by (auto simp: satisfied_def)
    qed
  qed
next
  case (2 ga m t tw d s)
  then show ?case by (auto intro: sound_step_refl)
next
  case (3 ga m t a w as tw d s)
  show ?case
  proof (cases "a \<in> set (approved_by s)")
    case True
    then have au: "authorized ga K A a" using "3.prems"(2) by (simp add: sound_state_def)
    show ?thesis
    proof (cases "t \<le> unat (tw + of_nat w)")
      case reached: True
      then show ?thesis
        using True au "3.prems" weight_plus [of tw w] by (auto intro: sound_step_refl)
    next
      case False
      then have r: "check_accounts ga m t as (tw + of_nat w) d s = Inr (b, s')" using True "3.prems"(1) by simp
      show ?thesis using "3.IH"(4) [OF _ False r "3.prems"(2)] True au weight_plus [of tw w] by auto
    qed
  next
    case False
    show ?thesis
    proof (cases "d = m")
      case True
      then show ?thesis using False "3.prems" by (auto intro: sound_step_refl)
    next
      case depth: False
      from "3.prems"(1) False depth obtain au b1 s1 where au: "ga a = Inr au"
        and c: "check_authority ga m au (d + 1) s = Inr (b1, s1)"
        by auto
      from "3.IH"(1) [OF False depth au c "3.prems"(2)]
      have 1: "sound_step ga K A (keys_in au \<union> listed_keys ga) s s1"
        and sat: "b1 \<longrightarrow> (\<exists>x. au = Some x \<and> authority_satisfied ga K A x)" by blast+
      have s1: "sound_step ga K A (listed_keys ga) s s1"
        by (rule sound_step_mono [OF 1]) (use keys_in_listed [of ga a au, OF au] in auto)
      show ?thesis
      proof (cases b1)
        case True
        then have auth: "authorized ga K A a" using sat au authorized_satisfied by blast
        have s2: "sound_step ga K A (listed_keys ga) s (approve a s1)"
          by (rule sound_step_trans [OF s1 sound_step_approve [OF sound_step_state [OF s1] auth]])
        show ?thesis
        proof (cases "t \<le> unat (tw + of_nat w)")
          case reached: True
          then have "s' = approve a s1" using "3.prems"(1) False depth au c True by simp
          then show ?thesis using s2 reached auth weight_plus [of tw w] by auto
        next
          case more: False
          then have r: "check_accounts ga m t as (tw + of_nat w) d (approve a s1) = Inr (b, s')"
            using "3.prems"(1) False depth au c True by simp
          show ?thesis
            using "3.IH"(2) [OF False depth au c refl True more r sound_step_state [OF s2]] auth weight_plus [of tw w]
              sound_step_trans [OF s2] by auto
        qed
      next
        case no: False
        then have r: "check_accounts ga m t as tw d s1 = Inr (b, s')" using "3.prems"(1) False depth au c by simp
        show ?thesis
          using "3.IH"(3) [OF False depth au c refl no r sound_step_state [OF s1]] sound_step_trans [OF s1] by auto
      qed
    qed
  qed
qed

section \<open>Completeness\<close>

text \<open>Every account named exists, and the weights of an authority sum up below $2^{32}$.\<close>

definition weights_fit :: "authority \<Rightarrow> bool" where
  "weights_fit au \<longleftrightarrow> sum_list (map snd (key_auths au)) + sum_list (map snd (account_auths au)) < 2 ^ 32"

definition source_ok :: "auth_source \<Rightarrow> bool" where
  "source_ok ga \<longleftrightarrow> (\<forall>a. \<exists>au. ga a = Inr au \<and> (\<forall>x. au = Some x \<longrightarrow> weights_fit x))"

lemma check_returns:
  assumes "source_ok ga"
  shows "\<exists>b s'. check_authority ga m au d s = Inr (b, s')" and "\<exists>b s'. check_accounts ga m t as tw d s = Inr (b, s')"
  using assms
proof (induction ga m au d s and ga m t as tw d s rule: check_authority_check_accounts.induct)
  case (1 ga m au d s)
  show ?case
  proof (cases au)
    case None
    then have "check_authority ga m au d s = Inr (False, s)" by (simp add: check_authority.simps)
    then show ?thesis by blast
  next
    case (Some a)
    obtain c tw s1 where c: "check_keys (weight_threshold a) (key_auths a) 0 s = (c, tw, s1)"
      by (cases "check_keys (weight_threshold a) (key_auths a) 0 s")
    show ?thesis using "1.IH" [OF Some c [symmetric] refl _ "1.prems"] Some c by (cases c) (auto simp: check_authority.simps)
  qed
next
  case (2 ga m t tw d s)
  then show ?case by simp
next
  case (3 ga m t a w as tw d s)
  show ?case
  proof (cases "a \<in> set (approved_by s) \<or> d = m")
    case True
    then show ?thesis using 3 by auto
  next
    case False
    then have n: "a \<notin> set (approved_by s)" "d \<noteq> m" by simp_all
    obtain au where au: "ga a = Inr au" using "3.prems" by (auto simp: source_ok_def)
    obtain b1 s1 where c: "check_authority ga m au (d + 1) s = Inr (b1, s1)" using "3.IH"(1) [OF n au "3.prems"] by blast
    show ?thesis
      using "3.IH"(2) [OF n au c refl _ _ "3.prems"] "3.IH"(3) [OF n au c refl _ "3.prems"] n au c by (cases b1) auto
  qed
qed

lemma check_state:
  assumes "check_authority ga m au d s = Inr (b, s')"
  shows "keys_of s' = keys_of s" and "set (approved_by s) \<subseteq> set (approved_by s')"
proof -
  have "sound_state ga (keys_of s) (set (approved_by s)) s" by (simp add: sound_state_def authorized_approved)
  from check_sound(1) [OF assms this] show "keys_of s' = keys_of s" "set (approved_by s) \<subseteq> set (approved_by s')"
    by (simp_all add: sound_step_def sound_state_def)
qed

lemma check_accounts_complete:
  assumes g: "source_ok ga" and d: "d \<noteq> m"
    and IH: "\<And>bu s. satisfied_within ga K A n bu \<Longrightarrow> keys_of s = K \<Longrightarrow> A \<subseteq> set (approved_by s) \<Longrightarrow> weights_fit bu \<Longrightarrow>
      \<exists>s'. check_authority ga m (Some bu) (d + 1) s = Inr (True, s')"
    and B: "B = {b. b \<in> A \<or> (\<exists>bu. ga b = Inr (Some bu) \<and> satisfied_within ga K A n bu)}"
  shows "t \<le> unat tw + key_weight B as \<Longrightarrow> unat tw + sum_list (map snd as) < 2 ^ 32 \<Longrightarrow> keys_of s = K \<Longrightarrow>
    A \<subseteq> set (approved_by s) \<Longrightarrow> \<exists>s'. check_accounts ga m t as tw d s = Inr (True, s')"
proof (induction as arbitrary: tw s)
  case Nil
  then show ?case by simp
next
  case (Cons p as)
  obtain a w where p: "p = (a, w)" by (cases p)
  have e: "unat (tw + of_nat w :: 32 word) = unat tw + w" using Cons.prems(2) p by (intro weight_plus_exact) simp
  have counted: "\<exists>s'. check_accounts ga m t as (tw + of_nat w) d s1 = Inr (True, s')"
    if "keys_of s1 = K" "A \<subseteq> set (approved_by s1)" for s1
    by (rule Cons.IH) (use Cons.prems that p e in \<open>auto split: if_splits\<close>)
  show ?case
  proof (cases "a \<in> set (approved_by s)")
    case True
    then show ?thesis using counted [OF Cons.prems(3,4)] p by simp
  next
    case False
    obtain au where au: "ga a = Inr au" and fit: "\<And>x. au = Some x \<Longrightarrow> weights_fit x" using g by (auto simp: source_ok_def)
    obtain b1 s1 where c: "check_authority ga m au (d + 1) s = Inr (b1, s1)" using check_returns(1) [OF g] by blast
    have s1: "keys_of s1 = K" "A \<subseteq> set (approved_by s1)" using check_state [OF c] Cons.prems(3,4) by auto
    show ?thesis
    proof (cases b1)
      case True
      then show ?thesis using counted [of "approve a s1"] s1 False d au c p by auto
    next
      case no: False
      have "a \<notin> B"
        using IH [OF _ Cons.prems(3,4)] no c au fit False Cons.prems(4) unfolding B by fastforce
      then have "\<exists>s'. check_accounts ga m t as tw d s1 = Inr (True, s')"
        using Cons.IH [OF _ _ s1, of tw] Cons.prems(1,2) p by simp
      then show ?thesis using no False d au c p by simp
    qed
  qed
qed

lemma check_keys_below: "check_keys t ks tw s = (False, tw', s') \<Longrightarrow> unat tw < t \<Longrightarrow> unat tw' < t"
  by (induction t ks tw s rule: check_keys.induct) (auto split: prod.splits if_splits)

lemma check_authority_bounded:
  assumes g: "source_ok ga"
  shows "satisfied_within ga K A n au \<Longrightarrow> n \<le> unat (m - d) \<Longrightarrow> keys_of s = K \<Longrightarrow> A \<subseteq> set (approved_by s) \<Longrightarrow>
    weights_fit au \<Longrightarrow> \<exists>s'. check_authority ga m (Some au) d s = Inr (True, s')"
proof (induction n arbitrary: au d s)
  case 0
  obtain c tw s1 where c: "check_keys (weight_threshold au) (key_auths au) 0 s = (c, tw, s1)"
    by (cases "check_keys (weight_threshold au) (key_auths au) 0 s")
  have c
  proof (rule ccontr)
    assume "\<not> c"
    then have c': "check_keys (weight_threshold au) (key_auths au) 0 s = (False, tw, s1)" using c by simp
    have "unat tw = key_weight K (key_auths au)" using check_keys_exact [OF c'] "0.prems" by (simp add: weights_fit_def)
    then show False using check_keys_below [OF c'] "0.prems" by (simp add: satisfied_def)
  qed
  then show ?case using c by (simp add: check_authority.simps)
next
  case (Suc n)
  obtain c tw s1 where c: "check_keys (weight_threshold au) (key_auths au) 0 s = (c, tw, s1)"
    by (cases "check_keys (weight_threshold au) (key_auths au) 0 s")
  show ?case
  proof (cases c)
    case True
    then show ?thesis using c by (simp add: check_authority.simps)
  next
    case False
    then have c': "check_keys (weight_threshold au) (key_auths au) 0 s = (False, tw, s1)" using c by simp
    have tw: "unat tw = key_weight K (key_auths au)"
      using check_keys_exact [OF c'] Suc.prems by (simp add: weights_fit_def)
    have d: "d \<noteq> m" using Suc.prems(2) by auto
    have n: "n \<le> unat (m - (d + 1))" using Suc.prems(2) unat_minus_one [of "m - d"] d by (simp add: diff_diff_add [symmetric])
    have "\<exists>s'. check_accounts ga m (weight_threshold au) (account_auths au) tw d s1 = Inr (True, s')"
    proof (rule check_accounts_complete [OF g d _ refl])
      fix bu s assume "satisfied_within ga K A n bu" "keys_of s = K" "A \<subseteq> set (approved_by s)" "weights_fit bu"
      then show "\<exists>s'. check_authority ga m (Some bu) (d + 1) s = Inr (True, s')" using Suc.IH n by blast
    next
      show "weight_threshold au \<le> unat tw + key_weight {b. b \<in> A \<or> (\<exists>bu. ga b = Inr (Some bu) \<and> satisfied_within ga K A n bu)} (account_auths au)"
        using Suc.prems(1) tw by (simp add: satisfied_def)
      show "unat tw + sum_list (map snd (account_auths au)) < 2 ^ 32"
        using Suc.prems(5) tw key_weight_le [of K "key_auths au"] by (simp add: weights_fit_def)
    qed (use check_keys_law [OF c'] Suc.prems in auto)
    then show ?thesis using c' by (simp add: check_authority.simps)
  qed
qed

section \<open>The checks of a transaction\<close>

lemma foldE_sound:
  assumes "\<And>x s s'. x \<in> set xs \<Longrightarrow> f x s = Inr s' \<Longrightarrow> sound_state ga K A s \<Longrightarrow> sound_step ga K A R s s' \<and> P x"
  shows "foldE f xs s = Inr s' \<Longrightarrow> sound_state ga K A s \<Longrightarrow> sound_step ga K A R s s' \<and> (\<forall>x \<in> set xs. P x)"
  using assms
proof (induction xs arbitrary: s)
  case Nil
  then show ?case by (auto intro: sound_step_refl)
next
  case (Cons x xs)
  from Cons.prems(1) obtain s1 where 1: "f x s = Inr s1" and 2: "foldE f xs s1 = Inr s'" by auto
  have s1: "sound_step ga K A R s s1" "P x" using Cons.prems(3) [OF _ 1 Cons.prems(2)] by auto
  have "sound_step ga K A R s1 s' \<and> (\<forall>x \<in> set xs. P x)"
    by (rule Cons.IH [OF 2 sound_step_state [OF s1(1)]]) (use Cons.prems(3) in auto)
  then show ?case using s1 sound_step_trans by fastforce
qed

abbreviation owner_satisfied :: "auth_source \<Rightarrow> auth_source \<Rightarrow> opaque set \<Rightarrow> account_id_type set \<Rightarrow> account_id_type \<Rightarrow> bool" where
  "owner_satisfied ga go K A a \<equiv> \<exists>au. go a = Inr (Some au) \<and> authority_satisfied ga K A au"

lemma auth_sound:
  assumes "check_authority ga m au 0 s = Inr (b, s')" and "sound_state ga K A s" and "keys_in au \<union> listed_keys ga \<subseteq> R"
  shows "sound_step ga K A R s s' \<and> (b \<longrightarrow> (\<exists>x. au = Some x \<and> authority_satisfied ga K A x))"
  using check_sound(1) [OF assms(1,2)] assms(3) by (auto intro: sound_step_mono)

lemma account_sound:
  assumes "check_account ga m a s = Inr (b, s')" and "sound_state ga K A s" and "listed_keys ga \<subseteq> R"
  shows "sound_step ga K A R s s' \<and> (b \<longrightarrow> authorized ga K A a)"
proof (cases "a \<in> set (approved_by s)")
  case True
  then show ?thesis using assms by (auto simp: check_account_def sound_state_def intro: sound_step_refl)
next
  case False
  then obtain au where au: "ga a = Inr au" "check_authority ga m au 0 s = Inr (b, s')" using assms(1) by (auto simp: check_account_def)
  have "keys_in au \<union> listed_keys ga \<subseteq> R" using keys_in_listed [of ga a au, OF au(1)] assms(3) by auto
  from auth_sound [OF au(2) assms(2) this] show ?thesis using au(1) authorized_satisfied by blast
qed

lemma owner_sound:
  assumes "go a = Inr au" and "check_authority ga m au 0 s = Inr (True, s')" and "sound_state ga K A s"
    and "listed_keys ga \<union> listed_keys go \<subseteq> R"
  shows "sound_step ga K A R s s' \<and> owner_satisfied ga go K A a"
proof -
  have "keys_in au \<union> listed_keys ga \<subseteq> R" using keys_in_listed [of go a au, OF assms(1)] assms(4) by auto
  from auth_sound [OF assms(2,3) this] show ?thesis using assms(1) by blast
qed

lemma check_active_sound:
  assumes run: "check_active ga go m a s = Inr t" and ok: "sound_state ga K A s" and R: "listed_keys ga \<union> listed_keys go \<subseteq> R"
  shows "sound_step ga K A R s t \<and> (authorized ga K A a \<or> owner_satisfied ga go K A a)"
proof -
  from run obtain b s1 where b: "check_account ga m a s = Inr (b, s1)"
    and rest: "b \<and> t = s1 \<or> \<not> b \<and> (\<exists>au. go a = Inr au \<and> check_authority ga m au 0 s1 = Inr (True, t))"
    by (auto simp: check_active_def split: if_splits)
  have acc: "sound_step ga K A R s s1 \<and> (b \<longrightarrow> authorized ga K A a)" by (rule account_sound [OF b ok]) (use R in auto)
  show ?thesis
  proof (cases b)
    case True
    then show ?thesis using acc rest by simp
  next
    case False
    then obtain au where au: "go a = Inr au" "check_authority ga m au 0 s1 = Inr (True, t)" using rest by blast
    from owner_sound [OF au sound_step_state [OF conjunct1 [OF acc]] R] show ?thesis using acc sound_step_trans by blast
  qed
qed

lemma check_owner_sound:
  assumes "check_owner ga go m own a s = Inr t" and "sound_state ga K A s" and "listed_keys ga \<union> listed_keys go \<subseteq> R"
  shows "sound_step ga K A R s t \<and> (a \<in> set own \<or> owner_satisfied ga go K A a)"
proof (cases "a \<in> set own")
  case True
  then show ?thesis using assms by (auto simp: check_owner_def intro: sound_step_refl)
next
  case False
  then obtain au where "go a = Inr au" "check_authority ga m au 0 s = Inr (True, t)"
    using assms(1) by (auto simp: check_owner_def)
  from owner_sound [OF this assms(2,3)] show ?thesis by blast
qed

lemma check_required_sound:
  assumes ok: "sound_state ga K A s" and run: "check_required ga go m own r s = Inr s'"
    and R: "listed_keys ga \<union> listed_keys go \<subseteq> R" "\<And>au. au \<in> set (required_other r) \<Longrightarrow> fst ` set (key_auths au) \<subseteq> R"
  shows "sound_step ga K A R s s' \<and> (\<forall>au \<in> set (required_other r). authority_satisfied ga K A au) \<and>
    (\<forall>a \<in> set (required_active r). authorized ga K A a \<or> owner_satisfied ga go K A a) \<and>
    (\<forall>a \<in> set (required_owner r). a \<in> set own \<or> owner_satisfied ga go K A a)"
proof -
  from run obtain s1 s2 where 1: "foldE (check_other ga m) (required_other r) s = Inr s1"
    and 2: "foldE (check_active ga go m) (required_active r) s1 = Inr s2"
    and 3: "foldE (check_owner ga go m own) (required_owner r) s2 = Inr s'"
    by (auto simp: check_required_def)
  have "sound_step ga K A R s t \<and> authority_satisfied ga K A au"
    if "au \<in> set (required_other r)" "check_other ga m au s = Inr t" "sound_state ga K A s" for au s t
    using auth_sound [of ga m "Some au" s True t K A R] that R by (auto simp: check_other_def keys_in_def)
  then have o: "sound_step ga K A R s s1 \<and> (\<forall>au \<in> set (required_other r). authority_satisfied ga K A au)"
    using foldE_sound [OF _ 1 ok] by blast
  have a: "sound_step ga K A R s1 s2 \<and> (\<forall>a \<in> set (required_active r). authorized ga K A a \<or> owner_satisfied ga go K A a)"
    by (rule foldE_sound [OF _ 2 sound_step_state [OF conjunct1 [OF o]]]) (rule check_active_sound [OF _ _ R(1)])
  have w: "sound_step ga K A R s2 s' \<and> (\<forall>a \<in> set (required_owner r). a \<in> set own \<or> owner_satisfied ga go K A a)"
    by (rule foldE_sound [OF _ 3 sound_step_state [OF conjunct1 [OF a]]]) (rule check_owner_sound [OF _ _ R(1)])
  show ?thesis using o a w sound_step_trans by blast
qed

lemma fold_approve [simp]:
  "set (approved_by (fold approve as s)) = set as \<union> set (approved_by s)" "keys_of (fold approve as s) = keys_of s"
  "used_of (fold approve as s) = used_of s" "given_of (fold approve as s) = given_of s"
  by (induction as arbitrary: s) auto

lemma map_of_fold_put: "map_of (fold (\<lambda>k. put_row k v) ks ps) = (\<lambda>k. if k \<in> set ks then Some v else map_of ps k)"
  by (induction ks arbitrary: ps) (auto simp: fun_eq_iff)

lemma sign_state_of_law:
  "keys_of (sign_state_of sigs) = set sigs" "used_of (sign_state_of sigs) = {}" "given_of (sign_state_of sigs) = set sigs"
  "approved_by (sign_state_of sigs) = [GRAPHENE_TEMP_ACCOUNT]"
  by (auto simp: sign_state_of_def keys_of_def used_of_def given_of_def map_of_fold_put dom_def)

text \<open>No signature is left over exactly when all of them were used.\<close>

lemma all_used:
  assumes "\<not> fst (remove_unused_signatures s)" and "k \<in> given_of s"
  shows "k \<in> used_of s"
proof -
  from assms(2) obtain b where b: "map_of (provided_signatures s) k = Some b" by (auto simp: given_of_def)
  then have "(k, b) \<in> set (provided_signatures s)" by (rule map_of_SomeD)
  then have b using assms(1) by (auto simp: remove_unused_signatures_def unused_signatures_def filter_empty_conv)
  then show ?thesis using b by (simp add: used_of_def)
qed

section \<open>One signature\<close>

text \<open>The two versions of the check run in step: same answers, same approvals, same exceptions.\<close>

definition in_step :: "sign_state \<Rightarrow> sign_state1 \<Rightarrow> bool" where
  "in_step s s1 \<longleftrightarrow> approved_by s = approved_by1 s1 \<and> keys_of s = {provided_signature_key s1}"

abbreviation same_check :: "(bool \<times> sign_state) res \<Rightarrow> (bool \<times> sign_state1) res \<Rightarrow> bool" where
  "same_check \<equiv> rel_sum (=) (rel_prod (=) in_step)"

lemma rel_sum_bindE:
  assumes "rel_sum (=) P r r1" and "\<And>x y. P x y \<Longrightarrow> rel_sum (=) Q (f x) (g y)"
  shows "rel_sum (=) Q (bindE r f) (bindE r1 g)"
  using assms by (cases r; cases r1) auto

lemma in_step_approve: "in_step s s1 \<Longrightarrow> in_step (approve a s) (approve1 a s1)"
  by (simp add: in_step_def approve1_def)

lemma check_keys_in_step:
  assumes "in_step s s1"
  shows "\<exists>b w s'. check_keys t ks tw s = (b, w, s') \<and> check_keys1 t ks tw s1 = (b, w) \<and> in_step s' s1"
  using assms
proof (induction t ks tw s rule: check_keys.induct)
  case (1 t tw s)
  then show ?case by auto
next
  case (2 t k w ks tw s)
  obtain c s2 where c: "signed_by k s = (c, s2)" by (cases "signed_by k s")
  have i: "in_step s2 s1" "c \<longleftrightarrow> signed_by1 k s1"
    using signed_by_law [OF c] "2.prems" by (auto simp: in_step_def signed_by1_def)
  show ?case
    using "2.IH"(1) [OF c [symmetric] _ _ i(1)] "2.IH"(2) [OF c [symmetric] _ i(1)] i c by (cases c) auto
qed

lemma check_in_step:
  "in_step s s1 \<Longrightarrow> same_check (check_authority ga m au d s) (check_authority1 ga m au d s1)"
  "in_step s s1 \<Longrightarrow> same_check (check_accounts ga m t as tw d s) (check_accounts1 ga m t as tw d s1)"
proof (induction ga m au d s and ga m t as tw d s arbitrary: s1 and s1 rule: check_authority_check_accounts.induct)
  case (1 ga m au d s)
  show ?case
  proof (cases au)
    case None
    then show ?thesis using 1 by (simp add: check_authority.simps check_authority1.simps)
  next
    case (Some a)
    from check_keys_in_step [OF "1.prems"] obtain b w s2 where c: "check_keys (weight_threshold a) (key_auths a) 0 s = (b, w, s2)"
      and c1: "check_keys1 (weight_threshold a) (key_auths a) 0 s1 = (b, w)" and i: "in_step s2 s1" by blast
    show ?thesis
      using "1.IH" [OF Some c [symmetric] refl _ i] Some c c1 i by (simp add: check_authority.simps check_authority1.simps)
  qed
next
  case (2 ga m t tw d s)
  then show ?case by simp
next
  case (3 ga m t a w as tw d s)
  have app: "set (approved_by1 s1) = set (approved_by s)" using "3.prems" by (simp add: in_step_def)
  show ?case
  proof (cases "a \<in> set (approved_by s)")
    case True
    then show ?thesis using "3.IH"(4) [OF _ _ "3.prems"] "3.prems" app by simp
  next
    case False
    show ?thesis
    proof (cases "d = m")
      case True
      then show ?thesis using False "3.prems" app by simp
    next
      case depth: False
      have rest: "same_check (case p of (b, s2) \<Rightarrow> if b then (if t \<le> unat (tw + of_nat w) then Inr (True, approve a s2)
              else check_accounts ga m t as (tw + of_nat w) d (approve a s2)) else check_accounts ga m t as tw d s2)
          (case q of (b, s2) \<Rightarrow> if b then (if t \<le> unat (tw + of_nat w) then Inr (True, approve1 a s2)
              else check_accounts1 ga m t as (tw + of_nat w) d (approve1 a s2)) else check_accounts1 ga m t as tw d s2)"
        if "ga a = Inr au" "check_authority ga m au (d + 1) s = Inr p" "rel_prod (=) in_step p q" for au p q
        using "3.IH"(2) [OF False depth that(1,2)] "3.IH"(3) [OF False depth that(1,2)] that(3)
        by (cases p; cases q) (auto intro: in_step_approve)
      show ?thesis
      proof (cases "ga a")
        case (Inl e)
        then show ?thesis using False depth app by simp
      next
        case (Inr au)
        note i = "3.IH"(1) [OF False depth Inr "3.prems"]
        show ?thesis
        proof (cases "check_authority ga m au (d + 1) s")
          case (Inl e)
          then show ?thesis using i Inr False depth app by (cases "check_authority1 ga m au (d + 1) s1") simp_all
        next
          case p: (Inr p)
          then obtain q where q: "check_authority1 ga m au (d + 1) s1 = Inr q" "rel_prod (=) in_step p q"
            using i by (cases "check_authority1 ga m au (d + 1) s1") simp_all
          show ?thesis using rest [OF Inr p q(2)] Inr False depth app p q(1) by simp
        qed
      qed
    qed
  qed
qed

lemma rel_sum_foldE:
  assumes "\<And>x s s1. R s s1 \<Longrightarrow> rel_sum (=) R (f x s) (g x s1)"
  shows "R s s1 \<Longrightarrow> rel_sum (=) R (foldE f xs s) (foldE g xs s1)"
  by (induction xs arbitrary: s s1) (auto intro!: rel_sum_bindE [where P = R] assms)

lemma rel_sum_refl: "rel_sum (=) (=) (r :: 'a res) r"
  by (cases r) simp_all

lemma check_account_in_step: "in_step s s1 \<Longrightarrow> same_check (check_account ga m a s) (check_account1 ga m a s1)"
  unfolding check_account_def check_account1_def
  by (auto simp: in_step_def intro!: rel_sum_bindE [OF rel_sum_refl] check_in_step)

lemma required_in_step:
  assumes "in_step s s1"
  shows "rel_sum (=) in_step (check_other ga m au s) (check_other1 ga m au s1)"
    and "rel_sum (=) in_step (check_active ga go m a s) (check_active1 ga go m a s1)"
    and "rel_sum (=) in_step (check_owner ga go m [] a s) (check_owner1 ga go m a s1)"
  unfolding check_other_def check_other1_def check_active_def check_active1_def check_owner_def check_owner1_def
  by (auto simp: assms require_def intro!: rel_sum_bindE [OF rel_sum_refl] rel_sum_bindE [where P = "rel_prod (=) in_step"]
      check_in_step check_account_in_step)

lemma sign_state1_in_step: "in_step (sign_state_of [k]) (sign_state1_of k)"
  by (simp add: in_step_def sign_state_of_law sign_state1_of_def)

text \<open>A loop that keeps the keys it may drop one by one.\<close>

lemma drop_keys_law:
  "foldE (drop_key req ops ga go m) ks r = Inr r' \<Longrightarrow> set r' \<subseteq> set r \<and>
   (verify_authority req ops r ga go m False [] [] = Inr () \<longrightarrow> verify_authority req ops r' ga go m False [] [] = Inr ())"
proof (induction ks arbitrary: r)
  case Nil
  then show ?case by simp
next
  case (Cons k ks)
  then obtain r1 where 1: "drop_key req ops ga go m k r = Inr r1" and 2: "foldE (drop_key req ops ga go m) ks r1 = Inr r'" by auto
  have "set r1 \<subseteq> set r \<and> (verify_authority req ops r ga go m False [] [] = Inr () \<longrightarrow> verify_authority req ops r1 ga go m False [] [] = Inr ())"
    using 1 set_remove1_subset [of k r] by (auto simp: drop_key_def split: sum.splits if_splits)
  then show ?case using Cons.IH [OF 2] by blast
qed

section \<open>Properties\<close>

text \<open>
  The accounts whose authorities lie at most \<open>n\<close> levels below an authority, and the accounts as
  they look to someone who sees no others.
\<close>

primrec consulted_below :: "auth_source \<Rightarrow> nat \<Rightarrow> (account_id_type \<times> nat) list \<Rightarrow> account_id_type set" where
  "consulted_below ga 0 as = {}"
| "consulted_below ga (Suc n) as = {x. x \<in> fst ` set as \<or> (\<exists>b bu. b \<in> fst ` set as \<and> ga b = Inr (Some bu) \<and> x \<in> consulted_below ga n (account_auths bu))}"

definition seen_within :: "auth_source \<Rightarrow> nat \<Rightarrow> authority \<Rightarrow> auth_source" where
  "seen_within ga n au a = (if a \<in> consulted_below ga n (account_auths au) then ga a else Inr None)"

lemma consulted_below_mono: "set as \<subseteq> set bs \<Longrightarrow> consulted_below ga n as \<subseteq> consulted_below ga n bs"
  by (cases n) (simp, fastforce)

lemma levels_left: "depth \<noteq> m \<Longrightarrow> unat (m - depth) = Suc (unat (m - (depth + 1)))" for m :: "32 word"
proof -
  assume "depth \<noteq> m"
  then have "m - depth \<noteq> 0" by simp
  then show ?thesis using unat_gt_0 [of "m - depth"] by (simp add: diff_diff_add [symmetric] unat_minus_one)
qed

text \<open>The check consults no account that is further below.\<close>

lemma check_consults:
  "(\<And>x b. au = Some x \<Longrightarrow> b \<in> consulted_below ga (unat (m - d)) (account_auths x) \<Longrightarrow> ga' b = ga b) \<Longrightarrow>
     check_authority ga' m au d s = check_authority ga m au d s"
  "(\<And>b. b \<in> consulted_below ga (unat (m - d)) as \<Longrightarrow> ga' b = ga b) \<Longrightarrow>
     check_accounts ga' m t as tw d s = check_accounts ga m t as tw d s"
proof (induction ga m au d s and ga m t as tw d s rule: check_authority_check_accounts.induct)
  case (1 ga m au d s)
  then show ?case by (auto simp: check_authority.simps [of ga'] check_authority.simps [of ga] split: option.splits prod.splits)
next
  case (2 ga m t tw d s)
  then show ?case by simp
next
  case (3 ga m t a w as tw d s)
  have sub: "consulted_below ga (unat (m - d)) as \<subseteq> consulted_below ga (unat (m - d)) ((a, w) # as)" by (rule consulted_below_mono) auto
  have rest: "ga' b = ga b" if "b \<in> consulted_below ga (unat (m - d)) as" for b using that sub "3.prems" by blast
  show ?case
  proof (cases "a \<notin> set (approved_by s) \<and> d \<noteq> m")
    case True
    then have n: "unat (m - d) = Suc (unat (m - (d + 1)))" by (simp add: levels_left)
    have ga: "ga' a = ga a" by (rule "3.prems") (simp add: n)
    have inner: "check_authority ga' m au (d + 1) s = check_authority ga m au (d + 1) s" if "ga a = Inr au" for au
    proof (rule "3.IH"(1))
      fix x b
      assume "au = Some x" "b \<in> consulted_below ga (unat (m - (d + 1))) (account_auths x)"
      then show "ga' b = ga b" using that by (intro "3.prems") (auto simp: n)
    qed (use True that in auto)
    show ?thesis
      using True "3.IH"(2,3) rest
      by (cases "ga a") (auto simp: ga inner bindE_def split: sum.splits prod.splits)
  next
    case False
    then show ?thesis using "3.IH"(4) rest by auto
  qed
qed

lemma check_within:
  "check_authority (seen_within ga (unat m) au) m (Some au) 0 s = check_authority ga m (Some au) 0 s"
  by (rule check_consults(1)) (simp add: seen_within_def)


text \<open>
  C12. What \<open>verify_authority\<close> accepts, the check for transactions with several or no signatures and
  for proposals: every authority the operations require is satisfied by the keys that signed and the
  approvals given, an account that is required with its active authority also through its owner
  authority; outside proposals the miner account is not among them; and the key of every
  signature is listed in one of the required authorities or in the authority of some account.
\<close>

theorem verify_authority_sound:
  assumes run: "verify_authority req ops sigs ga go m allow acts owns = Inr ()"
    and r: "r = get_required_authorities req ops" and A: "A = insert GRAPHENE_TEMP_ACCOUNT (set acts \<union> set owns)"
  shows "(\<forall>au \<in> set (required_other r). authority_satisfied ga (set sigs) A au) \<and>
    (\<forall>a \<in> set (required_active r). authorized ga (set sigs) A a \<or>
       (\<exists>au. go a = Inr (Some au) \<and> authority_satisfied ga (set sigs) A au)) \<and>
    (\<forall>a \<in> set (required_owner r). a \<in> set owns \<or>
       (\<exists>au. go a = Inr (Some au) \<and> authority_satisfied ga (set sigs) A au)) \<and>
    (allow \<or> GRAPHENE_MINER_ACCOUNT \<notin> set (required_active r)) \<and>
    set sigs \<subseteq> (\<Union>au \<in> set (required_other r). fst ` set (key_auths au)) \<union> listed_keys ga \<union> listed_keys go"
proof -
  let ?R = "(\<Union>au \<in> set (required_other r). fst ` set (key_auths au)) \<union> listed_keys ga \<union> listed_keys go"
  let ?s = "fold approve (acts @ owns) (sign_state_of sigs)"
  from run obtain s' where com: "allow \<or> GRAPHENE_MINER_ACCOUNT \<notin> set (required_active r)"
    and c: "check_required ga go m owns r ?s = Inr s'" and u: "\<not> fst (remove_unused_signatures s')"
    by (auto simp: verify_authority_def r Let_def split: if_splits)
  have s: "sound_state ga (set sigs) A ?s"
    by (auto simp: sound_state_def sign_state_of_law A simp del: fold_append intro: authorized_approved)
  have k: "sound_step ga (set sigs) A ?R ?s s' \<and> (\<forall>au \<in> set (required_other r). authority_satisfied ga (set sigs) A au) \<and>
    (\<forall>a \<in> set (required_active r). authorized ga (set sigs) A a \<or> owner_satisfied ga go (set sigs) A a) \<and>
    (\<forall>a \<in> set (required_owner r). a \<in> set owns \<or> owner_satisfied ga go (set sigs) A a)"
    by (rule check_required_sound [OF s c]) auto
  have "set sigs \<subseteq> given_of s'" "used_of s' \<subseteq> ?R"
    using k by (simp_all add: sound_step_def sign_state_of_law del: fold_append)
  then have "set sigs \<subseteq> ?R" using all_used [OF u] by blast
  then show ?thesis using com k by blast
qed

text \<open>
  The check for transactions with one signature is equivalent to the general one that admits the
  miner account, except that it does not look whether the signature was needed: it raises the same
  exception, or both accept, or the general one finds the signature irrelevant.
\<close>

lemma single_signature_equivalent:
  "verify_authority req ops [k] ga go m True [] [] \<in>
     (case verify_authority1 req ops k ga go m of Inl e \<Rightarrow> {Inl e} | Inr u \<Rightarrow> {Inr (), Inl Tx_Irrelevant_Sig})"
proof -
  let ?r = "get_required_authorities req ops"
  have "rel_sum (=) in_step (check_required ga go m [] ?r (sign_state_of [k]))
     (bindE (foldE (check_other1 ga m) (required_other ?r) (sign_state1_of k)) (\<lambda>s1.
      bindE (foldE (check_active1 ga go m) (required_active ?r) s1) (\<lambda>s2. foldE (check_owner1 ga go m) (required_owner ?r) s2)))"
    unfolding check_required_def
    by (intro rel_sum_bindE [where P = in_step] rel_sum_foldE required_in_step sign_state1_in_step)
  then show ?thesis
    by (cases "check_required ga go m [] ?r (sign_state_of [k])")
      (auto simp: verify_authority_def verify_authority1_def Let_def require_def bindE_def split: sum.splits)
qed

text \<open>
  C37. A transaction that needs the miner account is refused as one that may only be proposed, unless
  it carries exactly one signature: then it is accepted whenever the check for proposals, which
  admits the miner account, accepts that signature.
\<close>

theorem committee_check_bypassed:
  assumes "GRAPHENE_MINER_ACCOUNT \<in> set (required_active (get_required_authorities req ops))"
  shows "(length sigs \<noteq> 1 \<longrightarrow> trx_verify_authority req ops sigs ga go m = Inl Invalid_Committee_Approval) \<and>
    (verify_authority req ops [k] ga go m True [] [] = Inr () \<longrightarrow> trx_verify_authority req ops [k] ga go m = Inr ())"
proof (intro conjI impI)
  assume "length sigs \<noteq> 1"
  then have "trx_verify_authority req ops sigs ga go m = verify_authority req ops sigs ga go m False [] []"
    by (auto simp: trx_verify_authority_def split: list.splits)
  then show "trx_verify_authority req ops sigs ga go m = Inl Invalid_Committee_Approval"
    using assms by (simp add: verify_authority_def Let_def)
next
  assume v: "verify_authority req ops [k] ga go m True [] [] = Inr ()"
  show "trx_verify_authority req ops [k] ga go m = Inr ()"
    using single_signature_equivalent [of req ops k ga go m] v
    by (cases "verify_authority1 req ops k ga go m") (simp_all add: trx_verify_authority_def)
qed

text \<open>
  The signatures that are computed to be required are among the keys at hand; minimizing them keeps
  what they establish: if the signatures verify, those that are left verify as well.
\<close>

theorem minimized_signatures_verify:
  assumes "minimize_required_signatures req ops sig_keys avail ga go m = Inr ks"
  shows "set ks \<subseteq> set avail \<and> (\<exists>full. get_required_signatures req ops sig_keys avail ga go m = Inr full \<and> set ks \<subseteq> set full \<and>
    (verify_authority req ops full ga go m False [] [] = Inr () \<longrightarrow> verify_authority req ops ks ga go m False [] [] = Inr ()))"
proof -
  from assms obtain full where f: "get_required_signatures req ops sig_keys avail ga go m = Inr full"
    and d: "foldE (drop_key req ops ga go m) full full = Inr ks" by (auto simp: minimize_required_signatures_def)
  have "set full \<subseteq> set avail" using f by (auto simp: get_required_signatures_def Let_def)
  then show ?thesis using drop_keys_law [OF d] f by blast
qed

section \<open>Concrete instances\<close>

definition demo_miner_required :: "unit \<Rightarrow> required_auths \<Rightarrow> required_auths" where
  "demo_miner_required u r = r\<lparr>required_active := [GRAPHENE_MINER_ACCOUNT]\<rparr>"

definition demo_source :: auth_source where
  "demo_source a = Inr (if a = 0 then Some \<lparr>weight_threshold = 2, account_auths = [(5, 1), (6, 2)], key_auths = []\<rparr>
     else if a = 6 then Some \<lparr>weight_threshold = 1, account_auths = [], key_auths = [(7, 1), (8, 1)]\<rparr> else None)"

theorem committee_check_bypassed_witness:
  "trx_verify_authority demo_miner_required [()] [7] demo_source demo_source 2 = Inr () \<and>
   trx_verify_authority demo_miner_required [()] [7, 8] demo_source demo_source 2 = Inl Invalid_Committee_Approval"
proof -
  have r: "GRAPHENE_MINER_ACCOUNT \<in> set (required_active (get_required_authorities demo_miner_required [()]))"
    and v: "verify_authority demo_miner_required [()] [7] demo_source demo_source 2 True [] [] = Inr ()" by code_simp+
  show ?thesis
    using committee_check_bypassed [OF r, of "[7, 8]" demo_source demo_source 2 7] v by simp
qed

lemma demo_source_ok: "source_ok demo_source"
  by (auto simp: source_ok_def demo_source_def weights_fit_def)


theorem verify_authority_sound_witness:
  "authorized demo_source {7} {2} 0"
proof -
  have r: "verify_authority demo_miner_required [()] [7] demo_source demo_source 2 True [] [] = Inr ()" by code_simp
  from verify_authority_sound [OF r refl refl] show ?thesis
    by (auto simp: get_required_authorities_def demo_miner_required_def GRAPHENE_MINER_ACCOUNT_def GRAPHENE_TEMP_ACCOUNT_def
        intro: authorized_satisfied)
qed

definition demo_account_required :: "unit \<Rightarrow> required_auths \<Rightarrow> required_auths" where
  "demo_account_required u r = r\<lparr>required_active := [6]\<rparr>"

theorem minimized_signatures_verify_witness:
  "verify_authority demo_account_required [()] [7] demo_source demo_source 2 False [] [] = Inr () \<and> set [7 :: opaque] \<subseteq> {7, 8}"
proof -
  have r: "minimize_required_signatures demo_account_required [()] [] [7, 8] demo_source demo_source 2 = Inr [7]"
    and f: "get_required_signatures demo_account_required [()] [] [7, 8] demo_source demo_source 2 = Inr [7]"
    and v: "verify_authority demo_account_required [()] [7] demo_source demo_source 2 False [] [] = Inr ()"
    by code_simp+
  from minimized_signatures_verify [OF r] f v show ?thesis by auto
qed

end
