(* ===== verification/Operations.thy ===== *)
theory Operations
  imports Chain_Run Authority_Correct
begin

text \<open>
  The operations of the protocol as one type, what each requires of signatures and when it is valid:
  \<open>protocol/operations.hpp\<close>, \<open>protocol/operations.cpp\<close>, \<open>protocol/proposal.cpp\<close>, \<open>protocol/assert.cpp\<close>
  and \<open>protocol/custom.cpp\<close>. A proposal holds operations, so that the type is recursive. Virtual
  operations, whose validation always fails, have no constructor.
\<close>

section \<open>Operations beside those on the ledger\<close>

text \<open>\<open>'op\<close> stands for the type of operations, which \<open>op\_wrapper\<close> closes over in the code.\<close>

datatype 'op proposal_create_operation =
  Proposal_Create_Operation (prc_fee: asset) (prc_fee_paying_account: account_id_type) (prc_proposed_ops: "'op list")
    (prc_expiration_time: time_point_sec) (prc_review_period_seconds: "nat option")

record proposal_update_operation =
  pru_fee_paying_account :: account_id_type
  pru_fee :: asset
  pru_proposal :: nat
  active_approvals_to_add :: "account_id_type list"
  active_approvals_to_remove :: "account_id_type list"
  owner_approvals_to_add :: "account_id_type list"
  owner_approvals_to_remove :: "account_id_type list"
  key_approvals_to_add :: "opaque list"
  key_approvals_to_remove :: "opaque list"

record proposal_delete_operation =
  prd_fee_paying_account :: account_id_type
  prd_using_owner_authority :: bool
  prd_fee :: asset
  prd_proposal :: nat

datatype predicate =
    Account_Name_Eq_Lit account_id_type string
  | Asset_Symbol_Eq_Lit asset_id_type string
  | Block_Id_Is block_id_type

record assert_operation =
  ass_fee :: asset
  ass_fee_paying_account :: account_id_type
  ass_predicates :: "predicate list"
  ass_required_auths :: "account_id_type list"

record custom_operation =
  cu_fee :: asset
  cu_payer :: account_id_type
  cu_required_auths :: "account_id_type list"
  cu_id :: nat
  cu_data :: opaque

datatype operation =
    On_Ledger chain_operation
  | Proposal_Create "operation proposal_create_operation"
  | Proposal_Update proposal_update_operation
  | Proposal_Delete proposal_delete_operation
  | Assertion assert_operation
  | Custom custom_operation

section \<open>Who pays and who has to sign\<close>

definition content_operation_fee_payer :: "content_operation \<Rightarrow> account_id_type" where
  "content_operation_fee_payer op' =
     (case op' of Set_Manager op \<Rightarrow> spm_from op | Set_Right op \<Rightarrow> spr_from op | Submit op \<Rightarrow> cs_author op
      | Cancel op \<Rightarrow> cc_author op | Buy op \<Rightarrow> rb_consumer op | Deliver op \<Rightarrow> dk_seeder op | Rate op \<Rightarrow> lr_consumer op
      | Publish_Obsolete op \<Rightarrow> rp_seeder op | Publish op \<Rightarrow> rp_seeder op | Custody op \<Rightarrow> pc_seeder op
      | Report op \<Rightarrow> rs_consumer op)"

definition chain_operation_fee_payer :: "chain_operation \<Rightarrow> account_id_type" where
  "chain_operation_fee_payer op' =
     (case op' of
        Transfer_Obsolete op \<Rightarrow> tro_from op | Transfer_To op \<Rightarrow> tr_from op
      | Asset_Issue op \<Rightarrow> ai_issuer op | Asset_Reserve op \<Rightarrow> ar_payer op
      | Asset_Fund_Pools op \<Rightarrow> fp_from_account op | Asset_Claim_Fees op \<Rightarrow> cf_issuer op
      | Update_Monitored op \<Rightarrow> um_issuer op | Update_User_Issued op \<Rightarrow> uu_issuer op | Update_Advanced op \<Rightarrow> ua_issuer op
      | Publish_Feed op \<Rightarrow> pf_publisher op | Vesting_Create op \<Rightarrow> vc_creator op | Vesting_Withdraw op \<Rightarrow> vw_owner op
      | Permission_Create op \<Rightarrow> wpc_withdraw_from_account op | Permission_Update op \<Rightarrow> wpu_withdraw_from_account op
      | Permission_Claim op \<Rightarrow> wpl_withdraw_to_account op | Permission_Delete op \<Rightarrow> wpd_withdraw_from_account op
      | Subscribe op \<Rightarrow> su_from op | Subscribe_By_Author op \<Rightarrow> sba_from op | Automatic_Renewal op \<Rightarrow> ars_consumer op
      | On_Content op \<Rightarrow> content_operation_fee_payer op | Asset_Creation op \<Rightarrow> asset_create_fee_payer op
      | Account_Creation op \<Rightarrow> acr_registrar op | Account_Change op \<Rightarrow> au_account op
      | Miner_Creation op \<Rightarrow> mc_miner_account op | Miner_Change op \<Rightarrow> mu_miner_account op
      | Miner_Parameters op \<Rightarrow> GRAPHENE_MINER_ACCOUNT | On_Nft op \<Rightarrow> nft_operation_fee_payer op)"

definition operation_fee_payer :: "operation \<Rightarrow> account_id_type" where
  "operation_fee_payer op' =
     (case op' of On_Ledger op \<Rightarrow> chain_operation_fee_payer op | Proposal_Create op \<Rightarrow> prc_fee_paying_account op
      | Proposal_Update op \<Rightarrow> pru_fee_paying_account op | Proposal_Delete op \<Rightarrow> prd_fee_paying_account op
      | Assertion op \<Rightarrow> ass_fee_paying_account op | Custom op \<Rightarrow> cu_payer op)"

text \<open>
  The accounts whose active and owner authorities an operation requires beside the fee payer, and the
  authorities of other kinds. The right to appoint publishing managers is that of account 15.
\<close>

definition get_required_active_authorities :: "operation \<Rightarrow> account_id_type list" where
  "get_required_active_authorities op' =
     (case op' of
        On_Ledger (Account_Creation op) \<Rightarrow> [acr_registrar op]
      | On_Ledger (Account_Change op) \<Rightarrow> if au_owner op = None then [au_account op] else []
      | On_Ledger (On_Content (Set_Manager op)) \<Rightarrow> [15]
      | Proposal_Update op \<Rightarrow> active_approvals_to_add op @ active_approvals_to_remove op
      | _ \<Rightarrow> [])"

definition get_required_owner_authorities :: "operation \<Rightarrow> account_id_type list" where
  "get_required_owner_authorities op' =
     (case op' of
        On_Ledger (Account_Change op) \<Rightarrow> if au_owner op \<noteq> None then [au_account op] else []
      | Proposal_Update op \<Rightarrow> owner_approvals_to_add op @ owner_approvals_to_remove op
      | _ \<Rightarrow> [])"

definition key_approval_authority :: "proposal_update_operation \<Rightarrow> authority" where
  "key_approval_authority op =
     (let auth = fold (\<lambda>k. add_key_authority k 1) (key_approvals_to_add op @ key_approvals_to_remove op)
                   \<lparr>weight_threshold = 0, account_auths = [], key_auths = []\<rparr>
      in auth\<lparr>weight_threshold := u32 (int (length (key_auths auth)))\<rparr>)"

definition get_other_authorities :: "operation \<Rightarrow> authority list" where
  "get_other_authorities op' = (case op' of Proposal_Update op \<Rightarrow> [key_approval_authority op] | _ \<Rightarrow> [])"

text \<open>Insertion into a flat set.\<close>

definition insert_id :: "nat \<Rightarrow> nat list \<Rightarrow> nat list" where
  "insert_id a xs = (if a \<in> set xs then xs else insort a xs)"

definition operation_get_required_authorities :: "operation \<Rightarrow> required_auths \<Rightarrow> required_auths" where
  "operation_get_required_authorities op r =
     r\<lparr>required_active := fold insert_id (get_required_active_authorities op) (insert_id (operation_fee_payer op) (required_active r)),
       required_owner := fold insert_id (get_required_owner_authorities op) (required_owner r),
       required_other := required_other r @ get_other_authorities op\<rparr>"

lemma set_insert_id [simp]: "set (insert_id a xs) = insert a (set xs)"
  by (auto simp: insert_id_def set_insort_key)

lemma set_fold_insert_id [simp]: "set (fold insert_id as xs) = set as \<union> set xs"
  by (induction as arbitrary: xs) auto

lemma fold_required:
  "set (required_active (fold operation_get_required_authorities ops r)) =
     set (required_active r) \<union> (\<Union>op \<in> set ops. insert (operation_fee_payer op) (set (get_required_active_authorities op)))"
  "set (required_owner (fold operation_get_required_authorities ops r)) =
     set (required_owner r) \<union> (\<Union>op \<in> set ops. set (get_required_owner_authorities op))"
  "required_other (fold operation_get_required_authorities ops r) = required_other r @ concat (map get_other_authorities ops)"
  by (induction ops arbitrary: r) (auto simp: operation_get_required_authorities_def)

text \<open>What a list of operations requires.\<close>

definition required_by :: "operation list \<Rightarrow> required_auths" where
  "required_by ops = get_required_authorities operation_get_required_authorities ops"

lemma required_by_sets:
  "set (required_active (required_by ops)) = (\<Union>op \<in> set ops. insert (operation_fee_payer op) (set (get_required_active_authorities op)))"
  "set (required_owner (required_by ops)) = (\<Union>op \<in> set ops. set (get_required_owner_authorities op))"
  "required_other (required_by ops) = concat (map get_other_authorities ops)"
  by (auto simp: required_by_def get_required_authorities_def fold_required no_auths_def)

section \<open>Validation\<close>

text \<open>
  \<open>proto\<close> and \<open>title\<close> parse URLs and synopses. The renewal of a subscription has an empty validation,
  and both operations that publish a seeder have the same.
\<close>

definition content_operation_validate ::
  "(string \<Rightarrow> string res) \<Rightarrow> (string \<Rightarrow> string res) \<Rightarrow> content_operation \<Rightarrow> unit res" where
  "content_operation_validate proto title op' =
     (case op' of Set_Manager op \<Rightarrow> set_publishing_manager_validate op | Set_Right op \<Rightarrow> set_publishing_right_validate op
      | Submit op \<Rightarrow> content_submit_validate proto title op | Cancel op \<Rightarrow> content_cancellation_validate op
      | Buy op \<Rightarrow> request_to_buy_validate op | Deliver op \<Rightarrow> deliver_keys_validate op | Rate op \<Rightarrow> leave_rating_validate op
      | Publish_Obsolete op \<Rightarrow> ready_to_publish_validate op | Publish op \<Rightarrow> ready_to_publish_validate op
      | Custody op \<Rightarrow> proof_of_custody_validate op | Report op \<Rightarrow> report_stats_validate op)"

definition chain_operation_validate ::
  "(string \<Rightarrow> string res) \<Rightarrow> (string \<Rightarrow> string res) \<Rightarrow> chain_operation \<Rightarrow> unit res" where
  "chain_operation_validate proto title op' =
     (case op' of
        Transfer_Obsolete op \<Rightarrow> transfer_obsolete_validate op | Transfer_To op \<Rightarrow> transfer_validate op
      | Asset_Issue op \<Rightarrow> asset_issue_validate op | Asset_Reserve op \<Rightarrow> asset_reserve_validate op
      | Asset_Fund_Pools op \<Rightarrow> asset_fund_pools_validate op | Asset_Claim_Fees op \<Rightarrow> asset_claim_fees_validate op
      | Update_Monitored op \<Rightarrow> update_monitored_asset_validate op | Update_User_Issued op \<Rightarrow> update_user_issued_asset_validate op
      | Update_Advanced op \<Rightarrow> update_user_issued_asset_advanced_validate op | Publish_Feed op \<Rightarrow> asset_publish_feed_validate op
      | Vesting_Create op \<Rightarrow> vesting_balance_create_validate op | Vesting_Withdraw op \<Rightarrow> vesting_balance_withdraw_validate op
      | Permission_Create op \<Rightarrow> withdraw_permission_create_validate op | Permission_Update op \<Rightarrow> withdraw_permission_update_validate op
      | Permission_Claim op \<Rightarrow> withdraw_permission_claim_validate op | Permission_Delete op \<Rightarrow> withdraw_permission_delete_validate op
      | Subscribe op \<Rightarrow> subscribe_validate op | Subscribe_By_Author op \<Rightarrow> subscribe_by_author_validate op
      | Automatic_Renewal op \<Rightarrow> Inr ()
      | On_Content op \<Rightarrow> content_operation_validate proto title op | Asset_Creation op \<Rightarrow> asset_create_validate op
      | Account_Creation op \<Rightarrow> account_create_validate op | Account_Change op \<Rightarrow> account_update_validate op
      | Miner_Creation op \<Rightarrow> miner_create_validate op | Miner_Change op \<Rightarrow> miner_update_validate op
      | Miner_Parameters op \<Rightarrow> miner_update_global_parameters_validate op | On_Nft op \<Rightarrow> nft_operation_validate op)"

definition disjoint_approvals :: "nat list \<Rightarrow> nat list \<Rightarrow> unit res" where
  "disjoint_approvals to_add to_remove = foldE (\<lambda>a u. require (a \<notin> set to_remove) Assert_Exception) to_add ()"

definition proposal_update_validate :: "proposal_update_operation \<Rightarrow> unit res" where
  "proposal_update_validate op =
     bindE (require (0 \<le> amount (pru_fee op)) Assert_Exception) (\<lambda>_.
     bindE (require (\<not> (active_approvals_to_add op = [] \<and> active_approvals_to_remove op = [] \<and>
                        owner_approvals_to_add op = [] \<and> owner_approvals_to_remove op = [] \<and>
                        key_approvals_to_add op = [] \<and> key_approvals_to_remove op = [])) Assert_Exception) (\<lambda>_.
     bindE (disjoint_approvals (active_approvals_to_add op) (active_approvals_to_remove op)) (\<lambda>_.
     bindE (disjoint_approvals (owner_approvals_to_add op) (owner_approvals_to_remove op)) (\<lambda>_.
     disjoint_approvals (key_approvals_to_add op) (key_approvals_to_remove op)))))"

definition proposal_delete_validate :: "proposal_delete_operation \<Rightarrow> unit res" where
  "proposal_delete_validate op = require (0 \<le> amount (prd_fee op)) Assert_Exception"

text \<open>What the predicates answer when asked whether they are valid is not looked at.\<close>

definition predicate_validate :: "predicate \<Rightarrow> bool" where
  "predicate_validate p =
     (case p of Account_Name_Eq_Lit a n \<Rightarrow> is_valid_name n | Asset_Symbol_Eq_Lit a s \<Rightarrow> is_valid_symbol s | Block_Id_Is i \<Rightarrow> True)"

definition assert_validate :: "assert_operation \<Rightarrow> unit res" where
  "assert_validate op =
     bindE (require (0 \<le> amount (ass_fee op)) Assert_Exception) (\<lambda>_.
     bindE (require (ass_required_auths op = []) Assert_Exception) (\<lambda>_.
     foldE (\<lambda>p u. let ignored = predicate_validate p in Inr ()) (ass_predicates op) ()))"

definition custom_validate :: "custom_operation \<Rightarrow> unit res" where
  "custom_validate op = require (0 < amount (cu_fee op)) Assert_Exception"

lemma foldE_cong [fundef_cong]:
  "xs = ys \<Longrightarrow> s = s' \<Longrightarrow> (\<And>x u. x \<in> set ys \<Longrightarrow> f x u = g x u) \<Longrightarrow> foldE f xs s = foldE g ys s'"
proof (induction xs arbitrary: ys s s')
  case (Cons x xs)
  have "foldE f xs u = foldE g xs u" for u by (rule Cons.IH) (use Cons.prems in auto)
  then show ?case using Cons.prems by (cases "g x s'") auto
qed simp

lemma proposed_smaller [termination_simp]:
  "x \<in> set (prc_proposed_ops op) \<Longrightarrow> size x < Suc (size_proposal_create_operation size op)"
proof (cases op)
  case (Proposal_Create_Operation fee payer ops t r)
  assume "x \<in> set (prc_proposed_ops op)"
  then have "size x \<le> size_list size ops" using Proposal_Create_Operation by (simp add: size_list_estimation')
  then show ?thesis using Proposal_Create_Operation by simp
qed

text \<open>\<open>proposal\_create\_operation::validate\<close> validates what it holds; it has no check of its own fee.\<close>

fun operation_validate :: "(string \<Rightarrow> string res) \<Rightarrow> (string \<Rightarrow> string res) \<Rightarrow> operation \<Rightarrow> unit res" where
  "operation_validate proto title (On_Ledger op) = chain_operation_validate proto title op"
| "operation_validate proto title (Proposal_Create op) =
     bindE (require (prc_proposed_ops op \<noteq> []) Assert_Exception) (\<lambda>_.
     foldE (\<lambda>o' u. operation_validate proto title o') (prc_proposed_ops op) ())"
| "operation_validate proto title (Proposal_Update op) = proposal_update_validate op"
| "operation_validate proto title (Proposal_Delete op) = proposal_delete_validate op"
| "operation_validate proto title (Assertion op) = assert_validate op"
| "operation_validate proto title (Custom op) = custom_validate op"

end
