(* ===== verification/Proposal.thy ===== *)
theory Proposal
  imports Operations
begin

text \<open>
  The database around the ledger: proposals, the record of recent transactions, the summaries of recent
  blocks and messages; the evaluators of proposals, assertions and custom operations
  (\<open>proposal\_evaluator.cpp\<close>, \<open>proposal\_object.cpp\<close>, \<open>assert\_evaluator.cpp\<close>, \<open>custom\_evaluator.cpp\<close>), the
  dispatch of all operations and the execution of proposals (\<open>db\_block.cpp\<close>, \<open>db\_update.cpp\<close>).
\<close>

section \<open>The database\<close>

record proposal_object =
  pr_expiration_time :: time_point_sec
  pr_review_period_time :: "time_point_sec option"
  pr_operations :: "operation list"
  required_active_approvals :: "account_id_type list"
  available_active_approvals :: "account_id_type list"
  required_owner_approvals :: "account_id_type list"
  available_owner_approvals :: "account_id_type list"
  available_key_approvals :: "opaque list"

record transaction_object =
  to_expiration :: time_point_sec
  to_trx_id :: opaque

record message_payload =
  mp_from :: account_id_type
  mp_pub_from :: opaque
  mp_receivers_data :: "(account_id_type \<times> opaque) list"

record message_object =
  mo_created :: time_point_sec
  mo_sender :: account_id_type
  mo_sender_pubkey :: opaque
  mo_receivers_data :: "(account_id_type \<times> opaque) list"

record database =
  ledger :: chain
  proposals :: "proposal_object table"
  transactions :: "transaction_object table"
  block_summaries :: "block_id_type table"
  messages :: "message_object table"

text \<open>
  What the database takes from elsewhere: the fee schedule, the parsers of URLs and messages, the
  accounts whose messages the node keeps, and whether assertions are skipped.
\<close>

record db_env =
  de_chain :: chain_env
  de_fee :: "operation \<Rightarrow> int res"
  de_proto :: "string \<Rightarrow> string res"
  de_payload :: "opaque \<Rightarrow> message_payload res"
  de_tracked :: "account_id_type \<Rightarrow> bool"
  de_skip_assert_evaluation :: bool

text \<open>The evaluator template on the whole database.\<close>

definition db_start_evaluate ::
  "safe \<Rightarrow> trx_state \<Rightarrow> int res \<Rightarrow> account_id_type \<Rightarrow> asset
    \<Rightarrow> (fee_state \<Rightarrow> database \<Rightarrow> (fee_state \<times> 'x) res) \<Rightarrow> (fee_state \<Rightarrow> 'x \<Rightarrow> database \<Rightarrow> database res) \<Rightarrow> database \<Rightarrow> database res" where
  "db_start_evaluate S st required_fee fee_payer fee do_evaluate do_apply d =
     bindE (evaluate st required_fee fee_payer fee (\<lambda>f c. do_evaluate f (d\<lparr>ledger := c\<rparr>)) (ledger d)) (\<lambda>(f, x).
     bindE (convert_fee S st f (ledger d)) (\<lambda>c1.
     bindE (pay_fee S st f c1) (\<lambda>c2.
     bindE (do_apply f x (d\<lparr>ledger := c2\<rparr>)) (\<lambda>d3.
     bindE (asset_neg S (fee_from_account f)) (\<lambda>delta.
     bindE (adjust_balance S fee_payer delta (ledger d3)) (\<lambda>c4.
     Inr (d3\<lparr>ledger := c4\<rparr>)))))))"

section \<open>Authorisation of a proposal\<close>

definition get_active :: "database \<Rightarrow> auth_source" where
  "get_active d a = bindE (get_account (ledger d) a) (\<lambda>ao. Inr (Some (acc_active ao)))"

definition get_owner :: "database \<Rightarrow> auth_source" where
  "get_owner d a = bindE (get_account (ledger d) a) (\<lambda>ao. Inr (Some (acc_owner ao)))"

definition max_depth :: "database \<Rightarrow> 32 word" where
  "max_depth d = of_nat (max_authority_depth (parameters (gpo (ledger d))))"

definition is_authorized_to_execute :: "proposal_object \<Rightarrow> database \<Rightarrow> bool" where
  "is_authorized_to_execute p d =
     (case verify_authority operation_get_required_authorities (pr_operations p) (available_key_approvals p)
             (get_active d) (get_owner d) (max_depth d) True (available_active_approvals p) (available_owner_approvals p) of
        Inl e \<Rightarrow> False | Inr _ \<Rightarrow> True)"

text \<open>\<open>transaction::validate\<close>; what the validation of an operation raises is rewrapped.\<close>

definition transaction_validate :: "db_env \<Rightarrow> operation list \<Rightarrow> unit res" where
  "transaction_validate e ops =
     bindE (require (ops \<noteq> []) Trx_Must_Have_At_Least_One_Op) (\<lambda>_.
     case foldE (\<lambda>op u. operation_validate (de_proto e) (e_title (ce_content (de_chain e))) op) ops () of
       Inl err \<Rightarrow> Inl Operation_Validate_Exception | Inr u \<Rightarrow> Inr ())"

section \<open>Evaluators of proposals\<close>

definition proposal_create_do_evaluate ::
  "db_env \<Rightarrow> operation proposal_create_operation \<Rightarrow> fee_state \<Rightarrow> database \<Rightarrow> (fee_state \<times> unit) res" where
  "proposal_create_do_evaluate e op f d =
     (let now = head_block_time (ledger d); params = parameters (gpo (ledger d)); r = required_by (prc_proposed_ops op)
      in bindE (require (now < prc_expiration_time op) Assert_Exception) (\<lambda>_.
         bindE (require (prc_expiration_time op \<le> time_plus now (maximum_proposal_lifetime params)) Assert_Exception) (\<lambda>_.
         bindE (require (case prc_review_period_seconds op of None \<Rightarrow> True
                         | Some s \<Rightarrow> int s < int (prc_expiration_time op) - int now) Assert_Exception) (\<lambda>_.
         bindE (require (required_other r = []) Assert_Exception) (\<lambda>_.
         bindE (if GRAPHENE_MINER_ACCOUNT \<in> set (required_active r) \<union> set (required_owner r) then
                  (case prc_review_period_seconds op of
                     None \<Rightarrow> Inl Review_Period_Required
                   | Some s \<Rightarrow> require (miner_proposal_review_period params \<le> s) Review_Period_Insufficient)
                else Inr ()) (\<lambda>_.
         bindE (transaction_validate e (prc_proposed_ops op)) (\<lambda>_.
         Inr (f, ()))))))))"

definition new_proposal :: "operation proposal_create_operation \<Rightarrow> proposal_object" where
  "new_proposal op =
     (let r = required_by (prc_proposed_ops op)
      in \<lparr>pr_expiration_time = prc_expiration_time op,
          pr_review_period_time = map_option (\<lambda>s. u32 (int (prc_expiration_time op) - int s)) (prc_review_period_seconds op),
          pr_operations = prc_proposed_ops op,
          required_active_approvals = filter (\<lambda>a. a \<notin> set (required_owner r)) (required_active r), available_active_approvals = [],
          required_owner_approvals = required_owner r, available_owner_approvals = [], available_key_approvals = []\<rparr>)"

definition proposal_create_do_apply ::
  "operation proposal_create_operation \<Rightarrow> fee_state \<Rightarrow> unit \<Rightarrow> database \<Rightarrow> database res" where
  "proposal_create_do_apply op f u d =
     bindE (t_create no_unique (new_proposal op) (proposals d)) (\<lambda>t. Inr (d\<lparr>proposals := t\<rparr>))"

definition in_review :: "proposal_object \<Rightarrow> database \<Rightarrow> bool" where
  "in_review p d = (case pr_review_period_time p of None \<Rightarrow> False | Some t \<Rightarrow> t \<le> head_block_time (ledger d))"

definition proposal_update_do_evaluate ::
  "proposal_update_operation \<Rightarrow> fee_state \<Rightarrow> database \<Rightarrow> (fee_state \<times> unit) res" where
  "proposal_update_do_evaluate op f d =
     bindE (t_get (proposals d) (pru_proposal op)) (\<lambda>p.
     bindE (if in_review p d then require (active_approvals_to_add op = [] \<and> owner_approvals_to_add op = []) Assert_Exception
            else Inr ()) (\<lambda>_.
     bindE (foldE (\<lambda>a u. require (a \<in> set (available_active_approvals p)) Assert_Exception) (active_approvals_to_remove op) ()) (\<lambda>_.
     bindE (foldE (\<lambda>a u. require (a \<in> set (available_owner_approvals p)) Assert_Exception) (owner_approvals_to_remove op) ()) (\<lambda>_.
     Inr (f, ())))))"

definition erase_id :: "nat \<Rightarrow> nat list \<Rightarrow> nat list" where
  "erase_id a xs = filter (\<lambda>x. x \<noteq> a) xs"

definition updated_proposal :: "proposal_update_operation \<Rightarrow> proposal_object \<Rightarrow> proposal_object" where
  "updated_proposal op p =
     p\<lparr>available_active_approvals := fold erase_id (active_approvals_to_remove op)
         (fold insert_id (active_approvals_to_add op) (available_active_approvals p)),
       available_owner_approvals := fold erase_id (owner_approvals_to_remove op)
         (fold insert_id (owner_approvals_to_add op) (available_owner_approvals p)),
       available_key_approvals := fold erase_id (key_approvals_to_remove op)
         (fold insert_id (key_approvals_to_add op) (available_key_approvals p))\<rparr>"

text \<open>
  \<open>push\<close> is \<open>push\_proposal\<close>. An exception it raises is caught, and its session has undone what it did;
  undefined behaviour is no exception.
\<close>

definition proposal_update_do_apply ::
  "(nat \<Rightarrow> database \<Rightarrow> database res) \<Rightarrow> proposal_update_operation \<Rightarrow> fee_state \<Rightarrow> unit \<Rightarrow> database \<Rightarrow> database res" where
  "proposal_update_do_apply push op f u d =
     bindE (t_modify no_unique (pru_proposal op) (\<lambda>p. Inr (updated_proposal op p)) (proposals d)) (\<lambda>t.
     bindE (t_get t (pru_proposal op)) (\<lambda>p.
     let d1 = d\<lparr>proposals := t\<rparr>
     in if pr_review_period_time p \<noteq> None then Inr d1
        else if is_authorized_to_execute p d1 then
          (case push (pru_proposal op) d1 of
             Inr d2 \<Rightarrow> Inr d2
           | Inl err \<Rightarrow> if err = Undefined_Behaviour then Inl err else Inr d1)
        else Inr d1))"

definition proposal_delete_do_evaluate ::
  "proposal_delete_operation \<Rightarrow> fee_state \<Rightarrow> database \<Rightarrow> (fee_state \<times> unit) res" where
  "proposal_delete_do_evaluate op f d =
     bindE (t_get (proposals d) (prd_proposal op)) (\<lambda>p.
     bindE (require (prd_fee_paying_account op \<in>
              set (if prd_using_owner_authority op then required_owner_approvals p else required_active_approvals p)) Assert_Exception) (\<lambda>_.
     Inr (f, ())))"

definition proposal_delete_do_apply :: "proposal_delete_operation \<Rightarrow> fee_state \<Rightarrow> unit \<Rightarrow> database \<Rightarrow> database res" where
  "proposal_delete_do_apply op f u d = Inr (d\<lparr>proposals := t_remove (prd_proposal op) (proposals d)\<rparr>)"

section \<open>Assertions and custom operations\<close>

definition evaluate_predicate :: "database \<Rightarrow> predicate \<Rightarrow> unit res" where
  "evaluate_predicate d p =
     (case p of
        Account_Name_Eq_Lit a n \<Rightarrow> bindE (get_account (ledger d) a) (\<lambda>ao. require (acc_name ao = n) Assert_Exception)
      | Asset_Symbol_Eq_Lit a s \<Rightarrow> bindE (get_asset (ledger d) a) (\<lambda>ao. require (symbol ao = s) Assert_Exception)
      | Block_Id_Is i \<Rightarrow> bindE (t_get (block_summaries d) (num_from_id i mod 65536)) (\<lambda>s. require (s = i) Assert_Exception))"

definition predicate_which :: "predicate \<Rightarrow> nat" where
  "predicate_which p = (case p of Account_Name_Eq_Lit a n \<Rightarrow> 0 | Asset_Symbol_Eq_Lit a s \<Rightarrow> 1 | Block_Id_Is i \<Rightarrow> 2)"

definition assert_do_evaluate :: "db_env \<Rightarrow> assert_operation \<Rightarrow> fee_state \<Rightarrow> database \<Rightarrow> (fee_state \<times> unit) res" where
  "assert_do_evaluate e op f d =
     bindE (foldE (\<lambda>a u. require (generic_find (accounts (ledger d)) a \<noteq> None) Assert_Exception) (ass_required_auths op) ()) (\<lambda>_.
     if de_skip_assert_evaluation e then Inr (f, ())
     else
       bindE (foldE (\<lambda>p u.
         bindE (require (predicate_which p < max_predicate_opcode (parameters (gpo (ledger d)))) Assert_Exception) (\<lambda>_.
         evaluate_predicate d p)) (ass_predicates op) ()) (\<lambda>_.
       Inr (f, ())))"

definition assert_do_apply :: "assert_operation \<Rightarrow> fee_state \<Rightarrow> unit \<Rightarrow> database \<Rightarrow> database res" where
  "assert_do_apply op f u d = Inr d"

definition custom_operation_subtype_messaging :: nat where "custom_operation_subtype_messaging = 1"

definition custom_do_evaluate :: "db_env \<Rightarrow> custom_operation \<Rightarrow> fee_state \<Rightarrow> database \<Rightarrow> (fee_state \<times> unit) res" where
  "custom_do_evaluate e op f d =
     (if cu_id op \<noteq> custom_operation_subtype_messaging then Inr (f, ())
      else
        bindE (de_payload e (cu_data op)) (\<lambda>pl.
        bindE (require (generic_find (accounts (ledger d)) (mp_from pl) \<noteq> None) Assert_Exception) (\<lambda>_.
        bindE (foldE (\<lambda>r u. require (generic_find (accounts (ledger d)) (fst r) \<noteq> None) Assert_Exception) (mp_receivers_data pl) ()) (\<lambda>_.
        bindE (require (mp_from pl = cu_payer op) Assert_Exception) (\<lambda>_.
        Inr (f, ()))))))"

definition custom_do_apply :: "db_env \<Rightarrow> custom_operation \<Rightarrow> fee_state \<Rightarrow> unit \<Rightarrow> database \<Rightarrow> database res" where
  "custom_do_apply e op f u d =
     (if cu_id op \<noteq> custom_operation_subtype_messaging then Inr d
      else
        bindE (de_payload e (cu_data op)) (\<lambda>pl.
        if \<not> de_tracked e (mp_from pl) \<and> list_all (\<lambda>r. \<not> de_tracked e (fst r)) (mp_receivers_data pl) then Inr d
        else
          bindE (t_create no_unique \<lparr>mo_created = head_block_time (ledger d), mo_sender = mp_from pl,
              mo_sender_pubkey = mp_pub_from pl, mo_receivers_data = mp_receivers_data pl\<rparr> (messages d)) (\<lambda>t.
          Inr (d\<lparr>messages := t\<rparr>))))"

section \<open>The dispatch of operations and the execution of proposals\<close>

definition apply_with ::
  "(nat \<Rightarrow> database \<Rightarrow> database res) \<Rightarrow> safe \<Rightarrow> db_env \<Rightarrow> trx_state \<Rightarrow> operation \<Rightarrow> database \<Rightarrow> database res" where
  "apply_with push S e st op' d =
     (case op' of
        On_Ledger op \<Rightarrow> bindE (apply_operation S st (de_chain e) op (ledger d)) (\<lambda>c. Inr (d\<lparr>ledger := c\<rparr>))
      | Proposal_Create op \<Rightarrow> db_start_evaluate S st (de_fee e op') (prc_fee_paying_account op) (prc_fee op)
          (proposal_create_do_evaluate e op) (proposal_create_do_apply op) d
      | Proposal_Update op \<Rightarrow> db_start_evaluate S st (de_fee e op') (pru_fee_paying_account op) (pru_fee op)
          (proposal_update_do_evaluate op) (proposal_update_do_apply push op) d
      | Proposal_Delete op \<Rightarrow> db_start_evaluate S st (de_fee e op') (prd_fee_paying_account op) (prd_fee op)
          (proposal_delete_do_evaluate op) (proposal_delete_do_apply op) d
      | Assertion op \<Rightarrow> db_start_evaluate S st (de_fee e op') (ass_fee_paying_account op) (ass_fee op)
          (assert_do_evaluate e op) (assert_do_apply op) d
      | Custom op \<Rightarrow> db_start_evaluate S st (de_fee e op') (cu_payer op) (cu_fee op)
          (custom_do_evaluate e op) (custom_do_apply e op) d)"

definition proposed_trx :: trx_state where
  "proposed_trx = \<lparr>skip_fee = False, skip_fee_schedule_check = False, is_proposed_trx = True\<rparr>"

text \<open>
  \<open>push\_proposal\<close> holds a reference to the proposal while it applies the proposed operations, and
  removes it at the end: if an operation has removed it meanwhile, the behaviour is undefined.
\<close>

definition push_with ::
  "(trx_state \<Rightarrow> operation \<Rightarrow> database \<Rightarrow> database res) \<Rightarrow> nat \<Rightarrow> database \<Rightarrow> database res" where
  "push_with ap k d =
     bindE (t_get (proposals d) k) (\<lambda>p.
     bindE (foldE (\<lambda>op d. bindE (require (generic_find (proposals d) k \<noteq> None) Undefined_Behaviour) (\<lambda>_. ap proposed_trx op d))
              (pr_operations p) d) (\<lambda>d1.
     bindE (require (generic_find (proposals d1) k \<noteq> None) Undefined_Behaviour) (\<lambda>_.
     Inr (d1\<lparr>proposals := t_remove k (proposals d1)\<rparr>))))"

text \<open>
  A proposed operation may approve another proposal and so push it: the two functions call each other.
  The number bounds the depth of the nesting; \<open>push_depth\<close> below shows that one level is enough.
\<close>

fun push_proposal :: "nat \<Rightarrow> safe \<Rightarrow> db_env \<Rightarrow> nat \<Rightarrow> database \<Rightarrow> database res" where
  "push_proposal 0 S e k d = Inl Undefined_Behaviour"
| "push_proposal (Suc n) S e k d = push_with (apply_with (push_proposal n S e) S e) k d"

definition db_apply_operation :: "safe \<Rightarrow> db_env \<Rightarrow> trx_state \<Rightarrow> operation \<Rightarrow> database \<Rightarrow> database res" where
  "db_apply_operation S e st op d = apply_with (push_proposal 1 S e) S e st op d"

section \<open>Expired proposals\<close>

text \<open>The first in the index \<open>by\_expiration\<close>: the earliest, and of those the one with the lowest id.\<close>

fun earliest_row :: "proposal_object rows \<Rightarrow> (nat \<times> proposal_object) option" where
  "earliest_row [] = None"
| "earliest_row (r # rows) =
     (case earliest_row rows of None \<Rightarrow> Some r
      | Some b \<Rightarrow> if pr_expiration_time (snd b) < pr_expiration_time (snd r) then Some b else Some r)"

definition earliest_proposal :: "proposal_object table \<Rightarrow> (nat \<times> proposal_object) option" where
  "earliest_proposal t = earliest_row (g_rows t)"

text \<open>
  One round of the loop of \<open>clear\_expired\_proposals\<close>: the proposal is executed if it is authorised, and
  removed if it is not or if its execution raises an exception.
\<close>

definition clear_proposal :: "safe \<Rightarrow> db_env \<Rightarrow> nat \<Rightarrow> proposal_object \<Rightarrow> database \<Rightarrow> database res" where
  "clear_proposal S e k p d =
     (let removed = d\<lparr>proposals := t_remove k (proposals d)\<rparr>
      in if is_authorized_to_execute p d then
           (case push_proposal 1 S e k d of
              Inr d1 \<Rightarrow> Inr d1
            | Inl err \<Rightarrow> if err = Undefined_Behaviour then Inl err else Inr removed)
         else Inr removed)"

partial_function (option) clear_expired_proposals :: "safe \<Rightarrow> db_env \<Rightarrow> database \<Rightarrow> database res option" where
  "clear_expired_proposals S e d =
     (case earliest_proposal (proposals d) of
        None \<Rightarrow> Some (Inr d)
      | Some r \<Rightarrow>
          if pr_expiration_time (snd r) \<le> head_block_time (ledger d) then
            (case clear_proposal S e (fst r) (snd r) d of
               Inl err \<Rightarrow> Some (Inl err)
             | Inr d1 \<Rightarrow> clear_expired_proposals S e d1)
          else Some (Inr d))"

end
