(* ===== verification/Proposal_Correct.thy ===== *)
theory Proposal_Correct
  imports Proposal
begin

text \<open>
  Properties of proposals: their execution nests at most once, they leave the database only when
  vetoed or when executed with authorisation, and the loop over the expired ones ends.
\<close>

section \<open>The inside of an operation on the database\<close>

lemma convert_fee_form: "convert_fee S st f c = Inr c' \<Longrightarrow> \<exists>t. c' = c\<lparr>asset_dyn := t\<rparr>"
proof -
  have "\<exists>t. c = c\<lparr>asset_dyn := t\<rparr>" by (rule exI [of _ "asset_dyn c"]) simp
  then show "convert_fee S st f c = Inr c' \<Longrightarrow> \<exists>t. c' = c\<lparr>asset_dyn := t\<rparr>"
    by (auto simp: convert_fee_def modify_dyn_def split: if_splits)
qed

lemma pay_fee_form: "pay_fee S st f c = Inr c' \<Longrightarrow> \<exists>t. c' = c\<lparr>asset_dyn := t\<rparr>"
proof -
  have "\<exists>t. c = c\<lparr>asset_dyn := t\<rparr>" by (rule exI [of _ "asset_dyn c"]) simp
  then show "pay_fee S st f c = Inr c' \<Longrightarrow> \<exists>t. c' = c\<lparr>asset_dyn := t\<rparr>"
    by (auto simp: pay_fee_def modify_dyn_def split: if_splits)
qed

lemma adjust_balance_form: "adjust_balance S x d c = Inr c' \<Longrightarrow> \<exists>b. c' = c\<lparr>balances := b\<rparr>"
proof -
  have "\<exists>b. c = c\<lparr>balances := b\<rparr>" by (rule exI [of _ "balances c"]) simp
  then show "adjust_balance S x d c = Inr c' \<Longrightarrow> \<exists>b. c' = c\<lparr>balances := b\<rparr>"
    by (auto simp: adjust_balance_def split: if_splits option.splits)
qed

lemma db_inner:
  assumes "db_start_evaluate S st r payer fee de da d = Inr d'"
  obtains f0 f x t d3 b where "de f0 d = Inr (f, x)" and "da f x (d\<lparr>ledger := (ledger d)\<lparr>asset_dyn := t\<rparr>\<rparr>) = Inr d3"
    and "d' = d3\<lparr>ledger := (ledger d3)\<lparr>balances := b\<rparr>\<rparr>"
proof -
  from assms obtain f0 f x c1 c2 d3 n c4 where de: "de f0 d = Inr (f, x)" and 1: "convert_fee S st f (ledger d) = Inr c1"
    and 2: "pay_fee S st f c1 = Inr c2" and da: "da f x (d\<lparr>ledger := c2\<rparr>) = Inr d3"
    and 4: "adjust_balance S payer n (ledger d3) = Inr c4" and d': "d' = d3\<lparr>ledger := c4\<rparr>"
    by (auto simp: db_start_evaluate_def evaluate_def)
  obtain t where "c2 = (ledger d)\<lparr>asset_dyn := t\<rparr>" using convert_fee_form [OF 1] pay_fee_form [OF 2] by auto
  moreover obtain b where "c4 = (ledger d3)\<lparr>balances := b\<rparr>" using adjust_balance_form [OF 4] by auto
  ultimately show thesis using that de da d' by metis
qed

section \<open>The depth of the nesting\<close>

definition is_update :: "operation \<Rightarrow> bool" where
  "is_update op' \<longleftrightarrow> (case op' of Proposal_Update op \<Rightarrow> True | _ \<Rightarrow> False)"

lemma no_other_iff: "required_other (required_by ops) = [] \<longleftrightarrow> (\<forall>op \<in> set ops. \<not> is_update op)"
  by (auto simp: required_by_sets get_other_authorities_def is_update_def split: operation.splits)

lemma apply_with_any: "\<not> is_update op' \<Longrightarrow> apply_with p S e st op' d = apply_with q S e st op' d"
  by (cases op') (simp_all add: apply_with_def is_update_def)

definition proposals_ok :: "database \<Rightarrow> bool" where
  "proposals_ok d \<longleftrightarrow> t_ok (proposals d) \<and> (\<forall>k p. generic_find (proposals d) k = Some p \<longrightarrow> (\<forall>op \<in> set (pr_operations p). \<not> is_update op))"

lemma push_with_any:
  assumes "\<And>p op. generic_find (proposals d) k = Some p \<Longrightarrow> op \<in> set (pr_operations p) \<Longrightarrow> \<not> is_update op"
  shows "push_with (apply_with u S e) k d = push_with (apply_with v S e) k d"
proof (cases "generic_find (proposals d) k")
  case (Some p)
  have "foldE (\<lambda>op d. bindE (require (generic_find (proposals d) k \<noteq> None) Undefined_Behaviour) (\<lambda>_. apply_with u S e proposed_trx op d)) (pr_operations p) d =
    foldE (\<lambda>op d. bindE (require (generic_find (proposals d) k \<noteq> None) Undefined_Behaviour) (\<lambda>_. apply_with v S e proposed_trx op d)) (pr_operations p) d"
    by (rule foldE_cong) (simp_all add: assms [OF Some] apply_with_any [of _ u S e _ _ v])
  then show ?thesis using Some by (simp add: push_with_def t_get_def)
qed (simp add: push_with_def t_get_def)

lemma push_depth:
  assumes "proposals_ok d"
  shows "push_proposal (Suc n) S e k d = push_proposal 1 S e k d"
  using push_with_any [of d k "push_proposal n S e" S e "push_proposal 0 S e"] assms by (simp add: proposals_ok_def)

lemma apply_depth:
  assumes "proposals_ok d"
  shows "apply_with (push_proposal (Suc n) S e) S e st op' d = db_apply_operation S e st op' d"
proof (cases op')
  case (Proposal_Update op)
  have "proposal_update_do_apply (push_proposal (Suc n) S e) op f x (d\<lparr>ledger := c\<rparr>) =
    proposal_update_do_apply (push_proposal 1 S e) op f x (d\<lparr>ledger := c\<rparr>)" for f x c
  proof -
    have "push_proposal (Suc n) S e k (d\<lparr>ledger := c, proposals := t\<rparr>) = push_proposal 1 S e k (d\<lparr>ledger := c, proposals := t\<rparr>)"
      if t: "t_modify no_unique (pru_proposal op) (\<lambda>p. Inr (updated_proposal op p)) (proposals d) = Inr t" for k t
    proof (rule push_depth)
      have tok: "t_ok (proposals d)" using assms by (simp add: proposals_ok_def)
      show "proposals_ok (d\<lparr>ledger := c, proposals := t\<rparr>)"
        by (rule t_modify_law [OF tok t]) (use assms in \<open>auto simp: proposals_ok_def updated_proposal_def split: if_splits\<close>)
    qed
    then show ?thesis
      by (cases "t_modify no_unique (pru_proposal op) (\<lambda>p. Inr (updated_proposal op p)) (proposals d)")
        (simp_all add: proposal_update_do_apply_def Let_def del: push_proposal.simps cong: if_cong)
  qed
  then show ?thesis using Proposal_Update by (simp add: apply_with_def db_apply_operation_def db_start_evaluate_def)
qed (simp_all add: apply_with_def db_apply_operation_def)

section \<open>What an operation does to proposals\<close>

text \<open>A proposal vetoed by an account whose approval it requires.\<close>

definition vetoed :: "nat \<Rightarrow> proposal_object \<Rightarrow> operation \<Rightarrow> bool" where
  "vetoed k p op' \<longleftrightarrow> (\<exists>op. op' = Proposal_Delete op \<and> prd_proposal op = k \<and>
     prd_fee_paying_account op \<in> set (required_active_approvals p) \<union> set (required_owner_approvals p))"

text \<open>Two versions of a proposal that differ in the approvals collected only.\<close>

definition same_proposal :: "proposal_object \<Rightarrow> proposal_object \<Rightarrow> bool" where
  "same_proposal p q \<longleftrightarrow> pr_expiration_time p = pr_expiration_time q \<and> pr_review_period_time p = pr_review_period_time q \<and>
     pr_operations p = pr_operations q \<and> required_active_approvals p = required_active_approvals q \<and>
     required_owner_approvals p = required_owner_approvals q"

lemma same_proposal_trans: "same_proposal p q \<Longrightarrow> same_proposal q r \<Longrightarrow> same_proposal p r"
  by (simp add: same_proposal_def)

lemma same_updated: "same_proposal p (updated_proposal op p)"
  by (simp add: same_proposal_def updated_proposal_def)

lemma updated_keeps [simp]:
  "pr_review_period_time (updated_proposal op p) = pr_review_period_time p" "pr_operations (updated_proposal op p) = pr_operations p"
  "pr_expiration_time (updated_proposal op p) = pr_expiration_time p"
  by (simp_all add: updated_proposal_def)

lemma vetoed_same: "same_proposal p q \<Longrightarrow> vetoed k q op' = vetoed k p op'"
  by (simp add: vetoed_def same_proposal_def)

text \<open>
  What an operation that approves nothing leaves of the proposals: it keeps each or vetoes it, and the
  ones it adds expire later than now and approve nothing.
\<close>

definition proposals_step :: "operation \<Rightarrow> database \<Rightarrow> database \<Rightarrow> bool" where
  "proposals_step op' d d' \<longleftrightarrow> t_ok (proposals d') \<and> g_next_id (proposals d) \<le> g_next_id (proposals d') \<and>
     (\<forall>k p. generic_find (proposals d) k = Some p \<longrightarrow> generic_find (proposals d') k = Some p \<or>
        generic_find (proposals d') k = None \<and> vetoed k p op') \<and>
     (\<forall>k p. generic_find (proposals d') k = Some p \<longrightarrow> generic_find (proposals d) k = Some p \<or>
        g_next_id (proposals d) \<le> k \<and> head_block_time (ledger d) < pr_expiration_time p \<and> (\<forall>o' \<in> set (pr_operations p). \<not> is_update o'))"

lemma proposals_step_same: "t_ok (proposals d) \<Longrightarrow> proposals d' = proposals d \<Longrightarrow> proposals_step op' d d'"
  by (simp add: proposals_step_def)

lemma t_remove_next [simp]: "g_next_id (t_remove k t) = g_next_id t"
  by (simp add: t_remove_def generic_remove_def)

lemma create_step:
  assumes tok: "t_ok (proposals d)"
    and run: "db_start_evaluate S st r payer fee (proposal_create_do_evaluate e op) (proposal_create_do_apply op) d = Inr d'"
  shows "proposals_step op' d d'"
proof (rule db_inner [OF run])
  fix f0 f x t d3 b
  assume de: "proposal_create_do_evaluate e op f0 d = Inr (f, x)"
    and da: "proposal_create_do_apply op f x (d\<lparr>ledger := (ledger d)\<lparr>asset_dyn := t\<rparr>\<rparr>) = Inr d3"
    and d': "d' = d3\<lparr>ledger := (ledger d3)\<lparr>balances := b\<rparr>\<rparr>"
  from da obtain ps where ps: "t_create no_unique (new_proposal op) (proposals d) = Inr ps" and p': "proposals d' = ps"
    by (auto simp: proposal_create_do_apply_def d')
  have "head_block_time (ledger d) < prc_expiration_time op" "required_other (required_by (prc_proposed_ops op)) = []"
    using de by (auto simp: proposal_create_do_evaluate_def Let_def)
  then have "head_block_time (ledger d) < pr_expiration_time (new_proposal op)" "\<forall>o' \<in> set (pr_operations (new_proposal op)). \<not> is_update o'"
    by (simp_all add: new_proposal_def Let_def no_other_iff)
  moreover have "generic_find (proposals d) (g_next_id (proposals d)) = None" by (rule generic_fresh [OF tok]) simp
  ultimately show ?thesis
    using t_create_law [OF tok ps] by (auto simp: proposals_step_def p' split: if_splits)
qed

lemma delete_step:
  assumes tok: "t_ok (proposals d)"
    and run: "db_start_evaluate S st r payer fee (proposal_delete_do_evaluate op) (proposal_delete_do_apply op) d = Inr d'"
  shows "proposals_step (Proposal_Delete op) d d'"
proof (rule db_inner [OF run])
  fix f0 f x t d3 b
  assume de: "proposal_delete_do_evaluate op f0 d = Inr (f, x)"
    and da: "proposal_delete_do_apply op f x (d\<lparr>ledger := (ledger d)\<lparr>asset_dyn := t\<rparr>\<rparr>) = Inr d3"
    and d': "d' = d3\<lparr>ledger := (ledger d3)\<lparr>balances := b\<rparr>\<rparr>"
  have "proposals d' = t_remove (prd_proposal op) (proposals d)" using da by (auto simp: proposal_delete_do_apply_def d')
  then show ?thesis
    using de t_remove_law [OF tok, of "prd_proposal op"]
    by (auto simp: proposals_step_def proposal_delete_do_evaluate_def vetoed_def split: if_splits)
qed

lemma other_step:
  assumes tok: "t_ok (proposals d)" and op: "\<not> is_update op'" and run: "apply_with push S e st op' d = Inr d'"
  shows "proposals_step op' d d'"
proof (cases op')
  case (On_Ledger op)
  then show ?thesis using run by (auto simp: apply_with_def intro: proposals_step_same [OF tok])
next
  case (Proposal_Create op)
  then show ?thesis using run by (auto simp: apply_with_def intro: create_step [OF tok])
next
  case (Proposal_Update op)
  then show ?thesis using op by (simp add: is_update_def)
next
  case (Proposal_Delete op)
  then show ?thesis using run by (auto simp: apply_with_def intro: delete_step [OF tok])
next
  case (Assertion op)
  then show ?thesis using run
    by (auto simp: apply_with_def assert_do_apply_def elim!: db_inner intro!: proposals_step_same [OF tok])
next
  case (Custom op)
  then show ?thesis using run
    by (auto simp: apply_with_def custom_do_apply_def elim!: db_inner intro!: proposals_step_same [OF tok] split: if_splits)
qed

section \<open>Operations leave the head of the chain alone\<close>

text \<open>The time, the id and the number of the head block.\<close>

definition headed :: "chain \<Rightarrow> time_point_sec \<times> block_id_type \<times> nat" where
  "headed c = (dg_time (dgpo c), head_block_id (dgpo c), head_block_number (dgpo c))"

lemma headed_time: "headed c' = headed c \<Longrightarrow> head_block_time c' = head_block_time c"
  by (simp add: headed_def head_block_time_def)

text \<open>What of the database only blocks change: these, and the records of transactions and blocks.\<close>

definition outer :: "database \<Rightarrow> (time_point_sec \<times> block_id_type \<times> nat) \<times> transaction_object table \<times> block_id_type table" where
  "outer d = (headed (ledger d), transactions d, block_summaries d)"

lemma outer_time: "outer d' = outer d \<Longrightarrow> head_block_time (ledger d') = head_block_time (ledger d)"
  by (auto simp: outer_def dest: headed_time)

lemma settled_headed: "settled c' = settled c \<Longrightarrow> headed c' = headed c"
  by (simp add: settled_def headed_def)

lemma detail_headed: "add_detail d c = Inr c' \<Longrightarrow> headed c' = headed c"
  by (auto simp: add_detail_def headed_def)

lemma registry_headed:
  "account_create_do_apply o1 f u c = Inr c' \<Longrightarrow> headed c' = headed c"
  "account_update_do_apply o2 f x c = Inr c' \<Longrightarrow> headed c' = headed c"
  "miner_create_do_apply o3 f u c = Inr c' \<Longrightarrow> headed c' = headed c"
  "miner_update_do_apply o4 f u c = Inr c' \<Longrightarrow> headed c' = headed c"
  "miner_update_global_parameters_do_apply o5 f u c = Inr c' \<Longrightarrow> headed c' = headed c"
  "asset_create_do_apply o6 f u c = Inr c' \<Longrightarrow> headed c' = headed c"
  by (auto simp: account_create_do_apply_def account_update_do_apply_def miner_create_do_apply_def miner_update_do_apply_def
      miner_update_global_parameters_do_apply_def asset_create_do_apply_def Let_def headed_def add_detail_def split: prod.splits)

lemma nft_headed:
  "nft_create_definition_do_apply o1 f u c = Inr c' \<Longrightarrow> headed c' = headed c"
  "nft_update_definition_do_apply o2 f u c = Inr c' \<Longrightarrow> headed c' = headed c"
  "nft_issue_do_apply o3 f u c = Inr c' \<Longrightarrow> headed c' = headed c"
  "nft_transfer_do_apply o4 f u c = Inr c' \<Longrightarrow> headed c' = headed c"
  "nft_update_data_do_apply o5 f u c = Inr c' \<Longrightarrow> headed c' = headed c"
  by (auto simp: nft_create_definition_do_apply_def nft_update_definition_do_apply_def nft_issue_do_apply_def nft_transfer_do_apply_def
      nft_update_data_do_apply_def headed_def add_detail_def)

lemma start_headed:
  assumes "start_evaluate S st r payer fee de da c = Inr c'" and "\<And>f x c c'. da f x c = Inr c' \<Longrightarrow> headed c' = headed c"
  shows "headed c' = headed c"
  by (rule start_evaluate_frame [where g = headed, OF assms]) (auto simp: headed_def)

lemmas ledger_headed = transfer_settled [THEN settled_headed] asset_settled [THEN settled_headed] pools_settled [THEN settled_headed]
  service_settled [THEN settled_headed] subscription_settled [THEN settled_headed] registry_headed

lemma nft_operation_headed: "apply_nft_operation S st V ft r op' c = Inr c' \<Longrightarrow> headed c' = headed c"
  by (cases op') (auto simp: apply_nft_operation_def elim!: start_headed intro: nft_headed)

lemma content_operation_headed: "apply_content_operation S st e op' c = Inr c' \<Longrightarrow> headed c' = headed c"
  by (auto simp: headed_def dest!: content_operation_dgpo)

lemma apply_operation_headed: "apply_operation S st e op' c = Inr c' \<Longrightarrow> headed c' = headed c"
  by (cases op') ((simp only: apply_operation_def chain_operation.case nft_operation_headed content_operation_headed,
    (erule start_headed, erule ledger_headed)?)+)

lemma db_headed:
  assumes "db_start_evaluate S st r payer fee de da d = Inr d'"
    and "\<And>f x d d'. da f x d = Inr d' \<Longrightarrow> outer d' = outer d"
  shows "outer d' = outer d"
  by (rule db_inner [OF assms(1)]) (drule assms(2), simp add: outer_def headed_def)

lemma other_headed:
  assumes "\<not> is_update op'" and "apply_with push S e st op' d = Inr d'"
  shows "outer d' = outer d"
proof (cases op')
  case (On_Ledger op)
  then show ?thesis using assms(2) apply_operation_headed by (auto simp: apply_with_def outer_def)
next
  case (Proposal_Create op)
  then show ?thesis using assms(2) by (simp add: apply_with_def) (erule db_headed, auto simp: proposal_create_do_apply_def outer_def)
next
  case (Proposal_Update op)
  then show ?thesis using assms(1) by (simp add: is_update_def)
next
  case (Proposal_Delete op)
  then show ?thesis using assms(2) by (simp add: apply_with_def) (erule db_headed, auto simp: proposal_delete_do_apply_def outer_def)
next
  case (Assertion op)
  then show ?thesis using assms(2) by (simp add: apply_with_def) (erule db_headed, auto simp: assert_do_apply_def outer_def)
next
  case (Custom op)
  then show ?thesis using assms(2) by (simp add: apply_with_def) (erule db_headed, auto simp: custom_do_apply_def outer_def split: if_splits)
qed

section \<open>What the execution of a proposal does to proposals\<close>

definition proposals_steps :: "operation list \<Rightarrow> database \<Rightarrow> database \<Rightarrow> bool" where
  "proposals_steps ops d d' \<longleftrightarrow> t_ok (proposals d') \<and> g_next_id (proposals d) \<le> g_next_id (proposals d') \<and>
     outer d' = outer d \<and>
     (\<forall>k p. generic_find (proposals d) k = Some p \<longrightarrow> generic_find (proposals d') k = Some p \<or>
        generic_find (proposals d') k = None \<and> (\<exists>op' \<in> set ops. vetoed k p op')) \<and>
     (\<forall>k p. generic_find (proposals d') k = Some p \<longrightarrow> generic_find (proposals d) k = Some p \<or>
        g_next_id (proposals d) \<le> k \<and> head_block_time (ledger d) < pr_expiration_time p \<and> (\<forall>o' \<in> set (pr_operations p). \<not> is_update o'))"

lemma step_new:
  "proposals_step op' d d' \<Longrightarrow> generic_find (proposals d') k = Some p \<Longrightarrow> generic_find (proposals d) k = Some p \<or>
    g_next_id (proposals d) \<le> k \<and> head_block_time (ledger d) < pr_expiration_time p \<and> (\<forall>o' \<in> set (pr_operations p). \<not> is_update o')"
  by (simp add: proposals_step_def)

lemma step_old:
  "proposals_step op' d d' \<Longrightarrow> generic_find (proposals d) k = Some p \<Longrightarrow>
   generic_find (proposals d') k = Some p \<or> generic_find (proposals d') k = None \<and> vetoed k p op'"
  by (simp add: proposals_step_def)

lemma steps_new:
  "proposals_steps ops d d' \<Longrightarrow> generic_find (proposals d') k = Some p \<Longrightarrow> generic_find (proposals d) k = Some p \<or>
    g_next_id (proposals d) \<le> k \<and> head_block_time (ledger d) < pr_expiration_time p \<and> (\<forall>o' \<in> set (pr_operations p). \<not> is_update o')"
  by (simp add: proposals_steps_def)

lemma fold_steps:
  assumes "foldE (\<lambda>op d. bindE (require (G d) Undefined_Behaviour) (\<lambda>_. apply_with push S e st op d)) ops d = Inr d'"
    and "t_ok (proposals d)" and "\<forall>op \<in> set ops. \<not> is_update op"
  shows "proposals_steps ops d d'"
  using assms
proof (induction ops arbitrary: d)
  case Nil
  then show ?case by (simp add: proposals_steps_def)
next
  case (Cons op ops)
  then obtain d1 where 1: "apply_with push S e st op d = Inr d1"
    and 2: "foldE (\<lambda>op d. bindE (require (G d) Undefined_Behaviour) (\<lambda>_. apply_with push S e st op d)) ops d1 = Inr d'" by auto
  have s: "proposals_step op d d1" by (rule other_step [OF Cons.prems(2) _ 1]) (use Cons.prems(3) in simp)
  have t: "outer d1 = outer d" by (rule other_headed [OF _ 1]) (use Cons.prems(3) in simp)
  have "t_ok (proposals d1)" using s by (simp add: proposals_step_def)
  then have r: "proposals_steps ops d1 d'" using Cons.IH [OF 2] Cons.prems(3) by simp
  have "generic_find (proposals d') k = Some p \<or> generic_find (proposals d') k = None \<and> (\<exists>op' \<in> set (op # ops). vetoed k p op')"
    if k: "generic_find (proposals d) k = Some p" for k p
  proof (cases "generic_find (proposals d1) k = Some p")
    case True
    then show ?thesis using r by (auto simp: proposals_steps_def)
  next
    case False
    then have n: "generic_find (proposals d1) k = None" and v: "vetoed k p op" using s k by (auto simp: proposals_step_def)
    have "k < g_next_id (proposals d)" using generic_fresh [OF Cons.prems(2), of k] k by (auto simp: not_less [symmetric])
    then have "k < g_next_id (proposals d1)" using s by (simp add: proposals_step_def)
    then have "generic_find (proposals d') k = None"
      using n steps_new [OF r, of k] by (cases "generic_find (proposals d') k") auto
    then show ?thesis using v by simp
  qed
  moreover have "generic_find (proposals d) k = Some p \<or> g_next_id (proposals d) \<le> k \<and>
      head_block_time (ledger d) < pr_expiration_time p \<and> (\<forall>o' \<in> set (pr_operations p). \<not> is_update o')"
    if "generic_find (proposals d') k = Some p" for k p
    using steps_new [OF r that] step_new [OF s] s outer_time [OF t] by (auto simp: proposals_step_def)
  ultimately show ?case using s r t by (simp add: proposals_step_def proposals_steps_def)
qed

lemma push_proposal_steps:
  assumes ok: "proposals_ok d" and run: "push_proposal (Suc n) S e k d = Inr d'"
  obtains p d1 where "generic_find (proposals d) k = Some p" and "proposals_steps (pr_operations p) d d1"
    and "generic_find (proposals d1) k \<noteq> None" and "d' = d1\<lparr>proposals := t_remove k (proposals d1)\<rparr>"
proof -
  from run obtain p d1 where p: "generic_find (proposals d) k = Some p"
    and f: "foldE (\<lambda>op d. bindE (require (generic_find (proposals d) k \<noteq> None) Undefined_Behaviour)
        (\<lambda>_. apply_with (push_proposal n S e) S e proposed_trx op d)) (pr_operations p) d = Inr d1"
    and g: "generic_find (proposals d1) k \<noteq> None" and d': "d' = d1\<lparr>proposals := t_remove k (proposals d1)\<rparr>"
    by (auto simp: push_with_def)
  have "t_ok (proposals d)" "\<forall>op \<in> set (pr_operations p). \<not> is_update op" using ok p by (auto simp: proposals_ok_def)
  then show thesis using that [OF p fold_steps [OF f] g d'] by simp
qed

section \<open>Approvals\<close>

text \<open>Fees change neither accounts nor parameters, so that they do not change what is authorised.\<close>

lemma authorized_cong:
  assumes "accounts (ledger d') = accounts (ledger d)" and "gpo (ledger d') = gpo (ledger d)"
  shows "is_authorized_to_execute p d' = is_authorized_to_execute p d"
proof -
  have "get_active d' = get_active d" "get_owner d' = get_owner d" "max_depth d' = max_depth d"
    using assms by (auto simp: fun_eq_iff get_active_def get_owner_def get_account_def max_depth_def)
  then show ?thesis by (simp add: is_authorized_to_execute_def)
qed

text \<open>The three outcomes of an approval: noted, executed, or tried without success.\<close>

lemma update_outcome:
  assumes tok: "t_ok (proposals d)"
    and run: "db_start_evaluate S st r payer fee (proposal_update_do_evaluate op) (proposal_update_do_apply push op) d = Inr d'"
  obtains (noted) p c t where "generic_find (proposals d) (pru_proposal op) = Some p" and "d' = d\<lparr>ledger := c, proposals := t\<rparr>" and "t_ok t"
      and "generic_find t = (generic_find (proposals d))(pru_proposal op \<mapsto> updated_proposal op p)" and "g_next_id t = g_next_id (proposals d)"
      and "headed c = headed (ledger d)"
    | (executed) p c t d2 b where "generic_find (proposals d) (pru_proposal op) = Some p" and "pr_review_period_time p = None"
      and "is_authorized_to_execute (updated_proposal op p) d" and "t_ok t"
      and "generic_find t = (generic_find (proposals d))(pru_proposal op \<mapsto> updated_proposal op p)" and "g_next_id t = g_next_id (proposals d)"
      and "headed c = headed (ledger d)"
      and "push (pru_proposal op) (d\<lparr>ledger := c, proposals := t\<rparr>) = Inr d2" and "d' = d2\<lparr>ledger := (ledger d2)\<lparr>balances := b\<rparr>\<rparr>"
proof (rule db_inner [OF run])
  fix f0 f x u d3 b
  let ?c = "(ledger d)\<lparr>asset_dyn := u\<rparr>"
  assume da: "proposal_update_do_apply push op f x (d\<lparr>ledger := ?c\<rparr>) = Inr d3" and d': "d' = d3\<lparr>ledger := (ledger d3)\<lparr>balances := b\<rparr>\<rparr>"
  from da obtain t where t: "t_modify no_unique (pru_proposal op) (\<lambda>p. Inr (updated_proposal op p)) (proposals d) = Inr t"
    by (auto simp: proposal_update_do_apply_def)
  show thesis
  proof (rule t_modify_law [OF tok t])
    fix p q
    assume p: "generic_find (proposals d) (pru_proposal op) = Some p" and q: "Inr (updated_proposal op p) = (Inr q :: _ res)" and ok: "t_ok t"
      and g: "generic_find t = (generic_find (proposals d))(pru_proposal op \<mapsto> q)" and nx: "g_next_id t = g_next_id (proposals d)"
    let ?d = "d\<lparr>ledger := ?c, proposals := t\<rparr>"
    have a: "is_authorized_to_execute (updated_proposal op p) ?d = is_authorized_to_execute (updated_proposal op p) d"
      by (rule authorized_cong) simp_all
    from da t g q consider "d3 = ?d" | "pr_review_period_time p = None" "is_authorized_to_execute (updated_proposal op p) d"
        "push (pru_proposal op) ?d = Inr d3"
      by (auto simp: proposal_update_do_apply_def Let_def a split: if_splits sum.splits)
    then show thesis
    proof cases
      case 1
      show ?thesis
        by (rule noted [OF p, where c = "?c\<lparr>balances := b\<rparr>" and t = t]) (use ok g q nx 1 d' in \<open>simp_all add: headed_def\<close>)
    next
      case 2
      show ?thesis
        by (rule executed [OF p 2(1,2) ok, where c = ?c]) (use g q nx 2 d' in \<open>simp_all add: headed_def\<close>)
    qed
  qed
qed

lemma is_update_iff: "is_update op' \<longleftrightarrow> (\<exists>op. op' = Proposal_Update op)"
  by (cases op') (simp_all add: is_update_def)

lemma updated_ok:
  assumes "proposals_ok d" and "generic_find (proposals d) k = Some p" and "t_ok t"
    and "generic_find t = (generic_find (proposals d))(k \<mapsto> updated_proposal op p)"
  shows "proposals_ok (d\<lparr>ledger := c, proposals := t\<rparr>)"
  using assms by (auto simp: proposals_ok_def updated_proposal_def split: if_splits)

lemma steps_ok_kept:
  assumes "proposals_ok d" and "proposals_steps ops d d'"
  shows "proposals_ok d'"
  using assms steps_new [OF assms(2)] by (fastforce simp: proposals_ok_def proposals_steps_def)

text \<open>The invariant of proposals, and the time, under every operation.\<close>

lemma operation_proposals:
  assumes ok: "proposals_ok d" and run: "db_apply_operation S e st op' d = Inr d'"
  shows "proposals_ok d'" and "outer d' = outer d"
proof -
  have tok: "t_ok (proposals d)" using ok by (simp add: proposals_ok_def)
  have "proposals_ok d' \<and> outer d' = outer d"
  proof (cases "is_update op'")
    case False
    then have s: "proposals_step op' d d'" and t: "outer d' = outer d"
      using run other_step [OF tok] other_headed by (auto simp: db_apply_operation_def)
    then show ?thesis using ok step_new [OF s] by (fastforce simp: proposals_ok_def proposals_step_def)
  next
    case True
    then obtain op where op: "op' = Proposal_Update op" by (auto simp: is_update_iff)
    from run have r: "db_start_evaluate S st (de_fee e op') (pru_fee_paying_account op) (pru_fee op)
        (proposal_update_do_evaluate op) (proposal_update_do_apply (push_proposal 1 S e) op) d = Inr d'"
      by (simp add: db_apply_operation_def apply_with_def op)
    show ?thesis
    proof (rule update_outcome [OF tok r])
      fix p c t
      assume "generic_find (proposals d) (pru_proposal op) = Some p" "d' = d\<lparr>ledger := c, proposals := t\<rparr>" "t_ok t"
        "generic_find t = (generic_find (proposals d))(pru_proposal op \<mapsto> updated_proposal op p)" "headed c = headed (ledger d)"
      then show ?thesis using updated_ok [OF ok] by (simp add: outer_def)
    next
      fix p c t d2 b
      assume p: "generic_find (proposals d) (pru_proposal op) = Some p" and t: "t_ok t"
          "generic_find t = (generic_find (proposals d))(pru_proposal op \<mapsto> updated_proposal op p)"
        and c: "headed c = headed (ledger d)"
        and push: "push_proposal 1 S e (pru_proposal op) (d\<lparr>ledger := c, proposals := t\<rparr>) = Inr d2"
        and d': "d' = d2\<lparr>ledger := (ledger d2)\<lparr>balances := b\<rparr>\<rparr>"
      have ok1: "proposals_ok (d\<lparr>ledger := c, proposals := t\<rparr>)" by (rule updated_ok [OF ok p t])
      show ?thesis
      proof (rule push_proposal_steps [OF ok1 push [unfolded One_nat_def]])
        fix q d1
        assume s: "proposals_steps (pr_operations q) (d\<lparr>ledger := c, proposals := t\<rparr>) d1"
          and d2: "d2 = d1\<lparr>proposals := t_remove (pru_proposal op) (proposals d1)\<rparr>"
        have "proposals_ok d1" by (rule steps_ok_kept [OF ok1 s])
        moreover have "outer d1 = outer d" using s c by (simp add: proposals_steps_def outer_def)
        ultimately show ?thesis
          by (auto simp: d' d2 proposals_ok_def t_remove_law outer_def headed_def split: if_splits)
      qed
    qed
  qed
  then show "proposals_ok d'" "outer d' = outer d" by simp_all
qed

lemma removed_by_operation:
  assumes ok: "proposals_ok d" and k: "generic_find (proposals d) k = Some p"
    and run: "db_apply_operation S e st op' d = Inr d'" and gone: "generic_find (proposals d') k = None"
  shows "vetoed k p op' \<or> (\<exists>op q. op' = Proposal_Update op \<and> generic_find (proposals d) (pru_proposal op) = Some q \<and>
    pr_review_period_time q = None \<and> is_authorized_to_execute (updated_proposal op q) d \<and>
    (k = pru_proposal op \<or> (\<exists>o' \<in> set (pr_operations q). vetoed k p o')))"
proof (cases "is_update op'")
  case False
  have "t_ok (proposals d)" using ok by (simp add: proposals_ok_def)
  from step_old [OF other_step [OF this False run [unfolded db_apply_operation_def]] k] gone show ?thesis by simp
next
  case True
  then obtain op where op: "op' = Proposal_Update op" by (auto simp: is_update_iff)
  have tok: "t_ok (proposals d)" using ok by (simp add: proposals_ok_def)
  from run have r: "db_start_evaluate S st (de_fee e op') (pru_fee_paying_account op) (pru_fee op)
      (proposal_update_do_evaluate op) (proposal_update_do_apply (push_proposal 1 S e) op) d = Inr d'"
    by (simp add: db_apply_operation_def apply_with_def op)
  show ?thesis
  proof (rule update_outcome [OF tok r])
    fix q c t
    assume "d' = d\<lparr>ledger := c, proposals := t\<rparr>" "generic_find t = (generic_find (proposals d))(pru_proposal op \<mapsto> updated_proposal op q)"
    then show ?thesis using gone k by (auto split: if_splits)
  next
    fix q c t d2 b
    assume q: "generic_find (proposals d) (pru_proposal op) = Some q" "pr_review_period_time q = None"
        "is_authorized_to_execute (updated_proposal op q) d"
      and t: "t_ok t" "generic_find t = (generic_find (proposals d))(pru_proposal op \<mapsto> updated_proposal op q)"
      and push: "push_proposal 1 S e (pru_proposal op) (d\<lparr>ledger := c, proposals := t\<rparr>) = Inr d2"
      and d': "d' = d2\<lparr>ledger := (ledger d2)\<lparr>balances := b\<rparr>\<rparr>"
    show ?thesis
    proof (rule push_proposal_steps [OF updated_ok [OF ok q(1) t] push [unfolded One_nat_def]])
      fix q' d1
      assume q': "generic_find (proposals (d\<lparr>ledger := c, proposals := t\<rparr>)) (pru_proposal op) = Some q'"
        and s: "proposals_steps (pr_operations q') (d\<lparr>ledger := c, proposals := t\<rparr>) d1"
        and d2: "d2 = d1\<lparr>proposals := t_remove (pru_proposal op) (proposals d1)\<rparr>"
      have tok1: "t_ok (proposals d1)" using s by (simp add: proposals_steps_def)
      have "pr_operations q' = pr_operations q" using q' t by auto
      moreover have "\<exists>o' \<in> set (pr_operations q'). vetoed k p o'" if "k \<noteq> pru_proposal op"
      proof -
        have "generic_find (proposals (d\<lparr>ledger := c, proposals := t\<rparr>)) k = Some p" using k t that by simp
        moreover have "generic_find (proposals d1) k = None" using gone that by (simp add: d' d2 t_remove_law [OF tok1])
        ultimately show ?thesis using s by (fastforce simp: proposals_steps_def)
      qed
      ultimately show ?thesis using q op by auto
    qed
  qed
qed

section \<open>The loop over the expired proposals\<close>

lemma earliest_row_None: "earliest_row rows = None \<longleftrightarrow> rows = []"
  by (cases rows) (auto split: option.splits)

lemma earliest_row_Some:
  "earliest_row rows = Some r \<Longrightarrow> r \<in> set rows \<and> (\<forall>q \<in> set rows. pr_expiration_time (snd r) \<le> pr_expiration_time (snd q))"
proof (induction rows arbitrary: r)
  case (Cons a rows)
  show ?case
  proof (cases "earliest_row rows")
    case None
    then show ?thesis using Cons.prems earliest_row_None by auto
  next
    case (Some b)
    then show ?thesis using Cons.IH [OF Some] Cons.prems by (force split: if_splits)
  qed
qed simp

lemma earliest_None: "earliest_proposal t = None \<Longrightarrow> generic_find t k = None"
  by (simp add: earliest_proposal_def generic_find_def earliest_row_None)

lemma earliest_Some:
  assumes "t_ok t" and "earliest_proposal t = Some r"
  shows "generic_find t (fst r) = Some (snd r)" and "generic_find t k = Some p \<Longrightarrow> pr_expiration_time (snd r) \<le> pr_expiration_time p"
proof -
  have r: "r \<in> set (g_rows t)" "\<forall>q \<in> set (g_rows t). pr_expiration_time (snd r) \<le> pr_expiration_time (snd q)"
    using earliest_row_Some [of "g_rows t" r] assms(2) by (auto simp: earliest_proposal_def)
  then show "generic_find t (fst r) = Some (snd r)"
    using assms(1) by (simp add: generic_find_def generic_invar_def sorted_rows_distinct)
  show "generic_find t k = Some p \<Longrightarrow> pr_expiration_time (snd r) \<le> pr_expiration_time p"
    using r(2) by (fastforce simp: generic_find_def dest: map_of_SomeD)
qed

text \<open>The ids of the expired proposals: each round makes them fewer.\<close>

definition expired_ids :: "database \<Rightarrow> nat set" where
  "expired_ids d = {k. \<exists>p. generic_find (proposals d) k = Some p \<and> pr_expiration_time p \<le> head_block_time (ledger d)}"

lemma finite_expired: "finite (expired_ids d)"
proof (rule finite_subset)
  show "expired_ids d \<subseteq> fst ` set (g_rows (proposals d))"
    by (force simp: expired_ids_def generic_find_def dest: map_of_SomeD)
qed simp

lemma clear_proposal_step:
  assumes ok: "proposals_ok d" and p: "generic_find (proposals d) k = Some p" "pr_expiration_time p \<le> head_block_time (ledger d)"
    and run: "clear_proposal S e k p d = Inr d'"
  shows "proposals_ok d'" and "outer d' = outer d" and "expired_ids d' \<subset> expired_ids d"
proof -
  have tok: "t_ok (proposals d)" using ok by (simp add: proposals_ok_def)
  have k: "k \<in> expired_ids d" using p by (auto simp: expired_ids_def)
  from run consider "d' = d\<lparr>proposals := t_remove k (proposals d)\<rparr>" | "push_proposal (Suc 0) S e k d = Inr d'"
    unfolding clear_proposal_def Let_def One_nat_def
    by (cases "is_authorized_to_execute p d"; cases "push_proposal (Suc 0) S e k d"; simp del: push_proposal.simps split: if_splits)
  then have "proposals_ok d' \<and> outer d' = outer d \<and> expired_ids d' \<subset> expired_ids d"
  proof cases
    case 1
    then have "expired_ids d' \<subseteq> expired_ids d - {k}" by (auto simp: expired_ids_def t_remove_law [OF tok] split: if_splits)
    then show ?thesis using 1 k ok by (auto simp: proposals_ok_def outer_def t_remove_law [OF tok] split: if_splits)
  next
    case 2
    show ?thesis
    proof (rule push_proposal_steps [OF ok 2])
      fix q d1
      assume s: "proposals_steps (pr_operations q) d d1" and d': "d' = d1\<lparr>proposals := t_remove k (proposals d1)\<rparr>"
      have tok1: "t_ok (proposals d1)" and t: "outer d1 = outer d"
        using s by (auto simp: proposals_steps_def)
      have "proposals_ok d'" using steps_ok_kept [OF ok s] by (auto simp: d' proposals_ok_def t_remove_law [OF tok1] split: if_splits)
      moreover have "expired_ids d' \<subseteq> expired_ids d - {k}"
      proof
        fix j assume "j \<in> expired_ids d'"
        then obtain p' where "j \<noteq> k" "generic_find (proposals d1) j = Some p'" "pr_expiration_time p' \<le> head_block_time (ledger d)"
          by (auto simp: expired_ids_def d' outer_time [OF t] t_remove_law [OF tok1] split: if_splits)
        with steps_new [OF s, of j p'] show "j \<in> expired_ids d - {k}" by (auto simp: expired_ids_def)
      qed
      ultimately show ?thesis using k t by (auto simp: d' outer_def)
    qed
  qed
  then show "proposals_ok d'" "outer d' = outer d" "expired_ids d' \<subset> expired_ids d" by simp_all
qed

lemma clear_expired_returns:
  assumes "proposals_ok d"
  shows "\<exists>r. clear_expired_proposals S e d = Some r \<and> (\<forall>d'. r = Inr d' \<longrightarrow>
    proposals_ok d' \<and> expired_ids d' = {} \<and> outer d' = outer d)"
  using assms
proof (induction "card (expired_ids d)" arbitrary: d rule: less_induct)
  case less
  have tok: "t_ok (proposals d)" using less.prems by (simp add: proposals_ok_def)
  show ?case
  proof (cases "earliest_proposal (proposals d)")
    case None
    then have "expired_ids d = {}" using earliest_None [OF None] by (simp add: expired_ids_def)
    then show ?thesis using None less.prems by (subst clear_expired_proposals.simps) simp
  next
    case (Some r)
    note er = earliest_Some [OF tok Some]
    show ?thesis
    proof (cases "pr_expiration_time (snd r) \<le> head_block_time (ledger d)")
      case False
      then have "expired_ids d = {}" using er(2) by (fastforce simp: expired_ids_def)
      then show ?thesis using Some False less.prems by (subst clear_expired_proposals.simps) simp
    next
      case True
      show ?thesis
      proof (cases "clear_proposal S e (fst r) (snd r) d")
        case (Inl err)
        then show ?thesis using Some True by (subst clear_expired_proposals.simps) simp
      next
        case (Inr d1)
        note st = clear_proposal_step [OF less.prems er(1) True Inr]
        have "card (expired_ids d1) < card (expired_ids d)" by (rule psubset_card_mono [OF finite_expired st(3)])
        from less.hyps [OF this st(1)] show ?thesis using Some True Inr st(2) by (subst clear_expired_proposals.simps) simp
      qed
    qed
  qed
qed

text \<open>What a round, and then the loop, removes.\<close>

lemma clear_proposal_removes:
  assumes ok: "proposals_ok d" and q: "generic_find (proposals d) j = Some q" and run: "clear_proposal S e j q d = Inr d'"
  shows "generic_find (proposals d) k = Some p \<Longrightarrow> generic_find (proposals d') k = Some p \<or>
      generic_find (proposals d') k = None \<and> (k = j \<or> (\<exists>o' \<in> set (pr_operations q). vetoed k p o'))"
    and "generic_find (proposals d') k = Some p \<Longrightarrow> generic_find (proposals d) k = Some p \<or> head_block_time (ledger d) < pr_expiration_time p"
proof -
  have tok: "t_ok (proposals d)" using ok by (simp add: proposals_ok_def)
  from run consider "d' = d\<lparr>proposals := t_remove j (proposals d)\<rparr>" | "push_proposal (Suc 0) S e j d = Inr d'"
    unfolding clear_proposal_def Let_def One_nat_def
    by (cases "is_authorized_to_execute q d"; cases "push_proposal (Suc 0) S e j d"; simp del: push_proposal.simps split: if_splits)
  then have "(\<forall>k p. generic_find (proposals d) k = Some p \<longrightarrow> generic_find (proposals d') k = Some p \<or>
      generic_find (proposals d') k = None \<and> (k = j \<or> (\<exists>o' \<in> set (pr_operations q). vetoed k p o'))) \<and>
    (\<forall>k p. generic_find (proposals d') k = Some p \<longrightarrow> generic_find (proposals d) k = Some p \<or> head_block_time (ledger d) < pr_expiration_time p)"
  proof cases
    case 1
    then show ?thesis by (simp add: t_remove_law [OF tok])
  next
    case 2
    show ?thesis
    proof (rule push_proposal_steps [OF ok 2])
      fix q' d1
      assume "generic_find (proposals d) j = Some q'" and s: "proposals_steps (pr_operations q') d d1"
        and d': "d' = d1\<lparr>proposals := t_remove j (proposals d1)\<rparr>"
      then have q': "q' = q" using q by simp
      have "t_ok (proposals d1)" using s by (simp add: proposals_steps_def)
      then have f: "generic_find (proposals d') i = (if i = j then None else generic_find (proposals d1) i)" for i
        by (simp add: d' t_remove_law)
      have "generic_find (proposals d') i = Some x \<or> generic_find (proposals d') i = None \<and> (i = j \<or> (\<exists>o' \<in> set (pr_operations q). vetoed i x o'))"
        if "generic_find (proposals d) i = Some x" for i x
        using s that unfolding proposals_steps_def q' f by (cases "i = j") auto
      moreover have "generic_find (proposals d) i = Some x \<or> head_block_time (ledger d) < pr_expiration_time x"
        if "generic_find (proposals d') i = Some x" for i x
        using steps_new [OF s] that unfolding f by (auto split: if_splits)
      ultimately show ?thesis by blast
    qed
  qed
  then show "generic_find (proposals d) k = Some p \<Longrightarrow> generic_find (proposals d') k = Some p \<or>
      generic_find (proposals d') k = None \<and> (k = j \<or> (\<exists>o' \<in> set (pr_operations q). vetoed k p o'))"
    "generic_find (proposals d') k = Some p \<Longrightarrow> generic_find (proposals d) k = Some p \<or> head_block_time (ledger d) < pr_expiration_time p"
    by blast+
qed

lemma clear_expired_removes:
  assumes "proposals_ok d" and "clear_expired_proposals S e d = Some (Inr d')"
    and "generic_find (proposals d) k = Some p" and "generic_find (proposals d') k = None"
  shows "pr_expiration_time p \<le> head_block_time (ledger d) \<or> (\<exists>j q. generic_find (proposals d) j = Some q \<and>
    pr_expiration_time q \<le> head_block_time (ledger d) \<and> (\<exists>o' \<in> set (pr_operations q). vetoed k p o'))"
  using assms
proof (induction "card (expired_ids d)" arbitrary: d rule: less_induct)
  case less
  have tok: "t_ok (proposals d)" using less.prems(1) by (simp add: proposals_ok_def)
  obtain r where r: "earliest_proposal (proposals d) = Some r" and x: "pr_expiration_time (snd r) \<le> head_block_time (ledger d)"
    using less.prems(2-) by (subst (asm) clear_expired_proposals.simps) (auto split: option.splits if_splits)
  then obtain d1 where c: "clear_proposal S e (fst r) (snd r) d = Inr d1" and rest: "clear_expired_proposals S e d1 = Some (Inr d')"
    using less.prems(2) by (subst (asm) clear_expired_proposals.simps) (auto split: sum.splits)
  note er = earliest_Some(1) [OF tok r]
  note st = clear_proposal_step [OF less.prems(1) er x c] and rm = clear_proposal_removes [OF less.prems(1) er c]
  have now: "head_block_time (ledger d1) = head_block_time (ledger d)" by (rule outer_time [OF st(2)])
  show ?case
  proof (cases "generic_find (proposals d1) k = Some p")
    case True
    have "card (expired_ids d1) < card (expired_ids d)" by (rule psubset_card_mono [OF finite_expired st(3)])
    from less.hyps [OF this st(1) rest True less.prems(4)] show ?thesis using rm(2) unfolding now by fastforce
  next
    case False
    then show ?thesis using rm(1) [OF less.prems(3)] er x less.prems(3) by auto
  qed
qed

text \<open>
  C15. What removes a proposal from the database. An operation does so in two ways only: an account
  whose approval the proposal requires vetoes it; or another proposal, or it itself, is executed, which
  happens only when that one has no review period and the approvals collected, with those just added,
  authorise each of its operations, and the proposal removed is the one executed or is vetoed by one of
  its operations. The loop over the expired proposals removes a proposal only if it has expired, or
  if an operation of a proposal that has expired vetoes it.
\<close>

theorem proposal_removed_only:
  assumes "proposals_ok d" and "generic_find (proposals d) k = Some p" and "generic_find (proposals d') k = None"
  shows "(db_apply_operation S e st op' d = Inr d' \<longrightarrow>
      vetoed k p op' \<or> (\<exists>op q. op' = Proposal_Update op \<and> generic_find (proposals d) (pru_proposal op) = Some q \<and>
        pr_review_period_time q = None \<and> is_authorized_to_execute (updated_proposal op q) d \<and>
        (k = pru_proposal op \<or> (\<exists>o' \<in> set (pr_operations q). vetoed k p o')))) \<and>
    (clear_expired_proposals S e d = Some (Inr d') \<longrightarrow>
      pr_expiration_time p \<le> head_block_time (ledger d) \<or> (\<exists>j q. generic_find (proposals d) j = Some q \<and>
        pr_expiration_time q \<le> head_block_time (ledger d) \<and> (\<exists>o' \<in> set (pr_operations q). vetoed k p o')))"
  using removed_by_operation [OF assms(1,2) _ assms(3)] clear_expired_removes [OF assms(1) _ assms(2,3)] by blast

text \<open>
  C16. The loop over the expired proposals ends, although the operations it executes may propose anew;
  and when it ends without error no proposal in the database has expired.
\<close>

theorem expired_proposals_cleared:
  assumes "proposals_ok d"
  shows "\<exists>r. clear_expired_proposals S e d = Some r \<and> (\<forall>d' k p. r = Inr d' \<longrightarrow>
    generic_find (proposals d') k = Some p \<longrightarrow> head_block_time (ledger d) < pr_expiration_time p)"
proof -
  from clear_expired_returns [OF assms] obtain r where r: "clear_expired_proposals S e d = Some r"
    "\<forall>d'. r = Inr d' \<longrightarrow> proposals_ok d' \<and> expired_ids d' = {} \<and> outer d' = outer d" by blast
  have "head_block_time (ledger d) < pr_expiration_time p" if "r = Inr d'" "generic_find (proposals d') k = Some p" for d' k p
    using r(2) that outer_time [of d' d] by (fastforce simp: expired_ids_def not_le)
  with r(1) show ?thesis by blast
qed

section \<open>The depth of the nesting, again\<close>

text \<open>
  The execution of proposals nests one level deep at most: with any greater bound on the depth an
  operation has the same outcome, and no operation makes a proposal that could approve another one.
\<close>

theorem proposals_never_nest:
  assumes "proposals_ok d"
  shows "apply_with (push_proposal (Suc n) S e) S e st op' d = db_apply_operation S e st op' d \<and>
    (\<forall>d'. db_apply_operation S e st op' d = Inr d' \<longrightarrow> proposals_ok d')"
  using apply_depth [OF assms] operation_proposals(1) [OF assms] by blast

section \<open>Concrete instances\<close>

definition demo_chain_env :: chain_env where
  "demo_chain_env = \<lparr>ce_content = demo_env, ce_fee = (\<lambda>op. Inr 10), ce_variants = demo_variants, ce_nth = (\<lambda>less n xs. xs ! n)\<rparr>"

definition demo_db_env :: db_env where
  "demo_db_env = \<lparr>de_chain = demo_chain_env, de_fee = (\<lambda>op. Inr 10), de_proto = Inr, de_payload = (\<lambda>x. Inl Assert_Exception),
     de_tracked = (\<lambda>a. False), de_skip_assert_evaluation = False\<rparr>"

definition demo_database :: database where
  "demo_database = \<lparr>ledger = demo_chain, proposals = t_empty, transactions = t_empty, block_summaries = t_empty, messages = t_empty\<rparr>"

definition demo_veto :: operation where
  "demo_veto = Proposal_Delete \<lparr>prd_fee_paying_account = 4, prd_using_owner_authority = False, prd_fee = mk_asset 10 0, prd_proposal = 0\<rparr>"

definition demo_transfer_proposed :: operation where
  "demo_transfer_proposed = On_Ledger (Transfer_Obsolete \<lparr>tro_fee = mk_asset 10 0, tro_from = 4, tro_to = 5, tro_amount = mk_asset 100 0, tro_memo = None\<rparr>)"

definition demo_propose :: "operation \<Rightarrow> operation" where
  "demo_propose op = Proposal_Create (Proposal_Create_Operation (mk_asset 10 0) 5 [op] 450 None)"

definition demo_approve :: operation where
  "demo_approve = Proposal_Update \<lparr>pru_fee_paying_account = 4, pru_fee = mk_asset 10 0, pru_proposal = 0, active_approvals_to_add = [4],
     active_approvals_to_remove = [], owner_approvals_to_add = [], owner_approvals_to_remove = [], key_approvals_to_add = [],
     key_approvals_to_remove = []\<rparr>"

text \<open>
  A proposal can be made to delete itself: anyone may propose that an account vetoes the proposal
  just being made, and when that account approves, the node goes on using the proposal it has removed.
\<close>

theorem self_deleting_proposal:
  "(case db_apply_operation checked64 demo_db_env demo_trx (demo_propose demo_veto) demo_database of
      Inl err \<Rightarrow> False
    | Inr d \<Rightarrow> (case db_apply_operation checked64 demo_db_env demo_trx demo_approve d of
                  Inl err \<Rightarrow> err = Undefined_Behaviour | Inr d' \<Rightarrow> False))"
  by code_simp

definition demo_proposed_database :: database where
  "demo_proposed_database = demo_database\<lparr>proposals := \<lparr>g_next_id = 1,
     g_rows = [(0, new_proposal (Proposal_Create_Operation (mk_asset 10 0) 5 [demo_transfer_proposed] 400 None))]\<rparr>\<rparr>"

lemma demo_proposals_ok: "proposals_ok demo_proposed_database"
  by (auto simp: proposals_ok_def demo_proposed_database_def generic_invar_def generic_find_def new_proposal_def Let_def is_update_def
      demo_transfer_proposed_def split: if_splits)

lemma demo_proposal_executed:
  "(case db_apply_operation checked64 demo_db_env demo_trx demo_approve demo_proposed_database of
     Inl err \<Rightarrow> False | Inr d' \<Rightarrow> generic_find (proposals d') 0 = None)"
  by code_simp

theorem proposal_removed_only_witness:
  "\<exists>d' p. generic_find (proposals demo_proposed_database) 0 = Some p \<and>
     db_apply_operation checked64 demo_db_env demo_trx demo_approve demo_proposed_database = Inr d' \<and>
     (vetoed 0 p demo_approve \<or> (\<exists>op q. demo_approve = Proposal_Update op \<and>
        generic_find (proposals demo_proposed_database) (pru_proposal op) = Some q \<and> pr_review_period_time q = None \<and>
        is_authorized_to_execute (updated_proposal op q) demo_proposed_database))"
proof -
  obtain d' where r: "db_apply_operation checked64 demo_db_env demo_trx demo_approve demo_proposed_database = Inr d'"
    and g: "generic_find (proposals d') 0 = None"
    using demo_proposal_executed by (auto split: sum.splits)
  obtain p where p: "generic_find (proposals demo_proposed_database) 0 = Some p"
    by (simp add: demo_proposed_database_def generic_find_def)
  from proposal_removed_only [OF demo_proposals_ok p g] p r show ?thesis by blast
qed

theorem expired_proposals_cleared_witness:
  "\<exists>r. clear_expired_proposals checked64 demo_db_env demo_proposed_database = Some r"
  using expired_proposals_cleared [OF demo_proposals_ok] by blast

theorem proposals_never_nest_witness:
  "\<exists>d'. apply_with (push_proposal 3 checked64 demo_db_env) checked64 demo_db_env demo_trx demo_approve demo_proposed_database = Inr d' \<and>
     proposals_ok d'"
proof -
  obtain d' where r: "db_apply_operation checked64 demo_db_env demo_trx demo_approve demo_proposed_database = Inr d'"
    using demo_proposal_executed by (auto split: sum.splits)
  have n: "push_proposal 3 checked64 demo_db_env = push_proposal (Suc 2) checked64 demo_db_env" by (simp only: numeral_3_eq_3 numeral_2_eq_2)
  show ?thesis
    using proposals_never_nest [OF demo_proposals_ok, of 2 checked64 demo_db_env demo_trx demo_approve] r unfolding n by simp
qed

section \<open>The review period\<close>

text \<open>What the miners account has to do is proposed, with a review period; the parameters bound it from below.\<close>

lemma proposal_lifetime:
  assumes "proposal_create_do_evaluate e op f d = Inr x"
  shows "case prc_review_period_seconds op of None \<Rightarrow> True | Some s \<Rightarrow> s < maximum_proposal_lifetime (parameters (gpo (ledger d)))"
proof (cases "prc_review_period_seconds op")
  case (Some s)
  have "prc_expiration_time op \<le> time_plus (head_block_time (ledger d)) (maximum_proposal_lifetime (parameters (gpo (ledger d))))"
    and "int s < int (prc_expiration_time op) - int (head_block_time (ledger d))"
    using assms Some by (auto simp: proposal_create_do_evaluate_def Let_def)
  moreover have "int (time_plus t n) \<le> int t + int n" for t n
    using zmod_le_nonneg_dividend [of "int t + int n" "2 ^ 32"] by (simp add: time_plus_def u32_def)
  ultimately show ?thesis using Some by (smt (verit) option.simps(5) of_nat_less_iff zle_int)
qed simp

definition lock_params :: chain_parameters where
  "lock_params = demo_params\<lparr>maximum_transaction_size := 2048, maximum_block_size := 8192, maximum_proposal_lifetime := 100,
     miner_proposal_review_period := 101\<rparr>"

text \<open>
  The check that the review period is shorter than the lifetime of proposals subtracts unsigned
  numbers: parameters with a longer review period pass it, and under them no proposal can be made any
  more that needs the miners account, so that the parameters can never be changed again.
\<close>

theorem review_period_lock:
  "chain_parameters_validate lock_params = Inr () \<and>
   (\<forall>e op f d x. parameters (gpo (ledger d)) = lock_params \<longrightarrow> GRAPHENE_MINER_ACCOUNT \<in> set (required_active (required_by (prc_proposed_ops op))) \<longrightarrow>
      proposal_create_do_evaluate e op f d \<noteq> Inr x)"
proof (intro conjI allI impI notI)
  have "u32 (100 - 101) = 4294967295" by (simp add: u32_def)
  then show "chain_parameters_validate lock_params = Inr ()"
    by (simp add: chain_parameters_validate_def lock_params_def demo_params_def GRAPHENE_MIN_BLOCK_INTERVAL_def GRAPHENE_MAX_BLOCK_INTERVAL_def
        GRAPHENE_MIN_TRANSACTION_SIZE_LIMIT_def GRAPHENE_MIN_BLOCK_SIZE_LIMIT_def)
next
  fix e op f d x
  assume p: "parameters (gpo (ledger d)) = lock_params" and m: "GRAPHENE_MINER_ACCOUNT \<in> set (required_active (required_by (prc_proposed_ops op)))"
    and r: "proposal_create_do_evaluate e op f d = Inr x"
  from r m p obtain s where s: "prc_review_period_seconds op = Some s" "miner_proposal_review_period lock_params \<le> s"
    by (auto simp: proposal_create_do_evaluate_def Let_def split: option.splits)
  from proposal_lifetime [OF r] s p show False by (simp add: lock_params_def)
qed

theorem review_period_lock_witness:
  "\<forall>f x. proposal_create_do_evaluate demo_db_env (Proposal_Create_Operation (mk_asset 10 0) 5
     [On_Ledger (Miner_Parameters \<lparr>mg_fee = mk_asset 10 0, mg_new_parameters = demo_params\<rparr>)] 450 (Some 101)) f
     (demo_database\<lparr>ledger := demo_chain\<lparr>gpo := (gpo demo_chain)\<lparr>parameters := lock_params\<rparr>\<rparr>\<rparr>) \<noteq> Inr x"
proof -
  have "GRAPHENE_MINER_ACCOUNT \<in> set (required_active (required_by
      [On_Ledger (Miner_Parameters \<lparr>mg_fee = mk_asset 10 0, mg_new_parameters = demo_params\<rparr>)]))"
    by (simp add: required_by_sets operation_fee_payer_def chain_operation_fee_payer_def)
  then show ?thesis by (intro allI) (rule review_period_lock [THEN conjunct2, rule_format]; simp)
qed

end
