(* ===== verification/Proposal_Index.thy ===== *)
theory Proposal_Index
  imports Proposal_Correct Secondary_Index
begin

text \<open>
  The two other secondary indexes: \<open>required\_approval\_index\<close> of \<open>proposal\_object.cpp\<close>, which tells the
  proposals an account has to approve, and \<open>message\_receiver\_index\<close> of \<open>message\_object.cpp\<close>. A missing
  key of the maps is the empty set, so that the erasure of empty sets needs no mention.
\<close>

section \<open>required\_approval\_index\<close>

type_synonym approval_index = "account_id_type \<Rightarrow> nat set"

definition approval_object_inserted :: "nat \<Rightarrow> proposal_object \<Rightarrow> approval_index \<Rightarrow> approval_index" where
  "approval_object_inserted k p i =
     insert_members k (available_owner_approvals p) (insert_members k (available_active_approvals p)
       (insert_members k (required_owner_approvals p) (insert_members k (required_active_approvals p) i)))"

definition approval_object_removed :: "nat \<Rightarrow> proposal_object \<Rightarrow> approval_index \<Rightarrow> approval_index" where
  "approval_object_removed k p i =
     erase_members k (available_owner_approvals p) (erase_members k (available_active_approvals p)
       (erase_members k (required_owner_approvals p) (erase_members k (required_active_approvals p) i)))"

definition approval_secondary :: "(proposal_object, approval_index) secondary" where
  "approval_secondary = \<lparr>object_inserted = approval_object_inserted, object_removed = approval_object_removed,
     about_to_modify = (\<lambda>k p i. i), object_modified = (\<lambda>k p i. i)\<rparr>"

definition approvals_tracked :: "(nat \<Rightarrow> proposal_object option) \<Rightarrow> approval_index \<Rightarrow> bool" where
  "approvals_tracked m i \<longleftrightarrow> (\<forall>a. i a = {k. \<exists>p. m k = Some p \<and> a \<in> set (required_active_approvals p) \<union> set (required_owner_approvals p)})"

text \<open>A new proposal has no approvals, and an update leaves alone what a proposal requires.\<close>

definition no_approvals :: "proposal_object \<Rightarrow> bool" where
  "no_approvals p \<longleftrightarrow> available_active_approvals p = [] \<and> available_owner_approvals p = []"

definition same_required :: "proposal_object \<Rightarrow> proposal_object \<Rightarrow> bool" where
  "same_required p q \<longleftrightarrow> required_active_approvals q = required_active_approvals p \<and> required_owner_approvals q = required_owner_approvals p"

interpretation approval: secondary_index approval_secondary approvals_tracked no_approvals same_required
proof
  fix m i k and x y :: proposal_object
  assume t: "approvals_tracked m i"
  show "approvals_tracked (m(k \<mapsto> x)) (object_inserted approval_secondary k x i)" if "m k = None" "no_approvals x"
    using t that by (auto simp: approvals_tracked_def approval_secondary_def approval_object_inserted_def insert_members_law no_approvals_def)
  show "approvals_tracked (m(k := None)) (object_removed approval_secondary k x i)" if "m k = Some x"
    using t that by (auto simp: approvals_tracked_def approval_secondary_def approval_object_removed_def erase_members_law)
  show "approvals_tracked (m(k \<mapsto> y)) (object_modified approval_secondary k y (about_to_modify approval_secondary k x i))"
    if "m k = Some x" "same_required x y"
    using t that by (auto simp: approvals_tracked_def approval_secondary_def same_required_def split: if_splits)
qed

lemma new_proposal_fresh: "no_approvals (new_proposal op)"
  by (simp add: no_approvals_def new_proposal_def Let_def)

lemma updated_same_required: "same_required p (updated_proposal op p)"
  by (simp add: same_required_def updated_proposal_def)

section \<open>message\_receiver\_index\<close>

definition receiver_object_inserted :: "nat \<Rightarrow> message_object \<Rightarrow> approval_index \<Rightarrow> approval_index" where
  "receiver_object_inserted k mo i = insert_members k (map fst (mo_receivers_data mo)) i"

definition receiver_object_removed :: "nat \<Rightarrow> message_object \<Rightarrow> approval_index \<Rightarrow> approval_index" where
  "receiver_object_removed k mo i = erase_members k (map fst (mo_receivers_data mo)) i"

definition receiver_secondary :: "(message_object, approval_index) secondary" where
  "receiver_secondary = \<lparr>object_inserted = receiver_object_inserted, object_removed = receiver_object_removed,
     about_to_modify = (\<lambda>k mo i. i), object_modified = (\<lambda>k mo i. i)\<rparr>"

definition receivers_tracked :: "(nat \<Rightarrow> message_object option) \<Rightarrow> approval_index \<Rightarrow> bool" where
  "receivers_tracked m i \<longleftrightarrow> (\<forall>a. i a = {k. \<exists>mo. m k = Some mo \<and> a \<in> fst ` set (mo_receivers_data mo)})"

definition any_message :: "message_object \<Rightarrow> bool" where
  "any_message mo \<longleftrightarrow> True"

definition same_receivers :: "message_object \<Rightarrow> message_object \<Rightarrow> bool" where
  "same_receivers x y \<longleftrightarrow> mo_receivers_data y = mo_receivers_data x"

interpretation receiver: secondary_index receiver_secondary receivers_tracked any_message same_receivers
proof
  fix m i k and x y :: message_object
  assume t: "receivers_tracked m i"
  show "receivers_tracked (m(k \<mapsto> x)) (object_inserted receiver_secondary k x i)" if "m k = None" "any_message x"
    using t that by (auto simp: receivers_tracked_def receiver_secondary_def receiver_object_inserted_def insert_members_law)
  show "receivers_tracked (m(k := None)) (object_removed receiver_secondary k x i)" if "m k = Some x"
    using t that by (auto simp: receivers_tracked_def receiver_secondary_def receiver_object_removed_def erase_members_law)
  show "receivers_tracked (m(k \<mapsto> y)) (object_modified receiver_secondary k y (about_to_modify receiver_secondary k x i))"
    if "m k = Some x" "same_receivers x y"
    using t that by (auto simp: receivers_tracked_def receiver_secondary_def same_receivers_def split: if_splits)
qed

section \<open>Runs\<close>

text \<open>While a node runs, the index tells for every account exactly the proposals that require its approval.\<close>

lemma approval_run:
  assumes "primary_run approval_secondary no_unique no_approvals same_required (t_empty, \<lambda>a. {}) p"
  shows "snd p a = {k. \<exists>q. generic_find (fst p) k = Some q \<and> a \<in> set (required_active_approvals q) \<union> set (required_owner_approvals q)}"
proof -
  have "approval.in_sync (t_empty, \<lambda>a. {})"
    by (simp add: approval.in_sync_def approvals_tracked_def t_empty_def generic_invar_def generic_find_def)
  from approval.run_in_sync [OF assms this] show ?thesis by (simp add: approval.in_sync_def approvals_tracked_def)
qed

end
