(* ===== verification/Fee_Schedule.thy ===== *)
theory Fee_Schedule
  imports Operations Housekeeping
begin

text \<open>
  \<open>fee\_schedule.cpp\<close> and the fees of the operations in \<open>protocol\<close>: what the schedule demands of an
  operation, in the core asset or converted into another one. The packed sizes come from \<open>fc::raw\<close> and
  are parameters, as is \<open>K\<close>, the conversion of an unsigned number to a share.
\<close>

section \<open>Parameters\<close>

text \<open>The fee, and for some operations a price for a kilobyte; the kinds of parameters follow the order of the operations.\<close>

datatype fee_parameters = Fee (fp_fee: "64 word") | Fee_And_Data (fp_fee: "64 word") (fp_price_per_kbyte: "32 word")

record fee_schedule =
  fs_parameters :: "(nat \<times> fee_parameters) list"
  fs_scale :: "32 word"

definition GRAPHENE_100_PERCENT :: nat where
  "GRAPHENE_100_PERCENT = 10000"

definition default_parameters :: "fee_parameters list" where
  "default_parameters =
     [Fee 100000, Fee 100000, Fee 100000, Fee 100000, Fee 500000,
      Fee 10, Fee 50000000, Fee 100000, Fee 10, Fee_And_Data 100000 10,
      Fee_And_Data 100000 10, Fee 100000, Fee 100000, Fee 100000, Fee_And_Data 100000 10,
      Fee 0, Fee 100000, Fee 100000, Fee_And_Data 100000 10, Fee 1000000,
      Fee 1000000, Fee 0, Fee 0, Fee 0, Fee 0,
      Fee 0, Fee 0, Fee 0, Fee 0, Fee 0,
      Fee 0, Fee 0, Fee 0, Fee 500000, Fee 500000,
      Fee 500000, Fee 500000, Fee 500000, Fee 0, Fee 100000,
      Fee 500000, Fee_And_Data 100000 10, Fee 500000, Fee_And_Data 500000 10, Fee 500000,
      Fee_And_Data 500000 10, Fee 0, Fee 0, Fee 0, Fee 0,
      Fee 0, Fee 0]"

definition get_default :: fee_schedule where
  "get_default = \<lparr>fs_parameters = zip [0..<length default_parameters] default_parameters, fs_scale = of_nat GRAPHENE_100_PERCENT\<rparr>"

text \<open>The six operations at the end are virtual.\<close>

definition get_non_virtual_default :: fee_schedule where
  "get_non_virtual_default = \<lparr>fs_parameters = zip [0..<46] default_parameters, fs_scale = of_nat GRAPHENE_100_PERCENT\<rparr>"

definition zero_fee :: "fee_parameters \<Rightarrow> fee_parameters" where
  "zero_fee p = (case p of Fee f \<Rightarrow> Fee 0 | Fee_And_Data f k \<Rightarrow> Fee_And_Data 0 0)"

definition zero_all_fees :: fee_schedule where
  "zero_all_fees = \<lparr>fs_parameters = map (\<lambda>(i, p). (i, zero_fee p)) (fs_parameters get_default), fs_scale = 0\<rparr>"

definition content_which :: "content_operation \<Rightarrow> nat" where
  "content_which op' =
     (case op' of Submit op \<Rightarrow> 20 | Buy op \<Rightarrow> 21 | Rate op \<Rightarrow> 22 | Publish_Obsolete op \<Rightarrow> 23 | Custody op \<Rightarrow> 24 | Deliver op \<Rightarrow> 25
      | Report op \<Rightarrow> 29 | Set_Manager op \<Rightarrow> 30 | Set_Right op \<Rightarrow> 31 | Cancel op \<Rightarrow> 32 | Publish op \<Rightarrow> 38)"

definition nft_which :: "nft_operation \<Rightarrow> nat" where
  "nft_which op' =
     (case op' of Nft_Create_Definition op \<Rightarrow> 41 | Nft_Update_Definition op \<Rightarrow> 42 | Nft_Issue op \<Rightarrow> 43 | Nft_Transfer op \<Rightarrow> 44
      | Nft_Update_Data op \<Rightarrow> 45)"

definition chain_which :: "chain_operation \<Rightarrow> nat" where
  "chain_which op' =
     (case op' of
        Transfer_Obsolete op \<Rightarrow> 0 | Account_Creation op \<Rightarrow> 1 | Account_Change op \<Rightarrow> 2 | Asset_Creation op \<Rightarrow> 3 | Asset_Issue op \<Rightarrow> 4
      | Publish_Feed op \<Rightarrow> 5 | Miner_Creation op \<Rightarrow> 6 | Miner_Change op \<Rightarrow> 7 | Miner_Parameters op \<Rightarrow> 8
      | Permission_Create op \<Rightarrow> 12 | Permission_Update op \<Rightarrow> 13 | Permission_Claim op \<Rightarrow> 14 | Permission_Delete op \<Rightarrow> 15
      | Vesting_Create op \<Rightarrow> 16 | Vesting_Withdraw op \<Rightarrow> 17 | Subscribe op \<Rightarrow> 26 | Subscribe_By_Author op \<Rightarrow> 27 | Automatic_Renewal op \<Rightarrow> 28
      | Asset_Fund_Pools op \<Rightarrow> 33 | Asset_Reserve op \<Rightarrow> 34 | Asset_Claim_Fees op \<Rightarrow> 35 | Update_User_Issued op \<Rightarrow> 36
      | Update_Monitored op \<Rightarrow> 37 | Transfer_To op \<Rightarrow> 39 | Update_Advanced op \<Rightarrow> 40
      | On_Content op \<Rightarrow> content_which op | On_Nft op \<Rightarrow> nft_which op)"

definition operation_which :: "operation \<Rightarrow> nat" where
  "operation_which op' =
     (case op' of On_Ledger op \<Rightarrow> chain_which op | Proposal_Create op \<Rightarrow> 9 | Proposal_Update op \<Rightarrow> 10 | Proposal_Delete op \<Rightarrow> 11
      | Custom op \<Rightarrow> 18 | Assertion op \<Rightarrow> 19)"

section \<open>The fee of an operation\<close>

text \<open>
  Sizes: of the operation, of its memo if it has one (with the size of the packed optional), and of the
  definitions or the data of a token.
\<close>

record pack_sizes =
  ps_operation :: "operation \<Rightarrow> nat"
  ps_memo :: "operation \<Rightarrow> nat"
  ps_has_memo :: "operation \<Rightarrow> bool"
  ps_data :: "operation \<Rightarrow> nat list"

definition calculate_data_fee :: "nat \<Rightarrow> 64 word \<Rightarrow> 64 word res" where
  "calculate_data_fee bytes price_per_kbyte =
     (let result = of_nat (u64 (int bytes)) * ucast price_per_kbyte div (1024 :: 128 word)
      in bindE (require (result \<le> word_of_int GRAPHENE_MAX_SHARE_SUPPLY) Assert_Exception) (\<lambda>_.
         Inr (ucast result)))"

definition add_data_fee :: "safe \<Rightarrow> (nat \<Rightarrow> int res) \<Rightarrow> fee_parameters \<Rightarrow> nat \<Rightarrow> int \<Rightarrow> int res" where
  "add_data_fee S K p bytes fee =
     bindE (calculate_data_fee bytes (ucast (fp_price_per_kbyte p))) (\<lambda>d.
     bindE (K (unat d)) (\<lambda>x.
     S (fee + x)))"

definition sized_fee :: "(nat \<Rightarrow> int res) \<Rightarrow> fee_parameters \<Rightarrow> nat \<Rightarrow> int res" where
  "sized_fee K p bytes =
     bindE (calculate_data_fee bytes (ucast (fp_price_per_kbyte p))) (\<lambda>d. K (unat (fp_fee p + d)))"

definition nft_symbol_fee :: "(nat \<Rightarrow> int res) \<Rightarrow> 64 word \<Rightarrow> nft_create_definition_operation \<Rightarrow> int res" where
  "nft_symbol_fee K basic_fee op =
     bindE (K (unat (5 * basic_fee))) (\<lambda>fee.
     if length (nc_symbol op) = 3 then K (unat (basic_fee * 5000))
     else if length (nc_symbol op) = 4 then K (unat (basic_fee * 200))
     else Inr fee)"

definition nft_create_definition_calculate_fee ::
  "safe \<Rightarrow> (nat \<Rightarrow> int res) \<Rightarrow> fee_parameters \<Rightarrow> nat list \<Rightarrow> nft_create_definition_operation \<Rightarrow> int res" where
  "nft_create_definition_calculate_fee S K p sizes op =
     bindE (nft_symbol_fee K (fp_fee p) op) (foldE (add_data_fee S K p) sizes)"

definition nft_update_data_calculate_fee :: "safe \<Rightarrow> (nat \<Rightarrow> int res) \<Rightarrow> fee_parameters \<Rightarrow> nat list \<Rightarrow> int res" where
  "nft_update_data_calculate_fee S K p sizes = bindE (K (unat (fp_fee p))) (foldE (add_data_fee S K p) sizes)"

definition nft_issue_calculate_fee :: "safe \<Rightarrow> (nat \<Rightarrow> int res) \<Rightarrow> fee_parameters \<Rightarrow> nat list \<Rightarrow> nat \<Rightarrow> int res" where
  "nft_issue_calculate_fee S K p sizes memo_size =
     bindE (K (unat (fp_fee p))) (\<lambda>fee.
     bindE (foldE (add_data_fee S K p) sizes fee) (\<lambda>fee1.
     add_data_fee S K p memo_size fee1))"

definition withdraw_permission_claim_calculate_fee ::
  "safe \<Rightarrow> (nat \<Rightarrow> int res) \<Rightarrow> fee_parameters \<Rightarrow> bool \<Rightarrow> nat \<Rightarrow> int res" where
  "withdraw_permission_claim_calculate_fee S K p has_memo memo_size =
     bindE (K (unat (fp_fee p))) (\<lambda>fee. if has_memo then add_data_fee S K p memo_size fee else Inr fee)"

text \<open>The data fee of an issue is at the price of the fee itself for a kilobyte.\<close>

definition asset_issue_calculate_fee :: "(nat \<Rightarrow> int res) \<Rightarrow> fee_parameters \<Rightarrow> nat \<Rightarrow> int res" where
  "asset_issue_calculate_fee K p memo_size =
     bindE (calculate_data_fee memo_size (fp_fee p)) (\<lambda>d. K (unat (fp_fee p + d)))"

definition assert_calculate_fee :: "(nat \<Rightarrow> int res) \<Rightarrow> fee_parameters \<Rightarrow> assert_operation \<Rightarrow> int res" where
  "assert_calculate_fee K p op = K (unat (fp_fee p * of_nat (length (ass_predicates op))))"

definition content_submit_calculate_fee :: "(nat \<Rightarrow> int res) \<Rightarrow> fee_parameters \<Rightarrow> content_submit_operation \<Rightarrow> int res" where
  "content_submit_calculate_fee K p op = (if cs_seeders op \<noteq> [] then Inr 0 else K (unat (fp_fee p)))"

lemmas calculate_fee_defs = nft_create_definition_calculate_fee_def nft_update_data_calculate_fee_def
  nft_issue_calculate_fee_def withdraw_permission_claim_calculate_fee_def asset_issue_calculate_fee_def
  assert_calculate_fee_def content_submit_calculate_fee_def sized_fee_def nft_symbol_fee_def
  asset_create_calculate_fee_def

text \<open>The fees of \<open>account\_update\<close> and \<open>miner\_update\<close> are shares in the parameters too and need no conversion.\<close>

definition operation_calculate_fee :: "safe \<Rightarrow> (nat \<Rightarrow> int res) \<Rightarrow> pack_sizes \<Rightarrow> fee_parameters \<Rightarrow> operation \<Rightarrow> int res" where
  "operation_calculate_fee S K ps p op' =
     (case op' of
        On_Ledger (Account_Change op) \<Rightarrow> Inr (sint (fp_fee p))
      | On_Ledger (Miner_Change op) \<Rightarrow> Inr (sint (fp_fee p))
      | On_Ledger (Asset_Creation op) \<Rightarrow> K (unat (asset_create_calculate_fee (fp_fee p) op))
      | On_Ledger (Asset_Issue op) \<Rightarrow> asset_issue_calculate_fee K p (ps_memo ps op')
      | On_Ledger (Permission_Claim op) \<Rightarrow>
          withdraw_permission_claim_calculate_fee S K p (ps_has_memo ps op') (ps_memo ps op')
      | On_Ledger (On_Content (Submit op)) \<Rightarrow> content_submit_calculate_fee K p op
      | On_Ledger (On_Nft (Nft_Create_Definition op)) \<Rightarrow> nft_create_definition_calculate_fee S K p (ps_data ps op') op
      | On_Ledger (On_Nft (Nft_Issue op)) \<Rightarrow> nft_issue_calculate_fee S K p (ps_data ps op') (ps_memo ps op')
      | On_Ledger (On_Nft (Nft_Update_Data op)) \<Rightarrow> nft_update_data_calculate_fee S K p (ps_data ps op')
      | Proposal_Create op \<Rightarrow> sized_fee K p (ps_operation ps op')
      | Proposal_Update op \<Rightarrow> sized_fee K p (ps_operation ps op')
      | Custom op \<Rightarrow> sized_fee K p (ps_operation ps op')
      | Assertion op \<Rightarrow> assert_calculate_fee K p op
      | _ \<Rightarrow> K (unat (fp_fee p)))"

section \<open>What the schedule demands\<close>

definition find_parameters :: "fee_schedule \<Rightarrow> operation \<Rightarrow> fee_parameters" where
  "find_parameters sched op =
     (case map_of (fs_parameters sched) (operation_which op) of
        Some p \<Rightarrow> p | None \<Rightarrow> default_parameters ! operation_which op)"

text \<open>The fee in units of the core asset: the visitor's unsigned value, scaled, and the share made of it.\<close>

definition scale_value :: "(nat \<Rightarrow> int res) \<Rightarrow> 32 word \<Rightarrow> int \<Rightarrow> int res" where
  "scale_value K scale value =
     (let scaled = ucast (word_of_int value :: 64 word) * ucast scale div (of_nat GRAPHENE_100_PERCENT :: 128 word)
      in bindE (require (scaled \<le> word_of_int GRAPHENE_MAX_SHARE_SUPPLY) Assert_Exception) (\<lambda>_.
         K (unat scaled)))"

definition scaled_fee :: "safe \<Rightarrow> (nat \<Rightarrow> int res) \<Rightarrow> pack_sizes \<Rightarrow> fee_schedule \<Rightarrow> operation \<Rightarrow> int res" where
  "scaled_fee S K ps sched op =
     bindE (operation_calculate_fee S K ps (find_parameters sched op) op) (scale_value K (fs_scale sched))"

text \<open>The loop that raises the converted fee until it covers the fee; \<open>None\<close> would be a loop that does not end.\<close>

partial_function (option) cover_fee :: "safe \<Rightarrow> price \<Rightarrow> asset \<Rightarrow> asset \<Rightarrow> asset res option" where
  "cover_fee S rate goal result =
     (case asset_times_price result rate of
        Inl err \<Rightarrow> Some (Inl err)
      | Inr covered \<Rightarrow>
          (case asset_less covered goal of
             Inl err \<Rightarrow> Some (Inl err)
           | Inr lacks \<Rightarrow>
               if lacks then (case S (amount result + 1) of
                               Inl err \<Rightarrow> Some (Inl err) | Inr n \<Rightarrow> cover_fee S rate goal (result\<lparr>amount := n\<rparr>))
               else Some (Inr result)))"

definition calculate_fee ::
  "safe \<Rightarrow> (nat \<Rightarrow> int res) \<Rightarrow> pack_sizes \<Rightarrow> fee_schedule \<Rightarrow> price \<Rightarrow> operation \<Rightarrow> asset res option" where
  "calculate_fee S K ps sched rate op =
     (case scaled_fee S K ps sched op of
        Inl err \<Rightarrow> Some (Inl err)
      | Inr scaled \<Rightarrow>
          (case asset_times_price (mk_asset scaled 0) rate of
             Inl err \<Rightarrow> Some (Inl err)
           | Inr result \<Rightarrow>
               map_option (\<lambda>r. bindE r (\<lambda>a. bindE (require (amount a \<le> GRAPHENE_MAX_SHARE_SUPPLY) Assert_Exception) (\<lambda>_. Inr a)))
                 (cover_fee S rate (mk_asset scaled 0) result)))"

definition unit_price :: price where
  "unit_price = \<lparr>base = mk_asset 1 0, quote = mk_asset 1 0\<rparr>"

definition calculate_fee_for_operation ::
  "safe \<Rightarrow> (nat \<Rightarrow> int res) \<Rightarrow> pack_sizes \<Rightarrow> fee_schedule \<Rightarrow> operation \<Rightarrow> int res option" where
  "calculate_fee_for_operation S K ps sched op =
     map_option (\<lambda>r. bindE r (\<lambda>a. Inr (amount a))) (calculate_fee S K ps sched unit_price op)"

section \<open>The fee in another asset\<close>

text \<open>\<open>b\<close> units of the core asset are worth \<open>q\<close> units of the asset \<open>a\<close>, whichever side the price has them on.\<close>

definition core_rate :: "price \<Rightarrow> int \<Rightarrow> int \<Rightarrow> asset_id_type \<Rightarrow> bool" where
  "core_rate rate b q a \<longleftrightarrow> a \<noteq> 0 \<and> 0 < b \<and> b < 2 ^ 63 \<and> 0 < q \<and> q < 2 ^ 63 \<and>
     (rate = \<lparr>base = mk_asset b 0, quote = mk_asset q a\<rparr> \<or> rate = \<lparr>base = mk_asset q a, quote = mk_asset b 0\<rparr>)"

lemma core_rate_to_asset:
  "core_rate rate b q a \<Longrightarrow> amount_ok x \<Longrightarrow> asset_times_price (mk_asset x 0) rate =
     (if x * q div b \<le> GRAPHENE_MAX_SHARE_SUPPLY then Inr (mk_asset (x * q div b) a) else Inl Assert_Exception)"
  by (auto simp: core_rate_def times_price_base times_price_quote amount_ok_def)

lemma core_rate_to_core:
  "core_rate rate b q a \<Longrightarrow> amount_ok x \<Longrightarrow> asset_times_price (mk_asset x a) rate =
     (if x * b div q \<le> GRAPHENE_MAX_SHARE_SUPPLY then Inr (mk_asset (x * b div q) 0) else Inl Assert_Exception)"
  by (auto simp: core_rate_def times_price_base times_price_quote amount_ok_def)

lemma supply_word_share:
  fixes w :: "128 word"
  assumes "share_of_u64 K" and "w \<le> word_of_int GRAPHENE_MAX_SHARE_SUPPLY"
  shows "K (unat w) = Inr (uint w)" and "uint w \<le> GRAPHENE_MAX_SHARE_SUPPLY"
proof -
  show le: "uint w \<le> GRAPHENE_MAX_SHARE_SUPPLY"
    using assms(2) by (simp only: word_le_def max_supply_word)
  then have "uint w < 2 ^ 63"
    by (simp add: GRAPHENE_MAX_SHARE_SUPPLY_def)
  then have "nat (uint w) < 2 ^ 63"
    by (simp only: nat_less_iff [OF uint_ge_0]) simp
  then show "K (unat w) = Inr (uint w)"
    using assms(1) by (simp only: share_of_u64_def unat_eq_nat_uint) simp
qed

lemma scale_value_bounds:
  assumes "share_of_u64 K" and "scale_value K scale v = Inr n"
  shows "0 \<le> n" and "n \<le> GRAPHENE_MAX_SHARE_SUPPLY"
proof -
  define w :: "128 word" where "w = ucast (word_of_int v :: 64 word) * ucast scale div of_nat GRAPHENE_100_PERCENT"
  have "bindE (require (w \<le> word_of_int GRAPHENE_MAX_SHARE_SUPPLY) Assert_Exception) (\<lambda>_. K (unat w)) = Inr n"
    using assms(2) unfolding scale_value_def Let_def w_def .
  then have "w \<le> word_of_int GRAPHENE_MAX_SHARE_SUPPLY" and "K (unat w) = Inr n"
    by (auto simp only: bindE_eq_Inr require_eq_Inr)
  with supply_word_share [OF assms(1)] show "0 \<le> n" and "n \<le> GRAPHENE_MAX_SHARE_SUPPLY" by auto
qed

lemma scaled_fee_bounds:
  assumes "share_of_u64 K" and "scaled_fee S K ps sched op = Inr n"
  shows "0 \<le> n" and "n \<le> GRAPHENE_MAX_SHARE_SUPPLY"
  using assms scale_value_bounds by (auto simp: scaled_fee_def)

lemma supply_amount_ok: "0 \<le> x \<Longrightarrow> x \<le> GRAPHENE_MAX_SHARE_SUPPLY + 1 \<Longrightarrow> amount_ok x"
  by (simp add: amount_ok_def GRAPHENE_MAX_SHARE_SUPPLY_def)

lemma amount_ok_int64: "amount_ok x \<Longrightarrow> in_int64 x"
  by (simp add: amount_ok_def in_int64_def)

text \<open>The conversion rounds down, so that the first amount may lack one unit and no more.\<close>

lemma round_up_div:
  fixes m :: int
  assumes "0 < b"
  shows "(m + b - 1) div b = (if b dvd m then m div b else m div b + 1)"
proof (cases "b dvd m")
  case True
  then have "m + b - 1 = b * (m div b) + (b - 1)" by simp
  then show ?thesis using True int_div_pos_eq [of "m + b - 1" b "m div b" "b - 1"] assms by simp
next
  case False
  then have "m mod b \<noteq> 0" by (simp add: dvd_eq_mod_eq_0)
  then have "0 \<le> m mod b - 1" and "m mod b - 1 < b"
    using pos_mod_bound [OF assms, of m] pos_mod_sign [OF assms, of m] by linarith+
  moreover have "m + b - 1 = b * (m div b + 1) + (m mod b - 1)"
    using mult_div_mod_eq [of b m] by (simp add: algebra_simps)
  ultimately show ?thesis using False int_div_pos_eq [of "m + b - 1" b "m div b + 1" "m mod b - 1"] by simp
qed

lemma round_up_least:
  fixes m :: int
  assumes "0 < b"
  shows "m \<le> d * b \<longleftrightarrow> (m + b - 1) div b \<le> d"
proof
  assume "m \<le> d * b"
  then have "(m + b - 1) div b \<le> (b * d + (b - 1)) div b"
    using assms by (intro zdiv_mono1) (simp_all add: algebra_simps)
  then show "(m + b - 1) div b \<le> d"
    using assms int_div_pos_eq [of "b * d + (b - 1)" b d "b - 1"] by simp
next
  assume "(m + b - 1) div b \<le> d"
  moreover have "(m + b - 1) div b * b + (m + b - 1) mod b = m + b - 1" by (rule div_mult_mod_eq)
  moreover have "(m + b - 1) mod b < b" using assms by simp
  moreover have "(m + b - 1) div b * b \<le> d * b" using calculation(1) assms by simp
  ultimately show "m \<le> d * b" by linarith
qed

lemma le_div_iff:
  fixes n x :: int
  assumes "0 < q"
  shows "n \<le> x div q \<longleftrightarrow> n * q \<le> x"
proof
  assume "n \<le> x div q"
  then have "n * q \<le> x div q * q" using assms by simp
  moreover have "x div q * q + x mod q = x" by (rule div_mult_mod_eq)
  moreover have "0 \<le> x mod q" using assms by simp
  ultimately show "n * q \<le> x" by linarith
next
  assume "n * q \<le> x"
  then show "n \<le> x div q" using zdiv_mono1 [of "n * q" x q] assms by simp
qed

lemma mk_asset_update: "(mk_asset x a)\<lparr>amount := y\<rparr> = mk_asset y a"
  by (simp add: mk_asset_def)

lemma cover_fee_step:
  assumes "core_rate rate b q a" and "amount_ok x"
  shows "cover_fee S rate (mk_asset n 0) (mk_asset x a) =
    (if x * b div q \<le> GRAPHENE_MAX_SHARE_SUPPLY
     then if x * b div q < n
          then case S (x + 1) of Inl err \<Rightarrow> Some (Inl err) | Inr y \<Rightarrow> cover_fee S rate (mk_asset n 0) (mk_asset y a)
          else Some (Inr (mk_asset x a))
     else Some (Inl Assert_Exception))"
  by (subst cover_fee.simps)
    (simp add: core_rate_to_core [OF assms] asset_less_def mk_asset_update split: sum.split)

lemma cover_fee_result:
  assumes "safe_total S" and r: "core_rate rate b q a" and "0 \<le> n" and n: "n \<le> GRAPHENE_MAX_SHARE_SUPPLY"
    and f: "n * q div b \<le> GRAPHENE_MAX_SHARE_SUPPLY"
  defines "c \<equiv> (n * q + b - 1) div b"
  shows "cover_fee S rate (mk_asset n 0) (mk_asset (n * q div b) a) =
    Some (if c * b div q \<le> GRAPHENE_MAX_SHARE_SUPPLY then Inr (mk_asset c a) else Inl Assert_Exception)"
proof -
  have bq: "0 < b" "0 < q" using r by (simp_all add: core_rate_def)
  have ok: "amount_ok (n * q div b)" and ok1: "amount_ok (n * q div b + 1)"
    using f bq assms(3) by (simp_all add: supply_amount_ok pos_imp_zdiv_nonneg_iff)
  have up: "n \<le> d * b div q \<longleftrightarrow> c \<le> d" for d
    using round_up_least [OF bq(1), of "n * q" d] bq(2) by (simp add: c_def le_div_iff)
  have c: "c = (if b dvd n * q then n * q div b else n * q div b + 1)"
    unfolding c_def by (rule round_up_div [OF bq(1)])
  show ?thesis
  proof (cases "b dvd n * q")
    case True
    then show ?thesis using cover_fee_step [OF r ok, of S n] c up [of c] by simp
  next
    case False
    then have "n * q div b * b div q < n" using up [of "n * q div b"] c by simp
    moreover have "S (n * q div b + 1) = Inr c"
      using safe_totalD [OF assms(1) amount_ok_int64 [OF ok1]] c False by simp
    ultimately show ?thesis
      using cover_fee_step [OF r ok, of S n] cover_fee_step [OF r ok1, of S n] c False up [of c] n by simp
  qed
qed

lemma zero_data_fee [simp]: "calculate_data_fee bytes 0 = Inr 0"
  by (simp add: calculate_data_fee_def require_def)

lemma add_zero_data_fee:
  "safe_total S \<Longrightarrow> share_of_u64 K \<Longrightarrow> add_data_fee S K (Fee_And_Data 0 0) bytes 0 = Inr 0"
  by (simp add: add_data_fee_def share_of_u64_def safe_totalD in_int64_def)

lemma add_zero_data_fees:
  "safe_total S \<Longrightarrow> share_of_u64 K \<Longrightarrow> foldE (add_data_fee S K (Fee_And_Data 0 0)) sizes 0 = Inr 0"
  by (induction sizes) (simp_all add: add_zero_data_fee)

text \<open>A schedule with all fees at zero demands nothing.\<close>

lemma chain_which_bound: "chain_which op < 46"
  by (cases op) (simp_all add: chain_which_def content_which_def nft_which_def split: content_operation.split nft_operation.split)

lemma operation_which_bound: "operation_which op < 46"
  using chain_which_bound by (cases op) (simp_all add: operation_which_def)

lemma map_of_zip_upt: "i < length xs \<Longrightarrow> map_of (zip [0..<length xs] xs) i = Some (xs ! i)"
  using map_of_zip_nth [of "[0..<length xs]" xs i] by simp

lemma zero_schedule_parameters: "find_parameters zero_all_fees op = zero_fee (default_parameters ! operation_which op)"
proof -
  have "length default_parameters = 52" by (simp add: default_parameters_def)
  then have "operation_which op < length default_parameters" using operation_which_bound [of op] by simp
  then have "map_of (fs_parameters get_default) (operation_which op) = Some (default_parameters ! operation_which op)"
    by (simp add: get_default_def map_of_zip_upt)
  then show ?thesis
    by (simp add: find_parameters_def zero_all_fees_def map_of_map)
qed

lemma zero_schedule_operation:
  assumes "safe_total S" and "share_of_u64 K"
  shows "operation_calculate_fee S K ps (zero_fee (default_parameters ! operation_which op)) op = Inr 0"
proof (cases op)
  case (On_Ledger l)
  have K: "K 0 = Inr 0" using assms(2) by (simp add: share_of_u64_def)
  show ?thesis
    by (cases l)
      (simp_all add: On_Ledger operation_which_def chain_which_def content_which_def nft_which_def default_parameters_def
        zero_fee_def operation_calculate_fee_def add_zero_data_fee [OF assms] add_zero_data_fees [OF assms]
        calculate_fee_defs K split: content_operation.split nft_operation.split)
qed (use assms in \<open>simp_all add: operation_which_def default_parameters_def zero_fee_def operation_calculate_fee_def
   calculate_fee_defs share_of_u64_def\<close>)

lemma zero_schedule_free:
  assumes "safe_total S" and "share_of_u64 K"
  shows "scaled_fee S K ps zero_all_fees op = Inr 0"
  using assms(2) zero_schedule_operation [OF assms]
  by (simp add: scaled_fee_def zero_schedule_parameters scale_value_def share_of_u64_def)

section \<open>What the operation has to pay\<close>

lemma calculate_fee_at_rate:
  assumes "safe_total S" and "share_of_u64 K" and n: "scaled_fee S K ps sched op = Inr n" and r: "core_rate rate b q a"
  defines "c \<equiv> (n * q + b - 1) div b"
  shows "calculate_fee S K ps sched rate op =
    Some (if c \<le> GRAPHENE_MAX_SHARE_SUPPLY \<and> c * b div q \<le> GRAPHENE_MAX_SHARE_SUPPLY
          then Inr (mk_asset c a) else Inl Assert_Exception)"
proof -
  note bounds = scaled_fee_bounds [OF assms(2) n]
  then have ok: "amount_ok n" by (simp add: supply_amount_ok)
  have "0 < b" using r by (simp add: core_rate_def)
  then have c: "n * q div b \<le> c" using round_up_div [of b "n * q"] by (simp add: c_def)
  show ?thesis
  proof (cases "n * q div b \<le> GRAPHENE_MAX_SHARE_SUPPLY")
    case True
    from cover_fee_result [OF assms(1) r bounds this] show ?thesis
      using True by (simp add: calculate_fee_def n core_rate_to_asset [OF r ok] c_def)
  next
    case False
    then show ?thesis using c by (simp add: calculate_fee_def n core_rate_to_asset [OF r ok])
  qed
qed

lemma calculate_fee_core:
  assumes "share_of_u64 K" and n: "scaled_fee S K ps sched op = Inr n"
  shows "calculate_fee_for_operation S K ps sched op = Some (Inr n)"
proof -
  note bounds = scaled_fee_bounds [OF assms]
  then have "asset_times_price (mk_asset n 0) unit_price = Inr (mk_asset n 0)"
    by (simp add: unit_price_def times_price_base supply_amount_ok)
  moreover from this have "cover_fee S unit_price (mk_asset n 0) (mk_asset n 0) = Some (Inr (mk_asset n 0))"
    by (subst cover_fee.simps) (simp add: asset_less_def)
  ultimately show ?thesis
    using bounds by (simp add: calculate_fee_for_operation_def calculate_fee_def n)
qed

text \<open>
  C30. The fee of an operation. Let the schedule demand \<open>n\<close> units of the core asset of the operation,
  after scaling; this is what the evaluator requires. Where \<open>b\<close> units of the core asset are worth \<open>q\<close>
  units of another asset, the fee in that asset is the least amount that converts back to at least \<open>n\<close>:
  the loop that raises the amount ends. The calculation raises exactly where that amount or its
  conversion back is beyond the maximal supply.
\<close>

theorem fee_least_sufficient:
  assumes "safe_total S" and "share_of_u64 K" and "scaled_fee S K ps sched op = Inr n" and "core_rate rate b q a"
    and "c = (n * q + b - 1) div b"
  shows "calculate_fee_for_operation S K ps sched op = Some (Inr n) \<and>
    calculate_fee S K ps sched rate op =
      Some (if c \<le> GRAPHENE_MAX_SHARE_SUPPLY \<and> c * b div q \<le> GRAPHENE_MAX_SHARE_SUPPLY
            then Inr (mk_asset c a) else Inl Assert_Exception) \<and>
    (\<forall>d. n \<le> d * b div q \<longleftrightarrow> c \<le> d)"
proof (intro conjI allI)
  show "calculate_fee_for_operation S K ps sched op = Some (Inr n)"
    by (rule calculate_fee_core [OF assms(2,3)])
  show "calculate_fee S K ps sched rate op =
      Some (if c \<le> GRAPHENE_MAX_SHARE_SUPPLY \<and> c * b div q \<le> GRAPHENE_MAX_SHARE_SUPPLY
            then Inr (mk_asset c a) else Inl Assert_Exception)"
    unfolding assms(5) by (rule calculate_fee_at_rate [OF assms(1-4)])
  show "n \<le> d * b div q \<longleftrightarrow> c \<le> d" for d
    using assms(4) round_up_least [of b "n * q" d] by (simp add: assms(5) core_rate_def le_div_iff)
qed

definition demo_sizes :: pack_sizes where
  "demo_sizes = \<lparr>ps_operation = (\<lambda>op. 0), ps_memo = (\<lambda>op. 0), ps_has_memo = (\<lambda>op. False), ps_data = (\<lambda>op. [])\<rparr>"

definition demo_rate :: price where
  "demo_rate = \<lparr>base = mk_asset 3 0, quote = mk_asset 7 5\<rparr>"

definition demo_fee_operation :: operation where
  "demo_fee_operation = On_Ledger (Transfer_To demo_transfer)"

lemma demo_scaled_fee: "scaled_fee checked64 demo_share demo_sizes get_default demo_fee_operation = Inr 100000"
proof -
  have "find_parameters get_default demo_fee_operation = Fee 100000"
    by (simp add: find_parameters_def demo_fee_operation_def operation_which_def chain_which_def get_default_def default_parameters_def upt_rec)
  then show ?thesis
    by (simp add: scaled_fee_def operation_calculate_fee_def demo_fee_operation_def scale_value_def Let_def
      demo_share_def get_default_def GRAPHENE_100_PERCENT_def require_def GRAPHENE_MAX_SHARE_SUPPLY_def)
qed

lemma demo_share_u64: "share_of_u64 demo_share"
  by (simp add: share_of_u64_def demo_share_def)

theorem fee_least_sufficient_witness:
  "calculate_fee_for_operation checked64 demo_share demo_sizes get_default demo_fee_operation = Some (Inr 100000) \<and>
   calculate_fee checked64 demo_share demo_sizes get_default demo_rate demo_fee_operation = Some (Inr (mk_asset 233334 5)) \<and>
   \<not> 100000 \<le> 233333 * 3 div (7 :: int)"
proof -
  have r: "core_rate demo_rate 3 7 5" by (simp add: core_rate_def demo_rate_def)
  from fee_least_sufficient [OF checked64_total demo_share_u64 demo_scaled_fee r refl]
  show ?thesis by (simp add: GRAPHENE_MAX_SHARE_SUPPLY_def)
qed

end
