(* ===== verification/Fork_Database.thy ===== *)
theory Fork_Database
  imports Block
begin

text \<open>
  \<open>fork\_database.cpp\<close>: the tree of recent blocks. Items are shared objects linked by weak
  pointers, so the model has an explicit store: a pointer is a position in the list of allocated
  items, an index is a list of pointers in the order of \<open>block\_num\<close>, and a weak pointer can be
  locked as long as an index or the head owns its item.
\<close>

section \<open>State\<close>

record 'tx fork_item =
  fi_prev :: "nat option"
  fi_num :: nat
  fi_invalid :: bool
  fi_id :: block_id_type
  fi_data :: "'tx signed_block"

record 'tx fork_database =
  fd_store :: "'tx fork_item list"
  fd_index :: "nat list"
  fd_unlinked_index :: "nat list"
  fd_head :: "nat option"
  fd_max_size :: nat

definition item :: "'tx fork_database \<Rightarrow> nat \<Rightarrow> 'tx fork_item" where
  "item d p = fd_store d ! p"

definition mk_fork_item :: "('tx signed_block \<Rightarrow> opaque) \<Rightarrow> 'tx signed_block \<Rightarrow> 'tx fork_item" where
  "mk_fork_item H b = \<lparr>fi_prev = None, fi_num = block_num b, fi_invalid = False, fi_id = block_id H b, fi_data = b\<rparr>"

definition previous_id :: "'tx fork_item \<Rightarrow> block_id_type" where
  "previous_id i = b_previous (fi_data i)"

text \<open>\<open>weak\_ptr::lock\<close>.\<close>

definition alive :: "'tx fork_database \<Rightarrow> nat \<Rightarrow> bool" where
  "alive d p \<longleftrightarrow> p \<in> set (fd_index d) \<or> p \<in> set (fd_unlinked_index d) \<or> fd_head d = Some p"

definition lock_prev :: "'tx fork_database \<Rightarrow> nat \<Rightarrow> nat option" where
  "lock_prev d p =
     (case fi_prev (item d p) of
        None \<Rightarrow> None
      | Some q \<Rightarrow> if alive d q then Some q else None)"

definition find_by_id :: "'tx fork_database \<Rightarrow> nat list \<Rightarrow> block_id_type \<Rightarrow> nat option" where
  "find_by_id d ps i = find (\<lambda>p. fi_id (item d p) = i) ps"

text \<open>
  Insertion into an index: refused when the id is there already, otherwise behind the items of the
  same number.
\<close>

definition index_insert :: "'tx fork_database \<Rightarrow> nat \<Rightarrow> nat list \<Rightarrow> nat list" where
  "index_insert d p ps =
     (if find_by_id d ps (fi_id (item d p)) \<noteq> None then ps
      else takeWhile (\<lambda>q. fi_num (item d q) \<le> fi_num (item d p)) ps @ [p] @
           dropWhile (\<lambda>q. fi_num (item d q) \<le> fi_num (item d p)) ps)"

section \<open>Operations\<close>

definition fork_reset :: "'tx fork_database \<Rightarrow> 'tx fork_database" where
  "fork_reset d = d\<lparr>fd_head := None, fd_index := []\<rparr>"

definition fork_pop_block :: "'tx fork_database \<Rightarrow> 'tx fork_database res" where
  "fork_pop_block d =
     bindE (lift_opt Assert_Exception (fd_head d)) (\<lambda>h.
     bindE (lift_opt Assert_Exception (lock_prev d h)) (\<lambda>prev.
     Inr (d\<lparr>fd_head := Some prev\<rparr>)))"

text \<open>\<open>make\_shared\<close>: a new item at the end of the store.\<close>

definition alloc_item :: "'tx fork_item \<Rightarrow> 'tx fork_database \<Rightarrow> nat \<times> 'tx fork_database" where
  "alloc_item i d = (length (fd_store d), d\<lparr>fd_store := fd_store d @ [i]\<rparr>)"

definition fork_start_block :: "('tx signed_block \<Rightarrow> opaque) \<Rightarrow> 'tx signed_block \<Rightarrow> 'tx fork_database \<Rightarrow> 'tx fork_database" where
  "fork_start_block H b d =
     (let (p, d1) = alloc_item (mk_fork_item H b) d
      in d1\<lparr>fd_index := index_insert d1 p (fd_index d1), fd_head := Some p\<rparr>)"

definition head_item :: "'tx fork_database \<Rightarrow> 'tx fork_item option" where
  "head_item d = map_option (item d) (fd_head d)"

text \<open>The items below a number are erased from the front of an index.\<close>

definition erase_below :: "'tx fork_database \<Rightarrow> int \<Rightarrow> nat list \<Rightarrow> nat list" where
  "erase_below d n ps = dropWhile (\<lambda>p. int (fi_num (item d p)) < n) ps"

definition link_item :: "nat \<Rightarrow> 'tx fork_database \<Rightarrow> 'tx fork_database res" where
  "link_item p d =
     (if fd_head d \<noteq> None \<and> previous_id (item d p) \<noteq> null_block_id then
        bindE (lift_opt Unlinkable_Block (find_by_id d (fd_index d) (previous_id (item d p)))) (\<lambda>itr.
        bindE (require (\<not> fi_invalid (item d itr)) Assert_Exception) (\<lambda>_.
        Inr (d\<lparr>fd_store := (fd_store d)[p := (item d p)\<lparr>fi_prev := Some itr\<rparr>]\<rparr>)))
      else Inr d)"

definition push_item :: "nat \<Rightarrow> 'tx fork_database \<Rightarrow> 'tx fork_database res" where
  "push_item p d =
     bindE (case head_item d of
              None \<Rightarrow> Inr ()
            | Some h \<Rightarrow> require (max 0 (int (fi_num h) - int (fd_max_size d)) < int (fi_num (item d p))) Assert_Exception) (\<lambda>_.
     bindE (link_item p d) (\<lambda>d1.
     let d2 = d1\<lparr>fd_index := index_insert d1 p (fd_index d1)\<rparr>
     in Inr (case head_item d2 of
               None \<Rightarrow> d2\<lparr>fd_head := Some p\<rparr>
             | Some h \<Rightarrow>
                 if fi_num h < fi_num (item d2 p) then
                   let d3 = d2\<lparr>fd_head := Some p\<rparr>;
                       n = fi_num (item d3 p);
                       min_num = n - min (fd_max_size d3) n;
                       erased = u32 (int n - int (fd_max_size d3))
                   in d3\<lparr>fd_index := erase_below d3 (int min_num) (fd_index d3),
                         fd_unlinked_index := filter (\<lambda>q. fi_num (item d3 q) \<noteq> erased) (fd_unlinked_index d3)\<rparr>
                 else d2)))"

definition fork_push_block ::
  "('tx signed_block \<Rightarrow> opaque) \<Rightarrow> 'tx signed_block \<Rightarrow> 'tx fork_database \<Rightarrow> (nat option \<times> 'tx fork_database) res" where
  "fork_push_block H b d =
     (let (p, d1) = alloc_item (mk_fork_item H b) d
      in bindE (push_item p d1) (\<lambda>d2. Inr (fd_head d2, d2)))"

definition fork_set_max_size :: "nat \<Rightarrow> 'tx fork_database \<Rightarrow> 'tx fork_database" where
  "fork_set_max_size s d =
     (let d1 = d\<lparr>fd_max_size := s\<rparr>
      in case head_item d1 of
           None \<Rightarrow> d1
         | Some h \<Rightarrow>
             let n = max 0 (int (fi_num h) - int (fd_max_size d1))
             in d1\<lparr>fd_index := erase_below d1 n (fd_index d1),
                   fd_unlinked_index := erase_below d1 n (fd_unlinked_index d1)\<rparr>)"

definition fork_is_known_block :: "block_id_type \<Rightarrow> 'tx fork_database \<Rightarrow> bool" where
  "fork_is_known_block i d =
     (if find_by_id d (fd_index d) i \<noteq> None then True else find_by_id d (fd_unlinked_index d) i \<noteq> None)"

definition fork_fetch_block :: "block_id_type \<Rightarrow> 'tx fork_database \<Rightarrow> nat option" where
  "fork_fetch_block i d =
     (case find_by_id d (fd_index d) i of
        Some p \<Rightarrow> Some p
      | None \<Rightarrow> find_by_id d (fd_unlinked_index d) i)"

definition fetch_block_by_number :: "nat \<Rightarrow> 'tx fork_database \<Rightarrow> nat list" where
  "fetch_block_by_number num d =
     takeWhile (\<lambda>p. fi_num (item d p) = num) (dropWhile (\<lambda>p. fi_num (item d p) \<noteq> num) (fd_index d))"

definition fork_set_head :: "nat option \<Rightarrow> 'tx fork_database \<Rightarrow> 'tx fork_database" where
  "fork_set_head h d = d\<lparr>fd_head := h\<rparr>"

definition fork_remove :: "block_id_type \<Rightarrow> 'tx fork_database \<Rightarrow> 'tx fork_database" where
  "fork_remove i d = d\<lparr>fd_index := filter (\<lambda>p. fi_id (item d p) \<noteq> i) (fd_index d)\<rparr>"

section \<open>Branches\<close>

text \<open>
  The loops follow weak pointers; \<open>None\<close> would be a loop that does not end, \<open>Inl\<close> is a pointer
  that can no longer be locked.
\<close>

partial_function (option) climb :: "'tx fork_database \<Rightarrow> nat \<Rightarrow> nat \<Rightarrow> nat list \<Rightarrow> (nat \<times> nat list) res option" where
  "climb d n p branch =
     (if n < block_num (fi_data (item d p)) then
        (case lock_prev d p of
           None \<Rightarrow> Some (Inl Assert_Exception)
         | Some q \<Rightarrow> climb d n q (branch @ [p]))
      else Some (Inr (p, branch)))"

partial_function (option) climb_both ::
  "'tx fork_database \<Rightarrow> nat \<Rightarrow> nat \<Rightarrow> nat list \<Rightarrow> nat list \<Rightarrow> (nat list \<times> nat list) res option" where
  "climb_both d p q b1 b2 =
     (if previous_id (item d p) \<noteq> previous_id (item d q) then
        (case lock_prev d p of
           None \<Rightarrow> Some (Inl Assert_Exception)
         | Some p' \<Rightarrow>
             (case lock_prev d q of
                None \<Rightarrow> Some (Inl Assert_Exception)
              | Some q' \<Rightarrow> climb_both d p' q' (b1 @ [p]) (b2 @ [q])))
      else Some (Inr (b1 @ [p], b2 @ [q])))"

definition fetch_branch_from ::
  "block_id_type \<Rightarrow> block_id_type \<Rightarrow> 'tx fork_database \<Rightarrow> (nat list \<times> nat list) res option" where
  "fetch_branch_from first second d =
     (case find_by_id d (fd_index d) first of
        None \<Rightarrow> Some (Inl Assert_Exception)
      | Some first_branch \<Rightarrow>
          (case find_by_id d (fd_index d) second of
             None \<Rightarrow> Some (Inl Assert_Exception)
           | Some second_branch \<Rightarrow>
               (case climb d (block_num (fi_data (item d second_branch))) first_branch [] of
                  None \<Rightarrow> None
                | Some (Inl e) \<Rightarrow> Some (Inl e)
                | Some (Inr (p, b1)) \<Rightarrow>
                    (case climb d (block_num (fi_data (item d p))) second_branch [] of
                       None \<Rightarrow> None
                     | Some (Inl e) \<Rightarrow> Some (Inl e)
                     | Some (Inr (q, b2)) \<Rightarrow> climb_both d p q b1 b2))))"

section \<open>Invariant\<close>

definition item_ok :: "('tx signed_block \<Rightarrow> opaque) \<Rightarrow> 'tx fork_database \<Rightarrow> 'tx fork_item \<Rightarrow> bool" where
  "item_ok H d i \<longleftrightarrow> fi_num i = block_num (fi_data i) \<and> fi_id i = block_id H (fi_data i) \<and>
     block_num (fi_data i) = Suc (bid_num (previous_id i)) \<and>
     (\<forall>q. fi_prev i = Some q \<longrightarrow> q < length (fd_store d) \<and> fi_id (item d q) = previous_id i)"

definition index_ok :: "'tx fork_database \<Rightarrow> nat list \<Rightarrow> bool" where
  "index_ok d ps \<longleftrightarrow> (\<forall>p \<in> set ps. p < length (fd_store d)) \<and> sorted (map (\<lambda>p. fi_num (item d p)) ps) \<and>
     distinct (map (\<lambda>p. fi_id (item d p)) ps)"

definition fork_inv :: "('tx signed_block \<Rightarrow> opaque) \<Rightarrow> 'tx fork_database \<Rightarrow> bool" where
  "fork_inv H d \<longleftrightarrow> (\<forall>i \<in> set (fd_store d). item_ok H d i) \<and> index_ok d (fd_index d) \<and>
     index_ok d (fd_unlinked_index d) \<and> (\<forall>h. fd_head d = Some h \<longrightarrow> h < length (fd_store d))"

section \<open>The operations keep it\<close>

text \<open>What the invariant says of an index depends on ids and numbers of items only.\<close>

definition same_items :: "'tx fork_database \<Rightarrow> 'tx fork_database \<Rightarrow> bool" where
  "same_items d d' \<longleftrightarrow> length (fd_store d) \<le> length (fd_store d') \<and>
     (\<forall>p < length (fd_store d). fi_id (item d' p) = fi_id (item d p) \<and> fi_num (item d' p) = fi_num (item d p))"

lemma item_cong: "fd_store d' = fd_store d \<Longrightarrow> item d' p = item d p"
  by (simp add: item_def)

lemma item_upd [simp]:
  "item (d\<lparr>fd_index := ps\<rparr>) p = item d p" "item (d\<lparr>fd_unlinked_index := ps\<rparr>) p = item d p"
  "item (d\<lparr>fd_head := h\<rparr>) p = item d p" "item (d\<lparr>fd_max_size := n\<rparr>) p = item d p"
  by (simp_all add: item_def)

lemma item_ok_upd [simp]:
  "item_ok H (d\<lparr>fd_index := ps\<rparr>) = item_ok H d" "item_ok H (d\<lparr>fd_unlinked_index := ps\<rparr>) = item_ok H d"
  "item_ok H (d\<lparr>fd_head := h\<rparr>) = item_ok H d" "item_ok H (d\<lparr>fd_max_size := n\<rparr>) = item_ok H d"
  by (simp_all add: item_ok_def fun_eq_iff)

lemma index_ok_upd [simp]:
  "index_ok (d\<lparr>fd_index := ps\<rparr>) = index_ok d" "index_ok (d\<lparr>fd_unlinked_index := ps\<rparr>) = index_ok d"
  "index_ok (d\<lparr>fd_head := h\<rparr>) = index_ok d" "index_ok (d\<lparr>fd_max_size := n\<rparr>) = index_ok d"
  by (simp_all add: index_ok_def fun_eq_iff)

lemma find_by_id_upd [simp]:
  "find_by_id (d\<lparr>fd_index := ps\<rparr>) = find_by_id d" "find_by_id (d\<lparr>fd_unlinked_index := ps\<rparr>) = find_by_id d"
  "find_by_id (d\<lparr>fd_head := h\<rparr>) = find_by_id d" "find_by_id (d\<lparr>fd_max_size := n\<rparr>) = find_by_id d"
  by (simp_all add: find_by_id_def fun_eq_iff)

lemma erase_below_upd [simp]:
  "erase_below (d\<lparr>fd_index := ps\<rparr>) = erase_below d" "erase_below (d\<lparr>fd_unlinked_index := ps\<rparr>) = erase_below d"
  "erase_below (d\<lparr>fd_head := h\<rparr>) = erase_below d" "erase_below (d\<lparr>fd_max_size := n\<rparr>) = erase_below d"
  by (simp_all add: erase_below_def fun_eq_iff)

lemma index_ok_same:
  assumes "same_items d d'" and "index_ok d ps"
  shows "index_ok d' ps"
proof -
  have e: "map (\<lambda>p. fi_num (item d' p)) ps = map (\<lambda>p. fi_num (item d p)) ps"
    "map (\<lambda>p. fi_id (item d' p)) ps = map (\<lambda>p. fi_id (item d p)) ps"
    using assms by (auto simp: same_items_def index_ok_def)
  show ?thesis unfolding index_ok_def e using assms by (auto simp: index_ok_def same_items_def)
qed

lemma sorted_map_dropWhile: "sorted (map f ps) \<Longrightarrow> sorted (map f (dropWhile P ps))"
  by (metis dropWhile_eq_drop drop_map sorted_wrt_drop)

lemma index_ok_erase: "index_ok d ps \<Longrightarrow> index_ok d (erase_below d n ps)"
  by (auto simp: index_ok_def erase_below_def sorted_map_dropWhile dest: set_dropWhileD)
    (metis dropWhile_eq_drop drop_map distinct_drop)

lemma index_ok_filter: "index_ok d ps \<Longrightarrow> index_ok d (filter P ps)"
  by (auto simp: index_ok_def sorted_filter distinct_map_filter)

lemma sorted_insert_behind:
  fixes f :: "'a \<Rightarrow> nat"
  shows "sorted (map f ps) \<Longrightarrow> sorted (map f (takeWhile (\<lambda>q. f q \<le> f p) ps @ p # dropWhile (\<lambda>q. f q \<le> f p) ps))"
  by (induction ps) (auto dest: set_takeWhileD set_dropWhileD)

lemma distinct_insert_between:
  "distinct (map g (a @ b)) \<Longrightarrow> g p \<notin> g ` set (a @ b) \<Longrightarrow> distinct (map g (a @ [p] @ b))"
  by auto

lemma find_by_id_None: "find_by_id d ps i = None \<longleftrightarrow> i \<notin> (\<lambda>p. fi_id (item d p)) ` set ps"
  by (auto simp: find_by_id_def find_None_iff)

lemma find_by_id_Some: "find_by_id d ps i = Some p \<Longrightarrow> p \<in> set ps \<and> fi_id (item d p) = i"
  by (auto simp: find_by_id_def find_Some_iff)

lemma index_ok_insert:
  assumes ok: "index_ok d ps" and p: "p < length (fd_store d)"
  shows "index_ok d (index_insert d p ps)"
proof (cases "find_by_id d ps (fi_id (item d p)) = None")
  case False
  then show ?thesis using ok by (simp add: index_insert_def)
next
  case True
  let ?le = "\<lambda>q. fi_num (item d q) \<le> fi_num (item d p)"
  let ?a = "takeWhile ?le ps" and ?b = "dropWhile ?le ps"
  have ab: "ps = ?a @ ?b" by simp
  have new: "fi_id (item d p) \<notin> (\<lambda>p. fi_id (item d p)) ` set ps" using True by (simp add: find_by_id_None)
  have "sorted (map (\<lambda>p. fi_num (item d p)) (?a @ [p] @ ?b))"
    using sorted_insert_behind [of "\<lambda>p. fi_num (item d p)" ps p] ok by (simp add: index_ok_def)
  moreover have "distinct (map (\<lambda>p. fi_id (item d p)) (?a @ [p] @ ?b))"
    by (rule distinct_insert_between) (use ok new ab in \<open>simp_all add: index_ok_def\<close>)
  moreover have "\<forall>q \<in> set (?a @ [p] @ ?b). q < length (fd_store d)"
    using ok p by (auto simp: index_ok_def dest: set_takeWhileD set_dropWhileD)
  ultimately show ?thesis using True by (simp add: index_insert_def index_ok_def)
qed

lemma set_index_insert: "set (index_insert d p ps) \<subseteq> insert p (set ps)"
  by (auto simp: index_insert_def dest: set_takeWhileD set_dropWhileD)

lemma index_insert_known: "find_by_id d (index_insert d p ps) (fi_id (item d p)) \<noteq> None"
proof (cases "find_by_id d ps (fi_id (item d p)) = None")
  case True
  have "p \<in> set (index_insert d p ps)" using True by (simp add: index_insert_def)
  then show ?thesis unfolding find_by_id_None by blast
next
  case False
  then show ?thesis by (simp add: index_insert_def)
qed

lemma alloc_same: "same_items d (snd (alloc_item i d))"
  by (auto simp: same_items_def alloc_item_def item_def nth_append)

lemma item_ok_same:
  assumes "same_items d d'" and "item_ok H d i"
  shows "item_ok H d' i"
  using assms by (auto simp: item_ok_def same_items_def)

lemma fork_invI:
  assumes "\<And>p. p < length (fd_store d) \<Longrightarrow> item_ok H d (item d p)" and "index_ok d (fd_index d)"
    and "index_ok d (fd_unlinked_index d)" and "\<And>h. fd_head d = Some h \<Longrightarrow> h < length (fd_store d)"
  shows "fork_inv H d"
  using assms by (auto simp: fork_inv_def item_def in_set_conv_nth)

lemma fork_invD:
  assumes "fork_inv H d"
  shows "p < length (fd_store d) \<Longrightarrow> item_ok H d (item d p)" and "index_ok d (fd_index d)"
    and "index_ok d (fd_unlinked_index d)" and "fd_head d = Some h \<Longrightarrow> h < length (fd_store d)"
  using assms by (auto simp: fork_inv_def item_def)

lemma mk_fork_item_ok:
  assumes "bid_num (b_previous b) + 1 < 2 ^ 32"
  shows "item_ok H d (mk_fork_item H b)"
proof -
  have "block_num b = Suc (bid_num (b_previous b))"
    using assms by (simp add: block_num_def num_from_id_def u32_small)
  then show ?thesis by (simp add: item_ok_def mk_fork_item_def previous_id_def)
qed

lemma alloc_inv:
  assumes "fork_inv H d" and "item_ok H d i" and "alloc_item i d = (p, d')"
  shows "fork_inv H d'" and "p < length (fd_store d')" and "item d' p = i" and "same_items d d'"
    and "fd_index d' = fd_index d" "fd_unlinked_index d' = fd_unlinked_index d" "fd_head d' = fd_head d" "fd_max_size d' = fd_max_size d"
proof -
  have d': "d' = d\<lparr>fd_store := fd_store d @ [i]\<rparr>" and p: "p = length (fd_store d)" using assms(3) by (auto simp: alloc_item_def)
  show sm: "same_items d d'" using alloc_same [of d i] assms(3) by simp
  show "p < length (fd_store d')" and "item d' p = i" by (simp_all add: d' p item_def)
  show eq: "fd_index d' = fd_index d" "fd_unlinked_index d' = fd_unlinked_index d" "fd_head d' = fd_head d" "fd_max_size d' = fd_max_size d"
    by (simp_all add: d')
  show "fork_inv H d'"
  proof (rule fork_invI)
    fix q assume "q < length (fd_store d')"
    then have "item d' q = i \<or> (q < length (fd_store d) \<and> item d' q = item d q)"
      by (auto simp: d' item_def nth_append)
    then show "item_ok H d' (item d' q)"
      using item_ok_same [OF sm] assms(2) fork_invD(1) [OF assms(1)] by auto
  qed (use eq sm fork_invD [OF assms(1)] in \<open>auto intro: index_ok_same simp: d' less_SucI\<close>)
qed

lemma link_inv:
  assumes inv: "fork_inv H d" and p: "p < length (fd_store d)" and l: "link_item p d = Inr d'"
  shows "fork_inv H d'" and "same_items d d'" and "length (fd_store d') = length (fd_store d)"
    and "fd_index d' = fd_index d" "fd_unlinked_index d' = fd_unlinked_index d" "fd_head d' = fd_head d" "fd_max_size d' = fd_max_size d"
proof -
  have "fork_inv H d' \<and> same_items d d' \<and> length (fd_store d') = length (fd_store d) \<and> fd_index d' = fd_index d \<and>
      fd_unlinked_index d' = fd_unlinked_index d \<and> fd_head d' = fd_head d \<and> fd_max_size d' = fd_max_size d"
  proof (cases "fd_head d \<noteq> None \<and> previous_id (item d p) \<noteq> null_block_id")
    case False
    then have "d' = d" using l by (simp add: link_item_def split: if_splits)
    then show ?thesis using inv by (simp add: same_items_def)
  next
    case True
    with l obtain q where q: "find_by_id d (fd_index d) (previous_id (item d p)) = Some q"
      and d': "d' = d\<lparr>fd_store := (fd_store d)[p := (item d p)\<lparr>fi_prev := Some q\<rparr>]\<rparr>"
      by (auto simp: link_item_def)
    have q': "q < length (fd_store d)" "fi_id (item d q) = previous_id (item d p)"
      using find_by_id_Some [OF q] fork_invD(2) [OF inv] by (auto simp: index_ok_def)
    have it: "item d' r = (if r = p then (item d p)\<lparr>fi_prev := Some q\<rparr> else item d r)" if "r < length (fd_store d)" for r
      using that p by (simp add: item_def d')
    have sm: "same_items d d'" using it by (auto simp: same_items_def d')
    have "fork_inv H d'"
    proof (rule fork_invI)
      fix r assume "r < length (fd_store d')"
      then have r: "r < length (fd_store d)" by (simp add: d')
      have new: "item_ok H d ((item d p)\<lparr>fi_prev := Some q\<rparr>)"
        using fork_invD(1) [OF inv p] q' by (auto simp: item_ok_def previous_id_def)
      show "item_ok H d' (item d' r)"
        using it [OF r] fork_invD(1) [OF inv r] item_ok_same [OF sm new] item_ok_same [OF sm] by simp
    qed (use sm fork_invD(2-4) [OF inv] in \<open>auto intro: index_ok_same simp: d'\<close>)
    then show ?thesis using sm by (simp add: d')
  qed
  then show "fork_inv H d'" "same_items d d'" "length (fd_store d') = length (fd_store d)" "fd_index d' = fd_index d"
    "fd_unlinked_index d' = fd_unlinked_index d" "fd_head d' = fd_head d" "fd_max_size d' = fd_max_size d" by simp_all
qed

text \<open>The erased items have small numbers.\<close>

lemma erase_below_keeps:
  assumes "find_by_id d ps i \<noteq> None" and "\<And>p. p \<in> set ps \<Longrightarrow> fi_id (item d p) = i \<Longrightarrow> n \<le> int (fi_num (item d p))"
  shows "find_by_id d (erase_below d n ps) i \<noteq> None"
proof -
  from assms(1) obtain p where p: "p \<in> set ps" "fi_id (item d p) = i" by (auto simp: find_by_id_None)
  have "\<not> int (fi_num (item d p)) < n" using assms(2) [OF p] by simp
  with p(1) have "p \<in> set (erase_below d n ps)"
    unfolding erase_below_def by (induction ps) auto
  then show ?thesis using p(2) unfolding find_by_id_None by blast
qed

lemma push_law:
  assumes inv: "fork_inv H d" and num: "bid_num (b_previous b) + 1 < 2 ^ 32" and push: "fork_push_block H b d = Inr (h, d')"
  shows "fork_inv H d' \<and> h = fd_head d' \<and> fork_is_known_block (block_id H b) d' \<and>
    map_option fi_num (head_item d') =
      Some (case head_item d of None \<Rightarrow> block_num b | Some old \<Rightarrow> max (fi_num old) (block_num b))"
proof -
  let ?n = "block_num b"
  obtain p d0 where al: "alloc_item (mk_fork_item H b) d = (p, d0)" by (cases "alloc_item (mk_fork_item H b) d")
  note a = alloc_inv [OF inv mk_fork_item_ok [OF num] al]
  from push al obtain d1 where l: "link_item p d0 = Inr d1"
    and h: "h = fd_head d'" and r: "d' = (let d2 = d1\<lparr>fd_index := index_insert d1 p (fd_index d1)\<rparr>
     in (case head_item d2 of
               None \<Rightarrow> d2\<lparr>fd_head := Some p\<rparr>
             | Some h \<Rightarrow>
                 if fi_num h < fi_num (item d2 p) then
                   let d3 = d2\<lparr>fd_head := Some p\<rparr>;
                       n = fi_num (item d3 p);
                       min_num = n - min (fd_max_size d3) n;
                       erased = u32 (int n - int (fd_max_size d3))
                   in d3\<lparr>fd_index := erase_below d3 (int min_num) (fd_index d3),
                         fd_unlinked_index := filter (\<lambda>q. fi_num (item d3 q) \<noteq> erased) (fd_unlinked_index d3)\<rparr>
                 else d2))"
    by (auto simp: fork_push_block_def push_item_def Let_def)
  note k = link_inv [OF a(1,2) l]
  have p1: "p < length (fd_store d1)" using a(2) k(3) by simp
  have ip: "fi_num (item d1 p) = ?n" "fi_id (item d1 p) = block_id H b"
    using k(2) a(2,3) by (simp_all add: same_items_def mk_fork_item_def)
  let ?ps = "index_insert d1 p (fd_index d1)"
  have ix: "index_ok d1 ?ps" by (rule index_ok_insert [OF fork_invD(2) [OF k(1)] p1])
  have kn: "find_by_id d1 ?ps (block_id H b) \<noteq> None" using index_insert_known [of d1 p "fd_index d1"] ip(2) by simp
  have numid: "fi_num (item d1 q) = ?n" if "q \<in> set ?ps" "fi_id (item d1 q) = block_id H b" for q
  proof -
    have "q < length (fd_store d1)" using that(1) ix by (auto simp: index_ok_def)
    then have "item_ok H d1 (item d1 q)" by (rule fork_invD(1) [OF k(1)])
    then show ?thesis using that(2) by (simp add: item_ok_def block_id_def)
  qed
  have hd1: "fd_head d1 = fd_head d" using a(7) k(6) by simp
  have old: "fi_num (item d1 q) = fi_num (item d q)" if "fd_head d = Some q" for q
  proof -
    have "q < length (fd_store d)" using fork_invD(4) [OF inv that] .
    then show ?thesis using a(4) k(2) by (simp add: same_items_def)
  qed
  have hv: "q < length (fd_store d1)" if "fd_head d1 = Some q" for q by (rule fork_invD(4) [OF k(1) that])
  show ?thesis
  proof (cases "fd_head d")
    case None
    then have d': "d' = d1\<lparr>fd_index := ?ps, fd_head := Some p\<rparr>" using r hd1 by (simp add: head_item_def)
    have "fork_inv H d'" by (rule fork_invI) (use k(1) ix p1 fork_invD [OF k(1)] in \<open>auto simp: d'\<close>)
    then show ?thesis using h kn ip None by (simp add: d' fork_is_known_block_def head_item_def)
  next
    case (Some q)
    show ?thesis
    proof (cases "fi_num (item d q) < ?n")
      case True
      let ?m = "int (?n - min (fd_max_size d1) ?n)"
      let ?ul = "\<lambda>q. fi_num (item d1 q) \<noteq> u32 (int ?n - int (fd_max_size d1))"
      have d': "d' = d1\<lparr>fd_head := Some p, fd_index := erase_below d1 ?m ?ps, fd_unlinked_index := filter ?ul (fd_unlinked_index d1)\<rparr>"
        using r Some hd1 old [OF Some] True ip(1) by (simp add: head_item_def Let_def)
      have "fork_inv H d'"
        by (rule fork_invI) (use k(1) ix p1 fork_invD [OF k(1)] in \<open>auto simp: d' index_ok_erase index_ok_filter\<close>)
      moreover have "find_by_id d1 (erase_below d1 ?m ?ps) (block_id H b) \<noteq> None"
        by (rule erase_below_keeps [OF kn]) (simp add: numid)
      ultimately show ?thesis using h ip Some True by (simp add: d' fork_is_known_block_def head_item_def)
    next
      case False
      then have d': "d' = d1\<lparr>fd_index := ?ps\<rparr>" using r Some hd1 old [OF Some] ip(1) by (simp add: head_item_def Let_def)
      have "fork_inv H d'" by (rule fork_invI) (use k(1) ix hv fork_invD [OF k(1)] in \<open>auto simp: d'\<close>)
      then show ?thesis using h kn False Some hd1 old [OF Some] by (simp add: d' fork_is_known_block_def head_item_def)
    qed
  qed
qed

lemma push_inv: "fork_inv H d \<Longrightarrow> bid_num (b_previous b) + 1 < 2 ^ 32 \<Longrightarrow> fork_push_block H b d = Inr (h, d') \<Longrightarrow> fork_inv H d'"
  using push_law by blast

text \<open>
  Pushing a block keeps the tree of forks well-formed (every item carries its block's number and
  id, every link goes to the block named as previous, the indexes are ordered and their ids unique),
  makes the block known, and leaves a head whose number is the highest of the old head and the new
  block.
\<close>

theorem fork_push_longest:
  assumes inv: "fork_inv H d" and num: "bid_num (b_previous b) + 1 < 2 ^ 32" and push: "fork_push_block H b d = Inr (h, d')"
  shows "fork_inv H d' \<and> h = fd_head d' \<and> fork_is_known_block (block_id H b) d' \<and>
    map_option fi_num (head_item d') =
      Some (case head_item d of None \<Rightarrow> block_num b | Some old \<Rightarrow> max (fi_num old) (block_num b))"
  using assms by (rule push_law)

section \<open>Sequences of operations\<close>

inductive fork_step :: "('tx signed_block \<Rightarrow> opaque) \<Rightarrow> 'tx fork_database \<Rightarrow> 'tx fork_database \<Rightarrow> bool" for H where
  step_reset: "fork_step H d (fork_reset d)"
| step_start: "bid_num (b_previous b) + 1 < 2 ^ 32 \<Longrightarrow> fork_step H d (fork_start_block H b d)"
| step_push: "bid_num (b_previous b) + 1 < 2 ^ 32 \<Longrightarrow> fork_push_block H b d = Inr (h, d') \<Longrightarrow> fork_step H d d'"
| step_pop: "fork_pop_block d = Inr d' \<Longrightarrow> fork_step H d d'"
| step_max: "fork_step H d (fork_set_max_size n d)"
| step_remove: "fork_step H d (fork_remove i d)"
| step_set_head: "p < length (fd_store d) \<Longrightarrow> fork_step H d (fork_set_head (Some p) d)"

inductive fork_reachable :: "('tx signed_block \<Rightarrow> opaque) \<Rightarrow> 'tx fork_database \<Rightarrow> bool" for H where
  init: "fork_reachable H \<lparr>fd_store = [], fd_index = [], fd_unlinked_index = [], fd_head = None, fd_max_size = 1024\<rparr>"
| step: "fork_reachable H d \<Longrightarrow> fork_step H d d' \<Longrightarrow> fork_reachable H d'"

lemma start_inv:
  assumes "fork_inv H d" and "bid_num (b_previous b) + 1 < 2 ^ 32"
  shows "fork_inv H (fork_start_block H b d)"
proof -
  obtain p d1 where al: "alloc_item (mk_fork_item H b) d = (p, d1)" by (cases "alloc_item (mk_fork_item H b) d")
  note a = alloc_inv [OF assms(1) mk_fork_item_ok [OF assms(2)] al]
  have "index_ok d1 (index_insert d1 p (fd_index d1))" by (rule index_ok_insert [OF fork_invD(2) [OF a(1)] a(2)])
  then show ?thesis
    unfolding fork_start_block_def al by (intro fork_invI) (use a(2) fork_invD [OF a(1)] in auto)
qed

lemma step_inv: "fork_step H d d' \<Longrightarrow> fork_inv H d \<Longrightarrow> fork_inv H d'"
proof (induction rule: fork_step.induct)
  case (step_reset d)
  then show ?case by (intro fork_invI) (auto simp: fork_reset_def index_ok_def dest: fork_invD)
next
  case (step_start b d)
  then show ?case by (intro start_inv)
next
  case (step_push b d h d')
  then show ?case using push_inv by blast
next
  case (step_pop d d')
  then obtain h q where h: "fd_head d = Some h" "lock_prev d h = Some q" "d' = d\<lparr>fd_head := Some q\<rparr>"
    by (auto simp: fork_pop_block_def)
  have "q < length (fd_store d)"
    using fork_invD(1) [OF step_pop(2) fork_invD(4) [OF step_pop(2) h(1)]] h(2)
    by (auto simp: item_ok_def lock_prev_def split: option.splits if_splits)
  then show ?case using step_pop(2) by (intro fork_invI) (auto simp: h(3) dest: fork_invD)
next
  case (step_max d n)
  then show ?case
    by (intro fork_invI) (auto simp: fork_set_max_size_def Let_def index_ok_erase split: option.splits dest: fork_invD)
next
  case (step_remove d i)
  then show ?case by (intro fork_invI) (auto simp: fork_remove_def index_ok_filter dest: fork_invD)
next
  case (step_set_head p d)
  then show ?case by (intro fork_invI) (auto simp: fork_set_head_def dest: fork_invD)
qed

lemma reachable_inv: "fork_reachable H d \<Longrightarrow> fork_inv H d"
proof (induction rule: fork_reachable.induct)
  case init
  then show ?case by (simp add: fork_inv_def index_ok_def)
next
  case (step d d')
  then show ?case using step_inv by blast
qed

text \<open>
  Whatever sequence of operations the chain applies to the fork database, in every state reached
  the items carry their block's number and id, every link leads to the block named as previous, and
  the indexes are ordered by number with unique ids.
\<close>

theorem fork_tree_invariant:
  assumes "fork_reachable H d"
  shows "fork_inv H d"
  using assms by (rule reachable_inv)

section \<open>Branches end at the most recent common block\<close>

text \<open>A path along the links.\<close>

primrec path :: "'tx fork_database \<Rightarrow> nat \<Rightarrow> nat list \<Rightarrow> nat \<Rightarrow> bool" where
  "path d p [] q \<longleftrightarrow> p = q"
| "path d p (a # as) q \<longleftrightarrow> p = a \<and> (\<exists>r. lock_prev d a = Some r \<and> path d r as q)"

lemma path_append: "path d p (as @ bs) q \<longleftrightarrow> (\<exists>r. path d p as r \<and> path d r bs q)"
  by (induction as arbitrary: p) auto

lemma lock_prev_law:
  assumes inv: "fork_inv H d" and p: "p < length (fd_store d)" and l: "lock_prev d p = Some q"
  shows "q < length (fd_store d)" and "fi_id (item d q) = previous_id (item d p)"
    and "block_num (fi_data (item d p)) = Suc (block_num (fi_data (item d q)))"
proof -
  have pr: "fi_prev (item d p) = Some q" using l by (auto simp: lock_prev_def split: option.splits if_splits)
  have ok: "item_ok H d (item d p)" by (rule fork_invD(1) [OF inv p])
  show q: "q < length (fd_store d)" and i: "fi_id (item d q) = previous_id (item d p)"
    using ok pr by (auto simp: item_ok_def)
  have "item_ok H d (item d q)" by (rule fork_invD(1) [OF inv q])
  then have "bid_num (fi_id (item d q)) = block_num (fi_data (item d q))" by (simp add: item_ok_def block_id_def)
  then show "block_num (fi_data (item d p)) = Suc (block_num (fi_data (item d q)))"
    using ok i by (simp add: item_ok_def)
qed

abbreviation num_at :: "'tx fork_database \<Rightarrow> nat \<Rightarrow> nat" where
  "num_at d p \<equiv> block_num (fi_data (item d p))"

lemma path_end:
  assumes "fork_inv H d"
  shows "p < length (fd_store d) \<Longrightarrow> path d p as q \<Longrightarrow> q < length (fd_store d) \<and> num_at d p = length as + num_at d q"
proof (induction as arbitrary: p)
  case Nil
  then show ?case by simp
next
  case (Cons a as)
  from Cons.prems(2) obtain r where r: "lock_prev d p = Some r" "path d r as q" by auto
  note l = lock_prev_law [OF assms Cons.prems(1) r(1)]
  show ?case using Cons.IH [OF l(1) r(2)] l(3) by simp
qed

lemma path_num_at:
  assumes "fork_inv H d" and "p < length (fd_store d)" and "path d p as q" and "i < length as"
  shows "num_at d (as ! i) + i = num_at d p" and "as ! i < length (fd_store d)"
proof -
  have "path d p (take i as @ as ! i # drop (Suc i) as) q"
    using assms(3,4) by (simp add: id_take_nth_drop [symmetric])
  then have "path d p (take i as) (as ! i)" by (auto simp: path_append)
  from path_end [OF assms(1,2) this] assms(4) show "num_at d (as ! i) + i = num_at d p" "as ! i < length (fd_store d)"
    by simp_all
qed

lemma num_at_item:
  assumes "fork_inv H d" and "p < length (fd_store d)"
  shows "fi_num (item d p) = num_at d p"
  using fork_invD(1) [OF assms] by (simp add: item_ok_def)

text \<open>Two branches that differ at every number they share.\<close>

definition branches_apart :: "'tx fork_database \<Rightarrow> nat list \<Rightarrow> nat list \<Rightarrow> bool" where
  "branches_apart d as bs \<longleftrightarrow>
     (\<forall>u \<in> set as. \<forall>v \<in> set bs. fi_num (item d u) = fi_num (item d v) \<longrightarrow> previous_id (item d u) \<noteq> previous_id (item d v))"

lemma branches_apartI:
  assumes inv: "fork_inv H d" and p: "p < length (fd_store d)" and q: "q < length (fd_store d)"
    and P: "path d p (c @ as) u" and Q: "path d q (e @ bs) v"
    and len: "length as = length bs" and start: "num_at d p = length c + n" "num_at d q = length e + n"
    and ends: "c = [] \<or> e = []"
    and apart: "\<forall>i < length as. previous_id (item d (as ! i)) \<noteq> previous_id (item d (bs ! i))"
  shows "branches_apart d (c @ as) (e @ bs)"
  unfolding branches_apart_def
proof (intro ballI impI)
  fix x y assume "x \<in> set (c @ as)" "y \<in> set (e @ bs)" and eq: "fi_num (item d x) = fi_num (item d y)"
  then obtain i j where i: "i < length (c @ as)" "x = (c @ as) ! i" and j: "j < length (e @ bs)" "y = (e @ bs) ! j"
    by (metis in_set_conv_nth)
  have "num_at d x + i = length c + n" "num_at d y + j = length e + n"
    using path_num_at [OF inv p P i(1)] path_num_at [OF inv q Q j(1)] i(2) j(2) start by simp_all
  moreover have "num_at d x = num_at d y"
    using eq num_at_item [OF inv] path_num_at(2) [OF inv p P i(1)] path_num_at(2) [OF inv q Q j(1)] i(2) j(2) by simp
  ultimately have ij: "i + length e = j + length c" by linarith
  have ci: "length c \<le> i"
  proof (rule ccontr)
    assume "\<not> length c \<le> i"
    then have "e = []" using ends by auto
    then show False using ij \<open>\<not> length c \<le> i\<close> by simp
  qed
  then have ej: "length e \<le> j" using ij by linarith
  have "x = as ! (i - length c)" "y = bs ! (i - length c)" "i - length c < length as"
    using i j ci ej ij by (auto simp: nth_append intro: arg_cong [of _ _ "(!) bs"])
  then show "previous_id (item d x) \<noteq> previous_id (item d y)" using apart by simp
qed

lemma climb_law:
  assumes inv: "fork_inv H d"
  shows "p < length (fd_store d) \<Longrightarrow> \<exists>r. climb d n p br = Some r \<and>
    (\<forall>q br'. r = Inr (q, br') \<longrightarrow> (\<exists>as. br' = br @ as \<and> path d p as q \<and>
      block_num (fi_data (item d q)) = min n (block_num (fi_data (item d p)))))"
proof (induction "block_num (fi_data (item d p))" arbitrary: p br rule: less_induct)
  case less
  show ?case
  proof (cases "n < block_num (fi_data (item d p))")
    case False
    then have "climb d n p br = Some (Inr (p, br))" by (subst climb.simps) simp
    then show ?thesis using False by (intro exI) (auto intro: exI [of _ "[]"])
  next
    case True
    show ?thesis
    proof (cases "lock_prev d p")
      case None
      then have "climb d n p br = Some (Inl Assert_Exception)" using True by (subst climb.simps) simp
      then show ?thesis by simp
    next
      case (Some q)
      note l = lock_prev_law [OF inv less.prems Some]
      have c: "climb d n p br = climb d n q (br @ [p])" using True Some by (subst climb.simps) simp
      obtain r where r: "climb d n q (br @ [p]) = Some r"
        and R: "\<And>x br'. r = Inr (x, br') \<Longrightarrow> \<exists>as. br' = (br @ [p]) @ as \<and> path d q as x \<and>
          block_num (fi_data (item d x)) = min n (block_num (fi_data (item d q)))"
        using less.hyps [of q "br @ [p]"] l by auto
      have "\<exists>as. br' = br @ as \<and> path d p as x \<and> block_num (fi_data (item d x)) = min n (block_num (fi_data (item d p)))"
        if x: "r = Inr (x, br')" for x br'
      proof -
        obtain as where as: "br' = (br @ [p]) @ as" "path d q as x"
          "block_num (fi_data (item d x)) = min n (block_num (fi_data (item d q)))" using R [OF x] by blast
        then show ?thesis using Some l(3) True by (intro exI [of _ "p # as"]) auto
      qed
      then show ?thesis using c r by auto
    qed
  qed
qed

lemma climb_both_law:
  assumes inv: "fork_inv H d"
  shows "p < length (fd_store d) \<Longrightarrow> q < length (fd_store d) \<Longrightarrow>
    block_num (fi_data (item d p)) = block_num (fi_data (item d q)) \<Longrightarrow> \<exists>r. climb_both d p q b1 b2 = Some r \<and>
    (\<forall>c1 c2. r = Inr (c1, c2) \<longrightarrow> (\<exists>as bs x y. c1 = b1 @ as @ [x] \<and> c2 = b2 @ bs @ [y] \<and> path d p as x \<and> path d q bs y \<and>
      length as = length bs \<and> previous_id (item d x) = previous_id (item d y) \<and>
      (\<forall>i < length as. previous_id (item d (as ! i)) \<noteq> previous_id (item d (bs ! i)))))"
proof (induction "block_num (fi_data (item d p))" arbitrary: p q b1 b2 rule: less_induct)
  case less
  show ?case
  proof (cases "previous_id (item d p) = previous_id (item d q)")
    case True
    then have "climb_both d p q b1 b2 = Some (Inr (b1 @ [p], b2 @ [q]))" by (subst climb_both.simps) simp
    then show ?thesis using True by (intro exI) (auto intro!: exI [of _ "[]"])
  next
    case ne: False
    show ?thesis
    proof (cases "lock_prev d p = None \<or> lock_prev d q = None")
      case True
      then have "climb_both d p q b1 b2 = Some (Inl Assert_Exception)" using ne by (subst climb_both.simps) (auto split: option.splits)
      then show ?thesis by simp
    next
      case False
      then obtain p' q' where l: "lock_prev d p = Some p'" "lock_prev d q = Some q'" by auto
      note lp = lock_prev_law [OF inv less.prems(1) l(1)] and lq = lock_prev_law [OF inv less.prems(2) l(2)]
      have c: "climb_both d p q b1 b2 = climb_both d p' q' (b1 @ [p]) (b2 @ [q])"
        using ne l by (subst climb_both.simps) simp
      obtain r where r: "climb_both d p' q' (b1 @ [p]) (b2 @ [q]) = Some r"
        and R: "\<And>c1 c2. r = Inr (c1, c2) \<Longrightarrow> \<exists>as bs x y. c1 = (b1 @ [p]) @ as @ [x] \<and> c2 = (b2 @ [q]) @ bs @ [y] \<and>
          path d p' as x \<and> path d q' bs y \<and> length as = length bs \<and> previous_id (item d x) = previous_id (item d y) \<and>
          (\<forall>i < length as. previous_id (item d (as ! i)) \<noteq> previous_id (item d (bs ! i)))"
        using less.hyps [of p' q' "b1 @ [p]" "b2 @ [q]"] lp lq less.prems(3) by auto
      have "\<exists>as bs x y. c1 = b1 @ as @ [x] \<and> c2 = b2 @ bs @ [y] \<and> path d p as x \<and> path d q bs y \<and>
          length as = length bs \<and> previous_id (item d x) = previous_id (item d y) \<and>
          (\<forall>i < length as. previous_id (item d (as ! i)) \<noteq> previous_id (item d (bs ! i)))" if x: "r = Inr (c1, c2)" for c1 c2
      proof -
        obtain as bs x y where as: "c1 = (b1 @ [p]) @ as @ [x]" "c2 = (b2 @ [q]) @ bs @ [y]" "path d p' as x" "path d q' bs y"
            "length as = length bs" "previous_id (item d x) = previous_id (item d y)"
            "\<forall>i < length as. previous_id (item d (as ! i)) \<noteq> previous_id (item d (bs ! i))"
          using R [OF x] by blast
        have "\<forall>i < length (p # as). previous_id (item d ((p # as) ! i)) \<noteq> previous_id (item d ((q # bs) ! i))"
          using as(7) ne by (auto simp: nth_Cons split: nat.splits)
        then show ?thesis
          using as l by (intro exI [of _ "p # as"] exI [of _ "q # bs"] exI [of _ x] exI [of _ y]) simp
      qed
      then show ?thesis using c r by auto
    qed
  qed
qed

text \<open>Both climbs to the same height and the climb in step return, from any two known items.\<close>

lemma fetch_branch_climbs:
  assumes inv: "fork_inv H d" and p: "find_by_id d (fd_index d) first = Some p" "p < length (fd_store d)"
    and q: "find_by_id d (fd_index d) second = Some q" "q < length (fd_store d)"
  defines "n \<equiv> \<lambda>p. block_num (fi_data (item d p))"
  shows "\<exists>r. fetch_branch_from first second d = Some r \<and> (\<forall>c1 c2. r = Inr (c1, c2) \<longrightarrow>
    (\<exists>c x e y. path d p c x \<and> n x = min (n q) (n p) \<and> path d q e y \<and> n y = min (n x) (n q) \<and>
       climb_both d x y c e = Some (Inr (c1, c2))))"
proof -
  obtain r1 where r1: "climb d (n q) p [] = Some r1" and R1: "\<And>x br. r1 = Inr (x, br) \<Longrightarrow> path d p br x \<and> n x = min (n q) (n p)"
    using climb_law [OF inv p(2), of "n q" "[]"] by (auto simp: n_def)
  show ?thesis
  proof (cases r1)
    case (Inl e)
    then show ?thesis using r1 p q by (simp add: fetch_branch_from_def n_def)
  next
    case (Inr a)
    obtain x c where a: "r1 = Inr (x, c)" using Inr by (cases a) auto
    note x = R1 [OF a]
    note nx = path_end [OF inv p(2) conjunct1 [OF x]]
    obtain r2 where r2: "climb d (n x) q [] = Some r2" and R2: "\<And>y br. r2 = Inr (y, br) \<Longrightarrow> path d q br y \<and> n y = min (n x) (n q)"
      using climb_law [OF inv q(2), of "n x" "[]"] by (auto simp: n_def)
    show ?thesis
    proof (cases r2)
      case (Inl e)
      then show ?thesis using r1 a r2 p q by (simp add: fetch_branch_from_def n_def)
    next
      case (Inr b)
      obtain y e where b: "r2 = Inr (y, e)" using Inr by (cases b) auto
      note y = R2 [OF b]
      have run: "fetch_branch_from first second d = climb_both d x y c e"
        using p q r1 a r2 b by (simp add: fetch_branch_from_def n_def)
      have eq: "n x = n y" using x y by simp
      obtain r3 where r3: "climb_both d x y c e = Some r3"
        using climb_both_law [OF inv _ _ eq [unfolded n_def], of c e] nx path_end [OF inv q(2) conjunct1 [OF y]] by blast
      show ?thesis
      proof (intro exI [of _ r3] conjI allI impI)
        fix c1 c2 assume "r3 = Inr (c1, c2)"
        then show "\<exists>c x e y. path d p c x \<and> n x = min (n q) (n p) \<and> path d q e y \<and> n y = min (n x) (n q) \<and>
            climb_both d x y c e = Some (Inr (c1, c2))"
          using r3 x y by blast
      qed (simp add: run r3)
    qed
  qed
qed

text \<open>What the three climbs have found.\<close>

lemma climbed_branches:
  assumes inv: "fork_inv H d" and pl: "p < length (fd_store d)" and ql: "q < length (fd_store d)"
  defines "n \<equiv> \<lambda>p. block_num (fi_data (item d p))"
  assumes x: "path d p c x" "n x = min (n q) (n p)" and y: "path d q e y" "n y = min (n x) (n q)"
    and run: "climb_both d x y c e = Some (Inr (c1, c2))"
  shows "\<exists>as bs u v. c1 = as @ [u] \<and> c2 = bs @ [v] \<and> path d p as u \<and> path d q bs v \<and>
    previous_id (item d u) = previous_id (item d v) \<and> fi_num (item d u) = fi_num (item d v) \<and> branches_apart d as bs"
proof -
  note nx = path_end [OF inv pl x(1)] and ny = path_end [OF inv ql y(1)]
  have eq: "n x = n y" using x(2) y(2) by simp
  obtain as bs u v where ab: "c1 = c @ as @ [u]" "c2 = e @ bs @ [v]" "path d x as u" "path d y bs v" "length as = length bs"
    "previous_id (item d u) = previous_id (item d v)"
    "\<forall>i < length as. previous_id (item d (as ! i)) \<noteq> previous_id (item d (bs ! i))"
    using climb_both_law [OF inv _ _ eq [unfolded n_def], of c e] nx ny run by auto
  have P: "path d p (c @ as) u" "path d q (e @ bs) v" using x(1) y(1) ab(3,4) by (auto simp: path_append)
  have "branches_apart d (c @ as) (e @ bs)"
  proof (rule branches_apartI [OF inv pl ql P ab(5) _ _ _ ab(7)])
    show "block_num (fi_data (item d p)) = length c + block_num (fi_data (item d x))"
      "block_num (fi_data (item d q)) = length e + block_num (fi_data (item d x))"
      using nx ny eq by (simp_all add: n_def)
    show "c = [] \<or> e = []" using nx ny eq x(2) by (auto simp: n_def min_def split: if_splits)
  qed
  moreover have "fi_num (item d u) = fi_num (item d v)"
    using path_end [OF inv pl P(1)] path_end [OF inv ql P(2)] num_at_item [OF inv] nx ny eq ab(5) by (simp add: n_def)
  ultimately show ?thesis using ab(1,2,6) P by (intro exI [of _ "c @ as"] exI [of _ "e @ bs"] exI [of _ u] exI [of _ v]) simp
qed

lemma fetch_branch_law:
  assumes inv: "fork_inv H d"
  shows "\<exists>r. fetch_branch_from first second d = Some r \<and>
    (\<forall>c1 c2. r = Inr (c1, c2) \<longrightarrow> (\<exists>as bs p q x y. c1 = as @ [x] \<and> c2 = bs @ [y] \<and>
      p \<in> set (fd_index d) \<and> fi_id (item d p) = first \<and> path d p as x \<and>
      q \<in> set (fd_index d) \<and> fi_id (item d q) = second \<and> path d q bs y \<and>
      previous_id (item d x) = previous_id (item d y) \<and> fi_num (item d x) = fi_num (item d y) \<and>
      (\<forall>u \<in> set as. \<forall>v \<in> set bs. fi_num (item d u) = fi_num (item d v) \<longrightarrow> previous_id (item d u) \<noteq> previous_id (item d v))))"
proof (cases "find_by_id d (fd_index d) first = None \<or> find_by_id d (fd_index d) second = None")
  case True
  then have "fetch_branch_from first second d = Some (Inl Assert_Exception)"
    by (auto simp: fetch_branch_from_def split: option.splits)
  then show ?thesis by simp
next
  case False
  then obtain p q where fp: "find_by_id d (fd_index d) first = Some p" and fq: "find_by_id d (fd_index d) second = Some q" by auto
  have pq: "p \<in> set (fd_index d)" "fi_id (item d p) = first" "q \<in> set (fd_index d)" "fi_id (item d q) = second"
    using find_by_id_Some [OF fp] find_by_id_Some [OF fq] by auto
  have l: "p < length (fd_store d)" "q < length (fd_store d)"
    using pq(1,3) fork_invD(2) [OF inv] by (auto simp: index_ok_def)
  let ?n = "\<lambda>p. block_num (fi_data (item d p))"
  obtain r where r: "fetch_branch_from first second d = Some r" and R: "\<forall>c1 c2. r = Inr (c1, c2) \<longrightarrow>
      (\<exists>c x e y. path d p c x \<and> ?n x = min (?n q) (?n p) \<and> path d q e y \<and> ?n y = min (?n x) (?n q) \<and>
       climb_both d x y c e = Some (Inr (c1, c2)))"
    using fetch_branch_climbs [OF inv fp l(1) fq l(2)] by blast
  have "\<exists>as bs p q x y. c1 = as @ [x] \<and> c2 = bs @ [y] \<and>
      p \<in> set (fd_index d) \<and> fi_id (item d p) = first \<and> path d p as x \<and>
      q \<in> set (fd_index d) \<and> fi_id (item d q) = second \<and> path d q bs y \<and>
      previous_id (item d x) = previous_id (item d y) \<and> fi_num (item d x) = fi_num (item d y) \<and>
      (\<forall>u \<in> set as. \<forall>v \<in> set bs. fi_num (item d u) = fi_num (item d v) \<longrightarrow> previous_id (item d u) \<noteq> previous_id (item d v))"
    if rc: "r = Inr (c1, c2)" for c1 c2
  proof -
    obtain c x e y where "path d p c x" "?n x = min (?n q) (?n p)" "path d q e y" "?n y = min (?n x) (?n q)"
      "climb_both d x y c e = Some (Inr (c1, c2))" using R rc by blast
    from climbed_branches [OF inv l this]
    obtain as bs u v where "c1 = as @ [u] \<and> c2 = bs @ [v] \<and> path d p as u \<and> path d q bs v \<and>
      previous_id (item d u) = previous_id (item d v) \<and> fi_num (item d u) = fi_num (item d v) \<and> branches_apart d as bs"
      by blast
    then show ?thesis using pq unfolding branches_apart_def
      by (intro exI [of _ as] exI [of _ bs] exI [of _ p] exI [of _ q] exI [of _ u] exI [of _ v]) simp
  qed
  with r show ?thesis by (intro exI [of _ r] conjI allI impI)
qed

text \<open>
  C27. \<open>fetch\_branch\_from\<close> returns, and when it does not raise, the two branches start at the two
  blocks asked for, follow the links, and end at blocks with the same previous block; at every
  number both branches have before that, the previous blocks differ, so that the common block is the
  most recent one.
\<close>

theorem fetch_branch_common:
  assumes inv: "fork_inv H d"
  shows "\<exists>r. fetch_branch_from first second d = Some r \<and>
    (\<forall>c1 c2. r = Inr (c1, c2) \<longrightarrow> (\<exists>as bs p q x y. c1 = as @ [x] \<and> c2 = bs @ [y] \<and>
      p \<in> set (fd_index d) \<and> fi_id (item d p) = first \<and> path d p as x \<and>
      q \<in> set (fd_index d) \<and> fi_id (item d q) = second \<and> path d q bs y \<and>
      previous_id (item d x) = previous_id (item d y) \<and> fi_num (item d x) = fi_num (item d y) \<and>
      (\<forall>u \<in> set as. \<forall>v \<in> set bs. fi_num (item d u) = fi_num (item d v) \<longrightarrow> previous_id (item d u) \<noteq> previous_id (item d v))))"
  by (rule fetch_branch_law [OF inv])

section \<open>A concrete tree\<close>

definition demo_hash :: "nat signed_block \<Rightarrow> opaque" where
  "demo_hash b = b_timestamp b"

definition block_on :: "block_id_type \<Rightarrow> nat \<Rightarrow> nat signed_block" where
  "block_on prev t = \<lparr>b_previous = prev, b_timestamp = t, b_miner = 0, b_transaction_merkle_root = 0,
     b_miner_signature = 0, b_transactions = []\<rparr>"

text \<open>The database after \<open>set\_max\_size(2)\<close>.\<close>

definition empty_forks :: "nat fork_database" where
  "empty_forks = \<lparr>fd_store = [], fd_index = [], fd_unlinked_index = [], fd_head = None, fd_max_size = 2\<rparr>"

lemma empty_forks_reachable: "fork_reachable demo_hash empty_forks"
proof -
  have "fork_step demo_hash \<lparr>fd_store = [], fd_index = [], fd_unlinked_index = [], fd_head = None, fd_max_size = 1024\<rparr> empty_forks"
    using step_max [of demo_hash "\<lparr>fd_store = [], fd_index = [], fd_unlinked_index = [], fd_head = None, fd_max_size = 1024\<rparr>" 2]
    by (simp add: fork_set_max_size_def empty_forks_def head_item_def)
  then show ?thesis using fork_reachable.init fork_reachable.step by blast
qed

definition demo_pushes :: "nat signed_block list \<Rightarrow> nat fork_database res" where
  "demo_pushes bs = foldE (\<lambda>b d. bindE (fork_push_block demo_hash b d) (\<lambda>r. Inr (snd r))) bs empty_forks"

text \<open>Block 1, two blocks 2 on it, a block 3 on the first of them.\<close>

definition demo_blocks :: "nat signed_block list" where
  "demo_blocks = [block_on null_block_id 5, block_on (Block_Id 1 5) 10, block_on (Block_Id 1 5) 11, block_on (Block_Id 2 10) 15]"

lemma demo_pushes_reachable:
  "foldE (\<lambda>b d. bindE (fork_push_block H b d) (\<lambda>r. Inr (snd r))) bs d = Inr d' \<Longrightarrow> fork_reachable H d \<Longrightarrow>
   list_all (\<lambda>b. bid_num (b_previous b) + 1 < 2 ^ 32) bs \<Longrightarrow> fork_reachable H d'"
proof (induction bs arbitrary: d)
  case Nil
  then show ?case by simp
next
  case (Cons b bs)
  from Cons.prems(1) obtain h d1 where p: "fork_push_block H b d = Inr (h, d1)"
    and rest: "foldE (\<lambda>b d. bindE (fork_push_block H b d) (\<lambda>r. Inr (snd r))) bs d1 = Inr d'" by auto
  have "fork_step H d d1" using Cons.prems(3) p by (intro fork_step.step_push) simp_all
  then have "fork_reachable H d1" by (rule fork_reachable.step [OF Cons.prems(2)])
  then show ?case using Cons.IH [OF rest] Cons.prems(3) by simp
qed

definition demo_tree :: "nat fork_database" where
  "demo_tree =
     \<lparr>fd_store =
        [\<lparr>fi_prev = None, fi_num = 1, fi_invalid = False, fi_id = Block_Id 1 5, fi_data = block_on null_block_id 5\<rparr>,
         \<lparr>fi_prev = Some 0, fi_num = 2, fi_invalid = False, fi_id = Block_Id 2 10, fi_data = block_on (Block_Id 1 5) 10\<rparr>,
         \<lparr>fi_prev = Some 0, fi_num = 2, fi_invalid = False, fi_id = Block_Id 2 11, fi_data = block_on (Block_Id 1 5) 11\<rparr>,
         \<lparr>fi_prev = Some 1, fi_num = 3, fi_invalid = False, fi_id = Block_Id 3 15, fi_data = block_on (Block_Id 2 10) 15\<rparr>],
      fd_index = [0, 1, 2, 3], fd_unlinked_index = [], fd_head = Some 3, fd_max_size = 2\<rparr>"

lemma block_on_eval:
  "block_num (block_on i t) = u32 (int (num_from_id i) + 1)" "b_previous (block_on i t) = i" "demo_hash (block_on i t) = t"
  by (simp_all add: block_num_def block_on_def demo_hash_def)

lemmas fork_eval = fork_push_block_def push_item_def alloc_item_def head_item_def item_def mk_fork_item_def block_on_eval
  link_item_def previous_id_def null_block_id_def find_by_id_def block_id_def num_from_id_def index_insert_def Let_def
  u32_def erase_below_def

lemma demo_tree_pushed: "demo_pushes demo_blocks = Inr demo_tree"
  by (simp add: demo_pushes_def demo_blocks_def demo_tree_def empty_forks_def fork_eval)

lemma demo_tree_reachable: "fork_reachable demo_hash demo_tree"
proof (rule demo_pushes_reachable [OF _ empty_forks_reachable])
  show "foldE (\<lambda>b d. bindE (fork_push_block demo_hash b d) (\<lambda>r. Inr (snd r))) demo_blocks empty_forks = Inr demo_tree"
    using demo_tree_pushed unfolding demo_pushes_def .
  show "list_all (\<lambda>b. bid_num (b_previous b) + 1 < 2 ^ 32) demo_blocks"
    by (simp add: demo_blocks_def block_on_def null_block_id_def)
qed

theorem fork_tree_invariant_witness: "demo_pushes demo_blocks = Inr demo_tree \<and> fork_inv demo_hash demo_tree"
  using fork_tree_invariant [OF demo_tree_reachable] demo_tree_pushed by blast

theorem fork_push_longest_witness:
  "\<exists>h d'. fork_push_block demo_hash (block_on (Block_Id 3 15) 20) demo_tree = Inr (h, d') \<and>
     map_option fi_num (head_item d') = Some 4 \<and> fork_is_known_block (Block_Id 4 20) d'"
proof -
  let ?b = "block_on (Block_Id 3 15) 20" and ?r = "fork_push_block demo_hash (block_on (Block_Id 3 15) 20) demo_tree"
  have "succeeds ?r" by (simp add: succeeds_def demo_tree_def fork_eval)
  then obtain h d' where r: "?r = Inr (h, d')" by (metis succeedsE surj_pair)
  have b: "block_num ?b = 4" "block_id demo_hash ?b = Block_Id 4 20" "bid_num (b_previous ?b) + 1 < 2 ^ 32"
    by (simp_all add: fork_eval)
  have h: "map_option fi_num (head_item demo_tree) = Some 3" by (simp add: demo_tree_def fork_eval)
  show ?thesis
    using fork_push_longest [OF reachable_inv [OF demo_tree_reachable] b(3) r] r h b(1,2) by auto
qed

theorem fetch_branch_common_witness:
  "fetch_branch_from (Block_Id 3 15) (Block_Id 2 11) demo_tree = Some (Inr ([3, 1], [2])) \<and>
   previous_id (item demo_tree 1) = previous_id (item demo_tree 2)"
proof -
  have r: "fetch_branch_from (Block_Id 3 15) (Block_Id 2 11) demo_tree = Some (Inr ([3, 1], [2]))"
    by (simp add: fetch_branch_from_def demo_tree_def fork_eval climb.simps climb_both.simps lock_prev_def alive_def)
  have "\<exists>as bs x y. [3, 1] = as @ [x] \<and> [2] = bs @ [y] \<and> previous_id (item demo_tree x) = previous_id (item demo_tree y)"
    using fetch_branch_common [OF reachable_inv [OF demo_tree_reachable], of "Block_Id 3 15" "Block_Id 2 11"] r by auto
  then show ?thesis using r by (auto simp: Cons_eq_append_conv)
qed

end
