(* ===== verification/Block_Database.thy ===== *)
theory Block_Database
  imports Block
begin

text \<open>
  \<open>block\_database.cpp\<close>: blocks on disk. One file holds the packed blocks one after another, the other
  an entry per block number with the position and size of the block and its id. Packing belongs to
  \<open>fc::raw\<close> and is a parameter. Both streams raise an exception on a failed read.
\<close>

section \<open>Files\<close>

type_synonym bytes = "8 word list"

record index_entry =
  ie_block_pos :: nat
  ie_block_size :: nat
  ie_block_id :: block_id_type

record block_database =
  bd_block_num_to_pos :: "index_entry list"
  bd_blocks :: bytes

text \<open>A gap in the index file is read as zeros.\<close>

definition empty_entry :: index_entry where
  "empty_entry = \<lparr>ie_block_pos = 0, ie_block_size = 0, ie_block_id = null_block_id\<rparr>"

definition write_entry :: "nat \<Rightarrow> index_entry \<Rightarrow> index_entry list \<Rightarrow> index_entry list" where
  "write_entry n e es = (if n < length es then es[n := e] else es @ replicate (n - length es) empty_entry @ [e])"

definition read_bytes :: "nat \<Rightarrow> nat \<Rightarrow> bytes \<Rightarrow> bytes res" where
  "read_bytes pos n bs = (if pos + n \<le> length bs then Inr (take n (drop pos bs)) else Inl Out_Of_Range)"

section \<open>Operations\<close>

definition bd_store ::
  "('tx signed_block \<Rightarrow> opaque) \<Rightarrow> ('tx signed_block \<Rightarrow> bytes) \<Rightarrow> block_id_type \<Rightarrow> 'tx signed_block \<Rightarrow> block_database \<Rightarrow> block_database" where
  "bd_store H pack i b d =
     (let i' = (if i = null_block_id then block_id H b else i);
          vec = pack b;
          e = \<lparr>ie_block_pos = length (bd_blocks d), ie_block_size = u32 (int (length vec)), ie_block_id = i'\<rparr>
      in d\<lparr>bd_blocks := bd_blocks d @ vec, bd_block_num_to_pos := write_entry (num_from_id i') e (bd_block_num_to_pos d)\<rparr>)"

definition bd_remove :: "block_id_type \<Rightarrow> block_database \<Rightarrow> block_database res" where
  "bd_remove i d =
     (let es = bd_block_num_to_pos d; n = num_from_id i
      in bindE (require (n < length es) Key_Not_Found) (\<lambda>_.
         Inr (if ie_block_id (es ! n) = i
              then d\<lparr>bd_block_num_to_pos := write_entry n ((es ! n)\<lparr>ie_block_size := 0\<rparr>) es\<rparr> else d)))"

definition bd_contains :: "block_id_type \<Rightarrow> block_database \<Rightarrow> bool" where
  "bd_contains i d \<longleftrightarrow>
     (let es = bd_block_num_to_pos d; n = num_from_id i
      in if i = null_block_id then False
         else if length es \<le> n then False
         else ie_block_id (es ! n) = i \<and> 0 < ie_block_size (es ! n))"

definition bd_fetch_block_id :: "nat \<Rightarrow> block_database \<Rightarrow> block_id_type res" where
  "bd_fetch_block_id n d =
     (let es = bd_block_num_to_pos d
      in bindE (require (n < length es) Key_Not_Found) (\<lambda>_.
         bindE (require (ie_block_id (es ! n) \<noteq> null_block_id) Assert_Exception) (\<lambda>_.
         Inr (ie_block_id (es ! n)))))"

text \<open>The block of an entry; exceptions are caught by the callers.\<close>

definition read_entry :: "(bytes \<Rightarrow> 'tx signed_block res) \<Rightarrow> index_entry \<Rightarrow> block_database \<Rightarrow> 'tx signed_block res" where
  "read_entry unpack e d = bindE (read_bytes (ie_block_pos e) (ie_block_size e) (bd_blocks d)) unpack"

definition read_checked ::
  "('tx signed_block \<Rightarrow> opaque) \<Rightarrow> (bytes \<Rightarrow> 'tx signed_block res) \<Rightarrow> index_entry \<Rightarrow> block_database \<Rightarrow> 'tx signed_block res" where
  "read_checked H unpack e d =
     bindE (read_entry unpack e d) (\<lambda>b.
     bindE (require (block_id H b = ie_block_id e) Assert_Exception) (\<lambda>_.
     Inr b))"

definition caught :: "'a res \<Rightarrow> 'a option" where
  "caught r = (case r of Inl e \<Rightarrow> None | Inr x \<Rightarrow> Some x)"

definition bd_fetch_optional ::
  "('tx signed_block \<Rightarrow> opaque) \<Rightarrow> (bytes \<Rightarrow> 'tx signed_block res) \<Rightarrow> block_id_type \<Rightarrow> block_database \<Rightarrow> 'tx signed_block option" where
  "bd_fetch_optional H unpack i d =
     (let es = bd_block_num_to_pos d; n = num_from_id i
      in if length es \<le> n then None
         else if ie_block_id (es ! n) \<noteq> i then None
         else caught (read_checked H unpack (es ! n) d))"

definition bd_fetch_by_number ::
  "('tx signed_block \<Rightarrow> opaque) \<Rightarrow> (bytes \<Rightarrow> 'tx signed_block res) \<Rightarrow> nat \<Rightarrow> block_database \<Rightarrow> 'tx signed_block option" where
  "bd_fetch_by_number H unpack n d =
     (let es = bd_block_num_to_pos d
      in if length es \<le> n then None else caught (read_checked H unpack (es ! n) d))"

text \<open>The loop of \<open>last\<close> and \<open>last\_id\<close>: from the end back to an entry that is not empty; it reads the last one twice.\<close>

fun scan_back :: "index_entry list \<Rightarrow> nat \<Rightarrow> index_entry \<Rightarrow> index_entry" where
  "scan_back es 0 e = e"
| "scan_back es (Suc p) e = (if ie_block_size e = 0 then scan_back es p (es ! p) else e)"

definition last_entry :: "block_database \<Rightarrow> index_entry option" where
  "last_entry d =
     (let es = bd_block_num_to_pos d
      in if es = [] then None
         else let e = scan_back es (length es) (last es) in if ie_block_size e = 0 then None else Some e)"

definition bd_last :: "(bytes \<Rightarrow> 'tx signed_block res) \<Rightarrow> block_database \<Rightarrow> 'tx signed_block option" where
  "bd_last unpack d = (case last_entry d of None \<Rightarrow> None | Some e \<Rightarrow> caught (read_entry unpack e d))"

definition bd_last_id :: "block_database \<Rightarrow> block_id_type option" where
  "bd_last_id d = map_option ie_block_id (last_entry d)"

section \<open>A map from numbers to blocks\<close>

text \<open>
  What \<open>fc::raw\<close> promises of a block: packed, it is unpacked again, is not empty and, as the size is
  kept in 32 bits, shorter than 4 GB. Of no bytes at all no block is unpacked.
\<close>

definition packable :: "('tx signed_block \<Rightarrow> bytes) \<Rightarrow> (bytes \<Rightarrow> 'tx signed_block res) \<Rightarrow> 'tx signed_block \<Rightarrow> bool" where
  "packable pack unpack b \<longleftrightarrow> unpack (pack b) = Inr b \<and> pack b \<noteq> [] \<and> length (pack b) < 2 ^ 32"

text \<open>An entry is empty or describes a block that is filed under its number.\<close>

definition entry_ok ::
  "('tx signed_block \<Rightarrow> opaque) \<Rightarrow> (bytes \<Rightarrow> 'tx signed_block res) \<Rightarrow> bytes \<Rightarrow> nat \<Rightarrow> index_entry \<Rightarrow> 'tx signed_block option \<Rightarrow> bool" where
  "entry_ok H unpack bs n e mb \<longleftrightarrow> ie_block_pos e + ie_block_size e \<le> length bs \<and>
     (case mb of None \<Rightarrow> ie_block_size e = 0
      | Some b \<Rightarrow> 0 < ie_block_size e \<and> ie_block_id e = block_id H b \<and> block_num b = n \<and>
          unpack (take (ie_block_size e) (drop (ie_block_pos e) bs)) = Inr b)"

definition files_hold ::
  "('tx signed_block \<Rightarrow> opaque) \<Rightarrow> (bytes \<Rightarrow> 'tx signed_block res) \<Rightarrow> block_database \<Rightarrow> (nat \<rightharpoonup> 'tx signed_block) \<Rightarrow> bool" where
  "files_hold H unpack d m \<longleftrightarrow> (\<forall>n. if n < length (bd_block_num_to_pos d)
     then entry_ok H unpack (bd_blocks d) n (bd_block_num_to_pos d ! n) (m n) else m n = None)"

lemma holds_entry: "files_hold H unpack d m \<Longrightarrow> n < length (bd_block_num_to_pos d) \<Longrightarrow>
  entry_ok H unpack (bd_blocks d) n (bd_block_num_to_pos d ! n) (m n)"
  unfolding files_hold_def by presburger

lemma holds_outside: "files_hold H unpack d m \<Longrightarrow> length (bd_block_num_to_pos d) \<le> n \<Longrightarrow> m n = None"
  unfolding files_hold_def by (metis not_le)

lemma entry_ok_append: "entry_ok H unpack bs n e mb \<Longrightarrow> entry_ok H unpack (bs @ vec) n e mb"
  by (auto simp: entry_ok_def split: option.splits)

lemma nth_write_entry:
  "k < length (write_entry n e es) \<Longrightarrow> write_entry n e es ! k = (if k = n then e else if k < length es then es ! k else empty_entry)"
  by (auto simp: write_entry_def nth_append nth_list_update)

lemma length_write_entry: "length (write_entry n e es) = max (length es) (Suc n)"
  by (auto simp: write_entry_def)

lemma store_holds:
  assumes codec: "packable pack unpack b" and h: "files_hold H unpack d m"
  shows "files_hold H unpack (bd_store H pack (block_id H b) b d) (m(block_num b \<mapsto> b))"
proof -
  let ?e = "\<lparr>ie_block_pos = length (bd_blocks d), ie_block_size = length (pack b), ie_block_id = block_id H b\<rparr>"
  have num: "num_from_id (block_id H b) = block_num b" by (simp add: num_from_id_def block_id_def)
  have len: "u32 (int (length (pack b))) = length (pack b)" using codec by (simp add: packable_def u32_def)
  have store: "bd_store H pack (block_id H b) b d = d\<lparr>bd_blocks := bd_blocks d @ pack b,
      bd_block_num_to_pos := write_entry (block_num b) ?e (bd_block_num_to_pos d)\<rparr>"
    by (simp add: bd_store_def Let_def len num)
  have new: "entry_ok H unpack (bd_blocks d @ pack b) (block_num b) ?e (Some b)"
    using codec by (simp add: entry_ok_def packable_def)
  have empty: "entry_ok H unpack bs k empty_entry None" for bs k
    by (simp add: entry_ok_def empty_entry_def)
  show ?thesis
    unfolding files_hold_def store
  proof (intro allI)
    fix k
    show "if k < length (bd_block_num_to_pos (d\<lparr>bd_blocks := bd_blocks d @ pack b,
            bd_block_num_to_pos := write_entry (block_num b) ?e (bd_block_num_to_pos d)\<rparr>))
      then entry_ok H unpack (bd_blocks (d\<lparr>bd_blocks := bd_blocks d @ pack b,
            bd_block_num_to_pos := write_entry (block_num b) ?e (bd_block_num_to_pos d)\<rparr>)) k
          (bd_block_num_to_pos (d\<lparr>bd_blocks := bd_blocks d @ pack b,
            bd_block_num_to_pos := write_entry (block_num b) ?e (bd_block_num_to_pos d)\<rparr>) ! k) ((m(block_num b \<mapsto> b)) k)
      else (m(block_num b \<mapsto> b)) k = None"
      using new empty holds_entry [OF h, of k] holds_outside [OF h, of k]
      by (auto simp: nth_write_entry length_write_entry intro: entry_ok_append)
  qed
qed

lemma remove_holds:
  assumes h: "files_hold H unpack d m" and r: "bd_remove i d = Inr d'"
  shows "files_hold H unpack d' (if map_option (block_id H) (m (num_from_id i)) = Some i then m(num_from_id i := None) else m)"
proof -
  let ?n = "num_from_id i" and ?es = "bd_block_num_to_pos d"
  have n: "?n < length ?es" and d': "d' = (if ie_block_id (?es ! ?n) = i
      then d\<lparr>bd_block_num_to_pos := write_entry ?n ((?es ! ?n)\<lparr>ie_block_size := 0\<rparr>) ?es\<rparr> else d)"
    using r by (auto simp: bd_remove_def Let_def)
  note e = holds_entry [OF h n]
  show ?thesis
  proof (cases "ie_block_id (?es ! ?n) = i")
    case False
    then have "map_option (block_id H) (m ?n) \<noteq> Some i" using e by (auto simp: entry_ok_def split: option.splits)
    then have "(if map_option (block_id H) (m ?n) = Some i then m(?n := None) else m) = m" by (rule if_not_P)
    then show ?thesis using h False by (simp only: d' if_False)
  next
    case True
    have m: "(if map_option (block_id H) (m ?n) = Some i then m(?n := None) else m) = m(?n := None)"
      using e True by (auto simp: entry_ok_def split: option.splits)
    have new: "entry_ok H unpack (bd_blocks d) ?n ((?es ! ?n)\<lparr>ie_block_size := 0\<rparr>) None"
      using e by (simp add: entry_ok_def)
    show ?thesis
      unfolding m files_hold_def d' using True n new holds_entry [OF h] holds_outside [OF h]
      by (simp add: length_write_entry nth_write_entry max_def not_less)
  qed
qed

lemma caught_Inl [simp]: "caught (Inl e) = None" "caught (Inr x) = Some x"
  by (simp_all add: caught_def)

lemma read_ok:
  assumes "\<not> succeeds (unpack [])" and "entry_ok H unpack (bd_blocks d) n e mb"
  shows "caught (read_checked H unpack e d) = mb"
proof (cases mb)
  case None
  then have "read_entry unpack e d = unpack []" using assms(2) by (simp add: entry_ok_def read_entry_def read_bytes_def)
  moreover obtain err where "unpack [] = Inl err" using assms(1) by (auto simp: succeeds_def split: sum.splits)
  ultimately show ?thesis using None by (simp add: read_checked_def)
next
  case (Some b)
  then show ?thesis using assms(2) by (simp add: entry_ok_def read_checked_def read_entry_def read_bytes_def)
qed

lemma fetch_by_number_holds:
  "\<not> succeeds (unpack []) \<Longrightarrow> files_hold H unpack d m \<Longrightarrow> bd_fetch_by_number H unpack n d = m n"
  using read_ok holds_entry holds_outside by (fastforce simp: bd_fetch_by_number_def Let_def not_le)

lemma fetch_optional_holds:
  assumes codec: "\<not> succeeds (unpack [])" and h: "files_hold H unpack d m"
  shows "bd_fetch_optional H unpack i d = (if map_option (block_id H) (m (num_from_id i)) = Some i then m (num_from_id i) else None)"
proof (cases "num_from_id i < length (bd_block_num_to_pos d)")
  case True
  note e = holds_entry [OF h True]
  from read_ok [OF codec e] e True show ?thesis
    by (auto simp: bd_fetch_optional_def Let_def entry_ok_def split: option.splits)
next
  case False
  then show ?thesis using holds_outside [OF h, of "num_from_id i"] by (simp add: bd_fetch_optional_def Let_def)
qed

lemma contains_holds:
  assumes h: "files_hold H unpack d m" and i: "i \<noteq> null_block_id"
  shows "bd_contains i d \<longleftrightarrow> map_option (block_id H) (m (num_from_id i)) = Some i"
proof (cases "num_from_id i < length (bd_block_num_to_pos d)")
  case True
  from holds_entry [OF h True] True i show ?thesis
    by (auto simp: bd_contains_def Let_def entry_ok_def split: option.splits)
next
  case False
  then show ?thesis using holds_outside [OF h, of "num_from_id i"] by (simp add: bd_contains_def Let_def)
qed

text \<open>The scan ends at the last entry before \<open>p\<close> that is not empty, if there is one.\<close>

lemma scan_back_law:
  assumes "ie_block_size e = 0"
  shows "(\<forall>k < p. ie_block_size (es ! k) = 0) \<and> ie_block_size (scan_back es p e) = 0 \<or>
    (\<exists>k < p. scan_back es p e = es ! k \<and> 0 < ie_block_size (es ! k) \<and> (\<forall>j < p. k < j \<longrightarrow> ie_block_size (es ! j) = 0))"
  using assms
proof (induction p arbitrary: e)
  case (Suc p)
  show ?case
  proof (cases "ie_block_size (es ! p) = 0")
    case True
    from Suc.IH [OF True] show ?thesis using Suc.prems True by (auto simp: less_Suc_eq)
  next
    case False
    then have "scan_back es p (es ! p) = es ! p" by (cases p) simp_all
    then show ?thesis using Suc.prems False by (auto intro!: exI [of _ p])
  qed
qed simp

lemma last_entry_law:
  "last_entry d = None \<and> (\<forall>k < length (bd_block_num_to_pos d). ie_block_size (bd_block_num_to_pos d ! k) = 0) \<or>
   (\<exists>k < length (bd_block_num_to_pos d). last_entry d = Some (bd_block_num_to_pos d ! k) \<and> 0 < ie_block_size (bd_block_num_to_pos d ! k) \<and>
     (\<forall>j < length (bd_block_num_to_pos d). k < j \<longrightarrow> ie_block_size (bd_block_num_to_pos d ! j) = 0))"
proof (cases "bd_block_num_to_pos d = []")
  case False
  let ?es = "bd_block_num_to_pos d"
  show ?thesis
  proof (cases "ie_block_size (last ?es) = 0")
    case True
    then show ?thesis using scan_back_law [OF True, of "length ?es" ?es] False by (auto simp: last_entry_def Let_def)
  next
    case nz: False
    have "scan_back ?es (length ?es) (last ?es) = last ?es" using nz by (cases "length ?es") simp_all
    moreover have "last ?es = ?es ! (length ?es - 1)" using False by (simp add: last_conv_nth)
    ultimately show ?thesis using nz False
      by (auto simp: last_entry_def Let_def intro!: exI [of _ "length ?es - 1"])
  qed
qed (simp add: last_entry_def)

lemma last_holds:
  assumes codec: "\<not> succeeds (unpack [])" and h: "files_hold H unpack d m"
  shows "case bd_last unpack d of None \<Rightarrow> m = Map.empty | Some b \<Rightarrow> \<exists>n. m n = Some b \<and> bd_last_id d = Some (block_id H b) \<and> (\<forall>k > n. m k = None)"
proof -
  let ?es = "bd_block_num_to_pos d"
  have none: "m k = None \<longleftrightarrow> (k < length ?es \<longrightarrow> ie_block_size (?es ! k) = 0)" for k
    using holds_entry [OF h, of k] holds_outside [OF h, of k] by (cases "k < length ?es") (auto simp: entry_ok_def split: option.splits)
  from last_entry_law [of d] show ?thesis
  proof (elim disjE conjE exE)
    assume "last_entry d = None" "\<forall>k < length ?es. ie_block_size (?es ! k) = 0"
    then show ?thesis using none by (auto simp: bd_last_def fun_eq_iff)
  next
    fix k
    assume k: "k < length ?es" "last_entry d = Some (?es ! k)" "0 < ie_block_size (?es ! k)"
      "\<forall>j < length ?es. k < j \<longrightarrow> ie_block_size (?es ! j) = 0"
    then obtain b where b: "m k = Some b" using none [of k] by auto
    have "entry_ok H unpack (bd_blocks d) k (?es ! k) (Some b)" using holds_entry [OF h k(1)] b by simp
    then have "bd_last unpack d = Some b" "bd_last_id d = Some (block_id H b)"
      using k(2) by (simp_all add: bd_last_def bd_last_id_def entry_ok_def read_entry_def read_bytes_def)
    moreover have "\<forall>j > k. m j = None" using k(4) none by blast
    ultimately show ?thesis using b by auto
  qed
qed

section \<open>Runs\<close>

text \<open>A database filled by stores and removals, with the map it stands for: a block is filed under its number, until it is removed or replaced.\<close>

inductive storage_run ::
  "('tx signed_block \<Rightarrow> opaque) \<Rightarrow> ('tx signed_block \<Rightarrow> bytes) \<Rightarrow> (bytes \<Rightarrow> 'tx signed_block res) \<Rightarrow> block_database
    \<Rightarrow> (nat \<rightharpoonup> 'tx signed_block) \<Rightarrow> bool" for H pack unpack where
  storage_new: "storage_run H pack unpack \<lparr>bd_block_num_to_pos = [], bd_blocks = []\<rparr> Map.empty"
| storage_store: "storage_run H pack unpack d m \<Longrightarrow> packable pack unpack b \<Longrightarrow> storage_run H pack unpack (bd_store H pack (block_id H b) b d) (m(block_num b \<mapsto> b))"
| storage_remove: "storage_run H pack unpack d m \<Longrightarrow> bd_remove i d = Inr d' \<Longrightarrow>
    storage_run H pack unpack d' (if map_option (block_id H) (m (num_from_id i)) = Some i then m(num_from_id i := None) else m)"

lemma run_holds:
  assumes "storage_run H pack unpack d m"
  shows "files_hold H unpack d m"
  using assms
proof induction
  case storage_new
  then show ?case by (simp add: files_hold_def)
next
  case (storage_store d m b)
  then show ?case using store_holds by blast
next
  case (storage_remove d m i d')
  then show ?case using remove_holds by blast
qed

text \<open>
  C33. The two files implement a map from block numbers to blocks: after any stores and removals a block
  is found by its number and by its id exactly when the map has it, and \<open>last\<close> is the block with the
  highest number.
\<close>

theorem block_storage_refines:
  assumes "\<not> succeeds (unpack [])" and "storage_run H pack unpack d m"
  shows "bd_fetch_by_number H unpack n d = m n \<and>
    bd_fetch_optional H unpack i d = (if map_option (block_id H) (m (num_from_id i)) = Some i then m (num_from_id i) else None) \<and>
    (i \<noteq> null_block_id \<longrightarrow> (bd_contains i d \<longleftrightarrow> map_option (block_id H) (m (num_from_id i)) = Some i)) \<and>
    (case bd_last unpack d of None \<Rightarrow> m = Map.empty
     | Some b \<Rightarrow> \<exists>k. m k = Some b \<and> bd_last_id d = Some (block_id H b) \<and> (\<forall>j > k. m j = None))"
proof -
  note h = run_holds [OF assms(2)]
  from fetch_by_number_holds [OF assms(1) h] fetch_optional_holds [OF assms(1) h] contains_holds [OF h] last_holds [OF assms(1) h]
  show ?thesis by (intro conjI impI) blast+
qed

text \<open>A block stored under a foreign id cannot be read back, and what was filed under that number is lost.\<close>

lemma misfiled_block:
  assumes "packable pack unpack b" and "i \<noteq> block_id H b" and "i \<noteq> null_block_id"
  shows "bd_fetch_optional H unpack j (bd_store H pack i b d) = None \<or> num_from_id j \<noteq> num_from_id i"
    and "bd_fetch_by_number H unpack (num_from_id i) (bd_store H pack i b d) = None"
proof -
  let ?d = "bd_store H pack i b d"
  have e: "num_from_id i < length (bd_block_num_to_pos ?d)" "bd_block_num_to_pos ?d ! num_from_id i =
      \<lparr>ie_block_pos = length (bd_blocks d), ie_block_size = length (pack b), ie_block_id = i\<rparr>" "bd_blocks ?d = bd_blocks d @ pack b"
    using assms by (auto simp: bd_store_def Let_def length_write_entry nth_write_entry packable_def u32_def)
  then have "caught (read_checked H unpack (bd_block_num_to_pos ?d ! num_from_id i) ?d) = None"
    using assms(1,2) by (simp add: read_checked_def read_entry_def read_bytes_def packable_def)
  then show "bd_fetch_optional H unpack j ?d = None \<or> num_from_id j \<noteq> num_from_id i"
    and "bd_fetch_by_number H unpack (num_from_id i) ?d = None"
    using e(1) by (auto simp: bd_fetch_optional_def bd_fetch_by_number_def Let_def)
qed

section \<open>Concrete instances\<close>

text \<open>Blocks that only differ in small numbers, packed into one byte for each.\<close>

definition demo_pack :: "nat signed_block \<Rightarrow> bytes" where
  "demo_pack b = [of_nat (bid_num (b_previous b)), of_nat (bid_hash (b_previous b)), of_nat (b_timestamp b)]"

definition demo_unpack :: "bytes \<Rightarrow> nat signed_block res" where
  "demo_unpack bs =
     (case bs of [n, h, t] \<Rightarrow> Inr \<lparr>b_previous = Block_Id (unat n) (unat h), b_timestamp = unat t, b_miner = 0,
        b_transaction_merkle_root = 0, b_miner_signature = 0, b_transactions = []\<rparr>
      | _ \<Rightarrow> Inl Out_Of_Range)"

definition demo_stored :: "nat \<Rightarrow> nat \<Rightarrow> nat signed_block" where
  "demo_stored n t = \<lparr>b_previous = Block_Id n 0, b_timestamp = t, b_miner = 0, b_transaction_merkle_root = 0,
     b_miner_signature = 0, b_transactions = []\<rparr>"

definition demo_storage :: block_database where
  "demo_storage = bd_store b_timestamp demo_pack (Block_Id 3 8) (demo_stored 2 8)
     (bd_store b_timestamp demo_pack (Block_Id 2 7) (demo_stored 1 7) \<lparr>bd_block_num_to_pos = [], bd_blocks = []\<rparr>)"

lemma demo_storage_run:
  "storage_run b_timestamp demo_pack demo_unpack demo_storage (Map.empty(2 \<mapsto> demo_stored 1 7, 3 \<mapsto> demo_stored 2 8))"
proof -
  have p: "packable demo_pack demo_unpack (demo_stored 1 7)" "packable demo_pack demo_unpack (demo_stored 2 8)"
    by (simp_all add: packable_def demo_pack_def demo_unpack_def demo_stored_def)
  have n: "block_num (demo_stored 1 7) = 2" "block_num (demo_stored 2 8) = 3"
    "block_id b_timestamp (demo_stored 1 7) = Block_Id 2 7" "block_id b_timestamp (demo_stored 2 8) = Block_Id 3 8"
    by (simp_all add: block_num_def block_id_def num_from_id_def demo_stored_def u32_def)
  from storage_store [OF storage_store [OF storage_new p(1)] p(2), of b_timestamp] show ?thesis
    by (simp only: n demo_storage_def)
qed

theorem block_storage_refines_witness:
  "bd_fetch_by_number b_timestamp demo_unpack 2 demo_storage = Some (demo_stored 1 7) \<and>
   bd_fetch_optional b_timestamp demo_unpack (Block_Id 3 9) demo_storage = None"
proof -
  have "\<not> succeeds (demo_unpack [])" by (simp add: demo_unpack_def succeeds_def)
  from block_storage_refines [OF this demo_storage_run, of 2 "Block_Id 3 9"] show ?thesis
    by (simp add: num_from_id_def block_id_def demo_stored_def)
qed

end
