(* ===== verification/Block_Application.thy ===== *)
theory Block_Application
  imports Proposal_Correct
begin

unbundle bit_operations_syntax

text \<open>
  Transactions and blocks applied to the database: \<open>protocol/transaction.hpp\<close>, \<open>apply\_transaction\<close>,
  \<open>apply\_block\<close> and what they call in \<open>db\_block.cpp\<close>, and \<open>clear\_expired\_transactions\<close> of
  \<open>db\_update.cpp\<close>. Hashes, the recovery of keys from signatures and the packing of a block are
  parameters; notifications of observers are not part of the state.
\<close>

section \<open>Skip flags\<close>

type_synonym skip_flags = "32 word"

definition skip_miner_signature :: skip_flags where "skip_miner_signature = push_bit 0 1"
definition skip_transaction_signatures :: skip_flags where "skip_transaction_signatures = push_bit 1 1"
definition skip_transaction_dupe_check :: skip_flags where "skip_transaction_dupe_check = push_bit 2 1"
definition skip_fork_db :: skip_flags where "skip_fork_db = push_bit 3 1"
definition skip_block_size_check :: skip_flags where "skip_block_size_check = push_bit 4 1"
definition skip_tapos_check :: skip_flags where "skip_tapos_check = push_bit 5 1"
definition skip_authority_check :: skip_flags where "skip_authority_check = push_bit 6 1"
definition skip_merkle_check :: skip_flags where "skip_merkle_check = push_bit 7 1"
definition skip_assert_evaluation :: skip_flags where "skip_assert_evaluation = push_bit 8 1"
definition skip_undo_history_check :: skip_flags where "skip_undo_history_check = push_bit 9 1"
definition skip_miner_schedule_check :: skip_flags where "skip_miner_schedule_check = push_bit 10 1"
definition skip_validate :: skip_flags where "skip_validate = push_bit 11 1"

definition skips :: "skip_flags \<Rightarrow> skip_flags \<Rightarrow> bool" where
  "skips skip flag \<longleftrightarrow> skip AND flag \<noteq> 0"

section \<open>Transactions and blocks\<close>

record transaction =
  ref_block_num :: nat
  ref_block_prefix :: nat
  trx_expiration :: time_point_sec
  trx_operations :: "operation list"

record signed_transaction = transaction +
  trx_signatures :: "opaque list"

text \<open>An operation returns nothing or the id of the object it creates: space, type and instance.\<close>

datatype operation_result = Void_Result | Object_Result "nat \<times> nat \<times> nat"

record processed_transaction = signed_transaction +
  operation_results :: "operation_result list"

type_synonym block = "processed_transaction signed_block"

text \<open>
  What applying blocks takes from elsewhere: hashes of transactions, headers and pairs of digests, the
  key that made a signature of a transaction or of a block, the prefix of a block's hash, the shift of
  \<open>fc::uint128\<close>, the conversion of unsigned numbers; and the checkpoints, sorted by number.
\<close>

record block_env =
  be_db :: db_env
  be_trx_id :: "transaction \<Rightarrow> opaque"
  be_recover :: "transaction \<Rightarrow> opaque \<Rightarrow> opaque res"
  be_header_hash :: "block \<Rightarrow> opaque"
  be_signee :: "block \<Rightarrow> opaque"
  be_prefix :: "opaque \<Rightarrow> nat"
  be_merkle_digest :: "processed_transaction \<Rightarrow> opaque"
  be_hash_pair :: "opaque \<Rightarrow> opaque \<Rightarrow> opaque"
  be_hash_root :: "opaque \<Rightarrow> opaque"
  be_shl :: "128 word \<Rightarrow> nat \<Rightarrow> 128 word"
  be_unsigned :: "nat \<Rightarrow> int res"
  be_checkpoints :: "(nat \<times> block_id_type) list"

definition null_checksum :: opaque where
  "null_checksum = 0"

definition trx_id :: "block_env \<Rightarrow> signed_transaction \<Rightarrow> opaque" where
  "trx_id e trx = be_trx_id e (transaction.truncate trx)"

text \<open>The operations read the flags of the node from the environment.\<close>

definition env_with :: "skip_flags \<Rightarrow> block_env \<Rightarrow> db_env" where
  "env_with skip e =
     (let de = be_db e; ce = de_chain de; co = ce_content ce
      in de\<lparr>de_chain := ce\<lparr>ce_content := co\<lparr>e_skip_undo_history_check := skips skip skip_undo_history_check,
                                          e_skip_validate := skips skip skip_validate\<rparr>\<rparr>,
            de_skip_assert_evaluation := skips skip skip_assert_evaluation\<rparr>)"

section \<open>Applying a transaction\<close>

definition transaction_key :: "transaction_object \<Rightarrow> transaction_object \<Rightarrow> bool" where
  "transaction_key x y \<longleftrightarrow> to_trx_id x = to_trx_id y"

definition is_known_transaction :: "opaque \<Rightarrow> database \<Rightarrow> bool" where
  "is_known_transaction i d \<longleftrightarrow> t_find_by (\<lambda>x. to_trx_id x = i) (transactions d) \<noteq> None"

definition block_trx :: trx_state where
  "block_trx = \<lparr>skip_fee = False, skip_fee_schedule_check = False, is_proposed_trx = False\<rparr>"

definition check_signatures :: "block_env \<Rightarrow> signed_transaction \<Rightarrow> database \<Rightarrow> unit res" where
  "check_signatures e trx d =
     bindE (get_signature_keys (be_recover e (transaction.truncate trx)) (trx_signatures trx)) (\<lambda>keys.
     trx_verify_authority operation_get_required_authorities (trx_operations trx) keys (get_active d) (get_owner d) (max_depth d))"

definition check_reference :: "block_env \<Rightarrow> signed_transaction \<Rightarrow> database \<Rightarrow> unit res" where
  "check_reference e trx d =
     bindE (t_get (block_summaries d) (ref_block_num trx)) (\<lambda>tapos_block_id.
     require (ref_block_prefix trx = be_prefix e (bid_hash tapos_block_id)) Assert_Exception)"

definition check_expiration :: "signed_transaction \<Rightarrow> database \<Rightarrow> unit res" where
  "check_expiration trx d =
     (let now = head_block_time (ledger d)
      in bindE (require (trx_expiration trx \<le> time_plus now (maximum_time_until_expiration (parameters (gpo (ledger d))))) Assert_Exception) (\<lambda>_.
         require (now \<le> trx_expiration trx) Assert_Exception))"

definition record_transaction :: "block_env \<Rightarrow> signed_transaction \<Rightarrow> database \<Rightarrow> database res" where
  "record_transaction e trx d =
     bindE (t_create transaction_key \<lparr>to_expiration = trx_expiration trx, to_trx_id = trx_id e trx\<rparr> (transactions d)) (\<lambda>t.
     Inr (d\<lparr>transactions := t\<rparr>))"

definition temp_account_empty :: "database \<Rightarrow> bool" where
  "temp_account_empty d \<longleftrightarrow>
     list_all (\<lambda>b. bal_owner b = GRAPHENE_TEMP_ACCOUNT \<longrightarrow> bal_balance b = 0) (t_values (balances (ledger d)))"

text \<open>\<open>\_apply\_transaction\<close>; the results of the operations it returns are a definition of their own below.\<close>

definition apply_transaction :: "safe \<Rightarrow> block_env \<Rightarrow> skip_flags \<Rightarrow> signed_transaction \<Rightarrow> database \<Rightarrow> database res" where
  "apply_transaction S e skip trx d =
     bindE (transaction_validate (be_db e) (trx_operations trx)) (\<lambda>_.
     bindE (require (skips skip skip_transaction_dupe_check \<or> \<not> is_known_transaction (trx_id e trx) d) Assert_Exception) (\<lambda>_.
     bindE (if \<not> skips skip (skip_transaction_signatures OR skip_authority_check) then check_signatures e trx d else Inr ()) (\<lambda>_.
     bindE (if 0 < head_block_num (ledger d) then
              bindE (if \<not> skips skip skip_tapos_check then check_reference e trx d else Inr ()) (\<lambda>_. check_expiration trx d)
            else Inr ()) (\<lambda>_.
     bindE (if \<not> skips skip skip_transaction_dupe_check then record_transaction e trx d else Inr d) (\<lambda>d1.
     bindE (foldE (db_apply_operation S (env_with skip e) block_trx) (trx_operations trx) d1) (\<lambda>d2.
     bindE (require (temp_account_empty d2) Assert_Exception) (\<lambda>_.
     Inr d2)))))))"

text \<open>
  What the evaluators return: the id of a new object is the next one of its table before the operation,
  and no operation creates two objects of the table it returns an id of. Content that is submitted
  again, a seeder that publishes again, a subscription that is prolonged and a message that nobody here
  tracks create nothing.
\<close>

definition content_result_of :: "content_operation \<Rightarrow> chain \<Rightarrow> operation_result" where
  "content_result_of op' c =
     (let seeder_result = (\<lambda>op. if find_seeder (rp_seeder op) c = None then Object_Result (2, 16, g_next_id (seeding_stats c)) else Void_Result)
      in case op' of
           Submit op \<Rightarrow> if find_content (cs_URI op) c = None then Object_Result (2, 13, g_next_id (contents c)) else Void_Result
         | Buy op \<Rightarrow> Object_Result (2, 12, g_next_id (buyings c))
         | Publish op \<Rightarrow> seeder_result op
         | Publish_Obsolete op \<Rightarrow> seeder_result op
         | _ \<Rightarrow> Void_Result)"

definition subscription_result_of :: "account_id_type \<Rightarrow> account_id_type \<Rightarrow> chain \<Rightarrow> operation_result" where
  "subscription_result_of from to c =
     (if t_find_by (is_subscription from to) (subscriptions c) = None then Object_Result (2, 15, g_next_id (subscriptions c)) else Void_Result)"

definition custom_result_of :: "db_env \<Rightarrow> custom_operation \<Rightarrow> database \<Rightarrow> operation_result" where
  "custom_result_of e op d =
     (if cu_id op \<noteq> custom_operation_subtype_messaging then Void_Result
      else case de_payload e (cu_data op) of
             Inl err \<Rightarrow> Void_Result
           | Inr pl \<Rightarrow> if \<not> de_tracked e (mp_from pl) \<and> list_all (\<lambda>r. \<not> de_tracked e (fst r)) (mp_receivers_data pl) then Void_Result
                     else Object_Result (2, 18, g_next_id (messages d)))"

definition operation_result_of :: "db_env \<Rightarrow> operation \<Rightarrow> database \<Rightarrow> operation_result" where
  "operation_result_of e op d =
     (let c = ledger d
      in case op of
           On_Ledger (Account_Creation op') \<Rightarrow> Object_Result (1, 2, g_next_id (accounts c))
         | On_Ledger (Asset_Creation op') \<Rightarrow> Object_Result (1, 3, g_next_id (assets c))
         | On_Ledger (Miner_Creation op') \<Rightarrow> Object_Result (1, 4, g_next_id (miners c))
         | Proposal_Create op' \<Rightarrow> Object_Result (1, 6, g_next_id (proposals d))
         | On_Ledger (Permission_Create op') \<Rightarrow> Object_Result (1, 8, g_next_id (withdraw_permissions c))
         | On_Ledger (Vesting_Create op') \<Rightarrow> Object_Result (1, 9, g_next_id (vestings c))
         | On_Ledger (On_Nft (Nft_Create_Definition op')) \<Rightarrow> Object_Result (1, 10, g_next_id (nfts c))
         | On_Ledger (On_Nft (Nft_Issue op')) \<Rightarrow> Object_Result (1, 11, g_next_id (nft_data c))
         | On_Ledger (On_Content op') \<Rightarrow> content_result_of op' c
         | On_Ledger (Subscribe op') \<Rightarrow> subscription_result_of (su_from op') (su_to op') c
         | On_Ledger (Subscribe_By_Author op') \<Rightarrow> subscription_result_of (sba_from op') (sba_to op') c
         | Custom op' \<Rightarrow> custom_result_of e op' d
         | _ \<Rightarrow> Void_Result)"

primrec results_of ::
  "db_env \<Rightarrow> (operation \<Rightarrow> database \<Rightarrow> database res) \<Rightarrow> operation list \<Rightarrow> database \<Rightarrow> operation_result list" where
  "results_of e f [] d = []"
| "results_of e f (op # ops) d =
     (case f op d of Inl err \<Rightarrow> [] | Inr d' \<Rightarrow> operation_result_of e op d # results_of e f ops d')"

text \<open>\<open>\_apply\_transaction\<close> with the processed transaction it returns.\<close>

definition process_transaction ::
  "safe \<Rightarrow> block_env \<Rightarrow> skip_flags \<Rightarrow> signed_transaction \<Rightarrow> database \<Rightarrow> (processed_transaction \<times> database) res" where
  "process_transaction S e skip trx d =
     bindE (apply_transaction S e skip trx d) (\<lambda>d'.
     bindE (if \<not> skips skip skip_transaction_dupe_check then record_transaction e trx d else Inr d) (\<lambda>d1.
     Inr (signed_transaction.extend trx
            (processed_transaction.fields (results_of (env_with skip e) (db_apply_operation S (env_with skip e) block_trx) (trx_operations trx) d1)), d')))"

section \<open>Housekeeping of transactions\<close>

text \<open>The last row of the index \<open>by\_expiration\<close>.\<close>

fun latest_row :: "transaction_object rows \<Rightarrow> (nat \<times> transaction_object) option" where
  "latest_row [] = None"
| "latest_row (r # rows) =
     (case latest_row rows of None \<Rightarrow> Some r
      | Some b \<Rightarrow> if to_expiration (snd b) < to_expiration (snd r) then Some r else Some b)"

lemma latest_row_None: "latest_row rows = None \<longleftrightarrow> rows = []"
  by (cases rows) (auto split: option.splits)

lemma latest_row_Some:
  "latest_row rows = Some r \<Longrightarrow> r \<in> set rows \<and> (\<forall>q \<in> set rows. to_expiration (snd q) \<le> to_expiration (snd r))"
proof (induction rows arbitrary: r)
  case (Cons a rows)
  show ?case
  proof (cases "latest_row rows")
    case None
    then show ?thesis using Cons.prems latest_row_None by auto
  next
    case (Some b)
    then show ?thesis using Cons.IH [OF Some] Cons.prems by (force split: if_splits)
  qed
qed simp

lemma remove_shorter: "r \<in> set (g_rows t) \<Longrightarrow> length (g_rows (t_remove (fst r) t)) < length (g_rows t)"
  by (auto simp: t_remove_def generic_remove_def del_row_def intro: length_filter_less)

function clear_expired_rows :: "time_point_sec \<Rightarrow> transaction_object table \<Rightarrow> transaction_object table" where
  "clear_expired_rows now t =
     (case latest_row (g_rows t) of None \<Rightarrow> t
      | Some r \<Rightarrow> if to_expiration (snd r) < now then clear_expired_rows now (t_remove (fst r) t) else t)"
  by pat_completeness auto
termination
  by (relation "measure (\<lambda>(now, t). length (g_rows t))") (use remove_shorter latest_row_Some in force)+

declare clear_expired_rows.simps [simp del]

definition clear_expired_transactions :: "database \<Rightarrow> database" where
  "clear_expired_transactions d = d\<lparr>transactions := clear_expired_rows (head_block_time (ledger d)) (transactions d)\<rparr>"

section \<open>Applying a block\<close>

text \<open>It returns the miner who signed the block.\<close>

definition validate_block_header :: "block_env \<Rightarrow> skip_flags \<Rightarrow> block \<Rightarrow> chain \<Rightarrow> nat res" where
  "validate_block_header e skip b c =
     bindE (require (head_block_id (dgpo c) = b_previous b) Assert_Exception) (\<lambda>_.
     bindE (require (head_block_time c < b_timestamp b) Assert_Exception) (\<lambda>_.
     bindE (t_get (miners c) (b_miner b)) (\<lambda>miner.
     bindE (if \<not> skips skip skip_miner_signature
            then require (validate_signee (be_signee e) (signing_key miner) b) Assert_Exception else Inr ()) (\<lambda>_.
     bindE (if \<not> skips skip skip_miner_schedule_check then
              bindE (get_slot_at_time (b_timestamp b) c) (\<lambda>slot_num.
              bindE (require (0 < slot_num) Assert_Exception) (\<lambda>_.
              bindE (get_scheduled_miner slot_num c) (\<lambda>scheduled_miner.
              require (b_miner b = scheduled_miner) Assert_Exception)))
            else Inr ()) (\<lambda>_.
     Inr (b_miner b))))))"

definition summary_slot :: "block \<Rightarrow> nat" where
  "summary_slot b = nat (int (block_num b) mod 65536)"

definition create_block_summary :: "block_env \<Rightarrow> block \<Rightarrow> database \<Rightarrow> database res" where
  "create_block_summary e b d =
     bindE (t_modify no_unique (summary_slot b) (\<lambda>p. Inr (block_id (be_header_hash e) b)) (block_summaries d)) (\<lambda>t.
     Inr (d\<lparr>block_summaries := t\<rparr>))"

definition merkle_ok :: "block_env \<Rightarrow> skip_flags \<Rightarrow> block \<Rightarrow> bool" where
  "merkle_ok e skip b \<longleftrightarrow> skips skip skip_merkle_check \<or>
     b_transaction_merkle_root b =
       calculate_merkle_root (be_hash_pair e) (be_hash_root e) null_checksum (be_merkle_digest e) b"

text \<open>The transactions of a block are applied without a look at their signatures.\<close>

definition apply_transactions :: "safe \<Rightarrow> block_env \<Rightarrow> skip_flags \<Rightarrow> block \<Rightarrow> database \<Rightarrow> database res" where
  "apply_transactions S e skip b d =
     foldE (\<lambda>trx. apply_transaction S e (skip OR skip_transaction_signatures) (signed_transaction.truncate trx))
       (b_transactions b) d"

text \<open>The updates of the chain between the transactions and the summary; the first component is the size of the undo history.\<close>

definition update_chain ::
  "safe \<Rightarrow> block_env \<Rightarrow> skip_flags \<Rightarrow> block \<Rightarrow> nat \<Rightarrow> bool \<Rightarrow> chain \<Rightarrow> (nat \<times> chain) res" where
  "update_chain S e skip b signing_miner maint_needed c =
     bindE (update_global_dynamic_data (be_header_hash e) (be_shl e) (map fst (be_checkpoints e))
              (skips skip skip_undo_history_check) b c) (\<lambda>(n, c1).
     bindE (update_signing_miner S signing_miner b c1) (\<lambda>c2.
     bindE (update_last_irreversible_block (skips skip skip_undo_history_check) c2) (\<lambda>c3.
     bindE (if maint_needed then perform_chain_maintenance S (be_unsigned e) b c3 else Inr c3) (\<lambda>c4.
     Inr (n, c4)))))"

text \<open>\<open>\_apply\_block\<close> up to \<open>clear\_expired\_transactions\<close>, and after \<open>clear\_expired\_proposals\<close>.\<close>

definition begin_block :: "safe \<Rightarrow> block_env \<Rightarrow> skip_flags \<Rightarrow> block \<Rightarrow> database \<Rightarrow> (nat \<times> bool \<times> database) res" where
  "begin_block S e skip b d =
     bindE (require (merkle_ok e skip b) Assert_Exception) (\<lambda>_.
     bindE (validate_block_header e skip b (ledger d)) (\<lambda>signing_miner.
     let maint_needed = (next_maintenance_time (dgpo (ledger d)) \<le> b_timestamp b)
     in bindE (apply_transactions S e skip b d) (\<lambda>d1.
        bindE (update_chain S e skip b signing_miner maint_needed (ledger d1)) (\<lambda>(n, c).
        bindE (create_block_summary e b (d1\<lparr>ledger := c\<rparr>)) (\<lambda>d2.
        Inr (n, maint_needed, clear_expired_transactions d2))))))"

definition end_block :: "block_env \<Rightarrow> bool \<Rightarrow> chain \<Rightarrow> chain res" where
  "end_block e maint_needed c =
     bindE (update_expired_feeds (ce_nth (de_chain (be_db e))) c) (\<lambda>c1.
     update_miner_schedule (update_maintenance_flag maint_needed (update_withdraw_permissions c1)))"

text \<open>The loop over the expired proposals is the only one that is not bounded beforehand: \<open>None\<close> would mean that it does not end.\<close>

definition apply_block_with ::
  "safe \<Rightarrow> block_env \<Rightarrow> skip_flags \<Rightarrow> block \<Rightarrow> database \<Rightarrow> (nat \<times> database) res option" where
  "apply_block_with S e skip b d =
     (case begin_block S e skip b d of
        Inl err \<Rightarrow> Some (Inl err)
      | Inr (n, maint_needed, d1) \<Rightarrow>
          (case clear_expired_proposals S (env_with skip e) d1 of
             None \<Rightarrow> None
           | Some (Inl err) \<Rightarrow> Some (Inl err)
           | Some (Inr d2) \<Rightarrow>
               Some (bindE (end_block e maint_needed (ledger d2)) (\<lambda>c. Inr (n, d2\<lparr>ledger := c\<rparr>)))))"

text \<open>With a last checkpoint that is not before the block nearly everything is skipped.\<close>

definition checkpoint_skip :: "block_env \<Rightarrow> skip_flags \<Rightarrow> block \<Rightarrow> skip_flags res" where
  "checkpoint_skip e skip b =
     (let cps = be_checkpoints e; num = block_num b
      in if cps \<noteq> [] \<and> snd (last cps) \<noteq> null_block_id then
           (if map_of cps num \<noteq> None \<and> map_of cps num \<noteq> Some (block_id (be_header_hash e) b) then Inl Assert_Exception
            else Inr (if num \<le> fst (last cps) then NOT 0 else skip))
         else Inr skip)"

definition apply_block :: "safe \<Rightarrow> block_env \<Rightarrow> skip_flags \<Rightarrow> block \<Rightarrow> database \<Rightarrow> (nat \<times> database) res option" where
  "apply_block S e skip b d =
     (case checkpoint_skip e skip b of Inl err \<Rightarrow> Some (Inl err) | Inr skip' \<Rightarrow> apply_block_with S e skip' b d)"

text \<open>
  The size of the undo history a block sets as soon as \<open>update\_global\_dynamic\_data\<close> has run, also when
  the block fails later on.
\<close>

definition history_size :: "safe \<Rightarrow> block_env \<Rightarrow> skip_flags \<Rightarrow> block \<Rightarrow> database \<Rightarrow> nat option" where
  "history_size S e skip b d =
     (case bindE (checkpoint_skip e skip b) (\<lambda>skip'.
           bindE (require (merkle_ok e skip' b) Assert_Exception) (\<lambda>_.
           bindE (validate_block_header e skip' b (ledger d)) (\<lambda>_.
           bindE (apply_transactions S e skip' b d) (\<lambda>d1.
           update_global_dynamic_data (be_header_hash e) (be_shl e) (map fst (be_checkpoints e))
             (skips skip' skip_undo_history_check) b (ledger d1))))) of
        Inl err \<Rightarrow> None | Inr (n, c) \<Rightarrow> Some n)"

end
