(* ===== verification/Block_Correct.thy ===== *)
theory Block_Correct
  imports Block_Application
begin

unbundle bit_operations_syntax

text \<open>
  What applying transactions and blocks guarantees: the head moves on to the block, which its scheduled
  miner signed; the blocks applied form a chain; no transaction is applied twice; a transaction refers
  to a block of its own chain; and applying a block always returns.
\<close>

section \<open>Skip flags\<close>

lemma skips_or [simp]: "skips s (f OR g) \<longleftrightarrow> skips s f \<or> skips s g" "skips (s OR s') f \<longleftrightarrow> skips s f \<or> skips s' f"
  by (auto simp: skips_def bit.conj_disj_distrib bit.conj_disj_distrib2 or_eq_0_iff)

lemma flags_apart [simp]:
  "skips skip_transaction_signatures skip_transaction_signatures" "\<not> skips skip_transaction_signatures skip_transaction_dupe_check"
  "\<not> skips skip_transaction_signatures skip_tapos_check"
  by (simp_all add: skips_def skip_transaction_signatures_def skip_transaction_dupe_check_def skip_tapos_check_def)

section \<open>Frames\<close>

lemma transaction_frame:
  assumes ok: "proposals_ok d" and run: "apply_transaction S e skip trx d = Inr d'"
  shows "proposals_ok d'" and "headed (ledger d') = headed (ledger d)" and "block_summaries d' = block_summaries d"
    and "skips skip skip_transaction_dupe_check \<or>
      t_create transaction_key \<lparr>to_expiration = trx_expiration trx, to_trx_id = trx_id e trx\<rparr> (transactions d) = Inr (transactions d')"
proof -
  from run obtain d1 where 1: "(if \<not> skips skip skip_transaction_dupe_check then record_transaction e trx d else Inr d) = Inr d1"
    and 2: "foldE (db_apply_operation S (env_with skip e) block_trx) (trx_operations trx) d1 = Inr d'"
    unfolding apply_transaction_def by (simp only: bindE_eq_Inr) auto
  have d1: "proposals_ok d1" "headed (ledger d1) = headed (ledger d)" "block_summaries d1 = block_summaries d"
    using 1 ok by (auto simp: record_transaction_def proposals_ok_def split: if_splits)
  have "proposals_ok d' \<and> outer d' = outer d1"
    by (rule foldE_invariant [OF 2, where I = "\<lambda>x. proposals_ok x \<and> outer x = outer d1"])
      (use d1 operation_proposals in \<open>metis\<close>)+
  then show "proposals_ok d'" "headed (ledger d') = headed (ledger d)" "block_summaries d' = block_summaries d"
    "skips skip skip_transaction_dupe_check \<or>
      t_create transaction_key \<lparr>to_expiration = trx_expiration trx, to_trx_id = trx_id e trx\<rparr> (transactions d) = Inr (transactions d')"
    using d1 1 by (auto simp: outer_def record_transaction_def split: if_splits)
qed

lemma lazy_headed: "deposit_lazy_vesting S v n secs owner rv c = Inr (k, c') \<Longrightarrow> headed c' = headed c"
  unfolding deposit_lazy_vesting_def by (cases "n = 0") (auto simp: Let_def headed_def split: option.splits)

lemma deposit_headed: "deposit_miner_pay S m n c = Inr c' \<Longrightarrow> headed c' = headed c"
  unfolding deposit_miner_pay_def
  by (cases "n = 0") (auto dest!: lazy_headed simp: headed_def split: option.splits)

lemma signing_headed: "update_signing_miner S m b c = Inr c' \<Longrightarrow> headed c' = headed c"
  by (auto simp: update_signing_miner_def Let_def dest!: deposit_headed) (auto simp: headed_def)

lemma irreversible_headed: "update_last_irreversible_block skip c = Inr c' \<Longrightarrow> headed c' = headed c"
  by (auto simp: update_last_irreversible_block_def headed_def Let_def split: if_splits)

lemma global_headed:
  assumes "update_global_dynamic_data H shl cps skip b c = Inr (n, c')"
  shows "headed c' = (b_timestamp b, block_id H b, block_num b)"
  using assms by (auto simp: update_global_dynamic_data_def advance_properties_def headed_def Let_def)

lemma end_block_headed: "end_block e flag c = Inr c' \<Longrightarrow> headed c' = headed c"
proof -
  assume "end_block e flag c = Inr c'"
  then obtain c1 where 1: "update_expired_feeds (ce_nth (de_chain (be_db e))) c = Inr c1"
    and 2: "update_miner_schedule (update_maintenance_flag flag (update_withdraw_permissions c1)) = Inr c'"
    by (auto simp: end_block_def)
  have "headed c1 = headed c"
    using 1 unfolding update_expired_feeds_def
    by (rule foldE_frame) (auto simp: modify_asset_def headed_def split: option.splits if_splits)
  moreover have "headed c' = headed c1"
    using 2 by (auto simp: update_miner_schedule_def update_maintenance_flag_def update_withdraw_permissions_def headed_def Let_def split: if_splits)
  ultimately show ?thesis by simp
qed

section \<open>Maintenance leaves the head alone\<close>

lemma elect_dgpo:
  assumes "elect_miners S K c = Inr c'"
  shows "dgpo c' = dgpo c"
proof -
  from assms obtain t c1 wits n c2 c3 ms where 1: "tally_votes c = Inr (t, c1)" and 2: "rank_miners t wits c1 = Inr c2"
    and 3: "update_miner_authority t (take n wits) c2 = Inr c3" and c': "c' = c3\<lparr>gpo := (gpo c3)\<lparr>active_miners := ms\<rparr>\<rparr>"
    by (auto simp: elect_miners_def Let_def)
  have "dgpo (snd (t, c1)) = dgpo c"
    by (rule foldE_invariant [OF 1 [unfolded tally_votes_def], where I = "\<lambda>s. dgpo (snd s) = dgpo c"])
      (auto simp: tally_account_def Let_def split: if_splits)
  moreover have "dgpo c2 = dgpo c1"
    using 2 unfolding rank_miners_def by (rule foldE_frame) (auto simp: rank_miner_def)
  moreover have "dgpo c3 = dgpo c2" using 3 by (auto simp: update_miner_authority_def Let_def)
  ultimately show ?thesis by (simp add: c')
qed

lemma content_expire_dgpo: "content_expire S k c = Inr c' \<Longrightarrow> dgpo c' = dgpo c"
  by (auto simp: content_expire_def Let_def release_seeder_def dest!: dgpo_frame(1) foldE_frame [where g = dgpo] intro: dgpo_frame(5))

lemma buying_expire_dgpo: "buying_expire S k c = Inr c' \<Longrightarrow> dgpo c' = dgpo c"
  by (auto simp: buying_expire_def dest!: dgpo_frame(1))

lemma renew_dgpo:
  "renew_subscription S k period p c = Inr c' \<Longrightarrow> dgpo c' = dgpo c"
  "renew_subscription S k period p c = Inl (err, c') \<Longrightarrow> dgpo c' = dgpo c"
  by (auto simp: renew_subscription_def dest!: dgpo_frame(1,2) split: sum.splits prod.splits)

lemma try_renewal_dgpo:
  assumes run: "try_renewal S k so c = Inr (m, c')"
  shows "dgpo c' = dgpo c"
proof -
  from run obtain author where au: "generic_find (accounts c) (sub_to so) = Some author"
    by (auto simp: try_renewal_def)
  have dis: "dgpo d' = dgpo d" if "disallow_automatic_renewal k d = Inr d'" for d d'
    using that by (auto simp: disallow_automatic_renewal_def)
  show ?thesis
  proof (cases "bindE (renewal_price c (price_per_subscribe (acc_options author))) (\<lambda>dct_price.
          bindE (asset_le dct_price (get_balance c (sub_from so) (asset_id dct_price))) (\<lambda>enough. Inr (dct_price, enough)))")
    case (Inl e)
    then show ?thesis using run au by (auto simp: try_renewal_def split: if_splits dest: dis)
  next
    case (Inr r)
    obtain q enough where r: "r = (q, enough)" by (cases r)
    show ?thesis using run au Inr r
      by (auto simp: try_renewal_def split: if_splits sum.splits dest!: dis renew_dgpo)
  qed
qed

lemma renewal_loop_dgpo: "renewal_loop S t rows c = Inr c' \<Longrightarrow> dgpo c' = dgpo c"
  by (induction S t rows c rule: renewal_loop.induct) (auto dest!: try_renewal_dgpo split: if_splits)

lemma housekeeping_dgpo:
  assumes "decent_housekeeping S c = Inr c'"
  shows "dgpo c' = dgpo c"
proof -
  from assms obtain c1 c2 c3 where 1: "set_and_reset_seeding_stats c = Inr c1" and 2: "expire_contents S c1 = Inr c2"
    and 3: "expire_buyings S c2 = Inr c3" and 4: "renew_subscriptions S c3 = Inr c'"
    by (auto simp: decent_housekeeping_def)
  have "dgpo c1 = dgpo c"
    using 1 unfolding set_and_reset_seeding_stats_def by (rule foldE_frame) (auto simp: rate_seeder_def Let_def)
  moreover have "dgpo c2 = dgpo c1"
    using 2 unfolding expire_contents_def by (rule foldE_frame) (rule content_expire_dgpo)
  moreover have "dgpo c3 = dgpo c2"
    using 3 unfolding expire_buyings_def by (rule foldE_frame) (auto dest: buying_expire_dgpo split: if_splits)
  moreover have "dgpo c' = dgpo c3" using 4 by (auto simp: renew_subscriptions_def dest: renewal_loop_dgpo)
  ultimately show ?thesis by simp
qed

lemma budget_headed: "process_budget S K c = Inr c' \<Longrightarrow> headed c' = headed c"
  by (auto simp: process_budget_def modify_dyn_def Let_def headed_def)

lemma maintenance_headed:
  assumes "perform_chain_maintenance S K b c = Inr c'"
  shows "headed c' = headed c"
proof -
  from assms obtain c1 c2 c3 where 1: "elect_miners S K c = Inr c1" and 2: "decent_housekeeping S c1 = Inr c2"
    and 3: "schedule_maintenance b (apply_pending_parameters c2) = Inr c3" and 4: "process_budget S K c3 = Inr c'"
    by (auto simp: perform_chain_maintenance_def)
  have "headed c3 = headed c2"
    using 3 by (auto simp: schedule_maintenance_def apply_pending_parameters_def headed_def split: option.splits if_splits)
  then show ?thesis using elect_dgpo [OF 1] housekeeping_dgpo [OF 2] budget_headed [OF 4] by (simp add: headed_def)
qed

lemma update_chain_headed:
  assumes "update_chain S e skip b m maint c = Inr (n, c')"
  shows "headed c' = (b_timestamp b, block_id (be_header_hash e) b, block_num b)"
  using assms by (auto simp: update_chain_def dest!: maintenance_headed irreversible_headed signing_headed global_headed split: if_splits)

section \<open>The record of transactions\<close>

lemma clear_rows_cases:
  "clear_expired_rows now t = (if \<forall>r \<in> set (g_rows t). to_expiration (snd r) < now then t\<lparr>g_rows := []\<rparr> else t)"
proof (induction now t rule: clear_expired_rows.induct)
  case (1 now t)
  show ?case
  proof (cases "latest_row (g_rows t)")
    case None
    then show ?thesis using latest_row_None [of "g_rows t"] by (subst clear_expired_rows.simps) simp
  next
    case (Some r)
    note r = latest_row_Some [OF Some]
    show ?thesis
    proof (cases "to_expiration (snd r) < now")
      case True
      have "\<forall>q \<in> set (g_rows t). to_expiration (snd q) < now" using r True by (meson le_less_trans)
      moreover have "\<forall>q \<in> set (g_rows (t_remove (fst r) t)). to_expiration (snd q) < now"
        using calculation by (auto simp: t_remove_def generic_remove_def del_row_def)
      ultimately show ?thesis using 1 [OF Some True] Some True
        by (subst clear_expired_rows.simps) (simp add: t_remove_def generic_remove_def)
    next
      case False
      then show ?thesis using Some r by (subst clear_expired_rows.simps) auto
    qed
  qed
qed

lemma clear_rows_law:
  assumes "t_ok t"
  shows "t_ok (clear_expired_rows now t)"
    and "generic_find t k = Some x \<Longrightarrow> generic_find (clear_expired_rows now t) k = Some x \<or> to_expiration x < now"
proof -
  show "t_ok (clear_expired_rows now t)" using assms by (simp add: clear_rows_cases generic_invar_def)
  assume "generic_find t k = Some x"
  moreover from this have "(k, x) \<in> set (g_rows t)" by (simp add: generic_find_def map_of_SomeD)
  ultimately show "generic_find (clear_expired_rows now t) k = Some x \<or> to_expiration x < now"
    by (cases "\<forall>r \<in> set (g_rows t). to_expiration (snd r) < now") (auto simp: clear_rows_cases)
qed

text \<open>
  The record of transactions is cleared all or nothing: while one recorded transaction has not
  expired, none is removed, and the record is emptied when all have.
\<close>

theorem cleared_all_or_nothing:
  "t_values (transactions (clear_expired_transactions d)) =
     (if list_all (\<lambda>x. to_expiration x < head_block_time (ledger d)) (t_values (transactions d)) then [] else t_values (transactions d))"
  by (simp add: clear_expired_transactions_def clear_rows_cases t_values_def list_all_iff)

section \<open>One block\<close>

lemma transactions_frame:
  assumes "proposals_ok d" and "apply_transactions S e skip b d = Inr d'"
  shows "proposals_ok d'" and "headed (ledger d') = headed (ledger d)" and "block_summaries d' = block_summaries d"
proof -
  have "proposals_ok d' \<and> headed (ledger d') = headed (ledger d) \<and> block_summaries d' = block_summaries d"
    by (rule foldE_invariant [OF assms(2) [unfolded apply_transactions_def],
        where I = "\<lambda>x. proposals_ok x \<and> headed (ledger x) = headed (ledger d) \<and> block_summaries x = block_summaries d"])
      (use assms(1) transaction_frame(1-3) in \<open>metis\<close>)+
  then show "proposals_ok d'" "headed (ledger d') = headed (ledger d)" "block_summaries d' = block_summaries d" by simp_all
qed

lemma block_parts:
  assumes ok: "proposals_ok d" and run: "apply_block_with S e skip b d = Some (Inr (n, d'))"
  obtains d1 where "merkle_ok e skip b" and "validate_block_header e skip b (ledger d) = Inr (b_miner b)"
    and "apply_transactions S e skip b d = Inr d1" and "proposals_ok d'"
    and "headed (ledger d') = (b_timestamp b, block_id (be_header_hash e) b, block_num b)"
    and "transactions d' = clear_expired_rows (b_timestamp b) (transactions d1)"
    and "t_modify no_unique (summary_slot b) (\<lambda>p. Inr (block_id (be_header_hash e) b)) (block_summaries d1) = Inr (block_summaries d')"
proof -
  from run obtain maint d3 d4 c where 1: "begin_block S e skip b d = Inr (n, maint, d3)"
    and 2: "clear_expired_proposals S (env_with skip e) d3 = Some (Inr d4)"
    and 3: "end_block e maint (ledger d4) = Inr c" and d': "d' = d4\<lparr>ledger := c\<rparr>"
    by (auto simp: apply_block_with_def split: sum.splits option.splits prod.splits)
  from 1 obtain m d1 c1 d2 where h: "merkle_ok e skip b" "validate_block_header e skip b (ledger d) = Inr m"
    and t: "apply_transactions S e skip b d = Inr d1"
    and u: "update_chain S e skip b m maint (ledger d1) = Inr (n, c1)"
    and s: "create_block_summary e b (d1\<lparr>ledger := c1\<rparr>) = Inr d2" and d3: "d3 = clear_expired_transactions d2"
    by (auto simp: begin_block_def Let_def)
  from s obtain bt where bt: "t_modify no_unique (summary_slot b) (\<lambda>p. Inr (block_id (be_header_hash e) b)) (block_summaries d1) = Inr bt"
    and d2: "d2 = d1\<lparr>ledger := c1, block_summaries := bt\<rparr>" by (auto simp: create_block_summary_def)
  have m: "m = b_miner b" using h(2) by (auto simp: validate_block_header_def)
  have ok3: "proposals_ok d3" using transactions_frame(1) [OF ok t] update_chain_headed [OF u] transactions_frame(2) [OF ok t]
    by (simp add: d3 d2 clear_expired_transactions_def proposals_ok_def)
  from clear_expired_returns [OF ok3, of S "env_with skip e"] 2 have ok4: "proposals_ok d4" "outer d4 = outer d3" by auto
  have hd: "headed (ledger d') = (b_timestamp b, block_id (be_header_hash e) b, block_num b)"
    using end_block_headed [OF 3] ok4(2) update_chain_headed [OF u] by (simp add: d' d3 d2 clear_expired_transactions_def outer_def)
  have time: "head_block_time c1 = b_timestamp b" using update_chain_headed [OF u] by (simp add: headed_def head_block_time_def)
  show thesis
  proof (rule that [OF h(1) h(2) [unfolded m] t _ hd])
    show "proposals_ok d'" using ok4(1) by (simp add: d' proposals_ok_def)
    show "transactions d' = clear_expired_rows (b_timestamp b) (transactions d1)"
      using ok4(2) time by (simp add: d' d3 d2 clear_expired_transactions_def outer_def)
    show "t_modify no_unique (summary_slot b) (\<lambda>p. Inr (block_id (be_header_hash e) b)) (block_summaries d1) = Inr (block_summaries d')"
      using ok4(2) bt by (simp add: d' d3 d2 clear_expired_transactions_def outer_def)
  qed
qed

text \<open>
  C6. A block that is applied becomes the head: it builds on the old head and is later, its Merkle root
  is right, its miner is the one scheduled for its slot and signed it (unless these checks are skipped),
  and the head then is the block, with its number and time.
\<close>

theorem block_becomes_head:
  assumes "proposals_ok d" and "apply_block_with S e skip b d = Some (Inr (n, d'))"
  shows "head_block_id (dgpo (ledger d)) = b_previous b \<and> head_block_time (ledger d) < b_timestamp b \<and> merkle_ok e skip b \<and>
    (skips skip skip_miner_signature \<or> (\<exists>m. generic_find (miners (ledger d)) (b_miner b) = Some m \<and> be_signee e b = signing_key m)) \<and>
    (skips skip skip_miner_schedule_check \<or> (\<exists>slot > 0. get_slot_at_time (b_timestamp b) (ledger d) = Inr slot \<and>
       get_scheduled_miner slot (ledger d) = Inr (b_miner b))) \<and>
    head_block_id (dgpo (ledger d')) = block_id (be_header_hash e) b \<and> head_block_num (ledger d') = block_num b \<and>
    head_block_time (ledger d') = b_timestamp b"
proof (rule block_parts [OF assms])
  fix d1
  assume m: "merkle_ok e skip b" and v: "validate_block_header e skip b (ledger d) = Inr (b_miner b)"
    and h: "headed (ledger d') = (b_timestamp b, block_id (be_header_hash e) b, block_num b)"
  from v have "head_block_id (dgpo (ledger d)) = b_previous b" "head_block_time (ledger d) < b_timestamp b"
    "skips skip skip_miner_signature \<or> (\<exists>m. generic_find (miners (ledger d)) (b_miner b) = Some m \<and> be_signee e b = signing_key m)"
    "skips skip skip_miner_schedule_check \<or> (\<exists>slot > 0. get_slot_at_time (b_timestamp b) (ledger d) = Inr slot \<and>
       get_scheduled_miner slot (ledger d) = Inr (b_miner b))"
    by (auto simp: validate_block_header_def validate_signee_def split: if_splits)
  then show ?thesis using m h by (simp add: headed_def head_block_num_def head_block_time_def)
qed

text \<open>
  C18. Applying a block always returns, with a new state or with an error; and the invariant this rests
  on, that no proposal proposes to approve proposals, holds again afterwards.
\<close>

theorem block_application_returns:
  assumes "proposals_ok d"
  shows "\<exists>r. apply_block S e skip b d = Some r \<and> (\<forall>n d'. r = Inr (n, d') \<longrightarrow> proposals_ok d')"
proof -
  have ret: "\<exists>r. apply_block_with S e skip' b d = Some r" for skip'
  proof (cases "begin_block S e skip' b d")
    case (Inr x)
    obtain n maint d3 where x: "x = (n, maint, d3)" by (cases x)
    have "proposals_ok d3"
      using assms Inr x transactions_frame(1) [OF assms]
      by (auto simp: begin_block_def Let_def create_block_summary_def clear_expired_transactions_def proposals_ok_def)
    from clear_expired_returns [OF this, of S "env_with skip' e"] obtain r
      where "clear_expired_proposals S (env_with skip' e) d3 = Some r" by blast
    then show ?thesis using Inr x by (cases r) (auto simp: apply_block_with_def)
  qed (simp add: apply_block_with_def)
  have "proposals_ok d'" if "apply_block_with S e skip' b d = Some (Inr (n, d'))" for skip' n d'
    by (rule block_parts [OF assms that])
  with ret have "\<exists>r. apply_block_with S e skip' b d = Some r \<and> (\<forall>n d'. r = Inr (n, d') \<longrightarrow> proposals_ok d')" for skip' by blast
  then show ?thesis by (cases "checkpoint_skip e skip b") (simp_all add: apply_block_def)
qed

text \<open>
  C40. The application of a block verifies no signature of its transactions: whatever keys are recovered
  from the signatures, and even if none can be, the outcome is the same. (The digests of the Merkle
  root still cover the signatures.)
\<close>

theorem block_signatures_ignored:
  "apply_block S (e\<lparr>be_recover := recover\<rparr>) skip b d = apply_block S e skip b d"
proof -
  let ?e = "e\<lparr>be_recover := recover\<rparr>"
  have env: "env_with skip' ?e = env_with skip' e" for skip' by (simp add: env_with_def)
  have "apply_transaction S ?e (skip' OR skip_transaction_signatures) trx =
      apply_transaction S e (skip' OR skip_transaction_signatures) trx" for skip' trx
    by (rule ext) (simp add: apply_transaction_def record_transaction_def trx_id_def check_reference_def env cong: if_cong)
  then have "apply_transactions S ?e skip' b d0 = apply_transactions S e skip' b d0" for skip' d0
    by (simp add: apply_transactions_def)
  moreover have "merkle_ok ?e skip' b = merkle_ok e skip' b" "validate_block_header ?e skip' b c = validate_block_header e skip' b c"
    "update_chain S ?e skip' b m maint c = update_chain S e skip' b m maint c" "create_block_summary ?e b d0 = create_block_summary e b d0"
    "end_block ?e maint c = end_block e maint c" for skip' c m maint d0
    by (simp_all add: merkle_ok_def validate_block_header_def update_chain_def create_block_summary_def end_block_def cong: if_cong)
  ultimately have "apply_block_with S ?e skip' b d = apply_block_with S e skip' b d" for skip'
    unfolding apply_block_with_def begin_block_def env by presburger
  moreover have "checkpoint_skip ?e skip b = checkpoint_skip e skip b" by (simp add: checkpoint_skip_def Let_def cong: if_cong)
  ultimately show ?thesis by (simp add: apply_block_def cong: sum.case_cong)
qed

section \<open>No transaction twice\<close>

text \<open>The blocks applied one after another, from a database on; none of them with the check for duplicates skipped.\<close>

inductive block_run :: "safe \<Rightarrow> block_env \<Rightarrow> database \<Rightarrow> block list \<Rightarrow> database \<Rightarrow> bool" for S e d0 where
  run_start: "block_run S e d0 [] d0"
| run_block: "block_run S e d0 bs d \<Longrightarrow> \<not> skips skip skip_transaction_dupe_check \<Longrightarrow> block_num b \<noteq> 0 \<Longrightarrow>
    apply_block_with S e skip b d = Some (Inr (n, d')) \<Longrightarrow> block_run S e d0 (bs @ [b]) d'"

text \<open>The id and the expiration of the transactions, in the order of their application.\<close>

definition trx_stamp :: "block_env \<Rightarrow> signed_transaction \<Rightarrow> opaque \<times> time_point_sec" where
  "trx_stamp e trx = (trx_id e trx, trx_expiration trx)"

definition block_stamps :: "block_env \<Rightarrow> block \<Rightarrow> (opaque \<times> time_point_sec) list" where
  "block_stamps e b = map (\<lambda>trx. trx_stamp e (signed_transaction.truncate trx)) (b_transactions b)"

text \<open>Among these transactions an id has one expiration: no collision of the hash.\<close>

definition no_collision :: "(opaque \<times> time_point_sec) list \<Rightarrow> bool" where
  "no_collision hs \<longleftrightarrow> (\<forall>i x y. (i, x) \<in> set hs \<longrightarrow> (i, y) \<in> set hs \<longrightarrow> x = y)"

definition history_ok :: "(opaque \<times> time_point_sec) list \<Rightarrow> database \<Rightarrow> bool" where
  "history_ok hs d \<longleftrightarrow> t_ok (transactions d) \<and> distinct (map fst hs) \<and>
     (\<forall>i x. (i, x) \<in> set hs \<longrightarrow> (\<exists>k. generic_find (transactions d) k = Some \<lparr>to_expiration = x, to_trx_id = i\<rparr>) \<or>
        0 < head_block_num (ledger d) \<and> x < head_block_time (ledger d))"

lemma known_recorded: "generic_find (transactions d) k = Some x \<Longrightarrow> is_known_transaction (to_trx_id x) d"
  unfolding is_known_transaction_def by (rule notI, drule t_find_by_NoneD) auto

lemma transaction_history:
  assumes ok: "proposals_ok d" and h: "history_ok hs d" and run: "apply_transaction S e skip trx d = Inr d'"
    and dupe: "\<not> skips skip skip_transaction_dupe_check" and col: "no_collision (hs @ [trx_stamp e trx])"
  shows "history_ok (hs @ [trx_stamp e trx]) d'"
proof -
  note f = transaction_frame [OF ok run]
  have new: "\<not> is_known_transaction (trx_id e trx) d"
    and live: "0 < head_block_num (ledger d) \<Longrightarrow> head_block_time (ledger d) \<le> trx_expiration trx"
    using run dupe by (auto simp: apply_transaction_def check_expiration_def Let_def)
  have tok: "t_ok (transactions d)" using h by (simp add: history_ok_def)
  have tc: "t_create transaction_key \<lparr>to_expiration = trx_expiration trx, to_trx_id = trx_id e trx\<rparr> (transactions d) = Inr (transactions d')"
    using f(4) dupe by simp
  note c = t_create_law [OF tok tc]
  have "trx_id e trx \<notin> fst ` set hs"
  proof
    assume "trx_id e trx \<in> fst ` set hs"
    then obtain x where x: "(trx_id e trx, x) \<in> set hs" by auto
    then have "x = trx_expiration trx" using col by (auto simp: no_collision_def trx_stamp_def)
    moreover have "\<not> (\<exists>k. generic_find (transactions d) k = Some \<lparr>to_expiration = x, to_trx_id = trx_id e trx\<rparr>)"
      using new known_recorded [of d] by force
    moreover have "0 < head_block_num (ledger d) \<and> x < head_block_time (ledger d)" using h x calculation(2) by (auto simp: history_ok_def)
    ultimately show False using live by simp
  qed
  then have dist: "distinct (map fst (hs @ [trx_stamp e trx]))" using h by (auto simp: history_ok_def trx_stamp_def)
  have fresh: "generic_find (transactions d) (g_next_id (transactions d)) = None" by (rule generic_fresh [OF tok]) simp
  have now: "head_block_num (ledger d') = head_block_num (ledger d)" "head_block_time (ledger d') = head_block_time (ledger d)"
    using f(2) by (simp_all add: headed_def head_block_num_def head_block_time_def)
  have kept: "generic_find (transactions d') k = Some y" if "generic_find (transactions d) k = Some y" for k y
    using that fresh c(2) by auto
  have "(\<exists>k. generic_find (transactions d') k = Some \<lparr>to_expiration = x, to_trx_id = i\<rparr>) \<or>
      0 < head_block_num (ledger d') \<and> x < head_block_time (ledger d')" if "(i, x) \<in> set (hs @ [trx_stamp e trx])" for i x
  proof (cases "(i, x) = trx_stamp e trx")
    case True
    then have "generic_find (transactions d') (g_next_id (transactions d)) = Some \<lparr>to_expiration = x, to_trx_id = i\<rparr>"
      by (simp add: c(2) trx_stamp_def)
    then show ?thesis by blast
  next
    case False
    then have "(i, x) \<in> set hs" using that by simp
    then show ?thesis using h kept unfolding history_ok_def now by blast
  qed
  then show ?thesis using c(1) dist by (simp add: history_ok_def)
qed

lemma transactions_history:
  assumes "foldE (\<lambda>trx. apply_transaction S e skip (signed_transaction.truncate trx)) trxs d = Inr d'"
    and "proposals_ok d" and "history_ok hs d" and "\<not> skips skip skip_transaction_dupe_check"
    and "no_collision (hs @ map (\<lambda>trx. trx_stamp e (signed_transaction.truncate trx)) trxs)"
  shows "history_ok (hs @ map (\<lambda>trx. trx_stamp e (signed_transaction.truncate trx)) trxs) d'"
  using assms
proof (induction trxs arbitrary: d hs)
  case (Cons t trxs)
  let ?t = "signed_transaction.truncate t"
  from Cons.prems(1) obtain d1 where 1: "apply_transaction S e skip ?t d = Inr d1"
    and 2: "foldE (\<lambda>trx. apply_transaction S e skip (signed_transaction.truncate trx)) trxs d1 = Inr d'" by auto
  have "history_ok (hs @ [trx_stamp e ?t]) d1"
    by (rule transaction_history [OF Cons.prems(2,3) 1 Cons.prems(4)]) (use Cons.prems(5) in \<open>auto simp: no_collision_def\<close>)
  from Cons.IH [OF 2 transaction_frame(1) [OF Cons.prems(2) 1] this Cons.prems(4)] show ?case using Cons.prems(5) by simp
qed simp

lemma block_history:
  assumes ok: "proposals_ok d" and h: "history_ok hs d" and run: "apply_block_with S e skip b d = Some (Inr (n, d'))"
    and dupe: "\<not> skips skip skip_transaction_dupe_check" and num: "block_num b \<noteq> 0" and col: "no_collision (hs @ block_stamps e b)"
  shows "history_ok (hs @ block_stamps e b) d'"
proof (rule block_parts [OF ok run])
  fix d1
  assume v: "validate_block_header e skip b (ledger d) = Inr (b_miner b)" and t: "apply_transactions S e skip b d = Inr d1"
    and hd: "headed (ledger d') = (b_timestamp b, block_id (be_header_hash e) b, block_num b)"
    and tr: "transactions d' = clear_expired_rows (b_timestamp b) (transactions d1)"
  have h1: "history_ok (hs @ block_stamps e b) d1"
    unfolding block_stamps_def
    by (rule transactions_history [OF t [unfolded apply_transactions_def] ok h]) (use dupe col in \<open>simp_all add: block_stamps_def\<close>)
  have later: "head_block_time (ledger d1) < b_timestamp b"
    using v transactions_frame(2) [OF ok t] by (auto simp: validate_block_header_def headed_def head_block_time_def)
  have now: "head_block_num (ledger d') = block_num b" "head_block_time (ledger d') = b_timestamp b"
    using hd by (simp_all add: headed_def head_block_num_def head_block_time_def)
  have tok: "t_ok (transactions d1)" using h1 by (simp add: history_ok_def)
  have "(\<exists>k. generic_find (transactions d') k = Some \<lparr>to_expiration = x, to_trx_id = i\<rparr>) \<or> x < b_timestamp b"
    if "(i, x) \<in> set (hs @ block_stamps e b)" for i x
    using that h1 later clear_rows_law(2) [OF tok, of _ "\<lparr>to_expiration = x, to_trx_id = i\<rparr>" "b_timestamp b"]
    unfolding history_ok_def tr by (metis less_trans transaction_object.select_convs(1))
  then show ?thesis using h1 num clear_rows_law(1) [OF tok] by (auto simp: history_ok_def now tr)
qed


section \<open>Transactions refer to their own chain\<close>

text \<open>The block that last wrote a slot of the summaries.\<close>

definition last_in_slot :: "nat \<Rightarrow> block list \<Rightarrow> block option" where
  "last_in_slot k bs = find (\<lambda>b. summary_slot b = k) (rev bs)"

definition summaries_of :: "block_env \<Rightarrow> database \<Rightarrow> block list \<Rightarrow> database \<Rightarrow> bool" where
  "summaries_of e d0 bs d \<longleftrightarrow> t_ok (block_summaries d) \<and> (\<forall>k i. generic_find (block_summaries d) k = Some i \<longrightarrow>
     (case last_in_slot k bs of None \<Rightarrow> generic_find (block_summaries d0) k = Some i | Some b \<Rightarrow> i = block_id (be_header_hash e) b))"

lemma last_in_slot_snoc: "last_in_slot k (bs @ [b]) = (if summary_slot b = k then Some b else last_in_slot k bs)"
  by (simp add: last_in_slot_def)

lemma run_summaries:
  assumes "block_run S e d0 bs d" and "proposals_ok d0" and "t_ok (block_summaries d0)"
  shows "proposals_ok d \<and> summaries_of e d0 bs d"
  using assms(1)
proof induction
  case run_start
  then show ?case using assms(2,3) by (simp add: summaries_of_def last_in_slot_def)
next
  case (run_block bs d skip b n d')
  then have ok: "proposals_ok d" and sum: "summaries_of e d0 bs d" by simp_all
  show ?case
  proof (rule block_parts [OF ok run_block.hyps(4)])
    fix d1
    assume t: "apply_transactions S e skip b d = Inr d1" and ok': "proposals_ok d'"
      and m: "t_modify no_unique (summary_slot b) (\<lambda>p. Inr (block_id (be_header_hash e) b)) (block_summaries d1) = Inr (block_summaries d')"
    have same: "block_summaries d1 = block_summaries d" by (rule transactions_frame(3) [OF ok t])
    have "t_ok (block_summaries d1)" using sum by (simp add: same summaries_of_def)
    from this m show ?thesis
      by (rule t_modify_law) (use sum ok' in \<open>auto simp: summaries_of_def same last_in_slot_snoc split: if_splits\<close>)
  qed
qed

lemma transactions_referenced:
  assumes "foldE (\<lambda>trx. apply_transaction S e skip (signed_transaction.truncate trx)) trxs d = Inr d'"
    and "proposals_ok d" and "\<not> skips skip skip_tapos_check" and "0 < head_block_num (ledger d)" and "trx \<in> set trxs"
  shows "\<exists>i. generic_find (block_summaries d) (ref_block_num trx) = Some i \<and> ref_block_prefix trx = be_prefix e (bid_hash i)"
  using assms
proof (induction trxs arbitrary: d)
  case (Cons t trxs)
  from Cons.prems(1) obtain d1 where 1: "apply_transaction S e skip (signed_transaction.truncate t) d = Inr d1"
    and 2: "foldE (\<lambda>trx. apply_transaction S e skip (signed_transaction.truncate trx)) trxs d1 = Inr d'" by auto
  note f = transaction_frame [OF Cons.prems(2) 1]
  show ?case
  proof (cases "trx = t")
    case True
    then show ?thesis using 1 Cons.prems(3,4)
      by (auto simp: apply_transaction_def check_reference_def signed_transaction.defs)
  next
    case False
    have "0 < head_block_num (ledger d1)" using Cons.prems(4) f(2) by (simp add: headed_def head_block_num_def)
    from Cons.IH [OF 2 f(1) Cons.prems(3) this] show ?thesis using False Cons.prems(5) f(3) by simp
  qed
qed simp

text \<open>
  C17. The transactions of an applied block were made for its chain: unless the check is skipped or the
  block is the first, each names by the last 16 bits of its number and a prefix of its hash the
  latest block of the chain with these bits; only where no block applied so far has them does it match
  what the starting state holds in that place.
\<close>

theorem transactions_refer_to_chain:
  assumes "block_run S e d0 bs d" and "proposals_ok d0" and "t_ok (block_summaries d0)" and "0 < head_block_num (ledger d)"
    and "apply_block_with S e skip b d = Some (Inr (n, d'))" and "\<not> skips skip skip_tapos_check" and "trx \<in> set (b_transactions b)"
  shows "case find (\<lambda>b'. summary_slot b' = ref_block_num trx) (rev bs) of
      Some b' \<Rightarrow> ref_block_prefix trx = be_prefix e (bid_hash (block_id (be_header_hash e) b'))
    | None \<Rightarrow> \<exists>i. generic_find (block_summaries d0) (ref_block_num trx) = Some i \<and> ref_block_prefix trx = be_prefix e (bid_hash i)"
proof -
  note inv = run_summaries [OF assms(1-3)]
  then have ok: "proposals_ok d" by simp
  show ?thesis
  proof (rule block_parts [OF ok assms(5)])
    fix d1
    assume "apply_transactions S e skip b d = Inr d1"
    from transactions_referenced [OF this [unfolded apply_transactions_def] ok _ assms(4,7)] assms(6)
    obtain i where "generic_find (block_summaries d) (ref_block_num trx) = Some i" "ref_block_prefix trx = be_prefix e (bid_hash i)"
      by auto
    with inv show ?thesis by (fastforce simp: summaries_of_def last_in_slot_def split: option.splits)
  qed
qed

end
