(* ===== verification/Chain_Node.thy ===== *)
theory Chain_Node
  imports Fork_Database Block_Database Block_Correct
begin

text \<open>
  The node around the database: pushing of transactions and blocks, switching between forks and
  generating blocks, \<open>db\_block.cpp\<close> and \<open>db\_with.hpp\<close>. The undo database is enabled; it appears here
  as the stack of snapshots that \<open>Undo_Correct\<close> shows its log to stand for.
\<close>

section \<open>State\<close>

text \<open>\<open>n_undo\<close> holds the snapshots, the newest first; \<open>n_pending_session\<close> tells whether the session of the pending transactions is open.\<close>

record node =
  n_db :: database
  n_undo :: "database list"
  n_active :: nat
  n_max_undo :: nat
  n_fork :: "processed_transaction fork_database"
  n_blocks :: block_database
  n_pending_tx :: "processed_transaction list"
  n_pending_session :: bool
  n_popped_tx :: "signed_transaction list"

text \<open>
  Packing of blocks and the sizes of packed transactions and headers, private keys and signing are those
  of \<open>fc\<close>. A transaction or a block that raises has changed the database by then: the results of
  \<open>process_transaction\<close> and \<open>apply_block\<close> do not tell how, so that the state at the exception is an
  arbitrary function of the environment, \<open>ne_partial_trx\<close> and \<open>ne_partial_block\<close>. It is for the
  sessions to take it back, whatever it is.
\<close>

record node_env =
  ne_block :: block_env
  ne_pack :: "block \<Rightarrow> bytes"
  ne_unpack :: "bytes \<Rightarrow> block res"
  ne_trx_size :: "signed_transaction \<Rightarrow> nat"
  ne_ptrx_size :: "processed_transaction \<Rightarrow> nat"
  ne_header_size :: nat
  ne_public_key :: "opaque \<Rightarrow> opaque"
  ne_sign :: "opaque \<Rightarrow> block \<Rightarrow> opaque"
  ne_partial_trx :: "signed_transaction \<Rightarrow> database \<Rightarrow> database"
  ne_partial_block :: "block \<Rightarrow> database \<Rightarrow> database"

abbreviation node_hash :: "node_env \<Rightarrow> block \<Rightarrow> opaque" where
  "node_hash e \<equiv> be_header_hash (ne_block e)"

abbreviation head_id :: "node \<Rightarrow> block_id_type" where
  "head_id n \<equiv> head_block_id (dgpo (ledger (n_db n)))"

text \<open>A step returns a value or raises, and leaves the node in a state either way.\<close>

type_synonym 'a step = "node \<Rightarrow> 'a res \<times> node"

definition then_do :: "'a step \<Rightarrow> ('a \<Rightarrow> 'b step) \<Rightarrow> 'b step" where
  "then_do m f n = (case m n of (Inl err, n1) \<Rightarrow> (Inl err, n1) | (Inr x, n1) \<Rightarrow> f x n1)"

definition change :: "(node \<Rightarrow> node res) \<Rightarrow> unit step" where
  "change f n = (case f n of Inl err \<Rightarrow> (Inl err, n) | Inr n1 \<Rightarrow> (Inr (), n1))"

section \<open>Sessions\<close>

definition start_session :: "node \<Rightarrow> node" where
  "start_session n = n\<lparr>n_undo := n_db n # take (n_max_undo n) (n_undo n), n_active := Suc (n_active n)\<rparr>"

definition undo_session :: "node \<Rightarrow> node res" where
  "undo_session n =
     bindE (require (0 < n_active n) Assert_Exception) (\<lambda>_.
     case n_undo n of
       [] \<Rightarrow> Inl Undefined_Behaviour
     | d # ds \<Rightarrow> Inr (n\<lparr>n_db := d, n_undo := (if ds = [] then [d] else ds), n_active := n_active n - 1\<rparr>))"

definition merge_session :: "node \<Rightarrow> node res" where
  "merge_session n =
     bindE (require (0 < n_active n \<and> 2 \<le> length (n_undo n)) Assert_Exception) (\<lambda>_.
     Inr (n\<lparr>n_undo := tl (n_undo n), n_active := n_active n - 1\<rparr>))"

definition commit_session :: "node \<Rightarrow> node res" where
  "commit_session n =
     bindE (require (0 < n_active n) Assert_Exception) (\<lambda>_. Inr (n\<lparr>n_active := n_active n - 1\<rparr>))"

definition pop_undo :: "node \<Rightarrow> node res" where
  "pop_undo n =
     bindE (require (n_active n = 0) Assert_Exception) (\<lambda>_.
     case n_undo n of [] \<Rightarrow> Inl Assert_Exception | d # ds \<Rightarrow> Inr (n\<lparr>n_db := d, n_undo := ds\<rparr>))"

text \<open>
  The end of the scope of a session: merged or committed, or undone by the destructor when an
  exception leaves the scope. An exception of the destructor itself ends the program.
\<close>

definition leave_session :: "(node \<Rightarrow> node res) \<Rightarrow> 'a res \<Rightarrow> 'a step" where
  "leave_session finish r n =
     (let abort = (\<lambda>err. if err = Undefined_Behaviour then (Inl err, n)
                     else case undo_session n of Inl _ \<Rightarrow> (Inl Undefined_Behaviour, n) | Inr n1 \<Rightarrow> (Inl err, n1))
      in case r of
           Inl err \<Rightarrow> abort err
         | Inr x \<Rightarrow> (case finish n of Inl err \<Rightarrow> abort err | Inr n1 \<Rightarrow> (Inr x, n1)))"

section \<open>Pending transactions\<close>

definition reset_pending :: "node \<Rightarrow> node res" where
  "reset_pending n = bindE (if n_pending_session n then undo_session n else Inr n) (\<lambda>n1. Inr (n1\<lparr>n_pending_session := False\<rparr>))"

definition clear_pending :: "node \<Rightarrow> node res" where
  "clear_pending n = reset_pending (n\<lparr>n_pending_tx := []\<rparr>)"

definition open_pending :: "node \<Rightarrow> node" where
  "open_pending n = (if n_pending_session n then n else (start_session n)\<lparr>n_pending_session := True\<rparr>)"

definition apply_in_session :: "safe \<Rightarrow> node_env \<Rightarrow> skip_flags \<Rightarrow> signed_transaction \<Rightarrow> processed_transaction step" where
  "apply_in_session S e skip trx n =
     (case process_transaction S (ne_block e) skip trx (n_db n) of
        Inl err \<Rightarrow> (Inl err, n\<lparr>n_db := ne_partial_trx e trx (n_db n)\<rparr>)
      | Inr (ptrx, d) \<Rightarrow> (Inr ptrx, n\<lparr>n_db := d\<rparr>))"

definition keep_pending :: "processed_transaction \<Rightarrow> processed_transaction step" where
  "keep_pending ptrx n = (Inr ptrx, n\<lparr>n_pending_tx := n_pending_tx n @ [ptrx]\<rparr>)"

text \<open>\<open>\_push\_transaction\<close> and \<open>push\_transaction\<close>.\<close>

definition push_transaction_inner :: "safe \<Rightarrow> node_env \<Rightarrow> skip_flags \<Rightarrow> signed_transaction \<Rightarrow> processed_transaction step" where
  "push_transaction_inner S e skip trx n =
     (let (r, n1) = then_do (apply_in_session S e skip trx) keep_pending (start_session (open_pending n))
      in leave_session merge_session r n1)"

definition push_transaction :: "safe \<Rightarrow> node_env \<Rightarrow> skip_flags \<Rightarrow> signed_transaction \<Rightarrow> processed_transaction step" where
  "push_transaction S e skip trx n =
     (if ne_trx_size e trx \<le> maximum_transaction_size (parameters (gpo (ledger (n_db n))))
      then push_transaction_inner S e skip trx n else (Inl Assert_Exception, n))"

text \<open>The session of \<open>validate\_transaction\<close> is undone at its end in any case.\<close>

definition validate_transaction :: "safe \<Rightarrow> node_env \<Rightarrow> skip_flags \<Rightarrow> signed_transaction \<Rightarrow> processed_transaction step" where
  "validate_transaction S e skip trx n =
     (let (r, n1) = apply_in_session S e skip trx (start_session n)
      in if r = Inl Undefined_Behaviour then (r, n1)
         else case undo_session n1 of Inl _ \<Rightarrow> (Inl Undefined_Behaviour, n1) | Inr n2 \<Rightarrow> (r, n2))"

text \<open>The destructor of \<open>pending\_transactions\_restorer\<close>.\<close>

definition restore_transaction :: "safe \<Rightarrow> node_env \<Rightarrow> skip_flags \<Rightarrow> signed_transaction \<Rightarrow> node \<Rightarrow> node res" where
  "restore_transaction S e skip trx n =
     (if is_known_transaction (trx_id (ne_block e) trx) (n_db n) then Inr n
      else let (r, n1) = push_transaction_inner S e skip trx n
           in if r = Inl Undefined_Behaviour then Inl Undefined_Behaviour else Inr n1)"

definition restore_pending :: "safe \<Rightarrow> node_env \<Rightarrow> skip_flags \<Rightarrow> processed_transaction list \<Rightarrow> node \<Rightarrow> node res" where
  "restore_pending S e skip pending n =
     bindE (foldE (restore_transaction S e skip) (n_popped_tx n) n) (\<lambda>n1.
     foldE (restore_transaction S e skip) (map signed_transaction.truncate pending) (n1\<lparr>n_popped_tx := []\<rparr>))"

section \<open>Blocks of the chain\<close>

definition fetch_block_by_id :: "node_env \<Rightarrow> block_id_type \<Rightarrow> node \<Rightarrow> block option" where
  "fetch_block_by_id e i n =
     (case fork_fetch_block i (n_fork n) of
        None \<Rightarrow> bd_fetch_optional (node_hash e) (ne_unpack e) i (n_blocks n)
      | Some p \<Rightarrow> Some (fi_data (item (n_fork n) p)))"

definition is_known_block :: "block_id_type \<Rightarrow> node \<Rightarrow> bool" where
  "is_known_block i n \<longleftrightarrow> fork_is_known_block i (n_fork n) \<or> bd_contains i (n_blocks n)"

definition get_block_id_for_num :: "nat \<Rightarrow> node \<Rightarrow> block_id_type res" where
  "get_block_id_for_num k n = bd_fetch_block_id k (n_blocks n)"

definition node_block_by_number :: "node_env \<Rightarrow> nat \<Rightarrow> node \<Rightarrow> block option" where
  "node_block_by_number e k n =
     (case fetch_block_by_number k (n_fork n) of
        [p] \<Rightarrow> Some (fi_data (item (n_fork n) p))
      | _ \<Rightarrow> bd_fetch_by_number (node_hash e) (ne_unpack e) k (n_blocks n))"

text \<open>
  \<open>fork\_database::pop\_block\<close> while some items are held by the branches of a switch: a weak pointer to
  one of them can be locked even when no index has it any more.
\<close>

definition fork_pop_held :: "nat list \<Rightarrow> 'tx fork_database \<Rightarrow> 'tx fork_database res" where
  "fork_pop_held held fd =
     bindE (lift_opt Assert_Exception (fd_head fd)) (\<lambda>h.
     bindE (lift_opt Assert_Exception (fi_prev (item fd h))) (\<lambda>q.
     bindE (require (alive fd q \<or> q \<in> set held) Assert_Exception) (\<lambda>_.
     Inr (fd\<lparr>fd_head := Some q\<rparr>))))"

definition fork_pop :: "nat list \<Rightarrow> node \<Rightarrow> node res" where
  "fork_pop held n = bindE (fork_pop_held held (n_fork n)) (\<lambda>fd. Inr (n\<lparr>n_fork := fd\<rparr>))"

definition forget_block :: "block_id_type \<Rightarrow> node \<Rightarrow> node res" where
  "forget_block i n = bindE (bd_remove i (n_blocks n)) (\<lambda>bd. Inr (n\<lparr>n_blocks := bd\<rparr>))"

definition pop_block :: "node_env \<Rightarrow> nat list \<Rightarrow> unit step" where
  "pop_block e held =
     then_do (change reset_pending) (\<lambda>_ n.
       case fetch_block_by_id e (head_id n) n of
         None \<Rightarrow> (Inl Pop_Empty_Chain, n)
       | Some b \<Rightarrow>
           then_do (change (fork_pop held)) (\<lambda>_.
           then_do (change (forget_block (head_id n))) (\<lambda>_.
           then_do (change pop_undo) (\<lambda>_.
           change (\<lambda>n1. Inr (n1\<lparr>n_popped_tx := map signed_transaction.truncate (b_transactions b) @ n_popped_tx n1\<rparr>))))) n)"

lemma then_do_Inr: "then_do m f n = (Inr y, n') \<longleftrightarrow> (\<exists>x n1. m n = (Inr x, n1) \<and> f x n1 = (Inr y, n'))"
  by (auto simp: then_do_def split: prod.splits sum.splits)

lemma change_Inr: "change f n = (Inr u, n') \<longleftrightarrow> f n = Inr n'"
  by (auto simp: change_def split: sum.splits)

lemma undo_session_Inr: "undo_session n = Inr n' \<longleftrightarrow> 0 < n_active n \<and> (\<exists>d ds. n_undo n = d # ds \<and>
  n' = n\<lparr>n_db := d, n_undo := (if ds = [] then [d] else ds), n_active := n_active n - 1\<rparr>)"
  by (cases "n_undo n") (auto simp: undo_session_def)

lemma pop_undo_Inr: "pop_undo n = Inr n' \<longleftrightarrow> n_active n = 0 \<and> (\<exists>d ds. n_undo n = d # ds \<and> n' = n\<lparr>n_db := d, n_undo := ds\<rparr>)"
  by (cases "n_undo n") (auto simp: pop_undo_def)

lemma pop_block_Inr:
  assumes "pop_block e held n = (Inr u, n')"
  obtains n1 b fd bd d ds where "reset_pending n = Inr n1" and "fetch_block_by_id e (head_id n1) n1 = Some b"
    and "fork_pop_held held (n_fork n1) = Inr fd" and "bd_remove (head_id n1) (n_blocks n1) = Inr bd"
    and "n_active n1 = 0" and "n_undo n1 = d # ds"
    and "n' = n1\<lparr>n_fork := fd, n_blocks := bd, n_db := d, n_undo := ds, n_popped_tx := map signed_transaction.truncate (b_transactions b) @ n_popped_tx n1\<rparr>"
  using assms
  by (auto simp: pop_block_def then_do_Inr change_Inr pop_undo_Inr fork_pop_def forget_block_def split: option.splits)

lemma pop_block_shrinks: "pop_block e held n = (Inr u, n') \<Longrightarrow> length (n_undo n') < length (n_undo n)"
  by (erule pop_block_Inr) (auto simp: reset_pending_def undo_session_Inr split: if_splits)

text \<open>The loop that pops blocks until a given block is the head.\<close>

function pop_until :: "node_env \<Rightarrow> nat list \<Rightarrow> block_id_type \<Rightarrow> unit step" where
  "pop_until e held i n =
     (if head_id n = i then (Inr (), n)
      else case pop_block e held n of (Inl err, n1) \<Rightarrow> (Inl err, n1) | (Inr u, n1) \<Rightarrow> pop_until e held i n1)"
  by pat_completeness auto
termination
  by (relation "measure (\<lambda>(e, held, i, n). length (n_undo n))") (auto dest: pop_block_shrinks [OF sym])

declare pop_until.simps [simp del]

text \<open>
  \<open>close\<close>: the blocks down to the last irreversible one are popped, as far as the history goes; every
  exception ends the loop. Flushing and closing the files is not part of the state.
\<close>

definition forget_popped :: "block_id_type \<Rightarrow> node \<Rightarrow> node" where
  "forget_popped i n =
     (let n1 = n\<lparr>n_fork := fork_remove i (n_fork n)\<rparr>
      in case bd_remove i (n_blocks n1) of Inl err \<Rightarrow> n1 | Inr bd \<Rightarrow> n1\<lparr>n_blocks := bd\<rparr>)"

lemma forget_popped_same [simp]: "n_undo (forget_popped i n) = n_undo n" "n_db (forget_popped i n) = n_db n"
  by (simp_all add: forget_popped_def Let_def split: sum.splits)

function rewind :: "node_env \<Rightarrow> nat \<Rightarrow> node \<Rightarrow> node" where
  "rewind e cutoff n =
     (if head_block_num (ledger (n_db n)) \<le> cutoff then n
      else case pop_block e [] n of (Inl err, n1) \<Rightarrow> n1 | (Inr u, n1) \<Rightarrow> rewind e cutoff (forget_popped (head_id n) n1))"
  by pat_completeness auto
termination
  by (relation "measure (\<lambda>(e, cutoff, n). length (n_undo n))") (auto dest: pop_block_shrinks [OF sym])

declare rewind.simps [simp del]

definition close_database :: "node_env \<Rightarrow> bool \<Rightarrow> node \<Rightarrow> node res" where
  "close_database e rewinds n =
     bindE (clear_pending n) (\<lambda>n1.
     bindE (clear_pending (if rewinds then rewind e (last_irreversible_block_num (dgpo (ledger (n_db n1)))) n1 else n1)) (\<lambda>n2.
     Inr (n2\<lparr>n_fork := fork_reset (n_fork n2)\<rparr>)))"

definition get_block_ids_on_fork :: "block_id_type \<Rightarrow> node \<Rightarrow> block_id_type list res option" where
  "get_block_ids_on_fork head_of_fork n =
     map_option (\<lambda>r. bindE r (\<lambda>(first, second).
         Inr (map (\<lambda>p. fi_id (item (n_fork n) p)) second @ [previous_id (item (n_fork n) (last first))])))
       (fetch_branch_from (head_id n) head_of_fork (n_fork n))"

section \<open>Pushing blocks\<close>

text \<open>
  From here on a step may fail to return: \<open>None\<close>. A block that fails leaves the database as it was when
  it raised; the new size of the histories stays.
\<close>

type_synonym 'a block_step = "node \<Rightarrow> ('a res \<times> node) option"

definition set_history :: "nat option \<Rightarrow> node \<Rightarrow> node" where
  "set_history s n =
     (case s of None \<Rightarrow> n | Some k \<Rightarrow> n\<lparr>n_max_undo := k, n_fork := fork_set_max_size k (n_fork n)\<rparr>)"

definition apply_block_step :: "safe \<Rightarrow> node_env \<Rightarrow> skip_flags \<Rightarrow> block \<Rightarrow> unit block_step" where
  "apply_block_step S e skip b n =
     (let n1 = set_history (history_size S (ne_block e) skip b (n_db n)) n
      in map_option (\<lambda>r. case r of Inl err \<Rightarrow> (Inl err, n1\<lparr>n_db := ne_partial_block e b (n_db n)\<rparr>) | Inr (k, d) \<Rightarrow> (Inr (), n1\<lparr>n_db := d\<rparr>))
           (apply_block S (ne_block e) skip b (n_db n)))"

definition store_block :: "node_env \<Rightarrow> block_id_type \<Rightarrow> block \<Rightarrow> node \<Rightarrow> node" where
  "store_block e i b n = n\<lparr>n_blocks := bd_store (node_hash e) (ne_pack e) i b (n_blocks n)\<rparr>"

text \<open>A block applied in a session of its own, stored and committed.\<close>

definition append_block :: "safe \<Rightarrow> node_env \<Rightarrow> skip_flags \<Rightarrow> block_id_type \<Rightarrow> block \<Rightarrow> unit block_step" where
  "append_block S e skip i b n =
     map_option (\<lambda>(r, n1). leave_session commit_session r (case r of Inl err \<Rightarrow> n1 | Inr u \<Rightarrow> store_block e i b n1))
       (apply_block_step S e skip b (start_session n))"

text \<open>The blocks of the new branch, up to the first one that fails; it and the rest are returned with its error.\<close>

fun push_branch ::
  "safe \<Rightarrow> node_env \<Rightarrow> skip_flags \<Rightarrow> processed_transaction fork_item list \<Rightarrow> node \<Rightarrow>
    ((err \<times> processed_transaction fork_item list) option \<times> node) option" where
  "push_branch S e skip [] n = Some (None, n)"
| "push_branch S e skip (x # xs) n =
     (case append_block S e skip (fi_id x) (fi_data x) n of
        None \<Rightarrow> None
      | Some (Inl err, n1) \<Rightarrow> Some (Some (err, x # xs), n1)
      | Some (Inr u, n1) \<Rightarrow> push_branch S e skip xs n1)"

text \<open>The blocks of the old branch again: all of them are stored under the id of the new block.\<close>

fun restore_branch ::
  "safe \<Rightarrow> node_env \<Rightarrow> skip_flags \<Rightarrow> block_id_type \<Rightarrow> processed_transaction fork_item list \<Rightarrow> unit block_step" where
  "restore_branch S e skip i [] n = Some (Inr (), n)"
| "restore_branch S e skip i (x # xs) n =
     (case append_block S e skip i (fi_data x) n of
        None \<Rightarrow> None
      | Some (Inl err, n1) \<Rightarrow> Some (Inl err, n1)
      | Some (Inr u, n1) \<Rightarrow> restore_branch S e skip i xs n1)"

definition drop_items :: "node_env \<Rightarrow> processed_transaction fork_item list \<Rightarrow> processed_transaction fork_database \<Rightarrow> processed_transaction fork_database" where
  "drop_items e xs fd = fold (\<lambda>x. fork_remove (block_id (node_hash e) (fi_data x))) xs fd"

definition abandon_branch ::
  "safe \<Rightarrow> node_env \<Rightarrow> skip_flags \<Rightarrow> block \<Rightarrow> nat list \<Rightarrow> nat list \<Rightarrow> err \<times> processed_transaction fork_item list \<Rightarrow> bool block_step" where
  "abandon_branch S e skip b first second fault n =
     (let good = map (item (n_fork n)) second;
          n1 = n\<lparr>n_fork := fork_set_head (Some (hd second)) (drop_items e (snd fault) (n_fork n))\<rparr>
      in case pop_until e (first @ second) (previous_id (last good)) n1 of
           (Inl err, n2) \<Rightarrow> Some (Inl err, n2)
         | (Inr u, n2) \<Rightarrow>
             (case restore_branch S e skip (block_id (node_hash e) b) (rev good) n2 of
                None \<Rightarrow> None
              | Some (Inl err, n3) \<Rightarrow> Some (Inl err, n3)
              | Some (Inr u, n3) \<Rightarrow> Some (Inl (fst fault), n3)))"

definition switch_branch :: "safe \<Rightarrow> node_env \<Rightarrow> skip_flags \<Rightarrow> block \<Rightarrow> nat list \<Rightarrow> nat list \<Rightarrow> bool block_step" where
  "switch_branch S e skip b first second n =
     (let fresh = map (item (n_fork n)) first; good = map (item (n_fork n)) second
      in case pop_until e (first @ second) (previous_id (last good)) n of
           (Inl err, n1) \<Rightarrow> Some (Inl err, n1)
         | (Inr u, n1) \<Rightarrow>
             (case push_branch S e skip (rev fresh) n1 of
                None \<Rightarrow> None
              | Some (None, n2) \<Rightarrow> Some (Inr True, n2)
              | Some (Some fault, n2) \<Rightarrow>
                  if fst fault = Undefined_Behaviour then Some (Inl Undefined_Behaviour, n2)
                  else abandon_branch S e skip b first second fault n2))"

definition switch_fork :: "safe \<Rightarrow> node_env \<Rightarrow> skip_flags \<Rightarrow> block \<Rightarrow> block_id_type \<Rightarrow> bool block_step" where
  "switch_fork S e skip b i n =
     (case fetch_branch_from i (head_id n) (n_fork n) of
        None \<Rightarrow> None
      | Some (Inl err) \<Rightarrow> Some (Inl err, n)
      | Some (Inr (first, second)) \<Rightarrow> switch_branch S e skip b first second n)"

text \<open>
  A block on top of the head. The second session is for what the plugins write when they are told of
  the operations; it is merged whether they raise or not.
\<close>

definition extend_chain :: "safe \<Rightarrow> node_env \<Rightarrow> skip_flags \<Rightarrow> block \<Rightarrow> bool block_step" where
  "extend_chain S e skip b n =
     (case append_block S e skip (block_id (node_hash e) b) b n of
        None \<Rightarrow> None
      | Some (Inl err, n1) \<Rightarrow>
          Some (Inl err, if err = Undefined_Behaviour then n1
                         else n1\<lparr>n_fork := fork_remove (block_id (node_hash e) b) (n_fork n1)\<rparr>)
      | Some (Inr u, n1) \<Rightarrow> Some (leave_session merge_session (Inr False) (start_session n1)))"

text \<open>\<open>\_push\_block\<close>: it returns whether the node has switched to another branch.\<close>

definition push_block_inner :: "safe \<Rightarrow> node_env \<Rightarrow> skip_flags \<Rightarrow> block \<Rightarrow> bool block_step" where
  "push_block_inner S e skip b n =
     (if skips skip skip_fork_db then extend_chain S e skip b n
      else case fork_push_block (node_hash e) b (n_fork n) of
             Inl err \<Rightarrow> Some (Inl err, n)
           | Inr (None, fd) \<Rightarrow> Some (Inl Undefined_Behaviour, n\<lparr>n_fork := fd\<rparr>)
           | Inr (Some h, fd) \<Rightarrow>
               (let n1 = n\<lparr>n_fork := fd\<rparr>; new_head = fi_data (item fd h)
                in if b_previous new_head = head_id n1 then extend_chain S e skip b n1
                   else if head_block_num (ledger (n_db n1)) < block_num new_head
                   then switch_fork S e skip b (block_id (node_hash e) new_head) n1
                   else Some (Inr False, n1)))"

text \<open>The pending transactions are taken away first and pushed again at the end, behind those of popped blocks.\<close>

definition push_block :: "safe \<Rightarrow> node_env \<Rightarrow> skip_flags \<Rightarrow> block \<Rightarrow> bool block_step" where
  "push_block S e skip b n =
     (case clear_pending n of
        Inl err \<Rightarrow> Some (Inl err, n\<lparr>n_pending_tx := []\<rparr>)
      | Inr n0 \<Rightarrow>
          (case push_block_inner S e skip b n0 of
             None \<Rightarrow> None
           | Some (r, n1) \<Rightarrow>
               if r = Inl Undefined_Behaviour then Some (r, n1)
               else Some (case restore_pending S e skip (n_pending_tx n) n1 of
                            Inl err \<Rightarrow> (Inl err, n1) | Inr n2 \<Rightarrow> (r, n2))))"

section \<open>Generating a block\<close>

definition check_producer :: "node_env \<Rightarrow> skip_flags \<Rightarrow> time_point_sec \<Rightarrow> nat \<Rightarrow> opaque \<Rightarrow> chain \<Rightarrow> unit res" where
  "check_producer e skip time miner key c =
     bindE (get_slot_at_time time c) (\<lambda>slot_num.
     bindE (require (0 < slot_num) Assert_Exception) (\<lambda>_.
     bindE (get_scheduled_miner slot_num c) (\<lambda>scheduled_miner.
     bindE (require (scheduled_miner = miner) Assert_Exception) (\<lambda>_.
     bindE (t_get (miners c) miner) (\<lambda>miner_obj.
     if \<not> skips skip skip_miner_signature then require (signing_key miner_obj = ne_public_key e key) Assert_Exception
     else Inr ())))))"

text \<open>One pending transaction: postponed when the block would get too big, left out when it fails.\<close>

definition include_transaction ::
  "safe \<Rightarrow> node_env \<Rightarrow> skip_flags \<Rightarrow> nat \<Rightarrow> processed_transaction \<Rightarrow>
    nat \<times> processed_transaction list \<times> node \<Rightarrow> (nat \<times> processed_transaction list \<times> node) res" where
  "include_transaction S e skip maximum tx acc =
     (case acc of (total_size, txs, n) \<Rightarrow>
        if maximum \<le> total_size + ne_ptrx_size e tx then Inr acc
        else (let (r, n1) = apply_in_session S e skip (signed_transaction.truncate tx) (start_session n);
                  (r1, n2) = leave_session merge_session r n1
              in (case r1 of
                    Inl err \<Rightarrow> if err = Undefined_Behaviour then Inl err else Inr (total_size, txs, n2)
                  | Inr ptx \<Rightarrow> Inr (total_size + ne_ptrx_size e ptx, txs @ [ptx], n2))))"

definition assemble_block ::
  "node_env \<Rightarrow> skip_flags \<Rightarrow> time_point_sec \<Rightarrow> nat \<Rightarrow> opaque \<Rightarrow> processed_transaction list \<Rightarrow> block_id_type \<Rightarrow> block" where
  "assemble_block e skip time miner key txs previous =
     (let be = ne_block e;
          b = \<lparr>b_previous = previous, b_timestamp = time, b_miner = miner, b_transaction_merkle_root = null_checksum,
               b_miner_signature = 0, b_transactions = txs\<rparr>;
          b1 = b\<lparr>b_transaction_merkle_root := calculate_merkle_root (be_hash_pair be) (be_hash_root be) null_checksum (be_merkle_digest be) b\<rparr>
      in if \<not> skips skip skip_miner_signature then b1\<lparr>b_miner_signature := ne_sign e key b1\<rparr> else b1)"

definition collect_transactions :: "safe \<Rightarrow> node_env \<Rightarrow> skip_flags \<Rightarrow> node \<Rightarrow> (processed_transaction list \<times> node) res" where
  "collect_transactions S e skip n =
     bindE (reset_pending n) (\<lambda>n1.
     bindE (foldE (include_transaction S e skip (maximum_block_size (parameters (gpo (ledger (n_db n))))))
              (n_pending_tx n) (ne_header_size e + 4, [], open_pending n1)) (\<lambda>(total_size, txs, n2).
     bindE (reset_pending n2) (\<lambda>n3.
     Inr (txs, n3))))"

definition generate_block :: "safe \<Rightarrow> node_env \<Rightarrow> skip_flags \<Rightarrow> time_point_sec \<Rightarrow> nat \<Rightarrow> opaque \<Rightarrow> block block_step" where
  "generate_block S e skip time miner key n =
     (case check_producer e skip time miner key (ledger (n_db n)) of
        Inl err \<Rightarrow> Some (Inl err, n)
      | Inr u \<Rightarrow>
          (case collect_transactions S e skip n of
             Inl err \<Rightarrow> Some (Inl err, n)
           | Inr (txs, n1) \<Rightarrow>
               (let b = assemble_block e skip time miner key txs (head_id n1)
                in if \<not> skips skip skip_block_size_check \<and> maximum_block_size (parameters (gpo (ledger (n_db n1)))) < length (ne_pack e b)
                   then Some (Inl Assert_Exception, n1)
                   else (case push_block S e skip b n1 of
                           None \<Rightarrow> None
                         | Some (Inl err, n2) \<Rightarrow> Some (Inl err, n2)
                         | Some (Inr r, n2) \<Rightarrow> Some (Inr b, n2)))))"

end
