(* ===== verification/Chain_Node_Correct.thy ===== *)
theory Chain_Node_Correct
  imports Chain_Node
begin

text \<open>
  What the node promises: pending transactions are applied on top of the state of the head and taken
  away without a trace, blocks that fail are unwound, and a fork switch leads to the state that the
  blocks of the new branch give.
\<close>

section \<open>The pending transactions\<close>

inductive pending_run :: "safe \<Rightarrow> block_env \<Rightarrow> database \<Rightarrow> processed_transaction list \<Rightarrow> database \<Rightarrow> bool" for S e d0 where
  pending_none: "pending_run S e d0 [] d0"
| pending_one: "pending_run S e d0 txs d \<Longrightarrow> process_transaction S e skip trx d = Inr (ptx, d') \<Longrightarrow> pending_run S e d0 (txs @ [ptx]) d'"

text \<open>The state of the head block, without the pending transactions.\<close>

definition head_state :: "node \<Rightarrow> database" where
  "head_state n = (if n_pending_session n then hd (n_undo n) else n_db n)"

definition node_ok :: "safe \<Rightarrow> node_env \<Rightarrow> node \<Rightarrow> bool" where
  "node_ok S e n \<longleftrightarrow> n_active n = (if n_pending_session n then 1 else 0) \<and> (n_pending_session n \<longrightarrow> n_undo n \<noteq> []) \<and>
     (\<not> n_pending_session n \<longrightarrow> n_pending_tx n = []) \<and> pending_run S (ne_block e) (head_state n) (n_pending_tx n) (n_db n)"

text \<open>Enough to push a block: the session of the pending transactions, if there is one, is the only one.\<close>

definition sessions_ok :: "node \<Rightarrow> bool" where
  "sessions_ok n \<longleftrightarrow> n_active n = (if n_pending_session n then 1 else 0) \<and> (n_pending_session n \<longrightarrow> n_undo n \<noteq> [])"

lemma ok_sessions: "node_ok S e n \<Longrightarrow> sessions_ok n"
  by (simp add: node_ok_def sessions_ok_def)

text \<open>No pending transactions and no open session.\<close>

definition node_clean :: "node \<Rightarrow> bool" where
  "node_clean n \<longleftrightarrow> \<not> n_pending_session n \<and> n_active n = 0 \<and> n_pending_tx n = []"

lemma clean_ok: "node_clean n \<Longrightarrow> node_ok S e n" "node_clean n \<Longrightarrow> head_state n = n_db n"
  by (auto simp: node_clean_def node_ok_def head_state_def intro: pending_none)

text \<open>
  The saved states behind the head. Each was made from the one before by a block, or is the same (a
  session that is undone on an empty history leaves the present state there).
\<close>

definition past :: "node \<Rightarrow> database list" where
  "past n = (if n_pending_session n then tl (n_undo n) else n_undo n)"

definition block_follows :: "safe \<Rightarrow> node_env \<Rightarrow> database \<Rightarrow> database \<Rightarrow> bool" where
  "block_follows S e d' d \<longleftrightarrow> d' = d \<or> (\<exists>skip b k. apply_block S (ne_block e) skip b d = Some (Inr (k, d')))"

definition past_ok :: "safe \<Rightarrow> node_env \<Rightarrow> node \<Rightarrow> bool" where
  "past_ok S e n \<longleftrightarrow> successively (block_follows S e) (head_state n # past n)"

lemma follows_refl [simp]: "block_follows S e d d"
  by (simp add: block_follows_def)

lemma successively_take: "successively P xs \<Longrightarrow> successively P (take k xs)"
  using successively_append_iff [of P "take k xs" "drop k xs"] by simp

lemma successively_trim: "successively P (d # xs) \<Longrightarrow> successively P (d # take k xs)"
  using successively_take [of P "d # xs" "Suc k"] by simp

definition recent :: "node \<Rightarrow> node \<Rightarrow> bool" where
  "recent n n' \<longleftrightarrow> (\<exists>k. past n' = take k (past n) \<or> past n' = take k [head_state n])"

text \<open>What pushing transactions leaves alone.\<close>

definition same_chain :: "node \<Rightarrow> node \<Rightarrow> bool" where
  "same_chain n n' \<longleftrightarrow> head_state n' = head_state n \<and> n_fork n' = n_fork n \<and> n_blocks n' = n_blocks n \<and>
     n_max_undo n' = n_max_undo n \<and> recent n n'"

lemma recent_refl [simp]: "recent n n"
  unfolding recent_def by (rule exI [of _ "length (past n)"]) simp

lemma recent_trans:
  assumes "recent n n1" and "recent n1 n2" and "head_state n1 = head_state n"
  shows "recent n n2"
  using assms by (auto simp: recent_def take_take simp del: take_Suc_Cons)

lemma same_chain_refl [simp]: "same_chain n n"
  by (simp add: same_chain_def)

lemma same_chain_trans: "same_chain n n1 \<Longrightarrow> same_chain n1 n2 \<Longrightarrow> same_chain n n2"
  using recent_trans by (auto simp: same_chain_def)

lemma same_chain_history:
  assumes "same_chain n n'" and "past_ok S e n"
  shows "past_ok S e n'"
proof -
  have h: "head_state n' = head_state n" using assms(1) by (simp add: same_chain_def)
  from assms(1) obtain k where "past n' = take k (past n) \<or> past n' = take k [head_state n]" by (auto simp: same_chain_def recent_def)
  then show ?thesis
  proof
    assume "past n' = take k (past n)"
    then show ?thesis using assms(2) successively_trim by (simp add: past_ok_def h)
  next
    assume "past n' = take k [head_state n]"
    then show ?thesis by (cases k) (simp_all add: past_ok_def h)
  qed
qed

lemma same_chain_pending [simp]: "same_chain n (n\<lparr>n_popped_tx := txs\<rparr>)"
  unfolding same_chain_def recent_def
  by (auto simp: head_state_def past_def intro: exI [of _ "length (past n)"])

lemma open_pending_ok:
  assumes "node_ok S e n"
  obtains k where "open_pending n = n\<lparr>n_pending_session := True, n_active := 1, n_undo := head_state n # take k (past n)\<rparr>"
proof (cases "n_pending_session n")
  case True
  then have "n_undo n = head_state n # past n" "n_active n = 1" using assms by (auto simp: node_ok_def head_state_def past_def)
  then have "open_pending n = n\<lparr>n_pending_session := True, n_active := 1, n_undo := head_state n # take (length (past n)) (past n)\<rparr>"
    using True by (simp add: open_pending_def)
  then show thesis by (rule that)
next
  case False
  then have "open_pending n = n\<lparr>n_pending_session := True, n_active := 1, n_undo := head_state n # take (n_max_undo n) (past n)\<rparr>"
    using assms by (simp add: open_pending_def start_session_def head_state_def node_ok_def past_def)
  then show thesis by (rule that)
qed

text \<open>A transaction changes the database and the pending transactions, or nothing.\<close>

lemma push_inner_result:
  assumes ok: "node_ok S e n" and size: "0 < n_max_undo n"
  obtains k m where "push_transaction_inner S e skip trx n =
    (case process_transaction S (ne_block e) skip trx (n_db n) of
       Inl err \<Rightarrow> if err = Undefined_Behaviour then (Inl err, m)
                 else (Inl err, n\<lparr>n_pending_session := True, n_active := 1, n_undo := head_state n # take k (past n)\<rparr>)
     | Inr (ptx, d) \<Rightarrow> (Inr ptx, n\<lparr>n_db := d, n_pending_tx := n_pending_tx n @ [ptx], n_pending_session := True,
                            n_active := 1, n_undo := head_state n # take k (past n)\<rparr>))"
proof -
  obtain v where o: "open_pending n = n\<lparr>n_pending_session := True, n_active := 1, n_undo := head_state n # take v (past n)\<rparr>"
    by (rule open_pending_ok [OF ok])
  obtain m where m: "n_max_undo n = Suc m" using size by (cases "n_max_undo n") auto
  show thesis
    by (rule that [of "(start_session (open_pending n))\<lparr>n_db := ne_partial_trx e trx (n_db n)\<rparr>" "min m v"])
      (auto simp: push_transaction_inner_def o then_do_def apply_in_session_def keep_pending_def leave_session_def start_session_def m
        merge_session_def undo_session_def Let_def split: sum.splits)
qed

lemma push_inner_ok:
  assumes ok: "node_ok S e n" and size: "0 < n_max_undo n" and run: "push_transaction_inner S e skip trx n = (r, n')"
    and r: "r \<noteq> Inl Undefined_Behaviour"
  shows "node_ok S e n' \<and> same_chain n n' \<and> n_popped_tx n' = n_popped_tx n"
proof -
  obtain k m where u: "push_transaction_inner S e skip trx n =
    (case process_transaction S (ne_block e) skip trx (n_db n) of
       Inl err \<Rightarrow> if err = Undefined_Behaviour then (Inl err, m)
                 else (Inl err, n\<lparr>n_pending_session := True, n_active := 1, n_undo := head_state n # take k (past n)\<rparr>)
     | Inr (ptx, d) \<Rightarrow> (Inr ptx, n\<lparr>n_db := d, n_pending_tx := n_pending_tx n @ [ptx], n_pending_session := True,
                            n_active := 1, n_undo := head_state n # take k (past n)\<rparr>))"
    by (rule push_inner_result [OF ok size])
  have p: "pending_run S (ne_block e) (head_state n) (n_pending_tx n) (n_db n)" using ok by (simp add: node_ok_def)
  have rec: "recent n n'" if "n_pending_session n'" "n_undo n' = head_state n # take k (past n)" for n'
    using that by (auto simp: recent_def past_def)
  show ?thesis
  proof (cases "process_transaction S (ne_block e) skip trx (n_db n)")
    case (Inl err)
    then show ?thesis using u run r p rec by (auto simp: node_ok_def same_chain_def head_state_def split: if_splits)
  next
    case (Inr x)
    obtain ptx d where x: "x = (ptx, d)" by (cases x)
    have "pending_run S (ne_block e) (head_state n) (n_pending_tx n @ [ptx]) d"
      by (rule pending_one [OF p]) (use Inr x in simp)
    then show ?thesis using u run Inr x rec by (auto simp: node_ok_def same_chain_def head_state_def)
  qed
qed

lemma restore_one_ok:
  assumes "restore_transaction S e skip tx n = Inr n'" and "node_ok S e n" and "0 < n_max_undo n"
  shows "node_ok S e n' \<and> same_chain n n'"
  using assms push_inner_ok [OF assms(2,3)]
  by (auto simp: restore_transaction_def Let_def split: if_splits prod.splits)

lemma restore_all_ok:
  assumes "foldE (restore_transaction S e skip) txs n = Inr n'" and "node_ok S e n" and "0 < n_max_undo n"
  shows "node_ok S e n' \<and> same_chain n n'"
proof -
  have step: "node_ok S e t \<and> same_chain n t"
    if "restore_transaction S e skip x s = Inr t" and "node_ok S e s \<and> same_chain n s" for x s t
    using restore_one_ok [OF that(1)] that(2) assms(3) same_chain_trans by (auto simp: same_chain_def)
  show ?thesis
    by (rule foldE_invariant [OF assms(1), where I = "\<lambda>x. node_ok S e x \<and> same_chain n x"])
      (simp add: assms(2), use step in metis)
qed

lemma popped_irrelevant [simp]: "node_ok S e (n\<lparr>n_popped_tx := txs\<rparr>) = node_ok S e n"
  by (simp add: node_ok_def head_state_def)

lemma restore_ok:
  assumes "restore_pending S e skip txs n = Inr n'" and "node_ok S e n" and "0 < n_max_undo n"
  shows "node_ok S e n' \<and> same_chain n n'"
proof -
  obtain n1 where 1: "foldE (restore_transaction S e skip) (n_popped_tx n) n = Inr n1"
    and 2: "foldE (restore_transaction S e skip) (map signed_transaction.truncate txs) (n1\<lparr>n_popped_tx := []\<rparr>) = Inr n'"
    using assms(1) by (auto simp: restore_pending_def)
  from restore_all_ok [OF 1 assms(2,3)] have a: "node_ok S e n1" "same_chain n n1" by auto
  then have "0 < n_max_undo (n1\<lparr>n_popped_tx := []\<rparr>)" using assms(3) by (simp add: same_chain_def)
  with restore_all_ok [OF 2] a show ?thesis
    using same_chain_trans same_chain_pending by (metis popped_irrelevant)
qed

text \<open>Restoring raises nothing but what cannot be caught, and keeps the size of the history in any case.\<close>

lemma restore_raises: "restore_pending S e skip txs n = Inl err \<Longrightarrow> err = Undefined_Behaviour"
proof -
  have one: "restore_transaction S e skip tx m = Inl err \<Longrightarrow> err = Undefined_Behaviour" for tx m
    by (auto simp: restore_transaction_def Let_def split: if_splits prod.splits)
  have all: "foldE (restore_transaction S e skip) xs m = Inl err \<Longrightarrow> err = Undefined_Behaviour" for xs m
    by (induction xs arbitrary: m) (auto simp: bindE_def dest: one split: sum.splits)
  assume "restore_pending S e skip txs n = Inl err"
  then show ?thesis by (auto simp: restore_pending_def bindE_def dest: all split: sum.splits)
qed

lemma leave_size: "leave_session merge_session r n = (q, n') \<Longrightarrow> n_max_undo n' = n_max_undo n"
  by (auto simp: leave_session_def Let_def merge_session_def undo_session_Inr split: sum.splits if_splits)

lemma push_inner_size: "push_transaction_inner S e skip trx n = (r, n') \<Longrightarrow> n_max_undo n' = n_max_undo n"
  by (auto simp: push_transaction_inner_def then_do_def apply_in_session_def keep_pending_def open_pending_def start_session_def
      dest!: leave_size split: prod.splits sum.splits if_splits)

lemma restore_size: "restore_pending S e skip txs n = Inr n' \<Longrightarrow> n_max_undo n' = n_max_undo n"
proof -
  have one: "restore_transaction S e skip tx m = Inr m' \<Longrightarrow> n_max_undo m' = n_max_undo m" for tx m m'
    by (auto simp: restore_transaction_def Let_def push_inner_size split: if_splits prod.splits)
  have all: "foldE (restore_transaction S e skip) xs m = Inr m' \<Longrightarrow> n_max_undo m' = n_max_undo m" for xs m m'
    by (induction xs arbitrary: m) (auto simp: one)
  assume "restore_pending S e skip txs n = Inr n'"
  then show ?thesis by (auto simp: restore_pending_def all)
qed

lemma clear_pending_clean:
  assumes "sessions_ok n"
  obtains n0 where "clear_pending n = Inr n0" and "node_clean n0" and "n_db n0 = head_state n" and "same_chain n n0"
    and "n_popped_tx n0 = n_popped_tx n"
proof (cases "n_pending_session n")
  case True
  then obtain d ds where u: "n_undo n = d # ds" and a: "n_active n = 1" using assms by (auto simp: sessions_ok_def neq_Nil_conv)
  show thesis
    by (rule that [of "n\<lparr>n_pending_tx := [], n_db := d, n_undo := (if ds = [] then [d] else ds), n_active := 0, n_pending_session := False\<rparr>"])
      (use True u a in \<open>auto simp: clear_pending_def reset_pending_def undo_session_def node_clean_def head_state_def same_chain_def recent_def past_def intro: exI [of _ "length (d # ds)"]\<close>)
next
  case False
  show thesis
    by (rule that [of "n\<lparr>n_pending_tx := [], n_pending_session := False\<rparr>"])
      (use False assms in \<open>auto simp: clear_pending_def reset_pending_def node_clean_def head_state_def same_chain_def sessions_ok_def recent_def past_def
        intro: exI [of _ "length (n_undo n)"]\<close>)
qed

section \<open>Appending a block\<close>

text \<open>The history after a session that was undone: at least the present state.\<close>

definition trimmed :: "node \<Rightarrow> database list" where
  "trimmed n = (let ds = take (n_max_undo n) (n_undo n) in if ds = [] then [n_db n] else ds)"

definition with_history :: "safe \<Rightarrow> node_env \<Rightarrow> skip_flags \<Rightarrow> block \<Rightarrow> node \<Rightarrow> node" where
  "with_history S e skip b n = set_history (history_size S (ne_block e) skip b (n_db n)) n"

lemma set_history_simps [simp]:
  "n_db (set_history s n) = n_db n" "n_undo (set_history s n) = n_undo n" "n_active (set_history s n) = n_active n"
  "n_blocks (set_history s n) = n_blocks n" "n_pending_tx (set_history s n) = n_pending_tx n"
  "n_pending_session (set_history s n) = n_pending_session n" "n_popped_tx (set_history s n) = n_popped_tx n"
  by (cases s, simp_all add: set_history_def)+

lemma with_history_simps [simp]:
  "n_db (with_history S e skip b n) = n_db n" "n_undo (with_history S e skip b n) = n_undo n"
  "n_active (with_history S e skip b n) = n_active n"
  "n_blocks (with_history S e skip b n) = n_blocks n" "n_pending_tx (with_history S e skip b n) = n_pending_tx n"
  "n_pending_session (with_history S e skip b n) = n_pending_session n" "n_popped_tx (with_history S e skip b n) = n_popped_tx n"
  by (simp_all add: with_history_def)

lemma set_history_start: "set_history s (start_session n) = (set_history s n)\<lparr>n_undo := n_db n # take (n_max_undo n) (n_undo n), n_active := Suc (n_active n)\<rparr>"
  by (cases s) (simp_all add: set_history_def start_session_def)

lemma append_block_eq:
  "append_block S e skip i b n =
     (case apply_block S (ne_block e) skip b (n_db n) of
        None \<Rightarrow> None
      | Some (Inl err) \<Rightarrow> Some (Inl err, if err = Undefined_Behaviour then (with_history S e skip b (start_session n))\<lparr>n_db := ne_partial_block e b (n_db n)\<rparr>
                                      else (with_history S e skip b n)\<lparr>n_undo := trimmed n\<rparr>)
      | Some (Inr (k, d)) \<Rightarrow> Some (Inr (), (store_block e i b (with_history S e skip b n))
                                 \<lparr>n_db := d, n_undo := n_db n # take (n_max_undo n) (n_undo n)\<rparr>))"
proof -
  have db: "n_db (start_session n) = n_db n" by (simp add: start_session_def)
  show ?thesis
  proof (cases "apply_block S (ne_block e) skip b (n_db n)")
    case None
    then show ?thesis by (simp add: append_block_def apply_block_step_def Let_def db)
  next
    case (Some r)
    show ?thesis
    proof (cases r)
      case (Inl err)
      then show ?thesis
        by (simp add: append_block_def apply_block_step_def Let_def db Some leave_session_def with_history_def set_history_start
            undo_session_def trimmed_def)
    next
      case (Inr x)
      obtain k d where "x = (k, d)" by (cases x)
      with Inr show ?thesis
        by (simp add: append_block_def apply_block_step_def Let_def db Some leave_session_def with_history_def set_history_start
            commit_session_def store_block_def)
    qed
  qed
qed

lemma append_clean:
  assumes "append_block S e skip i b n = Some (r, n')" and "node_clean n" and "r \<noteq> Inl Undefined_Behaviour"
  shows "node_clean n'"
  using assms by (auto simp: append_block_eq node_clean_def store_block_def split: option.splits sum.splits)

lemma history_size_applied:
  assumes "apply_block S e skip b d = Some (Inr (k, d'))"
  shows "history_size S e skip b d = Some k"
proof -
  from assms obtain s where s: "checkpoint_skip e skip b = Inr s" and a: "apply_block_with S e s b d = Some (Inr (k, d'))"
    by (auto simp: apply_block_def split: sum.splits)
  from a obtain m x where "begin_block S e s b d = Inr (k, m, x)"
    by (auto simp: apply_block_with_def split: sum.splits option.splits)
  then show ?thesis by (auto simp: history_size_def s begin_block_def Let_def update_chain_def)
qed

text \<open>A block on top of the head: applied and stored, or without a trace but for the size of the histories.\<close>

definition extended :: "safe \<Rightarrow> node_env \<Rightarrow> skip_flags \<Rightarrow> block \<Rightarrow> database \<Rightarrow> block_database \<Rightarrow> bool res \<Rightarrow> database \<Rightarrow> node \<Rightarrow> bool" where
  "extended S e skip b d blocks r d' n' \<longleftrightarrow>
     (case apply_block S (ne_block e) skip b d of
        None \<Rightarrow> False
      | Some (Inl err) \<Rightarrow> r = Inl err \<and> d' = d \<and> n_blocks n' = blocks \<and>
          find_by_id (n_fork n') (fd_index (n_fork n')) (block_id (node_hash e) b) = None
      | Some (Inr (k, d1)) \<Rightarrow> r = Inr False \<and> d' = d1 \<and>
          n_blocks n' = bd_store (node_hash e) (ne_pack e) (block_id (node_hash e) b) b blocks)"

lemma extend_chain_result:
  assumes run: "extend_chain S e skip b n = Some (r, n')" and clean: "node_clean n"
    and fin: "r \<noteq> Inl Undefined_Behaviour" and size: "0 < n_max_undo n'"
  shows "extended S e skip b (n_db n) (n_blocks n) r (n_db n') n'"
proof (cases "apply_block S (ne_block e) skip b (n_db n)")
  case None
  then show ?thesis using run by (simp add: extend_chain_def append_block_eq)
next
  case (Some q)
  show ?thesis
  proof (cases q)
    case (Inl err)
    have n': "r = Inl err" "n' = (with_history S e skip b n)\<lparr>n_undo := trimmed n,
        n_fork := fork_remove (block_id (node_hash e) b) (n_fork (with_history S e skip b n))\<rparr>"
      using run fin Some Inl by (auto simp: extend_chain_def append_block_eq split: if_splits)
    show ?thesis using Some Inl by (auto simp: extended_def n' fork_remove_def find_by_id_None)
  next
    case (Inr x)
    obtain k d where x: "x = (k, d)" by (cases x)
    let ?n1 = "(store_block e (block_id (node_hash e) b) b (with_history S e skip b n))\<lparr>n_db := d, n_undo := n_db n # take (n_max_undo n) (n_undo n)\<rparr>"
    have l: "leave_session merge_session (Inr False) (start_session ?n1) = (r, n')"
      using run Some Inr x by (simp add: extend_chain_def append_block_eq)
    then have m: "n_max_undo ?n1 = n_max_undo n'"
      by (auto simp: leave_session_def merge_session_def undo_session_def start_session_def require_def split: if_splits)
    then obtain j where "n_max_undo ?n1 = Suc j" using size by (cases "n_max_undo n'") auto
    then show ?thesis using l Some Inr x
      by (auto simp: extended_def leave_session_def merge_session_def start_session_def store_block_def)
  qed
qed

section \<open>Blocks leave no session behind\<close>

definition keeps :: "(node \<Rightarrow> bool) \<Rightarrow> 'a step \<Rightarrow> bool" where
  "keeps P m \<longleftrightarrow> (\<forall>n r n'. P n \<longrightarrow> m n = (r, n') \<longrightarrow> P n')"

lemma keepsD: "keeps P m \<Longrightarrow> P n \<Longrightarrow> m n = (r, n') \<Longrightarrow> P n'"
  by (simp add: keeps_def)

lemma keeps_then_do:
  assumes "keeps P m" and "\<And>x. keeps P (f x)"
  shows "keeps P (then_do m f)"
  unfolding keeps_def
proof (intro allI impI)
  fix n r n'
  assume "P n" and run: "then_do m f n = (r, n')"
  obtain q n1 where q: "m n = (q, n1)" by fastforce
  have "P n1" by (rule keepsD [OF assms(1) \<open>P n\<close> q])
  then show "P n'" using run q keepsD [OF assms(2)] by (cases q) (auto simp: then_do_def)
qed

lemma keeps_change: "(\<And>n n'. P n \<Longrightarrow> f n = Inr n' \<Longrightarrow> P n') \<Longrightarrow> keeps P (change f)"
  by (auto simp: keeps_def change_def split: sum.splits)

lemma keeps_case_option:
  assumes "\<And>n b. f n = Some b \<Longrightarrow> keeps P (g n b)"
  shows "keeps P (\<lambda>n. case f n of None \<Rightarrow> (Inl err, n) | Some b \<Rightarrow> g n b n)"
  unfolding keeps_def
proof (intro allI impI)
  fix n r n'
  assume "P n" and "(case f n of None \<Rightarrow> (Inl err, n) | Some b \<Rightarrow> g n b n) = (r, n')"
  then show "P n'" using keepsD [OF assms] by (cases "f n") auto
qed

text \<open>
  The interface between the steps of a push and an invariant of nodes without pending transactions: it
  is kept when a block is appended, popped, or merged with the session of the plugins, and does not
  look at the fork database. Then every push of a block keeps it, fork switches included.
\<close>

locale block_invariant =
  fixes S :: safe and e :: node_env and P :: "node \<Rightarrow> bool"
  assumes append_keeps: "append_block S e skip i b n = Some (r, n') \<Longrightarrow> P n \<Longrightarrow> r \<noteq> Inl Undefined_Behaviour \<Longrightarrow> P n'"
    and pop_keeps: "keeps P (pop_block e held)"
    and fork_free: "P (n\<lparr>n_fork := fd\<rparr>) = P n"
    and merge_keeps: "leave_session merge_session (Inr False :: bool res) (start_session n) = (q, n') \<Longrightarrow> P n \<Longrightarrow> q \<noteq> Inl Undefined_Behaviour \<Longrightarrow> P n'"
begin

lemma pop_until_keeps: "P n \<Longrightarrow> pop_until e held i n = (r, n') \<Longrightarrow> P n'"
proof (induction "length (n_undo n)" arbitrary: n rule: less_induct)
  case (less n)
  show ?case
  proof (cases "head_id n = i")
    case False
    obtain r1 n1 where p: "pop_block e held n = (r1, n1)" by (cases "pop_block e held n")
    have "P n1" by (rule keepsD [OF pop_keeps less(2) p])
    then show ?thesis using less False p pop_block_shrinks [of e held n] by (cases r1) (auto simp: pop_until.simps [of e held i n])
  qed (use less in \<open>simp add: pop_until.simps\<close>)
qed

lemma push_branch_keeps:
  "P n \<Longrightarrow> push_branch S e skip xs n = Some (f, n') \<Longrightarrow> (\<forall>g. f = Some g \<longrightarrow> fst g \<noteq> Undefined_Behaviour) \<Longrightarrow> P n'"
proof (induction xs arbitrary: n)
  case (Cons x xs)
  then obtain r n1 where r: "append_block S e skip (fi_id x) (fi_data x) n = Some (r, n1)" by (auto split: option.splits)
  show ?case
  proof (cases r)
    case (Inl err)
    then show ?thesis using append_keeps [OF r Cons.prems(1)] Cons.prems(2,3) r by auto
  next
    case (Inr u)
    then show ?thesis using Cons.IH [of n1] append_keeps [OF r Cons.prems(1)] Cons.prems(2,3) r by simp
  qed
qed simp

lemma restore_branch_keeps:
  "P n \<Longrightarrow> restore_branch S e skip i xs n = Some (r, n') \<Longrightarrow> r \<noteq> Inl Undefined_Behaviour \<Longrightarrow> P n'"
proof (induction xs arbitrary: n)
  case (Cons x xs)
  then obtain q n1 where q: "append_block S e skip i (fi_data x) n = Some (q, n1)" by (auto split: option.splits)
  show ?case
  proof (cases q)
    case (Inl err)
    then show ?thesis using append_keeps [OF q Cons.prems(1)] Cons.prems(2,3) q by auto
  next
    case (Inr u)
    then show ?thesis using Cons.IH [of n1] append_keeps [OF q Cons.prems(1)] Cons.prems(2,3) q by simp
  qed
qed simp

lemma abandon_keeps:
  assumes "abandon_branch S e skip b first second fault n = Some (r, n')" and "P n" and "r \<noteq> Inl Undefined_Behaviour"
  shows "P n'"
proof -
  let ?good = "map (item (n_fork n)) second"
  let ?n = "n\<lparr>n_fork := fork_set_head (Some (hd second)) (drop_items e (snd fault) (n_fork n))\<rparr>"
  obtain q n1 where q: "pop_until e (first @ second) (previous_id (last ?good)) ?n = (q, n1)" by fastforce
  have c: "P n1" by (rule pop_until_keeps [OF _ q]) (simp add: assms(2) fork_free)
  show ?thesis
  proof (cases q)
    case (Inl err)
    then show ?thesis using assms(1) q c by (simp add: abandon_branch_def Let_def)
  next
    case (Inr u)
    then obtain t n2 where t: "restore_branch S e skip (block_id (node_hash e) b) (rev ?good) n1 = Some (t, n2)"
      using assms(1) q by (auto simp: abandon_branch_def Let_def split: option.splits)
    have "n' = n2" "t = Inl Undefined_Behaviour \<longrightarrow> r = Inl Undefined_Behaviour"
      using assms(1) q t Inr by (auto simp: abandon_branch_def Let_def split: sum.splits)
    then show ?thesis using restore_branch_keeps [OF c t] assms(3) by blast
  qed
qed

lemma switch_keeps:
  assumes "switch_branch S e skip b first second n = Some (r, n')" and "P n" and "r \<noteq> Inl Undefined_Behaviour"
  shows "P n'"
proof -
  let ?good = "map (item (n_fork n)) second"
  obtain q n1 where q: "pop_until e (first @ second) (previous_id (last ?good)) n = (q, n1)" by fastforce
  have c: "P n1" by (rule pop_until_keeps [OF assms(2) q])
  show ?thesis
  proof (cases q)
    case (Inl err)
    then show ?thesis using assms(1) q c by (simp add: switch_branch_def Let_def)
  next
    case (Inr u)
    then obtain f n2 where f: "push_branch S e skip (rev (map (item (n_fork n)) first)) n1 = Some (f, n2)"
      using assms(1) q by (auto simp: switch_branch_def Let_def split: option.splits)
    show ?thesis
    proof (cases f)
      case None
      then show ?thesis using assms(1) q f Inr push_branch_keeps [OF c f] by (simp add: switch_branch_def Let_def)
    next
      case (Some g)
      then have "fst g \<noteq> Undefined_Behaviour" and a: "abandon_branch S e skip b first second g n2 = Some (r, n')"
        using assms(1,3) q f Inr by (auto simp: switch_branch_def Let_def split: if_splits)
      then have "P n2" using push_branch_keeps [OF c f] Some by auto
      then show ?thesis by (rule abandon_keeps [OF a _ assms(3)])
    qed
  qed
qed

lemma extend_keeps:
  assumes "extend_chain S e skip b n = Some (r, n')" and "P n" and "r \<noteq> Inl Undefined_Behaviour"
  shows "P n'"
proof -
  obtain q n1 where q: "append_block S e skip (block_id (node_hash e) b) b n = Some (q, n1)"
    using assms(1) by (auto simp: extend_chain_def split: option.splits)
  show ?thesis
  proof (cases q)
    case (Inl err)
    then show ?thesis using assms q append_keeps [OF q assms(2)] by (auto simp: extend_chain_def fork_free split: if_splits)
  next
    case (Inr u)
    then have c: "P n1" using append_keeps [OF q assms(2)] by simp
    have "leave_session merge_session (Inr False) (start_session n1) = (r, n')" using assms(1) q Inr by (simp add: extend_chain_def)
    then show ?thesis by (rule merge_keeps [OF _ c assms(3)])
  qed
qed

lemma inner_keeps:
  assumes "push_block_inner S e skip b n = Some (r, n')" and "P n" and "r \<noteq> Inl Undefined_Behaviour"
  shows "P n'"
  using assms(1) assms(2,3) extend_keeps [OF _ _ assms(3)] switch_keeps [OF _ _ assms(3)]
  by (auto simp: push_block_inner_def switch_fork_def fork_free Let_def split: if_splits sum.splits option.splits prod.splits)

end

lemma fork_clean [simp]: "node_clean (n\<lparr>n_fork := fd\<rparr>) = node_clean n"
  by (simp add: node_clean_def)

lemma pop_block_clean: "keeps node_clean (pop_block e held)"
  unfolding pop_block_def
  by (intro keeps_then_do keeps_change keeps_case_option)
    (auto simp: node_clean_def reset_pending_def fork_pop_def forget_block_def pop_undo_Inr)

lemma merge_clean:
  assumes "leave_session merge_session (Inr False :: bool res) (start_session n) = (q, n')" and "node_clean n" and "q \<noteq> Inl Undefined_Behaviour"
  shows "node_clean n'"
  using assms
  by (auto simp: leave_session_def merge_session_def undo_session_def start_session_def node_clean_def require_def split: if_splits)

interpretation clean: block_invariant S e node_clean for S e
  by unfold_locales (auto intro: append_clean pop_block_clean merge_clean)

lemmas push_branch_clean = clean.push_branch_keeps
lemmas inner_clean = clean.inner_keeps

text \<open>Nodes without pending transactions whose saved states are connected by blocks.\<close>

definition standing :: "safe \<Rightarrow> node_env \<Rightarrow> node \<Rightarrow> bool" where
  "standing S e n \<longleftrightarrow> node_clean n \<and> past_ok S e n"

lemma clean_past: "node_clean n \<Longrightarrow> head_state n = n_db n" "node_clean n \<Longrightarrow> past n = n_undo n"
  by (simp_all add: node_clean_def head_state_def past_def)

lemma standing_iff: "standing S e n \<longleftrightarrow> node_clean n \<and> successively (block_follows S e) (n_db n # n_undo n)"
  by (auto simp: standing_def past_ok_def clean_past)

lemma append_standing:
  assumes "append_block S e skip i b n = Some (r, n')" and "standing S e n" and "r \<noteq> Inl Undefined_Behaviour"
  shows "standing S e n'"
proof -
  have c: "node_clean n'" using assms append_clean by (auto simp: standing_def)
  have f: "block_follows S e d (n_db n)" if "apply_block S (ne_block e) skip b (n_db n) = Some (Inr (k, d))" for k d
    using that by (auto simp: block_follows_def)
  from assms(2) have "successively (block_follows S e) (n_db n # n_undo n)" by (simp add: standing_iff)
  then have t: "successively (block_follows S e) (n_db n # take (n_max_undo n) (n_undo n))" by (rule successively_trim)
  then have "successively (block_follows S e) (n_db n # trimmed n)" by (simp add: trimmed_def Let_def)
  with t f assms(1,3) have "successively (block_follows S e) (n_db n' # n_undo n')"
    by (auto simp: append_block_eq split: option.splits sum.splits if_splits)
  with c show ?thesis by (simp add: standing_iff)
qed

lemma pop_block_standing: "keeps (standing S e) (pop_block e' held)"
  unfolding pop_block_def
  by (intro keeps_then_do keeps_change keeps_case_option)
    (auto simp: standing_iff node_clean_def reset_pending_def fork_pop_def forget_block_def pop_undo_Inr successively_Cons)

lemma merge_standing:
  assumes "leave_session merge_session (Inr False :: bool res) (start_session n) = (q, n')" and "standing S e n" and "q \<noteq> Inl Undefined_Behaviour"
  shows "standing S e n'"
proof -
  have c: "node_clean n'" using assms merge_clean by (auto simp: standing_def)
  have "successively (block_follows S e) (n_db n # take (n_max_undo n) (n_undo n))"
    by (rule successively_trim) (use assms(2) in \<open>simp add: standing_iff\<close>)
  with assms(1,3) have "successively (block_follows S e) (n_db n' # n_undo n')"
    by (auto simp: leave_session_def merge_session_def undo_session_def start_session_def require_def split: if_splits)
  with c show ?thesis by (simp add: standing_iff)
qed

interpretation standing: block_invariant S e "standing S e" for S e
proof (unfold_locales, goal_cases)
  case 1
  then show ?case by (rule append_standing)
next
  case 2
  show ?case by (rule pop_block_standing)
next
  case 3
  show ?case by (simp add: standing_iff)
next
  case 4
  then show ?case by (rule merge_standing)
qed

section \<open>Pushing\<close>

lemma push_block_parts:
  assumes "sessions_ok n" and "push_block S e skip b n = Some (r, n')" and "r \<noteq> Inl Undefined_Behaviour" and "0 < n_max_undo n'"
  obtains n0 n1 where "clear_pending n = Inr n0" and "node_clean n0" and "n_db n0 = head_state n" and "same_chain n n0"
    and "push_block_inner S e skip b n0 = Some (r, n1)" and "node_clean n1" and "same_chain n1 n'" and "node_ok S e n'"
    and "past_ok S e n \<longrightarrow> past_ok S e n'"
proof -
  obtain n0 where c: "clear_pending n = Inr n0" "node_clean n0" "n_db n0 = head_state n" "same_chain n n0"
    by (rule clear_pending_clean [OF assms(1)])
  obtain q n1 where i: "push_block_inner S e skip b n0 = Some (q, n1)"
    using assms(2) c(1) by (auto simp: push_block_def split: option.splits)
  have q: "q \<noteq> Inl Undefined_Behaviour" using assms(2,3) c(1) i by (auto simp: push_block_def)
  have k: "node_clean n1" by (rule inner_clean [OF i c(2) q])
  have "restore_pending S e skip (n_pending_tx n) n1 = Inr n' \<and> r = q"
    using assms(2,3) c(1) i q restore_raises [of S e skip "n_pending_tx n" n1]
    by (auto simp: push_block_def split: sum.splits)
  then have rest: "restore_pending S e skip (n_pending_tx n) n1 = Inr n'" and rq: "r = q" by simp_all
  have "0 < n_max_undo n1" using restore_size [OF rest] assms(4) by simp
  from restore_ok [OF rest clean_ok(1) [OF k] this] have "node_ok S e n'" "same_chain n1 n'" by simp_all
  moreover have "past_ok S e n \<longrightarrow> past_ok S e n'"
    using same_chain_history [OF c(4)] standing.inner_keeps [OF i] same_chain_history [OF \<open>same_chain n1 n'\<close>] c(2) q
    by (auto simp: standing_def)
  ultimately show thesis using c i k rq by (intro that [of n0 n1]) simp_all
qed

text \<open>
  C9. A transaction is pushed atomically: when it is refused, in whatever state its application breaks
  off, the database and the pending transactions are what they were; when it is accepted, it is the last pending transaction and has been applied to
  the database. Either way the state of the head, the blocks and the fork database are untouched, and
  the database is the state of the head with the pending transactions applied.
\<close>

theorem push_transaction_atomic:
  assumes "node_ok S e n" and "0 < n_max_undo n" and "push_transaction S e skip trx n = (r, n')" and "r \<noteq> Inl Undefined_Behaviour"
  shows "node_ok S e n' \<and> head_state n' = head_state n \<and> n_fork n' = n_fork n \<and> n_blocks n' = n_blocks n \<and>
    (case r of Inl err \<Rightarrow> n_db n' = n_db n \<and> n_pending_tx n' = n_pending_tx n
     | Inr ptx \<Rightarrow> n_pending_tx n' = n_pending_tx n @ [ptx] \<and> process_transaction S (ne_block e) skip trx (n_db n) = Inr (ptx, n_db n'))"
proof (cases "ne_trx_size e trx \<le> maximum_transaction_size (parameters (gpo (ledger (n_db n))))")
  case True
  then have run: "push_transaction_inner S e skip trx n = (r, n')" using assms(3) by (simp add: push_transaction_def)
  obtain k m where u: "push_transaction_inner S e skip trx n =
    (case process_transaction S (ne_block e) skip trx (n_db n) of
       Inl err \<Rightarrow> if err = Undefined_Behaviour then (Inl err, m)
                 else (Inl err, n\<lparr>n_pending_session := True, n_active := 1, n_undo := head_state n # take k (past n)\<rparr>)
     | Inr (ptx, d) \<Rightarrow> (Inr ptx, n\<lparr>n_db := d, n_pending_tx := n_pending_tx n @ [ptx], n_pending_session := True,
                            n_active := 1, n_undo := head_state n # take k (past n)\<rparr>))"
    by (rule push_inner_result [OF assms(1,2)])
  have "case r of Inl err \<Rightarrow> n_db n' = n_db n \<and> n_pending_tx n' = n_pending_tx n
     | Inr ptx \<Rightarrow> n_pending_tx n' = n_pending_tx n @ [ptx] \<and> process_transaction S (ne_block e) skip trx (n_db n) = Inr (ptx, n_db n')"
    using u run assms(4) by (cases "process_transaction S (ne_block e) skip trx (n_db n)") (auto split: if_splits)
  then show ?thesis using push_inner_ok [OF assms(1,2) run assms(4)] by (simp add: same_chain_def)
next
  case False
  then show ?thesis using assms by (auto simp: push_transaction_def)
qed

lemma push_block_extends:
  assumes "sessions_ok n" and "0 < n_max_undo n'" and "r \<noteq> Inl Undefined_Behaviour" and "push_block S e skip b n = Some (r, n')"
    and "skips skip skip_fork_db \<or> (\<exists>h fd. fork_push_block (node_hash e) b (n_fork n) = Inr (Some h, fd) \<and>
      b_previous (fi_data (item fd h)) = head_block_id (dgpo (ledger (head_state n))))"
  shows "node_ok S e n' \<and> extended S e skip b (head_state n) (n_blocks n) r (head_state n') n'"
proof (rule push_block_parts [OF assms(1,4,3,2)])
  fix n0 n1
  assume c: "node_clean n0" "n_db n0 = head_state n" "same_chain n n0" and i: "push_block_inner S e skip b n0 = Some (r, n1)"
    and k: "node_clean n1" "same_chain n1 n'" and ok: "node_ok S e n'"
  have chain: "n_fork n0 = n_fork n" "n_blocks n0 = n_blocks n" "n_fork n1 = n_fork n'" "n_blocks n1 = n_blocks n'"
    "n_db n1 = head_state n'" "0 < n_max_undo n1"
    using c(3) k(2) assms(2) clean_ok(2) [OF k(1)] by (auto simp: same_chain_def)
  obtain fd where fd: "extend_chain S e skip b (n0\<lparr>n_fork := fd\<rparr>) = Some (r, n1)"
  proof (cases "skips skip skip_fork_db")
    case True
    then show thesis using i that [of "n_fork n0"] by (simp add: push_block_inner_def)
  next
    case False
    then show thesis using i assms(5) c(2) chain(1) that by (auto simp: push_block_inner_def Let_def)
  qed
  have "extended S e skip b (n_db n0) (n_blocks n0) r (n_db n1) n1"
    using extend_chain_result [OF fd _ assms(3) chain(6)] c(1) by simp
  then show ?thesis using ok by (simp add: extended_def c(2) chain cong: option.case_cong sum.case_cong)
qed

text \<open>
  C4. A block that builds on the head, as far as the fork database can tell, or is pushed without it: it
  is applied to the state of the head and stored, or it fails, in whatever state its application breaks
  off, and every change of the state and of the stored blocks is unwound and the block is not among those of the fork database. The pending
  transactions are then pushed again.
\<close>

theorem pushed_block_applied_or_unwound:
  assumes "sessions_ok n" and "0 < n_max_undo n'" and "r \<noteq> Inl Undefined_Behaviour" and "push_block S e skip b n = Some (r, n')"
    and "skips skip skip_fork_db \<or> (\<exists>h fd. fork_push_block (node_hash e) b (n_fork n) = Inr (Some h, fd) \<and>
      b_previous (fi_data (item fd h)) = head_block_id (dgpo (ledger (head_state n))))"
  shows "node_ok S e n' \<and>
    (case apply_block S (ne_block e) skip b (head_state n) of
       None \<Rightarrow> False
     | Some (Inl err) \<Rightarrow> r = Inl err \<and> head_state n' = head_state n \<and> n_blocks n' = n_blocks n \<and>
         find_by_id (n_fork n') (fd_index (n_fork n')) (block_id (node_hash e) b) = None
     | Some (Inr (k, d)) \<Rightarrow> r = Inr False \<and> head_state n' = d \<and>
         n_blocks n' = bd_store (node_hash e) (ne_pack e) (block_id (node_hash e) b) b (n_blocks n))"
  using push_block_extends [OF assms] by (simp add: extended_def)

section \<open>The node over time\<close>

lemma validate_ok:
  assumes ok: "node_ok S e n" and run: "validate_transaction S e skip trx n = (r, n')" and r: "r \<noteq> Inl Undefined_Behaviour"
    and size: "0 < n_max_undo n"
  shows "node_ok S e n' \<and> (past_ok S e n \<longrightarrow> past_ok S e n')"
proof -
  obtain m where m: "n_max_undo n = Suc m" using size by (cases "n_max_undo n") auto
  have n': "n' = n\<lparr>n_undo := (if n_undo n = [] then [n_db n] else take (Suc m) (n_undo n))\<rparr>"
    using run r by (auto simp: validate_transaction_def apply_in_session_def start_session_def undo_session_def m
        split: sum.splits if_splits)
  show ?thesis
  proof (cases "n_undo n")
    case Nil
    then show ?thesis using ok by (auto simp: n' node_ok_def head_state_def past_ok_def past_def)
  next
    case (Cons x xs)
    then show ?thesis using ok successively_trim [of "block_follows S e" x xs m] successively_trim [of "block_follows S e" "n_db n" "x # xs" "Suc m"]
      by (auto simp: n' node_ok_def head_state_def past_ok_def past_def)
  qed
qed

text \<open>Collecting transactions for a block ends where it started, at the state of the head, with the session closed.\<close>

lemma include_step:
  assumes "include_transaction S e skip maximum tx acc = Inr acc'" and "snd (snd acc) = n" and "n_pending_session n"
    and "n_active n = 1" and "n_undo n = d # u" and "0 < n_max_undo n"
  shows "\<exists>n' k. snd (snd acc') = n' \<and> n_pending_session n' \<and> n_active n' = 1 \<and> n_undo n' = d # take k u \<and> n_max_undo n' = n_max_undo n \<and>
    n_pending_tx n' = n_pending_tx n"
proof -
  obtain total txs where acc: "acc = (total, txs, n)" using assms(2) by (cases acc) auto
  obtain m where m: "n_max_undo n = Suc m" using assms(6) by (cases "n_max_undo n") auto
  show ?thesis
  proof (cases "maximum \<le> total + ne_ptrx_size e tx")
    case True
    then show ?thesis using assms acc by (auto simp: include_transaction_def intro: exI [of _ "length u"])
  next
    case False
    then show ?thesis using assms m
      by (cases "process_transaction S (ne_block e) skip (signed_transaction.truncate tx) (n_db n)")
        (auto simp: include_transaction_def acc apply_in_session_def start_session_def leave_session_def merge_session_def
          undo_session_def Let_def split: if_splits, blast)
  qed
qed

lemma collect_sessions:
  assumes "node_ok S e n" and "0 < n_max_undo n" and "collect_transactions S e skip n = Inr (txs, n')"
  shows "sessions_ok n'" and "n_db n' = head_state n" and "\<not> n_pending_session n'" and "n_pending_tx n' = n_pending_tx n"
    and "n_max_undo n' = n_max_undo n" and "past_ok S e n \<longrightarrow> past_ok S e n'"
proof -
  from assms(3) obtain n1 total n2 where 1: "reset_pending n = Inr n1"
    and 2: "foldE (include_transaction S e skip (maximum_block_size (parameters (gpo (ledger (n_db n))))))
              (n_pending_tx n) (ne_header_size e + 4, [], open_pending n1) = Inr (total, txs, n2)"
    and 3: "reset_pending n2 = Inr n'"
    by (auto simp: collect_transactions_def)
  have n1: "n_db n1 = head_state n" "\<not> n_pending_session n1" "n_active n1 = 0" "n_pending_tx n1 = n_pending_tx n" "n_max_undo n1 = n_max_undo n"
    using 1 assms(1) by (auto simp: reset_pending_def undo_session_Inr node_ok_def head_state_def split: if_splits)
  have h1: "past_ok S e n \<longrightarrow> past_ok S e n1"
    using 1 assms(1) by (auto simp: reset_pending_def undo_session_Inr node_ok_def head_state_def past_ok_def past_def split: if_splits)
  let ?I = "\<lambda>acc. case acc of (total :: nat, txs :: processed_transaction list, m) \<Rightarrow> n_pending_session m \<and> n_active m = 1 \<and>
    n_undo m \<noteq> [] \<and> hd (n_undo m) = head_state n \<and> n_max_undo m = n_max_undo n \<and> n_pending_tx m = n_pending_tx n \<and>
    (past_ok S e n \<longrightarrow> successively (block_follows S e) (n_undo m))"
  have "?I (total, txs, n2)"
  proof (rule foldE_invariant [OF 2, where I = ?I])
    show "?I (ne_header_size e + 4, [], open_pending n1)"
      using n1 h1 successively_trim [of "block_follows S e" "n_db n1" "n_undo n1" "n_max_undo n1"]
      by (auto simp: open_pending_def start_session_def past_ok_def head_state_def past_def)
    fix x acc acc'
    assume I: "?I acc" and s: "include_transaction S e skip (maximum_block_size (parameters (gpo (ledger (n_db n))))) x acc = Inr acc'"
    obtain t ts m where acc: "acc = (t, ts, m)" by (cases acc)
    then obtain d u where "n_undo m = d # u" using I by (cases "n_undo m") auto
    with include_step [OF s, of m d u] I acc assms(2) successively_trim [of "block_follows S e" d u] show "?I acc'" by (cases acc') auto
  qed
  then show "sessions_ok n'" "n_db n' = head_state n" "\<not> n_pending_session n'" "n_pending_tx n' = n_pending_tx n" "n_max_undo n' = n_max_undo n"
    "past_ok S e n \<longrightarrow> past_ok S e n'"
    using 3 by (auto simp: reset_pending_def undo_session_Inr sessions_ok_def past_ok_def head_state_def past_def)
qed

text \<open>What a node does: transactions and blocks come in, transactions are checked for a client, blocks are generated.\<close>

inductive node_run :: "safe \<Rightarrow> node_env \<Rightarrow> node \<Rightarrow> node \<Rightarrow> bool" for S e n0 where
  node_start: "node_run S e n0 n0"
| node_transaction: "node_run S e n0 n \<Longrightarrow> push_transaction S e skip trx n = (r, n') \<Longrightarrow> r \<noteq> Inl Undefined_Behaviour \<Longrightarrow> node_run S e n0 n'"
| node_validate: "node_run S e n0 n \<Longrightarrow> validate_transaction S e skip trx n = (r, n') \<Longrightarrow> r \<noteq> Inl Undefined_Behaviour \<Longrightarrow> node_run S e n0 n'"
| node_block: "node_run S e n0 n \<Longrightarrow> push_block S e skip b n = Some (r, n') \<Longrightarrow> r \<noteq> Inl Undefined_Behaviour \<Longrightarrow> 0 < n_max_undo n' \<Longrightarrow> node_run S e n0 n'"
| node_generate: "node_run S e n0 n \<Longrightarrow> generate_block S e skip time miner key n = Some (Inr b, n') \<Longrightarrow> 0 < n_max_undo n' \<Longrightarrow> node_run S e n0 n'"
| node_clear: "node_run S e n0 n \<Longrightarrow> clear_pending n = Inr n' \<Longrightarrow> node_run S e n0 n'"

lemma push_transaction_ok:
  assumes "node_ok S e n" and "0 < n_max_undo n" and "push_transaction S e skip trx n = (r, n')" and "r \<noteq> Inl Undefined_Behaviour"
  shows "node_ok S e n' \<and> 0 < n_max_undo n' \<and> same_chain n n'"
  using assms push_inner_ok [OF assms(1,2) _ assms(4)] by (auto simp: push_transaction_def same_chain_def split: if_splits)

lemma push_block_ok:
  assumes "sessions_ok n" and "push_block S e skip b n = Some (r, n')" and "r \<noteq> Inl Undefined_Behaviour" and "0 < n_max_undo n'"
  shows "node_ok S e n' \<and> (past_ok S e n \<longrightarrow> past_ok S e n')"
  by (rule push_block_parts [OF assms]) blast

lemma generate_ok:
  assumes "node_ok S e n" and "0 < n_max_undo n" and "generate_block S e skip time miner key n = Some (Inr b, n')" and "0 < n_max_undo n'"
  shows "node_ok S e n' \<and> (past_ok S e n \<longrightarrow> past_ok S e n')"
proof -
  from assms(3) obtain txs n1 r where c: "collect_transactions S e skip n = Inr (txs, n1)" and p: "push_block S e skip b n1 = Some (Inr r, n')"
    by (auto simp: generate_block_def Let_def split: sum.splits prod.splits if_splits option.splits)
  note co = collect_sessions [OF assms(1,2) c]
  show ?thesis using push_block_ok [OF co(1) p _ assms(4)] co(6) by simp
qed

lemma validate_size: "validate_transaction S e skip trx n = (r, n') \<Longrightarrow> n_max_undo n' = n_max_undo n"
  by (auto simp: validate_transaction_def apply_in_session_def start_session_def undo_session_Inr split: sum.splits if_splits prod.splits)

text \<open>
  C5. The invariant of the node, over every run of transactions and blocks pushed, accepted or refused,
  fork switches, and blocks generated with success (a generated block that is too big leaves the queued
  transactions without their session and is not part of a run): at most the session of the pending
  transactions is open; the database is the state of the head with exactly the pending transactions
  applied, in their order; and the state of the head is what a block makes of the saved state below it,
  and so on down the history, so that no pending transaction ever gets into the chain but in a block.
\<close>

theorem pending_transactions_invariant:
  assumes "node_run S e n0 n" and "node_ok S e n0" and "past_ok S e n0" and "0 < n_max_undo n0"
  shows "node_ok S e n \<and> past_ok S e n \<and> 0 < n_max_undo n"
  using assms
proof (induction rule: node_run.induct)
  case node_start
  then show ?case by simp
next
  case (node_transaction n skip trx r n')
  then show ?case using push_transaction_ok same_chain_history by blast
next
  case (node_validate n skip trx r n')
  then show ?case using validate_ok validate_size by metis
next
  case (node_block n skip b r n')
  then show ?case using push_block_ok ok_sessions by blast
next
  case (node_generate n skip time miner key b n')
  then show ?case using generate_ok by blast
next
  case (node_clear n n')
  then have ok: "node_ok S e n" "0 < n_max_undo n" "past_ok S e n" by simp_all
  obtain n0' where "clear_pending n = Inr n0'" "node_clean n0'" "same_chain n n0'"
    by (rule clear_pending_clean [OF ok_sessions [OF ok(1)]])
  then show ?case using node_clear.hyps(2) ok clean_ok(1) same_chain_history by (auto simp: same_chain_def)
qed

end
