(* ===== verification/Fork_Switch.thy ===== *)
theory Fork_Switch
  imports Chain_Node_Correct
begin

text \<open>
  Switching to another branch: what state it leads to, what a failed switch leaves, and where the
  fork database and the database part.
\<close>

section \<open>Going back\<close>

definition history :: "node \<Rightarrow> database list" where
  "history n = n_db n # n_undo n"

definition at_block :: "block_id_type \<Rightarrow> database \<Rightarrow> bool" where
  "at_block i d \<longleftrightarrow> head_block_id (dgpo (ledger d)) = i"

text \<open>On a node without sessions \<open>pop\_block\<close> takes one step back in the history and in the fork database.\<close>

lemma pop_block_back:
  assumes "pop_block e held n = (Inr u, n')" and "node_clean n"
  shows "history n' = tl (history n)" and "n_undo n \<noteq> []"
    and "\<exists>h q. fd_head (n_fork n) = Some h \<and> fi_prev (item (n_fork n) h) = Some q \<and> n_fork n' = (n_fork n)\<lparr>fd_head := Some q\<rparr>"
    and "n_max_undo n' = n_max_undo n"
proof -
  have r: "reset_pending n = Inr (n\<lparr>n_pending_session := False\<rparr>)" using assms(2) by (simp add: reset_pending_def node_clean_def)
  show "history n' = tl (history n)" "n_undo n \<noteq> []" "n_max_undo n' = n_max_undo n"
    "\<exists>h q. fd_head (n_fork n) = Some h \<and> fi_prev (item (n_fork n) h) = Some q \<and> n_fork n' = (n_fork n)\<lparr>fd_head := Some q\<rparr>"
    using assms(1) by (rule pop_block_Inr; auto simp: r history_def fork_pop_held_def)+
qed

lemma pop_block_db: "pop_block e held n = (r, n') \<Longrightarrow> node_clean n \<Longrightarrow> n_db n' = n_db n \<or> n_db n' \<in> set (n_undo n)"
proof -
  let ?P = "\<lambda>m. (n_db m = n_db n \<and> n_undo m = n_undo n \<or> n_db m \<in> set (n_undo n)) \<and> \<not> n_pending_session m \<and> set (n_undo m) \<subseteq> set (n_undo n)"
  have "keeps ?P (pop_block e held)"
    unfolding pop_block_def
    by (intro keeps_then_do keeps_change keeps_case_option)
      (auto simp: reset_pending_def fork_pop_def forget_block_def pop_undo_Inr)
  then show "pop_block e held n = (r, n') \<Longrightarrow> node_clean n \<Longrightarrow> n_db n' = n_db n \<or> n_db n' \<in> set (n_undo n)"
    using keepsD [of ?P "pop_block e held" n r n'] by (auto simp: node_clean_def)
qed

lemma pop_until_back:
  "pop_until e held i n = (Inr u, n') \<Longrightarrow> node_clean n \<Longrightarrow>
    node_clean n' \<and> find (at_block i) (history n) = Some (n_db n') \<and> at_block i (n_db n') \<and>
    set (history n') \<subseteq> set (history n) \<and> n_max_undo n' = n_max_undo n"
proof (induction e held i n rule: pop_until.induct)
  case (1 e held i n)
  show ?case
  proof (cases "head_id n = i")
    case True
    then show ?thesis using 1(2,3) by (simp add: pop_until.simps [of e held i n] history_def at_block_def)
  next
    case False
    obtain r n1 where p: "pop_block e held n = (r, n1)" by fastforce
    with False 1(2) have r: "r = Inr ()" "pop_until e held i n1 = (Inr u, n')"
      by (cases r; simp add: pop_until.simps [of e held i n])+
    have c: "node_clean n1" by (rule keepsD [OF pop_block_clean 1(3) p])
    have p': "pop_block e held n = (Inr (), n1)" using p r(1) by simp
    note b = pop_block_back [OF p' 1(3)]
    have "find (at_block i) (history n) = find (at_block i) (history n1)" "set (history n1) \<subseteq> set (history n)"
      using False b(1) by (auto simp: history_def at_block_def)
    with 1(1) [OF False p' [symmetric] refl r(2) c] b(4) show ?thesis by auto
  qed
qed

text \<open>Closing goes back in the history and ends at a saved state, with no session open.\<close>

lemma forget_popped_clean [simp]: "node_clean (forget_popped i n) = node_clean n" "history (forget_popped i n) = history n"
  by (simp_all add: node_clean_def forget_popped_def Let_def history_def split: sum.splits)

lemma rewind_back: "node_clean n \<Longrightarrow> node_clean (rewind e cutoff n) \<and> n_db (rewind e cutoff n) \<in> set (history n)"
proof (induction e cutoff n rule: rewind.induct)
  case (1 e cutoff n)
  show ?case
  proof (cases "head_block_num (ledger (n_db n)) \<le> cutoff")
    case True
    then show ?thesis using 1(2) by (simp add: rewind.simps [of e cutoff n] history_def)
  next
    case False
    obtain r n1 where p: "pop_block e [] n = (r, n1)" by fastforce
    have c: "node_clean n1" by (rule keepsD [OF pop_block_clean 1(2) p])
    show ?thesis
    proof (cases r)
      case (Inl err)
      have "n_db n1 = n_db n \<or> n_db n1 \<in> set (n_undo n)" using pop_block_db [OF p] 1(2) by blast
      then show ?thesis using False p Inl c by (simp add: rewind.simps [of e cutoff n] history_def)
    next
      case (Inr u)
      then have p': "pop_block e [] n = (Inr (), n1)" using p by simp
      have "set (history n1) \<subseteq> set (history n)" using pop_block_back(1) [OF p' 1(2)] by (auto simp: history_def)
      moreover have "node_clean (forget_popped (head_id n) n1)" using c by simp
      ultimately show ?thesis using 1(1) [OF False p' [symmetric] refl] False p'
        by (auto simp: rewind.simps [of e cutoff n])
    qed
  qed
qed

text \<open>The first state of the history at a block stays the one it was, or is forgotten.\<close>

definition pinned :: "block_id_type \<Rightarrow> database \<Rightarrow> node \<Rightarrow> bool" where
  "pinned i s n \<longleftrightarrow> (\<forall>t. find (at_block i) (history n) = Some t \<longrightarrow> t = s)"

lemma find_take: "find P (take k xs) = Some t \<Longrightarrow> find P xs = Some t"
  by (induction xs arbitrary: k) (auto simp: take_Cons split: nat.splits if_splits)

lemma pinned_append:
  assumes run: "append_block S e skip j b n = Some (r, n')" and "pinned i s n" and "r \<noteq> Inl Undefined_Behaviour"
    and "\<And>k d. apply_block S (ne_block e) skip b (n_db n) = Some (Inr (k, d)) \<Longrightarrow> \<not> at_block i d"
  shows "pinned i s n'"
proof (cases "apply_block S (ne_block e) skip b (n_db n)")
  case None
  then show ?thesis using run by (simp add: append_block_eq)
next
  case (Some q)
  show ?thesis
  proof (cases q)
    case (Inl err)
    with run assms(3) Some have "n' = (with_history S e skip b n)\<lparr>n_undo := trimmed n\<rparr>"
      by (auto simp: append_block_eq split: if_splits)
    then show ?thesis using assms(2) find_take [of "at_block i" "n_max_undo n" "n_undo n"]
      by (auto simp: pinned_def history_def trimmed_def Let_def split: if_splits)
  next
    case (Inr x)
    obtain k d where "x = (k, d)" by (cases x)
    with run Some Inr have "history n' = d # n_db n # take (n_max_undo n) (n_undo n)" "\<not> at_block i d"
      using assms(4) by (auto simp: append_block_eq history_def)
    then show ?thesis using assms(2) find_take [of "at_block i" "n_max_undo n" "n_undo n"]
      by (auto simp: pinned_def history_def split: if_splits)
  qed
qed

section \<open>Blocks one after another\<close>

fun apply_blocks :: "safe \<Rightarrow> block_env \<Rightarrow> skip_flags \<Rightarrow> block list \<Rightarrow> database \<Rightarrow> database res option" where
  "apply_blocks S e skip [] d = Some (Inr d)"
| "apply_blocks S e skip (b # bs) d =
     (case apply_block S e skip b d of
        None \<Rightarrow> None
      | Some (Inl err) \<Rightarrow> Some (Inl err)
      | Some (Inr (k, d1)) \<Rightarrow> apply_blocks S e skip bs d1)"

lemma append_db: "append_block S e skip j b n = Some (Inr u, n') \<Longrightarrow> \<exists>k. apply_block S (ne_block e) skip b (n_db n) = Some (Inr (k, n_db n'))"
  by (auto simp: append_block_eq split: option.splits sum.splits)

lemma push_branch_db:
  "push_branch S e skip xs n = Some (None, n') \<Longrightarrow> apply_blocks S (ne_block e) skip (map fi_data xs) (n_db n) = Some (Inr (n_db n'))"
proof (induction xs arbitrary: n)
  case (Cons x xs)
  from Cons.prems obtain u n1 where a: "append_block S e skip (fi_id x) (fi_data x) n = Some (Inr u, n1)"
    and p: "push_branch S e skip xs n1 = Some (None, n')" by (auto split: option.splits sum.splits)
  show ?case using append_db [OF a] Cons.IH [OF p] by auto
qed simp

lemma restore_branch_db:
  "apply_blocks S (ne_block e) skip (map fi_data xs) (n_db n) = Some (Inr d) \<Longrightarrow>
    \<exists>n'. restore_branch S e skip j xs n = Some (Inr (), n') \<and> n_db n' = d"
proof (induction xs arbitrary: n)
  case (Cons x xs)
  from Cons.prems obtain k d1 where a: "apply_block S (ne_block e) skip (fi_data x) (n_db n) = Some (Inr (k, d1))"
    and r: "apply_blocks S (ne_block e) skip (map fi_data xs) d1 = Some (Inr d)" by (auto split: option.splits sum.splits)
  let ?n1 = "(store_block e j (fi_data x) (with_history S e skip (fi_data x) n))\<lparr>n_db := d1, n_undo := n_db n # take (n_max_undo n) (n_undo n)\<rparr>"
  have "append_block S e skip j (fi_data x) n = Some (Inr (), ?n1)" using a by (simp add: append_block_eq)
  then show ?case using Cons.IH [of ?n1] r by simp
qed simp

text \<open>Blocks that are applied are heads afterwards.\<close>

lemma applied_head:
  assumes "proposals_ok d" and "apply_block S e skip b d = Some (Inr (k, d'))"
  shows "at_block (block_id (be_header_hash e) b) d'" and "proposals_ok d'"
proof -
  from assms(2) obtain skip' where "apply_block_with S e skip' b d = Some (Inr (k, d'))"
    by (auto simp: apply_block_def split: sum.splits)
  then show "at_block (block_id (be_header_hash e) b) d'" "proposals_ok d'"
    by (rule block_parts [OF assms(1)]; simp add: headed_def at_block_def)+
qed

lemma applied_blocks_head:
  "proposals_ok d \<Longrightarrow> apply_blocks S e skip bs d = Some (Inr d') \<Longrightarrow> bs \<noteq> [] \<Longrightarrow>
    at_block (block_id (be_header_hash e) (last bs)) d' \<and> proposals_ok d'"
proof (induction bs arbitrary: d)
  case (Cons b bs)
  from Cons.prems obtain k d1 where a: "apply_block S e skip b d = Some (Inr (k, d1))"
    and r: "apply_blocks S e skip bs d1 = Some (Inr d')" by (auto split: option.splits sum.splits)
  note h = applied_head [OF Cons.prems(1) a]
  show ?case
  proof (cases "bs = []")
    case True
    then show ?thesis using r h by simp
  next
    case False
    then show ?thesis using Cons.IH [OF h(2) r] by simp
  qed
qed simp

lemma push_branch_pinned:
  "push_branch S e skip xs n = Some (f, n') \<Longrightarrow> pinned i s n \<Longrightarrow> proposals_ok (n_db n) \<Longrightarrow>
    \<forall>x \<in> set xs. block_id (node_hash e) (fi_data x) \<noteq> i \<Longrightarrow> (\<forall>g. f = Some g \<longrightarrow> fst g \<noteq> Undefined_Behaviour) \<Longrightarrow> pinned i s n'"
proof (induction xs arbitrary: n)
  case (Cons x xs)
  then obtain r n1 where r: "append_block S e skip (fi_id x) (fi_data x) n = Some (r, n1)" by (auto split: option.splits)
  have ub: "r \<noteq> Inl Undefined_Behaviour" using Cons.prems(1,5) r by auto
  have p: "pinned i s n1"
    by (rule pinned_append [OF r Cons.prems(2) ub])
      (use applied_head(1) [OF Cons.prems(3)] Cons.prems(4) in \<open>auto simp: at_block_def\<close>)
  show ?case
  proof (cases r)
    case (Inl err)
    then show ?thesis using Cons.prems(1) r p by auto
  next
    case (Inr u)
    then have "proposals_ok (n_db n1)" using append_db r applied_head(2) [OF Cons.prems(3)] by blast
    then show ?thesis using Cons.IH [of n1] p Inr r Cons.prems(1,4,5) by simp
  qed
qed simp

section \<open>The items of the fork database\<close>

text \<open>Blocks that come and go do not touch the items, and do not move the head of the fork database forward.\<close>

lemma set_max_size_same [simp]: "fd_store (fork_set_max_size k fd) = fd_store fd" "fd_head (fork_set_max_size k fd) = fd_head fd"
  by (auto simp: fork_set_max_size_def Let_def split: option.splits)

lemma append_fork:
  assumes "append_block S e skip j b n = Some (r, n')"
  shows "fd_store (n_fork n') = fd_store (n_fork n)" and "fd_head (n_fork n') = fd_head (n_fork n)"
proof -
  have h: "fd_store (n_fork (with_history S e skip b m)) = fd_store (n_fork m)" "fd_head (n_fork (with_history S e skip b m)) = fd_head (n_fork m)" for m
    by (cases "history_size S (ne_block e) skip b (n_db m)"; simp add: with_history_def set_history_def)+
  show "fd_store (n_fork n') = fd_store (n_fork n)" "fd_head (n_fork n') = fd_head (n_fork n)"
    using assms by (auto simp: append_block_eq h store_block_def start_session_def split: option.splits sum.splits if_splits)
qed

lemma push_branch_fork:
  "push_branch S e skip xs n = Some (f, n') \<Longrightarrow> fd_store (n_fork n') = fd_store (n_fork n) \<and> fd_head (n_fork n') = fd_head (n_fork n)"
proof (induction xs arbitrary: n)
  case (Cons x xs)
  then obtain r n1 where r: "append_block S e skip (fi_id x) (fi_data x) n = Some (r, n1)" by (auto split: option.splits)
  then show ?case using Cons append_fork [OF r] by (cases r) auto
qed simp

lemma push_branch_items: "push_branch S e skip xs n = Some (f, n') \<Longrightarrow> item (n_fork n') = item (n_fork n)"
  using push_branch_fork by (fastforce simp: item_def)

lemma pop_until_items: "pop_until e held i n = (Inr u, n') \<Longrightarrow> item (n_fork n') = item (n_fork n)"
proof (induction e held i n rule: pop_until.induct)
  case (1 e held i n)
  show ?case
  proof (cases "head_id n = i")
    case True
    then show ?thesis using 1(2) by (simp add: pop_until.simps [of e held i n])
  next
    case False
    obtain r n1 where p: "pop_block e held n = (r, n1)" by fastforce
    with False 1(2) have r: "r = Inr ()" "pop_until e held i n1 = (Inr u, n')"
      by (cases r; simp add: pop_until.simps [of e held i n])+
    have p': "pop_block e held n = (Inr (), n1)" using p r(1) by simp
    have "item (n_fork n1) = item (n_fork n)"
      using p' by (rule pop_block_Inr) (auto simp: fork_pop_held_def reset_pending_def undo_session_Inr item_def fun_eq_iff split: if_splits)
    then show ?thesis using 1(1) [OF False p' [symmetric] refl r(2)] by simp
  qed
qed

section \<open>A switch\<close>

lemma switch_parts:
  assumes "switch_branch S e skip b first second n = Some (r, n')" and "node_clean n"
    and "pop_until e (first @ second) (previous_id (last (map (item (n_fork n)) second))) n = (Inr u, n1)"
  obtains f n2 where "push_branch S e skip (rev (map (item (n_fork n)) first)) n1 = Some (f, n2)"
    and "f = None \<longrightarrow> r = Inr True \<and> n' = n2"
    and "\<forall>g. f = Some g \<longrightarrow> (if fst g = Undefined_Behaviour then r = Inl Undefined_Behaviour
      else abandon_branch S e skip b first second g n2 = Some (r, n'))"
  using assms by (auto simp: switch_branch_def Let_def split: option.splits if_splits)

lemma switched_branch:
  assumes run: "switch_branch S e skip b first second n = Some (Inr True, n')" and clean: "node_clean n"
  shows "\<exists>s. find (at_block (previous_id (last (map (item (n_fork n)) second)))) (history n) = Some s \<and>
    apply_blocks S (ne_block e) skip (map (\<lambda>p. fi_data (item (n_fork n) p)) (rev first)) s = Some (Inr (n_db n'))"
proof -
  let ?i = "previous_id (last (map (item (n_fork n)) second))"
  obtain q n1 where q: "pop_until e (first @ second) ?i n = (q, n1)" by fastforce
  then obtain u where u: "pop_until e (first @ second) ?i n = (Inr u, n1)"
    using run by (cases q) (auto simp: switch_branch_def Let_def)
  obtain f n2 where p: "push_branch S e skip (rev (map (item (n_fork n)) first)) n1 = Some (f, n2)"
    and N: "f = None \<longrightarrow> Inr True = (Inr True :: bool res) \<and> n' = n2"
    and G: "\<forall>g. f = Some g \<longrightarrow> (if fst g = Undefined_Behaviour then Inr True = (Inl Undefined_Behaviour :: bool res)
      else abandon_branch S e skip b first second g n2 = Some (Inr True, n'))"
    by (rule switch_parts [OF run clean u])
  have "f = None"
    using G by (cases f) (auto simp: abandon_branch_def Let_def split: if_splits prod.splits sum.splits option.splits)
  with p N push_branch_db have "apply_blocks S (ne_block e) skip (map fi_data (rev (map (item (n_fork n)) first))) (n_db n1) = Some (Inr (n_db n'))"
    by blast
  then show ?thesis using pop_until_back [OF u clean] by (simp add: rev_map comp_def)
qed

text \<open>
  C7. A switch to another branch. When pushing a block makes the node switch, the block has made another
  branch of the fork database longer than the chain, and the state of the head afterwards is what the
  blocks of that branch give, one after another, from a state the node had saved at the block where
  the branch leaves the old one.
\<close>

theorem switched_to_branch:
  assumes "sessions_ok n" and "0 < n_max_undo n'" and "push_block S e skip b n = Some (Inr True, n')"
  shows "\<exists>h fd first second s. fork_push_block (node_hash e) b (n_fork n) = Inr (Some h, fd) \<and>
    head_block_num (ledger (head_state n)) < block_num (fi_data (item fd h)) \<and>
    fetch_branch_from (block_id (node_hash e) (fi_data (item fd h))) (head_block_id (dgpo (ledger (head_state n)))) fd = Some (Inr (first, second)) \<and>
    s \<in> set (n_db n # n_undo n) \<and> head_block_id (dgpo (ledger s)) = previous_id (last (map (item fd) second)) \<and>
    apply_blocks S (ne_block e) skip (map (\<lambda>p. fi_data (item fd p)) (rev first)) s = Some (Inr (head_state n'))"
proof -
  have ub: "Inr True \<noteq> Inl Undefined_Behaviour" by simp
  obtain n0 n1 where c: "clear_pending n = Inr n0" "node_clean n0" "n_db n0 = head_state n" "same_chain n n0"
    and i: "push_block_inner S e skip b n0 = Some (Inr True, n1)" and k: "node_clean n1" "same_chain n1 n'"
    by (rule push_block_parts [OF assms(1,3) ub assms(2)])
  have h: "set (history n0) \<subseteq> set (n_db n # n_undo n)"
    using c(1) by (auto simp: clear_pending_def reset_pending_def undo_session_Inr history_def split: if_splits)
  have nf: "n_fork n0 = n_fork n" using c(4) by (simp add: same_chain_def)
  have ne: "extend_chain S e skip b m \<noteq> Some (Inr True, n1)" for m
    by (auto simp: extend_chain_def leave_session_def Let_def split: option.splits sum.splits if_splits)
  from i ne nf obtain h fd first second where f: "fork_push_block (node_hash e) b (n_fork n) = Inr (Some h, fd)"
    and num: "head_block_num (ledger (n_db n0)) < block_num (fi_data (item fd h))"
    and br: "fetch_branch_from (block_id (node_hash e) (fi_data (item fd h))) (head_id n0) fd = Some (Inr (first, second))"
    and sw: "switch_branch S e skip b first second (n0\<lparr>n_fork := fd\<rparr>) = Some (Inr True, n1)"
    by (auto simp: push_block_inner_def switch_fork_def Let_def split: if_splits sum.splits option.splits prod.splits)
  obtain s where s: "find (at_block (previous_id (last (map (item fd) second)))) (history n0) = Some s"
    and a: "apply_blocks S (ne_block e) skip (map (\<lambda>p. fi_data (item fd p)) (rev first)) s = Some (Inr (n_db n1))"
    using switched_branch [OF sw] c(2) by (auto simp: history_def)
  have "s \<in> set (history n0)" "at_block (previous_id (last (map (item fd) second))) s" using s by (auto simp: find_Some_iff)
  moreover have "n_db n1 = head_state n'" using k clean_ok(2) [OF k(1)] by (simp add: same_chain_def)
  ultimately show ?thesis using f num br a h c(3) by (auto simp: at_block_def)
qed

text \<open>
  C8. A failed switch is unwound. Let the state before be what the blocks of the old branch give from the
  state saved at the block where the branches part. When a block of the new branch fails, the node
  applies the old branch again and ends in the very state it had; unless taking back the blocks of the
  new branch raises, which then is the error reported.
\<close>

theorem failed_switch_restores:
  assumes run: "switch_branch S e skip b first second n = Some (Inl err, n')" and clean: "node_clean n" and ub: "err \<noteq> Undefined_Behaviour"
    and s: "find (at_block (previous_id (last (map (item (n_fork n)) second)))) (history n) = Some s" and ok: "proposals_ok s"
    and old: "apply_blocks S (ne_block e) skip (map (\<lambda>p. fi_data (item (n_fork n) p)) (rev second)) s = Some (Inr (n_db n))"
    and fresh: "\<And>p. p \<in> set first \<Longrightarrow> block_id (node_hash e) (fi_data (item (n_fork n) p)) \<noteq> previous_id (last (map (item (n_fork n)) second))"
  shows "n_db n' = n_db n \<or>
    (\<exists>m. pop_until e (first @ second) (previous_id (last (map (item (n_fork n)) second))) m = (Inl err, n'))"
proof -
  let ?i = "previous_id (last (map (item (n_fork n)) second))"
  obtain q n1 where q: "pop_until e (first @ second) ?i n = (q, n1)" by fastforce
  show ?thesis
  proof (cases q)
    case (Inl err')
    then show ?thesis using run q by (auto simp: switch_branch_def Let_def)
  next
    case (Inr u)
    then have u: "pop_until e (first @ second) ?i n = (Inr u, n1)" using q by simp
    note bk = pop_until_back [OF u clean]
    have n1: "n_db n1 = s" using bk s by simp
    obtain f n2 where p: "push_branch S e skip (rev (map (item (n_fork n)) first)) n1 = Some (f, n2)"
      and N: "f = None \<longrightarrow> Inl err = (Inr True :: bool res) \<and> n' = n2"
      and G: "\<forall>g. f = Some g \<longrightarrow> (if fst g = Undefined_Behaviour then Inl err = (Inl Undefined_Behaviour :: bool res)
        else abandon_branch S e skip b first second g n2 = Some (Inl err, n'))"
      by (rule switch_parts [OF run clean u])
    obtain g where g: "f = Some g" "fst g \<noteq> Undefined_Behaviour" and ab: "abandon_branch S e skip b first second g n2 = Some (Inl err, n')"
      using N G ub by (cases f) (auto split: if_splits)
    have items: "item (n_fork n2) = item (n_fork n)" using push_branch_items [OF p] pop_until_items [OF u] by simp
    have pin: "pinned ?i s n1" using bk n1 by (simp add: pinned_def history_def)
    have "pinned ?i s n2"
      by (rule push_branch_pinned [OF p pin]) (use ok n1 fresh g in auto)
    moreover have c2: "node_clean n2" by (rule push_branch_clean [OF _ p]) (use bk g in auto)
    let ?n = "n2\<lparr>n_fork := fork_set_head (Some (hd second)) (drop_items e (snd g) (n_fork n2))\<rparr>"
    obtain t n3 where t: "pop_until e (first @ second) ?i ?n = (t, n3)" by fastforce
    show ?thesis
    proof (cases t)
      case (Inl err')
      then show ?thesis using ab t by (auto simp: abandon_branch_def Let_def items)
    next
      case (Inr v)
      with t have "pop_until e (first @ second) ?i ?n = (Inr v, n3)" by simp
      from pop_until_back [OF this] c2 have "find (at_block ?i) (history ?n) = Some (n_db n3)" by simp
      with \<open>pinned ?i s n2\<close> have "n_db n3 = s" by (auto simp: pinned_def history_def)
      with restore_branch_db [of S e skip "rev (map (item (n_fork n)) second)" n3 "n_db n" "block_id (node_hash e) b"] old
      obtain n4 where "restore_branch S e skip (block_id (node_hash e) b) (rev (map (item (n_fork n)) second)) n3 = Some (Inr (), n4)"
        "n_db n4 = n_db n" by (auto simp: rev_map comp_def)
      then show ?thesis using ab t Inr by (auto simp: abandon_branch_def Let_def items)
    qed
  qed
qed

section \<open>The head of the fork database\<close>

lemma item_prev_num:
  assumes ok: "\<forall>x \<in> set (fd_store fd). item_ok H fd x" and h: "h < length (fd_store fd)" and q: "fi_prev (item fd h) = Some q"
  shows "q < length (fd_store fd)" and "fi_num (item fd h) = Suc (fi_num (item fd q))"
proof -
  have i: "item_ok H fd (item fd h)" using ok h by (simp add: item_def)
  then show l: "q < length (fd_store fd)" using q by (simp add: item_ok_def)
  have "item_ok H fd (item fd q)" using ok l by (simp add: item_def)
  then have "bid_num (fi_id (item fd q)) = fi_num (item fd q)" by (simp add: item_ok_def block_id_def)
  moreover have "fi_id (item fd q) = previous_id (item fd h)" "fi_num (item fd h) = Suc (bid_num (previous_id (item fd h)))"
    using i q by (simp_all add: item_ok_def)
  ultimately show "fi_num (item fd h) = Suc (fi_num (item fd q))" by simp
qed

text \<open>Every block that is popped moves the head of the fork database one item back, whichever branch it is on.\<close>

lemma pop_until_head:
  "pop_until e held i n = (Inr u, n') \<Longrightarrow> node_clean n \<Longrightarrow> fd_head (n_fork n) = Some h \<Longrightarrow> h < length (fd_store (n_fork n)) \<Longrightarrow>
    \<forall>x \<in> set (fd_store (n_fork n)). item_ok H (n_fork n) x \<Longrightarrow>
    \<exists>q. fd_head (n_fork n') = Some q \<and> fi_num (item (n_fork n) q) \<le> fi_num (item (n_fork n) h) \<and>
      (head_id n \<noteq> i \<longrightarrow> fi_num (item (n_fork n) q) < fi_num (item (n_fork n) h))"
proof (induction e held i n arbitrary: h rule: pop_until.induct)
  case (1 e held i n)
  show ?case
  proof (cases "head_id n = i")
    case True
    then show ?thesis using 1(2,4) by (simp add: pop_until.simps [of e held i n])
  next
    case False
    obtain r n1 where p: "pop_block e held n = (r, n1)" by fastforce
    with False 1(2) have r: "r = Inr ()" "pop_until e held i n1 = (Inr u, n')"
      by (cases r; simp add: pop_until.simps [of e held i n])+
    have c: "node_clean n1" by (rule keepsD [OF pop_block_clean 1(3) p])
    have p': "pop_block e held n = (Inr (), n1)" using p r(1) by simp
    from pop_block_back(3) [OF p' 1(3)] 1(4) obtain q where q: "fi_prev (item (n_fork n) h) = Some q"
      and n1: "n_fork n1 = (n_fork n)\<lparr>fd_head := Some q\<rparr>" by auto
    note num = item_prev_num [OF 1(6,5) q]
    have "\<exists>q'. fd_head (n_fork n') = Some q' \<and> fi_num (item (n_fork n1) q') \<le> fi_num (item (n_fork n1) q) \<and>
        (head_id n1 \<noteq> i \<longrightarrow> fi_num (item (n_fork n1) q') < fi_num (item (n_fork n1) q))"
      by (rule 1(1) [OF False p' [symmetric] refl r(2) c]) (use n1 num(1) 1(6) in simp_all)
    then show ?thesis using num(2) n1 by auto
  qed
qed

text \<open>The branch of the head ends above it.\<close>

lemma branch_below_head:
  assumes inv: "fork_inv H fd" and f: "fetch_branch_from i j fd = Some (Inr (first, second))"
  shows "first \<noteq> []" and "second \<noteq> []" and "previous_id (last (map (item fd) second)) \<noteq> j"
    and "fi_id (item fd (hd first)) = i" and "hd first < length (fd_store fd)"
proof -
  from fetch_branch_law [OF inv, of i j] f obtain as bs p q x y where fs: "first = as @ [x]" "second = bs @ [y]"
    and p: "p \<in> set (fd_index fd)" "fi_id (item fd p) = i" "path fd p as x"
    and q: "q \<in> set (fd_index fd)" "fi_id (item fd q) = j" "path fd q bs y" by force
  show "first \<noteq> []" "second \<noteq> []" using fs by simp_all
  have l: "p < length (fd_store fd)" "q < length (fd_store fd)" using p(1) q(1) fork_invD(2) [OF inv] by (auto simp: index_ok_def)
  note e = path_end [OF inv l(2) q(3)]
  have "hd first = p" using p(3) fs by (cases as) auto
  then show "fi_id (item fd (hd first)) = i" "hd first < length (fd_store fd)" using p(2) l(1) by simp_all
  have "item_ok H fd (item fd q)" "item_ok H fd (item fd y)" using fork_invD(1) [OF inv] l(2) e by auto
  then have "bid_num j = num_at fd q" "num_at fd y = Suc (bid_num (previous_id (item fd y)))"
    using q(2) by (auto simp: item_ok_def block_id_def)
  then show "previous_id (last (map (item fd) second)) \<noteq> j" using e fs(2) by auto
qed

text \<open>
  C38. After a switch the fork database is behind. The node then is at the block it has switched to, but
  the head of the fork database, which was that block, has been moved back along the new branch once
  for every block of the old branch that was popped.
\<close>

theorem fork_head_lags:
  assumes clean: "node_clean n" and inv: "fork_inv (node_hash e) (n_fork n)" and props: "\<forall>d \<in> set (n_db n # n_undo n). proposals_ok d"
    and h: "fd_head (n_fork n) = Some h" "fi_id (item (n_fork n) h) = i"
    and run: "switch_fork S e skip b i n = Some (Inr True, n')"
  shows "head_block_id (dgpo (ledger (n_db n'))) = i \<and>
    (\<exists>q. fd_head (n_fork n') = Some q \<and> fi_num (item (n_fork n') q) < bid_num i)"
proof -
  obtain first second where f: "fetch_branch_from i (head_id n) (n_fork n) = Some (Inr (first, second))"
    and sw: "switch_branch S e skip b first second n = Some (Inr True, n')"
    using run by (auto simp: switch_fork_def split: option.splits sum.splits)
  note br = branch_below_head [OF inv f]
  let ?i = "previous_id (last (map (item (n_fork n)) second))"
  obtain s where s: "find (at_block ?i) (history n) = Some s"
    and a: "apply_blocks S (ne_block e) skip (map (\<lambda>p. fi_data (item (n_fork n) p)) (rev first)) s = Some (Inr (n_db n'))"
    using switched_branch [OF sw clean] by blast
  have "s \<in> set (history n)" using s by (auto simp: find_Some_iff)
  then have "proposals_ok s" using props by (auto simp: history_def)
  from applied_blocks_head [OF this a] br(1)
  have "at_block (block_id (node_hash e) (fi_data (item (n_fork n) (hd first)))) (n_db n')" by (simp add: last_map last_rev)
  moreover have "block_id (node_hash e) (fi_data (item (n_fork n) (hd first))) = i"
    using fork_invD(1) [OF inv br(5)] br(4) by (simp add: item_ok_def)
  ultimately have head: "head_id n' = i" by (simp add: at_block_def)
  have hl: "h < length (fd_store (n_fork n))" using inv h(1) by (simp add: fork_inv_def)
  have hn: "fi_num (item (n_fork n) h) = bid_num i"
    using fork_invD(1) [OF inv hl] h(2) by (auto simp: item_ok_def block_id_def)
  obtain q n1 where "pop_until e (first @ second) ?i n = (q, n1)" by fastforce
  then obtain u where u: "pop_until e (first @ second) ?i n = (Inr u, n1)"
    using sw by (cases q) (auto simp: switch_branch_def Let_def)
  have st: "\<forall>x \<in> set (fd_store (n_fork n)). item_ok (node_hash e) (n_fork n) x" using inv by (simp add: fork_inv_def)
  obtain q where q: "fd_head (n_fork n1) = Some q" "fi_num (item (n_fork n) q) < fi_num (item (n_fork n) h)"
    using pop_until_head [OF u clean h(1) hl st] br(3) by auto
  obtain fl n2 where p: "push_branch S e skip (rev (map (item (n_fork n)) first)) n1 = Some (fl, n2)" and "n' = n2"
    using sw u by (auto simp: switch_branch_def Let_def abandon_branch_def split: option.splits if_splits prod.splits sum.splits)
  then have "fd_head (n_fork n') = Some q" "item (n_fork n') = item (n_fork n)"
    using q(1) push_branch_fork [OF p] push_branch_items [OF p] pop_until_items [OF u] by simp_all
  then show ?thesis using head q(2) hn by simp
qed

section \<open>A refused block\<close>

lemma wrong_parent:
  assumes "b_previous b \<noteq> head_block_id (dgpo (ledger d))"
  shows "apply_block S e skip b d = Some (Inl Assert_Exception)"
proof (cases "checkpoint_skip e skip b")
  case (Inl err)
  then show ?thesis by (auto simp: apply_block_def checkpoint_skip_def Let_def split: if_splits)
next
  case (Inr s)
  have "validate_block_header e s b (ledger d) = Inl Assert_Exception" using assms by (simp add: validate_block_header_def require_def)
  then have "begin_block S e s b d = Inl Assert_Exception" by (simp add: begin_block_def require_def bindE_def)
  then show ?thesis using Inr by (simp add: apply_block_def apply_block_with_def)
qed

lemma refused_history: "validate_block_header e s b (ledger d) = Inl err \<Longrightarrow> checkpoint_skip e skip b = Inr s \<Longrightarrow> history_size S e skip b d = None"
  by (auto simp: history_size_def bindE_def require_def)

text \<open>
  C39. A refused block keeps its place as the head of the fork database, although it is removed from the
  index. As long as it is there, a block of a competing branch that is not higher is taken for the
  successor of the head: it is applied, fails, and is removed from the fork database, instead of being
  kept for a later switch.
\<close>

theorem competing_block_dropped:
  assumes "sessions_ok n" and "0 < n_max_undo n'" and "\<not> skips skip skip_fork_db"
    and "fork_push_block (node_hash e) b (n_fork n) = Inr (Some h, fd)"
    and "b_previous (fi_data (item fd h)) = head_block_id (dgpo (ledger (head_state n)))"
    and "b_previous b \<noteq> head_block_id (dgpo (ledger (head_state n)))"
    and "push_block S e skip b n = Some (r, n')" and "r \<noteq> Inl Undefined_Behaviour"
  shows "r = Inl Assert_Exception \<and> head_state n' = head_state n \<and>
    find_by_id (n_fork n') (fd_index (n_fork n')) (block_id (node_hash e) b) = None"
  using push_block_extends [OF assms(1,2,8,7)] assms(4,5) wrong_parent [OF assms(6)] by (auto simp: extended_def)

end
