(* ===== verification/Chain_Replay.thy ===== *)
theory Chain_Replay
  imports Fork_Switch
begin

unbundle bit_operations_syntax

text \<open>
  \<open>database::reindex\<close> of \<open>db\_management.cpp\<close>: the stored blocks applied again, from the state that
  genesis gives, which is a parameter. The undo database is disabled meanwhile.
\<close>

section \<open>Replaying\<close>

definition reindex_skip :: skip_flags where
  "reindex_skip = skip_miner_signature OR skip_transaction_signatures OR skip_transaction_dupe_check OR skip_tapos_check OR
     skip_miner_schedule_check OR skip_authority_check"

text \<open>The blocks behind a gap are dropped, from the last one back; \<open>None\<close> would be a loop that does not end.\<close>

partial_function (option) drop_after :: "nat \<Rightarrow> block_database \<Rightarrow> block_database res option" where
  "drop_after i bd =
     (case bd_last_id bd of
        None \<Rightarrow> Some (Inr bd)
      | Some last_id \<Rightarrow>
          if num_from_id last_id \<le> i then Some (Inr bd)
          else (case bd_remove last_id bd of Inl err \<Rightarrow> Some (Inl err) | Inr bd1 \<Rightarrow> drop_after i bd1))"

fun replay_blocks ::
  "safe \<Rightarrow> block_env \<Rightarrow> (bytes \<Rightarrow> block res) \<Rightarrow> nat list \<Rightarrow> database \<Rightarrow> block_database \<Rightarrow> (database \<times> block_database) res option" where
  "replay_blocks S e unpack [] d bd = Some (Inr (d, bd))"
| "replay_blocks S e unpack (i # rest) d bd =
     (case bd_fetch_by_number (be_header_hash e) unpack i bd of
        None \<Rightarrow> map_option (\<lambda>r. bindE r (\<lambda>bd1. Inr (d, bd1))) (drop_after i bd)
      | Some b \<Rightarrow>
          (case apply_block S e reindex_skip b d of
             None \<Rightarrow> None
           | Some (Inl err) \<Rightarrow> Some (Inl err)
           | Some (Inr (k, d1)) \<Rightarrow> replay_blocks S e unpack rest d1 bd))"

definition reindex ::
  "safe \<Rightarrow> block_env \<Rightarrow> (bytes \<Rightarrow> block res) \<Rightarrow> database \<Rightarrow> block_database \<Rightarrow> (database \<times> block_database) res option" where
  "reindex S e unpack genesis bd =
     (case bd_last unpack bd of
        None \<Rightarrow> Some (Inr (genesis, bd))
      | Some last_block \<Rightarrow> replay_blocks S e unpack [1..<Suc (block_num last_block)] genesis bd)"

section \<open>What it gives\<close>

lemma last_id_empty:
  assumes "files_hold H unpack bd Map.empty"
  shows "bd_last_id bd = None"
proof -
  have "\<forall>k < length (bd_block_num_to_pos bd). ie_block_size (bd_block_num_to_pos bd ! k) = 0"
    using holds_entry [OF assms] by (auto simp: entry_ok_def)
  then show ?thesis using last_entry_law [of bd] by (auto simp: bd_last_id_def)
qed

lemma holds_number:
  assumes "files_hold H unpack bd m" and "m k = Some b"
  shows "block_num b = k" and "k < length (bd_block_num_to_pos bd)"
proof -
  show k: "k < length (bd_block_num_to_pos bd)" using assms holds_outside [OF assms(1), of k] by (metis linorder_not_le option.distinct(1))
  show "block_num b = k" using holds_entry [OF assms(1) k] assms(2) by (simp add: entry_ok_def)
qed

lemma drop_after_holds:
  assumes codec: "\<not> succeeds (unpack [])"
  shows "files_hold H unpack bd m \<Longrightarrow> \<forall>k \<ge> n. m k = None \<Longrightarrow>
    \<exists>bd'. drop_after i bd = Some (Inr bd') \<and> files_hold H unpack bd' (\<lambda>k. if k \<le> i then m k else None)"
proof (induction n arbitrary: bd m rule: less_induct)
  case (less n)
  show ?case
  proof (cases "bd_last unpack bd")
    case None
    then have m: "m = Map.empty" using last_holds [OF codec less.prems(1)] by simp
    then have "bd_last_id bd = None" using last_id_empty less.prems(1) by blast
    moreover have "(\<lambda>k. if k \<le> i then m k else None) = m" by (simp add: m fun_eq_iff)
    ultimately show ?thesis using less.prems(1) by (simp add: drop_after.simps)
  next
    case (Some b)
    then obtain k where k: "m k = Some b" and id: "bd_last_id bd = Some (block_id H b)" and none: "\<forall>j > k. m j = None"
      using last_holds [OF codec less.prems(1)] by auto
    have num: "num_from_id (block_id H b) = k" and len: "k < length (bd_block_num_to_pos bd)"
      using holds_number [OF less.prems(1) k] by (simp_all add: num_from_id_def block_id_def)
    show ?thesis
    proof (cases "k \<le> i")
      case True
      then have "(\<lambda>j. if j \<le> i then m j else None) = m" using none by (auto simp: fun_eq_iff)
      then show ?thesis using less.prems(1) id num True by (simp add: drop_after.simps)
    next
      case False
      obtain bd1 where r: "bd_remove (block_id H b) bd = Inr bd1" using len num by (simp add: bd_remove_def Let_def)
      have h: "files_hold H unpack bd1 (m(k := None))" using remove_holds [OF less.prems(1) r] k num by simp
      have "k < n" using less.prems(2) k by (metis linorder_not_le option.distinct(1))
      moreover have "\<forall>j \<ge> k. (m(k := None)) j = None" using none by auto
      ultimately obtain bd' where "drop_after i bd1 = Some (Inr bd')"
        and "files_hold H unpack bd' (\<lambda>j. if j \<le> i then (m(k := None)) j else None)" using less.IH [OF _ h] by blast
      moreover have "(\<lambda>j. if j \<le> i then (m(k := None)) j else None) = (\<lambda>j. if j \<le> i then m j else None)" using False by auto
      ultimately show ?thesis using id num False r by (subst drop_after.simps) simp
    qed
  qed
qed

lemma replay_holds:
  assumes codec: "\<not> succeeds (unpack [])" and h: "files_hold (be_header_hash e) unpack bd m"
  shows "apply_blocks S e reindex_skip bs d = Some (Inr d') \<Longrightarrow> \<forall>j < length bs. m (i + j) = Some (bs ! j) \<Longrightarrow> m (i + length bs) = None \<Longrightarrow>
    i + length bs \<le> n \<Longrightarrow> \<forall>k \<ge> n. m k = None \<Longrightarrow>
    \<exists>bd'. replay_blocks S e unpack [i..<n] d bd = Some (Inr (d', bd')) \<and>
      files_hold (be_header_hash e) unpack bd' (\<lambda>k. if k \<le> i + length bs then m k else None)"
proof (induction bs arbitrary: i d)
  case Nil
  have m: "m i = None" using Nil.prems(3) by simp
  show ?case
  proof (cases "i = n")
    case True
    then have "(\<lambda>k. if k \<le> i then m k else None) = m" using Nil.prems(5) by (auto simp: fun_eq_iff)
    then show ?thesis using True Nil.prems(1) h by simp
  next
    case False
    then have "[i..<n] = i # [Suc i..<n]" using Nil.prems(4) by (simp add: upt_conv_Cons)
    moreover obtain bd' where "drop_after i bd = Some (Inr bd')" "files_hold (be_header_hash e) unpack bd' (\<lambda>k. if k \<le> i then m k else None)"
      using drop_after_holds [OF codec h Nil.prems(5)] by blast
    ultimately show ?thesis using Nil.prems(1) m fetch_by_number_holds [OF codec h] by simp
  qed
next
  case (Cons b bs)
  from Cons.prems(1) obtain k d1 where a: "apply_block S e reindex_skip b d = Some (Inr (k, d1))"
    and rest: "apply_blocks S e reindex_skip bs d1 = Some (Inr d')" by (auto split: option.splits sum.splits)
  have m: "m i = Some b" using Cons.prems(2) by force
  have "\<forall>j < length bs. m (Suc i + j) = Some (bs ! j)" using Cons.prems(2) by fastforce
  then obtain bd' where r: "replay_blocks S e unpack [Suc i..<n] d1 bd = Some (Inr (d', bd'))"
    and f: "files_hold (be_header_hash e) unpack bd' (\<lambda>k. if k \<le> Suc i + length bs then m k else None)"
    using Cons.IH [OF rest, of "Suc i"] Cons.prems(3-5) by auto
  have "[i..<n] = i # [Suc i..<n]" using Cons.prems(4) by (simp add: upt_conv_Cons)
  then show ?case using r f a m fetch_by_number_holds [OF codec h] by simp
qed

text \<open>
  C19. Reindexing gives the state that the stored blocks from the first one on give from genesis, up to the
  first gap, and always returns when these blocks can be applied. The blocks behind the gap are dropped
  from the storage; those before it stay.
\<close>

theorem reindex_replays_stored_blocks:
  assumes "\<not> succeeds (unpack [])" and "storage_run (be_header_hash e) pack unpack bd m"
    and "\<forall>j < length bs. m (Suc j) = Some (bs ! j)" and "m (Suc (length bs)) = None"
    and "apply_blocks S e reindex_skip bs genesis = Some (Inr d)"
  shows "\<exists>bd'. reindex S e unpack genesis bd = Some (Inr (d, bd')) \<and>
    (\<forall>k. bd_fetch_by_number (be_header_hash e) unpack k bd' = (if k \<le> length bs then m k else None))"
proof -
  note h = run_holds [OF assms(2)]
  have fetch: "\<forall>k. bd_fetch_by_number (be_header_hash e) unpack k bd' = (if k \<le> length bs then m k else None)"
    if "files_hold (be_header_hash e) unpack bd' (\<lambda>k. if k \<le> Suc (length bs) then m k else None)" for bd'
    using fetch_by_number_holds [OF assms(1) that] assms(4) by (auto simp: le_Suc_eq)
  show ?thesis
  proof (cases "bd_last unpack bd")
    case None
    then have e: "m = Map.empty" using last_holds [OF assms(1) h] by simp
    then have "bs = []" using assms(3) by (cases bs) auto
    then show ?thesis using None assms(5) e h fetch_by_number_holds [OF assms(1) h] by (simp add: reindex_def)
  next
    case (Some b)
    then obtain n where n: "m n = Some b" "\<forall>k > n. m k = None" using last_holds [OF assms(1) h] by auto
    have b: "block_num b = n" by (rule holds_number [OF h n(1)])
    have le: "length bs \<le> n"
    proof (rule ccontr)
      assume "\<not> length bs \<le> n"
      then show False using assms(3) n(2) by (metis lessI linorder_not_le option.distinct(1))
    qed
    have "\<forall>j < length bs. m (1 + j) = Some (bs ! j)" "m (1 + length bs) = None" "1 + length bs \<le> Suc n" "\<forall>k \<ge> Suc n. m k = None"
      using assms(3,4) n(2) le by auto
    from replay_holds [OF assms(1) h assms(5) this] Some b fetch show ?thesis by (auto simp: reindex_def simp del: upt_Suc)
  qed
qed

end
