(* ===== verification/Block_Demo.thy ===== *)
theory Block_Demo
  imports Block_Correct "HOL-Library.Code_Target_Nat"
begin

text \<open>
  Two blocks on the small chain, the first with a transfer, on which the theorems about blocks are
  evaluated.
\<close>

definition demo_block_env :: block_env where
  "demo_block_env = \<lparr>be_db = demo_db_env, be_trx_id = trx_expiration, be_recover = (\<lambda>trx sig. Inr sig),
     be_header_hash = (\<lambda>b. b_timestamp b), be_signee = b_miner_signature, be_prefix = (\<lambda>h. h),
     be_merkle_digest = trx_expiration, be_hash_pair = (\<lambda>x y. 2 * x + y), be_hash_root = (\<lambda>x. x),
     be_shl = (\<lambda>w n. push_bit n w), be_unsigned = (\<lambda>n. Inr (int n)), be_checkpoints = []\<rparr>"

definition demo_block_database :: database where
  "demo_block_database = demo_database\<lparr>
     ledger := demo_chain\<lparr>miners := \<lparr>g_next_id = 2, g_rows = [(0, demo_miner 4 0 0), (1, demo_miner 5 1 0)]\<rparr>,
       gpo := (gpo demo_chain)\<lparr>active_miners := [0, 1]\<rparr>, schedule := \<lparr>current_shuffled_miners = [0, 1]\<rparr>\<rparr>,
     block_summaries := \<lparr>g_next_id = 83, g_rows = [(80, Block_Id 80 0), (81, Block_Id 0 0), (82, Block_Id 0 0)]\<rparr>\<rparr>"

definition demo_payment :: processed_transaction where
  "demo_payment = \<lparr>ref_block_num = 80, ref_block_prefix = 0, trx_expiration = 430,
     trx_operations = [demo_transfer_proposed], trx_signatures = [7], operation_results = []\<rparr>"

definition demo_first_block :: block where
  "demo_first_block = \<lparr>b_previous = Block_Id 80 0, b_timestamp = 405, b_miner = 1, b_transaction_merkle_root = 1300,
     b_miner_signature = 0, b_transactions = [demo_payment, demo_payment\<lparr>trx_expiration := 440\<rparr>]\<rparr>"

definition demo_paid_detail :: transaction_detail_object where
  "demo_paid_detail = \<lparr>m_from_account = 4, m_to_account = 5, m_operation_type = Transfer, m_transaction_amount = mk_asset 100 0,
     m_transaction_fee = mk_asset 10 0, m_str_description = ''transfer'', m_memo = None, m_timestamp = 400, m_nft_data_id = None\<rparr>"

definition demo_paid_database :: database where
  "demo_paid_database = demo_block_database\<lparr>
     ledger := (ledger demo_block_database)\<lparr>
       balances := \<lparr>g_next_id = 3, g_rows = [(0, \<lparr>bal_owner = 4, bal_asset = 0, bal_balance = 780\<rparr>),
         (1, \<lparr>bal_owner = 5, bal_asset = 0, bal_balance = 500\<rparr>), (2, \<lparr>bal_owner = 4, bal_asset = 1, bal_balance = 600\<rparr>)]\<rparr>,
       details := \<lparr>g_next_id = 2, g_rows = [(0, demo_paid_detail), (1, demo_paid_detail)]\<rparr>,
       asset_dyn := \<lparr>g_next_id = 2, g_rows = [(0, \<lparr>current_supply = 1500, asset_pool = 20, core_pool = 0\<rparr>),
         (1, \<lparr>current_supply = 700, asset_pool = 100, core_pool = 200\<rparr>)]\<rparr>\<rparr>,
     transactions := \<lparr>g_next_id = 2, g_rows = [(0, \<lparr>to_expiration = 430, to_trx_id = 430\<rparr>), (1, \<lparr>to_expiration = 440, to_trx_id = 440\<rparr>)]\<rparr>\<rparr>"

lemma demo_paid: "apply_transactions checked64 demo_block_env 0 demo_first_block demo_block_database = Inr demo_paid_database"
  by code_simp

lemma demo_header: "validate_block_header demo_block_env 0 demo_first_block (ledger demo_block_database) = Inr 1"
  by code_simp

lemma demo_merkle: "merkle_ok demo_block_env 0 demo_first_block"
  by code_simp

lemma demo_updated:
  "\<exists>n c. update_chain checked64 demo_block_env 0 demo_first_block 1 False (ledger demo_paid_database) = Inr (n, c) \<and>
     assets c = demo_assets \<and> active_miners (gpo c) = [0, 1] \<and> head_block_num c = 81"
  by (simp add: update_chain_def update_global_dynamic_data_def update_signing_miner_def update_last_irreversible_block_def
      demo_first_block_def demo_paid_database_def demo_block_database_def demo_database_def demo_chain_def demo_params_def demo_block_env_def
      get_slot_at_time_def get_slot_time_def head_block_num_def head_block_time_def time_plus_def u32_def u64_def Let_def advance_properties_def
      block_num_def num_from_id_def GRAPHENE_MAX_UNDO_HISTORY_def miner_pay_from_fees_def get_new_asset_per_block_def
      get_asset_per_block_by_block_num_def DECENT_SPLITS_def DECENT_BLOCK_REWARDS_def checked64_def in_int64_def deposit_miner_pay_def deposit_lazy_vesting_def
      lazy_target_def t_get_def generic_find_def t_create_def generic_create_def t_empty_def t_modify_def generic_modify_def
      violates_unique_def del_row_def no_unique_def miner_key_def demo_miner_def new_lazy_vesting_def confirmed_numbers_def irreversible_offset_def skips_def c_div_def)

lemma demo_block_applied:
  obtains n d' where "apply_block_with checked64 demo_block_env 0 demo_first_block demo_block_database = Some (Inr (n, d'))"
proof -
  obtain n c where u: "update_chain checked64 demo_block_env 0 demo_first_block 1 False (ledger demo_paid_database) = Inr (n, c)"
    and c: "assets c = demo_assets" "active_miners (gpo c) = [0, 1]" "head_block_num c = 81"
    using demo_updated by blast
  have maint: "\<not> next_maintenance_time (dgpo (ledger demo_block_database)) \<le> b_timestamp demo_first_block" by code_simp
  have slot: "summary_slot demo_first_block = 81" by code_simp
  have "succeeds (t_modify no_unique 81 (\<lambda>p. Inr (block_id (be_header_hash demo_block_env) demo_first_block)) (block_summaries demo_paid_database))"
    by code_simp
  then obtain t where "t_modify no_unique 81 (\<lambda>p. Inr (block_id (be_header_hash demo_block_env) demo_first_block))
      (block_summaries demo_paid_database) = Inr t" by (rule succeedsE)
  then have t: "create_block_summary demo_block_env demo_first_block (demo_paid_database\<lparr>ledger := c\<rparr>) =
      Inr (demo_paid_database\<lparr>ledger := c, block_summaries := t\<rparr>)" by (simp add: create_block_summary_def slot)
  let ?d = "clear_expired_transactions (demo_paid_database\<lparr>ledger := c, block_summaries := t\<rparr>)"
  have b: "begin_block checked64 demo_block_env 0 demo_first_block demo_block_database = Inr (n, False, ?d)"
    using maint u t by (simp add: begin_block_def demo_merkle demo_header demo_paid)
  have p: "clear_expired_proposals checked64 (env_with 0 demo_block_env) ?d = Some (Inr ?d)"
    by (subst clear_expired_proposals.simps)
      (simp add: clear_expired_transactions_def demo_paid_database_def demo_block_database_def demo_database_def earliest_proposal_def t_empty_def)
  have "\<exists>c'. end_block demo_block_env False c = Inr c'"
    using c by (simp add: end_block_def update_expired_feeds_def demo_assets_def update_miner_schedule_def update_maintenance_flag_def
        update_withdraw_permissions_def head_block_num_def Let_def)
  then show thesis using that b p by (auto simp: apply_block_with_def clear_expired_transactions_def)
qed

lemma demo_block_ok: "proposals_ok demo_block_database" "t_ok (transactions demo_block_database)" "t_ok (block_summaries demo_block_database)"
  by (simp_all add: proposals_ok_def demo_block_database_def demo_database_def t_empty_def generic_invar_def generic_find_def)

theorem block_becomes_head_witness:
  "\<exists>n d'. apply_block_with checked64 demo_block_env 0 demo_first_block demo_block_database = Some (Inr (n, d')) \<and>
     head_block_id (dgpo (ledger d')) = Block_Id 81 405 \<and> head_block_time (ledger d') = 405"
proof (rule demo_block_applied)
  fix n d'
  assume r: "apply_block_with checked64 demo_block_env 0 demo_first_block demo_block_database = Some (Inr (n, d'))"
  have "block_id (be_header_hash demo_block_env) demo_first_block = Block_Id 81 405" "b_timestamp demo_first_block = 405" by code_simp+
  with block_becomes_head [OF demo_block_ok(1) r] r show ?thesis by auto
qed

theorem block_application_returns_witness:
  "\<exists>r. apply_block checked64 demo_block_env 0 demo_first_block demo_block_database = Some r"
  using block_application_returns [OF demo_block_ok(1)] by blast


end
