(* ===== verification/Node_Demo.thy ===== *)
theory Node_Demo
  imports Fork_Switch Chain_Replay Block_Demo
begin

unbundle bit_operations_syntax

text \<open>
  A node on the small chain with one block on top of block 80, and a competing branch of two blocks:
  the theorems about nodes and fork switches evaluated.
\<close>

section \<open>Blocks without transactions\<close>

definition demo_skip :: skip_flags where
  "demo_skip = NOT skip_fork_db"

definition demo_slot_block :: "block_id_type \<Rightarrow> nat \<Rightarrow> block" where
  "demo_slot_block prev t = \<lparr>b_previous = prev, b_timestamp = t, b_miner = 1, b_transaction_merkle_root = 0,
     b_miner_signature = 0, b_transactions = []\<rparr>"

definition demo_head_chain :: "nat \<Rightarrow> nat \<Rightarrow> chain" where
  "demo_head_chain num t = (ledger demo_block_database)\<lparr>
     miners := \<lparr>g_next_id = 2, g_rows = [(0, demo_miner 4 0 0), (1, (demo_miner 5 1 0)\<lparr>last_aslot := num, last_confirmed_block_num := num\<rparr>)]\<rparr>,
     dgpo := (dgpo demo_chain)\<lparr>head_block_number := num, head_block_id := Block_Id num t, dg_time := t, current_miner := 1,
       current_aslot := num, recent_slots_filled := 340282366920938463463374607431768211455, last_irreversible_block_num := num\<rparr>\<rparr>"

definition demo_head_state :: "nat \<Rightarrow> database" where
  "demo_head_state t = demo_block_database\<lparr>ledger := demo_head_chain 81 t,
     block_summaries := \<lparr>g_next_id = 83, g_rows = [(80, Block_Id 80 0), (81, Block_Id 81 t), (82, Block_Id 0 0)]\<rparr>\<rparr>"

lemmas update_eval = update_chain_def update_global_dynamic_data_def update_signing_miner_def update_last_irreversible_block_def
  demo_block_database_def demo_database_def demo_chain_def demo_params_def demo_block_env_def
  get_slot_at_time_def get_slot_time_def head_block_num_def head_block_time_def time_plus_def u32_def u64_def Let_def advance_properties_def
  block_num_def num_from_id_def GRAPHENE_MAX_UNDO_HISTORY_def miner_pay_from_fees_def get_new_asset_per_block_def
  get_asset_per_block_by_block_num_def DECENT_SPLITS_def DECENT_BLOCK_REWARDS_def checked64_def in_int64_def deposit_miner_pay_def deposit_lazy_vesting_def
  lazy_target_def t_get_def generic_find_def t_create_def generic_create_def t_empty_def t_modify_def generic_modify_def
  violates_unique_def del_row_def no_unique_def miner_key_def demo_miner_def new_lazy_vesting_def confirmed_numbers_def irreversible_offset_def c_div_def missed_count_after_def

text \<open>Flags that skip what needs hashes and signatures.\<close>

definition quiet :: "skip_flags \<Rightarrow> bool" where
  "quiet skip \<longleftrightarrow> skips skip skip_undo_history_check \<and> skips skip skip_miner_signature \<and>
     skips skip skip_miner_schedule_check \<and> skips skip skip_merkle_check"

lemma demo_skip_flags [simp]: "quiet demo_skip" "\<not> skips demo_skip skip_fork_db" "skips demo_skip skip_merkle_check"
  by code_simp+

lemma demo_update_first:
  "quiet skip \<Longrightarrow> t = 405 \<or> t = 406 \<Longrightarrow>
   update_chain checked64 demo_block_env skip (demo_slot_block (Block_Id 80 0) t) 1 False (ledger demo_block_database) =
     Inr (12, demo_head_chain 81 t)"
  by (erule disjE; simp add: update_eval demo_slot_block_def demo_head_chain_def block_id_def quiet_def)

lemma demo_update_second:
  "update_chain checked64 demo_block_env demo_skip (demo_slot_block (Block_Id 81 405) 410) 1 False (demo_head_chain 81 405) =
     Inr (2, demo_head_chain 82 410)"
  using demo_skip_flags(1) by (simp add: update_eval demo_slot_block_def demo_head_chain_def block_id_def quiet_def)

text \<open>A block whose transactions make no proposals and whose updates of the chain are known.\<close>

lemma demo_block_steps:
  assumes "validate_block_header demo_block_env skip b (ledger d) = Inr 1" and "merkle_ok demo_block_env skip b"
    and "apply_transactions checked64 demo_block_env skip b d = Inr d0" and "\<not> next_maintenance_time (dgpo (ledger d)) \<le> b_timestamp b"
    and "update_chain checked64 demo_block_env skip b 1 False (ledger d0) = Inr (k, c)"
    and "create_block_summary demo_block_env b (d0\<lparr>ledger := c\<rparr>) = Inr d1"
    and "ledger d1 = c" and "proposals d1 = t_empty"
    and "end_block demo_block_env False c = Inr c'"
  shows "apply_block_with checked64 demo_block_env skip b d = Some (Inr (k, (clear_expired_transactions d1)\<lparr>ledger := c'\<rparr>))"
proof -
  let ?d = "clear_expired_transactions d1"
  have b: "begin_block checked64 demo_block_env skip b d = Inr (k, False, ?d)"
    using assms(1-6) by (simp add: begin_block_def Let_def)
  have p: "clear_expired_proposals checked64 (env_with skip demo_block_env) ?d = Some (Inr ?d)"
    using assms(8) by (subst clear_expired_proposals.simps) (simp add: earliest_proposal_def t_empty_def clear_expired_transactions_def)
  show ?thesis using b p assms(7,9) by (simp add: apply_block_with_def clear_expired_transactions_def)
qed

lemma demo_no_expired: "transactions d = t_empty \<Longrightarrow> clear_expired_transactions d = d"
  by (simp add: clear_expired_transactions_def clear_expired_rows.simps t_empty_def)

lemma demo_uncheckpointed: "apply_block S demo_block_env skip b d = apply_block_with S demo_block_env skip b d"
  by (simp add: apply_block_def checkpoint_skip_def demo_block_env_def)

lemma demo_no_transactions: "b_transactions b = [] \<Longrightarrow> apply_transactions S e skip b d = Inr d"
  by (simp add: apply_transactions_def)

lemma odd_length_two: "(81 :: nat) mod Suc (Suc 0) = 1"
  by presburger

lemma demo_end_block: "end_block demo_block_env False (demo_head_chain num t) = update_miner_schedule (demo_head_chain num t)"
proof -
  let ?c = "demo_head_chain num t"
  have "update_expired_feeds (ce_nth (de_chain (be_db demo_block_env))) ?c = Inr ?c"
    by (simp add: update_expired_feeds_def demo_head_chain_def demo_block_database_def demo_chain_def demo_assets_def)
  moreover have "update_withdraw_permissions ?c = ?c"
    by (simp add: update_withdraw_permissions_def demo_head_chain_def demo_block_database_def demo_chain_def due_rows_def t_empty_def)
  moreover have "update_maintenance_flag False ?c = ?c"
    by (simp add: update_maintenance_flag_def demo_head_chain_def demo_block_database_def demo_chain_def)
  ultimately show ?thesis by (simp add: end_block_def)
qed

lemma demo_applied_first:
  assumes skip: "quiet skip" and t: "t = 405 \<or> t = 406"
  shows "apply_block checked64 demo_block_env skip (demo_slot_block (Block_Id 80 0) t) demo_block_database = Some (Inr (12, demo_head_state t))"
proof -
  let ?b = "demo_slot_block (Block_Id 80 0) t"
  let ?d = "demo_block_database\<lparr>ledger := demo_head_chain 81 t,
     block_summaries := \<lparr>g_next_id = 83, g_rows = [(80, Block_Id 80 0), (81, Block_Id 81 t), (82, Block_Id 0 0)]\<rparr>\<rparr>"
  have "apply_block_with checked64 demo_block_env skip ?b demo_block_database =
      Some (Inr (12, (clear_expired_transactions ?d)\<lparr>ledger := demo_head_chain 81 t\<rparr>))"
  proof (rule demo_block_steps [OF _ _ _ _ demo_update_first [OF assms]])
    show "merkle_ok demo_block_env skip ?b" using skip by (simp add: merkle_ok_def quiet_def)
    show "validate_block_header demo_block_env skip ?b (ledger demo_block_database) = Inr 1"
      using assms by (auto simp: quiet_def validate_block_header_def demo_slot_block_def demo_block_database_def demo_chain_def head_block_time_def
          t_get_def generic_find_def)
    show "apply_transactions checked64 demo_block_env skip ?b demo_block_database = Inr demo_block_database"
      by (rule demo_no_transactions) (simp add: demo_slot_block_def)
    show "\<not> next_maintenance_time (dgpo (ledger demo_block_database)) \<le> b_timestamp ?b"
      using assms by (auto simp: demo_slot_block_def demo_block_database_def demo_chain_def)
    show "create_block_summary demo_block_env ?b (demo_block_database\<lparr>ledger := demo_head_chain 81 t\<rparr>) = Inr ?d"
      by (simp add: create_block_summary_def summary_slot_def block_num_def num_from_id_def u32_def demo_slot_block_def demo_block_database_def
          t_modify_def generic_modify_def generic_find_def violates_unique_def del_row_def no_unique_def block_id_def demo_block_env_def)
    show "ledger ?d = demo_head_chain 81 t" by simp
    show "proposals ?d = t_empty" by (simp add: demo_block_database_def demo_database_def)
    show "end_block demo_block_env False (demo_head_chain 81 t) = Inr (demo_head_chain 81 t)"
      unfolding demo_end_block
      by (simp add: update_miner_schedule_def demo_head_chain_def demo_block_database_def demo_chain_def head_block_num_def odd_length_two Let_def)
  qed
  moreover have "clear_expired_transactions ?d = ?d" by (rule demo_no_expired) (simp add: demo_block_database_def demo_database_def)
  ultimately show ?thesis by (simp add: demo_head_state_def demo_uncheckpointed)
qed

lemma demo_applied_second:
  obtains d where "apply_block checked64 demo_block_env demo_skip (demo_slot_block (Block_Id 81 405) 410) (demo_head_state 405) = Some (Inr (2, d))"
proof -
  let ?b = "demo_slot_block (Block_Id 81 405) 410"
  let ?d = "demo_block_database\<lparr>ledger := demo_head_chain 82 410,
     block_summaries := \<lparr>g_next_id = 83, g_rows = [(80, Block_Id 80 0), (81, Block_Id 81 405), (82, Block_Id 82 410)]\<rparr>\<rparr>"
  have ne: "active_miners (gpo (demo_head_chain 82 410)) \<noteq> []" by (simp add: demo_head_chain_def demo_block_database_def)
  then have "\<exists>c. end_block demo_block_env False (demo_head_chain 82 410) = Inr c"
    unfolding demo_end_block by (simp add: update_miner_schedule_def Let_def)
  then obtain c where c: "end_block demo_block_env False (demo_head_chain 82 410) = Inr c" by blast
  have u: "update_chain checked64 demo_block_env demo_skip ?b 1 False (ledger (demo_head_state 405)) = Inr (2, demo_head_chain 82 410)"
    using demo_update_second by (simp add: demo_head_state_def)
  have "apply_block_with checked64 demo_block_env demo_skip ?b (demo_head_state 405) =
      Some (Inr (2, (clear_expired_transactions ?d)\<lparr>ledger := c\<rparr>))"
  proof (rule demo_block_steps [OF _ _ _ _ u])
    show "merkle_ok demo_block_env demo_skip ?b" using demo_skip_flags(1) by (simp add: merkle_ok_def quiet_def)
    show "validate_block_header demo_block_env demo_skip ?b (ledger (demo_head_state 405)) = Inr 1"
      using demo_skip_flags(1) by (simp add: quiet_def validate_block_header_def demo_slot_block_def demo_head_state_def demo_head_chain_def demo_chain_def head_block_time_def
          t_get_def generic_find_def)
    show "apply_transactions checked64 demo_block_env demo_skip ?b (demo_head_state 405) = Inr (demo_head_state 405)"
      by (rule demo_no_transactions) (simp add: demo_slot_block_def)
    show "\<not> next_maintenance_time (dgpo (ledger (demo_head_state 405))) \<le> b_timestamp ?b"
      by (simp add: demo_slot_block_def demo_head_state_def demo_head_chain_def demo_chain_def)
    show "create_block_summary demo_block_env ?b ((demo_head_state 405)\<lparr>ledger := demo_head_chain 82 410\<rparr>) = Inr ?d"
      by (simp add: create_block_summary_def summary_slot_def block_num_def num_from_id_def u32_def demo_slot_block_def demo_head_state_def
          t_modify_def generic_modify_def generic_find_def violates_unique_def del_row_def no_unique_def block_id_def demo_block_env_def)
    show "ledger ?d = demo_head_chain 82 410" by simp
    show "proposals ?d = t_empty" by (simp add: demo_block_database_def demo_database_def)
    show "end_block demo_block_env False (demo_head_chain 82 410) = Inr c" by (rule c)
  qed
  then show thesis by (intro that) (simp add: demo_uncheckpointed)
qed

section \<open>A transaction that names the block before\<close>

text \<open>The flags that skip everything but the checks of duplicates and of the block a transaction names.\<close>

definition demo_ref_skip :: skip_flags where
  "demo_ref_skip = NOT (skip_transaction_dupe_check OR skip_tapos_check)"

lemma demo_ref_flags [simp]:
  "quiet demo_ref_skip" "\<not> skips demo_ref_skip skip_transaction_dupe_check" "\<not> skips demo_ref_skip skip_tapos_check"
  by code_simp+

definition demo_ref_payment :: processed_transaction where
  "demo_ref_payment = demo_payment\<lparr>ref_block_num := 81, ref_block_prefix := 405\<rparr>"

definition demo_ref_block :: block where
  "demo_ref_block = (demo_slot_block (Block_Id 81 405) 410)\<lparr>b_transactions := [demo_ref_payment]\<rparr>"

definition demo_ref_paid :: database where
  "demo_ref_paid = (demo_head_state 405)\<lparr>
     ledger := (demo_head_chain 81 405)\<lparr>
       balances := \<lparr>g_next_id = 3, g_rows = [(0, \<lparr>bal_owner = 4, bal_asset = 0, bal_balance = 890\<rparr>),
         (1, \<lparr>bal_owner = 5, bal_asset = 0, bal_balance = 400\<rparr>), (2, \<lparr>bal_owner = 4, bal_asset = 1, bal_balance = 600\<rparr>)]\<rparr>,
       details := \<lparr>g_next_id = 1, g_rows = [(0, demo_paid_detail\<lparr>m_timestamp := 405\<rparr>)]\<rparr>,
       asset_dyn := \<lparr>g_next_id = 2, g_rows = [(0, \<lparr>current_supply = 1500, asset_pool = 10, core_pool = 0\<rparr>),
         (1, \<lparr>current_supply = 700, asset_pool = 100, core_pool = 200\<rparr>)]\<rparr>\<rparr>,
     transactions := \<lparr>g_next_id = 1, g_rows = [(0, \<lparr>to_expiration = 430, to_trx_id = 430\<rparr>)]\<rparr>\<rparr>"

lemma demo_ref_applied: "apply_transactions checked64 demo_block_env demo_ref_skip demo_ref_block (demo_head_state 405) = Inr demo_ref_paid"
  by code_simp

lemma demo_ref_updated:
  "\<exists>n c. update_chain checked64 demo_block_env demo_ref_skip demo_ref_block 1 False (ledger demo_ref_paid) = Inr (n, c) \<and>
     assets c = demo_assets \<and> active_miners (gpo c) = [0, 1]"
  using demo_ref_flags(1)
  by (simp add: quiet_def update_eval demo_ref_block_def demo_ref_paid_def demo_slot_block_def demo_head_chain_def block_id_def)

lemma demo_ref_second:
  obtains n d where "apply_block_with checked64 demo_block_env demo_ref_skip demo_ref_block (demo_head_state 405) = Some (Inr (n, d))"
proof -
  obtain n c where u: "update_chain checked64 demo_block_env demo_ref_skip demo_ref_block 1 False (ledger demo_ref_paid) = Inr (n, c)"
    and c: "assets c = demo_assets" "active_miners (gpo c) = [0, 1]"
    using demo_ref_updated by blast
  have "\<exists>c'. end_block demo_block_env False c = Inr c'"
    using c by (simp add: end_block_def update_expired_feeds_def demo_assets_def update_miner_schedule_def update_maintenance_flag_def
        update_withdraw_permissions_def head_block_num_def Let_def)
  then obtain c' where e: "end_block demo_block_env False c = Inr c'" by blast
  let ?d = "demo_ref_paid\<lparr>ledger := c,
     block_summaries := \<lparr>g_next_id = 83, g_rows = [(80, Block_Id 80 0), (81, Block_Id 81 405), (82, Block_Id 82 410)]\<rparr>\<rparr>"
  have "apply_block_with checked64 demo_block_env demo_ref_skip demo_ref_block (demo_head_state 405) =
      Some (Inr (n, (clear_expired_transactions ?d)\<lparr>ledger := c'\<rparr>))"
  proof (rule demo_block_steps [OF _ _ demo_ref_applied _ u _ _ _ e])
    show "validate_block_header demo_block_env demo_ref_skip demo_ref_block (ledger (demo_head_state 405)) = Inr 1"
      using demo_ref_flags(1) by (simp add: quiet_def validate_block_header_def demo_ref_block_def demo_slot_block_def demo_head_state_def
          demo_head_chain_def demo_chain_def head_block_time_def t_get_def generic_find_def)
    show "merkle_ok demo_block_env demo_ref_skip demo_ref_block" using demo_ref_flags(1) by (simp add: merkle_ok_def quiet_def)
    show "\<not> next_maintenance_time (dgpo (ledger (demo_head_state 405))) \<le> b_timestamp demo_ref_block"
      by (simp add: demo_ref_block_def demo_slot_block_def demo_head_state_def demo_head_chain_def demo_chain_def)
    show "create_block_summary demo_block_env demo_ref_block (demo_ref_paid\<lparr>ledger := c\<rparr>) = Inr ?d"
      by (simp add: create_block_summary_def summary_slot_def block_num_def num_from_id_def u32_def demo_ref_block_def demo_slot_block_def
          demo_ref_paid_def demo_head_state_def t_modify_def generic_modify_def generic_find_def violates_unique_def del_row_def no_unique_def
          block_id_def demo_block_env_def)
    show "ledger ?d = c" "proposals ?d = t_empty"
      by (simp_all add: demo_ref_paid_def demo_head_state_def demo_block_database_def demo_database_def)
  qed
  then show thesis by (rule that)
qed

theorem transactions_refer_to_chain_witness:
  "ref_block_prefix demo_ref_payment = be_prefix demo_block_env (bid_hash (block_id (be_header_hash demo_block_env) (demo_slot_block (Block_Id 80 0) 405)))"
proof (rule demo_ref_second)
  let ?b = "demo_slot_block (Block_Id 80 0) 405"
  fix n d
  assume r: "apply_block_with checked64 demo_block_env demo_ref_skip demo_ref_block (demo_head_state 405) = Some (Inr (n, d))"
  have slot: "summary_slot ?b = 81" "block_num ?b \<noteq> 0" "ref_block_num demo_ref_payment = 81"
    by (simp_all add: summary_slot_def block_num_def num_from_id_def u32_def demo_slot_block_def demo_ref_payment_def)
  have "apply_block_with checked64 demo_block_env demo_ref_skip ?b demo_block_database = Some (Inr (12, demo_head_state 405))"
    using demo_applied_first [OF demo_ref_flags(1)] by (simp add: demo_uncheckpointed)
  from run_block [OF run_start demo_ref_flags(2) slot(2) this]
  have run: "block_run checked64 demo_block_env demo_block_database [?b] (demo_head_state 405)" by simp
  have "0 < head_block_num (ledger (demo_head_state 405))" by (simp add: demo_head_state_def demo_head_chain_def head_block_num_def)
  moreover have "demo_ref_payment \<in> set (b_transactions demo_ref_block)" by (simp add: demo_ref_block_def)
  ultimately show ?thesis
    using transactions_refer_to_chain [OF run demo_block_ok(1,3) _ r demo_ref_flags(3), of demo_ref_payment] by (simp add: slot)
qed

section \<open>The node\<close>

definition demo_node_env :: node_env where
  "demo_node_env = \<lparr>ne_block = demo_block_env, ne_pack = (\<lambda>b. []), ne_unpack = (\<lambda>bs. Inl Out_Of_Range), ne_trx_size = (\<lambda>trx. 100),
     ne_ptrx_size = (\<lambda>trx. 100), ne_header_size = 100, ne_public_key = (\<lambda>k. k), ne_sign = (\<lambda>k b. k),
     ne_partial_trx = (\<lambda>trx d. d\<lparr>transactions := t_empty\<rparr>), ne_partial_block = (\<lambda>b d. d\<lparr>transactions := t_empty\<rparr>)\<rparr>"

text \<open>Block 80, the block of the chain on it, the first block of the competing branch, and the second one once it is pushed.\<close>

definition demo_item :: "nat option \<Rightarrow> nat \<Rightarrow> nat \<Rightarrow> block_id_type \<Rightarrow> processed_transaction fork_item" where
  "demo_item p num t prev = \<lparr>fi_prev = p, fi_num = num, fi_invalid = False, fi_id = Block_Id num t, fi_data = demo_slot_block prev t\<rparr>"

definition demo_items :: "processed_transaction fork_item list" where
  "demo_items = [demo_item None 80 0 (Block_Id 79 0), demo_item (Some 0) 81 406 (Block_Id 80 0), demo_item (Some 0) 81 405 (Block_Id 80 0)]"

definition demo_forks :: "processed_transaction fork_database" where
  "demo_forks = \<lparr>fd_store = demo_items, fd_index = [0, 1, 2], fd_unlinked_index = [], fd_head = Some 1, fd_max_size = 20\<rparr>"

definition demo_forks_pushed :: "processed_transaction fork_database" where
  "demo_forks_pushed = \<lparr>fd_store = demo_items @ [demo_item (Some 2) 82 410 (Block_Id 81 405)], fd_index = [0, 1, 2, 3], fd_unlinked_index = [],
     fd_head = Some 3, fd_max_size = 20\<rparr>"

definition demo_node :: node where
  "demo_node = \<lparr>n_db = demo_head_state 406, n_undo = [demo_block_database], n_active = 0, n_max_undo = 12, n_fork = demo_forks,
     n_blocks = \<lparr>bd_block_num_to_pos = replicate 83 empty_entry, bd_blocks = []\<rparr>, n_pending_tx = [], n_pending_session = False, n_popped_tx = []\<rparr>"

lemma demo_hash_eval [simp]: "be_header_hash demo_block_env b = b_timestamp b" "ne_block demo_node_env = demo_block_env"
  by (simp_all add: demo_node_env_def demo_block_env_def)

lemma demo_slot_eval [simp]:
  "block_num (demo_slot_block prev t) = u32 (int (num_from_id prev) + 1)" "b_previous (demo_slot_block prev t) = prev"
  "b_timestamp (demo_slot_block prev t) = t" "b_transactions (demo_slot_block prev t) = []"
  by (simp_all add: block_num_def demo_slot_block_def)

lemmas node_fork_eval = fork_push_block_def push_item_def alloc_item_def head_item_def item_def mk_fork_item_def
  link_item_def previous_id_def null_block_id_def find_by_id_def block_id_def num_from_id_def index_insert_def Let_def
  u32_def erase_below_def demo_items_def demo_item_def

lemma demo_pushed:
  "fork_push_block (node_hash demo_node_env) (demo_slot_block (Block_Id 81 405) 410) demo_forks = Inr (Some 3, demo_forks_pushed)"
  by (simp add: node_fork_eval demo_forks_def demo_forks_pushed_def)

lemma demo_branches: "fetch_branch_from (Block_Id 82 410) (Block_Id 81 406) demo_forks_pushed = Some (Inr ([3, 2], [1]))"
  by (simp add: fetch_branch_from_def node_fork_eval demo_forks_pushed_def climb.simps climb_both.simps lock_prev_def alive_def)

lemma demo_head_ids [simp]:
  "head_block_id (dgpo (ledger (demo_head_state t))) = Block_Id 81 t" "head_block_num (ledger (demo_head_state t)) = 81"
  "head_block_id (dgpo (ledger demo_block_database)) = Block_Id 80 0"
  by (simp_all add: demo_head_state_def demo_head_chain_def head_block_num_def demo_block_database_def demo_chain_def)

text \<open>Pushing the second block: the block of the chain is popped, the two blocks of the branch are applied.\<close>

definition demo_popped :: node where
  "demo_popped = demo_node\<lparr>n_db := demo_block_database, n_undo := [], n_fork := demo_forks_pushed\<lparr>fd_head := Some 2\<rparr>\<rparr>"

lemma demo_pop: "pop_until demo_node_env [3, 2, 1] (Block_Id 80 0) (demo_node\<lparr>n_fork := demo_forks_pushed\<rparr>) = (Inr (), demo_popped)"
proof -
  have f: "fetch_block_by_id demo_node_env (Block_Id 81 406) (demo_node\<lparr>n_fork := demo_forks_pushed\<rparr>) = Some (demo_slot_block (Block_Id 80 0) 406)"
    by (simp add: fetch_block_by_id_def fork_fetch_block_def find_by_id_def item_def demo_forks_pushed_def demo_items_def demo_item_def)
  have "pop_block demo_node_env [3, 2, 1] (demo_node\<lparr>n_fork := demo_forks_pushed\<rparr>) = (Inr (), demo_popped)"
    using f by (simp add: pop_block_def then_do_def change_def reset_pending_def fork_pop_def fork_pop_held_def forget_block_def pop_undo_def
        demo_node_def demo_popped_def demo_forks_pushed_def item_def demo_items_def demo_item_def alive_def bd_remove_def num_from_id_def
        Let_def empty_entry_def null_block_id_def)
  moreover have "head_id (demo_node\<lparr>n_fork := demo_forks_pushed\<rparr>) = Block_Id 81 406" "head_id demo_popped = Block_Id 80 0"
    by (simp_all add: demo_node_def demo_popped_def)
  ultimately show ?thesis by (simp add: pop_until.simps)
qed

lemma demo_branch_applied:
  obtains n d where "push_branch checked64 demo_node_env demo_skip [demo_item (Some 0) 81 405 (Block_Id 80 0), demo_item (Some 2) 82 410 (Block_Id 81 405)]
      demo_popped = Some (None, n)" and "n_max_undo n = 2" and "n_db n = d" and "n_popped_tx n = []"
proof -
  obtain d where d: "apply_block checked64 demo_block_env demo_skip (demo_slot_block (Block_Id 81 405) 410) (demo_head_state 405) = Some (Inr (2, d))"
    by (rule demo_applied_second)
  have a: "apply_block checked64 demo_block_env demo_skip (demo_slot_block (Block_Id 80 0) 405) demo_block_database = Some (Inr (12, demo_head_state 405))"
    by (rule demo_applied_first) simp_all
  have db: "n_db demo_popped = demo_block_database" "n_popped_tx demo_popped = []" by (simp_all add: demo_popped_def demo_node_def)
  have "\<exists>n. push_branch checked64 demo_node_env demo_skip [demo_item (Some 0) 81 405 (Block_Id 80 0), demo_item (Some 2) 82 410 (Block_Id 81 405)]
      demo_popped = Some (None, n) \<and> n_max_undo n = 2 \<and> n_db n = d \<and> n_popped_tx n = []"
    by (simp add: demo_item_def append_block_eq db a d store_block_def with_history_def set_history_def
        history_size_applied [OF a] history_size_applied [OF d])
  then show thesis using that by blast
qed

lemma demo_switch:
  obtains n where "switch_fork checked64 demo_node_env demo_skip (demo_slot_block (Block_Id 81 405) 410) (Block_Id 82 410)
      (demo_node\<lparr>n_fork := demo_forks_pushed\<rparr>) = Some (Inr True, n)" and "n_max_undo n = 2" and "n_popped_tx n = []"
proof (rule demo_branch_applied)
  fix n d
  assume p: "push_branch checked64 demo_node_env demo_skip [demo_item (Some 0) 81 405 (Block_Id 80 0), demo_item (Some 2) 82 410 (Block_Id 81 405)]
      demo_popped = Some (None, n)" and n: "n_max_undo n = 2" "n_popped_tx n = []"
  have "n_db demo_node = demo_head_state 406" by (simp add: demo_node_def)
  moreover have "map (item demo_forks_pushed) [3, 2] = [demo_item (Some 2) 82 410 (Block_Id 81 405), demo_item (Some 0) 81 405 (Block_Id 80 0)]"
    "previous_id (item demo_forks_pushed 1) = Block_Id 80 0"
    by (simp_all add: item_def demo_forks_pushed_def demo_items_def previous_id_def demo_item_def)
  ultimately have "switch_fork checked64 demo_node_env demo_skip (demo_slot_block (Block_Id 81 405) 410) (Block_Id 82 410)
      (demo_node\<lparr>n_fork := demo_forks_pushed\<rparr>) = Some (Inr True, n)"
    using demo_branches demo_pop p by (simp add: switch_fork_def switch_branch_def)
  then show thesis using n by (rule that)
qed

lemma demo_node_clean [simp]: "node_clean demo_node" "node_clean (demo_node\<lparr>n_fork := fd\<rparr>)"
  by (simp_all add: node_clean_def demo_node_def)

lemma clean_sessions: "node_clean n \<Longrightarrow> sessions_ok n"
  by (simp add: node_clean_def sessions_ok_def)

lemma clear_clean: "node_clean n \<Longrightarrow> clear_pending n = Inr n"
  by (simp add: node_clean_def clear_pending_def reset_pending_def)

lemma demo_switch_pushed:
  obtains n where "push_block checked64 demo_node_env demo_skip (demo_slot_block (Block_Id 81 405) 410) demo_node = Some (Inr True, n)"
    and "n_max_undo n = 2"
proof (rule demo_switch)
  fix n
  assume s: "switch_fork checked64 demo_node_env demo_skip (demo_slot_block (Block_Id 81 405) 410) (Block_Id 82 410)
      (demo_node\<lparr>n_fork := demo_forks_pushed\<rparr>) = Some (Inr True, n)" and n: "n_max_undo n = 2" "n_popped_tx n = []"
  have d: "n_db demo_node = demo_head_state 406" "n_fork demo_node = demo_forks" "n_pending_tx demo_node = []" by (simp_all add: demo_node_def)
  have b: "fi_data (item demo_forks_pushed 3) = demo_slot_block (Block_Id 81 405) 410"
    by (simp add: item_def demo_forks_pushed_def demo_items_def demo_item_def)
  have "push_block_inner checked64 demo_node_env demo_skip (demo_slot_block (Block_Id 81 405) 410) demo_node = Some (Inr True, n)"
    using s demo_pushed by (simp add: push_block_inner_def d b block_id_def u32_def num_from_id_def)
  then have "push_block checked64 demo_node_env demo_skip (demo_slot_block (Block_Id 81 405) 410) demo_node = Some (Inr True, n\<lparr>n_popped_tx := []\<rparr>)"
    by (simp add: push_block_def clear_clean restore_pending_def d n)
  then show thesis by (rule that) (simp add: n)
qed

theorem switched_to_branch_witness:
  "\<exists>n' d. push_block checked64 demo_node_env demo_skip (demo_slot_block (Block_Id 81 405) 410) demo_node = Some (Inr True, n') \<and>
     d \<in> {demo_head_state 406, demo_block_database} \<and>
     apply_blocks checked64 demo_block_env demo_skip [demo_slot_block (Block_Id 80 0) 405, demo_slot_block (Block_Id 81 405) 410] d =
       Some (Inr (head_state n'))"
proof (rule demo_switch_pushed)
  fix n
  assume r: "push_block checked64 demo_node_env demo_skip (demo_slot_block (Block_Id 81 405) 410) demo_node = Some (Inr True, n)"
    and n: "n_max_undo n = 2"
  have d: "head_state demo_node = demo_head_state 406" "n_fork demo_node = demo_forks" "n_undo demo_node = [demo_block_database]"
    "n_db demo_node = demo_head_state 406" by (simp_all add: demo_node_def head_state_def)
  have b: "fi_data (item demo_forks_pushed 3) = demo_slot_block (Block_Id 81 405) 410"
    "fi_data (item demo_forks_pushed 2) = demo_slot_block (Block_Id 80 0) 405"
    by (simp_all add: item_def demo_forks_pushed_def demo_items_def demo_item_def)
  have i: "block_id (node_hash demo_node_env) (demo_slot_block (Block_Id 81 405) 410) = Block_Id 82 410"
    by (simp add: block_id_def u32_def num_from_id_def)
  have size: "0 < n_max_undo n" using n by simp
  from switched_to_branch [OF clean_sessions [OF demo_node_clean(1)] size r]
  obtain h fd first second s where f: "fork_push_block (node_hash demo_node_env) (demo_slot_block (Block_Id 81 405) 410) demo_forks = Inr (Some h, fd)"
    and br: "fetch_branch_from (block_id (node_hash demo_node_env) (fi_data (item fd h))) (Block_Id 81 406) fd = Some (Inr (first, second))"
    and s: "s \<in> {demo_head_state 406, demo_block_database}"
    and a: "apply_blocks checked64 demo_block_env demo_skip (map (\<lambda>p. fi_data (item fd p)) (rev first)) s = Some (Inr (head_state n))"
    unfolding d demo_hash_eval(2) by force
  have "h = 3" "fd = demo_forks_pushed" using f demo_pushed by simp_all
  moreover from this br b(1) i have "first = [3, 2]" using demo_branches by simp
  ultimately have "map (\<lambda>p. fi_data (item fd p)) (rev first) = [demo_slot_block (Block_Id 80 0) 405, demo_slot_block (Block_Id 81 405) 410]"
    using b by simp
  with a s r show ?thesis by metis
qed

text \<open>After the switch the fork database stands at block 81 while the node is at block 82.\<close>

lemma demo_pushed_inv: "fork_inv (node_hash demo_node_env) demo_forks_pushed"
  by (simp add: fork_inv_def demo_forks_pushed_def demo_items_def demo_item_def item_ok_def index_ok_def item_def previous_id_def
      block_id_def u32_def num_from_id_def)

lemma demo_node_proposals_ok: "proposals_ok demo_block_database" "proposals_ok (demo_head_state t)"
  by (simp_all add: demo_head_state_def proposals_ok_def demo_block_database_def demo_database_def t_empty_def generic_invar_def generic_find_def)

theorem fork_head_lags_witness:
  "\<exists>n' q. switch_fork checked64 demo_node_env demo_skip (demo_slot_block (Block_Id 81 405) 410) (Block_Id 82 410)
      (demo_node\<lparr>n_fork := demo_forks_pushed\<rparr>) = Some (Inr True, n') \<and>
    head_block_id (dgpo (ledger (n_db n'))) = Block_Id 82 410 \<and> fd_head (n_fork n') = Some q \<and> fi_num (item (n_fork n') q) < 82"
proof (rule demo_switch)
  fix n
  assume r: "switch_fork checked64 demo_node_env demo_skip (demo_slot_block (Block_Id 81 405) 410) (Block_Id 82 410)
      (demo_node\<lparr>n_fork := demo_forks_pushed\<rparr>) = Some (Inr True, n)"
  have "fork_inv (node_hash demo_node_env) (n_fork (demo_node\<lparr>n_fork := demo_forks_pushed\<rparr>))" using demo_pushed_inv by simp
  moreover have "\<forall>d \<in> set (n_db (demo_node\<lparr>n_fork := demo_forks_pushed\<rparr>) # n_undo (demo_node\<lparr>n_fork := demo_forks_pushed\<rparr>)). proposals_ok d"
    by (simp add: demo_node_def demo_node_proposals_ok)
  moreover have "fd_head (n_fork (demo_node\<lparr>n_fork := demo_forks_pushed\<rparr>)) = Some 3"
    "fi_id (item (n_fork (demo_node\<lparr>n_fork := demo_forks_pushed\<rparr>)) 3) = Block_Id 82 410"
    by (simp_all add: demo_forks_pushed_def item_def demo_items_def demo_item_def)
  ultimately show ?thesis using fork_head_lags [OF demo_node_clean(2) _ _ _ _ r] r by fastforce
qed

section \<open>A branch that fails\<close>

lemma demo_no_checkpoints [simp]: "checkpoint_skip demo_block_env skip b = Inr skip"
  by (simp add: checkpoint_skip_def demo_block_env_def)

definition demo_unknown_miner :: block where
  "demo_unknown_miner = (demo_slot_block (Block_Id 80 0) 405)\<lparr>b_miner := 7\<rparr>"

lemma demo_unknown_miner_fails:
  "apply_block checked64 demo_block_env demo_skip demo_unknown_miner demo_block_database = Some (Inl Object_Not_Found)"
  "history_size checked64 demo_block_env demo_skip demo_unknown_miner demo_block_database = None"
proof -
  have v: "validate_block_header demo_block_env demo_skip demo_unknown_miner (ledger demo_block_database) = Inl Object_Not_Found"
    by (simp add: validate_block_header_def demo_unknown_miner_def demo_slot_block_def demo_block_database_def demo_chain_def
        head_block_time_def t_get_def generic_find_def)
  then have "begin_block checked64 demo_block_env demo_skip demo_unknown_miner demo_block_database = Inl Object_Not_Found"
    by (simp add: begin_block_def merkle_ok_def)
  then show "apply_block checked64 demo_block_env demo_skip demo_unknown_miner demo_block_database = Some (Inl Object_Not_Found)"
    by (simp add: apply_block_def apply_block_with_def)
  show "history_size checked64 demo_block_env demo_skip demo_unknown_miner demo_block_database = None"
    by (rule refused_history [OF v]) simp
qed

definition demo_bad_forks :: "processed_transaction fork_database" where
  "demo_bad_forks = \<lparr>fd_store = [demo_item None 80 0 (Block_Id 79 0), demo_item (Some 0) 81 406 (Block_Id 80 0),
       (demo_item (Some 0) 81 405 (Block_Id 80 0))\<lparr>fi_data := demo_unknown_miner\<rparr>],
     fd_index = [0, 1, 2], fd_unlinked_index = [], fd_head = Some 2, fd_max_size = 20\<rparr>"

definition demo_bad_popped :: node where
  "demo_bad_popped = demo_node\<lparr>n_db := demo_block_database, n_undo := [], n_fork := demo_bad_forks\<lparr>fd_head := Some 0\<rparr>\<rparr>"

lemma demo_bad_pop: "pop_until demo_node_env [2, 1] (Block_Id 80 0) (demo_node\<lparr>n_fork := demo_bad_forks\<rparr>) = (Inr (), demo_bad_popped)"
proof -
  have f: "fetch_block_by_id demo_node_env (Block_Id 81 406) (demo_node\<lparr>n_fork := demo_bad_forks\<rparr>) = Some (demo_slot_block (Block_Id 80 0) 406)"
    by (simp add: fetch_block_by_id_def fork_fetch_block_def find_by_id_def item_def demo_bad_forks_def demo_item_def)
  have "pop_block demo_node_env [2, 1] (demo_node\<lparr>n_fork := demo_bad_forks\<rparr>) = (Inr (), demo_bad_popped)"
    using f by (simp add: pop_block_def then_do_def change_def reset_pending_def fork_pop_def fork_pop_held_def forget_block_def pop_undo_def
        demo_node_def demo_bad_popped_def demo_bad_forks_def item_def demo_item_def alive_def bd_remove_def num_from_id_def
        Let_def empty_entry_def null_block_id_def)
  moreover have "head_id (demo_node\<lparr>n_fork := demo_bad_forks\<rparr>) = Block_Id 81 406" "head_id demo_bad_popped = Block_Id 80 0"
    by (simp_all add: demo_node_def demo_bad_popped_def)
  ultimately show ?thesis by (simp add: pop_until.simps)
qed

lemma demo_switch_fails:
  obtains n where "switch_branch checked64 demo_node_env demo_skip demo_unknown_miner [2] [1] (demo_node\<lparr>n_fork := demo_bad_forks\<rparr>) =
    Some (Inl Object_Not_Found, n)"
proof -
  have it: "item demo_bad_forks 1 = demo_item (Some 0) 81 406 (Block_Id 80 0)"
    "item demo_bad_forks 2 = (demo_item (Some 0) 81 405 (Block_Id 80 0))\<lparr>fi_data := demo_unknown_miner\<rparr>"
    "previous_id (item demo_bad_forks 1) = Block_Id 80 0"
    by (simp_all add: item_def demo_bad_forks_def previous_id_def demo_item_def)
  let ?x = "(demo_item (Some 0) 81 405 (Block_Id 80 0))\<lparr>fi_data := demo_unknown_miner\<rparr>"
  let ?n2 = "demo_bad_popped\<lparr>n_undo := trimmed demo_bad_popped\<rparr>"
  have db: "n_db demo_bad_popped = demo_block_database" by (simp add: demo_bad_popped_def)
  have p: "push_branch checked64 demo_node_env demo_skip [?x] demo_bad_popped = Some (Some (Object_Not_Found, [?x]), ?n2)"
    by (simp add: append_block_eq db demo_unknown_miner_fails with_history_def set_history_def)
  have it2: "item (n_fork ?n2) = item demo_bad_forks"
    by (simp add: demo_bad_popped_def item_def fun_eq_iff)
  let ?n3 = "?n2\<lparr>n_fork := fork_set_head (Some 1) (drop_items demo_node_env [?x] (n_fork ?n2))\<rparr>"
  have q: "pop_until demo_node_env [2, 1] (Block_Id 80 0) ?n3 = (Inr (), ?n3)"
    by (subst pop_until.simps) (simp add: db)
  have "apply_blocks checked64 (ne_block demo_node_env) demo_skip (map fi_data [demo_item (Some 0) 81 406 (Block_Id 80 0)]) (n_db ?n3) =
      Some (Inr (demo_head_state 406))"
    by (simp add: demo_item_def db demo_applied_first)
  from restore_branch_db [OF this, of "block_id (node_hash demo_node_env) demo_unknown_miner"]
  obtain n4 where "restore_branch checked64 demo_node_env demo_skip (block_id (node_hash demo_node_env) demo_unknown_miner)
      [demo_item (Some 0) 81 406 (Block_Id 80 0)] ?n3 = Some (Inr (), n4)" by blast
  then have "abandon_branch checked64 demo_node_env demo_skip demo_unknown_miner [2] [1] (Object_Not_Found, [?x]) ?n2 = Some (Inl Object_Not_Found, n4)"
    using q it it2 by (simp add: abandon_branch_def Let_def)
  then have "switch_branch checked64 demo_node_env demo_skip demo_unknown_miner [2] [1] (demo_node\<lparr>n_fork := demo_bad_forks\<rparr>) =
      Some (Inl Object_Not_Found, n4)"
    using demo_bad_pop p it by (simp add: switch_branch_def Let_def)
  then show thesis by (rule that)
qed

theorem failed_switch_restores_witness:
  "\<exists>n'. switch_branch checked64 demo_node_env demo_skip demo_unknown_miner [2] [1] (demo_node\<lparr>n_fork := demo_bad_forks\<rparr>) =
      Some (Inl Object_Not_Found, n') \<and>
    (n_db n' = demo_head_state 406 \<or> (\<exists>m. pop_until demo_node_env [2, 1] (Block_Id 80 0) m = (Inl Object_Not_Found, n')))"
proof (rule demo_switch_fails)
  fix n
  let ?n = "demo_node\<lparr>n_fork := demo_bad_forks\<rparr>"
  assume r: "switch_branch checked64 demo_node_env demo_skip demo_unknown_miner [2] [1] ?n = Some (Inl Object_Not_Found, n)"
  have i: "previous_id (last (map (item (n_fork ?n)) [1])) = Block_Id 80 0" "fi_data (item demo_bad_forks 1) = demo_slot_block (Block_Id 80 0) 406"
    "fi_data (item demo_bad_forks 2) = demo_unknown_miner"
    by (simp_all add: item_def demo_bad_forks_def previous_id_def demo_item_def)
  have db: "n_db ?n = demo_head_state 406" "n_undo ?n = [demo_block_database]" by (simp_all add: demo_node_def)
  have "n_db n = n_db ?n \<or>
      (\<exists>m. pop_until demo_node_env ([2] @ [1]) (previous_id (last (map (item (n_fork ?n)) [1]))) m = (Inl Object_Not_Found, n))"
  proof (rule failed_switch_restores [OF r, where s = demo_block_database])
    show "find (at_block (previous_id (last (map (item (n_fork ?n)) [1])))) (history ?n) = Some demo_block_database"
      unfolding i history_def db by (simp add: at_block_def)
    show "apply_blocks checked64 (ne_block demo_node_env) demo_skip (map (\<lambda>p. fi_data (item (n_fork ?n) p)) (rev [1])) demo_block_database =
        Some (Inr (n_db ?n))"
      using i(2) db(1) by (simp add: demo_applied_first)
    show "block_id (node_hash demo_node_env) (fi_data (item (n_fork ?n) p)) \<noteq> previous_id (last (map (item (n_fork ?n)) [1]))"
      if "p \<in> set [2]" for p
      unfolding i using that i(3) by (simp add: demo_unknown_miner_def block_id_def block_num_def num_from_id_def u32_def demo_slot_block_def)
  qed (simp_all add: demo_node_proposals_ok)
  then show ?thesis using r i(1) db(1) by auto
qed

section \<open>A block refused in the past\<close>

definition demo_dead_forks :: "processed_transaction fork_database" where
  "demo_dead_forks = \<lparr>fd_store = [demo_item None 80 0 (Block_Id 79 0), demo_item (Some 0) 81 406 (Block_Id 80 0), demo_item (Some 1) 82 411 (Block_Id 81 406)],
     fd_index = [0, 1], fd_unlinked_index = [], fd_head = Some 2, fd_max_size = 20\<rparr>"

definition demo_dead_pushed :: "processed_transaction fork_database" where
  "demo_dead_pushed = demo_dead_forks\<lparr>fd_store := fd_store demo_dead_forks @ [demo_item (Some 0) 81 405 (Block_Id 80 0)], fd_index := [0, 1, 3]\<rparr>"

lemma demo_dead_push: "fork_push_block (node_hash demo_node_env) (demo_slot_block (Block_Id 80 0) 405) demo_dead_forks = Inr (Some 2, demo_dead_pushed)"
  by (simp add: node_fork_eval demo_dead_forks_def demo_dead_pushed_def)

lemma demo_dead_head: "b_previous (fi_data (item demo_dead_pushed 2)) = Block_Id 81 406"
  by (simp add: demo_dead_pushed_def demo_dead_forks_def item_def demo_item_def)

lemma demo_competing:
  obtains n where "push_block checked64 demo_node_env demo_skip (demo_slot_block (Block_Id 80 0) 405) (demo_node\<lparr>n_fork := demo_dead_forks\<rparr>) =
    Some (Inl Assert_Exception, n)" and "n_max_undo n = 12"
proof -
  let ?b = "demo_slot_block (Block_Id 80 0) 405" and ?n = "demo_node\<lparr>n_fork := demo_dead_forks\<rparr>" and ?n1 = "demo_node\<lparr>n_fork := demo_dead_pushed\<rparr>"
  have db: "n_db demo_node = demo_head_state 406" "n_max_undo demo_node = 12" "n_pending_tx demo_node = []" "n_popped_tx demo_node = []"
    by (simp_all add: demo_node_def)
  have w: "apply_block checked64 demo_block_env demo_skip ?b (demo_head_state 406) = Some (Inl Assert_Exception)"
    by (rule wrong_parent) simp
  have "validate_block_header demo_block_env demo_skip ?b (ledger (demo_head_state 406)) = Inl Assert_Exception"
    by (simp add: validate_block_header_def require_def)
  then have h: "history_size checked64 demo_block_env demo_skip ?b (demo_head_state 406) = None" by (rule refused_history) simp
  let ?n2 = "?n1\<lparr>n_undo := trimmed ?n1, n_fork := fork_remove (block_id (node_hash demo_node_env) ?b) demo_dead_pushed\<rparr>"
  have "extend_chain checked64 demo_node_env demo_skip ?b ?n1 = Some (Inl Assert_Exception, ?n2)"
    by (simp add: extend_chain_def append_block_eq db w with_history_def h set_history_def)
  then have "push_block_inner checked64 demo_node_env demo_skip ?b ?n = Some (Inl Assert_Exception, ?n2)"
    using demo_dead_push demo_dead_head by (simp add: push_block_inner_def db)
  then have "push_block checked64 demo_node_env demo_skip ?b ?n = Some (Inl Assert_Exception, ?n2\<lparr>n_popped_tx := []\<rparr>)"
    by (simp add: push_block_def clear_clean restore_pending_def db)
  then show thesis by (rule that) (simp add: db)
qed

theorem competing_block_dropped_witness:
  "\<exists>n'. push_block checked64 demo_node_env demo_skip (demo_slot_block (Block_Id 80 0) 405) (demo_node\<lparr>n_fork := demo_dead_forks\<rparr>) =
      Some (Inl Assert_Exception, n') \<and> find_by_id (n_fork n') (fd_index (n_fork n')) (Block_Id 81 405) = None"
proof (rule demo_competing)
  fix n
  let ?b = "demo_slot_block (Block_Id 80 0) 405" and ?n = "demo_node\<lparr>n_fork := demo_dead_forks\<rparr>"
  assume r: "push_block checked64 demo_node_env demo_skip ?b ?n = Some (Inl Assert_Exception, n)" and m: "n_max_undo n = 12"
  have hs: "head_state ?n = demo_head_state 406" by (simp add: head_state_def demo_node_def)
  have f: "fork_push_block (node_hash demo_node_env) ?b (n_fork ?n) = Inr (Some 2, demo_dead_pushed)" using demo_dead_push by simp
  have i: "block_id (node_hash demo_node_env) ?b = Block_Id 81 405" by (simp add: block_id_def u32_def num_from_id_def)
  have "0 < n_max_undo n" "b_previous (fi_data (item demo_dead_pushed 2)) = head_block_id (dgpo (ledger (head_state ?n)))"
    "b_previous ?b \<noteq> head_block_id (dgpo (ledger (head_state ?n)))" "Inl Assert_Exception \<noteq> Inl Undefined_Behaviour"
    using m demo_dead_head by (simp_all add: hs)
  from competing_block_dropped [OF clean_sessions [OF demo_node_clean(2)] this(1) demo_skip_flags(2) f this(2,3) r] r i
  show ?thesis by auto
qed

section \<open>A block and a transaction\<close>

definition demo_fresh_node :: node where
  "demo_fresh_node = demo_node\<lparr>n_db := demo_block_database, n_undo := [],
     n_fork := \<lparr>fd_store = [demo_item None 80 0 (Block_Id 79 0)], fd_index = [0], fd_unlinked_index = [], fd_head = Some 0, fd_max_size = 20\<rparr>\<rparr>"

lemma demo_fresh_clean [simp]: "node_clean demo_fresh_node"
  by (simp add: demo_fresh_node_def node_clean_def demo_node_def)

lemma demo_fresh_state: "head_state demo_fresh_node = demo_block_database" "n_db demo_fresh_node = demo_block_database" "n_max_undo demo_fresh_node = 12"
  "n_pending_tx demo_fresh_node = []" "n_popped_tx demo_fresh_node = []" "n_undo demo_fresh_node = []"
  by (simp_all add: demo_fresh_node_def demo_node_def head_state_def)

lemma demo_fresh_push:
  obtains fd where "fork_push_block (node_hash demo_node_env) (demo_slot_block (Block_Id 80 0) 406) (n_fork demo_fresh_node) = Inr (Some 1, fd)"
    and "b_previous (fi_data (item fd 1)) = Block_Id 80 0"
  by (simp add: node_fork_eval demo_fresh_node_def)

lemma demo_fresh_block:
  obtains n where "push_block checked64 demo_node_env demo_skip (demo_slot_block (Block_Id 80 0) 406) demo_fresh_node = Some (Inr False, n)"
    and "n_max_undo n = 12"
proof (rule demo_fresh_push)
  fix fd
  let ?b = "demo_slot_block (Block_Id 80 0) 406" and ?n1 = "demo_fresh_node\<lparr>n_fork := fd\<rparr>"
  assume f: "fork_push_block (node_hash demo_node_env) ?b (n_fork demo_fresh_node) = Inr (Some 1, fd)"
    and p: "b_previous (fi_data (item fd 1)) = Block_Id 80 0"
  have a: "apply_block checked64 demo_block_env demo_skip ?b demo_block_database = Some (Inr (12, demo_head_state 406))"
    by (rule demo_applied_first) simp_all
  have "\<exists>n. extend_chain checked64 demo_node_env demo_skip ?b ?n1 = Some (Inr False, n) \<and> n_max_undo n = 12 \<and> n_popped_tx n = []"
    by (simp add: extend_chain_def append_block_eq demo_fresh_state a with_history_def history_size_applied [OF a] set_history_def
        leave_session_def merge_session_def start_session_def store_block_def)
  then obtain n where e: "extend_chain checked64 demo_node_env demo_skip ?b ?n1 = Some (Inr False, n)" and n: "n_max_undo n = 12" "n_popped_tx n = []"
    by blast
  have "push_block_inner checked64 demo_node_env demo_skip ?b demo_fresh_node = Some (Inr False, n)"
    using e f p by (simp add: push_block_inner_def demo_fresh_state)
  then have "push_block checked64 demo_node_env demo_skip ?b demo_fresh_node = Some (Inr False, n\<lparr>n_popped_tx := []\<rparr>)"
    by (simp add: push_block_def clear_clean restore_pending_def demo_fresh_state n)
  then show thesis by (rule that) (simp add: n)
qed

theorem pushed_block_applied_or_unwound_witness:
  "\<exists>n'. push_block checked64 demo_node_env demo_skip (demo_slot_block (Block_Id 80 0) 406) demo_fresh_node = Some (Inr False, n') \<and>
     head_state n' = demo_head_state 406"
proof (rule demo_fresh_block)
  fix n
  let ?b = "demo_slot_block (Block_Id 80 0) 406"
  assume r: "push_block checked64 demo_node_env demo_skip ?b demo_fresh_node = Some (Inr False, n)" and m: "n_max_undo n = 12"
  have f: "\<exists>h fd. fork_push_block (node_hash demo_node_env) ?b (n_fork demo_fresh_node) = Inr (Some h, fd) \<and>
      b_previous (fi_data (item fd h)) = head_block_id (dgpo (ledger (head_state demo_fresh_node)))"
    by (rule demo_fresh_push) (auto simp: demo_fresh_state)
  have "0 < n_max_undo n" "Inr False \<noteq> Inl Undefined_Behaviour" using m by simp_all
  from pushed_block_applied_or_unwound [OF clean_sessions [OF demo_fresh_clean] this r] f demo_applied_first [of demo_skip 406] r
  show ?thesis by (auto simp: demo_fresh_state)
qed

lemma demo_payment_accepted:
  "succeeds (process_transaction checked64 demo_block_env skip_transaction_signatures (signed_transaction.truncate demo_payment) demo_block_database)"
  "100 \<le> maximum_transaction_size (parameters (gpo (ledger demo_block_database)))"
  by code_simp+

lemma demo_payment_pushed:
  obtains ptx n where "push_transaction checked64 demo_node_env skip_transaction_signatures (signed_transaction.truncate demo_payment) demo_fresh_node = (Inr ptx, n)"
    and "n_pending_tx n = [ptx]"
proof -
  let ?t = "signed_transaction.truncate demo_payment"
  obtain x where x: "process_transaction checked64 demo_block_env skip_transaction_signatures ?t demo_block_database = Inr x" by (rule succeedsE [OF demo_payment_accepted(1)])
  obtain ptx d where "x = (ptx, d)" by (cases x)
  with x have p: "process_transaction checked64 demo_block_env skip_transaction_signatures ?t demo_block_database = Inr (ptx, d)" by simp
  have s: "push_transaction checked64 demo_node_env skip_transaction_signatures ?t demo_fresh_node = push_transaction_inner checked64 demo_node_env skip_transaction_signatures ?t demo_fresh_node"
    using demo_payment_accepted(2) by (simp add: push_transaction_def demo_fresh_state demo_node_env_def)
  have size: "0 < n_max_undo demo_fresh_node" by (simp add: demo_fresh_state)
  let ?r = "push_transaction_inner checked64 demo_node_env skip_transaction_signatures ?t demo_fresh_node"
  obtain k where "?r = (Inr ptx, demo_fresh_node\<lparr>n_db := d, n_pending_tx := n_pending_tx demo_fresh_node @ [ptx], n_pending_session := True,
      n_active := 1, n_undo := head_state demo_fresh_node # take k (past demo_fresh_node)\<rparr>)"
    by (rule push_inner_result [OF clean_ok(1) [OF demo_fresh_clean] size, of checked64 demo_node_env skip_transaction_signatures ?t])
      (simp only: demo_hash_eval demo_fresh_state(2) p sum.case prod.case)
  then show thesis using s that by (simp add: demo_fresh_state)
qed

theorem push_transaction_atomic_witness:
  "\<exists>ptx n'. push_transaction checked64 demo_node_env skip_transaction_signatures (signed_transaction.truncate demo_payment) demo_fresh_node = (Inr ptx, n') \<and>
     n_pending_tx n' = [ptx] \<and> head_state n' = demo_block_database"
proof (rule demo_payment_pushed)
  fix ptx n
  assume r: "push_transaction checked64 demo_node_env skip_transaction_signatures (signed_transaction.truncate demo_payment) demo_fresh_node = (Inr ptx, n)"
  have "0 < n_max_undo demo_fresh_node" "Inr ptx \<noteq> Inl Undefined_Behaviour" by (simp_all add: demo_fresh_state)
  from push_transaction_atomic [OF clean_ok(1) [OF demo_fresh_clean] this(1) r this(2)] r show ?thesis by (simp add: demo_fresh_state)
qed

theorem pending_transactions_invariant_witness:
  "\<exists>n. node_run checked64 demo_node_env demo_fresh_node n \<and> n_pending_tx n \<noteq> [] \<and> node_ok checked64 demo_node_env n \<and>
     past_ok checked64 demo_node_env n"
proof (rule demo_payment_pushed)
  fix ptx n
  assume r: "push_transaction checked64 demo_node_env skip_transaction_signatures (signed_transaction.truncate demo_payment) demo_fresh_node = (Inr ptx, n)"
    and "n_pending_tx n = [ptx]"
  have run: "node_run checked64 demo_node_env demo_fresh_node n" by (rule node_transaction [OF node_start r]) simp
  have s: "0 < n_max_undo demo_fresh_node" by (simp add: demo_fresh_state)
  have h: "past_ok checked64 demo_node_env demo_fresh_node" by (simp add: past_ok_def past_def demo_fresh_state)
  from pending_transactions_invariant [OF run clean_ok(1) [OF demo_fresh_clean] h s] run \<open>n_pending_tx n = [ptx]\<close> show ?thesis by auto
qed

section \<open>A stored block replayed\<close>

definition demo_genesis :: database where
  "demo_genesis = demo_block_database\<lparr>
     ledger := (ledger demo_block_database)\<lparr>dgpo := (dgpo demo_chain)\<lparr>head_block_number := 0, head_block_id := null_block_id,
       current_aslot := 0, last_irreversible_block_num := 0\<rparr>\<rparr>,
     block_summaries := \<lparr>g_next_id = 2, g_rows = [(0, null_block_id), (1, null_block_id)]\<rparr>\<rparr>"

lemma reindex_skip_flags [simp]:
  "skips reindex_skip skip_miner_signature" "skips reindex_skip skip_miner_schedule_check" "\<not> skips reindex_skip skip_undo_history_check"
  by code_simp+

abbreviation demo_block_one :: block where
  "demo_block_one \<equiv> demo_slot_block null_block_id 405"

lemma demo_update_one:
  "\<exists>k c. update_chain checked64 demo_block_env reindex_skip demo_block_one 1 False (ledger demo_genesis) = Inr (k, c) \<and>
     assets c = demo_assets \<and> active_miners (gpo c) = [0, 1] \<and> withdraw_permissions c = t_empty"
  by (simp add: update_eval demo_slot_block_def demo_genesis_def null_block_id_def block_id_def)

lemma demo_applied_one:
  obtains k d where "apply_block checked64 demo_block_env reindex_skip demo_block_one demo_genesis = Some (Inr (k, d))"
proof -
  obtain k c where u: "update_chain checked64 demo_block_env reindex_skip demo_block_one 1 False (ledger demo_genesis) = Inr (k, c)"
    and c: "assets c = demo_assets" "active_miners (gpo c) = [0, 1]" "withdraw_permissions c = t_empty" using demo_update_one by blast
  have "update_expired_feeds (ce_nth (de_chain (be_db demo_block_env))) c = Inr c"
    using c by (simp add: update_expired_feeds_def demo_assets_def)
  moreover have "active_miners (gpo (update_maintenance_flag False (update_withdraw_permissions c))) = [0, 1]"
    using c by (simp add: update_maintenance_flag_def update_withdraw_permissions_def)
  ultimately have "\<exists>c'. end_block demo_block_env False c = Inr c'" by (simp add: end_block_def update_miner_schedule_def Let_def)
  then obtain c' where e: "end_block demo_block_env False c = Inr c'" by blast
  let ?d = "demo_genesis\<lparr>ledger := c, block_summaries := \<lparr>g_next_id = 2, g_rows = [(0, null_block_id), (1, Block_Id 1 405)]\<rparr>\<rparr>"
  have "apply_block_with checked64 demo_block_env reindex_skip demo_block_one demo_genesis =
      Some (Inr (k, (clear_expired_transactions ?d)\<lparr>ledger := c'\<rparr>))"
  proof (rule demo_block_steps [OF _ _ _ _ u])
    show "validate_block_header demo_block_env reindex_skip demo_block_one (ledger demo_genesis) = Inr 1"
      by (simp add: validate_block_header_def demo_genesis_def demo_block_database_def demo_chain_def head_block_time_def t_get_def generic_find_def
          demo_slot_block_def)
    show "merkle_ok demo_block_env reindex_skip demo_block_one"
      by (simp add: merkle_ok_def calculate_merkle_root_def null_checksum_def demo_slot_block_def)
    show "apply_transactions checked64 demo_block_env reindex_skip demo_block_one demo_genesis = Inr demo_genesis"
      by (rule demo_no_transactions) simp
    show "\<not> next_maintenance_time (dgpo (ledger demo_genesis)) \<le> b_timestamp demo_block_one" by (simp add: demo_genesis_def demo_chain_def)
    show "create_block_summary demo_block_env demo_block_one (demo_genesis\<lparr>ledger := c\<rparr>) = Inr ?d"
      by (simp add: create_block_summary_def summary_slot_def num_from_id_def u32_def demo_genesis_def null_block_id_def
          t_modify_def generic_modify_def generic_find_def violates_unique_def del_row_def no_unique_def block_id_def)
    show "ledger ?d = c" by simp
    show "proposals ?d = t_empty" by (simp add: demo_genesis_def demo_block_database_def demo_database_def)
    show "end_block demo_block_env False c = Inr c'" by (rule e)
  qed
  then show thesis by (intro that) (simp add: demo_uncheckpointed)
qed

definition demo_stored_blocks :: block_database where
  "demo_stored_blocks = bd_store (be_header_hash demo_block_env) (\<lambda>b. [1]) (Block_Id 1 405) demo_block_one \<lparr>bd_block_num_to_pos = [], bd_blocks = []\<rparr>"

definition demo_read :: "bytes \<Rightarrow> block res" where
  "demo_read bs = (if bs = [1] then Inr demo_block_one else Inl Out_Of_Range)"

lemma demo_stored_run: "storage_run (be_header_hash demo_block_env) (\<lambda>b. [1]) demo_read demo_stored_blocks [1 \<mapsto> demo_block_one]"
proof -
  have i: "block_id (be_header_hash demo_block_env) demo_block_one = Block_Id 1 405" "block_num demo_block_one = 1"
    by (simp_all add: block_id_def u32_def num_from_id_def null_block_id_def)
  have "packable (\<lambda>b. [1]) demo_read demo_block_one" by (simp add: packable_def demo_read_def)
  from storage_store [OF storage_new this, of "be_header_hash demo_block_env"] i show ?thesis by (simp add: demo_stored_blocks_def)
qed

theorem reindex_replays_stored_blocks_witness:
  "\<exists>d bd'. reindex checked64 demo_block_env demo_read demo_genesis demo_stored_blocks = Some (Inr (d, bd')) \<and>
     bd_fetch_by_number (be_header_hash demo_block_env) demo_read 1 bd' = Some demo_block_one"
proof (rule demo_applied_one)
  fix k d
  assume "apply_block checked64 demo_block_env reindex_skip demo_block_one demo_genesis = Some (Inr (k, d))"
  then have a: "apply_blocks checked64 demo_block_env reindex_skip [demo_block_one] demo_genesis = Some (Inr d)" by simp
  have "\<not> succeeds (demo_read [])" by (simp add: demo_read_def succeeds_def)
  from reindex_replays_stored_blocks [OF this demo_stored_run _ _ a] show ?thesis by auto
qed

end
