(* ===== verification/Spec2Isabelle.thy ===== *)
theory Spec2Isabelle
  imports Undo_Sessions Object_Id Decimal Account_Name Secondary_Index Proposal_Index Fee_Schedule Node_Demo
begin

text \<open>
  \<^bold>\<open>The program.\<close> The repository is a blockchain node with a market for content. Its state is an
  object database (\<open>libraries/db\<close>): typed indexes of objects with numeric ids and an undo log. The
  chain library (\<open>libraries/chain\<close>) keeps accounts, assets, balances, content, purchases and miners
  in it. A transaction is a list of operations; each goes through the evaluator template
  (\<open>evaluator.hpp\<close>), which charges its fee and calls the evaluator's \<open>do\_evaluate\<close> and
  \<open>do\_apply\<close>. Blocks form a tree in the fork database; every block updates the dynamic properties and
  pays its miner (\<open>db\_update.cpp\<close>), and a maintenance block tallies votes, elects miners, expires
  content and purchases, renews subscriptions and sets the budget (\<open>db\_maint.cpp\<close>,
  \<open>db\_decent.cpp\<close>).

  \<^bold>\<open>Conventions.\<close> Every operation of the code is a function to \<open>err + 'a\<close>: an exception is
  \<open>Inl\<close>, with \<open>Assert_Exception\<close> for a failed \<open>FC\_ASSERT\<close>; \<open>Undefined_Behaviour\<close> marks where the code
  dereferences an end iterator or divides by zero. \<open>assert\<close> is no check: theorems show when it
  holds. Fixed-width integers are words or carry their wrap-around (\<open>u32\<close>, \<open>u64\<close>, \<open>c_div\<close>). What is not
  in the repository is a parameter: \<open>S\<close> stands for the checked arithmetic of \<open>fc::safe\<close>
  (\<open>safe_exact\<close>: a result is exact; \<open>safe_total\<close>: no overflow, no error; concretely \<open>checked64\<close>),
  \<open>K\<close> for its conversion from unsigned numbers, further ones for hashes, fork times, the URL and JSON
  parsers and the cryptographic checks.

  \<^bold>\<open>The object database.\<close> \<open>Object_Index\<close> models \<open>generic\_index.hpp\<close> and \<open>simple\_index.hpp\<close> and
  \<open>Object_Id\<close> the packed ids of \<open>object\_id.hpp\<close> with their text form. \<open>Undo_Database\<close> models
  \<open>undo\_database.cpp\<close> and \<open>object\_database.cpp\<close>; \<open>Undo_Correct\<close> proves that every logged change can
  be played back, against the abstract specification of a stack of snapshots, and \<open>Undo_Sessions\<close> that
  \<open>undo\<close>, \<open>merge\<close> and \<open>pop\_commit\<close> restore exactly the state a session started from, that reachable
  logs satisfy the invariant, and where undo fails.

  \<^bold>\<open>Values.\<close> \<open>Asset\<close> models \<open>protocol/asset.cpp\<close> with its 128-bit products: prices are ordered as
  rational numbers and a conversion there and back never gains. \<open>Exchange\<close> models the conversions of
  \<open>asset\_object.hpp\<close>, \<open>Decimal\<close> printed amounts, \<open>Vesting\<close> the three vesting policies of
  \<open>vesting\_balance\_object.cpp\<close>: never more than the balance, everything after the period.

  \<^bold>\<open>The chain state.\<close> \<open>Tables\<close> instantiates an index as a table with sums over it, \<open>Chain_State\<close> holds
  the objects and the record of all tables, \<open>Balance\<close> models \<open>db\_balance.cpp\<close> and states the ledger
  contract, \<open>Demo_Chain\<close> a small state on which the witnesses evaluate.

  \<^bold>\<open>Operations.\<close> \<open>Evaluator\<close> models the template and the movement of fees; the locale
  \<open>evaluator_contract\<close> is the interface between the template and an evaluator, which says by how much
  it changes what is held of each asset. \<open>holdings\<close> adds up balances, vesting balances, escrows and
  pools. \<open>Transfer_Evaluator\<close>, \<open>Asset_Evaluator\<close>, \<open>Vesting_Evaluator\<close>, \<open>Withdraw_Permission\<close>,
  \<open>Subscription\<close>, \<open>Account\<close>, \<open>Miner_Evaluator\<close> and \<open>Nft\<close> model the evaluator files of these names with
  their validations, discharge the contract where they move money and prove the exact effect of the
  operations: conservation, limits of supply and of permissions (over histories of claims), who is paid
  what, well-formed accounts, uniqueness of token data. \<open>Account_Name\<close> models the loops over account names and proves
  what names they accept. \<open>Content\<close> models \<open>decent\_evaluator.cpp\<close>, \<open>protocol/decent.cpp\<close> and
  \<open>content\_object.cpp\<close>; \<open>Content_Correct\<close> states the contract of evaluators that rely on an invariant
  of the chain (an open purchase holds in escrow what its authors will get) and \<open>Content_Run\<close> proves
  over an inductive relation of runs that every asset is conserved, and that custody proofs are paid
  within the escrow. \<open>Secondary_Index\<close> models the observers of indexes of \<open>index.hpp\<close> and the index of
  accounts by member; \<open>Proposal_Index\<close> the one of proposals by required account. \<open>Fee_Schedule\<close>
  (\<open>fee\_schedule.cpp\<close> and the \<open>calculate\_fee\<close> of the operations) computes what the evaluator template
  takes as the required fee, and proves that a fee in another asset is the least that is enough.

  \<^bold>\<open>Authorities and proposals.\<close> \<open>Authority\<close> models \<open>authority.hpp\<close>, \<open>sign\_state\<close> and
  \<open>verify\_authority\<close> of \<open>protocol/transaction.cpp\<close>; \<open>Authority_Correct\<close> gives an inductive meaning to
  "these keys satisfy this authority" and proves that the code implements it and accepts a transaction
  only when every required authority is satisfied. \<open>Operations\<close> puts all operations into one type, with
  their fee payers and required authorities. \<open>Proposal\<close> models \<open>proposal\_evaluator.cpp\<close>,
  \<open>proposal\_object.cpp\<close>, \<open>push\_proposal\<close> and \<open>clear\_expired\_proposals\<close>; \<open>Proposal_Correct\<close> proves that
  proposals never nest, by which ways a proposal can disappear, and that the loop over expired ones
  ends.

  \<^bold>\<open>Blocks.\<close> \<open>Block\<close> models \<open>protocol/block.cpp\<close>: the Merkle loop computes the root of a tree, and the
  root binds the transactions. \<open>Fork_Database\<close> models \<open>fork\_database.cpp\<close> over an explicit store of
  shared items: the tree invariant, the longest branch as head, and termination and result of
  \<open>fetch\_branch\_from\<close>. \<open>Block_Database\<close> models the two files of \<open>block\_database.cpp\<close> and proves that they
  implement a map from numbers to blocks. \<open>Miner_Schedule\<close> models \<open>db\_miner\_schedule.cpp\<close>: slots and
  times, and the fairness of the shuffle. \<open>Housekeeping\<close> (\<open>db\_decent.cpp\<close>), \<open>Chain_Update\<close>
  (\<open>db\_update.cpp\<close>) and \<open>Maintenance\<close> (\<open>db\_maint.cpp\<close>, \<open>vote\_count.hpp\<close>) model what blocks and
  maintenance do: expiry and renewal move money and make none, the last irreversible block has the
  confirmations it needs, the budget equals the sum of the block rewards, the supply it records on
  balanced books is the real one, less what the count of the code adds of other assets, the election
  seats the number of miners the stake wants, at least the minimum, and the most voted ones. \<open>Block_Application\<close> models
  \<open>apply\_transaction\<close> and \<open>apply\_block\<close> of \<open>db\_block.cpp\<close> with skip flags and checkpoints;
  \<open>Block_Correct\<close> proves that applying a block returns, that it builds on the head and becomes it, that
  no transaction is applied twice and that transactions refer to blocks of the chain they are in.

  \<^bold>\<open>The node.\<close> \<open>Chain_Node\<close> models the rest of \<open>db\_block.cpp\<close>, \<open>db\_with.hpp\<close> and \<open>close\<close>: the record
  \<open>node\<close> holds the database, the stack of undo snapshots, fork database, stored blocks and pending
  transactions, and the operations are \<open>push\_transaction\<close>, \<open>validate\_transaction\<close>, \<open>push\_block\<close> with
  its fork switches and their recovery, \<open>pop\_block\<close>, \<open>clear\_pending\<close> and \<open>generate\_block\<close>. An operation
  returns the value or the exception together with the state it leaves. The state in which a transaction
  or a block breaks off when it raises is not tracked inside \<open>Block_Application\<close>; the node takes an
  arbitrary one (\<open>ne_partial_trx\<close>, \<open>ne_partial_block\<close>), so that only the sessions can bring the old
  state back. The undo database appears as the stack of snapshots of \<open>Undo_Correct\<close>; that the log
  restores a snapshot rests on the conditions stated there. \<open>Chain_Node_Correct\<close> proves that
  transactions are pushed atomically, that blocks are applied or unwound, and the invariant that the
  database is the state of the head with the pending transactions applied while the saved states follow
  each other by one block each; the locale \<open>block_invariant\<close> carries such an invariant through the
  operations of the node. \<open>Fork_Switch\<close> proves what state a switch leads to, that a failed one is taken
  back, and where the head of the fork database goes astray. \<open>Chain_Replay\<close> models \<open>reindex\<close> of
  \<open>db\_management.cpp\<close>: it gives the state of the stored blocks up to the first gap.

  \<^bold>\<open>The components together.\<close> \<open>Chain_Run\<close> dispatches operations to their evaluators and defines the runs
  of a chain: operations, the updates of every block and maintenance in any order. The theorem below
  shows that the books of the core asset stay balanced over every such run, which is what the assertion
  of the budget relies on. The runs leave out the creation of an asset with a fee that is odd or paid in
  another asset, because it mints (shown in \<open>Asset_Evaluator\<close>), and purchases of content priced in
  monitored assets, which convert without pools. \<open>Demo_Chain\<close>, \<open>Block_Demo\<close> and \<open>Node_Demo\<close> hold the concrete states of the witnesses.

  \<^bold>\<open>Loops and fuel.\<close> Loops are structural recursions or functions with a measure. Five loops may not end
  on an arbitrary state and are partial functions to an option, with theorems that they return: the two
  walks of the fork database up the links of its items (on every well-formed tree), the loop over
  expired proposals and with it the application of a block (when no proposal proposes to approve
  proposals, which is an invariant), the removal of blocks behind a gap (on every file written by
  the program), and the loop that rounds a converted fee up (at every positive rate of the core asset
  to another). The execution of a proposal from within an approval has a depth; depth one is enough by
  the same invariant. No other fuel is used.

  \<^bold>\<open>Not modelled.\<close> The packed sizes that some fees depend on come from \<open>fc\<close>, and \<open>set\_fee\<close>, which a wallet
  uses to write a fee into an operation, is left out. Genesis and the opening of files: the state they
  give is an argument where it matters. Notifications of plugins; what they write is not part of the
  state. Read-only queries. Outside the chain: network, application and
  API, wallet, plugins, encryption, packaging and utilities, which are I/O, clients, third-party
  cryptography or data.
\<close>

section \<open>The books of the core asset\<close>


definition demo_books_chain :: chain where
  "demo_books_chain = demo_bought_chain\<lparr>asset_dyn := \<lparr>g_next_id = 2, g_rows =
     [(0, \<lparr>current_supply = 1640, asset_pool = 0, core_pool = 0\<rparr>), (1, \<lparr>current_supply = 700, asset_pool = 100, core_pool = 200\<rparr>)]\<rparr>\<rparr>"

lemma demo_books_chain_ok: "chain_ok demo_books_chain"
  by (rule chain_ok_rows) code_simp

lemma demo_books_accepted:
  "succeeds (apply_operation checked64 demo_trx demo_chain_env (On_Content (Deliver demo_delivery)) demo_books_chain)"
  by code_simp


end
